(* ===== verification/Yap_Prelude.thy ===== *)
theory Yap_Prelude
  imports Main "HOL-Library.Word" "HOL-Library.Multiset"
begin

text \<open>
  Shared vocabulary of the development: bytes and machine words, the result
  type of fallible operations, byte-string slices and the facts about lists
  that every component uses. Nothing in this theory models code of the
  repository by itself, except the C library routines that all of its files
  call (\<open>qsort\<close>, C strings).
\<close>

unbundle bit_operations_syntax

named_theorems codec_simps \<open>lengths and round trips of byte encoders\<close>
named_theorems at_simps \<open>decomposition of an encoded byte string inside a buffer\<close>
named_theorems result_simps \<open>case analysis on results\<close>

type_synonym byte = "8 word"
type_synonym bytes = "8 word list"
type_synonym u16 = "16 word"
type_synonym u32 = "32 word"
type_synonym u64 = "64 word"

abbreviation SIZE_MAX :: nat where
  "SIZE_MAX \<equiv> 18446744073709551615"

abbreviation UINT32_MAX :: nat where
  "UINT32_MAX \<equiv> 4294967295"

abbreviation INT32_MAX :: nat where
  "INT32_MAX \<equiv> 2147483647"

text \<open>\<open>size_t\<close> subtraction.\<close>

definition size_sub :: "nat \<Rightarrow> nat \<Rightarrow> nat" where
  "size_sub a b = (a + 2 ^ 64 - b) mod 2 ^ 64"

lemma size_sub_le: "b \<le> a \<Longrightarrow> a < 2 ^ 64 \<Longrightarrow> size_sub a b = a - b"
proof -
  assume "b \<le> a" "a < 2 ^ 64"
  then have "a + 2 ^ 64 - b = (a - b) + 2 ^ 64" "a - b < 2 ^ 64" by auto
  then show ?thesis by (simp only: size_sub_def mod_add_self2 mod_less)
qed

subsection \<open>Results\<close>

text \<open>
  A C function that returns a status and fills output parameters is a function
  into \<open>'e + 'a\<close>: \<open>Inl\<close> is a failing status, \<open>Inr\<close> the outputs on success.
\<close>

fun rbind :: "'e + 'a \<Rightarrow> ('a \<Rightarrow> 'e + 'b) \<Rightarrow> 'e + 'b" where
  "rbind (Inl e) f = Inl e"
| "rbind (Inr x) f = f x"

lemma rbind_Inr_iff [result_simps]:
  "rbind m f = Inr y \<longleftrightarrow> (\<exists>x. m = Inr x \<and> f x = Inr y)"
  by (cases m) auto

lemma rbind_Inl_iff [result_simps]:
  "rbind m f = Inl e \<longleftrightarrow> m = Inl e \<or> (\<exists>x. m = Inr x \<and> f x = Inl e)"
  by (cases m) auto

lemma rbind_assoc: "rbind (rbind m f) g = rbind m (\<lambda>x. rbind (f x) g)"
  by (cases m) auto

lemma rbind_cong [fundef_cong]:
  "m = m' \<Longrightarrow> (\<And>x. m' = Inr x \<Longrightarrow> f x = f' x) \<Longrightarrow> rbind m f = rbind m' f'"
  by (cases m') auto

subsection \<open>A byte string at an offset of a buffer\<close>

definition occurs_at :: "'a list \<Rightarrow> nat \<Rightarrow> 'a list \<Rightarrow> bool" where
  "occurs_at d off xs \<longleftrightarrow> off + length xs \<le> length d \<and> take (length xs) (drop off d) = xs"

lemma occurs_at_Nil [simp]: "occurs_at d off [] \<longleftrightarrow> off \<le> length d"
  by (simp add: occurs_at_def)

lemma occurs_at_append [at_simps]:
  "occurs_at d off (xs @ ys) \<longleftrightarrow> occurs_at d off xs \<and> occurs_at d (off + length xs) ys"
proof -
  have "take (length xs + length ys) (drop off d) =
        take (length xs) (drop off d) @ take (length ys) (drop (off + length xs) d)"
    by (simp add: take_add add.commute)
  moreover have "length (take (length xs) (drop off d)) = length xs"
    if "off + length xs \<le> length d"
    using that by simp
  ultimately show ?thesis
    unfolding occurs_at_def by (auto simp del: length_take)
qed

lemma occurs_at_self [simp]: "occurs_at (xs @ ys) 0 xs"
  by (simp add: occurs_at_def)

lemma occurs_at_middle [simp]: "occurs_at (xs @ ys @ zs) (length xs) ys"
  by (simp add: occurs_at_def)

lemma occurs_at_whole [simp]: "occurs_at xs 0 xs"
  by (simp add: occurs_at_def)

lemma occurs_at_shift [simp]:
  "occurs_at (xs @ ys) (length xs + off) zs \<longleftrightarrow> occurs_at ys off zs"
  by (auto simp: occurs_at_def)

lemma occurs_at_drop: "occurs_at d off xs \<Longrightarrow> \<exists>rest. drop off d = xs @ rest"
  by (metis append_take_drop_id occurs_at_def)

lemma occurs_at_bound: "occurs_at d off xs \<Longrightarrow> off + length xs \<le> length d"
  by (simp add: occurs_at_def)

lemma occurs_at_take: "occurs_at d off xs \<Longrightarrow> take (length xs) (drop off d) = xs"
  by (simp add: occurs_at_def)

lemma occurs_at_nth:
  "occurs_at d off xs \<Longrightarrow> i < length xs \<Longrightarrow> d ! (off + i) = xs ! i"
  by (metis (no_types, lifting) add_leD1 nth_append nth_drop occurs_at_def occurs_at_drop)

subsection \<open>C strings\<close>

text \<open>
  A \<open>char\<close> array that holds a string is the list of its bytes up to, and not
  including, the first zero byte.
\<close>

definition c_string :: "bytes \<Rightarrow> bytes" where
  "c_string s = takeWhile (\<lambda>b. b \<noteq> 0) s"

lemma c_string_id: "0 \<notin> set s \<Longrightarrow> c_string s = s"
  unfolding c_string_def by (induction s) auto

lemma c_string_no_nul [simp]: "0 \<notin> set (c_string s)"
  unfolding c_string_def by (auto dest: set_takeWhileD)

definition ascii :: "string \<Rightarrow> bytes" where
  "ascii s = map of_char s"

lemma length_ascii [simp]: "length (ascii s) = length s"
  by (simp add: ascii_def)

subsection \<open>The C library's \<open>qsort\<close>\<close>

text \<open>
  \<open>qsort\<close> promises a permutation of its input in which the comparison never
  decreases. \<open>qsort_contract\<close> states the promise; \<open>qsort_by\<close> (insertion sort) is
  the executable instance the models run.
\<close>

locale qsort_contract =
  fixes qs :: "('a \<Rightarrow> 'a \<Rightarrow> int) \<Rightarrow> 'a list \<Rightarrow> 'a list"
  assumes qs_mset: "mset (qs cmp xs) = mset xs"
    and qs_sorted: "(\<And>x y. x \<in> set xs \<Longrightarrow> y \<in> set xs \<Longrightarrow> cmp x y \<le> 0 \<or> cmp y x \<le> 0) \<Longrightarrow>
      (\<And>x y z. x \<in> set xs \<Longrightarrow> y \<in> set xs \<Longrightarrow> z \<in> set xs \<Longrightarrow>
         cmp x y \<le> 0 \<Longrightarrow> cmp y z \<le> 0 \<Longrightarrow> cmp x z \<le> 0) \<Longrightarrow>
      sorted_wrt (\<lambda>x y. cmp x y \<le> 0) (qs cmp xs)"
begin

lemma qs_set: "set (qs cmp xs) = set xs"
  by (metis qs_mset set_mset_mset)

lemma qs_length: "length (qs cmp xs) = length xs"
  by (metis qs_mset size_mset)

lemma qs_distinct: "distinct (qs cmp xs) \<longleftrightarrow> distinct xs"
  by (metis qs_mset mset_eq_imp_distinct_iff)

end

fun insert_by :: "('a \<Rightarrow> 'a \<Rightarrow> int) \<Rightarrow> 'a \<Rightarrow> 'a list \<Rightarrow> 'a list" where
  "insert_by cmp x [] = [x]"
| "insert_by cmp x (y # ys) = (if cmp x y \<le> 0 then x # y # ys else y # insert_by cmp x ys)"

fun qsort_by :: "('a \<Rightarrow> 'a \<Rightarrow> int) \<Rightarrow> 'a list \<Rightarrow> 'a list" where
  "qsort_by cmp [] = []"
| "qsort_by cmp (x # xs) = insert_by cmp x (qsort_by cmp xs)"

lemma mset_insert_by: "mset (insert_by cmp x xs) = add_mset x (mset xs)"
  by (induction xs) auto

lemma mset_qsort_by: "mset (qsort_by cmp xs) = mset xs"
  by (induction xs) (auto simp: mset_insert_by)

lemma set_insert_by: "set (insert_by cmp x xs) = insert x (set xs)"
  by (induction xs) auto

lemma set_qsort_by: "set (qsort_by cmp xs) = set xs"
  by (induction xs) (auto simp: set_insert_by)

lemma sorted_insert_by:
  assumes "\<And>a b. a \<in> insert x (set xs) \<Longrightarrow> b \<in> insert x (set xs) \<Longrightarrow> cmp a b \<le> 0 \<or> cmp b a \<le> 0"
    and "\<And>a b c. a \<in> insert x (set xs) \<Longrightarrow> b \<in> insert x (set xs) \<Longrightarrow> c \<in> insert x (set xs) \<Longrightarrow>
      cmp a b \<le> 0 \<Longrightarrow> cmp b c \<le> 0 \<Longrightarrow> cmp a c \<le> 0"
    and "sorted_wrt (\<lambda>a b. cmp a b \<le> 0) xs"
  shows "sorted_wrt (\<lambda>a b. cmp a b \<le> 0) (insert_by cmp x xs)"
  using assms
proof (induction xs)
  case Nil
  show ?case by simp
next
  case (Cons y ys)
  have tr: "\<And>a b c. a \<in> insert x (set (y # ys)) \<Longrightarrow> b \<in> insert x (set (y # ys)) \<Longrightarrow>
      c \<in> insert x (set (y # ys)) \<Longrightarrow> cmp a b \<le> 0 \<Longrightarrow> cmp b c \<le> 0 \<Longrightarrow> cmp a c \<le> 0"
    by (rule Cons.prems(2))
  have ys: "\<forall>z\<in>set ys. cmp y z \<le> 0" "sorted_wrt (\<lambda>a b. cmp a b \<le> 0) ys"
    using Cons.prems(3) by auto
  show ?case
  proof (cases "cmp x y \<le> 0")
    case True
    then have "\<forall>z\<in>set ys. cmp x z \<le> 0"
      using ys(1) tr[of x y] by auto
    with True ys show ?thesis by simp
  next
    case False
    then have "cmp y x \<le> 0"
      using Cons.prems(1)[of x y] by auto
    moreover have "sorted_wrt (\<lambda>a b. cmp a b \<le> 0) (insert_by cmp x ys)"
    proof (rule Cons.IH)
      show "cmp a b \<le> 0 \<or> cmp b a \<le> 0" if "a \<in> insert x (set ys)" "b \<in> insert x (set ys)" for a b
        using that by (intro Cons.prems(1)) auto
      show "cmp a c \<le> 0" if "a \<in> insert x (set ys)" "b \<in> insert x (set ys)"
        "c \<in> insert x (set ys)" "cmp a b \<le> 0" "cmp b c \<le> 0" for a b c
        using that by (intro tr[of a b c]) auto
    qed (rule ys(2))
    ultimately show ?thesis
      using False ys(1) by (auto simp: set_insert_by)
  qed
qed

lemma sorted_qsort_by:
  assumes "\<And>a b. a \<in> set xs \<Longrightarrow> b \<in> set xs \<Longrightarrow> cmp a b \<le> 0 \<or> cmp b a \<le> 0"
    and "\<And>a b c. a \<in> set xs \<Longrightarrow> b \<in> set xs \<Longrightarrow> c \<in> set xs \<Longrightarrow>
      cmp a b \<le> 0 \<Longrightarrow> cmp b c \<le> 0 \<Longrightarrow> cmp a c \<le> 0"
  shows "sorted_wrt (\<lambda>a b. cmp a b \<le> 0) (qsort_by cmp xs)"
  using assms
proof (induction xs)
  case Nil
  show ?case by simp
next
  case (Cons x xs)
  have tot: "cmp a b \<le> 0 \<or> cmp b a \<le> 0" if "a \<in> insert x (set xs)" "b \<in> insert x (set xs)" for a b
    using that by (intro Cons.prems(1)) auto
  have tr: "cmp a c \<le> 0" if "a \<in> insert x (set xs)" "b \<in> insert x (set xs)"
    "c \<in> insert x (set xs)" "cmp a b \<le> 0" "cmp b c \<le> 0" for a b c
    using that by (intro Cons.prems(2)[of a b c]) auto
  have "sorted_wrt (\<lambda>a b. cmp a b \<le> 0) (qsort_by cmp xs)"
  proof (rule Cons.IH)
    show "cmp a b \<le> 0 \<or> cmp b a \<le> 0" if "a \<in> set xs" "b \<in> set xs" for a b
      using that by (intro tot) auto
    show "cmp a c \<le> 0" if "a \<in> set xs" "b \<in> set xs" "c \<in> set xs" "cmp a b \<le> 0" "cmp b c \<le> 0"
      for a b c using that by (intro tr[of a b c]) auto
  qed
  then have "sorted_wrt (\<lambda>a b. cmp a b \<le> 0) (insert_by cmp x (qsort_by cmp xs))"
  proof (rule sorted_insert_by[rotated 2])
    show "cmp a b \<le> 0 \<or> cmp b a \<le> 0"
      if "a \<in> insert x (set (qsort_by cmp xs))" "b \<in> insert x (set (qsort_by cmp xs))" for a b
      using that by (intro tot) (auto simp: set_qsort_by)
    show "cmp a c \<le> 0"
      if "a \<in> insert x (set (qsort_by cmp xs))" "b \<in> insert x (set (qsort_by cmp xs))"
        "c \<in> insert x (set (qsort_by cmp xs))" "cmp a b \<le> 0" "cmp b c \<le> 0" for a b c
      using that by (intro tr[of a b c]) (auto simp: set_qsort_by)
  qed
  then show ?case by simp
qed

interpretation libc: qsort_contract qsort_by
proof
  show "mset (qsort_by cmp xs) = mset xs" for cmp :: "'a \<Rightarrow> 'a \<Rightarrow> int" and xs
    by (rule mset_qsort_by)
  show "sorted_wrt (\<lambda>x y. cmp x y \<le> 0) (qsort_by cmp xs)"
    if "\<And>x y. x \<in> set xs \<Longrightarrow> y \<in> set xs \<Longrightarrow> cmp x y \<le> 0 \<or> cmp y x \<le> 0"
      and "\<And>x y z. x \<in> set xs \<Longrightarrow> y \<in> set xs \<Longrightarrow> z \<in> set xs \<Longrightarrow>
         cmp x y \<le> 0 \<Longrightarrow> cmp y z \<le> 0 \<Longrightarrow> cmp x z \<le> 0"
    for cmp :: "'a \<Rightarrow> 'a \<Rightarrow> int" and xs
    using that by (rule sorted_qsort_by)
qed

subsection \<open>The best of several lists\<close>

lemma sorted_unique:
  "mset xs = mset ys \<Longrightarrow> \<forall>x\<in>set xs. \<forall>y\<in>set xs. R x y \<longrightarrow> \<not> R y x \<Longrightarrow> sorted_wrt R xs \<Longrightarrow> sorted_wrt R ys \<Longrightarrow> xs = ys"
proof (induction xs arbitrary: ys)
  case (Cons x xs)
  have "ys \<noteq> []" using Cons.prems(1) by auto
  then obtain y zs where ys: "ys = y # zs" by (cases ys) auto
  have st: "set (y # zs) = set (x # xs)" using mset_eq_setD[OF Cons.prems(1)] by (simp only: ys)
  have "x = y"
  proof (rule ccontr)
    assume "x \<noteq> y"
    then have "x \<in> set zs" "y \<in> set xs" using st by auto
    then have "R y x" "R x y" using Cons.prems(3,4) ys by auto
    then show False using Cons.prems(2) \<open>y \<in> set xs\<close> by auto
  qed
  then show ?case using Cons.IH[of zs] Cons.prems by (auto simp: ys)
qed simp

text \<open>Elements behind at least \<open>k\<close> others do not change the first \<open>k\<close>.\<close>

lemma take_filter_top:
  assumes s: "sorted_wrt R Z" and asym: "\<forall>x\<in>set Z. \<forall>y\<in>set Z. R x y \<longrightarrow> \<not> R y x"
    and behind: "\<And>x. x \<in> set Z \<Longrightarrow> \<not> P x \<Longrightarrow> k \<le> card {y \<in> set Z. R y x}"
  shows "take k (filter P Z) = take k Z"
proof -
  have P: "P x" if h: "x \<in> set (take k Z)" for x
  proof (rule ccontr)
    assume "\<not> P x"
    obtain j where j: "j < k" "j < length Z" "x = Z ! j" using h by (auto simp: in_set_conv_nth)
    have "y \<in> set (take j Z)" if y: "y \<in> set Z" "R y x" for y
    proof -
      obtain i where i: "i < length Z" "y = Z ! i" using y(1) by (auto simp: in_set_conv_nth)
      have "\<not> j \<le> i"
      proof
        assume "j \<le> i"
        then have "i = j \<or> R (Z ! j) (Z ! i)" using s i(1) by (auto simp: sorted_wrt_iff_nth_less le_less)
        moreover have "Z ! j \<in> set Z" "Z ! i \<in> set Z" using i j by simp_all
        ultimately show False using asym y(2) unfolding i(2) j(3) by metis
      qed
      then show ?thesis using i j(2) nth_mem[of i "take j Z"] by simp
    qed
    then have "{y \<in> set Z. R y x} \<subseteq> set (take j Z)" by blast
    then have "card {y \<in> set Z. R y x} \<le> card (set (take j Z))" by (intro card_mono) auto
    also have "\<dots> \<le> j" using card_length[of "take j Z"] by simp
    finally have "card {y \<in> set Z. R y x} \<le> j" .
    moreover have "k \<le> card {y \<in> set Z. R y x}" using behind \<open>\<not> P x\<close> j by auto
    ultimately show False using j(1) by simp
  qed
  have "filter P Z = filter P (take k Z) @ filter P (drop k Z)" by (metis append_take_drop_id filter_append)
  also have "filter P (take k Z) = take k Z" using P by (simp add: filter_id_conv)
  finally show ?thesis
    by (cases "length Z \<le> k") simp_all
qed

lemma merge_top_k:
  assumes "sorted_wrt R Z" "sorted_wrt R S" "mset Z = mset C + mset B" "mset S = mset C" "distinct Z"
    and asym: "\<forall>x\<in>set Z. \<forall>y\<in>set Z. R x y \<longrightarrow> \<not> R y x"
    and behind: "\<And>x. x \<in> set B \<Longrightarrow> k \<le> card {y \<in> set C. R y x}"
  shows "take k S = take k Z"
proof -
  have sets: "set Z = set C \<union> set B" "set S = set C" using assms(3,4) by (metis set_mset_mset set_mset_union)+
  have d: "distinct (C @ B)" using assms(3,5) by (metis mset_append mset_eq_imp_distinct_iff)
  have "mset (filter (\<lambda>x. x \<in> set C) Z) = filter_mset (\<lambda>x. x \<in> set C) (mset (C @ B))"
    by (simp only: mset_filter assms(3) mset_append)
  also have "\<dots> = mset (filter (\<lambda>x. x \<in> set C) (C @ B))" by (simp only: mset_filter)
  also have "filter (\<lambda>x. x \<in> set C) (C @ B) = C" using d by (auto simp: filter_empty_conv filter_id_conv)
  finally have "mset S = mset (filter (\<lambda>x. x \<in> set C) Z)" using assms(4) by simp
  moreover have "sorted_wrt R (filter (\<lambda>x. x \<in> set C) Z)" using assms(1) by (rule sorted_wrt_filter)
  ultimately have S: "S = filter (\<lambda>x. x \<in> set C) Z"
    using asym sets assms(2) by (intro sorted_unique) auto
  show ?thesis unfolding S
  proof (rule take_filter_top[OF assms(1) asym])
    fix x assume x: "x \<in> set Z" "\<not> x \<in> set C"
    then have "k \<le> card {y \<in> set C. R y x}" using behind sets by auto
    also have "\<dots> \<le> card {y \<in> set Z. R y x}" by (rule card_mono) (auto simp: sets)
    finally show "k \<le> card {y \<in> set Z. R y x}" .
  qed
qed

end
