(* ===== verification/Codec.thy ===== *)
theory Codec
  imports Yap_Prelude
begin

text \<open>
  The little-endian integer codecs, the CRC-32C checksum and the FNV-1a hash
  that the storage files define for themselves
  (\<open>yappo_storage_v2.c\<close>, \<open>yappo_manifest_v2.c\<close>, \<open>yappo_segment_v2.c\<close>,
  \<open>yappo_lexical_v2.c\<close>, \<open>yappo_update_wal_v2.c\<close>). A pointer into a buffer is
  the rest of the buffer from there: \<open>get_u32_le (drop off data)\<close> is the C
  \<open>get_u32_le(data + off)\<close>.
\<close>

subsection \<open>Little-endian integers\<close>

definition put_u16_le :: "u16 \<Rightarrow> bytes" where
  "put_u16_le v = [ucast (v AND 0xff), ucast (drop_bit 8 v AND 0xff)]"

definition put_u32_le :: "u32 \<Rightarrow> bytes" where
  "put_u32_le v =
     [ucast (v AND 0xff), ucast (drop_bit 8 v AND 0xff),
      ucast (drop_bit 16 v AND 0xff), ucast (drop_bit 24 v AND 0xff)]"

definition put_u64_le :: "u64 \<Rightarrow> bytes" where
  "put_u64_le v = map (\<lambda>i. ucast (drop_bit (i * 8) v AND 0xff)) [0, 1, 2, 3, 4, 5, 6, 7]"

definition get_u16_le :: "bytes \<Rightarrow> u16" where
  "get_u16_le d = ucast (d ! 0) OR push_bit 8 (ucast (d ! 1))"

definition get_u32_le :: "bytes \<Rightarrow> u32" where
  "get_u32_le d =
     ucast (d ! 0) OR push_bit 8 (ucast (d ! 1)) OR push_bit 16 (ucast (d ! 2)) OR
     push_bit 24 (ucast (d ! 3))"

definition get_u64_le :: "bytes \<Rightarrow> u64" where
  "get_u64_le d = fold (\<lambda>i v. v OR push_bit (i * 8) (ucast (d ! i))) [0, 1, 2, 3, 4, 5, 6, 7] 0"

text \<open>What every fixed-width integer codec promises to its clients.\<close>

locale word_codec =
  fixes put :: "'w \<Rightarrow> bytes" and get :: "bytes \<Rightarrow> 'w" and width :: nat
  assumes length_put: "length (put v) = width"
    and get_put: "get (put v @ rest) = v"
begin

lemma get_at: "occurs_at d off (put v) \<Longrightarrow> get (drop off d) = v"
  by (metis get_put occurs_at_drop)

lemma put_inj: "put v = put w \<Longrightarrow> v = w"
  by (metis get_put)

lemma at_fits: "occurs_at d off (put v) \<Longrightarrow> off + width \<le> length d"
  by (metis length_put occurs_at_bound)

end

lemma length_put_u16_le [simp, codec_simps]: "length (put_u16_le v) = 2"
  by (simp add: put_u16_le_def)

lemma length_put_u32_le [simp, codec_simps]: "length (put_u32_le v) = 4"
  by (simp add: put_u32_le_def)

lemma length_put_u64_le [simp, codec_simps]: "length (put_u64_le v) = 8"
  by (simp add: put_u64_le_def)

lemma ucast_and_ff: "(ucast (x AND 0xff) :: byte) = ucast (x :: 'a::len word)"
proof -
  have ff: "(0xff :: 'a word) = mask 8" by (simp add: mask_eq_exp_minus_1)
  show ?thesis
    unfolding ff by (intro bit_word_eqI) (auto simp: bit_simps dest: bit_imp_le_length)
qed

lemma bit_byte_piece:
  "bit (push_bit k (ucast (ucast (drop_bit k v) :: byte)) :: 'a::len word) n \<longleftrightarrow>
     k \<le> n \<and> n < k + 8 \<and> bit (v :: 'a word) n"
  by (auto simp: bit_simps dest: bit_imp_le_length)

lemma bit_byte_piece0:
  "bit (ucast (ucast v :: byte) :: 'a::len word) n \<longleftrightarrow> n < 8 \<and> bit (v :: 'a word) n"
  by (auto simp: bit_simps dest: bit_imp_le_length)

lemma get_put_u16_le [simp, codec_simps]: "get_u16_le (put_u16_le v @ rest) = v"
proof (rule bit_word_eqI)
  fix n assume "n < LENGTH(16)"
  then have "n < 8 \<or> 8 \<le> n \<and> n < 16" by auto
  then show "bit (get_u16_le (put_u16_le v @ rest)) n = bit v n"
    unfolding get_u16_le_def put_u16_le_def ucast_and_ff
    by (simp add: bit_or_iff bit_byte_piece bit_byte_piece0) auto
qed

lemma get_put_u32_le [simp, codec_simps]: "get_u32_le (put_u32_le v @ rest) = v"
proof (rule bit_word_eqI)
  fix n assume "n < LENGTH(32)"
  then have "n < 8 \<or> 8 \<le> n \<and> n < 16 \<or> 16 \<le> n \<and> n < 24 \<or> 24 \<le> n \<and> n < 32" by auto
  then show "bit (get_u32_le (put_u32_le v @ rest)) n = bit v n"
    unfolding get_u32_le_def put_u32_le_def ucast_and_ff
    by (simp add: bit_or_iff bit_byte_piece bit_byte_piece0) auto
qed

lemma get_put_u64_le [simp, codec_simps]: "get_u64_le (put_u64_le v @ rest) = v"
proof (rule bit_word_eqI)
  fix n assume "n < LENGTH(64)"
  then have "n < 8 \<or> 8 \<le> n \<and> n < 16 \<or> 16 \<le> n \<and> n < 24 \<or> 24 \<le> n \<and> n < 32 \<or>
    32 \<le> n \<and> n < 40 \<or> 40 \<le> n \<and> n < 48 \<or> 48 \<le> n \<and> n < 56 \<or> 56 \<le> n \<and> n < 64" by auto
  then show "bit (get_u64_le (put_u64_le v @ rest)) n = bit v n"
    unfolding get_u64_le_def put_u64_le_def ucast_and_ff
    by (simp add: bit_or_iff bit_byte_piece bit_byte_piece0) auto
qed

interpretation u16: word_codec put_u16_le get_u16_le 2
  by unfold_locales simp_all

interpretation u32: word_codec put_u32_le get_u32_le 4
  by unfold_locales simp_all

interpretation u64: word_codec put_u64_le get_u64_le 8
  by unfold_locales simp_all

text \<open>
  The write-ahead log and the lexical files have their own copies of the codecs, which truncate by a
  cast to \<open>unsigned char\<close> instead of masking.
\<close>

definition put_u32 :: "u32 \<Rightarrow> bytes" where
  "put_u32 v = [ucast v, ucast (drop_bit 8 v), ucast (drop_bit 16 v), ucast (drop_bit 24 v)]"

definition put_u64 :: "u64 \<Rightarrow> bytes" where
  "put_u64 v = map (\<lambda>i. ucast (drop_bit (i * 8) v)) [0, 1, 2, 3, 4, 5, 6, 7]"

definition get_u32 :: "bytes \<Rightarrow> u32" where
  "get_u32 d = ucast (d ! 0) OR push_bit 8 (ucast (d ! 1)) OR push_bit 16 (ucast (d ! 2)) OR
     push_bit 24 (ucast (d ! 3))"

definition get_u64 :: "bytes \<Rightarrow> u64" where
  "get_u64 d = fold (\<lambda>i v. v OR push_bit (i * 8) (ucast (d ! i))) [0, 1, 2, 3, 4, 5, 6, 7] 0"

lemma put_u32_eq: "put_u32 v = put_u32_le v"
  by (simp add: put_u32_def put_u32_le_def ucast_and_ff)

lemma put_u64_eq: "put_u64 v = put_u64_le v"
  by (simp add: put_u64_def put_u64_le_def ucast_and_ff)

lemma get_u32_eq: "get_u32 d = get_u32_le d"
  by (simp add: get_u32_def get_u32_le_def)

lemma get_u64_eq: "get_u64 d = get_u64_le d"
  by (simp add: get_u64_def get_u64_le_def)

interpretation wal32: word_codec put_u32 get_u32 4
  by unfold_locales (simp_all add: put_u32_eq get_u32_eq)

interpretation wal64: word_codec put_u64 get_u64 8
  by unfold_locales (simp_all add: put_u64_eq get_u64_eq)

subsection \<open>CRC-32C\<close>

text \<open>
  The repository computes the checksum with two loop bodies: one masks the
  polynomial with the sign-extended low bit (manifest and write-ahead log), one
  branches on the low bit (segments and lexical files).
\<close>

definition crc32c_bit :: "u32 \<Rightarrow> u32" where
  "crc32c_bit crc = drop_bit 1 crc XOR (0x82f63b78 AND (- (crc AND 1)))"

definition crc32c_update :: "u32 \<Rightarrow> bytes \<Rightarrow> u32" where
  "crc32c_update crc data =
     foldl (\<lambda>crc b. fold (\<lambda>bit crc. crc32c_bit crc) [0::nat, 1, 2, 3, 4, 5, 6, 7] (crc XOR ucast b))
       crc data"

definition crc32c :: "bytes \<Rightarrow> u32" where
  "crc32c data = NOT (crc32c_update 0xffffffff data)"

definition crc32c_branch_bit :: "u32 \<Rightarrow> u32" where
  "crc32c_branch_bit crc =
     (if crc AND 1 \<noteq> 0 then drop_bit 1 crc XOR 0x82f63b78 else drop_bit 1 crc)"

definition crc32c_branch :: "bytes \<Rightarrow> u32" where
  "crc32c_branch data =
     NOT (foldl (\<lambda>crc b. fold (\<lambda>bit crc. crc32c_branch_bit crc) [0::nat, 1, 2, 3, 4, 5, 6, 7]
             (crc XOR ucast b)) 0xffffffff data)"

lemma xor_right_cancel: "(a :: 'a::len word) XOR c = b XOR c \<longleftrightarrow> a = b"
  by (metis xor.assoc xor_self_eq xor.right_neutral)

lemma and_one_cases: "(crc :: u32) AND 1 = (if bit crc 0 then 1 else 0)"
  by (rule bit_word_eqI) (auto simp: bit_simps bit_1_iff intro: gr0I)

lemma crc32c_bit_branch: "crc32c_bit crc = crc32c_branch_bit crc"
  by (simp add: crc32c_bit_def crc32c_branch_bit_def and_one_cases)

lemma crc32c_branch_eq: "crc32c_branch data = crc32c data"
  by (simp add: crc32c_branch_def crc32c_def crc32c_update_def crc32c_bit_branch)

lemma crc32c_update_append:
  "crc32c_update crc (xs @ ys) = crc32c_update (crc32c_update crc xs) ys"
  by (simp add: crc32c_update_def)

text \<open>
  One bit step loses no information: bit 31 of the result tells which branch
  was taken, because the polynomial has bit 31 set and a shifted word has not.
\<close>

lemma crc32c_branch_bit_31: "bit (crc32c_branch_bit crc) 31 = bit crc 0"
  by (simp add: crc32c_branch_bit_def and_one_cases bit_simps bit_numeral_rec)
     (auto dest: bit_imp_le_length)

lemma crc32c_branch_bit_inj: "crc32c_branch_bit a = crc32c_branch_bit b \<Longrightarrow> a = b"
proof -
  assume eq: "crc32c_branch_bit a = crc32c_branch_bit b"
  then have low: "bit a 0 = bit b 0"
    by (metis crc32c_branch_bit_31)
  then have "drop_bit 1 a = drop_bit 1 b"
    using eq by (auto simp: crc32c_branch_bit_def and_one_cases xor_right_cancel split: if_splits)
  then have high: "bit a (Suc n) = bit b (Suc n)" for n
    by (metis One_nat_def bit_drop_bit_eq comp_apply plus_1_eq_Suc)
  show "a = b"
  proof (rule bit_word_eqI)
    fix n show "bit a n = bit b n" by (cases n) (simp_all add: low high)
  qed
qed

lemma crc32c_bit_inj: "crc32c_bit a = crc32c_bit b \<Longrightarrow> a = b"
  by (simp add: crc32c_bit_branch crc32c_branch_bit_inj)

definition crc32c_byte :: "u32 \<Rightarrow> byte \<Rightarrow> u32" where
  "crc32c_byte crc b = fold (\<lambda>bit crc. crc32c_bit crc) [0::nat, 1, 2, 3, 4, 5, 6, 7] (crc XOR ucast b)"

lemma crc32c_update_Cons: "crc32c_update crc (b # bs) = crc32c_update (crc32c_byte crc b) bs"
  by (simp add: crc32c_update_def crc32c_byte_def)

lemma crc32c_byte_eq: "crc32c_byte a x = crc32c_byte b y \<Longrightarrow> a XOR ucast x = b XOR ucast y"
  by (simp add: crc32c_byte_def) (blast dest: crc32c_bit_inj)

lemma crc32c_byte_inj_state: "crc32c_byte a x = crc32c_byte b x \<Longrightarrow> a = b"
  using crc32c_byte_eq xor_right_cancel by blast

lemma crc32c_byte_inj_byte: "crc32c_byte a x = crc32c_byte a y \<Longrightarrow> x = y"
proof -
  assume "crc32c_byte a x = crc32c_byte a y"
  then have "(ucast x :: u32) = ucast y"
    using crc32c_byte_eq[of a x a y] by (simp add: xor.commute[of a] xor_right_cancel)
  then have "(ucast (ucast x :: u32) :: byte) = ucast (ucast y :: u32)"
    by simp
  moreover have "(ucast (ucast z :: u32) :: byte) = z" for z :: byte
    by (rule bit_word_eqI) (auto simp: bit_simps)
  ultimately show "x = y" by simp
qed

lemma crc32c_update_inj: "crc32c_update a xs = crc32c_update b xs \<Longrightarrow> a = b"
proof (induction xs arbitrary: a b)
  case Nil
  then show ?case by (simp add: crc32c_update_def)
next
  case (Cons x xs)
  then have "crc32c_byte a x = crc32c_byte b x"
    by (simp add: crc32c_update_Cons)
  then show ?case by (rule crc32c_byte_inj_state)
qed

lemma crc32c_single_byte:
  "crc32c (xs @ a # ys) = crc32c (xs @ b # ys) \<Longrightarrow> a = b"
  unfolding crc32c_def crc32c_update_append crc32c_update_Cons
  by (metis bit.double_compl crc32c_byte_inj_byte crc32c_update_inj)

lemma crc32c_list_update:
  assumes "i < length d" and "d ! i \<noteq> b"
  shows "crc32c (d[i := b]) \<noteq> crc32c d"
proof -
  have "d = take i d @ d ! i # drop (Suc i) d"
    using assms(1) by (rule id_take_nth_drop)
  moreover have "d[i := b] = take i d @ b # drop (Suc i) d"
    using assms(1) by (rule upd_conv_take_nth_drop)
  ultimately show ?thesis
    using assms(2) crc32c_single_byte by metis
qed

subsection \<open>Numbers inside a buffer\<close>

lemma get_u32_at: "occurs_at d off (put_u32_le v) \<Longrightarrow> get_u32 (drop off d) = v"
  unfolding get_u32_eq by (rule u32.get_at)

lemma get_u64_at: "occurs_at d off (put_u64_le v) \<Longrightarrow> get_u64 (drop off d) = v"
  unfolding get_u64_eq by (rule u64.get_at)

lemma unat_small32: "n < 2 ^ 32 \<Longrightarrow> unat (word_of_nat n :: u32) = n"
  by (simp add: unat_of_nat)

lemma unat_small64: "n < 2 ^ 64 \<Longrightarrow> unat (word_of_nat n :: u64) = n"
  by (simp add: unat_of_nat)

subsection \<open>FNV-1a\<close>

fun fnv_hash :: "u64 \<Rightarrow> bytes \<Rightarrow> u64" where
  "fnv_hash hash [] = hash"
| "fnv_hash hash (c # cs) = fnv_hash ((hash XOR ucast c) * 1099511628211) cs"

end
