(* ===== verification/Types_V2.thy ===== *)
theory Types_V2
  imports Codec
begin

text \<open>
  \<open>common/yappo_types_v2.h\<close> and \<open>common/yappo_types_v2.c\<close>: the status codes, the
  borrowed byte views, the document and passage records and their validation.
\<close>

datatype YAP_V2_STATUS =
    YAP_V2_OK
  | YAP_V2_INVALID_ARGUMENT
  | YAP_V2_INVALID_FORMAT
  | YAP_V2_OUT_OF_RANGE
  | YAP_V2_DUPLICATE
  | YAP_V2_ALLOCATION_FAILED
  | YAP_V2_IO_ERROR
  | YAP_V2_CHECKSUM_MISMATCH
  | YAP_V2_CONFLICT
  | YAP_V2_NOT_FOUND
  | YAP_V2_SEGMENT_CAPACITY_EXCEEDED

type_synonym 'a outcome = "YAP_V2_STATUS + 'a"

text \<open>
  A view is a pointer and a length. \<open>View_null n\<close> has a null pointer and length
  \<open>n\<close>; \<open>View bs\<close> points at the bytes \<open>bs\<close> and has their length.
\<close>

datatype YAP_V2_BYTES_VIEW = View_null nat | View bytes

fun view_len :: "YAP_V2_BYTES_VIEW \<Rightarrow> nat" where
  "view_len (View_null n) = n"
| "view_len (View bs) = length bs"

fun view_is_null :: "YAP_V2_BYTES_VIEW \<Rightarrow> bool" where
  "view_is_null (View_null n) = True"
| "view_is_null (View bs) = False"

fun view_bytes :: "YAP_V2_BYTES_VIEW \<Rightarrow> bytes" where
  "view_bytes (View_null n) = []"
| "view_bytes (View bs) = bs"

record YAP_V2_DOCUMENT_VIEW =
  doc_id :: YAP_V2_BYTES_VIEW
  doc_url :: YAP_V2_BYTES_VIEW
  doc_title :: YAP_V2_BYTES_VIEW
  doc_body :: YAP_V2_BYTES_VIEW
  doc_metadata_json :: YAP_V2_BYTES_VIEW
  doc_updated_at_unix_ms :: u64  \<comment> \<open>\<open>int64_t\<close>, read with \<open>sint\<close>\<close>

record YAP_V2_PASSAGE_VIEW =
  psg_id :: YAP_V2_BYTES_VIEW
  psg_parent_document_id :: YAP_V2_BYTES_VIEW
  psg_text :: YAP_V2_BYTES_VIEW
  psg_ordinal :: u32
  psg_start_char :: u32
  psg_end_char :: u32

definition YAP_V2_FORMAT_VERSION :: u16 where "YAP_V2_FORMAT_VERSION = 2"
definition YAP_V2_MAX_IDENTIFIER_BYTES :: nat where "YAP_V2_MAX_IDENTIFIER_BYTES = 255"
definition YAP_V2_MAX_URL_BYTES :: nat where "YAP_V2_MAX_URL_BYTES = 8 * 1024"
definition YAP_V2_MAX_METADATA_BYTES :: nat where "YAP_V2_MAX_METADATA_BYTES = 1024 * 1024"
definition YAP_V2_MAX_CHUNK_CHARS :: nat where "YAP_V2_MAX_CHUNK_CHARS = 1024 * 1024"

lemmas type_limits =
  YAP_V2_FORMAT_VERSION_def YAP_V2_MAX_IDENTIFIER_BYTES_def YAP_V2_MAX_URL_BYTES_def
  YAP_V2_MAX_METADATA_BYTES_def YAP_V2_MAX_CHUNK_CHARS_def

definition bytes_view_validate :: "YAP_V2_BYTES_VIEW \<Rightarrow> nat \<Rightarrow> bool \<Rightarrow> YAP_V2_STATUS" where
  "bytes_view_validate value max_bytes required =
     (if required \<and> (view_is_null value \<or> view_len value = 0) then YAP_V2_INVALID_FORMAT
      else if view_len value > max_bytes \<or> (view_len value > 0 \<and> view_is_null value)
        then YAP_V2_OUT_OF_RANGE
      else if 0 \<in> set (view_bytes value) then YAP_V2_INVALID_FORMAT
      else YAP_V2_OK)"

fun YAP_V2_status_string :: "YAP_V2_STATUS \<Rightarrow> string" where
  "YAP_V2_status_string YAP_V2_OK = ''ok''"
| "YAP_V2_status_string YAP_V2_INVALID_ARGUMENT = ''invalid argument''"
| "YAP_V2_status_string YAP_V2_INVALID_FORMAT = ''invalid format''"
| "YAP_V2_status_string YAP_V2_OUT_OF_RANGE = ''out of range''"
| "YAP_V2_status_string YAP_V2_DUPLICATE = ''duplicate''"
| "YAP_V2_status_string YAP_V2_ALLOCATION_FAILED = ''allocation failed''"
| "YAP_V2_status_string YAP_V2_IO_ERROR = ''I/O error''"
| "YAP_V2_status_string YAP_V2_CHECKSUM_MISMATCH = ''checksum mismatch''"
| "YAP_V2_status_string YAP_V2_CONFLICT = ''conflict''"
| "YAP_V2_status_string YAP_V2_NOT_FOUND = ''not found''"
| "YAP_V2_status_string YAP_V2_SEGMENT_CAPACITY_EXCEEDED = ''segment capacity exceeded''"

text \<open>\<open>first_error\<close> is the chain \<open>if (status == YAP_V2_OK) status = ...\<close>.\<close>

fun first_error :: "YAP_V2_STATUS list \<Rightarrow> YAP_V2_STATUS" where
  "first_error [] = YAP_V2_OK"
| "first_error (s # ss) = (if s = YAP_V2_OK then first_error ss else s)"

fun YAP_V2_document_validate :: "YAP_V2_DOCUMENT_VIEW option \<Rightarrow> YAP_V2_STATUS" where
  "YAP_V2_document_validate None = YAP_V2_INVALID_ARGUMENT"
| "YAP_V2_document_validate (Some d) = first_error
     [bytes_view_validate (doc_id d) YAP_V2_MAX_IDENTIFIER_BYTES True,
      bytes_view_validate (doc_url d) YAP_V2_MAX_URL_BYTES False,
      bytes_view_validate (doc_title d) YAP_V2_MAX_IDENTIFIER_BYTES False,
      bytes_view_validate (doc_body d) YAP_V2_MAX_METADATA_BYTES False,
      bytes_view_validate (doc_metadata_json d) YAP_V2_MAX_METADATA_BYTES False,
      if sint (doc_updated_at_unix_ms d) < 0 then YAP_V2_OUT_OF_RANGE else YAP_V2_OK]"

fun YAP_V2_passage_validate :: "YAP_V2_PASSAGE_VIEW option \<Rightarrow> YAP_V2_STATUS" where
  "YAP_V2_passage_validate None = YAP_V2_INVALID_ARGUMENT"
| "YAP_V2_passage_validate (Some p) = first_error
     [bytes_view_validate (psg_id p) YAP_V2_MAX_IDENTIFIER_BYTES True,
      bytes_view_validate (psg_parent_document_id p) YAP_V2_MAX_IDENTIFIER_BYTES True,
      bytes_view_validate (psg_text p) YAP_V2_MAX_METADATA_BYTES True,
      if psg_end_char p < psg_start_char p \<or> unat (psg_start_char p) > YAP_V2_MAX_CHUNK_CHARS \<or>
         unat (psg_end_char p) > YAP_V2_MAX_CHUNK_CHARS then YAP_V2_OUT_OF_RANGE else YAP_V2_OK]"

subsection \<open>What validation accepts\<close>

lemma first_error_ok: "first_error ss = YAP_V2_OK \<longleftrightarrow> (\<forall>s\<in>set ss. s = YAP_V2_OK)"
  by (induction ss) auto

definition text_ok :: "nat \<Rightarrow> YAP_V2_BYTES_VIEW \<Rightarrow> bool" where
  "text_ok limit v \<longleftrightarrow>
     (v = View_null 0 \<or> (\<exists>bs. v = View bs \<and> length bs \<le> limit \<and> 0 \<notin> set bs))"

definition required_text_ok :: "nat \<Rightarrow> YAP_V2_BYTES_VIEW \<Rightarrow> bool" where
  "required_text_ok limit v \<longleftrightarrow>
     (\<exists>bs. v = View bs \<and> bs \<noteq> [] \<and> length bs \<le> limit \<and> 0 \<notin> set bs)"

lemma bytes_view_validate_optional:
  "bytes_view_validate v m False = YAP_V2_OK \<longleftrightarrow> text_ok m v"
  by (cases v) (auto simp: bytes_view_validate_def text_ok_def)

lemma bytes_view_validate_required:
  "bytes_view_validate v m True = YAP_V2_OK \<longleftrightarrow> required_text_ok m v"
  by (cases v) (auto simp: bytes_view_validate_def required_text_ok_def)

lemma text_ok_bytes:
  "text_ok m v \<Longrightarrow> length (view_bytes v) \<le> m \<and> 0 \<notin> set (view_bytes v) \<and> view_len v = length (view_bytes v)"
  by (auto simp: text_ok_def)

lemma required_text_ok_bytes:
  "required_text_ok m v \<Longrightarrow> v = View (view_bytes v) \<and> view_bytes v \<noteq> [] \<and> length (view_bytes v) \<le> m
     \<and> 0 \<notin> set (view_bytes v)"
  by (auto simp: required_text_ok_def)

lemma required_text_ok_text_ok: "required_text_ok m v \<Longrightarrow> text_ok m v"
  by (auto simp: required_text_ok_def text_ok_def)

lemmas view_validate_simps = first_error_ok bytes_view_validate_optional bytes_view_validate_required

text \<open>
  A document passes \<open>YAP_V2_document_validate\<close> exactly when its identifier is a non-empty
  NUL-free text of at most 255 bytes, its URL, title, body and metadata are absent or NUL-free
  texts within their limits, and its timestamp is not negative; a null document never does.
\<close>

theorem document_validate_iff:
  "YAP_V2_document_validate doc = YAP_V2_OK \<longleftrightarrow>
     (\<exists>d. doc = Some d \<and> required_text_ok 255 (doc_id d) \<and> text_ok 8192 (doc_url d) \<and>
        text_ok 255 (doc_title d) \<and> text_ok 1048576 (doc_body d) \<and>
        text_ok 1048576 (doc_metadata_json d) \<and> 0 \<le> sint (doc_updated_at_unix_ms d))"
proof (cases doc)
  case None
  then show ?thesis by simp
next
  case (Some d)
  have "YAP_V2_document_validate (Some d) = YAP_V2_OK \<longleftrightarrow>
      required_text_ok 255 (doc_id d) \<and> text_ok 8192 (doc_url d) \<and>
      text_ok 255 (doc_title d) \<and> text_ok 1048576 (doc_body d) \<and>
      text_ok 1048576 (doc_metadata_json d) \<and> 0 \<le> sint (doc_updated_at_unix_ms d)"
    unfolding YAP_V2_document_validate.simps view_validate_simps
    by (simp add: view_validate_simps type_limits)
  with Some show ?thesis by simp
qed

end
