(* ===== verification/Probe_Table.thy ===== *)
theory Probe_Table
  imports Types_V2
begin

text \<open>
  The open-addressing table that the manifest keeps over its segment
  identifiers (\<open>manifest_slots_rebuild\<close>, \<open>manifest_segment_find\<close> and the loops of
  \<open>YAP_V2_manifest_add_segment\<close> in \<open>yappo_storage_v2.c\<close>,
  \<open>YAP_V2_manifest_segment_map_*\<close> in \<open>yappo_manifest_v2.c\<close>). A slot holds 0 when
  it is free and otherwise one more than the index of a key. The loops below
  take their number of rounds as fuel; \<open>capacity\<close> rounds visit every slot, so
  \<open>None\<close> after \<open>capacity\<close> rounds means that the C loop would never end.
\<close>

datatype probe_result = Probe_free nat | Probe_hit nat

definition next_slot :: "nat \<Rightarrow> nat \<Rightarrow> nat" where
  "next_slot capacity slot = (slot + 1) AND (capacity - 1)"

fun probe :: "bytes list \<Rightarrow> nat list \<Rightarrow> bytes \<Rightarrow> nat \<Rightarrow> nat \<Rightarrow> probe_result option" where
  "probe keys slots key slot 0 = None"
| "probe keys slots key slot (Suc fuel) =
     (if slots ! slot = 0 then Some (Probe_free slot)
      else if keys ! (slots ! slot - 1) = key then Some (Probe_hit (slots ! slot - 1))
      else probe keys slots key (next_slot (length slots) slot) fuel)"

fun probe_empty :: "nat list \<Rightarrow> nat \<Rightarrow> nat \<Rightarrow> nat option" where
  "probe_empty slots slot 0 = None"
| "probe_empty slots slot (Suc fuel) =
     (if slots ! slot = 0 then Some slot
      else probe_empty slots (next_slot (length slots) slot) fuel)"

text \<open>\<open>while (capacity < required * 2U) capacity *= 2U\<close>, from 1.\<close>

function slot_capacity :: "nat \<Rightarrow> nat \<Rightarrow> nat" where
  "slot_capacity capacity required =
     (if 0 < capacity \<and> capacity < required * 2 then slot_capacity (capacity * 2) required
      else capacity)"
  by pat_completeness auto
termination
  by (relation "measure (\<lambda>(capacity, required). required * 2 - capacity)") auto

declare slot_capacity.simps [simp del]

lemma slot_capacity_ge: "0 < c \<Longrightarrow> required * 2 \<le> slot_capacity c required"
proof (induction c required rule: slot_capacity.induct)
  case (1 c required)
  then show ?case by (subst slot_capacity.simps) auto
qed

lemma slot_capacity_pow2: "\<exists>k. slot_capacity (2 ^ j) required = 2 ^ k"
proof (induction "2 ^ j :: nat" required arbitrary: j rule: slot_capacity.induct)
  case (1 required)
  show ?case
  proof (cases "(2 ^ j :: nat) < required * 2")
    case True
    then have "\<exists>k. slot_capacity (2 ^ Suc j) required = 2 ^ k"
      using "1.hyps"[of "Suc j"] by (simp add: mult.commute)
    with True show ?thesis
      by (subst slot_capacity.simps) (simp add: mult.commute)
  next
    case False
    then show ?thesis by (subst slot_capacity.simps) auto
  qed
qed

lemma slot_capacity_lt: "0 < c \<Longrightarrow> c < required * 4 \<Longrightarrow> slot_capacity c required < required * 4"
proof (induction c required rule: slot_capacity.induct)
  case (1 c required)
  show ?case
    by (subst slot_capacity.simps) (use 1 in auto)
qed

lemma and_pow2_minus_one: "(n :: nat) AND (2 ^ k - 1) = n mod 2 ^ k"
  by (metis mask_eq_exp_minus_1 take_bit_eq_mask take_bit_eq_mod)

lemma next_slot_pow2: "next_slot (2 ^ k) slot = (slot + 1) mod 2 ^ k"
  by (simp add: next_slot_def and_pow2_minus_one flip: One_nat_def)

lemma masked_less: "unat ((h :: u64) AND word_of_nat (2 ^ k - 1)) < 2 ^ k"
proof -
  have "unat (h AND word_of_nat (2 ^ k - 1)) \<le> unat (word_of_nat (2 ^ k - 1) :: u64)"
    by (rule word_and_le1[THEN word_le_nat_alt[THEN iffD1]])
  also have "\<dots> \<le> 2 ^ k - 1"
    unfolding unat_of_nat by (rule mod_less_eq_dividend)
  also have "\<dots> < 2 ^ k" by simp
  finally show ?thesis .
qed

subsection \<open>Linear probing over a power-of-two table\<close>

text \<open>
  The contract a client states about its hash: the first slot of a key lies in
  the table. \<open>table_inv\<close> is what insertion keeps: every key is found on the
  probe path that starts at its hash, with no free slot before it, and no two
  slots name the same key.
\<close>

definition key_reachable :: "(bytes \<Rightarrow> nat \<Rightarrow> nat) \<Rightarrow> nat list \<Rightarrow> bytes \<Rightarrow> nat \<Rightarrow> bool" where
  "key_reachable start slots key v \<longleftrightarrow>
     (\<exists>p < length slots. slots ! ((start key (length slots) + p) mod length slots) = v \<and>
        (\<forall>q < p. slots ! ((start key (length slots) + q) mod length slots) \<noteq> 0))"

definition table_inv :: "(bytes \<Rightarrow> nat \<Rightarrow> nat) \<Rightarrow> bytes list \<Rightarrow> nat list \<Rightarrow> bool" where
  "table_inv start keys slots \<longleftrightarrow>
     (\<exists>k. length slots = 2 ^ k) \<and>
     (\<forall>s < length slots. slots ! s \<le> length keys) \<and>
     (\<forall>s < length slots. \<forall>t < length slots. slots ! s = slots ! t \<longrightarrow> slots ! s \<noteq> 0 \<longrightarrow> s = t) \<and>
     (\<forall>i < length keys. key_reachable start slots (keys ! i) (Suc i))"

lemma table_inv_empty: "table_inv start [] (replicate (2 ^ k) 0)"
  by (auto simp: table_inv_def)

lemma key_reachable_update:
  assumes "key_reachable start slots key v" and "slots ! s = 0" and "v \<noteq> 0" and "w \<noteq> 0"
  shows "key_reachable start (slots[s := w]) key v"
proof -
  obtain p where p: "p < length slots"
    "slots ! ((start key (length slots) + p) mod length slots) = v"
    "\<forall>q < p. slots ! ((start key (length slots) + q) mod length slots) \<noteq> 0"
    using assms(1) by (auto simp: key_reachable_def)
  moreover have "slots[s := w] ! t = slots ! t" if "slots ! t \<noteq> 0" for t
    using that assms(2) by (cases "t = s") auto
  ultimately show ?thesis
    using assms(3) unfolding key_reachable_def by (intro exI[of _ p]) auto
qed

lemma table_has_free:
  assumes "table_inv start keys slots" and "length keys < length slots"
  shows "\<exists>s < length slots. slots ! s = 0"
proof (rule ccontr)
  assume "\<not> ?thesis"
  then have nz: "\<forall>s < length slots. slots ! s \<noteq> 0" by simp
  have uniq: "\<forall>s < length slots. \<forall>t < length slots. slots ! s = slots ! t \<longrightarrow> slots ! s \<noteq> 0 \<longrightarrow> s = t"
    and bound: "\<forall>s < length slots. slots ! s \<le> length keys"
    using assms(1) unfolding table_inv_def by blast+
  have "inj_on ((!) slots) {..<length slots}"
    using uniq nz by (intro inj_onI) blast
  moreover have "(!) slots ` {..<length slots} \<subseteq> {1..length keys}"
    using bound nz by (auto simp: Suc_le_eq)
  ultimately have "card {..<length slots} \<le> card {1..length keys}"
    by (rule card_inj_on_le) simp
  with assms(2) show False by simp
qed

lemma mod_surj_from:
  assumes "h < c" "s < (c :: nat)"
  shows "\<exists>p < c. (h + p) mod c = s"
proof (cases "h \<le> s")
  case True
  then show ?thesis using assms by (intro exI[of _ "s - h"]) auto
next
  case False
  then show ?thesis using assms by (intro exI[of _ "c + s - h"]) auto
qed

text \<open>A probe stops at the first slot of its path that is free or holds the key.\<close>

definition probe_stop :: "bytes list \<Rightarrow> nat list \<Rightarrow> bytes \<Rightarrow> nat \<Rightarrow> bool" where
  "probe_stop keys slots key s \<longleftrightarrow> slots ! s = 0 \<or> keys ! (slots ! s - 1) = key"

lemma probe_first_stop:
  assumes "length slots = 2 ^ k" and "q0 \<le> q" and "q < q0 + fuel"
    and "probe_stop keys slots key ((h + q) mod 2 ^ k)"
    and "\<forall>r. q0 \<le> r \<and> r < q \<longrightarrow> \<not> probe_stop keys slots key ((h + r) mod 2 ^ k)"
  shows "probe keys slots key ((h + q0) mod 2 ^ k) fuel =
     Some (if slots ! ((h + q) mod 2 ^ k) = 0 then Probe_free ((h + q) mod 2 ^ k)
           else Probe_hit (slots ! ((h + q) mod 2 ^ k) - 1))"
  using assms
proof (induction fuel arbitrary: q0)
  case 0
  then show ?case by simp
next
  case (Suc fuel)
  show ?case
  proof (cases "q0 = q")
    case True
    with Suc.prems show ?thesis by (auto simp: probe_stop_def)
  next
    case False
    then have "\<not> probe_stop keys slots key ((h + q0) mod 2 ^ k)"
      using Suc.prems by simp
    then have "probe keys slots key ((h + q0) mod 2 ^ k) (Suc fuel) =
        probe keys slots key ((h + Suc q0) mod 2 ^ k) fuel"
      using Suc.prems(1) by (simp add: probe_stop_def next_slot_pow2 mod_Suc_eq)
    moreover have "probe keys slots key ((h + Suc q0) mod 2 ^ k) fuel =
        Some (if slots ! ((h + q) mod 2 ^ k) = 0 then Probe_free ((h + q) mod 2 ^ k)
              else Probe_hit (slots ! ((h + q) mod 2 ^ k) - 1))"
      by (rule Suc.IH) (use Suc.prems False in auto)
    ultimately show ?thesis by simp
  qed
qed

lemma probe_empty_first:
  assumes "length slots = 2 ^ k" and "q0 \<le> q" and "q < q0 + fuel"
    and "slots ! ((h + q) mod 2 ^ k) = 0"
    and "\<forall>r. q0 \<le> r \<and> r < q \<longrightarrow> slots ! ((h + r) mod 2 ^ k) \<noteq> 0"
  shows "probe_empty slots ((h + q0) mod 2 ^ k) fuel = Some ((h + q) mod 2 ^ k)"
  using assms
proof (induction fuel arbitrary: q0)
  case 0
  then show ?case by simp
next
  case (Suc fuel)
  show ?case
  proof (cases "q0 = q")
    case True
    with Suc.prems show ?thesis by simp
  next
    case False
    then have "probe_empty slots ((h + q0) mod 2 ^ k) (Suc fuel) =
        probe_empty slots ((h + Suc q0) mod 2 ^ k) fuel"
      using Suc.prems by (auto simp: next_slot_pow2 mod_Suc_eq)
    also have "\<dots> = Some ((h + q) mod 2 ^ k)"
      by (rule Suc.IH) (use Suc.prems False in auto)
    finally show ?thesis .
  qed
qed

locale probe_table =
  fixes start :: "bytes \<Rightarrow> nat \<Rightarrow> nat"
  assumes start_less: "start key (2 ^ k) < 2 ^ k"
begin

lemma free_on_path:
  assumes "table_inv start keys slots" and "length keys < length slots"
  shows "\<exists>p < length slots. slots ! ((start key (length slots) + p) mod length slots) = 0"
proof -
  obtain s where "s < length slots" "slots ! s = 0"
    using table_has_free[OF assms] by blast
  moreover obtain k where "length slots = 2 ^ k"
    using assms(1) by (auto simp: table_inv_def)
  ultimately show ?thesis
    using mod_surj_from[of "start key (length slots)" "length slots" s] start_less[of key k] by auto
qed

lemma probe_total:
  assumes inv: "table_inv start keys slots" and room: "length keys < length slots"
  obtains p where "p < length slots"
    "probe_stop keys slots key ((start key (length slots) + p) mod length slots)"
    "\<forall>q < p. \<not> probe_stop keys slots key ((start key (length slots) + q) mod length slots)"
    "probe keys slots key (start key (length slots)) (length slots) =
       Some (if slots ! ((start key (length slots) + p) mod length slots) = 0
             then Probe_free ((start key (length slots) + p) mod length slots)
             else Probe_hit (slots ! ((start key (length slots) + p) mod length slots) - 1))"
proof -
  obtain k where k: "length slots = 2 ^ k"
    using inv by (auto simp: table_inv_def)
  let ?stop = "\<lambda>p. probe_stop keys slots key ((start key (length slots) + p) mod length slots)"
  obtain f where f: "f < length slots" "?stop f"
    using free_on_path[OF inv room, of key] by (auto simp: probe_stop_def)
  define p where "p = (LEAST p. ?stop p)"
  have stop: "?stop p" unfolding p_def by (rule LeastI[of ?stop, OF f(2)])
  have le: "p \<le> f" unfolding p_def by (rule Least_le[of ?stop, OF f(2)])
  have min: "\<forall>q < p. \<not> ?stop q" unfolding p_def by (blast dest: not_less_Least)
  have "probe keys slots key ((start key (length slots) + 0) mod 2 ^ k) (length slots) =
     Some (if slots ! ((start key (length slots) + p) mod 2 ^ k) = 0
           then Probe_free ((start key (length slots) + p) mod 2 ^ k)
           else Probe_hit (slots ! ((start key (length slots) + p) mod 2 ^ k) - 1))"
    by (rule probe_first_stop[OF k]) (use le f(1) stop min k in auto)
  then show thesis
    using that[of p] le f(1) stop min k start_less[of key k] by simp
qed

text \<open>A key of the table is hit, and the hit names an equal key; any other key ends at a free slot.\<close>

lemma probe_member:
  assumes inv: "table_inv start keys slots" and room: "length keys < length slots"
    and mem: "key \<in> set keys"
  shows "\<exists>j < length keys. keys ! j = key \<and>
    probe keys slots key (start key (length slots)) (length slots) = Some (Probe_hit j)"
proof -
  obtain k where k: "length slots = 2 ^ k"
    using inv by (auto simp: table_inv_def)
  then have pos: "0 < length slots" by simp
  obtain p where p: "p < length slots"
    "probe_stop keys slots key ((start key (length slots) + p) mod length slots)"
    "\<forall>q < p. \<not> probe_stop keys slots key ((start key (length slots) + q) mod length slots)"
    "probe keys slots key (start key (length slots)) (length slots) =
       Some (if slots ! ((start key (length slots) + p) mod length slots) = 0
             then Probe_free ((start key (length slots) + p) mod length slots)
             else Probe_hit (slots ! ((start key (length slots) + p) mod length slots) - 1))"
    by (rule probe_total[OF inv room])
  let ?s = "(start key (length slots) + p) mod length slots"
  obtain i where i: "i < length keys" "keys ! i = key"
    using mem by (auto simp: in_set_conv_nth)
  obtain pi where pi: "pi < length slots"
    "slots ! ((start key (length slots) + pi) mod length slots) = Suc i"
    "\<forall>q < pi. slots ! ((start key (length slots) + q) mod length slots) \<noteq> 0"
    using inv i by (auto simp: table_inv_def key_reachable_def)
  have "p \<le> pi"
  proof (rule ccontr)
    assume "\<not> p \<le> pi"
    then have "\<not> probe_stop keys slots key ((start key (length slots) + pi) mod length slots)"
      using p(3) by simp
    then show False using pi(2) i by (simp add: probe_stop_def)
  qed
  then have nz: "slots ! ?s \<noteq> 0"
    using pi(2,3) by (cases "p = pi") auto
  have "?s < length slots" using pos by simp
  then have "slots ! ?s \<le> length keys"
    using inv by (auto simp: table_inv_def)
  then show ?thesis
    using p(2,4) nz by (auto simp: probe_stop_def)
qed

lemma probe_nonmember:
  assumes inv: "table_inv start keys slots" and room: "length keys < length slots"
    and new: "key \<notin> set keys"
  obtains p where "p < length slots"
    "slots ! ((start key (length slots) + p) mod length slots) = 0"
    "\<forall>q < p. slots ! ((start key (length slots) + q) mod length slots) \<noteq> 0"
    "probe keys slots key (start key (length slots)) (length slots) =
       Some (Probe_free ((start key (length slots) + p) mod length slots))"
proof -
  obtain k where k: "length slots = 2 ^ k"
    using inv by (auto simp: table_inv_def)
  have sound: "keys ! (slots ! s - 1) \<noteq> key" if "s < length slots" "slots ! s \<noteq> 0" for s
  proof -
    have "slots ! s - 1 < length keys"
      using inv that by (fastforce simp: table_inv_def)
    with new show ?thesis by (metis nth_mem)
  qed
  have stop_free: "probe_stop keys slots key ((h + q) mod length slots) \<longleftrightarrow>
      slots ! ((h + q) mod length slots) = 0" for h q
    using sound[of "(h + q) mod length slots"] k by (auto simp: probe_stop_def)
  obtain p where "p < length slots"
    "probe_stop keys slots key ((start key (length slots) + p) mod length slots)"
    "\<forall>q < p. \<not> probe_stop keys slots key ((start key (length slots) + q) mod length slots)"
    "probe keys slots key (start key (length slots)) (length slots) =
       Some (if slots ! ((start key (length slots) + p) mod length slots) = 0
             then Probe_free ((start key (length slots) + p) mod length slots)
             else Probe_hit (slots ! ((start key (length slots) + p) mod length slots) - 1))"
    by (rule probe_total[OF inv room])
  then show thesis
    using that[of p] by (simp add: stop_free)
qed

lemma probe_empty_nonmember:
  assumes inv: "table_inv start keys slots" and room: "length keys < length slots"
    and new: "key \<notin> set keys"
    and "probe keys slots key (start key (length slots)) (length slots) = Some (Probe_free s)"
  shows "probe_empty slots (start key (length slots)) (length slots) = Some s"
proof -
  obtain k where k: "length slots = 2 ^ k"
    using inv by (auto simp: table_inv_def)
  obtain p where p: "p < length slots"
    "slots ! ((start key (length slots) + p) mod length slots) = 0"
    "\<forall>q < p. slots ! ((start key (length slots) + q) mod length slots) \<noteq> 0"
    "probe keys slots key (start key (length slots)) (length slots) =
       Some (Probe_free ((start key (length slots) + p) mod length slots))"
    by (rule probe_nonmember[OF inv room new])
  have "probe_empty slots ((start key (length slots) + 0) mod 2 ^ k) (length slots) =
      Some ((start key (length slots) + p) mod 2 ^ k)"
    by (rule probe_empty_first[OF k]) (use p k in auto)
  with p assms(4) k start_less[of key k] show ?thesis by simp
qed

lemma table_insert:
  assumes inv: "table_inv start keys slots" and room: "length keys < length slots"
    and new: "key \<notin> set keys"
    and "probe keys slots key (start key (length slots)) (length slots) = Some (Probe_free s)"
  shows "table_inv start (keys @ [key]) (slots[s := Suc (length keys)])"
proof -
  obtain k where k: "length slots = 2 ^ k"
    using inv by (auto simp: table_inv_def)
  obtain p where p: "p < length slots"
    "slots ! ((start key (length slots) + p) mod length slots) = 0"
    "\<forall>q < p. slots ! ((start key (length slots) + q) mod length slots) \<noteq> 0"
    "probe keys slots key (start key (length slots)) (length slots) =
       Some (Probe_free ((start key (length slots) + p) mod length slots))"
    by (rule probe_nonmember[OF inv room new])
  then have s: "s = (start key (length slots) + p) mod length slots"
    using assms(4) by simp
  have s_lt: "s < length slots" using s k by simp
  have bound: "\<forall>t < length slots. slots ! t \<le> length keys"
    and uniq: "\<forall>t < length slots. \<forall>u < length slots. slots ! t = slots ! u \<longrightarrow> slots ! t \<noteq> 0 \<longrightarrow> t = u"
    and path: "\<forall>i < length keys. key_reachable start slots (keys ! i) (Suc i)"
    using inv by (auto simp: table_inv_def)
  let ?slots = "slots[s := Suc (length keys)]"
  have nth: "?slots ! t = (if t = s then Suc (length keys) else slots ! t)" for t
    using s_lt by (simp add: nth_list_update)
  have g1: "\<forall>t < length ?slots. ?slots ! t \<le> length (keys @ [key])"
    using bound by (simp add: nth le_SucI)
  have g2: "\<forall>t < length ?slots. \<forall>u < length ?slots. ?slots ! t = ?slots ! u \<longrightarrow> ?slots ! t \<noteq> 0 \<longrightarrow> t = u"
  proof (intro allI impI)
    fix t u assume "t < length ?slots" "u < length ?slots" "?slots ! t = ?slots ! u" "?slots ! t \<noteq> 0"
    moreover have "slots ! v \<noteq> Suc (length keys)" if "v < length slots" for v
      using bound that by (metis Suc_n_not_le_n)
    ultimately show "t = u"
      using uniq by (cases "t = s"; cases "u = s") (simp_all add: nth, metis+)
  qed
  have g3: "key_reachable start ?slots key (Suc (length keys))"
    unfolding key_reachable_def using p(1,3) by (intro exI[of _ p]) (simp add: nth flip: s)
  have g4: "\<forall>i < length keys. key_reachable start ?slots (keys ! i) (Suc i)"
    using path p(2) s by (auto intro: key_reachable_update)
  have g5: "\<forall>i < length (keys @ [key]). key_reachable start ?slots ((keys @ [key]) ! i) (Suc i)"
    using g3 g4 by (simp add: nth_append less_Suc_eq)
  show ?thesis
    unfolding table_inv_def by (intro conjI g1 g2 g5) (use k in simp)
qed

text \<open>
  The loops of the code hand the probe all the keys while the table holds the
  first \<open>i\<close> of them: the same thing, since no slot names a later key.
\<close>

lemma probe_take:
  assumes "length slots = 2 ^ k" and "\<forall>t < length slots. slots ! t \<le> i"
    and "slot < length slots" and "i \<le> length keys"
  shows "probe keys slots key slot fuel = probe (take i keys) slots key slot fuel"
  using assms(3)
proof (induction fuel arbitrary: slot)
  case 0
  show ?case by simp
next
  case (Suc fuel)
  have "keys ! (slots ! slot - 1) = take i keys ! (slots ! slot - 1)" if "slots ! slot \<noteq> 0"
    using assms(2) Suc.prems that by (metis One_nat_def diff_less le_neq_implies_less
        less_imp_diff_less not_gr_zero nth_take zero_less_one)
  moreover have "next_slot (length slots) slot < length slots"
    using assms(1) by (simp add: next_slot_pow2)
  ultimately show ?case
    using Suc.IH[of "next_slot (length slots) slot"] by simp
qed

lemma probe_prefix:
  assumes "table_inv start (take i keys) slots" and "i \<le> length keys"
  shows "probe keys slots key (start key (length slots)) fuel =
    probe (take i keys) slots key (start key (length slots)) fuel"
proof -
  obtain k where k: "length slots = 2 ^ k"
    using assms(1) by (auto simp: table_inv_def)
  have "\<forall>t < length slots. slots ! t \<le> i"
    using assms by (auto simp: table_inv_def)
  then show ?thesis
    using k start_less[of key k] assms(2) by (intro probe_take) auto
qed

lemma probe_step_new:
  assumes inv: "table_inv start (take i keys) slots" and room: "length keys < length slots"
    and i: "i < length keys" and new: "keys ! i \<notin> set (take i keys)"
  shows "\<exists>s. probe keys slots (keys ! i) (start (keys ! i) (length slots)) (length slots) =
      Some (Probe_free s) \<and> table_inv start (take (Suc i) keys) (slots[s := Suc i])"
proof -
  have room': "length (take i keys) < length slots" using room i by simp
  obtain s where s: "probe (take i keys) slots (keys ! i) (start (keys ! i) (length slots))
      (length slots) = Some (Probe_free s)"
    by (rule probe_nonmember[OF inv room' new]) blast
  moreover have "table_inv start (take (Suc i) keys) (slots[s := Suc i])"
    using table_insert[OF inv room' new s] i by (simp add: take_Suc_conv_app_nth min_absorb2)
  ultimately show ?thesis
    using probe_prefix[OF inv] i by auto
qed

lemma probe_step_dup:
  assumes inv: "table_inv start (take i keys) slots" and room: "length keys < length slots"
    and i: "i < length keys" and dup: "keys ! i \<in> set (take i keys)"
  shows "\<exists>j. probe keys slots (keys ! i) (start (keys ! i) (length slots)) (length slots) =
      Some (Probe_hit j)"
proof -
  have room': "length (take i keys) < length slots" using room i by simp
  show ?thesis
    using probe_member[OF inv room' dup] probe_prefix[OF inv] i by auto
qed

end

end
