(* ===== verification/Storage_V2.thy ===== *)
theory Storage_V2
  imports Probe_Table
begin

text \<open>
  \<open>storage/yappo_storage_v2.h\<close> and \<open>storage/yappo_storage_v2.c\<close>: segment identifiers,
  component and segment descriptors, the in-memory manifest with its hash table
  of segment identifiers, manifest validation and the 32-byte file header.

  A \<open>char\<close> array is its bytes up to the terminator; counts that the C keeps
  beside an array are the lengths of the lists. \<open>mem\<close> is the allocator: \<open>mem n\<close>
  says whether a request of \<open>n\<close> bytes is granted. A result \<open>None\<close> means that the
  C function does not return (a probe loop over a full table).
\<close>

definition YAP_V2_FILE_HEADER_BYTES :: nat where "YAP_V2_FILE_HEADER_BYTES = 32"
definition YAP_V2_MAX_SEGMENTS :: nat where "YAP_V2_MAX_SEGMENTS = 100000"
definition YAP_V2_MAX_SEGMENT_DOCUMENTS :: nat where "YAP_V2_MAX_SEGMENT_DOCUMENTS = 1000000"
definition YAP_V2_MAX_SEGMENT_PASSAGES :: nat where "YAP_V2_MAX_SEGMENT_PASSAGES = 4000000"
definition YAP_V2_MAX_SEGMENT_PAYLOAD_BYTES :: nat where
  "YAP_V2_MAX_SEGMENT_PAYLOAD_BYTES = 256 * 1024 * 1024"
definition YAP_V2_MAX_MANIFEST_BYTES :: nat where
  "YAP_V2_MAX_MANIFEST_BYTES = 128 * 1024 * 1024"
definition YAP_V2_MAX_COMPONENTS :: nat where "YAP_V2_MAX_COMPONENTS = 8"
definition YAP_V2_MAX_COMPONENT_NAME_BYTES :: nat where "YAP_V2_MAX_COMPONENT_NAME_BYTES = 63"

lemmas storage_limits = type_limits YAP_V2_FILE_HEADER_BYTES_def YAP_V2_MAX_SEGMENTS_def
  YAP_V2_MAX_SEGMENT_DOCUMENTS_def YAP_V2_MAX_SEGMENT_PASSAGES_def
  YAP_V2_MAX_SEGMENT_PAYLOAD_BYTES_def YAP_V2_MAX_MANIFEST_BYTES_def
  YAP_V2_MAX_COMPONENTS_def YAP_V2_MAX_COMPONENT_NAME_BYTES_def

definition YAP_V2_FILE_TERMS :: u32 where "YAP_V2_FILE_TERMS = 1"
definition YAP_V2_FILE_POSTINGS :: u32 where "YAP_V2_FILE_POSTINGS = 2"
definition YAP_V2_FILE_POSITIONS :: u32 where "YAP_V2_FILE_POSITIONS = 3"
definition YAP_V2_FILE_DOCUMENTS :: u32 where "YAP_V2_FILE_DOCUMENTS = 4"
definition YAP_V2_FILE_METADATA :: u32 where "YAP_V2_FILE_METADATA = 5"
definition YAP_V2_FILE_VECTORS :: u32 where "YAP_V2_FILE_VECTORS = 6"
definition YAP_V2_FILE_TOMBSTONES :: u32 where "YAP_V2_FILE_TOMBSTONES = 7"
definition YAP_V2_FILE_ANN :: u32 where "YAP_V2_FILE_ANN = 8"
definition YAP_V2_FILE_MANIFEST :: u32 where "YAP_V2_FILE_MANIFEST = 9"
definition YAP_V2_FILE_ANN_BASE :: u32 where "YAP_V2_FILE_ANN_BASE = 10"

lemmas file_types = YAP_V2_FILE_TERMS_def YAP_V2_FILE_POSTINGS_def YAP_V2_FILE_POSITIONS_def
  YAP_V2_FILE_DOCUMENTS_def YAP_V2_FILE_METADATA_def YAP_V2_FILE_VECTORS_def
  YAP_V2_FILE_TOMBSTONES_def YAP_V2_FILE_ANN_def YAP_V2_FILE_MANIFEST_def YAP_V2_FILE_ANN_BASE_def

record YAP_V2_COMPONENT_DESCRIPTOR =
  cmp_name :: bytes
  cmp_file_type :: u32
  cmp_record_count :: u64
  cmp_file_bytes :: u64
  cmp_checksum :: bytes

record YAP_V2_SEGMENT_DESCRIPTOR =
  seg_id :: bytes
  seg_document_count :: u64
  seg_passage_count :: u64
  seg_tombstone_count :: u64
  seg_components :: "YAP_V2_COMPONENT_DESCRIPTOR list"

record YAP_V2_MANIFEST =
  man_format_version :: u32
  man_generation :: u64
  man_config_fingerprint :: bytes
  man_segments :: "YAP_V2_SEGMENT_DESCRIPTOR list"
  man_segment_capacity :: nat
  man_segment_slots :: "nat list"

record YAP_V2_FILE_HEADER =
  hdr_format_version :: u16
  hdr_header_bytes :: u16
  hdr_file_type :: u32
  hdr_generation :: u64
  hdr_payload_bytes :: u64
  hdr_payload_crc32c :: u32

text \<open>\<open>sizeof\<close> of the descriptors on an LP64 platform.\<close>

definition sizeof_segment_descriptor :: nat where "sizeof_segment_descriptor = 1248"
definition sizeof_segment_id_item :: nat where "sizeof_segment_id_item = 256"

subsection \<open>Segment identifiers\<close>

definition c_string_validate :: "bytes option \<Rightarrow> nat \<Rightarrow> bool \<Rightarrow> YAP_V2_STATUS" where
  "c_string_validate value max_bytes required =
     (case value of
        None \<Rightarrow> if required then YAP_V2_INVALID_ARGUMENT else YAP_V2_OK
      | Some s \<Rightarrow>
          (let len = length (takeWhile (\<lambda>b. b \<noteq> 0) (take (max_bytes + 1) s)) in
           if len > max_bytes then YAP_V2_INVALID_FORMAT
           else if required \<and> len = 0 then YAP_V2_INVALID_FORMAT
           else YAP_V2_OK))"

definition segment_id_char :: "byte \<Rightarrow> bool" where
  "segment_id_char c \<longleftrightarrow>
     (of_char CHR ''a'' \<le> c \<and> c \<le> of_char CHR ''z'') \<or>
     (of_char CHR ''A'' \<le> c \<and> c \<le> of_char CHR ''Z'') \<or>
     (of_char CHR ''0'' \<le> c \<and> c \<le> of_char CHR ''9'') \<or>
     c = of_char CHR ''-'' \<or> c = of_char CHR ''_'' \<or> c = of_char CHR ''.''"

definition YAP_V2_segment_id_validate :: "bytes option \<Rightarrow> YAP_V2_STATUS" where
  "YAP_V2_segment_id_validate value =
     (let status = c_string_validate value YAP_V2_MAX_IDENTIFIER_BYTES True in
      if status \<noteq> YAP_V2_OK then status
      else if list_all segment_id_char (c_string (the value)) then YAP_V2_OK
      else YAP_V2_INVALID_FORMAT)"

record YAP_V2_SEGMENT_ID_LIST =
  idl_items :: "bytes list"
  idl_capacity :: nat

definition YAP_V2_segment_id_list_init :: YAP_V2_SEGMENT_ID_LIST where
  "YAP_V2_segment_id_list_init = \<lparr>idl_items = [], idl_capacity = 0\<rparr>"

definition next_item_capacity :: "nat \<Rightarrow> nat" where
  "next_item_capacity old =
     (let capacity = (if old = 0 then 4 else old * 2) in
      if capacity < old \<or> capacity > YAP_V2_MAX_SEGMENTS then YAP_V2_MAX_SEGMENTS else capacity)"

definition YAP_V2_segment_id_list_add ::
  "(nat \<Rightarrow> bool) \<Rightarrow> YAP_V2_SEGMENT_ID_LIST \<Rightarrow> bytes option \<Rightarrow> YAP_V2_STATUS \<times> YAP_V2_SEGMENT_ID_LIST"
where
  "YAP_V2_segment_id_list_add mem l segment_id =
     (case segment_id of
        None \<Rightarrow> (YAP_V2_INVALID_ARGUMENT, l)
      | Some s \<Rightarrow>
          (let status = YAP_V2_segment_id_validate (Some s) in
           if status \<noteq> YAP_V2_OK then (status, l)
           else if length (idl_items l) \<ge> YAP_V2_MAX_SEGMENTS then (YAP_V2_OUT_OF_RANGE, l)
           else if length (idl_items l) = idl_capacity l then
             (let capacity = next_item_capacity (idl_capacity l) in
              if capacity > SIZE_MAX div sizeof_segment_id_item then (YAP_V2_OUT_OF_RANGE, l)
              else if \<not> mem (capacity * sizeof_segment_id_item) then (YAP_V2_ALLOCATION_FAILED, l)
              else (YAP_V2_OK, l\<lparr>idl_items := idl_items l @ [c_string s], idl_capacity := capacity\<rparr>))
           else (YAP_V2_OK, l\<lparr>idl_items := idl_items l @ [c_string s]\<rparr>)))"

subsection \<open>Manifest: the segment table\<close>

definition YAP_V2_manifest_init :: YAP_V2_MANIFEST where
  "YAP_V2_manifest_init =
     \<lparr>man_format_version = ucast YAP_V2_FORMAT_VERSION, man_generation = 1,
      man_config_fingerprint = replicate 32 0, man_segments = [], man_segment_capacity = 0,
      man_segment_slots = []\<rparr>"

definition manifest_segment_hash :: "bytes \<Rightarrow> u64" where
  "manifest_segment_hash value = fnv_hash 1469598103934665603 (c_string value)"

definition manifest_start :: "bytes \<Rightarrow> nat \<Rightarrow> nat" where
  "manifest_start key capacity = unat (manifest_segment_hash key AND word_of_nat (capacity - 1))"

definition segment_keys :: "YAP_V2_SEGMENT_DESCRIPTOR list \<Rightarrow> bytes list" where
  "segment_keys segs = map (\<lambda>s. c_string (seg_id s)) segs"

text \<open>The insertion loop: every key is probed for, then stored in the free slot found.\<close>

fun fill_slots :: "bytes list \<Rightarrow> nat list \<Rightarrow> nat list \<Rightarrow> (nat list) option option" where
  "fill_slots keys slots [] = Some (Some slots)"
| "fill_slots keys slots (i # is) =
     (case probe keys slots (keys ! i) (manifest_start (keys ! i) (length slots)) (length slots) of
        None \<Rightarrow> None
      | Some (Probe_hit j) \<Rightarrow> Some None
      | Some (Probe_free s) \<Rightarrow> fill_slots keys (slots[s := i + 1]) is)"

function slot_capacity_checked :: "nat \<Rightarrow> nat \<Rightarrow> nat option" where
  "slot_capacity_checked capacity required =
     (if 0 < capacity \<and> capacity < required * 2
      then if capacity > SIZE_MAX div 2 then None else slot_capacity_checked (capacity * 2) required
      else Some capacity)"
  by pat_completeness auto
termination
  by (relation "measure (\<lambda>(capacity, required). required * 2 - capacity)") auto

declare slot_capacity_checked.simps [simp del]

lemma checked_capacity:
  "slot_capacity_checked c required = Some n \<Longrightarrow> n = slot_capacity c required"
proof (induction c required rule: slot_capacity_checked.induct)
  case (1 c required)
  from "1.prems" show ?case
    by (subst slot_capacity.simps, subst (asm) slot_capacity_checked.simps) (use 1 in \<open>auto split: if_splits\<close>)
qed

definition manifest_slots_rebuild ::
  "(nat \<Rightarrow> bool) \<Rightarrow> YAP_V2_MANIFEST \<Rightarrow> nat \<Rightarrow> (YAP_V2_STATUS \<times> YAP_V2_MANIFEST) option" where
  "manifest_slots_rebuild mem m required_count =
     (if required_count > YAP_V2_MAX_SEGMENTS \<or> required_count > SIZE_MAX div 2
      then Some (YAP_V2_OUT_OF_RANGE, m)
      else case slot_capacity_checked 1 required_count of
        None \<Rightarrow> Some (YAP_V2_OUT_OF_RANGE, m)
      | Some capacity \<Rightarrow>
          if \<not> mem (capacity * 8) then Some (YAP_V2_ALLOCATION_FAILED, m)
          else case fill_slots (segment_keys (man_segments m)) (replicate capacity 0)
                      [0..<length (man_segments m)] of
            None \<Rightarrow> None
          | Some None \<Rightarrow> Some (YAP_V2_DUPLICATE, m)
          | Some (Some slots) \<Rightarrow> Some (YAP_V2_OK, m\<lparr>man_segment_slots := slots\<rparr>))"

definition manifest_segment_find :: "YAP_V2_MANIFEST \<Rightarrow> bytes \<Rightarrow> bool" where
  "manifest_segment_find m key =
     (if man_segment_slots m = [] then False
      else case probe (segment_keys (man_segments m)) (man_segment_slots m) (c_string key)
                  (manifest_start (c_string key) (length (man_segment_slots m)))
                  (length (man_segment_slots m)) of
             Some (Probe_hit j) \<Rightarrow> True
           | _ \<Rightarrow> False)"

definition manifest_insert ::
  "(nat \<Rightarrow> bool) \<Rightarrow> YAP_V2_MANIFEST \<Rightarrow> YAP_V2_SEGMENT_DESCRIPTOR \<Rightarrow>
     (YAP_V2_STATUS \<times> YAP_V2_MANIFEST) option" where
  "manifest_insert mem m segment =
     (let capacity = next_item_capacity (man_segment_capacity m);
          grow = length (man_segments m) = man_segment_capacity m in
      if manifest_segment_find m (seg_id segment) then Some (YAP_V2_DUPLICATE, m)
      else if grow \<and> capacity > SIZE_MAX div sizeof_segment_descriptor
        then Some (YAP_V2_OUT_OF_RANGE, m)
      else if grow \<and> \<not> mem (sizeof_segment_descriptor * capacity)
        then Some (YAP_V2_ALLOCATION_FAILED, m)
      else case probe_empty (man_segment_slots m)
                  (manifest_start (c_string (seg_id segment)) (length (man_segment_slots m)))
                  (length (man_segment_slots m)) of
             None \<Rightarrow> None
           | Some slot \<Rightarrow> Some (YAP_V2_OK,
               m\<lparr>man_segments := man_segments m @ [segment],
                 man_segment_capacity := (if grow then capacity else man_segment_capacity m),
                 man_segment_slots := (man_segment_slots m)[slot := length (man_segments m) + 1]\<rparr>))"

definition YAP_V2_manifest_add_segment ::
  "(nat \<Rightarrow> bool) \<Rightarrow> YAP_V2_MANIFEST \<Rightarrow> YAP_V2_SEGMENT_DESCRIPTOR \<Rightarrow>
     (YAP_V2_STATUS \<times> YAP_V2_MANIFEST) option" where
  "YAP_V2_manifest_add_segment mem m segment =
     (let status = YAP_V2_segment_id_validate (Some (seg_id segment)) in
      if status \<noteq> YAP_V2_OK then Some (status, m)
      else if length (man_segments m) \<ge> YAP_V2_MAX_SEGMENTS then Some (YAP_V2_OUT_OF_RANGE, m)
      else if man_segment_slots m = [] \<or>
              length (man_segments m) + 1 > length (man_segment_slots m) div 2 then
        (case manifest_slots_rebuild mem m (length (man_segments m) + 1) of
           None \<Rightarrow> None
         | Some (status, m') \<Rightarrow>
             if status \<noteq> YAP_V2_OK then Some (status, m') else manifest_insert mem m' segment)
      else manifest_insert mem m segment)"

subsection \<open>Components and validation\<close>

definition YAP_V2_segment_descriptor_add_component ::
  "YAP_V2_SEGMENT_DESCRIPTOR \<Rightarrow> YAP_V2_COMPONENT_DESCRIPTOR \<Rightarrow>
     YAP_V2_STATUS \<times> YAP_V2_SEGMENT_DESCRIPTOR" where
  "YAP_V2_segment_descriptor_add_component segment component =
     (let name = c_string (cmp_name component); len = min (length name) 64 in
      if len = 0 \<or> len \<ge> 64 \<or> cmp_file_type component = 0 \<or>
         cmp_file_type component > YAP_V2_FILE_ANN \<or> cmp_file_bytes component = 0 \<or>
         (cmp_file_type component \<noteq> YAP_V2_FILE_ANN \<and>
          unat (cmp_file_bytes component) < YAP_V2_FILE_HEADER_BYTES) \<or>
         of_char CHR ''/'' \<in> set name \<or> of_char CHR 0x5C \<in> set name
      then (YAP_V2_INVALID_FORMAT, segment)
      else if length (seg_components segment) \<ge> YAP_V2_MAX_COMPONENTS
        then (YAP_V2_OUT_OF_RANGE, segment)
      else if list_ex (\<lambda>c. c_string (cmp_name c) = name \<or>
                 cmp_file_type c = cmp_file_type component) (seg_components segment)
        then (YAP_V2_DUPLICATE, segment)
      else (YAP_V2_OK, segment\<lparr>seg_components := seg_components segment @ [component]\<rparr>))"

definition validate_components :: "YAP_V2_SEGMENT_DESCRIPTOR \<Rightarrow> YAP_V2_STATUS" where
  "validate_components segment = first_error
     (map (\<lambda>j. fst (YAP_V2_segment_descriptor_add_component
               (segment\<lparr>seg_components := take j (seg_components segment)\<rparr>)
               (seg_components segment ! j)))
        [0..<length (seg_components segment)])"

fun validate_segments ::
  "YAP_V2_SEGMENT_DESCRIPTOR list \<Rightarrow> nat list \<Rightarrow> nat list \<Rightarrow> YAP_V2_STATUS option" where
  "validate_segments segs slots [] = Some YAP_V2_OK"
| "validate_segments segs slots (i # is) =
     (let segment = segs ! i; status = YAP_V2_segment_id_validate (Some (seg_id segment)) in
      if status \<noteq> YAP_V2_OK then Some status
      else if length (seg_components segment) = 0 \<or>
              length (seg_components segment) > YAP_V2_MAX_COMPONENTS
        then Some YAP_V2_INVALID_FORMAT
      else if validate_components segment \<noteq> YAP_V2_OK then Some (validate_components segment)
      else case probe (segment_keys segs) slots (segment_keys segs ! i)
                  (manifest_start (segment_keys segs ! i) (length slots)) (length slots) of
             None \<Rightarrow> None
           | Some (Probe_hit j) \<Rightarrow> Some YAP_V2_DUPLICATE
           | Some (Probe_free s) \<Rightarrow> validate_segments segs (slots[s := i + 1]) is)"

definition YAP_V2_manifest_validate :: "(nat \<Rightarrow> bool) \<Rightarrow> YAP_V2_MANIFEST \<Rightarrow> YAP_V2_STATUS option" where
  "YAP_V2_manifest_validate mem m =
     (let n = length (man_segments m); capacity = slot_capacity 1 n in
      if man_format_version m \<noteq> ucast YAP_V2_FORMAT_VERSION \<or> man_generation m = 0 \<or>
         n > YAP_V2_MAX_SEGMENTS
        then Some YAP_V2_INVALID_FORMAT
      else if list_all (\<lambda>b. b = 0) (man_config_fingerprint m) then Some YAP_V2_INVALID_FORMAT
      else if n > 0 \<and> \<not> mem (capacity * 8) then Some YAP_V2_ALLOCATION_FAILED
      else validate_segments (man_segments m) (replicate capacity 0) [0..<n])"

subsection \<open>File header\<close>

definition file_header_type_valid :: "u32 \<Rightarrow> bool" where
  "file_header_type_valid file_type \<longleftrightarrow>
     (YAP_V2_FILE_TERMS \<le> file_type \<and> file_type \<le> YAP_V2_FILE_TOMBSTONES) \<or>
     file_type = YAP_V2_FILE_MANIFEST \<or> file_type = YAP_V2_FILE_ANN_BASE"

definition yap_magic :: bytes where
  "yap_magic = [0x59, 0x41, 0x50, 0x32]"

definition header_fields_valid :: "YAP_V2_FILE_HEADER \<Rightarrow> bool" where
  "header_fields_valid h \<longleftrightarrow>
     hdr_format_version h = YAP_V2_FORMAT_VERSION \<and>
     hdr_header_bytes h = word_of_nat YAP_V2_FILE_HEADER_BYTES \<and>
     file_header_type_valid (hdr_file_type h) \<and> hdr_generation h \<noteq> 0"

definition YAP_V2_file_header_encode :: "YAP_V2_FILE_HEADER \<Rightarrow> bytes outcome" where
  "YAP_V2_file_header_encode h =
     (if \<not> header_fields_valid h then Inl YAP_V2_INVALID_FORMAT
      else Inr (yap_magic @ put_u16_le (hdr_format_version h) @ put_u16_le (hdr_header_bytes h) @
                put_u32_le (hdr_file_type h) @ put_u64_le (hdr_generation h) @
                put_u64_le (hdr_payload_bytes h) @ put_u32_le (hdr_payload_crc32c h)))"

definition YAP_V2_file_header_decode :: "bytes \<Rightarrow> YAP_V2_FILE_HEADER outcome" where
  "YAP_V2_file_header_decode input =
     (if input ! 0 \<noteq> 0x59 \<or> input ! 1 \<noteq> 0x41 \<or> input ! 2 \<noteq> 0x50 \<or> input ! 3 \<noteq> 0x32
      then Inl YAP_V2_INVALID_FORMAT
      else
        (let h = \<lparr>hdr_format_version = get_u16_le (drop 4 input),
                  hdr_header_bytes = get_u16_le (drop 6 input),
                  hdr_file_type = get_u32_le (drop 8 input),
                  hdr_generation = get_u64_le (drop 12 input),
                  hdr_payload_bytes = get_u64_le (drop 20 input),
                  hdr_payload_crc32c = get_u32_le (drop 28 input)\<rparr>
         in if \<not> header_fields_valid h then Inl YAP_V2_INVALID_FORMAT else Inr h))"

subsection \<open>Segment identifiers that validate\<close>

lemma length_takeWhile_take: "length (takeWhile P (take n s)) = min n (length (takeWhile P s))"
proof (induction s arbitrary: n)
  case (Cons x xs)
  then show ?case by (cases n) auto
qed simp

lemma segment_id_validate_ok:
  "YAP_V2_segment_id_validate (Some s) = YAP_V2_OK \<longleftrightarrow>
     c_string s \<noteq> [] \<and> length (c_string s) \<le> 255 \<and> list_all segment_id_char (c_string s)"
  by (auto simp: YAP_V2_segment_id_validate_def c_string_validate_def Let_def type_limits
      length_takeWhile_take c_string_def)

subsection \<open>Round trip of the file header\<close>

lemma length_yap_magic [simp]: "length yap_magic = 4"
  by (simp add: yap_magic_def)

lemma encode_length [codec_simps]:
  "YAP_V2_file_header_encode h = Inr bs \<Longrightarrow> length bs = YAP_V2_FILE_HEADER_BYTES"
  by (auto simp: YAP_V2_file_header_encode_def yap_magic_def YAP_V2_FILE_HEADER_BYTES_def
      split: if_splits)

lemma header_decode_parts:
  assumes "occurs_at d 0 (yap_magic @ put_u16_le v @ put_u16_le n @ put_u32_le t @ put_u64_le g @
      put_u64_le b @ put_u32_le c)"
  shows "YAP_V2_file_header_decode d =
    (let h = \<lparr>hdr_format_version = v, hdr_header_bytes = n, hdr_file_type = t,
              hdr_generation = g, hdr_payload_bytes = b, hdr_payload_crc32c = c\<rparr>
     in if header_fields_valid h then Inr h else Inl YAP_V2_INVALID_FORMAT)"
proof -
  have parts: "occurs_at d 0 yap_magic" "occurs_at d 4 (put_u16_le v)" "occurs_at d 6 (put_u16_le n)"
    "occurs_at d 8 (put_u32_le t)" "occurs_at d 12 (put_u64_le g)" "occurs_at d 20 (put_u64_le b)"
    "occurs_at d 28 (put_u32_le c)"
    using assms by (simp_all add: at_simps)
  have "d ! i = yap_magic ! i" if "i < 4" for i
    using occurs_at_nth[OF parts(1), of i] that by (simp add: yap_magic_def)
  then have "d ! 0 = 0x59" "d ! 1 = 0x41" "d ! 2 = 0x50" "d ! 3 = 0x32"
    by (simp_all add: yap_magic_def eval_nat_numeral)
  then show ?thesis
    unfolding YAP_V2_file_header_decode_def Let_def
    using parts u16.get_at u32.get_at u64.get_at by simp
qed

lemma header_decode_encode:
  "YAP_V2_file_header_encode h = Inr bs \<Longrightarrow> YAP_V2_file_header_decode (bs @ rest) = Inr h"
proof -
  assume enc: "YAP_V2_file_header_encode h = Inr bs"
  then have ok: "header_fields_valid h"
    and bs: "bs = yap_magic @ put_u16_le (hdr_format_version h) @ put_u16_le (hdr_header_bytes h) @
                put_u32_le (hdr_file_type h) @ put_u64_le (hdr_generation h) @
                put_u64_le (hdr_payload_bytes h) @ put_u32_le (hdr_payload_crc32c h)"
    by (auto simp: YAP_V2_file_header_encode_def split: if_splits)
  have "occurs_at (bs @ rest) 0 bs" by simp
  then show ?thesis
    unfolding bs using ok by (simp only: header_decode_parts) (cases h, simp)
qed

subsection \<open>The segment table is a set of identifiers\<close>

lemma manifest_start_less: "manifest_start key (2 ^ k) < 2 ^ k"
  unfolding manifest_start_def by (rule masked_less)

interpretation segment_table: probe_table manifest_start
  by unfold_locales (rule manifest_start_less)

lemma slot_capacity_checked_eq:
  "required \<le> YAP_V2_MAX_SEGMENTS \<Longrightarrow>
     slot_capacity_checked c required = Some (slot_capacity c required)"
proof (induction c required rule: slot_capacity_checked.induct)
  case (1 c required)
  then show ?case
    by (subst slot_capacity_checked.simps, subst slot_capacity.simps)
       (auto simp: YAP_V2_MAX_SEGMENTS_def)
qed

lemma new_key_at: "distinct keys \<Longrightarrow> i < length keys \<Longrightarrow> keys ! i \<notin> set (take i keys)"
  by (auto simp: in_set_conv_nth nth_eq_iff_index_eq)

lemma distinct_iff_new_keys:
  "distinct keys \<longleftrightarrow> (\<forall>i < length keys. keys ! i \<notin> set (take i keys))"
proof
  assume "\<forall>i < length keys. keys ! i \<notin> set (take i keys)"
  then have "keys ! i \<noteq> keys ! j" if "i < j" "j < length keys" for i j
    using that by (metis in_set_conv_nth length_take min.absorb4 nth_take)
  then show "distinct keys"
    by (metis distinct_conv_nth nat_neq_iff)
qed (simp add: new_key_at)

lemma fill_slots_distinct:
  assumes "table_inv manifest_start (take i keys) slots" and "length keys < length slots"
    and "distinct keys" and "i \<le> length keys"
  shows "\<exists>slots'. fill_slots keys slots [i..<length keys] = Some (Some slots') \<and>
     table_inv manifest_start keys slots' \<and> length slots' = length slots"
  using assms
proof (induction "length keys - i" arbitrary: i slots)
  case 0
  then show ?case by simp
next
  case (Suc n)
  then have i: "i < length keys" by simp
  have upt: "[i..<length keys] = i # [Suc i..<length keys]"
    using i by (rule upt_conv_Cons)
  obtain s where s: "probe keys slots (keys ! i) (manifest_start (keys ! i) (length slots))
      (length slots) = Some (Probe_free s)" "table_inv manifest_start (take (Suc i) keys) (slots[s := Suc i])"
    using segment_table.probe_step_new[OF Suc.prems(1,2) i] new_key_at[OF Suc.prems(3) i] by blast
  have "\<exists>slots'. fill_slots keys (slots[s := Suc i]) [Suc i..<length keys] = Some (Some slots') \<and>
     table_inv manifest_start keys slots' \<and> length slots' = length (slots[s := Suc i])"
    by (rule Suc.hyps(1)) (use Suc.hyps Suc.prems i s in auto)
  then show ?case
    using s(1) by (simp add: upt)
qed

lemma fill_slots_fresh:
  assumes "distinct keys" and "length keys \<le> required"  and "0 < required"
  shows "\<exists>slots. fill_slots keys (replicate (slot_capacity 1 required) 0) [0..<length keys] =
     Some (Some slots) \<and> table_inv manifest_start keys slots \<and>
     length slots = slot_capacity 1 required"
proof -
  obtain k where k: "slot_capacity 1 required = 2 ^ k"
    using slot_capacity_pow2[of 0 required] by auto
  have "required * 2 \<le> slot_capacity 1 required"
    by (rule slot_capacity_ge) simp
  then have "length keys < length (replicate (slot_capacity 1 required) (0::nat))"
    using assms by simp
  moreover have "table_inv manifest_start (take 0 keys) (replicate (slot_capacity 1 required) 0)"
    unfolding k by (simp add: table_inv_empty)
  ultimately show ?thesis
    using fill_slots_distinct[of 0 keys "replicate (slot_capacity 1 required) 0"] assms(1) by auto
qed

definition manifest_inv :: "YAP_V2_MANIFEST \<Rightarrow> bool" where
  "manifest_inv m \<longleftrightarrow>
     distinct (segment_keys (man_segments m)) \<and>
     length (man_segments m) \<le> man_segment_capacity m \<and>
     man_segment_capacity m \<le> YAP_V2_MAX_SEGMENTS \<and>
     (man_segments m = [] \<and> man_segment_slots m = [] \<or>
      table_inv manifest_start (segment_keys (man_segments m)) (man_segment_slots m) \<and>
      2 * length (man_segments m) \<le> length (man_segment_slots m))"

lemma manifest_inv_init: "manifest_inv YAP_V2_manifest_init"
  by (simp add: manifest_inv_def YAP_V2_manifest_init_def segment_keys_def)

lemma length_segment_keys [simp]: "length (segment_keys segs) = length segs"
  by (simp add: segment_keys_def)

lemma segment_keys_snoc: "segment_keys (segs @ [seg]) = segment_keys segs @ [c_string (seg_id seg)]"
  by (simp add: segment_keys_def)

lemma table_inv_nonempty: "table_inv start keys slots \<Longrightarrow> slots \<noteq> []"
  by (auto simp: table_inv_def)

lemma manifest_segment_find_iff:
  assumes "table_inv manifest_start (segment_keys (man_segments m)) (man_segment_slots m)"
    and "length (man_segments m) < length (man_segment_slots m)"
  shows "manifest_segment_find m key \<longleftrightarrow> c_string key \<in> set (segment_keys (man_segments m))"
proof (cases "c_string key \<in> set (segment_keys (man_segments m))")
  case True
  then show ?thesis
    using segment_table.probe_member[OF assms(1) _ True] assms(2) table_inv_nonempty[OF assms(1)]
    by (auto simp: manifest_segment_find_def)
next
  case False
  obtain s where "probe (segment_keys (man_segments m)) (man_segment_slots m) (c_string key)
      (manifest_start (c_string key) (length (man_segment_slots m)))
      (length (man_segment_slots m)) = Some (Probe_free s)"
    by (rule segment_table.probe_nonmember[OF assms(1) _ False]) (use assms(2) in auto)
  with False show ?thesis by (simp add: manifest_segment_find_def)
qed

lemma next_item_capacity_bounds:
  assumes "old < YAP_V2_MAX_SEGMENTS"
  shows "old < next_item_capacity old \<and> next_item_capacity old \<le> YAP_V2_MAX_SEGMENTS"
  using assms by (auto simp: next_item_capacity_def Let_def YAP_V2_MAX_SEGMENTS_def)

text \<open>What storing a segment with a valid identifier into a manifest with room may do.\<close>

definition segment_added :: "(nat \<Rightarrow> bool) \<Rightarrow> YAP_V2_SEGMENT_DESCRIPTOR list \<Rightarrow>
    YAP_V2_SEGMENT_DESCRIPTOR \<Rightarrow> YAP_V2_STATUS \<Rightarrow> YAP_V2_MANIFEST \<Rightarrow> bool" where
  "segment_added mem segs seg s m' \<longleftrightarrow> manifest_inv m' \<and>
     man_segments m' = (if s = YAP_V2_OK then segs @ [seg] else segs) \<and>
     (s = YAP_V2_OK \<longrightarrow> c_string (seg_id seg) \<notin> set (segment_keys segs)) \<and>
     ((\<forall>n. mem n) \<longrightarrow>
        s = (if c_string (seg_id seg) \<in> set (segment_keys segs) then YAP_V2_DUPLICATE else YAP_V2_OK))"

lemma manifest_insert_cases:
  assumes inv: "table_inv manifest_start (segment_keys (man_segments m)) (man_segment_slots m)"
    and room: "2 * (length (man_segments m) + 1) \<le> length (man_segment_slots m)"
    and dist: "distinct (segment_keys (man_segments m))"
    and caps: "length (man_segments m) \<le> man_segment_capacity m"
      "man_segment_capacity m \<le> YAP_V2_MAX_SEGMENTS" "length (man_segments m) < YAP_V2_MAX_SEGMENTS"
  shows "\<exists>s m'. manifest_insert mem m seg = Some (s, m') \<and> segment_added mem (man_segments m) seg s m'"
proof -
  let ?key = "c_string (seg_id seg)" and ?keys = "segment_keys (man_segments m)"
  let ?slots = "man_segment_slots m" and ?cap = "next_item_capacity (man_segment_capacity m)"
  have lt: "length ?keys < length ?slots" using room by simp
  have find: "manifest_segment_find m (seg_id seg) \<longleftrightarrow> ?key \<in> set ?keys"
    using manifest_segment_find_iff[OF inv] lt by simp
  have self: "manifest_inv m"
    using inv room dist caps by (auto simp: manifest_inv_def)
  have cap: "man_segment_capacity m < ?cap \<and> ?cap \<le> YAP_V2_MAX_SEGMENTS"
    if "length (man_segments m) = man_segment_capacity m"
    using that caps by (intro next_item_capacity_bounds) simp
  show ?thesis
  proof (cases "?key \<in> set ?keys")
    case True
    then show ?thesis
      using self by (simp add: manifest_insert_def find Let_def segment_added_def)
  next
    case False
    obtain s where s: "probe ?keys ?slots ?key (manifest_start ?key (length ?slots)) (length ?slots) =
        Some (Probe_free s)"
      by (rule segment_table.probe_nonmember[OF inv lt False]) blast
    have empty: "probe_empty ?slots (manifest_start ?key (length ?slots)) (length ?slots) = Some s"
      by (rule segment_table.probe_empty_nonmember[OF inv lt False s])
    have tab: "table_inv manifest_start (?keys @ [?key]) (?slots[s := Suc (length ?keys)])"
      by (rule segment_table.table_insert[OF inv lt False s])
    have small: "\<not> ?cap > SIZE_MAX div sizeof_segment_descriptor"
      if "length (man_segments m) = man_segment_capacity m"
      using cap[OF that] by (simp add: sizeof_segment_descriptor_def YAP_V2_MAX_SEGMENTS_def)
    show ?thesis
      using self False find empty tab small cap room dist caps
      by (auto simp: manifest_insert_def Let_def manifest_inv_def segment_keys_snoc segment_added_def)
  qed
qed

lemma manifest_slots_rebuild_cases:
  assumes "manifest_inv m" and "length (man_segments m) < YAP_V2_MAX_SEGMENTS"
  shows "manifest_slots_rebuild mem m (length (man_segments m) + 1) = Some (YAP_V2_ALLOCATION_FAILED, m) \<and>
      \<not> (\<forall>n. mem n) \<or>
    (\<exists>slots. manifest_slots_rebuild mem m (length (man_segments m) + 1) =
        Some (YAP_V2_OK, m\<lparr>man_segment_slots := slots\<rparr>) \<and>
      table_inv manifest_start (segment_keys (man_segments m)) slots \<and>
      2 * (length (man_segments m) + 1) \<le> length slots)"
proof -
  let ?n = "length (man_segments m) + 1"
  have cap: "slot_capacity_checked 1 ?n = Some (slot_capacity 1 ?n)"
    using assms(2) by (intro slot_capacity_checked_eq) simp
  have le: "?n * 2 \<le> slot_capacity 1 ?n"
    by (rule slot_capacity_ge) simp
  obtain slots where "fill_slots (segment_keys (man_segments m)) (replicate (slot_capacity 1 ?n) 0)
      [0..<length (man_segments m)] = Some (Some slots)"
    "table_inv manifest_start (segment_keys (man_segments m)) slots" "length slots = slot_capacity 1 ?n"
    using fill_slots_fresh[of "segment_keys (man_segments m)" ?n] assms(1)
    by (auto simp: manifest_inv_def)
  moreover have "\<not> (?n > YAP_V2_MAX_SEGMENTS \<or> ?n > SIZE_MAX div 2)"
    using assms(2) by (simp add: YAP_V2_MAX_SEGMENTS_def)
  ultimately show ?thesis
    using cap le by (cases "mem (slot_capacity 1 ?n * 8)") (auto simp: manifest_slots_rebuild_def)
qed

lemma manifest_add_segment_cases:
  assumes "manifest_inv m"
  shows "\<exists>s m'. YAP_V2_manifest_add_segment mem m seg = Some (s, m') \<and> manifest_inv m' \<and>
    man_segments m' = (if s = YAP_V2_OK then man_segments m @ [seg] else man_segments m) \<and>
    (s = YAP_V2_OK \<longrightarrow> c_string (seg_id seg) \<notin> set (segment_keys (man_segments m))) \<and>
    ((\<forall>n. mem n) \<longrightarrow> s =
       (if YAP_V2_segment_id_validate (Some (seg_id seg)) \<noteq> YAP_V2_OK
          then YAP_V2_segment_id_validate (Some (seg_id seg))
        else if length (man_segments m) \<ge> YAP_V2_MAX_SEGMENTS then YAP_V2_OUT_OF_RANGE
        else if c_string (seg_id seg) \<in> set (segment_keys (man_segments m)) then YAP_V2_DUPLICATE
        else YAP_V2_OK))"
proof (cases "YAP_V2_segment_id_validate (Some (seg_id seg)) = YAP_V2_OK \<and>
    length (man_segments m) < YAP_V2_MAX_SEGMENTS")
  case False
  then show ?thesis
    using assms by (auto simp: YAP_V2_manifest_add_segment_def Let_def)
next
  case True
  let ?slots = "man_segment_slots m" and ?n = "length (man_segments m)"
  have insert_result: ?thesis
    if "YAP_V2_manifest_add_segment mem m seg = Some (s, m')" "segment_added mem (man_segments m) seg s m'"
    for s m'
  proof (intro exI[of _ s] exI[of _ m'] conjI)
    show "(\<forall>n. mem n) \<longrightarrow> s =
       (if YAP_V2_segment_id_validate (Some (seg_id seg)) \<noteq> YAP_V2_OK
          then YAP_V2_segment_id_validate (Some (seg_id seg))
        else if length (man_segments m) \<ge> YAP_V2_MAX_SEGMENTS then YAP_V2_OUT_OF_RANGE
        else if c_string (seg_id seg) \<in> set (segment_keys (man_segments m)) then YAP_V2_DUPLICATE
        else YAP_V2_OK)"
      using that(2) True unfolding segment_added_def by (metis not_less)
  qed (use that in \<open>unfold segment_added_def, blast+\<close>)
  have caps: "?n \<le> man_segment_capacity m" "man_segment_capacity m \<le> YAP_V2_MAX_SEGMENTS"
    "distinct (segment_keys (man_segments m))"
    using assms by (auto simp: manifest_inv_def)
  show ?thesis
  proof (cases "?slots = [] \<or> ?n + 1 > length ?slots div 2")
    case grow: True
    have add: "YAP_V2_manifest_add_segment mem m seg =
      (case manifest_slots_rebuild mem m (?n + 1) of
         None \<Rightarrow> None
       | Some (status, m') \<Rightarrow>
           if status \<noteq> YAP_V2_OK then Some (status, m') else manifest_insert mem m' seg)"
      unfolding YAP_V2_manifest_add_segment_def Let_def if_P[OF grow] using True by simp
    from manifest_slots_rebuild_cases[OF assms, of mem] True
    consider (fail) "manifest_slots_rebuild mem m (?n + 1) = Some (YAP_V2_ALLOCATION_FAILED, m)"
        "\<not> (\<forall>n. mem n)"
      | (ok) slots where "manifest_slots_rebuild mem m (?n + 1) = Some (YAP_V2_OK, m\<lparr>man_segment_slots := slots\<rparr>)"
        "table_inv manifest_start (segment_keys (man_segments m)) slots" "2 * (?n + 1) \<le> length slots"
      by blast
    then show ?thesis
    proof cases
      case fail
      then show ?thesis using assms True by (simp add: add) blast?
    next
      case ok
      have "YAP_V2_manifest_add_segment mem m seg = manifest_insert mem (m\<lparr>man_segment_slots := slots\<rparr>) seg"
        using ok(1) by (simp add: add)
      then show ?thesis
        using manifest_insert_cases[of "m\<lparr>man_segment_slots := slots\<rparr>" mem seg] ok caps True
          insert_result by auto
    qed
  next
    case False
    then have "table_inv manifest_start (segment_keys (man_segments m)) ?slots" "2 * (?n + 1) \<le> length ?slots"
      using assms by (auto simp: manifest_inv_def)
    moreover have "YAP_V2_manifest_add_segment mem m seg = manifest_insert mem m seg"
      unfolding YAP_V2_manifest_add_segment_def Let_def if_not_P[OF False] using True by simp
    ultimately show ?thesis
      using manifest_insert_cases[of m mem seg] caps True insert_result by auto
  qed
qed

text \<open>
  C11. Adding a segment to a manifest always returns, keeps the manifest's representation (the hash
  table finds exactly the identifiers of its segments, and stays at most half full), and appends the
  segment or leaves the segments as they were. When the allocator grants every request, the status
  is the identifier's validation error, OUT_OF_RANGE at 100000 segments, DUPLICATE for an
  identifier already present, and OK otherwise.
\<close>

theorem manifest_add_segment_correct:
  assumes "manifest_inv m"
  shows "\<exists>s m'. YAP_V2_manifest_add_segment mem m seg = Some (s, m') \<and> manifest_inv m' \<and>
    man_segments m' = (if s = YAP_V2_OK then man_segments m @ [seg] else man_segments m) \<and>
    (s = YAP_V2_OK \<longrightarrow> c_string (seg_id seg) \<notin> set (segment_keys (man_segments m))) \<and>
    ((\<forall>n. mem n) \<longrightarrow> s =
       (if YAP_V2_segment_id_validate (Some (seg_id seg)) \<noteq> YAP_V2_OK
          then YAP_V2_segment_id_validate (Some (seg_id seg))
        else if length (man_segments m) \<ge> YAP_V2_MAX_SEGMENTS then YAP_V2_OUT_OF_RANGE
        else if c_string (seg_id seg) \<in> set (segment_keys (man_segments m)) then YAP_V2_DUPLICATE
        else YAP_V2_OK))"
  using assms by (rule manifest_add_segment_cases)

subsection \<open>Manifest validation\<close>

definition segment_ok :: "YAP_V2_SEGMENT_DESCRIPTOR \<Rightarrow> bool" where
  "segment_ok seg \<longleftrightarrow> YAP_V2_segment_id_validate (Some (seg_id seg)) = YAP_V2_OK \<and>
     0 < length (seg_components seg) \<and> length (seg_components seg) \<le> YAP_V2_MAX_COMPONENTS \<and>
     validate_components seg = YAP_V2_OK"

lemma validate_segments_ok_iff:
  assumes "table_inv manifest_start (take i (segment_keys segs)) slots"
    and "length segs < length slots" and "i \<le> length segs"
  shows "\<exists>s. validate_segments segs slots [i..<length segs] = Some s \<and>
    (s = YAP_V2_OK \<longleftrightarrow> (\<forall>j. i \<le> j \<and> j < length segs \<longrightarrow>
        segment_ok (segs ! j) \<and> segment_keys segs ! j \<notin> set (take j (segment_keys segs))))"
  using assms
proof (induction "length segs - i" arbitrary: i slots)
  case 0
  then show ?case by simp
next
  case (Suc n)
  then have i: "i < length (segment_keys segs)" by simp
  have room: "length (segment_keys segs) < length slots" using Suc.prems by simp
  have upt: "[i..<length segs] = i # [Suc i..<length segs]"
    using i by (simp add: upt_conv_Cons)
  have split: "(\<forall>j. i \<le> j \<and> j < length segs \<longrightarrow> P j) \<longleftrightarrow>
      P i \<and> (\<forall>j. Suc i \<le> j \<and> j < length segs \<longrightarrow> P j)" for P
    using i by (metis Suc_leD le_antisym length_segment_keys not_less_eq_eq order_refl)
  show ?case
  proof (cases "segment_ok (segs ! i) \<and> segment_keys segs ! i \<notin> set (take i (segment_keys segs))")
    case True
    then obtain s where s: "probe (segment_keys segs) slots (segment_keys segs ! i)
        (manifest_start (segment_keys segs ! i) (length slots)) (length slots) = Some (Probe_free s)"
      "table_inv manifest_start (take (Suc i) (segment_keys segs)) (slots[s := Suc i])"
      using segment_table.probe_step_new[OF Suc.prems(1) room i] by blast
    have "\<exists>t. validate_segments segs (slots[s := Suc i]) [Suc i..<length segs] = Some t \<and>
      (t = YAP_V2_OK \<longleftrightarrow> (\<forall>j. Suc i \<le> j \<and> j < length segs \<longrightarrow>
        segment_ok (segs ! j) \<and> segment_keys segs ! j \<notin> set (take j (segment_keys segs))))"
      by (rule Suc.hyps(1)) (use Suc.hyps Suc.prems s i in auto)
    then show ?thesis
      using True s(1) by (subst split) (auto simp: upt Let_def segment_ok_def)
  next
    case False
    have "\<exists>s. validate_segments segs slots [i..<length segs] = Some s \<and> s \<noteq> YAP_V2_OK"
    proof (cases "segment_ok (segs ! i)")
      case True
      then have "segment_keys segs ! i \<in> set (take i (segment_keys segs))" using False by simp
      from segment_table.probe_step_dup[OF Suc.prems(1) room i this] True
      show ?thesis by (auto simp: upt Let_def segment_ok_def)
    next
      case False
      then show ?thesis by (auto simp: upt Let_def segment_ok_def)
    qed
    with False show ?thesis by (subst split) auto
  qed
qed

lemma manifest_validate_cases:
  assumes "\<And>n. mem n"
  shows "\<exists>s. YAP_V2_manifest_validate mem m = Some s \<and>
    (s = YAP_V2_OK \<longleftrightarrow>
       man_format_version m = 2 \<and> man_generation m \<noteq> 0 \<and>
       length (man_segments m) \<le> 100000 \<and> (\<exists>b \<in> set (man_config_fingerprint m). b \<noteq> 0) \<and>
       (\<forall>seg \<in> set (man_segments m). segment_ok seg) \<and>
       distinct (segment_keys (man_segments m)))"
proof -
  let ?segs = "man_segments m" and ?cap = "slot_capacity 1 (length (man_segments m))"
  obtain k where k: "?cap = 2 ^ k"
    using slot_capacity_pow2[of 0 "length ?segs"] by auto
  have "length ?segs * 2 \<le> ?cap" by (rule slot_capacity_ge) simp
  then have room: "length ?segs < length (replicate ?cap (0::nat))"
    using k by (cases "length ?segs") auto
  have inv: "table_inv manifest_start (take 0 (segment_keys ?segs)) (replicate ?cap 0)"
    unfolding k by (simp add: table_inv_empty)
  obtain s where s: "validate_segments ?segs (replicate ?cap 0) [0..<length ?segs] = Some s"
    "s = YAP_V2_OK \<longleftrightarrow> (\<forall>j < length ?segs.
        segment_ok (?segs ! j) \<and> segment_keys ?segs ! j \<notin> set (take j (segment_keys ?segs)))"
    using validate_segments_ok_iff[OF inv room] by auto
  have "s = YAP_V2_OK \<longleftrightarrow> (\<forall>seg \<in> set ?segs. segment_ok seg) \<and> distinct (segment_keys ?segs)"
    unfolding s(2) distinct_iff_new_keys by (auto simp: all_set_conv_all_nth)
  then show ?thesis
    using s(1) assms
    by (auto simp: YAP_V2_manifest_validate_def Let_def list_all_iff storage_limits)
qed

text \<open>
  Manifest validation always returns. With an allocator that grants its one request, it accepts
  exactly the manifests of format version 2 with a non-zero generation, a non-zero configuration
  fingerprint, at most 100000 segments, pairwise different identifiers, and in every segment a valid
  identifier and one to eight valid components: the hash-table scan decides the same as the
  declarative reading.
\<close>

theorem manifest_validate_iff:
  assumes "\<And>n. mem n"
  shows "\<exists>s. YAP_V2_manifest_validate mem m = Some s \<and>
    (s = YAP_V2_OK \<longleftrightarrow>
       man_format_version m = 2 \<and> man_generation m \<noteq> 0 \<and>
       length (man_segments m) \<le> 100000 \<and> (\<exists>b \<in> set (man_config_fingerprint m). b \<noteq> 0) \<and>
       (\<forall>seg \<in> set (man_segments m). segment_ok seg) \<and>
       distinct (segment_keys (man_segments m)))"
  using assms by (rule manifest_validate_cases)

theorem manifest_validate_iff_witness:
  "YAP_V2_manifest_validate (\<lambda>_. True) (YAP_V2_manifest_init\<lparr>man_config_fingerprint := replicate 32 1\<rparr>) =
     Some YAP_V2_OK"
  using manifest_validate_iff[of "\<lambda>_. True" "YAP_V2_manifest_init\<lparr>man_config_fingerprint := replicate 32 1\<rparr>"]
  by (auto simp: YAP_V2_manifest_init_def type_limits segment_keys_def)

theorem manifest_add_segment_correct_witness:
  "\<exists>m'. YAP_V2_manifest_add_segment (\<lambda>_. True) YAP_V2_manifest_init
      \<lparr>seg_id = ascii ''seg-1'', seg_document_count = 1, seg_passage_count = 0,
       seg_tombstone_count = 0, seg_components = []\<rparr> = Some (YAP_V2_OK, m') \<and> manifest_inv m'"
proof -
  have "YAP_V2_segment_id_validate (Some (ascii ''seg-1'')) = YAP_V2_OK"
    by (simp add: segment_id_validate_ok ascii_def c_string_def segment_id_char_def)
  then show ?thesis
    using manifest_add_segment_correct[OF manifest_inv_init, of "\<lambda>_. True"
        "\<lparr>seg_id = ascii ''seg-1'', seg_document_count = 1, seg_passage_count = 0,
          seg_tombstone_count = 0, seg_components = []\<rparr>"]
    by (auto simp: YAP_V2_manifest_init_def segment_keys_def storage_limits)
qed

end
