(* ===== verification/Sha256.thy ===== *)
theory Sha256
  imports Storage_V2
begin

text \<open>
  The SHA-256 implementation of \<open>storage/yappo_segment_v2.c\<close> and the file digest
  \<open>YAP_V2_file_sha256\<close> built on it. \<open>sha_block\<close> holds the \<open>block_length\<close> valid bytes
  of the 64-byte block buffer. The last section relates the streaming code to
  the padded-message definition of FIPS 180-4.
\<close>

record YAP_V2_SHA256 =
  sha_state :: "u32 list"
  sha_bit_length :: u64
  sha_block :: bytes

text \<open>The table of round constants, one row per line of the source.\<close>

definition sha256_constants :: "u32 list" where
  "sha256_constants = concat
     [[0x428a2f98, 0x71374491, 0xb5c0fbcf, 0xe9b5dba5],
      [0x3956c25b, 0x59f111f1, 0x923f82a4, 0xab1c5ed5],
      [0xd807aa98, 0x12835b01, 0x243185be, 0x550c7dc3],
      [0x72be5d74, 0x80deb1fe, 0x9bdc06a7, 0xc19bf174],
      [0xe49b69c1, 0xefbe4786, 0x0fc19dc6, 0x240ca1cc],
      [0x2de92c6f, 0x4a7484aa, 0x5cb0a9dc, 0x76f988da],
      [0x983e5152, 0xa831c66d, 0xb00327c8, 0xbf597fc7],
      [0xc6e00bf3, 0xd5a79147, 0x06ca6351, 0x14292967],
      [0x27b70a85, 0x2e1b2138, 0x4d2c6dfc, 0x53380d13],
      [0x650a7354, 0x766a0abb, 0x81c2c92e, 0x92722c85],
      [0xa2bfe8a1, 0xa81a664b, 0xc24b8b70, 0xc76c51a3],
      [0xd192e819, 0xd6990624, 0xf40e3585, 0x106aa070],
      [0x19a4c116, 0x1e376c08, 0x2748774c, 0x34b0bcb5],
      [0x391c0cb3, 0x4ed8aa4a, 0x5b9cca4f, 0x682e6ff3],
      [0x748f82ee, 0x78a5636f, 0x84c87814, 0x8cc70208],
      [0x90befffa, 0xa4506ceb, 0xbef9a3f7, 0xc67178f2]]"

definition sha256_initial_state :: "u32 list" where
  "sha256_initial_state =
     [0x6a09e667, 0xbb67ae85, 0x3c6ef372, 0xa54ff53a, 0x510e527f, 0x9b05688c, 0x1f83d9ab, 0x5be0cd19]"

definition sha256_rotr :: "u32 \<Rightarrow> nat \<Rightarrow> u32" where
  "sha256_rotr value n = drop_bit n value OR push_bit (32 - n) value"

definition sha256_word :: "bytes \<Rightarrow> nat \<Rightarrow> u32" where
  "sha256_word block i =
     push_bit 24 (ucast (block ! (i * 4))) OR push_bit 16 (ucast (block ! (i * 4 + 1))) OR
     push_bit 8 (ucast (block ! (i * 4 + 2))) OR ucast (block ! (i * 4 + 3))"

text \<open>The loop over \<open>i = 16 .. 63\<close>: \<open>words\<close> is the array filled so far, \<open>i\<close> its length.\<close>

definition sha256_next_word :: "u32 list \<Rightarrow> u32" where
  "sha256_next_word words =
     (let i = length words;
          s0 = sha256_rotr (words ! (i - 15)) 7 XOR sha256_rotr (words ! (i - 15)) 18 XOR
               drop_bit 3 (words ! (i - 15));
          s1 = sha256_rotr (words ! (i - 2)) 17 XOR sha256_rotr (words ! (i - 2)) 19 XOR
               drop_bit 10 (words ! (i - 2))
      in words ! (i - 16) + s0 + words ! (i - 7) + s1)"

definition sha256_schedule :: "bytes \<Rightarrow> u32 list" where
  "sha256_schedule block =
     ((\<lambda>words. words @ [sha256_next_word words]) ^^ 48) (map (sha256_word block) [0..<16])"

fun sha256_round :: "u32 \<times> u32 \<Rightarrow> u32 \<times> u32 \<times> u32 \<times> u32 \<times> u32 \<times> u32 \<times> u32 \<times> u32 \<Rightarrow>
    u32 \<times> u32 \<times> u32 \<times> u32 \<times> u32 \<times> u32 \<times> u32 \<times> u32" where
  "sha256_round (k, w) (a, b, c, d, e, f, g, h) =
     (let sigma1 = sha256_rotr e 6 XOR sha256_rotr e 11 XOR sha256_rotr e 25;
          chosen = (e AND f) XOR (NOT e AND g);
          sigma0 = sha256_rotr a 2 XOR sha256_rotr a 13 XOR sha256_rotr a 22;
          majority = (a AND b) XOR (a AND c) XOR (b AND c);
          t1 = h + sigma1 + chosen + k + w;
          t2 = sigma0 + majority
      in (t1 + t2, a, b, c, d + t1, e, f, g))"

definition sha256_transform :: "u32 list \<Rightarrow> bytes \<Rightarrow> u32 list" where
  "sha256_transform state block =
     (let (a, b, c, d, e, f, g, h) =
            fold sha256_round (zip sha256_constants (sha256_schedule block))
              (state ! 0, state ! 1, state ! 2, state ! 3, state ! 4, state ! 5, state ! 6, state ! 7)
      in [state ! 0 + a, state ! 1 + b, state ! 2 + c, state ! 3 + d,
          state ! 4 + e, state ! 5 + f, state ! 6 + g, state ! 7 + h])"

definition sha256_init :: YAP_V2_SHA256 where
  "sha256_init = \<lparr>sha_state = sha256_initial_state, sha_bit_length = 0, sha_block = []\<rparr>"

definition sha256_flush :: "YAP_V2_SHA256 \<Rightarrow> YAP_V2_SHA256" where
  "sha256_flush ctx =
     (if length (sha_block ctx) = 64
      then ctx\<lparr>sha_state := sha256_transform (sha_state ctx) (sha_block ctx), sha_block := []\<rparr>
      else ctx)"

definition sha256_copy :: "YAP_V2_SHA256 \<Rightarrow> bytes \<Rightarrow> nat \<Rightarrow> YAP_V2_SHA256" where
  "sha256_copy ctx data copied =
     ctx\<lparr>sha_block := sha_block ctx @ take copied data,
         sha_bit_length := sha_bit_length ctx + word_of_nat copied * 8\<rparr>"

text \<open>A block longer than the 64-byte array cannot arise; the loop is modelled up to there.\<close>

function sha256_update :: "YAP_V2_SHA256 \<Rightarrow> bytes \<Rightarrow> YAP_V2_SHA256" where
  "sha256_update ctx data =
     (if data = [] \<or> length (sha_block ctx) > 64 then ctx
      else (let copied = min (64 - length (sha_block ctx)) (length data)
            in sha256_update (sha256_flush (sha256_copy ctx data copied)) (drop copied data)))"
  by pat_completeness auto
termination
  by (relation "measure (\<lambda>(ctx, data). 2 * length data + (if length (sha_block ctx) = 64 then 1 else 0))")
     (auto simp: sha256_flush_def sha256_copy_def min_def split: if_splits)

declare sha256_update.simps [simp del]

function sha256_pad :: "YAP_V2_SHA256 \<Rightarrow> YAP_V2_SHA256" where
  "sha256_pad ctx =
     (if length (sha_block ctx) = 56 \<or> length (sha_block ctx) > 64 then ctx
      else (let ctx' = sha256_flush ctx in sha256_pad (ctx'\<lparr>sha_block := sha_block ctx' @ [0]\<rparr>)))"
  by pat_completeness auto
termination
  by (relation "measure (\<lambda>ctx. if length (sha_block ctx) \<le> 56 then 56 - length (sha_block ctx)
                             else 121 - length (sha_block ctx))")
     (auto simp: sha256_flush_def split: if_splits)

declare sha256_pad.simps [simp del]

definition put_u64_be :: "u64 \<Rightarrow> bytes" where
  "put_u64_be v = map (\<lambda>i. ucast (drop_bit (56 - i * 8) v AND 0xff)) [0, 1, 2, 3, 4, 5, 6, 7]"

definition sha256_output :: "u32 list \<Rightarrow> bytes" where
  "sha256_output state =
     concat (map (\<lambda>s. [ucast (drop_bit 24 s), ucast (drop_bit 16 s), ucast (drop_bit 8 s), ucast s]) state)"

definition sha256_final :: "YAP_V2_SHA256 \<Rightarrow> bytes" where
  "sha256_final ctx =
     (let ctx = sha256_pad (ctx\<lparr>sha_block := sha_block ctx @ [0x80]\<rparr>);
          block = sha_block ctx @ put_u64_be (sha_bit_length ctx)
      in sha256_output (sha256_transform (sha_state ctx) block))"

definition sha256_digest :: "bytes \<Rightarrow> bytes" where
  "sha256_digest data = sha256_final (sha256_update sha256_init data)"

text \<open>
  \<open>YAP_V2_file_sha256\<close>: \<open>chunks\<close> are the results of the successive \<open>fread\<close> calls (\<open>None\<close> when
  the file does not open), \<open>read_ok\<close> and \<open>close_ok\<close> the outcome of \<open>ferror\<close> and \<open>fclose\<close>.
\<close>

fun sha256_read_loop :: "YAP_V2_SHA256 \<Rightarrow> u64 \<Rightarrow> bytes list \<Rightarrow> (YAP_V2_SHA256 \<times> u64) outcome" where
  "sha256_read_loop sha tot [] = Inr (sha, tot)"
| "sha256_read_loop sha tot (buffer # chunks) =
     (if unat tot > SIZE_MAX - length buffer then Inl YAP_V2_OUT_OF_RANGE
      else sha256_read_loop (sha256_update sha buffer) (tot + word_of_nat (length buffer)) chunks)"

definition YAP_V2_file_sha256 :: "bytes list option \<Rightarrow> bool \<Rightarrow> bool \<Rightarrow> (bytes \<times> u64) outcome" where
  "YAP_V2_file_sha256 chunks read_ok close_ok =
     (case chunks of
        None \<Rightarrow> Inl YAP_V2_IO_ERROR
      | Some cs \<Rightarrow> rbind (sha256_read_loop sha256_init 0 cs) (\<lambda>(sha, tot).
          if \<not> read_ok \<or> \<not> close_ok then Inl YAP_V2_IO_ERROR
          else Inr (sha256_final sha, tot)))"

subsection \<open>The padded-message definition\<close>

function process_blocks :: "u32 list \<Rightarrow> bytes \<Rightarrow> u32 list" where
  "process_blocks state msg =
     (if length msg < 64 then state
      else process_blocks (sha256_transform state (take 64 msg)) (drop 64 msg))"
  by pat_completeness auto
termination
  by (relation "measure (\<lambda>(state, msg). length msg)") auto

declare process_blocks.simps [simp del]

definition pad_zeros :: "nat \<Rightarrow> nat" where
  "pad_zeros n = (let r = (n + 1) mod 64 in if r \<le> 56 then 56 - r else 120 - r)"

definition sha256_padded :: "bytes \<Rightarrow> bytes" where
  "sha256_padded msg =
     msg @ [0x80] @ replicate (pad_zeros (length msg)) 0 @ put_u64_be (word_of_nat (length msg) * 8)"

definition sha256_spec :: "bytes \<Rightarrow> bytes" where
  "sha256_spec msg = sha256_output (process_blocks sha256_initial_state (sha256_padded msg))"

subsection \<open>Streaming computes the padded-message digest\<close>

lemma process_blocks_append:
  "64 dvd length x \<Longrightarrow> process_blocks st (x @ y) = process_blocks (process_blocks st x) y"
proof (induction st x rule: process_blocks.induct)
  case (1 st x)
  show ?case
  proof (cases "length x < 64")
    case True
    then have "x = []" using "1.prems" by (simp add: dvd_imp_le flip: length_0_conv) (metis dvd_imp_le linorder_not_le not_gr_zero)
    then show ?thesis by (simp add: process_blocks.simps[of st "[]"])
  next
    case False
    then have "64 dvd length (drop 64 x)"
      using "1.prems" by (simp add: dvd_diff_nat)
    then show ?thesis
      using "1.IH"[OF False] False
      by (simp add: process_blocks.simps[of st x] process_blocks.simps[of st "x @ y"])
  qed
qed

lemma process_blocks_block: "length b = 64 \<Longrightarrow> process_blocks st b = sha256_transform st b"
  by (simp add: process_blocks.simps[of st b] process_blocks.simps[of "sha256_transform st b" "[]"])

lemma length_put_u64_be: "length (put_u64_be v) = 8"
  by (simp add: put_u64_be_def)

text \<open>A context that has absorbed \<open>msg\<close>: full blocks processed, the rest buffered.\<close>

definition absorbed :: "YAP_V2_SHA256 \<Rightarrow> bytes \<Rightarrow> bool" where
  "absorbed ctx msg \<longleftrightarrow> length (sha_block ctx) < 64 \<and>
     sha_bit_length ctx = word_of_nat (length msg) * 8 \<and>
     (\<exists>x. msg = x @ sha_block ctx \<and> 64 dvd length x \<and>
        sha_state ctx = process_blocks sha256_initial_state x)"

lemma absorbed_init: "absorbed sha256_init []"
  by (simp add: absorbed_def sha256_init_def process_blocks.simps[of _ "[]"])

lemma absorbed_copy:
  assumes "absorbed ctx msg" and "length (sha_block ctx) + n \<le> 64" and "n \<le> length data"
  shows "absorbed (sha256_flush (sha256_copy ctx data n)) (msg @ take n data)"
proof -
  obtain x where x: "msg = x @ sha_block ctx" "64 dvd length x"
    "sha_state ctx = process_blocks sha256_initial_state x"
    using assms(1) by (auto simp: absorbed_def)
  have "sha_bit_length ctx = word_of_nat (length msg) * 8"
    using assms(1) by (simp add: absorbed_def)
  then have bits: "sha_bit_length (sha256_flush (sha256_copy ctx data n)) =
      word_of_nat (length (msg @ take n data)) * 8"
    using assms(3) by (simp add: sha256_flush_def sha256_copy_def algebra_simps)
  show ?thesis
  proof (cases "length (sha_block ctx) + n = 64")
    case True
    then have "process_blocks sha256_initial_state (x @ sha_block ctx @ take n data) =
        sha256_transform (sha_state ctx) (sha_block ctx @ take n data)"
      using x assms(3) by (simp add: process_blocks_append process_blocks_block)
    then have "\<exists>z. msg @ take n data = z @ sha_block (sha256_flush (sha256_copy ctx data n)) \<and>
        64 dvd length z \<and> sha_state (sha256_flush (sha256_copy ctx data n)) =
        process_blocks sha256_initial_state z"
      using True x assms(3)
      by (intro exI[of _ "x @ sha_block ctx @ take n data"])
         (auto simp: sha256_flush_def sha256_copy_def min_absorb2)
    then show ?thesis
      unfolding absorbed_def using bits True assms(3) by (simp add: sha256_flush_def sha256_copy_def)
  next
    case False
    then have "\<exists>z. msg @ take n data = z @ sha_block (sha256_flush (sha256_copy ctx data n)) \<and>
        64 dvd length z \<and> sha_state (sha256_flush (sha256_copy ctx data n)) =
        process_blocks sha256_initial_state z"
      using x assms(3) by (intro exI[of _ x]) (auto simp: sha256_flush_def sha256_copy_def)
    then show ?thesis
      unfolding absorbed_def using bits False assms by (simp add: sha256_flush_def sha256_copy_def)
  qed
qed

lemma absorbed_update: "absorbed ctx msg \<Longrightarrow> absorbed (sha256_update ctx data) (msg @ data)"
proof (induction ctx data arbitrary: msg rule: sha256_update.induct)
  case (1 ctx data)
  let ?n = "min (64 - length (sha_block ctx)) (length data)"
  have lt: "length (sha_block ctx) < 64"
    using "1.prems" by (simp add: absorbed_def)
  show ?case
  proof (cases "data = []")
    case True
    with "1.prems" show ?thesis by (simp add: sha256_update.simps[of ctx])
  next
    case False
    have "absorbed (sha256_flush (sha256_copy ctx data ?n)) (msg @ take ?n data)"
      using "1.prems" lt by (intro absorbed_copy) auto
    then have "absorbed (sha256_update (sha256_flush (sha256_copy ctx data ?n)) (drop ?n data))
        ((msg @ take ?n data) @ drop ?n data)"
      by (rule "1.IH"[OF _ refl, rotated]) (use False lt in simp)
    then show ?thesis
      using False lt by (simp add: sha256_update.simps[of ctx data] Let_def)
  qed
qed

lemma sha256_pad_blocks:
  assumes "length (sha_block ctx) \<le> 64" and "64 dvd length x"
    and "sha_state ctx = process_blocks sha256_initial_state x"
  shows "\<exists>x'. x' @ sha_block (sha256_pad ctx) =
      x @ sha_block ctx @ replicate (if length (sha_block ctx) \<le> 56 then 56 - length (sha_block ctx)
                                     else 120 - length (sha_block ctx)) 0 \<and>
    64 dvd length x' \<and> sha_state (sha256_pad ctx) = process_blocks sha256_initial_state x' \<and>
    length (sha_block (sha256_pad ctx)) = 56 \<and>
    sha_bit_length (sha256_pad ctx) = sha_bit_length ctx"
  using assms
proof (induction ctx arbitrary: x rule: sha256_pad.induct)
  case (1 ctx)
  let ?bl = "length (sha_block ctx)"
  let ?ctx = "(sha256_flush ctx)\<lparr>sha_block := sha_block (sha256_flush ctx) @ [0]\<rparr>"
  show ?case
  proof (cases "?bl = 56")
    case True
    then show ?thesis
      using "1.prems" by (intro exI[of _ x]) (simp add: sha256_pad.simps[of ctx])
  next
    case False
    then have step: "sha256_pad ctx = sha256_pad ?ctx"
      using "1.prems" by (simp add: sha256_pad.simps[of ctx] Let_def)
    define y where "y = (if ?bl = 64 then x @ sha_block ctx else x)"
    have y: "64 dvd length y" "sha_state ?ctx = process_blocks sha256_initial_state y"
      "y @ sha_block ?ctx = x @ sha_block ctx @ [0]" "length (sha_block ?ctx) \<le> 64"
      using "1.prems" by (auto simp: y_def sha256_flush_def process_blocks_append process_blocks_block)
    obtain x' where x': "x' @ sha_block (sha256_pad ?ctx) =
      y @ sha_block ?ctx @ replicate (if length (sha_block ?ctx) \<le> 56 then 56 - length (sha_block ?ctx)
                                     else 120 - length (sha_block ?ctx)) 0"
      "64 dvd length x'" "sha_state (sha256_pad ?ctx) = process_blocks sha256_initial_state x'"
      "length (sha_block (sha256_pad ?ctx)) = 56"
      "sha_bit_length (sha256_pad ?ctx) = sha_bit_length ?ctx"
      using "1.IH"[OF _ refl, of y] False "1.prems" y by auto
    have zeros: "[0] @ replicate (if length (sha_block ?ctx) \<le> 56 then 56 - length (sha_block ?ctx)
                                     else 120 - length (sha_block ?ctx)) (0::byte) =
        replicate (if ?bl \<le> 56 then 56 - ?bl else 120 - ?bl) 0"
      using False "1.prems"(1)
      by (auto simp: sha256_flush_def simp flip: replicate_Suc) 
    have "x' @ sha_block (sha256_pad ?ctx) =
        x @ sha_block ctx @ replicate (if ?bl \<le> 56 then 56 - ?bl else 120 - ?bl) 0"
      unfolding x'(1) zeros[symmetric] using y(3) by (metis append.assoc)
    moreover have "sha_bit_length ?ctx = sha_bit_length ctx"
      by (simp add: sha256_flush_def)
    ultimately show ?thesis
      unfolding step using x' by auto
  qed
qed

lemma sha256_final_absorbed:
  assumes "absorbed ctx msg"
  shows "sha256_final ctx = sha256_spec msg"
proof -
  obtain x where x: "msg = x @ sha_block ctx" "64 dvd length x"
    "sha_state ctx = process_blocks sha256_initial_state x" "length (sha_block ctx) < 64"
    "sha_bit_length ctx = word_of_nat (length msg) * 8"
    using assms by (auto simp: absorbed_def)
  let ?ctx = "ctx\<lparr>sha_block := sha_block ctx @ [0x80]\<rparr>"
  let ?k = "if length (sha_block ?ctx) \<le> 56 then 56 - length (sha_block ?ctx) else 120 - length (sha_block ?ctx)"
  obtain y where y: "y @ sha_block (sha256_pad ?ctx) = x @ sha_block ?ctx @ replicate ?k 0"
    "64 dvd length y" "sha_state (sha256_pad ?ctx) = process_blocks sha256_initial_state y"
    "length (sha_block (sha256_pad ?ctx)) = 56" "sha_bit_length (sha256_pad ?ctx) = sha_bit_length ?ctx"
    using sha256_pad_blocks[of ?ctx x] x by auto
  have "length msg mod 64 = length (sha_block ctx)"
    using x(1,2,4) by (simp add: mod_add_eq[symmetric] dvd_imp_mod_0)
  then have k: "?k = pad_zeros (length msg)"
    using x(4) by (auto simp: pad_zeros_def Let_def mod_Suc)
  let ?len = "put_u64_be (word_of_nat (length msg) * 8)"
  have "sha256_padded msg = (y @ sha_block (sha256_pad ?ctx)) @ ?len"
    unfolding y(1) k sha256_padded_def using x(1) by simp
  then have "process_blocks sha256_initial_state (sha256_padded msg) =
      sha256_transform (sha_state (sha256_pad ?ctx)) (sha_block (sha256_pad ?ctx) @ ?len)"
    using y(2-4) by (simp only: append.assoc process_blocks_append process_blocks_block
        length_append length_put_u64_be)
  then show ?thesis
    using x(5) y(5) by (simp add: sha256_final_def sha256_spec_def Let_def)
qed

text \<open>
  C23. The SHA-256 of the code is the SHA-256 of the padded message: initialising, feeding a byte
  string through the block buffer and finalising yields the digest of FIPS 180-4's padded message,
  for every length of input.
\<close>

theorem sha256_digest_correct: "sha256_digest data = sha256_spec data"
  unfolding sha256_digest_def using absorbed_update[OF absorbed_init] 
  by (intro sha256_final_absorbed) simp

lemma sha256_read_loop_absorbed:
  "absorbed sha msg \<Longrightarrow> sha256_read_loop sha tot chunks = Inr (sha', tot') \<Longrightarrow>
     absorbed sha' (msg @ concat chunks) \<and> tot' = tot + word_of_nat (length (concat chunks))"
proof (induction chunks arbitrary: sha msg tot)
  case Nil
  then show ?case by simp
next
  case (Cons c cs)
  from Cons.prems(2) have "sha256_read_loop (sha256_update sha c) (tot + word_of_nat (length c)) cs = Inr (sha', tot')"
    by (simp split: if_splits)
  from Cons.IH[OF absorbed_update[OF Cons.prems(1), of c] this]
  show ?case by (simp add: algebra_simps)
qed

text \<open>
  The file digest does not depend on how \<open>fread\<close> splits the file into buffers: whatever chunks
  are delivered, a successful \<open>YAP_V2_file_sha256\<close> returns the digest of their concatenation and
  its length (as a 64-bit number).
\<close>

theorem file_sha256_chunks:
  "YAP_V2_file_sha256 (Some chunks) read_ok close_ok = Inr (digest, tot) \<Longrightarrow>
     digest = sha256_spec (concat chunks) \<and> tot = word_of_nat (length (concat chunks))"
  using sha256_read_loop_absorbed[OF absorbed_init, of 0 chunks]
  by (auto simp: YAP_V2_file_sha256_def rbind_Inr_iff sha256_final_absorbed split: if_splits)

theorem file_sha256_chunks_witness:
  "\<exists>digest. YAP_V2_file_sha256 (Some [[0x61], [0x62, 0x63]]) True True = Inr (digest, 3) \<and>
     digest = sha256_spec [0x61, 0x62, 0x63]"
proof -
  obtain digest where d: "YAP_V2_file_sha256 (Some [[0x61], [0x62, 0x63]]) True True = Inr (digest, 3)"
    by (simp add: YAP_V2_file_sha256_def)
  from file_sha256_chunks[OF this] d show ?thesis by simp
qed

end
