(* ===== verification/File_Io.thy ===== *)
theory File_Io
  imports Types_V2
begin

text \<open>
  The file system as the storage code sees it. A path maps to the bytes of the
  file; a writer is modelled by the status it returns and the list of file
  system operations it performed, in order, so that a crash or a concurrent
  reader is a prefix of that list. \<open>io c\<close> says whether the library call \<open>c\<close>
  succeeds; every routine makes each call at most once, or tells its calls apart by the stream
  position (\<open>Io_fwrite_at\<close>, \<open>Io_fread_at\<close>). \<open>short\<close> is the
  number of bytes that reach the file when \<open>fwrite\<close> fails.
\<close>

datatype io_call =
    Io_malloc | Io_snprintf | Io_fopen | Io_fwrite | Io_fflush | Io_fsync | Io_fclose
  | Io_rename | Io_unlink | Io_strdup | Io_open_dir | Io_fsync_dir | Io_close_dir
  | Io_fseek_end | Io_ftell | Io_fseek_set | Io_fread | Io_fstat
  | Io_malloc_lock | Io_open_lock | Io_flock | Io_close_lock
  | Io_mkstemp | Io_fdopen | Io_fwrite_header | Io_fwrite_at nat | Io_fread_at nat
  | Io_open | Io_mmap | Io_close

type_synonym io = "io_call \<Rightarrow> bool"
type_synonym fs = "string \<rightharpoonup> bytes"

datatype fs_op = Fs_create string | Fs_write string bytes | Fs_rename string string | Fs_unlink string

fun run_op :: "fs_op \<Rightarrow> fs \<Rightarrow> fs" where
  "run_op (Fs_create p) fs = fs(p \<mapsto> [])"
| "run_op (Fs_write p d) fs = fs(p \<mapsto> d)"
| "run_op (Fs_rename a b) fs =
     (case fs a of None \<Rightarrow> fs | Some d \<Rightarrow> if a = b then fs else fs(b \<mapsto> d, a := None))"
| "run_op (Fs_unlink p) fs = fs(p := None)"

definition run_ops :: "fs_op list \<Rightarrow> fs \<Rightarrow> fs" where
  "run_ops ops fs = fold run_op ops fs"

definition temporary_path :: "string \<Rightarrow> string" where
  "temporary_path path = path @ ''.tmp''"

definition unlink_op :: "io \<Rightarrow> string \<Rightarrow> fs_op list" where
  "unlink_op io p = (if io Io_unlink then [Fs_unlink p] else [])"

text \<open>\<open>write_atomic\<close> of \<open>storage/yappo_segment_v2.c\<close>.\<close>

definition write_atomic :: "io \<Rightarrow> nat \<Rightarrow> string \<Rightarrow> bytes \<Rightarrow> YAP_V2_STATUS \<times> fs_op list" where
  "write_atomic io short path data =
     (let tmp = temporary_path path;
          written = [Fs_create tmp, Fs_write tmp data];
          abandon = (\<lambda>ops. (YAP_V2_IO_ERROR, ops @ unlink_op io tmp)) in
      if length path > SIZE_MAX - 5 then (YAP_V2_OUT_OF_RANGE, [])
      else if \<not> io Io_malloc then (YAP_V2_ALLOCATION_FAILED, [])
      else if \<not> io Io_snprintf then (YAP_V2_IO_ERROR, [])
      else if \<not> io Io_fopen then (YAP_V2_IO_ERROR, [])
      else if length data > 0 \<and> \<not> io Io_fwrite
        then abandon [Fs_create tmp, Fs_write tmp (take short data)]
      else if \<not> io Io_fflush \<or> \<not> io Io_fsync then abandon written
      else if \<not> io Io_fclose then abandon written
      else if \<not> io Io_rename then abandon written
      else if \<not> io Io_strdup then (YAP_V2_ALLOCATION_FAILED, written @ [Fs_rename tmp path])
      else if \<not> io Io_open_dir \<or> \<not> io Io_fsync_dir then (YAP_V2_IO_ERROR, written @ [Fs_rename tmp path])
      else if \<not> io Io_close_dir then (YAP_V2_IO_ERROR, written @ [Fs_rename tmp path])
      else (YAP_V2_OK, written @ [Fs_rename tmp path]))"

text \<open>
  \<open>fsync_parent\<close> and the writing part shared by \<open>YAP_V2_manifest_save_atomic\<close>
  (\<open>storage/yappo_manifest_v2.c\<close>) and \<open>write_component\<close> (\<open>components/yappo_lexical_v2.c\<close>):
  the failure of any step unlinks the temporary file.
\<close>

definition fsync_parent :: "io \<Rightarrow> bool" where
  "fsync_parent io \<longleftrightarrow> io Io_strdup \<and> io Io_open_dir \<and> io Io_fsync_dir \<and> io Io_close_dir"

definition write_replace :: "io \<Rightarrow> nat \<Rightarrow> string \<Rightarrow> bytes \<Rightarrow> YAP_V2_STATUS \<times> fs_op list" where
  "write_replace io short path data =
     (let tmp = temporary_path path;
          complete = length data = 0 \<or> io Io_fwrite;
          written = [Fs_create tmp, Fs_write tmp (if complete then data else take short data)];
          write_failed = \<not> complete \<or> \<not> io Io_fflush \<or> \<not> io Io_fsync \<or> \<not> io Io_fclose in
      if length path > SIZE_MAX - 5 then (YAP_V2_OUT_OF_RANGE, [])
      else if \<not> io Io_malloc then (YAP_V2_ALLOCATION_FAILED, [])
      else if \<not> io Io_fopen then (YAP_V2_IO_ERROR, [])
      else if write_failed \<or> \<not> io Io_rename then (YAP_V2_IO_ERROR, written @ unlink_op io tmp)
      else if \<not> fsync_parent io
        then (YAP_V2_IO_ERROR, written @ [Fs_rename tmp path] @ unlink_op io tmp)
      else (YAP_V2_OK, written @ [Fs_rename tmp path]))"

subsection \<open>Atomic replacement\<close>

fun only_touches :: "string \<Rightarrow> fs_op \<Rightarrow> bool" where
  "only_touches p (Fs_create q) = (q = p)"
| "only_touches p (Fs_write q d) = (q = p)"
| "only_touches p (Fs_rename a b) = False"
| "only_touches p (Fs_unlink q) = (q = p)"

lemma run_ops_append: "run_ops (xs @ ys) fs = run_ops ys (run_ops xs fs)"
  by (simp add: run_ops_def)

lemma run_ops_Nil [simp]: "run_ops [] fs = fs"
  by (simp add: run_ops_def)

lemma run_ops_Cons [simp]: "run_ops (x # xs) fs = run_ops xs (run_op x fs)"
  by (simp add: run_ops_def)

lemma run_ops_touch: "\<forall>op \<in> set ops. only_touches p op \<Longrightarrow> q \<noteq> p \<Longrightarrow> run_ops ops fs q = fs q"
proof (induction ops arbitrary: fs)
  case Nil
  then show ?case by simp
next
  case (Cons op ops)
  then show ?case by (cases op) auto
qed

lemma temporary_path_neq [simp]: "temporary_path path \<noteq> path" "path \<noteq> temporary_path path"
  by (simp_all add: temporary_path_def)

text \<open>
  The contract of a writer that replaces a file through a temporary one: up to
  one rename, it touches only the temporary file; the rename moves the complete
  data; success means that the rename happened.
\<close>

definition replaces :: "string \<Rightarrow> string \<Rightarrow> bytes \<Rightarrow> fs_op list \<Rightarrow> bool" where
  "replaces tmp path data ops \<longleftrightarrow>
     (\<exists>pre post. ops = pre @ [Fs_write tmp data,
          Fs_rename tmp path] @ post \<and>
        (\<forall>op \<in> set pre. only_touches tmp op) \<and>
        (\<forall>op \<in> set post. only_touches tmp op))"

lemma replacesI:
  "\<forall>op \<in> set post. only_touches tmp op \<Longrightarrow>
   replaces tmp path data (Fs_create tmp # Fs_write tmp data #
     Fs_rename tmp path # post)"
  unfolding replaces_def
  by (intro exI[of _ "[Fs_create tmp]"] exI[of _ post]) simp

locale atomic_writer =
  fixes writer :: "io \<Rightarrow> nat \<Rightarrow> string \<Rightarrow> 'd \<Rightarrow> YAP_V2_STATUS \<times> fs_op list"
    and target :: "string \<Rightarrow> string" and tmp :: "'d \<Rightarrow> string \<Rightarrow> string" and image :: "'d \<Rightarrow> bytes"
  assumes tmp_neq: "tmp d path \<noteq> target path"
    and writer_shape: "writer io short path d = (s, ops) \<Longrightarrow>
      (\<forall>op \<in> set ops. only_touches (tmp d path) op) \<or> replaces (tmp d path) (target path) (image d) ops"
    and writer_ok: "writer io short path d = (YAP_V2_OK, ops) \<Longrightarrow>
      replaces (tmp d path) (target path) (image d) ops"
begin

lemma prefix_old_or_new:
  assumes "writer io short path d = (s, ops)"
  shows "run_ops (take n ops) fs (target path) = fs (target path) \<or>
    run_ops (take n ops) fs (target path) = Some (image d)"
  using writer_shape[OF assms]
proof
  assume "\<forall>op \<in> set ops. only_touches (tmp d path) op"
  then have "\<forall>op \<in> set (take n ops). only_touches (tmp d path) op"
    by (meson in_set_takeD)
  then show ?thesis by (simp add: run_ops_touch[of _ "tmp d path"] tmp_neq[symmetric])
next
  assume "replaces (tmp d path) (target path) (image d) ops"
  then obtain pre post where ops: "ops = pre @ [Fs_write (tmp d path) (image d),
        Fs_rename (tmp d path) (target path)] @ post"
    and pre: "\<forall>op \<in> set pre. only_touches (tmp d path) op"
    and post: "\<forall>op \<in> set post. only_touches (tmp d path) op"
    by (auto simp: replaces_def)
  have pre_k: "run_ops (take k pre) g (target path) = g (target path)" for k g
    using pre tmp_neq[symmetric]
    by (intro run_ops_touch[of _ "tmp d path"]) (auto dest: in_set_takeD)
  have post_k: "run_ops (take k post) g (target path) = g (target path)" for k g
    using post tmp_neq[symmetric]
    by (intro run_ops_touch[of _ "tmp d path"]) (auto dest: in_set_takeD)
  consider "n \<le> length pre" | "n = Suc (length pre)" | k where "n = length pre + Suc (Suc k)"
  proof -
    have "n = length pre + Suc (Suc (n - length pre - 2))"
      if "\<not> n \<le> length pre" "n \<noteq> Suc (length pre)"
      using that by linarith
    then show ?thesis using that by blast
  qed
  then show ?thesis
    by cases (simp_all add: ops run_ops_append pre_k[of "length pre", simplified] pre_k post_k
        tmp_neq tmp_neq[symmetric])
qed

lemma ok_new:
  assumes "writer io short path d = (YAP_V2_OK, ops)"
  shows "run_ops ops fs (target path) = Some (image d)"
  using writer_ok[OF assms]
  by (auto simp: replaces_def run_ops_append run_ops_touch[of _ "tmp d path"] tmp_neq tmp_neq[symmetric])

lemma other_paths:
  assumes "writer io short path d = (s, ops)" and "q \<noteq> target path" and "q \<noteq> tmp d path"
  shows "run_ops ops fs q = fs q"
  using writer_shape[OF assms(1)]
proof
  assume "replaces (tmp d path) (target path) (image d) ops"
  then show ?thesis
    using assms(2,3) tmp_neq[of d path]
    by (auto simp: replaces_def run_ops_append run_ops_touch[of _ "tmp d path"])
qed (simp add: run_ops_touch assms(3))

end

interpretation segment_writer: atomic_writer write_atomic "\<lambda>path. path" "\<lambda>_. temporary_path" "\<lambda>data. data"
proof
  show "temporary_path path \<noteq> path" for path
    by simp
  show "(\<forall>op \<in> set ops. only_touches (temporary_path path) op) \<or> replaces (temporary_path path) path data ops"
    if "write_atomic io short path data = (s, ops)" for io short path data s ops
    using that by (auto simp: write_atomic_def Let_def unlink_op_def split: if_splits intro!: replacesI)
  show "replaces (temporary_path path) path data ops"
    if "write_atomic io short path data = (YAP_V2_OK, ops)" for io short path data ops
    using that by (auto simp: write_atomic_def Let_def unlink_op_def split: if_splits intro!: replacesI)
qed

interpretation replace_writer: atomic_writer write_replace "\<lambda>path. path" "\<lambda>_. temporary_path" "\<lambda>data. data"
proof
  show "temporary_path path \<noteq> path" for path
    by simp
  show "(\<forall>op \<in> set ops. only_touches (temporary_path path) op) \<or> replaces (temporary_path path) path data ops"
    if "write_replace io short path data = (s, ops)" for io short path data s ops
    using that by (auto simp: write_replace_def Let_def unlink_op_def split: if_splits intro!: replacesI)
  show "replaces (temporary_path path) path data ops"
    if "write_replace io short path data = (YAP_V2_OK, ops)" for io short path data ops
    using that by (auto simp: write_replace_def Let_def unlink_op_def split: if_splits intro!: replacesI)
qed

text \<open>
  Crash safety of \<open>write_atomic\<close>: after any prefix of the file operations it performs, the
  target file holds its old content or the complete new data; success means the new data; files
  other than the target and its temporary file are never touched.
\<close>

theorem write_atomic_crash_safe:
  assumes "write_atomic io short path data = (s, ops)"
  shows "(run_ops (take n ops) fs path = fs path \<or> run_ops (take n ops) fs path = Some data) \<and>
    (s = YAP_V2_OK \<longrightarrow> run_ops ops fs path = Some data) \<and>
    (q \<noteq> path \<longrightarrow> q \<noteq> temporary_path path \<longrightarrow> run_ops ops fs q = fs q)"
  using segment_writer.prefix_old_or_new[OF assms] segment_writer.ok_new segment_writer.other_paths[OF assms]
    assms by blast

theorem write_atomic_crash_safe_witness:
  "run_ops (take 2 (snd (write_atomic (\<lambda>c. c \<noteq> Io_fsync) 0 ''p'' [1, 2]))) [''p'' \<mapsto> [9]] ''p'' = Some [9] \<or>
   run_ops (take 2 (snd (write_atomic (\<lambda>c. c \<noteq> Io_fsync) 0 ''p'' [1, 2]))) [''p'' \<mapsto> [9]] ''p'' = Some [1, 2]"
  using write_atomic_crash_safe[of "\<lambda>c. c \<noteq> Io_fsync" 0 "''p''" "[1, 2]" YAP_V2_IO_ERROR
      "[Fs_create ''p.tmp'', Fs_write ''p.tmp'' [1, 2], Fs_unlink ''p.tmp'']" 2 "[''p'' \<mapsto> [9]]"]
  by (simp add: write_atomic_def Let_def unlink_op_def temporary_path_def)

end
