(* ===== verification/Segment_Buffer.thy ===== *)
theory Segment_Buffer
  imports Storage_V2 Sha256 File_Io
begin

text \<open>
  The lower half of \<open>storage/yappo_segment_v2.c\<close>: the growing output buffer, the bounds-checked
  readers, reading a whole file, and the frame (32-byte header and CRC-32C) that the document and
  tombstone files share. The only pointers the C code rejects as null here are those its callers
  always set; they are not modelled. \<open>mem n\<close> says whether an allocation of \<open>n\<close> bytes succeeds.
\<close>

subsection \<open>Output buffer\<close>

record YAP_V2_BUFFER =
  buf_data :: bytes
  buf_capacity :: nat

definition buffer_empty :: YAP_V2_BUFFER where
  "buffer_empty = \<lparr>buf_data = [], buf_capacity = 0\<rparr>"

function buffer_grow :: "nat \<Rightarrow> nat \<Rightarrow> nat" where
  "buffer_grow next_capacity required =
     (if 0 < next_capacity \<and> next_capacity < required
      then if next_capacity > YAP_V2_MAX_SEGMENT_PAYLOAD_BYTES div 2
           then YAP_V2_MAX_SEGMENT_PAYLOAD_BYTES
           else buffer_grow (next_capacity * 2) required
      else next_capacity)"
  by pat_completeness auto
termination
  by (relation "measure (\<lambda>(c, r). r - c)") auto

declare buffer_grow.simps [simp del]

definition buffer_reserve :: "(nat \<Rightarrow> bool) \<Rightarrow> YAP_V2_BUFFER \<Rightarrow> nat \<Rightarrow> YAP_V2_BUFFER outcome" where
  "buffer_reserve mem buffer additional =
     (let len = length (buf_data buffer); required = len + additional in
      if additional > size_sub YAP_V2_MAX_SEGMENT_PAYLOAD_BYTES len
        then Inl YAP_V2_SEGMENT_CAPACITY_EXCEEDED
      else if required \<le> buf_capacity buffer then Inr buffer
      else
        (let next_capacity =
           buffer_grow (if buf_capacity buffer = 0 then 256 else buf_capacity buffer) required in
         if mem next_capacity then Inr (buffer\<lparr>buf_capacity := next_capacity\<rparr>)
         else Inl YAP_V2_ALLOCATION_FAILED))"

definition buffer_append :: "(nat \<Rightarrow> bool) \<Rightarrow> YAP_V2_BUFFER \<Rightarrow> YAP_V2_BYTES_VIEW \<Rightarrow> YAP_V2_BUFFER outcome"
where
  "buffer_append mem buffer value =
     (if view_len value > 0 \<and> view_is_null value then Inl YAP_V2_INVALID_ARGUMENT
      else rbind (buffer_reserve mem buffer (view_len value))
             (\<lambda>buffer. Inr (buffer\<lparr>buf_data := buf_data buffer @ view_bytes value\<rparr>)))"

definition buffer_append_u32 :: "(nat \<Rightarrow> bool) \<Rightarrow> YAP_V2_BUFFER \<Rightarrow> u32 \<Rightarrow> YAP_V2_BUFFER outcome" where
  "buffer_append_u32 mem buffer value = buffer_append mem buffer (View (put_u32_le value))"

definition buffer_append_u64 :: "(nat \<Rightarrow> bool) \<Rightarrow> YAP_V2_BUFFER \<Rightarrow> u64 \<Rightarrow> YAP_V2_BUFFER outcome" where
  "buffer_append_u64 mem buffer value = buffer_append mem buffer (View (put_u64_le value))"

definition buffer_append_bytes_view ::
  "(nat \<Rightarrow> bool) \<Rightarrow> YAP_V2_BUFFER \<Rightarrow> YAP_V2_BYTES_VIEW \<Rightarrow> YAP_V2_BUFFER outcome" where
  "buffer_append_bytes_view mem buffer value =
     (if view_len value > UINT32_MAX then Inl YAP_V2_OUT_OF_RANGE
      else rbind (buffer_append_u32 mem buffer (word_of_nat (view_len value)))
             (\<lambda>buffer. buffer_append mem buffer value))"

subsection \<open>Readers\<close>

definition read_u32 :: "bytes \<Rightarrow> nat \<Rightarrow> nat \<Rightarrow> (u32 \<times> nat) outcome" where
  "read_u32 data data_len offset =
     (if offset > data_len \<or> data_len - offset < 4 then Inl YAP_V2_INVALID_FORMAT
      else Inr (get_u32_le (drop offset data), offset + 4))"

definition read_u64 :: "bytes \<Rightarrow> nat \<Rightarrow> nat \<Rightarrow> (u64 \<times> nat) outcome" where
  "read_u64 data data_len offset =
     (if offset > data_len \<or> data_len - offset < 8 then Inl YAP_V2_INVALID_FORMAT
      else Inr (get_u64_le (drop offset data), offset + 8))"

definition read_bytes_view :: "bytes \<Rightarrow> nat \<Rightarrow> nat \<Rightarrow> (YAP_V2_BYTES_VIEW \<times> nat) outcome" where
  "read_bytes_view data data_len offset =
     rbind (read_u32 data data_len offset) (\<lambda>(len, offset).
       if unat len > data_len - offset then Inl YAP_V2_INVALID_FORMAT
       else Inr (View (take (unat len) (drop offset data)), offset + unat len))"

definition read_file :: "(nat \<Rightarrow> bool) \<Rightarrow> io \<Rightarrow> fs \<Rightarrow> string \<Rightarrow> bytes outcome" where
  "read_file mem io fs path =
     (case fs path of
        None \<Rightarrow> Inl YAP_V2_IO_ERROR
      | Some content \<Rightarrow>
          if \<not> io Io_fopen \<or> \<not> io Io_fseek_end \<or> \<not> io Io_ftell then Inl YAP_V2_IO_ERROR
          else if length content > YAP_V2_FILE_HEADER_BYTES + YAP_V2_MAX_SEGMENT_PAYLOAD_BYTES
            then Inl YAP_V2_OUT_OF_RANGE
          else if \<not> io Io_fseek_set then Inl YAP_V2_IO_ERROR
          else if \<not> mem (length content) \<and> length content > 0 then Inl YAP_V2_ALLOCATION_FAILED
          else if length content > 0 \<and> \<not> io Io_fread then Inl YAP_V2_IO_ERROR
          else if \<not> io Io_fclose then Inl YAP_V2_IO_ERROR
          else Inr content)"

subsection \<open>Framed files\<close>

text \<open>
  The header a writer puts in front of its payload, and the checks both readers make before they
  parse a payload (the two copies in the source differ only in the expected file type).
\<close>

definition seal_frame :: "u32 \<Rightarrow> u64 \<Rightarrow> bytes \<Rightarrow> bytes outcome" where
  "seal_frame file_type generation payload =
     rbind (YAP_V2_file_header_encode
        \<lparr>hdr_format_version = YAP_V2_FORMAT_VERSION,
         hdr_header_bytes = word_of_nat YAP_V2_FILE_HEADER_BYTES, hdr_file_type = file_type,
         hdr_generation = generation, hdr_payload_bytes = word_of_nat (length payload),
         hdr_payload_crc32c = crc32c_branch payload\<rparr>)
       (\<lambda>header_bytes.
          if length payload > SIZE_MAX - YAP_V2_FILE_HEADER_BYTES then Inl YAP_V2_OUT_OF_RANGE
          else Inr (header_bytes @ payload))"

definition open_frame :: "u32 \<Rightarrow> u64 \<Rightarrow> bytes \<Rightarrow> YAP_V2_FILE_HEADER outcome" where
  "open_frame file_type expected_generation file_bytes =
     (if length file_bytes < YAP_V2_FILE_HEADER_BYTES then Inl YAP_V2_INVALID_FORMAT
      else case YAP_V2_file_header_decode file_bytes of
        Inl status \<Rightarrow> Inl YAP_V2_INVALID_FORMAT
      | Inr header \<Rightarrow>
          if hdr_file_type header \<noteq> file_type \<or>
             hdr_payload_bytes header \<noteq> word_of_nat (length file_bytes - YAP_V2_FILE_HEADER_BYTES) \<or>
             (expected_generation \<noteq> 0 \<and> hdr_generation header \<noteq> expected_generation)
          then Inl YAP_V2_INVALID_FORMAT
          else if crc32c_branch (drop YAP_V2_FILE_HEADER_BYTES file_bytes) \<noteq> hdr_payload_crc32c header
          then Inl YAP_V2_CHECKSUM_MISMATCH
          else Inr header)"

subsection \<open>The buffer keeps its bounds\<close>

definition buffer_inv :: "YAP_V2_BUFFER \<Rightarrow> bool" where
  "buffer_inv b \<longleftrightarrow> length (buf_data b) \<le> buf_capacity b \<and>
     buf_capacity b \<le> YAP_V2_MAX_SEGMENT_PAYLOAD_BYTES"

lemma buffer_grow_bounds:
  "0 < c \<Longrightarrow> c \<le> YAP_V2_MAX_SEGMENT_PAYLOAD_BYTES \<Longrightarrow> r \<le> YAP_V2_MAX_SEGMENT_PAYLOAD_BYTES \<Longrightarrow>
     r \<le> buffer_grow c r \<and> c \<le> buffer_grow c r \<and> buffer_grow c r \<le> YAP_V2_MAX_SEGMENT_PAYLOAD_BYTES"
proof (induction c r rule: buffer_grow.induct)
  case (1 c r)
  show ?case
  proof (cases "c < r \<and> \<not> c > YAP_V2_MAX_SEGMENT_PAYLOAD_BYTES div 2")
    case True
    then have "r \<le> buffer_grow (c * 2) r \<and> c * 2 \<le> buffer_grow (c * 2) r \<and>
        buffer_grow (c * 2) r \<le> YAP_V2_MAX_SEGMENT_PAYLOAD_BYTES"
      using 1 by (intro "1.IH") auto
    with True 1(2) show ?thesis by (subst (1 2 3) buffer_grow.simps) auto
  next
    case False
    with 1(2-4) show ?thesis by (subst (1 2 3) buffer_grow.simps) auto
  qed
qed

lemma max_payload_fits: "YAP_V2_MAX_SEGMENT_PAYLOAD_BYTES < 2 ^ 64" "256 \<le> YAP_V2_MAX_SEGMENT_PAYLOAD_BYTES"
  by (simp_all add: storage_limits)

lemma buffer_reserve_cases:
  assumes "buffer_inv b"
  shows "case buffer_reserve mem b n of
      Inr b' \<Rightarrow> buffer_inv b' \<and> buf_data b' = buf_data b \<and> length (buf_data b) + n \<le> buf_capacity b'
    | Inl s \<Rightarrow> s = YAP_V2_SEGMENT_CAPACITY_EXCEEDED \<and>
                 YAP_V2_MAX_SEGMENT_PAYLOAD_BYTES < length (buf_data b) + n \<or>
               s = YAP_V2_ALLOCATION_FAILED \<and>
                 length (buf_data b) + n \<le> YAP_V2_MAX_SEGMENT_PAYLOAD_BYTES \<and> (\<exists>k. \<not> mem k)"
proof -
  let ?c = "if buf_capacity b = 0 then 256 else buf_capacity b"
  have sub: "size_sub YAP_V2_MAX_SEGMENT_PAYLOAD_BYTES (length (buf_data b)) =
      YAP_V2_MAX_SEGMENT_PAYLOAD_BYTES - length (buf_data b)"
    using assms max_payload_fits by (intro size_sub_le) (auto simp: buffer_inv_def)
  have "length (buf_data b) + n \<le> buffer_grow ?c (length (buf_data b) + n) \<and>
      length (buf_data b) \<le> buffer_grow ?c (length (buf_data b) + n) \<and>
      buffer_grow ?c (length (buf_data b) + n) \<le> YAP_V2_MAX_SEGMENT_PAYLOAD_BYTES"
    if "length (buf_data b) + n \<le> YAP_V2_MAX_SEGMENT_PAYLOAD_BYTES"
    using buffer_grow_bounds[of ?c "length (buf_data b) + n"] that assms max_payload_fits
    by (auto simp: buffer_inv_def)
  then show ?thesis
    using assms by (auto simp: buffer_reserve_def Let_def sub buffer_inv_def)
qed

lemma buffer_append_Inr:
  assumes "buffer_inv b" and "buffer_append mem b v = Inr b'"
  shows "buffer_inv b' \<and> buf_data b' = buf_data b @ view_bytes v \<and> length (view_bytes v) = view_len v"
proof -
  from assms(2) obtain b1 where r: "buffer_reserve mem b (view_len v) = Inr b1"
    and b': "b' = b1\<lparr>buf_data := buf_data b1 @ view_bytes v\<rparr>"
    and v: "\<not> (view_len v > 0 \<and> view_is_null v)"
    by (auto simp: buffer_append_def result_simps split: if_splits)
  have "length (view_bytes v) = view_len v" using v by (cases v) auto
  with buffer_reserve_cases[OF assms(1), where mem = mem and n = "view_len v"] r b' show ?thesis
    by (auto simp: buffer_inv_def)
qed

text \<open>The bytes of an encoded view, and the view a reader makes of them.\<close>

definition enc_view :: "YAP_V2_BYTES_VIEW \<Rightarrow> bytes" where
  "enc_view v = put_u32_le (word_of_nat (view_len v)) @ view_bytes v"

definition norm_view :: "YAP_V2_BYTES_VIEW \<Rightarrow> YAP_V2_BYTES_VIEW" where
  "norm_view v = View (view_bytes v)"

lemma norm_view_simps [simp]:
  "view_bytes (norm_view v) = view_bytes v" "view_is_null (norm_view v) \<longleftrightarrow> False"
  "view_len (norm_view v) = length (view_bytes v)" "norm_view (norm_view v) = norm_view v"
  by (simp_all add: norm_view_def)

text \<open>What one successful buffer operation adds; \<open>appends\<close> composes along \<open>rbind\<close>.\<close>

definition appends :: "(YAP_V2_BUFFER \<Rightarrow> YAP_V2_BUFFER outcome) \<Rightarrow> bytes \<Rightarrow> bool" where
  "appends f out \<longleftrightarrow> (\<forall>b b'. buffer_inv b \<longrightarrow> f b = Inr b' \<longrightarrow>
     buffer_inv b' \<and> buf_data b' = buf_data b @ out)"

named_theorems appends_intros \<open>what a buffer operation appends\<close>

lemma appendsD:
  "appends f out \<Longrightarrow> f b = Inr b' \<Longrightarrow> buffer_inv b \<Longrightarrow> buffer_inv b' \<and> buf_data b' = buf_data b @ out"
  unfolding appends_def by blast

lemma appendsI:
  "(\<And>b b'. buffer_inv b \<Longrightarrow> f b = Inr b' \<Longrightarrow> buffer_inv b' \<and> buf_data b' = buf_data b @ out) \<Longrightarrow>
     appends f out"
  unfolding appends_def by blast

lemma appends_bytes [appends_intros]: "appends (\<lambda>b. buffer_append mem b v) (view_bytes v)"
  by (rule appendsI) (drule (1) buffer_append_Inr, simp)

lemma appends_u32 [appends_intros]: "appends (\<lambda>b. buffer_append_u32 mem b v) (put_u32_le v)"
  unfolding buffer_append_u32_def using appends_bytes[of mem "View (put_u32_le v)"] by simp

lemma appends_u64 [appends_intros]: "appends (\<lambda>b. buffer_append_u64 mem b v) (put_u64_le v)"
  unfolding buffer_append_u64_def using appends_bytes[of mem "View (put_u64_le v)"] by simp

lemma appends_bind [appends_intros]:
  assumes f: "appends f xs" and g: "appends g ys"
  shows "appends (\<lambda>b. rbind (f b) g) (xs @ ys)"
proof (rule appendsI)
  fix b b' assume b: "buffer_inv b" "rbind (f b) g = Inr b'"
  then obtain b1 where b1: "f b = Inr b1" "g b1 = Inr b'"
    unfolding rbind_Inr_iff by blast
  from appendsD[OF f b1(1) b(1)] have 1: "buffer_inv b1" "buf_data b1 = buf_data b @ xs" by auto
  from appendsD[OF g b1(2) 1(1)] 1(2) show "buffer_inv b' \<and> buf_data b' = buf_data b @ xs @ ys" by simp
qed

lemma appends_view [appends_intros]: "appends (\<lambda>b. buffer_append_bytes_view mem b v) (enc_view v)"
proof (rule appendsI)
  fix b b' assume b: "buffer_inv b" "buffer_append_bytes_view mem b v = Inr b'"
  have "appends (\<lambda>b. rbind (buffer_append_u32 mem b (word_of_nat (view_len v)))
             (\<lambda>buffer. buffer_append mem buffer v)) (enc_view v)"
    unfolding enc_view_def by (intro appends_intros)
  from appendsD[OF this, of b b'] b show "buffer_inv b' \<and> buf_data b' = buf_data b @ enc_view v"
    by (simp add: buffer_append_bytes_view_def split: if_splits)
qed

text \<open>
  And when it succeeds: with an allocator that always answers, whenever the result stays within the
  payload limit.
\<close>

definition accepts :: "(YAP_V2_BUFFER \<Rightarrow> YAP_V2_BUFFER outcome) \<Rightarrow> bytes \<Rightarrow> bool" where
  "accepts f out \<longleftrightarrow> appends f out \<and> (\<forall>b. buffer_inv b \<longrightarrow>
     length (buf_data b) + length out \<le> YAP_V2_MAX_SEGMENT_PAYLOAD_BYTES \<longrightarrow> (\<exists>b'. f b = Inr b'))"

named_theorems accepts_intros \<open>which buffer operations succeed\<close>

lemma acceptsI:
  "appends f out \<Longrightarrow> (\<And>b. buffer_inv b \<Longrightarrow>
     length (buf_data b) + length out \<le> YAP_V2_MAX_SEGMENT_PAYLOAD_BYTES \<Longrightarrow> \<exists>b'. f b = Inr b') \<Longrightarrow>
   accepts f out"
  unfolding accepts_def by blast

lemma acceptsD:
  "accepts f out \<Longrightarrow> buffer_inv b \<Longrightarrow>
     length (buf_data b) + length out \<le> YAP_V2_MAX_SEGMENT_PAYLOAD_BYTES \<Longrightarrow> \<exists>b'. f b = Inr b'"
  unfolding accepts_def by blast

lemma accepts_appends: "accepts f out \<Longrightarrow> appends f out"
  unfolding accepts_def by blast

lemma accepts_bytes [accepts_intros]:
  assumes "\<And>n. mem n" and "view_len v = length (view_bytes v)"
  shows "accepts (\<lambda>b. buffer_append mem b v) (view_bytes v)"
proof (rule acceptsI[OF appends_bytes])
  fix b assume b: "buffer_inv b"
    "length (buf_data b) + length (view_bytes v) \<le> YAP_V2_MAX_SEGMENT_PAYLOAD_BYTES"
  obtain b' where "buffer_reserve mem b (view_len v) = Inr b'"
    using buffer_reserve_cases[OF b(1), where mem = mem and n = "view_len v"] b(2) assms
    by (auto split: sum.splits)
  moreover have "\<not> (view_len v > 0 \<and> view_is_null v)"
    using assms(2) by (cases v) auto
  ultimately show "\<exists>b'. buffer_append mem b v = Inr b'"
    by (simp add: buffer_append_def)
qed

lemma accepts_u32 [accepts_intros]:
  "(\<And>n. mem n) \<Longrightarrow> accepts (\<lambda>b. buffer_append_u32 mem b v) (put_u32_le v)"
  unfolding buffer_append_u32_def using accepts_bytes[of mem "View (put_u32_le v)"] by simp

lemma accepts_u64 [accepts_intros]:
  "(\<And>n. mem n) \<Longrightarrow> accepts (\<lambda>b. buffer_append_u64 mem b v) (put_u64_le v)"
  unfolding buffer_append_u64_def using accepts_bytes[of mem "View (put_u64_le v)"] by simp

lemma accepts_bind [accepts_intros]:
  assumes f: "accepts f xs" and g: "accepts g ys"
  shows "accepts (\<lambda>b. rbind (f b) g) (xs @ ys)"
proof (rule acceptsI)
  show "appends (\<lambda>b. rbind (f b) g) (xs @ ys)"
    using f g by (intro appends_bind accepts_appends)
  fix b assume b: "buffer_inv b"
    "length (buf_data b) + length (xs @ ys) \<le> YAP_V2_MAX_SEGMENT_PAYLOAD_BYTES"
  then obtain b1 where b1: "f b = Inr b1"
    using acceptsD[OF f, of b] by auto
  from appendsD[OF accepts_appends[OF f] b1 b(1)]
  have "buffer_inv b1" "length (buf_data b1) + length ys \<le> YAP_V2_MAX_SEGMENT_PAYLOAD_BYTES"
    using b(2) by auto
  from acceptsD[OF g this] b1 show "\<exists>b'. rbind (f b) g = Inr b'"
    by simp
qed

lemma accepts_view [accepts_intros]:
  assumes "\<And>n. mem n" and "view_len v = length (view_bytes v)"
  shows "accepts (\<lambda>b. buffer_append_bytes_view mem b v) (enc_view v)"
proof (rule acceptsI[OF appends_view])
  fix b assume b: "buffer_inv b"
    "length (buf_data b) + length (enc_view v) \<le> YAP_V2_MAX_SEGMENT_PAYLOAD_BYTES"
  have "accepts (\<lambda>b. rbind (buffer_append_u32 mem b (word_of_nat (view_len v)))
             (\<lambda>buffer. buffer_append mem buffer v)) (enc_view v)"
    unfolding enc_view_def using assms by (intro accepts_intros)
  from acceptsD[OF this b] show "\<exists>b'. buffer_append_bytes_view mem b v = Inr b'"
    using b(2) assms(2) by (simp add: buffer_append_bytes_view_def enc_view_def storage_limits)
qed

lemma buffer_inv_empty [simp]: "buffer_inv buffer_empty" "buf_data buffer_empty = []"
  by (simp_all add: buffer_inv_def buffer_empty_def)

subsection \<open>Readers invert encoders\<close>

text \<open>
  A reader of records: at an offset where the encoding of \<open>x\<close> stands, and with the end of the
  readable area behind it, it returns \<open>x\<close> and the offset after it.
\<close>

locale record_reader =
  fixes rd :: "bytes \<Rightarrow> nat \<Rightarrow> nat \<Rightarrow> ('a \<times> nat) outcome"
    and enc :: "'a \<Rightarrow> bytes" and good :: "'a \<Rightarrow> bool"
  assumes rd_enc: "good x \<Longrightarrow> occurs_at d off (enc x) \<Longrightarrow> off + length (enc x) \<le> n \<Longrightarrow>
      rd d n off = Inr (x, off + length (enc x))"
begin

lemma rd_bind: "good x \<Longrightarrow> occurs_at d off (enc x) \<Longrightarrow> off + length (enc x) \<le> n \<Longrightarrow>
    rbind (rd d n off) f = f (x, off + length (enc x))"
  by (simp add: rd_enc)

end

interpretation reader_u32: record_reader read_u32 put_u32_le "\<lambda>_. True"
  by unfold_locales (simp add: read_u32_def u32.get_at)

interpretation reader_u64: record_reader read_u64 put_u64_le "\<lambda>_. True"
  by unfold_locales (simp add: read_u64_def u64.get_at)

definition readable_view :: "YAP_V2_BYTES_VIEW \<Rightarrow> bool" where
  "readable_view v \<longleftrightarrow> \<not> view_is_null v \<and> view_len v \<le> UINT32_MAX"

lemma unat_of_len [simp]: "n \<le> UINT32_MAX \<Longrightarrow> unat (word_of_nat n :: u32) = n"
  by (simp add: unat_of_nat)

interpretation reader_view: record_reader read_bytes_view enc_view readable_view
proof
  fix v d off n
  assume v: "readable_view v" and at: "occurs_at d off (enc_view v)"
    and n: "off + length (enc_view v) \<le> n"
  obtain bs where bs: "v = View bs" "length bs \<le> UINT32_MAX"
    using v by (cases v) (auto simp: readable_view_def)
  have "read_u32 d n off = Inr (word_of_nat (length bs), off + 4)"
    using reader_u32.rd_enc[where x = "word_of_nat (length bs)" and d = d and off = off and n = n] at n
    by (simp add: enc_view_def bs at_simps)
  moreover have "take (length bs) (drop (off + 4) d) = bs"
    using at by (auto simp: enc_view_def bs at_simps dest: occurs_at_take)
  ultimately show "read_bytes_view d n off = Inr (v, off + length (enc_view v))"
    using n bs(2) by (simp add: read_bytes_view_def bs(1) enc_view_def)
qed

lemma enc_view_norm [simp]: "view_len v = length (view_bytes v) \<Longrightarrow> enc_view (norm_view v) = enc_view v"
  by (simp add: enc_view_def)

lemma text_ok_norm:
  "text_ok m v \<Longrightarrow> m \<le> UINT32_MAX \<Longrightarrow>
     readable_view (norm_view v) \<and> enc_view (norm_view v) = enc_view v \<and> text_ok m (norm_view v)"
  by (auto simp: text_ok_def readable_view_def enc_view_def norm_view_def)

subsection \<open>Frames\<close>

lemma seal_frame_Inr:
  assumes "seal_frame t g payload = Inr file"
  obtains hb where "file = hb @ payload" "length hb = YAP_V2_FILE_HEADER_BYTES"
    "length payload \<le> SIZE_MAX - YAP_V2_FILE_HEADER_BYTES"
    "\<And>rest. YAP_V2_file_header_decode (hb @ rest) = Inr
        \<lparr>hdr_format_version = YAP_V2_FORMAT_VERSION,
         hdr_header_bytes = word_of_nat YAP_V2_FILE_HEADER_BYTES, hdr_file_type = t,
         hdr_generation = g, hdr_payload_bytes = word_of_nat (length payload),
         hdr_payload_crc32c = crc32c payload\<rparr>"
proof -
  from assms obtain hb where "YAP_V2_file_header_encode
        \<lparr>hdr_format_version = YAP_V2_FORMAT_VERSION,
         hdr_header_bytes = word_of_nat YAP_V2_FILE_HEADER_BYTES, hdr_file_type = t,
         hdr_generation = g, hdr_payload_bytes = word_of_nat (length payload),
         hdr_payload_crc32c = crc32c payload\<rparr> = Inr hb"
    and "file = hb @ payload" "length payload \<le> SIZE_MAX - YAP_V2_FILE_HEADER_BYTES"
    unfolding seal_frame_def rbind_Inr_iff crc32c_branch_eq by (auto split: if_splits)
  then show thesis
    using that encode_length header_decode_encode by blast
qed

lemma open_seal:
  assumes "seal_frame t g payload = Inr file" and "eg = 0 \<or> eg = g"
  shows "\<exists>h. open_frame t eg file = Inr h \<and> hdr_generation h = g \<and>
      hdr_payload_bytes h = word_of_nat (length payload)"
proof -
  obtain hb where "file = hb @ payload" "length hb = YAP_V2_FILE_HEADER_BYTES"
    "\<And>rest. YAP_V2_file_header_decode (hb @ rest) = Inr
        \<lparr>hdr_format_version = YAP_V2_FORMAT_VERSION,
         hdr_header_bytes = word_of_nat YAP_V2_FILE_HEADER_BYTES, hdr_file_type = t,
         hdr_generation = g, hdr_payload_bytes = word_of_nat (length payload),
         hdr_payload_crc32c = crc32c payload\<rparr>"
    using seal_frame_Inr[OF assms(1)] by metis
  then show ?thesis
    using assms(2) by (auto simp: open_frame_def crc32c_branch_eq)
qed

lemma seal_frame_length:
  "seal_frame t g payload = Inr file \<Longrightarrow> length file = YAP_V2_FILE_HEADER_BYTES + length payload \<and>
     drop YAP_V2_FILE_HEADER_BYTES file = payload"
  by (elim seal_frame_Inr) auto

lemma open_frame_damaged:
  assumes sealed: "seal_frame t g payload = Inr file" and eg: "eg = 0 \<or> eg = g"
    and i: "YAP_V2_FILE_HEADER_BYTES \<le> i" "i < length file" and b: "file ! i \<noteq> b"
  shows "open_frame t eg (file[i := b]) = Inl YAP_V2_CHECKSUM_MISMATCH"
proof -
  obtain hb where hb: "file = hb @ payload" "length hb = YAP_V2_FILE_HEADER_BYTES"
    "\<And>rest. YAP_V2_file_header_decode (hb @ rest) = Inr
        \<lparr>hdr_format_version = YAP_V2_FORMAT_VERSION,
         hdr_header_bytes = word_of_nat YAP_V2_FILE_HEADER_BYTES, hdr_file_type = t,
         hdr_generation = g, hdr_payload_bytes = word_of_nat (length payload),
         hdr_payload_crc32c = crc32c payload\<rparr>"
    using seal_frame_Inr[OF sealed] by metis
  define j where "j = i - YAP_V2_FILE_HEADER_BYTES"
  have j: "i = length hb + j" "j < length payload" "payload ! j \<noteq> b"
    using i b hb(1,2) by (auto simp: j_def nth_append)
  have "file[i := b] = hb @ payload[j := b]"
    using j hb(1) by (simp add: list_update_append)
  moreover have "crc32c (payload[j := b]) \<noteq> crc32c payload"
    using j by (intro crc32c_list_update)
  ultimately show ?thesis
    using hb(2,3) eg by (auto simp: open_frame_def crc32c_branch_eq)
qed

end
