(* ===== verification/Segment_V2.thy ===== *)
theory Segment_V2
  imports Segment_Buffer
begin

text \<open>
  \<open>storage/yappo_segment_v2.c\<close>: the documents file of a segment and its tombstone file. A writer
  returns its outcome and the file system operations it performed; a reader works on the file
  system's content. \<open>mem\<close> is the allocator and \<open>io\<close> the library's answers, as in \<open>File_Io\<close>.
\<close>

definition YAP_V2_SEGMENT_PAYLOAD_VERSION :: u32 where "YAP_V2_SEGMENT_PAYLOAD_VERSION = 1"
definition YAP_V2_SEGMENT_RECORD_DOCUMENT :: u32 where "YAP_V2_SEGMENT_RECORD_DOCUMENT = 1"
definition YAP_V2_SEGMENT_RECORD_PASSAGE :: u32 where "YAP_V2_SEGMENT_RECORD_PASSAGE = 2"
definition YAP_V2_SEGMENT_RECORD_HEADER_BYTES :: nat where "YAP_V2_SEGMENT_RECORD_HEADER_BYTES = 8"

lemmas segment_constants = YAP_V2_SEGMENT_PAYLOAD_VERSION_def YAP_V2_SEGMENT_RECORD_DOCUMENT_def
  YAP_V2_SEGMENT_RECORD_PASSAGE_def YAP_V2_SEGMENT_RECORD_HEADER_BYTES_def

definition sizeof_document_view :: nat where "sizeof_document_view = 88"
definition sizeof_passage_view :: nat where "sizeof_passage_view = 64"
definition sizeof_bytes_view :: nat where "sizeof_bytes_view = 16"

record YAP_V2_SEGMENT =
  sgm_id :: bytes
  sgm_generation :: u64
  sgm_documents :: "YAP_V2_DOCUMENT_VIEW list"
  sgm_passages :: "YAP_V2_PASSAGE_VIEW list"
  sgm_storage :: bytes

record YAP_V2_TOMBSTONES =
  tmb_document_ids :: "YAP_V2_BYTES_VIEW list"
  tmb_storage :: bytes

subsection \<open>Validation of a segment's records\<close>

definition bytes_equal :: "YAP_V2_BYTES_VIEW \<Rightarrow> YAP_V2_BYTES_VIEW \<Rightarrow> bool" where
  "bytes_equal lhs rhs \<longleftrightarrow>
     view_len lhs = view_len rhs \<and> (view_len lhs = 0 \<or> view_bytes lhs = view_bytes rhs)"

fun validate_documents :: "YAP_V2_DOCUMENT_VIEW list \<Rightarrow> YAP_V2_DOCUMENT_VIEW list \<Rightarrow> YAP_V2_STATUS" where
  "validate_documents seen [] = YAP_V2_OK"
| "validate_documents seen (d # ds) =
     (let status = YAP_V2_document_validate (Some d) in
      if status \<noteq> YAP_V2_OK then status
      else if list_ex (\<lambda>e. bytes_equal (doc_id d) (doc_id e)) seen then YAP_V2_DUPLICATE
      else validate_documents (seen @ [d]) ds)"

fun validate_passages ::
  "YAP_V2_DOCUMENT_VIEW list \<Rightarrow> YAP_V2_PASSAGE_VIEW list \<Rightarrow> YAP_V2_PASSAGE_VIEW list \<Rightarrow> YAP_V2_STATUS"
where
  "validate_passages documents seen [] = YAP_V2_OK"
| "validate_passages documents seen (p # ps) =
     (let status = YAP_V2_passage_validate (Some p) in
      if status \<noteq> YAP_V2_OK then status
      else if \<not> list_ex (\<lambda>d. bytes_equal (psg_parent_document_id p) (doc_id d)) documents
        then YAP_V2_INVALID_FORMAT
      else if list_ex (\<lambda>q. bytes_equal (psg_id p) (psg_id q) \<or>
                 (bytes_equal (psg_parent_document_id p) (psg_parent_document_id q) \<and>
                  psg_ordinal p = psg_ordinal q)) seen
        then YAP_V2_DUPLICATE
      else validate_passages documents (seen @ [p]) ps)"

definition validate_segment_views ::
  "YAP_V2_DOCUMENT_VIEW list \<Rightarrow> YAP_V2_PASSAGE_VIEW list \<Rightarrow> YAP_V2_STATUS" where
  "validate_segment_views documents passages =
     (if length documents > YAP_V2_MAX_SEGMENT_DOCUMENTS \<or>
         length passages > YAP_V2_MAX_SEGMENT_PASSAGES then YAP_V2_OUT_OF_RANGE
      else
        (let status = validate_documents [] documents in
         if status \<noteq> YAP_V2_OK then status else validate_passages documents [] passages))"

subsection \<open>Writing\<close>

definition patch_u32 :: "bytes \<Rightarrow> nat \<Rightarrow> u32 \<Rightarrow> bytes" where
  "patch_u32 data pos value = take pos data @ put_u32_le value @ drop (pos + 4) data"

text \<open>The length field of a record, patched once the record is complete.\<close>

definition finish_record :: "nat \<Rightarrow> YAP_V2_BUFFER \<Rightarrow> YAP_V2_BUFFER outcome" where
  "finish_record start payload =
     (let len = length (buf_data payload) - start - YAP_V2_SEGMENT_RECORD_HEADER_BYTES in
      if len > UINT32_MAX then Inl YAP_V2_OUT_OF_RANGE
      else Inr (payload\<lparr>buf_data := patch_u32 (buf_data payload) (start + 4) (word_of_nat len)\<rparr>))"

definition append_document_record ::
  "(nat \<Rightarrow> bool) \<Rightarrow> YAP_V2_BUFFER \<Rightarrow> YAP_V2_DOCUMENT_VIEW \<Rightarrow> YAP_V2_BUFFER outcome" where
  "append_document_record mem payload document =
     rbind
       (rbind (buffer_append_u32 mem payload YAP_V2_SEGMENT_RECORD_DOCUMENT) (\<lambda>payload.
        rbind (buffer_append_u32 mem payload 0) (\<lambda>payload.
        rbind (buffer_append_bytes_view mem payload (doc_id document)) (\<lambda>payload.
        rbind (buffer_append_bytes_view mem payload (doc_url document)) (\<lambda>payload.
        rbind (buffer_append_bytes_view mem payload (doc_title document)) (\<lambda>payload.
        rbind (buffer_append_bytes_view mem payload (doc_body document)) (\<lambda>payload.
        rbind (buffer_append_bytes_view mem payload (doc_metadata_json document)) (\<lambda>payload.
        buffer_append_u64 mem payload (doc_updated_at_unix_ms document)))))))))
       (finish_record (length (buf_data payload)))"

definition append_passage_record ::
  "(nat \<Rightarrow> bool) \<Rightarrow> YAP_V2_BUFFER \<Rightarrow> YAP_V2_PASSAGE_VIEW \<Rightarrow> YAP_V2_BUFFER outcome" where
  "append_passage_record mem payload passage =
     rbind
       (rbind (buffer_append_u32 mem payload YAP_V2_SEGMENT_RECORD_PASSAGE) (\<lambda>payload.
        rbind (buffer_append_u32 mem payload 0) (\<lambda>payload.
        rbind (buffer_append_bytes_view mem payload (psg_id passage)) (\<lambda>payload.
        rbind (buffer_append_bytes_view mem payload (psg_parent_document_id passage)) (\<lambda>payload.
        rbind (buffer_append_bytes_view mem payload (psg_text passage)) (\<lambda>payload.
        rbind (buffer_append_u32 mem payload (psg_ordinal passage)) (\<lambda>payload.
        rbind (buffer_append_u32 mem payload (psg_start_char passage)) (\<lambda>payload.
        buffer_append_u32 mem payload (psg_end_char passage)))))))))
       (finish_record (length (buf_data payload)))"

text \<open>\<open>for (i = 0; status == YAP_V2_OK && i < count; i++) status = f(payload, &items[i])\<close>.\<close>

fun append_each :: "(YAP_V2_BUFFER \<Rightarrow> 'a \<Rightarrow> YAP_V2_BUFFER outcome) \<Rightarrow> 'a list \<Rightarrow> YAP_V2_BUFFER \<Rightarrow> YAP_V2_BUFFER outcome"
where
  "append_each f [] payload = Inr payload"
| "append_each f (x # xs) payload = rbind (f payload x) (append_each f xs)"

definition segment_payload ::
  "(nat \<Rightarrow> bool) \<Rightarrow> bytes \<Rightarrow> YAP_V2_DOCUMENT_VIEW list \<Rightarrow> YAP_V2_PASSAGE_VIEW list \<Rightarrow> YAP_V2_BUFFER outcome"
where
  "segment_payload mem segment_id documents passages =
     rbind (buffer_append_u32 mem buffer_empty YAP_V2_SEGMENT_PAYLOAD_VERSION) (\<lambda>payload.
     rbind (buffer_append_u32 mem payload (word_of_nat (length segment_id))) (\<lambda>payload.
     rbind (buffer_append mem payload (View segment_id)) (\<lambda>payload.
     rbind (buffer_append_u64 mem payload (word_of_nat (length documents))) (\<lambda>payload.
     rbind (buffer_append_u64 mem payload (word_of_nat (length passages))) (\<lambda>payload.
     rbind (append_each (append_document_record mem) documents payload) (\<lambda>payload.
     append_each (append_passage_record mem) passages payload))))))"

text \<open>The descriptor a documents file is announced with, by its writer and by its reader.\<close>

definition segment_describe ::
  "bytes \<Rightarrow> nat \<Rightarrow> nat \<Rightarrow> bytes \<Rightarrow> YAP_V2_SEGMENT_DESCRIPTOR outcome" where
  "segment_describe segment_id document_count passage_count file_bytes =
     (case YAP_V2_segment_descriptor_add_component
        \<lparr>seg_id = segment_id, seg_document_count = word_of_nat document_count,
         seg_passage_count = word_of_nat passage_count, seg_tombstone_count = 0,
         seg_components = []\<rparr>
        \<lparr>cmp_name = ascii ''documents.yap2'', cmp_file_type = YAP_V2_FILE_DOCUMENTS,
         cmp_record_count = word_of_nat document_count + word_of_nat passage_count,
         cmp_file_bytes = word_of_nat (length file_bytes),
         cmp_checksum = sha256_digest file_bytes\<rparr>
      of (status, descriptor) \<Rightarrow> if status = YAP_V2_OK then Inr descriptor else Inl status)"

definition YAP_V2_segment_write ::
  "(nat \<Rightarrow> bool) \<Rightarrow> io \<Rightarrow> nat \<Rightarrow> string \<Rightarrow> bytes \<Rightarrow> u64 \<Rightarrow> YAP_V2_DOCUMENT_VIEW list \<Rightarrow>
     YAP_V2_PASSAGE_VIEW list \<Rightarrow> YAP_V2_SEGMENT_DESCRIPTOR outcome \<times> fs_op list" where
  "YAP_V2_segment_write mem io short path segment_id generation documents passages =
     (if generation = 0 then (Inl YAP_V2_INVALID_ARGUMENT, [])
      else if YAP_V2_segment_id_validate (Some segment_id) \<noteq> YAP_V2_OK
        then (Inl (YAP_V2_segment_id_validate (Some segment_id)), [])
      else if validate_segment_views documents passages \<noteq> YAP_V2_OK
        then (Inl (validate_segment_views documents passages), [])
      else if length (c_string segment_id) > UINT32_MAX then (Inl YAP_V2_OUT_OF_RANGE, [])
      else case rbind (segment_payload mem (c_string segment_id) documents passages)
                  (\<lambda>payload. seal_frame YAP_V2_FILE_DOCUMENTS generation (buf_data payload)) of
        Inl status \<Rightarrow> (Inl status, [])
      | Inr file_bytes \<Rightarrow>
          if \<not> mem (length file_bytes) then (Inl YAP_V2_ALLOCATION_FAILED, [])
          else case write_atomic io short path file_bytes of
            (status, ops) \<Rightarrow>
              (if status \<noteq> YAP_V2_OK then Inl status
               else segment_describe (c_string segment_id) (length documents) (length passages)
                      file_bytes, ops))"

subsection \<open>Reading\<close>

definition INT64_MAX :: nat where "INT64_MAX = 9223372036854775807"

definition read_document :: "bytes \<Rightarrow> nat \<Rightarrow> nat \<Rightarrow> (YAP_V2_DOCUMENT_VIEW \<times> nat) outcome" where
  "read_document data record_end offset =
     rbind (read_bytes_view data record_end offset) (\<lambda>(id', offset).
     rbind (read_bytes_view data record_end offset) (\<lambda>(url, offset).
     rbind (read_bytes_view data record_end offset) (\<lambda>(title, offset).
     rbind (read_bytes_view data record_end offset) (\<lambda>(body, offset).
     rbind (read_bytes_view data record_end offset) (\<lambda>(metadata_json, offset).
     rbind (read_u64 data record_end offset) (\<lambda>(updated_at, offset).
       if unat updated_at \<le> INT64_MAX
       then Inr (\<lparr>doc_id = id', doc_url = url, doc_title = title, doc_body = body,
              doc_metadata_json = metadata_json, doc_updated_at_unix_ms = updated_at\<rparr>, offset)
       else Inl YAP_V2_OUT_OF_RANGE))))))"

definition read_passage :: "bytes \<Rightarrow> nat \<Rightarrow> nat \<Rightarrow> (YAP_V2_PASSAGE_VIEW \<times> nat) outcome" where
  "read_passage data record_end offset =
     rbind (read_bytes_view data record_end offset) (\<lambda>(id', offset).
     rbind (read_bytes_view data record_end offset) (\<lambda>(parent, offset).
     rbind (read_bytes_view data record_end offset) (\<lambda>(text', offset).
     rbind (read_u32 data record_end offset) (\<lambda>(ordinal, offset).
     rbind (read_u32 data record_end offset) (\<lambda>(start_char, offset).
     rbind (read_u32 data record_end offset) (\<lambda>(end_char, offset).
       Inr (\<lparr>psg_id = id', psg_parent_document_id = parent, psg_text = text',
             psg_ordinal = ordinal, psg_start_char = start_char, psg_end_char = end_char\<rparr>, offset)))))))"

definition read_record_header :: "bytes \<Rightarrow> nat \<Rightarrow> nat \<Rightarrow> (u32 \<times> u32 \<times> nat) outcome" where
  "read_record_header data storage_bytes offset =
     rbind (read_u32 data storage_bytes offset) (\<lambda>(record_type, offset).
     rbind (read_u32 data storage_bytes offset) (\<lambda>(record_bytes, offset).
       if unat record_bytes > storage_bytes - offset then Inl YAP_V2_INVALID_FORMAT
       else Inr (record_type, record_bytes, offset)))"

text \<open>
  One iteration of the record loop: record \<open>i\<close> is a document when \<open>i < document_count\<close> and a
  passage otherwise. A parsed record is \<open>Inl\<close> a document or \<open>Inr\<close> a passage.
\<close>

definition read_record ::
  "bytes \<Rightarrow> nat \<Rightarrow> nat \<Rightarrow> nat \<Rightarrow> nat \<Rightarrow> ((YAP_V2_DOCUMENT_VIEW + YAP_V2_PASSAGE_VIEW) \<times> nat) outcome"
where
  "read_record data storage_bytes document_count i offset =
     (case read_record_header data storage_bytes offset of
        Inl status \<Rightarrow> Inl YAP_V2_INVALID_FORMAT
      | Inr (record_type, record_bytes, offset) \<Rightarrow>
          (let record_end = offset + unat record_bytes in
           rbind
             (if i < document_count \<and> record_type = YAP_V2_SEGMENT_RECORD_DOCUMENT
              then rbind (read_document data record_end offset) (\<lambda>(d, offset). Inr (Inl d, offset))
              else if i \<ge> document_count \<and> record_type = YAP_V2_SEGMENT_RECORD_PASSAGE
              then rbind (read_passage data record_end offset) (\<lambda>(p, offset). Inr (Inr p, offset))
              else Inl YAP_V2_INVALID_FORMAT)
             (\<lambda>(r, offset). if offset \<noteq> record_end then Inl YAP_V2_INVALID_FORMAT
                             else Inr (r, record_end))))"

fun read_records ::
  "bytes \<Rightarrow> nat \<Rightarrow> nat \<Rightarrow> nat \<Rightarrow> nat \<Rightarrow> nat \<Rightarrow>
     ((YAP_V2_DOCUMENT_VIEW + YAP_V2_PASSAGE_VIEW) list \<times> nat) outcome" where
  "read_records data storage_bytes document_count i 0 offset = Inr ([], offset)"
| "read_records data storage_bytes document_count i (Suc n) offset =
     rbind (read_record data storage_bytes document_count i offset) (\<lambda>(r, offset).
     rbind (read_records data storage_bytes document_count (Suc i) n offset) (\<lambda>(rs, offset).
       Inr (r # rs, offset)))"

definition read_segment_id :: "bytes \<Rightarrow> nat \<Rightarrow> (bytes \<times> nat) outcome" where
  "read_segment_id storage storage_bytes =
     (case rbind (read_u32 storage storage_bytes 0) (\<lambda>(payload_version, offset).
           rbind (read_u32 storage storage_bytes offset) (\<lambda>(segment_id_len, offset).
             Inr (payload_version, unat segment_id_len, offset))) of
        Inl status \<Rightarrow> Inl YAP_V2_INVALID_FORMAT
      | Inr (payload_version, segment_id_len, offset) \<Rightarrow>
          if payload_version \<noteq> YAP_V2_SEGMENT_PAYLOAD_VERSION \<or> segment_id_len = 0 \<or>
             segment_id_len > YAP_V2_MAX_IDENTIFIER_BYTES \<or> segment_id_len > storage_bytes - offset
          then Inl YAP_V2_INVALID_FORMAT
          else
            (let id' = c_string (take segment_id_len (drop offset storage));
                 status = YAP_V2_segment_id_validate (Some id') in
             if status \<noteq> YAP_V2_OK then Inl status else Inr (id', offset + segment_id_len)))"

definition read_counts :: "bytes \<Rightarrow> nat \<Rightarrow> nat \<Rightarrow> (nat \<times> nat \<times> nat) outcome" where
  "read_counts storage storage_bytes offset =
     (case rbind (read_u64 storage storage_bytes offset) (\<lambda>(document_count, offset).
           rbind (read_u64 storage storage_bytes offset) (\<lambda>(passage_count, offset).
             Inr (unat document_count, unat passage_count, offset))) of
        Inl status \<Rightarrow> Inl YAP_V2_INVALID_FORMAT
      | Inr (document_count, passage_count, offset) \<Rightarrow>
          if document_count > YAP_V2_MAX_SEGMENT_DOCUMENTS \<or>
             passage_count > YAP_V2_MAX_SEGMENT_PASSAGES \<or> document_count > SIZE_MAX \<or>
             passage_count > SIZE_MAX then Inl YAP_V2_OUT_OF_RANGE
          else Inr (document_count, passage_count, offset))"

fun record_document :: "YAP_V2_DOCUMENT_VIEW + YAP_V2_PASSAGE_VIEW \<Rightarrow> YAP_V2_DOCUMENT_VIEW option" where
  "record_document (Inl d) = Some d"
| "record_document (Inr p) = None"

fun record_passage :: "YAP_V2_DOCUMENT_VIEW + YAP_V2_PASSAGE_VIEW \<Rightarrow> YAP_V2_PASSAGE_VIEW option" where
  "record_passage (Inl d) = None"
| "record_passage (Inr p) = Some p"

definition parse_segment_payload :: "(nat \<Rightarrow> bool) \<Rightarrow> u64 \<Rightarrow> bytes \<Rightarrow> YAP_V2_SEGMENT outcome" where
  "parse_segment_payload mem generation storage =
     rbind (read_segment_id storage (length storage)) (\<lambda>(id', offset).
     rbind (read_counts storage (length storage) offset) (\<lambda>(document_count, passage_count, offset).
       if document_count > 0 \<and> \<not> mem (document_count * sizeof_document_view)
         then Inl YAP_V2_ALLOCATION_FAILED
       else if passage_count > 0 \<and> \<not> mem (passage_count * sizeof_passage_view)
         then Inl YAP_V2_ALLOCATION_FAILED
       else rbind (read_records storage (length storage) document_count 0
                     (document_count + passage_count) offset) (\<lambda>(records, offset).
         (let documents = List.map_filter record_document records;
              passages = List.map_filter record_passage records in
          if offset \<noteq> length storage \<or> validate_segment_views documents passages \<noteq> YAP_V2_OK
          then Inl YAP_V2_INVALID_FORMAT
          else Inr \<lparr>sgm_id = id', sgm_generation = generation, sgm_documents = documents,
                 sgm_passages = passages, sgm_storage = storage\<rparr>))))"

text \<open>\<open>want\<close> says whether the caller passed a descriptor to fill.\<close>

definition YAP_V2_segment_read ::
  "(nat \<Rightarrow> bool) \<Rightarrow> io \<Rightarrow> fs \<Rightarrow> string \<Rightarrow> u64 \<Rightarrow> bool \<Rightarrow>
     (YAP_V2_SEGMENT \<times> YAP_V2_SEGMENT_DESCRIPTOR option) outcome" where
  "YAP_V2_segment_read mem io fs path expected_generation want =
     rbind (read_file mem io fs path) (\<lambda>file_bytes.
     rbind (open_frame YAP_V2_FILE_DOCUMENTS expected_generation file_bytes) (\<lambda>header.
       if unat (hdr_payload_bytes header) > YAP_V2_MAX_SEGMENT_PAYLOAD_BYTES
         then Inl YAP_V2_OUT_OF_RANGE
       else
         (let storage = drop YAP_V2_FILE_HEADER_BYTES file_bytes in
          if \<not> mem (length storage) \<and> length storage > 0 then Inl YAP_V2_ALLOCATION_FAILED
          else rbind (parse_segment_payload mem (hdr_generation header) storage) (\<lambda>segment.
            if want
            then rbind (segment_describe (sgm_id segment) (length (sgm_documents segment))
                   (length (sgm_passages segment)) file_bytes) (\<lambda>descriptor.
                   Inr (segment, Some descriptor))
            else Inr (segment, None)))))"

subsection \<open>What validation accepts\<close>

definition document_ok :: "YAP_V2_DOCUMENT_VIEW \<Rightarrow> bool" where
  "document_ok d \<longleftrightarrow> YAP_V2_document_validate (Some d) = YAP_V2_OK"

definition passage_ok :: "YAP_V2_PASSAGE_VIEW \<Rightarrow> bool" where
  "passage_ok p \<longleftrightarrow> YAP_V2_passage_validate (Some p) = YAP_V2_OK"

lemma document_ok_iff:
  "document_ok d \<longleftrightarrow> required_text_ok 255 (doc_id d) \<and> text_ok 8192 (doc_url d) \<and>
     text_ok 255 (doc_title d) \<and> text_ok 1048576 (doc_body d) \<and>
     text_ok 1048576 (doc_metadata_json d) \<and> 0 \<le> sint (doc_updated_at_unix_ms d)"
  unfolding document_ok_def YAP_V2_document_validate.simps first_error_ok
  by (simp add: view_validate_simps type_limits)

lemma passage_ok_iff:
  "passage_ok p \<longleftrightarrow> required_text_ok 255 (psg_id p) \<and> required_text_ok 255 (psg_parent_document_id p) \<and>
     required_text_ok 1048576 (psg_text p) \<and> psg_start_char p \<le> psg_end_char p \<and>
     unat (psg_start_char p) \<le> YAP_V2_MAX_CHUNK_CHARS \<and> unat (psg_end_char p) \<le> YAP_V2_MAX_CHUNK_CHARS"
  unfolding passage_ok_def YAP_V2_passage_validate.simps first_error_ok
  by (auto simp add: view_validate_simps type_limits not_less)

abbreviation document_key :: "YAP_V2_DOCUMENT_VIEW \<Rightarrow> bytes" where
  "document_key d \<equiv> view_bytes (doc_id d)"

abbreviation passage_key :: "YAP_V2_PASSAGE_VIEW \<Rightarrow> bytes" where
  "passage_key p \<equiv> view_bytes (psg_id p)"

abbreviation passage_place :: "YAP_V2_PASSAGE_VIEW \<Rightarrow> bytes \<times> u32" where
  "passage_place p \<equiv> (view_bytes (psg_parent_document_id p), psg_ordinal p)"

lemma bytes_equal_iff:
  "required_text_ok m v \<Longrightarrow> required_text_ok n w \<Longrightarrow> bytes_equal v w \<longleftrightarrow> view_bytes v = view_bytes w"
  by (auto simp: required_text_ok_def bytes_equal_def)

lemma disjoint_snoc: "f ` set (xs @ [x]) \<inter> B = {} \<longleftrightarrow> f ` set xs \<inter> B = {} \<and> f x \<notin> B"
  by auto

lemma disjoint_cons: "A \<inter> f ` set (x # xs) = {} \<longleftrightarrow> f x \<notin> A \<and> A \<inter> f ` set xs = {}"
  by auto

lemma equal_key_iff:
  assumes "required_text_ok m v" and "\<forall>x\<in>set xs. required_text_ok n (f x)"
  shows "list_ex (\<lambda>x. bytes_equal v (f x)) xs \<longleftrightarrow> view_bytes v \<in> (\<lambda>x. view_bytes (f x)) ` set xs"
  using assms bytes_equal_iff[of m v n] unfolding list_ex_iff image_iff by (intro bex_cong) auto

lemma validate_documents_ok:
  "\<forall>d\<in>set seen. document_ok d \<Longrightarrow>
   validate_documents seen ds = YAP_V2_OK \<longleftrightarrow> (\<forall>d\<in>set ds. document_ok d) \<and>
     distinct (map document_key ds) \<and> document_key ` set seen \<inter> document_key ` set ds = {}"
proof (induction ds arbitrary: seen)
  case Nil
  then show ?case by simp
next
  case (Cons d ds)
  show ?case
  proof (cases "document_ok d")
    case False
    then show ?thesis by (auto simp: document_ok_def)
  next
    case True
    have dup: "list_ex (\<lambda>e. bytes_equal (doc_id d) (doc_id e)) seen \<longleftrightarrow>
        document_key d \<in> document_key ` set seen"
      using Cons.prems True by (intro equal_key_iff) (auto simp: document_ok_iff)
    have "validate_documents (seen @ [d]) ds = YAP_V2_OK \<longleftrightarrow> (\<forall>d\<in>set ds. document_ok d) \<and>
        distinct (map document_key ds) \<and>
        document_key ` set (seen @ [d]) \<inter> document_key ` set ds = {}"
      using Cons.prems True by (intro Cons.IH) auto
    with dup True show ?thesis
      by (auto simp: document_ok_def Let_def)
  qed
qed

lemma validate_passages_ok:
  assumes docs: "\<forall>d\<in>set docs. document_ok d"
  shows "\<forall>p\<in>set seen. passage_ok p \<Longrightarrow>
   validate_passages docs seen ps = YAP_V2_OK \<longleftrightarrow>
     (\<forall>p\<in>set ps. passage_ok p \<and> fst (passage_place p) \<in> document_key ` set docs) \<and>
     distinct (map passage_key ps) \<and> passage_key ` set seen \<inter> passage_key ` set ps = {} \<and>
     distinct (map passage_place ps) \<and> passage_place ` set seen \<inter> passage_place ` set ps = {}"
proof (induction ps arbitrary: seen)
  case Nil
  then show ?case by simp
next
  case (Cons p ps)
  show ?case
  proof (cases "passage_ok p")
    case False
    then show ?thesis by (auto simp: passage_ok_def)
  next
    case True
    have parent: "list_ex (\<lambda>d. bytes_equal (psg_parent_document_id p) (doc_id d)) docs \<longleftrightarrow>
        fst (passage_place p) \<in> document_key ` set docs"
      unfolding fst_conv using docs True
      by (intro equal_key_iff) (auto simp: document_ok_iff passage_ok_iff)
    have dup: "list_ex (\<lambda>q. bytes_equal (psg_id p) (psg_id q) \<or>
                 (bytes_equal (psg_parent_document_id p) (psg_parent_document_id q) \<and>
                  psg_ordinal p = psg_ordinal q)) seen \<longleftrightarrow>
        passage_key p \<in> passage_key ` set seen \<or> passage_place p \<in> passage_place ` set seen"
    proof -
      have "(bytes_equal (psg_id p) (psg_id q) \<or>
          (bytes_equal (psg_parent_document_id p) (psg_parent_document_id q) \<and>
           psg_ordinal p = psg_ordinal q)) \<longleftrightarrow>
          passage_key p = passage_key q \<or> passage_place p = passage_place q" if "q \<in> set seen" for q
        using Cons.prems True that by (simp add: passage_ok_iff bytes_equal_iff[of 255 _ 255])
      then show ?thesis unfolding list_ex_iff image_iff by blast
    qed
    have "validate_passages docs (seen @ [p]) ps = YAP_V2_OK \<longleftrightarrow>
        (\<forall>p\<in>set ps. passage_ok p \<and> fst (passage_place p) \<in> document_key ` set docs) \<and>
        distinct (map passage_key ps) \<and> passage_key ` set (seen @ [p]) \<inter> passage_key ` set ps = {} \<and>
        distinct (map passage_place ps) \<and>
        passage_place ` set (seen @ [p]) \<inter> passage_place ` set ps = {}"
      using Cons.prems True by (intro Cons.IH) auto
    moreover have "validate_passages docs seen (p # ps) = YAP_V2_OK \<longleftrightarrow>
        fst (passage_place p) \<in> document_key ` set docs \<and>
        passage_key p \<notin> passage_key ` set seen \<and> passage_place p \<notin> passage_place ` set seen \<and>
        validate_passages docs (seen @ [p]) ps = YAP_V2_OK"
      using True parent dup by (simp add: passage_ok_def Let_def)
    ultimately show ?thesis
      using True unfolding disjoint_snoc disjoint_cons by (simp del: disjoint_iff) argo
  qed
qed

lemma validate_segment_views_ok:
  "validate_segment_views docs psgs = YAP_V2_OK \<longleftrightarrow>
     length docs \<le> YAP_V2_MAX_SEGMENT_DOCUMENTS \<and> length psgs \<le> YAP_V2_MAX_SEGMENT_PASSAGES \<and>
     (\<forall>d\<in>set docs. document_ok d) \<and> distinct (map document_key docs) \<and>
     (\<forall>p\<in>set psgs. passage_ok p \<and> fst (passage_place p) \<in> document_key ` set docs) \<and>
     distinct (map passage_key psgs) \<and> distinct (map passage_place psgs)"
  using validate_documents_ok[of "[]" docs] validate_passages_ok[of docs "[]" psgs]
  by (auto simp: validate_segment_views_def Let_def)

subsection \<open>What the writers append\<close>

definition document_body :: "YAP_V2_DOCUMENT_VIEW \<Rightarrow> bytes" where
  "document_body d = enc_view (doc_id d) @ enc_view (doc_url d) @ enc_view (doc_title d) @
     enc_view (doc_body d) @ enc_view (doc_metadata_json d) @ put_u64_le (doc_updated_at_unix_ms d)"

definition passage_body :: "YAP_V2_PASSAGE_VIEW \<Rightarrow> bytes" where
  "passage_body p = enc_view (psg_id p) @ enc_view (psg_parent_document_id p) @
     enc_view (psg_text p) @ put_u32_le (psg_ordinal p) @ put_u32_le (psg_start_char p) @
     put_u32_le (psg_end_char p)"

definition enc_record :: "u32 \<Rightarrow> bytes \<Rightarrow> bytes" where
  "enc_record t body = put_u32_le t @ put_u32_le (word_of_nat (length body)) @ body"

lemma finish_record_Inr:
  assumes "buf_data b' = buf_data b @ put_u32_le t @ put_u32_le 0 @ body" and "buffer_inv b'"
    and "finish_record (length (buf_data b)) b' = Inr b''"
  shows "buffer_inv b'' \<and> buf_data b'' = buf_data b @ enc_record t body"
  using assms
  by (auto simp: finish_record_def Let_def segment_constants patch_u32_def enc_record_def buffer_inv_def
      split: if_splits)

lemma append_record:
  assumes "appends f (put_u32_le t @ put_u32_le 0 @ body)"
  shows "appends (\<lambda>b. rbind (f b) (finish_record (length (buf_data b)))) (enc_record t body)"
proof (rule appendsI)
  fix b b'' assume b: "buffer_inv b" "rbind (f b) (finish_record (length (buf_data b))) = Inr b''"
  then obtain b' where b': "f b = Inr b'" "finish_record (length (buf_data b)) b' = Inr b''"
    unfolding rbind_Inr_iff by blast
  from appendsD[OF assms b'(1) b(1)] b'(2) show "buffer_inv b'' \<and> buf_data b'' = buf_data b @ enc_record t body"
    by (intro finish_record_Inr) auto
qed

lemma accepts_record:
  assumes "accepts f (put_u32_le t @ put_u32_le 0 @ body)"
  shows "accepts (\<lambda>b. rbind (f b) (finish_record (length (buf_data b)))) (enc_record t body)"
proof (rule acceptsI[OF append_record[OF accepts_appends[OF assms]]])
  fix b assume b: "buffer_inv b"
    "length (buf_data b) + length (enc_record t body) \<le> YAP_V2_MAX_SEGMENT_PAYLOAD_BYTES"
  then obtain b' where b': "f b = Inr b'"
    using acceptsD[OF assms, of b] by (auto simp: enc_record_def)
  from appendsD[OF accepts_appends[OF assms] b' b(1)] b b'
  show "\<exists>b''. rbind (f b) (finish_record (length (buf_data b))) = Inr b''"
    by (simp add: finish_record_def segment_constants enc_record_def storage_limits)
qed

text \<open>A view that points at as many bytes as it says.\<close>

definition plain_view :: "YAP_V2_BYTES_VIEW \<Rightarrow> bool" where
  "plain_view v \<longleftrightarrow> view_len v = length (view_bytes v)"

lemma accepts_plain [accepts_intros]:
  "(\<And>n. mem n) \<Longrightarrow> plain_view v \<Longrightarrow> accepts (\<lambda>b. buffer_append_bytes_view mem b v) (enc_view v)"
  unfolding plain_view_def by (rule accepts_view)

lemma text_ok_plain: "text_ok m v \<Longrightarrow> plain_view v" "required_text_ok m v \<Longrightarrow> plain_view v"
  by (auto simp: plain_view_def text_ok_def required_text_ok_def)

lemma appends_document [appends_intros]:
  "appends (\<lambda>b. append_document_record mem b d)
     (enc_record YAP_V2_SEGMENT_RECORD_DOCUMENT (document_body d))"
  unfolding append_document_record_def
  by (rule append_record, unfold document_body_def) (intro appends_intros)

lemma appends_passage [appends_intros]:
  "appends (\<lambda>b. append_passage_record mem b p)
     (enc_record YAP_V2_SEGMENT_RECORD_PASSAGE (passage_body p))"
  unfolding append_passage_record_def
  by (rule append_record, unfold passage_body_def) (intro appends_intros)

lemma accepts_document [accepts_intros]:
  assumes "\<And>n. mem n" and "document_ok d"
  shows "accepts (\<lambda>b. append_document_record mem b d)
     (enc_record YAP_V2_SEGMENT_RECORD_DOCUMENT (document_body d))"
  unfolding append_document_record_def using assms
  by (intro accepts_record, unfold document_body_def, intro accepts_bind accepts_u32 accepts_u64 accepts_plain)
     (auto simp: document_ok_iff intro: text_ok_plain)

lemma accepts_passage [accepts_intros]:
  assumes "\<And>n. mem n" and "passage_ok p"
  shows "accepts (\<lambda>b. append_passage_record mem b p)
     (enc_record YAP_V2_SEGMENT_RECORD_PASSAGE (passage_body p))"
  unfolding append_passage_record_def using assms
  by (intro accepts_record, unfold passage_body_def, intro accepts_bind accepts_u32 accepts_plain)
     (auto simp: passage_ok_iff intro: text_ok_plain)

lemma accepts_each [accepts_intros]:
  assumes "\<And>x. x \<in> set xs \<Longrightarrow> accepts (\<lambda>b. f b x) (g x)"
  shows "accepts (append_each f xs) (concat (map g xs))"
  using assms
proof (induction xs)
  case Nil
  show ?case by (rule acceptsI, rule appendsI) simp_all
next
  case (Cons x xs)
  have "accepts (\<lambda>b. rbind (f b x) (append_each f xs)) (g x @ concat (map g xs))"
    using Cons by (intro accepts_bind) auto
  moreover have "append_each f (x # xs) = (\<lambda>b. rbind (f b x) (append_each f xs))"
    by (rule ext) simp
  ultimately show ?case by simp
qed

lemma appends_each [appends_intros]:
  assumes "\<And>x. appends (\<lambda>b. f b x) (g x)"
  shows "appends (append_each f xs) (concat (map g xs))"
proof (induction xs)
  case Nil
  show ?case by (rule appendsI) simp
next
  case (Cons x xs)
  have "appends (\<lambda>b. rbind (f b x) (append_each f xs)) (g x @ concat (map g xs))"
    using assms Cons.IH by (intro appends_bind)
  moreover have "append_each f (x # xs) = (\<lambda>b. rbind (f b x) (append_each f xs))"
    by (rule ext) simp
  ultimately show ?case by simp
qed

definition payload_image ::
  "bytes \<Rightarrow> YAP_V2_DOCUMENT_VIEW list \<Rightarrow> YAP_V2_PASSAGE_VIEW list \<Rightarrow> bytes" where
  "payload_image segment_id docs psgs =
     put_u32_le YAP_V2_SEGMENT_PAYLOAD_VERSION @ put_u32_le (word_of_nat (length segment_id)) @
     segment_id @ put_u64_le (word_of_nat (length docs)) @ put_u64_le (word_of_nat (length psgs)) @
     concat (map (\<lambda>d. enc_record YAP_V2_SEGMENT_RECORD_DOCUMENT (document_body d)) docs) @
     concat (map (\<lambda>p. enc_record YAP_V2_SEGMENT_RECORD_PASSAGE (passage_body p)) psgs)"

lemma segment_payload_image:
  assumes "segment_payload mem sid docs psgs = Inr b"
  shows "buffer_inv b \<and> buf_data b = payload_image sid docs psgs"
proof -
  let ?f = "\<lambda>payload. rbind (buffer_append_u32 mem payload YAP_V2_SEGMENT_PAYLOAD_VERSION) (\<lambda>payload.
     rbind (buffer_append_u32 mem payload (word_of_nat (length sid))) (\<lambda>payload.
     rbind (buffer_append mem payload (View sid)) (\<lambda>payload.
     rbind (buffer_append_u64 mem payload (word_of_nat (length docs))) (\<lambda>payload.
     rbind (buffer_append_u64 mem payload (word_of_nat (length psgs))) (\<lambda>payload.
     rbind (append_each (append_document_record mem) docs payload) (\<lambda>payload.
     append_each (append_passage_record mem) psgs payload))))))"
  have view: "appends (\<lambda>b. buffer_append mem b (View sid)) sid"
    using appends_bytes[of mem "View sid"] by simp
  have "appends ?f (payload_image sid docs psgs)"
    unfolding payload_image_def
    by (intro appends_bind appends_u32 appends_u64 view appends_each appends_document appends_passage)
  from appendsD[OF this, of buffer_empty b] assms show ?thesis
    by (simp add: segment_payload_def)
qed

lemma segment_payload_accepts:
  assumes mem: "\<And>n. mem n" and docs: "\<forall>d\<in>set docs. document_ok d" and psgs: "\<forall>p\<in>set psgs. passage_ok p"
    and fits: "length (payload_image sid docs psgs) \<le> YAP_V2_MAX_SEGMENT_PAYLOAD_BYTES"
  shows "\<exists>b. segment_payload mem sid docs psgs = Inr b"
proof -
  let ?f = "\<lambda>payload. rbind (buffer_append_u32 mem payload YAP_V2_SEGMENT_PAYLOAD_VERSION) (\<lambda>payload.
     rbind (buffer_append_u32 mem payload (word_of_nat (length sid))) (\<lambda>payload.
     rbind (buffer_append mem payload (View sid)) (\<lambda>payload.
     rbind (buffer_append_u64 mem payload (word_of_nat (length docs))) (\<lambda>payload.
     rbind (buffer_append_u64 mem payload (word_of_nat (length psgs))) (\<lambda>payload.
     rbind (append_each (append_document_record mem) docs payload) (\<lambda>payload.
     append_each (append_passage_record mem) psgs payload))))))"
  have view: "accepts (\<lambda>b. buffer_append mem b (View sid)) sid"
    using accepts_bytes[of mem "View sid"] mem by simp
  have "accepts ?f (payload_image sid docs psgs)"
    unfolding payload_image_def using mem docs psgs
    by (intro accepts_bind accepts_u32 accepts_u64 view accepts_each accepts_document accepts_passage) auto
  from acceptsD[OF this, of buffer_empty] fits show ?thesis
    by (simp add: segment_payload_def)
qed

subsection \<open>What the readers recover\<close>

definition readable_document :: "YAP_V2_DOCUMENT_VIEW \<Rightarrow> bool" where
  "readable_document d \<longleftrightarrow> readable_view (doc_id d) \<and> readable_view (doc_url d) \<and>
     readable_view (doc_title d) \<and> readable_view (doc_body d) \<and>
     readable_view (doc_metadata_json d) \<and> unat (doc_updated_at_unix_ms d) \<le> INT64_MAX"

definition readable_passage :: "YAP_V2_PASSAGE_VIEW \<Rightarrow> bool" where
  "readable_passage p \<longleftrightarrow> readable_view (psg_id p) \<and> readable_view (psg_parent_document_id p) \<and>
     readable_view (psg_text p)"

interpretation reader_document: record_reader read_document document_body readable_document
proof
  fix x d off n
  assume "readable_document x" "occurs_at d off (document_body x)" "off + length (document_body x) \<le> n"
  then show "read_document d n off = Inr (x, off + length (document_body x))"
    by (simp add: read_document_def readable_document_def document_body_def at_simps
        reader_view.rd_enc[of "doc_id x"] reader_view.rd_enc[of "doc_url x"]
        reader_view.rd_enc[of "doc_title x"] reader_view.rd_enc[of "doc_body x"]
        reader_view.rd_enc[of "doc_metadata_json x"]
        reader_u64.rd_enc[where x = "doc_updated_at_unix_ms x"] add.assoc)
qed

interpretation reader_passage: record_reader read_passage passage_body readable_passage
proof
  fix x d off n
  assume "readable_passage x" "occurs_at d off (passage_body x)" "off + length (passage_body x) \<le> n"
  then show "read_passage d n off = Inr (x, off + length (passage_body x))"
    by (simp add: read_passage_def readable_passage_def passage_body_def at_simps
        reader_view.rd_enc[of "psg_id x"] reader_view.rd_enc[of "psg_parent_document_id x"]
        reader_view.rd_enc[of "psg_text x"] reader_u32.rd_enc[where x = "psg_ordinal x"]
        reader_u32.rd_enc[where x = "psg_start_char x"] reader_u32.rd_enc[where x = "psg_end_char x"]
        add.assoc)
qed

lemma read_record_header_at:
  assumes "occurs_at d off (enc_record t body)" and "off + length (enc_record t body) \<le> n"
    and "length body \<le> UINT32_MAX"
  shows "read_record_header d n off = Inr (t, word_of_nat (length body), off + 8)"
  using assms by (simp add: read_record_header_def enc_record_def at_simps
      reader_u32.rd_enc[where x = t] reader_u32.rd_enc[where x = "word_of_nat (length body)"])

lemma read_record_document:
  assumes "occurs_at d off (enc_record YAP_V2_SEGMENT_RECORD_DOCUMENT (document_body x))"
    and "off + length (enc_record YAP_V2_SEGMENT_RECORD_DOCUMENT (document_body x)) \<le> n"
    and "readable_document x" and "length (document_body x) \<le> UINT32_MAX" and "i < dc"
  shows "read_record d n dc i off =
    Inr (Inl x, off + length (enc_record YAP_V2_SEGMENT_RECORD_DOCUMENT (document_body x)))"
proof -
  have "read_document d (off + 8 + length (document_body x)) (off + 8) =
      Inr (x, off + 8 + length (document_body x))"
    using assms by (intro reader_document.rd_enc) (simp_all add: enc_record_def at_simps add.commute)
  then show ?thesis
    using assms by (simp add: read_record_def read_record_header_at) (simp add: enc_record_def)
qed

lemma read_record_passage:
  assumes "occurs_at d off (enc_record YAP_V2_SEGMENT_RECORD_PASSAGE (passage_body x))"
    and "off + length (enc_record YAP_V2_SEGMENT_RECORD_PASSAGE (passage_body x)) \<le> n"
    and "readable_passage x" and "length (passage_body x) \<le> UINT32_MAX" and "dc \<le> i"
  shows "read_record d n dc i off =
    Inr (Inr x, off + length (enc_record YAP_V2_SEGMENT_RECORD_PASSAGE (passage_body x)))"
proof -
  have "read_passage d (off + 8 + length (passage_body x)) (off + 8) =
      Inr (x, off + 8 + length (passage_body x))"
    using assms by (intro reader_passage.rd_enc) (simp_all add: enc_record_def at_simps add.commute)
  then show ?thesis
    using assms by (simp add: read_record_def read_record_header_at) (simp add: enc_record_def)
qed

text \<open>Documents and passages in one list of records, as the file stores them.\<close>

fun record_image :: "YAP_V2_DOCUMENT_VIEW + YAP_V2_PASSAGE_VIEW \<Rightarrow> bytes" where
  "record_image (Inl d) = enc_record YAP_V2_SEGMENT_RECORD_DOCUMENT (document_body d)"
| "record_image (Inr p) = enc_record YAP_V2_SEGMENT_RECORD_PASSAGE (passage_body p)"

fun readable_record :: "YAP_V2_DOCUMENT_VIEW + YAP_V2_PASSAGE_VIEW \<Rightarrow> bool" where
  "readable_record (Inl d) = (readable_document d \<and> length (document_body d) \<le> UINT32_MAX)"
| "readable_record (Inr p) = (readable_passage p \<and> length (passage_body p) \<le> UINT32_MAX)"

lemma read_record_at:
  assumes "occurs_at d off (record_image r)" and "off + length (record_image r) \<le> n"
    and "readable_record r" and "i < dc \<longleftrightarrow> isl r"
  shows "read_record d n dc i off = Inr (r, off + length (record_image r))"
  using assms by (cases r) (simp_all add: read_record_document read_record_passage)

lemma read_records_at:
  "occurs_at d off (concat (map record_image rs)) \<Longrightarrow> off + length (concat (map record_image rs)) \<le> n \<Longrightarrow>
   \<forall>r\<in>set rs. readable_record r \<Longrightarrow> \<forall>j < length rs. (i + j < dc \<longleftrightarrow> isl (rs ! j)) \<Longrightarrow>
   read_records d n dc i (length rs) off = Inr (rs, off + length (concat (map record_image rs)))"
proof (induction rs arbitrary: i off)
  case Nil
  then show ?case by simp
next
  case (Cons r rs)
  have "i < dc \<longleftrightarrow> isl r"
    using Cons.prems(4)[rule_format, of 0] by simp
  then have "read_record d n dc i off = Inr (r, off + length (record_image r))"
    using Cons.prems by (intro read_record_at) (auto simp: at_simps)
  moreover have "Suc i + j < dc \<longleftrightarrow> isl (rs ! j)" if "j < length rs" for j
    using Cons.prems(4)[rule_format, of "Suc j"] that by simp
  then have "read_records d n dc (Suc i) (length rs) (off + length (record_image r)) =
      Inr (rs, off + length (record_image r) + length (concat (map record_image rs)))"
    using Cons.prems by (intro Cons.IH) (auto simp: at_simps)
  ultimately show ?case by simp
qed

lemma record_lists:
  "List.map_filter record_document (map Inl ds @ map Inr ps) = ds"
  "List.map_filter record_passage (map Inl ds @ map Inr ps) = ps"
proof -
  have "List.map_filter record_document (map Inr ps) = []" for ps :: "YAP_V2_PASSAGE_VIEW list"
    by (induction ps) (auto simp: List.map_filter_simps)
  then show "List.map_filter record_document (map Inl ds @ map Inr ps) = ds"
    by (induction ds) (auto simp: List.map_filter_simps)
  have "List.map_filter record_passage (map Inr ps) = ps"
    by (induction ps) (auto simp: List.map_filter_simps)
  then show "List.map_filter record_passage (map Inl ds @ map Inr ps) = ps"
    by (induction ds) (auto simp: List.map_filter_simps)
qed

lemma parse_segment_payload_image:
  assumes sid: "YAP_V2_segment_id_validate (Some sid) = YAP_V2_OK" "c_string sid = sid"
    and views: "validate_segment_views docs psgs = YAP_V2_OK"
    and rd: "\<forall>d\<in>set docs. readable_document d \<and> length (document_body d) \<le> UINT32_MAX"
      "\<forall>p\<in>set psgs. readable_passage p \<and> length (passage_body p) \<le> UINT32_MAX"
    and mem: "\<And>n. mem n"
  shows "parse_segment_payload mem g (payload_image sid docs psgs) =
    Inr \<lparr>sgm_id = sid, sgm_generation = g, sgm_documents = docs, sgm_passages = psgs,
         sgm_storage = payload_image sid docs psgs\<rparr>"
proof -
  let ?p = "payload_image sid docs psgs" and ?rs = "map Inl docs @ map Inr psgs"
  have image: "concat (map record_image ?rs) =
      concat (map (\<lambda>d. enc_record YAP_V2_SEGMENT_RECORD_DOCUMENT (document_body d)) docs) @
      concat (map (\<lambda>p. enc_record YAP_V2_SEGMENT_RECORD_PASSAGE (passage_body p)) psgs)"
    by (simp add: comp_def)
  have at: "occurs_at ?p 0 (put_u32_le YAP_V2_SEGMENT_PAYLOAD_VERSION)"
    "occurs_at ?p 4 (put_u32_le (word_of_nat (length sid)))" "occurs_at ?p 8 sid"
    "occurs_at ?p (8 + length sid) (put_u64_le (word_of_nat (length docs)))"
    "occurs_at ?p (16 + length sid) (put_u64_le (word_of_nat (length psgs)))"
    "occurs_at ?p (24 + length sid) (concat (map record_image ?rs))"
    using occurs_at_whole[of ?p] unfolding payload_image_def image by (simp_all add: at_simps)
  have len: "length ?p = 24 + length sid + length (concat (map record_image ?rs))"
    unfolding image by (simp add: payload_image_def)
  have "length sid \<le> 255" "sid \<noteq> []"
    using sid by (auto simp: segment_id_validate_ok)
  then have 1: "read_segment_id ?p (length ?p) = Inr (sid, 8 + length sid)"
    using reader_u32.rd_enc[OF _ at(1), of "length ?p"] reader_u32.rd_enc[OF _ at(2), of "length ?p"]
      occurs_at_take[OF at(3)] sid len
    by (simp add: read_segment_id_def type_limits)
  have small: "length docs \<le> 1000000" "length psgs \<le> 4000000"
    using views by (auto simp: validate_segment_views_ok storage_limits)
  then have 2: "read_counts ?p (length ?p) (8 + length sid) = Inr (length docs, length psgs, 24 + length sid)"
    using reader_u64.rd_enc[OF _ at(4), of "length ?p"] reader_u64.rd_enc[OF _ at(5), of "length ?p"] len
    by (simp add: read_counts_def storage_limits unat_of_nat)
  have "read_records ?p (length ?p) (length docs) 0 (length ?rs) (24 + length sid) =
      Inr (?rs, 24 + length sid + length (concat (map record_image ?rs)))"
    using at(6) len rd by (intro read_records_at) (auto simp: nth_append)
  then show ?thesis
    using 1 2 mem views len by (simp add: parse_segment_payload_def record_lists)
qed

subsection \<open>Round trip of a segment\<close>

text \<open>A reader returns every text as a pointer into the file, an absent one as an empty one.\<close>

definition norm_document :: "YAP_V2_DOCUMENT_VIEW \<Rightarrow> YAP_V2_DOCUMENT_VIEW" where
  "norm_document d = \<lparr>doc_id = norm_view (doc_id d), doc_url = norm_view (doc_url d),
     doc_title = norm_view (doc_title d), doc_body = norm_view (doc_body d),
     doc_metadata_json = norm_view (doc_metadata_json d),
     doc_updated_at_unix_ms = doc_updated_at_unix_ms d\<rparr>"

definition norm_passage :: "YAP_V2_PASSAGE_VIEW \<Rightarrow> YAP_V2_PASSAGE_VIEW" where
  "norm_passage p = p\<lparr>psg_id := norm_view (psg_id p),
     psg_parent_document_id := norm_view (psg_parent_document_id p), psg_text := norm_view (psg_text p)\<rparr>"

lemma sint_nonneg_unat: "0 \<le> sint (w :: u64) \<Longrightarrow> unat w \<le> INT64_MAX"
proof -
  assume "0 \<le> sint w"
  then have "\<not> bit w 63" using bit_last_iff[of w] by simp
  then have "\<not> bit (uint w) 63" by (simp add: bit_uint_iff)
  then have "take_bit (Suc 63) (uint w) = take_bit 63 (uint w)"
    by (subst take_bit_Suc_from_most) simp
  moreover have "take_bit (Suc 63) (uint w) = uint w"
    using unsigned_less[of w, where 'a = int] by (intro take_bit_int_eq_self) auto
  moreover have "take_bit 63 (uint w) < 2 ^ 63" by (rule take_bit_int_less_exp)
  ultimately have "uint w < 2 ^ 63" by linarith
  then have "int (unat w) < 9223372036854775808" by simp
  then show ?thesis unfolding INT64_MAX_def by linarith
qed

lemma enc_view_length: "text_ok m v \<Longrightarrow> length (enc_view v) \<le> 4 + m"
  by (auto simp: text_ok_def enc_view_def)

lemma required_norm: "required_text_ok m v \<Longrightarrow> norm_view v = v"
  by (auto simp: required_text_ok_def norm_view_def)

lemma norm_document_facts:
  assumes "document_ok d"
  shows "readable_document (norm_document d)" "document_body (norm_document d) = document_body d"
    "document_ok (norm_document d)" "document_key (norm_document d) = document_key d"
    "length (document_body d) \<le> UINT32_MAX"
proof -
  have ok: "required_text_ok 255 (doc_id d)" "text_ok 255 (doc_id d)" "text_ok 8192 (doc_url d)"
    "text_ok 255 (doc_title d)" "text_ok 1048576 (doc_body d)" "text_ok 1048576 (doc_metadata_json d)"
    "0 \<le> sint (doc_updated_at_unix_ms d)"
    using assms required_text_ok_text_ok by (auto simp: document_ok_iff)
  show "readable_document (norm_document d)"
    using ok text_ok_norm sint_nonneg_unat by (simp add: readable_document_def norm_document_def)
  show "document_body (norm_document d) = document_body d"
    using ok(2-6)[THEN text_ok_norm] by (simp add: document_body_def norm_document_def)
  show "document_ok (norm_document d)"
    using ok ok(2-6)[THEN text_ok_norm] required_norm[OF ok(1)]
    by (simp add: document_ok_iff norm_document_def)
  show "document_key (norm_document d) = document_key d"
    by (simp add: norm_document_def)
  show "length (document_body d) \<le> UINT32_MAX"
    using ok(2-6)[THEN enc_view_length] by (simp add: document_body_def)
qed

lemma norm_passage_facts:
  assumes "passage_ok p"
  shows "norm_passage p = p" "readable_passage p" "length (passage_body p) \<le> UINT32_MAX"
proof -
  have ok: "required_text_ok 255 (psg_id p)" "required_text_ok 255 (psg_parent_document_id p)"
    "required_text_ok 1048576 (psg_text p)"
    using assms by (auto simp: passage_ok_iff)
  note tok = ok[THEN required_text_ok_text_ok]
  show "norm_passage p = p"
    using ok[THEN required_norm] by (simp add: norm_passage_def)
  show "readable_passage p"
    using tok[THEN text_ok_norm] ok[THEN required_norm] by (simp add: readable_passage_def)
  show "length (passage_body p) \<le> UINT32_MAX"
    using tok[THEN enc_view_length] by (simp add: passage_body_def)
qed

lemma validate_norm:
  assumes "validate_segment_views docs psgs = YAP_V2_OK"
  shows "validate_segment_views (map norm_document docs) psgs = YAP_V2_OK"
proof -
  have docs: "\<forall>d\<in>set docs. document_ok d" using assms by (simp add: validate_segment_views_ok)
  have keys: "map (document_key \<circ> norm_document) docs = map document_key docs"
    "document_key ` norm_document ` set docs = document_key ` set docs"
    using docs norm_document_facts(4) by (auto simp: image_image)
  show ?thesis
    using assms docs norm_document_facts(3) keys(2)
    by (auto simp: validate_segment_views_ok keys(1) simp del: comp_apply)
qed

lemma payload_image_norm:
  assumes "\<forall>d\<in>set docs. document_ok d"
  shows "payload_image sid (map norm_document docs) psgs = payload_image sid docs psgs"
proof -
  have "map (\<lambda>d. enc_record YAP_V2_SEGMENT_RECORD_DOCUMENT (document_body d)) (map norm_document docs) =
      map (\<lambda>d. enc_record YAP_V2_SEGMENT_RECORD_DOCUMENT (document_body d)) docs"
    using assms norm_document_facts(2) by simp
  then show ?thesis by (simp only: payload_image_def length_map)
qed

lemma segment_write_Inr:
  assumes "YAP_V2_segment_write mem io short path sid g docs psgs = (Inr desc, ops)"
  obtains payload file_bytes where
    "validate_segment_views docs psgs = YAP_V2_OK"
    "YAP_V2_segment_id_validate (Some sid) = YAP_V2_OK" "g \<noteq> 0"
    "payload = payload_image (c_string sid) docs psgs"
    "length payload \<le> YAP_V2_MAX_SEGMENT_PAYLOAD_BYTES"
    "seal_frame YAP_V2_FILE_DOCUMENTS g payload = Inr file_bytes"
    "write_atomic io short path file_bytes = (YAP_V2_OK, ops)"
    "segment_describe (c_string sid) (length docs) (length psgs) file_bytes = Inr desc"
proof -
  from assms obtain b file_bytes where
    v: "validate_segment_views docs psgs = YAP_V2_OK" "YAP_V2_segment_id_validate (Some sid) = YAP_V2_OK" "g \<noteq> 0"
    and b: "segment_payload mem (c_string sid) docs psgs = Inr b"
    and f: "seal_frame YAP_V2_FILE_DOCUMENTS g (buf_data b) = Inr file_bytes"
    "write_atomic io short path file_bytes = (YAP_V2_OK, ops)"
    "segment_describe (c_string sid) (length docs) (length psgs) file_bytes = Inr desc"
    by (auto simp: YAP_V2_segment_write_def rbind_Inr_iff split: if_splits sum.splits prod.splits)
  from segment_payload_image[OF b] have "buf_data b = payload_image (c_string sid) docs psgs"
    "length (buf_data b) \<le> YAP_V2_MAX_SEGMENT_PAYLOAD_BYTES"
    by (auto simp: buffer_inv_def)
  with v f show thesis using that by simp
qed

lemma segment_id_validate_c_string:
  "YAP_V2_segment_id_validate (Some (c_string sid)) = YAP_V2_segment_id_validate (Some sid)"
  by (simp add: YAP_V2_segment_id_validate_def c_string_validate_def length_takeWhile_take c_string_id)
     (simp add: c_string_def)

lemma read_file_ok:
  assumes "\<And>n. mem n" and "\<And>c. io c" and "fs path = Some content"
    and "length content \<le> YAP_V2_FILE_HEADER_BYTES + YAP_V2_MAX_SEGMENT_PAYLOAD_BYTES"
  shows "read_file mem io fs path = Inr content"
  using assms by (simp add: read_file_def)

text \<open>
  C2. What \<open>YAP_V2_segment_write\<close> reported as written, \<open>YAP_V2_segment_read\<close> returns: the same
  segment identifier, generation, documents and passages (an absent text as an empty one), and the
  same descriptor with the same file size and SHA-256 checksum, when the reader's allocations and
  library calls succeed and it expects that generation or any.
\<close>

theorem segment_write_read:
  assumes "YAP_V2_segment_write mem io short path sid g docs psgs = (Inr desc, ops)"
    and "\<And>n. rmem n" and "\<And>c. rio c" and "eg = 0 \<or> eg = g"
  shows "\<exists>storage. YAP_V2_segment_read rmem rio (run_ops ops fs) path eg True =
    Inr (\<lparr>sgm_id = c_string sid, sgm_generation = g, sgm_documents = map norm_document docs,
          sgm_passages = psgs, sgm_storage = storage\<rparr>, Some desc)"
proof -
  obtain payload file_bytes where
    v: "validate_segment_views docs psgs = YAP_V2_OK" "YAP_V2_segment_id_validate (Some sid) = YAP_V2_OK"
    and p: "payload = payload_image (c_string sid) docs psgs"
      "length payload \<le> YAP_V2_MAX_SEGMENT_PAYLOAD_BYTES"
    and f: "seal_frame YAP_V2_FILE_DOCUMENTS g payload = Inr file_bytes"
      "write_atomic io short path file_bytes = (YAP_V2_OK, ops)"
      "segment_describe (c_string sid) (length docs) (length psgs) file_bytes = Inr desc"
    by (rule segment_write_Inr[OF assms(1)]) blast
  have docs: "\<forall>d\<in>set docs. document_ok d" and psgs: "\<forall>p\<in>set psgs. passage_ok p"
    using v(1) by (auto simp: validate_segment_views_ok)
  have "run_ops ops fs path = Some file_bytes"
    using segment_writer.ok_new[OF f(2)] .
  then have content: "read_file rmem rio (run_ops ops fs) path = Inr file_bytes"
    using assms(2,3) seal_frame_length[OF f(1)] p(2) by (intro read_file_ok) auto
  obtain h where h: "open_frame YAP_V2_FILE_DOCUMENTS eg file_bytes = Inr h" "hdr_generation h = g"
    "hdr_payload_bytes h = word_of_nat (length payload)"
    using open_seal[OF f(1) assms(4)] by blast
  have "parse_segment_payload rmem g (payload_image (c_string sid) (map norm_document docs) psgs) =
    Inr \<lparr>sgm_id = c_string sid, sgm_generation = g, sgm_documents = map norm_document docs,
         sgm_passages = psgs, sgm_storage = payload_image (c_string sid) (map norm_document docs) psgs\<rparr>"
    using v docs psgs assms(2)
    by (intro parse_segment_payload_image validate_norm)
       (simp_all add: segment_id_validate_c_string c_string_id norm_document_facts norm_passage_facts)
  then have "parse_segment_payload rmem g payload =
    Inr \<lparr>sgm_id = c_string sid, sgm_generation = g, sgm_documents = map norm_document docs,
         sgm_passages = psgs, sgm_storage = payload\<rparr>"
    using docs by (simp add: payload_image_norm p(1))
  moreover have "drop YAP_V2_FILE_HEADER_BYTES file_bytes = payload"
    "unat (hdr_payload_bytes h) \<le> YAP_V2_MAX_SEGMENT_PAYLOAD_BYTES"
    using seal_frame_length[OF f(1)] p(2) h(3) by (simp_all add: unat_of_nat storage_limits)
  ultimately show ?thesis
    using content h assms(2) f(3) by (simp add: YAP_V2_segment_read_def)
qed

lemma segment_describe_ok:
  assumes "YAP_V2_FILE_HEADER_BYTES \<le> length bs" "length bs < 2 ^ 64"
  shows "\<exists>desc. segment_describe sid dc pc bs = Inr desc"
proof -
  have "unat (word_of_nat (length bs) :: u64) = length bs"
    using assms(2) by (simp add: unat_of_nat)
  then have "\<not> unat (word_of_nat (length bs) :: u64) < YAP_V2_FILE_HEADER_BYTES"
    "(word_of_nat (length bs) :: u64) \<noteq> 0"
    using assms(1) by (auto simp: YAP_V2_FILE_HEADER_BYTES_def)
  moreover have "c_string (ascii ''documents.yap2'') = ascii ''documents.yap2''"
    by (simp add: c_string_def ascii_def)
  ultimately show ?thesis
    by (simp add: segment_describe_def YAP_V2_segment_descriptor_add_component_def file_types
        storage_limits ascii_def)
qed

lemma segment_write_total:
  assumes "\<And>n. mem n" and "\<And>c. io c" and "length path \<le> SIZE_MAX - 5" and "g \<noteq> 0"
    and "YAP_V2_segment_id_validate (Some sid) = YAP_V2_OK"
    and "validate_segment_views docs psgs = YAP_V2_OK"
    and "length (payload_image (c_string sid) docs psgs) \<le> YAP_V2_MAX_SEGMENT_PAYLOAD_BYTES"
  shows "\<exists>desc ops. YAP_V2_segment_write mem io short path sid g docs psgs = (Inr desc, ops)"
proof -
  let ?p = "payload_image (c_string sid) docs psgs"
  have "\<forall>d\<in>set docs. document_ok d" "\<forall>p\<in>set psgs. passage_ok p"
    using assms(6) by (auto simp: validate_segment_views_ok)
  then obtain b where b: "segment_payload mem (c_string sid) docs psgs = Inr b" "buf_data b = ?p"
    using segment_payload_accepts assms(1,7) segment_payload_image by metis
  have "header_fields_valid \<lparr>hdr_format_version = YAP_V2_FORMAT_VERSION,
         hdr_header_bytes = word_of_nat YAP_V2_FILE_HEADER_BYTES, hdr_file_type = YAP_V2_FILE_DOCUMENTS,
         hdr_generation = g, hdr_payload_bytes = word_of_nat (length ?p),
         hdr_payload_crc32c = crc32c_branch ?p\<rparr>"
    using assms(4) by (simp add: header_fields_valid_def file_header_type_valid_def file_types)
  then obtain bs where bs: "seal_frame YAP_V2_FILE_DOCUMENTS g ?p = Inr bs"
    using assms(7) by (simp add: seal_frame_def YAP_V2_file_header_encode_def storage_limits)
  have "length bs < 2 ^ 64" "YAP_V2_FILE_HEADER_BYTES \<le> length bs"
    using seal_frame_length[OF bs] assms(7) by (simp_all add: storage_limits)
  then obtain desc where "segment_describe (c_string sid) (length docs) (length psgs) bs = Inr desc"
    using segment_describe_ok by blast
  moreover have "fst (write_atomic io short path bs) = YAP_V2_OK"
    using assms(2,3) by (simp add: write_atomic_def Let_def)
  moreover have "length (c_string sid) \<le> UINT32_MAX"
    using assms(5) by (simp add: segment_id_validate_ok)
  ultimately show ?thesis
    using assms(1,4,5,6) b bs
    by (auto simp: YAP_V2_segment_write_def split: prod.splits)
qed

text \<open>
  C28. With an allocator and a file system that serve every request, \<open>YAP_V2_segment_write\<close>
  succeeds on every valid segment identifier, non-zero generation and valid set of documents and
  passages whose encoding stays within the 256 MiB payload limit.
\<close>

theorem segment_write_succeeds:
  assumes "\<And>n. mem n" and "\<And>c. io c" and "length path \<le> SIZE_MAX - 5" and "g \<noteq> 0"
    and "YAP_V2_segment_id_validate (Some sid) = YAP_V2_OK"
    and "validate_segment_views docs psgs = YAP_V2_OK"
    and "length (payload_image (c_string sid) docs psgs) \<le> YAP_V2_MAX_SEGMENT_PAYLOAD_BYTES"
  shows "\<exists>desc ops. YAP_V2_segment_write mem io short path sid g docs psgs = (Inr desc, ops)"
  using assms by (rule segment_write_total)

text \<open>
  C24. No single-byte damage to the payload of a written documents file goes unnoticed: whichever
  payload byte is replaced by a different one, \<open>YAP_V2_segment_read\<close> answers
  \<open>YAP_V2_CHECKSUM_MISMATCH\<close>.
\<close>

theorem segment_read_damaged:
  assumes "YAP_V2_segment_write mem io short path sid g docs psgs = (Inr desc, ops)"
    and "run_ops ops fs path = Some content" and "YAP_V2_FILE_HEADER_BYTES \<le> i" and "i < length content"
    and "content ! i \<noteq> b" and "\<And>n. rmem n" and "\<And>c. rio c" and "eg = 0 \<or> eg = g"
  shows "YAP_V2_segment_read rmem rio (fs'(path \<mapsto> content[i := b])) path eg want =
    Inl YAP_V2_CHECKSUM_MISMATCH"
proof -
  obtain payload file_bytes where
    p: "length payload \<le> YAP_V2_MAX_SEGMENT_PAYLOAD_BYTES"
    and f: "seal_frame YAP_V2_FILE_DOCUMENTS g payload = Inr file_bytes"
      "write_atomic io short path file_bytes = (YAP_V2_OK, ops)"
    by (rule segment_write_Inr[OF assms(1)]) blast
  have "file_bytes = content"
    using segment_writer.ok_new[OF f(2), of fs] assms(2) by simp
  then have "open_frame YAP_V2_FILE_DOCUMENTS eg (content[i := b]) = Inl YAP_V2_CHECKSUM_MISMATCH"
    and "length content \<le> YAP_V2_FILE_HEADER_BYTES + YAP_V2_MAX_SEGMENT_PAYLOAD_BYTES"
    using open_frame_damaged[OF f(1) assms(8)] seal_frame_length[OF f(1)] p assms(3-5) by auto
  moreover from this(2) have "read_file rmem rio (fs'(path \<mapsto> content[i := b])) path = Inr (content[i := b])"
    using assms(6,7) by (intro read_file_ok) auto
  ultimately show ?thesis
    by (simp add: YAP_V2_segment_read_def)
qed

text \<open>A small segment on which the three theorems above are applied.\<close>

definition sample_document :: YAP_V2_DOCUMENT_VIEW where
  "sample_document = \<lparr>doc_id = View (ascii ''doc-1''), doc_url = View_null 0,
     doc_title = View (ascii ''T''), doc_body = View (ascii ''body''),
     doc_metadata_json = View_null 0, doc_updated_at_unix_ms = 1700000000000\<rparr>"

definition sample_passage :: YAP_V2_PASSAGE_VIEW where
  "sample_passage = \<lparr>psg_id = View (ascii ''p-1''), psg_parent_document_id = View (ascii ''doc-1''),
     psg_text = View (ascii ''body''), psg_ordinal = 0, psg_start_char = 0, psg_end_char = 4\<rparr>"

lemma sample_valid:
  "YAP_V2_segment_id_validate (Some (ascii ''seg-1'')) = YAP_V2_OK"
  "validate_segment_views [sample_document] [sample_passage] = YAP_V2_OK"
  "length (payload_image (c_string (ascii ''seg-1'')) [sample_document] [sample_passage]) = 119"
proof -
  show "YAP_V2_segment_id_validate (Some (ascii ''seg-1'')) = YAP_V2_OK"
    by (simp add: segment_id_validate_ok ascii_def c_string_def segment_id_char_def)
  show "validate_segment_views [sample_document] [sample_passage] = YAP_V2_OK"
    by (simp add: validate_segment_views_ok document_ok_iff passage_ok_iff text_ok_def
        required_text_ok_def sample_document_def sample_passage_def ascii_def storage_limits)
  show "length (payload_image (c_string (ascii ''seg-1'')) [sample_document] [sample_passage]) = 119"
    by (simp add: payload_image_def enc_record_def document_body_def passage_body_def enc_view_def
        sample_document_def sample_passage_def ascii_def c_string_def)
qed

lemma sample_written:
  "\<exists>desc ops. YAP_V2_segment_write (\<lambda>_. True) (\<lambda>_. True) 0 ''documents.yap2'' (ascii ''seg-1'') 7
     [sample_document] [sample_passage] = (Inr desc, ops)"
  using sample_valid by (intro segment_write_total) (simp_all add: storage_limits)

theorem segment_write_succeeds_witness:
  "\<exists>desc ops. YAP_V2_segment_write (\<lambda>_. True) (\<lambda>_. True) 0 ''documents.yap2'' (ascii ''seg-1'') 7
     [sample_document] [sample_passage] = (Inr desc, ops)"
  using sample_valid by (intro segment_write_succeeds) (simp_all add: storage_limits)

theorem segment_write_read_witness:
  "\<exists>desc ops storage. YAP_V2_segment_read (\<lambda>_. True) (\<lambda>_. True) (run_ops ops (\<lambda>_. None)) ''documents.yap2'' 7 True =
    Inr (\<lparr>sgm_id = ascii ''seg-1'', sgm_generation = 7, sgm_documents = [norm_document sample_document],
          sgm_passages = [sample_passage], sgm_storage = storage\<rparr>, Some desc)"
proof -
  obtain desc ops where w: "YAP_V2_segment_write (\<lambda>_. True) (\<lambda>_. True) 0 ''documents.yap2''
      (ascii ''seg-1'') 7 [sample_document] [sample_passage] = (Inr desc, ops)"
    using sample_written by blast
  have "c_string (ascii ''seg-1'') = ascii ''seg-1''"
    by (simp add: c_string_def ascii_def)
  with segment_write_read[OF w, of "\<lambda>_. True" "\<lambda>_. True" 7 "\<lambda>_. None"] show ?thesis
    by auto
qed

theorem segment_read_damaged_witness:
  "\<exists>content. YAP_V2_segment_read (\<lambda>_. True) (\<lambda>_. True)
     [''documents.yap2'' \<mapsto> content[40 := content ! 40 + 1]] ''documents.yap2'' 7 True =
       Inl YAP_V2_CHECKSUM_MISMATCH"
proof -
  obtain desc ops where w: "YAP_V2_segment_write (\<lambda>_. True) (\<lambda>_. True) 0 ''documents.yap2''
      (ascii ''seg-1'') 7 [sample_document] [sample_passage] = (Inr desc, ops)"
    using sample_written by blast
  obtain payload content where "payload = payload_image (c_string (ascii ''seg-1'')) [sample_document] [sample_passage]"
    and f: "seal_frame YAP_V2_FILE_DOCUMENTS 7 payload = Inr content"
      "write_atomic (\<lambda>_. True) 0 ''documents.yap2'' content = (YAP_V2_OK, ops)"
    by (rule segment_write_Inr[OF w]) blast
  then have "length content = 151"
    using seal_frame_length[OF f(1)] sample_valid(3) by (simp add: storage_limits)
  then have "YAP_V2_segment_read (\<lambda>_. True) (\<lambda>_. True)
     ((\<lambda>_. None)(''documents.yap2'' \<mapsto> content[40 := content ! 40 + 1])) ''documents.yap2'' 7 True =
       Inl YAP_V2_CHECKSUM_MISMATCH"
    by (intro segment_read_damaged[OF w segment_writer.ok_new[OF f(2), of "\<lambda>_. None"]])
       (simp_all add: storage_limits)
  then show ?thesis by blast
qed

end
