(* ===== verification/Tombstones_V2.thy ===== *)
theory Tombstones_V2
  imports Segment_V2
begin

text \<open>
  \<open>YAP_V2_tombstones_write\<close> and \<open>YAP_V2_tombstones_read\<close> of \<open>storage/yappo_segment_v2.c\<close>: the file
  of deleted document identifiers of a segment.
\<close>

fun append_tombstones ::
  "(nat \<Rightarrow> bool) \<Rightarrow> YAP_V2_BYTES_VIEW list \<Rightarrow> YAP_V2_BYTES_VIEW list \<Rightarrow> YAP_V2_BUFFER \<Rightarrow> YAP_V2_BUFFER outcome"
where
  "append_tombstones mem seen [] payload = Inr payload"
| "append_tombstones mem seen (x # xs) payload =
     (if view_is_null x \<or> view_len x = 0 \<or> view_len x > YAP_V2_MAX_IDENTIFIER_BYTES
        then Inl YAP_V2_INVALID_FORMAT
      else if list_ex (bytes_equal x) seen then Inl YAP_V2_DUPLICATE
      else rbind (buffer_append_bytes_view mem payload x) (append_tombstones mem (seen @ [x]) xs))"

definition YAP_V2_tombstones_write ::
  "(nat \<Rightarrow> bool) \<Rightarrow> io \<Rightarrow> nat \<Rightarrow> string \<Rightarrow> u64 \<Rightarrow> YAP_V2_BYTES_VIEW list \<Rightarrow>
     YAP_V2_COMPONENT_DESCRIPTOR outcome \<times> fs_op list" where
  "YAP_V2_tombstones_write mem io short path generation document_ids =
     (if generation = 0 then (Inl YAP_V2_INVALID_ARGUMENT, [])
      else case
        rbind (buffer_append_u32 mem buffer_empty 1) (\<lambda>payload.
        rbind (buffer_append_u64 mem payload (word_of_nat (length document_ids))) (\<lambda>payload.
        rbind (append_tombstones mem [] document_ids payload) (\<lambda>payload.
        seal_frame YAP_V2_FILE_TOMBSTONES generation (buf_data payload)))) of
        Inl status \<Rightarrow> (Inl status, [])
      | Inr file_data \<Rightarrow>
          if \<not> mem (length file_data) then (Inl YAP_V2_ALLOCATION_FAILED, [])
          else case write_atomic io short path file_data of
            (status, ops) \<Rightarrow>
              (if status \<noteq> YAP_V2_OK then Inl status
               else Inr \<lparr>cmp_name = ascii ''tombstones.yap2'', cmp_file_type = YAP_V2_FILE_TOMBSTONES,
                      cmp_record_count = word_of_nat (length document_ids),
                      cmp_file_bytes = word_of_nat (length file_data),
                      cmp_checksum = sha256_digest file_data\<rparr>, ops))"

fun read_tombstones ::
  "bytes \<Rightarrow> nat \<Rightarrow> YAP_V2_BYTES_VIEW list \<Rightarrow> nat \<Rightarrow> nat \<Rightarrow> (YAP_V2_BYTES_VIEW list \<times> nat) outcome" where
  "read_tombstones data file_size seen 0 offset = Inr (seen, offset)"
| "read_tombstones data file_size seen (Suc n) offset =
     rbind (read_bytes_view data file_size offset) (\<lambda>(x, offset).
       if view_len x = 0 \<or> view_len x > YAP_V2_MAX_IDENTIFIER_BYTES then Inl YAP_V2_INVALID_FORMAT
       else if list_ex (bytes_equal x) seen then Inl YAP_V2_DUPLICATE
       else read_tombstones data file_size (seen @ [x]) n offset)"

definition YAP_V2_tombstones_read ::
  "(nat \<Rightarrow> bool) \<Rightarrow> io \<Rightarrow> fs \<Rightarrow> string \<Rightarrow> u64 \<Rightarrow> YAP_V2_TOMBSTONES outcome" where
  "YAP_V2_tombstones_read mem io fs path expected_generation =
     rbind (read_file mem io fs path) (\<lambda>file_bytes.
     rbind (open_frame YAP_V2_FILE_TOMBSTONES expected_generation file_bytes) (\<lambda>header.
     rbind (read_u32 file_bytes (length file_bytes) YAP_V2_FILE_HEADER_BYTES) (\<lambda>(payload_version, offset).
     rbind (read_u64 file_bytes (length file_bytes) offset) (\<lambda>(count, offset).
       if payload_version \<noteq> 1 \<or> unat count > YAP_V2_MAX_SEGMENT_DOCUMENTS \<or> unat count > SIZE_MAX
         then Inl YAP_V2_INVALID_FORMAT
       else if count > 0 \<and> \<not> mem (unat count * sizeof_bytes_view) then Inl YAP_V2_ALLOCATION_FAILED
       else rbind (read_tombstones file_bytes (length file_bytes) [] (unat count) offset) (\<lambda>(ids, offset).
         if offset \<noteq> length file_bytes then Inl YAP_V2_INVALID_FORMAT
         else Inr \<lparr>tmb_document_ids = ids, tmb_storage = file_bytes\<rparr>)))))"

subsection \<open>Round trip\<close>

definition tombstone_ok :: "YAP_V2_BYTES_VIEW \<Rightarrow> bool" where
  "tombstone_ok v \<longleftrightarrow> \<not> view_is_null v \<and> 0 < view_len v \<and> view_len v \<le> YAP_V2_MAX_IDENTIFIER_BYTES"

lemma tombstone_ok_view: "tombstone_ok v \<Longrightarrow> v = View (view_bytes v) \<and> readable_view v \<and> plain_view v"
  by (cases v) (auto simp: tombstone_ok_def readable_view_def plain_view_def type_limits)

lemma tombstone_equal: "tombstone_ok v \<Longrightarrow> tombstone_ok w \<Longrightarrow> bytes_equal v w \<longleftrightarrow> v = w"
  by (cases v; cases w) (auto simp: tombstone_ok_def bytes_equal_def)

lemma tombstone_seen:
  "tombstone_ok v \<Longrightarrow> \<forall>w\<in>set seen. tombstone_ok w \<Longrightarrow> list_ex (bytes_equal v) seen \<longleftrightarrow> v \<in> set seen"
  using tombstone_equal by (auto simp: list_ex_iff)

lemma append_tombstones_Inr:
  "\<forall>w\<in>set seen. tombstone_ok w \<Longrightarrow> buffer_inv b \<Longrightarrow> append_tombstones mem seen xs b = Inr b' \<Longrightarrow>
   buffer_inv b' \<and> buf_data b' = buf_data b @ concat (map enc_view xs) \<and>
   (\<forall>x\<in>set xs. tombstone_ok x) \<and> distinct xs \<and> set seen \<inter> set xs = {}"
proof (induction xs arbitrary: seen b)
  case Nil
  then show ?case by simp
next
  case (Cons x xs)
  have ok: "tombstone_ok x" and new: "\<not> list_ex (bytes_equal x) seen"
    using Cons.prems(3) by (simp_all add: tombstone_ok_def not_less split: if_splits)
  obtain b1 where b1: "buffer_append_bytes_view mem b x = Inr b1"
    "append_tombstones mem (seen @ [x]) xs b1 = Inr b'"
    using Cons.prems(3) by (auto simp: rbind_Inr_iff split: if_splits)
  have step: "buffer_inv b1" "buf_data b1 = buf_data b @ enc_view x"
    using appendsD[OF appends_view b1(1) Cons.prems(2)] by auto
  have "\<forall>w\<in>set (seen @ [x]). tombstone_ok w" using Cons.prems(1) ok by simp
  from Cons.IH[OF this step(1) b1(2)] step(2) ok new Cons.prems(1) show ?case
    by (simp add: tombstone_seen)
qed

lemma append_tombstones_total:
  assumes mem: "\<And>n. mem n"
  shows "\<forall>w\<in>set seen. tombstone_ok w \<Longrightarrow> \<forall>x\<in>set xs. tombstone_ok x \<Longrightarrow> distinct xs \<Longrightarrow>
   set seen \<inter> set xs = {} \<Longrightarrow> buffer_inv b \<Longrightarrow>
   length (buf_data b) + length (concat (map enc_view xs)) \<le> YAP_V2_MAX_SEGMENT_PAYLOAD_BYTES \<Longrightarrow>
   \<exists>b'. append_tombstones mem seen xs b = Inr b'"
proof (induction xs arbitrary: seen b)
  case Nil
  then show ?case by simp
next
  case (Cons x xs)
  then have ok: "tombstone_ok x" by simp
  have acc: "accepts (\<lambda>b. buffer_append_bytes_view mem b x) (enc_view x)"
    using mem tombstone_ok_view[OF ok] by (intro accepts_plain) auto
  obtain b1 where b1: "buffer_append_bytes_view mem b x = Inr b1"
    using acceptsD[OF acc Cons.prems(5)] Cons.prems(6) by auto
  have step: "buffer_inv b1" "buf_data b1 = buf_data b @ enc_view x"
    using appendsD[OF appends_view b1 Cons.prems(5)] by auto
  have "\<exists>b'. append_tombstones mem (seen @ [x]) xs b1 = Inr b'"
    using Cons.prems step ok by (intro Cons.IH) auto
  then show ?case
    using b1 Cons.prems ok by (auto simp: tombstone_seen tombstone_ok_def)
qed

lemma read_tombstones_at:
  "occurs_at d off (concat (map enc_view xs)) \<Longrightarrow> off + length (concat (map enc_view xs)) \<le> n \<Longrightarrow>
   \<forall>w\<in>set seen. tombstone_ok w \<Longrightarrow> \<forall>x\<in>set xs. tombstone_ok x \<Longrightarrow> distinct xs \<Longrightarrow>
   set seen \<inter> set xs = {} \<Longrightarrow>
   read_tombstones d n seen (length xs) off = Inr (seen @ xs, off + length (concat (map enc_view xs)))"
proof (induction xs arbitrary: seen off)
  case Nil
  then show ?case by simp
next
  case (Cons x xs)
  have "read_bytes_view d n off = Inr (x, off + length (enc_view x))"
    using Cons.prems tombstone_ok_view by (intro reader_view.rd_enc) (auto simp: at_simps)
  moreover have "read_tombstones d n (seen @ [x]) (length xs) (off + length (enc_view x)) =
      Inr ((seen @ [x]) @ xs, off + length (enc_view x) + length (concat (map enc_view xs)))"
    using Cons.prems by (intro Cons.IH) (auto simp: at_simps)
  ultimately show ?case
    using Cons.prems by (simp add: tombstone_seen) (simp add: tombstone_ok_def)
qed

definition tombstone_image :: "YAP_V2_BYTES_VIEW list \<Rightarrow> bytes" where
  "tombstone_image ids = put_u32_le 1 @ put_u64_le (word_of_nat (length ids)) @ concat (map enc_view ids)"

lemma tombstones_write_Inr:
  assumes "YAP_V2_tombstones_write mem io short path g ids = (Inr descr, ops)"
  obtains file_data where "seal_frame YAP_V2_FILE_TOMBSTONES g (tombstone_image ids) = Inr file_data"
    "write_atomic io short path file_data = (YAP_V2_OK, ops)"
    "length (tombstone_image ids) \<le> YAP_V2_MAX_SEGMENT_PAYLOAD_BYTES"
    "\<forall>x\<in>set ids. tombstone_ok x" "distinct ids"
proof -
  from assms obtain b1 b2 b file_data where
    b1: "buffer_append_u32 mem buffer_empty 1 = Inr b1"
    and b2: "buffer_append_u64 mem b1 (word_of_nat (length ids)) = Inr b2"
    and b: "append_tombstones mem [] ids b2 = Inr b"
    and f: "seal_frame YAP_V2_FILE_TOMBSTONES g (buf_data b) = Inr file_data"
      "write_atomic io short path file_data = (YAP_V2_OK, ops)"
    by (auto simp: YAP_V2_tombstones_write_def rbind_Inr_iff split: if_splits sum.splits prod.splits)
  have 1: "buffer_inv b1" "buf_data b1 = put_u32_le 1"
    using appendsD[OF appends_u32 b1] by auto
  have 2: "buffer_inv b2" "buf_data b2 = put_u32_le 1 @ put_u64_le (word_of_nat (length ids))"
    using appendsD[OF appends_u64 b2 1(1)] 1(2) by auto
  have 3: "buffer_inv b" "buf_data b = tombstone_image ids" "\<forall>x\<in>set ids. tombstone_ok x" "distinct ids"
    using append_tombstones_Inr[OF _ 2(1) b] 2(2) by (auto simp: tombstone_image_def)
  then show thesis
    using that f by (simp add: buffer_inv_def)
qed

lemma tombstones_write_total:
  assumes "\<And>n. mem n" and "\<And>c. io c" and "length path \<le> SIZE_MAX - 5" and "g \<noteq> 0"
    and "\<forall>x\<in>set ids. tombstone_ok x" and "distinct ids"
    and "length (tombstone_image ids) \<le> YAP_V2_MAX_SEGMENT_PAYLOAD_BYTES"
  shows "\<exists>descr ops. YAP_V2_tombstones_write mem io short path g ids = (Inr descr, ops)"
proof -
  have small: "length (buf_data buffer_empty) + length (put_u32_le 1) \<le> YAP_V2_MAX_SEGMENT_PAYLOAD_BYTES"
    by (simp add: storage_limits)
  obtain b1 where b1: "buffer_append_u32 mem buffer_empty 1 = Inr b1"
    using acceptsD[OF accepts_u32 _ small] assms(1) by auto
  have 1: "buffer_inv b1" "buf_data b1 = put_u32_le 1"
    using appendsD[OF appends_u32 b1] by auto
  obtain b2 where b2: "buffer_append_u64 mem b1 (word_of_nat (length ids)) = Inr b2"
    using acceptsD[OF accepts_u64[of mem "word_of_nat (length ids)"] 1(1)] assms(1) 1(2)
    by (auto simp: storage_limits)
  have 2: "buffer_inv b2" "buf_data b2 = put_u32_le 1 @ put_u64_le (word_of_nat (length ids))"
    using appendsD[OF appends_u64 b2 1(1)] 1(2) by auto
  obtain b where b: "append_tombstones mem [] ids b2 = Inr b"
    using append_tombstones_total[where mem = mem and seen = "[]" and xs = ids and b = b2] assms(1) assms(5-7) 2
    by (auto simp: tombstone_image_def)
  have img: "buf_data b = tombstone_image ids"
    using append_tombstones_Inr[OF _ 2(1) b] 2(2) by (auto simp: tombstone_image_def)
  have "header_fields_valid \<lparr>hdr_format_version = YAP_V2_FORMAT_VERSION,
         hdr_header_bytes = word_of_nat YAP_V2_FILE_HEADER_BYTES, hdr_file_type = YAP_V2_FILE_TOMBSTONES,
         hdr_generation = g, hdr_payload_bytes = word_of_nat (length (tombstone_image ids)),
         hdr_payload_crc32c = crc32c_branch (tombstone_image ids)\<rparr>"
    using assms(4) by (simp add: header_fields_valid_def file_header_type_valid_def file_types)
  then obtain bs where "seal_frame YAP_V2_FILE_TOMBSTONES g (tombstone_image ids) = Inr bs"
    using assms(7) by (simp add: seal_frame_def YAP_V2_file_header_encode_def storage_limits)
  moreover have "fst (write_atomic io short path bs) = YAP_V2_OK"
    using assms(2,3) by (simp add: write_atomic_def Let_def)
  ultimately show ?thesis
    using assms(1,4) b1 b2 b img by (auto simp: YAP_V2_tombstones_write_def split: prod.splits)
qed

text \<open>
  C29. A tombstone file reported as written is read back with the same identifiers in the same order
  when it holds at most a million of them; beyond that the writer still succeeds and the reader
  rejects the file as \<open>YAP_V2_INVALID_FORMAT\<close>.
\<close>

theorem tombstones_write_read:
  assumes "YAP_V2_tombstones_write mem io short path g ids = (Inr descr, ops)"
    and "\<And>n. rmem n" and "\<And>c. rio c" and "eg = 0 \<or> eg = g"
  shows "if length ids \<le> YAP_V2_MAX_SEGMENT_DOCUMENTS
    then \<exists>storage. YAP_V2_tombstones_read rmem rio (run_ops ops fs) path eg =
           Inr \<lparr>tmb_document_ids = ids, tmb_storage = storage\<rparr>
    else YAP_V2_tombstones_read rmem rio (run_ops ops fs) path eg = Inl YAP_V2_INVALID_FORMAT"
proof -
  obtain content where f: "seal_frame YAP_V2_FILE_TOMBSTONES g (tombstone_image ids) = Inr content"
      "write_atomic io short path content = (YAP_V2_OK, ops)"
    and small: "length (tombstone_image ids) \<le> YAP_V2_MAX_SEGMENT_PAYLOAD_BYTES"
    and ids: "\<forall>x\<in>set ids. tombstone_ok x" "distinct ids"
    by (rule tombstones_write_Inr[OF assms(1)]) blast
  note len = seal_frame_length[OF f(1)]
  have "run_ops ops fs path = Some content"
    using segment_writer.ok_new[OF f(2)] .
  then have content: "read_file rmem rio (run_ops ops fs) path = Inr content"
    using assms(2,3) len small by (intro read_file_ok) auto
  obtain h where h: "open_frame YAP_V2_FILE_TOMBSTONES eg content = Inr h"
    using open_seal[OF f(1) assms(4)] by blast
  have "occurs_at content YAP_V2_FILE_HEADER_BYTES (tombstone_image ids)"
    using len by (auto simp: occurs_at_def)
  then have at: "occurs_at content 32 (put_u32_le 1)" "occurs_at content 36 (put_u64_le (word_of_nat (length ids)))"
    "occurs_at content 44 (concat (map enc_view ids))"
    by (simp_all add: tombstone_image_def at_simps storage_limits)
  have total: "length content = 44 + length (concat (map enc_view ids))"
    using len by (simp add: tombstone_image_def storage_limits)
  have "length ids \<le> length (concat (map enc_view ids))"
    by (induction ids) (auto simp: enc_view_def)
  then have n: "unat (word_of_nat (length ids) :: u64) = length ids"
    using small by (simp add: tombstone_image_def storage_limits unat_of_nat)
  have "read_u32 content (length content) 32 = Inr (1, 36)"
    "read_u64 content (length content) 36 = Inr (word_of_nat (length ids), 44)"
    using reader_u32.rd_enc[OF _ at(1), of "length content"]
      reader_u64.rd_enc[OF _ at(2), of "length content"] total by simp_all
  moreover have "read_tombstones content (length content) [] (length ids) 44 = Inr (ids, length content)"
    using read_tombstones_at[OF at(3), of "length content" "[]"] ids total by simp
  ultimately show ?thesis
    using content h n assms(2) by (auto simp: YAP_V2_tombstones_read_def storage_limits)
qed

theorem tombstones_write_read_witness:
  "\<exists>ops storage. YAP_V2_tombstones_read (\<lambda>_. True) (\<lambda>_. True) (run_ops ops (\<lambda>_. None)) ''t'' 3 =
     Inr \<lparr>tmb_document_ids = [View (ascii ''doc-1''), View (ascii ''doc-2'')], tmb_storage = storage\<rparr>"
proof -
  obtain descr ops where w: "YAP_V2_tombstones_write (\<lambda>_. True) (\<lambda>_. True) 0 ''t'' 3
      [View (ascii ''doc-1''), View (ascii ''doc-2'')] = (Inr descr, ops)"
    using tombstones_write_total[of "\<lambda>_. True" "\<lambda>_. True" "''t''" 3
        "[View (ascii ''doc-1''), View (ascii ''doc-2'')]" 0]
    by (auto simp: tombstone_ok_def tombstone_image_def enc_view_def storage_limits ascii_def)
  from tombstones_write_read[OF w, of "\<lambda>_. True" "\<lambda>_. True" 3 "\<lambda>_. None"] show ?thesis
    by (auto simp: storage_limits)
qed

end
