(* ===== verification/Manifest_V2.thy ===== *)
theory Manifest_V2
  imports Segment_Buffer
begin

text \<open>
  \<open>storage/yappo_manifest_v2.c\<close>: the manifest file and its publication. \<open>None\<close> as a result means
  that a probe loop of the segment table never ends; \<open>mem\<close> is the allocator and \<open>io\<close> answers for the
  library calls. The lock file next to the manifest carries no data: publication holds the lock from
  load to save, so its effect on the file system is that of one step.
\<close>

definition YAP_V2_MANIFEST_PAYLOAD_VERSION :: u32 where "YAP_V2_MANIFEST_PAYLOAD_VERSION = 1"
definition YAP_V2_MANIFEST_PAYLOAD_HEADER_BYTES :: nat where "YAP_V2_MANIFEST_PAYLOAD_HEADER_BYTES = 40"
definition YAP_V2_MANIFEST_SEGMENT_FIXED_BYTES :: nat where "YAP_V2_MANIFEST_SEGMENT_FIXED_BYTES = 32"
definition YAP_V2_MANIFEST_COMPONENT_FIXED_BYTES :: nat where "YAP_V2_MANIFEST_COMPONENT_FIXED_BYTES = 56"

lemmas manifest_constants = YAP_V2_MANIFEST_PAYLOAD_VERSION_def
  YAP_V2_MANIFEST_PAYLOAD_HEADER_BYTES_def YAP_V2_MANIFEST_SEGMENT_FIXED_BYTES_def
  YAP_V2_MANIFEST_COMPONENT_FIXED_BYTES_def

subsection \<open>Descriptors and the segment map\<close>

definition component_equal :: "YAP_V2_COMPONENT_DESCRIPTOR \<Rightarrow> YAP_V2_COMPONENT_DESCRIPTOR \<Rightarrow> bool" where
  "component_equal a b \<longleftrightarrow>
     c_string (cmp_name a) = c_string (cmp_name b) \<and> cmp_file_type a = cmp_file_type b \<and>
     cmp_record_count a = cmp_record_count b \<and> cmp_file_bytes a = cmp_file_bytes b \<and>
     cmp_checksum a = cmp_checksum b"

definition YAP_V2_segment_descriptor_equal ::
  "YAP_V2_SEGMENT_DESCRIPTOR \<Rightarrow> YAP_V2_SEGMENT_DESCRIPTOR \<Rightarrow> bool" where
  "YAP_V2_segment_descriptor_equal left right \<longleftrightarrow>
     c_string (seg_id left) = c_string (seg_id right) \<and>
     seg_document_count left = seg_document_count right \<and>
     seg_passage_count left = seg_passage_count right \<and>
     seg_tombstone_count left = seg_tombstone_count right \<and>
     length (seg_components left) = length (seg_components right) \<and>
     list_all (\<lambda>i. component_equal (seg_components left ! i) (seg_components right ! i))
       [0..<length (seg_components left)]"

record YAP_V2_MANIFEST_SEGMENT_MAP =
  map_manifest :: "YAP_V2_SEGMENT_DESCRIPTOR list option"
  map_slots :: "nat list"

definition YAP_V2_manifest_segment_map_init :: YAP_V2_MANIFEST_SEGMENT_MAP where
  "YAP_V2_manifest_segment_map_init = \<lparr>map_manifest = None, map_slots = []\<rparr>"

definition YAP_V2_manifest_segment_map_build ::
  "(nat \<Rightarrow> bool) \<Rightarrow> YAP_V2_MANIFEST \<Rightarrow> (YAP_V2_STATUS \<times> YAP_V2_MANIFEST_SEGMENT_MAP) option" where
  "YAP_V2_manifest_segment_map_build mem manifest =
     (let segs = man_segments manifest;
          smap = \<lparr>map_manifest = Some segs, map_slots = []\<rparr> in
      if length segs = 0 then Some (YAP_V2_OK, smap)
      else if length segs > SIZE_MAX div 2 then Some (YAP_V2_OUT_OF_RANGE, smap)
      else case slot_capacity_checked 1 (length segs) of
        None \<Rightarrow> Some (YAP_V2_OUT_OF_RANGE, smap)
      | Some capacity \<Rightarrow>
          if \<not> mem (capacity * 8) then Some (YAP_V2_ALLOCATION_FAILED, smap\<lparr>map_manifest := None\<rparr>)
          else case fill_slots (segment_keys segs) (replicate capacity 0) [0..<length segs] of
            None \<Rightarrow> None
          | Some None \<Rightarrow> Some (YAP_V2_CONFLICT, YAP_V2_manifest_segment_map_init)
          | Some (Some slots) \<Rightarrow> Some (YAP_V2_OK, smap\<lparr>map_slots := slots\<rparr>))"

text \<open>The bounded lookup loop: after \<open>capacity\<close> probes it gives up.\<close>

definition YAP_V2_manifest_segment_map_find ::
  "YAP_V2_MANIFEST_SEGMENT_MAP \<Rightarrow> bytes \<Rightarrow> nat outcome" where
  "YAP_V2_manifest_segment_map_find smap segment_id =
     (case map_manifest smap of
        None \<Rightarrow> Inl YAP_V2_NOT_FOUND
      | Some segs \<Rightarrow>
          if map_slots smap = [] then Inl YAP_V2_NOT_FOUND
          else case probe (segment_keys segs) (map_slots smap) (c_string segment_id)
                      (manifest_start (c_string segment_id) (length (map_slots smap)))
                      (length (map_slots smap)) of
            Some (Probe_hit i) \<Rightarrow> Inr i
          | _ \<Rightarrow> Inl YAP_V2_NOT_FOUND)"

subsection \<open>Parsing\<close>

text \<open>The three fields of \<open>MANIFEST_READER\<close> are the arguments \<open>data\<close>, \<open>len\<close> and \<open>offset\<close>.\<close>

definition reader_take :: "nat \<Rightarrow> bytes \<Rightarrow> nat \<Rightarrow> nat \<Rightarrow> (bytes \<times> nat) outcome" where
  "reader_take n data len offset =
     (if offset > len \<or> n > len - offset then Inl YAP_V2_INVALID_FORMAT
      else Inr (take n (drop offset data), offset + n))"

definition reader_u32 :: "bytes \<Rightarrow> nat \<Rightarrow> nat \<Rightarrow> (u32 \<times> nat) outcome" where
  "reader_u32 data len offset =
     rbind (reader_take 4 data len offset) (\<lambda>(bs, offset). Inr (get_u32_le bs, offset))"

definition reader_u64 :: "bytes \<Rightarrow> nat \<Rightarrow> nat \<Rightarrow> (u64 \<times> nat) outcome" where
  "reader_u64 data len offset =
     rbind (reader_take 8 data len offset) (\<lambda>(bs, offset). Inr (get_u64_le bs, offset))"

definition parse_component ::
  "bytes \<Rightarrow> nat \<Rightarrow> nat \<Rightarrow> (YAP_V2_COMPONENT_DESCRIPTOR \<times> nat) outcome" where
  "parse_component data len offset =
     rbind (reader_u32 data len offset) (\<lambda>(name_bytes, offset).
     rbind (reader_u32 data len offset) (\<lambda>(file_type, offset).
     rbind (reader_u64 data len offset) (\<lambda>(record_count, offset).
     rbind (reader_u64 data len offset) (\<lambda>(file_bytes, offset).
     rbind (reader_take 32 data len offset) (\<lambda>(checksum, offset).
       if name_bytes = 0 \<or> unat name_bytes > YAP_V2_MAX_COMPONENT_NAME_BYTES
         then Inl YAP_V2_INVALID_FORMAT
       else rbind (reader_take (unat name_bytes) data len offset) (\<lambda>(name, offset).
         if 0 \<in> set name then Inl YAP_V2_INVALID_FORMAT
         else Inr (\<lparr>cmp_name = name, cmp_file_type = file_type, cmp_record_count = record_count,
                    cmp_file_bytes = file_bytes, cmp_checksum = checksum\<rparr>, offset)))))))"

fun parse_components ::
  "bytes \<Rightarrow> nat \<Rightarrow> nat \<Rightarrow> nat \<Rightarrow> YAP_V2_SEGMENT_DESCRIPTOR \<Rightarrow> (YAP_V2_SEGMENT_DESCRIPTOR \<times> nat) outcome"
where
  "parse_components data len 0 offset segment = Inr (segment, offset)"
| "parse_components data len (Suc n) offset segment =
     rbind (parse_component data len offset) (\<lambda>(component, offset).
       case YAP_V2_segment_descriptor_add_component segment component of
         (status, segment) \<Rightarrow>
           if status \<noteq> YAP_V2_OK then Inl status
           else parse_components data len n offset segment)"

definition parse_segment :: "bytes \<Rightarrow> nat \<Rightarrow> nat \<Rightarrow> (YAP_V2_SEGMENT_DESCRIPTOR \<times> nat) outcome" where
  "parse_segment data len offset =
     rbind (reader_u32 data len offset) (\<lambda>(id_bytes, offset).
     rbind (reader_u32 data len offset) (\<lambda>(component_count, offset).
     rbind (reader_u64 data len offset) (\<lambda>(document_count, offset).
     rbind (reader_u64 data len offset) (\<lambda>(passage_count, offset).
     rbind (reader_u64 data len offset) (\<lambda>(tombstone_count, offset).
       if id_bytes = 0 \<or> unat id_bytes > YAP_V2_MAX_IDENTIFIER_BYTES \<or> component_count = 0 \<or>
          unat component_count > YAP_V2_MAX_COMPONENTS then Inl YAP_V2_INVALID_FORMAT
       else rbind (reader_take (unat id_bytes) data len offset) (\<lambda>(id', offset).
         if 0 \<in> set id' then Inl YAP_V2_INVALID_FORMAT
         else parse_components data len (unat component_count) offset
                \<lparr>seg_id = id', seg_document_count = document_count, seg_passage_count = passage_count,
                 seg_tombstone_count = tombstone_count, seg_components = []\<rparr>))))))"

fun load_segments ::
  "(nat \<Rightarrow> bool) \<Rightarrow> bytes \<Rightarrow> nat \<Rightarrow> nat \<Rightarrow> nat \<Rightarrow> YAP_V2_MANIFEST \<Rightarrow> (YAP_V2_MANIFEST \<times> nat) outcome option"
where
  "load_segments mem data len 0 offset parsed = Some (Inr (parsed, offset))"
| "load_segments mem data len (Suc n) offset parsed =
     (case parse_segment data len offset of
        Inl status \<Rightarrow> Some (Inl status)
      | Inr (segment, offset) \<Rightarrow>
          (case YAP_V2_manifest_add_segment mem parsed segment of
             None \<Rightarrow> None
           | Some (status, parsed) \<Rightarrow>
               if status \<noteq> YAP_V2_OK then Some (Inl status)
               else load_segments mem data len n offset parsed))"

definition read_manifest_file :: "(nat \<Rightarrow> bool) \<Rightarrow> io \<Rightarrow> fs \<Rightarrow> string \<Rightarrow> bytes outcome" where
  "read_manifest_file mem io fs path =
     (case fs path of
        None \<Rightarrow> Inl YAP_V2_IO_ERROR
      | Some data \<Rightarrow>
          if \<not> io Io_fopen \<or> \<not> io Io_fstat then Inl YAP_V2_IO_ERROR
          else if length data < YAP_V2_FILE_HEADER_BYTES + YAP_V2_MANIFEST_PAYLOAD_HEADER_BYTES
            then Inl YAP_V2_INVALID_FORMAT
          else if length data > YAP_V2_MAX_MANIFEST_BYTES then Inl YAP_V2_OUT_OF_RANGE
          else if \<not> mem (length data) then Inl YAP_V2_ALLOCATION_FAILED
          else if \<not> io Io_fread \<or> \<not> io Io_fclose then Inl YAP_V2_IO_ERROR
          else Inr data)"

definition manifest_head :: "bytes \<Rightarrow> (u64 \<times> nat \<times> bytes \<times> nat) outcome" where
  "manifest_head data =
     rbind (YAP_V2_file_header_decode data) (\<lambda>header.
       (let payload = drop YAP_V2_FILE_HEADER_BYTES data; len = length payload in
        if hdr_file_type header \<noteq> YAP_V2_FILE_MANIFEST \<or>
           hdr_payload_bytes header \<noteq> word_of_nat (length data - YAP_V2_FILE_HEADER_BYTES)
          then Inl YAP_V2_INVALID_FORMAT
        else if crc32c (take (unat (hdr_payload_bytes header)) payload) \<noteq> hdr_payload_crc32c header
          then Inl YAP_V2_CHECKSUM_MISMATCH
        else rbind (reader_u32 payload len 0) (\<lambda>(payload_version, offset).
             rbind (reader_u32 payload len offset) (\<lambda>(segment_count, offset).
             rbind (reader_take 32 payload len offset) (\<lambda>(fingerprint, offset).
               if payload_version \<noteq> YAP_V2_MANIFEST_PAYLOAD_VERSION \<or>
                  unat segment_count > YAP_V2_MAX_SEGMENTS then Inl YAP_V2_INVALID_FORMAT
               else Inr (hdr_generation header, unat segment_count, fingerprint, offset))))))"

definition YAP_V2_manifest_load ::
  "(nat \<Rightarrow> bool) \<Rightarrow> io \<Rightarrow> fs \<Rightarrow> string \<Rightarrow> YAP_V2_MANIFEST outcome option" where
  "YAP_V2_manifest_load mem io fs path =
     (case rbind (read_manifest_file mem io fs path)
             (\<lambda>data. rbind (manifest_head data) (\<lambda>head. Inr (data, head))) of
        Inl status \<Rightarrow> Some (Inl status)
      | Inr (data, generation, segment_count, fingerprint, offset) \<Rightarrow>
          (let payload = drop YAP_V2_FILE_HEADER_BYTES data in
           case load_segments mem payload (length payload) segment_count offset
                  (YAP_V2_manifest_init\<lparr>man_generation := generation,
                     man_config_fingerprint := fingerprint\<rparr>) of
             None \<Rightarrow> None
           | Some (Inl status) \<Rightarrow> Some (Inl status)
           | Some (Inr (parsed, offset)) \<Rightarrow>
               if offset \<noteq> length payload then Some (Inl YAP_V2_INVALID_FORMAT)
               else (case YAP_V2_manifest_validate mem parsed of
                       None \<Rightarrow> None
                     | Some status \<Rightarrow>
                         Some (if status = YAP_V2_OK then Inr parsed else Inl status))))"

text \<open>\<open>fingerprint\<close> is the outcome of \<open>YAP_V2_config_fingerprint\<close> on the configuration.\<close>

definition YAP_V2_manifest_load_for_config ::
  "(nat \<Rightarrow> bool) \<Rightarrow> io \<Rightarrow> fs \<Rightarrow> string \<Rightarrow> bytes outcome \<Rightarrow> YAP_V2_MANIFEST outcome option" where
  "YAP_V2_manifest_load_for_config mem io fs path fingerprint =
     (case fingerprint of
        Inl status \<Rightarrow> Some (Inl status)
      | Inr fp \<Rightarrow>
          (case YAP_V2_manifest_load mem io fs path of
             Some (Inr manifest) \<Rightarrow>
               Some (if fp \<noteq> man_config_fingerprint manifest then Inl YAP_V2_CONFLICT else Inr manifest)
           | other \<Rightarrow> other))"

subsection \<open>Encoding and saving\<close>

definition add_size :: "nat \<Rightarrow> nat \<Rightarrow> nat outcome" where
  "add_size tot additional = (if additional > SIZE_MAX - tot then Inl YAP_V2_OUT_OF_RANGE else Inr (tot + additional))"

fun add_sizes :: "nat list \<Rightarrow> nat \<Rightarrow> nat outcome" where
  "add_sizes [] tot = Inr tot"
| "add_sizes (n # ns) tot = rbind (add_size tot n) (add_sizes ns)"

definition segment_sizes :: "YAP_V2_SEGMENT_DESCRIPTOR \<Rightarrow> nat list" where
  "segment_sizes segment =
     (YAP_V2_MANIFEST_SEGMENT_FIXED_BYTES + length (c_string (seg_id segment))) #
     map (\<lambda>c. YAP_V2_MANIFEST_COMPONENT_FIXED_BYTES + length (c_string (cmp_name c)))
       (seg_components segment)"

definition manifest_payload_size :: "YAP_V2_MANIFEST \<Rightarrow> nat outcome" where
  "manifest_payload_size manifest =
     rbind (add_sizes (concat (map segment_sizes (man_segments manifest)))
              YAP_V2_MANIFEST_PAYLOAD_HEADER_BYTES) (\<lambda>tot.
       if tot > YAP_V2_MAX_MANIFEST_BYTES - YAP_V2_FILE_HEADER_BYTES then Inl YAP_V2_OUT_OF_RANGE
       else Inr tot)"

definition encode_component :: "YAP_V2_COMPONENT_DESCRIPTOR \<Rightarrow> bytes" where
  "encode_component component =
     put_u32_le (word_of_nat (length (c_string (cmp_name component)))) @
     put_u32_le (cmp_file_type component) @ put_u64_le (cmp_record_count component) @
     put_u64_le (cmp_file_bytes component) @ take 32 (cmp_checksum component) @
     c_string (cmp_name component)"

definition encode_segment :: "YAP_V2_SEGMENT_DESCRIPTOR \<Rightarrow> bytes" where
  "encode_segment segment =
     put_u32_le (word_of_nat (length (c_string (seg_id segment)))) @
     put_u32_le (word_of_nat (length (seg_components segment))) @
     put_u64_le (seg_document_count segment) @ put_u64_le (seg_passage_count segment) @
     put_u64_le (seg_tombstone_count segment) @ c_string (seg_id segment) @
     concat (map encode_component (seg_components segment))"

definition encode_payload :: "YAP_V2_MANIFEST \<Rightarrow> bytes" where
  "encode_payload manifest =
     put_u32_le YAP_V2_MANIFEST_PAYLOAD_VERSION @
     put_u32_le (word_of_nat (length (man_segments manifest))) @
     take 32 (man_config_fingerprint manifest) @
     concat (map encode_segment (man_segments manifest))"

definition encode_manifest :: "YAP_V2_MANIFEST \<Rightarrow> nat \<Rightarrow> bytes outcome" where
  "encode_manifest manifest file_size =
     (let payload = encode_payload manifest in
      if length payload \<noteq> file_size - YAP_V2_FILE_HEADER_BYTES then Inl YAP_V2_CONFLICT
      else rbind (YAP_V2_file_header_encode
             \<lparr>hdr_format_version = YAP_V2_FORMAT_VERSION,
              hdr_header_bytes = word_of_nat YAP_V2_FILE_HEADER_BYTES,
              hdr_file_type = YAP_V2_FILE_MANIFEST, hdr_generation = man_generation manifest,
              hdr_payload_bytes = word_of_nat (length payload),
              hdr_payload_crc32c = crc32c payload\<rparr>) (\<lambda>header. Inr (header @ payload)))"

definition YAP_V2_manifest_save_atomic ::
  "(nat \<Rightarrow> bool) \<Rightarrow> io \<Rightarrow> nat \<Rightarrow> string \<Rightarrow> YAP_V2_MANIFEST \<Rightarrow> (YAP_V2_STATUS \<times> fs_op list) option" where
  "YAP_V2_manifest_save_atomic mem io short path manifest =
     (case YAP_V2_manifest_validate mem manifest of
        None \<Rightarrow> None
      | Some status \<Rightarrow>
          Some (if status \<noteq> YAP_V2_OK then (status, [])
            else case rbind (manifest_payload_size manifest) (\<lambda>payload_bytes.
                   (let file_size = YAP_V2_FILE_HEADER_BYTES + payload_bytes in
                    if \<not> mem file_size then Inl YAP_V2_ALLOCATION_FAILED
                    else encode_manifest manifest file_size)) of
              Inl status \<Rightarrow> (status, [])
            | Inr file_data \<Rightarrow> write_replace io short path file_data))"

text \<open>
  Publication returns the status, the manifest with its new generation, and the file operations.
  Failing to close the lock file turns success into an I/O error.
\<close>

definition lock_failure :: "io \<Rightarrow> string \<Rightarrow> YAP_V2_STATUS" where
  "lock_failure io path =
     (if length path > SIZE_MAX - 6 then YAP_V2_OUT_OF_RANGE
      else if \<not> io Io_malloc_lock then YAP_V2_ALLOCATION_FAILED
      else if \<not> io Io_open_lock \<or> \<not> io Io_flock then YAP_V2_IO_ERROR
      else YAP_V2_OK)"

definition unlock_status :: "io \<Rightarrow> YAP_V2_STATUS \<Rightarrow> YAP_V2_STATUS" where
  "unlock_status io status =
     (if \<not> io Io_close_lock \<and> status = YAP_V2_OK then YAP_V2_IO_ERROR else status)"

definition publish_save ::
  "(nat \<Rightarrow> bool) \<Rightarrow> io \<Rightarrow> nat \<Rightarrow> string \<Rightarrow> YAP_V2_MANIFEST \<Rightarrow>
     (YAP_V2_STATUS \<times> YAP_V2_MANIFEST \<times> fs_op list) option" where
  "publish_save mem io short path manifest =
     (case YAP_V2_manifest_save_atomic mem io short path manifest of
        None \<Rightarrow> None
      | Some (status, ops) \<Rightarrow> Some (unlock_status io status, manifest, ops))"

text \<open>
  \<open>rio\<close> answers for the calls of the nested load, which happen before those of the save.
\<close>

definition YAP_V2_manifest_publish_next ::
  "(nat \<Rightarrow> bool) \<Rightarrow> io \<Rightarrow> io \<Rightarrow> nat \<Rightarrow> fs \<Rightarrow> string \<Rightarrow> YAP_V2_MANIFEST \<Rightarrow>
     (YAP_V2_STATUS \<times> YAP_V2_MANIFEST \<times> fs_op list) option" where
  "YAP_V2_manifest_publish_next mem rio io short fs path manifest =
     (if lock_failure io path \<noteq> YAP_V2_OK then Some (lock_failure io path, manifest, [])
      else case YAP_V2_manifest_load mem rio fs path of
        None \<Rightarrow> None
      | Some (Inl status) \<Rightarrow>
          if status = YAP_V2_IO_ERROR \<and> fs path = None
          then publish_save mem io short path (manifest\<lparr>man_generation := 0 + 1\<rparr>)
          else Some (unlock_status io status, manifest, [])
      | Some (Inr current) \<Rightarrow>
          if man_generation current > 0 \<and>
             man_config_fingerprint current \<noteq> man_config_fingerprint manifest
            then Some (unlock_status io YAP_V2_CONFLICT, manifest, [])
          else if man_generation current = - 1
            then Some (unlock_status io YAP_V2_OUT_OF_RANGE, manifest, [])
          else publish_save mem io short path (manifest\<lparr>man_generation := man_generation current + 1\<rparr>))"

definition YAP_V2_manifest_publish_if_generation ::
  "(nat \<Rightarrow> bool) \<Rightarrow> io \<Rightarrow> io \<Rightarrow> nat \<Rightarrow> fs \<Rightarrow> string \<Rightarrow> u64 \<Rightarrow> YAP_V2_MANIFEST \<Rightarrow>
     (YAP_V2_STATUS \<times> YAP_V2_MANIFEST \<times> fs_op list) option" where
  "YAP_V2_manifest_publish_if_generation mem rio io short fs path expected_generation manifest =
     (if expected_generation = - 1 then Some (YAP_V2_INVALID_ARGUMENT, manifest, [])
      else if lock_failure io path \<noteq> YAP_V2_OK then Some (lock_failure io path, manifest, [])
      else case YAP_V2_manifest_load mem rio fs path of
        None \<Rightarrow> None
      | Some (Inl status) \<Rightarrow> Some (unlock_status io status, manifest, [])
      | Some (Inr current) \<Rightarrow>
          if man_generation current \<noteq> expected_generation \<or>
             man_config_fingerprint current \<noteq> man_config_fingerprint manifest
            then Some (unlock_status io YAP_V2_CONFLICT, manifest, [])
          else publish_save mem io short path (manifest\<lparr>man_generation := expected_generation + 1\<rparr>))"

subsection \<open>Verification of component files\<close>

definition component_path :: "bytes \<Rightarrow> YAP_V2_SEGMENT_DESCRIPTOR \<Rightarrow> YAP_V2_COMPONENT_DESCRIPTOR \<Rightarrow> bytes" where
  "component_path index_dir segment component =
     index_dir @ ascii ''/segments/'' @ c_string (seg_id segment) @ ascii ''/'' @
     c_string (cmp_name component)"

text \<open>
  \<open>reads p\<close> are the buffers \<open>fread\<close> delivers for the file at \<open>p\<close> (\<open>None\<close> when it does not open),
  \<open>read_ok\<close> and \<open>close_ok\<close> the absence of errors; \<open>head p\<close> is the 32-byte header read by the second
  \<open>fopen\<close> and \<open>fread\<close>, \<open>None\<close> when one of them or \<open>fclose\<close> fails.
\<close>

record file_access =
  fa_reads :: "bytes \<Rightarrow> bytes list option"
  fa_read_ok :: "bytes \<Rightarrow> bool"
  fa_close_ok :: "bytes \<Rightarrow> bool"
  fa_head :: "bytes \<Rightarrow> bytes option"

definition verify_component ::
  "(nat \<Rightarrow> bool) \<Rightarrow> file_access \<Rightarrow> bytes \<Rightarrow> u64 \<Rightarrow> YAP_V2_SEGMENT_DESCRIPTOR \<Rightarrow>
     YAP_V2_COMPONENT_DESCRIPTOR \<Rightarrow> YAP_V2_STATUS" where
  "verify_component mem fa index_dir manifest_generation segment component =
     (let path = component_path index_dir segment component in
      if \<not> mem (length index_dir + length (c_string (seg_id segment)) +
                length (c_string (cmp_name component)) + 12) then YAP_V2_ALLOCATION_FAILED
      else case YAP_V2_file_sha256 (fa_reads fa path) (fa_read_ok fa path) (fa_close_ok fa path) of
        Inl status \<Rightarrow> status
      | Inr (checksum, file_bytes) \<Rightarrow>
          if file_bytes \<noteq> cmp_file_bytes component \<or> checksum \<noteq> cmp_checksum component
            then YAP_V2_CHECKSUM_MISMATCH
          else if cmp_file_type component = YAP_V2_FILE_ANN then YAP_V2_OK
          else case fa_head fa path of
            None \<Rightarrow> YAP_V2_IO_ERROR
          | Some header_data \<Rightarrow>
              (case YAP_V2_file_header_decode header_data of
                 Inl status \<Rightarrow> status
               | Inr header \<Rightarrow>
                   if hdr_generation header = 0 \<or> hdr_generation header > manifest_generation \<or>
                      hdr_file_type header \<noteq> cmp_file_type component \<or>
                      hdr_payload_bytes header + word_of_nat YAP_V2_FILE_HEADER_BYTES \<noteq> file_bytes
                   then YAP_V2_INVALID_FORMAT else YAP_V2_OK))"

definition YAP_V2_manifest_verify_segment_components ::
  "(nat \<Rightarrow> bool) \<Rightarrow> file_access \<Rightarrow> bytes \<Rightarrow> u64 \<Rightarrow> YAP_V2_SEGMENT_DESCRIPTOR \<Rightarrow> YAP_V2_STATUS" where
  "YAP_V2_manifest_verify_segment_components mem fa index_dir manifest_generation segment =
     (if manifest_generation = 0 then YAP_V2_INVALID_ARGUMENT
      else first_error (map (verify_component mem fa index_dir manifest_generation segment)
             (seg_components segment)))"

definition YAP_V2_manifest_verify_components ::
  "(nat \<Rightarrow> bool) \<Rightarrow> file_access \<Rightarrow> bytes \<Rightarrow> YAP_V2_MANIFEST \<Rightarrow> YAP_V2_STATUS option" where
  "YAP_V2_manifest_verify_components mem fa index_dir manifest =
     (case YAP_V2_manifest_validate mem manifest of
        None \<Rightarrow> None
      | Some status \<Rightarrow>
          Some (if status \<noteq> YAP_V2_OK then status
            else first_error (map (YAP_V2_manifest_verify_segment_components mem fa index_dir
                   (man_generation manifest)) (man_segments manifest))))"

subsection \<open>Readers\<close>

lemma reader_take_at:
  "length x = n \<Longrightarrow> occurs_at d off x \<Longrightarrow> off + n \<le> len \<Longrightarrow> reader_take n d len off = Inr (x, off + n)"
  by (auto simp: reader_take_def dest: occurs_at_take)

interpretation manifest_u32: record_reader reader_u32 put_u32_le "\<lambda>_. True"
proof
  fix x d off n
  assume "occurs_at d off (put_u32_le x)" "off + length (put_u32_le x) \<le> n"
  then show "reader_u32 d n off = Inr (x, off + length (put_u32_le x))"
    using get_put_u32_le[of x "[]"] by (simp add: reader_u32_def reader_take_at[where x = "put_u32_le x"])
qed

interpretation manifest_u64: record_reader reader_u64 put_u64_le "\<lambda>_. True"
proof
  fix x d off n
  assume "occurs_at d off (put_u64_le x)" "off + length (put_u64_le x) \<le> n"
  then show "reader_u64 d n off = Inr (x, off + length (put_u64_le x))"
    using get_put_u64_le[of x "[]"] by (simp add: reader_u64_def reader_take_at[where x = "put_u64_le x"])
qed

text \<open>The bytes a C array field holds: a text without NUL, a 32-byte checksum.\<close>

definition component_repr :: "YAP_V2_COMPONENT_DESCRIPTOR \<Rightarrow> bool" where
  "component_repr c \<longleftrightarrow> 0 \<notin> set (cmp_name c) \<and> length (cmp_checksum c) = 32"

definition segment_repr :: "YAP_V2_SEGMENT_DESCRIPTOR \<Rightarrow> bool" where
  "segment_repr s \<longleftrightarrow> 0 \<notin> set (seg_id s) \<and> (\<forall>c\<in>set (seg_components s). component_repr c)"

definition manifest_repr :: "YAP_V2_MANIFEST \<Rightarrow> bool" where
  "manifest_repr m \<longleftrightarrow> length (man_config_fingerprint m) = 32 \<and> (\<forall>s\<in>set (man_segments m). segment_repr s)"

definition component_wf :: "YAP_V2_COMPONENT_DESCRIPTOR \<Rightarrow> bool" where
  "component_wf c \<longleftrightarrow> component_repr c \<and> cmp_name c \<noteq> [] \<and> length (cmp_name c) \<le> 63"

interpretation manifest_component: record_reader parse_component encode_component component_wf
proof
  fix x d off n
  assume wf: "component_wf x" and at: "occurs_at d off (encode_component x)"
    and fit: "off + length (encode_component x) \<le> n"
  have nul: "c_string (cmp_name x) = cmp_name x" "0 \<notin> set (cmp_name x)" "length (cmp_checksum x) = 32"
    "length (cmp_name x) \<le> UINT32_MAX" "length (cmp_name x) \<le> 63" "cmp_name x \<noteq> []"
    using wf by (auto simp: component_wf_def component_repr_def c_string_id)
  have nz: "(word_of_nat (length (cmp_name x)) :: u32) \<noteq> 0"
    using nul(4,6) unat_of_len[of "length (cmp_name x)"] by (metis length_0_conv unat_0)
  show "parse_component d n off = Inr (x, off + length (encode_component x))"
    using at fit nul nz
    by (simp add: parse_component_def encode_component_def at_simps storage_limits
        manifest_u32.rd_enc[where x = "word_of_nat (length (cmp_name x))"]
        manifest_u32.rd_enc[where x = "cmp_file_type x"]
        manifest_u64.rd_enc[where x = "cmp_record_count x"]
        manifest_u64.rd_enc[where x = "cmp_file_bytes x"]
        reader_take_at[where x = "cmp_checksum x"] reader_take_at[where x = "cmp_name x"] add.assoc)
qed

lemma add_component_ok:
  "YAP_V2_segment_descriptor_add_component segment c = (YAP_V2_OK, s') \<Longrightarrow>
     s' = segment\<lparr>seg_components := seg_components segment @ [c]\<rparr> \<and>
     c_string (cmp_name c) \<noteq> [] \<and> length (c_string (cmp_name c)) \<le> 63"
  by (auto simp: YAP_V2_segment_descriptor_add_component_def Let_def min_def split: if_splits)

lemma validate_components_step:
  assumes "validate_components s = YAP_V2_OK" and "j < length (seg_components s)"
  shows "YAP_V2_segment_descriptor_add_component
      (s\<lparr>seg_components := take j (seg_components s)\<rparr>) (seg_components s ! j) =
    (YAP_V2_OK, s\<lparr>seg_components := take (Suc j) (seg_components s)\<rparr>)"
proof -
  have "fst (YAP_V2_segment_descriptor_add_component
      (s\<lparr>seg_components := take j (seg_components s)\<rparr>) (seg_components s ! j)) = YAP_V2_OK"
    using assms unfolding validate_components_def first_error_ok by auto
  then obtain s' where "YAP_V2_segment_descriptor_add_component
      (s\<lparr>seg_components := take j (seg_components s)\<rparr>) (seg_components s ! j) = (YAP_V2_OK, s')"
    by (metis prod.collapse)
  with add_component_ok[OF this] assms(2) show ?thesis
    by (simp add: take_Suc_conv_app_nth)
qed

definition segment_wf :: "YAP_V2_SEGMENT_DESCRIPTOR \<Rightarrow> bool" where
  "segment_wf s \<longleftrightarrow> segment_repr s \<and> segment_ok s"

lemma segment_wf_components:
  assumes "segment_wf s" and "c \<in> set (seg_components s)"
  shows "component_wf c"
proof -
  obtain j where j: "j < length (seg_components s)" "c = seg_components s ! j"
    using assms(2) by (auto simp: in_set_conv_nth)
  have "validate_components s = YAP_V2_OK" "component_repr c"
    using assms by (auto simp: segment_wf_def segment_ok_def segment_repr_def)
  then show ?thesis
    using add_component_ok[OF validate_components_step[OF _ j(1)]] j(2)
    by (auto simp: component_wf_def component_repr_def c_string_id)
qed

lemma parse_components_at:
  assumes wf: "segment_wf s"
  shows "j + k = length (seg_components s) \<Longrightarrow>
    occurs_at d off (concat (map encode_component (drop j (seg_components s)))) \<Longrightarrow>
    off + length (concat (map encode_component (drop j (seg_components s)))) \<le> n \<Longrightarrow>
    parse_components d n k off (s\<lparr>seg_components := take j (seg_components s)\<rparr>) =
      Inr (s, off + length (concat (map encode_component (drop j (seg_components s)))))"
proof (induction k arbitrary: j off)
  case 0
  then show ?case by simp
next
  case (Suc k)
  let ?cs = "seg_components s"
  have j: "j < length ?cs" using Suc.prems(1) by simp
  then have d: "drop j ?cs = ?cs ! j # drop (Suc j) ?cs" by (rule Cons_nth_drop_Suc[symmetric])
  have "component_wf (?cs ! j)" using segment_wf_components[OF wf] j by simp
  then have "parse_component d n off = Inr (?cs ! j, off + length (encode_component (?cs ! j)))"
    using Suc.prems(2,3) by (intro manifest_component.rd_enc) (auto simp: d at_simps)
  moreover have "parse_components d n k (off + length (encode_component (?cs ! j)))
      (s\<lparr>seg_components := take (Suc j) ?cs\<rparr>) =
      Inr (s, off + length (encode_component (?cs ! j)) +
        length (concat (map encode_component (drop (Suc j) ?cs))))"
    using Suc.prems by (intro Suc.IH) (auto simp: d at_simps)
  moreover have "validate_components s = YAP_V2_OK"
    using wf by (simp add: segment_wf_def segment_ok_def)
  ultimately show ?case
    using validate_components_step[of s j] j by (simp add: d)
qed

interpretation manifest_segment: record_reader parse_segment encode_segment segment_wf
proof
  fix s d off n
  assume wf: "segment_wf s" and at: "occurs_at d off (encode_segment s)"
    and fit: "off + length (encode_segment s) \<le> n"
  let ?id = "seg_id s" and ?cs = "seg_components s"
  have id': "c_string ?id = ?id" "0 \<notin> set ?id" "?id \<noteq> []" "length ?id \<le> 255" "length ?id \<le> UINT32_MAX"
    using wf by (auto simp: segment_wf_def segment_repr_def segment_ok_def c_string_id segment_id_validate_ok)
  have cs: "0 < length ?cs" "length ?cs \<le> 8" "length ?cs \<le> UINT32_MAX"
    using wf by (auto simp: segment_wf_def segment_ok_def storage_limits)
  have nz: "(word_of_nat (length ?id) :: u32) \<noteq> 0" "(word_of_nat (length ?cs) :: u32) \<noteq> 0"
    using id'(3,5) cs(1,3) unat_of_len[of "length ?id"] unat_of_len[of "length ?cs"]
    by (metis length_0_conv unat_0, metis less_numeral_extra(3) unat_0)
  have comps: "parse_components d n (length ?cs) (off + (32 + length ?id))
      (s\<lparr>seg_components := []\<rparr>) = Inr (s, off + (32 + length ?id) + length (concat (map encode_component ?cs)))"
    using parse_components_at[OF wf, of 0 "length ?cs" d "off + (32 + length ?id)" n] at fit id'(1)
    by (simp add: encode_segment_def at_simps add.assoc add.left_commute add.commute)
  have rec: "s\<lparr>seg_components := []\<rparr> = \<lparr>seg_id = ?id, seg_document_count = seg_document_count s,
      seg_passage_count = seg_passage_count s, seg_tombstone_count = seg_tombstone_count s, seg_components = []\<rparr>"
    by (cases s) simp
  show "parse_segment d n off = Inr (s, off + length (encode_segment s))"
    using at fit id' cs nz comps[unfolded rec]
    by (simp add: parse_segment_def encode_segment_def at_simps storage_limits
        manifest_u32.rd_enc[where x = "word_of_nat (length ?id)"]
        manifest_u32.rd_enc[where x = "word_of_nat (length ?cs)"]
        manifest_u64.rd_enc[where x = "seg_document_count s"]
        manifest_u64.rd_enc[where x = "seg_passage_count s"]
        manifest_u64.rd_enc[where x = "seg_tombstone_count s"]
        reader_take_at[where x = ?id] add.assoc)
qed

subsection \<open>Loading what was encoded\<close>

lemma add_segment_frame:
  assumes "YAP_V2_manifest_add_segment mem m seg = Some (s, m')"
  shows "man_format_version m' = man_format_version m" "man_generation m' = man_generation m"
    "man_config_fingerprint m' = man_config_fingerprint m"
  using assms
  by (auto simp: YAP_V2_manifest_add_segment_def manifest_slots_rebuild_def manifest_insert_def Let_def
      split: if_splits option.splits)

lemma add_segment_granted:
  assumes "manifest_inv m" and "\<And>n. mem n" and "YAP_V2_segment_id_validate (Some (seg_id seg)) = YAP_V2_OK"
    and "length (man_segments m) < YAP_V2_MAX_SEGMENTS"
    and "c_string (seg_id seg) \<notin> set (segment_keys (man_segments m))"
  shows "\<exists>m'. YAP_V2_manifest_add_segment mem m seg = Some (YAP_V2_OK, m') \<and> manifest_inv m' \<and>
      man_segments m' = man_segments m @ [seg]"
  using manifest_add_segment_cases[OF assms(1), of mem seg] assms(2-5) by auto

lemma load_segments_at:
  assumes mem: "\<And>n. mem n"
  shows "manifest_inv m \<Longrightarrow> \<forall>s\<in>set segs. segment_wf s \<Longrightarrow>
    distinct (segment_keys (man_segments m @ segs)) \<Longrightarrow>
    length (man_segments m @ segs) \<le> YAP_V2_MAX_SEGMENTS \<Longrightarrow>
    occurs_at d off (concat (map encode_segment segs)) \<Longrightarrow>
    off + length (concat (map encode_segment segs)) \<le> n \<Longrightarrow>
    \<exists>m'. load_segments mem d n (length segs) off m =
        Some (Inr (m', off + length (concat (map encode_segment segs)))) \<and>
      man_segments m' = man_segments m @ segs \<and> man_format_version m' = man_format_version m \<and>
      man_generation m' = man_generation m \<and> man_config_fingerprint m' = man_config_fingerprint m \<and>
      manifest_inv m'"
proof (induction segs arbitrary: m off)
  case Nil
  then show ?case by simp
next
  case (Cons s segs)
  have ps: "parse_segment d n off = Inr (s, off + length (encode_segment s))"
    using Cons.prems by (intro manifest_segment.rd_enc) (auto simp: at_simps)
  obtain m1 where m1: "YAP_V2_manifest_add_segment mem m s = Some (YAP_V2_OK, m1)" "manifest_inv m1"
    "man_segments m1 = man_segments m @ [s]"
    using add_segment_granted[where mem = mem and m = m and seg = s] mem Cons.prems
    by (auto simp: segment_wf_def segment_ok_def segment_keys_def)
  note frame = add_segment_frame[OF m1(1)]
  have "\<exists>m'. load_segments mem d n (length segs) (off + length (encode_segment s)) m1 =
        Some (Inr (m', off + length (encode_segment s) + length (concat (map encode_segment segs)))) \<and>
      man_segments m' = man_segments m1 @ segs \<and> man_format_version m' = man_format_version m1 \<and>
      man_generation m' = man_generation m1 \<and> man_config_fingerprint m' = man_config_fingerprint m1 \<and>
      manifest_inv m'"
    using Cons.prems m1 by (intro Cons.IH) (auto simp: at_simps)
  then show ?case
    using ps m1 frame by auto
qed

lemma validate_mem_irrelevant:
  "YAP_V2_manifest_validate mem m = Some YAP_V2_OK \<Longrightarrow> YAP_V2_manifest_validate (\<lambda>_. True) m = Some YAP_V2_OK"
  by (auto simp: YAP_V2_manifest_validate_def Let_def split: if_splits)

lemma validate_ok_facts:
  assumes "YAP_V2_manifest_validate mem m = Some YAP_V2_OK"
  shows "man_format_version m = 2" "man_generation m \<noteq> 0" "length (man_segments m) \<le> 100000"
    "\<exists>b \<in> set (man_config_fingerprint m). b \<noteq> 0" "\<forall>seg \<in> set (man_segments m). segment_ok seg"
    "distinct (segment_keys (man_segments m))"
  using manifest_validate_cases[of "\<lambda>_. True" m] validate_mem_irrelevant[OF assms] by auto

lemma add_sizes_Inr: "add_sizes ns tot = Inr r \<Longrightarrow> r = tot + sum_list ns"
proof (induction ns arbitrary: tot)
  case (Cons n ns)
  then have "add_sizes ns (tot + n) = Inr r"
    by (auto simp: add_size_def split: if_splits)
  from Cons.IH[OF this] show ?case by simp
qed simp

lemma add_sizes_Inl: "add_sizes ns tot \<noteq> Inl YAP_V2_OK"
  by (induction ns arbitrary: tot) (auto simp: rbind_Inl_iff add_size_def split: if_splits)

lemma encode_errors: "manifest_payload_size m \<noteq> Inl YAP_V2_OK" "encode_manifest m n \<noteq> Inl YAP_V2_OK"
  by (auto simp: manifest_payload_size_def encode_manifest_def rbind_Inl_iff add_sizes_Inl Let_def
      YAP_V2_file_header_encode_def split: if_splits)

lemma encode_segment_length:
  "segment_repr s \<Longrightarrow> length (encode_segment s) = sum_list (segment_sizes s)"
  by (auto simp: encode_segment_def segment_sizes_def encode_component_def manifest_constants
      length_concat comp_def segment_repr_def component_repr_def intro!: arg_cong[where f = sum_list])

lemma encode_segments_length:
  "\<forall>s\<in>set segs. segment_repr s \<Longrightarrow>
     length (concat (map encode_segment segs)) = sum_list (concat (map segment_sizes segs))"
  by (induction segs) (auto simp: encode_segment_length)

lemma encode_payload_length:
  assumes "manifest_repr m" and "manifest_payload_size m = Inr size'"
  shows "length (encode_payload m) = size'" "size' \<le> YAP_V2_MAX_MANIFEST_BYTES - YAP_V2_FILE_HEADER_BYTES"
proof -
  from assms(2) obtain tot where tot: "add_sizes (concat (map segment_sizes (man_segments m)))
      YAP_V2_MANIFEST_PAYLOAD_HEADER_BYTES = Inr tot" "size' = tot"
    "tot \<le> YAP_V2_MAX_MANIFEST_BYTES - YAP_V2_FILE_HEADER_BYTES"
    by (auto simp: manifest_payload_size_def rbind_Inr_iff split: if_splits)
  have "length (concat (map encode_segment (man_segments m))) =
      sum_list (concat (map segment_sizes (man_segments m)))"
    using assms(1) by (intro encode_segments_length) (simp add: manifest_repr_def)
  then show "length (encode_payload m) = size'"
    using add_sizes_Inr[OF tot(1)] tot(2) assms(1)
    by (simp add: encode_payload_def manifest_constants manifest_repr_def)
  show "size' \<le> YAP_V2_MAX_MANIFEST_BYTES - YAP_V2_FILE_HEADER_BYTES"
    using tot by simp
qed

text \<open>What a manifest file holds, and that loading it gives the manifest back.\<close>

definition manifest_file :: "YAP_V2_MANIFEST \<Rightarrow> bytes \<Rightarrow> bool" where
  "manifest_file m content \<longleftrightarrow> (\<exists>header. content = header @ encode_payload m \<and>
     length header = YAP_V2_FILE_HEADER_BYTES \<and>
     length (encode_payload m) \<le> YAP_V2_MAX_MANIFEST_BYTES - YAP_V2_FILE_HEADER_BYTES \<and>
     (\<forall>rest. YAP_V2_file_header_decode (header @ rest) = Inr
        \<lparr>hdr_format_version = YAP_V2_FORMAT_VERSION,
         hdr_header_bytes = word_of_nat YAP_V2_FILE_HEADER_BYTES,
         hdr_file_type = YAP_V2_FILE_MANIFEST, hdr_generation = man_generation m,
         hdr_payload_bytes = word_of_nat (length (encode_payload m)),
         hdr_payload_crc32c = crc32c (encode_payload m)\<rparr>))"

lemma encode_manifest_file:
  assumes "manifest_repr m" and "manifest_payload_size m = Inr size'"
    and "encode_manifest m (YAP_V2_FILE_HEADER_BYTES + size') = Inr content"
  shows "manifest_file m content"
  using assms(3) encode_payload_length[OF assms(1,2)] header_decode_encode encode_length
  unfolding manifest_file_def encode_manifest_def Let_def
  by (auto simp: rbind_Inr_iff split: if_splits)

lemma save_atomic_ok:
  assumes "YAP_V2_manifest_save_atomic mem io short path m = Some (YAP_V2_OK, ops)" and "manifest_repr m"
  shows "YAP_V2_manifest_validate mem m = Some YAP_V2_OK \<and>
    (\<exists>content. manifest_file m content \<and> (\<forall>fs. run_ops ops fs path = Some content))"
proof -
  from assms(1) obtain size' content where
    v: "YAP_V2_manifest_validate mem m = Some YAP_V2_OK"
    and p: "manifest_payload_size m = Inr size'"
    and e: "encode_manifest m (YAP_V2_FILE_HEADER_BYTES + size') = Inr content"
    and w: "write_replace io short path content = (YAP_V2_OK, ops)"
    by (auto simp: YAP_V2_manifest_save_atomic_def rbind_Inr_iff rbind_Inl_iff encode_errors Let_def
        split: if_splits option.splits sum.splits)
  show ?thesis
    using v encode_manifest_file[OF assms(2) p e] replace_writer.ok_new[OF w] by blast
qed

lemma manifest_head_file:
  assumes "manifest_file m content" and "manifest_repr m" and "length (man_segments m) \<le> 100000"
  shows "manifest_head content = Inr (man_generation m, length (man_segments m), man_config_fingerprint m, 40)"
    and "drop YAP_V2_FILE_HEADER_BYTES content = encode_payload m"
    and "length content = 32 + length (encode_payload m)" "40 \<le> length (encode_payload m)"
    and "length content \<le> YAP_V2_MAX_MANIFEST_BYTES"
proof -
  obtain header where h: "content = header @ encode_payload m" "length header = 32"
    "YAP_V2_file_header_decode content = Inr
        \<lparr>hdr_format_version = YAP_V2_FORMAT_VERSION,
         hdr_header_bytes = word_of_nat YAP_V2_FILE_HEADER_BYTES,
         hdr_file_type = YAP_V2_FILE_MANIFEST, hdr_generation = man_generation m,
         hdr_payload_bytes = word_of_nat (length (encode_payload m)),
         hdr_payload_crc32c = crc32c (encode_payload m)\<rparr>"
    and max: "length (encode_payload m) \<le> YAP_V2_MAX_MANIFEST_BYTES - YAP_V2_FILE_HEADER_BYTES"
    using assms(1) by (auto simp: manifest_file_def storage_limits)
  let ?p = "encode_payload m"
  have fp: "length (man_config_fingerprint m) = 32"
    using assms(2) by (simp add: manifest_repr_def)
  have at: "occurs_at ?p 0 (put_u32_le YAP_V2_MANIFEST_PAYLOAD_VERSION)"
    "occurs_at ?p 4 (put_u32_le (word_of_nat (length (man_segments m))))"
    "occurs_at ?p 8 (man_config_fingerprint m)"
    using occurs_at_whole[of ?p] fp unfolding encode_payload_def by (simp_all add: at_simps)
  show len40: "40 \<le> length ?p"
    using fp by (simp add: encode_payload_def)
  show "drop YAP_V2_FILE_HEADER_BYTES content = ?p" "length content = 32 + length ?p"
    using h by (simp_all add: storage_limits)
  show "length content \<le> YAP_V2_MAX_MANIFEST_BYTES"
    using h max by (simp add: storage_limits)
  have n: "unat (word_of_nat (length ?p) :: u64) = length ?p"
    using max by (simp add: storage_limits unat_of_nat)
  show "manifest_head content = Inr (man_generation m, length (man_segments m), man_config_fingerprint m, 40)"
    using manifest_u32.rd_enc[OF _ at(1), of "length ?p"] manifest_u32.rd_enc[OF _ at(2), of "length ?p"]
      reader_take_at[OF fp at(3), of "length ?p"] h(1,2) n len40 assms(3)
    unfolding manifest_head_def h(3) by (simp add: storage_limits)
qed

lemma manifest_load_file:
  assumes "manifest_file m content" and "manifest_repr m"
    and "YAP_V2_manifest_validate mem' m = Some YAP_V2_OK"
    and mem: "\<And>n. mem n" and io: "\<And>c. io c" and "fs path = Some content"
  shows "\<exists>m'. YAP_V2_manifest_load mem io fs path = Some (Inr m') \<and>
    man_generation m' = man_generation m \<and> man_config_fingerprint m' = man_config_fingerprint m \<and>
    man_segments m' = man_segments m \<and> manifest_inv m'"
proof -
  note v = validate_ok_facts[OF assms(3)]
  note head = manifest_head_file[OF assms(1,2) v(3)]
  let ?p = "encode_payload m"
  let ?m0 = "YAP_V2_manifest_init\<lparr>man_generation := man_generation m,
      man_config_fingerprint := man_config_fingerprint m\<rparr>"
  have segs: "\<forall>s\<in>set (man_segments m). segment_wf s"
    using assms(2) v(5) by (auto simp: manifest_repr_def segment_wf_def)
  have tail: "occurs_at ?p 40 (concat (map encode_segment (man_segments m)))"
    "length ?p = 40 + length (concat (map encode_segment (man_segments m)))"
    using occurs_at_whole[of ?p] assms(2) unfolding encode_payload_def manifest_repr_def
    by (simp_all add: at_simps)
  have init: "manifest_inv ?m0" "man_segments ?m0 = []" "man_format_version ?m0 = 2"
    using manifest_inv_init by (simp_all add: manifest_inv_def YAP_V2_manifest_init_def type_limits)
  obtain m' where m': "load_segments mem ?p (length ?p) (length (man_segments m)) 40 ?m0 =
      Some (Inr (m', length ?p))" "man_segments m' = man_segments m" "man_format_version m' = 2"
    "man_generation m' = man_generation m" "man_config_fingerprint m' = man_config_fingerprint m"
    "manifest_inv m'"
    using load_segments_at[where mem = mem and m = ?m0 and segs = "man_segments m" and d = ?p
        and off = 40 and n = "length ?p"] mem init segs tail v(3,6)
    by (auto simp: storage_limits)
  have "YAP_V2_manifest_validate mem m' = Some YAP_V2_OK"
    using manifest_validate_cases[of mem m'] mem m' v by auto
  moreover have "read_manifest_file mem io fs path = Inr content"
    using mem io assms(6) head(3-5) by (simp add: read_manifest_file_def manifest_constants storage_limits)
  ultimately show ?thesis
    using m' head(1,2) unfolding YAP_V2_manifest_load_def by (simp add: Let_def del: length_drop)
qed

subsection \<open>Loading always returns\<close>

lemma parse_errors:
  "reader_take k d n off \<noteq> Inl YAP_V2_OK" "reader_u32 d n off \<noteq> Inl YAP_V2_OK"
  "reader_u64 d n off \<noteq> Inl YAP_V2_OK"
  by (auto simp: reader_take_def reader_u32_def reader_u64_def rbind_Inl_iff split: if_splits)

lemma parse_component_error: "parse_component d n off \<noteq> Inl YAP_V2_OK"
  by (auto simp: parse_component_def rbind_Inl_iff parse_errors split: if_splits)

lemma parse_components_error: "parse_components d n k off s \<noteq> Inl YAP_V2_OK"
  by (induction k arbitrary: off s)
     (auto simp: rbind_Inl_iff parse_component_error split: prod.splits if_splits)

lemma parse_segment_error: "parse_segment d n off \<noteq> Inl YAP_V2_OK"
  by (auto simp: parse_segment_def rbind_Inl_iff parse_errors parse_components_error split: if_splits)

lemma manifest_head_error: "manifest_head d \<noteq> Inl YAP_V2_OK"
  by (auto simp: manifest_head_def rbind_Inl_iff parse_errors Let_def YAP_V2_file_header_decode_def
      split: if_splits)

lemma load_segments_total:
  "manifest_inv m \<Longrightarrow> \<exists>r. load_segments mem d n k off m = Some r \<and> r \<noteq> Inl YAP_V2_OK \<and>
     (\<forall>m' off'. r = Inr (m', off') \<longrightarrow> manifest_inv m' \<and> man_generation m' = man_generation m)"
proof (induction k arbitrary: m off)
  case 0
  then show ?case by simp
next
  case (Suc k)
  show ?case
  proof (cases "parse_segment d n off")
    case (Inl s)
    then show ?thesis using parse_segment_error[of d n off] by auto
  next
    case (Inr p)
    obtain seg off1 where p: "p = (seg, off1)" by (cases p)
    obtain s m1 where m1: "YAP_V2_manifest_add_segment mem m seg = Some (s, m1)" "manifest_inv m1"
      using manifest_add_segment_cases[OF Suc.prems, of mem seg] by blast
    show ?thesis
      using Suc.IH[OF m1(2), of off1] m1(1) Inr p add_segment_frame(2)[OF m1(1)] by auto
  qed
qed

lemma manifest_validate_total: "\<exists>s. YAP_V2_manifest_validate mem m = Some s"
proof -
  have "YAP_V2_manifest_validate mem m = Some YAP_V2_ALLOCATION_FAILED \<or>
      YAP_V2_manifest_validate mem m = YAP_V2_manifest_validate (\<lambda>_. True) m"
    by (simp add: YAP_V2_manifest_validate_def Let_def)
  then show ?thesis
    using manifest_validate_cases[of "\<lambda>_. True" m] by auto
qed

lemma manifest_load_result:
  "\<exists>r. YAP_V2_manifest_load mem io fs path = Some r \<and> r \<noteq> Inl YAP_V2_OK \<and>
     (\<forall>m. r = Inr m \<longrightarrow> manifest_inv m \<and> YAP_V2_manifest_validate mem m = Some YAP_V2_OK \<and>
        (\<exists>content k fp off. fs path = Some content \<and> manifest_head content = Inr (man_generation m, k, fp, off)))"
proof (cases "rbind (read_manifest_file mem io fs path)
    (\<lambda>data. rbind (manifest_head data) (\<lambda>head. Inr (data, head)))")
  case (Inl s)
  then have "s \<noteq> YAP_V2_OK"
    by (auto simp: rbind_Inl_iff manifest_head_error read_manifest_file_def split: option.splits if_splits)
  with Inl show ?thesis by (simp add: YAP_V2_manifest_load_def)
next
  case (Inr p)
  obtain data g k fp off where p: "p = (data, g, k, fp, off)" by (cases p)
  have data: "fs path = Some data" "manifest_head data = Inr (g, k, fp, off)"
    using Inr unfolding p
    by (auto simp: rbind_Inr_iff read_manifest_file_def split: option.splits if_splits)
  let ?p = "drop YAP_V2_FILE_HEADER_BYTES data"
  let ?m0 = "YAP_V2_manifest_init\<lparr>man_generation := g, man_config_fingerprint := fp\<rparr>"
  have "manifest_inv ?m0"
    using manifest_inv_init by (simp add: manifest_inv_def YAP_V2_manifest_init_def)
  from load_segments_total[OF this, of mem ?p "length ?p" k off]
  obtain r where r: "load_segments mem ?p (length ?p) k off ?m0 = Some r" "r \<noteq> Inl YAP_V2_OK"
    "\<And>m' off'. r = Inr (m', off') \<Longrightarrow> manifest_inv m' \<and> man_generation m' = g"
    by auto
  show ?thesis
  proof (cases r)
    case (Inl s)
    with r Inr p show ?thesis by (simp add: YAP_V2_manifest_load_def Let_def)
  next
    case ok: (Inr q)
    obtain m' off' where q: "q = (m', off')" by (cases q)
    obtain s where "YAP_V2_manifest_validate mem m' = Some s"
      using manifest_validate_total by blast
    with r(3)[of m' off'] r(1) ok q Inr p data show ?thesis
      by (auto simp: YAP_V2_manifest_load_def Let_def simp del: length_drop)
  qed
qed

text \<open>
  Loading a manifest returns on every file content, whatever the allocator and the library
  answer: no crafted manifest makes the hash-table probes of the parser run forever. When it
  succeeds, the manifest it returns passes validation and its segment table represents exactly its
  segments.
\<close>

theorem manifest_load_returns:
  "\<exists>r. YAP_V2_manifest_load mem io fs path = Some r \<and>
     (case r of Inl s \<Rightarrow> s \<noteq> YAP_V2_OK
      | Inr m \<Rightarrow> manifest_inv m \<and> YAP_V2_manifest_validate mem m = Some YAP_V2_OK)"
  using manifest_load_result[of mem io fs path] by (auto split: sum.splits)

text \<open>
  C6. A manifest reported as saved is loaded back with the same generation, configuration
  fingerprint and segments (identifiers, counts, components, checksums), when the loader's
  allocations and library calls succeed.
\<close>

theorem manifest_save_load:
  assumes "YAP_V2_manifest_save_atomic mem io short path m = Some (YAP_V2_OK, ops)"
    and "manifest_repr m" and "\<And>n. rmem n" and "\<And>c. rio c"
  shows "\<exists>m'. YAP_V2_manifest_load rmem rio (run_ops ops fs) path = Some (Inr m') \<and>
    man_generation m' = man_generation m \<and> man_config_fingerprint m' = man_config_fingerprint m \<and>
    man_segments m' = man_segments m"
  using save_atomic_ok[OF assms(1,2)] manifest_load_file[OF _ assms(2), of _ mem rmem rio] assms(3,4)
  by metis

subsection \<open>Publication\<close>

lemma unlock_status_ok: "unlock_status io s = YAP_V2_OK \<longleftrightarrow> s = YAP_V2_OK \<and> io Io_close_lock"
  by (auto simp: unlock_status_def)

lemma publish_save_ok:
  "publish_save mem io short path m = Some (YAP_V2_OK, m', ops) \<Longrightarrow>
     m' = m \<and> YAP_V2_manifest_save_atomic mem io short path m = Some (YAP_V2_OK, ops)"
  by (auto simp: publish_save_def unlock_status_ok split: option.splits)

lemma publish_if_generation_inv:
  assumes "YAP_V2_manifest_publish_if_generation mem rio io short fs path eg m = Some (YAP_V2_OK, m', ops)"
  obtains current where "YAP_V2_manifest_load mem rio fs path = Some (Inr current)"
    "man_generation current = eg" "man_config_fingerprint current = man_config_fingerprint m"
    "m' = m\<lparr>man_generation := eg + 1\<rparr>" "eg \<noteq> - 1"
    "YAP_V2_manifest_save_atomic mem io short path m' = Some (YAP_V2_OK, ops)"
proof -
  have load: "YAP_V2_manifest_load mem rio fs path \<noteq> Some (Inl YAP_V2_OK)"
    using manifest_load_result[of mem rio fs path] by auto
  show thesis
    using assms load that publish_save_ok
    by (auto simp: YAP_V2_manifest_publish_if_generation_def unlock_status_ok
        split: if_splits option.splits sum.splits)
qed

lemma saved_generation:
  assumes "YAP_V2_manifest_save_atomic mem io short path m = Some (YAP_V2_OK, ops)" and "manifest_repr m"
    and "YAP_V2_manifest_load rmem rio (run_ops ops fs) path = Some (Inr m')"
  shows "man_generation m' = man_generation m"
proof -
  obtain content where c: "manifest_file m content" "run_ops ops fs path = Some content"
    and v: "YAP_V2_manifest_validate mem m = Some YAP_V2_OK"
    using save_atomic_ok[OF assms(1,2)] by blast
  have "manifest_head content = Inr (man_generation m, length (man_segments m), man_config_fingerprint m, 40)"
    using manifest_head_file(1)[OF c(1) assms(2)] validate_ok_facts(3)[OF v] .
  moreover obtain k fp off where "manifest_head content = Inr (man_generation m', k, fp, off)"
    using manifest_load_result[of rmem rio "run_ops ops fs" path] assms(3) c(2) by auto
  ultimately show ?thesis by simp
qed

text \<open>
  Optimistic publication. \<open>YAP_V2_manifest_publish_if_generation\<close> succeeds only over a manifest
  on disk that has the expected generation and the same configuration fingerprint; it then leaves
  on disk a manifest with the next generation (which does not wrap) and exactly the segments that
  were published, as every later successful load reports.
\<close>

theorem publish_if_generation_correct:
  assumes "YAP_V2_manifest_publish_if_generation mem rio io short fs path eg m = Some (YAP_V2_OK, m', ops)"
    and "manifest_repr m" and "\<And>n. lmem n" and "\<And>c. lio c"
  shows "unat (man_generation m') = unat eg + 1 \<and>
    (\<exists>current. YAP_V2_manifest_load mem rio fs path = Some (Inr current) \<and>
       man_generation current = eg \<and> man_config_fingerprint current = man_config_fingerprint m) \<and>
    (\<exists>loaded. YAP_V2_manifest_load lmem lio (run_ops ops fs) path = Some (Inr loaded) \<and>
       man_generation loaded = eg + 1 \<and> man_segments loaded = man_segments m \<and>
       man_config_fingerprint loaded = man_config_fingerprint m)"
proof -
  obtain current where c: "YAP_V2_manifest_load mem rio fs path = Some (Inr current)"
    "man_generation current = eg" "man_config_fingerprint current = man_config_fingerprint m"
    "m' = m\<lparr>man_generation := eg + 1\<rparr>" "eg \<noteq> - 1"
    "YAP_V2_manifest_save_atomic mem io short path m' = Some (YAP_V2_OK, ops)"
    by (rule publish_if_generation_inv[OF assms(1)]) blast
  have repr: "manifest_repr m'" using assms(2) c(4) by (simp add: manifest_repr_def)
  have "unat (eg + 1) = unat eg + 1"
    using c(5) by (metis Suc_eq_plus1 add.commute add_eq_0_iff unatSuc)
  moreover have "\<exists>loaded. YAP_V2_manifest_load lmem lio (run_ops ops fs) path = Some (Inr loaded) \<and>
       man_generation loaded = man_generation m' \<and> man_config_fingerprint loaded = man_config_fingerprint m' \<and>
       man_segments loaded = man_segments m'"
    using save_atomic_ok[OF c(6) repr] manifest_load_file[OF _ repr, of _ mem lmem lio] assms(3,4)
    by metis
  ultimately show ?thesis
    using c by auto
qed

text \<open>
  C7. No lost update: after one publisher succeeded from generation \<open>g\<close>, a second publisher that
  still expects generation \<open>g\<close> returns with an error and performs no file operation, whatever its
  manifest, its allocator and its library calls do.
\<close>

theorem publish_no_lost_update:
  assumes "YAP_V2_manifest_publish_if_generation mem rio io short fs path eg m = Some (YAP_V2_OK, m', ops)"
    and "manifest_repr m"
  shows "\<exists>s. YAP_V2_manifest_publish_if_generation mem2 rio2 io2 short2 (run_ops ops fs) path eg m2 =
      Some (s, m2, []) \<and> s \<noteq> YAP_V2_OK"
proof -
  obtain current where c: "m' = m\<lparr>man_generation := eg + 1\<rparr>"
    "YAP_V2_manifest_save_atomic mem io short path m' = Some (YAP_V2_OK, ops)"
    by (rule publish_if_generation_inv[OF assms(1)]) blast
  have repr: "manifest_repr m'" using assms(2) c(1) by (simp add: manifest_repr_def)
  have neq: "man_generation current \<noteq> eg"
    if "YAP_V2_manifest_load mem2 rio2 (run_ops ops fs) path = Some (Inr current)" for current
    using saved_generation[OF c(2) repr that] c(1) by simp
  obtain r where r: "YAP_V2_manifest_load mem2 rio2 (run_ops ops fs) path = Some r" "r \<noteq> Inl YAP_V2_OK"
    using manifest_load_result by blast
  show ?thesis
  proof (cases r)
    case (Inl s)
    with r show ?thesis
      by (auto simp: YAP_V2_manifest_publish_if_generation_def unlock_status_def)
  next
    case (Inr current)
    with r neq show ?thesis
      by (auto simp: YAP_V2_manifest_publish_if_generation_def unlock_status_def)
  qed
qed

text \<open>
  C22. Crash safety of publication: whatever save of a manifest does and wherever it stops, the
  manifest file is the old one or a complete new one (which loads back by the theorem above);
  no other file than it and its temporary file is touched.
\<close>

theorem manifest_save_crash_safe:
  assumes "YAP_V2_manifest_save_atomic mem io short path m = Some (s, ops)" and "manifest_repr m"
  shows "(run_ops (take n ops) fs path = fs path \<or>
      (\<exists>content. run_ops (take n ops) fs path = Some content \<and> manifest_file m content)) \<and>
    (q \<noteq> path \<longrightarrow> q \<noteq> temporary_path path \<longrightarrow> run_ops ops fs q = fs q)"
proof (cases "ops = []")
  case False
  with assms(1) obtain size' content where
    p: "manifest_payload_size m = Inr size'"
    and e: "encode_manifest m (YAP_V2_FILE_HEADER_BYTES + size') = Inr content"
    and w: "write_replace io short path content = (s, ops)"
    by (auto simp: YAP_V2_manifest_save_atomic_def rbind_Inr_iff Let_def
        split: if_splits option.splits sum.splits)
  show ?thesis
    using replace_writer.prefix_old_or_new[OF w, of n fs] replace_writer.other_paths[OF w, of q fs]
      encode_manifest_file[OF assms(2) p e] by auto
qed simp

lemma publish_next_inv:
  assumes "YAP_V2_manifest_publish_next mem rio io short fs path m = Some (YAP_V2_OK, m', ops)"
  obtains g where
    "(fs path = None \<and> g = 0) \<or>
     (\<exists>current. YAP_V2_manifest_load mem rio fs path = Some (Inr current) \<and> man_generation current = g \<and>
        man_config_fingerprint current = man_config_fingerprint m)"
    "g \<noteq> - 1" "m' = m\<lparr>man_generation := g + 1\<rparr>"
    "YAP_V2_manifest_save_atomic mem io short path m' = Some (YAP_V2_OK, ops)"
proof -
  obtain r where r: "YAP_V2_manifest_load mem rio fs path = Some r" "r \<noteq> Inl YAP_V2_OK"
    "\<And>c. r = Inr c \<Longrightarrow> YAP_V2_manifest_validate mem c = Some YAP_V2_OK"
    using manifest_load_result[of mem rio fs path] by blast
  show thesis
  proof (cases r)
    case (Inl s)
    with r assms have "fs path = None"
      "publish_save mem io short path (m\<lparr>man_generation := 0 + 1\<rparr>) = Some (YAP_V2_OK, m', ops)"
      by (auto simp: YAP_V2_manifest_publish_next_def unlock_status_ok split: if_splits)
    with publish_save_ok[OF this(2)] show thesis
      by (intro that[of 0]) auto
  next
    case (Inr current)
    then have "man_generation current > 0"
      using validate_ok_facts(2)[OF r(3)] word_greater_zero_iff by blast
    with Inr r(1) assms have
      "man_config_fingerprint current = man_config_fingerprint m" "man_generation current \<noteq> - 1"
      "publish_save mem io short path (m\<lparr>man_generation := man_generation current + 1\<rparr>) =
         Some (YAP_V2_OK, m', ops)"
      by (auto simp: YAP_V2_manifest_publish_next_def unlock_status_ok split: if_splits)
    with publish_save_ok[OF this(3)] Inr r(1) show thesis
      by (intro that[of "man_generation current"]) auto
  qed
qed

text \<open>
  \<open>YAP_V2_manifest_publish_next\<close> numbers generations without gaps or wrap-around: over a missing
  file it publishes generation 1, over a loadable manifest with the same fingerprint the generation
  after it, and the published manifest is what a later load returns.
\<close>

theorem publish_next_generation:
  assumes "YAP_V2_manifest_publish_next mem rio io short fs path m = Some (YAP_V2_OK, m', ops)"
    and "manifest_repr m" and "\<And>n. lmem n" and "\<And>c. lio c"
  shows "(fs path = None \<and> man_generation m' = 1 \<or>
      (\<exists>current. YAP_V2_manifest_load mem rio fs path = Some (Inr current) \<and>
         unat (man_generation m') = unat (man_generation current) + 1)) \<and>
    (\<exists>loaded. YAP_V2_manifest_load lmem lio (run_ops ops fs) path = Some (Inr loaded) \<and>
       man_generation loaded = man_generation m' \<and> man_segments loaded = man_segments m)"
proof -
  obtain g where g: "(fs path = None \<and> g = 0) \<or>
     (\<exists>current. YAP_V2_manifest_load mem rio fs path = Some (Inr current) \<and> man_generation current = g \<and>
        man_config_fingerprint current = man_config_fingerprint m)"
    "g \<noteq> - 1" "m' = m\<lparr>man_generation := g + 1\<rparr>"
    "YAP_V2_manifest_save_atomic mem io short path m' = Some (YAP_V2_OK, ops)"
    by (rule publish_next_inv[OF assms(1)]) blast
  have repr: "manifest_repr m'" using assms(2) g(3) by (simp add: manifest_repr_def)
  have "unat (g + 1) = unat g + 1"
    using g(2) by (metis Suc_eq_plus1 add.commute add_eq_0_iff unatSuc)
  moreover have "\<exists>loaded. YAP_V2_manifest_load lmem lio (run_ops ops fs) path = Some (Inr loaded) \<and>
       man_generation loaded = man_generation m' \<and> man_config_fingerprint loaded = man_config_fingerprint m' \<and>
       man_segments loaded = man_segments m'"
    using save_atomic_ok[OF g(4) repr] manifest_load_file[OF _ repr, of _ mem lmem lio] assms(3,4)
    by metis
  ultimately show ?thesis
    using g by auto
qed

subsection \<open>The segment map\<close>

lemma fill_slots_duplicate:
  assumes "table_inv manifest_start (take i keys) slots" and "length keys < length slots"
    and "\<not> distinct keys" and "distinct (take i keys)" and "i \<le> length keys"
  shows "fill_slots keys slots [i..<length keys] = Some None"
  using assms
proof (induction "length keys - i" arbitrary: i slots)
  case 0
  then show ?case by simp
next
  case (Suc n)
  then have i: "i < length keys" by simp
  have upt: "[i..<length keys] = i # [Suc i..<length keys]"
    using i by (rule upt_conv_Cons)
  show ?case
  proof (cases "keys ! i \<in> set (take i keys)")
    case True
    then show ?thesis
      using segment_table.probe_step_dup[OF Suc.prems(1,2) i] by (auto simp: upt)
  next
    case False
    obtain s where s: "probe keys slots (keys ! i) (manifest_start (keys ! i) (length slots))
        (length slots) = Some (Probe_free s)" "table_inv manifest_start (take (Suc i) keys) (slots[s := Suc i])"
      using segment_table.probe_step_new[OF Suc.prems(1,2) i False] by blast
    have "fill_slots keys (slots[s := Suc i]) [Suc i..<length keys] = Some None"
      using Suc.hyps Suc.prems i s(2) False
      by (intro Suc.hyps(1)) (auto simp: take_Suc_conv_app_nth)
    then show ?thesis using s(1) by (simp add: upt)
  qed
qed

lemma map_find_built:
  assumes "table_inv manifest_start (segment_keys segs) slots" and "length segs < length slots"
  shows "YAP_V2_manifest_segment_map_find \<lparr>map_manifest = Some segs, map_slots = slots\<rparr> key =
      Inl YAP_V2_NOT_FOUND \<and> c_string key \<notin> set (segment_keys segs) \<or>
    (\<exists>i < length segs. c_string (seg_id (segs ! i)) = c_string key \<and>
      YAP_V2_manifest_segment_map_find \<lparr>map_manifest = Some segs, map_slots = slots\<rparr> key = Inr i)"
proof (cases "c_string key \<in> set (segment_keys segs)")
  case True
  then show ?thesis
    using segment_table.probe_member[OF assms(1) _ True] assms(2) table_inv_nonempty[OF assms(1)]
    by (auto simp: YAP_V2_manifest_segment_map_find_def segment_keys_def)
next
  case False
  obtain s where "probe (segment_keys segs) slots (c_string key)
      (manifest_start (c_string key) (length slots)) (length slots) = Some (Probe_free s)"
    by (rule segment_table.probe_nonmember[OF assms(1) _ False]) (use assms(2) in auto)
  with False show ?thesis by (simp add: YAP_V2_manifest_segment_map_find_def)
qed

lemma segment_map_built:
  assumes "length (man_segments m) \<le> YAP_V2_MAX_SEGMENTS"
  shows "\<exists>s smap. YAP_V2_manifest_segment_map_build mem m = Some (s, smap) \<and>
    ((\<forall>n. mem n) \<longrightarrow> s = (if distinct (segment_keys (man_segments m)) then YAP_V2_OK else YAP_V2_CONFLICT)) \<and>
    (s = YAP_V2_OK \<longrightarrow> (\<forall>key.
       YAP_V2_manifest_segment_map_find smap key = Inl YAP_V2_NOT_FOUND \<and>
         c_string key \<notin> set (segment_keys (man_segments m)) \<or>
       (\<exists>i < length (man_segments m). c_string (seg_id (man_segments m ! i)) = c_string key \<and>
          YAP_V2_manifest_segment_map_find smap key = Inr i)))"
proof (cases "man_segments m = []")
  case True
  then show ?thesis
    by (simp add: YAP_V2_manifest_segment_map_build_def segment_keys_def YAP_V2_manifest_segment_map_find_def)
next
  case False
  let ?segs = "man_segments m" and ?cap = "slot_capacity 1 (length (man_segments m))"
  have cap: "slot_capacity_checked 1 (length ?segs) = Some ?cap"
    using assms by (rule slot_capacity_checked_eq)
  obtain k where k: "?cap = 2 ^ k"
    using slot_capacity_pow2[of 0 "length ?segs"] by auto
  have ge: "length ?segs * 2 \<le> ?cap" by (rule slot_capacity_ge) simp
  have pos: "0 < length ?segs" using False by simp
  then have room: "length ?segs < ?cap" using ge by linarith
  have small: "\<not> length ?segs > SIZE_MAX div 2"
    using assms by (simp add: storage_limits)
  show ?thesis
  proof (cases "distinct (segment_keys ?segs)")
    case dist: True
    obtain slots where s: "fill_slots (segment_keys ?segs) (replicate ?cap 0) [0..<length ?segs] = Some (Some slots)"
      "table_inv manifest_start (segment_keys ?segs) slots" "length slots = ?cap"
      using fill_slots_fresh[OF dist, of "length ?segs"] False by auto
    have "length ?segs < length slots" using room s(3) by simp
    from map_find_built[OF s(2) this] show ?thesis
      using s(1) cap small dist False
      by (auto simp: YAP_V2_manifest_segment_map_build_def Let_def)
  next
    case dup: False
    have "fill_slots (segment_keys ?segs) (replicate ?cap 0) [0..<length ?segs] = Some None"
      using fill_slots_duplicate[of 0 "segment_keys ?segs" "replicate ?cap 0"] dup room
        table_inv_empty[of manifest_start k] unfolding k by simp
    then show ?thesis
      using cap small dup False by (auto simp: YAP_V2_manifest_segment_map_build_def Let_def)
  qed
qed

text \<open>
  The segment map is the finite map from identifiers to positions: on a manifest of at most
  100000 segments the build succeeds exactly when the identifiers are pairwise different (otherwise
  it reports a conflict), and then a lookup returns the position of the segment with that identifier
  or \<open>YAP_V2_NOT_FOUND\<close> when there is none.
\<close>

theorem segment_map_correct:
  assumes "\<And>n. mem n" and "length (man_segments m) \<le> YAP_V2_MAX_SEGMENTS"
  shows "\<exists>s smap. YAP_V2_manifest_segment_map_build mem m = Some (s, smap) \<and>
    s = (if distinct (segment_keys (man_segments m)) then YAP_V2_OK else YAP_V2_CONFLICT) \<and>
    (s = YAP_V2_OK \<longrightarrow> (\<forall>key.
       YAP_V2_manifest_segment_map_find smap key = Inl YAP_V2_NOT_FOUND \<and>
         c_string key \<notin> set (segment_keys (man_segments m)) \<or>
       (\<exists>i < length (man_segments m). c_string (seg_id (man_segments m ! i)) = c_string key \<and>
          YAP_V2_manifest_segment_map_find smap key = Inr i)))"
  using segment_map_built[OF assms(2), of mem] assms(1) by blast

subsection \<open>Component files\<close>

text \<open>
  C30. When \<open>YAP_V2_manifest_verify_components\<close> accepts an index, every component file named by the
  manifest opened and its whole content has the recorded length and SHA-256 digest; except for the
  vector graph file, its header carries the component's type, a generation between 1 and the
  manifest's, and a payload length that accounts for the whole file.
\<close>

theorem verify_components_sound:
  assumes "YAP_V2_manifest_verify_components mem fa dir m = Some YAP_V2_OK"
    and "seg \<in> set (man_segments m)" and "c \<in> set (seg_components seg)"
  shows "\<exists>chunks. fa_reads fa (component_path dir seg c) = Some chunks \<and>
    cmp_checksum c = sha256_spec (concat chunks) \<and>
    cmp_file_bytes c = word_of_nat (length (concat chunks)) \<and>
    (cmp_file_type c \<noteq> YAP_V2_FILE_ANN \<longrightarrow>
      (\<exists>hb h. fa_head fa (component_path dir seg c) = Some hb \<and> YAP_V2_file_header_decode hb = Inr h \<and>
         hdr_file_type h = cmp_file_type c \<and> 0 < hdr_generation h \<and>
         hdr_generation h \<le> man_generation m \<and>
         hdr_payload_bytes h + 32 = word_of_nat (length (concat chunks))))"
proof -
  have ok: "verify_component mem fa dir (man_generation m) seg c = YAP_V2_OK"
    using assms
    by (auto simp: YAP_V2_manifest_verify_components_def YAP_V2_manifest_verify_segment_components_def
        first_error_ok split: option.splits if_splits)
  have sha: "YAP_V2_file_sha256 ch ro co \<noteq> Inl YAP_V2_OK" for ch ro co
  proof -
    have "sha256_read_loop sha tot cs \<noteq> Inl YAP_V2_OK" for sha tot cs
      by (induction cs arbitrary: sha tot) auto
    then show ?thesis
      by (auto simp: YAP_V2_file_sha256_def rbind_Inl_iff split: option.splits if_splits)
  qed
  have dec: "YAP_V2_file_header_decode hb \<noteq> Inl YAP_V2_OK" for hb
    by (simp add: YAP_V2_file_header_decode_def Let_def)
  obtain checksum tot where f: "YAP_V2_file_sha256 (fa_reads fa (component_path dir seg c))
      (fa_read_ok fa (component_path dir seg c)) (fa_close_ok fa (component_path dir seg c)) = Inr (checksum, tot)"
    "tot = cmp_file_bytes c" "checksum = cmp_checksum c"
    using ok sha by (auto simp: verify_component_def Let_def split: if_splits sum.splits)
  from f(1) obtain chunks where ch: "fa_reads fa (component_path dir seg c) = Some chunks"
    by (auto simp: YAP_V2_file_sha256_def split: option.splits)
  then obtain sha' where "sha256_read_loop sha256_init 0 chunks = Inr (sha', tot)" "checksum = sha256_final sha'"
    using f(1) by (auto simp: YAP_V2_file_sha256_def rbind_Inr_iff split: if_splits)
  with sha256_read_loop_absorbed[OF absorbed_init this(1)]
  have content: "checksum = sha256_spec (concat chunks)" "tot = word_of_nat (length (concat chunks))"
    by (auto simp: sha256_final_absorbed)
  show ?thesis
  proof (intro exI[of _ chunks] conjI impI)
    assume "cmp_file_type c \<noteq> YAP_V2_FILE_ANN"
    with ok f dec show "\<exists>hb h. fa_head fa (component_path dir seg c) = Some hb \<and>
         YAP_V2_file_header_decode hb = Inr h \<and> hdr_file_type h = cmp_file_type c \<and>
         0 < hdr_generation h \<and> hdr_generation h \<le> man_generation m \<and>
         hdr_payload_bytes h + 32 = word_of_nat (length (concat chunks))"
      by (auto simp: verify_component_def Let_def content(2) word_neq_0_conv YAP_V2_FILE_HEADER_BYTES_def
          split: if_splits option.splits sum.splits)
  qed (use ch f content in auto)
qed

subsection \<open>The theorems on a small manifest\<close>

lemma save_total:
  assumes "\<And>n. mem n" and "\<And>c. io c" and "length path \<le> SIZE_MAX - 5"
    and "YAP_V2_manifest_validate mem m = Some YAP_V2_OK" and "manifest_repr m"
    and "manifest_payload_size m = Inr size'"
  shows "\<exists>ops. YAP_V2_manifest_save_atomic mem io short path m = Some (YAP_V2_OK, ops)"
proof -
  have "header_fields_valid \<lparr>hdr_format_version = YAP_V2_FORMAT_VERSION,
      hdr_header_bytes = word_of_nat YAP_V2_FILE_HEADER_BYTES, hdr_file_type = YAP_V2_FILE_MANIFEST,
      hdr_generation = man_generation m, hdr_payload_bytes = word_of_nat (length (encode_payload m)),
      hdr_payload_crc32c = crc32c (encode_payload m)\<rparr>"
    using validate_ok_facts(2)[OF assms(4)]
    by (simp add: header_fields_valid_def file_header_type_valid_def file_types)
  then obtain content where "encode_manifest m (YAP_V2_FILE_HEADER_BYTES + size') = Inr content"
    using encode_payload_length[OF assms(5,6)]
    by (simp add: encode_manifest_def YAP_V2_file_header_encode_def Let_def)
  moreover have "\<exists>ops. write_replace io short path content = (YAP_V2_OK, ops)"
    using assms(2,3) by (simp add: write_replace_def Let_def fsync_parent_def)
  ultimately show ?thesis
    using assms(1,4,6) by (simp add: YAP_V2_manifest_save_atomic_def)
qed

definition sample_segment :: YAP_V2_SEGMENT_DESCRIPTOR where
  "sample_segment = \<lparr>seg_id = ascii ''seg-1'', seg_document_count = 1, seg_passage_count = 1,
     seg_tombstone_count = 0, seg_components =
       [\<lparr>cmp_name = ascii ''documents.yap2'', cmp_file_type = YAP_V2_FILE_DOCUMENTS,
         cmp_record_count = 2, cmp_file_bytes = 151, cmp_checksum = replicate 32 7\<rparr>]\<rparr>"

definition sample_manifest :: YAP_V2_MANIFEST where
  "sample_manifest = YAP_V2_manifest_init\<lparr>man_config_fingerprint := replicate 32 1,
     man_segments := [sample_segment]\<rparr>"

lemma sample_manifest_repr: "manifest_repr (sample_manifest\<lparr>man_generation := g\<rparr>)"
  by (simp add: manifest_repr_def sample_manifest_def sample_segment_def segment_repr_def
      component_repr_def ascii_def)

lemma sample_segment_ok: "segment_ok sample_segment"
proof -
  have "YAP_V2_segment_id_validate (Some (seg_id sample_segment)) = YAP_V2_OK"
    by (simp add: segment_id_validate_ok sample_segment_def ascii_def c_string_def segment_id_char_def)
  moreover have "validate_components sample_segment = YAP_V2_OK"
    by (simp add: validate_components_def sample_segment_def YAP_V2_segment_descriptor_add_component_def
        file_types storage_limits c_string_def ascii_def)
  ultimately show ?thesis
    by (simp add: segment_ok_def) (simp add: sample_segment_def storage_limits)
qed

lemma sample_manifest_valid:
  "g \<noteq> 0 \<Longrightarrow> YAP_V2_manifest_validate (\<lambda>_. True) (sample_manifest\<lparr>man_generation := g\<rparr>) = Some YAP_V2_OK"
  using manifest_validate_cases[of "\<lambda>_. True" "sample_manifest\<lparr>man_generation := g\<rparr>"] sample_segment_ok
  by (auto simp: sample_manifest_def YAP_V2_manifest_init_def type_limits segment_keys_def)

lemma sample_manifest_size: "\<exists>n. manifest_payload_size (sample_manifest\<lparr>man_generation := g\<rparr>) = Inr n"
  by (simp add: manifest_payload_size_def sample_manifest_def segment_sizes_def sample_segment_def
      add_size_def manifest_constants storage_limits c_string_def ascii_def)

lemma sample_saved:
  "g \<noteq> 0 \<Longrightarrow> \<exists>ops. YAP_V2_manifest_save_atomic (\<lambda>_. True) (\<lambda>_. True) 0 ''m'' (sample_manifest\<lparr>man_generation := g\<rparr>) =
     Some (YAP_V2_OK, ops)"
  using sample_manifest_size[of g]
  by (auto intro!: save_total simp: sample_manifest_repr sample_manifest_valid)

theorem manifest_save_load_witness:
  "\<exists>ops m'. YAP_V2_manifest_load (\<lambda>_. True) (\<lambda>_. True) (run_ops ops (\<lambda>_. None)) ''m'' = Some (Inr m') \<and>
     man_generation m' = 5 \<and> man_segments m' = [sample_segment]"
proof -
  obtain ops where "YAP_V2_manifest_save_atomic (\<lambda>_. True) (\<lambda>_. True) 0 ''m''
      (sample_manifest\<lparr>man_generation := 5\<rparr>) = Some (YAP_V2_OK, ops)"
    using sample_saved[of 5] by auto
  from manifest_save_load[OF this sample_manifest_repr, of "\<lambda>_. True" "\<lambda>_. True" "\<lambda>_. None"] show ?thesis
    by (auto simp: sample_manifest_def)
qed

text \<open>The first publication on an empty file system, and one from generation 1.\<close>

lemma sample_published_first:
  "\<exists>m' ops. YAP_V2_manifest_publish_next (\<lambda>_. True) (\<lambda>_. True) (\<lambda>_. True) 0 (\<lambda>_. None) ''m'' sample_manifest =
     Some (YAP_V2_OK, m', ops)"
  using sample_saved[of 1]
  by (auto simp: YAP_V2_manifest_publish_next_def lock_failure_def YAP_V2_manifest_load_def
      read_manifest_file_def publish_save_def unlock_status_def)

lemma sample_published_second:
  "\<exists>fs m' ops. YAP_V2_manifest_publish_if_generation (\<lambda>_. True) (\<lambda>_. True) (\<lambda>_. True) 0 fs ''m'' 1 sample_manifest =
     Some (YAP_V2_OK, m', ops)"
proof -
  obtain ops where ops: "YAP_V2_manifest_save_atomic (\<lambda>_. True) (\<lambda>_. True) 0 ''m''
      (sample_manifest\<lparr>man_generation := 1\<rparr>) = Some (YAP_V2_OK, ops)"
    using sample_saved[of 1] by auto
  obtain content where c: "manifest_file (sample_manifest\<lparr>man_generation := 1\<rparr>) content"
    using save_atomic_ok[OF ops sample_manifest_repr] by blast
  obtain m0 where "YAP_V2_manifest_load (\<lambda>_. True) (\<lambda>_. True) [''m'' \<mapsto> content] ''m'' = Some (Inr m0)"
    "man_generation m0 = 1" "man_config_fingerprint m0 = man_config_fingerprint sample_manifest"
    using manifest_load_file[OF c sample_manifest_repr sample_manifest_valid[of 1],
        of "\<lambda>_. True" "\<lambda>_. True" "[''m'' \<mapsto> content]" "''m''"] by auto
  then show ?thesis
    using sample_saved[of 2]
    by (intro exI[of _ "[''m'' \<mapsto> content]"])
       (auto simp: YAP_V2_manifest_publish_if_generation_def lock_failure_def publish_save_def unlock_status_def)
qed

lemma sample_repr: "manifest_repr sample_manifest"
  using sample_manifest_repr[of 1] by (simp add: manifest_repr_def)

theorem publish_if_generation_correct_witness:
  "\<exists>fs ops loaded. YAP_V2_manifest_load (\<lambda>_. True) (\<lambda>_. True) (run_ops ops fs) ''m'' = Some (Inr loaded) \<and>
     man_generation loaded = 2 \<and> man_segments loaded = [sample_segment]"
proof -
  obtain fs m' ops where "YAP_V2_manifest_publish_if_generation (\<lambda>_. True) (\<lambda>_. True) (\<lambda>_. True) 0 fs ''m'' 1
      sample_manifest = Some (YAP_V2_OK, m', ops)"
    using sample_published_second by blast
  from publish_if_generation_correct[OF this sample_repr, of "\<lambda>_. True" "\<lambda>_. True"] show ?thesis
    by (auto simp: sample_manifest_def)
qed

theorem publish_no_lost_update_witness:
  "\<exists>fs s. YAP_V2_manifest_publish_if_generation (\<lambda>_. True) (\<lambda>_. True) (\<lambda>_. True) 0 fs ''m'' 1 sample_manifest =
     Some (s, sample_manifest, []) \<and> s \<noteq> YAP_V2_OK"
proof -
  obtain fs m' ops where "YAP_V2_manifest_publish_if_generation (\<lambda>_. True) (\<lambda>_. True) (\<lambda>_. True) 0 fs ''m'' 1
      sample_manifest = Some (YAP_V2_OK, m', ops)"
    using sample_published_second by blast
  from publish_no_lost_update[OF this sample_repr] show ?thesis by blast
qed

theorem publish_next_generation_witness:
  "\<exists>ops loaded. YAP_V2_manifest_load (\<lambda>_. True) (\<lambda>_. True) (run_ops ops (\<lambda>_. None)) ''m'' = Some (Inr loaded) \<and>
     man_generation loaded = 1 \<and> man_segments loaded = [sample_segment]"
proof -
  obtain m' ops where p: "YAP_V2_manifest_publish_next (\<lambda>_. True) (\<lambda>_. True) (\<lambda>_. True) 0 (\<lambda>_. None) ''m''
      sample_manifest = Some (YAP_V2_OK, m', ops)"
    using sample_published_first by blast
  have "YAP_V2_manifest_load (\<lambda>_. True) (\<lambda>_. True) (\<lambda>_. None) ''m'' = Some (Inl YAP_V2_IO_ERROR)"
    by (simp add: YAP_V2_manifest_load_def read_manifest_file_def)
  with publish_next_generation[OF p sample_repr, of "\<lambda>_. True" "\<lambda>_. True"]
  obtain loaded where "YAP_V2_manifest_load (\<lambda>_. True) (\<lambda>_. True) (run_ops ops (\<lambda>_. None)) ''m'' = Some (Inr loaded)"
    "man_generation loaded = 1" "man_segments loaded = [sample_segment]"
    by (auto simp: sample_manifest_def)
  then show ?thesis by blast
qed

theorem segment_map_correct_witness:
  "\<exists>smap. YAP_V2_manifest_segment_map_build (\<lambda>_. True) sample_manifest = Some (YAP_V2_OK, smap) \<and>
     YAP_V2_manifest_segment_map_find smap (ascii ''seg-1'') = Inr 0"
proof -
  have segs: "man_segments sample_manifest = [sample_segment]"
    by (simp add: sample_manifest_def)
  have id': "c_string (seg_id sample_segment) = c_string (ascii ''seg-1'')"
    by (simp add: sample_segment_def)
  show ?thesis
    using segment_map_correct[of "\<lambda>_. True" sample_manifest]
    by (auto simp: segs id' segment_keys_def storage_limits)
qed

text \<open>An index directory whose one component file was written by \<open>YAP_V2_file_header_encode\<close>.\<close>

definition sample_header :: bytes where
  "sample_header = yap_magic @ put_u16_le 2 @ put_u16_le 32 @ put_u32_le YAP_V2_FILE_DOCUMENTS @
     put_u64_le 1 @ put_u64_le 3 @ put_u32_le 0"

definition sample_files :: file_access where
  "sample_files = \<lparr>fa_reads = (\<lambda>_. Some [sample_header, [1, 2, 3]]), fa_read_ok = (\<lambda>_. True),
     fa_close_ok = (\<lambda>_. True), fa_head = (\<lambda>_. Some sample_header)\<rparr>"

definition sample_verified :: YAP_V2_MANIFEST where
  "sample_verified = sample_manifest\<lparr>man_segments := [sample_segment\<lparr>seg_components :=
     [\<lparr>cmp_name = ascii ''documents.yap2'', cmp_file_type = YAP_V2_FILE_DOCUMENTS,
       cmp_record_count = 2, cmp_file_bytes = 35,
       cmp_checksum = sha256_spec (sample_header @ [1, 2, 3])\<rparr>]\<rparr>]\<rparr>"

lemma sample_verified_valid: "YAP_V2_manifest_validate (\<lambda>_. True) sample_verified = Some YAP_V2_OK"
proof -
  have "segment_ok (hd (man_segments sample_verified))"
    using sample_segment_ok
    by (simp add: segment_ok_def sample_verified_def validate_components_def sample_segment_def
        YAP_V2_segment_descriptor_add_component_def file_types storage_limits c_string_def ascii_def)
  then show ?thesis
    using manifest_validate_cases[of "\<lambda>_. True" sample_verified]
    by (auto simp: sample_verified_def sample_manifest_def YAP_V2_manifest_init_def type_limits segment_keys_def)
qed

lemma sample_header_decode:
  "YAP_V2_file_header_decode sample_header = Inr \<lparr>hdr_format_version = 2, hdr_header_bytes = 32,
     hdr_file_type = YAP_V2_FILE_DOCUMENTS, hdr_generation = 1, hdr_payload_bytes = 3, hdr_payload_crc32c = 0\<rparr>"
  using header_decode_parts[of sample_header 2 32 YAP_V2_FILE_DOCUMENTS 1 3 0]
  by (simp add: sample_header_def header_fields_valid_def file_header_type_valid_def file_types
      type_limits YAP_V2_FILE_HEADER_BYTES_def)

lemma sample_verifies:
  "YAP_V2_manifest_verify_components (\<lambda>_. True) sample_files [] sample_verified = Some YAP_V2_OK"
proof -
  have "length sample_header = 32" by (simp add: sample_header_def)
  then obtain sha where loop: "sha256_read_loop sha256_init 0 [sample_header, [1, 2, 3]] = Inr (sha, 35)"
    by (simp add: unat_of_nat)
  with sha256_read_loop_absorbed[OF absorbed_init loop]
  have "YAP_V2_file_sha256 (Some [sample_header, [1, 2, 3]]) True True =
      Inr (sha256_spec (sample_header @ [1, 2, 3]), 35)"
    by (simp add: YAP_V2_file_sha256_def sha256_final_absorbed)
  then show ?thesis
    using sample_verified_valid sample_header_decode
    by (simp add: YAP_V2_manifest_verify_components_def)
       (simp add: sample_verified_def sample_files_def sample_manifest_def YAP_V2_manifest_init_def
        YAP_V2_manifest_verify_segment_components_def verify_component_def file_types
        YAP_V2_FILE_HEADER_BYTES_def)
qed

theorem verify_components_sound_witness:
  "\<exists>chunks. fa_reads sample_files (component_path [] (hd (man_segments sample_verified))
       (hd (seg_components (hd (man_segments sample_verified))))) = Some chunks \<and>
     cmp_checksum (hd (seg_components (hd (man_segments sample_verified)))) = sha256_spec (concat chunks)"
  using verify_components_sound[OF sample_verifies, of "hd (man_segments sample_verified)"
      "hd (seg_components (hd (man_segments sample_verified)))"]
  by (auto simp: sample_verified_def)

theorem manifest_save_crash_safe_witness:
  "\<exists>ops. YAP_V2_manifest_save_atomic (\<lambda>_. True) (\<lambda>_. True) 0 ''m'' (sample_manifest\<lparr>man_generation := 5\<rparr>) =
       Some (YAP_V2_OK, ops) \<and>
     (run_ops (take 2 ops) [''m'' \<mapsto> [9]] ''m'' = Some [9] \<or>
      (\<exists>content. run_ops (take 2 ops) [''m'' \<mapsto> [9]] ''m'' = Some content \<and>
        manifest_file (sample_manifest\<lparr>man_generation := 5\<rparr>) content))"
proof -
  obtain ops where save: "YAP_V2_manifest_save_atomic (\<lambda>_. True) (\<lambda>_. True) 0 ''m''
      (sample_manifest\<lparr>man_generation := 5\<rparr>) = Some (YAP_V2_OK, ops)"
    using sample_saved[of 5] by auto
  then show ?thesis
    using manifest_save_crash_safe[OF save sample_manifest_repr, of 2 "[''m'' \<mapsto> [9]]" "''x''"] by simp
qed

end
