(* ===== verification/Executor.thy ===== *)
theory Executor
  imports Types_V2
begin

text \<open>
  \<open>server/yappo_executor_v2.c\<close>: the bounded job queue and its worker threads. Every critical section
  between \<open>pthread_mutex_lock\<close> and \<open>pthread_mutex_unlock\<close> is one function on \<open>EXECUTOR_STATE\<close>; the
  interleavings of submitters, workers and the closing thread are the runs of the step relation
  \<open>exe_step\<close>. Pointers to functions and contexts are addresses; \<open>None\<close> is the null pointer.
  The counters \<open>submitted\<close>, \<open>completed\<close> and \<open>rejected\<close> wrap at 64 bits.
\<close>

record EXECUTOR_JOB =
  job_function :: "nat option"
  job_context :: "nat option"

record EXECUTOR_STATE =
  exe_jobs :: "EXECUTOR_JOB list"
  exe_worker_threads :: nat
  exe_started_threads :: nat
  exe_queue_capacity :: nat
  exe_head :: nat
  exe_queued :: nat
  exe_active :: nat
  exe_submitted :: u64
  exe_completed :: u64
  exe_rejected :: u64
  exe_accepting :: bool
  exe_max_batch :: nat
  exe_max_delay_microseconds :: u32
  exe_batch_function :: "nat option"
  exe_batch_context :: "nat option"

text \<open>What a submission returns: a status of \<open>YAP_V2_STATUS\<close> or the positive \<open>YAP_V2_EXECUTOR_FULL\<close>.\<close>

datatype executor_result = Executor_status YAP_V2_STATUS | YAP_V2_EXECUTOR_FULL

definition empty_job :: EXECUTOR_JOB where
  "empty_job = \<lparr>job_function = None, job_context = None\<rparr>"

subsection \<open>The ring buffer\<close>

definition ring_push :: "EXECUTOR_STATE \<Rightarrow> EXECUTOR_JOB \<Rightarrow> EXECUTOR_STATE" where
  "ring_push st job =
     (let tail = (exe_head st + exe_queued st) mod exe_queue_capacity st in
      st\<lparr>exe_jobs := (exe_jobs st)[tail := job], exe_queued := exe_queued st + 1\<rparr>)"

definition ring_pop :: "EXECUTOR_STATE \<Rightarrow> EXECUTOR_JOB \<times> EXECUTOR_STATE" where
  "ring_pop st =
     (exe_jobs st ! exe_head st,
      st\<lparr>exe_head := (exe_head st + 1) mod exe_queue_capacity st, exe_queued := exe_queued st - 1\<rparr>)"

subsection \<open>Opening\<close>

text \<open>
  \<open>alloc\<close> answers for the three allocations, \<open>mutex_ok\<close> and \<open>cond_ok\<close> for the initialisation of the
  lock and the condition variable, \<open>created\<close> is the number of threads \<open>pthread_create\<close> starts before
  it fails. \<open>sizeof(pthread_t)\<close> is 8 and \<open>sizeof(EXECUTOR_JOB)\<close> 16.
\<close>

definition YAP_V2_executor_open ::
  "bool \<Rightarrow> bool \<Rightarrow> bool \<Rightarrow> nat \<Rightarrow> EXECUTOR_STATE option \<Rightarrow> nat \<Rightarrow> nat \<Rightarrow> EXECUTOR_STATE outcome" where
  "YAP_V2_executor_open alloc mutex_ok cond_ok created executor worker_threads queue_capacity =
     (if executor \<noteq> None \<or> worker_threads = 0 \<or> queue_capacity = 0 \<or>
         worker_threads > SIZE_MAX div 8 \<or> queue_capacity > SIZE_MAX div 16
        then Inl YAP_V2_INVALID_ARGUMENT
      else if \<not> alloc then Inl YAP_V2_ALLOCATION_FAILED
      else if \<not> mutex_ok then Inl YAP_V2_IO_ERROR
      else if \<not> cond_ok then Inl YAP_V2_IO_ERROR
      else if min created worker_threads \<noteq> worker_threads then Inl YAP_V2_IO_ERROR
      else Inr \<lparr>exe_jobs = replicate queue_capacity empty_job, exe_worker_threads = worker_threads,
             exe_started_threads = worker_threads, exe_queue_capacity = queue_capacity,
             exe_head = 0, exe_queued = 0, exe_active = 0, exe_submitted = 0, exe_completed = 0,
             exe_rejected = 0, exe_accepting = True, exe_max_batch = 0,
             exe_max_delay_microseconds = 0, exe_batch_function = None, exe_batch_context = None\<rparr>)"

text \<open>
  The batch executor first opens an ordinary one with one worker, which nobody can submit to yet,
  stops that worker and starts the batch worker in its place.
\<close>

definition YAP_V2_executor_open_batch ::
  "bool \<Rightarrow> bool \<Rightarrow> bool \<Rightarrow> nat \<Rightarrow> bool \<Rightarrow> bool \<Rightarrow> EXECUTOR_STATE option \<Rightarrow> nat \<Rightarrow> nat \<Rightarrow> u32 \<Rightarrow>
     nat option \<Rightarrow> nat option \<Rightarrow> EXECUTOR_STATE outcome" where
  "YAP_V2_executor_open_batch alloc mutex_ok cond_ok created items_alloc batch_created executor
       queue_capacity max_batch max_delay_microseconds function' batch_context =
     (if executor \<noteq> None \<or> queue_capacity = 0 \<or> max_batch = 0 \<or> max_batch > queue_capacity \<or>
         max_delay_microseconds = 0 \<or> function' = None then Inl YAP_V2_INVALID_ARGUMENT
      else rbind (YAP_V2_executor_open alloc mutex_ok cond_ok created executor 1 queue_capacity)
        (\<lambda>st.
          (let st = st\<lparr>exe_max_batch := max_batch,
                 exe_max_delay_microseconds := max_delay_microseconds,
                 exe_batch_function := function', exe_batch_context := batch_context,
                 exe_accepting := False, exe_started_threads := 0\<rparr> in
           if \<not> items_alloc then Inl YAP_V2_ALLOCATION_FAILED
           else
             (let st = st\<lparr>exe_accepting := True\<rparr> in
              if \<not> batch_created then Inl YAP_V2_IO_ERROR
              else Inr (st\<lparr>exe_started_threads := 1\<rparr>)))))"

subsection \<open>Submission, snapshot, close\<close>

definition YAP_V2_executor_try_submit ::
  "EXECUTOR_STATE \<Rightarrow> nat option \<Rightarrow> nat option \<Rightarrow> executor_result \<times> EXECUTOR_STATE" where
  "YAP_V2_executor_try_submit st function' context' =
     (if function' = None then (Executor_status YAP_V2_INVALID_ARGUMENT, st)
      else if exe_batch_function st \<noteq> None \<or> \<not> exe_accepting st \<or>
              exe_queued st = exe_queue_capacity st
        then (YAP_V2_EXECUTOR_FULL, st\<lparr>exe_rejected := exe_rejected st + 1\<rparr>)
      else
        (let st = ring_push st \<lparr>job_function = function', job_context = context'\<rparr> in
         (Executor_status YAP_V2_OK, st\<lparr>exe_submitted := exe_submitted st + 1\<rparr>)))"

definition YAP_V2_executor_try_submit_item ::
  "EXECUTOR_STATE \<Rightarrow> nat option \<Rightarrow> executor_result \<times> EXECUTOR_STATE" where
  "YAP_V2_executor_try_submit_item st item =
     (if exe_batch_function st = None \<or> \<not> exe_accepting st \<or>
         exe_queued st = exe_queue_capacity st
        then (YAP_V2_EXECUTOR_FULL, st\<lparr>exe_rejected := exe_rejected st + 1\<rparr>)
      else
        (let st = ring_push st \<lparr>job_function = None, job_context = item\<rparr> in
         (Executor_status YAP_V2_OK, st\<lparr>exe_submitted := exe_submitted st + 1\<rparr>)))"

record YAP_V2_EXECUTOR_STATE =
  snap_worker_threads :: nat
  snap_queue_capacity :: nat
  snap_queued :: nat
  snap_active :: nat
  snap_submitted :: u64
  snap_completed :: u64
  snap_rejected :: u64
  snap_accepting :: bool

definition YAP_V2_executor_snapshot :: "EXECUTOR_STATE \<Rightarrow> YAP_V2_EXECUTOR_STATE" where
  "YAP_V2_executor_snapshot st =
     \<lparr>snap_worker_threads = exe_worker_threads st, snap_queue_capacity = exe_queue_capacity st,
      snap_queued = exe_queued st, snap_active = exe_active st, snap_submitted = exe_submitted st,
      snap_completed = exe_completed st, snap_rejected = exe_rejected st,
      snap_accepting = exe_accepting st\<rparr>"

text \<open>The critical section of \<open>YAP_V2_executor_close\<close>; it then joins the workers.\<close>

definition YAP_V2_executor_close :: "EXECUTOR_STATE \<Rightarrow> EXECUTOR_STATE" where
  "YAP_V2_executor_close st = st\<lparr>exe_accepting := False\<rparr>"

subsection \<open>Workers\<close>

text \<open>
  A worker that finds no job waits on the condition variable while the executor accepts jobs
  (\<open>Worker_wait\<close>), leaves when it does not (\<open>Worker_exit\<close>), and otherwise takes a job.
\<close>

datatype worker_action = Worker_wait | Worker_exit | Worker_take "EXECUTOR_JOB list" EXECUTOR_STATE

definition run_worker_take :: "EXECUTOR_STATE \<Rightarrow> worker_action" where
  "run_worker_take st =
     (if exe_queued st = 0 \<and> exe_accepting st then Worker_wait
      else if exe_queued st = 0 \<and> \<not> exe_accepting st then Worker_exit
      else case ring_pop st of (job, st) \<Rightarrow>
        Worker_take [job] (st\<lparr>exe_active := exe_active st + 1\<rparr>))"

definition run_worker_done :: "EXECUTOR_STATE \<Rightarrow> EXECUTOR_STATE" where
  "run_worker_done st =
     st\<lparr>exe_active := exe_active st - 1, exe_completed := exe_completed st + 1\<rparr>"

text \<open>
  The batch worker may be woken, by jobs or by the deadline, in any state with a job queued; it
  then collects up to \<open>max_batch\<close> jobs. \<open>pthread_cond_timedwait\<close> releases the lock, so what others
  do during the wait are steps of their own.
\<close>

fun batch_collect :: "nat \<Rightarrow> EXECUTOR_STATE \<Rightarrow> EXECUTOR_JOB list \<times> EXECUTOR_STATE" where
  "batch_collect 0 st = ([], st)"
| "batch_collect (Suc n) st =
     (if exe_queued st \<noteq> 0
      then case ring_pop st of (job, st) \<Rightarrow>
             (case batch_collect n st of (items, st) \<Rightarrow> (job # items, st))
      else ([], st))"

text \<open>The deadline of that wait, from the clock reading \<open>(tv_sec, tv_nsec)\<close>.\<close>

definition deadline_after_microseconds :: "int \<times> int \<Rightarrow> u32 \<Rightarrow> int \<times> int" where
  "deadline_after_microseconds now microseconds =
     (case now of (sec, nsec) \<Rightarrow>
        (let sec = sec + int (unat (microseconds div 1000000));
             nsec = nsec + int (unat (microseconds mod 1000000)) * 1000 in
         if nsec \<ge> 1000000000 then (sec + 1, nsec - 1000000000) else (sec, nsec)))"

lemma deadline_after_correct:
  assumes "0 \<le> nsec" and "nsec < 1000000000" and "deadline_after_microseconds (sec, nsec) us = (sec', nsec')"
  shows "0 \<le> nsec' \<and> nsec' < 1000000000 \<and>
    sec' * 1000000000 + nsec' = sec * 1000000000 + nsec + int (unat us) * 1000"
proof -
  have q: "unat (us div 1000000) = unat us div 1000000" "unat (us mod 1000000) = unat us mod 1000000"
    by (simp_all add: unat_div unat_mod)
  have "int (unat us) = int (unat us div 1000000) * 1000000 + int (unat us mod 1000000)"
    by (metis (no_types) div_mult_mod_eq of_nat_add of_nat_mult of_nat_numeral)
  moreover have "int (unat us mod 1000000) < 1000000" by simp
  ultimately show ?thesis
    using assms unfolding deadline_after_microseconds_def Let_def prod.case q by (auto split: if_splits)
qed

definition run_batch_worker_take :: "EXECUTOR_STATE \<Rightarrow> worker_action" where
  "run_batch_worker_take st =
     (if exe_queued st = 0 \<and> exe_accepting st then Worker_wait
      else if exe_queued st = 0 \<and> \<not> exe_accepting st then Worker_exit
      else case batch_collect (exe_max_batch st) st of (items, st) \<Rightarrow>
        Worker_take items (st\<lparr>exe_active := exe_active st + length items\<rparr>))"

definition run_batch_worker_done :: "nat \<Rightarrow> EXECUTOR_STATE \<Rightarrow> EXECUTOR_STATE" where
  "run_batch_worker_done n st =
     st\<lparr>exe_active := exe_active st - n, exe_completed := exe_completed st + word_of_nat n\<rparr>"

text \<open>Which of the two loops the worker threads of an executor run.\<close>

definition worker_step_take :: "EXECUTOR_STATE \<Rightarrow> worker_action" where
  "worker_step_take st =
     (if exe_batch_function st = None then run_worker_take st else run_batch_worker_take st)"

definition worker_step_done :: "nat \<Rightarrow> EXECUTOR_STATE \<Rightarrow> EXECUTOR_STATE" where
  "worker_step_done n st =
     (if exe_batch_function st = None then run_worker_done st else run_batch_worker_done n st)"

subsection \<open>The system: submitters, workers, closer\<close>

datatype worker = Worker_idle | Worker_running "EXECUTOR_JOB list" | Worker_exited

text \<open>\<open>sys_accepted\<close> and \<open>sys_taken\<close> record the jobs accepted and handed to workers, in order.\<close>

record exe_system =
  sys_state :: EXECUTOR_STATE
  sys_workers :: "worker list"
  sys_accepted :: "EXECUTOR_JOB list"
  sys_taken :: "EXECUTOR_JOB list"

inductive exe_step :: "exe_system \<Rightarrow> exe_system \<Rightarrow> bool" where
  step_submit: "YAP_V2_executor_try_submit (sys_state s) f c = (r, st) \<Longrightarrow>
    exe_step s (s\<lparr>sys_state := st, sys_accepted := sys_accepted s @
      (if r = Executor_status YAP_V2_OK then [\<lparr>job_function = f, job_context = c\<rparr>] else [])\<rparr>)"
| step_submit_item: "YAP_V2_executor_try_submit_item (sys_state s) c = (r, st) \<Longrightarrow>
    exe_step s (s\<lparr>sys_state := st, sys_accepted := sys_accepted s @
      (if r = Executor_status YAP_V2_OK then [\<lparr>job_function = None, job_context = c\<rparr>] else [])\<rparr>)"
| step_take: "i < length (sys_workers s) \<Longrightarrow> sys_workers s ! i = Worker_idle \<Longrightarrow>
    worker_step_take (sys_state s) = Worker_take js st \<Longrightarrow>
    exe_step s (s\<lparr>sys_state := st, sys_workers := (sys_workers s)[i := Worker_running js],
      sys_taken := sys_taken s @ js\<rparr>)"
| step_done: "i < length (sys_workers s) \<Longrightarrow> sys_workers s ! i = Worker_running js \<Longrightarrow>
    exe_step s (s\<lparr>sys_state := worker_step_done (length js) (sys_state s),
      sys_workers := (sys_workers s)[i := Worker_idle]\<rparr>)"
| step_exit: "i < length (sys_workers s) \<Longrightarrow> sys_workers s ! i = Worker_idle \<Longrightarrow>
    worker_step_take (sys_state s) = Worker_exit \<Longrightarrow>
    exe_step s (s\<lparr>sys_workers := (sys_workers s)[i := Worker_exited]\<rparr>)"
| step_close: "exe_step s (s\<lparr>sys_state := YAP_V2_executor_close (sys_state s)\<rparr>)"

inductive_cases exe_stepE: "exe_step s s'"

definition exe_start :: "EXECUTOR_STATE \<Rightarrow> exe_system" where
  "exe_start st = \<lparr>sys_state = st, sys_workers = replicate (exe_started_threads st) Worker_idle,
     sys_accepted = [], sys_taken = []\<rparr>"

text \<open>The states a freshly opened executor, ordinary or batch, can reach.\<close>

inductive exe_reachable :: "exe_system \<Rightarrow> bool" where
  reach_open: "YAP_V2_executor_open a b c n None w q = Inr st \<Longrightarrow> exe_reachable (exe_start st)"
| reach_open_batch: "YAP_V2_executor_open_batch a b c n d e None q m t f x = Inr st \<Longrightarrow>
    exe_reachable (exe_start st)"
| reach_step: "exe_reachable s \<Longrightarrow> exe_step s s' \<Longrightarrow> exe_reachable s'"

subsection \<open>The ring is a bounded queue\<close>

text \<open>The contract a bounded first-in first-out queue gives its clients.\<close>

locale bounded_queue =
  fixes push :: "'q \<Rightarrow> 'a \<Rightarrow> 'q" and pop :: "'q \<Rightarrow> 'a \<times> 'q"
    and content :: "'q \<Rightarrow> 'a list" and room :: "'q \<Rightarrow> nat" and inv :: "'q \<Rightarrow> bool"
  assumes content_push: "inv q \<Longrightarrow> 0 < room q \<Longrightarrow>
      inv (push q x) \<and> content (push q x) = content q @ [x] \<and> room (push q x) = room q - 1"
    and content_pop: "inv q \<Longrightarrow> content q \<noteq> [] \<Longrightarrow> pop q = (x, q') \<Longrightarrow>
      inv q' \<and> content q = x # content q' \<and> room q' = room q + 1"
begin

fun pops :: "nat \<Rightarrow> 'q \<Rightarrow> 'a list \<times> 'q" where
  "pops 0 q = ([], q)"
| "pops (Suc n) q =
     (if content q = [] then ([], q)
      else case pop q of (x, q') \<Rightarrow> (case pops n q' of (xs, q'') \<Rightarrow> (x # xs, q'')))"

lemma pops_content:
  "inv q \<Longrightarrow> pops n q = (xs, q') \<Longrightarrow>
     inv q' \<and> content q = xs @ content q' \<and> length xs = min n (length (content q))"
proof (induction n arbitrary: q xs q')
  case 0
  then show ?case by simp
next
  case (Suc n)
  show ?case
  proof (cases "content q = []")
    case True
    with Suc.prems show ?thesis by auto
  next
    case False
    obtain x q1 where p: "pop q = (x, q1)" by (cases "pop q")
    obtain ys q2 where ps: "pops n q1 = (ys, q2)" by (cases "pops n q1")
    from Suc.prems(2) False p ps have x: "xs = x # ys" "q' = q2" by auto
    have q1: "inv q1" "content q = x # content q1"
      using content_pop[OF Suc.prems(1) False p] by auto
    have "inv q2 \<and> content q1 = ys @ content q2 \<and> length ys = min n (length (content q1))"
      by (rule Suc.IH[OF q1(1) ps])
    then have ih: "inv q2" "content q1 = ys @ content q2" "length ys = min n (length (content q1))"
      by blast+
    have "length (x # ys) = min (Suc n) (length (x # content q1))"
      using ih(3) by (simp only: list.size min_Suc_Suc add_Suc_right add_0_right)
    with ih(1,2) show ?thesis unfolding x q1(2) by simp
  qed
qed

end

definition ring_inv :: "EXECUTOR_STATE \<Rightarrow> bool" where
  "ring_inv st \<longleftrightarrow> 0 < exe_queue_capacity st \<and> length (exe_jobs st) = exe_queue_capacity st \<and>
     exe_head st < exe_queue_capacity st \<and> exe_queued st \<le> exe_queue_capacity st"

definition ring_content :: "EXECUTOR_STATE \<Rightarrow> EXECUTOR_JOB list" where
  "ring_content st = map (\<lambda>k. exe_jobs st ! ((exe_head st + k) mod exe_queue_capacity st))
     [0..<exe_queued st]"

definition ring_room :: "EXECUTOR_STATE \<Rightarrow> nat" where
  "ring_room st = exe_queue_capacity st - exe_queued st"

lemma mod_add_inj_le:
  assumes "(h + a) mod n = (h + b) mod n" "b < (n :: nat)" "a \<le> b"
  shows "a = b"
proof -
  have "n dvd (h + b) - (h + a)"
    using assms(1,3) mod_eq_dvd_iff_nat[of "h + a" "h + b" n] by simp
  then have "n dvd b - a" by simp
  with assms(2,3) show ?thesis
    using nat_dvd_not_less[of "b - a" n] by (cases "a = b") auto
qed

lemma mod_add_inj: "(h + a) mod n = (h + b) mod n \<Longrightarrow> a < n \<Longrightarrow> b < (n :: nat) \<Longrightarrow> a = b"
  using mod_add_inj_le[of h a n b] mod_add_inj_le[of h b n a] by (cases "a \<le> b") auto

interpretation ring: bounded_queue ring_push ring_pop ring_content ring_room ring_inv
proof
  fix st job
  assume inv: "ring_inv st" and room: "0 < ring_room st"
  let ?n = "exe_queue_capacity st" and ?h = "exe_head st" and ?k = "exe_queued st"
  have k: "?k < ?n" using room by (simp add: ring_room_def)
  have old: "(exe_jobs st)[(?h + ?k) mod ?n := job] ! ((?h + i) mod ?n) = exe_jobs st ! ((?h + i) mod ?n)"
    if "i < ?k" for i
    using that k mod_add_inj[of ?h i ?n ?k] by (intro nth_list_update_neq) auto
  show "ring_inv (ring_push st job) \<and> ring_content (ring_push st job) = ring_content st @ [job] \<and>
      ring_room (ring_push st job) = ring_room st - 1"
    using inv k old
    by (auto simp: ring_inv_def ring_push_def ring_content_def ring_room_def Let_def)
next
  fix st job st'
  assume inv: "ring_inv st" and ne: "ring_content st \<noteq> []" and pop: "ring_pop st = (job, st')"
  let ?n = "exe_queue_capacity st" and ?h = "exe_head st" and ?k = "exe_queued st"
  have k: "0 < ?k" using ne by (simp add: ring_content_def)
  have "[0..<?k] = 0 # map Suc [0..<?k - 1]"
    using k by (simp add: map_Suc_upt upt_conv_Cons)
  then have "ring_content st = exe_jobs st ! (?h mod ?n) #
      map (\<lambda>i. exe_jobs st ! ((?h + Suc i) mod ?n)) [0..<?k - 1]"
    by (simp add: ring_content_def comp_def)
  moreover have "(Suc ?h mod ?n + i) mod ?n = (?h + Suc i) mod ?n" for i
    by (metis add_Suc_right add_Suc mod_add_left_eq)
  ultimately show "ring_inv st' \<and> ring_content st = job # ring_content st' \<and>
      ring_room st' = ring_room st + 1"
    using inv k pop by (auto simp: ring_inv_def ring_pop_def ring_content_def ring_room_def)
qed

lemma ring_content_length [simp]: "length (ring_content st) = exe_queued st"
  by (simp add: ring_content_def)

lemma ring_content_nil: "ring_content st = [] \<longleftrightarrow> exe_queued st = 0"
  by (simp add: ring_content_def)

lemma batch_collect_pops: "batch_collect n st = ring.pops n st"
  by (induction n st rule: batch_collect.induct) (auto simp: ring_content_nil split: prod.splits)

lemma ring_update [simp]:
  "ring_inv (st\<lparr>exe_active := a\<rparr>) = ring_inv st" "ring_content (st\<lparr>exe_active := a\<rparr>) = ring_content st"
  "ring_inv (st\<lparr>exe_completed := c\<rparr>) = ring_inv st" "ring_content (st\<lparr>exe_completed := c\<rparr>) = ring_content st"
  "ring_inv (st\<lparr>exe_submitted := u\<rparr>) = ring_inv st" "ring_content (st\<lparr>exe_submitted := u\<rparr>) = ring_content st"
  "ring_inv (st\<lparr>exe_rejected := v\<rparr>) = ring_inv st" "ring_content (st\<lparr>exe_rejected := v\<rparr>) = ring_content st"
  "ring_inv (st\<lparr>exe_accepting := w\<rparr>) = ring_inv st" "ring_content (st\<lparr>exe_accepting := w\<rparr>) = ring_content st"
  by (simp_all add: ring_inv_def ring_content_def)

text \<open>Everything of the state that the ring operations leave alone.\<close>

definition same_counters :: "EXECUTOR_STATE \<Rightarrow> EXECUTOR_STATE \<Rightarrow> bool" where
  "same_counters st st' \<longleftrightarrow> exe_active st' = exe_active st \<and> exe_submitted st' = exe_submitted st \<and>
     exe_completed st' = exe_completed st \<and> exe_accepting st' = exe_accepting st \<and>
     exe_batch_function st' = exe_batch_function st \<and> exe_max_batch st' = exe_max_batch st \<and>
     exe_queue_capacity st' = exe_queue_capacity st"

lemma ring_push_same: "same_counters st (ring_push st job)"
  by (simp add: same_counters_def ring_push_def Let_def)

lemma ring_pop_same: "ring_pop st = (job, st') \<Longrightarrow> same_counters st st'"
  by (auto simp: same_counters_def ring_pop_def)

lemma batch_collect_same: "batch_collect n st = (js, st') \<Longrightarrow> same_counters st st'"
proof (induction n arbitrary: st js)
  case 0
  then show ?case by (simp add: same_counters_def)
next
  case (Suc n)
  then show ?case
    by (auto simp: same_counters_def dest!: ring_pop_same split: if_splits prod.splits) 
qed

subsection \<open>The invariant of the system\<close>

fun running :: "worker \<Rightarrow> nat" where
  "running (Worker_running js) = length js"
| "running w = 0"

definition batch_limit :: "EXECUTOR_STATE \<Rightarrow> nat" where
  "batch_limit st = (if exe_batch_function st = None then 1 else exe_max_batch st)"

definition exe_inv :: "exe_system \<Rightarrow> bool" where
  "exe_inv s \<longleftrightarrow> ring_inv (sys_state s) \<and> 0 < batch_limit (sys_state s) \<and>
     sys_accepted s = sys_taken s @ ring_content (sys_state s) \<and>
     exe_active (sys_state s) = sum_list (map running (sys_workers s)) \<and>
     exe_submitted (sys_state s) = word_of_nat (length (sys_accepted s)) \<and>
     exe_completed (sys_state s) + word_of_nat (exe_active (sys_state s)) = word_of_nat (length (sys_taken s)) \<and>
     (Worker_exited \<in> set (sys_workers s) \<longrightarrow> \<not> exe_accepting (sys_state s) \<and> exe_queued (sys_state s) = 0) \<and>
     (\<forall>w \<in> set (sys_workers s). running w \<le> batch_limit (sys_state s)) \<and>
     (exe_batch_function (sys_state s) = None \<longrightarrow> (\<forall>js. Worker_running js \<in> set (sys_workers s) \<longrightarrow> length js = 1))"

lemma worker_take_spec:
  assumes "worker_step_take st = Worker_take js st'" and "ring_inv st" and "0 < batch_limit st"
  shows "ring_inv st'" "ring_content st = js @ ring_content st'" "js \<noteq> []" "length js \<le> batch_limit st"
    "exe_active st' = exe_active st + length js" "exe_submitted st' = exe_submitted st"
    "exe_completed st' = exe_completed st" "exe_accepting st' = exe_accepting st"
    "exe_batch_function st' = exe_batch_function st" "batch_limit st' = batch_limit st"
    "exe_batch_function st = None \<longrightarrow> length js = 1" "exe_queue_capacity st' = exe_queue_capacity st"
    "length js = min (batch_limit st) (exe_queued st)"
proof -
  have q: "exe_queued st \<noteq> 0"
    using assms(1) by (auto simp: worker_step_take_def run_worker_take_def run_batch_worker_take_def split: if_splits)
  obtain st1 where collect: "ring.pops (batch_limit st) st = (js, st1)"
    and st': "st' = st1\<lparr>exe_active := exe_active st1 + length js\<rparr>" and same: "same_counters st st1"
  proof (cases "exe_batch_function st")
    case None
    obtain job st1 where p: "ring_pop st = (job, st1)" by (cases "ring_pop st")
    with assms(1) None q have "js = [job]" "st' = st1\<lparr>exe_active := exe_active st1 + 1\<rparr>"
      by (auto simp: worker_step_take_def run_worker_take_def)
    moreover have "ring.pops 1 st = ([job], st1)" using p q by (simp add: ring_content_nil)
    ultimately show thesis
      using that[of st1] None ring_pop_same[OF p] by (simp add: batch_limit_def)
  next
    case (Some f)
    obtain items st1 where p: "batch_collect (exe_max_batch st) st = (items, st1)"
      by (cases "batch_collect (exe_max_batch st) st")
    with assms(1) Some q have "js = items" "st' = st1\<lparr>exe_active := exe_active st1 + length items\<rparr>"
      by (auto simp: worker_step_take_def run_batch_worker_take_def)
    then show thesis
      using that[of st1] Some p batch_collect_same[OF p] by (simp add: batch_limit_def batch_collect_pops)
  qed
  have pops: "ring_inv st1" "ring_content st = js @ ring_content st1"
    "length js = min (batch_limit st) (exe_queued st)"
    using ring.pops_content[OF assms(2) collect] by auto
  show "ring_inv st'" "ring_content st = js @ ring_content st'" using pops st' by simp_all
  have len: "0 < length js" "length js \<le> batch_limit st" using pops(3) assms(3) q by auto
  show "js \<noteq> []" "length js \<le> batch_limit st" using len by auto
  show "exe_active st' = exe_active st + length js" "exe_submitted st' = exe_submitted st"
    "exe_completed st' = exe_completed st" "exe_accepting st' = exe_accepting st"
    "exe_batch_function st' = exe_batch_function st" "batch_limit st' = batch_limit st"
    "exe_queue_capacity st' = exe_queue_capacity st"
    using st' same by (simp_all add: same_counters_def batch_limit_def)
  show "length js = min (batch_limit st) (exe_queued st)" by (rule pops(3))
  show "exe_batch_function st = None \<longrightarrow> length js = 1"
    using len by (auto simp: batch_limit_def le_Suc_eq)
qed

lemma submit_spec:
  assumes "YAP_V2_executor_try_submit st f c = (r, st') \<and> job = \<lparr>job_function = f, job_context = c\<rparr> \<or>
      YAP_V2_executor_try_submit_item st c = (r, st') \<and> job = \<lparr>job_function = None, job_context = c\<rparr>"
    and "ring_inv st"
  shows "ring_inv st'" "batch_limit st' = batch_limit st" "exe_active st' = exe_active st"
    "exe_completed st' = exe_completed st" "exe_accepting st' = exe_accepting st"
    "exe_batch_function st' = exe_batch_function st"
    "ring_content st' = ring_content st @ (if r = Executor_status YAP_V2_OK then [job] else [])"
    "exe_submitted st' = exe_submitted st + (if r = Executor_status YAP_V2_OK then 1 else 0)"
    "r = Executor_status YAP_V2_OK \<longrightarrow> exe_accepting st"
proof -
  consider (reject) "r \<noteq> Executor_status YAP_V2_OK" "st' = st \<or> st' = st\<lparr>exe_rejected := exe_rejected st + 1\<rparr>"
    | (accept) "r = Executor_status YAP_V2_OK" "exe_accepting st" "0 < ring_room st"
      "st' = (ring_push st job)\<lparr>exe_submitted := exe_submitted (ring_push st job) + 1\<rparr>"
    using assms
    by (auto simp: YAP_V2_executor_try_submit_def YAP_V2_executor_try_submit_item_def Let_def
        ring_room_def ring_inv_def split: if_splits)
  note cases = this
  have "ring_inv st' \<and> batch_limit st' = batch_limit st \<and> exe_active st' = exe_active st \<and>
    exe_completed st' = exe_completed st \<and> exe_accepting st' = exe_accepting st \<and>
    exe_batch_function st' = exe_batch_function st \<and>
    ring_content st' = ring_content st @ (if r = Executor_status YAP_V2_OK then [job] else []) \<and>
    exe_submitted st' = exe_submitted st + (if r = Executor_status YAP_V2_OK then 1 else 0) \<and>
    (r = Executor_status YAP_V2_OK \<longrightarrow> exe_accepting st)"
    using cases
  proof cases
    case reject
    then show ?thesis using assms(2) by (auto simp: batch_limit_def)
  next
    case accept
    then show ?thesis
      using ring.content_push[OF assms(2) accept(3), of job] ring_push_same[of st job]
      by (simp add: batch_limit_def same_counters_def)
  qed
  then show "ring_inv st'" "batch_limit st' = batch_limit st" "exe_active st' = exe_active st"
    "exe_completed st' = exe_completed st" "exe_accepting st' = exe_accepting st"
    "exe_batch_function st' = exe_batch_function st"
    "ring_content st' = ring_content st @ (if r = Executor_status YAP_V2_OK then [job] else [])"
    "exe_submitted st' = exe_submitted st + (if r = Executor_status YAP_V2_OK then 1 else 0)"
    "r = Executor_status YAP_V2_OK \<longrightarrow> exe_accepting st"
    by blast+
qed

lemma sum_list_update_running:
  "i < length ws \<Longrightarrow> sum_list (map running (ws[i := w])) + running (ws ! i) =
     sum_list (map running ws) + running w"
proof (induction ws arbitrary: i)
  case (Cons v vs)
  show ?case
  proof (cases i)
    case (Suc j)
    with Cons.IH[of j] Cons.prems show ?thesis by simp
  qed simp
qed simp

lemma exe_inv_submit:
  assumes "exe_inv s"
    and "YAP_V2_executor_try_submit (sys_state s) f c = (r, st) \<and> job = \<lparr>job_function = f, job_context = c\<rparr> \<or>
      YAP_V2_executor_try_submit_item (sys_state s) c = (r, st) \<and> job = \<lparr>job_function = None, job_context = c\<rparr>"
  shows "exe_inv (s\<lparr>sys_state := st,
    sys_accepted := sys_accepted s @ (if r = Executor_status YAP_V2_OK then [job] else [])\<rparr>)"
proof -
  have ring: "ring_inv (sys_state s)" using assms(1) by (simp add: exe_inv_def)
  note sp = submit_spec[OF assms(2) ring]
  have "exe_queued st = exe_queued (sys_state s)" if "\<not> exe_accepting (sys_state s)"
    using sp(7,9) that by (metis append_Nil2 ring_content_length)
  then show ?thesis
    using assms(1) sp by (auto simp: exe_inv_def)
qed

lemma exe_inv_take:
  assumes "exe_inv s" and "i < length (sys_workers s)" and "sys_workers s ! i = Worker_idle"
    and "worker_step_take (sys_state s) = Worker_take js st"
  shows "exe_inv (s\<lparr>sys_state := st, sys_workers := (sys_workers s)[i := Worker_running js],
      sys_taken := sys_taken s @ js\<rparr>)"
proof -
  have pre: "ring_inv (sys_state s)" "0 < batch_limit (sys_state s)"
    using assms(1) by (simp_all add: exe_inv_def)
  note sp = worker_take_spec[OF assms(4) pre]
  have sum: "sum_list (map running ((sys_workers s)[i := Worker_running js])) =
      exe_active (sys_state s) + length js"
    using sum_list_update_running[OF assms(2), of "Worker_running js"] assms(1,3)
    by (simp add: exe_inv_def)
  have "exe_queued (sys_state s) \<noteq> 0"
    using sp(2,3) ring_content_nil[of "sys_state s"] by auto
  then have alive: "Worker_exited \<notin> set (sys_workers s)"
    using assms(1) by (auto simp: exe_inv_def)
  have mem: "set ((sys_workers s)[i := Worker_running js]) \<subseteq> insert (Worker_running js) (set (sys_workers s))"
    by (rule set_update_subset_insert)
  show ?thesis
    using assms(1) sp sum alive mem unfolding exe_inv_def
    by (auto simp: algebra_simps)
qed

lemma exe_inv_done:
  assumes "exe_inv s" and "i < length (sys_workers s)" and "sys_workers s ! i = Worker_running js"
  shows "exe_inv (s\<lparr>sys_state := worker_step_done (length js) (sys_state s),
      sys_workers := (sys_workers s)[i := Worker_idle]\<rparr>)"
proof -
  let ?st = "sys_state s"
  have one: "exe_batch_function ?st = None \<longrightarrow> length js = 1"
    using assms by (auto simp: exe_inv_def in_set_conv_nth)
  then have done_eq: "worker_step_done (length js) ?st =
      ?st\<lparr>exe_active := exe_active ?st - length js, exe_completed := exe_completed ?st + word_of_nat (length js)\<rparr>"
    by (auto simp: worker_step_done_def run_worker_done_def run_batch_worker_done_def)
  have sum: "sum_list (map running ((sys_workers s)[i := Worker_idle])) + length js = exe_active ?st"
    using sum_list_update_running[OF assms(2), of Worker_idle] assms(1,3) by (simp add: exe_inv_def)
  then have act: "exe_active ?st - length js = sum_list (map running ((sys_workers s)[i := Worker_idle]))"
    "(word_of_nat (exe_active ?st) :: u64) =
       word_of_nat (sum_list (map running ((sys_workers s)[i := Worker_idle]))) + word_of_nat (length js)"
    by (simp, metis of_nat_add)
  have mem: "set ((sys_workers s)[i := Worker_idle]) \<subseteq> insert Worker_idle (set (sys_workers s))"
    by (rule set_update_subset_insert)
  show ?thesis
    using assms(1) act mem unfolding exe_inv_def done_eq
    by (auto simp: algebra_simps batch_limit_def)
qed

lemma exe_inv_exit:
  assumes "exe_inv s" and "i < length (sys_workers s)" and "sys_workers s ! i = Worker_idle"
    and "worker_step_take (sys_state s) = Worker_exit"
  shows "exe_inv (s\<lparr>sys_workers := (sys_workers s)[i := Worker_exited]\<rparr>)"
proof -
  have "\<not> exe_accepting (sys_state s)" "exe_queued (sys_state s) = 0"
    using assms(4) by (auto simp: worker_step_take_def run_worker_take_def run_batch_worker_take_def split: if_splits prod.splits)
  moreover have "sum_list (map running ((sys_workers s)[i := Worker_exited])) = sum_list (map running (sys_workers s))"
    using sum_list_update_running[OF assms(2), of Worker_exited] assms(3) by simp
  moreover have "set ((sys_workers s)[i := Worker_exited]) \<subseteq> insert Worker_exited (set (sys_workers s))"
    by (rule set_update_subset_insert)
  ultimately show ?thesis
    using assms(1) unfolding exe_inv_def by auto
qed

lemma exe_inv_step: "exe_step s s' \<Longrightarrow> exe_inv s \<Longrightarrow> exe_inv s'"
proof (induction rule: exe_step.induct)
  case (step_submit s f c r st)
  then show ?case using exe_inv_submit[of s f c r st] by blast
next
  case (step_submit_item s c r st)
  then show ?case using exe_inv_submit[of s None c r st] by blast
next
  case (step_take i s js st)
  then show ?case using exe_inv_take by blast
next
  case (step_done i s js)
  then show ?case using exe_inv_done by blast
next
  case (step_exit i s)
  then show ?case using exe_inv_exit by blast
next
  case (step_close s)
  then show ?case by (auto simp: exe_inv_def YAP_V2_executor_close_def batch_limit_def)
qed

lemma open_inv: "YAP_V2_executor_open a b c n None w q = Inr st \<Longrightarrow> exe_inv (exe_start st) \<and> 0 < exe_started_threads st"
  by (auto simp: YAP_V2_executor_open_def exe_inv_def exe_start_def ring_inv_def ring_content_def
      batch_limit_def in_set_replicate sum_list_replicate split: if_splits)

lemma open_batch_inv:
  assumes "YAP_V2_executor_open_batch a b c n d e None q m t f x = Inr st"
  shows "exe_inv (exe_start st)" "0 < exe_started_threads st"
  using assms
  by (auto simp: YAP_V2_executor_open_batch_def YAP_V2_executor_open_def exe_inv_def exe_start_def
      ring_inv_def ring_content_def batch_limit_def rbind_Inr_iff Let_def in_set_replicate
      split: if_splits)

lemma exe_step_workers: "exe_step s s' \<Longrightarrow> length (sys_workers s') = length (sys_workers s)"
  by (induction rule: exe_step.induct) auto

lemma reachable_inv: "exe_reachable s \<Longrightarrow> exe_inv s \<and> sys_workers s \<noteq> []"
proof (induction rule: exe_reachable.induct)
  case (reach_open a b c n w q st)
  then show ?case using open_inv by (auto simp: exe_start_def)
next
  case (reach_open_batch a b c n d e q m t f x st)
  then show ?case using open_batch_inv by (auto simp: exe_start_def)
next
  case (reach_step s s')
  then show ?case using exe_inv_step exe_step_workers[of s s'] by auto
qed

text \<open>
  C31. In every reachable state of an executor, under every interleaving of submitters, workers and
  the closing thread: the jobs handed to workers followed by the jobs still queued are exactly the
  accepted jobs in the order of acceptance (nothing is lost, duplicated or reordered), the queue
  never exceeds its capacity, every job in progress is counted as active, no worker holds more than
  one job (or one batch), and modulo \<open>2 ^ 64\<close> the counters satisfy
  \<open>submitted = completed + active + queued\<close>.
\<close>

theorem executor_fifo:
  assumes "exe_reachable s"
  shows "sys_accepted s = sys_taken s @ ring_content (sys_state s) \<and>
    exe_queued (sys_state s) \<le> exe_queue_capacity (sys_state s) \<and>
    exe_active (sys_state s) = sum_list (map running (sys_workers s)) \<and>
    (\<forall>w \<in> set (sys_workers s). running w \<le> batch_limit (sys_state s)) \<and>
    exe_submitted (sys_state s) = exe_completed (sys_state s) +
      word_of_nat (exe_active (sys_state s)) + word_of_nat (exe_queued (sys_state s))"
proof -
  have inv: "exe_inv s" using reachable_inv[OF assms] by simp
  then have len: "length (sys_accepted s) = length (sys_taken s) + exe_queued (sys_state s)"
    by (simp add: exe_inv_def)
  have "exe_submitted (sys_state s) = word_of_nat (length (sys_taken s)) + word_of_nat (exe_queued (sys_state s))"
    using inv len by (simp add: exe_inv_def)
  moreover have "exe_completed (sys_state s) + word_of_nat (exe_active (sys_state s)) =
      word_of_nat (length (sys_taken s))"
    using inv unfolding exe_inv_def by blast
  ultimately have "exe_submitted (sys_state s) = exe_completed (sys_state s) +
      word_of_nat (exe_active (sys_state s)) + word_of_nat (exe_queued (sys_state s))"
    by (simp only:)
  with inv show ?thesis unfolding exe_inv_def ring_inv_def by blast
qed

text \<open>
  C32. Closing drains the queue: once every worker has left (which is what \<open>YAP_V2_executor_close\<close> waits
  for before it frees the queue), every accepted job has been handed to a worker and has finished,
  no job is queued or active, and the completed counter equals the submitted one.
\<close>

theorem executor_close_drains:
  assumes "exe_reachable s" and "\<forall>w \<in> set (sys_workers s). w = Worker_exited"
  shows "sys_taken s = sys_accepted s \<and> exe_queued (sys_state s) = 0 \<and> exe_active (sys_state s) = 0 \<and>
    exe_completed (sys_state s) = exe_submitted (sys_state s) \<and> \<not> exe_accepting (sys_state s)"
proof -
  have inv: "exe_inv s" and ne: "sys_workers s \<noteq> []" using reachable_inv[OF assms(1)] by auto
  then have "Worker_exited \<in> set (sys_workers s)" using assms(2) by (cases "sys_workers s") auto
  then have "exe_queued (sys_state s) = 0" "\<not> exe_accepting (sys_state s)"
    using inv by (auto simp: exe_inv_def)
  moreover have "sum_list (map running (sys_workers s)) = 0"
    using assms(2) by (auto simp: sum_list_eq_0_iff)
  then have "exe_active (sys_state s) = 0"
    using inv by (simp add: exe_inv_def)
  moreover from this have "exe_completed (sys_state s) = word_of_nat (length (sys_taken s))"
  proof -
    have "exe_completed (sys_state s) + word_of_nat (exe_active (sys_state s)) = word_of_nat (length (sys_taken s))"
      using inv unfolding exe_inv_def by blast
    with \<open>exe_active (sys_state s) = 0\<close> show ?thesis by simp
  qed
  moreover have "sys_accepted s = sys_taken s @ ring_content (sys_state s)"
    "exe_submitted (sys_state s) = word_of_nat (length (sys_accepted s))"
    using inv unfolding exe_inv_def by blast+
  ultimately show ?thesis by (simp add: ring_content_nil)
qed


subsection \<open>A run\<close>

text \<open>One worker and a queue of two: two jobs are submitted, run and the executor is closed.\<close>

definition sample_open :: EXECUTOR_STATE where
  "sample_open = \<lparr>exe_jobs = [empty_job, empty_job], exe_worker_threads = 1, exe_started_threads = 1,
     exe_queue_capacity = 2, exe_head = 0, exe_queued = 0, exe_active = 0, exe_submitted = 0,
     exe_completed = 0, exe_rejected = 0, exe_accepting = True, exe_max_batch = 0,
     exe_max_delay_microseconds = 0, exe_batch_function = None, exe_batch_context = None\<rparr>"

definition sample_job :: EXECUTOR_JOB where
  "sample_job = \<lparr>job_function = Some 1, job_context = Some 2\<rparr>"

definition sample_submitted :: exe_system where
  "sample_submitted = \<lparr>sys_state = sample_open\<lparr>exe_jobs := [sample_job, empty_job], exe_queued := 1, exe_submitted := 1\<rparr>,
     sys_workers = [Worker_idle], sys_accepted = [sample_job], sys_taken = []\<rparr>"

definition sample_closed :: exe_system where
  "sample_closed = \<lparr>sys_state = sample_open\<lparr>exe_jobs := [sample_job, empty_job], exe_head := 1, exe_submitted := 1,
       exe_completed := 1, exe_accepting := False\<rparr>,
     sys_workers = [Worker_exited], sys_accepted = [sample_job], sys_taken = [sample_job]\<rparr>"

lemma sample_submitted_reachable: "exe_reachable sample_submitted"
proof -
  have "YAP_V2_executor_open True True True 1 None 1 2 = Inr sample_open"
    by (simp add: YAP_V2_executor_open_def sample_open_def numeral_2_eq_2)
  then have r: "exe_reachable (exe_start sample_open)" by (rule reach_open)
  have "YAP_V2_executor_try_submit (sys_state (exe_start sample_open)) (Some 1) (Some 2) =
      (Executor_status YAP_V2_OK, sys_state sample_submitted)"
    by (simp add: YAP_V2_executor_try_submit_def exe_start_def ring_push_def sample_open_def
        sample_submitted_def sample_job_def)
  from step_submit[OF this] have "exe_step (exe_start sample_open) sample_submitted"
    by (simp add: exe_start_def sample_submitted_def sample_job_def sample_open_def)
  with r show ?thesis by (rule reach_step)
qed

lemma sample_closed_reachable: "exe_reachable sample_closed"
proof -
  let ?run = "\<lparr>sys_state = sample_open\<lparr>exe_jobs := [sample_job, empty_job], exe_head := 1, exe_submitted := 1,
      exe_active := 1\<rparr>, sys_workers = [Worker_running [sample_job]], sys_accepted = [sample_job], sys_taken = [sample_job]\<rparr>"
  let ?idle = "\<lparr>sys_state = sample_open\<lparr>exe_jobs := [sample_job, empty_job], exe_head := 1, exe_submitted := 1,
      exe_completed := 1\<rparr>, sys_workers = [Worker_idle], sys_accepted = [sample_job], sys_taken = [sample_job]\<rparr>"
  let ?shut = "?idle\<lparr>sys_state := YAP_V2_executor_close (sys_state ?idle)\<rparr>"
  have "worker_step_take (sys_state sample_submitted) = Worker_take [sample_job] (sys_state ?run)"
    by (simp add: worker_step_take_def run_worker_take_def ring_pop_def sample_submitted_def sample_open_def)
  from step_take[OF _ _ this, of 0] have "exe_step sample_submitted ?run"
    by (simp add: sample_submitted_def)
  moreover have "exe_step ?run ?idle"
    using step_done[of 0 ?run "[sample_job]"]
    by (simp add: worker_step_done_def run_worker_done_def sample_open_def)
  moreover have "exe_step ?idle ?shut" by (rule step_close)
  moreover have "exe_step ?shut sample_closed"
    using step_exit[of 0 ?shut]
    by (simp add: worker_step_take_def run_worker_take_def sample_open_def sample_closed_def YAP_V2_executor_close_def)
  ultimately show ?thesis
    using sample_submitted_reachable reach_step by metis
qed

theorem executor_fifo_witness:
  "sys_accepted sample_submitted = sys_taken sample_submitted @ ring_content (sys_state sample_submitted) \<and>
     sys_accepted sample_submitted = [sample_job]"
  using executor_fifo[OF sample_submitted_reachable] by (simp add: sample_submitted_def)

theorem executor_close_drains_witness:
  "sys_taken sample_closed = sys_accepted sample_closed \<and> exe_queued (sys_state sample_closed) = 0"
  using executor_close_drains[OF sample_closed_reachable] by (simp add: sample_closed_def)


end
