(* ===== verification/Update_Wal.thy ===== *)
theory Update_Wal
  imports File_Io
begin

text \<open>
  The write-ahead log of update batches, \<open>indexing/yappo_update_wal_v2.c\<close>, and the operation record
  of \<open>indexing/yappo_ingest.h\<close> it stores. A \<open>char *\<close> is \<open>None\<close> when null and otherwise the bytes of
  its allocation; \<open>c_string\<close> gives the string it holds. A \<open>float\<close> is its 32 bits, a \<open>size_t\<close> or
  \<open>int64_t\<close> a 64-bit word. The six characters \<open>mkstemp\<close> chooses are the argument \<open>suffix\<close>;
  \<open>mem n\<close> says whether an allocation of \<open>n\<close> bytes succeeds.
\<close>

definition YAP_V2_INGEST_UPSERT :: u32 where "YAP_V2_INGEST_UPSERT = 1"
definition YAP_V2_INGEST_DELETE :: u32 where "YAP_V2_INGEST_DELETE = 2"

record YAP_V2_INGEST_OPERATION =
  op_kind :: u32
  op_id :: "bytes option"
  op_url :: "bytes option"
  op_title :: "bytes option"
  op_body :: "bytes option"
  op_metadata_json :: "bytes option"
  op_updated_at_unix_ms :: u64
  op_vectors :: "u32 list option"
  op_vector_count :: u64
  op_vector_dimensions :: u64

record YAP_V2_UPDATE_WAL =
  wal_base_generation :: u64
  wal_target_generation :: u64
  wal_operations :: "YAP_V2_INGEST_OPERATION list"

definition WAL_HEADER_BYTES :: nat where "WAL_HEADER_BYTES = 64"
definition WAL_OPERATION_HEADER_BYTES :: nat where "WAL_OPERATION_HEADER_BYTES = 72"
definition WAL_VERSION :: u32 where "WAL_VERSION = 1"
definition WAL_MAX_OPERATIONS :: nat where "WAL_MAX_OPERATIONS = 10000"
definition wal_magic :: bytes where "wal_magic = ascii ''YAPWAL2'' @ [0]"

definition sizeof_ingest_operation :: nat where "sizeof_ingest_operation = 80"

lemmas wal_limits = WAL_HEADER_BYTES_def WAL_OPERATION_HEADER_BYTES_def WAL_VERSION_def
  WAL_MAX_OPERATIONS_def wal_magic_def YAP_V2_INGEST_UPSERT_def YAP_V2_INGEST_DELETE_def

subsection \<open>Paths and integers\<close>

definition join_path :: "nat \<Rightarrow> string \<Rightarrow> string \<Rightarrow> string option" where
  "join_path capacity left right =
     (let path = left @ ''/'' @ right in if length path \<ge> capacity then None else Some path)"

definition wal_path :: "string \<Rightarrow> string" where
  "wal_path index_dir = index_dir @ ''/update.wal''"

definition wal_temporary :: "string \<Rightarrow> string \<Rightarrow> string" where
  "wal_temporary suffix index_dir = index_dir @ ''/update.wal.tmp-'' @ suffix"

definition sync_directory :: "io \<Rightarrow> YAP_V2_STATUS" where
  "sync_directory io =
     (if \<not> io Io_open_dir then YAP_V2_IO_ERROR
      else if \<not> io Io_fsync_dir \<or> \<not> io Io_close_dir then YAP_V2_IO_ERROR
      else YAP_V2_OK)"

subsection \<open>Writing\<close>

text \<open>The bytes of the payload written so far, with the running checksum and byte count.\<close>

record WAL_STREAM =
  str_written :: bytes
  str_crc :: u32
  str_payload_bytes :: u64

definition wal_stream :: WAL_STREAM where
  "wal_stream = \<lparr>str_written = [], str_crc = 0xffffffff, str_payload_bytes = 0\<rparr>"

definition write_bytes :: "io \<Rightarrow> nat \<Rightarrow> bytes \<Rightarrow> WAL_STREAM \<Rightarrow> YAP_V2_STATUS \<times> WAL_STREAM" where
  "write_bytes io short data st =
     (if data \<noteq> [] \<and> \<not> io (Io_fwrite_at (length (str_written st)))
        then (YAP_V2_IO_ERROR, st\<lparr>str_written := str_written st @ take short data\<rparr>)
      else
        (let st = st\<lparr>str_written := str_written st @ data,
                      str_crc := crc32c_update (str_crc st) data\<rparr> in
         if length data > unat (- 1 - str_payload_bytes st) then (YAP_V2_OUT_OF_RANGE, st)
         else (YAP_V2_OK,
           st\<lparr>str_payload_bytes := str_payload_bytes st + word_of_nat (length data)\<rparr>)))"

fun write_chunks :: "io \<Rightarrow> nat \<Rightarrow> bytes list \<Rightarrow> WAL_STREAM \<Rightarrow> YAP_V2_STATUS \<times> WAL_STREAM" where
  "write_chunks io short [] st = (YAP_V2_OK, st)"
| "write_chunks io short (data # rest) st =
     (case write_bytes io short data st of
        (status, st) \<Rightarrow> if status = YAP_V2_OK then write_chunks io short rest st else (status, st))"

fun text_string :: "bytes option \<Rightarrow> bytes" where
  "text_string None = []"
| "text_string (Some s) = c_string s"

definition text_length :: "bytes option \<Rightarrow> nat" where
  "text_length v = length (text_string v)"

definition operation_texts :: "YAP_V2_INGEST_OPERATION \<Rightarrow> bytes option list" where
  "operation_texts operation =
     [op_id operation, op_url operation, op_title operation, op_body operation,
      op_metadata_json operation]"

definition vector_values :: "YAP_V2_INGEST_OPERATION \<Rightarrow> u64" where
  "vector_values operation = op_vector_count operation * op_vector_dimensions operation"

definition kind_valid :: "u32 \<Rightarrow> bool" where
  "kind_valid kind \<longleftrightarrow> kind = YAP_V2_INGEST_UPSERT \<or> kind = YAP_V2_INGEST_DELETE"

definition operation_check :: "YAP_V2_INGEST_OPERATION \<Rightarrow> YAP_V2_STATUS" where
  "operation_check operation =
     (if op_id operation = None \<or> \<not> kind_valid (op_kind operation) then YAP_V2_INVALID_ARGUMENT
      else if op_vector_count operation \<noteq> 0 \<and>
              unat (op_vector_dimensions operation) > SIZE_MAX div unat (op_vector_count operation)
        then YAP_V2_OUT_OF_RANGE
      else if vector_values operation \<noteq> 0 \<and> op_vectors operation = None
        then YAP_V2_INVALID_ARGUMENT
      else YAP_V2_OK)"

definition operation_record :: "YAP_V2_INGEST_OPERATION \<Rightarrow> bytes" where
  "operation_record operation =
     put_u32 (op_kind operation) @ replicate 4 0 @ put_u64 (op_updated_at_unix_ms operation) @
     put_u64 (op_vector_count operation) @ put_u64 (op_vector_dimensions operation) @
     concat (map (\<lambda>t. put_u64 (word_of_nat (text_length t))) (operation_texts operation))"

definition operation_chunks :: "YAP_V2_INGEST_OPERATION \<Rightarrow> bytes list" where
  "operation_chunks operation =
     operation_record operation # map text_string (operation_texts operation) @
     map (\<lambda>j. put_u32 (the (op_vectors operation) ! j)) [0..<unat (vector_values operation)]"

fun write_operations ::
  "io \<Rightarrow> nat \<Rightarrow> YAP_V2_INGEST_OPERATION list \<Rightarrow> WAL_STREAM \<Rightarrow> YAP_V2_STATUS \<times> WAL_STREAM" where
  "write_operations io short [] st = (YAP_V2_OK, st)"
| "write_operations io short (operation # rest) st =
     (if operation_check operation \<noteq> YAP_V2_OK then (operation_check operation, st)
      else case write_chunks io short (operation_chunks operation) st of
        (status, st) \<Rightarrow>
          if status = YAP_V2_OK then write_operations io short rest st else (status, st))"

definition wal_header :: "u64 \<Rightarrow> u64 \<Rightarrow> WAL_STREAM \<Rightarrow> bytes" where
  "wal_header base_generation operation_count st =
     wal_magic @ put_u32 WAL_VERSION @ put_u32 (word_of_nat WAL_HEADER_BYTES) @
     put_u64 base_generation @ put_u64 (base_generation + 1) @ put_u64 operation_count @
     put_u64 (str_payload_bytes st) @ put_u32 (NOT (str_crc st)) @ replicate 12 0"

definition zero_header :: bytes where
  "zero_header = replicate WAL_HEADER_BYTES 0"

text \<open>The payload behind a zero header, then the real header over it, flushed and synced.\<close>

definition write_log ::
  "io \<Rightarrow> nat \<Rightarrow> u64 \<Rightarrow> YAP_V2_INGEST_OPERATION list \<Rightarrow> YAP_V2_STATUS \<times> bytes list" where
  "write_log io short base_generation operations =
     (if \<not> io Io_fwrite_header then (YAP_V2_IO_ERROR, [take short zero_header])
      else case write_operations io short operations wal_stream of (status, st) \<Rightarrow>
        (let header = wal_header base_generation (word_of_nat (length operations)) st;
             first = zero_header @ str_written st in
         if status \<noteq> YAP_V2_OK then (status, [first])
         else if \<not> io Io_fseek_set then (YAP_V2_IO_ERROR, [first])
         else if \<not> io Io_fwrite
           then (YAP_V2_IO_ERROR, [first, take short header @ drop (min short WAL_HEADER_BYTES) first])
         else (if \<not> io Io_fflush \<or> \<not> io Io_fsync then YAP_V2_IO_ERROR else YAP_V2_OK,
               [first, header @ str_written st])))"

definition YAP_V2_update_wal_write ::
  "io \<Rightarrow> nat \<Rightarrow> string \<Rightarrow> string \<Rightarrow> u64 \<Rightarrow> YAP_V2_INGEST_OPERATION list \<Rightarrow> YAP_V2_STATUS \<times> fs_op list"
where
  "YAP_V2_update_wal_write io short suffix index_dir base_generation operations =
     (let path = wal_path index_dir; temporary = wal_temporary suffix index_dir in
      if operations = [] \<or> length operations > WAL_MAX_OPERATIONS \<or> base_generation = - 1
        then (YAP_V2_INVALID_ARGUMENT, [])
      else if join_path 4096 index_dir ''update.wal'' = None then (YAP_V2_OUT_OF_RANGE, [])
      else if join_path 4096 index_dir ''update.wal.tmp-XXXXXX'' = None then (YAP_V2_OUT_OF_RANGE, [])
      else if \<not> io Io_mkstemp then (YAP_V2_IO_ERROR, [])
      else if \<not> io Io_fdopen then (YAP_V2_IO_ERROR, Fs_create temporary # unlink_op io temporary)
      else case write_log io short base_generation operations of (status, contents) \<Rightarrow>
        (let written = Fs_create temporary # map (Fs_write temporary) contents;
             status = (if \<not> io Io_fclose \<and> status = YAP_V2_OK then YAP_V2_IO_ERROR else status);
             status = (if status = YAP_V2_OK \<and> \<not> io Io_rename then YAP_V2_IO_ERROR else status) in
         if status = YAP_V2_OK then (sync_directory io, written @ [Fs_rename temporary path])
         else (status, written @ unlink_op io temporary)))"

definition YAP_V2_update_wal_exists :: "fs \<Rightarrow> string \<Rightarrow> bool" where
  "YAP_V2_update_wal_exists fs index_dir =
     (case join_path 4096 index_dir ''update.wal'' of None \<Rightarrow> False | Some path \<Rightarrow> fs path \<noteq> None)"

definition YAP_V2_update_wal_clear :: "io \<Rightarrow> fs \<Rightarrow> string \<Rightarrow> YAP_V2_STATUS \<times> fs_op list" where
  "YAP_V2_update_wal_clear io fs index_dir =
     (case join_path 4096 index_dir ''update.wal'' of
        None \<Rightarrow> (YAP_V2_INVALID_ARGUMENT, [])
      | Some path \<Rightarrow>
          if fs path \<noteq> None \<and> \<not> io Io_unlink then (YAP_V2_IO_ERROR, [])
          else (sync_directory io, if fs path = None then [] else [Fs_unlink path]))"

subsection \<open>Loading\<close>

record WAL_CURSOR =
  cur_rest :: bytes
  cur_crc :: u32
  cur_remaining :: u64

definition read_exact :: "io \<Rightarrow> nat \<Rightarrow> WAL_CURSOR \<Rightarrow> (bytes \<times> WAL_CURSOR) outcome" where
  "read_exact io len c =
     (if len > unat (cur_remaining c) then Inl YAP_V2_INVALID_FORMAT
      else if len \<noteq> 0 \<and> (length (cur_rest c) < len \<or> \<not> io (Io_fread_at (unat (cur_remaining c))))
        then Inl YAP_V2_INVALID_FORMAT
      else
        (let data = take len (cur_rest c) in
         Inr (data, \<lparr>cur_rest = drop len (cur_rest c), cur_crc = crc32c_update (cur_crc c) data,
                     cur_remaining = cur_remaining c - word_of_nat len\<rparr>)))"

definition read_text :: "(nat \<Rightarrow> bool) \<Rightarrow> io \<Rightarrow> u64 \<Rightarrow> WAL_CURSOR \<Rightarrow> (bytes \<times> WAL_CURSOR) outcome" where
  "read_text mem io len c =
     (if unat len > SIZE_MAX - 1 then Inl YAP_V2_OUT_OF_RANGE
      else if \<not> mem (unat len + 1) then Inl YAP_V2_ALLOCATION_FAILED
      else case read_exact io (unat len) c of
        Inl status \<Rightarrow> Inl YAP_V2_INVALID_FORMAT
      | Inr r \<Rightarrow> Inr r)"

fun read_texts :: "(nat \<Rightarrow> bool) \<Rightarrow> io \<Rightarrow> u64 list \<Rightarrow> WAL_CURSOR \<Rightarrow> (bytes list \<times> WAL_CURSOR) outcome" where
  "read_texts mem io [] c = Inr ([], c)"
| "read_texts mem io (len # lens) c =
     rbind (read_text mem io len c) (\<lambda>(t, c).
     rbind (read_texts mem io lens c) (\<lambda>(ts, c). Inr (t # ts, c)))"

text \<open>A counted loop of reads.\<close>

primrec read_times :: "(WAL_CURSOR \<Rightarrow> ('a \<times> WAL_CURSOR) outcome) \<Rightarrow> nat \<Rightarrow> WAL_CURSOR \<Rightarrow>
    ('a list \<times> WAL_CURSOR) outcome" where
  "read_times rd 0 c = Inr ([], c)"
| "read_times rd (Suc n) c =
     rbind (rd c) (\<lambda>(x, c). rbind (read_times rd n c) (\<lambda>(xs, c). Inr (x # xs, c)))"

definition read_bits :: "io \<Rightarrow> WAL_CURSOR \<Rightarrow> (u32 \<times> WAL_CURSOR) outcome" where
  "read_bits io c = rbind (read_exact io 4 c) (\<lambda>(encoded, c). Inr (get_u32 encoded, c))"

definition read_vectors ::
  "(nat \<Rightarrow> bool) \<Rightarrow> io \<Rightarrow> u64 \<Rightarrow> WAL_CURSOR \<Rightarrow> (u32 list option \<times> WAL_CURSOR) outcome" where
  "read_vectors mem io values c =
     (if values = 0 then Inr (None, c)
      else if unat values > SIZE_MAX div 4 then Inl YAP_V2_OUT_OF_RANGE
      else if \<not> mem (unat values * 4) then Inl YAP_V2_ALLOCATION_FAILED
      else rbind (read_times (read_bits io) (unat values) c) (\<lambda>(bits, c). Inr (Some bits, c)))"

definition read_operation ::
  "(nat \<Rightarrow> bool) \<Rightarrow> io \<Rightarrow> WAL_CURSOR \<Rightarrow> (YAP_V2_INGEST_OPERATION \<times> WAL_CURSOR) outcome" where
  "read_operation mem io c =
     rbind (read_exact io WAL_OPERATION_HEADER_BYTES c) (\<lambda>(record, c).
       let kind = get_u32 record; vector_count = get_u64 (drop 16 record);
           vector_dimensions = get_u64 (drop 24 record) in
       if \<not> kind_valid kind \<or>
          (vector_count \<noteq> 0 \<and> unat vector_dimensions > SIZE_MAX div unat vector_count)
         then Inl YAP_V2_INVALID_FORMAT
       else
         rbind (read_texts mem io (map (\<lambda>j. get_u64 (drop (32 + j * 8) record)) [0, 1, 2, 3, 4]) c)
           (\<lambda>(texts, c).
         rbind (read_vectors mem io (vector_count * vector_dimensions) c) (\<lambda>(vectors, c).
           if (texts ! 0 @ [0]) ! 0 = 0 then Inl YAP_V2_INVALID_FORMAT
           else Inr (\<lparr>op_kind = kind, op_id = Some (texts ! 0), op_url = Some (texts ! 1),
                      op_title = Some (texts ! 2), op_body = Some (texts ! 3),
                      op_metadata_json = Some (texts ! 4),
                      op_updated_at_unix_ms = get_u64 (drop 8 record), op_vectors = vectors,
                      op_vector_count = vector_count,
                      op_vector_dimensions = vector_dimensions\<rparr>, c))))"

definition load_content :: "(nat \<Rightarrow> bool) \<Rightarrow> io \<Rightarrow> bytes \<Rightarrow> YAP_V2_UPDATE_WAL outcome" where
  "load_content mem io content =
     (let header = take WAL_HEADER_BYTES content;
          operation_count = get_u64 (drop 32 header);
          payload_bytes = get_u64 (drop 40 header);
          base_generation = get_u64 (drop 16 header);
          target_generation = get_u64 (drop 24 header) in
      if \<not> io Io_fstat \<or> length content < WAL_HEADER_BYTES \<or> \<not> io Io_fread then Inl YAP_V2_INVALID_FORMAT
      else if take 8 header \<noteq> wal_magic \<or> get_u32 (drop 8 header) \<noteq> WAL_VERSION \<or>
        get_u32 (drop 12 header) \<noteq> word_of_nat WAL_HEADER_BYTES \<or> operation_count = 0 \<or>
        unat operation_count > WAL_MAX_OPERATIONS \<or>
        payload_bytes \<noteq> word_of_nat (length content) - word_of_nat WAL_HEADER_BYTES
        then Inl YAP_V2_INVALID_FORMAT
      else if base_generation = - 1 \<or> target_generation \<noteq> base_generation + 1
        then Inl YAP_V2_INVALID_FORMAT
      else if \<not> mem (unat operation_count * sizeof_ingest_operation) then Inl YAP_V2_ALLOCATION_FAILED
      else rbind (read_times (read_operation mem io) (unat operation_count)
             \<lparr>cur_rest = drop WAL_HEADER_BYTES content, cur_crc = 0xffffffff,
              cur_remaining = payload_bytes\<rparr>) (\<lambda>(operations, c).
        if cur_remaining c \<noteq> 0 \<or> NOT (cur_crc c) \<noteq> get_u32 (drop 48 header) \<or> cur_rest c \<noteq> []
          then Inl YAP_V2_INVALID_FORMAT
        else Inr \<lparr>wal_base_generation = base_generation, wal_target_generation = target_generation,
                  wal_operations = operations\<rparr>))"

definition YAP_V2_update_wal_load ::
  "(nat \<Rightarrow> bool) \<Rightarrow> io \<Rightarrow> fs \<Rightarrow> string \<Rightarrow> YAP_V2_UPDATE_WAL outcome" where
  "YAP_V2_update_wal_load mem io fs index_dir =
     (case join_path 4096 index_dir ''update.wal'' of
        None \<Rightarrow> Inl YAP_V2_INVALID_ARGUMENT
      | Some path \<Rightarrow>
          (case fs path of
             None \<Rightarrow> Inl YAP_V2_NOT_FOUND
           | Some content \<Rightarrow>
               if \<not> io Io_fopen then Inl YAP_V2_IO_ERROR
               else rbind (load_content mem io content) (\<lambda>wal.
                 if io Io_fclose then Inr wal else Inl YAP_V2_IO_ERROR)))"

subsection \<open>What a successful write puts in the file\<close>

lemma crc32c_update_Nil [simp]: "crc32c_update crc [] = crc"
  by (simp add: crc32c_update_def)

definition stream_inv :: "WAL_STREAM \<Rightarrow> bool" where
  "stream_inv st \<longleftrightarrow> unat (str_payload_bytes st) = length (str_written st) \<and>
     str_crc st = crc32c_update 0xffffffff (str_written st)"

lemma stream_inv_init [simp]: "stream_inv wal_stream" "str_written wal_stream = []"
  by (simp_all add: stream_inv_def wal_stream_def crc32c_update_def)

lemma unat_u64_less: "unat (x :: u64) < 2 ^ 64"
  using unsigned_less[where 'b = 64 and 'a = nat, of x] by simp

lemma word_of_nat_unat_u64: "word_of_nat (unat x) = (x :: u64)"
  by simp

lemma unat_add_len:
  "n \<le> unat (- 1 - x :: u64) \<Longrightarrow> unat (x + word_of_nat n) = unat x + n"
proof -
  assume "n \<le> unat (- 1 - x)"
  moreover have "unat (- 1 - x) = 2 ^ 64 - 1 - unat x"
    by (subst unat_sub) (simp_all add: unsigned_minus_1_eq_mask mask_eq_exp_minus_1)
  ultimately have "unat x + n < 2 ^ 64"
    using unat_u64_less[of x] by simp
  then show ?thesis
    by (simp add: unat_word_ariths unat_of_nat)
qed

lemma write_bytes_ok:
  assumes "stream_inv st" and "write_bytes io short data st = (YAP_V2_OK, st')"
  shows "stream_inv st' \<and> str_written st' = str_written st @ data"
  using assms unat_add_len[of "length data" "str_payload_bytes st"]
  by (auto simp: write_bytes_def Let_def stream_inv_def crc32c_update_append crc32c_update_Nil
      split: if_splits)

lemma write_chunks_ok:
  "stream_inv st \<Longrightarrow> write_chunks io short ds st = (YAP_V2_OK, st') \<Longrightarrow>
     stream_inv st' \<and> str_written st' = str_written st @ concat ds"
proof (induction ds arbitrary: st)
  case (Cons d ds)
  then obtain st1 where st1: "write_bytes io short d st = (YAP_V2_OK, st1)"
    "write_chunks io short ds st1 = (YAP_V2_OK, st')"
    by (auto split: prod.splits if_splits)
  with write_bytes_ok[OF Cons.prems(1) st1(1)] Cons.IH[of st1] show ?case by simp
qed simp

definition operation_bytes :: "YAP_V2_INGEST_OPERATION \<Rightarrow> bytes" where
  "operation_bytes operation = concat (operation_chunks operation)"

lemma write_operations_ok:
  "stream_inv st \<Longrightarrow> write_operations io short ops st = (YAP_V2_OK, st') \<Longrightarrow>
     stream_inv st' \<and> str_written st' = str_written st @ concat (map operation_bytes ops) \<and>
     (\<forall>x\<in>set ops. operation_check x = YAP_V2_OK)"
proof (induction ops arbitrary: st)
  case (Cons x xs)
  then obtain st1 where st1: "write_chunks io short (operation_chunks x) st = (YAP_V2_OK, st1)"
    "write_operations io short xs st1 = (YAP_V2_OK, st')" "operation_check x = YAP_V2_OK"
    by (auto split: prod.splits if_splits)
  with write_chunks_ok[OF Cons.prems(1) st1(1)] Cons.IH[of st1] show ?case
    by (simp add: operation_bytes_def)
qed simp

text \<open>The complete log of a batch.\<close>

definition wal_image :: "u64 \<Rightarrow> YAP_V2_INGEST_OPERATION list \<Rightarrow> bytes" where
  "wal_image base_generation ops =
     (let payload = concat (map operation_bytes ops) in
      wal_header base_generation (word_of_nat (length ops))
        \<lparr>str_written = payload, str_crc = crc32c_update 0xffffffff payload,
         str_payload_bytes = word_of_nat (length payload)\<rparr> @ payload)"

lemma write_log_shape:
  assumes "write_log io short base ops = (s, contents)"
  shows "s = YAP_V2_OK \<longrightarrow> (\<exists>first. contents = [first, wal_image base ops]) \<and>
    (\<forall>x\<in>set ops. operation_check x = YAP_V2_OK) \<and> length (concat (map operation_bytes ops)) < 2 ^ 64"
proof
  assume s: "s = YAP_V2_OK"
  from assms s obtain st where w: "write_operations io short ops wal_stream = (YAP_V2_OK, st)"
    and c: "contents = [zero_header @ str_written st,
              wal_header base (word_of_nat (length ops)) st @ str_written st]"
    by (auto simp: write_log_def Let_def split: if_splits prod.splits)
  have st: "stream_inv st" "str_written st = concat (map operation_bytes ops)"
    "\<forall>x\<in>set ops. operation_check x = YAP_V2_OK"
    using write_operations_ok[OF _ w] by auto
  have len: "length (str_written st) < 2 ^ 64"
    using st(1) unat_u64_less[of "str_payload_bytes st"] by (simp add: stream_inv_def)
  have "str_payload_bytes st = word_of_nat (length (str_written st))"
    using st(1) word_of_nat_unat_u64[of "str_payload_bytes st"] by (simp add: stream_inv_def)
  then have "wal_image base ops = wal_header base (word_of_nat (length ops)) st @ str_written st"
    using st(1) by (simp add: wal_image_def Let_def st(2)[symmetric] stream_inv_def wal_header_def)
  with c st len show "(\<exists>first. contents = [first, wal_image base ops]) \<and>
    (\<forall>x\<in>set ops. operation_check x = YAP_V2_OK) \<and> length (concat (map operation_bytes ops)) < 2 ^ 64"
    by simp
qed

lemma wal_temporary_neq: "wal_temporary suffix index_dir \<noteq> wal_path index_dir"
  by (simp add: wal_temporary_def wal_path_def)

lemma wal_write_shape:
  assumes "YAP_V2_update_wal_write io short suffix index_dir base ops = (s, fops)"
  shows "(\<forall>op \<in> set fops. only_touches (wal_temporary suffix index_dir) op) \<and> s \<noteq> YAP_V2_OK \<or>
    replaces (wal_temporary suffix index_dir) (wal_path index_dir) (wal_image base ops) fops"
proof -
  obtain ls contents where l: "write_log io short base ops = (ls, contents)"
    by (cases "write_log io short base ops")
  show ?thesis
  proof (cases "ls = YAP_V2_OK")
    case True
    then obtain first where "contents = [first, wal_image base ops]"
      using write_log_shape[OF l] by blast
    moreover have "replaces t p d [Fs_create t, Fs_write t f, Fs_write t d, Fs_rename t p]" for t p d f
      unfolding replaces_def by (intro exI[of _ "[Fs_create t, Fs_write t f]"] exI[of _ "[]"]) simp
    ultimately show ?thesis
      using assms l True
      by (auto simp: YAP_V2_update_wal_write_def Let_def unlink_op_def split: if_splits)
  next
    case False
    then show ?thesis
      using assms l
      by (auto simp: YAP_V2_update_wal_write_def Let_def unlink_op_def split: if_splits)
  qed
qed

interpretation wal_writer: atomic_writer
  "\<lambda>io short index_dir (suffix, base, ops). YAP_V2_update_wal_write io short suffix index_dir base ops"
  wal_path "\<lambda>(suffix, base, ops). wal_temporary suffix" "\<lambda>(suffix, base, ops). wal_image base ops"
proof
  show "(case d of (suffix, base, ops) \<Rightarrow> wal_temporary suffix) path \<noteq> wal_path path"
    for d :: "string \<times> u64 \<times> YAP_V2_INGEST_OPERATION list" and path
    by (cases d) (simp add: wal_temporary_neq)
qed (use wal_write_shape in \<open>fastforce split: prod.splits\<close>)+

text \<open>With every library call succeeding, a valid batch is logged.\<close>

lemma write_bytes_succeeds:
  assumes "stream_inv st" and "length (str_written st @ data) < 2 ^ 64"
  shows "\<exists>st'. write_bytes (\<lambda>_. True) short data st = (YAP_V2_OK, st')"
proof -
  have "unat (- 1 - str_payload_bytes st) = 2 ^ 64 - 1 - length (str_written st)"
    using assms(1)
    by (subst unat_sub) (simp_all add: unsigned_minus_1_eq_mask mask_eq_exp_minus_1 stream_inv_def)
  then show ?thesis
    using assms by (auto simp: write_bytes_def Let_def)
qed

lemma write_chunks_succeeds:
  "stream_inv st \<Longrightarrow> length (str_written st @ concat ds) < 2 ^ 64 \<Longrightarrow>
     \<exists>st'. write_chunks (\<lambda>_. True) short ds st = (YAP_V2_OK, st')"
proof (induction ds arbitrary: st)
  case (Cons d ds)
  then obtain st1 where st1: "write_bytes (\<lambda>_. True) short d st = (YAP_V2_OK, st1)"
    using write_bytes_succeeds[of st d short] by auto
  with Cons write_bytes_ok[OF Cons.prems(1) st1] show ?case by simp
qed simp

lemma write_operations_succeeds:
  "stream_inv st \<Longrightarrow> length (str_written st @ concat (map operation_bytes ops)) < 2 ^ 64 \<Longrightarrow>
   \<forall>x\<in>set ops. operation_check x = YAP_V2_OK \<Longrightarrow>
     \<exists>st'. write_operations (\<lambda>_. True) short ops st = (YAP_V2_OK, st')"
proof (induction ops arbitrary: st)
  case (Cons x xs)
  then obtain st1 where st1: "write_chunks (\<lambda>_. True) short (operation_chunks x) st = (YAP_V2_OK, st1)"
    using write_chunks_succeeds[of st "operation_chunks x" short]
    by (auto simp: operation_bytes_def)
  with Cons write_chunks_ok[OF Cons.prems(1) st1] show ?case
    by (simp add: operation_bytes_def)
qed simp

lemma wal_write_succeeds:
  assumes "ops \<noteq> []" "length ops \<le> WAL_MAX_OPERATIONS" "base \<noteq> - 1" "length index_dir < 4000"
    and "\<forall>x\<in>set ops. operation_check x = YAP_V2_OK"
    and "length (concat (map operation_bytes ops)) < 2 ^ 64"
  shows "\<exists>fops. YAP_V2_update_wal_write (\<lambda>_. True) short suffix index_dir base ops = (YAP_V2_OK, fops)"
proof -
  obtain st where "write_operations (\<lambda>_. True) short ops wal_stream = (YAP_V2_OK, st)"
    using write_operations_succeeds[of wal_stream ops short] assms(5,6) by auto
  then have "\<exists>contents. write_log (\<lambda>_. True) short base ops = (YAP_V2_OK, contents)"
    by (simp add: write_log_def Let_def)
  with assms show ?thesis
    by (auto simp: YAP_V2_update_wal_write_def Let_def join_path_def sync_directory_def)
qed

subsection \<open>Cursors\<close>

definition advance :: "bytes \<Rightarrow> bytes \<Rightarrow> WAL_CURSOR \<Rightarrow> WAL_CURSOR" where
  "advance rest bs c = \<lparr>cur_rest = rest, cur_crc = crc32c_update (cur_crc c) bs,
     cur_remaining = cur_remaining c - word_of_nat (length bs)\<rparr>"

lemma advance_rest [simp]: "cur_rest (advance rest bs c) = rest"
  by (simp add: advance_def)

lemma advance_advance: "advance rest ys (advance (ys @ rest) xs c) = advance rest (xs @ ys) c"
  by (simp add: advance_def crc32c_update_append algebra_simps)

lemma advance_Nil: "advance (cur_rest c) [] c = c"
  by (simp add: advance_def)

lemma advance_remaining:
  "length bs \<le> unat (cur_remaining c) \<Longrightarrow>
     unat (cur_remaining (advance rest bs c)) = unat (cur_remaining c) - length bs"
proof -
  assume le: "length bs \<le> unat (cur_remaining c)"
  then have "length bs < 2 ^ 64" using unat_u64_less[of "cur_remaining c"] by simp
  then have "unat (word_of_nat (length bs) :: u64) = length bs" by (simp add: unat_of_nat)
  with le show ?thesis by (simp add: advance_def unat_sub word_le_nat_alt)
qed

text \<open>
  Soundness of a reader: it consumes a prefix of the stream and accounts for it in the checksum and
  in the count of remaining bytes. Completeness with respect to an encoder: at the encoding of \<open>x\<close>
  it returns \<open>x\<close>.
\<close>

definition consumes :: "(WAL_CURSOR \<Rightarrow> ('a \<times> WAL_CURSOR) outcome) \<Rightarrow> bool" where
  "consumes rd \<longleftrightarrow> (\<forall>c x c'. rd c = Inr (x, c') \<longrightarrow>
     (\<exists>bs. cur_rest c = bs @ cur_rest c' \<and> length bs \<le> unat (cur_remaining c) \<and>
        c' = advance (cur_rest c') bs c))"

definition reads :: "(WAL_CURSOR \<Rightarrow> ('a \<times> WAL_CURSOR) outcome) \<Rightarrow> bytes \<Rightarrow> 'a \<Rightarrow> bool" where
  "reads rd bs x \<longleftrightarrow> (\<forall>c rest. cur_rest c = bs @ rest \<longrightarrow> length bs \<le> unat (cur_remaining c) \<longrightarrow>
     rd c = Inr (x, advance rest bs c))"

lemma consumesI:
  "(\<And>c x c'. rd c = Inr (x, c') \<Longrightarrow> \<exists>bs. cur_rest c = bs @ cur_rest c' \<and>
     length bs \<le> unat (cur_remaining c) \<and> c' = advance (cur_rest c') bs c) \<Longrightarrow> consumes rd"
  unfolding consumes_def by blast

lemma consumesD:
  "consumes rd \<Longrightarrow> rd c = Inr (x, c') \<Longrightarrow> \<exists>bs. cur_rest c = bs @ cur_rest c' \<and>
     length bs \<le> unat (cur_remaining c) \<and> c' = advance (cur_rest c') bs c"
  unfolding consumes_def by blast

lemma readsI:
  "(\<And>c rest. cur_rest c = bs @ rest \<Longrightarrow> length bs \<le> unat (cur_remaining c) \<Longrightarrow>
     rd c = Inr (x, advance rest bs c)) \<Longrightarrow> reads rd bs x"
  unfolding reads_def by blast

lemma readsD:
  "reads rd bs x \<Longrightarrow> cur_rest c = bs @ rest \<Longrightarrow> length bs \<le> unat (cur_remaining c) \<Longrightarrow>
     rd c = Inr (x, advance rest bs c)"
  unfolding reads_def by blast

lemma consumes_return: "consumes (\<lambda>c. Inr (x, c))"
  by (rule consumesI) (auto intro: exI[of _ "[]"] simp: advance_Nil)

lemma consumes_bind:
  assumes "consumes rd" and "\<And>x. consumes (f x)"
  shows "consumes (\<lambda>c. rbind (rd c) (\<lambda>(x, c). f x c))"
proof (rule consumesI)
  fix c y c' assume "rbind (rd c) (\<lambda>(x, c). f x c) = Inr (y, c')"
  then obtain x c1 where 1: "rd c = Inr (x, c1)" "f x c1 = Inr (y, c')"
    by (auto simp: rbind_Inr_iff)
  from consumesD[OF assms(1) 1(1)] obtain xs where xs: "cur_rest c = xs @ cur_rest c1"
    "length xs \<le> unat (cur_remaining c)" "c1 = advance (cur_rest c1) xs c" by blast
  from consumesD[OF assms(2) 1(2)] obtain ys where ys: "cur_rest c1 = ys @ cur_rest c'"
    "length ys \<le> unat (cur_remaining c1)" "c' = advance (cur_rest c') ys c1" by blast
  have "length (xs @ ys) \<le> unat (cur_remaining c)"
    using xs(2) ys(2) advance_remaining[OF xs(2), of "cur_rest c1"] xs(3) by simp
  moreover have "c' = advance (cur_rest c') (xs @ ys) c"
    using xs(3) ys(1,3) advance_advance by metis
  ultimately show "\<exists>bs. cur_rest c = bs @ cur_rest c' \<and> length bs \<le> unat (cur_remaining c) \<and>
      c' = advance (cur_rest c') bs c"
    using xs(1) ys(1) by (intro exI[of _ "xs @ ys"]) simp
qed

lemma reads_return: "reads (\<lambda>c. Inr (x, c)) [] x"
  by (rule readsI) (metis advance_Nil append_Nil)

lemma reads_bind:
  assumes "reads rd xs x" and "reads (f x) ys y"
  shows "reads (\<lambda>c. rbind (rd c) (\<lambda>(x, c). f x c)) (xs @ ys) y"
proof (rule readsI)
  fix c :: WAL_CURSOR and rest assume c: "cur_rest c = (xs @ ys) @ rest" "length (xs @ ys) \<le> unat (cur_remaining c)"
  have 1: "rd c = Inr (x, advance (ys @ rest) xs c)"
    using c by (intro readsD[OF assms(1)]) auto
  have "f x (advance (ys @ rest) xs c) = Inr (y, advance rest ys (advance (ys @ rest) xs c))"
    using c by (intro readsD[OF assms(2)]) (auto simp: advance_remaining)
  with 1 show "rbind (rd c) (\<lambda>(x, c). f x c) = Inr (y, advance rest (xs @ ys) c)"
    by (simp add: advance_advance)
qed

lemma reads_map: "reads rd bs x \<Longrightarrow> reads (\<lambda>c. rbind (rd c) (\<lambda>(x, c). Inr (g x, c))) bs (g x)"
  using reads_bind[where rd = rd and xs = bs and f = "\<lambda>x c. Inr (g x, c)" and ys = "[]"]
  by (simp add: reads_return)

lemma consumes_times: "consumes rd \<Longrightarrow> consumes (read_times rd n)"
proof (induction n)
  case 0
  then show ?case using consumes_return[of "[]"] by (simp cong: if_cong) 
next
  case (Suc n)
  have "consumes (\<lambda>c. rbind (rd c) (\<lambda>(x, c). rbind (read_times rd n c) (\<lambda>(xs, c). Inr (x # xs, c))))"
    using Suc by (intro consumes_bind consumes_return)
  then show ?case by (simp add: consumes_def)
qed

lemma reads_times:
  "(\<And>x. x \<in> set xs \<Longrightarrow> reads rd (enc x) (f x)) \<Longrightarrow>
     reads (read_times rd (length xs)) (concat (map enc xs)) (map f xs)"
proof (induction xs)
  case Nil
  then show ?case using reads_return[of "[]"] by (simp add: reads_def)
next
  case (Cons x xs)
  have "reads (\<lambda>c. rbind (rd c) (\<lambda>(x, c). rbind (read_times rd (length xs) c) (\<lambda>(xs, c). Inr (x # xs, c))))
      (enc x @ concat (map enc xs)) (f x # map f xs)"
    by (rule reads_bind[where x = "f x"], simp add: Cons.prems)
      (rule reads_map[where x = "map f xs"], simp add: Cons)
  then show ?case by (simp add: reads_def)
qed

subsection \<open>The readers invert the writer\<close>

lemma reads_exact:
  "\<forall>k. io (Io_fread_at k) \<Longrightarrow> n = length bs \<Longrightarrow> reads (read_exact io n) bs bs"
  by (rule readsI) (simp add: read_exact_def advance_def Let_def)

lemma consumes_exact: "consumes (read_exact io n)"
proof (rule consumesI)
  fix c x c' assume "read_exact io n c = Inr (x, c')"
  then have n: "n \<le> unat (cur_remaining c)" "n \<le> length (cur_rest c)" "x = take n (cur_rest c)"
    and c': "c' = \<lparr>cur_rest = drop n (cur_rest c), cur_crc = crc32c_update (cur_crc c) x,
                   cur_remaining = cur_remaining c - word_of_nat n\<rparr>"
    by (auto simp: read_exact_def Let_def split: if_splits)
  then show "\<exists>bs. cur_rest c = bs @ cur_rest c' \<and> length bs \<le> unat (cur_remaining c) \<and>
      c' = advance (cur_rest c') bs c"
    by (intro exI[of _ x]) (simp add: advance_def)
qed

lemma reads_text:
  assumes "\<forall>k. io (Io_fread_at k)" and "\<forall>n. mem n" and "length bs < SIZE_MAX"
  shows "reads (read_text mem io (word_of_nat (length bs))) bs bs"
proof -
  have "unat (word_of_nat (length bs) :: u64) = length bs"
    using assms(3) by (simp add: unat_of_nat)
  with reads_exact[OF assms(1), of "length bs" bs] assms(2,3) show ?thesis
    by (auto simp: reads_def read_text_def)
qed

lemma consumes_text: "consumes (read_text mem io n)"
  using consumes_exact[of io "unat n"]
  by (auto simp: consumes_def read_text_def split: if_splits sum.splits)

lemma reads_texts:
  assumes "\<forall>k. io (Io_fread_at k)" and "\<forall>n. mem n" and "length (concat ts) < SIZE_MAX"
  shows "reads (read_texts mem io (map (\<lambda>t. word_of_nat (length t)) ts)) (concat ts) ts"
  using assms(3)
proof (induction ts)
  case Nil
  then show ?case using reads_return[of "[]"] by (simp add: reads_def)
next
  case (Cons t ts)
  have "reads (\<lambda>c. rbind (read_texts mem io (map (\<lambda>t. word_of_nat (length t)) ts) c)
      (\<lambda>(ts, c). Inr (t # ts, c))) (concat ts) (t # ts)"
    using Cons by (intro reads_map) simp
  with reads_text[OF assms(1,2), of t] Cons.prems
  have "reads (\<lambda>c. rbind (read_text mem io (word_of_nat (length t)) c) (\<lambda>(t, c).
      rbind (read_texts mem io (map (\<lambda>t. word_of_nat (length t)) ts) c) (\<lambda>(ts, c). Inr (t # ts, c))))
      (t @ concat ts) (t # ts)"
    by (intro reads_bind[where x = t]) auto
  then show ?case by (simp add: reads_def)
qed

lemma consumes_texts: "consumes (read_texts mem io ns)"
proof (induction ns)
  case Nil
  then show ?case using consumes_return[of "[]"] by (simp add: consumes_def)
next
  case (Cons n ns)
  have "consumes (\<lambda>c. rbind (read_text mem io n c) (\<lambda>(t, c).
      rbind (read_texts mem io ns c) (\<lambda>(ts, c). Inr (t # ts, c))))"
    using Cons by (intro consumes_bind consumes_text consumes_return)
  then show ?case by (simp add: consumes_def)
qed

lemma reads_bits: "\<forall>k. io (Io_fread_at k) \<Longrightarrow> reads (read_bits io) (put_u32 v) v"
proof -
  assume io: "\<forall>k. io (Io_fread_at k)"
  show ?thesis
    using reads_map[OF reads_exact[OF io, of 4 "put_u32 v"], of get_u32] wal32.get_put[of v "[]"]
    by (simp add: read_bits_def[abs_def] wal32.length_put)
qed

lemma consumes_bits: "consumes (read_bits io)"
  unfolding read_bits_def[abs_def] by (intro consumes_bind consumes_exact consumes_return)

lemma reads_vectors:
  assumes "\<forall>k. io (Io_fread_at k)" and "\<forall>n. mem n" and "unat values = length vs"
    and "length vs * 4 < 2 ^ 64"
  shows "reads (read_vectors mem io values) (concat (map put_u32 vs)) (if values = 0 then None else Some vs)"
proof (cases "values = 0")
  case True
  with assms(3) reads_return[of None] show ?thesis by (simp add: read_vectors_def reads_def)
next
  case False
  have "reads (read_times (read_bits io) (length vs)) (concat (map put_u32 vs)) (map (\<lambda>v. v) vs)"
    by (rule reads_times) (rule reads_bits[OF assms(1)])
  from reads_map[OF this, of Some] False assms(2-4) show ?thesis
    by (auto simp: read_vectors_def reads_def)
qed

lemma consumes_vectors: "consumes (read_vectors mem io values)"
proof -
  have "consumes (\<lambda>c. rbind (read_times (read_bits io) (unat values) c) (\<lambda>(bits, c). Inr (Some bits, c)))"
    by (intro consumes_bind consumes_times consumes_bits consumes_return)
  with consumes_return[of None] show ?thesis
    by (auto simp: consumes_def read_vectors_def)
qed

definition vectors_allocated :: "YAP_V2_INGEST_OPERATION \<Rightarrow> bool" where
  "vectors_allocated x \<longleftrightarrow> (\<forall>vs. op_vectors x = Some vs \<longrightarrow> length vs = unat (vector_values x))"

text \<open>An operation as the loader rebuilds it: null texts become empty strings.\<close>

definition wal_norm :: "YAP_V2_INGEST_OPERATION \<Rightarrow> YAP_V2_INGEST_OPERATION" where
  "wal_norm x = x\<lparr>op_id := Some (text_string (op_id x)), op_url := Some (text_string (op_url x)),
     op_title := Some (text_string (op_title x)), op_body := Some (text_string (op_body x)),
     op_metadata_json := Some (text_string (op_metadata_json x)),
     op_vectors := (if vector_values x = 0 then None else op_vectors x)\<rparr>"

lemma length_operation_record: "length (operation_record x) = WAL_OPERATION_HEADER_BYTES"
  by (simp add: operation_record_def operation_texts_def wal32.length_put wal64.length_put wal_limits)

lemma operation_record_fields:
  "get_u32 (operation_record x) = op_kind x"
  "get_u64 (drop 8 (operation_record x)) = op_updated_at_unix_ms x"
  "get_u64 (drop 16 (operation_record x)) = op_vector_count x"
  "get_u64 (drop 24 (operation_record x)) = op_vector_dimensions x"
  "map (\<lambda>j. get_u64 (drop (32 + j * 8) (operation_record x))) [0, 1, 2, 3, 4] =
     map (\<lambda>t. word_of_nat (length t)) (map text_string (operation_texts x))"
  using wal64.get_put[where rest = "[]"]
  by (simp_all add: operation_record_def operation_texts_def text_length_def
      wal32.length_put wal64.length_put wal64.get_put wal32.get_put)

definition written_vectors :: "YAP_V2_INGEST_OPERATION \<Rightarrow> u32 list" where
  "written_vectors x = (if vector_values x = 0 then [] else the (op_vectors x))"

lemma operation_checkD:
  assumes "operation_check x = YAP_V2_OK" and "vectors_allocated x"
  shows "kind_valid (op_kind x)" "op_id x \<noteq> None"
    "\<not> (op_vector_count x \<noteq> 0 \<and> unat (op_vector_dimensions x) > SIZE_MAX div unat (op_vector_count x))"
    "length (written_vectors x) = unat (vector_values x)"
    "vector_values x \<noteq> 0 \<Longrightarrow> op_vectors x = Some (written_vectors x)"
  using assms by (auto simp: operation_check_def vectors_allocated_def written_vectors_def split: if_splits)

lemma operation_bytes_eq:
  assumes "operation_check x = YAP_V2_OK" and "vectors_allocated x"
  shows "operation_bytes x = operation_record x @ concat (map text_string (operation_texts x)) @
    concat (map put_u32 (written_vectors x))"
proof -
  have "map (\<lambda>j. put_u32 (the (op_vectors x) ! j)) [0..<unat (vector_values x)] =
      map put_u32 (written_vectors x)"
    using operation_checkD(4)[OF assms]
    by (intro nth_equalityI) (auto simp: written_vectors_def)
  then show ?thesis by (simp add: operation_bytes_def operation_chunks_def)
qed

lemma length_concat_put_u32: "length (concat (map put_u32 vs)) = length vs * 4"
  by (induction vs) (simp_all add: wal32.length_put)

lemma text_string_head: "(text_string t @ [0]) ! 0 = 0 \<longleftrightarrow> text_string t = []"
proof (cases "text_string t")
  case (Cons b bs)
  have "0 \<notin> set (text_string t)" by (cases t) auto
  with Cons show ?thesis by auto
qed simp

lemma read_operation_at:
  assumes ok: "operation_check x = YAP_V2_OK" "vectors_allocated x"
    and io: "\<forall>k. io (Io_fread_at k)" and mem: "\<forall>n. mem n"
    and c: "cur_rest c = operation_bytes x @ rest" "length (operation_bytes x) \<le> unat (cur_remaining c)"
  shows "read_operation mem io c =
    (if text_string (op_id x) = [] then Inl YAP_V2_INVALID_FORMAT
     else Inr (wal_norm x, advance rest (operation_bytes x) c))"
proof -
  let ?r = "operation_record x" and ?ts = "map text_string (operation_texts x)"
  let ?vs = "written_vectors x"
  let ?v = "concat (map put_u32 ?vs)"
  define c1 where "c1 = advance (concat ?ts @ ?v @ rest) ?r c"
  define c2 where "c2 = advance (?v @ rest) (concat ?ts) c1"
  have bytes: "operation_bytes x = ?r @ concat ?ts @ ?v" by (rule operation_bytes_eq[OF ok])
  have len: "72 + length (concat ?ts) + length ?v \<le> unat (cur_remaining c)" "length ?r = 72"
    using c(2) by (simp_all add: bytes length_operation_record wal_limits)
  then have small: "length (concat ?ts) < SIZE_MAX" "length ?vs * 4 < 2 ^ 64"
    using unat_u64_less[of "cur_remaining c"] by (simp_all add: length_concat_put_u32)
  have r1: "read_exact io WAL_OPERATION_HEADER_BYTES c = Inr (?r, c1)"
    unfolding c1_def using c len(2) len(1)
    by (intro readsD[OF reads_exact[OF io]]) (simp_all add: bytes wal_limits)
  have c1: "unat (cur_remaining c1) = unat (cur_remaining c) - 72"
    using advance_remaining[of ?r c] len by (simp add: c1_def)
  have r2: "read_texts mem io (map (\<lambda>t. word_of_nat (length t)) ?ts) c1 = Inr (?ts, c2)"
    unfolding c2_def using len(1) c1
    by (intro readsD[OF reads_texts[OF io mem small(1)]]) (simp_all add: c1_def)
  have c2: "unat (cur_remaining c2) = unat (cur_remaining c) - 72 - length (concat ?ts)"
    using advance_remaining[of "concat ?ts" c1] len(1) c1 by (simp add: c2_def)
  have r3: "read_vectors mem io (vector_values x) c2 =
      Inr (if vector_values x = 0 then None else Some ?vs, advance rest ?v c2)"
    using len(1) c2 operation_checkD(4)[OF ok]
    by (intro readsD[OF reads_vectors[OF io mem _ small(2)]]) (simp_all add: c2_def)
  have adv: "advance rest ?v c2 = advance rest (operation_bytes x) c"
    by (simp add: c1_def c2_def advance_advance bytes)
  have nth: "?ts ! 0 = text_string (op_id x)" "?ts ! 1 = text_string (op_url x)"
    "?ts ! 2 = text_string (op_title x)" "?ts ! 3 = text_string (op_body x)"
    "?ts ! 4 = text_string (op_metadata_json x)"
    by (simp_all add: operation_texts_def)
  have norm: "\<lparr>op_kind = op_kind x, op_id = Some (?ts ! 0), op_url = Some (?ts ! 1),
      op_title = Some (?ts ! 2), op_body = Some (?ts ! 3), op_metadata_json = Some (?ts ! 4),
      op_updated_at_unix_ms = op_updated_at_unix_ms x,
      op_vectors = (if vector_values x = 0 then None else Some ?vs),
      op_vector_count = op_vector_count x, op_vector_dimensions = op_vector_dimensions x\<rparr> = wal_norm x"
    unfolding nth using operation_checkD(5)[OF ok] by (simp add: wal_norm_def)
  show ?thesis
    unfolding read_operation_def r1 rbind.simps prod.case Let_def operation_record_fields r2
      vector_values_def[symmetric] r3 adv norm
    using operation_checkD(1,3)[OF ok] text_string_head[of "op_id x"] nth(1) by auto
qed

lemma read_operations_at:
  assumes io: "\<forall>k. io (Io_fread_at k)" and mem: "\<forall>n. mem n"
  shows "\<forall>x\<in>set xs. operation_check x = YAP_V2_OK \<and> vectors_allocated x \<Longrightarrow>
    cur_rest c = concat (map operation_bytes xs) @ rest \<Longrightarrow>
    length (concat (map operation_bytes xs)) \<le> unat (cur_remaining c) \<Longrightarrow>
    read_times (read_operation mem io) (length xs) c =
     (if \<exists>x\<in>set xs. text_string (op_id x) = [] then Inl YAP_V2_INVALID_FORMAT
      else Inr (map wal_norm xs, advance rest (concat (map operation_bytes xs)) c))"
proof (induction xs arbitrary: c)
  case Nil
  then show ?case using advance_Nil[of c] by simp
next
  case (Cons x xs)
  let ?b = "concat (map operation_bytes xs)"
  define c1 where "c1 = advance (?b @ rest) (operation_bytes x) c"
  have len: "length (operation_bytes x) + length ?b \<le> unat (cur_remaining c)"
    using Cons.prems(3) by simp
  have r1: "read_operation mem io c = (if text_string (op_id x) = [] then Inl YAP_V2_INVALID_FORMAT
     else Inr (wal_norm x, c1))"
    unfolding c1_def using Cons.prems len by (intro read_operation_at[OF _ _ io mem]) auto
  have "read_times (read_operation mem io) (length xs) c1 =
     (if \<exists>x\<in>set xs. text_string (op_id x) = [] then Inl YAP_V2_INVALID_FORMAT
      else Inr (map wal_norm xs, advance rest ?b c1))"
    using Cons.prems(1) len advance_remaining[of "operation_bytes x" c]
    by (intro Cons.IH) (auto simp: c1_def)
  with r1 show ?case
    by (simp add: c1_def advance_advance)
qed

subsection \<open>The log as a whole\<close>

lemma length_wal_header: "length (wal_header base n st) = WAL_HEADER_BYTES"
  by (simp add: wal_header_def wal_limits wal32.length_put wal64.length_put)

lemma wal_header_fields:
  "take 8 (wal_header base n st) = wal_magic"
  "get_u32 (drop 8 (wal_header base n st)) = WAL_VERSION"
  "get_u32 (drop 12 (wal_header base n st)) = word_of_nat WAL_HEADER_BYTES"
  "get_u64 (drop 16 (wal_header base n st)) = base"
  "get_u64 (drop 24 (wal_header base n st)) = base + 1"
  "get_u64 (drop 32 (wal_header base n st)) = n"
  "get_u64 (drop 40 (wal_header base n st)) = str_payload_bytes st"
  "get_u32 (drop 48 (wal_header base n st)) = NOT (str_crc st)"
  by (simp_all add: wal_header_def wal_magic_def wal32.length_put wal64.length_put
      wal32.get_put wal64.get_put)

lemma join_path_wal:
  "join_path 4096 index_dir ''update.wal'' =
     (if length (wal_path index_dir) \<ge> 4096 then None else Some (wal_path index_dir))"
  by (simp add: join_path_def wal_path_def Let_def)

lemma wal_write_ok:
  assumes "YAP_V2_update_wal_write io short suffix index_dir base ops = (YAP_V2_OK, fops)"
  shows "ops \<noteq> []" "length ops \<le> WAL_MAX_OPERATIONS" "base \<noteq> - 1" "length (wal_path index_dir) < 4096"
    "\<forall>x\<in>set ops. operation_check x = YAP_V2_OK" "length (concat (map operation_bytes ops)) < 2 ^ 64"
    "run_ops fops fs (wal_path index_dir) = Some (wal_image base ops)"
proof -
  obtain contents where l: "write_log io short base ops = (YAP_V2_OK, contents)"
    using assms by (cases "write_log io short base ops")
      (auto simp: YAP_V2_update_wal_write_def Let_def split: if_splits)
  show "\<forall>x\<in>set ops. operation_check x = YAP_V2_OK" "length (concat (map operation_bytes ops)) < 2 ^ 64"
    using write_log_shape[OF l] by blast+
  show "ops \<noteq> []" "length ops \<le> WAL_MAX_OPERATIONS" "base \<noteq> - 1" "length (wal_path index_dir) < 4096"
    using assms by (auto simp: YAP_V2_update_wal_write_def Let_def join_path_wal split: if_splits)
  show "run_ops fops fs (wal_path index_dir) = Some (wal_image base ops)"
    using wal_writer.ok_new[of io short index_dir "(suffix, base, ops)" fops fs] assms by simp
qed

lemma load_content_image:
  assumes ops: "ops \<noteq> []" "length ops \<le> WAL_MAX_OPERATIONS" "base \<noteq> - 1"
    and ok: "\<forall>x\<in>set ops. operation_check x = YAP_V2_OK \<and> vectors_allocated x"
    and len: "length (concat (map operation_bytes ops)) < 2 ^ 64"
    and mem: "\<forall>n. mem n" and io: "\<forall>c. io c"
  shows "load_content mem io (wal_image base ops) =
    (if \<exists>x\<in>set ops. text_string (op_id x) = [] then Inl YAP_V2_INVALID_FORMAT
     else Inr \<lparr>wal_base_generation = base, wal_target_generation = base + 1,
               wal_operations = map wal_norm ops\<rparr>)"
proof -
  let ?payload = "concat (map operation_bytes ops)"
  let ?st = "\<lparr>str_written = ?payload, str_crc = crc32c_update 0xffffffff ?payload,
      str_payload_bytes = word_of_nat (length ?payload) :: u64\<rparr>"
  let ?h = "wal_header base (word_of_nat (length ops)) ?st"
  let ?c = "\<lparr>cur_rest = ?payload, cur_crc = 0xffffffff, cur_remaining = word_of_nat (length ?payload)\<rparr>"
  have image: "wal_image base ops = ?h @ ?payload" by (simp add: wal_image_def Let_def)
  have h: "take WAL_HEADER_BYTES (wal_image base ops) = ?h" "drop WAL_HEADER_BYTES (wal_image base ops) = ?payload"
    "length (wal_image base ops) = WAL_HEADER_BYTES + length ?payload"
    by (simp_all add: image length_wal_header)
  have n: "unat (word_of_nat (length ops) :: u64) = length ops"
    using ops(2) by (simp add: unat_of_nat wal_limits)
  have nz: "(word_of_nat (length ops) :: u64) \<noteq> 0"
    using n ops(1) by (metis length_0_conv unat_0)
  have "unat (word_of_nat (length ?payload) :: u64) = length ?payload"
    using len by (simp add: unat_of_nat)
  then have r: "read_times (read_operation mem io) (length ops) ?c =
     (if \<exists>x\<in>set ops. text_string (op_id x) = [] then Inl YAP_V2_INVALID_FORMAT
      else Inr (map wal_norm ops, advance [] ?payload ?c))"
    using read_operations_at[of io mem ops ?c "[]"] ok io mem by simp
  show ?thesis
    unfolding load_content_def Let_def h wal_header_fields n
    using nz ops io mem r by (simp add: advance_def wal_limits)
qed

text \<open>
  C36. A batch reported as logged is loaded back by recovery exactly: the generations and every
  operation, with null texts as empty strings. The one exception is an operation whose identifier is
  the empty string: the writer accepts it and the loader then rejects the whole log.
\<close>

theorem wal_write_load:
  assumes "YAP_V2_update_wal_write io short suffix index_dir base ops = (YAP_V2_OK, fops)"
    and "\<forall>x\<in>set ops. vectors_allocated x" and "\<forall>n. mem n" and "\<forall>c. io' c"
  shows "YAP_V2_update_wal_load mem io' (run_ops fops fs) index_dir =
    (if \<exists>x\<in>set ops. text_string (op_id x) = [] then Inl YAP_V2_INVALID_FORMAT
     else Inr \<lparr>wal_base_generation = base, wal_target_generation = base + 1,
               wal_operations = map wal_norm ops\<rparr>)"
  using load_content_image[of ops base mem io'] wal_write_ok[OF assms(1)] assms(2-4)
  by (simp add: YAP_V2_update_wal_load_def join_path_wal)

definition sample_delete :: "bytes \<Rightarrow> YAP_V2_INGEST_OPERATION" where
  "sample_delete identifier = \<lparr>op_kind = YAP_V2_INGEST_DELETE, op_id = Some identifier, op_url = None,
     op_title = None, op_body = None, op_metadata_json = None, op_updated_at_unix_ms = 7,
     op_vectors = None, op_vector_count = 0, op_vector_dimensions = 0\<rparr>"

lemma sample_delete_ok:
  "operation_check (sample_delete i) = YAP_V2_OK" "vectors_allocated (sample_delete i)"
  "length (operation_bytes (sample_delete i)) = 72 + length (c_string i)"
  "op_id (sample_delete i) = Some i"
  by (simp_all add: sample_delete_def operation_check_def vectors_allocated_def vector_values_def
      operation_bytes_def operation_chunks_def operation_texts_def length_operation_record kind_valid_def
      wal_limits)

lemma sample_write:
  "length i < 1000 \<Longrightarrow> \<exists>fops. YAP_V2_update_wal_write (\<lambda>_. True) 0 ''abcdef'' ''d'' 3 [sample_delete i] = (YAP_V2_OK, fops)"
  by (rule wal_write_succeeds)
    (auto simp: sample_delete_ok wal_limits c_string_def intro: le_less_trans[OF length_takeWhile_le])

theorem wal_write_load_witness:
  "(\<exists>fops. YAP_V2_update_wal_write (\<lambda>_. True) 0 ''abcdef'' ''d'' 3 [sample_delete [65]] = (YAP_V2_OK, fops) \<and>
     YAP_V2_update_wal_load (\<lambda>_. True) (\<lambda>_. True) (run_ops fops (\<lambda>_. None)) ''d'' =
     Inr \<lparr>wal_base_generation = 3, wal_target_generation = 4,
          wal_operations = [wal_norm (sample_delete [65])]\<rparr>) \<and>
   (\<exists>fops. YAP_V2_update_wal_write (\<lambda>_. True) 0 ''abcdef'' ''d'' 3 [sample_delete []] = (YAP_V2_OK, fops) \<and>
     YAP_V2_update_wal_load (\<lambda>_. True) (\<lambda>_. True) (run_ops fops (\<lambda>_. None)) ''d'' =
     Inl YAP_V2_INVALID_FORMAT)"
proof
  obtain f where f: "YAP_V2_update_wal_write (\<lambda>_. True) 0 ''abcdef'' ''d'' 3 [sample_delete [65]] = (YAP_V2_OK, f)"
    using sample_write[of "[65]"] by auto
  show "\<exists>fops. YAP_V2_update_wal_write (\<lambda>_. True) 0 ''abcdef'' ''d'' 3 [sample_delete [65]] = (YAP_V2_OK, fops) \<and>
     YAP_V2_update_wal_load (\<lambda>_. True) (\<lambda>_. True) (run_ops fops (\<lambda>_. None)) ''d'' =
     Inr \<lparr>wal_base_generation = 3, wal_target_generation = 4,
          wal_operations = [wal_norm (sample_delete [65])]\<rparr>"
    using wal_write_load[OF f, of "\<lambda>_. True" "\<lambda>_. True"]
    by (intro exI[of _ f]) (simp add: f sample_delete_ok c_string_def)
next
  obtain f where f: "YAP_V2_update_wal_write (\<lambda>_. True) 0 ''abcdef'' ''d'' 3 [sample_delete []] = (YAP_V2_OK, f)"
    using sample_write[of "[]"] by auto
  show "\<exists>fops. YAP_V2_update_wal_write (\<lambda>_. True) 0 ''abcdef'' ''d'' 3 [sample_delete []] = (YAP_V2_OK, fops) \<and>
     YAP_V2_update_wal_load (\<lambda>_. True) (\<lambda>_. True) (run_ops fops (\<lambda>_. None)) ''d'' =
     Inl YAP_V2_INVALID_FORMAT"
    using wal_write_load[OF f, of "\<lambda>_. True" "\<lambda>_. True"]
    by (intro exI[of _ f]) (simp add: f sample_delete_ok c_string_def)
qed

text \<open>
  C37. Crash safety of the log: after any prefix of the file operations of a write, \<open>update.wal\<close> is
  what it was or the complete log of the batch, and no file but the log and its temporary is touched.
\<close>

theorem wal_write_crash_safe:
  assumes "YAP_V2_update_wal_write io short suffix index_dir base ops = (s, fops)"
  shows "(run_ops (take n fops) fs (wal_path index_dir) = fs (wal_path index_dir) \<or>
      run_ops (take n fops) fs (wal_path index_dir) = Some (wal_image base ops)) \<and>
    (q \<noteq> wal_path index_dir \<longrightarrow> q \<noteq> wal_temporary suffix index_dir \<longrightarrow> run_ops fops fs q = fs q)"
  using wal_writer.prefix_old_or_new[of io short index_dir "(suffix, base, ops)" s fops n fs]
    wal_writer.other_paths[of io short index_dir "(suffix, base, ops)" s fops q fs] assms by simp

theorem wal_write_crash_safe_witness:
  "run_ops (take 2 (snd (YAP_V2_update_wal_write (\<lambda>_. True) 0 ''abcdef'' ''d'' 3 [sample_delete [65]])))
      [''d/update.wal'' \<mapsto> [9]] ''d/update.wal'' = Some [9] \<or>
   run_ops (take 2 (snd (YAP_V2_update_wal_write (\<lambda>_. True) 0 ''abcdef'' ''d'' 3 [sample_delete [65]])))
      [''d/update.wal'' \<mapsto> [9]] ''d/update.wal'' = Some (wal_image 3 [sample_delete [65]])"
  using wal_write_crash_safe[of "\<lambda>_. True" 0 "''abcdef''" "''d''" 3 "[sample_delete [65]]" _ _ 2
      "[''d/update.wal'' \<mapsto> [9]]", OF prod.collapse[symmetric]]
  by (simp add: wal_path_def)

lemma consumes_operation: "consumes (read_operation mem io)"
proof -
  have if_fail: "consumes (\<lambda>c. if b then Inl e else rd c)" if "consumes rd" for b e and rd :: "WAL_CURSOR \<Rightarrow> ('b \<times> WAL_CURSOR) outcome"
    using that by (simp add: consumes_def)
  show ?thesis
    unfolding read_operation_def[abs_def] Let_def
    by (intro consumes_bind consumes_exact if_fail consumes_texts consumes_vectors consumes_return)
qed

lemma load_content_crc:
  assumes "load_content mem io content = Inr wal"
  shows "crc32c (drop WAL_HEADER_BYTES content) = get_u32 (drop 48 (take WAL_HEADER_BYTES content))"
proof -
  obtain n operations c where
    r: "read_times (read_operation mem io) n
      \<lparr>cur_rest = drop WAL_HEADER_BYTES content, cur_crc = 0xffffffff,
       cur_remaining = get_u64 (drop 40 (take WAL_HEADER_BYTES content))\<rparr> = Inr (operations, c)"
    and c: "NOT (cur_crc c) = get_u32 (drop 48 (take WAL_HEADER_BYTES content))" "cur_rest c = []"
    using assms unfolding load_content_def Let_def
    by (auto simp: rbind_Inr_iff split: if_splits)
  from consumesD[OF consumes_times[OF consumes_operation] r] c(2)
  have "c = advance [] (drop WAL_HEADER_BYTES content)
      \<lparr>cur_rest = drop WAL_HEADER_BYTES content, cur_crc = 0xffffffff,
       cur_remaining = get_u64 (drop 40 (take WAL_HEADER_BYTES content))\<rparr>" by simp
  then have "cur_crc c = crc32c_update 0xffffffff (drop WAL_HEADER_BYTES content)"
    by (simp add: advance_def)
  with c(1) show ?thesis by (simp add: crc32c_def)
qed

text \<open>
  Recovery never replays a damaged log: from any log it accepts, changing one byte behind the
  header gives a log it rejects.
\<close>

theorem wal_load_damaged:
  assumes "YAP_V2_update_wal_load mem io fs index_dir = Inr wal"
    and "fs (wal_path index_dir) = Some content"
    and "WAL_HEADER_BYTES \<le> i" and "i < length content" and "content ! i \<noteq> b"
  shows "\<exists>s. YAP_V2_update_wal_load mem' io' (fs(wal_path index_dir \<mapsto> content[i := b])) index_dir = Inl s"
proof (rule ccontr)
  assume "\<not> ?thesis"
  then obtain wal' where "YAP_V2_update_wal_load mem' io' (fs(wal_path index_dir \<mapsto> content[i := b])) index_dir = Inr wal'"
    by (cases "YAP_V2_update_wal_load mem' io' (fs(wal_path index_dir \<mapsto> content[i := b])) index_dir") auto
  then have l: "load_content mem' io' (content[i := b]) = Inr wal'" "load_content mem io content = Inr wal"
    using assms(1,2) by (auto simp: YAP_V2_update_wal_load_def join_path_wal rbind_Inr_iff split: if_splits)
  define j where "j = i - WAL_HEADER_BYTES"
  have j: "j < length (drop WAL_HEADER_BYTES content)" "drop WAL_HEADER_BYTES content ! j \<noteq> b"
    "drop WAL_HEADER_BYTES (content[i := b]) = (drop WAL_HEADER_BYTES content)[j := b]"
    "take WAL_HEADER_BYTES (content[i := b]) = take WAL_HEADER_BYTES content"
    using assms(3-5) by (auto simp: j_def drop_update_swap)
  show False
    using load_content_crc[OF l(1)] load_content_crc[OF l(2)] crc32c_list_update[OF j(1,2)] j(3,4) by simp
qed

theorem wal_load_damaged_witness:
  "\<exists>fs content s. fs ''d/update.wal'' = Some content \<and> content ! 64 = 2 \<and>
     YAP_V2_update_wal_load (\<lambda>_. True) (\<lambda>_. True) (fs(''d/update.wal'' \<mapsto> content[64 := 1])) ''d'' = Inl s"
proof -
  let ?ops = "[sample_delete [65]]"
  obtain f where f: "YAP_V2_update_wal_write (\<lambda>_. True) 0 ''abcdef'' ''d'' 3 ?ops = (YAP_V2_OK, f)"
    using sample_write[of "[65]"] by auto
  let ?fs = "run_ops f (\<lambda>_. None)"
  have c: "?fs ''d/update.wal'' = Some (wal_image 3 ?ops)"
    using wal_write_ok(7)[OF f] by (simp add: wal_path_def)
  have "operation_bytes (sample_delete [65]) ! 0 = 2"
    by (simp add: operation_bytes_def operation_chunks_def operation_record_def put_u32_def
        sample_delete_def wal_limits)
  then have i: "wal_image 3 ?ops ! 64 = 2" "64 < length (wal_image 3 ?ops)"
    by (simp_all add: wal_image_def Let_def nth_append length_wal_header sample_delete_ok wal_limits)
  obtain wal where "YAP_V2_update_wal_load (\<lambda>_. True) (\<lambda>_. True) ?fs ''d'' = Inr wal"
    using load_content_image[of ?ops 3 "\<lambda>_. True" "\<lambda>_. True"] c
    by (simp add: YAP_V2_update_wal_load_def join_path_wal wal_path_def sample_delete_ok wal_limits c_string_def)
  from wal_load_damaged[OF this, of "wal_image 3 ?ops" 64 1 "\<lambda>_. True" "\<lambda>_. True"] c i
  show ?thesis by (auto simp: wal_path_def wal_limits)
qed

text \<open>
  Clearing the log, when it reports success, leaves no log, whether or not there was one; and
  whatever it reports it touches no other file.
\<close>

theorem wal_clear_correct:
  assumes "YAP_V2_update_wal_clear io fs index_dir = (s, fops)"
  shows "(s = YAP_V2_OK \<longrightarrow> \<not> YAP_V2_update_wal_exists (run_ops fops fs) index_dir) \<and>
    (q \<noteq> wal_path index_dir \<longrightarrow> run_ops fops fs q = fs q)"
  using assms
  by (auto simp: YAP_V2_update_wal_clear_def YAP_V2_update_wal_exists_def join_path_wal split: if_splits)

theorem wal_clear_correct_witness:
  "\<not> YAP_V2_update_wal_exists
     (run_ops (snd (YAP_V2_update_wal_clear (\<lambda>_. True) [''d/update.wal'' \<mapsto> [9]] ''d''))
       [''d/update.wal'' \<mapsto> [9]]) ''d''"
  using wal_clear_correct[of "\<lambda>_. True" "[''d/update.wal'' \<mapsto> [9]]" "''d''" YAP_V2_OK "[Fs_unlink ''d/update.wal'']"]
  by (simp add: YAP_V2_update_wal_clear_def join_path_def sync_directory_def)

end
