(* ===== verification/Runtime_Policy.thy ===== *)
theory Runtime_Policy
  imports Types_V2
begin

text \<open>
  \<open>config/yappo_runtime_policy_v2.c\<close>: the daemon's runtime limits, the admission limiter and the write
  token; and the bounds of \<open>config/yappo_compaction_policy_v2.c\<close>. The TOML library is a parameter:
  a configuration file is the table it parses to. Each limiter operation is the critical section
  under the limiter's lock; concurrent use is a sequence of such sections. \<open>size_t\<close> values are
  natural numbers, with the subtraction that could wrap written as \<open>size_sub\<close>.
\<close>

definition YAP_V2_WRITE_TOKEN_MAX_BYTES :: nat where "YAP_V2_WRITE_TOKEN_MAX_BYTES = 255"
definition YAP_V2_MAX_TIMEOUT_MS :: nat where "YAP_V2_MAX_TIMEOUT_MS = 60000"
definition YAP_V2_MAX_INGEST_BODY_BYTES :: nat where "YAP_V2_MAX_INGEST_BODY_BYTES = 256 * 1024 * 1024"
definition YAP_V2_MAX_INGEST_TIMEOUT_MS :: nat where "YAP_V2_MAX_INGEST_TIMEOUT_MS = 600000"

lemmas runtime_limits = YAP_V2_WRITE_TOKEN_MAX_BYTES_def YAP_V2_MAX_TIMEOUT_MS_def
  YAP_V2_MAX_INGEST_BODY_BYTES_def YAP_V2_MAX_INGEST_TIMEOUT_MS_def

record YAP_V2_RUNTIME_POLICY =
  pol_max_inflight :: nat
  pol_max_inflight_bytes :: nat
  pol_request_timeout_ms :: u32
  pol_ingest_max_body_bytes :: nat
  pol_ingest_timeout_ms :: u32
  pol_write_token :: bytes

record YAP_V2_RUNTIME_LIMITER =
  lim_inflight :: nat
  lim_inflight_bytes :: nat
  lim_max_inflight :: nat
  lim_max_inflight_bytes :: nat
  lim_initialized :: bool

definition YAP_V2_runtime_policy_init :: YAP_V2_RUNTIME_POLICY where
  "YAP_V2_runtime_policy_init =
     \<lparr>pol_max_inflight = 16, pol_max_inflight_bytes = 4 * 1024 * 1024, pol_request_timeout_ms = 5000,
      pol_ingest_max_body_bytes = 64 * 1024 * 1024, pol_ingest_timeout_ms = 60000,
      pol_write_token = []\<rparr>"

subsection \<open>Configuration\<close>

text \<open>
  What the TOML library answers: \<open>toml_int_in\<close> succeeds on an integer value, \<open>toml_string_in\<close> on a
  string value, \<open>toml_key_exists\<close> on any value.
\<close>

datatype toml_value = Toml_int int | Toml_string bytes | Toml_other
type_synonym toml_table = "string \<rightharpoonup> toml_value"

datatype config_file = Config_missing | Config_invalid | Config_table "toml_table option"

definition read_size :: "toml_table \<Rightarrow> string \<Rightarrow> nat \<Rightarrow> nat \<Rightarrow> nat outcome" where
  "read_size table key maximum old =
     (case table key of
        Some (Toml_int i) \<Rightarrow>
          if i \<le> 0 \<or> nat i > maximum \<or> nat i > SIZE_MAX then Inl YAP_V2_INVALID_FORMAT else Inr (nat i)
      | Some _ \<Rightarrow> Inl YAP_V2_INVALID_FORMAT
      | None \<Rightarrow> Inr old)"

definition write_token_valid :: "bytes \<Rightarrow> bool" where
  "write_token_valid token \<longleftrightarrow>
     16 \<le> length token \<and> length token \<le> YAP_V2_WRITE_TOKEN_MAX_BYTES \<and>
     list_all (\<lambda>b. \<not> (b \<le> 0x20 \<or> b = 0x7f)) token"

definition read_write_token :: "toml_table \<Rightarrow> bytes outcome" where
  "read_write_token table =
     (case table ''write_token'' of
        None \<Rightarrow> Inr []
      | Some (Toml_string s) \<Rightarrow>
          if write_token_valid (c_string s) then Inr (c_string s) else Inl YAP_V2_INVALID_FORMAT
      | Some _ \<Rightarrow> Inl YAP_V2_INVALID_FORMAT)"

definition read_daemon_table :: "toml_table \<Rightarrow> YAP_V2_RUNTIME_POLICY \<Rightarrow> YAP_V2_RUNTIME_POLICY outcome" where
  "read_daemon_table daemon policy =
     rbind (read_size daemon ''max_inflight'' 1024 (pol_max_inflight policy)) (\<lambda>max_inflight.
     rbind (read_size daemon ''max_inflight_bytes'' (1024 * 1024 * 1024)
              (pol_max_inflight_bytes policy)) (\<lambda>max_inflight_bytes.
     rbind (read_size daemon ''request_timeout_ms'' YAP_V2_MAX_TIMEOUT_MS
              (unat (pol_request_timeout_ms policy))) (\<lambda>timeout.
     rbind (read_size daemon ''ingest_max_body_bytes'' YAP_V2_MAX_INGEST_BODY_BYTES
              (pol_ingest_max_body_bytes policy)) (\<lambda>ingest_max_body_bytes.
     rbind (read_size daemon ''ingest_timeout_ms'' YAP_V2_MAX_INGEST_TIMEOUT_MS
              (unat (pol_ingest_timeout_ms policy))) (\<lambda>ingest_timeout.
     rbind (read_write_token daemon) (\<lambda>token.
       Inr \<lparr>pol_max_inflight = max_inflight, pol_max_inflight_bytes = max_inflight_bytes,
            pol_request_timeout_ms = word_of_nat timeout,
            pol_ingest_max_body_bytes = ingest_max_body_bytes,
            pol_ingest_timeout_ms = word_of_nat ingest_timeout,
            pol_write_token = token\<rparr>))))))"

text \<open>\<open>None\<close> is a null configuration path.\<close>

definition YAP_V2_runtime_policy_load_config ::
  "config_file option \<Rightarrow> YAP_V2_RUNTIME_POLICY outcome" where
  "YAP_V2_runtime_policy_load_config config =
     (case config of
        None \<Rightarrow> Inr YAP_V2_runtime_policy_init
      | Some Config_missing \<Rightarrow> Inl YAP_V2_IO_ERROR
      | Some Config_invalid \<Rightarrow> Inl YAP_V2_INVALID_FORMAT
      | Some (Config_table None) \<Rightarrow> Inr YAP_V2_runtime_policy_init
      | Some (Config_table (Some daemon)) \<Rightarrow> read_daemon_table daemon YAP_V2_runtime_policy_init)"

subsection \<open>The limiter\<close>

definition YAP_V2_runtime_limiter_init ::
  "bool \<Rightarrow> YAP_V2_RUNTIME_LIMITER \<Rightarrow> YAP_V2_RUNTIME_POLICY \<Rightarrow> YAP_V2_RUNTIME_LIMITER outcome" where
  "YAP_V2_runtime_limiter_init mutex_ok limiter policy =
     (if pol_max_inflight policy = 0 \<or> pol_max_inflight_bytes policy = 0 \<or> lim_initialized limiter
        then Inl YAP_V2_INVALID_ARGUMENT
      else if \<not> mutex_ok then Inl YAP_V2_IO_ERROR
      else Inr \<lparr>lim_inflight = 0, lim_inflight_bytes = 0, lim_max_inflight = pol_max_inflight policy,
             lim_max_inflight_bytes = pol_max_inflight_bytes policy, lim_initialized = True\<rparr>)"

definition YAP_V2_runtime_limiter_close :: "YAP_V2_RUNTIME_LIMITER \<Rightarrow> YAP_V2_RUNTIME_LIMITER" where
  "YAP_V2_runtime_limiter_close limiter =
     (if \<not> lim_initialized limiter then limiter
      else \<lparr>lim_inflight = 0, lim_inflight_bytes = 0, lim_max_inflight = 0,
            lim_max_inflight_bytes = 0, lim_initialized = False\<rparr>)"

definition YAP_V2_runtime_limiter_acquire ::
  "YAP_V2_RUNTIME_LIMITER \<Rightarrow> nat \<Rightarrow> YAP_V2_STATUS \<times> YAP_V2_RUNTIME_LIMITER" where
  "YAP_V2_runtime_limiter_acquire limiter request_bytes =
     (if \<not> lim_initialized limiter \<or> request_bytes = 0 then (YAP_V2_INVALID_ARGUMENT, limiter)
      else if lim_inflight limiter \<ge> lim_max_inflight limiter \<or>
              request_bytes > size_sub (lim_max_inflight_bytes limiter) (lim_inflight_bytes limiter)
        then (YAP_V2_OUT_OF_RANGE, limiter)
      else (YAP_V2_OK, limiter\<lparr>lim_inflight := lim_inflight limiter + 1,
                          lim_inflight_bytes := lim_inflight_bytes limiter + request_bytes\<rparr>))"

definition YAP_V2_runtime_limiter_release ::
  "YAP_V2_RUNTIME_LIMITER \<Rightarrow> nat \<Rightarrow> YAP_V2_RUNTIME_LIMITER" where
  "YAP_V2_runtime_limiter_release limiter request_bytes =
     (if \<not> lim_initialized limiter then limiter
      else if lim_inflight limiter > 0 \<and> request_bytes \<le> lim_inflight_bytes limiter
        then limiter\<lparr>lim_inflight := lim_inflight limiter - 1,
               lim_inflight_bytes := lim_inflight_bytes limiter - request_bytes\<rparr>
      else limiter)"

definition YAP_V2_runtime_limiter_snapshot ::
  "YAP_V2_RUNTIME_LIMITER \<Rightarrow> (nat \<times> nat \<times> nat \<times> nat) outcome" where
  "YAP_V2_runtime_limiter_snapshot limiter =
     (if \<not> lim_initialized limiter then Inl YAP_V2_INVALID_ARGUMENT
      else Inr (lim_inflight limiter, lim_inflight_bytes limiter, lim_max_inflight limiter,
                lim_max_inflight_bytes limiter))"

subsection \<open>The write token\<close>

definition byte_at :: "bytes \<Rightarrow> nat \<Rightarrow> byte" where
  "byte_at s i = (if i < length s then s ! i else 0)"

definition constant_time_equal :: "bytes \<Rightarrow> bytes \<Rightarrow> bool" where
  "constant_time_equal left right =
     (let maximum = (if length left > length right then length left else length right);
          difference = fold (\<lambda>i difference. difference OR ucast (byte_at left i XOR byte_at right i))
            [0..<maximum] (ucast (word_of_nat (length left) XOR word_of_nat (length right) :: u64) :: u32)
      in difference = 0)"

definition YAP_V2_authorize_write :: "YAP_V2_RUNTIME_POLICY \<Rightarrow> bytes option \<Rightarrow> YAP_V2_STATUS" where
  "YAP_V2_authorize_write policy authorization =
     (if length (pol_write_token policy) = 0 then YAP_V2_OK
      else case authorization of
        None \<Rightarrow> YAP_V2_CONFLICT
      | Some header \<Rightarrow>
          (let header = c_string header in
           if take 7 header \<noteq> ascii ''Bearer '' then YAP_V2_CONFLICT
           else if constant_time_equal (drop 7 header) (pol_write_token policy) then YAP_V2_OK
           else YAP_V2_CONFLICT))"

text \<open>\<open>YAP_V2_socket_set_deadline\<close>: the \<open>timeval\<close> it sets, \<open>None\<close> when the arguments are rejected.\<close>

definition deadline_timeval :: "int \<Rightarrow> u32 \<Rightarrow> (nat \<times> nat) option" where
  "deadline_timeval fd timeout_ms =
     (if fd < 0 \<or> timeout_ms = 0 \<or> unat timeout_ms > YAP_V2_MAX_INGEST_TIMEOUT_MS then None
      else Some (unat (timeout_ms div 1000), unat ((timeout_ms mod 1000) * 1000)))"

subsection \<open>Compaction policy\<close>

record YAP_V2_COMPACTION_POLICY =
  cpp_enabled :: int
  cpp_check_interval_ms :: nat
  cpp_small_segment_bytes :: nat
  cpp_min_small_segments :: nat

definition YAP_V2_compaction_policy_init :: YAP_V2_COMPACTION_POLICY where
  "YAP_V2_compaction_policy_init = \<lparr>cpp_enabled = 1, cpp_check_interval_ms = 30000,
     cpp_small_segment_bytes = 64 * 1024 * 1024, cpp_min_small_segments = 4\<rparr>"

definition YAP_V2_compaction_policy_validate :: "YAP_V2_COMPACTION_POLICY option \<Rightarrow> YAP_V2_STATUS" where
  "YAP_V2_compaction_policy_validate policy =
     (case policy of
        None \<Rightarrow> YAP_V2_INVALID_ARGUMENT
      | Some p \<Rightarrow>
          if (cpp_enabled p \<noteq> 0 \<and> cpp_enabled p \<noteq> 1) \<or> cpp_check_interval_ms p < 1000 \<or>
             cpp_check_interval_ms p > 3600000 \<or> cpp_small_segment_bytes p = 0 \<or>
             cpp_small_segment_bytes p > 256 * 1024 * 1024 \<or> cpp_min_small_segments p < 2 \<or>
             cpp_min_small_segments p > 8
          then YAP_V2_OUT_OF_RANGE else YAP_V2_OK)"

subsection \<open>Admission never exceeds the limits\<close>

text \<open>
  Clients of the limiter acquire before a request and release the same number of bytes after it.
  \<open>lim_run l granted\<close>: the limiter is \<open>l\<close> after some interleaving of such requests and \<open>granted\<close> are the
  sizes of the requests admitted and not yet released.
\<close>

inductive lim_run :: "YAP_V2_RUNTIME_POLICY \<Rightarrow> YAP_V2_RUNTIME_LIMITER \<Rightarrow> nat multiset \<Rightarrow> bool"
  for policy :: YAP_V2_RUNTIME_POLICY where
  lim_start: "YAP_V2_runtime_limiter_init mutex_ok l0 policy = Inr l \<Longrightarrow> lim_run policy l {#}"
| lim_acquire: "lim_run policy l granted \<Longrightarrow> YAP_V2_runtime_limiter_acquire l n = (s, l') \<Longrightarrow>
    lim_run policy l' (if s = YAP_V2_OK then add_mset n granted else granted)"
| lim_release: "lim_run policy l granted \<Longrightarrow> n \<in># granted \<Longrightarrow>
    lim_run policy (YAP_V2_runtime_limiter_release l n) (granted - {#n#})"

definition lim_inv :: "YAP_V2_RUNTIME_POLICY \<Rightarrow> YAP_V2_RUNTIME_LIMITER \<Rightarrow> nat multiset \<Rightarrow> bool" where
  "lim_inv policy l granted \<longleftrightarrow> lim_initialized l \<and>
     lim_max_inflight l = pol_max_inflight policy \<and> lim_max_inflight_bytes l = pol_max_inflight_bytes policy \<and>
     lim_inflight l = size granted \<and> lim_inflight_bytes l = sum_mset granted \<and>
     lim_inflight l \<le> pol_max_inflight policy \<and> lim_inflight_bytes l \<le> pol_max_inflight_bytes policy"

lemma lim_inv_acquire:
  assumes "lim_inv policy l granted" and "pol_max_inflight_bytes policy \<le> SIZE_MAX"
    and "YAP_V2_runtime_limiter_acquire l n = (s, l')"
  shows "lim_inv policy l' (if s = YAP_V2_OK then add_mset n granted else granted)"
proof -
  have "size_sub (lim_max_inflight_bytes l) (lim_inflight_bytes l) =
      lim_max_inflight_bytes l - lim_inflight_bytes l"
    using assms(1,2) by (intro size_sub_le) (auto simp: lim_inv_def)
  with assms(1,3) show ?thesis
    by (auto simp: lim_inv_def YAP_V2_runtime_limiter_acquire_def split: if_splits)
qed

lemma lim_inv_release:
  assumes "lim_inv policy l granted" and "n \<in># granted"
  shows "lim_inv policy (YAP_V2_runtime_limiter_release l n) (granted - {#n#})"
proof -
  obtain rest where "granted = add_mset n rest" using assms(2) by (metis insert_DiffM)
  with assms(1) show ?thesis
    by (auto simp: lim_inv_def YAP_V2_runtime_limiter_release_def)
qed

lemma lim_run_inv: "lim_run policy l granted \<Longrightarrow> pol_max_inflight_bytes policy \<le> SIZE_MAX \<Longrightarrow> lim_inv policy l granted"
proof (induction rule: lim_run.induct)
  case (lim_start mutex_ok l0 l)
  then show ?case
    by (auto simp: YAP_V2_runtime_limiter_init_def lim_inv_def split: if_splits)
next
  case (lim_acquire l granted n s l')
  then show ?case using lim_inv_acquire by blast
next
  case (lim_release l granted n)
  then show ?case using lim_inv_release by blast
qed

text \<open>
  C34. Under every interleaving of requests, the limiter's counters are the number and the total size of
  the requests admitted and not yet released, and never exceed the policy's two limits; a request is
  refused exactly when admitting it would exceed one of them.
\<close>

theorem limiter_bounded:
  assumes "lim_run policy l granted" and "pol_max_inflight_bytes policy \<le> SIZE_MAX"
  shows "lim_inflight l = size granted \<and> lim_inflight_bytes l = sum_mset granted \<and>
    size granted \<le> pol_max_inflight policy \<and> sum_mset granted \<le> pol_max_inflight_bytes policy \<and>
    (0 < n \<longrightarrow> fst (YAP_V2_runtime_limiter_acquire l n) =
       (if size granted + 1 \<le> pol_max_inflight policy \<and> sum_mset granted + n \<le> pol_max_inflight_bytes policy
        then YAP_V2_OK else YAP_V2_OUT_OF_RANGE))"
proof -
  have inv: "lim_inv policy l granted" using lim_run_inv[OF assms] .
  then have "size_sub (lim_max_inflight_bytes l) (lim_inflight_bytes l) =
      lim_max_inflight_bytes l - lim_inflight_bytes l"
    using assms(2) by (intro size_sub_le) (auto simp: lim_inv_def)
  with inv show ?thesis
    by (auto simp: lim_inv_def YAP_V2_runtime_limiter_acquire_def)
qed

theorem limiter_bounded_witness:
  "\<exists>l. lim_run YAP_V2_runtime_policy_init l {#100#} \<and> lim_inflight l = 1 \<and> lim_inflight_bytes l = 100"
proof -
  let ?zero = "\<lparr>lim_inflight = 0, lim_inflight_bytes = 0, lim_max_inflight = 0,
      lim_max_inflight_bytes = 0, lim_initialized = False\<rparr>"
  let ?l = "\<lparr>lim_inflight = 0, lim_inflight_bytes = 0, lim_max_inflight = 16,
      lim_max_inflight_bytes = 4194304, lim_initialized = True\<rparr>"
  have "lim_run YAP_V2_runtime_policy_init ?l {#}"
    by (rule lim_start[of True ?zero])
       (simp add: YAP_V2_runtime_limiter_init_def YAP_V2_runtime_policy_init_def)
  from lim_acquire[OF this, of 100 YAP_V2_OK "?l\<lparr>lim_inflight := 1, lim_inflight_bytes := 100\<rparr>"]
  have run: "lim_run YAP_V2_runtime_policy_init (?l\<lparr>lim_inflight := 1, lim_inflight_bytes := 100\<rparr>) {#100#}"
    by (simp add: YAP_V2_runtime_limiter_acquire_def size_sub_def)
  with limiter_bounded[OF run, of 1] show ?thesis
    by (auto simp: YAP_V2_runtime_policy_init_def)
qed

subsection \<open>The write token is compared exactly\<close>

lemma or_fold_zero:
  "fold (\<lambda>i d. d OR f i) is (d0 :: u32) = 0 \<longleftrightarrow> d0 = 0 \<and> (\<forall>i\<in>set is. f i = 0)"
  by (induction "is" arbitrary: d0) (auto simp: or_eq_0_iff)

lemma ucast_xor_zero: "(ucast (a XOR b) :: u32) = 0 \<longleftrightarrow> (a :: byte) = b"
proof
  assume z: "(ucast (a XOR b) :: u32) = 0"
  show "a = b"
  proof (rule bit_word_eqI)
    fix n assume n: "n < LENGTH(8)"
    have "\<not> bit (ucast (a XOR b) :: u32) n" by (simp add: z)
    then show "bit a n = bit b n" using n by (simp add: bit_simps)
  qed
qed simp

lemma constant_time_equal_iff:
  assumes "0 \<notin> set left" and "0 \<notin> set right"
  shows "constant_time_equal left right \<longleftrightarrow> left = right"
proof
  assume eq: "constant_time_equal left right"
  let ?n = "max (length left) (length right)"
  have bytes: "byte_at left i = byte_at right i" if "i < ?n" for i
    using eq that unfolding constant_time_equal_def Let_def or_fold_zero
    by (auto simp: ucast_xor_zero max_def split: if_splits)
  have len: "length left = length right"
  proof (rule ccontr)
    assume ne: "length left \<noteq> length right"
    show False
    proof (cases "length left < length right")
      case True
      then have "right ! length left = 0"
        using bytes[of "length left"] by (simp add: byte_at_def)
      with True assms(2) show False by (metis nth_mem)
    next
      case False
      with ne have "length right < length left" by simp
      moreover from this have "left ! length right = 0"
        using bytes[of "length right"] by (simp add: byte_at_def)
      ultimately show False using assms(1) by (metis nth_mem)
    qed
  qed
  then show "left = right"
    using bytes by (intro nth_equalityI) (auto simp: byte_at_def)
next
  assume "left = right"
  then show "constant_time_equal left right"
    unfolding constant_time_equal_def Let_def or_fold_zero by simp
qed

text \<open>
  With a write token configured, \<open>YAP_V2_authorize_write\<close> accepts exactly the header
  \<open>Bearer \<close> followed by the whole token: no prefix, extension or other value passes, although the
  comparison truncates the lengths to 32 bits and never stops early.
\<close>

theorem authorize_write_iff:
  assumes "pol_write_token policy \<noteq> []" and "0 \<notin> set (pol_write_token policy)"
  shows "YAP_V2_authorize_write policy authorization = YAP_V2_OK \<longleftrightarrow>
    (\<exists>header. authorization = Some header \<and> c_string header = ascii ''Bearer '' @ pol_write_token policy)"
proof (cases authorization)
  case None
  then show ?thesis using assms(1) by (simp add: YAP_V2_authorize_write_def)
next
  case (Some header)
  let ?h = "c_string header"
  have nul: "0 \<notin> set (drop 7 ?h)" using c_string_no_nul by (metis in_set_dropD)
  have "YAP_V2_authorize_write policy authorization = YAP_V2_OK \<longleftrightarrow>
      take 7 ?h = ascii ''Bearer '' \<and> drop 7 ?h = pol_write_token policy"
    using Some assms(1) constant_time_equal_iff[OF nul assms(2)]
    by (simp add: YAP_V2_authorize_write_def Let_def)
  also have "\<dots> \<longleftrightarrow> ?h = ascii ''Bearer '' @ pol_write_token policy"
  proof
    assume "take 7 ?h = ascii ''Bearer '' \<and> drop 7 ?h = pol_write_token policy"
    then show "?h = ascii ''Bearer '' @ pol_write_token policy" by (metis append_take_drop_id)
  next
    assume "?h = ascii ''Bearer '' @ pol_write_token policy"
    then show "take 7 ?h = ascii ''Bearer '' \<and> drop 7 ?h = pol_write_token policy"
      by (simp add: ascii_def)
  qed
  finally show ?thesis using Some by simp
qed

theorem authorize_write_iff_witness:
  "YAP_V2_authorize_write (YAP_V2_runtime_policy_init\<lparr>pol_write_token := ascii ''0123456789abcdef''\<rparr>)
     (Some (ascii ''Bearer 0123456789abcdef'')) = YAP_V2_OK"
  using authorize_write_iff[of "YAP_V2_runtime_policy_init\<lparr>pol_write_token := ascii ''0123456789abcdef''\<rparr>"
      "Some (ascii ''Bearer 0123456789abcdef'')"]
  by (simp add: ascii_def c_string_def)

subsection \<open>Accepted configurations are within their bounds\<close>

definition policy_ok :: "YAP_V2_RUNTIME_POLICY \<Rightarrow> bool" where
  "policy_ok p \<longleftrightarrow> 1 \<le> pol_max_inflight p \<and> pol_max_inflight p \<le> 1024 \<and>
     1 \<le> pol_max_inflight_bytes p \<and> pol_max_inflight_bytes p \<le> 1073741824 \<and>
     1 \<le> unat (pol_request_timeout_ms p) \<and> unat (pol_request_timeout_ms p) \<le> 60000 \<and>
     1 \<le> pol_ingest_max_body_bytes p \<and> pol_ingest_max_body_bytes p \<le> 268435456 \<and>
     1 \<le> unat (pol_ingest_timeout_ms p) \<and> unat (pol_ingest_timeout_ms p) \<le> 600000 \<and>
     (pol_write_token p = [] \<or> write_token_valid (pol_write_token p) \<and> 0 \<notin> set (pol_write_token p))"

lemma read_size_bounds: "read_size t k m old = Inr n \<Longrightarrow> n = old \<or> 1 \<le> n \<and> n \<le> m"
  by (auto simp: read_size_def split: option.splits toml_value.splits if_splits)

lemma policy_init_ok: "policy_ok YAP_V2_runtime_policy_init"
  by (simp add: policy_ok_def YAP_V2_runtime_policy_init_def)

lemma read_daemon_ok:
  assumes "policy_ok p0" and "read_daemon_table t p0 = Inr p"
  shows "policy_ok p"
proof -
  from assms(2) obtain a b c d e tok where r:
    "read_size t ''max_inflight'' 1024 (pol_max_inflight p0) = Inr a"
    "read_size t ''max_inflight_bytes'' (1024 * 1024 * 1024) (pol_max_inflight_bytes p0) = Inr b"
    "read_size t ''request_timeout_ms'' YAP_V2_MAX_TIMEOUT_MS (unat (pol_request_timeout_ms p0)) = Inr c"
    "read_size t ''ingest_max_body_bytes'' YAP_V2_MAX_INGEST_BODY_BYTES (pol_ingest_max_body_bytes p0) = Inr d"
    "read_size t ''ingest_timeout_ms'' YAP_V2_MAX_INGEST_TIMEOUT_MS (unat (pol_ingest_timeout_ms p0)) = Inr e"
    "read_write_token t = Inr tok"
    and p: "p = \<lparr>pol_max_inflight = a, pol_max_inflight_bytes = b, pol_request_timeout_ms = word_of_nat c,
       pol_ingest_max_body_bytes = d, pol_ingest_timeout_ms = word_of_nat e, pol_write_token = tok\<rparr>"
    by (auto simp: read_daemon_table_def rbind_Inr_iff)
  note n = r(1-5)[THEN read_size_bounds]
  have "tok = [] \<or> write_token_valid tok \<and> 0 \<notin> set tok"
    using r(6) by (auto simp: read_write_token_def split: option.splits toml_value.splits if_splits)
  moreover have "1 \<le> a \<and> a \<le> 1024" "1 \<le> b \<and> b \<le> 1073741824" "1 \<le> c \<and> c \<le> 60000"
    "1 \<le> d \<and> d \<le> 268435456" "1 \<le> e \<and> e \<le> 600000"
    using n assms(1) by (auto simp: policy_ok_def runtime_limits)
  ultimately show ?thesis
    by (simp add: policy_ok_def p unat_of_nat)
qed

text \<open>
  C35. Every policy a configuration file can produce is within the documented bounds: 1 to 1024 requests
  and 1 byte to 1 GiB in flight, timeouts of 1 ms to 60 s and to 600 s, bodies up to 256 MiB, and a
  write token that is absent or 16 to 255 bytes of printable characters without space.
\<close>

theorem load_config_bounds:
  assumes "YAP_V2_runtime_policy_load_config config = Inr policy"
  shows "policy_ok policy"
  using assms policy_init_ok read_daemon_ok
  by (auto simp: YAP_V2_runtime_policy_load_config_def split: option.splits config_file.splits)

theorem load_config_bounds_witness:
  "policy_ok (YAP_V2_runtime_policy_init\<lparr>pol_max_inflight := 7\<rparr>)"
  using load_config_bounds[of "Some (Config_table (Some [''max_inflight'' \<mapsto> Toml_int 7]))"
      "YAP_V2_runtime_policy_init\<lparr>pol_max_inflight := 7\<rparr>"]
  by (simp add: YAP_V2_runtime_policy_load_config_def read_daemon_table_def read_size_def
      read_write_token_def YAP_V2_runtime_policy_init_def)

end
