(* ===== verification/C_Text.thy ===== *)
theory C_Text
  imports Yap_Prelude "HOL-Library.List_Lexorder"
begin

text \<open>
  Text routines of the C library that several components call: the decimal conversions of
  \<open>printf\<close> and the comparison \<open>strcmp\<close>.
\<close>

subsection \<open>Decimal numbers\<close>

text \<open>\<open>%zu\<close>, \<open>%llu\<close>, \<open>PRIu32\<close> and \<open>%d\<close> of \<open>printf\<close>.\<close>

fun decimal :: "nat \<Rightarrow> bytes" where
  "decimal n = (if n < 10 then [] else decimal (n div 10)) @ [word_of_nat (48 + n mod 10)]"

declare decimal.simps [simp del]

definition decimal_int :: "int \<Rightarrow> bytes" where
  "decimal_int i = (if i < 0 then [45] else []) @ decimal (nat \<bar>i\<bar>)"

definition is_digit :: "byte \<Rightarrow> bool" where
  "is_digit c \<longleftrightarrow> 48 \<le> c \<and> c \<le> 57"

definition digits_value :: "bytes \<Rightarrow> nat" where
  "digits_value s = foldl (\<lambda>n c. n * 10 + unat (c - 48)) 0 s"

lemma decimal_digits: "(\<forall>c\<in>set (decimal n). is_digit c) \<and> decimal n \<noteq> [] \<and> digits_value (decimal n) = n"
proof (induction n rule: decimal.induct)
  case (1 n)
  have d: "is_digit (word_of_nat (48 + n mod 10))" "unat (word_of_nat (48 + n mod 10) - 48 :: byte) = n mod 10"
  proof -
    have u: "unat (word_of_nat (48 + n mod 10) :: byte) = 48 + n mod 10"
    proof -
      have "48 + n mod 10 < 256" by linarith
      then show ?thesis by (simp add: unat_of_nat del: of_nat_add)
    qed
    then show "is_digit (word_of_nat (48 + n mod 10))"
      by (simp add: is_digit_def word_le_nat_alt del: of_nat_add)
    from u show "unat (word_of_nat (48 + n mod 10) - 48 :: byte) = n mod 10"
      by (subst unat_sub) (simp_all add: word_le_nat_alt del: of_nat_add)
  qed
  show ?case
    using 1 d by (subst (1 2 3) decimal.simps) (auto simp: digits_value_def simp del: of_nat_add)
qed

lemma decimal_inj: "decimal m = decimal n \<Longrightarrow> m = n"
  using decimal_digits by metis

lemma decimal_no_newline: "10 \<notin> set (decimal n)"
proof
  assume "10 \<in> set (decimal n)"
  then have "is_digit 10" using decimal_digits by blast
  then show False by (simp add: is_digit_def)
qed

subsection \<open>Comparison of C strings\<close>

text \<open>\<open>strcmp\<close> compares as unsigned bytes; its arguments are the strings without the final zero.\<close>

fun strcmp :: "bytes \<Rightarrow> bytes \<Rightarrow> int" where
  "strcmp [] [] = 0"
| "strcmp [] (b # bs) = - 1"
| "strcmp (a # as) [] = 1"
| "strcmp (a # as) (b # bs) = (if a = b then strcmp as bs else if a < b then - 1 else 1)"

lemma strcmp_less: "strcmp a b < 0 \<longleftrightarrow> a < b"
  by (induction a b rule: strcmp.induct) auto

lemma strcmp_eq: "strcmp a b = 0 \<longleftrightarrow> a = b"
  by (induction a b rule: strcmp.induct) auto

lemma strcmp_le: "strcmp a b \<le> 0 \<longleftrightarrow> a \<le> b"
  using strcmp_less[of a b] strcmp_eq[of a b] by (auto simp: le_less)

subsection \<open>Lines\<close>

text \<open>Texts made of newline-terminated lines: equal texts have equal lines.\<close>

definition text_lines :: "bytes list \<Rightarrow> bytes" where
  "text_lines ls = concat (map (\<lambda>l. l @ [10]) ls)"

lemma text_lines_simps [simp]:
  "text_lines [] = []" "text_lines (l # ls) = l @ 10 # text_lines ls"
  "text_lines (ls @ ms) = text_lines ls @ text_lines ms"
  by (simp_all add: text_lines_def)

lemma newline_split:
  assumes "10 \<notin> set a" "10 \<notin> set b" "a @ (10 :: byte) # x = b @ 10 # y"
  shows "a = b \<and> x = y"
proof -
  have "takeWhile (\<lambda>c. c \<noteq> 10) (a @ 10 # x) = a" "takeWhile (\<lambda>c. c \<noteq> 10) (b @ 10 # y) = b"
    using assms(1,2) by (auto simp: takeWhile_append)
  with assms(3) show ?thesis by auto
qed

lemma text_lines_inj:
  "\<forall>l\<in>set ls. 10 \<notin> set l \<Longrightarrow> \<forall>l\<in>set ms. 10 \<notin> set l \<Longrightarrow> text_lines ls = text_lines ms \<Longrightarrow> ls = ms"
proof (induction ls arbitrary: ms)
  case Nil
  then show ?case by (cases ms) auto
next
  case (Cons l ls)
  then obtain m ms' where ms: "ms = m # ms'" by (cases ms) auto
  with Cons.prems newline_split[of l m "text_lines ls" "text_lines ms'"] show ?case
    using Cons.IH[of ms'] by auto
qed

end
