(* ===== verification/Core_Http.thy ===== *)
theory Core_Http
  imports Runtime_Policy C_Text
begin

text \<open>
  The HTTP/1.1 messages between front end and core, \<open>server/yappo_core_http_v2.c\<close>: parsing a request
  head, reading a framed request from a stream, writing a response and collecting a client's
  response body. A stream is the list of bytes it will deliver, and \<open>broken\<close> says whether it then
  fails or ends; a \<open>char *\<close> into a buffer is the rest of the buffer. libcurl calls are not modelled.
\<close>

datatype YAP_V2_CORE_HTTP_STATUS =
    YAP_V2_CORE_HTTP_OK
  | YAP_V2_CORE_HTTP_EOF
  | YAP_V2_CORE_HTTP_INVALID_ARGUMENT
  | YAP_V2_CORE_HTTP_INVALID
  | YAP_V2_CORE_HTTP_TOO_LARGE
  | YAP_V2_CORE_HTTP_IO_ERROR
  | YAP_V2_CORE_HTTP_NO_MEMORY

definition YAP_V2_CORE_HTTP_MAX_LINE_BYTES :: nat where "YAP_V2_CORE_HTTP_MAX_LINE_BYTES = 8192"
definition YAP_V2_CORE_HTTP_MAX_HEADER_BYTES :: nat where "YAP_V2_CORE_HTTP_MAX_HEADER_BYTES = 65536"
definition YAP_V2_CORE_HTTP_MAX_RESPONSE_BYTES :: nat where
  "YAP_V2_CORE_HTTP_MAX_RESPONSE_BYTES = 16 * 1024 * 1024"
definition YAP_V2_AUTHORIZATION_MAX_BYTES :: nat where
  "YAP_V2_AUTHORIZATION_MAX_BYTES = 7 + YAP_V2_WRITE_TOKEN_MAX_BYTES"

lemmas http_limits = YAP_V2_CORE_HTTP_MAX_LINE_BYTES_def YAP_V2_CORE_HTTP_MAX_HEADER_BYTES_def
  YAP_V2_CORE_HTTP_MAX_RESPONSE_BYTES_def YAP_V2_AUTHORIZATION_MAX_BYTES_def

record YAP_V2_CORE_HTTP_REQUEST =
  req_method :: bytes
  req_target :: bytes
  req_content_length :: nat
  req_have_content_length :: bool
  req_json_content_type :: bool
  req_close_connection :: bool
  req_authorization :: bytes
  req_body :: "bytes option"
  req_body_bytes :: nat

definition YAP_V2_core_http_request_init :: YAP_V2_CORE_HTTP_REQUEST where
  "YAP_V2_core_http_request_init =
     \<lparr>req_method = [], req_target = [], req_content_length = 0, req_have_content_length = False,
      req_json_content_type = False, req_close_connection = False, req_authorization = [],
      req_body = None, req_body_bytes = 0\<rparr>"

type_synonym 'a http_outcome = "YAP_V2_CORE_HTTP_STATUS + 'a"

subsection \<open>C library routines on strings\<close>

abbreviation CR :: byte where "CR \<equiv> 13"
abbreviation LF :: byte where "LF \<equiv> 10"

definition isspace :: "byte \<Rightarrow> bool" where
  "isspace c \<longleftrightarrow> c = 32 \<or> 9 \<le> c \<and> c \<le> 13"

definition tolower :: "byte \<Rightarrow> byte" where
  "tolower c = (if 65 \<le> c \<and> c \<le> 90 then c + 32 else c)"

definition strcasecmp_eq :: "bytes \<Rightarrow> string \<Rightarrow> bool" where
  "strcasecmp_eq s name \<longleftrightarrow> map tolower s = map tolower (ascii name)"

text \<open>The offset at which \<open>strstr(s, "\r\n")\<close> points, and that of \<open>strchr(s, ':')\<close>.\<close>

fun find_crlf :: "bytes \<Rightarrow> nat option" where
  "find_crlf (a # b # s) =
     (if a = 0 then None else if a = CR \<and> b = LF then Some 0 else map_option Suc (find_crlf (b # s)))"
| "find_crlf _ = None"

fun find_colon :: "bytes \<Rightarrow> nat option" where
  "find_colon [] = None"
| "find_colon (c # s) = (if c = 58 then Some 0 else if c = 0 then None else map_option Suc (find_colon s))"

text \<open>One \<open>%<n>s\<close> conversion of \<open>sscanf\<close>.\<close>

definition scan_token :: "nat \<Rightarrow> bytes \<Rightarrow> (bytes \<times> bytes) option" where
  "scan_token n s =
     (let s = dropWhile isspace s; token = take n (takeWhile (\<lambda>c. \<not> isspace c) s) in
      if token = [] then None else Some (token, drop (length token) s))"

definition scan_request_line :: "bytes \<Rightarrow> (bytes \<times> bytes \<times> bytes) option" where
  "scan_request_line line =
     (case scan_token 15 line of None \<Rightarrow> None | Some (method, line) \<Rightarrow>
      (case scan_token 255 line of None \<Rightarrow> None | Some (target, line) \<Rightarrow>
       (case scan_token 31 line of None \<Rightarrow> None | Some (version, line) \<Rightarrow>
          if dropWhile isspace line = [] then Some (method, target, version) else None)))"

subsection \<open>Request head\<close>

fun parse_digits :: "nat \<Rightarrow> bytes \<Rightarrow> nat option" where
  "parse_digits parsed [] = Some parsed"
| "parse_digits parsed (c # s) =
     (if c < 48 \<or> c > 57 then None
      else
        (let digit = unat (c - 48) in
         if parsed > (SIZE_MAX - digit) div 10 then None else parse_digits (parsed * 10 + digit) s))"

definition parse_content_length :: "bytes \<Rightarrow> nat option" where
  "parse_content_length value = (if value = [] then None else parse_digits 0 value)"

definition header_char_valid :: "byte \<Rightarrow> bool" where
  "header_char_valid c \<longleftrightarrow>
     48 \<le> c \<and> c \<le> 57 \<or> 65 \<le> c \<and> c \<le> 90 \<or> 97 \<le> c \<and> c \<le> 122 \<or>
     c \<in> set [33, 35, 36, 37, 38, 39, 42, 43, 45, 46, 94, 95, 96, 124, 126]"

definition header_name_valid :: "bytes \<Rightarrow> bool" where
  "header_name_valid name \<longleftrightarrow> name \<noteq> [] \<and> list_all header_char_valid name"

definition blank :: "byte \<Rightarrow> bool" where
  "blank c \<longleftrightarrow> c = 32 \<or> c = 9"

definition trim_value :: "bytes \<Rightarrow> bytes" where
  "trim_value value = rev (dropWhile blank (rev (dropWhile blank value)))"

record head_state =
  hs_request :: YAP_V2_CORE_HTTP_REQUEST
  hs_have_host :: bool
  hs_have_type :: bool
  hs_have_authorization :: bool
  hs_have_connection :: bool

definition json_type :: "bytes \<Rightarrow> bool" where
  "json_type value \<longleftrightarrow> strcasecmp_eq (take 16 value) ''application/json'' \<and>
     (drop 16 value = [] \<or> value ! 16 = 59)"

definition apply_header :: "bytes \<Rightarrow> bytes \<Rightarrow> head_state \<Rightarrow> head_state option" where
  "apply_header name value h =
     (let request = hs_request h in
      if strcasecmp_eq name ''Host'' then
        if hs_have_host h \<or> value = [] then None else Some (h\<lparr>hs_have_host := True\<rparr>)
      else if strcasecmp_eq name ''Content-Type'' then
        if hs_have_type h then None
        else Some (h\<lparr>hs_have_type := True,
                     hs_request := request\<lparr>req_json_content_type := json_type value\<rparr>\<rparr>)
      else if strcasecmp_eq name ''Content-Length'' then
        if req_have_content_length request then None
        else (case parse_content_length value of
            None \<Rightarrow> None
          | Some n \<Rightarrow> Some (h\<lparr>hs_request := request\<lparr>req_content_length := n,
                                 req_have_content_length := True\<rparr>\<rparr>))
      else if strcasecmp_eq name ''Transfer-Encoding'' then None
      else if strcasecmp_eq name ''Authorization'' then
        if hs_have_authorization h \<or> length value = 0 \<or> length value > YAP_V2_AUTHORIZATION_MAX_BYTES
          then None
        else Some (h\<lparr>hs_request := request\<lparr>req_authorization := value\<rparr>, hs_have_authorization := True\<rparr>)
      else if strcasecmp_eq name ''Connection'' then
        if hs_have_connection h \<or>
           (\<not> strcasecmp_eq value ''close'' \<and> \<not> strcasecmp_eq value ''keep-alive'') then None
        else Some (h\<lparr>hs_request := request\<lparr>req_close_connection := \<not> strcasecmp_eq value ''keep-alive''\<rparr>,
                     hs_have_connection := True\<rparr>)
      else Some h)"

definition parse_header_line :: "bytes \<Rightarrow> head_state \<Rightarrow> head_state option" where
  "parse_header_line line h =
     (case find_colon line of
        None \<Rightarrow> None
      | Some 0 \<Rightarrow> None
      | Some colon \<Rightarrow>
          if \<not> header_name_valid (take colon line) then None
          else apply_header (take colon line) (trim_value (drop (Suc colon) line)) h)"

lemma find_crlf_bound: "find_crlf s = Some k \<Longrightarrow> k + 2 \<le> length s"
proof (induction s arbitrary: k rule: find_crlf.induct)
  case (1 a b s)
  then show ?case by (cases k) (auto split: if_splits)
qed auto

function parse_headers :: "bytes \<Rightarrow> head_state \<Rightarrow> head_state option" where
  "parse_headers cursor h =
     (if cursor = [] \<or> cursor ! 0 = 0 then Some h
      else case find_crlf cursor of
        None \<Rightarrow> None
      | Some line_end \<Rightarrow>
          if line_end > YAP_V2_CORE_HTTP_MAX_LINE_BYTES then None
          else if line_end = 0 then Some h
          else (case parse_header_line (take line_end cursor) h of
              None \<Rightarrow> None
            | Some h \<Rightarrow> parse_headers (drop (line_end + 2) cursor) h))"
  by pat_completeness auto
termination
  by (relation "measure (\<lambda>(cursor, h). length cursor)") (auto dest: find_crlf_bound)

declare parse_headers.simps [simp del]

definition ends_head :: "bytes \<Rightarrow> bool" where
  "ends_head input \<longleftrightarrow> length input \<ge> 4 \<and> drop (length input - 4) input = [CR, LF, CR, LF]"

definition YAP_V2_core_http_parse_head ::
  "(nat \<Rightarrow> bool) \<Rightarrow> bytes \<Rightarrow> YAP_V2_CORE_HTTP_REQUEST http_outcome" where
  "YAP_V2_core_http_parse_head mem input =
     (if length input < 4 \<or> length input > YAP_V2_CORE_HTTP_MAX_HEADER_BYTES
        then Inl YAP_V2_CORE_HTTP_INVALID_ARGUMENT
      else if \<not> ends_head input then Inl YAP_V2_CORE_HTTP_INVALID
      else if \<not> mem (length input + 1) then Inl YAP_V2_CORE_HTTP_NO_MEMORY
      else case find_crlf input of
        None \<Rightarrow> Inl YAP_V2_CORE_HTTP_INVALID
      | Some line_end \<Rightarrow>
          if line_end > YAP_V2_CORE_HTTP_MAX_LINE_BYTES then Inl YAP_V2_CORE_HTTP_INVALID
          else case scan_request_line (take line_end input) of
            None \<Rightarrow> Inl YAP_V2_CORE_HTTP_INVALID
          | Some (method, target, version) \<Rightarrow>
              if version \<noteq> ascii ''HTTP/1.1'' then Inl YAP_V2_CORE_HTTP_INVALID
              else
                (let request = YAP_V2_core_http_request_init
                   \<lparr>req_close_connection := True, req_method := method, req_target := target\<rparr> in
                 case parse_headers (drop (line_end + 2) input)
                   \<lparr>hs_request = request, hs_have_host = False, hs_have_type = False,
                    hs_have_authorization = False, hs_have_connection = False\<rparr> of
                   None \<Rightarrow> Inl YAP_V2_CORE_HTTP_INVALID
                 | Some h \<Rightarrow>
                     if hs_have_host h then Inr (hs_request h) else Inl YAP_V2_CORE_HTTP_INVALID))"

subsection \<open>Framed requests\<close>

fun read_head :: "bool \<Rightarrow> bytes \<Rightarrow> bytes \<Rightarrow> bytes http_outcome \<times> bytes" where
  "read_head broken head [] =
     (if length head < YAP_V2_CORE_HTTP_MAX_HEADER_BYTES
      then (Inl (if head = [] \<and> \<not> broken then YAP_V2_CORE_HTTP_EOF else YAP_V2_CORE_HTTP_IO_ERROR), [])
      else (Inl YAP_V2_CORE_HTTP_TOO_LARGE, []))"
| "read_head broken head (b # stream) =
     (if length head < YAP_V2_CORE_HTTP_MAX_HEADER_BYTES
      then if ends_head (head @ [b]) then (Inr (head @ [b]), stream)
           else read_head broken (head @ [b]) stream
      else (Inl YAP_V2_CORE_HTTP_TOO_LARGE, b # stream))"

definition request_limit :: "nat \<Rightarrow> nat \<Rightarrow> bytes \<Rightarrow> nat" where
  "request_limit max_body_bytes max_ingest_body_bytes target =
     (if target = ascii ''/v2/documents:batch'' then max_ingest_body_bytes else max_body_bytes)"

definition YAP_V2_core_http_read_request ::
  "(nat \<Rightarrow> bool) \<Rightarrow> bool \<Rightarrow> nat \<Rightarrow> nat \<Rightarrow> bytes \<Rightarrow> YAP_V2_CORE_HTTP_REQUEST http_outcome \<times> bytes" where
  "YAP_V2_core_http_read_request mem broken max_body_bytes max_ingest_body_bytes stream =
     (if max_body_bytes = 0 \<or> max_ingest_body_bytes = 0
        then (Inl YAP_V2_CORE_HTTP_INVALID_ARGUMENT, stream)
      else if \<not> mem YAP_V2_CORE_HTTP_MAX_HEADER_BYTES then (Inl YAP_V2_CORE_HTTP_NO_MEMORY, stream)
      else case read_head broken [] stream of
        (Inl status, rest) \<Rightarrow> (Inl status, rest)
      | (Inr head, rest) \<Rightarrow>
          (case YAP_V2_core_http_parse_head mem head of
             Inl status \<Rightarrow> (Inl status, rest)
           | Inr request \<Rightarrow>
               (let n = req_content_length request in
                if req_have_content_length request \<and>
                   n > request_limit max_body_bytes max_ingest_body_bytes (req_target request)
                  then (Inl YAP_V2_CORE_HTTP_TOO_LARGE, rest)
                else if \<not> req_have_content_length request \<or> n = 0 then (Inr request, rest)
                else if \<not> mem n then (Inl YAP_V2_CORE_HTTP_NO_MEMORY, rest)
                else if length rest < n then (Inl YAP_V2_CORE_HTTP_IO_ERROR, [])
                else (Inr (request\<lparr>req_body := Some (take n rest), req_body_bytes := n\<rparr>), drop n rest))))"

subsection \<open>Responses\<close>

definition reason_phrase :: "int \<Rightarrow> string" where
  "reason_phrase status =
     (if status = 200 then ''OK'' else if status = 400 then ''Bad Request''
      else if status = 401 then ''Unauthorized'' else if status = 404 then ''Not Found''
      else if status = 405 then ''Method Not Allowed'' else if status = 409 then ''Conflict''
      else if status = 413 then ''Content Too Large'' else if status = 415 then ''Unsupported Media Type''
      else if status = 500 then ''Internal Server Error'' else ''Service Unavailable'')"

text \<open>Writes to the response stream in order; \<open>put n\<close> says whether the \<open>n\<close>-th one succeeds.\<close>

fun emit :: "(nat \<Rightarrow> bool) \<Rightarrow> nat \<Rightarrow> bytes list \<Rightarrow> YAP_V2_CORE_HTTP_STATUS \<times> bytes" where
  "emit put n [] = (if put n then YAP_V2_CORE_HTTP_OK else YAP_V2_CORE_HTTP_IO_ERROR, [])"
| "emit put n (p # ps) =
     (if put n then (case emit put (Suc n) ps of (status, out) \<Rightarrow> (status, p @ out))
      else (YAP_V2_CORE_HTTP_IO_ERROR, []))"

definition crlf :: bytes where "crlf = [CR, LF]"

definition response_head :: "int \<Rightarrow> bytes \<Rightarrow> nat \<Rightarrow> bytes" where
  "response_head status content_type body_bytes =
     ascii ''HTTP/1.1 '' @ decimal_int status @ ascii '' '' @ ascii (reason_phrase status) @ crlf @
     ascii ''Server: Yappo Search Core/2.0'' @ crlf @
     ascii ''Content-Type: '' @ content_type @ crlf @
     ascii ''Content-Length: '' @ decimal body_bytes @ crlf @
     ascii ''Cache-Control: no-store'' @ crlf @ ascii ''Connection: close'' @ crlf"

definition YAP_V2_core_http_write_response ::
  "(nat \<Rightarrow> bool) \<Rightarrow> int \<Rightarrow> bytes \<Rightarrow> bytes option \<Rightarrow> bool \<Rightarrow> YAP_V2_BYTES_VIEW \<Rightarrow>
     YAP_V2_CORE_HTTP_STATUS \<times> bytes" where
  "YAP_V2_core_http_write_response put status content_type allow accept_query body =
     (if (view_len body \<noteq> 0 \<and> view_is_null body) \<or> view_len body > YAP_V2_CORE_HTTP_MAX_RESPONSE_BYTES
        then (YAP_V2_CORE_HTTP_INVALID_ARGUMENT, [])
      else emit put 0
        ([response_head status content_type (view_len body)] @
         (case allow of None \<Rightarrow> [] | Some a \<Rightarrow> [ascii ''Allow: '' @ a @ crlf]) @
         (if accept_query then [ascii ''Accept-Query: application/json'' @ crlf] else []) @
         [crlf] @ (if view_len body \<noteq> 0 then [view_bytes body] else [])))"

subsection \<open>Client\<close>

record response_buffer =
  rsp_data :: "bytes option"
  rsp_bytes :: nat
  rsp_failed :: bool

definition receive_response ::
  "(nat \<Rightarrow> bool) \<Rightarrow> bytes \<Rightarrow> nat \<Rightarrow> nat \<Rightarrow> response_buffer \<Rightarrow> nat \<times> response_buffer" where
  "receive_response mem contents item_size item_count buffer =
     (let bytes = item_size * item_count in
      if item_size \<noteq> 0 \<and> item_count > SIZE_MAX div item_size then (0, buffer\<lparr>rsp_failed := True\<rparr>)
      else if bytes > size_sub YAP_V2_CORE_HTTP_MAX_RESPONSE_BYTES (rsp_bytes buffer)
        then (0, buffer\<lparr>rsp_failed := True\<rparr>)
      else if \<not> mem (rsp_bytes buffer + bytes + 1) then (0, buffer\<lparr>rsp_failed := True\<rparr>)
      else
        (let old = (case rsp_data buffer of None \<Rightarrow> [] | Some d \<Rightarrow> d) in
         (bytes, buffer\<lparr>rsp_data := Some (old @ take bytes contents), rsp_bytes := rsp_bytes buffer + bytes\<rparr>)))"

definition build_url :: "nat \<Rightarrow> bytes \<Rightarrow> int \<Rightarrow> bytes \<Rightarrow> bytes option" where
  "build_url capacity host port target =
     (let url = (if 58 \<in> set host \<and> host ! 0 \<noteq> 91
                 then ascii ''http://['' @ host @ ascii '']:'' @ decimal_int port @ target
                 else ascii ''http://'' @ host @ ascii '':'' @ decimal_int port @ target) in
      if length url \<ge> capacity then None else Some url)"

text \<open>
  libcurl is the argument \<open>curl\<close>: what \<open>curl_easy_perform\<close> answers to the options set. It passes the body
  to \<open>receive_response\<close> in pieces and stops at the first piece not taken completely. \<open>setopt_ok\<close> and
  \<open>slist_ok\<close> say whether setting options and appending headers succeed.
\<close>

definition YAP_V2_HTTP_MAX_BODY_BYTES :: nat where "YAP_V2_HTTP_MAX_BODY_BYTES = 1024 * 1024"

record curl_request =
  crq_url :: bytes
  crq_headers :: "bytes list"
  crq_method :: bytes
  crq_timeout_ms :: u32
  crq_body :: "bytes option"

record curl_reply =
  crp_ok :: bool
  crp_pieces :: "bytes list"
  crp_status :: int
  crp_content_type :: "bytes option"

record YAP_V2_CORE_HTTP_RESPONSE =
  rsp_status :: int
  rsp_body :: bytes
  rsp_body_bytes :: nat

fun receive_pieces :: "(nat \<Rightarrow> bool) \<Rightarrow> bytes list \<Rightarrow> response_buffer \<Rightarrow> response_buffer" where
  "receive_pieces mem [] buffer = buffer"
| "receive_pieces mem (p # ps) buffer =
     (case receive_response mem p 1 (length p) buffer of
        (taken, buffer) \<Rightarrow> if taken = length p then receive_pieces mem ps buffer else buffer)"

definition client_headers :: "bytes option \<Rightarrow> nat \<Rightarrow> bytes list option" where
  "client_headers authorization body_bytes =
     (let headers = [ascii ''Accept: application/json'', ascii ''Connection: keep-alive'', ascii ''Expect:''] @
        (if body_bytes \<noteq> 0 then [ascii ''Content-Type: application/json''] else []) in
      case authorization of
        None \<Rightarrow> Some headers
      | Some a \<Rightarrow>
          if a = [] then Some headers
          else if length (ascii ''Authorization: '' @ a) \<ge> YAP_V2_AUTHORIZATION_MAX_BYTES + 32 then None
          else Some (headers @ [ascii ''Authorization: '' @ a]))"

definition content_type_ok :: "bytes option \<Rightarrow> bool" where
  "content_type_ok content_type = (case content_type of None \<Rightarrow> False | Some t \<Rightarrow> json_type t)"

definition YAP_V2_core_http_client_request ::
  "(nat \<Rightarrow> bool) \<Rightarrow> bool \<Rightarrow> bool \<Rightarrow> (curl_request \<Rightarrow> curl_reply) \<Rightarrow> bytes \<Rightarrow> int \<Rightarrow> u32 \<Rightarrow> bytes \<Rightarrow> bytes \<Rightarrow>
     bytes option \<Rightarrow> YAP_V2_BYTES_VIEW \<Rightarrow> YAP_V2_CORE_HTTP_RESPONSE http_outcome" where
  "YAP_V2_core_http_client_request mem slist_ok setopt_ok curl host port timeout_ms method target
       authorization body =
     (if port < 1 \<or> port > 65535 \<or> timeout_ms = 0 \<or> (view_len body \<noteq> 0 \<and> view_is_null body) \<or>
         view_len body > request_limit YAP_V2_HTTP_MAX_BODY_BYTES YAP_V2_MAX_INGEST_BODY_BYTES target
        then Inl YAP_V2_CORE_HTTP_INVALID_ARGUMENT
      else case build_url 768 host port target of
        None \<Rightarrow> Inl YAP_V2_CORE_HTTP_INVALID_ARGUMENT
      | Some url \<Rightarrow>
          (case client_headers authorization (view_len body) of
             None \<Rightarrow> Inl YAP_V2_CORE_HTTP_IO_ERROR
           | Some headers \<Rightarrow>
               if \<not> slist_ok \<or> \<not> setopt_ok then Inl YAP_V2_CORE_HTTP_IO_ERROR
               else
                 (let reply = curl \<lparr>crq_url = url, crq_headers = headers, crq_method = method,
                        crq_timeout_ms = timeout_ms,
                        crq_body = (if view_len body \<noteq> 0 then Some (view_bytes body) else None)\<rparr>;
                      buffer = receive_pieces mem (crp_pieces reply)
                        \<lparr>rsp_data = None, rsp_bytes = 0, rsp_failed = False\<rparr> in
                  if \<not> crp_ok reply \<or> rsp_failed buffer \<or> crp_status reply < 100 \<or> crp_status reply > 599 \<or>
                     \<not> content_type_ok (crp_content_type reply)
                    then Inl YAP_V2_CORE_HTTP_IO_ERROR
                  else case rsp_data buffer of
                    None \<Rightarrow> Inl YAP_V2_CORE_HTTP_IO_ERROR
                  | Some d \<Rightarrow> Inr \<lparr>rsp_status = crp_status reply, rsp_body = d, rsp_body_bytes = rsp_bytes buffer\<rparr>)))"

subsection \<open>Decimal numbers\<close>

lemma digits_foldl_mono: "n \<le> foldl (\<lambda>n c. n * 10 + unat (c - 48 :: byte)) n s"
proof (induction s arbitrary: n)
  case (Cons c s)
  have "n \<le> n * 10 + unat (c - 48)" by simp
  with Cons[of "n * 10 + unat (c - 48)"] show ?case by (simp add: le_trans)
qed simp

lemma parse_digits_iff:
  "n \<le> SIZE_MAX \<Longrightarrow> parse_digits n s =
     (if (\<forall>c\<in>set s. is_digit c) \<and> foldl (\<lambda>n c. n * 10 + unat (c - 48)) n s \<le> SIZE_MAX
      then Some (foldl (\<lambda>n c. n * 10 + unat (c - 48)) n s) else None)"
proof (induction s arbitrary: n)
  case (Cons c s)
  let ?m = "n * 10 + unat (c - 48)"
  show ?case
  proof (cases "is_digit c")
    case True
    then have "unat (c - 48) = unat c - 48" "unat c \<le> 57"
      by (auto simp: is_digit_def unat_sub word_le_nat_alt)
    then have "n > (SIZE_MAX - unat (c - 48)) div 10 \<longleftrightarrow> ?m > SIZE_MAX"
      by (auto simp: not_less)
    moreover have "?m > SIZE_MAX \<Longrightarrow> \<not> foldl (\<lambda>n c. n * 10 + unat (c - 48)) ?m s \<le> SIZE_MAX"
      using digits_foldl_mono[of ?m s] by linarith
    ultimately show ?thesis
      using True Cons.IH[of ?m] by (auto simp: is_digit_def Let_def)
  qed (auto simp: is_digit_def)
qed simp

lemma parse_content_length_eq:
  "parse_content_length v =
     (if v \<noteq> [] \<and> (\<forall>c\<in>set v. is_digit c) \<and> digits_value v \<le> SIZE_MAX then Some (digits_value v) else None)"
  using parse_digits_iff[of 0 v] by (auto simp: parse_content_length_def digits_value_def)

subsection \<open>What a request head says\<close>

text \<open>The values a list of header fields gives for a name, case-insensitively and trimmed.\<close>

definition named :: "string \<Rightarrow> (bytes \<times> bytes) list \<Rightarrow> bytes list" where
  "named nm hs = map (\<lambda>(n, v). trim_value v) (filter (\<lambda>(n, v). strcasecmp_eq n nm) hs)"

definition at_most_one :: "(bytes \<Rightarrow> bool) \<Rightarrow> bytes list \<Rightarrow> bool" where
  "at_most_one good vs \<longleftrightarrow> length vs \<le> 1 \<and> list_all good vs"

definition headers_ok :: "(bytes \<times> bytes) list \<Rightarrow> bool" where
  "headers_ok hs \<longleftrightarrow>
     at_most_one (\<lambda>v. v \<noteq> []) (named ''Host'' hs) \<and>
     at_most_one (\<lambda>v. True) (named ''Content-Type'' hs) \<and>
     at_most_one (\<lambda>v. parse_content_length v \<noteq> None) (named ''Content-Length'' hs) \<and>
     named ''Transfer-Encoding'' hs = [] \<and>
     at_most_one (\<lambda>v. 0 < length v \<and> length v \<le> YAP_V2_AUTHORIZATION_MAX_BYTES) (named ''Authorization'' hs) \<and>
     at_most_one (\<lambda>v. strcasecmp_eq v ''close'' \<or> strcasecmp_eq v ''keep-alive'') (named ''Connection'' hs)"

definition first_value :: "'a \<Rightarrow> (bytes \<Rightarrow> 'a) \<Rightarrow> bytes list \<Rightarrow> 'a" where
  "first_value d f vs = (case vs of [] \<Rightarrow> d | v # _ \<Rightarrow> f v)"

definition request_of :: "bytes \<Rightarrow> bytes \<Rightarrow> (bytes \<times> bytes) list \<Rightarrow> YAP_V2_CORE_HTTP_REQUEST" where
  "request_of method target hs =
     \<lparr>req_method = method, req_target = target,
      req_content_length = first_value 0 (\<lambda>v. the (parse_content_length v)) (named ''Content-Length'' hs),
      req_have_content_length = (named ''Content-Length'' hs \<noteq> []),
      req_json_content_type = first_value False json_type (named ''Content-Type'' hs),
      req_close_connection = first_value True (\<lambda>v. \<not> strcasecmp_eq v ''keep-alive'') (named ''Connection'' hs),
      req_authorization = first_value [] (\<lambda>v. v) (named ''Authorization'' hs),
      req_body = None, req_body_bytes = 0\<rparr>"

definition state_of :: "bytes \<Rightarrow> bytes \<Rightarrow> (bytes \<times> bytes) list \<Rightarrow> head_state" where
  "state_of method target hs =
     \<lparr>hs_request = request_of method target hs, hs_have_host = (named ''Host'' hs \<noteq> []),
      hs_have_type = (named ''Content-Type'' hs \<noteq> []),
      hs_have_authorization = (named ''Authorization'' hs \<noteq> []),
      hs_have_connection = (named ''Connection'' hs \<noteq> [])\<rparr>"

fun apply_headers :: "(bytes \<times> bytes) list \<Rightarrow> head_state \<Rightarrow> head_state option" where
  "apply_headers [] h = Some h"
| "apply_headers ((n, v) # hs) h =
     (case apply_header n (trim_value v) h of None \<Rightarrow> None | Some h \<Rightarrow> apply_headers hs h)"

lemma strcasecmp_length: "strcasecmp_eq n nm \<Longrightarrow> length n = length nm"
  unfolding strcasecmp_eq_def by (metis length_ascii length_map)

lemma strcasecmp_exclusive: "strcasecmp_eq n a \<Longrightarrow> length a \<noteq> length b \<Longrightarrow> \<not> strcasecmp_eq n b"
  using strcasecmp_length by metis

lemma named_snoc:
  "named nm (hs @ [(n, v)]) = named nm hs @ (if strcasecmp_eq n nm then [trim_value v] else [])"
  by (simp add: named_def)

lemma first_value_snoc: "first_value d f (vs @ ws) = (if vs = [] then first_value d f ws else first_value d f vs)"
  by (cases vs) (simp_all add: first_value_def)

lemma first_value_one [simp]: "first_value d f [v] = f v" "first_value d f [] = d"
  by (simp_all add: first_value_def)

lemma at_most_one_snoc:
  "at_most_one good (vs @ [v]) \<longleftrightarrow> vs = [] \<and> good v"
  by (cases vs) (auto simp: at_most_one_def)

lemma apply_header_step:
  assumes "headers_ok hs"
  shows "apply_header n (trim_value v) (state_of m t hs) =
    (if headers_ok (hs @ [(n, v)]) then Some (state_of m t (hs @ [(n, v)])) else None)"
proof -
  consider "strcasecmp_eq n ''Host''" | "strcasecmp_eq n ''Content-Type''"
    | "strcasecmp_eq n ''Content-Length''" | "strcasecmp_eq n ''Transfer-Encoding''"
    | "strcasecmp_eq n ''Authorization''" | "strcasecmp_eq n ''Connection''"
    | "\<not> strcasecmp_eq n ''Host''" "\<not> strcasecmp_eq n ''Content-Type''"
      "\<not> strcasecmp_eq n ''Content-Length''" "\<not> strcasecmp_eq n ''Transfer-Encoding''"
      "\<not> strcasecmp_eq n ''Authorization''" "\<not> strcasecmp_eq n ''Connection''"
    by blast
  then show ?thesis
  proof cases
    case 1
    note x = this strcasecmp_exclusive[OF this]
    show ?thesis
      using assms by (auto simp: x apply_header_def Let_def state_of_def headers_ok_def named_snoc
          at_most_one_snoc request_of_def)
  next
    case 2
    note x = this strcasecmp_exclusive[OF this]
    show ?thesis
      using assms by (auto simp: x apply_header_def Let_def state_of_def headers_ok_def named_snoc
          at_most_one_snoc request_of_def)
  next
    case 3
    note x = this strcasecmp_exclusive[OF this]
    show ?thesis
      using assms by (auto simp: x apply_header_def Let_def state_of_def headers_ok_def named_snoc
          at_most_one_snoc request_of_def split: option.splits)
  next
    case 4
    note x = this strcasecmp_exclusive[OF this]
    show ?thesis
      by (auto simp: x apply_header_def Let_def headers_ok_def named_snoc)
  next
    case 5
    note x = this strcasecmp_exclusive[OF this]
    show ?thesis
      using assms by (auto simp: x apply_header_def Let_def state_of_def headers_ok_def named_snoc
          at_most_one_snoc request_of_def not_less)
  next
    case 6
    note x = this strcasecmp_exclusive[OF this]
    show ?thesis
      using assms by (auto simp: x apply_header_def Let_def state_of_def headers_ok_def named_snoc
          at_most_one_snoc request_of_def)
  next
    case 7
    then show ?thesis
      using assms by (auto simp: apply_header_def Let_def state_of_def headers_ok_def named_snoc
          request_of_def)
  qed
qed

lemma headers_ok_prefix: "headers_ok (hs @ [(n, v)]) \<Longrightarrow> headers_ok hs"
  by (auto simp: headers_ok_def named_snoc at_most_one_def split: if_splits)

lemma apply_headers_snoc:
  "apply_headers (hs @ [(n, v)]) h =
     (case apply_headers hs h of None \<Rightarrow> None | Some h \<Rightarrow> apply_header n (trim_value v) h)"
  by (induction hs h rule: apply_headers.induct) (auto split: option.splits)

lemma apply_headers_eq:
  "apply_headers hs (state_of m t []) = (if headers_ok hs then Some (state_of m t hs) else None)"
proof (induction hs rule: rev_induct)
  case Nil
  then show ?case by (simp add: headers_ok_def named_def at_most_one_def)
next
  case (snoc x hs)
  obtain n v where x: "x = (n, v)" by (cases x)
  show ?case
    using snoc headers_ok_prefix[of hs n v] apply_header_step[of hs n v m t]
    by (auto simp: x apply_headers_snoc)
qed

subsection \<open>Parsing a rendered head\<close>

definition header_line :: "bytes \<times> bytes \<Rightarrow> bytes" where
  "header_line f = (case f of (n, v) \<Rightarrow> n @ 58 # v)"

definition request_line :: "bytes \<Rightarrow> bytes \<Rightarrow> bytes" where
  "request_line method target = method @ 32 # target @ 32 # ascii ''HTTP/1.1''"

definition render_head :: "bytes \<Rightarrow> bytes \<Rightarrow> (bytes \<times> bytes) list \<Rightarrow> bytes" where
  "render_head method target hs =
     concat (map (\<lambda>l. l @ crlf) (request_line method target # map header_line hs)) @ crlf"

definition token :: "nat \<Rightarrow> bytes \<Rightarrow> bool" where
  "token n s \<longleftrightarrow> s \<noteq> [] \<and> length s \<le> n \<and> list_all (\<lambda>c. \<not> isspace c \<and> c \<noteq> 0) s"

definition field_ok :: "bytes \<times> bytes \<Rightarrow> bool" where
  "field_ok f \<longleftrightarrow> (case f of (n, v) \<Rightarrow>
     header_name_valid n \<and> CR \<notin> set v \<and> 0 \<notin> set v \<and>
     length n + 1 + length v \<le> YAP_V2_CORE_HTTP_MAX_LINE_BYTES)"

definition head_ok :: "bytes \<Rightarrow> bytes \<Rightarrow> (bytes \<times> bytes) list \<Rightarrow> bool" where
  "head_ok method target hs \<longleftrightarrow> token 15 method \<and> token 255 target \<and> list_all field_ok hs \<and>
     length (render_head method target hs) \<le> YAP_V2_CORE_HTTP_MAX_HEADER_BYTES"

definition plain_line :: "bytes \<Rightarrow> bool" where
  "plain_line l \<longleftrightarrow> l \<noteq> [] \<and> CR \<notin> set l \<and> 0 \<notin> set l \<and> length l \<le> YAP_V2_CORE_HTTP_MAX_LINE_BYTES"

lemma find_crlf_line: "CR \<notin> set l \<Longrightarrow> 0 \<notin> set l \<Longrightarrow> find_crlf (l @ CR # LF # rest) = Some (length l)"
proof (induction l)
  case (Cons a l)
  then show ?case by (cases l) auto
qed simp

lemma find_colon_name: "58 \<notin> set n \<Longrightarrow> 0 \<notin> set n \<Longrightarrow> find_colon (n @ 58 # v) = Some (length n)"
  by (induction n) auto

lemma header_name_chars: "header_name_valid n \<Longrightarrow> 58 \<notin> set n \<and> 0 \<notin> set n \<and> CR \<notin> set n \<and> n \<noteq> []"
  by (auto simp: header_name_valid_def list_all_iff header_char_valid_def)

lemma isspace_CR: "isspace CR"
  by (simp add: isspace_def)

lemma parse_header_line_ok:
  "field_ok (n, v) \<Longrightarrow> parse_header_line (header_line (n, v)) h = apply_header n (trim_value v) h"
  using header_name_chars[of n]
  by (cases "length n") (auto simp: parse_header_line_def header_line_def field_ok_def find_colon_name)

lemma header_line_plain: "field_ok f \<Longrightarrow> plain_line (header_line f)"
  using header_name_chars[of "fst f"]
  by (cases f) (auto simp: plain_line_def field_ok_def header_line_def)

lemma request_line_plain: "token 15 m \<Longrightarrow> token 255 t \<Longrightarrow> plain_line (request_line m t)"
  using isspace_CR
  by (auto simp: plain_line_def request_line_def token_def list_all_iff http_limits ascii_def)

lemma parse_headers_line:
  assumes "plain_line l"
  shows "parse_headers (l @ crlf @ rest) h =
    (case parse_header_line l h of None \<Rightarrow> None | Some h \<Rightarrow> parse_headers rest h)"
proof -
  have "l @ crlf @ rest \<noteq> []" "(l @ crlf @ rest) ! 0 \<noteq> 0"
    using assms by (cases l; auto simp: plain_line_def)+
  moreover have "find_crlf (l @ crlf @ rest) = Some (length l)"
    using assms find_crlf_line[of l rest] by (simp add: plain_line_def crlf_def)
  ultimately show ?thesis
    using assms by (subst parse_headers.simps) (auto simp: plain_line_def crlf_def split: option.splits)
qed

lemma parse_headers_blank: "parse_headers crlf h = Some h"
  by (subst parse_headers.simps) (simp add: crlf_def)

lemma parse_headers_fields:
  "list_all field_ok hs \<Longrightarrow>
     parse_headers (concat (map (\<lambda>l. l @ crlf) (map header_line hs)) @ crlf) h = apply_headers hs h"
proof (induction hs arbitrary: h)
  case (Cons f hs)
  obtain n v where f: "f = (n, v)" by (cases f)
  with Cons show ?case
    by (auto simp: parse_headers_line[OF header_line_plain] parse_header_line_ok split: option.splits)
qed (simp add: parse_headers_blank)

lemma scan_token_ok:
  assumes "token n s" and "rest = [] \<or> isspace (hd rest)"
  shows "scan_token n (s @ rest) = Some (s, rest)" "scan_token n (32 # s @ rest) = Some (s, rest)"
proof -
  have "dropWhile isspace (s @ rest) = s @ rest"
    using assms(1) by (cases s) (auto simp: token_def)
  moreover have "takeWhile (\<lambda>c. \<not> isspace c) (s @ rest) = s"
  proof -
    have "takeWhile (\<lambda>c. \<not> isspace c) (s @ rest) = s @ takeWhile (\<lambda>c. \<not> isspace c) rest"
      using assms(1) by (intro takeWhile_append2) (auto simp: token_def list_all_iff)
    then show ?thesis using assms(2) by (cases rest) auto
  qed
  moreover have "0 < n" using assms(1) by (cases s) (auto simp: token_def)
  ultimately show "scan_token n (s @ rest) = Some (s, rest)" "scan_token n (32 # s @ rest) = Some (s, rest)"
    using assms(1) by (auto simp: scan_token_def token_def isspace_def)
qed

lemma scan_request_line_ok:
  assumes "token 15 m" "token 255 t"
  shows "scan_request_line (request_line m t) = Some (m, t, ascii ''HTTP/1.1'')"
proof -
  have v: "token 31 (ascii ''HTTP/1.1'')"
    by (simp add: token_def ascii_def isspace_def)
  have "isspace 32" by (simp add: isspace_def)
  then show ?thesis
    using scan_token_ok(1)[OF assms(1), of "32 # t @ 32 # ascii ''HTTP/1.1''"]
      scan_token_ok(2)[OF assms(2), of "32 # ascii ''HTTP/1.1''"] scan_token_ok(2)[OF v, of "[]"]
    by (simp add: scan_request_line_def request_line_def)
qed

lemma ends_head_render: "ends_head (render_head m t hs)"
proof -
  have "\<exists>xs. render_head m t hs = xs @ crlf @ crlf"
  proof (cases hs rule: rev_exhaust)
    case Nil
    then show ?thesis by (intro exI[of _ "request_line m t"]) (simp add: render_head_def)
  next
    case (snoc hs' f)
    then show ?thesis
      by (intro exI[of _ "concat (map (\<lambda>l. l @ crlf) (request_line m t # map header_line hs')) @ header_line f"])
        (simp add: render_head_def)
  qed
  then show ?thesis by (auto simp: ends_head_def crlf_def)
qed

lemma parse_head_render:
  assumes "head_ok m t hs" and "\<forall>n. mem n"
  shows "YAP_V2_core_http_parse_head mem (render_head m t hs) =
    (if headers_ok hs \<and> named ''Host'' hs \<noteq> [] then Inr (request_of m t hs) else Inl YAP_V2_CORE_HTTP_INVALID)"
proof -
  let ?r = "concat (map (\<lambda>l. l @ crlf) (map header_line hs)) @ crlf"
  have ok: "token 15 m" "token 255 t" "list_all field_ok hs"
    "length (render_head m t hs) \<le> YAP_V2_CORE_HTTP_MAX_HEADER_BYTES"
    using assms(1) by (auto simp: head_ok_def)
  have r: "render_head m t hs = request_line m t @ CR # LF # ?r"
    by (simp add: render_head_def crlf_def)
  have l: "plain_line (request_line m t)" by (rule request_line_plain[OF ok(1,2)])
  have f: "find_crlf (render_head m t hs) = Some (length (request_line m t))"
    unfolding r using l by (intro find_crlf_line) (auto simp: plain_line_def)
  have d: "take (length (request_line m t)) (render_head m t hs) = request_line m t"
    "drop (length (request_line m t) + 2) (render_head m t hs) = ?r"
    by (simp_all add: r)
  have init: "\<lparr>hs_request = YAP_V2_core_http_request_init
        \<lparr>req_close_connection := True, req_method := m, req_target := t\<rparr>,
      hs_have_host = False, hs_have_type = False, hs_have_authorization = False,
      hs_have_connection = False\<rparr> = state_of m t []"
    by (simp add: state_of_def request_of_def named_def YAP_V2_core_http_request_init_def)
  have len: "\<not> length (render_head m t hs) < 4" "\<not> length (request_line m t) > YAP_V2_CORE_HTTP_MAX_LINE_BYTES"
    using ends_head_render[of m t hs] l by (simp_all add: ends_head_def plain_line_def)
  show ?thesis
    unfolding YAP_V2_core_http_parse_head_def f option.case d scan_request_line_ok[OF ok(1,2)] prod.case
      Let_def init parse_headers_fields[OF ok(3)] apply_headers_eq
    using len ok(4) assms(2) ends_head_render[of m t hs] by (simp add: state_of_def)
qed

text \<open>
  Which request heads the core accepts: for every rendered head (any method and target tokens, any
  header fields in any order) parsing succeeds exactly when there is one non-empty \<open>Host\<close>, no
  \<open>Transfer-Encoding\<close>, and at most one, valid, \<open>Content-Length\<close>, \<open>Content-Type\<close>, \<open>Authorization\<close> and
  \<open>Connection\<close>; the request then has exactly their values, and anything else is rejected as invalid.
\<close>

theorem parse_head_correct:
  assumes "head_ok method target hs" and "\<forall>n. mem n"
  shows "YAP_V2_core_http_parse_head mem (render_head method target hs) =
    (if headers_ok hs \<and> named ''Host'' hs \<noteq> [] then Inr (request_of method target hs)
     else Inl YAP_V2_CORE_HTTP_INVALID)"
  using assms by (rule parse_head_render)

subsection \<open>Framing\<close>


lemma read_head_exact:
  assumes "s \<noteq> []" and "ends_head (head @ s)" and "length (head @ s) \<le> YAP_V2_CORE_HTTP_MAX_HEADER_BYTES"
    and "\<And>p q. s = p @ q \<Longrightarrow> p \<noteq> [] \<Longrightarrow> q \<noteq> [] \<Longrightarrow> \<not> ends_head (head @ p)"
  shows "read_head broken head (s @ rest) = (Inr (head @ s), rest)"
  using assms
proof (induction s arbitrary: head)
  case (Cons b s)
  show ?case
  proof (cases "s = []")
    case True
    with Cons show ?thesis by simp
  next
    case False
    have "\<not> ends_head (head @ [b])" using Cons.prems(4)[of "[b]" s] False by simp
    moreover have "read_head broken (head @ [b]) (s @ rest) = (Inr ((head @ [b]) @ s), rest)"
    proof (rule Cons.IH[OF False])
      show "ends_head ((head @ [b]) @ s)" "length ((head @ [b]) @ s) \<le> YAP_V2_CORE_HTTP_MAX_HEADER_BYTES"
        using Cons.prems(2,3) by simp_all
      show "\<not> ends_head ((head @ [b]) @ p)" if "s = p @ q" "p \<noteq> []" "q \<noteq> []" for p q
        using Cons.prems(4)[of "b # p" q] that by simp
    qed
    ultimately show ?thesis using Cons.prems(3) by simp
  qed
qed simp

text \<open>Non-empty lines without carriage returns contain no blank line.\<close>

lemma no_blank_line:
  "\<forall>l\<in>set ls. l \<noteq> [] \<and> CR \<notin> set l \<Longrightarrow> concat (map (\<lambda>l. l @ crlf) ls) \<noteq> p @ [CR, LF, CR, LF] @ q"
proof (induction ls arbitrary: p)
  case (Cons l ls)
  let ?c = "concat (map (\<lambda>l. l @ crlf) ls)"
  show ?case
  proof
    assume "concat (map (\<lambda>l. l @ crlf) (l # ls)) = p @ [CR, LF, CR, LF] @ q"
    then have eq: "l @ CR # LF # ?c = p @ [CR, LF, CR, LF] @ q" by (simp add: crlf_def)
    have l: "CR \<notin> set l" using Cons.prems by simp
    have nth: "(l @ CR # LF # ?c) ! length p = CR" by (simp add: eq)
    consider "length p < length l" | "length p = length l" | "length p = Suc (length l)"
      | k where "length p = length l + 2 + k"
    proof -
      have "length p = length l + 2 + (length p - length l - 2)"
        if "\<not> length p < length l" "length p \<noteq> length l" "length p \<noteq> Suc (length l)"
        using that by linarith
      then show ?thesis using that by blast
    qed
    then show False
    proof cases
      case 1
      then have "l ! length p = CR" using nth by (simp add: nth_append)
      with 1 l show False using nth_mem by metis
    next
      case 2
      then have "?c = [CR, LF] @ q" using eq by simp
      moreover have "?c = [] \<or> hd ?c \<noteq> CR"
        using Cons.prems by (cases ls) (auto simp: crlf_def hd_append dest: hd_in_set)
      ultimately show False by auto
    next
      case 3
      then show False using nth by (simp add: nth_append)
    next
      case 4
      have "drop (length l + 2) p @ [CR, LF, CR, LF] @ q = drop (length l + 2) (l @ CR # LF # ?c)"
        using 4 by (simp add: eq)
      then have "?c = drop (length l + 2) p @ [CR, LF, CR, LF] @ q" by simp
      moreover have "?c \<noteq> drop (length l + 2) p @ [CR, LF, CR, LF] @ q"
        using Cons.prems by (intro Cons.IH) simp
      ultimately show False by contradiction
    qed
  qed
qed simp

lemma render_no_early_end:
  assumes "head_ok m t hs" and "render_head m t hs = p @ q" and "q \<noteq> []"
  shows "\<not> ends_head p"
proof
  assume "ends_head p"
  then obtain a where a: "p = a @ [CR, LF, CR, LF]"
    unfolding ends_head_def by (metis append_take_drop_id)
  let ?ls = "request_line m t # map header_line hs"
  let ?c = "concat (map (\<lambda>l. l @ crlf) ?ls)"
  have "plain_line (request_line m t)" "\<forall>f\<in>set hs. plain_line (header_line f)"
    using assms(1) request_line_plain header_line_plain by (auto simp: head_ok_def list_all_iff)
  then have ls: "\<forall>l\<in>set ?ls. l \<noteq> [] \<and> CR \<notin> set l" by (auto simp: plain_line_def)
  have eq: "?c @ [CR, LF] = a @ [CR, LF, CR, LF] @ q"
    using assms(2) a by (simp add: render_head_def crlf_def)
  obtain q' where "q = q' @ [LF]"
  proof -
    have "last (?c @ [CR, LF]) = last q" unfolding eq using assms(3) by simp
    then have "last q = LF" by simp
    then show thesis using that[of "butlast q"] assms(3) by (metis append_butlast_last_id)
  qed
  with eq have eq2: "?c @ [CR] = a @ [CR, LF, CR, LF] @ q'" by simp
  show False
  proof (cases q' rule: rev_exhaust)
    case Nil
    with eq2 have "last (?c @ [CR]) = LF" by simp
    then show False by simp
  next
    case (snoc q'' x)
    with eq2 have "?c = a @ [CR, LF, CR, LF] @ q''" by simp
    with no_blank_line[OF ls] show False by blast
  qed
qed






lemma read_request_render:
  assumes "head_ok method target hs" and "headers_ok hs" and "named ''Host'' hs \<noteq> []"
    and "req_content_length (request_of method target hs) = length body"
    and "length body \<le> request_limit max_body max_ingest target"
    and "0 < max_body" and "0 < max_ingest" and "\<forall>n. mem n"
  shows "YAP_V2_core_http_read_request mem broken max_body max_ingest
      (render_head method target hs @ body @ rest) =
    (Inr (if body = [] then request_of method target hs
          else (request_of method target hs)\<lparr>req_body := Some body, req_body_bytes := length body\<rparr>), rest)"
proof -
  let ?h = "render_head method target hs" and ?r = "request_of method target hs"
  have ends: "ends_head ?h" by (rule ends_head_render)
  then have "?h \<noteq> []" by (auto simp: ends_head_def)
  then have head: "read_head broken [] (?h @ body @ rest) = (Inr ?h, body @ rest)"
    using read_head_exact[of ?h "[]" broken "body @ rest"] ends render_no_early_end[OF assms(1)] assms(1)
    by (simp add: head_ok_def)
  have parse: "YAP_V2_core_http_parse_head mem ?h = Inr ?r"
    using parse_head_render[OF assms(1,8)] assms(2,3) by simp
  have r: "req_target ?r = target" "body \<noteq> [] \<longrightarrow> req_have_content_length ?r"
    using assms(4) by (auto simp: request_of_def first_value_def split: list.splits)
  show ?thesis
    unfolding YAP_V2_core_http_read_request_def head prod.case sum.case parse Let_def assms(4) r(1)
    using assms(5-8) r(2) by auto
qed

text \<open>
  A rendered request is read back whole: with an acceptable head, a body of the announced length
  within the limit and any bytes behind it, the core reads the request with that head and that body and
  leaves precisely the bytes behind it, so the next request of a connection starts where this one ends.
\<close>

theorem read_request_rendered:
  assumes "head_ok method target hs" and "headers_ok hs" and "named ''Host'' hs \<noteq> []"
    and "req_content_length (request_of method target hs) = length body"
    and "length body \<le> request_limit max_body max_ingest target"
    and "0 < max_body" and "0 < max_ingest" and "\<forall>n. mem n"
  shows "YAP_V2_core_http_read_request mem broken max_body max_ingest
      (render_head method target hs @ body @ rest) =
    (Inr (if body = [] then request_of method target hs
          else (request_of method target hs)\<lparr>req_body := Some body, req_body_bytes := length body\<rparr>), rest)"
  using assms by (rule read_request_render)

text \<open>
  Decimal lengths: \<open>Content-Length\<close> is accepted exactly for a non-empty string of digits whose value
  fits in \<open>size_t\<close>, with that value, and what the response writer prints is read back as the same number.
\<close>

theorem parse_content_length_correct:
  "parse_content_length v =
     (if v \<noteq> [] \<and> (\<forall>c\<in>set v. is_digit c) \<and> digits_value v \<le> SIZE_MAX then Some (digits_value v) else None) \<and>
   (n \<le> SIZE_MAX \<longrightarrow> parse_content_length (decimal n) = Some n)"
  using decimal_digits[of n] by (simp add: parse_content_length_eq)

theorem parse_content_length_correct_witness:
  "parse_content_length (decimal 1048576) = Some 1048576 \<and> parse_content_length [52, 50] = Some 42"
  using parse_content_length_correct[of "[52, 50]" 1048576] by (simp add: is_digit_def digits_value_def)

lemma receive_response_bounded:
  assumes "receive_response mem contents item_size item_count buffer = (taken, buffer')"
    and "rsp_bytes buffer = (case rsp_data buffer of None \<Rightarrow> 0 | Some d \<Rightarrow> length d)"
    and "rsp_bytes buffer \<le> YAP_V2_CORE_HTTP_MAX_RESPONSE_BYTES"
    and "length contents = item_size * item_count"
  shows "rsp_bytes buffer' = (case rsp_data buffer' of None \<Rightarrow> 0 | Some d \<Rightarrow> length d) \<and>
    rsp_bytes buffer' \<le> YAP_V2_CORE_HTTP_MAX_RESPONSE_BYTES \<and>
    (if rsp_failed buffer' \<and> \<not> rsp_failed buffer
     then taken = 0 \<and> rsp_data buffer' = rsp_data buffer
     else rsp_failed buffer \<or> taken = length contents \<and>
       rsp_data buffer' = Some ((case rsp_data buffer of None \<Rightarrow> [] | Some d \<Rightarrow> d) @ contents))"
proof -
  have sub: "size_sub YAP_V2_CORE_HTTP_MAX_RESPONSE_BYTES (rsp_bytes buffer) =
      YAP_V2_CORE_HTTP_MAX_RESPONSE_BYTES - rsp_bytes buffer"
    using assms(3) by (intro size_sub_le) (simp_all add: http_limits)
  show ?thesis
    using assms sub by (auto simp: receive_response_def Let_def split: if_splits option.splits)
qed

lemma receive_pieces_failed: "rsp_failed b \<Longrightarrow> rsp_failed (receive_pieces mem ps b)"
proof (induction ps arbitrary: b)
  case (Cons p ps)
  obtain taken b1 where b1: "receive_response mem p 1 (length p) b = (taken, b1)"
    by (cases "receive_response mem p 1 (length p) b")
  then have "rsp_failed b1"
    using Cons.prems by (auto simp: receive_response_def Let_def split: if_splits)
  with Cons.IH[of b1] b1 show ?case by simp
qed simp

lemma receive_pieces_ok:
  "rsp_bytes b = (case rsp_data b of None \<Rightarrow> 0 | Some d \<Rightarrow> length d) \<Longrightarrow>
   rsp_bytes b \<le> YAP_V2_CORE_HTTP_MAX_RESPONSE_BYTES \<Longrightarrow> \<not> rsp_failed b \<Longrightarrow>
   \<not> rsp_failed (receive_pieces mem ps b) \<Longrightarrow>
   rsp_bytes (receive_pieces mem ps b) =
     (case rsp_data (receive_pieces mem ps b) of None \<Rightarrow> 0 | Some d \<Rightarrow> length d) \<and>
   rsp_bytes (receive_pieces mem ps b) \<le> YAP_V2_CORE_HTTP_MAX_RESPONSE_BYTES \<and>
   rsp_data (receive_pieces mem ps b) =
     (if ps = [] then rsp_data b
      else Some ((case rsp_data b of None \<Rightarrow> [] | Some d \<Rightarrow> d) @ concat ps))"
proof (induction ps arbitrary: b)
  case (Cons p ps)
  obtain taken b1 where b1: "receive_response mem p 1 (length p) b = (taken, b1)"
    by (cases "receive_response mem p 1 (length p) b")
  note step = receive_response_bounded[OF b1 Cons.prems(1,2)]
  have nf: "\<not> rsp_failed b1"
  proof
    assume f: "rsp_failed b1"
    with b1 Cons.prems(4) receive_pieces_failed[OF f] show False by (simp split: if_splits)
  qed
  have b1': "rsp_bytes b1 = (case rsp_data b1 of None \<Rightarrow> 0 | Some d \<Rightarrow> length d)"
    "rsp_bytes b1 \<le> YAP_V2_CORE_HTTP_MAX_RESPONSE_BYTES" "taken = length p"
    "rsp_data b1 = Some ((case rsp_data b of None \<Rightarrow> [] | Some d \<Rightarrow> d) @ p)"
    using step nf Cons.prems(3) by auto
  have "\<not> rsp_failed (receive_pieces mem ps b1)" using Cons.prems(4) b1 b1'(3) by simp
  note IH = Cons.IH[OF b1'(1,2) nf this]
  have rec: "receive_pieces mem (p # ps) b = receive_pieces mem ps b1" using b1 b1'(3) by simp
  show ?case
    unfolding rec using IH b1'(4) by (cases "ps = []") (auto simp del: receive_pieces.simps)
qed simp

text \<open>
  A response the client returns is complete and bounded: its body is exactly the pieces libcurl
  delivered, at most 16 MiB, its status lies in 100 to 599 and its content type is JSON.
\<close>

theorem client_request_sound:
  assumes "YAP_V2_core_http_client_request mem slist_ok setopt_ok curl host port timeout_ms method target
      authorization body = Inr response"
  shows "\<exists>request. rsp_body response = concat (crp_pieces (curl request)) \<and> crp_ok (curl request) \<and>
    crq_method request = method \<and> build_url 768 host port target = Some (crq_url request) \<and>
    rsp_body_bytes response = length (rsp_body response) \<and>
    rsp_body_bytes response \<le> YAP_V2_CORE_HTTP_MAX_RESPONSE_BYTES \<and>
    100 \<le> rsp_status response \<and> rsp_status response \<le> 599 \<and>
    rsp_status response = crp_status (curl request) \<and> content_type_ok (crp_content_type (curl request))"
proof -
  let ?empty = "\<lparr>rsp_data = None, rsp_bytes = 0, rsp_failed = False\<rparr>"
  obtain url headers where u: "build_url 768 host port target = Some url"
    and h: "client_headers authorization (view_len body) = Some headers"
    using assms by (auto simp: YAP_V2_core_http_client_request_def split: if_splits option.splits)
  define request where "request = \<lparr>crq_url = url, crq_headers = headers, crq_method = method,
    crq_timeout_ms = timeout_ms, crq_body = (if view_len body \<noteq> 0 then Some (view_bytes body) else None)\<rparr>"
  let ?buffer = "receive_pieces mem (crp_pieces (curl request)) ?empty"
  have ok: "crp_ok (curl request)" "\<not> rsp_failed ?buffer" "100 \<le> crp_status (curl request)"
      "crp_status (curl request) \<le> 599" "content_type_ok (crp_content_type (curl request))"
    using assms unfolding YAP_V2_core_http_client_request_def Let_def u h option.case request_def[symmetric]
    by (simp_all split: if_splits option.splits)
  obtain d where d: "rsp_data ?buffer = Some d"
    and r: "response = \<lparr>rsp_status = crp_status (curl request), rsp_body = d, rsp_body_bytes = rsp_bytes ?buffer\<rparr>"
    using assms unfolding YAP_V2_core_http_client_request_def Let_def u h option.case request_def[symmetric]
    by (auto split: if_splits option.splits)
  from receive_pieces_ok[of ?empty mem "crp_pieces (curl request)"] ok(2) d
  have "d = concat (crp_pieces (curl request))" "length d \<le> YAP_V2_CORE_HTTP_MAX_RESPONSE_BYTES"
    "rsp_bytes (receive_pieces mem (crp_pieces (curl request)) ?empty) = length d"
    by (auto split: if_splits)
  with u ok r show ?thesis by (intro exI[of _ request]) (simp add: request_def)
qed

definition sample_curl :: "curl_request \<Rightarrow> curl_reply" where
  "sample_curl request = \<lparr>crp_ok = True, crp_pieces = [[123], [125]], crp_status = 200,
     crp_content_type = Some (ascii ''application/json'')\<rparr>"

theorem client_request_sound_witness:
  "\<exists>response. YAP_V2_core_http_client_request (\<lambda>_. True) True True sample_curl (ascii ''core'') 80 100
     (ascii ''GET'') (ascii ''/'') None (View []) = Inr response \<and> rsp_body response = [123, 125]"
proof -
  have d: "decimal 80 = [56, 48]" by (simp add: decimal.simps)
  have t: "content_type_ok (Some (ascii ''application/json''))"
    by (simp add: content_type_ok_def json_type_def strcasecmp_eq_def ascii_def)
  obtain response where r: "YAP_V2_core_http_client_request (\<lambda>_. True) True True sample_curl (ascii ''core'') 80 100
     (ascii ''GET'') (ascii ''/'') None (View []) = Inr response"
    by (simp add: YAP_V2_core_http_client_request_def build_url_def decimal_int_def d client_headers_def t
        sample_curl_def receive_response_def size_sub_def http_limits ascii_def[of "''core''"])
  from client_request_sound[OF r] r show ?thesis by (auto simp: sample_curl_def)
qed

text \<open>A concrete request.\<close>

definition sample_headers :: "(bytes \<times> bytes) list" where
  "sample_headers = [(ascii ''host'', ascii '' core''), (ascii ''Content-Length'', ascii ''2'')]"

lemma sample_named:
  "named ''Host'' sample_headers = [ascii ''core'']" "named ''Content-Length'' sample_headers = [ascii ''2'']"
  "named ''Content-Type'' sample_headers = []" "named ''Transfer-Encoding'' sample_headers = []"
  "named ''Authorization'' sample_headers = []" "named ''Connection'' sample_headers = []"
  by (simp_all add: named_def sample_headers_def strcasecmp_eq_def ascii_def tolower_def trim_value_def blank_def)

lemma sample_ok: "headers_ok sample_headers" "head_ok (ascii ''POST'') (ascii ''/'') sample_headers"
  "req_content_length (request_of m t sample_headers) = 2"
proof -
  have two: "parse_content_length (ascii ''2'') = Some 2"
    by (simp add: parse_content_length_eq is_digit_def digits_value_def ascii_def)
  show "headers_ok sample_headers"
    by (simp add: headers_ok_def sample_named at_most_one_def two) (simp add: ascii_def)
  show "req_content_length (request_of m t sample_headers) = 2"
    by (simp add: request_of_def sample_named two)
  show "head_ok (ascii ''POST'') (ascii ''/'') sample_headers"
    by (simp add: head_ok_def token_def field_ok_def sample_headers_def render_head_def header_line_def
        request_line_def crlf_def http_limits header_name_valid_def header_char_valid_def isspace_def ascii_def)
qed


theorem parse_head_correct_witness:
  "YAP_V2_core_http_parse_head (\<lambda>_. True) (render_head (ascii ''POST'') (ascii ''/'') sample_headers) =
     Inr (request_of (ascii ''POST'') (ascii ''/'') sample_headers)"
  using parse_head_correct[OF sample_ok(2), of "\<lambda>_. True"] sample_ok(1) sample_named(1) by simp

theorem read_request_rendered_witness:
  "YAP_V2_core_http_read_request (\<lambda>_. True) False 10 10
     (render_head (ascii ''POST'') (ascii ''/'') sample_headers @ [1, 2] @ [9]) =
   (Inr ((request_of (ascii ''POST'') (ascii ''/'') sample_headers)\<lparr>req_body := Some [1, 2], req_body_bytes := 2\<rparr>), [9])"
  using read_request_rendered[OF sample_ok(2,1), of "[1, 2]" 10 10 "\<lambda>_. True" False "[9]"]
    sample_ok(3) sample_named(1) by (simp add: request_limit_def)


end
