(* ===== verification/Retrieval.thy ===== *)
theory Retrieval
  imports Segment_V2
begin

text \<open>
  Rank fusion of lexical and vector candidates (\<open>query/yappo_hybrid.c\<close>) and the passage lookups for
  context assembly (\<open>query/yappo_rag.c\<close>). The arithmetic of \<open>double\<close> is the argument \<open>D\<close>, with the facts
  the code relies on collected in \<open>double_laws\<close>; all of them hold of IEEE 754. \<open>qsort\<close> is the sort of
  the prelude, the output arrays are the lists returned.
\<close>

subsection \<open>Rank fusion\<close>

record 'a double_ops =
  dbl_zero :: 'a
  dbl_of_size :: "nat \<Rightarrow> 'a"
  dbl_add :: "'a \<Rightarrow> 'a \<Rightarrow> 'a"
  dbl_div :: "'a \<Rightarrow> 'a \<Rightarrow> 'a"
  dbl_less :: "'a \<Rightarrow> 'a \<Rightarrow> bool"
  dbl_eq :: "'a \<Rightarrow> 'a \<Rightarrow> bool"
  dbl_isfinite :: "'a \<Rightarrow> bool"
  dbl_isnan :: "'a \<Rightarrow> bool"

datatype YAP_HYBRID_STATUS =
    YAP_HYBRID_OK
  | YAP_HYBRID_INVALID_ARGUMENT
  | YAP_HYBRID_BUFFER_TOO_SMALL
  | YAP_HYBRID_ALLOCATION_FAILED

record 'a YAP_HYBRID_CANDIDATE =
  cand_id :: YAP_V2_BYTES_VIEW
  cand_score :: 'a

record 'a YAP_HYBRID_HIT =
  hit_id :: YAP_V2_BYTES_VIEW
  hit_lexical_score :: 'a
  hit_vector_score :: 'a
  hit_fused_score :: 'a

record 'a YAP_HYBRID_MERGED =
  mrg_hit :: "'a YAP_HYBRID_HIT"
  mrg_ordinal :: nat
  mrg_lexical_present :: bool
  mrg_vector_present :: bool

definition YAP_HYBRID_RRF_K :: nat where "YAP_HYBRID_RRF_K = 60"

definition sizeof_hybrid_merged :: nat where "sizeof_hybrid_merged = 56"

definition YAP_Hybrid_status_string :: "YAP_HYBRID_STATUS \<Rightarrow> string" where
  "YAP_Hybrid_status_string status =
     (case status of YAP_HYBRID_OK \<Rightarrow> ''ok'' | YAP_HYBRID_INVALID_ARGUMENT \<Rightarrow> ''invalid argument''
      | YAP_HYBRID_BUFFER_TOO_SMALL \<Rightarrow> ''buffer too small''
      | YAP_HYBRID_ALLOCATION_FAILED \<Rightarrow> ''allocation failed'')"

definition hybrid_bytes_equal :: "YAP_V2_BYTES_VIEW \<Rightarrow> YAP_V2_BYTES_VIEW \<Rightarrow> bool" where
  "hybrid_bytes_equal left right \<longleftrightarrow>
     view_len left = view_len right \<and> view_len left > 0 \<and> \<not> view_is_null left \<and> \<not> view_is_null right \<and>
     view_bytes left = view_bytes right"

definition validate_candidates :: "'a double_ops \<Rightarrow> 'a YAP_HYBRID_CANDIDATE list \<Rightarrow> bool" where
  "validate_candidates D candidates \<longleftrightarrow>
     list_all (\<lambda>c. \<not> view_is_null (cand_id c) \<and> view_len (cand_id c) \<noteq> 0 \<and> dbl_isfinite D (cand_score c))
       candidates"

definition compare_merged :: "'a double_ops \<Rightarrow> 'a YAP_HYBRID_MERGED \<Rightarrow> 'a YAP_HYBRID_MERGED \<Rightarrow> int" where
  "compare_merged D left right =
     (if dbl_less D (hit_fused_score (mrg_hit right)) (hit_fused_score (mrg_hit left)) then - 1
      else if dbl_less D (hit_fused_score (mrg_hit left)) (hit_fused_score (mrg_hit right)) then 1
      else if mrg_ordinal left < mrg_ordinal right then - 1
      else if mrg_ordinal left > mrg_ordinal right then 1
      else 0)"

definition rrf_contribution :: "'a double_ops \<Rightarrow> 'a \<Rightarrow> nat \<Rightarrow> 'a" where
  "rrf_contribution D weight rank =
     dbl_div D weight (dbl_add D (dbl_of_size D YAP_HYBRID_RRF_K) (dbl_of_size D rank))"

definition update_merged ::
  "'a double_ops \<Rightarrow> 'a \<Rightarrow> 'a YAP_HYBRID_CANDIDATE \<Rightarrow> bool \<Rightarrow> 'a YAP_HYBRID_MERGED \<Rightarrow> 'a YAP_HYBRID_MERGED" where
  "update_merged D contribution candidate lexical m =
     (let fused = dbl_add D (hit_fused_score (mrg_hit m)) contribution in
      if lexical then
        if mrg_lexical_present m then m
        else m\<lparr>mrg_lexical_present := True,
               mrg_hit := (mrg_hit m)\<lparr>hit_lexical_score := cand_score candidate, hit_fused_score := fused\<rparr>\<rparr>
      else
        if mrg_vector_present m then m
        else m\<lparr>mrg_vector_present := True,
               mrg_hit := (mrg_hit m)\<lparr>hit_vector_score := cand_score candidate, hit_fused_score := fused\<rparr>\<rparr>)"

fun merge_into ::
  "'a double_ops \<Rightarrow> 'a \<Rightarrow> 'a YAP_HYBRID_CANDIDATE \<Rightarrow> bool \<Rightarrow> 'a YAP_HYBRID_MERGED list \<Rightarrow>
     'a YAP_HYBRID_MERGED list option" where
  "merge_into D contribution candidate lexical [] = None"
| "merge_into D contribution candidate lexical (m # ms) =
     (if hybrid_bytes_equal (hit_id (mrg_hit m)) (cand_id candidate)
      then Some (update_merged D contribution candidate lexical m # ms)
      else map_option (Cons m) (merge_into D contribution candidate lexical ms))"

definition add_candidate ::
  "'a double_ops \<Rightarrow> 'a YAP_HYBRID_MERGED list \<Rightarrow> 'a YAP_HYBRID_CANDIDATE \<Rightarrow> 'a \<Rightarrow> nat \<Rightarrow> bool \<Rightarrow>
     'a YAP_HYBRID_MERGED list" where
  "add_candidate D merged candidate weight rank lexical =
     (let contribution = rrf_contribution D weight rank in
      case merge_into D contribution candidate lexical merged of
        Some merged \<Rightarrow> merged
      | None \<Rightarrow> merged @
          [\<lparr>mrg_hit = \<lparr>hit_id = cand_id candidate,
               hit_lexical_score = (if lexical then cand_score candidate else dbl_zero D),
               hit_vector_score = (if lexical then dbl_zero D else cand_score candidate),
               hit_fused_score = contribution\<rparr>,
            mrg_ordinal = length merged, mrg_lexical_present = lexical,
            mrg_vector_present = (\<not> lexical)\<rparr>])"

fun add_candidates ::
  "'a double_ops \<Rightarrow> 'a \<Rightarrow> bool \<Rightarrow> nat \<Rightarrow> 'a YAP_HYBRID_CANDIDATE list \<Rightarrow> 'a YAP_HYBRID_MERGED list \<Rightarrow>
     'a YAP_HYBRID_MERGED list" where
  "add_candidates D weight lexical rank [] merged = merged"
| "add_candidates D weight lexical rank (c # cs) merged =
     add_candidates D weight lexical (Suc rank) cs (add_candidate D merged c weight rank lexical)"

definition YAP_Hybrid_fuse_rrf ::
  "'a double_ops \<Rightarrow> (nat \<Rightarrow> bool) \<Rightarrow> 'a YAP_HYBRID_CANDIDATE list \<Rightarrow> 'a YAP_HYBRID_CANDIDATE list \<Rightarrow>
     'a \<Rightarrow> 'a \<Rightarrow> nat \<Rightarrow> nat \<Rightarrow> YAP_HYBRID_STATUS + 'a YAP_HYBRID_HIT list" where
  "YAP_Hybrid_fuse_rrf D mem lexical vector lexical_weight vector_weight top_k hit_capacity =
     (let n = length lexical + length vector in
      if top_k = 0 \<or> hit_capacity < top_k \<or> n > SIZE_MAX \<or>
         \<not> dbl_isfinite D lexical_weight \<or> \<not> dbl_isfinite D vector_weight \<or>
         dbl_less D lexical_weight (dbl_zero D) \<or> dbl_less D vector_weight (dbl_zero D) \<or>
         (dbl_eq D lexical_weight (dbl_zero D) \<and> dbl_eq D vector_weight (dbl_zero D))
        then Inl (if hit_capacity < top_k \<and> top_k > 0 then YAP_HYBRID_BUFFER_TOO_SMALL
                  else YAP_HYBRID_INVALID_ARGUMENT)
      else if \<not> validate_candidates D lexical then Inl YAP_HYBRID_INVALID_ARGUMENT
      else if \<not> validate_candidates D vector then Inl YAP_HYBRID_INVALID_ARGUMENT
      else if n = 0 then Inr []
      else if n > SIZE_MAX div sizeof_hybrid_merged \<or> \<not> mem (n * sizeof_hybrid_merged)
        then Inl YAP_HYBRID_ALLOCATION_FAILED
      else
        (let merged = add_candidates D lexical_weight True 1 lexical [];
             merged = add_candidates D vector_weight False 1 vector merged;
             merged = qsort_by (compare_merged D) merged in
         Inr (map mrg_hit (take top_k merged))))"

subsection \<open>Passage lookup\<close>

datatype YAP_RAG_STATUS =
    YAP_RAG_OK
  | YAP_RAG_INVALID_ARGUMENT
  | YAP_RAG_NOT_FOUND
  | YAP_RAG_BUFFER_TOO_SMALL
  | YAP_RAG_ALLOCATION_FAILED

definition YAP_RAG_status_string :: "YAP_RAG_STATUS \<Rightarrow> string" where
  "YAP_RAG_status_string status =
     (case status of YAP_RAG_OK \<Rightarrow> ''ok'' | YAP_RAG_INVALID_ARGUMENT \<Rightarrow> ''invalid argument''
      | YAP_RAG_NOT_FOUND \<Rightarrow> ''not found'' | YAP_RAG_BUFFER_TOO_SMALL \<Rightarrow> ''buffer too small''
      | YAP_RAG_ALLOCATION_FAILED \<Rightarrow> ''allocation failed'')"

definition rag_bytes_equal :: "YAP_V2_BYTES_VIEW \<Rightarrow> YAP_V2_BYTES_VIEW \<Rightarrow> bool" where
  "rag_bytes_equal left right \<longleftrightarrow>
     view_len left = view_len right \<and>
     (view_len left = 0 \<or> \<not> view_is_null left \<and> \<not> view_is_null right \<and> view_bytes left = view_bytes right)"

definition YAP_RAG_find_passage ::
  "YAP_V2_SEGMENT \<Rightarrow> YAP_V2_BYTES_VIEW \<Rightarrow> YAP_RAG_STATUS + YAP_V2_PASSAGE_VIEW" where
  "YAP_RAG_find_passage segment passage_id =
     (if view_is_null passage_id \<or> view_len passage_id = 0 then Inl YAP_RAG_INVALID_ARGUMENT
      else case find (\<lambda>p. rag_bytes_equal (psg_id p) passage_id) (sgm_passages segment) of
        Some p \<Rightarrow> Inr p
      | None \<Rightarrow> Inl YAP_RAG_NOT_FOUND)"

definition compare_passages :: "YAP_V2_PASSAGE_VIEW \<Rightarrow> YAP_V2_PASSAGE_VIEW \<Rightarrow> int" where
  "compare_passages left right =
     (if psg_ordinal left < psg_ordinal right then - 1
      else if psg_ordinal left > psg_ordinal right then 1 else 0)"

text \<open>The status, the passages stored in the output array and the count stored with them.\<close>

definition YAP_RAG_list_passages ::
  "(nat \<Rightarrow> bool) \<Rightarrow> YAP_V2_SEGMENT \<Rightarrow> YAP_V2_BYTES_VIEW \<Rightarrow> nat \<Rightarrow>
     YAP_RAG_STATUS \<times> YAP_V2_PASSAGE_VIEW list \<times> nat option" where
  "YAP_RAG_list_passages mem segment document_id passage_capacity =
     (if view_is_null document_id \<or> view_len document_id = 0 then (YAP_RAG_INVALID_ARGUMENT, [], None)
      else
        (let selected = filter (\<lambda>p. rag_bytes_equal (psg_parent_document_id p) document_id) (sgm_passages segment);
             matching = length selected in
         if matching = 0 then (YAP_RAG_OK, [], Some matching)
         else if passage_capacity < matching then (YAP_RAG_BUFFER_TOO_SMALL, [], Some matching)
         else if matching > SIZE_MAX div 8 \<or> \<not> mem (8 * matching)
           then (YAP_RAG_ALLOCATION_FAILED, [], Some matching)
         else (YAP_RAG_OK, qsort_by compare_passages selected, Some matching)))"

subsection \<open>What fusion computes\<close>

definition double_laws :: "'a double_ops \<Rightarrow> bool" where
  "double_laws D \<longleftrightarrow>
     (\<forall>x y. dbl_less D x y \<longrightarrow> \<not> dbl_less D y x) \<and>
     (\<forall>x y z. \<not> dbl_isnan D x \<longrightarrow> \<not> dbl_isnan D y \<longrightarrow> \<not> dbl_isnan D z \<longrightarrow>
        \<not> dbl_less D x y \<longrightarrow> \<not> dbl_less D y z \<longrightarrow> \<not> dbl_less D x z) \<and>
     (\<forall>w r. dbl_isfinite D w \<longrightarrow> \<not> dbl_less D w (dbl_zero D) \<longrightarrow>
        \<not> dbl_isnan D (rrf_contribution D w r) \<and> \<not> dbl_less D (rrf_contribution D w r) (dbl_zero D)) \<and>
     (\<forall>x y. \<not> dbl_isnan D x \<longrightarrow> \<not> dbl_less D x (dbl_zero D) \<longrightarrow>
        \<not> dbl_isnan D y \<longrightarrow> \<not> dbl_less D y (dbl_zero D) \<longrightarrow>
        \<not> dbl_isnan D (dbl_add D x y) \<and> \<not> dbl_less D (dbl_add D x y) (dbl_zero D))"

text \<open>
  The reference: the first occurrence of an identifier in each list counts, with its rank from 1.
\<close>

fun ranked :: "nat \<Rightarrow> 'a YAP_HYBRID_CANDIDATE list \<Rightarrow> bytes \<Rightarrow> (nat \<times> 'a) option" where
  "ranked r [] x = None"
| "ranked r (c # cs) x = (if view_bytes (cand_id c) = x then Some (r, cand_score c) else ranked (Suc r) cs x)"

definition fused_entry ::
  "'a double_ops \<Rightarrow> 'a \<Rightarrow> 'a \<Rightarrow> (nat \<times> 'a) option \<Rightarrow> (nat \<times> 'a) option \<Rightarrow> nat \<Rightarrow> bytes \<Rightarrow> 'a YAP_HYBRID_MERGED" where
  "fused_entry D lw vw l v i x =
     \<lparr>mrg_hit = \<lparr>hit_id = View x,
        hit_lexical_score = (case l of None \<Rightarrow> dbl_zero D | Some (r, s) \<Rightarrow> s),
        hit_vector_score = (case v of None \<Rightarrow> dbl_zero D | Some (r, s) \<Rightarrow> s),
        hit_fused_score =
          (case (l, v) of
             (Some (r, s), Some (r', s')) \<Rightarrow> dbl_add D (rrf_contribution D lw r) (rrf_contribution D vw r')
           | (Some (r, s), None) \<Rightarrow> rrf_contribution D lw r
           | (None, Some (r', s')) \<Rightarrow> rrf_contribution D vw r'
           | (None, None) \<Rightarrow> dbl_zero D)\<rparr>,
      mrg_ordinal = i, mrg_lexical_present = (l \<noteq> None), mrg_vector_present = (v \<noteq> None)\<rparr>"

definition note_rank :: "bytes \<Rightarrow> nat \<times> 'a \<Rightarrow> (bytes \<Rightarrow> (nat \<times> 'a) option) \<Rightarrow> bytes \<Rightarrow> (nat \<times> 'a) option" where
  "note_rank k e L = (\<lambda>x. if x = k \<and> L x = None then Some e else L x)"

definition entries ::
  "'a double_ops \<Rightarrow> 'a \<Rightarrow> 'a \<Rightarrow> (bytes \<Rightarrow> (nat \<times> 'a) option) \<Rightarrow> (bytes \<Rightarrow> (nat \<times> 'a) option) \<Rightarrow>
     (nat \<times> bytes) list \<Rightarrow> 'a YAP_HYBRID_MERGED list" where
  "entries D lw vw L V zs = map (\<lambda>(i, x). fused_entry D lw vw (L x) (V x) i x) zs"

definition candidate_ok :: "'a YAP_HYBRID_CANDIDATE \<Rightarrow> bool" where
  "candidate_ok c \<longleftrightarrow> \<not> view_is_null (cand_id c) \<and> view_len (cand_id c) \<noteq> 0"

lemma candidate_view: "candidate_ok c \<Longrightarrow> cand_id c = View (view_bytes (cand_id c)) \<and> view_bytes (cand_id c) \<noteq> []"
  by (cases "cand_id c") (auto simp: candidate_ok_def)

lemma hybrid_equal_iff:
  "candidate_ok c \<Longrightarrow> x \<noteq> [] \<Longrightarrow> hybrid_bytes_equal (View x) (cand_id c) \<longleftrightarrow> x = view_bytes (cand_id c)"
  by (cases "cand_id c") (auto simp: hybrid_bytes_equal_def candidate_ok_def)

lemma fused_entry_id [simp]:
  "hit_id (mrg_hit (fused_entry D lw vw l v i x)) = View x" "mrg_ordinal (fused_entry D lw vw l v i x) = i"
  by (simp_all add: fused_entry_def)

lemma update_lexical:
  "l \<noteq> None \<or> v \<noteq> None \<Longrightarrow> v = None \<Longrightarrow>
   update_merged D (rrf_contribution D lw r) c True (fused_entry D lw vw l v i x) =
     fused_entry D lw vw (if l = None then Some (r, cand_score c) else l) v i x"
  by (auto simp: update_merged_def fused_entry_def)

lemma update_vector:
  "l \<noteq> None \<or> v \<noteq> None \<Longrightarrow>
   update_merged D (rrf_contribution D vw r) c False (fused_entry D lw vw l v i x) =
     fused_entry D lw vw l (if v = None then Some (r, cand_score c) else v) i x"
  by (auto simp: update_merged_def fused_entry_def)

text \<open>One phase of the merge, for the list whose turn it is.\<close>

definition phase_lexical where
  "phase_lexical lexical k e L = (if lexical then note_rank k e L else L)"

definition phase_vector where
  "phase_vector lexical k e V = (if lexical then V else note_rank k e V)"

lemmas phase_defs = phase_lexical_def phase_vector_def note_rank_def

lemma update_phase:
  assumes "L k \<noteq> None \<or> V k \<noteq> None" and "lexical \<Longrightarrow> V k = None"
  shows "update_merged D (rrf_contribution D (if lexical then lw else vw) r) c lexical
      (fused_entry D lw vw (L k) (V k) i k) =
    fused_entry D lw vw (phase_lexical lexical k (r, cand_score c) L k)
      (phase_vector lexical k (r, cand_score c) V k) i k"
  using assms update_lexical[of "L k" "V k" D lw r c vw i k] update_vector[of "L k" "V k" D vw r c lw i k]
  by (cases lexical) (auto simp: phase_defs)

lemma entries_other:
  "k \<notin> snd ` set zs \<Longrightarrow>
     entries D lw vw (phase_lexical lexical k e L) (phase_vector lexical k e V) zs = entries D lw vw L V zs"
  by (force simp: entries_def phase_defs)

lemma merge_into_entries:
  assumes c: "candidate_ok c" and k: "k = view_bytes (cand_id c)"
    and w: "w = rrf_contribution D (if lexical then lw else vw) r" and lex: "lexical \<Longrightarrow> V k = None"
  shows "distinct (map snd zs) \<Longrightarrow> \<forall>x\<in>snd ` set zs. x \<noteq> [] \<and> (L x \<noteq> None \<or> V x \<noteq> None) \<Longrightarrow>
    merge_into D w c lexical (entries D lw vw L V zs) =
     (if k \<in> snd ` set zs
      then Some (entries D lw vw (phase_lexical lexical k (r, cand_score c) L)
             (phase_vector lexical k (r, cand_score c) V) zs)
      else None)"
proof (induction zs)
  case Nil
  then show ?case by (simp add: entries_def)
next
  case (Cons z zs)
  obtain i x where z: "z = (i, x)" by (cases z)
  let ?L = "phase_lexical lexical k (r, cand_score c) L" and ?V = "phase_vector lexical k (r, cand_score c) V"
  have step: "entries D lw vw L' V' (z # zs) = fused_entry D lw vw (L' x) (V' x) i x # entries D lw vw L' V' zs" for L' V'
    by (simp add: entries_def z)
  have eq: "hybrid_bytes_equal (View x) (cand_id c) \<longleftrightarrow> x = k"
    using hybrid_equal_iff[OF c, of x] Cons.prems(2) by (simp add: z k)
  show ?case
  proof (cases "x = k")
    case True
    then have "k \<notin> snd ` set zs" using Cons.prems(1) by (auto simp: z)
    moreover have "L k \<noteq> None \<or> V k \<noteq> None" using Cons.prems(2) True by (simp add: z)
    note up = update_phase[where L = L and V = V and k = k and lexical = lexical, OF this lex,
        of D lw vw r c i]
    have "hybrid_bytes_equal (View k) (cand_id c)" using eq True by simp
    ultimately show ?thesis
      using True up unfolding step by (simp add: entries_other w z del: split_paired_All)
  next
    case False
    then have "?L x = L x" "?V x = V x" by (auto simp: phase_defs)
    moreover have "merge_into D w c lexical (entries D lw vw L V zs) =
       (if k \<in> snd ` set zs then Some (entries D lw vw ?L ?V zs) else None)"
      using Cons.prems by (intro Cons.IH) auto
    ultimately show ?thesis
      using False unfolding step by (auto simp: eq z)
  qed
qed

definition merged_ok ::
  "'a double_ops \<Rightarrow> 'a \<Rightarrow> 'a \<Rightarrow> (bytes \<Rightarrow> (nat \<times> 'a) option) \<Rightarrow> (bytes \<Rightarrow> (nat \<times> 'a) option) \<Rightarrow>
     'a YAP_HYBRID_MERGED list \<Rightarrow> bool" where
  "merged_ok D lw vw L V ms \<longleftrightarrow>
     (\<exists>xs. distinct xs \<and> set xs = {x. L x \<noteq> None \<or> V x \<noteq> None} \<and> [] \<notin> set xs \<and>
        ms = entries D lw vw L V (enumerate 0 xs))"

lemma snd_enumerate: "snd ` set (enumerate n xs) = set xs" "map snd (enumerate n xs) = xs"
  by (metis list.set_map map_snd_enumerate) (rule map_snd_enumerate)

lemma add_candidate_ok:
  assumes ms: "merged_ok D lw vw L V ms" and c: "candidate_ok c" and k: "k = view_bytes (cand_id c)"
    and lex: "lexical \<Longrightarrow> V k = None"
  shows "merged_ok D lw vw (phase_lexical lexical k (r, cand_score c) L)
    (phase_vector lexical k (r, cand_score c) V)
    (add_candidate D ms c (if lexical then lw else vw) r lexical)"
proof -
  let ?L = "phase_lexical lexical k (r, cand_score c) L" and ?V = "phase_vector lexical k (r, cand_score c) V"
  obtain xs where xs: "distinct xs" "set xs = {x. L x \<noteq> None \<or> V x \<noteq> None}" "[] \<notin> set xs"
    and ms: "ms = entries D lw vw L V (enumerate 0 xs)"
    using ms by (auto simp: merged_ok_def)
  have m: "merge_into D (rrf_contribution D (if lexical then lw else vw) r) c lexical ms =
     (if k \<in> set xs then Some (entries D lw vw ?L ?V (enumerate 0 xs)) else None)"
    unfolding ms snd_enumerate(1)[of 0 xs, symmetric]
  proof (rule merge_into_entries[where zs = "enumerate 0 xs", OF c k refl])
    show "V k = None" if lexical using lex that .
    show "distinct (map snd (enumerate 0 xs))" using xs(1) by (simp add: snd_enumerate)
    show "\<forall>x\<in>snd ` set (enumerate 0 xs). x \<noteq> [] \<and> (L x \<noteq> None \<or> V x \<noteq> None)"
      unfolding snd_enumerate using xs(2,3) by auto
  qed
  have set': "{x. ?L x \<noteq> None \<or> ?V x \<noteq> None} = insert k (set xs)"
    unfolding xs(2) by (auto simp: phase_defs split: if_splits)
  show ?thesis
  proof (cases "k \<in> set xs")
    case True
    then show ?thesis
      using m xs(1,3) set' unfolding merged_ok_def add_candidate_def Let_def
      by (intro exI[of _ xs]) (simp add: insert_absorb)
  next
    case False
    have new: "\<lparr>mrg_hit = \<lparr>hit_id = cand_id c,
               hit_lexical_score = (if lexical then cand_score c else dbl_zero D),
               hit_vector_score = (if lexical then dbl_zero D else cand_score c),
               hit_fused_score = rrf_contribution D (if lexical then lw else vw) r\<rparr>,
            mrg_ordinal = length ms, mrg_lexical_present = lexical,
            mrg_vector_present = (\<not> lexical)\<rparr> = fused_entry D lw vw (?L k) (?V k) (length xs) k"
      using False candidate_view[OF c] unfolding xs(2)
      by (simp add: fused_entry_def phase_defs k ms entries_def)
    have "add_candidate D ms c (if lexical then lw else vw) r lexical =
        entries D lw vw ?L ?V (enumerate 0 (xs @ [k]))"
      using m False new entries_other[of k "enumerate 0 xs" D lw vw lexical "(r, cand_score c)" L V]
      by (simp add: add_candidate_def Let_def snd_enumerate enumerate_append_eq ms)
        (simp add: entries_def)
    then show ?thesis
      using xs(1,3) False set' candidate_view[OF c] unfolding merged_ok_def
      by (intro exI[of _ "xs @ [k]"]) (auto simp: k)
  qed
qed

lemma add_lexical_ok:
  "list_all candidate_ok cs \<Longrightarrow> merged_ok D lw vw L (\<lambda>_. None) ms \<Longrightarrow>
   merged_ok D lw vw (\<lambda>x. case L x of None \<Rightarrow> ranked r cs x | Some e \<Rightarrow> Some e) (\<lambda>_. None)
     (add_candidates D lw True r cs ms)"
proof (induction cs arbitrary: L ms r)
  case Nil
  have "(\<lambda>x. case L x of None \<Rightarrow> ranked r [] x | Some e \<Rightarrow> Some e) = L"
    by (auto split: option.splits)
  with Nil show ?case by simp
next
  case (Cons c cs)
  let ?L = "note_rank (view_bytes (cand_id c)) (r, cand_score c) L"
  have "merged_ok D lw vw ?L (\<lambda>_. None) (add_candidate D ms c lw r True)"
    using add_candidate_ok[OF Cons.prems(2) _ refl, of c True r] Cons.prems(1) by (simp add: phase_defs)
  from Cons.IH[OF _ this, of "Suc r"] Cons.prems(1)
  have "merged_ok D lw vw (\<lambda>x. case ?L x of None \<Rightarrow> ranked (Suc r) cs x | Some e \<Rightarrow> Some e) (\<lambda>_. None)
      (add_candidates D lw True r (c # cs) ms)" by simp
  moreover have "(\<lambda>x. case ?L x of None \<Rightarrow> ranked (Suc r) cs x | Some e \<Rightarrow> Some e) =
      (\<lambda>x. case L x of None \<Rightarrow> ranked r (c # cs) x | Some e \<Rightarrow> Some e)"
    by (rule ext) (simp add: note_rank_def split: option.splits)
  ultimately show ?case by simp
qed

lemma add_vector_ok:
  "list_all candidate_ok cs \<Longrightarrow> merged_ok D lw vw L V ms \<Longrightarrow>
   merged_ok D lw vw L (\<lambda>x. case V x of None \<Rightarrow> ranked r cs x | Some e \<Rightarrow> Some e)
     (add_candidates D vw False r cs ms)"
proof (induction cs arbitrary: V ms r)
  case Nil
  have "(\<lambda>x. case V x of None \<Rightarrow> ranked r [] x | Some e \<Rightarrow> Some e) = V"
    by (auto split: option.splits)
  with Nil show ?case by simp
next
  case (Cons c cs)
  let ?V = "note_rank (view_bytes (cand_id c)) (r, cand_score c) V"
  have "merged_ok D lw vw L ?V (add_candidate D ms c vw r False)"
    using add_candidate_ok[OF Cons.prems(2) _ refl, of c False r] Cons.prems(1) by (simp add: phase_defs)
  from Cons.IH[OF _ this, of "Suc r"] Cons.prems(1)
  have "merged_ok D lw vw L (\<lambda>x. case ?V x of None \<Rightarrow> ranked (Suc r) cs x | Some e \<Rightarrow> Some e)
      (add_candidates D vw False r (c # cs) ms)" by simp
  moreover have "(\<lambda>x. case ?V x of None \<Rightarrow> ranked (Suc r) cs x | Some e \<Rightarrow> Some e) =
      (\<lambda>x. case V x of None \<Rightarrow> ranked r (c # cs) x | Some e \<Rightarrow> Some e)"
    by (rule ext) (simp add: note_rank_def split: option.splits)
  ultimately show ?case by simp
qed

lemma ranked_iff: "ranked r cs x \<noteq> None \<longleftrightarrow> x \<in> (\<lambda>c. view_bytes (cand_id c)) ` set cs"
  by (induction cs arbitrary: r) auto

lemma merged_all:
  assumes "list_all candidate_ok lexs" "list_all candidate_ok vecs"
  shows "merged_ok D lw vw (ranked 1 lexs) (ranked 1 vecs)
    (add_candidates D vw False 1 vecs (add_candidates D lw True 1 lexs []))"
proof -
  have "merged_ok D lw vw (\<lambda>_. None) (\<lambda>_. None) []"
    by (simp add: merged_ok_def entries_def)
  from add_lexical_ok[OF assms(1) this, of 1]
  have "merged_ok D lw vw (ranked 1 lexs) (\<lambda>_. None) (add_candidates D lw True 1 lexs [])"
    by simp
  from add_vector_ok[OF assms(2) this, of 1] show ?thesis by simp
qed

subsection \<open>Order of the results\<close>

definition fused_hit ::
  "'a double_ops \<Rightarrow> 'a \<Rightarrow> 'a \<Rightarrow> 'a YAP_HYBRID_CANDIDATE list \<Rightarrow> 'a YAP_HYBRID_CANDIDATE list \<Rightarrow> bytes \<Rightarrow>
     'a YAP_HYBRID_HIT" where
  "fused_hit D lw vw lexs vecs x = mrg_hit (fused_entry D lw vw (ranked 1 lexs x) (ranked 1 vecs x) 0 x)"

definition candidate_ids :: "'a YAP_HYBRID_CANDIDATE list \<Rightarrow> bytes set" where
  "candidate_ids cs = (\<lambda>c. view_bytes (cand_id c)) ` set cs"

definition ordered_score :: "'a double_ops \<Rightarrow> 'a \<Rightarrow> bool" where
  "ordered_score D x \<longleftrightarrow> \<not> dbl_isnan D x \<and> \<not> dbl_less D x (dbl_zero D)"

lemma fused_score_ordered:
  assumes "double_laws D" "dbl_isfinite D lw" "\<not> dbl_less D lw (dbl_zero D)"
    "dbl_isfinite D vw" "\<not> dbl_less D vw (dbl_zero D)" "l \<noteq> None \<or> v \<noteq> None"
  shows "ordered_score D (hit_fused_score (mrg_hit (fused_entry D lw vw l v i x)))"
proof -
  have c: "ordered_score D (rrf_contribution D lw r)" "ordered_score D (rrf_contribution D vw r)" for r
    using assms(1-5) by (auto simp: double_laws_def ordered_score_def)
  have add: "ordered_score D a \<Longrightarrow> ordered_score D b \<Longrightarrow> ordered_score D (dbl_add D a b)" for a b
    using assms(1) by (simp add: double_laws_def ordered_score_def)
  show ?thesis
    using assms(6) c add by (cases l; cases v) (auto simp: fused_entry_def)
qed

lemma compare_merged_le:
  assumes "double_laws D"
  shows "compare_merged D a b \<le> 0 \<longleftrightarrow>
    \<not> dbl_less D (hit_fused_score (mrg_hit a)) (hit_fused_score (mrg_hit b)) \<and>
    (dbl_less D (hit_fused_score (mrg_hit b)) (hit_fused_score (mrg_hit a)) \<or> mrg_ordinal a \<le> mrg_ordinal b)"
  using assms by (auto simp: compare_merged_def double_laws_def)

lemma compare_merged_trans:
  assumes D: "double_laws D"
    and o: "ordered_score D (hit_fused_score (mrg_hit a))" "ordered_score D (hit_fused_score (mrg_hit b))"
      "ordered_score D (hit_fused_score (mrg_hit c))"
    and "compare_merged D a b \<le> 0" "compare_merged D b c \<le> 0"
  shows "compare_merged D a c \<le> 0"
proof -
  let ?a = "hit_fused_score (mrg_hit a)" and ?b = "hit_fused_score (mrg_hit b)"
  let ?c = "hit_fused_score (mrg_hit c)"
  have weak: "\<not> dbl_less D x y \<Longrightarrow> \<not> dbl_less D y z \<Longrightarrow> \<not> dbl_less D x z"
    if "ordered_score D x" "ordered_score D y" "ordered_score D z" for x y z
    using D that unfolding double_laws_def ordered_score_def by blast
  have "\<not> dbl_less D ?a ?b" "\<not> dbl_less D ?b ?c"
    "dbl_less D ?b ?a \<or> mrg_ordinal a \<le> mrg_ordinal b" "dbl_less D ?c ?b \<or> mrg_ordinal b \<le> mrg_ordinal c"
    using assms(5,6) by (auto simp: compare_merged_le[OF D])
  moreover have "\<not> dbl_less D ?a ?c" using weak[OF o] calculation(1,2) by blast
  moreover have "\<not> dbl_less D ?c ?a \<Longrightarrow> \<not> dbl_less D ?b ?a"
    using weak[OF o(2,3,1)] calculation(2) by blast
  moreover have "\<not> dbl_less D ?c ?a \<Longrightarrow> \<not> dbl_less D ?c ?b"
    using weak[OF o(3,1,2)] calculation(1) by blast
  ultimately show ?thesis by (auto simp: compare_merged_le[OF D])
qed

lemma sorted_merged:
  assumes D: "double_laws D" and o: "\<forall>m\<in>set ms. ordered_score D (hit_fused_score (mrg_hit m))"
  shows "sorted_wrt (\<lambda>a b. compare_merged D a b \<le> 0) (qsort_by (compare_merged D) ms)"
proof (rule libc.qs_sorted)
  have asym: "dbl_less D x y \<Longrightarrow> \<not> dbl_less D y x" for x y
    using D unfolding double_laws_def by blast
  show "compare_merged D x y \<le> 0 \<or> compare_merged D y x \<le> 0" for x y
    unfolding compare_merged_le[OF D] using asym nat_le_linear by blast
  show "compare_merged D x z \<le> 0"
    if "x \<in> set ms" "y \<in> set ms" "z \<in> set ms" "compare_merged D x y \<le> 0" "compare_merged D y z \<le> 0" for x y z
    using compare_merged_trans[OF D, of x y z] o that by blast
qed

lemma merged_facts:
  assumes "merged_ok D lw vw L V ms"
  shows "distinct (map (\<lambda>m. hit_id (mrg_hit m)) ms)"
    "length ms = card {x. L x \<noteq> None \<or> V x \<noteq> None}"
    "\<And>m. m \<in> set ms \<Longrightarrow> \<exists>x i. (L x \<noteq> None \<or> V x \<noteq> None) \<and> m = fused_entry D lw vw (L x) (V x) i x"
    "\<And>x. L x \<noteq> None \<or> V x \<noteq> None \<Longrightarrow> \<exists>i. fused_entry D lw vw (L x) (V x) i x \<in> set ms"
proof -
  obtain xs where xs: "distinct xs" "set xs = {x. L x \<noteq> None \<or> V x \<noteq> None}"
    and ms: "ms = entries D lw vw L V (enumerate 0 xs)"
    using assms by (auto simp: merged_ok_def)
  have "map (\<lambda>m. hit_id (mrg_hit m)) ms = map View (map snd (enumerate 0 xs))"
    unfolding ms entries_def map_map by (rule map_cong) auto
  then have "map (\<lambda>m. hit_id (mrg_hit m)) ms = map View xs"
    by (simp only: snd_enumerate)
  then show "distinct (map (\<lambda>m. hit_id (mrg_hit m)) ms)"
    using xs(1) by (simp add: distinct_map inj_on_def)
  show "length ms = card {x. L x \<noteq> None \<or> V x \<noteq> None}"
    using distinct_card[OF xs(1)] xs(2) by (simp add: ms entries_def)
  have mem: "x \<in> set xs \<longleftrightarrow> (\<exists>i. (i, x) \<in> set (enumerate 0 xs))" for x
    using snd_enumerate(1)[of 0 xs] by (metis (no_types, lifting) imageE imageI snd_conv surjective_pairing)
  show "\<exists>x i. (L x \<noteq> None \<or> V x \<noteq> None) \<and> m = fused_entry D lw vw (L x) (V x) i x" if m: "m \<in> set ms" for m
  proof -
    obtain i x where "(i, x) \<in> set (enumerate 0 xs)" "m = fused_entry D lw vw (L x) (V x) i x"
      using m by (auto simp: ms entries_def)
    then show ?thesis using mem[of x] xs(2) by blast
  qed
  show "\<exists>i. fused_entry D lw vw (L x) (V x) i x \<in> set ms" if x: "L x \<noteq> None \<or> V x \<noteq> None" for x
  proof -
    obtain i where "(i, x) \<in> set (enumerate 0 xs)" using x mem[of x] xs(2) by blast
    then show ?thesis by (auto simp: ms entries_def)
  qed
qed

lemma fused_hit_entry: "mrg_hit (fused_entry D lw vw (ranked 1 lexs x) (ranked 1 vecs x) i x) = fused_hit D lw vw lexs vecs x"
  by (simp add: fused_hit_def fused_entry_def)

lemma ranked_any:
  "ranked 1 lexs x \<noteq> None \<or> ranked 1 vecs x \<noteq> None \<longleftrightarrow> x \<in> candidate_ids (lexs @ vecs)"
  unfolding ranked_iff candidate_ids_def by auto

lemma sorted_wrt_split:
  "sorted_wrt P xs \<Longrightarrow> a \<in> set (take k xs) \<Longrightarrow> b \<in> set (drop k xs) \<Longrightarrow> P a b"
  by (metis append_take_drop_id sorted_wrt_append)

lemma find_split:
  "find P xs = Some p \<Longrightarrow> \<exists>before after. xs = before @ p # after \<and> P p \<and> (\<forall>q\<in>set before. \<not> P q)"
proof (induction xs)
  case (Cons x xs)
  show ?case
  proof (cases "P x")
    case True
    with Cons.prems show ?thesis by (intro exI[of _ "[]"] exI[of _ xs]) simp
  next
    case False
    with Cons obtain before after where "xs = before @ p # after" "P p" "\<forall>q\<in>set before. \<not> P q" by auto
    with False show ?thesis by (intro exI[of _ "x # before"] exI[of _ after]) auto
  qed
qed simp

definition top_hits ::
  "'a double_ops \<Rightarrow> 'a \<Rightarrow> 'a \<Rightarrow> 'a YAP_HYBRID_CANDIDATE list \<Rightarrow> 'a YAP_HYBRID_CANDIDATE list \<Rightarrow> nat \<Rightarrow>
     'a YAP_HYBRID_HIT list \<Rightarrow> bool" where
  "top_hits D lw vw lexs vecs k hits \<longleftrightarrow>
     distinct (map hit_id hits) \<and> length hits = min k (card (candidate_ids (lexs @ vecs))) \<and>
     (\<forall>h\<in>set hits. \<exists>x\<in>candidate_ids (lexs @ vecs). h = fused_hit D lw vw lexs vecs x) \<and>
     sorted_wrt (\<lambda>a b. \<not> dbl_less D (hit_fused_score a) (hit_fused_score b)) hits \<and>
     (\<forall>x\<in>candidate_ids (lexs @ vecs). View x \<notin> hit_id ` set hits \<longrightarrow>
        (\<forall>h\<in>set hits. \<not> dbl_less D (hit_fused_score h) (hit_fused_score (fused_hit D lw vw lexs vecs x))))"

lemma top_hits_sorted:
  assumes D: "double_laws D" and ms: "merged_ok D lw vw (ranked 1 lexs) (ranked 1 vecs) ms"
    and w: "dbl_isfinite D lw" "\<not> dbl_less D lw (dbl_zero D)" "dbl_isfinite D vw" "\<not> dbl_less D vw (dbl_zero D)"
  shows "top_hits D lw vw lexs vecs k (map mrg_hit (take k (qsort_by (compare_merged D) ms)))"
proof -
  let ?q = "qsort_by (compare_merged D) ms"
  let ?ge = "\<lambda>a b. \<not> dbl_less D (hit_fused_score a) (hit_fused_score b)"
  note facts = merged_facts[OF ms]
  have set_q: "set ?q = set ms" by (rule libc.qs_set)
  have "\<forall>m\<in>set ms. ordered_score D (hit_fused_score (mrg_hit m))"
  proof
    fix m assume "m \<in> set ms"
    then obtain x i where "ranked 1 lexs x \<noteq> None \<or> ranked 1 vecs x \<noteq> None"
      "m = fused_entry D lw vw (ranked 1 lexs x) (ranked 1 vecs x) i x" using facts(3) by blast
    then show "ordered_score D (hit_fused_score (mrg_hit m))"
      using fused_score_ordered[OF D w] by simp
  qed
  from sorted_merged[OF D this]
  have sorted: "sorted_wrt (\<lambda>a b. ?ge (mrg_hit a) (mrg_hit b)) ?q"
    by (rule sorted_wrt_mono_rel[rotated]) (simp add: compare_merged_le[OF D])
  have "mset (map (\<lambda>m. hit_id (mrg_hit m)) ?q) = mset (map (\<lambda>m. hit_id (mrg_hit m)) ms)"
    unfolding mset_map libc.qs_mset ..
  with facts(1) have dist: "distinct (map (\<lambda>m. hit_id (mrg_hit m)) ?q)"
    using mset_eq_imp_distinct_iff by blast
  have len: "length ?q = card (candidate_ids (lexs @ vecs))"
    using facts(2) unfolding libc.qs_length ranked_any by simp
  have s: "sorted_wrt (\<lambda>a b. ?ge (mrg_hit a) (mrg_hit b)) (take k ?q)"
    using sorted by (rule sorted_wrt_take)
  have t: "?ge (mrg_hit a) (mrg_hit b)" if "a \<in> set (take k ?q)" "b \<in> set (drop k ?q)" for a b
    using sorted_wrt_split[OF sorted that] .
  have "distinct (map (\<lambda>m. hit_id (mrg_hit m)) (take k ?q))"
    using dist unfolding take_map[symmetric] by (rule distinct_take)
  then have 1: "distinct (map hit_id (map mrg_hit (take k ?q)))" by (simp add: comp_def)
  have 2: "length (map mrg_hit (take k ?q)) = min k (card (candidate_ids (lexs @ vecs)))"
    using len by simp
  have 3: "\<exists>x\<in>candidate_ids (lexs @ vecs). h = fused_hit D lw vw lexs vecs x"
    if "h \<in> set (map mrg_hit (take k ?q))" for h
  proof -
    from that obtain m where "m \<in> set ms" "h = mrg_hit m"
      using set_q by (auto dest: in_set_takeD)
    then obtain x i where "x \<in> candidate_ids (lexs @ vecs)"
      "m = fused_entry D lw vw (ranked 1 lexs x) (ranked 1 vecs x) i x"
      using facts(3)[of m] unfolding ranked_any by blast
    with \<open>h = mrg_hit m\<close> fused_hit_entry[of D lw vw lexs x vecs i] show ?thesis
      by (intro bexI[of _ x]) (simp_all only:)
  qed
  have 4: "sorted_wrt ?ge (map mrg_hit (take k ?q))"
    using s by (simp add: sorted_wrt_map)
  have 5: "?ge h (fused_hit D lw vw lexs vecs x)"
    if x: "x \<in> candidate_ids (lexs @ vecs)" "View x \<notin> hit_id ` set (map mrg_hit (take k ?q))"
      and h: "h \<in> set (map mrg_hit (take k ?q))" for x h
  proof -
    obtain i where i: "fused_entry D lw vw (ranked 1 lexs x) (ranked 1 vecs x) i x \<in> set ?q"
      using facts(4)[of x] x(1) unfolding ranked_any set_q by blast
    let ?e = "fused_entry D lw vw (ranked 1 lexs x) (ranked 1 vecs x) i x"
    have "hit_id (mrg_hit ?e) = View x" by simp
    then have "?e \<notin> set (take k ?q)" using x(2) by force
    then have "?e \<in> set (drop k ?q)" using i by (metis Un_iff append_take_drop_id set_append)
    moreover obtain a where "a \<in> set (take k ?q)" "h = mrg_hit a" using h by auto
    ultimately have "?ge h (mrg_hit ?e)" using t by blast
    then show ?thesis unfolding fused_hit_entry .
  qed
  show ?thesis unfolding top_hits_def using 1 2 3 4 5 by blast
qed

lemma candidates_ok: "validate_candidates D cs \<Longrightarrow> list_all candidate_ok cs"
  by (auto simp: validate_candidates_def candidate_ok_def list_all_iff)

text \<open>
  C39. Hybrid ranking: the hits returned are the \<open>top_k\<close> best of all candidate identifiers, each once, in
  descending order of the fused score, which is the sum of the reciprocal-rank contributions of the
  identifier's first occurrence in each list; no candidate left out scores higher than one returned.
\<close>

theorem hybrid_fuse_correct:
  assumes "double_laws D" and "YAP_Hybrid_fuse_rrf D mem lexs vecs lw vw top_k capacity = Inr hits"
  shows "top_hits D lw vw lexs vecs top_k hits \<and> length hits \<le> capacity"
proof -
  have v: "list_all candidate_ok lexs" "list_all candidate_ok vecs"
    and w: "dbl_isfinite D lw" "\<not> dbl_less D lw (dbl_zero D)" "dbl_isfinite D vw" "\<not> dbl_less D vw (dbl_zero D)"
    and k: "top_k \<le> capacity"
    using assms(2) by (auto simp: YAP_Hybrid_fuse_rrf_def Let_def intro: candidates_ok split: if_splits)
  have "hits = map mrg_hit (take top_k (qsort_by (compare_merged D)
      (add_candidates D vw False 1 vecs (add_candidates D lw True 1 lexs []))))"
    using assms(2) by (auto simp: YAP_Hybrid_fuse_rrf_def Let_def split: if_splits)
  with top_hits_sorted[OF assms(1) merged_all[OF v] w] have "top_hits D lw vw lexs vecs top_k hits"
    by simp
  with k show ?thesis by (simp add: top_hits_def)
qed

definition int_ops :: "int double_ops" where
  "int_ops = \<lparr>dbl_zero = 0, dbl_of_size = int, dbl_add = (+), dbl_div = (div), dbl_less = (<), dbl_eq = (=),
     dbl_isfinite = (\<lambda>_. True), dbl_isnan = (\<lambda>_. False)\<rparr>"

lemma int_ops_laws: "double_laws int_ops"
  by (auto simp: double_laws_def int_ops_def rrf_contribution_def YAP_HYBRID_RRF_K_def
      pos_imp_zdiv_neg_iff not_less)

theorem hybrid_fuse_correct_witness:
  "\<exists>hits. YAP_Hybrid_fuse_rrf int_ops (\<lambda>_. True)
      [\<lparr>cand_id = View [1], cand_score = 5\<rparr>, \<lparr>cand_id = View [2], cand_score = 4\<rparr>]
      [\<lparr>cand_id = View [2], cand_score = 9\<rparr>] 61000 61000 2 2 = Inr hits \<and> length hits \<le> 2 \<and>
     map hit_id hits = [View [2], View [1]]"
proof -
  let ?l = "[\<lparr>cand_id = View [1], cand_score = 5\<rparr>, \<lparr>cand_id = View [2], cand_score = 4\<rparr>] :: int YAP_HYBRID_CANDIDATE list"
  let ?v = "[\<lparr>cand_id = View [2], cand_score = 9\<rparr>] :: int YAP_HYBRID_CANDIDATE list"
  let ?h = "[\<lparr>hit_id = View [2], hit_lexical_score = 4, hit_vector_score = 9, hit_fused_score = 1983\<rparr>,
    \<lparr>hit_id = View [1], hit_lexical_score = 5, hit_vector_score = 0, hit_fused_score = 1000\<rparr>] :: int YAP_HYBRID_HIT list"
  have "YAP_Hybrid_fuse_rrf int_ops (\<lambda>_. True) ?l ?v 61000 61000 2 2 = Inr ?h"
    by (simp add: YAP_Hybrid_fuse_rrf_def Let_def int_ops_def validate_candidates_def add_candidate_def
        rrf_contribution_def YAP_HYBRID_RRF_K_def hybrid_bytes_equal_def update_merged_def
        compare_merged_def sizeof_hybrid_merged_def)
  from hybrid_fuse_correct[OF int_ops_laws this] this show ?thesis by auto
qed

text \<open>
  C40. Passages of a document: the list returned is exactly the segment's passages with that parent, each
  as often as the segment has it, in ascending ordinal order; a too small array is reported together
  with the size that is needed.
\<close>

theorem list_passages_correct:
  assumes "YAP_RAG_list_passages mem segment document_id capacity = (status, passages, n)"
    and "\<forall>k. mem k" and "\<not> view_is_null document_id" and "view_len document_id \<noteq> 0"
    and "length (sgm_passages segment) \<le> YAP_V2_MAX_SEGMENT_PASSAGES"
  shows "n = Some (length (filter (\<lambda>p. psg_parent_document_id p = document_id) (sgm_passages segment))) \<and>
    (status = YAP_RAG_BUFFER_TOO_SMALL \<longleftrightarrow> capacity < the n) \<and>
    (status \<noteq> YAP_RAG_BUFFER_TOO_SMALL \<longrightarrow> status = YAP_RAG_OK \<and>
      mset passages = filter_mset (\<lambda>p. psg_parent_document_id p = document_id) (mset (sgm_passages segment)) \<and>
      sorted_wrt (\<lambda>p q. psg_ordinal p \<le> psg_ordinal q) passages)"
proof -
  obtain d where d: "document_id = View d" "d \<noteq> []"
    using assms(3,4) by (cases document_id) auto
  have "rag_bytes_equal v document_id \<longleftrightarrow> v = document_id" for v
    using d by (cases v) (auto simp: rag_bytes_equal_def)
  then have f: "filter (\<lambda>p. rag_bytes_equal (psg_parent_document_id p) document_id) (sgm_passages segment) =
      filter (\<lambda>p. psg_parent_document_id p = document_id) (sgm_passages segment)" by simp
  let ?sel = "filter (\<lambda>p. psg_parent_document_id p = document_id) (sgm_passages segment)"
  have small: "length ?sel \<le> SIZE_MAX div 8"
    by (rule order_trans[OF length_filter_le order_trans[OF assms(5)]]) (simp add: storage_limits)
  have "sorted_wrt (\<lambda>p q. compare_passages p q \<le> 0) (qsort_by compare_passages ?sel)"
    by (rule libc.qs_sorted) (auto simp: compare_passages_def split: if_splits)
  then have sorted: "sorted_wrt (\<lambda>p q. psg_ordinal p \<le> psg_ordinal q) (qsort_by compare_passages ?sel)"
    by (rule sorted_wrt_mono_rel[rotated]) (auto simp: compare_passages_def split: if_splits)
  have "mset (qsort_by compare_passages ?sel) =
      filter_mset (\<lambda>p. psg_parent_document_id p = document_id) (mset (sgm_passages segment))"
    by (simp add: mset_qsort_by)
  with sorted small assms(1,2) d show ?thesis
    unfolding YAP_RAG_list_passages_def f Let_def
    by (auto simp: filter_empty_conv split: if_splits)
qed

definition sample_passage :: "u32 \<Rightarrow> bytes \<Rightarrow> YAP_V2_PASSAGE_VIEW" where
  "sample_passage n parent = \<lparr>psg_id = View [ucast n], psg_parent_document_id = View parent, psg_text = View [65],
     psg_ordinal = n, psg_start_char = 0, psg_end_char = 1\<rparr>"

definition sample_segment :: YAP_V2_SEGMENT where
  "sample_segment = \<lparr>sgm_id = [65], sgm_generation = 1, sgm_documents = [],
     sgm_passages = [sample_passage 2 [7], sample_passage 5 [8], sample_passage 1 [7]], sgm_storage = []\<rparr>"

theorem list_passages_correct_witness:
  "YAP_RAG_list_passages (\<lambda>_. True) sample_segment (View [7]) 2 =
     (YAP_RAG_OK, [sample_passage 1 [7], sample_passage 2 [7]], Some 2) \<and>
   mset [sample_passage 1 [7], sample_passage 2 [7]] =
     filter_mset (\<lambda>p. psg_parent_document_id p = View [7]) (mset (sgm_passages sample_segment))"
proof -
  have r: "YAP_RAG_list_passages (\<lambda>_. True) sample_segment (View [7]) 2 =
     (YAP_RAG_OK, [sample_passage 1 [7], sample_passage 2 [7]], Some 2)"
    by (simp add: YAP_RAG_list_passages_def sample_segment_def sample_passage_def rag_bytes_equal_def
        compare_passages_def)
  have l: "length (sgm_passages sample_segment) \<le> YAP_V2_MAX_SEGMENT_PASSAGES"
    by (simp add: sample_segment_def storage_limits)
  show ?thesis using list_passages_correct[OF r _ _ _ l] r by simp
qed

text \<open>
  Looking a passage up by identifier returns the first passage with that identifier, and reports
  that there is none exactly when there is none.
\<close>

theorem find_passage_correct:
  assumes "\<not> view_is_null passage_id" and "view_len passage_id \<noteq> 0"
  shows "case YAP_RAG_find_passage segment passage_id of
      Inr p \<Rightarrow> \<exists>before after. sgm_passages segment = before @ p # after \<and> psg_id p = passage_id \<and>
        (\<forall>q\<in>set before. psg_id q \<noteq> passage_id)
    | Inl s \<Rightarrow> s = YAP_RAG_NOT_FOUND \<and> (\<forall>q\<in>set (sgm_passages segment). psg_id q \<noteq> passage_id)"
proof -
  have eq: "rag_bytes_equal v passage_id \<longleftrightarrow> v = passage_id" for v
    using assms by (cases v; cases passage_id) (auto simp: rag_bytes_equal_def)
  show ?thesis
  proof (cases "find (\<lambda>p. psg_id p = passage_id) (sgm_passages segment)")
    case None
    then have "\<forall>q\<in>set (sgm_passages segment). psg_id q \<noteq> passage_id" by (auto simp: find_None_iff)
    with None show ?thesis using assms by (simp add: YAP_RAG_find_passage_def eq)
  next
    case (Some p)
    obtain before after where "sgm_passages segment = before @ p # after" "psg_id p = passage_id"
      "\<forall>q\<in>set before. psg_id q \<noteq> passage_id"
      using find_split[OF Some] by blast
    then show ?thesis using Some assms by (auto simp: YAP_RAG_find_passage_def eq)
  qed
qed

theorem find_passage_correct_witness:
  "YAP_RAG_find_passage sample_segment (View [5]) = Inr (sample_passage 5 [8]) \<and>
   (\<exists>before after. sgm_passages sample_segment = before @ sample_passage 5 [8] # after \<and>
      (\<forall>q\<in>set before. psg_id q \<noteq> View [5]))"
proof -
  have r: "YAP_RAG_find_passage sample_segment (View [5]) = Inr (sample_passage 5 [8])"
    by (simp add: YAP_RAG_find_passage_def sample_segment_def sample_passage_def rag_bytes_equal_def)
  show ?thesis using find_passage_correct[of "View [5]" sample_segment] unfolding r by auto
qed

end
