(* ===== verification/Lexical_V2.thy ===== *)
theory Lexical_V2
  imports Segment_Buffer "HOL-Library.List_Lexorder"
begin

text \<open>
  \<open>components/yappo_lexical_v2.h\<close> and \<open>components/yappo_lexical_v2.c\<close>: the writer of the inverted
  index. A document's title and body and a passage's text are tokenized into occurrences, the
  occurrences are sorted, and the sorted runs become the payloads of \<open>terms.yap2\<close>, \<open>postings.yap2\<close>
  and \<open>positions.yap2\<close>. \<open>tokenize\<close> stands for \<open>YAP_V2_unicode_tokenize\<close>, which is a wrapper around
  ICU; \<open>mem\<close> is the allocator, \<open>ios i\<close> answers for the library calls of the \<open>i\<close>-th component file and
  \<open>back i\<close> says how \<open>fread\<close> delivers the file just written to \<open>YAP_V2_file_sha256\<close>. A \<open>size_t\<close> that
  counts objects in memory is a \<open>nat\<close>. The null checks of pointers that the callers always set are
  not modelled.
\<close>

definition YAP_V2_LEXICAL_PAYLOAD_VERSION :: u32 where "YAP_V2_LEXICAL_PAYLOAD_VERSION = 1"
definition YAP_V2_POSTINGS_BLOCK_SIZE :: nat where "YAP_V2_POSTINGS_BLOCK_SIZE = 128"

text \<open>The enumerations \<open>YAP_V2_LEXICAL_OBJECT_TYPE\<close> and \<open>YAP_V2_LEXICAL_FIELD\<close>.\<close>

definition YAP_V2_LEXICAL_DOCUMENT :: u32 where "YAP_V2_LEXICAL_DOCUMENT = 1"
definition YAP_V2_LEXICAL_PASSAGE :: u32 where "YAP_V2_LEXICAL_PASSAGE = 2"
definition YAP_V2_FIELD_TITLE :: u32 where "YAP_V2_FIELD_TITLE = 1"
definition YAP_V2_FIELD_BODY :: u32 where "YAP_V2_FIELD_BODY = 2"
definition YAP_V2_FIELD_PASSAGE :: u32 where "YAP_V2_FIELD_PASSAGE = 3"

lemmas lexical_constants = YAP_V2_LEXICAL_PAYLOAD_VERSION_def YAP_V2_POSTINGS_BLOCK_SIZE_def
  YAP_V2_LEXICAL_DOCUMENT_def YAP_V2_LEXICAL_PASSAGE_def YAP_V2_FIELD_TITLE_def
  YAP_V2_FIELD_BODY_def YAP_V2_FIELD_PASSAGE_def

record YAP_V2_LEXICAL_OCCURRENCE =
  occ_term :: bytes
  occ_object_type :: u32
  occ_object_ordinal :: u64
  occ_field :: u32
  occ_position :: u32
  occ_field_length :: u32

record YAP_V2_LEXICAL_PREPARED =
  lp_items :: "YAP_V2_LEXICAL_OCCURRENCE list"
  lp_capacity :: nat
  lp_field_token_count :: "u64 list"
  lp_document_count :: nat
  lp_passage_count :: nat

definition YAP_V2_lexical_prepared_init :: YAP_V2_LEXICAL_PREPARED where
  "YAP_V2_lexical_prepared_init =
     \<lparr>lp_items = [], lp_capacity = 0, lp_field_token_count = [0, 0, 0], lp_document_count = 0,
      lp_passage_count = 0\<rparr>"

record YAP_V2_TOKEN =
  tok_byte_start :: nat
  tok_byte_end :: nat
  tok_char_start :: u32
  tok_char_end :: u32

record YAP_V2_TOKEN_SEQUENCE =
  seq_normalized_utf8 :: bytes
  seq_tokens :: "YAP_V2_TOKEN list"

type_synonym tokenizer = "bytes \<Rightarrow> YAP_V2_TOKEN_SEQUENCE outcome"

subsection \<open>Output buffer\<close>

definition lex_append :: "(nat \<Rightarrow> bool) \<Rightarrow> YAP_V2_BUFFER \<Rightarrow> bytes \<Rightarrow> YAP_V2_BUFFER outcome" where
  "lex_append mem buffer data =
     (let required = length (buf_data buffer) + length data in
      if length data > SIZE_MAX - length (buf_data buffer) then Inl YAP_V2_INVALID_ARGUMENT
      else if required > YAP_V2_MAX_SEGMENT_PAYLOAD_BYTES then Inl YAP_V2_SEGMENT_CAPACITY_EXCEEDED
      else if required > buf_capacity buffer
        then (let capacity =
                buffer_grow (if buf_capacity buffer = 0 then 256 else buf_capacity buffer) required in
              if mem capacity
              then Inr (buffer\<lparr>buf_data := buf_data buffer @ data, buf_capacity := capacity\<rparr>)
              else Inl YAP_V2_ALLOCATION_FAILED)
      else Inr (buffer\<lparr>buf_data := buf_data buffer @ data\<rparr>))"

definition lex_append_u32 :: "(nat \<Rightarrow> bool) \<Rightarrow> YAP_V2_BUFFER \<Rightarrow> u32 \<Rightarrow> YAP_V2_BUFFER outcome" where
  "lex_append_u32 mem buffer value = lex_append mem buffer (put_u32 value)"

definition lex_append_u64 :: "(nat \<Rightarrow> bool) \<Rightarrow> YAP_V2_BUFFER \<Rightarrow> u64 \<Rightarrow> YAP_V2_BUFFER outcome" where
  "lex_append_u64 mem buffer value = lex_append mem buffer (put_u64 value)"

subsection \<open>Occurrences\<close>

text \<open>An occurrence takes 48 bytes.\<close>

definition occurrence_bytes :: nat where "occurrence_bytes = 48"

definition occurrence_add ::
  "(nat \<Rightarrow> bool) \<Rightarrow> YAP_V2_LEXICAL_PREPARED \<Rightarrow> bytes \<Rightarrow> u32 \<Rightarrow> u64 \<Rightarrow> u32 \<Rightarrow> u32 \<Rightarrow> u32 \<Rightarrow>
     YAP_V2_LEXICAL_PREPARED outcome" where
  "occurrence_add mem occurrences trm object_type object_ordinal field position field_length =
     (if trm = [] \<or> length trm > UINT32_MAX then Inl YAP_V2_INVALID_FORMAT
      else rbind
        (if length (lp_items occurrences) = lp_capacity occurrences
         then (let capacity = (if lp_capacity occurrences = 0 then 256
                               else lp_capacity occurrences * 2 mod 2 ^ 64) in
               if capacity < lp_capacity occurrences \<or> capacity > SIZE_MAX div occurrence_bytes
                 then Inl YAP_V2_OUT_OF_RANGE
               else if \<not> mem (capacity * occurrence_bytes) then Inl YAP_V2_ALLOCATION_FAILED
               else Inr (occurrences\<lparr>lp_capacity := capacity\<rparr>))
         else Inr occurrences)
        (\<lambda>occurrences.
           if \<not> mem (length trm) then Inl YAP_V2_ALLOCATION_FAILED
           else Inr (occurrences\<lparr>lp_items := lp_items occurrences @
                  [\<lparr>occ_term = trm, occ_object_type = object_type,
                    occ_object_ordinal = object_ordinal, occ_field = field,
                    occ_position = position, occ_field_length = field_length\<rparr>]\<rparr>)))"

fun add_tokens ::
  "(nat \<Rightarrow> bool) \<Rightarrow> bytes \<Rightarrow> u32 \<Rightarrow> u64 \<Rightarrow> u32 \<Rightarrow> u32 \<Rightarrow> nat \<Rightarrow> YAP_V2_TOKEN list \<Rightarrow>
     YAP_V2_LEXICAL_PREPARED \<Rightarrow> YAP_V2_LEXICAL_PREPARED outcome" where
  "add_tokens mem normalized object_type object_ordinal field token_count i [] occurrences =
     Inr occurrences"
| "add_tokens mem normalized object_type object_ordinal field token_count i (token # tokens)
     occurrences =
     rbind (occurrence_add mem occurrences
              (take (size_sub (tok_byte_end token) (tok_byte_start token))
                 (drop (tok_byte_start token) normalized))
              object_type object_ordinal field (word_of_nat i) token_count)
       (add_tokens mem normalized object_type object_ordinal field token_count (Suc i) tokens)"

definition tokenize_field ::
  "(nat \<Rightarrow> bool) \<Rightarrow> tokenizer \<Rightarrow> YAP_V2_LEXICAL_PREPARED \<Rightarrow> YAP_V2_BYTES_VIEW \<Rightarrow> u32 \<Rightarrow> u64 \<Rightarrow> u32 \<Rightarrow>
     u64 \<Rightarrow> (YAP_V2_LEXICAL_PREPARED \<times> u64) outcome" where
  "tokenize_field mem tokenize occurrences txt object_type object_ordinal field field_total =
     (if view_len txt = 0 then Inr (occurrences, field_total)
      else rbind (tokenize (view_bytes txt)) (\<lambda>sequence.
        let token_count = length (seq_tokens sequence) in
        if token_count > UINT32_MAX then Inl YAP_V2_OUT_OF_RANGE
        else if token_count > SIZE_MAX - unat field_total then Inl YAP_V2_OUT_OF_RANGE
        else rbind (add_tokens mem (seq_normalized_utf8 sequence) object_type object_ordinal field
                      (word_of_nat token_count) 0 (seq_tokens sequence) occurrences)
               (\<lambda>occurrences. Inr (occurrences, field_total + word_of_nat token_count))))"

subsection \<open>Order\<close>

fun memcmp :: "bytes \<Rightarrow> bytes \<Rightarrow> int" where
  "memcmp (a # as) (b # bs) = (if a = b then memcmp as bs else if a < b then -1 else 1)"
| "memcmp as bs = 0"

definition occurrence_compare ::
  "YAP_V2_LEXICAL_OCCURRENCE \<Rightarrow> YAP_V2_LEXICAL_OCCURRENCE \<Rightarrow> int" where
  "occurrence_compare a b =
     (let common = min (length (occ_term a)) (length (occ_term b));
          order = memcmp (take common (occ_term a)) (take common (occ_term b)) in
      if order \<noteq> 0 then order
      else if length (occ_term a) \<noteq> length (occ_term b)
        then if length (occ_term a) < length (occ_term b) then -1 else 1
      else if occ_object_type a \<noteq> occ_object_type b
        then if occ_object_type a < occ_object_type b then -1 else 1
      else if occ_object_ordinal a \<noteq> occ_object_ordinal b
        then if occ_object_ordinal a < occ_object_ordinal b then -1 else 1
      else if occ_field a \<noteq> occ_field b then if occ_field a < occ_field b then -1 else 1
      else if occ_position a \<noteq> occ_position b then if occ_position a < occ_position b then -1 else 1
      else 0)"

definition same_term :: "YAP_V2_LEXICAL_OCCURRENCE \<Rightarrow> YAP_V2_LEXICAL_OCCURRENCE \<Rightarrow> bool" where
  "same_term a b \<longleftrightarrow> length (occ_term a) = length (occ_term b) \<and> memcmp (occ_term a) (occ_term b) = 0"

definition same_object :: "YAP_V2_LEXICAL_OCCURRENCE \<Rightarrow> YAP_V2_LEXICAL_OCCURRENCE \<Rightarrow> bool" where
  "same_object a b \<longleftrightarrow> occ_object_type a = occ_object_type b \<and>
     occ_object_ordinal a = occ_object_ordinal b"

text \<open>
  The index loops \<open>term_start .. term_end\<close> and \<open>object_start .. object_end\<close>: a run starts at its
  first item and takes the following items that are the same as the first.
\<close>

function runs :: "('a \<Rightarrow> 'a \<Rightarrow> bool) \<Rightarrow> 'a list \<Rightarrow> 'a list list" where
  "runs same [] = []"
| "runs same (x # xs) = (x # takeWhile (same x) xs) # runs same (dropWhile (same x) xs)"
  by pat_completeness auto
termination
  by (relation "measure (\<lambda>(same, xs). length xs)") (auto simp: less_Suc_eq_le length_dropWhile_le)

abbreviation "term_runs \<equiv> runs same_term"
abbreviation "object_runs \<equiv> runs same_object"

subsection \<open>Payloads\<close>

record LEX_PAYLOADS =
  lb_terms :: YAP_V2_BUFFER
  lb_postings :: YAP_V2_BUFFER
  lb_positions :: YAP_V2_BUFFER

record OBJECT_COUNTS =
  title_tf :: u32
  body_tf :: u32
  passage_tf :: u32
  title_len :: u32
  body_len :: u32
  passage_len :: u32

definition count_item :: "YAP_V2_LEXICAL_OCCURRENCE \<Rightarrow> OBJECT_COUNTS \<Rightarrow> OBJECT_COUNTS" where
  "count_item item c =
     (if occ_field item = YAP_V2_FIELD_TITLE
        then c\<lparr>title_tf := title_tf c + 1, title_len := occ_field_length item\<rparr>
      else if occ_field item = YAP_V2_FIELD_BODY
        then c\<lparr>body_tf := body_tf c + 1, body_len := occ_field_length item\<rparr>
      else c\<lparr>passage_tf := passage_tf c + 1, passage_len := occ_field_length item\<rparr>)"

definition object_counts :: "YAP_V2_LEXICAL_OCCURRENCE list \<Rightarrow> OBJECT_COUNTS" where
  "object_counts items = fold count_item items
     \<lparr>title_tf = 0, body_tf = 0, passage_tf = 0, title_len = 0, body_len = 0, passage_len = 0\<rparr>"

text \<open>
  The loop over the items of an object does not look at the status of the previous item: a later
  item overwrites it.
\<close>

fun append_positions ::
  "(nat \<Rightarrow> bool) \<Rightarrow> YAP_V2_STATUS \<Rightarrow> YAP_V2_BUFFER \<Rightarrow> YAP_V2_LEXICAL_OCCURRENCE list \<Rightarrow>
     YAP_V2_STATUS \<times> YAP_V2_BUFFER" where
  "append_positions mem status positions [] = (status, positions)"
| "append_positions mem status positions (item # items) =
     (case lex_append_u32 mem positions (occ_field item) of
        Inl s \<Rightarrow> append_positions mem s positions items
      | Inr positions \<Rightarrow>
          (case lex_append_u32 mem positions (occ_position item) of
             Inl s \<Rightarrow> append_positions mem s positions items
           | Inr positions \<Rightarrow> append_positions mem YAP_V2_OK positions items))"

definition append_posting ::
  "(nat \<Rightarrow> bool) \<Rightarrow> YAP_V2_LEXICAL_OCCURRENCE list \<Rightarrow> u64 \<Rightarrow> YAP_V2_BUFFER \<Rightarrow> YAP_V2_BUFFER outcome"
where
  "append_posting mem items term_positions postings =
     (let c = object_counts items in
      rbind (lex_append_u32 mem postings (occ_object_type (hd items))) (\<lambda>postings.
      rbind (lex_append_u64 mem postings (occ_object_ordinal (hd items))) (\<lambda>postings.
      rbind (lex_append_u32 mem postings (title_tf c)) (\<lambda>postings.
      rbind (lex_append_u32 mem postings (body_tf c)) (\<lambda>postings.
      rbind (lex_append_u32 mem postings (passage_tf c)) (\<lambda>postings.
      rbind (lex_append_u32 mem postings (title_len c)) (\<lambda>postings.
      rbind (lex_append_u32 mem postings (body_len c)) (\<lambda>postings.
      rbind (lex_append_u32 mem postings (passage_len c)) (\<lambda>postings.
      rbind (lex_append_u64 mem postings term_positions) (\<lambda>postings.
      lex_append_u32 mem postings (word_of_nat (length items))))))))))))"

fun append_objects ::
  "(nat \<Rightarrow> bool) \<Rightarrow> YAP_V2_LEXICAL_OCCURRENCE list list \<Rightarrow> u64 \<Rightarrow> u64 \<Rightarrow> YAP_V2_BUFFER \<Rightarrow>
     YAP_V2_BUFFER \<Rightarrow> (YAP_V2_BUFFER \<times> YAP_V2_BUFFER \<times> u64) outcome" where
  "append_objects mem [] term_positions posting_total postings positions =
     Inr (postings, positions, posting_total)"
| "append_objects mem (items # objects) term_positions posting_total postings positions =
     (case append_positions mem YAP_V2_OK positions items of
        (status, positions) \<Rightarrow>
          if status \<noteq> YAP_V2_OK then Inl status
          else rbind (append_posting mem items term_positions postings) (\<lambda>postings.
            append_objects mem objects (term_positions + word_of_nat (length items))
              (posting_total + 1) postings positions))"

text \<open>Block maxima; here too the status of a block overwrites that of the previous one.\<close>

definition block_entry :: "YAP_V2_LEXICAL_OCCURRENCE list list \<Rightarrow> u32 \<times> u32" where
  "block_entry objects = fold (\<lambda>items (max_tf, min_length).
     let tf = word_of_nat (length items);
         len = fold (\<lambda>item len. if occ_field_length item < len then occ_field_length item else len)
                 items (- 1) in
     (if tf > max_tf then tf else max_tf, if len < min_length then len else min_length))
     objects (0, - 1)"

definition append_block ::
  "(nat \<Rightarrow> bool) \<Rightarrow> nat \<Rightarrow> YAP_V2_LEXICAL_OCCURRENCE list list \<Rightarrow> YAP_V2_BUFFER \<Rightarrow>
     YAP_V2_STATUS \<times> YAP_V2_BUFFER" where
  "append_block mem posting_index objects postings =
     (case block_entry objects of (max_tf, min_length) \<Rightarrow>
      case lex_append_u32 mem postings (word_of_nat posting_index) of
        Inl s \<Rightarrow> (s, postings)
      | Inr postings \<Rightarrow> (case lex_append_u32 mem postings (word_of_nat (length objects)) of
        Inl s \<Rightarrow> (s, postings)
      | Inr postings \<Rightarrow> (case lex_append_u32 mem postings max_tf of
        Inl s \<Rightarrow> (s, postings)
      | Inr postings \<Rightarrow>
          (case lex_append_u32 mem postings (if min_length = - 1 then 0 else min_length) of
             Inl s \<Rightarrow> (s, postings)
           | Inr postings \<Rightarrow> (YAP_V2_OK, postings)))))"

function append_blocks ::
  "(nat \<Rightarrow> bool) \<Rightarrow> YAP_V2_STATUS \<Rightarrow> nat \<Rightarrow> YAP_V2_LEXICAL_OCCURRENCE list list \<Rightarrow> YAP_V2_BUFFER \<Rightarrow>
     YAP_V2_STATUS \<times> YAP_V2_BUFFER" where
  "append_blocks mem status posting_index objects postings =
     (if objects = [] then (status, postings)
      else case append_block mem posting_index (take YAP_V2_POSTINGS_BLOCK_SIZE objects) postings of
        (status, postings) \<Rightarrow>
          append_blocks mem status (posting_index + length (take YAP_V2_POSTINGS_BLOCK_SIZE objects))
            (drop YAP_V2_POSTINGS_BLOCK_SIZE objects) postings)"
  by pat_completeness auto
termination
  by (relation "measure (\<lambda>(mem, status, i, objects, b). length objects)")
     (auto simp: YAP_V2_POSTINGS_BLOCK_SIZE_def)

declare append_blocks.simps [simp del]

definition block_count :: "nat \<Rightarrow> nat" where
  "block_count postings = (postings + YAP_V2_POSTINGS_BLOCK_SIZE - 1) div YAP_V2_POSTINGS_BLOCK_SIZE"

definition append_term ::
  "(nat \<Rightarrow> bool) \<Rightarrow> nat \<Rightarrow> YAP_V2_LEXICAL_OCCURRENCE list \<Rightarrow> LEX_PAYLOADS \<times> u64 \<Rightarrow>
     (LEX_PAYLOADS \<times> u64) outcome" where
  "append_term mem term_ordinal items = (\<lambda>(payloads, posting_total).
     let objects = object_runs items;
         document_frequency = length objects;
         postings = lb_postings payloads;
         positions = lb_positions payloads;
         posting_offset = length (buf_data postings);
         position_offset = length (buf_data positions) in
     rbind (rbind (lex_append_u64 mem postings (word_of_nat term_ordinal)) (\<lambda>postings.
            rbind (lex_append_u64 mem postings (word_of_nat document_frequency)) (\<lambda>postings.
            lex_append_u32 mem postings (word_of_nat (block_count document_frequency))))) (\<lambda>postings.
     rbind (rbind (lex_append_u64 mem positions (word_of_nat term_ordinal)) (\<lambda>positions.
            lex_append_u64 mem positions (word_of_nat (length items)))) (\<lambda>positions.
     rbind (append_objects mem objects 0 posting_total postings positions)
       (\<lambda>(postings, positions, posting_total).
     case append_blocks mem YAP_V2_OK 0 objects postings of (status, postings) \<Rightarrow>
     if status \<noteq> YAP_V2_OK then Inl status
     else
     rbind (rbind (lex_append_u32 mem (lb_terms payloads)
                     (word_of_nat (length (occ_term (hd items))))) (\<lambda>terms.
            rbind (lex_append mem terms (occ_term (hd items))) (\<lambda>terms.
            rbind (lex_append_u64 mem terms (word_of_nat document_frequency)) (\<lambda>terms.
            rbind (lex_append_u64 mem terms (word_of_nat posting_offset)) (\<lambda>terms.
            rbind (lex_append_u64 mem terms
                     (word_of_nat (length (buf_data postings) - posting_offset))) (\<lambda>terms.
            rbind (lex_append_u64 mem terms (word_of_nat position_offset)) (\<lambda>terms.
            lex_append_u64 mem terms
              (word_of_nat (length (buf_data positions) - position_offset)))))))))
       (\<lambda>terms. Inr (\<lparr>lb_terms = terms, lb_postings = postings, lb_positions = positions\<rparr>,
          posting_total))))))"

fun append_terms ::
  "(nat \<Rightarrow> bool) \<Rightarrow> nat \<Rightarrow> YAP_V2_LEXICAL_OCCURRENCE list list \<Rightarrow> LEX_PAYLOADS \<times> u64 \<Rightarrow>
     (LEX_PAYLOADS \<times> u64) outcome" where
  "append_terms mem term_ordinal [] st = Inr st"
| "append_terms mem term_ordinal (items # groups) st =
     rbind (append_term mem term_ordinal items st) (append_terms mem (Suc term_ordinal) groups)"

definition payload_headers ::
  "(nat \<Rightarrow> bool) \<Rightarrow> nat \<Rightarrow> nat \<Rightarrow> u64 list \<Rightarrow> LEX_PAYLOADS outcome" where
  "payload_headers mem document_count passage_count field_totals =
     rbind (rbind (lex_append_u32 mem buffer_empty YAP_V2_LEXICAL_PAYLOAD_VERSION) (\<lambda>terms.
            lex_append_u64 mem terms 0)) (\<lambda>terms.
     rbind (rbind (lex_append_u32 mem buffer_empty YAP_V2_LEXICAL_PAYLOAD_VERSION) (\<lambda>postings.
            rbind (lex_append_u32 mem postings (word_of_nat YAP_V2_POSTINGS_BLOCK_SIZE)) (\<lambda>postings.
            rbind (lex_append_u64 mem postings (word_of_nat document_count)) (\<lambda>postings.
            rbind (lex_append_u64 mem postings (word_of_nat passage_count)) (\<lambda>postings.
            rbind (lex_append_u64 mem postings 0) (\<lambda>postings.
            rbind (lex_append_u64 mem postings (field_totals ! 0)) (\<lambda>postings.
            rbind (lex_append_u64 mem postings (field_totals ! 1)) (\<lambda>postings.
            lex_append_u64 mem postings (field_totals ! 2))))))))) (\<lambda>postings.
     rbind (rbind (lex_append_u32 mem buffer_empty YAP_V2_LEXICAL_PAYLOAD_VERSION) (\<lambda>positions.
            lex_append_u64 mem positions 0)) (\<lambda>positions.
     Inr \<lparr>lb_terms = terms, lb_postings = postings, lb_positions = positions\<rparr>)))"

definition patch_u64 :: "nat \<Rightarrow> u64 \<Rightarrow> YAP_V2_BUFFER \<Rightarrow> YAP_V2_BUFFER" where
  "patch_u64 pos value b =
     b\<lparr>buf_data := take pos (buf_data b) @ put_u64 value @ drop (pos + 8) (buf_data b)\<rparr>"

definition build_payloads ::
  "(nat \<Rightarrow> bool) \<Rightarrow> YAP_V2_LEXICAL_OCCURRENCE list \<Rightarrow> nat \<Rightarrow> nat \<Rightarrow> u64 list \<Rightarrow>
     (LEX_PAYLOADS \<times> u64 \<times> u64) outcome" where
  "build_payloads mem occurrences document_count passage_count field_totals =
     (let items = (if length occurrences > 1 then qsort_by occurrence_compare occurrences
                   else occurrences);
          groups = term_runs items in
      rbind (payload_headers mem document_count passage_count field_totals) (\<lambda>payloads.
      rbind (append_terms mem 0 groups (payloads, 0)) (\<lambda>(payloads, posting_total).
      Inr (\<lparr>lb_terms = patch_u64 4 (word_of_nat (length groups)) (lb_terms payloads),
            lb_postings = patch_u64 24 posting_total (lb_postings payloads),
            lb_positions = patch_u64 4 (word_of_nat (length occurrences)) (lb_positions payloads)\<rparr>,
           word_of_nat (length groups), posting_total))))"

subsection \<open>Component files\<close>

definition write_component ::
  "io \<Rightarrow> nat \<Rightarrow> (bytes \<Rightarrow> bytes list option \<times> bool \<times> bool) \<Rightarrow> string \<Rightarrow> u32 \<Rightarrow> u64 \<Rightarrow> bytes \<Rightarrow> u64 \<Rightarrow>
     YAP_V2_COMPONENT_DESCRIPTOR outcome \<times> fs_op list" where
  "write_component io short back path file_type generation payload records =
     (case YAP_V2_file_header_encode
        \<lparr>hdr_format_version = YAP_V2_FORMAT_VERSION,
         hdr_header_bytes = word_of_nat YAP_V2_FILE_HEADER_BYTES, hdr_file_type = file_type,
         hdr_generation = generation, hdr_payload_bytes = word_of_nat (length payload),
         hdr_payload_crc32c = crc32c_branch payload\<rparr> of
        Inl status \<Rightarrow> (Inl status, [])
      | Inr encoded \<Rightarrow>
          (case write_replace io short path (encoded @ payload) of (status, ops) \<Rightarrow>
             if status \<noteq> YAP_V2_OK then (Inl status, ops)
             else case back (encoded @ payload) of (chunks, read_ok, close_ok) \<Rightarrow>
               (rbind (YAP_V2_file_sha256 chunks read_ok close_ok) (\<lambda>(checksum, file_bytes).
                  Inr \<lparr>cmp_name = [], cmp_file_type = file_type, cmp_record_count = records,
                       cmp_file_bytes = file_bytes, cmp_checksum = checksum\<rparr>), ops)))"

definition lexical_names :: "string list" where
  "lexical_names = [''terms.yap2'', ''postings.yap2'', ''positions.yap2'']"

definition lexical_types :: "u32 list" where
  "lexical_types = [YAP_V2_FILE_TERMS, YAP_V2_FILE_POSTINGS, YAP_V2_FILE_POSITIONS]"

fun write_components ::
  "(nat \<Rightarrow> bool) \<Rightarrow> (nat \<Rightarrow> io) \<Rightarrow> nat \<Rightarrow> (nat \<Rightarrow> bytes \<Rightarrow> bytes list option \<times> bool \<times> bool) \<Rightarrow>
     string \<Rightarrow> u64 \<Rightarrow> nat list \<Rightarrow> bytes list \<Rightarrow> u64 list \<Rightarrow>
     YAP_V2_COMPONENT_DESCRIPTOR list outcome \<times> fs_op list" where
  "write_components mem ios short back segment_dir generation [] payloads records = (Inr [], [])"
| "write_components mem ios short back segment_dir generation (i # rest) payloads records =
     (let name = lexical_names ! i in
      if \<not> mem (length segment_dir + length name + 2) then (Inl YAP_V2_ALLOCATION_FAILED, [])
      else case write_component (ios i) short (back i) (segment_dir @ ''/'' @ name)
             (lexical_types ! i) generation (payloads ! i) (records ! i) of
        (Inl status, ops) \<Rightarrow> (Inl status, ops)
      | (Inr component, ops) \<Rightarrow>
          (case write_components mem ios short back segment_dir generation rest payloads records of
             (result, ops') \<Rightarrow>
               (rbind result (\<lambda>components. Inr (component\<lparr>cmp_name := ascii name\<rparr> # components)),
                ops @ ops')))"

definition write_occurrences ::
  "(nat \<Rightarrow> bool) \<Rightarrow> (nat \<Rightarrow> io) \<Rightarrow> nat \<Rightarrow> (nat \<Rightarrow> bytes \<Rightarrow> bytes list option \<times> bool \<times> bool) \<Rightarrow>
     string \<Rightarrow> u64 \<Rightarrow> YAP_V2_LEXICAL_OCCURRENCE list \<Rightarrow> nat \<Rightarrow> nat \<Rightarrow> u64 list \<Rightarrow>
     YAP_V2_COMPONENT_DESCRIPTOR list outcome \<times> fs_op list" where
  "write_occurrences mem ios short back segment_dir generation occurrences document_count
     passage_count field_totals =
     (case build_payloads mem occurrences document_count passage_count field_totals of
        Inl status \<Rightarrow> (Inl status, [])
      | Inr (payloads, term_count, posting_count) \<Rightarrow>
          write_components mem ios short back segment_dir generation [0, 1, 2]
            [buf_data (lb_terms payloads), buf_data (lb_postings payloads),
             buf_data (lb_positions payloads)]
            [term_count, posting_count, word_of_nat (length occurrences)])"


subsection \<open>Tokenizing and writing a segment\<close>

fun tokenize_passages ::
  "(nat \<Rightarrow> bool) \<Rightarrow> tokenizer \<Rightarrow> nat \<Rightarrow> YAP_V2_PASSAGE_VIEW list \<Rightarrow> YAP_V2_LEXICAL_PREPARED \<Rightarrow> u64 \<Rightarrow>
     (YAP_V2_LEXICAL_PREPARED \<times> u64) outcome" where
  "tokenize_passages mem tokenize i [] occurrences passage_total = Inr (occurrences, passage_total)"
| "tokenize_passages mem tokenize i (passage # passages) occurrences passage_total =
     (if YAP_V2_passage_validate (Some passage) \<noteq> YAP_V2_OK
        then Inl (YAP_V2_passage_validate (Some passage))
      else
      rbind (tokenize_field mem tokenize occurrences (psg_text passage) YAP_V2_LEXICAL_PASSAGE
               (word_of_nat i) YAP_V2_FIELD_PASSAGE passage_total) (\<lambda>(occurrences, passage_total).
      tokenize_passages mem tokenize (Suc i) passages occurrences passage_total))"

definition YAP_V2_lexical_prepare_unit ::
  "(nat \<Rightarrow> bool) \<Rightarrow> tokenizer \<Rightarrow> YAP_V2_DOCUMENT_VIEW option \<Rightarrow> YAP_V2_PASSAGE_VIEW list \<Rightarrow>
     YAP_V2_LEXICAL_PREPARED outcome" where
  "YAP_V2_lexical_prepare_unit mem tokenize document passages =
     (case document of
        None \<Rightarrow> Inl YAP_V2_INVALID_ARGUMENT
      | Some doc \<Rightarrow>
          if YAP_V2_document_validate document \<noteq> YAP_V2_OK
            then Inl (YAP_V2_document_validate document)
          else
          rbind (tokenize_field mem tokenize YAP_V2_lexical_prepared_init (doc_title doc)
                   YAP_V2_LEXICAL_DOCUMENT 0 YAP_V2_FIELD_TITLE 0) (\<lambda>(prepared, title_total).
          rbind (tokenize_field mem tokenize prepared (doc_body doc)
                   YAP_V2_LEXICAL_DOCUMENT 0 YAP_V2_FIELD_BODY 0) (\<lambda>(prepared, body_total).
          rbind (tokenize_passages mem tokenize 0 passages prepared 0) (\<lambda>(prepared, passage_total).
          Inr (prepared\<lparr>lp_field_token_count := [title_total, body_total, passage_total],
                        lp_document_count := 1, lp_passage_count := length passages\<rparr>)))))"

fun total_count :: "YAP_V2_LEXICAL_PREPARED list \<Rightarrow> nat \<Rightarrow> nat outcome" where
  "total_count [] combined = Inr combined"
| "total_count (unit # units) combined =
     (if length (lp_items unit) > SIZE_MAX - combined then Inl YAP_V2_INVALID_ARGUMENT
      else total_count units (combined + length (lp_items unit)))"

definition rebase :: "nat \<Rightarrow> nat \<Rightarrow> YAP_V2_LEXICAL_OCCURRENCE \<Rightarrow> YAP_V2_LEXICAL_OCCURRENCE" where
  "rebase document_base passage_base item =
     (if occ_object_type item = YAP_V2_LEXICAL_DOCUMENT
      then item\<lparr>occ_object_ordinal := occ_object_ordinal item + word_of_nat document_base\<rparr>
      else item\<lparr>occ_object_ordinal := occ_object_ordinal item + word_of_nat passage_base\<rparr>)"

fun add_totals :: "u64 list \<Rightarrow> u64 list \<Rightarrow> u64 list outcome" where
  "add_totals (t # ts) (c # cs) =
     (if unat c > SIZE_MAX - unat t then Inl YAP_V2_OUT_OF_RANGE
      else rbind (add_totals ts cs) (\<lambda>ts. Inr ((t + c) # ts)))"
| "add_totals ts cs = Inr ts"

fun combine_prepared ::
  "YAP_V2_LEXICAL_PREPARED list \<Rightarrow> YAP_V2_LEXICAL_OCCURRENCE list \<Rightarrow> u64 list \<Rightarrow> nat \<Rightarrow> nat \<Rightarrow>
     (YAP_V2_LEXICAL_OCCURRENCE list \<times> u64 list \<times> nat \<times> nat) outcome" where
  "combine_prepared [] items field_totals document_base passage_base =
     Inr (items, field_totals, document_base, passage_base)"
| "combine_prepared (unit # units) items field_totals document_base passage_base =
     rbind (add_totals field_totals (lp_field_token_count unit)) (\<lambda>field_totals.
       combine_prepared units (items @ map (rebase document_base passage_base) (lp_items unit))
         field_totals (document_base + lp_document_count unit) (passage_base + lp_passage_count unit))"

definition YAP_V2_lexical_write_prepared ::
  "(nat \<Rightarrow> bool) \<Rightarrow> (nat \<Rightarrow> io) \<Rightarrow> nat \<Rightarrow> (nat \<Rightarrow> bytes \<Rightarrow> bytes list option \<times> bool \<times> bool) \<Rightarrow>
     string \<Rightarrow> u64 \<Rightarrow> YAP_V2_LEXICAL_PREPARED list \<Rightarrow>
     YAP_V2_COMPONENT_DESCRIPTOR list outcome \<times> fs_op list" where
  "YAP_V2_lexical_write_prepared mem ios short back segment_dir generation prepared =
     (if generation = 0 \<or> prepared = [] then (Inl YAP_V2_INVALID_ARGUMENT, [])
      else case rbind (total_count prepared 0) (\<lambda>combined.
          if combined > SIZE_MAX div occurrence_bytes then Inl YAP_V2_OUT_OF_RANGE
          else if combined > 0 \<and> \<not> mem (combined * occurrence_bytes)
            then Inl YAP_V2_ALLOCATION_FAILED
          else combine_prepared prepared [] [0, 0, 0] 0 0) of
        Inl status \<Rightarrow> (Inl status, [])
      | Inr (items, field_totals, document_base, passage_base) \<Rightarrow>
          write_occurrences mem ios short back segment_dir generation items document_base
            passage_base field_totals)"

fun tokenize_documents ::
  "(nat \<Rightarrow> bool) \<Rightarrow> tokenizer \<Rightarrow> nat \<Rightarrow> YAP_V2_DOCUMENT_VIEW list \<Rightarrow> YAP_V2_LEXICAL_PREPARED \<Rightarrow> u64 \<Rightarrow>
     u64 \<Rightarrow> (YAP_V2_LEXICAL_PREPARED \<times> u64 \<times> u64) outcome" where
  "tokenize_documents mem tokenize i [] occurrences title_total body_total =
     Inr (occurrences, title_total, body_total)"
| "tokenize_documents mem tokenize i (document # documents) occurrences title_total body_total =
     (if YAP_V2_document_validate (Some document) \<noteq> YAP_V2_OK
        then Inl (YAP_V2_document_validate (Some document))
      else
      rbind (tokenize_field mem tokenize occurrences (doc_title document) YAP_V2_LEXICAL_DOCUMENT
               (word_of_nat i) YAP_V2_FIELD_TITLE title_total) (\<lambda>(occurrences, title_total).
      rbind (tokenize_field mem tokenize occurrences (doc_body document) YAP_V2_LEXICAL_DOCUMENT
               (word_of_nat i) YAP_V2_FIELD_BODY body_total) (\<lambda>(occurrences, body_total).
      tokenize_documents mem tokenize (Suc i) documents occurrences title_total body_total)))"

definition YAP_V2_lexical_write ::
  "(nat \<Rightarrow> bool) \<Rightarrow> tokenizer \<Rightarrow> (nat \<Rightarrow> io) \<Rightarrow> nat \<Rightarrow>
     (nat \<Rightarrow> bytes \<Rightarrow> bytes list option \<times> bool \<times> bool) \<Rightarrow> string \<Rightarrow> u64 \<Rightarrow>
     YAP_V2_DOCUMENT_VIEW list \<Rightarrow> YAP_V2_PASSAGE_VIEW list \<Rightarrow>
     YAP_V2_COMPONENT_DESCRIPTOR list outcome \<times> fs_op list" where
  "YAP_V2_lexical_write mem tokenize ios short back segment_dir generation documents passages =
     (if generation = 0 \<or> length documents > YAP_V2_MAX_SEGMENT_DOCUMENTS \<or>
         length passages > YAP_V2_MAX_SEGMENT_PASSAGES then (Inl YAP_V2_INVALID_ARGUMENT, [])
      else case
        rbind (tokenize_documents mem tokenize 0 documents YAP_V2_lexical_prepared_init 0 0)
          (\<lambda>(occurrences, title_total, body_total).
        rbind (tokenize_passages mem tokenize 0 passages occurrences 0)
          (\<lambda>(occurrences, passage_total).
        Inr (occurrences, [title_total, body_total, passage_total]))) of
        Inl status \<Rightarrow> (Inl status, [])
      | Inr (occurrences, field_totals) \<Rightarrow>
          write_occurrences mem ios short back segment_dir generation (lp_items occurrences)
            (length documents) (length passages) field_totals)"

end
