(* ===== verification/Lexical_Reader.thy ===== *)
theory Lexical_Reader
  imports Lexical_V2
begin

text \<open>
  \<open>components/yappo_lexical_reader_v2.c\<close>: mapping and validating the three files of a segment's
  inverted index, binary search in the term dictionary and iteration over postings and positions.
  A mapped file is its bytes; \<open>get_u32\<close> and \<open>get_u64\<close> of \<open>drop off data\<close> read at an offset. The
  comparisons of 64-bit values with \<open>SIZE_MAX\<close> are always false and are left out, as are the null
  checks of pointers. Validation reads positions at an offset taken from the file; \<open>Out_of_bounds\<close> is
  the result when that read leaves the mapped file.
\<close>

definition POSTING_BYTES :: nat where "POSTING_BYTES = 48"
definition BLOCK_BYTES :: nat where "BLOCK_BYTES = 16"

record YAP_V2_TERM_ENTRY =
  te_term :: bytes
  te_document_frequency :: u64
  te_postings_offset :: u64
  te_postings_bytes :: u64
  te_positions_offset :: u64
  te_positions_bytes :: u64

record YAP_V2_POSTING =
  po_object_type :: u32
  po_object_ordinal :: u64
  po_term_frequency :: "u32 list"
  po_field_length :: "u32 list"
  po_position_offset :: u64
  po_position_count :: u32

record YAP_V2_POSTINGS_BLOCK =
  blk_first_posting :: u32
  blk_posting_count :: u32
  blk_max_term_frequency :: u32
  blk_min_field_length :: u32

record YAP_V2_POSITION =
  pos_field :: u32
  pos_position :: u32

record YAP_V2_LEXICAL_SEGMENT =
  lx_maps :: "bytes list"
  lx_generation :: u64
  lx_document_count :: u64
  lx_passage_count :: u64
  lx_posting_count :: u64
  lx_position_count :: u64
  lx_field_token_count :: "u64 list"
  lx_terms :: "YAP_V2_TERM_ENTRY list"

record YAP_V2_POSTING_ITERATOR =
  pit_segment :: YAP_V2_LEXICAL_SEGMENT
  pit_term :: YAP_V2_TERM_ENTRY
  pit_offset :: nat
  pit_index :: nat
  pit_blocks_offset :: nat

record YAP_V2_POSITION_ITERATOR =
  sit_segment :: YAP_V2_LEXICAL_SEGMENT
  sit_term :: YAP_V2_TERM_ENTRY
  sit_offset :: nat
  sit_index :: nat

datatype lex_fault = Fault YAP_V2_STATUS | Out_of_bounds

definition lift_status :: "'a outcome \<Rightarrow> lex_fault + 'a" where
  "lift_status r = (case r of Inl s \<Rightarrow> Inl (Fault s) | Inr x \<Rightarrow> Inr x)"

definition range_valid :: "nat \<Rightarrow> nat \<Rightarrow> nat \<Rightarrow> bool" where
  "range_valid offset bytes sz \<longleftrightarrow> offset \<le> sz \<and> bytes \<le> sz - offset"

definition term_compare :: "bytes \<Rightarrow> bytes \<Rightarrow> int" where
  "term_compare left right =
     (let common = min (length left) (length right);
          order = memcmp (take common left) (take common right) in
      if order \<noteq> 0 then order
      else if length left = length right then 0
      else if length left < length right then -1 else 1)"

definition map_component :: "io \<Rightarrow> fs \<Rightarrow> string \<Rightarrow> u32 \<Rightarrow> u64 \<Rightarrow> (bytes \<times> u64) outcome" where
  "map_component io fs path file_type expected_generation =
     (case fs path of
        None \<Rightarrow> Inl YAP_V2_IO_ERROR
      | Some content \<Rightarrow>
          if \<not> io Io_open then Inl YAP_V2_IO_ERROR
          else if \<not> io Io_fstat \<or> length content < YAP_V2_FILE_HEADER_BYTES \<or>
                  length content > YAP_V2_FILE_HEADER_BYTES + YAP_V2_MAX_SEGMENT_PAYLOAD_BYTES
            then Inl YAP_V2_INVALID_FORMAT
          else if \<not> io Io_close \<or> \<not> io Io_mmap then Inl YAP_V2_IO_ERROR
          else rbind (YAP_V2_file_header_decode content) (\<lambda>header.
            if hdr_file_type header \<noteq> file_type \<or>
               hdr_payload_bytes header \<noteq> word_of_nat (length content - YAP_V2_FILE_HEADER_BYTES) \<or>
               (expected_generation \<noteq> 0 \<and> hdr_generation header \<noteq> expected_generation)
              then Inl YAP_V2_INVALID_FORMAT
            else if crc32c_branch (take (unat (hdr_payload_bytes header))
                      (drop YAP_V2_FILE_HEADER_BYTES content)) \<noteq> hdr_payload_crc32c header
              then Inl YAP_V2_CHECKSUM_MISMATCH
            else Inr (content, hdr_generation header)))"

definition parse_posting :: "bytes \<Rightarrow> YAP_V2_POSTING" where
  "parse_posting data =
     \<lparr>po_object_type = get_u32 data, po_object_ordinal = get_u64 (drop 4 data),
      po_term_frequency =
        [get_u32 (drop 12 data), get_u32 (drop 16 data), get_u32 (drop 20 data)],
      po_field_length =
        [get_u32 (drop 24 data), get_u32 (drop 28 data), get_u32 (drop 32 data)],
      po_position_offset = get_u64 (drop 36 data), po_position_count = get_u32 (drop 44 data)\<rparr>"

subsection \<open>Validation of the term dictionary\<close>

fun read_terms ::
  "bytes \<Rightarrow> nat \<Rightarrow> nat \<Rightarrow> YAP_V2_TERM_ENTRY option \<Rightarrow> nat \<Rightarrow>
     (YAP_V2_TERM_ENTRY list \<times> nat) outcome" where
  "read_terms data sz 0 previous offset = Inr ([], offset)"
| "read_terms data sz (Suc n) previous offset =
     (if \<not> range_valid offset 4 sz then Inl YAP_V2_INVALID_FORMAT
      else
        (let len = unat (get_u32 (drop offset data)); offset = offset + 4 in
         if len = 0 \<or> \<not> range_valid offset (len + 40) sz then Inl YAP_V2_INVALID_FORMAT
         else
           (let trm = take len (drop offset data);
                fields = drop (offset + len) data;
                entry = \<lparr>te_term = trm, te_document_frequency = get_u64 fields,
                         te_postings_offset = get_u64 (drop 8 fields),
                         te_postings_bytes = get_u64 (drop 16 fields),
                         te_positions_offset = get_u64 (drop 24 fields),
                         te_positions_bytes = get_u64 (drop 32 fields)\<rparr> in
            if te_document_frequency entry = 0 \<or>
               (case previous of None \<Rightarrow> False | Some p \<Rightarrow> term_compare (te_term p) trm \<ge> 0)
              then Inl YAP_V2_INVALID_FORMAT
            else rbind (read_terms data sz n (Some entry) (offset + len + 40))
              (\<lambda>(entries, offset). Inr (entry # entries, offset)))))"

text \<open>A term entry takes 56 bytes.\<close>

definition validate_term_stream :: "(nat \<Rightarrow> bool) \<Rightarrow> bytes \<Rightarrow> YAP_V2_TERM_ENTRY list outcome" where
  "validate_term_stream mem data =
     (let sz = length data; offset = YAP_V2_FILE_HEADER_BYTES in
      if \<not> range_valid offset 12 sz \<or> get_u32 (drop offset data) \<noteq> YAP_V2_LEXICAL_PAYLOAD_VERSION
        then Inl YAP_V2_INVALID_FORMAT
      else
        (let count_terms = unat (get_u64 (drop (offset + 4) data)) in
         if count_terms > YAP_V2_MAX_SEGMENT_PAYLOAD_BYTES div 56 then Inl YAP_V2_OUT_OF_RANGE
         else if count_terms > 0 \<and> \<not> mem (count_terms * 56) then Inl YAP_V2_ALLOCATION_FAILED
         else rbind (read_terms data sz count_terms None (offset + 12)) (\<lambda>(entries, offset).
           if offset = sz then Inr entries else Inl YAP_V2_INVALID_FORMAT)))"

subsection \<open>Validation of postings and positions\<close>

definition position_address :: "nat \<Rightarrow> YAP_V2_POSTING \<Rightarrow> nat \<Rightarrow> nat" where
  "position_address position_cursor posting p =
     (position_cursor + 16 + (unat (po_position_offset posting) + p) mod 2 ^ 64 * 8) mod 2 ^ 64"

primrec validate_positions ::
  "bytes \<Rightarrow> nat \<Rightarrow> YAP_V2_POSTING \<Rightarrow> nat \<Rightarrow> nat \<Rightarrow> u32 list \<Rightarrow> u32 list \<Rightarrow> lex_fault + u32 list" where
  "validate_positions positions position_cursor posting p 0 field_counts previous_position =
     Inr field_counts"
| "validate_positions positions position_cursor posting p (Suc n) field_counts previous_position =
     (let at = position_address position_cursor posting p in
      if at + 8 > length positions then Inl Out_of_bounds
      else
        (let field = get_u32 (drop at positions); position = get_u32 (drop (at + 4) positions);
             f = unat field - 1 in
         if field < YAP_V2_FIELD_TITLE \<or> field > YAP_V2_FIELD_PASSAGE \<or>
            position \<ge> po_field_length posting ! f \<or>
            (field_counts ! f > 0 \<and> position \<le> previous_position ! f)
           then Inl (Fault YAP_V2_INVALID_FORMAT)
         else validate_positions positions position_cursor posting (Suc p) n
                (field_counts[f := field_counts ! f + 1]) (previous_position[f := position])))"

definition posting_frequency :: "YAP_V2_POSTING \<Rightarrow> u64" where
  "posting_frequency posting =
     ucast (po_term_frequency posting ! 0) + ucast (po_term_frequency posting ! 1) +
     ucast (po_term_frequency posting ! 2)"

primrec validate_postings ::
  "u64 \<Rightarrow> u64 \<Rightarrow> bytes \<Rightarrow> bytes \<Rightarrow> nat \<Rightarrow> nat \<Rightarrow> u64 \<Rightarrow> nat \<Rightarrow> YAP_V2_POSTING option \<Rightarrow>
     lex_fault + unit" where
  "validate_postings document_count passage_count postings positions posting_at position_cursor
     position_records 0 previous = Inr ()"
| "validate_postings document_count passage_count postings positions posting_at position_cursor
     position_records (Suc n) previous =
     (let posting = parse_posting (drop posting_at postings); tf = posting_frequency posting in
      if (po_object_type posting \<noteq> YAP_V2_LEXICAL_DOCUMENT \<and>
          po_object_type posting \<noteq> YAP_V2_LEXICAL_PASSAGE) \<or>
         (po_object_type posting = YAP_V2_LEXICAL_DOCUMENT \<and>
          po_object_ordinal posting \<ge> document_count) \<or>
         (po_object_type posting = YAP_V2_LEXICAL_PASSAGE \<and>
          po_object_ordinal posting \<ge> passage_count) \<or>
         tf = 0 \<or> tf \<noteq> ucast (po_position_count posting) \<or>
         po_position_offset posting + ucast (po_position_count posting) > position_records \<or>
         (case previous of None \<Rightarrow> False | Some q \<Rightarrow>
            po_object_type posting < po_object_type q \<or>
            (po_object_type posting = po_object_type q \<and>
             po_object_ordinal posting \<le> po_object_ordinal q))
        then Inl (Fault YAP_V2_INVALID_FORMAT)
      else rbind (validate_positions positions position_cursor posting 0
                    (unat (po_position_count posting)) [0, 0, 0] [0, 0, 0]) (\<lambda>field_counts.
        if field_counts ! 0 \<noteq> po_term_frequency posting ! 0 \<or>
           field_counts ! 1 \<noteq> po_term_frequency posting ! 1 \<or>
           field_counts ! 2 \<noteq> po_term_frequency posting ! 2
          then Inl (Fault YAP_V2_INVALID_FORMAT)
        else validate_postings document_count passage_count postings positions
               (posting_at + POSTING_BYTES) position_cursor position_records n (Some posting)))"

definition posting_min_length :: "YAP_V2_POSTING \<Rightarrow> u32" where
  "posting_min_length posting =
     fold (\<lambda>f len. if po_term_frequency posting ! f > 0 \<and> po_field_length posting ! f < len
                   then po_field_length posting ! f else len) [0, 1, 2] (- 1)"

fun block_bounds :: "bytes \<Rightarrow> nat \<Rightarrow> nat \<Rightarrow> u32 \<times> u32 \<Rightarrow> u32 \<times> u32" where
  "block_bounds postings posting_at 0 (max_tf, min_length) = (max_tf, min_length)"
| "block_bounds postings posting_at (Suc n) (max_tf, min_length) =
     (let posting = parse_posting (drop posting_at postings);
          tf = po_term_frequency posting ! 0 + po_term_frequency posting ! 1 +
               po_term_frequency posting ! 2;
          len = posting_min_length posting in
      block_bounds postings (posting_at + POSTING_BYTES) n
        (if tf > max_tf then tf else max_tf, if len < min_length then len else min_length))"

primrec validate_blocks ::
  "bytes \<Rightarrow> nat \<Rightarrow> nat \<Rightarrow> u64 \<Rightarrow> nat \<Rightarrow> nat \<Rightarrow> YAP_V2_STATUS" where
  "validate_blocks postings posting_data block_data document_frequency i 0 = YAP_V2_OK"
| "validate_blocks postings posting_data block_data document_frequency i (Suc n) =
     (let block = drop (block_data + i * BLOCK_BYTES) postings;
          first = get_u32 block; count_postings = get_u32 (drop 4 block);
          stored_max_tf = get_u32 (drop 8 block); stored_min_length = get_u32 (drop 12 block) in
      if unat first \<noteq> i * YAP_V2_POSTINGS_BLOCK_SIZE \<or> count_postings = 0 \<or>
         unat count_postings > YAP_V2_POSTINGS_BLOCK_SIZE \<or>
         ucast (first + count_postings) > document_frequency then YAP_V2_INVALID_FORMAT
      else if block_bounds postings (posting_data + unat first * POSTING_BYTES)
                (unat count_postings) (0, - 1) \<noteq> (stored_max_tf, stored_min_length)
        then YAP_V2_INVALID_FORMAT
      else validate_blocks postings posting_data block_data document_frequency (Suc i) n)"

definition validate_term ::
  "u64 \<Rightarrow> u64 \<Rightarrow> bytes \<Rightarrow> bytes \<Rightarrow> nat \<Rightarrow> YAP_V2_TERM_ENTRY \<Rightarrow> nat \<Rightarrow> nat \<Rightarrow> lex_fault + u64" where
  "validate_term document_count passage_count postings positions term_index trm posting_cursor
     position_cursor =
     (let posting_entry = drop posting_cursor postings;
          position_entry = drop position_cursor positions;
          df = te_document_frequency trm in
      if unat (te_postings_offset trm) \<noteq> posting_cursor - YAP_V2_FILE_HEADER_BYTES \<or>
         unat (te_positions_offset trm) \<noteq> position_cursor - YAP_V2_FILE_HEADER_BYTES \<or>
         \<not> range_valid posting_cursor (unat (te_postings_bytes trm)) (length postings) \<or>
         \<not> range_valid position_cursor (unat (te_positions_bytes trm)) (length positions) \<or>
         \<not> range_valid posting_cursor 20 (length postings) \<or>
         unat (get_u64 posting_entry) \<noteq> term_index \<or> get_u64 (drop 8 posting_entry) \<noteq> df \<or>
         \<not> range_valid position_cursor 16 (length positions) \<or>
         unat (get_u64 position_entry) \<noteq> term_index then Inl (Fault YAP_V2_INVALID_FORMAT)
      else
        (let blocks = get_u32 (drop 16 posting_entry);
             position_records = get_u64 (drop 8 position_entry) in
         if ucast blocks \<noteq> (df + word_of_nat YAP_V2_POSTINGS_BLOCK_SIZE - 1) div
                            word_of_nat YAP_V2_POSTINGS_BLOCK_SIZE \<or>
            unat df > (SIZE_MAX - 20) div POSTING_BYTES then Inl (Fault YAP_V2_INVALID_FORMAT)
         else
           (let posting_data = posting_cursor + 20;
                block_data = posting_data + unat df * POSTING_BYTES in
            if 20 + df * word_of_nat POSTING_BYTES + ucast blocks * word_of_nat BLOCK_BYTES \<noteq>
                 te_postings_bytes trm \<or>
               unat position_records > (SIZE_MAX - 16) div 8 \<or>
               te_positions_bytes trm \<noteq> 16 + position_records * 8
              then Inl (Fault YAP_V2_INVALID_FORMAT)
            else rbind (validate_postings document_count passage_count postings positions
                          posting_data position_cursor position_records (unat df) None) (\<lambda>_.
              let status = validate_blocks postings posting_data block_data df 0 (unat blocks) in
              if status \<noteq> YAP_V2_OK then Inl (Fault status) else Inr position_records))))"

fun validate_terms ::
  "u64 \<Rightarrow> u64 \<Rightarrow> bytes \<Rightarrow> bytes \<Rightarrow> nat \<Rightarrow> YAP_V2_TERM_ENTRY list \<Rightarrow> nat \<Rightarrow> nat \<Rightarrow> u64 \<Rightarrow> u64 \<Rightarrow>
     lex_fault + (nat \<times> nat \<times> u64 \<times> u64)" where
  "validate_terms document_count passage_count postings positions term_index [] posting_cursor
     position_cursor counted_postings counted_positions =
     Inr (posting_cursor, position_cursor, counted_postings, counted_positions)"
| "validate_terms document_count passage_count postings positions term_index (trm # trms)
     posting_cursor position_cursor counted_postings counted_positions =
     rbind (validate_term document_count passage_count postings positions term_index trm
              posting_cursor position_cursor) (\<lambda>position_records.
       validate_terms document_count passage_count postings positions (Suc term_index) trms
         (posting_cursor + unat (te_postings_bytes trm))
         (position_cursor + unat (te_positions_bytes trm))
         (counted_postings + te_document_frequency trm) (counted_positions + position_records))"

definition validate_payloads ::
  "YAP_V2_LEXICAL_SEGMENT \<Rightarrow> lex_fault + YAP_V2_LEXICAL_SEGMENT" where
  "validate_payloads segment =
     (let postings = lx_maps segment ! 1; positions = lx_maps segment ! 2;
          h = YAP_V2_FILE_HEADER_BYTES in
      if \<not> range_valid h 56 (length postings) \<or>
         get_u32 (drop h postings) \<noteq> YAP_V2_LEXICAL_PAYLOAD_VERSION \<or>
         unat (get_u32 (drop (h + 4) postings)) \<noteq> YAP_V2_POSTINGS_BLOCK_SIZE \<or>
         \<not> range_valid h 12 (length positions) \<or>
         get_u32 (drop h positions) \<noteq> YAP_V2_LEXICAL_PAYLOAD_VERSION
        then Inl (Fault YAP_V2_INVALID_FORMAT)
      else
        (let segment = segment
               \<lparr>lx_document_count := get_u64 (drop (h + 8) postings),
                lx_passage_count := get_u64 (drop (h + 16) postings),
                lx_posting_count := get_u64 (drop (h + 24) postings),
                lx_field_token_count := [get_u64 (drop (h + 32) postings),
                  get_u64 (drop (h + 40) postings), get_u64 (drop (h + 48) postings)],
                lx_position_count := get_u64 (drop (h + 4) positions)\<rparr> in
         rbind (validate_terms (lx_document_count segment) (lx_passage_count segment) postings
                  positions 0 (lx_terms segment) (h + 56) (h + 12) 0 0)
           (\<lambda>(posting_cursor, position_cursor, counted_postings, counted_positions).
             if posting_cursor = length postings \<and> position_cursor = length positions \<and>
                counted_postings = lx_posting_count segment \<and>
                counted_positions = lx_position_count segment
             then Inr segment else Inl (Fault YAP_V2_INVALID_FORMAT))))"

fun map_components ::
  "(nat \<Rightarrow> bool) \<Rightarrow> (nat \<Rightarrow> io) \<Rightarrow> fs \<Rightarrow> string \<Rightarrow> u64 \<Rightarrow> nat list \<Rightarrow> bytes list \<Rightarrow> u64 \<Rightarrow>
     (bytes list \<times> u64) outcome" where
  "map_components mem ios fs segment_dir expected_generation [] maps generation =
     Inr (maps, generation)"
| "map_components mem ios fs segment_dir expected_generation (i # rest) maps generation =
     (let name = lexical_names ! i in
      if \<not> mem (length segment_dir + length name + 2) then Inl YAP_V2_ALLOCATION_FAILED
      else rbind (map_component (ios i) fs (segment_dir @ ''/'' @ name) (lexical_types ! i)
                    expected_generation) (\<lambda>(content, file_generation).
        if i > 0 \<and> file_generation \<noteq> generation then Inl YAP_V2_INVALID_FORMAT
        else map_components mem ios fs segment_dir expected_generation rest (maps @ [content])
               file_generation))"

definition YAP_V2_lexical_segment_open ::
  "(nat \<Rightarrow> bool) \<Rightarrow> (nat \<Rightarrow> io) \<Rightarrow> fs \<Rightarrow> string \<Rightarrow> u64 \<Rightarrow> lex_fault + YAP_V2_LEXICAL_SEGMENT" where
  "YAP_V2_lexical_segment_open mem ios fs segment_dir expected_generation =
     rbind (lift_status (map_components mem ios fs segment_dir expected_generation [0, 1, 2] [] 0))
       (\<lambda>(maps, generation).
     rbind (lift_status (validate_term_stream mem (maps ! 0))) (\<lambda>terms.
     rbind (validate_payloads
        \<lparr>lx_maps = maps, lx_generation = 0, lx_document_count = 0, lx_passage_count = 0,
         lx_posting_count = 0, lx_position_count = 0, lx_field_token_count = [0, 0, 0],
         lx_terms = terms\<rparr>) (\<lambda>segment.
     Inr (segment\<lparr>lx_generation := generation\<rparr>))))"

subsection \<open>Lookup\<close>

lemma middle_bounds:
  "low < (high :: nat) \<Longrightarrow> low \<le> low + (high - low) div 2 \<and> low + (high - low) div 2 < high"
  by auto

function find_loop :: "YAP_V2_TERM_ENTRY list \<Rightarrow> bytes \<Rightarrow> nat \<Rightarrow> nat \<Rightarrow> nat option" where
  "find_loop terms trm low high =
     (if low < high
      then
        (let middle = low + (high - low) div 2;
             entry = terms ! middle;
             common = min (length (te_term entry)) (length trm);
             order = memcmp (take common (te_term entry)) (take common trm) in
         if order = 0 \<and> length (te_term entry) = length trm then Some middle
         else if order < 0 \<or> (order = 0 \<and> length (te_term entry) < length trm)
           then find_loop terms trm (middle + 1) high
         else find_loop terms trm low middle)
      else None)"
  by pat_completeness auto
termination
proof (relation "measure (\<lambda>(terms, trm, low, high). high - low)", goal_cases)
  case 1
  show ?case by simp
next
  case (2 terms trm low high middle)
  then show ?case
    using middle_bounds[of low high] unfolding in_measure prod.case by linarith
next
  case (3 terms trm low high middle)
  then show ?case
    using middle_bounds[of low high] unfolding in_measure prod.case by linarith
qed

declare find_loop.simps [simp del]

definition YAP_V2_lexical_term_find ::
  "YAP_V2_LEXICAL_SEGMENT \<Rightarrow> YAP_V2_BYTES_VIEW \<Rightarrow> YAP_V2_TERM_ENTRY option" where
  "YAP_V2_lexical_term_find segment trm =
     (if view_len trm > 0 \<and> view_is_null trm then None
      else map_option ((!) (lx_terms segment))
             (find_loop (lx_terms segment) (view_bytes trm) 0 (length (lx_terms segment))))"

function type_loop :: "bytes \<Rightarrow> nat \<Rightarrow> nat \<Rightarrow> nat \<Rightarrow> nat" where
  "type_loop postings at low high =
     (if low < high
      then
        (let middle = low + (high - low) div 2;
             posting = parse_posting (drop (at + middle * POSTING_BYTES) postings) in
         if po_object_type posting < YAP_V2_LEXICAL_PASSAGE
         then type_loop postings at (middle + 1) high
         else type_loop postings at low middle)
      else low)"
  by pat_completeness auto
termination
proof (relation "measure (\<lambda>(postings, at, low, high). high - low)", goal_cases)
  case 1
  show ?case by simp
next
  case (2 postings at low high middle)
  then show ?case
    using middle_bounds[of low high] unfolding in_measure prod.case by linarith
next
  case (3 postings at low high middle)
  then show ?case
    using middle_bounds[of low high] unfolding in_measure prod.case by linarith
qed

declare type_loop.simps [simp del]

definition YAP_V2_lexical_term_type_frequency ::
  "YAP_V2_LEXICAL_SEGMENT \<Rightarrow> YAP_V2_TERM_ENTRY \<Rightarrow> u32 \<Rightarrow> u64 outcome" where
  "YAP_V2_lexical_term_type_frequency segment trm object_type =
     (if object_type \<noteq> YAP_V2_LEXICAL_DOCUMENT \<and> object_type \<noteq> YAP_V2_LEXICAL_PASSAGE
        then Inl YAP_V2_INVALID_ARGUMENT
      else
        (let low = type_loop (lx_maps segment ! 1)
               (YAP_V2_FILE_HEADER_BYTES + unat (te_postings_offset trm) + 20) 0
               (unat (te_document_frequency trm)) in
         Inr (if object_type = YAP_V2_LEXICAL_DOCUMENT then word_of_nat low
              else te_document_frequency trm - word_of_nat low)))"

subsection \<open>Iteration\<close>

definition YAP_V2_posting_iterator_init ::
  "YAP_V2_LEXICAL_SEGMENT \<Rightarrow> YAP_V2_TERM_ENTRY \<Rightarrow> YAP_V2_POSTING_ITERATOR" where
  "YAP_V2_posting_iterator_init segment trm =
     (let offset = YAP_V2_FILE_HEADER_BYTES + unat (te_postings_offset trm) + 20 in
      \<lparr>pit_segment = segment, pit_term = trm, pit_offset = offset, pit_index = 0,
       pit_blocks_offset = offset + unat (te_document_frequency trm) * POSTING_BYTES\<rparr>)"

definition YAP_V2_posting_iterator_next ::
  "YAP_V2_POSTING_ITERATOR \<Rightarrow> (YAP_V2_POSTING \<times> YAP_V2_POSTING_ITERATOR) outcome" where
  "YAP_V2_posting_iterator_next it =
     (if pit_index it \<ge> unat (te_document_frequency (pit_term it)) then Inl YAP_V2_OUT_OF_RANGE
      else Inr (parse_posting (drop (pit_offset it) (lx_maps (pit_segment it) ! 1)),
                it\<lparr>pit_offset := pit_offset it + POSTING_BYTES, pit_index := pit_index it + 1\<rparr>))"

definition YAP_V2_posting_iterator_block ::
  "YAP_V2_POSTING_ITERATOR \<Rightarrow> nat \<Rightarrow> YAP_V2_POSTINGS_BLOCK outcome" where
  "YAP_V2_posting_iterator_block it block_index =
     (let blocks = (unat (te_document_frequency (pit_term it)) + YAP_V2_POSTINGS_BLOCK_SIZE - 1) div
                   YAP_V2_POSTINGS_BLOCK_SIZE;
          data = drop (pit_blocks_offset it + block_index * BLOCK_BYTES)
                   (lx_maps (pit_segment it) ! 1) in
      if block_index \<ge> blocks then Inl YAP_V2_OUT_OF_RANGE
      else Inr \<lparr>blk_first_posting = get_u32 data, blk_posting_count = get_u32 (drop 4 data),
                blk_max_term_frequency = get_u32 (drop 8 data),
                blk_min_field_length = get_u32 (drop 12 data)\<rparr>)"

definition YAP_V2_position_iterator_init ::
  "YAP_V2_LEXICAL_SEGMENT \<Rightarrow> YAP_V2_TERM_ENTRY \<Rightarrow> YAP_V2_POSITION_ITERATOR" where
  "YAP_V2_position_iterator_init segment trm =
     \<lparr>sit_segment = segment, sit_term = trm,
      sit_offset = YAP_V2_FILE_HEADER_BYTES + unat (te_positions_offset trm) + 16, sit_index = 0\<rparr>"

definition YAP_V2_position_iterator_next ::
  "YAP_V2_POSITION_ITERATOR \<Rightarrow> (YAP_V2_POSITION \<times> YAP_V2_POSITION_ITERATOR) outcome" where
  "YAP_V2_position_iterator_next it =
     (let positions = size_sub (unat (te_positions_bytes (sit_term it))) 16 div 8;
          data = drop (sit_offset it) (lx_maps (sit_segment it) ! 2) in
      if sit_index it \<ge> positions then Inl YAP_V2_OUT_OF_RANGE
      else Inr (\<lparr>pos_field = get_u32 data, pos_position = get_u32 (drop 4 data)\<rparr>,
                it\<lparr>sit_offset := sit_offset it + 8, sit_index := sit_index it + 1\<rparr>))"

definition YAP_V2_posting_position_at ::
  "YAP_V2_LEXICAL_SEGMENT \<Rightarrow> YAP_V2_TERM_ENTRY \<Rightarrow> YAP_V2_POSTING \<Rightarrow> nat \<Rightarrow> YAP_V2_POSITION outcome"
where
  "YAP_V2_posting_position_at segment trm posting index =
     (if index \<ge> unat (po_position_count posting) \<or>
         unat (po_position_offset posting) > SIZE_MAX - index then Inl YAP_V2_OUT_OF_RANGE
      else
        (let offset = (YAP_V2_FILE_HEADER_BYTES + unat (te_positions_offset trm) + 16 +
               (unat (po_position_offset posting) + index) * 8) mod 2 ^ 64 in
         if \<not> range_valid offset 8 (length (lx_maps segment ! 2)) then Inl YAP_V2_INVALID_FORMAT
         else
           (let data = drop offset (lx_maps segment ! 2) in
            Inr \<lparr>pos_field = get_u32 data, pos_position = get_u32 (drop 4 data)\<rparr>)))"

subsection \<open>Term order and binary search\<close>

lemma term_compare_simps [simp]:
  "term_compare [] [] = 0" "term_compare [] (b # bs) = -1" "term_compare (a # as) [] = 1"
  "term_compare (a # as) (b # bs) =
     (if a = b then term_compare as bs else if a < b then -1 else 1)"
  by (simp_all add: term_compare_def Let_def)

lemma term_compare_less: "term_compare a b < 0 \<longleftrightarrow> a < b"
proof (induction a arbitrary: b)
  case Nil
  show ?case by (cases b) simp_all
next
  case (Cons x xs)
  show ?case by (cases b) (auto simp: Cons.IH)
qed

lemma term_compare_eq: "term_compare a b = 0 \<longleftrightarrow> a = b"
proof (induction a arbitrary: b)
  case Nil
  show ?case by (cases b) simp_all
next
  case (Cons x xs)
  show ?case by (cases b) (auto simp: Cons.IH)
qed

lemmas term_compare_order = term_compare_less term_compare_eq

definition te_sorted :: "YAP_V2_TERM_ENTRY list \<Rightarrow> bool" where
  "te_sorted es \<longleftrightarrow> sorted_wrt (<) (map te_term es)"

text \<open>The tests inside the search loop are the three outcomes of \<open>term_compare\<close>.\<close>

lemma search_order:
  fixes a b :: bytes
  defines "common \<equiv> min (length a) (length b)"
  defines "order \<equiv> memcmp (take common a) (take common b)"
  shows "order = 0 \<and> length a = length b \<longleftrightarrow> a = b"
    and "a \<noteq> b \<Longrightarrow> order < 0 \<or> (order = 0 \<and> length a < length b) \<longleftrightarrow> a < b"
  using term_compare_order[of a b]
  by (auto simp: term_compare_def Let_def order_def common_def split: if_splits)

lemma find_loop_step:
  "find_loop terms trm low high =
     (if low < high
      then
        (let middle = low + (high - low) div 2 in
         if te_term (terms ! middle) = trm then Some middle
         else if te_term (terms ! middle) < trm then find_loop terms trm (middle + 1) high
         else find_loop terms trm low middle)
      else None)"
proof -
  have "find_loop terms trm low high =
     (if low < high
      then
        (let middle = low + (high - low) div 2 in
         if te_term (terms ! middle) = trm then Some middle
         else if memcmp (take (min (length (te_term (terms ! middle))) (length trm)) (te_term (terms ! middle)))
                    (take (min (length (te_term (terms ! middle))) (length trm)) trm) < 0 \<or>
                 memcmp (take (min (length (te_term (terms ! middle))) (length trm)) (te_term (terms ! middle)))
                    (take (min (length (te_term (terms ! middle))) (length trm)) trm) = 0 \<and>
                    length (te_term (terms ! middle)) < length trm
           then find_loop terms trm (middle + 1) high
         else find_loop terms trm low middle)
      else None)"
    unfolding find_loop.simps[of terms trm low high] Let_def search_order(1) by (rule refl)
  then show ?thesis
    using search_order(2)[of "te_term (terms ! (low + (high - low) div 2))" trm]
    by (auto simp: Let_def)
qed

lemma find_loop_correct:
  "te_sorted terms \<Longrightarrow> high \<le> length terms \<Longrightarrow>
   (case find_loop terms trm low high of
      Some m \<Rightarrow> low \<le> m \<and> m < high \<and> te_term (terms ! m) = trm
    | None \<Rightarrow> \<forall>m. low \<le> m \<and> m < high \<longrightarrow> te_term (terms ! m) \<noteq> trm)"
proof (induction "high - low" arbitrary: low high rule: less_induct)
  case less
  show ?case
  proof (cases "low < high")
    case False
    then show ?thesis by (subst find_loop_step) auto
  next
    case True
    define mid where "mid = low + (high - low) div 2"
    have mid: "low \<le> mid" "mid < high"
      using middle_bounds[OF True] by (simp_all add: mid_def)
    have srt: "te_term (terms ! i) < te_term (terms ! j)" if "i < j" "j < length terms" for i j
      using less.prems(1) that by (simp add: te_sorted_def sorted_wrt_iff_nth_less)
    consider "te_term (terms ! mid) = trm" | "te_term (terms ! mid) < trm" | "trm < te_term (terms ! mid)"
      using less_linear by blast
    then show ?thesis
    proof cases
      case 1
      then show ?thesis using mid True by (subst find_loop_step) (simp add: Let_def mid_def)
    next
      case 2
      have eq: "find_loop terms trm low high = find_loop terms trm (mid + 1) high"
        using 2 True by (subst find_loop_step) (auto simp add: Let_def mid_def)
      have out: "te_term (terms ! m) \<noteq> trm" if "m \<le> mid" for m
      proof (cases "m = mid")
        case False
        then have "te_term (terms ! m) < te_term (terms ! mid)"
          using that mid less.prems(2) by (intro srt) auto
        with 2 show ?thesis by auto
      qed (use 2 in auto)
      have "case find_loop terms trm (mid + 1) high of
          Some m \<Rightarrow> mid + 1 \<le> m \<and> m < high \<and> te_term (terms ! m) = trm
        | None \<Rightarrow> \<forall>m. mid + 1 \<le> m \<and> m < high \<longrightarrow> te_term (terms ! m) \<noteq> trm"
        using mid by (intro less.hyps less.prems) auto
      then show ?thesis
        using mid out unfolding eq by (auto split: option.splits) (metis Suc_leI not_less)
    next
      case 3
      have eq: "find_loop terms trm low high = find_loop terms trm low mid"
        using 3 True by (subst find_loop_step) (auto simp add: Let_def mid_def)
      have out: "te_term (terms ! m) \<noteq> trm" if "mid \<le> m" "m < high" for m
      proof (cases "m = mid")
        case False
        then have "te_term (terms ! mid) < te_term (terms ! m)"
          using that mid less.prems(2) by (intro srt) auto
        with 3 show ?thesis by auto
      qed (use 3 in auto)
      have "case find_loop terms trm low mid of
          Some m \<Rightarrow> low \<le> m \<and> m < mid \<and> te_term (terms ! m) = trm
        | None \<Rightarrow> \<forall>m. low \<le> m \<and> m < mid \<longrightarrow> te_term (terms ! m) \<noteq> trm"
        using mid less.prems by (intro less.hyps) auto
      then show ?thesis
        using mid out unfolding eq by (auto split: option.splits) (metis not_less)
    qed
  qed
qed

lemma find_unique:
  assumes "te_sorted es" and "m < length es" and "te_term (es ! m) = t"
  shows "List.find (\<lambda>e. te_term e = t) es = Some (es ! m)"
proof -
  have "te_term (es ! j) \<noteq> t" if "j < m" for j
    using assms that unfolding te_sorted_def sorted_wrt_iff_nth_less by fastforce
  then show ?thesis
    using assms(2,3) unfolding find_Some_iff by blast
qed

lemma term_find_linear:
  assumes "te_sorted (lx_terms seg)"
  shows "YAP_V2_lexical_term_find seg (View t) = List.find (\<lambda>e. te_term e = t) (lx_terms seg)"
proof (cases "find_loop (lx_terms seg) t 0 (length (lx_terms seg))")
  case None
  then have "\<forall>m < length (lx_terms seg). te_term (lx_terms seg ! m) \<noteq> t"
    using find_loop_correct[OF assms, where high = "length (lx_terms seg)" and trm = t and low = 0] by auto
  then have "\<not> (\<exists>e. e \<in> set (lx_terms seg) \<and> te_term e = t)"
    by (auto simp: in_set_conv_nth)
  then show ?thesis
    using None by (simp add: YAP_V2_lexical_term_find_def find_None_iff[THEN iffD2])
next
  case (Some m)
  then show ?thesis
    using find_loop_correct[OF assms, where high = "length (lx_terms seg)" and trm = t and low = 0] find_unique[OF assms, of m t]
    by (simp add: YAP_V2_lexical_term_find_def)
qed

lemma read_terms_sorted:
  "read_terms data sz n previous offset = Inr (es, offset') \<Longrightarrow>
     te_sorted es \<and> length es = n \<and> (\<forall>p. previous = Some p \<longrightarrow> (\<forall>e\<in>set es. te_term p < te_term e))"
proof (induction n arbitrary: previous offset es)
  case 0
  then show ?case by (simp add: te_sorted_def)
next
  case (Suc n)
  then obtain e rest off where es: "es = e # rest"
    and rest: "read_terms data sz n (Some e) off = Inr (rest, offset')"
    and prev: "\<forall>p. previous = Some p \<longrightarrow> \<not> term_compare (te_term p) (te_term e) \<ge> 0"
    by (auto simp: Let_def result_simps split: if_splits option.splits)
  have "te_sorted rest" "length rest = n" "\<forall>x\<in>set rest. te_term e < te_term x"
    using Suc.IH[OF rest] by auto
  moreover have "\<forall>p. previous = Some p \<longrightarrow> te_term p < te_term e"
    using prev term_compare_less by (metis not_less)
  ultimately show ?case
    by (auto simp: es te_sorted_def dest: order.strict_trans)
qed

subsection \<open>What validation establishes\<close>

definition posting_list :: "bytes \<Rightarrow> nat \<Rightarrow> nat \<Rightarrow> YAP_V2_POSTING list" where
  "posting_list postings at n =
     map (\<lambda>i. parse_posting (drop (at + i * POSTING_BYTES) postings)) [0..<n]"

lemma posting_list_Suc:
  "posting_list postings at (Suc n) =
     parse_posting (drop at postings) # posting_list postings (at + POSTING_BYTES) n"
  unfolding posting_list_def upt_conv_Cons[OF zero_less_Suc]
  by (simp add: map_Suc_upt[symmetric] add.assoc del: upt_Suc)

lemma length_posting_list [simp]: "length (posting_list postings at n) = n"
  by (simp add: posting_list_def)

definition posting_before :: "YAP_V2_POSTING \<Rightarrow> YAP_V2_POSTING \<Rightarrow> bool" where
  "posting_before p q \<longleftrightarrow> po_object_type p < po_object_type q \<or>
     (po_object_type p = po_object_type q \<and> po_object_ordinal p < po_object_ordinal q)"

lemma posting_before_trans: "posting_before p q \<Longrightarrow> posting_before q r \<Longrightarrow> posting_before p r"
  by (auto simp: posting_before_def)

definition posting_valid :: "u64 \<Rightarrow> u64 \<Rightarrow> YAP_V2_POSTING \<Rightarrow> bool" where
  "posting_valid document_count passage_count p \<longleftrightarrow>
     (po_object_type p = YAP_V2_LEXICAL_DOCUMENT \<and> po_object_ordinal p < document_count \<or>
      po_object_type p = YAP_V2_LEXICAL_PASSAGE \<and> po_object_ordinal p < passage_count) \<and>
     posting_frequency p = ucast (po_position_count p) \<and> posting_frequency p \<noteq> 0"

lemma validate_postings_Inr:
  "validate_postings dc pc postings positions at cursor records n previous = Inr () \<Longrightarrow>
     sorted_wrt posting_before (posting_list postings at n) \<and>
     (\<forall>p\<in>set (posting_list postings at n). posting_valid dc pc p \<and>
        (\<forall>q. previous = Some q \<longrightarrow> posting_before q p))"
proof (induction n arbitrary: at previous)
  case 0
  show ?case by (simp add: posting_list_def)
next
  case (Suc n)
  let ?p = "parse_posting (drop at postings)"
  have valid: "posting_valid dc pc ?p" and prev: "\<forall>q. previous = Some q \<longrightarrow> posting_before q ?p"
    and rest: "validate_postings dc pc postings positions (at + POSTING_BYTES) cursor records n
        (Some ?p) = Inr ()"
    using Suc.prems
    by (auto simp: Let_def result_simps posting_valid_def posting_before_def not_le not_less
        split: if_splits option.splits)
  show ?case
    using Suc.IH[OF rest] valid prev unfolding posting_list_Suc
    by (auto intro: posting_before_trans)
qed


lemma unat_ucast_32_64: "unat (ucast (w :: u32) :: u64) = unat w"
proof -
  have "unat w < 2 ^ 64"
    using unsigned_less[of w, where 'a = nat] by simp
  then show ?thesis by (simp add: unsigned_ucast_eq take_bit_nat_eq_self)
qed

lemma lift_status_Inr [result_simps]: "lift_status r = Inr x \<longleftrightarrow> r = Inr x"
  by (cases r) (simp_all add: lift_status_def)

lemma lift_status_Inl [result_simps]: "lift_status r = Inl f \<longleftrightarrow> (\<exists>s. r = Inl s \<and> f = Fault s)"
  by (cases r) (auto simp add: lift_status_def)

lemma block_count_word:
  assumes "unat (df :: u64) \<le> (SIZE_MAX - 20) div POSTING_BYTES"
  shows "unat ((df + word_of_nat YAP_V2_POSTINGS_BLOCK_SIZE - 1) div
      word_of_nat YAP_V2_POSTINGS_BLOCK_SIZE) = block_count (unat df)"
proof -
  have "df + word_of_nat YAP_V2_POSTINGS_BLOCK_SIZE - 1 = 127 + df"
    by (simp add: lexical_constants)
  moreover have "unat (127 + df) = 127 + unat df"
    using assms by (simp add: unat_word_ariths POSTING_BYTES_def)
  ultimately show ?thesis
    by (simp add: unat_div block_count_def lexical_constants)
qed

lemma postings_bytes_word:
  assumes "unat df \<le> (SIZE_MAX - 20) div POSTING_BYTES"
    and "ucast (bc :: u32) = (df + word_of_nat YAP_V2_POSTINGS_BLOCK_SIZE - 1) div
      (word_of_nat YAP_V2_POSTINGS_BLOCK_SIZE :: u64)"
  shows "unat (20 + df * word_of_nat POSTING_BYTES + ucast bc * word_of_nat BLOCK_BYTES :: u64) =
    20 + unat df * POSTING_BYTES + unat bc * BLOCK_BYTES"
proof -
  have "unat (ucast bc :: u64) = unat bc"
    by (rule unat_ucast_32_64)
  then have bc: "unat bc = block_count (unat df)"
    using block_count_word[OF assms(1)] assms(2) by simp
  have "unat bc < 2 ^ 32" using unsigned_less[of bc, where 'a = nat] by simp
  then have "unat df < 2 ^ 39"
    unfolding bc by (simp add: block_count_def lexical_constants)
  then show ?thesis
    using \<open>unat bc < 2 ^ 32\<close> \<open>unat (ucast bc :: u64) = unat bc\<close>
    by (simp add: unat_word_ariths POSTING_BYTES_def BLOCK_BYTES_def)
qed

lemma validate_term_Inr:
  assumes "validate_term dc pc postings positions ti e pcur qcur = Inr records"
    and "YAP_V2_FILE_HEADER_BYTES \<le> pcur"
  defines "at \<equiv> YAP_V2_FILE_HEADER_BYTES + unat (te_postings_offset e) + 20"
  shows "at + unat (te_document_frequency e) * POSTING_BYTES \<le> length postings \<and>
    validate_postings dc pc postings positions at qcur records (unat (te_document_frequency e)) None = Inr ()"
proof -
  let ?df = "te_document_frequency e"
  define bc where "bc = get_u32 (drop 16 (drop pcur postings))"
  note parts = assms(1,2)[unfolded validate_term_def Let_def]
  have at: "at = pcur + 20" "unat (te_postings_offset e) = pcur - YAP_V2_FILE_HEADER_BYTES"
    and rng: "range_valid pcur (unat (te_postings_bytes e)) (length postings)"
    using parts by (simp_all add: at_def result_simps split: if_splits)
  have bc: "ucast bc = (?df + word_of_nat YAP_V2_POSTINGS_BLOCK_SIZE - 1) div
        word_of_nat YAP_V2_POSTINGS_BLOCK_SIZE"
    and df: "unat ?df \<le> (SIZE_MAX - 20) div POSTING_BYTES"
    using parts by (simp_all add: bc_def result_simps split: if_splits)
  have sz: "20 + ?df * word_of_nat POSTING_BYTES + ucast bc * word_of_nat BLOCK_BYTES = te_postings_bytes e"
    using parts by (simp add: bc_def result_simps split: if_splits)
  have v: "validate_postings dc pc postings positions (pcur + 20) qcur records (unat ?df) None = Inr ()"
    using parts by (auto simp add: bc_def result_simps split: if_splits)
  from v sz rng at postings_bytes_word[OF df bc] show ?thesis
    by (auto simp: range_valid_def)
qed

lemma validate_terms_Inr:
  "validate_terms dc pc postings positions ti es pcur qcur a b = Inr r \<Longrightarrow>
   YAP_V2_FILE_HEADER_BYTES \<le> pcur \<Longrightarrow> e \<in> set es \<Longrightarrow>
   \<exists>ti pcur qcur records. YAP_V2_FILE_HEADER_BYTES \<le> pcur \<and>
     validate_term dc pc postings positions ti e pcur qcur = Inr records"
proof (induction es arbitrary: ti pcur qcur a b)
  case Nil
  then show ?case by simp
next
  case (Cons x es)
  then obtain records where v: "validate_term dc pc postings positions ti x pcur qcur = Inr records"
    and rest: "validate_terms dc pc postings positions (Suc ti) es
         (pcur + unat (te_postings_bytes x)) (qcur + unat (te_positions_bytes x))
         (a + te_document_frequency x) (b + records) = Inr r"
    by (auto simp: result_simps)
  show ?case
  proof (cases "e = x")
    case True
    with v Cons.prems(2) show ?thesis by blast
  next
    case False
    then show ?thesis
      using Cons.IH[OF rest] Cons.prems by simp
  qed
qed

subsection \<open>Iteration enumerates the postings\<close>

fun drain :: "nat \<Rightarrow> YAP_V2_POSTING_ITERATOR \<Rightarrow> YAP_V2_POSTING list" where
  "drain 0 it = []"
| "drain (Suc n) it =
     (case YAP_V2_posting_iterator_next it of Inl _ \<Rightarrow> [] | Inr (p, it) \<Rightarrow> p # drain n it)"

definition segment_postings :: "YAP_V2_LEXICAL_SEGMENT \<Rightarrow> YAP_V2_TERM_ENTRY \<Rightarrow> YAP_V2_POSTING list" where
  "segment_postings seg e =
     drain (Suc (unat (te_document_frequency e))) (YAP_V2_posting_iterator_init seg e)"

lemma drain_list:
  "pit_index it \<le> unat (te_document_frequency (pit_term it)) \<Longrightarrow>
   unat (te_document_frequency (pit_term it)) - pit_index it = n \<Longrightarrow>
   drain (Suc n) it = posting_list (lx_maps (pit_segment it) ! 1) (pit_offset it) n"
proof (induction n arbitrary: it)
  case 0
  then show ?case by (simp add: YAP_V2_posting_iterator_next_def posting_list_def)
next
  case (Suc n)
  let ?it = "it\<lparr>pit_offset := pit_offset it + POSTING_BYTES, pit_index := pit_index it + 1\<rparr>"
  have "drain (Suc n) ?it =
      posting_list (lx_maps (pit_segment ?it) ! 1) (pit_offset ?it) n"
    using Suc.prems by (intro Suc.IH) auto
  then show ?case
    using Suc.prems unfolding posting_list_Suc drain.simps(2)[of "Suc n" it]
    by (simp add: YAP_V2_posting_iterator_next_def del: drain.simps)
qed

lemma segment_postings_list:
  "segment_postings seg e = posting_list (lx_maps seg ! 1)
     (YAP_V2_FILE_HEADER_BYTES + unat (te_postings_offset e) + 20) (unat (te_document_frequency e))"
  unfolding segment_postings_def
  by (subst drain_list) (auto simp: YAP_V2_posting_iterator_init_def Let_def)

definition entry_wellformed :: "YAP_V2_LEXICAL_SEGMENT \<Rightarrow> YAP_V2_TERM_ENTRY \<Rightarrow> bool" where
  "entry_wellformed seg e \<longleftrightarrow>
     YAP_V2_FILE_HEADER_BYTES + unat (te_postings_offset e) + 20 +
       unat (te_document_frequency e) * POSTING_BYTES \<le> length (lx_maps seg ! 1) \<and>
     sorted_wrt posting_before (segment_postings seg e) \<and>
     (\<forall>p\<in>set (segment_postings seg e).
        posting_valid (lx_document_count seg) (lx_passage_count seg) p)"

lemma segment_open_Inr:
  assumes "YAP_V2_lexical_segment_open mem ios fs dir g = Inr seg"
  shows "te_sorted (lx_terms seg) \<and> (\<forall>e\<in>set (lx_terms seg). entry_wellformed seg e)"
proof -
  obtain maps generation terms seg0 where
    t: "validate_term_stream mem (maps ! 0) = Inr terms"
    and p: "validate_payloads \<lparr>lx_maps = maps, lx_generation = 0, lx_document_count = 0,
         lx_passage_count = 0, lx_posting_count = 0, lx_position_count = 0,
         lx_field_token_count = [0, 0, 0], lx_terms = terms\<rparr> = Inr seg0"
    and seg: "seg = seg0\<lparr>lx_generation := generation\<rparr>"
    using assms unfolding YAP_V2_lexical_segment_open_def
    by (auto simp: result_simps simp del: map_components.simps)
  have "te_sorted terms"
    using t by (auto simp: validate_term_stream_def Let_def result_simps split: if_splits
        dest: read_terms_sorted)
  moreover obtain r where seg0: "lx_maps seg0 = maps" "lx_terms seg0 = terms"
    and v: "validate_terms (lx_document_count seg0) (lx_passage_count seg0) (maps ! 1) (maps ! 2) 0
         terms (YAP_V2_FILE_HEADER_BYTES + 56) (YAP_V2_FILE_HEADER_BYTES + 12) 0 0 = Inr r"
    using p by (auto simp: validate_payloads_def Let_def result_simps split: if_splits)
  have "entry_wellformed seg e" if e: "e \<in> set terms" for e
  proof -
    obtain ti pcur qcur records where "YAP_V2_FILE_HEADER_BYTES \<le> pcur"
      "validate_term (lx_document_count seg0) (lx_passage_count seg0) (maps ! 1) (maps ! 2) ti e
         pcur qcur = Inr records"
      using validate_terms_Inr[OF v _ e] by auto
    from validate_term_Inr[OF this(2,1)] show ?thesis
      using validate_postings_Inr
      by (fastforce simp: entry_wellformed_def segment_postings_list seg seg0)
  qed
  ultimately show ?thesis by (simp add: seg seg0)
qed

subsection \<open>Frequency per object type\<close>

lemma type_loop_correct:
  assumes "\<And>i j. i \<le> j \<Longrightarrow> j < n \<Longrightarrow> po_object_type (posting_list postings at n ! i) \<le>
      po_object_type (posting_list postings at n ! j)"
  shows "low \<le> high \<Longrightarrow> high \<le> n \<Longrightarrow>
    low \<le> type_loop postings at low high \<and> type_loop postings at low high \<le> high \<and>
    (\<forall>i. low \<le> i \<and> i < high \<longrightarrow>
      (po_object_type (posting_list postings at n ! i) < YAP_V2_LEXICAL_PASSAGE \<longleftrightarrow>
       i < type_loop postings at low high))"
proof (induction "high - low" arbitrary: low high rule: less_induct)
  case less
  let ?ty = "\<lambda>i. po_object_type (posting_list postings at n ! i)"
  show ?case
  proof (cases "low < high")
    case False
    then show ?thesis using less.prems by (subst (1 2 3) type_loop.simps) auto
  next
    case True
    define mid where "mid = low + (high - low) div 2"
    have mid: "low \<le> mid" "mid < high"
      using middle_bounds[OF True] by (simp_all add: mid_def)
    have nth: "?ty mid = po_object_type (parse_posting (drop (at + mid * POSTING_BYTES) postings))"
      using mid less.prems by (simp add: posting_list_def)
    show ?thesis
    proof (cases "?ty mid < YAP_V2_LEXICAL_PASSAGE")
      case True
      then have eq: "type_loop postings at low high = type_loop postings at (mid + 1) high"
        using \<open>low < high\<close> nth by (subst type_loop.simps) (simp add: Let_def mid_def)
      have low_part: "?ty i < YAP_V2_LEXICAL_PASSAGE" if "i \<le> mid" for i
        using assms[OF that] True mid less.prems by (meson order.strict_trans1 order.strict_trans2)
      have ih: "mid + 1 \<le> type_loop postings at (mid + 1) high \<and>
          type_loop postings at (mid + 1) high \<le> high \<and>
          (\<forall>i. mid + 1 \<le> i \<and> i < high \<longrightarrow>
            (?ty i < YAP_V2_LEXICAL_PASSAGE \<longleftrightarrow> i < type_loop postings at (mid + 1) high))"
        using mid less.prems by (intro less.hyps) auto
      have "?ty i < YAP_V2_LEXICAL_PASSAGE \<longleftrightarrow> i < type_loop postings at (mid + 1) high"
        if "i < high" for i
        using low_part[of i] ih that by (cases "i \<le> mid") auto
      then show ?thesis unfolding eq using ih mid by auto
    next
      case False
      then have eq: "type_loop postings at low high = type_loop postings at low mid"
        using \<open>low < high\<close> nth by (subst type_loop.simps) (simp add: Let_def mid_def)
      have high_part: "\<not> ?ty i < YAP_V2_LEXICAL_PASSAGE" if "mid \<le> i" "i < high" for i
      proof -
        have "?ty mid \<le> ?ty i"
          using assms[OF that(1)] that less.prems by auto
        with False show ?thesis by auto
      qed
      have ih: "low \<le> type_loop postings at low mid \<and> type_loop postings at low mid \<le> mid \<and>
          (\<forall>i. low \<le> i \<and> i < mid \<longrightarrow>
            (?ty i < YAP_V2_LEXICAL_PASSAGE \<longleftrightarrow> i < type_loop postings at low mid))"
        using mid less.prems by (intro less.hyps) auto
      have "?ty i < YAP_V2_LEXICAL_PASSAGE \<longleftrightarrow> i < type_loop postings at low mid"
        if "low \<le> i" "i < high" for i
        using high_part[of i] ih that by (cases "i < mid") auto
      then show ?thesis unfolding eq using ih mid by auto
    qed
  qed
qed

lemma split_count:
  "(\<And>i. i < length xs \<Longrightarrow> P (xs ! i) \<longleftrightarrow> i < r) \<Longrightarrow> r \<le> length xs \<Longrightarrow>
     length (filter P xs) = r \<and> length (filter (\<lambda>x. \<not> P x) xs) = length xs - r"
proof -
  assume P: "\<And>i. i < length xs \<Longrightarrow> P (xs ! i) \<longleftrightarrow> i < r" and r: "r \<le> length xs"
  have "{i. i < length xs \<and> P (xs ! i)} = {..<r}"
    using P r by auto
  then have "length (filter P xs) = r"
    by (simp add: length_filter_conv_card)
  then show ?thesis
    using sum_length_filter_compl[of P xs] by linarith
qed

lemma type_frequency_entry:
  assumes wf: "entry_wellformed seg e"
    and ty: "ty = YAP_V2_LEXICAL_DOCUMENT \<or> ty = YAP_V2_LEXICAL_PASSAGE"
  shows "YAP_V2_lexical_term_type_frequency seg e ty =
    Inr (word_of_nat (length (filter (\<lambda>p. po_object_type p = ty) (segment_postings seg e))))"
proof -
  let ?L = "segment_postings seg e" and ?n = "unat (te_document_frequency e)"
  let ?at = "YAP_V2_FILE_HEADER_BYTES + unat (te_postings_offset e) + 20"
  let ?r = "type_loop (lx_maps seg ! 1) ?at 0 ?n"
  have len: "length ?L = ?n" by (simp add: segment_postings_list)
  have doc: "po_object_type p < YAP_V2_LEXICAL_PASSAGE \<longleftrightarrow> po_object_type p = YAP_V2_LEXICAL_DOCUMENT"
    and psg: "\<not> po_object_type p < YAP_V2_LEXICAL_PASSAGE \<longleftrightarrow> po_object_type p = YAP_V2_LEXICAL_PASSAGE"
    if "p \<in> set ?L" for p
    using wf that by (auto simp: entry_wellformed_def posting_valid_def lexical_constants)
  have mono: "po_object_type (?L ! i) \<le> po_object_type (?L ! j)" if "i \<le> j" "j < ?n" for i j
  proof (cases "i = j")
    case False
    then have "posting_before (?L ! i) (?L ! j)"
      using wf that len by (auto simp: entry_wellformed_def sorted_wrt_iff_nth_less)
    then show ?thesis by (auto simp: posting_before_def)
  qed simp
  have loop: "?r \<le> ?n"
    "\<And>i. i < ?n \<Longrightarrow> po_object_type (?L ! i) < YAP_V2_LEXICAL_PASSAGE \<longleftrightarrow> i < ?r"
    using type_loop_correct[of ?n "lx_maps seg ! 1" ?at 0 ?n] mono
    by (simp_all add: segment_postings_list)
  have cnt: "length (filter (\<lambda>p. po_object_type p < YAP_V2_LEXICAL_PASSAGE) ?L) = ?r \<and>
      length (filter (\<lambda>p. \<not> po_object_type p < YAP_V2_LEXICAL_PASSAGE) ?L) = length ?L - ?r"
    by (rule split_count) (use loop len in auto)
  have "filter (\<lambda>p. po_object_type p = YAP_V2_LEXICAL_DOCUMENT) ?L =
      filter (\<lambda>p. po_object_type p < YAP_V2_LEXICAL_PASSAGE) ?L"
    "filter (\<lambda>p. po_object_type p = YAP_V2_LEXICAL_PASSAGE) ?L =
      filter (\<lambda>p. \<not> po_object_type p < YAP_V2_LEXICAL_PASSAGE) ?L"
    using doc psg by (auto intro!: filter_cong)
  moreover have "te_document_frequency e - word_of_nat ?r = word_of_nat (?n - ?r)"
    using loop(1) by simp
  moreover have "YAP_V2_LEXICAL_PASSAGE \<noteq> YAP_V2_LEXICAL_DOCUMENT"
    by (simp add: lexical_constants)
  ultimately show ?thesis
    using ty cnt len unfolding YAP_V2_lexical_term_type_frequency_def Let_def by auto
qed
subsection \<open>A position offset that wraps\<close>

lemma position_address_wraps:
  assumes "po_position_offset p = - word_of_nat k" and "k < 2 ^ 32" and "cursor + 16 < 8 * k"
  shows "position_address cursor p 0 = 2 ^ 64 + cursor + 16 - 8 * k"
proof -
  have k: "0 < k" using assms(3) by simp
  have "(word_of_nat (2 ^ 64 - k) :: u64) + word_of_nat k = word_of_nat (2 ^ 64)"
    using assms(2) by (simp only: of_nat_add[symmetric]) simp
  also have "(word_of_nat (2 ^ 64) :: u64) = 0"
    by (rule word_of_nat_eq_0_iff[THEN iffD2]) simp
  finally have "po_position_offset p + word_of_nat k = word_of_nat (2 ^ 64 - k) + word_of_nat k"
    using assms(1) by simp
  then have "po_position_offset p = word_of_nat (2 ^ 64 - k)"
    by (rule add_right_imp_eq)
  then have "unat (po_position_offset p) = 2 ^ 64 - k"
    using k by (simp add: unat_of_nat)
  moreover have "(2 ^ 64 - k) mod 2 ^ 64 = 2 ^ 64 - k"
    using k by (intro mod_less) simp
  moreover have "cursor + 16 + (2 ^ 64 - k) * 8 = (2 ^ 64 + cursor + 16 - 8 * k) + 7 * 2 ^ 64"
    using assms(2,3) by simp
  moreover have "2 ^ 64 + cursor + 16 - 8 * k < 2 ^ 64"
    using assms(3) by simp
  ultimately show ?thesis
    unfolding position_address_def by (metis add.right_neutral mod_less mod_mult_self3 add.commute)
qed

lemma validate_postings_unsafe:
  assumes p: "p = parse_posting (drop at postings)"
    and "po_object_type p = YAP_V2_LEXICAL_DOCUMENT" and "po_object_ordinal p < dc"
    and "posting_frequency p = ucast (po_position_count p)"
    and k: "po_position_count p = word_of_nat k" "k < 2 ^ 32"
    and off: "po_position_offset p = - word_of_nat k"
    and small: "cursor + 16 < 8 * k" and len: "length positions \<le> 2 ^ 63"
  shows "validate_postings dc pc postings positions at cursor records (Suc n) None = Inl Out_of_bounds"
proof -
  have "unat (po_position_count p) = k"
    using k by (simp add: unat_of_nat take_bit_nat_eq_self)
  moreover from this have "(ucast (po_position_count p) :: u64) = word_of_nat k"
    using k(2) by (simp add: word_unat_eq_iff unat_ucast_32_64 unat_of_nat)
  moreover have "(word_of_nat k :: u64) \<noteq> 0"
    using k(2) small by (simp add: word_unat_eq_iff unat_of_nat)
  moreover have "position_address cursor p 0 + 8 > length positions"
    using position_address_wraps[OF off k(2) small] k(2) len small by simp
  moreover obtain m where "k = Suc m" using small by (cases k) auto
  ultimately show ?thesis
    using assms(2-4) off by (simp add: p[symmetric] Let_def lexical_constants)
qed

end
