(* ===== verification/Lexical_Image.thy ===== *)
theory Lexical_Image
  imports Lexical_Reader
begin

section \<open>What the lexical writer writes\<close>

text \<open>
  The bytes that the writer of \<^verbatim>\<open>components/yappo_lexical_v2.c\<close> produces, as plain functions
  of the grouped occurrences: one encoder per record (\<open>enc_positions\<close>, \<open>enc_posting\<close>, \<open>enc_block\<close> and
  the term entries) and the lemmas that every append of the model, when it succeeds, extends its
  buffer by exactly that image.  \<open>build_payloads_Inr\<close> gives the three payloads of a segment.
\<close>

subsection \<open>Appending\<close>

lemma lex_append_cases:
  assumes "buffer_inv b"
  shows "case lex_append mem b d of
      Inr b' \<Rightarrow> buffer_inv b' \<and> buf_data b' = buf_data b @ d
    | Inl s \<Rightarrow> s \<noteq> YAP_V2_OK \<and>
        (length (buf_data b) + length d \<le> YAP_V2_MAX_SEGMENT_PAYLOAD_BYTES \<longrightarrow> (\<exists>k. \<not> mem k))"
proof -
  let ?r = "length (buf_data b) + length d"
  let ?c = "if buf_capacity b = 0 then 256 else buf_capacity b"
  have "?r \<le> buffer_grow ?c ?r \<and> ?c \<le> buffer_grow ?c ?r \<and>
      buffer_grow ?c ?r \<le> YAP_V2_MAX_SEGMENT_PAYLOAD_BYTES"
    if "?r \<le> YAP_V2_MAX_SEGMENT_PAYLOAD_BYTES"
    using that assms max_payload_fits by (intro buffer_grow_bounds) (auto simp: buffer_inv_def)
  then show ?thesis
    using assms max_payload_fits
    by (auto simp: lex_append_def Let_def buffer_inv_def storage_limits)
qed

lemma appends_lex [appends_intros]: "appends (\<lambda>b. lex_append mem b d) d"
proof (rule appendsI)
  fix b b' assume "buffer_inv b" "lex_append mem b d = Inr b'"
  then show "buffer_inv b' \<and> buf_data b' = buf_data b @ d"
    using lex_append_cases[where b = b and mem = mem and d = d] by simp
qed

lemma appends_lex_u32 [appends_intros]: "appends (\<lambda>b. lex_append_u32 mem b v) (put_u32_le v)"
  unfolding lex_append_u32_def put_u32_eq by (rule appends_lex)

lemma appends_lex_u64 [appends_intros]: "appends (\<lambda>b. lex_append_u64 mem b v) (put_u64_le v)"
  unfolding lex_append_u64_def put_u64_eq by (rule appends_lex)

text \<open>A failed append of four bytes fails again, for any four bytes.\<close>

definition stuck :: "(nat \<Rightarrow> bool) \<Rightarrow> YAP_V2_BUFFER \<Rightarrow> YAP_V2_STATUS \<Rightarrow> bool" where
  "stuck mem b s \<longleftrightarrow> s \<noteq> YAP_V2_OK \<and> (\<forall>v. lex_append_u32 mem b v = Inl s)"

lemma stuckI: "lex_append_u32 mem b v = Inl s \<Longrightarrow> stuck mem b s"
  by (auto simp: stuck_def lex_append_u32_def lex_append_def Let_def wal32.length_put
      split: if_splits)

lemma append_positions_stuck: "stuck mem b s \<Longrightarrow> append_positions mem s b items = (s, b)"
  by (induction items) (simp_all add: stuck_def)

definition enc_positions :: "YAP_V2_LEXICAL_OCCURRENCE list \<Rightarrow> bytes" where
  "enc_positions items = concat (map (\<lambda>x. put_u32_le (occ_field x) @ put_u32_le (occ_position x)) items)"

lemma append_positions_ok:
  "append_positions mem YAP_V2_OK b items = (YAP_V2_OK, b') \<Longrightarrow> buffer_inv b \<Longrightarrow>
     buffer_inv b' \<and> buf_data b' = buf_data b @ enc_positions items"
proof (induction items arbitrary: b)
  case Nil
  then show ?case by (simp add: enc_positions_def)
next
  case (Cons x items)
  have no: "append_positions mem s c items \<noteq> (YAP_V2_OK, b')" if "lex_append_u32 mem c v = Inl s" for c s v
    using append_positions_stuck[OF stuckI[OF that]] stuckI[OF that] by (simp add: stuck_def)
  obtain b1 where b1: "lex_append_u32 mem b (occ_field x) = Inr b1"
    using Cons.prems(1) no by (cases "lex_append_u32 mem b (occ_field x)") auto
  obtain b2 where b2: "lex_append_u32 mem b1 (occ_position x) = Inr b2"
    using Cons.prems(1) no b1 by (cases "lex_append_u32 mem b1 (occ_position x)") auto
  have 1: "buffer_inv b1" "buf_data b1 = buf_data b @ put_u32_le (occ_field x)"
    using appendsD[OF appends_lex_u32 b1 Cons.prems(2)] by auto
  have 2: "buffer_inv b2" "buf_data b2 = buf_data b1 @ put_u32_le (occ_position x)"
    using appendsD[OF appends_lex_u32 b2 1(1)] by auto
  have "append_positions mem YAP_V2_OK b2 items = (YAP_V2_OK, b')"
    using Cons.prems(1) b1 b2 by simp
  from Cons.IH[OF this 2(1)] show ?case
    by (simp add: 1 2 enc_positions_def)
qed

definition enc_posting :: "nat \<Rightarrow> YAP_V2_LEXICAL_OCCURRENCE list \<Rightarrow> bytes" where
  "enc_posting k items =
     (let c = object_counts items in
      put_u32_le (occ_object_type (hd items)) @ put_u64_le (occ_object_ordinal (hd items)) @
      put_u32_le (title_tf c) @ put_u32_le (body_tf c) @ put_u32_le (passage_tf c) @
      put_u32_le (title_len c) @ put_u32_le (body_len c) @ put_u32_le (passage_len c) @
      put_u64_le (word_of_nat k) @ put_u32_le (word_of_nat (length items)))"

fun enc_postings :: "nat \<Rightarrow> YAP_V2_LEXICAL_OCCURRENCE list list \<Rightarrow> bytes" where
  "enc_postings k [] = []"
| "enc_postings k (items # objects) = enc_posting k items @ enc_postings (k + length items) objects"

lemma appends_posting: "appends (append_posting mem items (word_of_nat k)) (enc_posting k items)"
  unfolding append_posting_def enc_posting_def Let_def by (intro appends_intros)

lemma append_objects_Inr:
  "append_objects mem objects (word_of_nat k) pt postings positions = Inr (postings', positions', pt') \<Longrightarrow>
   buffer_inv postings \<Longrightarrow> buffer_inv positions \<Longrightarrow>
   buffer_inv postings' \<and> buffer_inv positions' \<and>
   buf_data postings' = buf_data postings @ enc_postings k objects \<and>
   buf_data positions' = buf_data positions @ concat (map enc_positions objects) \<and>
   pt' = pt + word_of_nat (length objects)"
proof (induction objects arbitrary: k pt postings positions)
  case Nil
  then show ?case by simp
next
  case (Cons items objects)
  obtain b s where s: "append_positions mem YAP_V2_OK positions items = (s, b)"
    by (cases "append_positions mem YAP_V2_OK positions items")
  with Cons.prems(1) have "s = YAP_V2_OK" by (auto split: if_splits)
  with s append_positions_ok Cons.prems(3)
  have b: "buffer_inv b" "buf_data b = buf_data positions @ enc_positions items" by blast+
  obtain p where p: "append_posting mem items (word_of_nat k) postings = Inr p"
    and rest: "append_objects mem objects (word_of_nat (k + length items)) (pt + 1) p b =
      Inr (postings', positions', pt')"
    using Cons.prems(1) s \<open>s = YAP_V2_OK\<close> by (auto simp: result_simps)
  have 1: "buffer_inv p" "buf_data p = buf_data postings @ enc_posting k items"
    using appendsD[OF appends_posting p Cons.prems(2)] by auto
  from Cons.IH[OF rest 1(1) b(1)] show ?case
    by (simp add: 1 b add.assoc)
qed

definition enc_block :: "nat \<Rightarrow> YAP_V2_LEXICAL_OCCURRENCE list list \<Rightarrow> bytes" where
  "enc_block k objects = (case block_entry objects of (max_tf, min_length) \<Rightarrow>
     put_u32_le (word_of_nat k) @ put_u32_le (word_of_nat (length objects)) @ put_u32_le max_tf @
     put_u32_le (if min_length = - 1 then 0 else min_length))"

function enc_blocks :: "nat \<Rightarrow> YAP_V2_LEXICAL_OCCURRENCE list list \<Rightarrow> bytes" where
  "enc_blocks k objects =
     (if objects = [] then []
      else enc_block k (take YAP_V2_POSTINGS_BLOCK_SIZE objects) @
        enc_blocks (k + length (take YAP_V2_POSTINGS_BLOCK_SIZE objects))
          (drop YAP_V2_POSTINGS_BLOCK_SIZE objects))"
  by pat_completeness auto
termination
  by (relation "measure (\<lambda>(k, objects). length objects)") (auto simp: YAP_V2_POSTINGS_BLOCK_SIZE_def)

declare enc_blocks.simps [simp del]

lemma append_block_ok:
  assumes "append_block mem k objects b = (YAP_V2_OK, b')" and b: "buffer_inv b"
  shows "buffer_inv b' \<and> buf_data b' = buf_data b @ enc_block k objects"
proof -
  obtain max_tf min_length where e: "block_entry objects = (max_tf, min_length)" by fastforce
  have no: "lex_append_u32 mem c v \<noteq> Inl YAP_V2_OK" for c v
    using stuckI[of mem c v YAP_V2_OK] by (auto simp: stuck_def)
  have "rbind (lex_append_u32 mem b (word_of_nat k)) (\<lambda>b.
      rbind (lex_append_u32 mem b (word_of_nat (length objects))) (\<lambda>b.
      rbind (lex_append_u32 mem b max_tf) (\<lambda>b.
      lex_append_u32 mem b (if min_length = - 1 then 0 else min_length)))) = Inr b'"
    using assms(1) no unfolding append_block_def e prod.case
    by (auto simp: rbind_Inr_iff split: sum.splits)
  moreover have "appends (\<lambda>b. rbind (lex_append_u32 mem b (word_of_nat k)) (\<lambda>b.
      rbind (lex_append_u32 mem b (word_of_nat (length objects))) (\<lambda>b.
      rbind (lex_append_u32 mem b max_tf) (\<lambda>b.
      lex_append_u32 mem b (if min_length = - 1 then 0 else min_length))))) (enc_block k objects)"
    unfolding enc_block_def e prod.case by (intro appends_intros)
  ultimately show ?thesis using appendsD b by blast
qed

lemma append_block_stuck:
  "append_block mem k objects b = (s, b') \<Longrightarrow> s \<noteq> YAP_V2_OK \<Longrightarrow> stuck mem b' s"
  by (auto simp: append_block_def split: prod.splits sum.splits intro: stuckI)

lemma append_block_stays: "stuck mem b s \<Longrightarrow> append_block mem k objects b = (s, b)"
  by (auto simp: append_block_def stuck_def split: prod.splits)

lemma append_blocks_stuck: "stuck mem b s \<Longrightarrow> append_blocks mem s k objects b = (s, b)"
proof (induction mem s k objects b rule: append_blocks.induct)
  case (1 mem s k objects b)
  show ?case
  proof (cases "objects = []")
    case False
    then show ?thesis
      using "1.IH"[OF False append_block_stays[OF "1.prems", symmetric] "1.prems"]
      by (subst append_blocks.simps) (simp add: append_block_stays[OF "1.prems"])
  qed (subst append_blocks.simps, simp)
qed

lemma append_blocks_ok:
  "append_blocks mem YAP_V2_OK k objects b = (YAP_V2_OK, b') \<Longrightarrow> buffer_inv b \<Longrightarrow>
     buffer_inv b' \<and> buf_data b' = buf_data b @ enc_blocks k objects"
proof (induction k objects arbitrary: b rule: enc_blocks.induct)
  case (1 k objects)
  show ?case
  proof (cases "objects = []")
    case True
    then show ?thesis
      using "1.prems" by (subst enc_blocks.simps) (simp add: append_blocks.simps)
  next
    case False
    let ?B = "take YAP_V2_POSTINGS_BLOCK_SIZE objects"
    obtain s b1 where s: "append_block mem k ?B b = (s, b1)" by fastforce
    have rest: "append_blocks mem s (k + length ?B) (drop YAP_V2_POSTINGS_BLOCK_SIZE objects) b1 =
        (YAP_V2_OK, b')"
      using "1.prems"(1) False s by (subst (asm) append_blocks.simps) simp
    have "s = YAP_V2_OK"
    proof (rule ccontr)
      assume "s \<noteq> YAP_V2_OK"
      from append_blocks_stuck[OF append_block_stuck[OF s this]] rest this show False by simp
    qed
    with s "1.prems"(2) have b1: "buffer_inv b1" "buf_data b1 = buf_data b @ enc_block k ?B"
      using append_block_ok by blast+
    from "1.IH"[OF False, of b1] rest \<open>s = YAP_V2_OK\<close> b1(1)
    have "buffer_inv b' \<and> buf_data b' = buf_data b1 @
        enc_blocks (k + length ?B) (drop YAP_V2_POSTINGS_BLOCK_SIZE objects)" by simp
    with False b1(2) show ?thesis by (subst enc_blocks.simps) simp
  qed
qed

subsection \<open>The image of a term\<close>

abbreviation "term_objects items \<equiv> object_runs items"

definition enc_posting_entry :: "nat \<Rightarrow> YAP_V2_LEXICAL_OCCURRENCE list \<Rightarrow> bytes" where
  "enc_posting_entry ord items =
     put_u64_le (word_of_nat ord) @ put_u64_le (word_of_nat (length (term_objects items))) @
     put_u32_le (word_of_nat (block_count (length (term_objects items)))) @
     enc_postings 0 (term_objects items) @ enc_blocks 0 (term_objects items)"

definition enc_position_entry :: "nat \<Rightarrow> YAP_V2_LEXICAL_OCCURRENCE list \<Rightarrow> bytes" where
  "enc_position_entry ord items =
     put_u64_le (word_of_nat ord) @ put_u64_le (word_of_nat (length items)) @ enc_positions items"

definition enc_term_entry :: "nat \<Rightarrow> nat \<Rightarrow> nat \<Rightarrow> YAP_V2_LEXICAL_OCCURRENCE list \<Rightarrow> bytes" where
  "enc_term_entry ord poff qoff items =
     put_u32_le (word_of_nat (length (occ_term (hd items)))) @ occ_term (hd items) @
     put_u64_le (word_of_nat (length (term_objects items))) @
     put_u64_le (word_of_nat poff) @
     put_u64_le (word_of_nat (length (enc_posting_entry ord items))) @
     put_u64_le (word_of_nat qoff) @
     put_u64_le (word_of_nat (length (enc_position_entry ord items)))"

lemma runs_concat: "concat (runs same xs) = xs"
  by (induction same xs rule: runs.induct) simp_all

lemma enc_positions_concat: "concat (map enc_positions xss) = enc_positions (concat xss)"
  by (induction xss) (simp_all add: enc_positions_def)

definition payloads_inv :: "LEX_PAYLOADS \<Rightarrow> bool" where
  "payloads_inv p \<longleftrightarrow> buffer_inv (lb_terms p) \<and> buffer_inv (lb_postings p) \<and> buffer_inv (lb_positions p)"

lemma append_term_Inr:
  assumes ok: "append_term mem ord items (p, pt) = Inr (p', pt')" and inv: "payloads_inv p"
  defines "poff \<equiv> length (buf_data (lb_postings p))" and "qoff \<equiv> length (buf_data (lb_positions p))"
  shows "payloads_inv p' \<and>
    buf_data (lb_terms p') = buf_data (lb_terms p) @ enc_term_entry ord poff qoff items \<and>
    buf_data (lb_postings p') = buf_data (lb_postings p) @ enc_posting_entry ord items \<and>
    buf_data (lb_positions p') = buf_data (lb_positions p) @ enc_position_entry ord items \<and>
    pt' = pt + word_of_nat (length (term_objects items))"
proof -
  let ?objs = "object_runs items"
  define f where "f = (\<lambda>b. rbind (lex_append_u64 mem b (word_of_nat ord)) (\<lambda>postings.
            rbind (lex_append_u64 mem postings (word_of_nat (length ?objs))) (\<lambda>postings.
            lex_append_u32 mem postings (word_of_nat (block_count (length ?objs))))))"
  define g where "g = (\<lambda>b. rbind (lex_append_u64 mem b (word_of_nat ord)) (\<lambda>positions.
            lex_append_u64 mem positions (word_of_nat (length items))))"
  define h where "h = (\<lambda>(pb :: YAP_V2_BUFFER) (qb :: YAP_V2_BUFFER) b. rbind (lex_append_u32 mem b
                     (word_of_nat (length (occ_term (hd items))))) (\<lambda>terms.
            rbind (lex_append mem terms (occ_term (hd items))) (\<lambda>terms.
            rbind (lex_append_u64 mem terms (word_of_nat (length ?objs))) (\<lambda>terms.
            rbind (lex_append_u64 mem terms (word_of_nat poff)) (\<lambda>terms.
            rbind (lex_append_u64 mem terms (word_of_nat (length (buf_data pb) - poff))) (\<lambda>terms.
            rbind (lex_append_u64 mem terms (word_of_nat qoff)) (\<lambda>terms.
            lex_append_u64 mem terms (word_of_nat (length (buf_data qb) - qoff)))))))))"
  have eq: "append_term mem ord items (p, pt) =
     rbind (f (lb_postings p)) (\<lambda>postings. rbind (g (lb_positions p)) (\<lambda>positions.
     rbind (append_objects mem ?objs 0 pt postings positions) (\<lambda>(postings, positions, pt).
     case append_blocks mem YAP_V2_OK 0 ?objs postings of (status, postings) \<Rightarrow>
     if status \<noteq> YAP_V2_OK then Inl status
     else rbind (h postings positions (lb_terms p)) (\<lambda>terms.
       Inr (\<lparr>lb_terms = terms, lb_postings = postings, lb_positions = positions\<rparr>, pt)))))"
    unfolding append_term_def Let_def f_def g_def h_def poff_def qoff_def prod.case by (rule refl)
  obtain p1 q1 p2 q2 pt1 where
    p1: "f (lb_postings p) = Inr p1" and q1: "g (lb_positions p) = Inr q1"
    and o1: "append_objects mem ?objs 0 pt p1 q1 = Inr (p2, q2, pt1)"
    and last: "(case append_blocks mem YAP_V2_OK 0 ?objs p2 of (status, postings) \<Rightarrow>
       if status \<noteq> YAP_V2_OK then Inl status
       else rbind (h postings q2 (lb_terms p)) (\<lambda>terms.
         Inr (\<lparr>lb_terms = terms, lb_postings = postings, lb_positions = q2\<rparr>, pt1))) = Inr (p', pt')"
    using ok unfolding eq rbind_Inr_iff by fast
  obtain st p3 where st: "append_blocks mem YAP_V2_OK 0 ?objs p2 = (st, p3)" by fastforce
  with last obtain t where bl: "append_blocks mem YAP_V2_OK 0 ?objs p2 = (YAP_V2_OK, p3)"
    and o: "append_objects mem ?objs 0 pt p1 q1 = Inr (p2, q2, pt')"
    and t: "h p3 q2 (lb_terms p) = Inr t"
    and p': "p' = \<lparr>lb_terms = t, lb_postings = p3, lb_positions = q2\<rparr>"
    using o1 by (auto simp: rbind_Inr_iff split: if_splits)
  have f: "appends f (put_u64_le (word_of_nat ord) @ put_u64_le (word_of_nat (length ?objs)) @
     put_u32_le (word_of_nat (block_count (length ?objs))))"
    unfolding f_def by (intro appends_intros)
  have g: "appends g (put_u64_le (word_of_nat ord) @ put_u64_le (word_of_nat (length items)))"
    unfolding g_def by (intro appends_intros)
  note 1 = appendsD[OF f p1] appendsD[OF g q1]
  note 2 = append_objects_Inr[where k = 0, simplified, OF o]
  note 3 = append_blocks_ok[OF bl]
  have inv': "buffer_inv (lb_terms p)" "buffer_inv (lb_postings p)" "buffer_inv (lb_positions p)"
    using inv by (simp_all add: payloads_inv_def)
  have data: "buffer_inv p3 \<and> buf_data p3 = buf_data (lb_postings p) @ enc_posting_entry ord items"
    "buffer_inv q2 \<and> buf_data q2 = buf_data (lb_positions p) @ enc_position_entry ord items"
    "pt' = pt + word_of_nat (length ?objs)"
    using 1 2 3 inv' by (auto simp: enc_posting_entry_def enc_position_entry_def enc_positions_concat runs_concat)
  have "appends (h p3 q2) (enc_term_entry ord poff qoff items)"
    unfolding h_def data(1)[THEN conjunct2] data(2)[THEN conjunct2] enc_term_entry_def length_append
      poff_def[symmetric] qoff_def[symmetric] add_diff_cancel_left'
    by (intro appends_intros)
  from appendsD[OF this t inv'(1)] data show ?thesis
    by (simp add: p' payloads_inv_def)
qed

fun enc_posting_entries :: "nat \<Rightarrow> YAP_V2_LEXICAL_OCCURRENCE list list \<Rightarrow> bytes" where
  "enc_posting_entries ord [] = []"
| "enc_posting_entries ord (items # groups) =
     enc_posting_entry ord items @ enc_posting_entries (Suc ord) groups"

fun enc_position_entries :: "nat \<Rightarrow> YAP_V2_LEXICAL_OCCURRENCE list list \<Rightarrow> bytes" where
  "enc_position_entries ord [] = []"
| "enc_position_entries ord (items # groups) =
     enc_position_entry ord items @ enc_position_entries (Suc ord) groups"

fun enc_term_entries :: "nat \<Rightarrow> nat \<Rightarrow> nat \<Rightarrow> YAP_V2_LEXICAL_OCCURRENCE list list \<Rightarrow> bytes" where
  "enc_term_entries ord poff qoff [] = []"
| "enc_term_entries ord poff qoff (items # groups) =
     enc_term_entry ord poff qoff items @
     enc_term_entries (Suc ord) (poff + length (enc_posting_entry ord items))
       (qoff + length (enc_position_entry ord items)) groups"

definition object_total :: "YAP_V2_LEXICAL_OCCURRENCE list list \<Rightarrow> nat" where
  "object_total groups = sum_list (map (\<lambda>items. length (term_objects items)) groups)"

lemma append_terms_Inr:
  "append_terms mem ord groups (p, pt) = Inr (p', pt') \<Longrightarrow> payloads_inv p \<Longrightarrow>
    payloads_inv p' \<and>
    buf_data (lb_terms p') = buf_data (lb_terms p) @
      enc_term_entries ord (length (buf_data (lb_postings p))) (length (buf_data (lb_positions p))) groups \<and>
    buf_data (lb_postings p') = buf_data (lb_postings p) @ enc_posting_entries ord groups \<and>
    buf_data (lb_positions p') = buf_data (lb_positions p) @ enc_position_entries ord groups \<and>
    pt' = pt + word_of_nat (object_total groups)"
proof (induction groups arbitrary: ord p pt)
  case Nil
  then show ?case by (simp add: object_total_def)
next
  case (Cons items groups)
  obtain p1 pt1 where 1: "append_term mem ord items (p, pt) = Inr (p1, pt1)"
    and 2: "append_terms mem (Suc ord) groups (p1, pt1) = Inr (p', pt')"
    using Cons.prems(1) by (auto simp: rbind_Inr_iff)
  note a = append_term_Inr[OF 1 Cons.prems(2)]
  from Cons.IH[OF 2] a show ?case
    by (simp add: object_total_def add.assoc)
qed

subsection \<open>The three payloads\<close>

definition sorted_items :: "YAP_V2_LEXICAL_OCCURRENCE list \<Rightarrow> YAP_V2_LEXICAL_OCCURRENCE list" where
  "sorted_items occs = qsort_by occurrence_compare occs"

definition terms_payload :: "YAP_V2_LEXICAL_OCCURRENCE list list \<Rightarrow> bytes" where
  "terms_payload groups = put_u32_le YAP_V2_LEXICAL_PAYLOAD_VERSION @
     put_u64_le (word_of_nat (length groups)) @ enc_term_entries 0 56 12 groups"

definition postings_payload ::
  "nat \<Rightarrow> nat \<Rightarrow> u64 list \<Rightarrow> YAP_V2_LEXICAL_OCCURRENCE list list \<Rightarrow> bytes" where
  "postings_payload dc pc totals groups =
     put_u32_le YAP_V2_LEXICAL_PAYLOAD_VERSION @
     put_u32_le (word_of_nat YAP_V2_POSTINGS_BLOCK_SIZE) @ put_u64_le (word_of_nat dc) @
     put_u64_le (word_of_nat pc) @ put_u64_le (word_of_nat (object_total groups)) @
     put_u64_le (totals ! 0) @ put_u64_le (totals ! 1) @ put_u64_le (totals ! 2) @
     enc_posting_entries 0 groups"

definition positions_payload :: "YAP_V2_LEXICAL_OCCURRENCE list list \<Rightarrow> bytes" where
  "positions_payload groups = put_u32_le YAP_V2_LEXICAL_PAYLOAD_VERSION @
     put_u64_le (word_of_nat (length (concat groups))) @ enc_position_entries 0 groups"

lemma qsort_small: "\<not> length xs > 1 \<Longrightarrow> qsort_by cmp xs = xs"
  by (cases xs; cases "tl xs") auto

lemma payload_headers_Inr:
  assumes "payload_headers mem dc pc totals = Inr p"
  shows "payloads_inv p \<and>
    buf_data (lb_terms p) = put_u32_le YAP_V2_LEXICAL_PAYLOAD_VERSION @ put_u64_le 0 \<and>
    buf_data (lb_postings p) = put_u32_le YAP_V2_LEXICAL_PAYLOAD_VERSION @
     put_u32_le (word_of_nat YAP_V2_POSTINGS_BLOCK_SIZE) @ put_u64_le (word_of_nat dc) @
     put_u64_le (word_of_nat pc) @ put_u64_le 0 @
     put_u64_le (totals ! 0) @ put_u64_le (totals ! 1) @ put_u64_le (totals ! 2) \<and>
    buf_data (lb_positions p) = put_u32_le YAP_V2_LEXICAL_PAYLOAD_VERSION @ put_u64_le 0"
proof -
  let ?t = "\<lambda>b. rbind (lex_append_u32 mem b YAP_V2_LEXICAL_PAYLOAD_VERSION) (\<lambda>terms.
            lex_append_u64 mem terms 0)"
  let ?p = "\<lambda>b. rbind (lex_append_u32 mem b YAP_V2_LEXICAL_PAYLOAD_VERSION) (\<lambda>postings.
            rbind (lex_append_u32 mem postings (word_of_nat YAP_V2_POSTINGS_BLOCK_SIZE)) (\<lambda>postings.
            rbind (lex_append_u64 mem postings (word_of_nat dc)) (\<lambda>postings.
            rbind (lex_append_u64 mem postings (word_of_nat pc)) (\<lambda>postings.
            rbind (lex_append_u64 mem postings 0) (\<lambda>postings.
            rbind (lex_append_u64 mem postings (totals ! 0)) (\<lambda>postings.
            rbind (lex_append_u64 mem postings (totals ! 1)) (\<lambda>postings.
            lex_append_u64 mem postings (totals ! 2))))))))"
  from assms obtain b1 b2 b3 where b: "?t buffer_empty = Inr b1" "?p buffer_empty = Inr b2"
    "?t buffer_empty = Inr b3"
    and p: "p = \<lparr>lb_terms = b1, lb_postings = b2, lb_positions = b3\<rparr>"
    unfolding payload_headers_def rbind_Inr_iff by blast
  have t: "appends ?t (put_u32_le YAP_V2_LEXICAL_PAYLOAD_VERSION @ put_u64_le 0)"
    by (intro appends_intros)
  have q: "appends ?p (put_u32_le YAP_V2_LEXICAL_PAYLOAD_VERSION @
     put_u32_le (word_of_nat YAP_V2_POSTINGS_BLOCK_SIZE) @ put_u64_le (word_of_nat dc) @
     put_u64_le (word_of_nat pc) @ put_u64_le 0 @
     put_u64_le (totals ! 0) @ put_u64_le (totals ! 1) @ put_u64_le (totals ! 2))"
    by (intro appends_intros)
  show ?thesis
    using appendsD[OF t b(1)] appendsD[OF q b(2)] appendsD[OF t b(3)] by (simp add: p payloads_inv_def)
qed

lemma build_payloads_Inr:
  assumes "build_payloads mem occs dc pc totals = Inr (p, tc, pt)"
  defines "groups \<equiv> term_runs (sorted_items occs)"
  shows "buf_data (lb_terms p) = terms_payload groups \<and>
    buf_data (lb_postings p) = postings_payload dc pc totals groups \<and>
    buf_data (lb_positions p) = positions_payload groups \<and>
    tc = word_of_nat (length groups) \<and> pt = word_of_nat (object_total groups) \<and>
    payloads_inv p"
proof -
  have items: "(if length occs > 1 then qsort_by occurrence_compare occs else occs) = sorted_items occs"
    using qsort_small[of occs occurrence_compare] by (simp add: sorted_items_def)
  obtain p0 p1 where h: "payload_headers mem dc pc totals = Inr p0"
    and t: "append_terms mem 0 groups (p0, 0) = Inr (p1, pt)" and tc: "tc = word_of_nat (length groups)"
    and p: "p = \<lparr>lb_terms = patch_u64 4 (word_of_nat (length groups)) (lb_terms p1),
            lb_postings = patch_u64 24 pt (lb_postings p1),
            lb_positions = patch_u64 4 (word_of_nat (length occs)) (lb_positions p1)\<rparr>"
    using assms(1) unfolding build_payloads_def Let_def items groups_def
    by (auto simp: rbind_Inr_iff)
  note h' = payload_headers_Inr[OF h]
  note t' = append_terms_Inr[OF t h'[THEN conjunct1]]
  have n: "length (concat groups) = length occs"
    by (simp add: groups_def runs_concat sorted_items_def libc.qs_length)
  show ?thesis
    using h' t' tc n
    by (auto simp: p patch_u64_def put_u64_eq terms_payload_def postings_payload_def
        positions_payload_def payloads_inv_def buffer_inv_def)
qed

end
