(* ===== verification/Lexical_Order.thy ===== *)
theory Lexical_Order
  imports Lexical_Image "HOL-Library.Product_Lexorder"
begin

section \<open>The order of the occurrences\<close>

text \<open>
  The writer sorts its occurrences with \<^verbatim>\<open>occurrence_compare\<close> and cuts the sorted array into the runs
  of one term and, in a term, of one object.  Here the comparison is the strict order of the keys
  \<open>occ_key\<close>; runs of a sorted array are the groups of equal keys, in ascending order.
\<close>

subsection \<open>Sorted occurrences and their runs\<close>

definition occ_key :: "YAP_V2_LEXICAL_OCCURRENCE \<Rightarrow> bytes \<times> u32 \<times> u64 \<times> u32 \<times> u32" where
  "occ_key x = (occ_term x, occ_object_type x, occ_object_ordinal x, occ_field x, occ_position x)"

abbreviation occ_object :: "YAP_V2_LEXICAL_OCCURRENCE \<Rightarrow> u32 \<times> u64" where
  "occ_object x \<equiv> (occ_object_type x, occ_object_ordinal x)"

lemma occurrence_compare_term:
  "occurrence_compare a b =
     (if term_compare (occ_term a) (occ_term b) \<noteq> 0 then term_compare (occ_term a) (occ_term b)
      else if occ_object_type a \<noteq> occ_object_type b
        then if occ_object_type a < occ_object_type b then -1 else 1
      else if occ_object_ordinal a \<noteq> occ_object_ordinal b
        then if occ_object_ordinal a < occ_object_ordinal b then -1 else 1
      else if occ_field a \<noteq> occ_field b then if occ_field a < occ_field b then -1 else 1
      else if occ_position a \<noteq> occ_position b then if occ_position a < occ_position b then -1 else 1
      else 0)"
  by (auto simp: occurrence_compare_def term_compare_def Let_def)

lemma occurrence_compare_key: "occurrence_compare a b \<le> 0 \<longleftrightarrow> occ_key a \<le> occ_key b"
proof (cases "occ_term a = occ_term b")
  case True
  then have "term_compare (occ_term a) (occ_term b) = 0"
    by (simp add: term_compare_eq)
  then show ?thesis
    unfolding occurrence_compare_term occ_key_def
    by (auto simp: True less_eq_prod_simp not_less)
next
  case False
  then have "term_compare (occ_term a) (occ_term b) \<noteq> 0"
    by (simp add: term_compare_eq)
  moreover from this have "term_compare (occ_term a) (occ_term b) \<le> 0 \<longleftrightarrow> occ_term a < occ_term b"
    using term_compare_less[of "occ_term a" "occ_term b"] by linarith
  ultimately show ?thesis
    unfolding occurrence_compare_term occ_key_def
    using False by (auto simp: less_eq_prod_simp)
qed

lemma set_sorted_items [simp]: "set (sorted_items occs) = set occs"
  by (simp add: sorted_items_def libc.qs_set)

lemma length_sorted_items [simp]: "length (sorted_items occs) = length occs"
  by (simp add: sorted_items_def libc.qs_length)

lemma sorted_items_le: "sorted_wrt (\<lambda>a b. occ_key a \<le> occ_key b) (sorted_items occs)"
proof -
  have "sorted_wrt (\<lambda>a b. occurrence_compare a b \<le> 0) (qsort_by occurrence_compare occs)"
    by (rule libc.qs_sorted) (auto simp: occurrence_compare_key intro: order.trans)
  then show ?thesis
    by (simp add: sorted_items_def occurrence_compare_key)
qed

lemma sorted_items_less:
  assumes "distinct (map occ_key occs)"
  shows "sorted_wrt (\<lambda>a b. occ_key a < occ_key b) (sorted_items occs)"
proof -
  have "mset (map occ_key (sorted_items occs)) = mset (map occ_key occs)"
    by (simp add: sorted_items_def libc.qs_mset)
  then have "distinct (map occ_key (sorted_items occs))"
    using assms by (metis mset_eq_imp_distinct_iff)
  moreover have "sorted (map occ_key (sorted_items occs))"
    using sorted_items_le by (simp add: sorted_map)
  ultimately have "sorted_wrt (<) (map occ_key (sorted_items occs))"
    by (simp add: strict_sorted_iff)
  then show ?thesis by (simp add: sorted_wrt_map)
qed

text \<open>Runs of a list sorted by the key that \<open>same\<close> compares.\<close>

lemma run_members: "r \<in> set (runs same xs) \<Longrightarrow> x \<in> set r \<Longrightarrow> x \<in> set xs"
  using runs_concat[of same xs] by (metis UN_I set_concat)

lemma dropWhile_greater:
  fixes k :: "'a \<Rightarrow> 'k::linorder"
  assumes "sorted_wrt (\<lambda>x y. k x \<le> k y) (x # xs)" and "\<And>y. same y \<longleftrightarrow> k x = k y"
    and "z \<in> set (dropWhile same xs)"
  shows "k x < k z"
proof (cases "dropWhile same xs")
  case Nil
  with assms(3) show ?thesis by simp
next
  case (Cons y ys)
  have "sorted_wrt (\<lambda>x y. k x \<le> k y) (takeWhile same xs @ y # ys)"
    using assms(1) by (simp flip: Cons)
  then have "\<forall>z\<in>set ys. k y \<le> k z"
    by (simp add: sorted_wrt_append)
  moreover have "y \<in> set xs"
    using Cons by (metis list.set_intros(1) set_dropWhileD)
  then have "k x \<le> k y"
    using assms(1) by simp
  moreover have "k x \<noteq> k y"
    using Cons assms(2) by (metis hd_dropWhile list.discI list.sel(1))
  ultimately show ?thesis
    using assms(3) Cons by auto
qed

definition one_key :: "('a \<Rightarrow> 'k) \<Rightarrow> 'a list \<Rightarrow> bool" where
  "one_key k r \<longleftrightarrow> r \<noteq> [] \<and> (\<forall>x\<in>set r. k x = k (hd r))"

lemma runs_key:
  fixes k :: "'a \<Rightarrow> 'k::linorder"
  shows "(\<And>x y. same x y \<longleftrightarrow> k x = k y) \<Longrightarrow> sorted_wrt (\<lambda>x y. k x \<le> k y) xs \<Longrightarrow>
    (\<forall>r\<in>set (runs same xs). one_key k r) \<and>
    sorted_wrt (<) (map (\<lambda>r. k (hd r)) (runs same xs))"
proof (induction same xs rule: runs.induct)
  case (1 same)
  then show ?case by simp
next
  case (2 same x xs)
  let ?T = "takeWhile (same x) xs" and ?D = "dropWhile (same x) xs"
  have "sorted_wrt (\<lambda>x y. k x \<le> k y) (?T @ ?D)"
    using "2.prems"(2) by simp
  then have "sorted_wrt (\<lambda>x y. k x \<le> k y) ?D"
    by (simp only: sorted_wrt_append)
  then have ih: "(\<forall>r\<in>set (runs same ?D). one_key k r) \<and>
      sorted_wrt (<) (map (\<lambda>r. k (hd r)) (runs same ?D))"
    using "2.prems"(1) by (rule "2.IH"[rotated])
  have T: "one_key k (x # ?T)"
    using "2.prems"(1) by (auto simp: one_key_def dest: set_takeWhileD)
  have D: "k x < k (hd r)" if "r \<in> set (runs same ?D)" for r
  proof -
    have "hd r \<in> set ?D"
      using ih that run_members[of r same ?D "hd r"] by (metis list.set_sel(1) one_key_def)
    then show ?thesis
      using dropWhile_greater[OF "2.prems"(2), where same = "same x"] "2.prems"(1) by blast
  qed
  from ih T D show ?case by simp
qed

lemma runs_sublist_sorted:
  "sorted_wrt P xs \<Longrightarrow> r \<in> set (runs same xs) \<Longrightarrow> sorted_wrt P r"
proof (induction same xs rule: runs.induct)
  case (2 same x xs)
  have "sorted_wrt P ((x # takeWhile (same x) xs) @ dropWhile (same x) xs)"
    using "2.prems"(1) by simp
  then have "sorted_wrt P (x # takeWhile (same x) xs)" "sorted_wrt P (dropWhile (same x) xs)"
    unfolding sorted_wrt_append by blast+
  then show ?case using "2.IH" "2.prems"(2) by auto
qed simp

lemma memcmp_eq: "length a = length b \<Longrightarrow> memcmp a b = 0 \<longleftrightarrow> a = b"
  by (induction a b rule: memcmp.induct) auto

lemma same_term_key: "same_term x y \<longleftrightarrow> occ_term x = occ_term y"
  using memcmp_eq[of "occ_term x" "occ_term y"] by (auto simp: same_term_def)

lemma same_object_key: "same_object x y \<longleftrightarrow> occ_object x = occ_object y"
  by (simp add: same_object_def)

text \<open>A term's items: one term, its objects in order, and in each object the items in order.\<close>

definition object_sorted :: "YAP_V2_LEXICAL_OCCURRENCE list \<Rightarrow> bool" where
  "object_sorted items \<longleftrightarrow> items \<noteq> [] \<and> (\<forall>x\<in>set items. occ_object x = occ_object (hd items)) \<and>
     sorted_wrt (\<lambda>x y. (occ_field x, occ_position x) < (occ_field y, occ_position y)) items"

definition term_sorted :: "YAP_V2_LEXICAL_OCCURRENCE list \<Rightarrow> bool" where
  "term_sorted items \<longleftrightarrow> items \<noteq> [] \<and> (\<forall>x\<in>set items. occ_term x = occ_term (hd items)) \<and>
     (\<forall>ob\<in>set (object_runs items). object_sorted ob) \<and>
     sorted_wrt (<) (map (\<lambda>ob. occ_object (hd ob)) (object_runs items))"

lemma term_runs_sorted:
  assumes "distinct (map occ_key occs)"
  shows "(\<forall>items\<in>set (term_runs (sorted_items occs)). term_sorted items) \<and>
    sorted_wrt (<) (map (\<lambda>items. occ_term (hd items)) (term_runs (sorted_items occs)))"
proof -
  let ?xs = "sorted_items occs"
  have less: "sorted_wrt (\<lambda>a b. occ_key a < occ_key b) ?xs"
    by (rule sorted_items_less[OF assms])
  have "sorted_wrt (\<lambda>a b. occ_term a \<le> occ_term b) ?xs"
    using sorted_items_le[of occs]
    by (rule sorted_wrt_mono_rel[rotated]) (auto simp: occ_key_def less_eq_prod_simp)
  from runs_key[where k = occ_term and same = same_term, OF same_term_key this]
  have terms: "\<forall>r\<in>set (term_runs ?xs). one_key occ_term r"
    and order: "sorted_wrt (<) (map (\<lambda>items. occ_term (hd items)) (term_runs ?xs))" by auto
  have "term_sorted items" if "items \<in> set (term_runs ?xs)" for items
  proof -
    have same: "items \<noteq> []" "\<And>x. x \<in> set items \<Longrightarrow> occ_term x = occ_term (hd items)"
      using terms that unfolding one_key_def by blast+
    have srt: "sorted_wrt (\<lambda>a b. occ_key a < occ_key b) items"
      using less that by (rule runs_sublist_sorted)
    have "sorted_wrt (\<lambda>a b. occ_object a \<le> occ_object b) items"
      using srt by (rule sorted_wrt_mono_rel[rotated])
        (use same(2) in \<open>auto simp: occ_key_def less_eq_prod_simp less_prod_simp\<close>)
    from runs_key[where k = occ_object and same = same_object, OF same_object_key this]
    have objs: "\<forall>r\<in>set (object_runs items). one_key occ_object r"
      and ord: "sorted_wrt (<) (map (\<lambda>ob. occ_object (hd ob)) (object_runs items))" by auto
    have "object_sorted ob" if o: "ob \<in> set (object_runs items)" for ob
    proof -
      have "sorted_wrt (\<lambda>a b. occ_key a < occ_key b) ob"
        using srt o by (rule runs_sublist_sorted)
      then have "sorted_wrt (\<lambda>x y. (occ_field x, occ_position x) < (occ_field y, occ_position y)) ob"
      proof (rule sorted_wrt_mono_rel[rotated])
        fix x y assume "x \<in> set ob" "y \<in> set ob" "occ_key x < occ_key y"
        moreover from this have "occ_term x = occ_term y" "occ_object x = occ_object y"
          using same(2) run_members[OF o] objs o unfolding one_key_def by metis+
        ultimately show "(occ_field x, occ_position x) < (occ_field y, occ_position y)"
          by (auto simp: occ_key_def less_prod_simp)
      qed
      then show ?thesis using objs o unfolding object_sorted_def one_key_def by blast
    qed
    then show ?thesis using same ord unfolding term_sorted_def by blast
  qed
  with order show ?thesis by blast
qed

end
