(* ===== verification/Lexical_Readback.thy ===== *)
theory Lexical_Readback
  imports Lexical_Order
begin

section \<open>Reading back what was written\<close>

text \<open>
  Every check of \<^verbatim>\<open>components/yappo_lexical_reader_v2.c\<close> on the images of \<open>Lexical_Image\<close>, from one
  posting up: positions, postings, block maxima, term entries, the term stream, the three payloads
  and their files.  \<open>segment_open_image\<close> says that an image of good groups is accepted, and which
  segment the reader then holds.
\<close>

subsection \<open>Reading one object\<close>

definition posting_of :: "nat \<Rightarrow> YAP_V2_LEXICAL_OCCURRENCE list \<Rightarrow> YAP_V2_POSTING" where
  "posting_of k items =
     (let c = object_counts items in
      \<lparr>po_object_type = occ_object_type (hd items), po_object_ordinal = occ_object_ordinal (hd items),
       po_term_frequency = [title_tf c, body_tf c, passage_tf c],
       po_field_length = [title_len c, body_len c, passage_len c],
       po_position_offset = word_of_nat k, po_position_count = word_of_nat (length items)\<rparr>)"

lemma length_enc_posting [simp]: "length (enc_posting k items) = 48"
  by (simp add: enc_posting_def Let_def)

lemma length_enc_postings [simp]: "length (enc_postings k objs) = 48 * length objs"
  by (induction k objs rule: enc_postings.induct) simp_all

lemma length_enc_positions [simp]: "length (enc_positions items) = 8 * length items"
  by (induction items) (simp_all add: enc_positions_def)

lemma parse_posting_at:
  assumes "occurs_at d at (enc_posting k items)"
  shows "parse_posting (drop at d) = posting_of k items"
  using assms unfolding enc_posting_def Let_def at_simps
  by (simp add: parse_posting_def posting_of_def Let_def get_u32_at get_u64_at add.commute)

definition field_index :: "YAP_V2_LEXICAL_OCCURRENCE \<Rightarrow> nat" where
  "field_index x = unat (occ_field x) - 1"

definition occ_ok :: "u64 \<Rightarrow> u64 \<Rightarrow> YAP_V2_LEXICAL_OCCURRENCE \<Rightarrow> bool" where
  "occ_ok dc pc x \<longleftrightarrow>
     (occ_object_type x = YAP_V2_LEXICAL_DOCUMENT \<and> occ_object_ordinal x < dc \<or>
      occ_object_type x = YAP_V2_LEXICAL_PASSAGE \<and> occ_object_ordinal x < pc) \<and>
     occ_field x \<in> {YAP_V2_FIELD_TITLE, YAP_V2_FIELD_BODY, YAP_V2_FIELD_PASSAGE} \<and>
     occ_position x < occ_field_length x \<and> occ_field_length x \<noteq> - 1 \<and>
     occ_term x \<noteq> [] \<and> length (occ_term x) \<le> UINT32_MAX"

definition object_good :: "u64 \<Rightarrow> u64 \<Rightarrow> YAP_V2_LEXICAL_OCCURRENCE list \<Rightarrow> bool" where
  "object_good dc pc items \<longleftrightarrow> object_sorted items \<and> (\<forall>x\<in>set items. occ_ok dc pc x) \<and>
     (\<forall>x\<in>set items. \<forall>y\<in>set items. occ_field x = occ_field y \<longrightarrow>
        occ_field_length x = occ_field_length y) \<and> length items < 2 ^ 32"

definition field_count :: "nat \<Rightarrow> YAP_V2_LEXICAL_OCCURRENCE list \<Rightarrow> nat" where
  "field_count f items = length (filter (\<lambda>x. field_index x = f) items)"

lemma field_count_simps [simp]:
  "field_count f [] = 0"
  "field_count f (x # xs) = (if field_index x = f then Suc (field_count f xs) else field_count f xs)"
  "field_count f (xs @ ys) = field_count f xs + field_count f ys"
  by (simp_all add: field_count_def)

lemma field_index_ok:
  assumes "occ_ok dc pc x"
  shows "field_index x < 3" and "occ_field x = YAP_V2_FIELD_TITLE \<longleftrightarrow> field_index x = 0"
    and "occ_field x = YAP_V2_FIELD_BODY \<longleftrightarrow> field_index x = 1"
    and "occ_field x = YAP_V2_FIELD_PASSAGE \<longleftrightarrow> field_index x = 2"
    and "\<not> occ_field x < YAP_V2_FIELD_TITLE" and "\<not> YAP_V2_FIELD_PASSAGE < occ_field x"
  using assms by (auto simp: occ_ok_def field_index_def lexical_constants)

lemma field_index_inj:
  "occ_ok dc pc x \<Longrightarrow> occ_ok dc pc y \<Longrightarrow> field_index x = field_index y \<Longrightarrow> occ_field x = occ_field y"
  by (auto simp: occ_ok_def field_index_def lexical_constants)

lemma field_count_pos: "0 < field_count f items \<longleftrightarrow> (\<exists>x\<in>set items. field_index x = f)"
  by (auto simp: field_count_def filter_empty_conv)

lemma field_count_sum:
  "\<forall>x\<in>set items. field_index x < 3 \<Longrightarrow>
     field_count 0 items + field_count 1 items + field_count 2 items = length items"
  by (induction items) (auto simp: less_Suc_eq numeral_3_eq_3 numeral_2_eq_2)

lemma field_count_le: "field_count f items \<le> length items"
  by (simp add: field_count_def)

abbreviation tfs :: "OBJECT_COUNTS \<Rightarrow> u32 list" where
  "tfs c \<equiv> [title_tf c, body_tf c, passage_tf c]"

abbreviation lens :: "OBJECT_COUNTS \<Rightarrow> u32 list" where
  "lens c \<equiv> [title_len c, body_len c, passage_len c]"

lemma fold_counts:
  "\<forall>x\<in>set items. occ_ok dc pc x \<Longrightarrow> tfs (fold count_item items c) =
     [title_tf c + word_of_nat (field_count 0 items), body_tf c + word_of_nat (field_count 1 items),
      passage_tf c + word_of_nat (field_count 2 items)]"
proof (induction items arbitrary: c)
  case Nil
  show ?case by simp
next
  case (Cons x items)
  have "occ_ok dc pc x" using Cons.prems by simp
  note f = field_index_ok[OF this]
  have "tfs (fold count_item items (count_item x c)) =
     [title_tf (count_item x c) + word_of_nat (field_count 0 items),
      body_tf (count_item x c) + word_of_nat (field_count 1 items),
      passage_tf (count_item x c) + word_of_nat (field_count 2 items)]"
    using Cons.prems by (intro Cons.IH) simp
  moreover have "title_tf (count_item x c) = (if field_index x = 0 then title_tf c + 1 else title_tf c)"
    "body_tf (count_item x c) = (if field_index x = 1 then body_tf c + 1 else body_tf c)"
    "passage_tf (count_item x c) = (if field_index x = 2 then passage_tf c + 1 else passage_tf c)"
    using f(1) by (auto simp: count_item_def f(2,3))
  ultimately show ?case by (simp add: add.assoc)
qed

lemma object_counts_tf:
  assumes "\<forall>x\<in>set items. occ_ok dc pc x"
  shows "tfs (object_counts items) = [word_of_nat (field_count 0 items),
      word_of_nat (field_count 1 items), word_of_nat (field_count 2 items)]"
  using fold_counts[OF assms] unfolding object_counts_def by simp

lemma fold_lens:
  "\<forall>x\<in>set items. occ_ok dc pc x \<Longrightarrow>
   \<forall>y\<in>set items. field_index y = f \<longrightarrow> occ_field_length y = l \<Longrightarrow> f < 3 \<Longrightarrow>
   lens (fold count_item items c) ! f = (if 0 < field_count f items then l else lens c ! f)"
proof (induction items arbitrary: c)
  case Nil
  show ?case by simp
next
  case (Cons x items)
  have "occ_ok dc pc x" using Cons.prems by simp
  note fi = field_index_ok[OF this]
  have "lens (fold count_item items (count_item x c)) ! f =
      (if 0 < field_count f items then l else lens (count_item x c) ! f)"
    using Cons.prems by (intro Cons.IH) simp_all
  moreover have "lens (count_item x c) ! f =
      (if field_index x = f then occ_field_length x else lens c ! f)"
    using fi(1) Cons.prems(3)
    by (auto simp: count_item_def fi(2,3) less_Suc_eq numeral_3_eq_3 numeral_2_eq_2)
  ultimately show ?case using Cons.prems(2) by simp
qed

lemma object_counts_len:
  assumes "\<forall>x\<in>set items. occ_ok dc pc x" and "x \<in> set items"
    and "\<forall>y\<in>set items. occ_field x = occ_field y \<longrightarrow> occ_field_length x = occ_field_length y"
  shows "lens (object_counts items) ! field_index x = occ_field_length x"
proof -
  have "\<forall>y\<in>set items. field_index y = field_index x \<longrightarrow> occ_field_length y = occ_field_length x"
    using assms field_index_inj by metis
  moreover have "0 < field_count (field_index x) items"
    using assms(2) by (auto simp: field_count_pos)
  moreover have "field_index x < 3"
    using assms(1,2) field_index_ok(1) by blast
  ultimately have "lens (fold count_item items c) ! field_index x = occ_field_length x" for c
    using fold_lens[OF assms(1), where f = "field_index x" and l = "occ_field_length x" and c = c] by simp
  then show ?thesis unfolding object_counts_def by simp
qed

lemma word32_pos: "n < 2 ^ 32 \<Longrightarrow> (word_of_nat n :: u32) > 0 \<longleftrightarrow> 0 < n"
  by (simp add: word_less_nat_alt unat_of_nat)

lemma position_address_small:
  assumes "po_position_offset p = word_of_nat k" and "cursor + 16 + 8 * (k + i) < 2 ^ 63"
  shows "position_address cursor p i = cursor + 16 + 8 * (k + i)"
  using assms by (simp add: position_address_def unat_small64)

lemma enc_positions_append: "enc_positions (xs @ ys) = enc_positions xs @ enc_positions ys"
  by (simp add: enc_positions_def)

lemma enc_positions_nth:
  assumes "occurs_at d off (enc_positions (pre @ x # rest))"
  shows "occurs_at d (off + 8 * length pre) (put_u32_le (occ_field x))"
    and "occurs_at d (off + 8 * length pre + 4) (put_u32_le (occ_position x))"
proof -
  have "enc_positions (pre @ x # rest) =
      enc_positions pre @ put_u32_le (occ_field x) @ put_u32_le (occ_position x) @ enc_positions rest"
    by (simp add: enc_positions_def)
  then show "occurs_at d (off + 8 * length pre) (put_u32_le (occ_field x))"
    and "occurs_at d (off + 8 * length pre + 4) (put_u32_le (occ_position x))"
    using assms by (simp_all add: at_simps)
qed

lemma validate_positions_image:
  assumes good: "object_good dc pc items"
    and at: "occurs_at positions (cursor + 16 + 8 * k) (enc_positions items)"
    and len: "length positions < 2 ^ 62"
  shows "items = pre @ rest \<Longrightarrow>
    counts = [word_of_nat (field_count 0 pre), word_of_nat (field_count 1 pre),
              word_of_nat (field_count 2 pre)] \<Longrightarrow>
    length prev = 3 \<Longrightarrow>
    (\<forall>f < 3. 0 < field_count f pre \<longrightarrow> (\<exists>x\<in>set pre. field_index x = f \<and> occ_position x = prev ! f)) \<Longrightarrow>
    validate_positions positions cursor (posting_of k items) (length pre) (length rest) counts prev =
      Inr (tfs (object_counts items))"
proof (induction rest arbitrary: pre counts prev)
  case Nil
  have "\<forall>x\<in>set items. occ_ok dc pc x" using good by (simp add: object_good_def)
  from object_counts_tf[OF this] Nil show ?case by simp
next
  case (Cons x rest)
  have ok: "\<forall>x\<in>set items. occ_ok dc pc x" and x: "x \<in> set items"
    using good Cons.prems(1) by (simp_all add: object_good_def)
  note fi = field_index_ok[OF ok[rule_format, OF x]]
  let ?at = "cursor + 16 + 8 * (k + length pre)" and ?f = "field_index x"
  have img: "occurs_at positions (cursor + 16 + 8 * k) (enc_positions (pre @ x # rest))"
    using at Cons.prems(1) by simp
  have pos: "occurs_at positions ?at (put_u32_le (occ_field x))"
    "occurs_at positions (?at + 4) (put_u32_le (occ_position x))"
    using enc_positions_nth[OF img] by (simp_all add: algebra_simps)
  have bound: "?at + 8 \<le> length positions"
    using occurs_at_bound[OF pos(2)] by simp
  have addr: "position_address cursor (posting_of k items) (length pre) = ?at"
    using bound len by (intro position_address_small) (simp_all add: posting_of_def Let_def)
  have flen: "po_field_length (posting_of k items) ! ?f = occ_field_length x"
  proof -
    have "\<forall>y\<in>set items. occ_field x = occ_field y \<longrightarrow> occ_field_length x = occ_field_length y"
      using good x unfolding object_good_def by blast
    from object_counts_len[OF ok x this] show ?thesis by (simp add: posting_of_def Let_def)
  qed
  have cnt: "counts ! ?f = word_of_nat (field_count ?f pre)"
    using fi(1) Cons.prems(2) by (auto simp: less_Suc_eq numeral_3_eq_3 numeral_2_eq_2)
  have small: "field_count ?f pre < 2 ^ 32"
    using field_count_le[of ?f pre] good Cons.prems(1) by (simp add: object_good_def)
  have mono: "prev ! ?f < occ_position x" if "0 < counts ! ?f"
  proof -
    have "0 < field_count ?f pre" using that cnt word32_pos[OF small] by simp
    then obtain y where y: "y \<in> set pre" "field_index y = ?f" "occ_position y = prev ! ?f"
      using Cons.prems(4) fi(1) by blast
    have "occ_field y = occ_field x"
      using ok y(1,2) x Cons.prems(1) by (intro field_index_inj) auto
    moreover have "(occ_field y, occ_position y) < (occ_field x, occ_position x)"
      using good y(1) Cons.prems(1) by (auto simp: object_good_def object_sorted_def sorted_wrt_append)
    ultimately show ?thesis using y(3) by (simp add: less_prod_simp)
  qed
  have "occ_position x < occ_field_length x"
    using ok x by (simp add: occ_ok_def)
  then have step: "validate_positions positions cursor (posting_of k items) (length pre) (length (x # rest))
      counts prev =
    validate_positions positions cursor (posting_of k items) (length (pre @ [x])) (length rest)
      (counts[?f := counts ! ?f + 1]) (prev[?f := occ_position x])"
    using bound mono fi(5,6) flen
    unfolding list.size(4) add_Suc_right add_0_right validate_positions.simps(2) Let_def addr
      get_u32_at[OF pos(1)] get_u32_at[OF pos(2)] field_index_def[symmetric]
    by (auto simp: not_le)
  have "counts[?f := counts ! ?f + 1] = [word_of_nat (field_count 0 (pre @ [x])),
      word_of_nat (field_count 1 (pre @ [x])), word_of_nat (field_count 2 (pre @ [x]))]"
    using fi(1) Cons.prems(2)
    by (auto simp: less_Suc_eq numeral_3_eq_3 numeral_2_eq_2 add.commute)
  moreover have "\<forall>f < 3. 0 < field_count f (pre @ [x]) \<longrightarrow>
      (\<exists>y\<in>set (pre @ [x]). field_index y = f \<and> occ_position y = prev[?f := occ_position x] ! f)"
    using Cons.prems(3,4) fi(1) by (auto simp: nth_list_update)
  ultimately show ?case
    unfolding step using Cons.prems by (intro Cons.IH) auto
qed

lemma posting_of_frequency:
  assumes "object_good dc pc items"
  shows "posting_frequency (posting_of k items) = ucast (word_of_nat (length items) :: u32)"
    and "unat (posting_frequency (posting_of k items)) = length items"
    and "po_term_frequency (posting_of k items) ! 0 + po_term_frequency (posting_of k items) ! 1 +
      po_term_frequency (posting_of k items) ! 2 = word_of_nat (length items)"
proof -
  have ok: "\<forall>x\<in>set items. occ_ok dc pc x" and small: "length items < 2 ^ 32"
    using assms by (simp_all add: object_good_def)
  have sum: "field_count 0 items + field_count 1 items + field_count 2 items = length items"
    using ok field_index_ok(1) by (intro field_count_sum) blast
  have tf: "po_term_frequency (posting_of k items) = [word_of_nat (field_count 0 items),
      word_of_nat (field_count 1 items), word_of_nat (field_count 2 items)]"
    using object_counts_tf[OF ok] by (simp add: posting_of_def Let_def)
  show "po_term_frequency (posting_of k items) ! 0 + po_term_frequency (posting_of k items) ! 1 +
      po_term_frequency (posting_of k items) ! 2 = word_of_nat (length items)"
    unfolding tf by (simp flip: sum)
  have u: "(ucast (word_of_nat n :: u32) :: u64) = word_of_nat n" if "n < 2 ^ 32" for n
    using that by (simp add: word_unat_eq_iff unat_ucast_32_64 unat_of_nat)
  have "posting_frequency (posting_of k items) = word_of_nat (length items)"
    unfolding posting_frequency_def tf using small sum by (simp add: u flip: sum)
  then show "posting_frequency (posting_of k items) = ucast (word_of_nat (length items) :: u32)"
    and "unat (posting_frequency (posting_of k items)) = length items"
    using small by (simp_all add: u unat_small64)
qed

lemma validate_postings_image:
  assumes "length positions < 2 ^ 62"
  shows "\<forall>ob\<in>set objs. object_good dc pc ob \<Longrightarrow>
    sorted_wrt (<) (map (\<lambda>ob. occ_object (hd ob)) objs) \<Longrightarrow>
    occurs_at postings at (enc_postings k objs) \<Longrightarrow>
    occurs_at positions (cursor + 16 + 8 * k) (enc_positions (concat objs)) \<Longrightarrow>
    k + length (concat objs) \<le> n \<Longrightarrow> n < 2 ^ 32 \<Longrightarrow>
    (\<forall>q. previous = Some q \<longrightarrow> (\<forall>ob\<in>set objs.
       (po_object_type q, po_object_ordinal q) < occ_object (hd ob))) \<Longrightarrow>
    validate_postings dc pc postings positions at cursor (word_of_nat n) (length objs) previous = Inr ()"
proof (induction objs arbitrary: at k previous)
  case Nil
  show ?case by simp
next
  case (Cons items objs)
  have good: "object_good dc pc items" using Cons.prems(1) by simp
  then have ok: "occ_ok dc pc (hd items)" and ne: "items \<noteq> []"
    by (auto simp: object_good_def object_sorted_def)
  have "occurs_at postings at (enc_posting k items)"
    and rest_p: "occurs_at postings (at + POSTING_BYTES) (enc_postings (k + length items) objs)"
    using Cons.prems(3) by (simp_all add: at_simps POSTING_BYTES_def)
  then have parse: "parse_posting (drop at postings) = posting_of k items"
    by (intro parse_posting_at)
  have at: "occurs_at positions (cursor + 16 + 8 * k) (enc_positions items)"
    and rest_q: "occurs_at positions (cursor + 16 + 8 * (k + length items)) (enc_positions (concat objs))"
    using Cons.prems(4) by (simp_all add: enc_positions_append at_simps algebra_simps)
  have vp: "validate_positions positions cursor (posting_of k items) 0 (length items)
      [0, 0, 0] [0, 0, 0] = Inr (tfs (object_counts items))"
    using validate_positions_image[OF good at assms, of "[]" items "[0, 0, 0]" "[0, 0, 0]"] by simp
  have small: "length items < 2 ^ 32" "k < 2 ^ 32"
    using Cons.prems(5,6) by simp_all
  have cnt: "unat (po_position_count (posting_of k items)) = length items"
    using small by (simp add: posting_of_def Let_def unat_small32)
  have tf: "posting_frequency (posting_of k items) = ucast (po_position_count (posting_of k items))"
    "posting_frequency (posting_of k items) \<noteq> 0"
    using posting_of_frequency[OF good, of k] ne by (auto simp: posting_of_def Let_def)
  have off: "\<not> po_position_offset (posting_of k items) + ucast (po_position_count (posting_of k items)) >
      (word_of_nat n :: u64)"
  proof -
    have "unat (po_position_offset (posting_of k items) + ucast (po_position_count (posting_of k items))) =
        k + length items"
      using small cnt by (simp add: unat_word_ariths unat_ucast_32_64 posting_of_def Let_def unat_of_nat)
    then show ?thesis
      using Cons.prems(5,6) by (simp add: word_less_nat_alt unat_of_nat)
  qed
  have prev: "\<not> (case previous of None \<Rightarrow> False | Some q \<Rightarrow>
      po_object_type (posting_of k items) < po_object_type q \<or>
      (po_object_type (posting_of k items) = po_object_type q \<and>
       po_object_ordinal (posting_of k items) \<le> po_object_ordinal q))"
    using Cons.prems(7) by (auto simp: posting_of_def Let_def less_prod_simp split: option.splits)
  have ih: "validate_postings dc pc postings positions (at + POSTING_BYTES) cursor (word_of_nat n)
      (length objs) (Some (posting_of k items)) = Inr ()"
    using Cons.prems rest_p rest_q
    by (intro Cons.IH[where k = "k + length items"]) (auto simp: posting_of_def Let_def)
  have valid: "posting_valid dc pc (posting_of k items)"
    using ok tf by (auto simp: posting_valid_def posting_of_def Let_def occ_ok_def)
  have tfl: "po_term_frequency (posting_of k items) = tfs (object_counts items)"
    by (simp add: posting_of_def Let_def)
  show ?case
    unfolding list.size(4) add_Suc_right add_0_right validate_postings.simps(2) parse Let_def
    using valid off prev ih vp cnt tfl by (auto simp: posting_valid_def lexical_constants)
qed

subsection \<open>Block maxima\<close>

lemma Min_insert2:
  "finite S \<Longrightarrow> Min (insert a (insert b S)) = Min (insert (min a b) (S :: 'a::linorder set))"
  by (cases "S = {}") (simp_all add: min.assoc)

lemma fold_least:
  fixes g :: "'a \<Rightarrow> 'b::linorder"
  shows "fold (\<lambda>x m. if P x \<and> g x < m then g x else m) xs a = Min (insert a (g ` {x \<in> set xs. P x}))"
proof (induction xs arbitrary: a)
  case Nil
  show ?case by simp
next
  case (Cons x xs)
  let ?S = "g ` {x \<in> set xs. P x}"
  have fin: "finite ?S" by simp
  have "Min (insert a (g ` {y \<in> set (x # xs). P y})) =
      Min (insert (if P x \<and> g x < a then g x else a) ?S)"
  proof (cases "P x")
    case True
    then have "insert a (g ` {y \<in> set (x # xs). P y}) = insert a (insert (g x) ?S)" by auto
    also have "Min \<dots> = Min (insert (min a (g x)) ?S)"
      by (rule Min_insert2[OF fin])
    also have "min a (g x) = (if P x \<and> g x < a then g x else a)"
      using True by (auto simp: min_def)
    finally show ?thesis .
  next
    case False
    then have "{y \<in> set (x # xs). P y} = {y \<in> set xs. P y}" by auto
    with False show ?thesis by simp
  qed
  with Cons.IH show ?case by simp
qed

lemma posting_of_min_length:
  assumes "object_good dc pc items"
  shows "posting_min_length (posting_of k items) =
    fold (\<lambda>item len. if occ_field_length item < len then occ_field_length item else len) items (- 1)"
proof -
  let ?c = "object_counts items"
  have ok: "\<forall>x\<in>set items. occ_ok dc pc x" and small: "length items < 2 ^ 32"
    using assms by (simp_all add: object_good_def)
  have tf: "tfs ?c ! f > 0 \<longleftrightarrow> 0 < field_count f items" if "f < 3" for f
    using that object_counts_tf[OF ok] field_count_le[of f items] small
    by (auto simp: less_Suc_eq numeral_3_eq_3 numeral_2_eq_2 word32_pos simp del: of_nat_Suc)
  have len: "lens ?c ! field_index x = occ_field_length x" if "x \<in> set items" for x
  proof -
    have "\<forall>y\<in>set items. occ_field x = occ_field y \<longrightarrow> occ_field_length x = occ_field_length y"
      using assms that unfolding object_good_def by blast
    from object_counts_len[OF ok that this] show ?thesis .
  qed
  have "(!) (lens ?c) ` {f \<in> {..<3}. tfs ?c ! f > 0} = occ_field_length ` set items"
  proof (intro equalityI subsetI)
    fix l assume "l \<in> (!) (lens ?c) ` {f \<in> {..<3}. tfs ?c ! f > 0}"
    then obtain f where f: "f < 3" "tfs ?c ! f > 0" "l = lens ?c ! f"
      unfolding image_iff mem_Collect_eq lessThan_iff by blast
    then obtain x where "x \<in> set items" "field_index x = f"
      using tf field_count_pos by auto
    with len f(3) show "l \<in> occ_field_length ` set items" by auto
  next
    fix l assume "l \<in> occ_field_length ` set items"
    then obtain x where x: "x \<in> set items" "l = occ_field_length x" by auto
    have "field_index x < 3" using field_index_ok(1) ok x(1) by blast
    moreover have "0 < field_count (field_index x) items" using x(1) field_count_pos by auto
    ultimately have "field_index x \<in> {f \<in> {..<3}. tfs ?c ! f > 0}"
      using tf by auto
    moreover have "l = lens ?c ! field_index x"
      unfolding len[OF x(1)] by (rule x(2))
    ultimately show "l \<in> (!) (lens ?c) ` {f \<in> {..<3}. tfs ?c ! f > 0}"
      by (rule image_eqI[rotated])
  qed
  moreover have "posting_min_length (posting_of k items) =
      Min (insert (- 1) ((!) (lens ?c) ` {f \<in> {..<3}. tfs ?c ! f > 0}))"
  proof -
    have "set [0, 1, 2] = {..<3 :: nat}" by auto
    then show ?thesis
      unfolding posting_min_length_def posting_of_def Let_def YAP_V2_POSTING.simps fold_least by simp
  qed
  moreover have "fold (\<lambda>item len. if occ_field_length item < len then occ_field_length item else len)
      items (- 1) = Min (insert (- 1) (occ_field_length ` set items))"
    using fold_least[of "\<lambda>_. True" occ_field_length items "- 1"] by simp
  ultimately show ?thesis by simp
qed

abbreviation block_step :: "YAP_V2_LEXICAL_OCCURRENCE list \<Rightarrow> u32 \<times> u32 \<Rightarrow> u32 \<times> u32" where
  "block_step \<equiv> \<lambda>items (max_tf, min_length).
     let tf = word_of_nat (length items);
         len = fold (\<lambda>item len. if occ_field_length item < len then occ_field_length item else len)
                 items (- 1) in
     (if tf > max_tf then tf else max_tf, if len < min_length then len else min_length)"

lemma block_bounds_image:
  "\<forall>ob\<in>set objs. object_good dc pc ob \<Longrightarrow> occurs_at postings at (enc_postings k objs) \<Longrightarrow>
     block_bounds postings at (length objs) acc = fold block_step objs acc"
proof (induction objs arbitrary: at k acc)
  case Nil
  show ?case by (cases acc) simp
next
  case (Cons items objs)
  have at: "occurs_at postings at (enc_posting k items)"
    and rest: "occurs_at postings (at + POSTING_BYTES) (enc_postings (k + length items) objs)"
    using Cons.prems(2) by (simp_all add: at_simps POSTING_BYTES_def)
  have good: "object_good dc pc items" using Cons.prems(1) by simp
  show ?case
    using Cons.IH[OF _ rest] Cons.prems(1)
    by (cases acc) (simp add: parse_posting_at[OF at] posting_of_frequency(3)[OF good, simplified]
        posting_of_min_length[OF good] Let_def)
qed

lemma block_entry_fold: "block_entry objs = fold block_step objs (0, - 1)"
  by (simp add: block_entry_def)

lemma fold_block_min:
  "snd (fold block_step objs (a, m)) =
     fold (\<lambda>items m. let len = fold (\<lambda>item len. if occ_field_length item < len
         then occ_field_length item else len) items (- 1) in if len < m then len else m) objs m"
  by (induction objs arbitrary: a m) (simp_all add: Let_def)

lemma block_entry_min:
  assumes "objs \<noteq> []" and "\<forall>ob\<in>set objs. object_good dc pc ob"
  shows "snd (block_entry objs) \<noteq> - 1"
proof -
  let ?g = "\<lambda>items. fold (\<lambda>item len. if occ_field_length item < len
         then occ_field_length item else len) items (- 1)"
  have g: "?g items = Min (insert (- 1) (occ_field_length ` set items))" for items
    using fold_least[of "\<lambda>_. True" occ_field_length items "- 1"] by simp
  have snd: "snd (block_entry objs) = Min (insert (- 1) (?g ` set objs))"
  proof -
    have "snd (block_entry objs) = fold (\<lambda>items m. if ?g items < m then ?g items else m) objs (- 1)"
      using fold_block_min[of objs 0 "- 1"] by (simp only: block_entry_fold Let_def)
    then show ?thesis
      using fold_least[of "\<lambda>_. True" ?g objs "- 1"] by simp
  qed
  obtain ob where ob: "ob \<in> set objs" using assms(1) by (meson hd_in_set)
  then have "ob \<noteq> []" "\<forall>x\<in>set ob. occ_field_length x \<noteq> - 1"
    using assms(2) unfolding object_good_def object_sorted_def occ_ok_def by blast+
  then obtain x where x: "x \<in> set ob" "occ_field_length x \<noteq> - 1"
    by (meson hd_in_set)
  have "snd (block_entry objs) \<le> ?g ob"
    unfolding snd by (rule Min_le) (use ob in auto)
  also have "?g ob \<le> occ_field_length x"
    unfolding g by (rule Min_le) (use x in auto)
  finally have le: "snd (block_entry objs) \<le> occ_field_length x" .
  show ?thesis
  proof
    assume "snd (block_entry objs) = - 1"
    with le have "- 1 \<le> occ_field_length x" by simp
    then have "occ_field_length x = - 1" by (rule word_order.extremum_uniqueI)
    with x(2) show False ..
  qed
qed

lemma length_enc_block [simp]: "length (enc_block k objs) = 16"
  by (simp add: enc_block_def split: prod.splits)

lemma block_count_rec: "block_count n = (if n = 0 then 0 else Suc (block_count (n - 128)))"
proof (cases "n \<le> 128")
  case False
  then obtain m where "n = m + 128" using le_Suc_ex by (metis add.commute linear)
  then show ?thesis by (simp add: block_count_def lexical_constants)
qed (auto simp: block_count_def lexical_constants div_nat_eqI)

lemma length_enc_blocks [simp]: "length (enc_blocks k objs) = 16 * block_count (length objs)"
proof (induction k objs rule: enc_blocks.induct)
  case (1 k objs)
  show ?case
  proof (cases "objs = []")
    case True
    then show ?thesis by (simp add: enc_blocks.simps block_count_rec)
  next
    case False
    then show ?thesis
      using "1.IH" by (subst enc_blocks.simps, subst block_count_rec) (simp add: lexical_constants)
  qed
qed

lemma enc_postings_append:
  "enc_postings k (xs @ ys) = enc_postings k xs @ enc_postings (k + length (concat xs)) ys"
  by (induction xs arbitrary: k) (simp_all add: add.assoc)

lemma validate_blocks_image:
  assumes good: "\<forall>ob\<in>set objs. object_good dc pc ob"
    and at: "occurs_at postings pd (enc_postings 0 objs)" and small: "length objs < 2 ^ 31"
  shows "occurs_at postings (bd + 16 * i) (enc_blocks (128 * i) (drop (128 * i) objs)) \<Longrightarrow>
    n = block_count (length objs - 128 * i) \<Longrightarrow>
    validate_blocks postings pd bd (word_of_nat (length objs)) i n = YAP_V2_OK"
proof (induction n arbitrary: i)
  case 0
  show ?case by simp
next
  case (Suc n)
  let ?rest = "drop (128 * i) objs" and ?b = "take 128 (drop (128 * i) objs)"
  have ne: "?rest \<noteq> []" and n: "n = block_count (length objs - 128 * Suc i)"
    using Suc.prems(2) block_count_rec[of "length objs - 128 * i"]
    by (auto simp: add.commute split: if_splits)
  then have lt: "128 * i < length objs" and bne: "?b \<noteq> []" by simp_all
  have blk: "occurs_at postings (bd + 16 * i) (enc_block (128 * i) ?b)"
    and rest: "occurs_at postings (bd + 16 * Suc i) (enc_blocks (128 * i + length ?b) (drop 128 ?rest))"
    using Suc.prems(1) ne by (subst (asm) enc_blocks.simps, simp add: at_simps lexical_constants algebra_simps)+
  have next_rest: "occurs_at postings (bd + 16 * Suc i) (enc_blocks (128 * Suc i) (drop (128 * Suc i) objs))"
  proof (cases "drop 128 ?rest = []")
    case True
    then have "drop (128 * Suc i) objs = []" by (simp add: algebra_simps)
    with rest True show ?thesis by (simp add: enc_blocks.simps)
  next
    case False
    then have "length ?b = 128" by simp
    with rest show ?thesis by (simp add: algebra_simps)
  qed
  obtain mx mn where e: "block_entry ?b = (mx, mn)" by fastforce
  have goodb: "\<forall>ob\<in>set ?b. object_good dc pc ob"
    using good by (meson in_set_dropD in_set_takeD)
  have mn: "mn \<noteq> - 1"
    using block_entry_min[OF bne goodb] e by simp
  let ?B = "drop (bd + i * BLOCK_BYTES) postings"
  have fields: "get_u32 ?B = word_of_nat (128 * i)" "get_u32 (drop 4 ?B) = word_of_nat (length ?b)"
    "get_u32 (drop 8 ?B) = mx" "get_u32 (drop 12 ?B) = mn"
    using blk mn unfolding enc_block_def e BLOCK_BYTES_def
    by (simp_all add: at_simps get_u32_at add.commute mult.commute)
  have objs: "objs = take (128 * i) objs @ ?b @ drop 128 ?rest"
    by (metis append_take_drop_id)
  have "occurs_at postings (pd + 128 * i * POSTING_BYTES)
      (enc_postings (0 + length (concat (take (128 * i) objs))) ?b)"
    using at lt by (subst (asm) objs) (simp add: enc_postings_append at_simps POSTING_BYTES_def algebra_simps)
  from block_bounds_image[OF goodb this] have bounds:
    "block_bounds postings (pd + 128 * i * POSTING_BYTES) (length ?b) (0, - 1) = (mx, mn)"
    using e by (simp add: block_entry_fold)
  have len: "0 < length ?b" "length ?b \<le> 128" "128 * i + length ?b \<le> length objs"
    using lt by (auto simp: min_def)
  have "128 * i < 2 ^ 32" "length ?b < 2 ^ 32"
    using len small lt by (simp_all del: length_take)
  note a = this
  have u: "unat (word_of_nat (128 * i) :: u32) = 128 * i" "unat (word_of_nat (length ?b) :: u32) = length ?b"
    by (fact unat_small32[OF a(1)], fact unat_small32[OF a(2)])
  have ucmp: "\<not> ucast (word_of_nat (128 * i) + word_of_nat (length ?b) :: u32) >
      (word_of_nat (length objs) :: u64)"
  proof -
    have "unat (word_of_nat (128 * i) + word_of_nat (length ?b) :: u32) = 128 * i + length ?b"
      unfolding of_nat_add[symmetric] using len small by (intro unat_small32) (simp del: length_take)
    then show ?thesis
      using len small by (simp add: word_less_nat_alt unat_ucast_32_64 unat_small64 del: length_take)
  qed
  have "word_of_nat (length ?b) \<noteq> (0 :: u32)"
    using u(2) len(1) by (metis unsigned_0 less_numeral_extra(3))
  then show ?case
    using len ucmp bounds Suc.IH[OF next_rest n]
    unfolding validate_blocks.simps(2) Let_def fields u lexical_constants
    by (simp add: mult.commute del: length_take)
qed

subsection \<open>Reading one term\<close>

definition term_good :: "u64 \<Rightarrow> u64 \<Rightarrow> YAP_V2_LEXICAL_OCCURRENCE list \<Rightarrow> bool" where
  "term_good dc pc items \<longleftrightarrow> term_sorted items \<and> (\<forall>x\<in>set items. occ_ok dc pc x) \<and>
     (\<forall>x\<in>set items. \<forall>y\<in>set items. occ_object x = occ_object y \<longrightarrow> occ_field x = occ_field y \<longrightarrow>
        occ_field_length x = occ_field_length y)"

lemma length_enc_posting_entry:
  "length (enc_posting_entry ord items) =
     20 + 48 * length (term_objects items) + 16 * block_count (length (term_objects items))"
  by (simp add: enc_posting_entry_def)

lemma length_enc_position_entry: "length (enc_position_entry ord items) = 16 + 8 * length items"
  by (simp add: enc_position_entry_def)

lemma run_length: "r \<in> set (runs same xs) \<Longrightarrow> length r \<le> length xs"
proof -
  assume "r \<in> set (runs same xs)"
  then have "length r \<le> sum_list (map length (runs same xs))"
    by (intro member_le_sum_list) auto
  also have "\<dots> = length (concat (runs same xs))"
    by (simp add: length_concat)
  finally show ?thesis by (simp add: runs_concat)
qed

lemma term_good_objects:
  assumes "term_good dc pc items" and "length items < 2 ^ 32"
  shows "\<forall>ob\<in>set (term_objects items). object_good dc pc ob"
    and "sorted_wrt (<) (map (\<lambda>ob. occ_object (hd ob)) (term_objects items))"
    and "term_objects items \<noteq> []" and "items \<noteq> []"
proof -
  show ne: "items \<noteq> []" using assms(1) unfolding term_good_def term_sorted_def by (elim conjE)
  then show "term_objects items \<noteq> []" by (cases items) simp_all
  show "sorted_wrt (<) (map (\<lambda>ob. occ_object (hd ob)) (term_objects items))"
    using assms(1) unfolding term_good_def term_sorted_def by (elim conjE)
  show "\<forall>ob\<in>set (term_objects items). object_good dc pc ob"
  proof
    fix ob assume ob: "ob \<in> set (term_objects items)"
    have mem: "x \<in> set items" if "x \<in> set ob" for x using run_members[OF ob that] .
    have srt: "object_sorted ob"
      using assms(1) ob unfolding term_good_def term_sorted_def by blast
    have one: "occ_object z = occ_object (hd ob)" if "z \<in> set ob" for z
      using srt that unfolding object_sorted_def by blast
    have "occ_object x = occ_object y" if "x \<in> set ob" "y \<in> set ob" for x y
      using one[OF that(1)] one[OF that(2)] by simp
    then have "\<forall>x\<in>set ob. \<forall>y\<in>set ob. occ_field x = occ_field y \<longrightarrow> occ_field_length x = occ_field_length y"
      using assms(1) mem unfolding term_good_def by blast
    moreover have "\<forall>x\<in>set ob. occ_ok dc pc x"
      using assms(1) mem unfolding term_good_def by blast
    moreover have "length ob < 2 ^ 32"
      using run_length[OF ob] assms(2) by simp
    ultimately show "object_good dc pc ob"
      using srt unfolding object_good_def by blast
  qed
qed

definition entry_of :: "nat \<Rightarrow> nat \<Rightarrow> nat \<Rightarrow> YAP_V2_LEXICAL_OCCURRENCE list \<Rightarrow> YAP_V2_TERM_ENTRY" where
  "entry_of ord poff qoff items =
     \<lparr>te_term = occ_term (hd items),
      te_document_frequency = word_of_nat (length (term_objects items)),
      te_postings_offset = word_of_nat poff,
      te_postings_bytes = word_of_nat (length (enc_posting_entry ord items)),
      te_positions_offset = word_of_nat qoff,
      te_positions_bytes = word_of_nat (length (enc_position_entry ord items))\<rparr>"

lemma ucast_small: "n < 2 ^ 32 \<Longrightarrow> (ucast (word_of_nat n :: u32) :: u64) = word_of_nat n"
  by (simp add: word_unat_eq_iff unat_ucast_32_64 unat_of_nat)

lemma block_count_le: "block_count n \<le> n"
  by (simp add: block_count_def lexical_constants)

lemma validate_term_image:
  assumes good: "term_good dc pc items"
    and p: "occurs_at postings pcur (enc_posting_entry ord items)"
    and q: "occurs_at positions qcur (enc_position_entry ord items)"
    and cur: "YAP_V2_FILE_HEADER_BYTES \<le> pcur" "YAP_V2_FILE_HEADER_BYTES \<le> qcur"
    and len: "length postings < 2 ^ 31" "length positions < 2 ^ 31" and ord: "ord < 2 ^ 31"
  shows "validate_term dc pc postings positions ord
      (entry_of ord (pcur - YAP_V2_FILE_HEADER_BYTES) (qcur - YAP_V2_FILE_HEADER_BYTES) items)
      pcur qcur = Inr (word_of_nat (length items))"
proof -
  let ?objs = "term_objects items" and ?df = "length (term_objects items)"
  let ?bc = "block_count (length (term_objects items))"
  note bp = occurs_at_bound[OF p, unfolded length_enc_posting_entry]
    and bq = occurs_at_bound[OF q, unfolded length_enc_position_entry]
  have small: "?df < 2 ^ 31" "length items < 2 ^ 31" "?bc < 2 ^ 31"
    using bp bq len block_count_le[of ?df] by simp_all
  have items32: "length items < 2 ^ 32" using small(2) by simp
  note objs = term_good_objects[OF good items32]
  have up: "unat (word_of_nat (20 + 48 * ?df + 16 * ?bc) :: u64) = 20 + 48 * ?df + 16 * ?bc"
    "unat (word_of_nat (16 + 8 * length items) :: u64) = 16 + 8 * length items"
    "unat (word_of_nat (pcur - YAP_V2_FILE_HEADER_BYTES) :: u64) = pcur - YAP_V2_FILE_HEADER_BYTES"
    "unat (word_of_nat (qcur - YAP_V2_FILE_HEADER_BYTES) :: u64) = qcur - YAP_V2_FILE_HEADER_BYTES"
    "unat (word_of_nat ?df :: u64) = ?df" "unat (word_of_nat ord :: u64) = ord"
    "unat (word_of_nat (length items) :: u64) = length items"
    using bp bq len small ord by (intro unat_small64; simp)+
  have bc: "unat (word_of_nat ?bc :: u32) = ?bc"
    using small by (intro unat_small32) simp
  let ?P = "drop pcur postings" and ?Q = "drop qcur positions"
  have fp: "get_u64 ?P = word_of_nat ord" "get_u64 (drop 8 ?P) = word_of_nat ?df"
    "get_u32 (drop 16 ?P) = word_of_nat ?bc"
    using p unfolding enc_posting_entry_def by (simp_all add: at_simps get_u32_at get_u64_at add.commute)
  have fq: "get_u64 ?Q = word_of_nat ord" "get_u64 (drop 8 ?Q) = word_of_nat (length items)"
    using q unfolding enc_position_entry_def by (simp_all add: at_simps get_u64_at add.commute)
  have atp: "occurs_at postings (pcur + 20) (enc_postings 0 ?objs)"
    and atb: "occurs_at postings (pcur + 20 + ?df * POSTING_BYTES + 16 * 0) (enc_blocks (128 * 0) (drop (128 * 0) ?objs))"
    using p unfolding enc_posting_entry_def by (simp_all add: at_simps POSTING_BYTES_def algebra_simps)
  have atq: "occurs_at positions (qcur + 16 + 8 * 0) (enc_positions (concat ?objs))"
    using q unfolding enc_position_entry_def by (simp add: at_simps runs_concat algebra_simps)
  have df_ok: "unat (word_of_nat ?df :: u64) \<le> (SIZE_MAX - 20) div POSTING_BYTES"
    using small(1) unfolding up by (simp add: POSTING_BYTES_def)
  have blocks: "(ucast (word_of_nat ?bc :: u32) :: u64) =
      (word_of_nat ?df + word_of_nat YAP_V2_POSTINGS_BLOCK_SIZE - 1) div word_of_nat YAP_V2_POSTINGS_BLOCK_SIZE"
    unfolding word_unat_eq_iff block_count_word[OF df_ok] unat_ucast_32_64 bc up ..
  have bytes: "20 + word_of_nat ?df * word_of_nat POSTING_BYTES +
      ucast (word_of_nat ?bc :: u32) * word_of_nat BLOCK_BYTES = (word_of_nat (20 + 48 * ?df + 16 * ?bc) :: u64)"
    using small(3) by (simp add: ucast_small POSTING_BYTES_def BLOCK_BYTES_def)
  have vp: "validate_postings dc pc postings positions (pcur + 20) qcur (word_of_nat (length items)) ?df None = Inr ()"
    by (rule validate_postings_image[OF _ objs(1,2) atp atq])
       (use len small in \<open>simp_all add: runs_concat\<close>)
  have vb: "validate_blocks postings (pcur + 20) (pcur + 20 + ?df * POSTING_BYTES) (word_of_nat ?df) 0 ?bc = YAP_V2_OK"
    by (rule validate_blocks_image[OF objs(1) atp small(1) atb]) simp
  have rec: "\<not> (SIZE_MAX - 16) div 8 < length items"
    "16 + word_of_nat (length items) * 8 = (word_of_nat (16 + 8 * length items) :: u64)"
    using small by (simp_all add: mult.commute)
  have rng: "range_valid pcur (20 + 48 * ?df + 16 * ?bc) (length postings)"
    "range_valid qcur (16 + 8 * length items) (length positions)"
    "range_valid pcur 20 (length postings)" "range_valid qcur 16 (length positions)"
    using bp bq by (simp_all add: range_valid_def)
  show ?thesis
    unfolding validate_term_def Let_def entry_of_def YAP_V2_TERM_ENTRY.simps fp fq up bc
      length_enc_posting_entry length_enc_position_entry blocks[symmetric] bytes rec(2)
    using rng df_ok rec(1) vp vb by (simp add: up)
qed

subsection \<open>Reading the whole index\<close>

fun entries_of :: "nat \<Rightarrow> nat \<Rightarrow> nat \<Rightarrow> YAP_V2_LEXICAL_OCCURRENCE list list \<Rightarrow> YAP_V2_TERM_ENTRY list" where
  "entries_of ord poff qoff [] = []"
| "entries_of ord poff qoff (items # groups) =
     entry_of ord poff qoff items #
     entries_of (Suc ord) (poff + length (enc_posting_entry ord items))
       (qoff + length (enc_position_entry ord items)) groups"

lemma length_enc_term_entry:
  "length (enc_term_entry ord poff qoff items) = 44 + length (occ_term (hd items))"
  by (simp add: enc_term_entry_def)

lemma read_terms_image:
  "\<forall>items\<in>set groups. occ_term (hd items) \<noteq> [] \<and> length (occ_term (hd items)) \<le> UINT32_MAX \<and>
     0 < length (term_objects items) \<and> length (term_objects items) < 2 ^ 64 \<Longrightarrow>
   sorted_wrt (<) (map (\<lambda>items. occ_term (hd items)) groups) \<Longrightarrow>
   (\<forall>p. previous = Some p \<longrightarrow> (\<forall>items\<in>set groups. te_term p < occ_term (hd items))) \<Longrightarrow>
   occurs_at data off (enc_term_entries ord poff qoff groups) \<Longrightarrow>
   read_terms data (length data) (length groups) previous off =
     Inr (entries_of ord poff qoff groups, off + length (enc_term_entries ord poff qoff groups))"
proof (induction groups arbitrary: previous off ord poff qoff)
  case Nil
  show ?case by simp
next
  case (Cons items groups)
  let ?t = "occ_term (hd items)" and ?e = "entry_of ord poff qoff items"
  let ?f = "drop (off + 4 + length ?t) data"
  have t: "?t \<noteq> []" "length ?t \<le> UINT32_MAX" "0 < length (term_objects items)"
    "length (term_objects items) < 2 ^ 64"
    using Cons.prems(1) by simp_all
  have at: "occurs_at data off (enc_term_entry ord poff qoff items)"
    and rest: "occurs_at data (off + (44 + length ?t))
      (enc_term_entries (Suc ord) (poff + length (enc_posting_entry ord items))
       (qoff + length (enc_position_entry ord items)) groups)"
    using Cons.prems(4) by (simp_all add: at_simps length_enc_term_entry)
  have len: "unat (get_u32 (drop off data)) = length ?t"
  proof -
    have "occurs_at data off (put_u32_le (word_of_nat (length ?t)))"
      using at unfolding enc_term_entry_def by (simp add: at_simps)
    from get_u32_at[OF this] t(2) show ?thesis by simp
  qed
  have bytes: "take (length ?t) (drop (off + 4) data) = ?t"
    using at unfolding enc_term_entry_def by (simp add: at_simps occurs_at_take)
  have fields: "get_u64 ?f = te_document_frequency ?e" "get_u64 (drop 8 ?f) = te_postings_offset ?e"
    "get_u64 (drop 16 ?f) = te_postings_bytes ?e" "get_u64 (drop 24 ?f) = te_positions_offset ?e"
    "get_u64 (drop 32 ?f) = te_positions_bytes ?e"
    using at unfolding enc_term_entry_def entry_of_def
    by (simp_all add: at_simps get_u64_at add.commute)
  have rng: "range_valid off 4 (length data)" "range_valid (off + 4) (length ?t + 40) (length data)"
    using occurs_at_bound[OF at] by (simp_all add: range_valid_def length_enc_term_entry)
  have df: "te_document_frequency ?e \<noteq> 0"
    using t(3,4) by (simp add: entry_of_def word_unat_eq_iff unat_small64)
  have prev: "\<not> (case previous of None \<Rightarrow> False | Some p \<Rightarrow> term_compare (te_term p) ?t \<ge> 0)"
    using Cons.prems(3) term_compare_less by (auto split: option.splits simp: not_le)
  have entry: "\<lparr>te_term = ?t, te_document_frequency = te_document_frequency ?e,
      te_postings_offset = te_postings_offset ?e, te_postings_bytes = te_postings_bytes ?e,
      te_positions_offset = te_positions_offset ?e, te_positions_bytes = te_positions_bytes ?e\<rparr> = ?e"
    by (simp add: entry_of_def)
  have ih: "read_terms data (length data) (length groups) (Some ?e) (off + 4 + length ?t + 40) =
     Inr (entries_of (Suc ord) (poff + length (enc_posting_entry ord items))
       (qoff + length (enc_position_entry ord items)) groups,
       off + 4 + length ?t + 40 + length (enc_term_entries (Suc ord) (poff + length (enc_posting_entry ord items))
       (qoff + length (enc_position_entry ord items)) groups))"
    using Cons.prems rest by (intro Cons.IH) (auto simp: entry_of_def add.commute add.left_commute)
  show ?case
    unfolding list.size(4) add_Suc_right add_0_right read_terms.simps(2) Let_def len bytes fields entry
    using rng t(1) df prev ih by (simp add: length_enc_term_entry)
qed

lemma validate_terms_image:
  "\<forall>items\<in>set groups. term_good dc pc items \<Longrightarrow>
   occurs_at postings pcur (enc_posting_entries ord groups) \<Longrightarrow>
   occurs_at positions qcur (enc_position_entries ord groups) \<Longrightarrow>
   YAP_V2_FILE_HEADER_BYTES \<le> pcur \<Longrightarrow> YAP_V2_FILE_HEADER_BYTES \<le> qcur \<Longrightarrow>
   length postings < 2 ^ 31 \<Longrightarrow> length positions < 2 ^ 31 \<Longrightarrow> ord + length groups < 2 ^ 31 \<Longrightarrow>
   validate_terms dc pc postings positions ord
     (entries_of ord (pcur - YAP_V2_FILE_HEADER_BYTES) (qcur - YAP_V2_FILE_HEADER_BYTES) groups)
     pcur qcur a b =
   Inr (pcur + length (enc_posting_entries ord groups), qcur + length (enc_position_entries ord groups),
     a + word_of_nat (object_total groups), b + word_of_nat (length (concat groups)))"
proof (induction groups arbitrary: ord pcur qcur a b)
  case Nil
  show ?case by (simp add: object_total_def)
next
  case (Cons items groups)
  let ?e = "entry_of ord (pcur - YAP_V2_FILE_HEADER_BYTES) (qcur - YAP_V2_FILE_HEADER_BYTES) items"
  let ?p = "length (enc_posting_entry ord items)" and ?q = "length (enc_position_entry ord items)"
  have at: "occurs_at postings pcur (enc_posting_entry ord items)"
    "occurs_at postings (pcur + ?p) (enc_posting_entries (Suc ord) groups)"
    "occurs_at positions qcur (enc_position_entry ord items)"
    "occurs_at positions (qcur + ?q) (enc_position_entries (Suc ord) groups)"
    using Cons.prems(2,3) by (simp_all add: at_simps)
  have v: "validate_term dc pc postings positions ord ?e pcur qcur = Inr (word_of_nat (length items))"
    using Cons.prems at by (intro validate_term_image) auto
  have "?p < 2 ^ 64" "?q < 2 ^ 64"
    using occurs_at_bound[OF at(1)] occurs_at_bound[OF at(3)] Cons.prems(6,7) by simp_all
  then have u: "unat (te_postings_bytes ?e) = ?p" "unat (te_positions_bytes ?e) = ?q"
    by (simp_all add: entry_of_def unat_small64)
  have sub: "pcur - YAP_V2_FILE_HEADER_BYTES + ?p = pcur + ?p - YAP_V2_FILE_HEADER_BYTES"
    "qcur - YAP_V2_FILE_HEADER_BYTES + ?q = qcur + ?q - YAP_V2_FILE_HEADER_BYTES"
    using Cons.prems(4,5) by simp_all
  have "validate_terms dc pc postings positions (Suc ord)
     (entries_of (Suc ord) (pcur + ?p - YAP_V2_FILE_HEADER_BYTES)
        (qcur + ?q - YAP_V2_FILE_HEADER_BYTES) groups)
     (pcur + ?p) (qcur + ?q) (a + te_document_frequency ?e) (b + word_of_nat (length items)) =
   Inr (pcur + ?p + length (enc_posting_entries (Suc ord) groups),
     qcur + ?q + length (enc_position_entries (Suc ord) groups),
     a + te_document_frequency ?e + word_of_nat (object_total groups),
     b + word_of_nat (length items) + word_of_nat (length (concat groups)))"
    using Cons.prems at by (intro Cons.IH) auto
  moreover have "te_document_frequency ?e = word_of_nat (length (term_objects items))"
    by (simp add: entry_of_def)
  ultimately show ?case
    unfolding entries_of.simps validate_terms.simps(2) v rbind.simps u sub
    by (simp add: object_total_def add.assoc)
qed

text \<open>What a set of term runs needs for its three payloads to be read back.\<close>

definition groups_good :: "u64 \<Rightarrow> u64 \<Rightarrow> YAP_V2_LEXICAL_OCCURRENCE list list \<Rightarrow> bool" where
  "groups_good dc pc groups \<longleftrightarrow> (\<forall>items\<in>set groups. term_good dc pc items) \<and>
     sorted_wrt (<) (map (\<lambda>items. occ_term (hd items)) groups)"

lemma length_enc_term_entries_ge: "44 * length groups \<le> length (enc_term_entries ord poff qoff groups)"
  by (induction ord poff qoff groups rule: enc_term_entries.induct)
     (simp_all add: length_enc_term_entry)

lemma group_size_bounds:
  "items \<in> set groups \<Longrightarrow> length (term_objects items) \<le> length (enc_posting_entries ord groups)"
  "items \<in> set groups \<Longrightarrow> length items \<le> length (enc_position_entries ord groups)"
  by (induction groups arbitrary: ord)
     (auto simp: length_enc_posting_entry length_enc_position_entry intro: trans_le_add2)

subsection \<open>Files\<close>

definition lexical_path :: "string \<Rightarrow> nat \<Rightarrow> string" where
  "lexical_path dir i = dir @ ''/'' @ lexical_names ! i"

lemma lexical_path_neq:
  assumes "i < 3" "j < 3" "i \<noteq> j"
  shows "lexical_path dir i \<noteq> lexical_path dir j"
    and "lexical_path dir i \<noteq> temporary_path (lexical_path dir j)"
  using assms
  by (auto simp: lexical_path_def lexical_names_def temporary_path_def less_Suc_eq numeral_3_eq_3)

lemma write_component_Inr:
  assumes "write_component io short back path t g payload records = (Inr c, ops)"
    and "length payload \<le> YAP_V2_MAX_SEGMENT_PAYLOAD_BYTES"
  shows "\<exists>image. seal_frame t g payload = Inr image \<and>
    write_replace io short path image = (YAP_V2_OK, ops)"
  using assms unfolding write_component_def seal_frame_def
  by (auto simp: storage_limits split: sum.splits prod.splits if_splits)

lemma write_component_run:
  assumes "write_component io short back path t g payload records = (Inr c, ops)"
    and "length payload \<le> YAP_V2_MAX_SEGMENT_PAYLOAD_BYTES"
  shows "\<exists>image. seal_frame t g payload = Inr image \<and> run_ops ops fs path = Some image \<and>
    (\<forall>q. q \<noteq> path \<longrightarrow> q \<noteq> temporary_path path \<longrightarrow> run_ops ops fs q = fs q)"
  using write_component_Inr[OF assms] replace_writer.ok_new replace_writer.other_paths by blast

lemma write_components_run:
  assumes "write_components mem ios short back dir g [0, 1, 2] [p0, p1, p2] records = (Inr cs, ops)"
    and "length p0 \<le> YAP_V2_MAX_SEGMENT_PAYLOAD_BYTES" "length p1 \<le> YAP_V2_MAX_SEGMENT_PAYLOAD_BYTES"
      "length p2 \<le> YAP_V2_MAX_SEGMENT_PAYLOAD_BYTES"
  shows "\<exists>f0 f1 f2. seal_frame YAP_V2_FILE_TERMS g p0 = Inr f0 \<and>
    seal_frame YAP_V2_FILE_POSTINGS g p1 = Inr f1 \<and> seal_frame YAP_V2_FILE_POSITIONS g p2 = Inr f2 \<and>
    run_ops ops fs (lexical_path dir 0) = Some f0 \<and> run_ops ops fs (lexical_path dir 1) = Some f1 \<and>
    run_ops ops fs (lexical_path dir 2) = Some f2"
proof -
  obtain c0 c1 c2 ops0 ops1 ops2 where
    w: "write_component (ios 0) short (back 0) (lexical_path dir 0) YAP_V2_FILE_TERMS g p0 (records ! 0) = (Inr c0, ops0)"
    "write_component (ios 1) short (back 1) (lexical_path dir 1) YAP_V2_FILE_POSTINGS g p1 (records ! 1) = (Inr c1, ops1)"
    "write_component (ios 2) short (back 2) (lexical_path dir 2) YAP_V2_FILE_POSITIONS g p2 (records ! 2) = (Inr c2, ops2)"
    and ops: "ops = ops0 @ ops1 @ ops2"
    using assms(1) unfolding write_components.simps Let_def lexical_path_def lexical_types_def
    by (auto simp: result_simps split: if_splits sum.split_asm prod.split_asm)
  let ?fs1 = "run_ops ops0 fs" let ?fs2 = "run_ops ops1 ?fs1"
  obtain f0 where f0: "seal_frame YAP_V2_FILE_TERMS g p0 = Inr f0" "?fs1 (lexical_path dir 0) = Some f0"
    using write_component_run[OF w(1) assms(2)] by blast
  obtain f1 where f1: "seal_frame YAP_V2_FILE_POSTINGS g p1 = Inr f1" "?fs2 (lexical_path dir 1) = Some f1"
    and keep1: "\<forall>q. q \<noteq> lexical_path dir 1 \<longrightarrow> q \<noteq> temporary_path (lexical_path dir 1) \<longrightarrow> ?fs2 q = ?fs1 q"
    using write_component_run[OF w(2) assms(3)] by blast
  obtain f2 where f2: "seal_frame YAP_V2_FILE_POSITIONS g p2 = Inr f2"
    "run_ops ops2 ?fs2 (lexical_path dir 2) = Some f2"
    and keep2: "\<forall>q. q \<noteq> lexical_path dir 2 \<longrightarrow> q \<noteq> temporary_path (lexical_path dir 2) \<longrightarrow>
      run_ops ops2 ?fs2 q = ?fs2 q"
    using write_component_run[OF w(3) assms(4)] by blast
  show ?thesis
    using f0 f1 f2 keep1 keep2 lexical_path_neq[of _ _ dir]
    by (auto simp: ops run_ops_append)
qed

lemma map_component_sealed:
  assumes "seal_frame t g payload = Inr content" and "fs path = Some content"
    and "length payload \<le> YAP_V2_MAX_SEGMENT_PAYLOAD_BYTES" and "eg = 0 \<or> eg = g"
    and "\<And>c. io c"
  shows "map_component io fs path t eg = Inr (content, g)"
proof -
  obtain hb where hb: "content = hb @ payload" "length hb = YAP_V2_FILE_HEADER_BYTES"
    "\<And>rest. YAP_V2_file_header_decode (hb @ rest) = Inr
        \<lparr>hdr_format_version = YAP_V2_FORMAT_VERSION,
         hdr_header_bytes = word_of_nat YAP_V2_FILE_HEADER_BYTES, hdr_file_type = t,
         hdr_generation = g, hdr_payload_bytes = word_of_nat (length payload),
         hdr_payload_crc32c = crc32c payload\<rparr>"
    using seal_frame_Inr[OF assms(1)] by metis
  have "unat (word_of_nat (length payload) :: u64) = length payload"
    using assms(3) by (intro unat_small64) (simp add: storage_limits)
  then show ?thesis
    using assms(2-5) hb by (auto simp: map_component_def crc32c_branch_eq)
qed

lemma map_components_sealed:
  assumes "seal_frame YAP_V2_FILE_TERMS g p0 = Inr f0" "seal_frame YAP_V2_FILE_POSTINGS g p1 = Inr f1"
    "seal_frame YAP_V2_FILE_POSITIONS g p2 = Inr f2"
    and "fs (lexical_path dir 0) = Some f0" "fs (lexical_path dir 1) = Some f1"
      "fs (lexical_path dir 2) = Some f2"
    and "length p0 \<le> YAP_V2_MAX_SEGMENT_PAYLOAD_BYTES" "length p1 \<le> YAP_V2_MAX_SEGMENT_PAYLOAD_BYTES"
      "length p2 \<le> YAP_V2_MAX_SEGMENT_PAYLOAD_BYTES"
    and eg: "eg = 0 \<or> eg = g" and io: "\<And>i c. ios i c" and mem: "\<And>n. mem n"
  shows "map_components mem ios fs dir eg [0, 1, 2] [] 0 = Inr ([f0, f1, f2], g)"
proof -
  have m: "map_component (ios 0) fs (lexical_path dir 0) YAP_V2_FILE_TERMS eg = Inr (f0, g)"
    "map_component (ios 1) fs (lexical_path dir 1) YAP_V2_FILE_POSTINGS eg = Inr (f1, g)"
    "map_component (ios 2) fs (lexical_path dir 2) YAP_V2_FILE_POSITIONS eg = Inr (f2, g)"
    by (fact map_component_sealed[where io = "ios 0" and fs = fs and path = "lexical_path dir 0",
          OF assms(1) assms(4) assms(7) eg io],
        fact map_component_sealed[where io = "ios 1" and fs = fs and path = "lexical_path dir 1",
          OF assms(2) assms(5) assms(8) eg io],
        fact map_component_sealed[where io = "ios 2" and fs = fs and path = "lexical_path dir 2",
          OF assms(3) assms(6) assms(9) eg io])
  then show ?thesis
    using mem by (simp add: lexical_path_def lexical_types_def Let_def)
qed

definition segment_of ::
  "bytes \<Rightarrow> bytes \<Rightarrow> bytes \<Rightarrow> u64 \<Rightarrow> nat \<Rightarrow> nat \<Rightarrow> u64 list \<Rightarrow> YAP_V2_LEXICAL_OCCURRENCE list list \<Rightarrow>
     YAP_V2_LEXICAL_SEGMENT" where
  "segment_of f0 f1 f2 g dc pc totals groups =
     \<lparr>lx_maps = [f0, f1, f2], lx_generation = g, lx_document_count = word_of_nat dc,
      lx_passage_count = word_of_nat pc, lx_posting_count = word_of_nat (object_total groups),
      lx_position_count = word_of_nat (length (concat groups)),
      lx_field_token_count = [totals ! 0, totals ! 1, totals ! 2],
      lx_terms = entries_of 0 56 12 groups\<rparr>"

lemma entry_size_arith:
  "0 < b \<Longrightarrow> 84 * n \<le> m \<Longrightarrow> 0 < l \<Longrightarrow> 84 * (n + Suc 0) \<le> 20 + 48 * l + 16 * b + m" for b n m l :: nat
  by simp

lemma length_enc_posting_entries_ge:
  "\<forall>items\<in>set groups. items \<noteq> [] \<Longrightarrow> 84 * length groups \<le> length (enc_posting_entries ord groups)"
proof (induction groups arbitrary: ord)
  case (Cons items groups)
  have "items \<noteq> []" using Cons.prems by simp
  then have "0 < length (term_objects items)" by (cases items) simp_all
  then have "0 < block_count (length (term_objects items))"
    using block_count_rec[of "length (term_objects items)"] by simp
  moreover have "84 * length groups \<le> length (enc_posting_entries (Suc ord) groups)"
    using Cons by simp
  ultimately show ?case
    using \<open>0 < length (term_objects items)\<close>
    unfolding enc_posting_entries.simps length_append length_enc_posting_entry list.size(4)
    by (rule entry_size_arith)
qed simp

lemma file_payload_at:
  assumes "seal_frame t g payload = Inr content"
  shows "occurs_at content YAP_V2_FILE_HEADER_BYTES payload"
    and "length content = YAP_V2_FILE_HEADER_BYTES + length payload"
  using seal_frame_length[OF assms] by (auto simp: occurs_at_def)

lemma groups_good_terms:
  assumes "groups_good dc pc groups" and "items \<in> set groups"
  shows "items \<noteq> []" and "occ_term (hd items) \<noteq> []" and "length (occ_term (hd items)) \<le> UINT32_MAX"
    and "0 < length (term_objects items)"
proof -
  have tg: "term_good dc pc items" using assms unfolding groups_good_def by blast
  then show ne: "items \<noteq> []" unfolding term_good_def term_sorted_def by (elim conjE)
  then have "hd items \<in> set items" by simp
  then have "occ_ok dc pc (hd items)" using tg unfolding term_good_def by blast
  then show "occ_term (hd items) \<noteq> []" "length (occ_term (hd items)) \<le> UINT32_MAX"
    by (simp_all add: occ_ok_def)
  show "0 < length (term_objects items)" using ne by (cases items) simp_all
qed

lemma payload_fits31:
  assumes "seal_frame t g payload = Inr content"
    and "length payload \<le> YAP_V2_MAX_SEGMENT_PAYLOAD_BYTES"
  shows "length content < 2 ^ 31"
  using file_payload_at(2)[OF assms(1)] assms(2) by (simp add: storage_limits)

lemma group_bounds:
  assumes good: "groups_good dc' pc' groups"
    and l1: "length (postings_payload dc pc totals groups) \<le> YAP_V2_MAX_SEGMENT_PAYLOAD_BYTES"
  shows "length groups \<le> YAP_V2_MAX_SEGMENT_PAYLOAD_BYTES div 56"
    and "items \<in> set groups \<Longrightarrow> length (term_objects items) < 2 ^ 31"
proof -
  have ge: "length (enc_posting_entries 0 groups) \<le> YAP_V2_MAX_SEGMENT_PAYLOAD_BYTES"
    using l1 by (simp add: postings_payload_def)
  have "84 * length groups \<le> length (enc_posting_entries 0 groups)"
    using groups_good_terms(1)[OF good] by (intro length_enc_posting_entries_ge) blast
  with ge show "length groups \<le> YAP_V2_MAX_SEGMENT_PAYLOAD_BYTES div 56"
    by (simp add: storage_limits)
  show "length (term_objects items) < 2 ^ 31" if "items \<in> set groups"
    using group_size_bounds(1)[OF that, of 0] ge by (simp add: storage_limits)
qed

lemma term_stream_image:
  assumes good: "groups_good dc' pc' groups"
    and f0: "seal_frame YAP_V2_FILE_TERMS g (terms_payload groups) = Inr f0"
    and l1: "length (postings_payload dc pc totals groups) \<le> YAP_V2_MAX_SEGMENT_PAYLOAD_BYTES"
    and mem: "\<And>n. mem n"
  shows "validate_term_stream mem f0 = Inr (entries_of 0 56 12 groups)"
proof -
  let ?h = YAP_V2_FILE_HEADER_BYTES
  note at = file_payload_at(1)[OF f0, unfolded terms_payload_def at_simps, simplified]
  have ver: "get_u32 (drop ?h f0) = YAP_V2_LEXICAL_PAYLOAD_VERSION"
    using at by (intro get_u32_at) blast
  have cnt: "get_u64 (drop (?h + 4) f0) = word_of_nat (length groups)"
    using at by (intro get_u64_at) blast
  note b = group_bounds[OF good l1]
  have u: "unat (word_of_nat (length groups) :: u64) = length groups"
    using b(1) by (intro unat_small64) (simp add: storage_limits)
  have len: "length f0 = ?h + 12 + length (enc_term_entries 0 56 12 groups)"
    using file_payload_at(2)[OF f0] by (simp add: terms_payload_def)
  have "\<forall>items\<in>set groups. occ_term (hd items) \<noteq> [] \<and> length (occ_term (hd items)) \<le> UINT32_MAX \<and>
     0 < length (term_objects items) \<and> length (term_objects items) < 2 ^ 64"
  proof
    fix items assume i: "items \<in> set groups"
    show "occ_term (hd items) \<noteq> [] \<and> length (occ_term (hd items)) \<le> UINT32_MAX \<and>
     0 < length (term_objects items) \<and> length (term_objects items) < 2 ^ 64"
      using groups_good_terms[OF good i] b(2)[OF i] by simp
  qed
  moreover have "sorted_wrt (<) (map (\<lambda>items. occ_term (hd items)) groups)"
    using good by (simp add: groups_good_def)
  moreover have "occurs_at f0 (?h + 12) (enc_term_entries 0 56 12 groups)"
    using at by (simp add: add.commute)
  ultimately have "read_terms f0 (length f0) (length groups) None (?h + 12) =
      Inr (entries_of 0 56 12 groups, ?h + 12 + length (enc_term_entries 0 56 12 groups))"
    by (intro read_terms_image) auto
  then show ?thesis
    using b(1) mem len unfolding validate_term_stream_def Let_def ver cnt u
    by (simp add: range_valid_def)
qed

lemma payloads_image:
  assumes good: "groups_good (word_of_nat dc) (word_of_nat pc) groups"
    and f1: "seal_frame YAP_V2_FILE_POSTINGS g (postings_payload dc pc totals groups) = Inr f1"
    and f2: "seal_frame YAP_V2_FILE_POSITIONS g (positions_payload groups) = Inr f2"
    and l1: "length (postings_payload dc pc totals groups) \<le> YAP_V2_MAX_SEGMENT_PAYLOAD_BYTES"
    and l2: "length (positions_payload groups) \<le> YAP_V2_MAX_SEGMENT_PAYLOAD_BYTES"
  shows "validate_payloads \<lparr>lx_maps = [f0, f1, f2], lx_generation = 0, lx_document_count = 0,
      lx_passage_count = 0, lx_posting_count = 0, lx_position_count = 0,
      lx_field_token_count = [0, 0, 0], lx_terms = entries_of 0 56 12 groups\<rparr> =
    Inr (segment_of f0 f1 f2 0 dc pc totals groups)"
proof -
  let ?h = YAP_V2_FILE_HEADER_BYTES
  note p = file_payload_at(1)[OF f1, unfolded postings_payload_def at_simps, simplified]
  note q = file_payload_at(1)[OF f2, unfolded positions_payload_def at_simps, simplified]
  have fp: "get_u32 (drop ?h f1) = YAP_V2_LEXICAL_PAYLOAD_VERSION"
    "get_u32 (drop (?h + 4) f1) = word_of_nat YAP_V2_POSTINGS_BLOCK_SIZE"
    "get_u64 (drop (?h + 8) f1) = word_of_nat dc" "get_u64 (drop (?h + 16) f1) = word_of_nat pc"
    "get_u64 (drop (?h + 24) f1) = word_of_nat (object_total groups)"
    "get_u64 (drop (?h + 32) f1) = totals ! 0" "get_u64 (drop (?h + 40) f1) = totals ! 1"
    "get_u64 (drop (?h + 48) f1) = totals ! 2"
    using p by (simp_all add: get_u32_at get_u64_at add.commute)
  have fq: "get_u32 (drop ?h f2) = YAP_V2_LEXICAL_PAYLOAD_VERSION"
    "get_u64 (drop (?h + 4) f2) = word_of_nat (length (concat groups))"
    using q by (simp_all add: get_u32_at get_u64_at add.commute)
  have bs: "unat (word_of_nat YAP_V2_POSTINGS_BLOCK_SIZE :: u32) = YAP_V2_POSTINGS_BLOCK_SIZE"
    by (rule unat_small32) (simp add: lexical_constants)
  have len: "length f1 = ?h + 56 + length (enc_posting_entries 0 groups)"
    "length f2 = ?h + 12 + length (enc_position_entries 0 groups)"
    using file_payload_at(2)[OF f1] file_payload_at(2)[OF f2]
    by (simp_all add: postings_payload_def positions_payload_def)
  have at1: "occurs_at f1 (?h + 56) (enc_posting_entries 0 groups)"
    and at2: "occurs_at f2 (?h + 12) (enc_position_entries 0 groups)"
    using p q by (simp_all add: add.commute)
  have tg: "\<forall>items\<in>set groups. term_good (word_of_nat dc) (word_of_nat pc) items"
    using good by (simp add: groups_good_def)
  have n: "0 + length groups < 2 ^ 31"
    using group_bounds(1)[OF good l1] by (simp add: storage_limits)
  have v: "validate_terms (word_of_nat dc) (word_of_nat pc) f1 f2 0 (entries_of 0 56 12 groups)
     (?h + 56) (?h + 12) 0 0 =
   Inr (?h + 56 + length (enc_posting_entries 0 groups), ?h + 12 + length (enc_position_entries 0 groups),
     0 + word_of_nat (object_total groups), 0 + word_of_nat (length (concat groups)))"
    using validate_terms_image[OF tg at1 at2 _ _ payload_fits31[OF f1 l1] payload_fits31[OF f2 l2] n,
        where a = 0 and b = 0] by simp
  have rng: "range_valid ?h 56 (length f1)" "range_valid ?h 12 (length f2)"
    using len by (simp_all add: range_valid_def)
  show ?thesis
    unfolding validate_payloads_def Let_def YAP_V2_LEXICAL_SEGMENT.simps segment_of_def
    using rng v len by (simp add: fp fq bs)
qed

lemma segment_open_image:
  assumes good: "groups_good (word_of_nat dc) (word_of_nat pc) groups"
    and f: "seal_frame YAP_V2_FILE_TERMS g (terms_payload groups) = Inr f0"
      "seal_frame YAP_V2_FILE_POSTINGS g (postings_payload dc pc totals groups) = Inr f1"
      "seal_frame YAP_V2_FILE_POSITIONS g (positions_payload groups) = Inr f2"
    and fs: "fs (lexical_path dir 0) = Some f0" "fs (lexical_path dir 1) = Some f1"
      "fs (lexical_path dir 2) = Some f2"
    and l: "length (terms_payload groups) \<le> YAP_V2_MAX_SEGMENT_PAYLOAD_BYTES"
      "length (postings_payload dc pc totals groups) \<le> YAP_V2_MAX_SEGMENT_PAYLOAD_BYTES"
      "length (positions_payload groups) \<le> YAP_V2_MAX_SEGMENT_PAYLOAD_BYTES"
    and eg: "eg = 0 \<or> eg = g" and io: "\<And>i c. ios i c" and mem: "\<And>n. mem n"
  shows "YAP_V2_lexical_segment_open mem ios fs dir eg = Inr (segment_of f0 f1 f2 g dc pc totals groups)"
proof -
  have lift: "lift_status (Inr x) = Inr x" for x :: 'x
    by (simp add: lift_status_def)
  show ?thesis
    unfolding YAP_V2_lexical_segment_open_def
      map_components_sealed[OF f fs l eg io mem] lift rbind.simps prod.case nth_Cons_0
      term_stream_image[OF good f(1) l(2) mem] payloads_image[OF good f(2,3) l(2,3)]
    by (simp add: segment_of_def)
qed

end
