(* ===== verification/Lexical_Index.thy ===== *)
theory Lexical_Index
  imports Lexical_Readback
begin

section \<open>The contents of a lexical index\<close>

text \<open>
  The contents of an opened segment as a list of occurrences (\<open>index_contents\<close>), the occurrences
  the documents and passages of a segment have (\<open>segment_occurrences\<close>), and the lemmas that join
  them: a successful write stores exactly the sorted occurrences.
\<close>

subsection \<open>The occurrences an opened segment holds\<close>

text \<open>
  What a client reads by walking every term, every posting of the term and every position of the
  posting: one key per occurrence, \<open>Inl\<close> where a read fails.
\<close>

type_synonym occurrence_key = "bytes \<times> u32 \<times> u64 \<times> u32 \<times> u32"

definition posting_keys ::
  "YAP_V2_LEXICAL_SEGMENT \<Rightarrow> YAP_V2_TERM_ENTRY \<Rightarrow> YAP_V2_POSTING \<Rightarrow> occurrence_key outcome list" where
  "posting_keys seg e p = map (\<lambda>i. rbind (YAP_V2_posting_position_at seg e p i) (\<lambda>q.
     Inr (te_term e, po_object_type p, po_object_ordinal p, pos_field q, pos_position q)))
     [0..<unat (po_position_count p)]"

definition entry_keys ::
  "YAP_V2_LEXICAL_SEGMENT \<Rightarrow> YAP_V2_TERM_ENTRY \<Rightarrow> occurrence_key outcome list" where
  "entry_keys seg e = concat (map (posting_keys seg e) (segment_postings seg e))"

definition index_contents :: "YAP_V2_LEXICAL_SEGMENT \<Rightarrow> occurrence_key outcome list" where
  "index_contents seg = concat (map (entry_keys seg) (lx_terms seg))"

fun postings_of :: "nat \<Rightarrow> YAP_V2_LEXICAL_OCCURRENCE list list \<Rightarrow> YAP_V2_POSTING list" where
  "postings_of k [] = []"
| "postings_of k (items # objs) = posting_of k items # postings_of (k + length items) objs"

lemma posting_list_image:
  "occurs_at d at (enc_postings k objs) \<Longrightarrow> posting_list d at (length objs) = postings_of k objs"
proof (induction objs arbitrary: at k)
  case Nil
  show ?case by (simp add: posting_list_def)
next
  case (Cons items objs)
  have "occurs_at d at (enc_posting k items)"
    and "occurs_at d (at + POSTING_BYTES) (enc_postings (k + length items) objs)"
    using Cons.prems by (simp_all add: at_simps POSTING_BYTES_def)
  then show ?case
    using Cons.IH by (simp add: posting_list_Suc parse_posting_at)
qed

lemma position_at_image:
  assumes at: "occurs_at (lx_maps seg ! 2) (YAP_V2_FILE_HEADER_BYTES + qoff + 16 + 8 * k) (enc_positions items)"
    and i: "i < length items" and e: "te_positions_offset e = word_of_nat qoff"
    and len: "length (lx_maps seg ! 2) < 2 ^ 31"
  shows "YAP_V2_posting_position_at seg e (posting_of k items) i =
    Inr \<lparr>pos_field = occ_field (items ! i), pos_position = occ_position (items ! i)\<rparr>"
proof -
  let ?m = "lx_maps seg ! 2"
  have split: "items = take i items @ items ! i # drop (Suc i) items"
    using i by (rule id_take_nth_drop)
  have "occurs_at ?m (YAP_V2_FILE_HEADER_BYTES + qoff + 16 + 8 * k)
      (enc_positions (take i items @ items ! i # drop (Suc i) items))"
    using at split by simp
  note pos = enc_positions_nth[OF this]
  have bound: "YAP_V2_FILE_HEADER_BYTES + qoff + 16 + 8 * k + 8 * length items < 2 ^ 31"
    using occurs_at_bound[OF at] len by simp
  then have small: "qoff < 2 ^ 31" "k < 2 ^ 31" "length items < 2 ^ 31" by simp_all
  let ?off = "YAP_V2_FILE_HEADER_BYTES + qoff + 16 + (k + i) * 8"
  have off: "?off mod 2 ^ 64 = ?off"
    using bound i by (intro mod_less) simp
  have p: "occurs_at ?m ?off (put_u32_le (occ_field (items ! i)))"
    "occurs_at ?m (?off + 4) (put_u32_le (occ_position (items ! i)))"
    using pos i by (simp_all add: algebra_simps)
  have rng: "range_valid ?off 8 (length ?m)"
    using occurs_at_bound[OF p(2)] by (simp add: range_valid_def)
  have u: "unat (po_position_count (posting_of k items)) = length items"
    "unat (po_position_offset (posting_of k items)) = k" "unat (te_positions_offset e) = qoff"
    using small by (simp_all add: posting_of_def Let_def unat_small32 unat_small64 e)
  have g: "get_u32 (drop ?off ?m) = occ_field (items ! i)"
    "get_u32 (drop 4 (drop ?off ?m)) = occ_position (items ! i)"
    using get_u32_at[OF p(1)] get_u32_at[OF p(2)] by (simp_all add: add.commute)
  show ?thesis
    unfolding YAP_V2_posting_position_at_def u Let_def off g using rng i small by simp
qed

lemma posting_keys_image:
  assumes at: "occurs_at (lx_maps seg ! 2) (YAP_V2_FILE_HEADER_BYTES + qoff + 16 + 8 * k) (enc_positions items)"
    and e: "te_positions_offset e = word_of_nat qoff"
    and len: "length (lx_maps seg ! 2) < 2 ^ 31"
    and one: "\<And>x. x \<in> set items \<Longrightarrow> occ_object x = occ_object (hd items) \<and> occ_term x = te_term e"
  shows "posting_keys seg e (posting_of k items) = map (\<lambda>x. Inr (occ_key x)) items"
proof (rule nth_equalityI)
  have "length items < 2 ^ 32"
    using occurs_at_bound[OF at] len by simp
  then have u: "unat (po_position_count (posting_of k items)) = length items"
    by (simp add: posting_of_def Let_def unat_small32)
  then show "length (posting_keys seg e (posting_of k items)) = length (map (\<lambda>x. Inr (occ_key x)) items)"
    by (simp add: posting_keys_def)
  fix i assume "i < length (posting_keys seg e (posting_of k items))"
  then have i: "i < length items" by (simp add: posting_keys_def u)
  have o: "occ_object_type (items ! i) = po_object_type (posting_of k items)"
    "occ_object_ordinal (items ! i) = po_object_ordinal (posting_of k items)"
    "occ_term (items ! i) = te_term e"
    using one[of "items ! i"] i by (simp_all add: posting_of_def Let_def)
  show "posting_keys seg e (posting_of k items) ! i = map (\<lambda>x. Inr (occ_key x)) items ! i"
    using i by (simp add: posting_keys_def u position_at_image[OF at i e len] occ_key_def o)
qed

lemma postings_keys_image:
  assumes e: "te_positions_offset e = word_of_nat qoff" and len: "length (lx_maps seg ! 2) < 2 ^ 31"
  shows "occurs_at (lx_maps seg ! 2) (YAP_V2_FILE_HEADER_BYTES + qoff + 16 + 8 * k) (enc_positions (concat objs)) \<Longrightarrow>
    (\<And>ob x. ob \<in> set objs \<Longrightarrow> x \<in> set ob \<Longrightarrow> occ_object x = occ_object (hd ob) \<and> occ_term x = te_term e) \<Longrightarrow>
    concat (map (posting_keys seg e) (postings_of k objs)) = map (\<lambda>x. Inr (occ_key x)) (concat objs)"
proof (induction objs arbitrary: k)
  case Nil
  show ?case by simp
next
  case (Cons items objs)
  have at: "occurs_at (lx_maps seg ! 2) (YAP_V2_FILE_HEADER_BYTES + qoff + 16 + 8 * k) (enc_positions items)"
    and rest: "occurs_at (lx_maps seg ! 2) (YAP_V2_FILE_HEADER_BYTES + qoff + 16 + 8 * (k + length items))
      (enc_positions (concat objs))"
    using Cons.prems(1) by (simp_all add: enc_positions_append at_simps algebra_simps)
  have "posting_keys seg e (posting_of k items) = map (\<lambda>x. Inr (occ_key x)) items"
    by (rule posting_keys_image[OF at e len Cons.prems(2)]) simp_all
  moreover have "concat (map (posting_keys seg e) (postings_of (k + length items) objs)) =
      map (\<lambda>x. Inr (occ_key x)) (concat objs)"
    by (rule Cons.IH[OF rest Cons.prems(2)]) simp_all
  ultimately show ?case by simp
qed

lemma entry_keys_image:
  assumes tg: "term_good dc pc items"
    and p: "occurs_at (lx_maps seg ! 1) (YAP_V2_FILE_HEADER_BYTES + poff) (enc_posting_entry ord items)"
    and q: "occurs_at (lx_maps seg ! 2) (YAP_V2_FILE_HEADER_BYTES + qoff) (enc_position_entry ord items)"
    and len: "length (lx_maps seg ! 1) < 2 ^ 31" "length (lx_maps seg ! 2) < 2 ^ 31"
  shows "entry_keys seg (entry_of ord poff qoff items) = map (\<lambda>x. Inr (occ_key x)) items"
proof -
  let ?e = "entry_of ord poff qoff items" and ?objs = "term_objects items"
  have b: "length ?objs < 2 ^ 31" "poff < 2 ^ 31" "length items < 2 ^ 32"
    using occurs_at_bound[OF p] occurs_at_bound[OF q] len
    by (simp_all add: length_enc_posting_entry length_enc_position_entry)
  have u: "unat (te_postings_offset ?e) = poff" "unat (te_document_frequency ?e) = length ?objs"
    using b by (simp_all add: entry_of_def unat_small64)
  have "occurs_at (lx_maps seg ! 1) (YAP_V2_FILE_HEADER_BYTES + poff + 20) (enc_postings 0 ?objs)"
    using p unfolding enc_posting_entry_def by (simp add: at_simps algebra_simps)
  then have "segment_postings seg ?e = postings_of 0 ?objs"
    unfolding segment_postings_list u by (rule posting_list_image)
  moreover have "occurs_at (lx_maps seg ! 2) (YAP_V2_FILE_HEADER_BYTES + qoff + 16 + 8 * 0)
      (enc_positions (concat ?objs))"
    using q unfolding enc_position_entry_def by (simp add: at_simps runs_concat algebra_simps)
  moreover have "occ_object x = occ_object (hd ob) \<and> occ_term x = te_term ?e"
    if "ob \<in> set ?objs" "x \<in> set ob" for ob x
  proof
    have "object_sorted ob"
      using term_good_objects(1)[OF tg b(3)] that(1) unfolding object_good_def by blast
    then show "occ_object x = occ_object (hd ob)"
      using that(2) unfolding object_sorted_def by blast
    have "occ_term x = occ_term (hd items)"
      using tg run_members[OF that] unfolding term_good_def term_sorted_def by blast
    then show "occ_term x = te_term ?e" by (simp add: entry_of_def)
  qed
  moreover have "te_positions_offset ?e = word_of_nat qoff" by (simp add: entry_of_def)
  ultimately show ?thesis
    unfolding entry_keys_def using postings_keys_image[OF _ len(2), of ?e qoff 0 ?objs]
    by (simp add: runs_concat)
qed

lemma index_contents_image:
  assumes len: "length (lx_maps seg ! 1) < 2 ^ 31" "length (lx_maps seg ! 2) < 2 ^ 31"
  shows "\<forall>items\<in>set groups. term_good dc pc items \<Longrightarrow>
    occurs_at (lx_maps seg ! 1) (YAP_V2_FILE_HEADER_BYTES + poff) (enc_posting_entries ord groups) \<Longrightarrow>
    occurs_at (lx_maps seg ! 2) (YAP_V2_FILE_HEADER_BYTES + qoff) (enc_position_entries ord groups) \<Longrightarrow>
    map (entry_keys seg) (entries_of ord poff qoff groups) =
      map (map (\<lambda>x. Inr (occ_key x))) groups"
proof (induction groups arbitrary: ord poff qoff)
  case Nil
  show ?case by simp
next
  case (Cons items groups)
  have at: "occurs_at (lx_maps seg ! 1) (YAP_V2_FILE_HEADER_BYTES + poff) (enc_posting_entry ord items)"
    "occurs_at (lx_maps seg ! 2) (YAP_V2_FILE_HEADER_BYTES + qoff) (enc_position_entry ord items)"
    "occurs_at (lx_maps seg ! 1) (YAP_V2_FILE_HEADER_BYTES + (poff + length (enc_posting_entry ord items)))
       (enc_posting_entries (Suc ord) groups)"
    "occurs_at (lx_maps seg ! 2) (YAP_V2_FILE_HEADER_BYTES + (qoff + length (enc_position_entry ord items)))
       (enc_position_entries (Suc ord) groups)"
    using Cons.prems(2,3) by (simp_all add: at_simps add.assoc)
  have "entry_keys seg (entry_of ord poff qoff items) = map (\<lambda>x. Inr (occ_key x)) items"
    using Cons.prems(1) at len by (intro entry_keys_image) auto
  moreover have "map (entry_keys seg) (entries_of (Suc ord) (poff + length (enc_posting_entry ord items))
       (qoff + length (enc_position_entry ord items)) groups) = map (map (\<lambda>x. Inr (occ_key x))) groups"
    using Cons.prems(1) at by (intro Cons.IH) auto
  ultimately show ?case by simp
qed

lemma segment_of_contents:
  assumes good: "groups_good (word_of_nat dc) (word_of_nat pc) groups"
    and f: "seal_frame YAP_V2_FILE_POSTINGS g (postings_payload dc pc totals groups) = Inr f1"
      "seal_frame YAP_V2_FILE_POSITIONS g (positions_payload groups) = Inr f2"
    and l: "length (postings_payload dc pc totals groups) \<le> YAP_V2_MAX_SEGMENT_PAYLOAD_BYTES"
      "length (positions_payload groups) \<le> YAP_V2_MAX_SEGMENT_PAYLOAD_BYTES"
    and seg_def: "seg = segment_of f0 f1 f2 g dc pc totals groups"
  shows "map (entry_keys seg) (lx_terms seg) = map (map (\<lambda>x. Inr (occ_key x))) groups"
    and "index_contents seg = map (\<lambda>x. Inr (occ_key x)) (concat groups)"
proof -
  have "occurs_at f1 (YAP_V2_FILE_HEADER_BYTES + 56) (enc_posting_entries 0 groups)"
    "occurs_at f2 (YAP_V2_FILE_HEADER_BYTES + 12) (enc_position_entries 0 groups)"
    using file_payload_at(1)[OF f(1)] file_payload_at(1)[OF f(2)]
    by (simp_all add: postings_payload_def positions_payload_def at_simps add.commute)
  then show m: "map (entry_keys seg) (lx_terms seg) = map (map (\<lambda>x. Inr (occ_key x))) groups"
    using index_contents_image[of seg groups "word_of_nat dc" "word_of_nat pc" 56 0 12]
      payload_fits31[OF f(1) l(1)] payload_fits31[OF f(2) l(2)] good
    by (simp add: seg_def segment_of_def groups_good_def)
  show "index_contents seg = map (\<lambda>x. Inr (occ_key x)) (concat groups)"
    unfolding index_contents_def m by (simp add: map_concat)
qed

lemma entries_of_terms:
  "map te_term (entries_of ord poff qoff groups) = map (\<lambda>items. occ_term (hd items)) groups"
  by (induction ord poff qoff groups rule: entries_of.induct) (simp_all add: entry_of_def)

subsection \<open>Writing and reading back\<close>

definition occurrences_ok :: "u64 \<Rightarrow> u64 \<Rightarrow> YAP_V2_LEXICAL_OCCURRENCE list \<Rightarrow> bool" where
  "occurrences_ok dc pc occs \<longleftrightarrow> (\<forall>x\<in>set occs. occ_ok dc pc x) \<and> distinct (map occ_key occs) \<and>
     (\<forall>x\<in>set occs. \<forall>y\<in>set occs. occ_object x = occ_object y \<longrightarrow> occ_field x = occ_field y \<longrightarrow>
        occ_field_length x = occ_field_length y)"

lemma occurrences_ok_groups:
  assumes "occurrences_ok dc pc occs"
  shows "groups_good dc pc (term_runs (sorted_items occs))"
proof -
  have d: "distinct (map occ_key occs)" using assms unfolding occurrences_ok_def by blast
  note s = term_runs_sorted[OF d]
  have "term_good dc pc items" if i: "items \<in> set (term_runs (sorted_items occs))" for items
  proof -
    have mem: "x \<in> set occs" if "x \<in> set items" for x
      using run_members[OF i that] by simp
    show ?thesis
      using s i mem assms unfolding term_good_def occurrences_ok_def by blast
  qed
  then show ?thesis using s unfolding groups_good_def by blast
qed

lemma write_occurrences_open:
  assumes w: "write_occurrences mem ios short back dir g occs dc pc totals = (Inr cs, ops)"
    and ok: "occurrences_ok (word_of_nat dc) (word_of_nat pc) occs"
    and eg: "eg = 0 \<or> eg = g" and io: "\<And>i c. ios' i c" and mem: "\<And>n. mem' n"
  shows "\<exists>seg. YAP_V2_lexical_segment_open mem' ios' (run_ops ops fs) dir eg = Inr seg \<and>
    index_contents seg = map (\<lambda>x. Inr (occ_key x)) (sorted_items occs) \<and>
    map te_term (lx_terms seg) = map (\<lambda>items. occ_term (hd items)) (term_runs (sorted_items occs)) \<and>
    map (entry_keys seg) (lx_terms seg) = map (map (\<lambda>x. Inr (occ_key x))) (term_runs (sorted_items occs)) \<and>
    lx_generation seg = g \<and> lx_document_count seg = word_of_nat dc \<and>
    lx_passage_count seg = word_of_nat pc \<and> lx_field_token_count seg = [totals ! 0, totals ! 1, totals ! 2]"
proof -
  let ?groups = "term_runs (sorted_items occs)"
  obtain p tc pt where b: "build_payloads mem occs dc pc totals = Inr (p, tc, pt)"
    and c: "write_components mem ios short back dir g [0, 1, 2] [buf_data (lb_terms p),
        buf_data (lb_postings p), buf_data (lb_positions p)] [tc, pt, word_of_nat (length occs)] = (Inr cs, ops)"
    using w unfolding write_occurrences_def by (auto split: sum.split_asm prod.split_asm)
  note bp = build_payloads_Inr[OF b]
  have l: "length (terms_payload ?groups) \<le> YAP_V2_MAX_SEGMENT_PAYLOAD_BYTES"
    "length (postings_payload dc pc totals ?groups) \<le> YAP_V2_MAX_SEGMENT_PAYLOAD_BYTES"
    "length (positions_payload ?groups) \<le> YAP_V2_MAX_SEGMENT_PAYLOAD_BYTES"
    using bp by (auto simp: payloads_inv_def buffer_inv_def)
  have c': "write_components mem ios short back dir g [0, 1, 2] [terms_payload ?groups,
      postings_payload dc pc totals ?groups, positions_payload ?groups]
      [tc, pt, word_of_nat (length occs)] = (Inr cs, ops)"
    using c bp by simp
  obtain f0 f1 f2 where f: "seal_frame YAP_V2_FILE_TERMS g (terms_payload ?groups) = Inr f0"
      "seal_frame YAP_V2_FILE_POSTINGS g (postings_payload dc pc totals ?groups) = Inr f1"
      "seal_frame YAP_V2_FILE_POSITIONS g (positions_payload ?groups) = Inr f2"
    and fs: "run_ops ops fs (lexical_path dir 0) = Some f0" "run_ops ops fs (lexical_path dir 1) = Some f1"
      "run_ops ops fs (lexical_path dir 2) = Some f2"
    using write_components_run[OF c' l, where fs = fs] by blast
  note good = occurrences_ok_groups[OF ok]
  note o = segment_open_image[where mem = mem' and ios = ios', OF good f fs l eg io mem]
  note k = segment_of_contents[OF good f(2,3) l(2,3) refl, where ?f0.0 = f0]
  show ?thesis
    using o k by (auto simp: runs_concat entries_of_terms segment_of_def)
qed

subsection \<open>The occurrences of a segment\<close>

text \<open>
  The specification of tokenization: the fields of a segment in the order the writer visits them,
  and for each field one occurrence per token, numbered from 0.
\<close>

definition token_occurrence ::
  "bytes \<Rightarrow> u32 \<Rightarrow> u64 \<Rightarrow> u32 \<Rightarrow> nat \<Rightarrow> nat \<Rightarrow> YAP_V2_TOKEN \<Rightarrow> YAP_V2_LEXICAL_OCCURRENCE" where
  "token_occurrence normalized ty ord fd n i token =
     \<lparr>occ_term = take (size_sub (tok_byte_end token) (tok_byte_start token))
        (drop (tok_byte_start token) normalized),
      occ_object_type = ty, occ_object_ordinal = ord, occ_field = fd,
      occ_position = word_of_nat i, occ_field_length = word_of_nat n\<rparr>"

definition field_occurrences ::
  "tokenizer \<Rightarrow> YAP_V2_BYTES_VIEW \<Rightarrow> u32 \<times> u64 \<times> u32 \<Rightarrow> YAP_V2_LEXICAL_OCCURRENCE list" where
  "field_occurrences tokenize tx = (\<lambda>(ty, ord, fd).
     if view_len tx = 0 then []
     else case tokenize (view_bytes tx) of
       Inl _ \<Rightarrow> []
     | Inr s \<Rightarrow> map (\<lambda>(i, token). token_occurrence (seq_normalized_utf8 s) ty ord fd
                  (length (seq_tokens s)) i token) (enumerate 0 (seq_tokens s)))"

definition document_fields ::
  "nat \<Rightarrow> YAP_V2_DOCUMENT_VIEW list \<Rightarrow> ((u32 \<times> u64 \<times> u32) \<times> YAP_V2_BYTES_VIEW) list" where
  "document_fields k documents = concat (map (\<lambda>(i, d).
     [((YAP_V2_LEXICAL_DOCUMENT, word_of_nat i, YAP_V2_FIELD_TITLE), doc_title d),
      ((YAP_V2_LEXICAL_DOCUMENT, word_of_nat i, YAP_V2_FIELD_BODY), doc_body d)])
     (enumerate k documents))"

definition passage_fields ::
  "nat \<Rightarrow> YAP_V2_PASSAGE_VIEW list \<Rightarrow> ((u32 \<times> u64 \<times> u32) \<times> YAP_V2_BYTES_VIEW) list" where
  "passage_fields k passages = map (\<lambda>(i, p).
     ((YAP_V2_LEXICAL_PASSAGE, word_of_nat i, YAP_V2_FIELD_PASSAGE), psg_text p))
     (enumerate k passages)"

definition fields_occurrences ::
  "tokenizer \<Rightarrow> ((u32 \<times> u64 \<times> u32) \<times> YAP_V2_BYTES_VIEW) list \<Rightarrow> YAP_V2_LEXICAL_OCCURRENCE list" where
  "fields_occurrences tokenize flds =
     concat (map (\<lambda>(tag, tx). field_occurrences tokenize tx tag) flds)"

definition segment_occurrences ::
  "tokenizer \<Rightarrow> YAP_V2_DOCUMENT_VIEW list \<Rightarrow> YAP_V2_PASSAGE_VIEW list \<Rightarrow> YAP_V2_LEXICAL_OCCURRENCE list" where
  "segment_occurrences tokenize documents passages =
     fields_occurrences tokenize (document_fields 0 documents @ passage_fields 0 passages)"

definition term_ok :: "YAP_V2_LEXICAL_OCCURRENCE \<Rightarrow> bool" where
  "term_ok x \<longleftrightarrow> occ_term x \<noteq> [] \<and> length (occ_term x) \<le> UINT32_MAX"

lemma occurrence_add_Inr:
  assumes "occurrence_add mem occs trm ty ord fd pos len = Inr occs'"
  shows "lp_items occs' = lp_items occs @ [\<lparr>occ_term = trm, occ_object_type = ty,
      occ_object_ordinal = ord, occ_field = fd, occ_position = pos, occ_field_length = len\<rparr>] \<and>
    trm \<noteq> [] \<and> length trm \<le> UINT32_MAX"
  using assms by (auto simp: occurrence_add_def Let_def result_simps split: if_splits)

lemma add_tokens_Inr:
  "add_tokens mem normalized ty ord fd (word_of_nat n) i tokens occs = Inr occs' \<Longrightarrow>
   (let new = map (\<lambda>(i, token). token_occurrence normalized ty ord fd n i token) (enumerate i tokens) in
    lp_items occs' = lp_items occs @ new \<and> (\<forall>x\<in>set new. term_ok x))"
proof (induction tokens arbitrary: i occs)
  case Nil
  then show ?case by simp
next
  case (Cons token tokens)
  obtain occs1 where a: "occurrence_add mem occs (take (size_sub (tok_byte_end token) (tok_byte_start token))
        (drop (tok_byte_start token) normalized)) ty ord fd (word_of_nat i) (word_of_nat n) = Inr occs1"
    and b: "add_tokens mem normalized ty ord fd (word_of_nat n) (Suc i) tokens occs1 = Inr occs'"
    using Cons.prems by (auto simp: result_simps)
  from occurrence_add_Inr[OF a] Cons.IH[OF b] show ?case
    by (simp add: Let_def term_ok_def token_occurrence_def)
qed

lemma tokenize_field_Inr:
  assumes "tokenize_field mem tokenize occs tx ty ord fd tot = Inr (occs', tot')"
  shows "lp_items occs' = lp_items occs @ field_occurrences tokenize tx (ty, ord, fd) \<and>
    (\<forall>x\<in>set (field_occurrences tokenize tx (ty, ord, fd)). term_ok x) \<and>
    length (field_occurrences tokenize tx (ty, ord, fd)) \<le> UINT32_MAX"
proof (cases "view_len tx = 0")
  case True
  with assms show ?thesis by (simp add: tokenize_field_def field_occurrences_def)
next
  case False
  then obtain s where s: "tokenize (view_bytes tx) = Inr s" "length (seq_tokens s) \<le> UINT32_MAX"
    and a: "add_tokens mem (seq_normalized_utf8 s) ty ord fd (word_of_nat (length (seq_tokens s))) 0
        (seq_tokens s) occs = Inr occs'"
    using assms by (auto simp: tokenize_field_def Let_def result_simps split: if_splits)
  from add_tokens_Inr[OF a] s False show ?thesis
    by (simp add: field_occurrences_def Let_def)
qed

lemma tokenize_documents_Inr:
  "tokenize_documents mem tokenize i documents occs t b = Inr (occs', t', b') \<Longrightarrow>
   lp_items occs' = lp_items occs @ fields_occurrences tokenize (document_fields i documents) \<and>
   (\<forall>x\<in>set (fields_occurrences tokenize (document_fields i documents)). term_ok x) \<and>
   (\<forall>(tag, tx)\<in>set (document_fields i documents).
      length (field_occurrences tokenize tx tag) \<le> UINT32_MAX)"
proof (induction documents arbitrary: i occs t b)
  case Nil
  then show ?case by (simp add: document_fields_def fields_occurrences_def)
next
  case (Cons d documents)
  obtain o1 t1 o2 b2 where
    1: "tokenize_field mem tokenize occs (doc_title d) YAP_V2_LEXICAL_DOCUMENT (word_of_nat i)
          YAP_V2_FIELD_TITLE t = Inr (o1, t1)"
    and 2: "tokenize_field mem tokenize o1 (doc_body d) YAP_V2_LEXICAL_DOCUMENT (word_of_nat i)
          YAP_V2_FIELD_BODY b = Inr (o2, b2)"
    and 3: "tokenize_documents mem tokenize (Suc i) documents o2 t1 b2 = Inr (occs', t', b')"
    using Cons.prems by (auto simp: result_simps split: if_splits)
  have df: "document_fields i (d # documents) =
      ((YAP_V2_LEXICAL_DOCUMENT, word_of_nat i, YAP_V2_FIELD_TITLE), doc_title d) #
      ((YAP_V2_LEXICAL_DOCUMENT, word_of_nat i, YAP_V2_FIELD_BODY), doc_body d) #
      document_fields (Suc i) documents"
    by (simp add: document_fields_def)
  show ?case
    using tokenize_field_Inr[OF 1] tokenize_field_Inr[OF 2] Cons.IH[OF 3]
    by (auto simp: df fields_occurrences_def)
qed

lemma tokenize_passages_Inr:
  "tokenize_passages mem tokenize i passages occs t = Inr (occs', t') \<Longrightarrow>
   lp_items occs' = lp_items occs @ fields_occurrences tokenize (passage_fields i passages) \<and>
   (\<forall>x\<in>set (fields_occurrences tokenize (passage_fields i passages)). term_ok x) \<and>
   (\<forall>(tag, tx)\<in>set (passage_fields i passages).
      length (field_occurrences tokenize tx tag) \<le> UINT32_MAX)"
proof (induction passages arbitrary: i occs t)
  case Nil
  then show ?case by (simp add: passage_fields_def fields_occurrences_def)
next
  case (Cons p passages)
  obtain o1 t1 where
    1: "tokenize_field mem tokenize occs (psg_text p) YAP_V2_LEXICAL_PASSAGE (word_of_nat i)
          YAP_V2_FIELD_PASSAGE t = Inr (o1, t1)"
    and 3: "tokenize_passages mem tokenize (Suc i) passages o1 t1 = Inr (occs', t')"
    using Cons.prems by (auto simp: result_simps split: if_splits)
  have pf: "passage_fields i (p # passages) =
      ((YAP_V2_LEXICAL_PASSAGE, word_of_nat i, YAP_V2_FIELD_PASSAGE), psg_text p) #
      passage_fields (Suc i) passages"
    by (simp add: passage_fields_def)
  show ?case
    using tokenize_field_Inr[OF 1] Cons.IH[OF 3] by (auto simp: pf fields_occurrences_def)
qed

subsection \<open>Tokenization yields readable occurrences\<close>

abbreviation occ_tag :: "YAP_V2_LEXICAL_OCCURRENCE \<Rightarrow> u32 \<times> u64 \<times> u32" where
  "occ_tag x \<equiv> (occ_object_type x, occ_object_ordinal x, occ_field x)"

lemma field_occurrences_shape:
  assumes xs_def: "xs = field_occurrences tokenize tx tag"
  shows "x \<in> set xs \<Longrightarrow> occ_tag x = tag \<and> occ_field_length x = word_of_nat (length xs)"
    and "map occ_position xs = map word_of_nat [0..<length xs]"
proof -
  obtain ty ord fd where tag: "tag = (ty, ord, fd)" by (cases tag)
  show "occ_tag x = tag \<and> occ_field_length x = word_of_nat (length xs)" if "x \<in> set xs"
    using that unfolding xs_def
    by (auto simp: field_occurrences_def tag token_occurrence_def split: sum.splits if_splits)
  have "map (\<lambda>(i, token). word_of_nat i) (enumerate 0 ts) = map word_of_nat [0..<length ts]"
    for ts :: "YAP_V2_TOKEN list"
  proof -
    have "map (\<lambda>(i, token). word_of_nat i) (enumerate 0 ts) = map word_of_nat (map fst (enumerate 0 ts))"
      by (simp only: map_map comp_def case_prod_unfold)
    then show ?thesis by (simp only: map_fst_enumerate) simp
  qed
  then show "map occ_position xs = map word_of_nat [0..<length xs]"
    unfolding xs_def
    by (auto simp: field_occurrences_def tag token_occurrence_def case_prod_unfold comp_def split: sum.splits)
qed

lemma sorted_items_cong:
  assumes "mset xs = mset ys" and "distinct (map occ_key xs)"
  shows "sorted_items xs = sorted_items ys"
proof -
  have ds: "distinct (map occ_key ys)"
    using assms by (metis mset_eq_imp_distinct_iff mset_map)
  have "inj_on occ_key (set xs)"
    using assms(2) by (simp add: distinct_map)
  moreover have "set ys = set xs" using assms(1) by (metis set_mset_mset)
  moreover have "sorted (map occ_key (sorted_items zs))" for zs
    using sorted_items_le by (simp add: sorted_map)
  moreover have "mset (map occ_key (sorted_items xs)) = mset (map occ_key (sorted_items ys))"
    using assms(1) by (simp add: sorted_items_def libc.qs_mset)
  ultimately have "sort (map occ_key (sorted_items ys)) = map occ_key (sorted_items xs)"
    by (intro properties_for_sort) auto
  moreover have "sort (map occ_key (sorted_items ys)) = map occ_key (sorted_items ys)"
    using sorted_items_le[of ys] by (intro sorted_sort_id) (simp add: sorted_map)
  ultimately have "map occ_key (sorted_items xs) = map occ_key (sorted_items ys)" by simp
  then show ?thesis
    using \<open>inj_on occ_key (set xs)\<close> \<open>set ys = set xs\<close> by (simp add: inj_on_map_eq_map)
qed

lemma word32_inj: "i < 2 ^ 32 \<Longrightarrow> j < 2 ^ 32 \<Longrightarrow> (word_of_nat i :: u32) = word_of_nat j \<longleftrightarrow> i = j"
  by (auto simp: word_unat_eq_iff unat_of_nat)

lemma fields_occurrences_distinct:
  "distinct (map fst flds) \<Longrightarrow>
   (\<forall>(tag, tx)\<in>set flds. length (field_occurrences tokenize tx tag) \<le> UINT32_MAX) \<Longrightarrow>
   distinct (map occ_key (fields_occurrences tokenize flds)) \<and>
   occ_tag ` set (fields_occurrences tokenize flds) \<subseteq> fst ` set flds"
proof (induction flds)
  case Nil
  show ?case by (simp add: fields_occurrences_def)
next
  case (Cons f flds)
  obtain tag tx where f: "f = (tag, tx)" by (cases f)
  let ?xs = "field_occurrences tokenize tx tag" and ?ys = "fields_occurrences tokenize flds"
  have eq: "fields_occurrences tokenize (f # flds) = ?xs @ ?ys"
    by (simp add: fields_occurrences_def f)
  note shape = field_occurrences_shape[OF refl[of ?xs]]
  have ih: "distinct (map occ_key ?ys)" "occ_tag ` set ?ys \<subseteq> fst ` set flds"
    using Cons by auto
  have len: "length ?xs \<le> UINT32_MAX" using Cons.prems(2) by (simp add: f)
  have "inj_on (word_of_nat :: nat \<Rightarrow> u32) {0..<length ?xs}"
    using len by (intro inj_onI) (simp add: word32_inj)
  then have "distinct (map occ_position ?xs)"
    by (simp add: shape(2) distinct_map)
  then have "distinct (map (\<lambda>k. snd (snd (snd (snd k)))) (map occ_key ?xs))"
    by (simp add: occ_key_def comp_def)
  then have dx: "distinct (map occ_key ?xs)" by (rule distinct_map[THEN iffD1, THEN conjunct1])
  have tags: "occ_tag ` set ?xs \<subseteq> {tag}" using shape(1) by auto
  have new: "tag \<notin> fst ` set flds" using Cons.prems(1) by (simp add: f)
  have "occ_tag x \<noteq> occ_tag y" if "x \<in> set ?xs" "y \<in> set ?ys" for x y
  proof -
    have "occ_tag x = tag" using shape(1)[OF that(1)] by (rule conjunct1)
    moreover have "occ_tag y \<in> fst ` set flds" using ih(2) that(2) by (rule subsetD[OF _ imageI])
    ultimately show ?thesis using new by metis
  qed
  then have "occ_key ` set ?xs \<inter> occ_key ` set ?ys = {}"
    by (auto simp: occ_key_def)
  then show ?case
    unfolding eq using dx ih tags by (auto simp: f)
qed

lemma fields_occurrences_member:
  "x \<in> set (fields_occurrences tokenize flds) \<Longrightarrow>
     \<exists>tag tx. (tag, tx) \<in> set flds \<and> x \<in> set (field_occurrences tokenize tx tag)"
  by (auto simp: fields_occurrences_def)

lemma fields_occurrences_length:
  "(tag, tx) \<in> set flds \<Longrightarrow>
     length (field_occurrences tokenize tx tag) \<le> length (fields_occurrences tokenize flds)"
  by (induction flds) (auto simp: fields_occurrences_def)

definition tag_ok :: "u64 \<Rightarrow> u64 \<Rightarrow> u32 \<times> u64 \<times> u32 \<Rightarrow> bool" where
  "tag_ok dc pc = (\<lambda>(ty, ord, fd).
     (ty = YAP_V2_LEXICAL_DOCUMENT \<and> ord < dc \<or> ty = YAP_V2_LEXICAL_PASSAGE \<and> ord < pc) \<and>
     fd \<in> {YAP_V2_FIELD_TITLE, YAP_V2_FIELD_BODY, YAP_V2_FIELD_PASSAGE})"

lemma fields_occurrences_ok:
  assumes tags: "distinct (map fst flds)" "\<forall>tag\<in>set (map fst flds). tag_ok dc pc tag"
    and terms: "\<forall>x\<in>set (fields_occurrences tokenize flds). term_ok x"
    and len: "length (fields_occurrences tokenize flds) < UINT32_MAX"
  shows "occurrences_ok dc pc (fields_occurrences tokenize flds)"
proof -
  let ?xs = "fields_occurrences tokenize flds"
  have fl: "length (field_occurrences tokenize tx tag) < UINT32_MAX" if "(tag, tx) \<in> set flds" for tag tx
    using fields_occurrences_length[OF that, of tokenize] len by simp
  have d: "distinct (map occ_key ?xs)"
  proof -
    have "\<forall>(tag, tx)\<in>set flds. length (field_occurrences tokenize tx tag) \<le> UINT32_MAX"
      using fl by (auto intro: less_imp_le)
    from fields_occurrences_distinct[OF tags(1) this] show ?thesis by (rule conjunct1)
  qed
  have ok: "occ_ok dc pc x" if x: "x \<in> set ?xs" for x
  proof -
    obtain tag tx where m: "(tag, tx) \<in> set flds" "x \<in> set (field_occurrences tokenize tx tag)"
      using fields_occurrences_member[OF x] by blast
    let ?fs = "field_occurrences tokenize tx tag"
    note shape = field_occurrences_shape[OF refl[of ?fs]]
    have tag: "occ_tag x = tag" "occ_field_length x = word_of_nat (length ?fs)"
      using shape(1)[OF m(2)] by auto
    have "tag_ok dc pc (occ_tag x)" using tags(2) m(1) tag(1) by force
    moreover obtain i where "i < length ?fs" "x = ?fs ! i"
      using m(2) by (auto simp: in_set_conv_nth)
    then have "i < length ?fs" "occ_position x = word_of_nat i"
      using arg_cong[OF shape(2), of "\<lambda>l. l ! i"] by simp_all
    then have "occ_position x < occ_field_length x"
      using fl[OF m(1)] by (simp add: tag(2) word_less_nat_alt unat_of_nat)
    moreover have "occ_field_length x \<noteq> - 1"
    proof
      assume "occ_field_length x = - 1"
      then have "unat (word_of_nat (length ?fs) :: u32) = unat (- 1 :: u32)" by (simp add: tag(2))
      with fl[OF m(1)] show False by (simp add: unat_of_nat unsigned_minus_1_eq_mask mask_eq_exp_minus_1)
    qed
    moreover have "term_ok x" using terms x by blast
    ultimately show ?thesis by (simp add: occ_ok_def tag_ok_def term_ok_def)
  qed
  have cons: "occ_field_length x = occ_field_length y"
    if xy: "x \<in> set ?xs" "y \<in> set ?xs" "occ_object x = occ_object y" "occ_field x = occ_field y" for x y
  proof -
    obtain tag tx where x: "(tag, tx) \<in> set flds" "x \<in> set (field_occurrences tokenize tx tag)"
      using fields_occurrences_member[OF xy(1)] by blast
    obtain tag' tx' where y: "(tag', tx') \<in> set flds" "y \<in> set (field_occurrences tokenize tx' tag')"
      using fields_occurrences_member[OF xy(2)] by blast
    have sx: "occ_tag x = tag" "occ_field_length x = word_of_nat (length (field_occurrences tokenize tx tag))"
      and sy: "occ_tag y = tag'" "occ_field_length y = word_of_nat (length (field_occurrences tokenize tx' tag'))"
      using field_occurrences_shape(1)[OF refl x(2)] field_occurrences_shape(1)[OF refl y(2)] by auto
    have "tag = tag'" using sx(1) sy(1) xy(3,4) by simp
    then have "tx = tx'"
      using x(1) y(1) tags(1) eq_key_imp_eq_value by metis
    with \<open>tag = tag'\<close> sx sy show ?thesis by simp
  qed
  show ?thesis
    using ok d cons unfolding occurrences_ok_def by blast
qed


lemma word64_less: "i < n \<Longrightarrow> n < 2 ^ 64 \<Longrightarrow> (word_of_nat i :: u64) < word_of_nat n"
  by (simp add: word_less_nat_alt unat_of_nat)

lemma word64_inj: "i < 2 ^ 64 \<Longrightarrow> j < 2 ^ 64 \<Longrightarrow> (word_of_nat i :: u64) = word_of_nat j \<longleftrightarrow> i = j"
  by (auto simp: word_unat_eq_iff unat_of_nat)

lemma document_fields_tags:
  "k + length documents < 2 ^ 64 \<Longrightarrow> distinct (map fst (document_fields k documents)) \<and>
   (\<forall>tag\<in>set (map fst (document_fields k documents)). \<exists>i fd. k \<le> i \<and> i < k + length documents \<and>
      tag = (YAP_V2_LEXICAL_DOCUMENT, word_of_nat i, fd) \<and> fd \<in> {YAP_V2_FIELD_TITLE, YAP_V2_FIELD_BODY})"
proof (induction documents arbitrary: k)
  case Nil
  show ?case by (simp add: document_fields_def)
next
  case (Cons d documents)
  let ?tag = "\<lambda>i fd. (YAP_V2_LEXICAL_DOCUMENT, word_of_nat i :: u64, fd)"
  let ?rest = "map fst (document_fields (Suc k) documents)"
  have eq: "map fst (document_fields k (d # documents)) =
      ?tag k YAP_V2_FIELD_TITLE # ?tag k YAP_V2_FIELD_BODY # ?rest"
    by (simp add: document_fields_def)
  have ih: "distinct ?rest" "\<forall>tag\<in>set ?rest. \<exists>i fd. Suc k \<le> i \<and> i < Suc k + length documents \<and>
      tag = ?tag i fd \<and> fd \<in> {YAP_V2_FIELD_TITLE, YAP_V2_FIELD_BODY}"
    using Cons.IH[of "Suc k"] Cons.prems by auto
  have new: "?tag k fd \<notin> set ?rest" for fd
  proof
    assume "?tag k fd \<in> set ?rest"
    then obtain i where "Suc k \<le> i" "i < Suc k + length documents" "(word_of_nat k :: u64) = word_of_nat i"
      using ih(2) by blast
    then show False using Cons.prems word64_inj[of k i] by simp
  qed
  have "\<forall>tag\<in>set ?rest. \<exists>i fd. k \<le> i \<and> i < k + length (d # documents) \<and>
      tag = ?tag i fd \<and> fd \<in> {YAP_V2_FIELD_TITLE, YAP_V2_FIELD_BODY}"
  proof
    fix tag assume "tag \<in> set ?rest"
    with ih(2) obtain i fd where "Suc k \<le> i" "i < Suc k + length documents" "tag = ?tag i fd"
      "fd \<in> {YAP_V2_FIELD_TITLE, YAP_V2_FIELD_BODY}" by blast
    then show "\<exists>i fd. k \<le> i \<and> i < k + length (d # documents) \<and>
        tag = ?tag i fd \<and> fd \<in> {YAP_V2_FIELD_TITLE, YAP_V2_FIELD_BODY}"
      by (intro exI[of _ i] exI[of _ fd]) simp
  qed
  note rest = this
  have here: "\<exists>i fd. k \<le> i \<and> i < k + length (d # documents) \<and>
      ?tag k f = ?tag i fd \<and> fd \<in> {YAP_V2_FIELD_TITLE, YAP_V2_FIELD_BODY}"
    if "f \<in> {YAP_V2_FIELD_TITLE, YAP_V2_FIELD_BODY}" for f
    by (rule exI[of _ k], rule exI[of _ f]) (use that in simp)
  have "?tag k YAP_V2_FIELD_TITLE \<noteq> ?tag k YAP_V2_FIELD_BODY"
    by (simp add: lexical_constants)
  then have "distinct (map fst (document_fields k (d # documents)))"
    unfolding eq using ih(1) new by simp
  moreover have "\<exists>i fd. k \<le> i \<and> i < k + length (d # documents) \<and>
      tag = ?tag i fd \<and> fd \<in> {YAP_V2_FIELD_TITLE, YAP_V2_FIELD_BODY}"
    if tag: "tag \<in> set (map fst (document_fields k (d # documents)))" for tag
  proof -
    consider "tag = ?tag k YAP_V2_FIELD_TITLE" | "tag = ?tag k YAP_V2_FIELD_BODY" | "tag \<in> set ?rest"
      using tag unfolding eq by auto
    then show ?thesis
    proof cases
      case 1
      then show ?thesis using here[of YAP_V2_FIELD_TITLE] by blast
    next
      case 2
      then show ?thesis using here[of YAP_V2_FIELD_BODY] by blast
    next
      case 3
      then show ?thesis using rest by blast
    qed
  qed
  ultimately show ?case by blast
qed

lemma passage_fields_tags:
  assumes "length passages < 2 ^ 64"
  shows "distinct (map fst (passage_fields 0 passages))"
    and "\<forall>tag\<in>set (map fst (passage_fields 0 passages)). \<exists>i < length passages.
      tag = (YAP_V2_LEXICAL_PASSAGE, word_of_nat i, YAP_V2_FIELD_PASSAGE)"
proof -
  have eq: "map fst (passage_fields 0 passages) =
      map (\<lambda>i. (YAP_V2_LEXICAL_PASSAGE, word_of_nat i, YAP_V2_FIELD_PASSAGE)) [0..<length passages]"
  proof -
    have "map fst (passage_fields 0 passages) =
        map (\<lambda>i. (YAP_V2_LEXICAL_PASSAGE, word_of_nat i, YAP_V2_FIELD_PASSAGE)) (map fst (enumerate 0 passages))"
      by (simp only: passage_fields_def map_map comp_def case_prod_unfold fst_conv)
    then show ?thesis by (simp only: map_fst_enumerate) simp
  qed
  show "distinct (map fst (passage_fields 0 passages))"
    unfolding eq distinct_map using assms word64_inj by (auto intro!: inj_onI)
  show "\<forall>tag\<in>set (map fst (passage_fields 0 passages)). \<exists>i < length passages.
      tag = (YAP_V2_LEXICAL_PASSAGE, word_of_nat i, YAP_V2_FIELD_PASSAGE)"
    unfolding eq by auto
qed

lemma segment_fields_tags:
  assumes "length documents < 2 ^ 64" "length passages < 2 ^ 64"
    and flds: "flds = document_fields 0 documents @ passage_fields 0 passages"
  shows "distinct (map fst flds)"
    and "\<forall>tag\<in>set (map fst flds). tag_ok (word_of_nat (length documents)) (word_of_nat (length passages)) tag"
proof -
  have doc: "distinct (map fst (document_fields 0 documents))"
    "\<forall>tag\<in>set (map fst (document_fields 0 documents)). \<exists>i fd. i < length documents \<and>
      tag = (YAP_V2_LEXICAL_DOCUMENT, word_of_nat i, fd) \<and> fd \<in> {YAP_V2_FIELD_TITLE, YAP_V2_FIELD_BODY}"
    using document_fields_tags[of 0 documents] assms(1) by simp_all
  note psg = passage_fields_tags[OF assms(2)]
  have "set (map fst (document_fields 0 documents)) \<inter> set (map fst (passage_fields 0 passages)) = {}"
    using doc(2) psg(2) by (fastforce simp: lexical_constants)
  then show "distinct (map fst flds)"
    using doc(1) psg(1) by (simp add: flds)
  show "\<forall>tag\<in>set (map fst flds). tag_ok (word_of_nat (length documents)) (word_of_nat (length passages)) tag"
  proof
    fix tag assume "tag \<in> set (map fst flds)"
    then consider "tag \<in> set (map fst (document_fields 0 documents))" | "tag \<in> set (map fst (passage_fields 0 passages))"
      by (auto simp: flds)
    then show "tag_ok (word_of_nat (length documents)) (word_of_nat (length passages)) tag"
    proof cases
      case 1
      with doc(2) obtain i fd where "i < length documents"
        "tag = (YAP_V2_LEXICAL_DOCUMENT, word_of_nat i, fd)" "fd \<in> {YAP_V2_FIELD_TITLE, YAP_V2_FIELD_BODY}"
        by blast
      then show ?thesis using word64_less[OF _ assms(1)] by (auto simp: tag_ok_def)
    next
      case 2
      with psg(2) obtain i where "i < length passages"
        "tag = (YAP_V2_LEXICAL_PASSAGE, word_of_nat i, YAP_V2_FIELD_PASSAGE)" by blast
      then show ?thesis using word64_less[OF _ assms(2)] by (simp add: tag_ok_def)
    qed
  qed
qed

lemma build_payloads_length:
  assumes "build_payloads mem occs dc pc totals = Inr r"
  shows "length occs < 2 ^ 28"
proof -
  obtain p tc pt where r: "r = (p, tc, pt)" by (cases r)
  let ?groups = "term_runs (sorted_items occs)"
  note bp = build_payloads_Inr[OF assms[unfolded r]]
  have "8 * length (concat groups) \<le> length (enc_position_entries ord groups)" for ord groups
    by (induction groups arbitrary: ord) (auto simp: length_enc_position_entry intro: trans_le_add2 add_mono)
  from this[of ?groups 0] have "8 * length occs \<le> length (positions_payload ?groups)"
    by (simp add: positions_payload_def runs_concat)
  also have "\<dots> \<le> YAP_V2_MAX_SEGMENT_PAYLOAD_BYTES"
    using bp by (auto simp: payloads_inv_def buffer_inv_def)
  finally show ?thesis by (simp add: storage_limits)
qed

lemma lexical_write_Inr:
  assumes "YAP_V2_lexical_write mem tokenize ios short back dir g documents passages = (Inr cs, ops)"
  shows "\<exists>totals. write_occurrences mem ios short back dir g
      (segment_occurrences tokenize documents passages) (length documents) (length passages) totals =
        (Inr cs, ops) \<and>
    occurrences_ok (word_of_nat (length documents)) (word_of_nat (length passages))
      (segment_occurrences tokenize documents passages)"
proof -
  obtain o1 t b o2 pt where
    1: "tokenize_documents mem tokenize 0 documents YAP_V2_lexical_prepared_init 0 0 = Inr (o1, t, b)"
    and 2: "tokenize_passages mem tokenize 0 passages o1 0 = Inr (o2, pt)"
    and w: "write_occurrences mem ios short back dir g (lp_items o2) (length documents) (length passages)
        [t, b, pt] = (Inr cs, ops)"
    and lim: "length documents \<le> YAP_V2_MAX_SEGMENT_DOCUMENTS" "length passages \<le> YAP_V2_MAX_SEGMENT_PASSAGES"
    using assms unfolding YAP_V2_lexical_write_def
    by (auto simp: result_simps split: if_splits sum.split_asm prod.split_asm)
  note d = tokenize_documents_Inr[OF 1] and p = tokenize_passages_Inr[OF 2]
  let ?flds = "document_fields 0 documents @ passage_fields 0 passages"
  have items: "lp_items o2 = segment_occurrences tokenize documents passages"
    using d p by (simp add: segment_occurrences_def fields_occurrences_def YAP_V2_lexical_prepared_init_def)
  have small: "length documents < 2 ^ 64" "length passages < 2 ^ 64"
    using lim by (simp_all add: storage_limits)
  obtain r where "build_payloads mem (lp_items o2) (length documents) (length passages) [t, b, pt] = Inr r"
    using w unfolding write_occurrences_def by (auto split: sum.split_asm)
  from build_payloads_length[OF this] have "length (segment_occurrences tokenize documents passages) < UINT32_MAX"
    by (simp add: items)
  moreover have "\<forall>x\<in>set (fields_occurrences tokenize ?flds). term_ok x"
    using d p by (auto simp: fields_occurrences_def)
  ultimately have "occurrences_ok (word_of_nat (length documents)) (word_of_nat (length passages))
      (segment_occurrences tokenize documents passages)"
    unfolding segment_occurrences_def
    using segment_fields_tags[OF small refl] by (intro fields_occurrences_ok)
  with w items show ?thesis by auto
qed

end
