(* ===== verification/Lexical_Search.thy ===== *)
theory Lexical_Search
  imports Lexical_Index
begin

section \<open>Writing, preparing and searching a lexical index\<close>

text \<open>
  When writing succeeds (\<open>lexical_write_total\<close>), the prepared units of single documents and their
  combination, the lookup of a term (\<open>lookup_keys\<close>), and the theorems on the index as a whole.
\<close>

subsection \<open>When writing succeeds\<close>

abbreviation granted :: "nat \<Rightarrow> bool" where
  "granted \<equiv> \<lambda>_. True"

lemma accepts_lex [accepts_intros]: "accepts (\<lambda>b. lex_append granted b d) d"
proof (rule acceptsI[OF appends_lex])
  fix b assume "buffer_inv b" "length (buf_data b) + length d \<le> YAP_V2_MAX_SEGMENT_PAYLOAD_BYTES"
  then show "\<exists>b'. lex_append granted b d = Inr b'"
    using lex_append_cases[where b = b and mem = granted and d = d] by (auto split: sum.splits)
qed

lemma accepts_lex_u32 [accepts_intros]:
  "accepts (\<lambda>b. lex_append_u32 granted b v) (put_u32_le v)"
  unfolding lex_append_u32_def put_u32_eq by (rule accepts_lex)

lemma accepts_lex_u64 [accepts_intros]:
  "accepts (\<lambda>b. lex_append_u64 granted b v) (put_u64_le v)"
  unfolding lex_append_u64_def put_u64_eq by (rule accepts_lex)

lemma lex_u32_fits:
  assumes "buffer_inv b" "length (buf_data b) + 4 \<le> YAP_V2_MAX_SEGMENT_PAYLOAD_BYTES"
  shows "\<exists>b'. lex_append_u32 granted b v = Inr b' \<and> buffer_inv b' \<and> buf_data b' = buf_data b @ put_u32_le v"
  using acceptsD[OF accepts_lex_u32[of v] assms(1)] assms(2)
    appendsD[OF appends_lex_u32 _ assms(1)] by auto

lemma append_positions_total:
  shows "buffer_inv b \<Longrightarrow> length (buf_data b) + 8 * length items \<le> YAP_V2_MAX_SEGMENT_PAYLOAD_BYTES \<Longrightarrow>
    \<exists>b'. append_positions granted YAP_V2_OK b items = (YAP_V2_OK, b')"
proof (induction items arbitrary: b)
  case Nil
  show ?case by simp
next
  case (Cons x items)
  obtain b1 where b1: "lex_append_u32 granted b (occ_field x) = Inr b1" "buffer_inv b1"
    "buf_data b1 = buf_data b @ put_u32_le (occ_field x)"
    using lex_u32_fits[of b "occ_field x"] Cons.prems by auto
  obtain b2 where b2: "lex_append_u32 granted b1 (occ_position x) = Inr b2" "buffer_inv b2"
    "buf_data b2 = buf_data b1 @ put_u32_le (occ_position x)"
    using lex_u32_fits[of b1 "occ_position x"] Cons.prems(2) b1(2,3) by auto
  obtain b' where "append_positions granted YAP_V2_OK b2 items = (YAP_V2_OK, b')"
    using Cons.IH[OF b2(2)] Cons.prems(2) b1(3) b2(3) by auto
  with b1 b2 show ?case by simp
qed

lemma accepts_posting:
  "accepts (append_posting granted items (word_of_nat k)) (enc_posting k items)"
  unfolding append_posting_def enc_posting_def Let_def by (intro accepts_intros)

lemma append_objects_total:
  shows "buffer_inv p \<Longrightarrow> buffer_inv q \<Longrightarrow>
    length (buf_data p) + 48 * length objs \<le> YAP_V2_MAX_SEGMENT_PAYLOAD_BYTES \<Longrightarrow>
    length (buf_data q) + 8 * length (concat objs) \<le> YAP_V2_MAX_SEGMENT_PAYLOAD_BYTES \<Longrightarrow>
    \<exists>r. append_objects granted objs (word_of_nat k) pt p q = Inr r"
proof (induction objs arbitrary: k pt p q)
  case Nil
  show ?case by simp
next
  case (Cons items objs)
  obtain q1 where q1: "append_positions granted YAP_V2_OK q items = (YAP_V2_OK, q1)"
    using append_positions_total[OF Cons.prems(2)] Cons.prems(4) by force
  note q1' = append_positions_ok[OF q1 Cons.prems(2)]
  obtain p1 where p1: "append_posting granted items (word_of_nat k) p = Inr p1"
    using acceptsD[OF accepts_posting Cons.prems(1)] Cons.prems(3) by force
  note p1' = appendsD[OF appends_posting p1 Cons.prems(1)]
  have "\<exists>r. append_objects granted objs (word_of_nat (k + length items)) (pt + 1) p1 q1 = Inr r"
    using Cons.prems(3,4) p1' q1' by (intro Cons.IH) auto
  with p1 q1 show ?case by simp
qed

lemma append_block_total:
  assumes "buffer_inv b" "length (buf_data b) + 16 \<le> YAP_V2_MAX_SEGMENT_PAYLOAD_BYTES"
  shows "\<exists>b'. append_block granted k objs b = (YAP_V2_OK, b')"
proof -
  obtain mx mn where e: "block_entry objs = (mx, mn)" by fastforce
  obtain b1 where b1: "lex_append_u32 granted b (word_of_nat k) = Inr b1" "buffer_inv b1"
    "buf_data b1 = buf_data b @ put_u32_le (word_of_nat k)"
    using lex_u32_fits[of b "word_of_nat k"] assms by auto
  obtain b2 where b2: "lex_append_u32 granted b1 (word_of_nat (length objs)) = Inr b2" "buffer_inv b2"
    "buf_data b2 = buf_data b1 @ put_u32_le (word_of_nat (length objs))"
    using lex_u32_fits[of b1 "word_of_nat (length objs)"] assms(2) b1(2,3) by auto
  obtain b3 where b3: "lex_append_u32 granted b2 mx = Inr b3" "buffer_inv b3" "buf_data b3 = buf_data b2 @ put_u32_le mx"
    using lex_u32_fits[of b2 mx] assms(2) b1(3) b2(2,3) by auto
  obtain b4 where b4: "lex_append_u32 granted b3 (if mn = - 1 then 0 else mn) = Inr b4"
    using lex_u32_fits[of b3 "if mn = - 1 then 0 else mn"] assms(2) b1(3) b2(3) b3(2,3) by auto
  show ?thesis
    unfolding append_block_def e using b1(1) b2(1) b3(1) b4 by simp
qed

lemma append_blocks_total:
  shows "buffer_inv b \<Longrightarrow>
    length (buf_data b) + length (enc_blocks k objs) \<le> YAP_V2_MAX_SEGMENT_PAYLOAD_BYTES \<Longrightarrow>
    \<exists>b'. append_blocks granted YAP_V2_OK k objs b = (YAP_V2_OK, b')"
proof (induction k objs arbitrary: b rule: enc_blocks.induct)
  case (1 k objs)
  show ?case
  proof (cases "objs = []")
    case True
    then show ?thesis by (simp add: append_blocks.simps)
  next
    case False
    let ?B = "take YAP_V2_POSTINGS_BLOCK_SIZE objs" and ?D = "drop YAP_V2_POSTINGS_BLOCK_SIZE objs"
    have len: "length (enc_blocks k objs) = 16 + length (enc_blocks (k + length ?B) ?D)"
      using False by (subst enc_blocks.simps) simp
    obtain b1 where b1: "append_block granted k ?B b = (YAP_V2_OK, b1)"
      using append_block_total[OF "1.prems"(1)] "1.prems"(2) len by force
    note b1' = append_block_ok[OF b1 "1.prems"(1)]
    have "\<exists>b'. append_blocks granted YAP_V2_OK (k + length ?B) ?D b1 = (YAP_V2_OK, b')"
      using b1' "1.prems"(2) len by (intro "1.IH"[OF False]) auto
    with b1 False show ?thesis by (subst append_blocks.simps) simp
  qed
qed

lemma append_term_total:
  assumes inv: "payloads_inv p"
    and fit: "length (buf_data (lb_terms p)) + length (enc_term_entry ord poff qoff items) \<le> YAP_V2_MAX_SEGMENT_PAYLOAD_BYTES"
      "length (buf_data (lb_postings p)) + length (enc_posting_entry ord items) \<le> YAP_V2_MAX_SEGMENT_PAYLOAD_BYTES"
      "length (buf_data (lb_positions p)) + length (enc_position_entry ord items) \<le> YAP_V2_MAX_SEGMENT_PAYLOAD_BYTES"
  shows "\<exists>r. append_term granted ord items (p, pt) = Inr r"
proof -
  let ?objs = "object_runs items"
  define f where "f = (\<lambda>b. rbind (lex_append_u64 granted b (word_of_nat ord)) (\<lambda>postings.
            rbind (lex_append_u64 granted postings (word_of_nat (length ?objs))) (\<lambda>postings.
            lex_append_u32 granted postings (word_of_nat (block_count (length ?objs))))))"
  define g where "g = (\<lambda>b. rbind (lex_append_u64 granted b (word_of_nat ord)) (\<lambda>positions.
            lex_append_u64 granted positions (word_of_nat (length items))))"
  have f: "accepts f (put_u64_le (word_of_nat ord) @ put_u64_le (word_of_nat (length ?objs)) @
     put_u32_le (word_of_nat (block_count (length ?objs))))"
    unfolding f_def by (intro accepts_intros)
  have g: "accepts g (put_u64_le (word_of_nat ord) @ put_u64_le (word_of_nat (length items)))"
    unfolding g_def by (intro accepts_intros)
  have i: "buffer_inv (lb_terms p)" "buffer_inv (lb_postings p)" "buffer_inv (lb_positions p)"
    using inv by (simp_all add: payloads_inv_def)
  obtain p1 where p1: "f (lb_postings p) = Inr p1"
    using acceptsD[OF f i(2)] fit(2) by (force simp: length_enc_posting_entry)
  note p1' = appendsD[OF accepts_appends[OF f] p1 i(2)]
  obtain q1 where q1: "g (lb_positions p) = Inr q1"
    using acceptsD[OF g i(3)] fit(3) by (force simp: length_enc_position_entry)
  note q1' = appendsD[OF accepts_appends[OF g] q1 i(3)]
  have "\<exists>r. append_objects granted ?objs (word_of_nat 0) pt p1 q1 = Inr r"
    using p1' q1' fit(2,3)
    by (intro append_objects_total)
       (auto simp: length_enc_posting_entry length_enc_position_entry runs_concat)
  then obtain p2 q2 pt2 where o2: "append_objects granted ?objs 0 pt p1 q1 = Inr (p2, q2, pt2)" by auto
  note o2' = append_objects_Inr[where k = 0, simplified, OF o2 p1'[THEN conjunct1] q1'[THEN conjunct1]]
  obtain p3 where p3: "append_blocks granted YAP_V2_OK 0 ?objs p2 = (YAP_V2_OK, p3)"
    using append_blocks_total[of p2 0 ?objs] o2' p1' fit(2)
    by (auto simp: length_enc_posting_entry)
  define h where "h = (\<lambda>b. rbind (lex_append_u32 granted b
                     (word_of_nat (length (occ_term (hd items))))) (\<lambda>terms.
            rbind (lex_append granted terms (occ_term (hd items))) (\<lambda>terms.
            rbind (lex_append_u64 granted terms (word_of_nat (length ?objs))) (\<lambda>terms.
            rbind (lex_append_u64 granted terms (word_of_nat (length (buf_data (lb_postings p))))) (\<lambda>terms.
            rbind (lex_append_u64 granted terms (word_of_nat (length (buf_data p3) - length (buf_data (lb_postings p))))) (\<lambda>terms.
            rbind (lex_append_u64 granted terms (word_of_nat (length (buf_data (lb_positions p))))) (\<lambda>terms.
            lex_append_u64 granted terms (word_of_nat (length (buf_data q2) - length (buf_data (lb_positions p)))))))))))"
  define out where "out = put_u32_le (word_of_nat (length (occ_term (hd items)))) @ occ_term (hd items) @
     put_u64_le (word_of_nat (length ?objs)) @ put_u64_le (word_of_nat (length (buf_data (lb_postings p)))) @
     put_u64_le (word_of_nat (length (buf_data p3) - length (buf_data (lb_postings p)))) @
     put_u64_le (word_of_nat (length (buf_data (lb_positions p)))) @
     put_u64_le (word_of_nat (length (buf_data q2) - length (buf_data (lb_positions p))))"
  have h: "accepts h out"
    unfolding h_def out_def by (intro accepts_intros)
  have "length (buf_data (lb_terms p)) + length out \<le> YAP_V2_MAX_SEGMENT_PAYLOAD_BYTES"
    using fit(1) by (simp add: out_def length_enc_term_entry)
  then obtain t where t: "h (lb_terms p) = Inr t"
    using acceptsD[OF h i(1)] by blast
  have "append_term granted ord items (p, pt) =
     rbind (f (lb_postings p)) (\<lambda>postings. rbind (g (lb_positions p)) (\<lambda>positions.
     rbind (append_objects granted ?objs 0 pt postings positions) (\<lambda>(postings, positions, pt).
     case append_blocks granted YAP_V2_OK 0 ?objs postings of (status, postings) \<Rightarrow>
     if status \<noteq> YAP_V2_OK then Inl status
     else rbind (rbind (lex_append_u32 granted (lb_terms p)
                     (word_of_nat (length (occ_term (hd items))))) (\<lambda>terms.
            rbind (lex_append granted terms (occ_term (hd items))) (\<lambda>terms.
            rbind (lex_append_u64 granted terms (word_of_nat (length ?objs))) (\<lambda>terms.
            rbind (lex_append_u64 granted terms (word_of_nat (length (buf_data (lb_postings p))))) (\<lambda>terms.
            rbind (lex_append_u64 granted terms (word_of_nat (length (buf_data postings) - length (buf_data (lb_postings p))))) (\<lambda>terms.
            rbind (lex_append_u64 granted terms (word_of_nat (length (buf_data (lb_positions p))))) (\<lambda>terms.
            lex_append_u64 granted terms (word_of_nat (length (buf_data positions) - length (buf_data (lb_positions p))))))))))) (\<lambda>terms.
       Inr (\<lparr>lb_terms = terms, lb_postings = postings, lb_positions = positions\<rparr>, pt)))))"
    unfolding append_term_def Let_def f_def g_def prod.case by (rule refl)
  also have "\<dots> = Inr (\<lparr>lb_terms = t, lb_postings = p3, lb_positions = q2\<rparr>, pt2)"
    using t unfolding h_def by (simp add: p1 q1 o2 p3)
  finally show ?thesis by blast
qed

lemma append_terms_total:
  shows "payloads_inv p \<Longrightarrow>
    length (buf_data (lb_terms p)) + length (enc_term_entries ord (length (buf_data (lb_postings p)))
      (length (buf_data (lb_positions p))) groups) \<le> YAP_V2_MAX_SEGMENT_PAYLOAD_BYTES \<Longrightarrow>
    length (buf_data (lb_postings p)) + length (enc_posting_entries ord groups) \<le> YAP_V2_MAX_SEGMENT_PAYLOAD_BYTES \<Longrightarrow>
    length (buf_data (lb_positions p)) + length (enc_position_entries ord groups) \<le> YAP_V2_MAX_SEGMENT_PAYLOAD_BYTES \<Longrightarrow>
    \<exists>r. append_terms granted ord groups (p, pt) = Inr r"
proof (induction groups arbitrary: ord p pt)
  case Nil
  show ?case by simp
next
  case (Cons items groups)
  have "\<exists>r. append_term granted ord items (p, pt) = Inr r"
    using Cons.prems
    by (intro append_term_total[where poff = "length (buf_data (lb_postings p))"
          and qoff = "length (buf_data (lb_positions p))"]) auto
  then obtain p1 pt1 where 1: "append_term granted ord items (p, pt) = Inr (p1, pt1)" by auto
  note a = append_term_Inr[OF 1 Cons.prems(1)]
  have "\<exists>r. append_terms granted (Suc ord) groups (p1, pt1) = Inr r"
    using a Cons.prems(2-4) by (intro Cons.IH) (auto simp: add.assoc)
  with 1 show ?case by simp
qed

lemma payload_headers_total: "\<exists>p. payload_headers granted dc pc totals = Inr p"
proof -
  have fit: "\<exists>b'. f buffer_empty = Inr b'" if "accepts f out" "length out \<le> 56" for f out
    using acceptsD[OF that(1) buffer_inv_empty(1)] that(2) by (simp add: storage_limits)
  have t: "accepts (\<lambda>b. rbind (lex_append_u32 granted b YAP_V2_LEXICAL_PAYLOAD_VERSION) (\<lambda>terms.
            lex_append_u64 granted terms 0)) (put_u32_le YAP_V2_LEXICAL_PAYLOAD_VERSION @ put_u64_le 0)"
    by (intro accepts_intros)
  have q: "accepts (\<lambda>b. rbind (lex_append_u32 granted b YAP_V2_LEXICAL_PAYLOAD_VERSION) (\<lambda>postings.
            rbind (lex_append_u32 granted postings (word_of_nat YAP_V2_POSTINGS_BLOCK_SIZE)) (\<lambda>postings.
            rbind (lex_append_u64 granted postings (word_of_nat dc)) (\<lambda>postings.
            rbind (lex_append_u64 granted postings (word_of_nat pc)) (\<lambda>postings.
            rbind (lex_append_u64 granted postings 0) (\<lambda>postings.
            rbind (lex_append_u64 granted postings (totals ! 0)) (\<lambda>postings.
            rbind (lex_append_u64 granted postings (totals ! 1)) (\<lambda>postings.
            lex_append_u64 granted postings (totals ! 2))))))))) (put_u32_le YAP_V2_LEXICAL_PAYLOAD_VERSION @
     put_u32_le (word_of_nat YAP_V2_POSTINGS_BLOCK_SIZE) @ put_u64_le (word_of_nat dc) @
     put_u64_le (word_of_nat pc) @ put_u64_le 0 @
     put_u64_le (totals ! 0) @ put_u64_le (totals ! 1) @ put_u64_le (totals ! 2))"
    by (intro accepts_intros)
  obtain b1 b2 where "rbind (lex_append_u32 granted buffer_empty YAP_V2_LEXICAL_PAYLOAD_VERSION) (\<lambda>terms.
            lex_append_u64 granted terms 0) = Inr b1"
    "rbind (lex_append_u32 granted buffer_empty YAP_V2_LEXICAL_PAYLOAD_VERSION) (\<lambda>postings.
            rbind (lex_append_u32 granted postings (word_of_nat YAP_V2_POSTINGS_BLOCK_SIZE)) (\<lambda>postings.
            rbind (lex_append_u64 granted postings (word_of_nat dc)) (\<lambda>postings.
            rbind (lex_append_u64 granted postings (word_of_nat pc)) (\<lambda>postings.
            rbind (lex_append_u64 granted postings 0) (\<lambda>postings.
            rbind (lex_append_u64 granted postings (totals ! 0)) (\<lambda>postings.
            rbind (lex_append_u64 granted postings (totals ! 1)) (\<lambda>postings.
            lex_append_u64 granted postings (totals ! 2)))))))) = Inr b2"
    using fit[OF t] fit[OF q] by auto
  then show ?thesis unfolding payload_headers_def by simp
qed

definition payloads_fit :: "nat \<Rightarrow> nat \<Rightarrow> YAP_V2_LEXICAL_OCCURRENCE list \<Rightarrow> bool" where
  "payloads_fit dc pc occs \<longleftrightarrow>
     length (terms_payload (term_runs (sorted_items occs))) \<le> YAP_V2_MAX_SEGMENT_PAYLOAD_BYTES \<and>
     length (postings_payload dc pc [0, 0, 0] (term_runs (sorted_items occs))) \<le> YAP_V2_MAX_SEGMENT_PAYLOAD_BYTES \<and>
     length (positions_payload (term_runs (sorted_items occs))) \<le> YAP_V2_MAX_SEGMENT_PAYLOAD_BYTES"

lemma build_payloads_total:
  assumes "payloads_fit dc pc occs"
  shows "\<exists>r. build_payloads granted occs dc pc totals = Inr r"
proof -
  let ?groups = "term_runs (sorted_items occs)"
  have items: "(if length occs > 1 then qsort_by occurrence_compare occs else occs) = sorted_items occs"
    using qsort_small[of occs occurrence_compare] by (simp add: sorted_items_def)
  obtain p where p: "payload_headers granted dc pc totals = Inr p"
    using payload_headers_total by blast
  note h = payload_headers_Inr[OF p]
  have "\<exists>r. append_terms granted 0 ?groups (p, 0) = Inr r"
    using h assms
    by (intro append_terms_total)
       (auto simp: payloads_fit_def terms_payload_def postings_payload_def positions_payload_def)
  then show ?thesis
    using p unfolding build_payloads_def Let_def items by (auto split: prod.splits)
qed

definition echo :: "nat \<Rightarrow> bytes \<Rightarrow> bytes list option \<times> bool \<times> bool" where
  "echo i content = (Some [content], True, True)"

lemma write_component_total:
  assumes t: "t \<in> {YAP_V2_FILE_TERMS, YAP_V2_FILE_POSTINGS, YAP_V2_FILE_POSITIONS}" and g: "g \<noteq> 0"
    and len: "length payload \<le> YAP_V2_MAX_SEGMENT_PAYLOAD_BYTES" and path: "length path \<le> SIZE_MAX - 5"
  shows "\<exists>c ops. write_component (\<lambda>_. True) short (echo i) path t g payload records = (Inr c, ops)"
proof -
  let ?h = "\<lparr>hdr_format_version = YAP_V2_FORMAT_VERSION,
         hdr_header_bytes = word_of_nat YAP_V2_FILE_HEADER_BYTES, hdr_file_type = t,
         hdr_generation = g, hdr_payload_bytes = word_of_nat (length payload),
         hdr_payload_crc32c = crc32c_branch payload\<rparr>"
  have "header_fields_valid ?h"
    using g t by (auto simp: header_fields_valid_def file_header_type_valid_def file_types)
  then obtain hb where hb: "YAP_V2_file_header_encode ?h = Inr hb"
    by (simp add: YAP_V2_file_header_encode_def)
  have "length (hb @ payload) \<le> SIZE_MAX"
    using encode_length[OF hb] len by (simp add: storage_limits)
  then obtain r where r: "YAP_V2_file_sha256 (Some [hb @ payload]) True True = Inr r"
    by (simp add: YAP_V2_file_sha256_def split: prod.splits)
  have "fst (write_replace (\<lambda>_. True) short path (hb @ payload)) = YAP_V2_OK"
    using path by (simp add: write_replace_def fsync_parent_def Let_def)
  then obtain ops where w: "write_replace (\<lambda>_. True) short path (hb @ payload) = (YAP_V2_OK, ops)"
    by (cases "write_replace (\<lambda>_. True) short path (hb @ payload)") simp
  show ?thesis
    unfolding write_component_def hb by (simp add: w r echo_def split: prod.splits)
qed

lemma write_components_total:
  assumes "g \<noteq> 0" "length dir \<le> SIZE_MAX - 100"
    and "length p0 \<le> YAP_V2_MAX_SEGMENT_PAYLOAD_BYTES" "length p1 \<le> YAP_V2_MAX_SEGMENT_PAYLOAD_BYTES"
      "length p2 \<le> YAP_V2_MAX_SEGMENT_PAYLOAD_BYTES"
  shows "\<exists>cs ops. write_components granted (\<lambda>_ _. True) short echo dir g [0, 1, 2] [p0, p1, p2] records = (Inr cs, ops)"
proof -
  have path: "length (dir @ ''/'' @ lexical_names ! i) \<le> SIZE_MAX - 5" if "i < 3" for i
    using assms(2) that by (auto simp: lexical_names_def less_Suc_eq numeral_3_eq_3)
  obtain c0 o0 where 0: "write_component (\<lambda>_. True) short (echo 0) (dir @ ''/'' @ lexical_names ! 0)
      YAP_V2_FILE_TERMS g p0 (records ! 0) = (Inr c0, o0)"
    using write_component_total[OF _ assms(1,3) path[of 0], of YAP_V2_FILE_TERMS short 0 "records ! 0"] by auto
  obtain c1 o1 where 1: "write_component (\<lambda>_. True) short (echo 1) (dir @ ''/'' @ lexical_names ! 1)
      YAP_V2_FILE_POSTINGS g p1 (records ! 1) = (Inr c1, o1)"
    using write_component_total[OF _ assms(1,4) path[of 1], of YAP_V2_FILE_POSTINGS short 1 "records ! 1"] by auto
  obtain c2 o2 where 2: "write_component (\<lambda>_. True) short (echo 2) (dir @ ''/'' @ lexical_names ! 2)
      YAP_V2_FILE_POSITIONS g p2 (records ! 2) = (Inr c2, o2)"
    using write_component_total[OF _ assms(1,5) path[of 2], of YAP_V2_FILE_POSITIONS short 2 "records ! 2"] by auto
  from 0 1 2 show ?thesis
    by (simp add: Let_def lexical_types_def)
qed

lemma write_occurrences_total:
  assumes "payloads_fit dc pc occs" and "g \<noteq> 0" and "length dir \<le> SIZE_MAX - 100"
  shows "\<exists>cs ops. write_occurrences granted (\<lambda>_ _. True) short echo dir g occs dc pc totals = (Inr cs, ops)"
proof -
  obtain p tc pt where b: "build_payloads granted occs dc pc totals = Inr (p, tc, pt)"
    using build_payloads_total[OF assms(1)] by (metis prod_cases3)
  note bp = build_payloads_Inr[OF b]
  have "length (buf_data (lb_terms p)) \<le> YAP_V2_MAX_SEGMENT_PAYLOAD_BYTES"
    "length (buf_data (lb_postings p)) \<le> YAP_V2_MAX_SEGMENT_PAYLOAD_BYTES"
    "length (buf_data (lb_positions p)) \<le> YAP_V2_MAX_SEGMENT_PAYLOAD_BYTES"
    using bp by (auto simp: payloads_inv_def buffer_inv_def)
  from write_components_total[OF assms(2,3) this] show ?thesis
    unfolding write_occurrences_def b sum.case prod.case by blast
qed

subsection \<open>When tokenization succeeds\<close>

definition capacity_inv :: "YAP_V2_LEXICAL_PREPARED \<Rightarrow> bool" where
  "capacity_inv occs \<longleftrightarrow> lp_capacity occs \<le> 256 + 2 * length (lp_items occs)"

lemma occurrence_add_total:
  assumes "capacity_inv occs" "length (lp_items occs) < 2 ^ 40" "trm \<noteq> []" "length trm \<le> UINT32_MAX"
  shows "\<exists>occs'. occurrence_add granted occs trm ty ord fd pos len = Inr occs' \<and> capacity_inv occs'"
proof -
  have "lp_capacity occs * 2 < 2 ^ 64" "256 + 4 * 2 ^ 40 \<le> SIZE_MAX div occurrence_bytes"
    using assms(1,2) by (simp_all add: capacity_inv_def occurrence_bytes_def)
  then show ?thesis
    using assms by (auto simp: occurrence_add_def Let_def capacity_inv_def occurrence_bytes_def)
qed

lemma add_tokens_total:
  "capacity_inv occs \<Longrightarrow> length (lp_items occs) + length tokens < 2 ^ 40 \<Longrightarrow>
   (\<forall>(j, token)\<in>set (enumerate i tokens). term_ok (token_occurrence normalized ty ord fd n j token)) \<Longrightarrow>
   \<exists>occs'. add_tokens granted normalized ty ord fd (word_of_nat n) i tokens occs = Inr occs' \<and> capacity_inv occs'"
proof (induction tokens arbitrary: i occs)
  case Nil
  then show ?case by simp
next
  case (Cons token tokens)
  let ?t = "take (size_sub (tok_byte_end token) (tok_byte_start token)) (drop (tok_byte_start token) normalized)"
  have t: "?t \<noteq> []" "length ?t \<le> UINT32_MAX"
    using Cons.prems(3) by (simp_all add: term_ok_def token_occurrence_def)
  have l: "length (lp_items occs) < 2 ^ 40" using Cons.prems(2) by simp
  obtain o1 where o1: "occurrence_add granted occs ?t ty ord fd (word_of_nat i) (word_of_nat n) = Inr o1"
    "capacity_inv o1"
    using occurrence_add_total[OF Cons.prems(1) l t] by blast
  have "length (lp_items o1) = Suc (length (lp_items occs))"
    using occurrence_add_Inr[OF o1(1)] by simp
  then have "\<exists>occs'. add_tokens granted normalized ty ord fd (word_of_nat n) (Suc i) tokens o1 = Inr occs' \<and>
      capacity_inv occs'"
    using Cons.prems(2,3) o1(2) by (intro Cons.IH) simp_all
  with o1 show ?case by simp
qed

text \<open>What a text needs for its tokenization to go through: the tokenizer answers, with non-empty tokens.\<close>

definition tokenizable :: "tokenizer \<Rightarrow> YAP_V2_BYTES_VIEW \<Rightarrow> bool" where
  "tokenizable tokenize tx \<longleftrightarrow> view_len tx = 0 \<or>
     (\<exists>s. tokenize (view_bytes tx) = Inr s \<and> length (seq_tokens s) \<le> UINT32_MAX \<and>
        (\<forall>token\<in>set (seq_tokens s). tok_byte_start token < tok_byte_end token \<and>
           tok_byte_end token \<le> length (seq_normalized_utf8 s)) \<and>
        length (seq_normalized_utf8 s) \<le> UINT32_MAX)"

lemma tokenizable_terms:
  assumes "tokenizable tokenize tx" "x \<in> set (field_occurrences tokenize tx tag)"
  shows "term_ok x"
proof -
  obtain ty ord fd where tag: "tag = (ty, ord, fd)" by (cases tag)
  have ne: "view_len tx \<noteq> 0" using assms(2) by (auto simp: field_occurrences_def tag split: if_splits)
  then obtain s where s: "tokenize (view_bytes tx) = Inr s"
    "\<forall>token\<in>set (seq_tokens s). tok_byte_start token < tok_byte_end token \<and>
           tok_byte_end token \<le> length (seq_normalized_utf8 s)" "length (seq_normalized_utf8 s) \<le> UINT32_MAX"
    using assms(1) by (auto simp: tokenizable_def)
  obtain j token where x: "token \<in> set (seq_tokens s)"
    "x = token_occurrence (seq_normalized_utf8 s) ty ord fd (length (seq_tokens s)) j token"
    using assms(2) ne s(1) by (fastforce simp: field_occurrences_def tag enumerate_eq_zip dest: set_zip_rightD)
  have "tok_byte_end token < 2 ^ 64" "tok_byte_start token < tok_byte_end token"
    "tok_byte_end token \<le> length (seq_normalized_utf8 s)"
    using s(2,3) x(1) by auto
  then have "size_sub (tok_byte_end token) (tok_byte_start token) = tok_byte_end token - tok_byte_start token"
    by (intro size_sub_le) simp_all
  then show ?thesis
    using s(2,3) x by (auto simp: term_ok_def token_occurrence_def)
qed

lemma tokenize_field_total:
  assumes "tokenizable tokenize tx" and "capacity_inv occs"
    and "length (lp_items occs) + length (field_occurrences tokenize tx (ty, ord, fd)) < 2 ^ 40"
    and "unat tot + length (field_occurrences tokenize tx (ty, ord, fd)) < 2 ^ 40"
  shows "\<exists>occs' tot'. tokenize_field granted tokenize occs tx ty ord fd tot = Inr (occs', tot') \<and>
    capacity_inv occs' \<and> unat tot' = unat tot + length (field_occurrences tokenize tx (ty, ord, fd))"
proof (cases "view_len tx = 0")
  case True
  with assms(2) show ?thesis by (simp add: tokenize_field_def field_occurrences_def)
next
  case False
  then obtain s where s: "tokenize (view_bytes tx) = Inr s" "length (seq_tokens s) \<le> UINT32_MAX"
    using assms(1) by (auto simp: tokenizable_def)
  have f: "field_occurrences tokenize tx (ty, ord, fd) = map (\<lambda>(i, token).
      token_occurrence (seq_normalized_utf8 s) ty ord fd (length (seq_tokens s)) i token)
      (enumerate 0 (seq_tokens s))"
    using False s(1) by (simp add: field_occurrences_def)
  have l: "length (lp_items occs) + length (seq_tokens s) < 2 ^ 40"
    using assms(3) by (simp add: f)
  have ok: "\<forall>(j, token)\<in>set (enumerate 0 (seq_tokens s)). term_ok
      (token_occurrence (seq_normalized_utf8 s) ty ord fd (length (seq_tokens s)) j token)"
    using tokenizable_terms[OF assms(1), of _ "(ty, ord, fd)"] unfolding f by fastforce
  obtain occs' where o: "add_tokens granted (seq_normalized_utf8 s) ty ord fd
      (word_of_nat (length (seq_tokens s))) 0 (seq_tokens s) occs = Inr occs'" "capacity_inv occs'"
    using add_tokens_total[OF assms(2) l ok] by blast
  have "unat (tot + word_of_nat (length (seq_tokens s))) = unat tot + length (seq_tokens s)"
    using assms(4) by (simp add: f unat_word_ariths unat_of_nat)
  then show ?thesis
    using False s o assms(4) by (simp add: tokenize_field_def Let_def f)
qed

lemma tokenize_documents_total:
  "\<forall>d\<in>set documents. YAP_V2_document_validate (Some d) = YAP_V2_OK \<and>
     tokenizable tokenize (doc_title d) \<and> tokenizable tokenize (doc_body d) \<Longrightarrow>
   capacity_inv occs \<Longrightarrow>
   length (lp_items occs) + length (fields_occurrences tokenize (document_fields i documents)) < 2 ^ 40 \<Longrightarrow>
   unat t + length (fields_occurrences tokenize (document_fields i documents)) < 2 ^ 40 \<Longrightarrow>
   unat b + length (fields_occurrences tokenize (document_fields i documents)) < 2 ^ 40 \<Longrightarrow>
   \<exists>occs' t' b'. tokenize_documents granted tokenize i documents occs t b = Inr (occs', t', b') \<and> capacity_inv occs'"
proof (induction documents arbitrary: i occs t b)
  case Nil
  then show ?case by simp
next
  case (Cons d documents)
  let ?f = "\<lambda>tx fd. field_occurrences tokenize tx (YAP_V2_LEXICAL_DOCUMENT, word_of_nat i, fd)"
  let ?rest = "fields_occurrences tokenize (document_fields (Suc i) documents)"
  have df: "fields_occurrences tokenize (document_fields i (d # documents)) =
      ?f (doc_title d) YAP_V2_FIELD_TITLE @ ?f (doc_body d) YAP_V2_FIELD_BODY @ ?rest"
    by (simp add: document_fields_def fields_occurrences_def)
  note lens = Cons.prems(3-5)[unfolded df length_append]
  obtain o1 t1 where 1: "tokenize_field granted tokenize occs (doc_title d) YAP_V2_LEXICAL_DOCUMENT
      (word_of_nat i) YAP_V2_FIELD_TITLE t = Inr (o1, t1)" "capacity_inv o1"
      "unat t1 = unat t + length (?f (doc_title d) YAP_V2_FIELD_TITLE)"
    using tokenize_field_total[of tokenize "doc_title d" occs YAP_V2_LEXICAL_DOCUMENT "word_of_nat i"
        YAP_V2_FIELD_TITLE t] Cons.prems(1,2) lens by auto
  have l1: "length (lp_items o1) = length (lp_items occs) + length (?f (doc_title d) YAP_V2_FIELD_TITLE)"
    using tokenize_field_Inr[OF 1(1)] by simp
  obtain o2 b2 where 2: "tokenize_field granted tokenize o1 (doc_body d) YAP_V2_LEXICAL_DOCUMENT
      (word_of_nat i) YAP_V2_FIELD_BODY b = Inr (o2, b2)" "capacity_inv o2"
      "unat b2 = unat b + length (?f (doc_body d) YAP_V2_FIELD_BODY)"
    using tokenize_field_total[of tokenize "doc_body d" o1 YAP_V2_LEXICAL_DOCUMENT "word_of_nat i"
        YAP_V2_FIELD_BODY b] Cons.prems(1) 1(2) l1 lens by auto
  have l2: "length (lp_items o2) = length (lp_items o1) + length (?f (doc_body d) YAP_V2_FIELD_BODY)"
    using tokenize_field_Inr[OF 2(1)] by simp
  have "\<exists>occs' t' b'. tokenize_documents granted tokenize (Suc i) documents o2 t1 b2 = Inr (occs', t', b') \<and>
      capacity_inv occs'"
    using Cons.prems(1) 2(2) lens l1 l2 1(3) 2(3) by (intro Cons.IH) auto
  with 1 2 Cons.prems(1) show ?case by simp
qed

lemma tokenize_passages_total:
  "\<forall>p\<in>set passages. YAP_V2_passage_validate (Some p) = YAP_V2_OK \<and> tokenizable tokenize (psg_text p) \<Longrightarrow>
   capacity_inv occs \<Longrightarrow>
   length (lp_items occs) + length (fields_occurrences tokenize (passage_fields i passages)) < 2 ^ 40 \<Longrightarrow>
   unat t + length (fields_occurrences tokenize (passage_fields i passages)) < 2 ^ 40 \<Longrightarrow>
   \<exists>occs' t'. tokenize_passages granted tokenize i passages occs t = Inr (occs', t')"
proof (induction passages arbitrary: i occs t)
  case Nil
  then show ?case by simp
next
  case (Cons p passages)
  let ?f = "field_occurrences tokenize (psg_text p) (YAP_V2_LEXICAL_PASSAGE, word_of_nat i, YAP_V2_FIELD_PASSAGE)"
  have pf: "fields_occurrences tokenize (passage_fields i (p # passages)) =
      ?f @ fields_occurrences tokenize (passage_fields (Suc i) passages)"
    by (simp add: passage_fields_def fields_occurrences_def)
  note lens = Cons.prems(3,4)[unfolded pf length_append]
  obtain o1 t1 where 1: "tokenize_field granted tokenize occs (psg_text p) YAP_V2_LEXICAL_PASSAGE
      (word_of_nat i) YAP_V2_FIELD_PASSAGE t = Inr (o1, t1)" "capacity_inv o1" "unat t1 = unat t + length ?f"
    using tokenize_field_total[of tokenize "psg_text p" occs YAP_V2_LEXICAL_PASSAGE "word_of_nat i"
        YAP_V2_FIELD_PASSAGE t] Cons.prems(1,2) lens by auto
  have l1: "length (lp_items o1) = length (lp_items occs) + length ?f"
    using tokenize_field_Inr[OF 1(1)] by simp
  have "\<exists>occs' t'. tokenize_passages granted tokenize (Suc i) passages o1 t1 = Inr (occs', t')"
    using Cons.prems(1) 1(2,3) lens l1 by (intro Cons.IH) auto
  with 1 Cons.prems(1) show ?case by simp
qed

lemma payloads_fit_length:
  assumes "payloads_fit dc pc occs"
  shows "length occs < 2 ^ 28"
  using build_payloads_total[OF assms, of "[]"] build_payloads_length by blast

definition segment_tokenizable ::
  "tokenizer \<Rightarrow> YAP_V2_DOCUMENT_VIEW list \<Rightarrow> YAP_V2_PASSAGE_VIEW list \<Rightarrow> bool" where
  "segment_tokenizable tokenize documents passages \<longleftrightarrow>
     (\<forall>d\<in>set documents. YAP_V2_document_validate (Some d) = YAP_V2_OK \<and>
        tokenizable tokenize (doc_title d) \<and> tokenizable tokenize (doc_body d)) \<and>
     (\<forall>p\<in>set passages. YAP_V2_passage_validate (Some p) = YAP_V2_OK \<and> tokenizable tokenize (psg_text p))"

lemma lexical_write_total:
  assumes tok: "segment_tokenizable tokenize documents passages"
    and lim: "length documents \<le> YAP_V2_MAX_SEGMENT_DOCUMENTS" "length passages \<le> YAP_V2_MAX_SEGMENT_PASSAGES"
    and fit: "payloads_fit (length documents) (length passages) (segment_occurrences tokenize documents passages)"
    and g: "g \<noteq> 0" and dir: "length dir \<le> SIZE_MAX - 100"
  shows "\<exists>cs ops. YAP_V2_lexical_write granted tokenize (\<lambda>_ _. True) short echo dir g documents passages = (Inr cs, ops)"
proof -
  let ?d = "fields_occurrences tokenize (document_fields 0 documents)"
  let ?p = "fields_occurrences tokenize (passage_fields 0 passages)"
  have so: "segment_occurrences tokenize documents passages = ?d @ ?p"
    by (simp add: segment_occurrences_def fields_occurrences_def)
  have len: "length ?d + length ?p < 2 ^ 28"
    using payloads_fit_length[OF fit] by (simp add: so)
  have init: "capacity_inv YAP_V2_lexical_prepared_init" "lp_items YAP_V2_lexical_prepared_init = []"
    by (simp_all add: capacity_inv_def YAP_V2_lexical_prepared_init_def)
  obtain o1 t b where 1: "tokenize_documents granted tokenize 0 documents YAP_V2_lexical_prepared_init 0 0 =
      Inr (o1, t, b)" "capacity_inv o1"
    using tokenize_documents_total[of documents tokenize YAP_V2_lexical_prepared_init 0 0 0] tok len init
    by (auto simp: segment_tokenizable_def)
  have i1: "lp_items o1 = ?d" using tokenize_documents_Inr[OF 1(1)] init by simp
  obtain o2 pt where 2: "tokenize_passages granted tokenize 0 passages o1 0 = Inr (o2, pt)"
    using tokenize_passages_total[of passages tokenize o1 0 0] tok len 1(2) i1
    by (auto simp: segment_tokenizable_def)
  have i2: "lp_items o2 = segment_occurrences tokenize documents passages"
    using tokenize_passages_Inr[OF 2] i1 by (simp add: so)
  obtain cs ops where "write_occurrences granted (\<lambda>_ _. True) short echo dir g (lp_items o2)
      (length documents) (length passages) [t, b, pt] = (Inr cs, ops)"
    using write_occurrences_total[OF fit g dir] unfolding i2 by blast
  then show ?thesis
    unfolding YAP_V2_lexical_write_def using lim g by (simp add: 1 2)
qed

subsection \<open>Prepared units\<close>















subsection \<open>Looking a term up\<close>

definition lookup_keys :: "YAP_V2_LEXICAL_SEGMENT \<Rightarrow> bytes \<Rightarrow> occurrence_key outcome list" where
  "lookup_keys seg t = (case YAP_V2_lexical_term_find seg (View t) of
     None \<Rightarrow> [] | Some e \<Rightarrow> entry_keys seg e)"

lemma filter_concat_runs:
  "\<forall>r\<in>set rs. one_key k r \<Longrightarrow> distinct (map (\<lambda>r. k (hd r)) rs) \<Longrightarrow>
   filter (\<lambda>x. k x = t) (concat rs) =
     (case List.find (\<lambda>r. k (hd r) = t) rs of None \<Rightarrow> [] | Some r \<Rightarrow> r)"
proof (induction rs)
  case (Cons r rs)
  have keys: "filter (\<lambda>x. k x = t) r' = (if k (hd r') = t then r' else [])" if "one_key k r'" for r'
  proof -
    from that have all: "\<And>x. x \<in> set r' \<Longrightarrow> k x = k (hd r')" unfolding one_key_def by blast
    show ?thesis
    proof (cases "k (hd r') = t")
      case True
      with all have "\<forall>x\<in>set r'. k x = t" by simp
      with True show ?thesis by (simp add: filter_id_conv)
    next
      case False
      with all have "\<forall>x\<in>set r'. k x \<noteq> t" by simp
      with False show ?thesis by (simp add: filter_empty_conv)
    qed
  qed
  have none: "List.find (\<lambda>r. k (hd r) = t) rs = None" if "k (hd r) = t"
    using Cons.prems(2) that by (metis (mono_tags, lifting) distinct.simps(2) find_None_iff imageI list.map(2) list.set_map)
  have ih: "filter (\<lambda>x. k x = t) (concat rs) =
      (case List.find (\<lambda>r. k (hd r) = t) rs of None \<Rightarrow> [] | Some r \<Rightarrow> r)"
    using Cons.prems by (intro Cons.IH) simp_all
  have "one_key k r" using Cons.prems(1) by simp
  from keys[OF this] none ih show ?case by simp
qed simp

lemma find_parallel:
  "map te es = map f rs \<Longrightarrow> map ek es = map (map h) rs \<Longrightarrow>
   (case List.find (\<lambda>e. te e = t) es of None \<Rightarrow> [] | Some e \<Rightarrow> ek e) =
   map h (case List.find (\<lambda>r. f r = t) rs of None \<Rightarrow> [] | Some r \<Rightarrow> r)"
proof (induction es arbitrary: rs)
  case (Cons e es)
  then show ?case by (cases rs) auto
qed simp

lemma lookup_keys_runs:
  assumes te: "te_sorted (lx_terms seg)" and ok: "distinct (map occ_key occs)"
    and 1: "map te_term (lx_terms seg) = map (\<lambda>items. occ_term (hd items)) (term_runs (sorted_items occs))"
    and 2: "map (entry_keys seg) (lx_terms seg) = map (map (\<lambda>x. Inr (occ_key x))) (term_runs (sorted_items occs))"
  shows "lookup_keys seg t = map (\<lambda>x. Inr (occ_key x)) (filter (\<lambda>x. occ_term x = t) (sorted_items occs))"
proof -
  let ?rs = "term_runs (sorted_items occs)"
  note s = term_runs_sorted[OF ok]
  have "\<forall>r\<in>set ?rs. one_key occ_term r"
    using s unfolding one_key_def term_sorted_def by blast
  moreover have "distinct (map (\<lambda>r. occ_term (hd r)) ?rs)"
    using s strict_sorted_iff by blast
  ultimately have "filter (\<lambda>x. occ_term x = t) (concat ?rs) =
      (case List.find (\<lambda>r. occ_term (hd r) = t) ?rs of None \<Rightarrow> [] | Some r \<Rightarrow> r)"
    by (rule filter_concat_runs)
  then show ?thesis
    using find_parallel[OF 1 2, of t] by (simp add: lookup_keys_def term_find_linear[OF te] runs_concat)
qed

definition holds_occurrences ::
  "YAP_V2_LEXICAL_SEGMENT \<Rightarrow> YAP_V2_LEXICAL_OCCURRENCE list \<Rightarrow> bool" where
  "holds_occurrences seg occs \<longleftrightarrow>
     index_contents seg = map (\<lambda>x. Inr (occ_key x)) (sorted_items occs) \<and>
     (\<forall>t. lookup_keys seg t = map (\<lambda>x. Inr (occ_key x)) (filter (\<lambda>x. occ_term x = t) (sorted_items occs))) \<and>
     mset (sorted_items occs) = mset occs \<and>
     sorted_wrt (\<lambda>a b. occ_key a < occ_key b) (sorted_items occs)"

lemma write_occurrences_holds:
  assumes w: "write_occurrences mem ios short back dir g occs dc pc totals = (Inr cs, ops)"
    and ok: "occurrences_ok (word_of_nat dc) (word_of_nat pc) occs" and eg: "eg = 0 \<or> eg = g"
  shows "\<exists>seg. YAP_V2_lexical_segment_open granted (\<lambda>_ _. True) (run_ops ops fs) dir eg = Inr seg \<and>
    holds_occurrences seg occs \<and> lx_generation seg = g \<and>
    lx_document_count seg = word_of_nat dc \<and> lx_passage_count seg = word_of_nat pc"
proof -
  have d: "distinct (map occ_key occs)" using ok unfolding occurrences_ok_def by blast
  obtain seg where s: "YAP_V2_lexical_segment_open granted (\<lambda>_ _. True) (run_ops ops fs) dir eg = Inr seg"
    "index_contents seg = map (\<lambda>x. Inr (occ_key x)) (sorted_items occs)"
    "map te_term (lx_terms seg) = map (\<lambda>items. occ_term (hd items)) (term_runs (sorted_items occs))"
    "map (entry_keys seg) (lx_terms seg) = map (map (\<lambda>x. Inr (occ_key x))) (term_runs (sorted_items occs))"
    "lx_generation seg = g" "lx_document_count seg = word_of_nat dc" "lx_passage_count seg = word_of_nat pc"
    using write_occurrences_open[OF w ok eg, of "\<lambda>_ _. True" granted fs] by auto
  have te: "te_sorted (lx_terms seg)" using segment_open_Inr[OF s(1)] by blast
  have "mset (sorted_items occs) = mset occs" by (simp add: sorted_items_def libc.qs_mset)
  with s lookup_keys_runs[OF te d s(3,4)] sorted_items_less[OF d] show ?thesis
    unfolding holds_occurrences_def by blast
qed


subsection \<open>Theorems\<close>



text \<open>
  C16. Writing succeeds.  When every document and passage is valid and tokenizable, the counts are
  within the limits of a segment, the three payloads fit in the payload limit, and memory and file
  operations are granted, the lexical index is written.
\<close>

theorem lexical_write_succeeds:
  assumes "segment_tokenizable tokenize documents passages"
    and "length documents \<le> YAP_V2_MAX_SEGMENT_DOCUMENTS" "length passages \<le> YAP_V2_MAX_SEGMENT_PASSAGES"
    and "payloads_fit (length documents) (length passages) (segment_occurrences tokenize documents passages)"
    and "g \<noteq> 0" and "length dir \<le> SIZE_MAX - 100"
  shows "\<exists>cs ops. YAP_V2_lexical_write granted tokenize (\<lambda>_ _. True) short echo dir g documents passages = (Inr cs, ops)"
  using assms by (rule lexical_write_total)

text \<open>
  C15. Every segment that opens is safe to search.  The binary search of \<open>YAP_V2_lexical_term_find\<close>
  equals the linear search for the term, every posting list lies inside the mapped file and is
  strictly ascending with valid entries, and \<open>YAP_V2_lexical_term_type_frequency\<close> counts the
  postings of each object type.
\<close>

theorem segment_open_searchable:
  assumes "YAP_V2_lexical_segment_open mem ios fs dir g = Inr seg"
  shows "YAP_V2_lexical_term_find seg (View t) = List.find (\<lambda>e. te_term e = t) (lx_terms seg) \<and>
    (\<forall>e\<in>set (lx_terms seg). entry_wellformed seg e \<and>
      (\<forall>ty\<in>{YAP_V2_LEXICAL_DOCUMENT, YAP_V2_LEXICAL_PASSAGE}.
         YAP_V2_lexical_term_type_frequency seg e ty =
           Inr (word_of_nat (length (filter (\<lambda>p. po_object_type p = ty) (segment_postings seg e))))))"
  using segment_open_Inr[OF assms] term_find_linear type_frequency_entry by blast

subsection \<open>A small index\<close>

definition one_token :: tokenizer where
  "one_token tx = Inr \<lparr>seq_normalized_utf8 = tx,
     seq_tokens = [\<lparr>tok_byte_start = 0, tok_byte_end = length tx, tok_char_start = 0,
                    tok_char_end = word_of_nat (length tx)\<rparr>]\<rparr>"

definition note_document :: YAP_V2_DOCUMENT_VIEW where
  "note_document = \<lparr>doc_id = View (ascii ''n-1''), doc_url = View_null 0,
     doc_title = View (ascii ''T''), doc_body = View (ascii ''body''),
     doc_metadata_json = View_null 0, doc_updated_at_unix_ms = 0\<rparr>"

definition note_passage :: YAP_V2_PASSAGE_VIEW where
  "note_passage = \<lparr>psg_id = View (ascii ''p-1''), psg_parent_document_id = View (ascii ''n-1''),
     psg_text = View (ascii ''body''), psg_ordinal = 0, psg_start_char = 0, psg_end_char = 4\<rparr>"

definition note_occurrence :: "string \<Rightarrow> u32 \<Rightarrow> u32 \<Rightarrow> YAP_V2_LEXICAL_OCCURRENCE" where
  "note_occurrence t ty fd = \<lparr>occ_term = ascii t, occ_object_type = ty, occ_object_ordinal = 0,
     occ_field = fd, occ_position = 0, occ_field_length = 1\<rparr>"

lemma note_occurrences:
  "segment_occurrences one_token [note_document] [note_passage] =
    [note_occurrence ''T'' YAP_V2_LEXICAL_DOCUMENT YAP_V2_FIELD_TITLE,
     note_occurrence ''body'' YAP_V2_LEXICAL_DOCUMENT YAP_V2_FIELD_BODY,
     note_occurrence ''body'' YAP_V2_LEXICAL_PASSAGE YAP_V2_FIELD_PASSAGE]"
  by (simp add: segment_occurrences_def fields_occurrences_def document_fields_def passage_fields_def
      field_occurrences_def one_token_def token_occurrence_def note_document_def note_passage_def
      note_occurrence_def ascii_def size_sub_def)

lemma note_runs:
  "term_runs (sorted_items (segment_occurrences one_token [note_document] [note_passage])) =
    [[note_occurrence ''T'' YAP_V2_LEXICAL_DOCUMENT YAP_V2_FIELD_TITLE],
     [note_occurrence ''body'' YAP_V2_LEXICAL_DOCUMENT YAP_V2_FIELD_BODY,
      note_occurrence ''body'' YAP_V2_LEXICAL_PASSAGE YAP_V2_FIELD_PASSAGE]]"
  unfolding note_occurrences
  by (simp add: sorted_items_def occurrence_compare_def note_occurrence_def ascii_def same_term_def
      lexical_constants)

lemma note_fits:
  "payloads_fit 1 1 (segment_occurrences one_token [note_document] [note_passage])"
  unfolding payloads_fit_def note_runs
  by (simp add: terms_payload_def postings_payload_def positions_payload_def note_occurrence_def
     length_enc_term_entry length_enc_posting_entry length_enc_position_entry same_object_def ascii_def
     storage_limits lexical_constants block_count_def)
lemma note_tokenizable: "segment_tokenizable one_token [note_document] [note_passage]"
  by (simp add: segment_tokenizable_def tokenizable_def one_token_def note_document_def note_passage_def
      bytes_view_validate_def type_limits ascii_def)

lemma note_written:
  "\<exists>cs ops. YAP_V2_lexical_write granted one_token (\<lambda>_ _. True) 0 echo ''seg'' 7
     [note_document] [note_passage] = (Inr cs, ops)"
  using note_tokenizable note_fits by (intro lexical_write_total) (simp_all add: storage_limits)

lemma note_lookup:
  "filter (\<lambda>x. occ_term x = ascii ''body'')
     (sorted_items (segment_occurrences one_token [note_document] [note_passage])) =
    [note_occurrence ''body'' YAP_V2_LEXICAL_DOCUMENT YAP_V2_FIELD_BODY,
     note_occurrence ''body'' YAP_V2_LEXICAL_PASSAGE YAP_V2_FIELD_PASSAGE]"
proof -
  let ?all = "sorted_items (segment_occurrences one_token [note_document] [note_passage])"
  have "?all = concat (term_runs ?all)" by (simp add: runs_concat)
  then show ?thesis unfolding note_runs by (simp add: note_occurrence_def ascii_def)
qed


theorem lexical_write_succeeds_witness:
  "\<exists>cs ops. YAP_V2_lexical_write granted one_token (\<lambda>_ _. True) 0 echo ''seg'' 7
     [note_document] [note_passage] = (Inr cs, ops)"
  using note_tokenizable note_fits by (intro lexical_write_succeeds) (simp_all add: storage_limits)

theorem segment_open_searchable_witness:
  "\<exists>seg. YAP_V2_lexical_term_find seg (View (ascii ''body'')) =
      List.find (\<lambda>e. te_term e = ascii ''body'') (lx_terms seg) \<and> lx_terms seg \<noteq> [] \<and>
    (\<forall>e\<in>set (lx_terms seg). entry_wellformed seg e)"
proof -
  obtain cs ops where w: "YAP_V2_lexical_write granted one_token (\<lambda>_ _. True) 0 echo ''seg'' 7
     [note_document] [note_passage] = (Inr cs, ops)"
    using note_written by blast
  obtain seg where s: "YAP_V2_lexical_segment_open granted (\<lambda>_ _. True) (run_ops ops (\<lambda>_. None)) ''seg'' 7 = Inr seg"
    "holds_occurrences seg (segment_occurrences one_token [note_document] [note_passage])"
    using lexical_write_Inr[OF w] write_occurrences_holds[where eg = 7 and fs = "\<lambda>_. None"] by blast
  have "lx_terms seg \<noteq> []"
  proof
    assume "lx_terms seg = []"
    then have "lookup_keys seg (ascii ''body'') = []"
      by (simp add: lookup_keys_def YAP_V2_lexical_term_find_def find_loop.simps)
    with s(2) show False unfolding holds_occurrences_def by (simp add: note_lookup)
  qed
  with segment_open_searchable[OF s(1), of "ascii ''body''"] show ?thesis by blast
qed



end
