(* ===== verification/Config_V2.thy ===== *)
theory Config_V2
  imports Storage_V2 Sha256 File_Io C_Text
begin

text \<open>
  The index configuration, \<open>config/yappo_config_v2.c\<close>: its schema, loading it from TOML, saving it,
  and its fingerprint. A \<open>char\<close> array is the list of its bytes (\<open>c_string\<close> of it the string it
  holds); the filterable fields are the \<open>filterable_field_count\<close> first rows of the array. The TOML
  library is outside the repository: a configuration file is the table it parses to.
\<close>

subsection \<open>Constants and data\<close>

definition YAP_V2_MAX_MODEL_ID_BYTES :: nat where "YAP_V2_MAX_MODEL_ID_BYTES = 255"
definition YAP_V2_MAX_VECTOR_DIMENSIONS :: nat where "YAP_V2_MAX_VECTOR_DIMENSIONS = 65536"
definition YAP_V2_MAX_FILTER_FIELDS :: nat where "YAP_V2_MAX_FILTER_FIELDS = 64"
definition YAP_V2_MAX_FILTER_FIELD_BYTES :: nat where "YAP_V2_MAX_FILTER_FIELD_BYTES = 127"

text \<open>The enumeration \<open>YAP_V2_VECTOR_METRIC\<close>.\<close>

definition YAP_V2_VECTOR_DISABLED :: u32 where "YAP_V2_VECTOR_DISABLED = 0"
definition YAP_V2_VECTOR_COSINE :: u32 where "YAP_V2_VECTOR_COSINE = 1"
definition YAP_V2_VECTOR_DOT :: u32 where "YAP_V2_VECTOR_DOT = 2"
definition YAP_V2_VECTOR_L2 :: u32 where "YAP_V2_VECTOR_L2 = 3"

lemmas config_limits = YAP_V2_MAX_MODEL_ID_BYTES_def YAP_V2_MAX_VECTOR_DIMENSIONS_def
  YAP_V2_MAX_FILTER_FIELDS_def YAP_V2_MAX_FILTER_FIELD_BYTES_def

lemmas vector_metrics = YAP_V2_VECTOR_DISABLED_def YAP_V2_VECTOR_COSINE_def YAP_V2_VECTOR_DOT_def
  YAP_V2_VECTOR_L2_def

record YAP_V2_CONFIG =
  cfg_format_version :: u32
  cfg_tokenizer_id :: bytes
  cfg_chunk_max_chars :: u32
  cfg_chunk_overlap_chars :: u32
  cfg_vector_model_id :: bytes
  cfg_vector_dimensions :: u32
  cfg_vector_metric :: u32
  cfg_filterable_fields :: "bytes list"

definition YAP_V2_config_init :: YAP_V2_CONFIG where
  "YAP_V2_config_init =
     \<lparr>cfg_format_version = ucast YAP_V2_FORMAT_VERSION,
      cfg_tokenizer_id = ascii ''unicode_nfkc_casefold_v2'',
      cfg_chunk_max_chars = 1200, cfg_chunk_overlap_chars = 200, cfg_vector_model_id = [],
      cfg_vector_dimensions = 0, cfg_vector_metric = YAP_V2_VECTOR_DISABLED,
      cfg_filterable_fields = []\<rparr>"

subsection \<open>Validation\<close>

text \<open>The loop over the characters of a field name; \<open>prev\<close> is the previous character.\<close>

fun field_chars_valid :: "byte option \<Rightarrow> bytes \<Rightarrow> bool" where
  "field_chars_valid prev [] \<longleftrightarrow> True"
| "field_chars_valid prev (c # s) \<longleftrightarrow>
     (if c = 46 \<and> (prev = None \<or> prev = Some 46) then False
      else if c < 0x20 \<or> c = 47 \<or> c = 92 then False
      else field_chars_valid (Some c) s)"

fun validate_filterable_fields :: "bytes option \<Rightarrow> bytes list \<Rightarrow> YAP_V2_STATUS" where
  "validate_filterable_fields prev [] = YAP_V2_OK"
| "validate_filterable_fields prev (row # rows) =
     (let field = c_string row in
      if c_string_validate (Some row) YAP_V2_MAX_FILTER_FIELD_BYTES True \<noteq> YAP_V2_OK
        then c_string_validate (Some row) YAP_V2_MAX_FILTER_FIELD_BYTES True
      else if hd field = 46 \<or> last field = 46 then YAP_V2_INVALID_FORMAT
      else if \<not> field_chars_valid None field then YAP_V2_INVALID_FORMAT
      else if prev \<noteq> None \<and> strcmp (the prev) field \<ge> 0 then YAP_V2_INVALID_FORMAT
      else validate_filterable_fields (Some field) rows)"

definition YAP_V2_config_validate :: "YAP_V2_CONFIG option \<Rightarrow> YAP_V2_STATUS" where
  "YAP_V2_config_validate config_in =
     (case config_in of
        None \<Rightarrow> YAP_V2_INVALID_ARGUMENT
      | Some config \<Rightarrow>
          (let tokenizer = c_string_validate (Some (cfg_tokenizer_id config))
                 YAP_V2_MAX_IDENTIFIER_BYTES True;
               model = c_string_validate (Some (cfg_vector_model_id config))
                 YAP_V2_MAX_MODEL_ID_BYTES (cfg_vector_metric config \<noteq> YAP_V2_VECTOR_DISABLED) in
           if cfg_format_version config \<noteq> ucast YAP_V2_FORMAT_VERSION then YAP_V2_INVALID_FORMAT
           else if tokenizer \<noteq> YAP_V2_OK then tokenizer
           else if cfg_chunk_max_chars config = 0 \<or>
                   unat (cfg_chunk_max_chars config) > YAP_V2_MAX_CHUNK_CHARS \<or>
                   cfg_chunk_overlap_chars config \<ge> cfg_chunk_max_chars config
             then YAP_V2_OUT_OF_RANGE
           else if model \<noteq> YAP_V2_OK then model
           else if cfg_vector_metric config = YAP_V2_VECTOR_DISABLED \<and>
                   (cfg_vector_dimensions config \<noteq> 0 \<or> c_string (cfg_vector_model_id config) \<noteq> [])
             then YAP_V2_INVALID_FORMAT
           else if cfg_vector_metric config \<noteq> YAP_V2_VECTOR_DISABLED \<and>
                   (cfg_vector_dimensions config = 0 \<or>
                    unat (cfg_vector_dimensions config) > YAP_V2_MAX_VECTOR_DIMENSIONS \<or>
                    cfg_vector_metric config < YAP_V2_VECTOR_COSINE \<or>
                    cfg_vector_metric config > YAP_V2_VECTOR_L2)
             then YAP_V2_OUT_OF_RANGE
           else if length (cfg_filterable_fields config) > YAP_V2_MAX_FILTER_FIELDS
             then YAP_V2_OUT_OF_RANGE
           else validate_filterable_fields None (cfg_filterable_fields config)))"

subsection \<open>Loading\<close>

text \<open>
  Values of the TOML library. A table is the list of its keys and values; the \<open>_in\<close> accessors
  answer on a value of their type.
\<close>

datatype toml_node =
    Node_int int | Node_string bytes | Node_bool bool
  | Node_array "toml_node list" | Node_table "(string \<times> toml_node) list" | Node_other

type_synonym toml_entries = "(string \<times> toml_node) list"

definition toml_table_in :: "toml_entries \<Rightarrow> string \<Rightarrow> toml_entries option" where
  "toml_table_in t key = (case map_of t key of Some (Node_table u) \<Rightarrow> Some u | _ \<Rightarrow> None)"

definition key_allowed :: "toml_entries \<Rightarrow> string list \<Rightarrow> bool" where
  "key_allowed t allowed \<longleftrightarrow> list_all (\<lambda>(key, _). List.member allowed key) t"

text \<open>\<open>old\<close> is what the output holds before the call; \<open>capacity\<close> its size.\<close>

definition copy_string :: "toml_entries \<Rightarrow> string \<Rightarrow> nat \<Rightarrow> bool \<Rightarrow> bytes \<Rightarrow> bytes outcome" where
  "copy_string t key capacity required old =
     (case map_of t key of
        Some (Node_string s) \<Rightarrow>
          if length (c_string s) \<ge> capacity then Inl YAP_V2_OUT_OF_RANGE else Inr (c_string s)
      | Some _ \<Rightarrow> Inl YAP_V2_INVALID_FORMAT
      | None \<Rightarrow> if required then Inl YAP_V2_INVALID_FORMAT else Inr old)"

definition read_uint32 :: "toml_entries \<Rightarrow> string \<Rightarrow> bool \<Rightarrow> u32 \<Rightarrow> u32 outcome" where
  "read_uint32 t key required old =
     (case map_of t key of
        Some (Node_int i) \<Rightarrow>
          if i < 0 \<or> i > int UINT32_MAX then Inl YAP_V2_OUT_OF_RANGE else Inr (word_of_int i)
      | Some _ \<Rightarrow> Inl YAP_V2_INVALID_FORMAT
      | None \<Rightarrow> if required then Inl YAP_V2_INVALID_FORMAT else Inr old)"

fun copy_fields :: "toml_node list \<Rightarrow> bytes list outcome" where
  "copy_fields [] = Inr []"
| "copy_fields (Node_string s # nodes) =
     (if c_string s = [] \<or> length (c_string s) > YAP_V2_MAX_FILTER_FIELD_BYTES
        then Inl YAP_V2_OUT_OF_RANGE
      else rbind (copy_fields nodes) (\<lambda>rows. Inr (c_string s # rows)))"
| "copy_fields (_ # nodes) = Inl YAP_V2_INVALID_FORMAT"

fun adjacent_equal :: "bytes list \<Rightarrow> bool" where
  "adjacent_equal (a # b # rows) \<longleftrightarrow> strcmp a b = 0 \<or> adjacent_equal (b # rows)"
| "adjacent_equal _ \<longleftrightarrow> False"

definition read_filterable_fields ::
  "toml_entries option \<Rightarrow> YAP_V2_CONFIG \<Rightarrow> YAP_V2_CONFIG outcome" where
  "read_filterable_fields metadata config =
     (case metadata of
        None \<Rightarrow> Inr config
      | Some t \<Rightarrow>
          (case map_of t ''filterable_fields'' of
             None \<Rightarrow> Inr config
           | Some (Node_array nodes) \<Rightarrow>
               if length nodes > YAP_V2_MAX_FILTER_FIELDS then Inl YAP_V2_OUT_OF_RANGE
               else rbind (copy_fields nodes) (\<lambda>rows.
                 let sorted_rows = qsort_by strcmp rows in
                 if adjacent_equal sorted_rows then Inl YAP_V2_DUPLICATE
                 else Inr (config\<lparr>cfg_filterable_fields := sorted_rows\<rparr>))
           | Some _ \<Rightarrow> Inl YAP_V2_INVALID_FORMAT))"

definition read_vector_table :: "toml_entries \<Rightarrow> YAP_V2_CONFIG \<Rightarrow> YAP_V2_CONFIG outcome" where
  "read_vector_table t config =
     (let enabled = (case map_of t ''enabled'' of Some (Node_bool b) \<Rightarrow> Some b | _ \<Rightarrow> None) in
      if enabled = None \<and> map_of t ''enabled'' \<noteq> None then Inl YAP_V2_INVALID_FORMAT
      else if enabled = Some True then
        rbind (copy_string t ''model_id'' (YAP_V2_MAX_MODEL_ID_BYTES + 1) True
                 (cfg_vector_model_id config)) (\<lambda>model.
        rbind (read_uint32 t ''dimensions'' True (cfg_vector_dimensions config)) (\<lambda>dimensions.
        case map_of t ''metric'' of
          Some (Node_string s) \<Rightarrow>
            rbind (if c_string s = ascii ''cosine'' then Inr YAP_V2_VECTOR_COSINE
                   else if c_string s = ascii ''dot'' then Inr YAP_V2_VECTOR_DOT
                   else if c_string s = ascii ''l2'' then Inr YAP_V2_VECTOR_L2
                   else Inl YAP_V2_INVALID_FORMAT) (\<lambda>metric.
            Inr (config\<lparr>cfg_vector_model_id := model, cfg_vector_dimensions := dimensions,
                         cfg_vector_metric := metric\<rparr>))
        | _ \<Rightarrow> Inl YAP_V2_INVALID_FORMAT))
      else if (case map_of t ''model_id'' of Some (Node_string s) \<Rightarrow> c_string s \<noteq> [] | _ \<Rightarrow> False) \<or>
              (case map_of t ''dimensions'' of Some (Node_int i) \<Rightarrow> i \<noteq> 0 | _ \<Rightarrow> False)
        then Inl YAP_V2_INVALID_FORMAT
      else Inr config)"

text \<open>\<open>opened\<close> says whether the file opens, \<open>parsed\<close> is the table it parses to.\<close>

definition YAP_V2_config_load :: "bool \<Rightarrow> toml_entries option \<Rightarrow> YAP_V2_CONFIG outcome" where
  "YAP_V2_config_load opened parsed =
     (if \<not> opened then Inl YAP_V2_IO_ERROR
      else case parsed of
        None \<Rightarrow> Inl YAP_V2_INVALID_FORMAT
      | Some root \<Rightarrow>
          if \<not> key_allowed root [''format_version'', ''tokenizer'', ''chunking'', ''vector'', ''metadata'']
            then Inl YAP_V2_INVALID_FORMAT
          else case (toml_table_in root ''tokenizer'', toml_table_in root ''chunking'',
                     toml_table_in root ''vector'') of
            (Some tokenizer, Some chunking, Some vector) \<Rightarrow>
              (let metadata = toml_table_in root ''metadata'' in
               if \<not> key_allowed tokenizer [''id''] \<or>
                  \<not> key_allowed chunking [''max_chars'', ''overlap_chars''] \<or>
                  \<not> key_allowed vector [''enabled'', ''model_id'', ''dimensions'', ''metric''] \<or>
                  (metadata \<noteq> None \<and> \<not> key_allowed (the metadata) [''filterable_fields''])
                 then Inl YAP_V2_INVALID_FORMAT
               else
               rbind (read_uint32 root ''format_version'' True (ucast YAP_V2_FORMAT_VERSION)) (\<lambda>version.
               rbind (copy_string tokenizer ''id'' (YAP_V2_MAX_IDENTIFIER_BYTES + 1) False
                        (cfg_tokenizer_id YAP_V2_config_init)) (\<lambda>tokenizer_id.
               rbind (read_uint32 chunking ''max_chars'' False
                        (cfg_chunk_max_chars YAP_V2_config_init)) (\<lambda>max_chars.
               rbind (read_uint32 chunking ''overlap_chars'' False
                        (cfg_chunk_overlap_chars YAP_V2_config_init)) (\<lambda>overlap_chars.
               rbind (read_vector_table vector (YAP_V2_config_init\<lparr>cfg_format_version := version,
                        cfg_tokenizer_id := tokenizer_id, cfg_chunk_max_chars := max_chars,
                        cfg_chunk_overlap_chars := overlap_chars\<rparr>)) (\<lambda>config.
               rbind (read_filterable_fields metadata config) (\<lambda>config.
               if YAP_V2_config_validate (Some config) \<noteq> YAP_V2_OK
                 then Inl (YAP_V2_config_validate (Some config)) else Inr config)))))))
          | _ \<Rightarrow> Inl YAP_V2_INVALID_FORMAT)"

subsection \<open>Fingerprint\<close>

definition metric_name :: "u32 \<Rightarrow> string" where
  "metric_name metric =
     (if metric = YAP_V2_VECTOR_DISABLED then ''disabled'' else if metric = YAP_V2_VECTOR_COSINE then ''cosine''
      else if metric = YAP_V2_VECTOR_DOT then ''dot'' else ''l2'')"

definition canonical_head :: "YAP_V2_CONFIG \<Rightarrow> bytes" where
  "canonical_head config =
     ascii ''format_version='' @ decimal (unat (cfg_format_version config)) @ [10] @
     ascii ''tokenizer.id='' @ c_string (cfg_tokenizer_id config) @ [10] @
     ascii ''chunking.max_chars='' @ decimal (unat (cfg_chunk_max_chars config)) @ [10] @
     ascii ''chunking.overlap_chars='' @ decimal (unat (cfg_chunk_overlap_chars config)) @ [10] @
     ascii ''vector.model_id='' @ c_string (cfg_vector_model_id config) @ [10] @
     ascii ''vector.dimensions='' @ decimal (unat (cfg_vector_dimensions config)) @ [10] @
     ascii ''vector.metric='' @ ascii (metric_name (cfg_vector_metric config)) @ [10]"

definition canonical_field :: "nat \<Rightarrow> bytes \<Rightarrow> bytes" where
  "canonical_field i field =
     ascii ''metadata.filterable_fields['' @ decimal i @ ascii '']='' @ c_string field @ [10]"

definition canonical_bytes :: nat where "canonical_bytes = 32768"

fun canonical_fields :: "nat \<Rightarrow> bytes list \<Rightarrow> bytes \<Rightarrow> bytes outcome" where
  "canonical_fields i [] canonical = Inr canonical"
| "canonical_fields i (field # rows) canonical =
     (if length (canonical_field i field) \<ge> canonical_bytes - length canonical
        then Inl YAP_V2_OUT_OF_RANGE
      else canonical_fields (Suc i) rows (canonical @ canonical_field i field))"

definition YAP_V2_config_fingerprint :: "YAP_V2_CONFIG option \<Rightarrow> bytes outcome" where
  "YAP_V2_config_fingerprint config_in =
     (case config_in of
        None \<Rightarrow> Inl YAP_V2_INVALID_ARGUMENT
      | Some config \<Rightarrow>
          if YAP_V2_config_validate config_in \<noteq> YAP_V2_OK then Inl YAP_V2_INVALID_FORMAT
          else if length (canonical_head config) \<ge> canonical_bytes then Inl YAP_V2_OUT_OF_RANGE
          else rbind (canonical_fields 0 (cfg_filterable_fields config) (canonical_head config))
                 (\<lambda>canonical. Inr (sha256_digest canonical)))"

definition hex_digit :: "nat \<Rightarrow> byte" where
  "hex_digit n = of_char (''0123456789abcdef'' ! n)"

definition YAP_V2_config_fingerprint_hex :: "bytes \<Rightarrow> bytes" where
  "YAP_V2_config_fingerprint_hex fingerprint =
     concat (map (\<lambda>b. [hex_digit (unat (drop_bit 4 b)), hex_digit (unat (b AND 15))]) (take 32 fingerprint))"

subsection \<open>Saving\<close>

definition toml_escape :: "byte \<Rightarrow> bytes" where
  "toml_escape c =
     (if c = 34 \<or> c = 92 then [92, c]
      else if c = 10 then [92, 110] else if c = 13 then [92, 114] else if c = 9 then [92, 116]
      else if c < 0x20 \<or> c = 0x7f
        then [92, 117, 48, 48, hex_digit (unat c div 16), hex_digit (unat c mod 16)]
      else [c])"

definition write_toml_string :: "bytes \<Rightarrow> bytes" where
  "write_toml_string value = [34] @ concat (map toml_escape (c_string value)) @ [34]"

fun saved_fields :: "bytes list \<Rightarrow> bytes" where
  "saved_fields [] = []"
| "saved_fields [f] = write_toml_string f"
| "saved_fields (f # rows) = write_toml_string f @ ascii '', '' @ saved_fields rows"

definition saved_text :: "YAP_V2_CONFIG \<Rightarrow> bytes" where
  "saved_text config =
     ascii ''format_version = '' @ decimal (unat (cfg_format_version config)) @ [10, 10] @
     ascii ''[tokenizer]'' @ [10] @ ascii ''id = '' @ write_toml_string (cfg_tokenizer_id config) @
     [10, 10] @ ascii ''[chunking]'' @ [10] @
     ascii ''max_chars = '' @ decimal (unat (cfg_chunk_max_chars config)) @ [10] @
     ascii ''overlap_chars = '' @ decimal (unat (cfg_chunk_overlap_chars config)) @ [10, 10] @
     ascii ''[vector]'' @ [10] @ ascii ''enabled = '' @
     ascii (if cfg_vector_metric config = YAP_V2_VECTOR_DISABLED then ''false'' else ''true'') @ [10] @
     (if cfg_vector_metric config \<noteq> YAP_V2_VECTOR_DISABLED
      then ascii ''model_id = '' @ write_toml_string (cfg_vector_model_id config) @ [10] @
        ascii ''dimensions = '' @ decimal (unat (cfg_vector_dimensions config)) @ [10] @
        ascii ''metric = '' @ [34] @ ascii (metric_name (cfg_vector_metric config)) @ [34, 10]
      else []) @
     [10] @ ascii ''[metadata]'' @ [10] @ ascii ''filterable_fields = ['' @
     saved_fields (cfg_filterable_fields config) @ ascii '']'' @ [10]"

text \<open>
  The file is opened in mode \<open>wx\<close>, which fails when it exists. A failed output call leaves the first
  \<open>short\<close> bytes; the failure of any step removes the file.
\<close>

definition YAP_V2_config_save :: "io \<Rightarrow> nat \<Rightarrow> fs \<Rightarrow> string \<Rightarrow> YAP_V2_CONFIG \<Rightarrow> YAP_V2_STATUS \<times> fs_op list"
where
  "YAP_V2_config_save io short fs path config =
     (if YAP_V2_config_validate (Some config) \<noteq> YAP_V2_OK then (YAP_V2_INVALID_FORMAT, [])
      else if \<not> io Io_fopen \<or> fs path \<noteq> None then (YAP_V2_IO_ERROR, [])
      else if \<not> io Io_fwrite
        then (YAP_V2_IO_ERROR, [Fs_create path, Fs_write path (take short (saved_text config))] @
                unlink_op io path)
      else if \<not> io Io_fflush \<or> \<not> io Io_fsync \<or> \<not> io Io_fclose
        then (YAP_V2_IO_ERROR, [Fs_create path, Fs_write path (saved_text config)] @ unlink_op io path)
      else (YAP_V2_OK, [Fs_create path, Fs_write path (saved_text config)]))"

subsection \<open>Which configurations are valid\<close>

definition field_name_ok :: "bytes \<Rightarrow> bool" where
  "field_name_ok f \<longleftrightarrow> f \<noteq> [] \<and> length f \<le> 127 \<and> hd f \<noteq> 46 \<and> last f \<noteq> 46 \<and>
     (\<forall>i. Suc i < length f \<longrightarrow> \<not> (f ! i = 46 \<and> f ! Suc i = 46)) \<and>
     (\<forall>c\<in>set f. 0x20 \<le> c \<and> c \<noteq> 47 \<and> c \<noteq> 92)"

lemma c_string_validate_ok:
  "c_string_validate (Some s) m required = YAP_V2_OK \<longleftrightarrow>
     length (c_string s) \<le> m \<and> (required \<longrightarrow> c_string s \<noteq> [])"
  by (auto simp: c_string_validate_def Let_def length_takeWhile_take c_string_def)

lemma field_chars_valid_iff:
  "field_chars_valid prev s \<longleftrightarrow>
     (\<forall>c\<in>set s. 0x20 \<le> c \<and> c \<noteq> 47 \<and> c \<noteq> 92) \<and>
     (s \<noteq> [] \<longrightarrow> hd s = 46 \<longrightarrow> prev \<noteq> None \<and> prev \<noteq> Some 46) \<and>
     (\<forall>i. Suc i < length s \<longrightarrow> \<not> (s ! i = 46 \<and> s ! Suc i = 46))"
proof (induction s arbitrary: prev)
  case (Cons c s)
  have "(\<forall>i. Suc i < length (c # s) \<longrightarrow> \<not> ((c # s) ! i = 46 \<and> (c # s) ! Suc i = 46)) \<longleftrightarrow>
      (s \<noteq> [] \<longrightarrow> \<not> (c = 46 \<and> hd s = 46)) \<and>
      (\<forall>i. Suc i < length s \<longrightarrow> \<not> (s ! i = 46 \<and> s ! Suc i = 46))"
    by (cases s) (auto simp: All_less_Suc2 nth_Cons split: nat.splits)
  then show ?case by (auto simp: Cons.IH not_less)
qed simp

lemma field_chars_name:
  assumes "f \<noteq> []" "length f \<le> 127"
  shows "hd f \<noteq> 46 \<and> last f \<noteq> 46 \<and> field_chars_valid None f \<longleftrightarrow> field_name_ok f"
  using assms by (auto simp: field_name_ok_def field_chars_valid_iff)

lemma validate_filterable_fields_ok:
  "validate_filterable_fields prev rows = YAP_V2_OK \<longleftrightarrow>
     (\<forall>r\<in>set rows. field_name_ok (c_string r)) \<and> sorted_wrt (<) (map c_string rows) \<and>
     (case prev of None \<Rightarrow> True | Some p \<Rightarrow> \<forall>r\<in>set rows. p < c_string r)"
proof (induction prev rows rule: validate_filterable_fields.induct)
  case (2 prev row rows)
  let ?f = "c_string row"
  have v: "c_string_validate (Some row) YAP_V2_MAX_FILTER_FIELD_BYTES True = YAP_V2_OK \<longleftrightarrow>
      ?f \<noteq> [] \<and> length ?f \<le> 127"
    by (auto simp: c_string_validate_ok config_limits)
  have ge: "strcmp p ?f \<ge> 0 \<longleftrightarrow> \<not> p < ?f" for p
    using strcmp_less[of p ?f] by auto
  show ?case
  proof (cases "field_name_ok ?f \<and> (prev = None \<or> the prev < ?f)")
    case True
    then have f: "?f \<noteq> []" "length ?f \<le> 127" by (auto simp: field_name_ok_def)
    then have ok: "hd ?f \<noteq> 46 \<and> last ?f \<noteq> 46 \<and> field_chars_valid None ?f"
      using True field_chars_name by blast
    then have "validate_filterable_fields prev (row # rows) = validate_filterable_fields (Some ?f) rows"
      using True f v ge by (auto simp: Let_def)
    moreover have "validate_filterable_fields (Some ?f) rows = YAP_V2_OK \<longleftrightarrow>
      (\<forall>r\<in>set rows. field_name_ok (c_string r)) \<and> sorted_wrt (<) (map c_string rows) \<and>
      (\<forall>r\<in>set rows. ?f < c_string r)"
      using "2.IH"[OF refl] True f v ok ge by (auto simp: Let_def)
    ultimately show ?thesis
      using True by (auto split: option.splits intro: less_trans)
  next
    case False
    then have "validate_filterable_fields prev (row # rows) \<noteq> YAP_V2_OK"
      using v field_chars_name[of ?f] ge by (auto simp: Let_def)
    with False show ?thesis by (auto split: option.splits)
  qed
qed (simp split: option.splits)

definition config_ok :: "YAP_V2_CONFIG \<Rightarrow> bool" where
  "config_ok c \<longleftrightarrow> cfg_format_version c = 2 \<and>
     c_string (cfg_tokenizer_id c) \<noteq> [] \<and> length (c_string (cfg_tokenizer_id c)) \<le> 255 \<and>
     cfg_chunk_overlap_chars c < cfg_chunk_max_chars c \<and>
     unat (cfg_chunk_max_chars c) \<le> YAP_V2_MAX_CHUNK_CHARS \<and>
     length (c_string (cfg_vector_model_id c)) \<le> 255 \<and>
     (if cfg_vector_metric c = YAP_V2_VECTOR_DISABLED
      then cfg_vector_dimensions c = 0 \<and> c_string (cfg_vector_model_id c) = []
      else c_string (cfg_vector_model_id c) \<noteq> [] \<and> cfg_vector_metric c \<le> YAP_V2_VECTOR_L2 \<and>
        0 < cfg_vector_dimensions c \<and> unat (cfg_vector_dimensions c) \<le> 65536) \<and>
     length (cfg_filterable_fields c) \<le> 64 \<and>
     (\<forall>f\<in>set (cfg_filterable_fields c). field_name_ok (c_string f)) \<and>
     sorted_wrt (<) (map c_string (cfg_filterable_fields c))"

lemma config_validate_ok: "YAP_V2_config_validate (Some c) = YAP_V2_OK \<longleftrightarrow> config_ok c"
proof -
  have v: "(ucast YAP_V2_FORMAT_VERSION :: u32) = 2" by (simp add: type_limits)
  have m: "m \<noteq> YAP_V2_VECTOR_DISABLED \<Longrightarrow> \<not> m < YAP_V2_VECTOR_COSINE" for m :: u32
    by (simp add: vector_metrics word_less_1)
  show ?thesis
    unfolding YAP_V2_config_validate_def config_ok_def option.case Let_def v
    by (auto simp: c_string_validate_ok validate_filterable_fields_ok type_limits config_limits m
        word_neq_0_conv not_less not_le split: if_splits)
qed

subsection \<open>Loading\<close>

lemma copy_fields_Inr:
  "copy_fields nodes = Inr rows \<Longrightarrow> nodes = map Node_string ss \<Longrightarrow> rows = map c_string ss"
  by (induction nodes arbitrary: rows ss rule: copy_fields.induct)
     (auto simp: result_simps split: if_splits)

lemma copy_fields_strings: "copy_fields nodes = Inr rows \<Longrightarrow> \<exists>ss. nodes = map Node_string ss"
proof (induction nodes arbitrary: rows rule: copy_fields.induct)
  case 1
  show ?case by simp
next
  case (2 s nodes)
  then obtain rows' where "copy_fields nodes = Inr rows'" by (auto simp: result_simps split: if_splits)
  with 2 obtain ss where "nodes = map Node_string ss" by (auto split: if_splits)
  then show ?case by (intro exI[of _ "s # ss"]) simp
qed simp_all

text \<open>What a configuration file asks to filter on: the strings of the array, nothing when there is none.\<close>

definition requested_fields :: "toml_entries \<Rightarrow> bytes list" where
  "requested_fields root =
     (case toml_table_in root ''metadata'' of
        None \<Rightarrow> []
      | Some t \<Rightarrow> (case map_of t ''filterable_fields'' of
          Some (Node_array nodes) \<Rightarrow>
            map (\<lambda>n. case n of Node_string s \<Rightarrow> c_string s | _ \<Rightarrow> []) nodes
        | _ \<Rightarrow> []))"

lemma read_filterable_fields_Inr:
  assumes "read_filterable_fields (toml_table_in root ''metadata'') config = Inr c"
    and "cfg_filterable_fields config = []"
  shows "mset (cfg_filterable_fields c) = mset (requested_fields root) \<and>
    c\<lparr>cfg_filterable_fields := []\<rparr> = config"
proof (cases "toml_table_in root ''metadata''")
  case None
  with assms show ?thesis by (simp add: read_filterable_fields_def requested_fields_def)
next
  case (Some t)
  show ?thesis
  proof (cases "map_of t ''filterable_fields''")
    case None
    with Some assms show ?thesis by (simp add: read_filterable_fields_def requested_fields_def)
  next
    case s: (Some node)
    then obtain nodes rows where n: "node = Node_array nodes" "copy_fields nodes = Inr rows"
      and c: "c = config\<lparr>cfg_filterable_fields := qsort_by strcmp rows\<rparr>"
      using assms(1) Some
      by (cases node) (auto simp: read_filterable_fields_def result_simps Let_def split: if_splits)
    obtain ss where ss: "nodes = map Node_string ss" using copy_fields_strings[OF n(2)] by blast
    have "rows = map c_string ss" by (rule copy_fields_Inr[OF n(2) ss])
    then have "rows = requested_fields root"
      using Some s n(1) ss by (simp add: requested_fields_def)
    with c assms(2) show ?thesis by (simp add: libc.qs_mset)
  qed
qed

lemma read_vector_table_fields:
  "read_vector_table t config = Inr c \<Longrightarrow> cfg_filterable_fields c = cfg_filterable_fields config \<and>
     cfg_tokenizer_id c = cfg_tokenizer_id config \<and>
     cfg_chunk_max_chars c = cfg_chunk_max_chars config \<and>
     cfg_chunk_overlap_chars c = cfg_chunk_overlap_chars config"
  by (auto simp: read_vector_table_def Let_def result_simps split: if_splits option.split_asm toml_node.split_asm)

lemma config_load_Inr:
  assumes "YAP_V2_config_load opened parsed = Inr c"
  shows "\<exists>root. parsed = Some root \<and> config_ok c \<and>
    set (cfg_filterable_fields c) = set (requested_fields root) \<and>
    length (cfg_filterable_fields c) = length (requested_fields root)"
proof -
  obtain root vector config v0 where r: "parsed = Some root"
    and v: "read_vector_table vector v0 = Inr config" "cfg_filterable_fields v0 = []"
    and f: "read_filterable_fields (toml_table_in root ''metadata'') config = Inr c"
    and ok: "YAP_V2_config_validate (Some c) = YAP_V2_OK"
    using assms
    by (auto simp: YAP_V2_config_load_def result_simps Let_def YAP_V2_config_init_def
        split: if_splits option.split_asm)
  have "cfg_filterable_fields config = []" using read_vector_table_fields[OF v(1)] v(2) by simp
  from read_filterable_fields_Inr[OF f this]
  have "mset (cfg_filterable_fields c) = mset (requested_fields root)" by blast
  then have "set (cfg_filterable_fields c) = set (requested_fields root)"
    "length (cfg_filterable_fields c) = length (requested_fields root)"
    by (metis set_mset_mset, metis size_mset)
  with r ok show ?thesis by (simp add: config_validate_ok)
qed

subsection \<open>Fingerprint\<close>

definition canonical_lines :: "YAP_V2_CONFIG \<Rightarrow> bytes list" where
  "canonical_lines c =
     [ascii ''format_version='' @ decimal (unat (cfg_format_version c)),
      ascii ''tokenizer.id='' @ c_string (cfg_tokenizer_id c),
      ascii ''chunking.max_chars='' @ decimal (unat (cfg_chunk_max_chars c)),
      ascii ''chunking.overlap_chars='' @ decimal (unat (cfg_chunk_overlap_chars c)),
      ascii ''vector.model_id='' @ c_string (cfg_vector_model_id c),
      ascii ''vector.dimensions='' @ decimal (unat (cfg_vector_dimensions c)),
      ascii ''vector.metric='' @ ascii (metric_name (cfg_vector_metric c))] @
     map (\<lambda>(i, f). ascii ''metadata.filterable_fields['' @ decimal i @ ascii '']='' @ c_string f)
       (enumerate 0 (cfg_filterable_fields c))"

definition canonical_text :: "YAP_V2_CONFIG \<Rightarrow> bytes" where
  "canonical_text c = text_lines (canonical_lines c)"

lemma length_decimal_bound: "n < 10 ^ k \<Longrightarrow> 0 < k \<Longrightarrow> length (decimal n) \<le> k"
proof (induction n arbitrary: k rule: decimal.induct)
  case (1 n)
  show ?case
  proof (cases "n < 10")
    case True
    then show ?thesis using 1(3) by (simp add: decimal.simps)
  next
    case False
    then obtain k' where k: "k = Suc k'" "0 < k'" using 1(2,3) by (cases k; cases "k - 1") auto
    then have "length (decimal (n div 10)) \<le> k'" using 1(1)[OF False, of k'] 1(2) by auto
    then show ?thesis using False k by (subst decimal.simps) simp
  qed
qed

lemma length_metric_name: "length (metric_name m) \<le> 8"
  by (simp add: metric_name_def)

lemma length_decimal_u32: "length (decimal (unat (w :: u32))) \<le> 10"
  using unsigned_less[of w, where 'a = nat] by (intro length_decimal_bound) auto

lemma canonical_fields_Inr:
  "\<forall>f\<in>set rows. length (c_string f) \<le> 127 \<Longrightarrow> i + length rows \<le> 64 \<Longrightarrow>
   length canonical + 170 * length rows < canonical_bytes \<Longrightarrow>
   canonical_fields i rows canonical = Inr (canonical @ text_lines
     (map (\<lambda>(i, f). ascii ''metadata.filterable_fields['' @ decimal i @ ascii '']='' @ c_string f)
        (enumerate i rows)))"
proof (induction rows arbitrary: i canonical)
  case (Cons f rows)
  have d: "length (decimal i) \<le> 2" using Cons.prems(2) by (intro length_decimal_bound) auto
  then have l: "length (canonical_field i f) \<le> 159"
    using Cons.prems(1) by (simp add: canonical_field_def)
  then have fits: "\<not> length (canonical_field i f) \<ge> canonical_bytes - length canonical"
    using Cons.prems(3) by simp
  have "length (canonical @ canonical_field i f) + 170 * length rows < canonical_bytes"
    using Cons.prems(3) l by simp
  then have "canonical_fields (Suc i) rows (canonical @ canonical_field i f) =
      Inr ((canonical @ canonical_field i f) @ text_lines
     (map (\<lambda>(i, f). ascii ''metadata.filterable_fields['' @ decimal i @ ascii '']='' @ c_string f)
        (enumerate (Suc i) rows)))"
    using Cons.prems(1,2) by (intro Cons.IH) auto
  with fits show ?case by (simp add: canonical_field_def)
qed simp

lemma fingerprint_eq:
  assumes "config_ok c"
  shows "YAP_V2_config_fingerprint (Some c) = Inr (sha256_digest (canonical_text c))"
proof -
  have l: "length (canonical_head c) \<le> 700"
    using assms length_decimal_u32[of "cfg_format_version c"] length_decimal_u32[of "cfg_chunk_max_chars c"]
      length_decimal_u32[of "cfg_chunk_overlap_chars c"] length_decimal_u32[of "cfg_vector_dimensions c"]
      length_metric_name[of "cfg_vector_metric c"]
    by (simp add: canonical_head_def config_ok_def)
  have f: "\<forall>f\<in>set (cfg_filterable_fields c). length (c_string f) \<le> 127"
    "length (cfg_filterable_fields c) \<le> 64"
    using assms by (auto simp: config_ok_def field_name_ok_def)
  have "canonical_fields 0 (cfg_filterable_fields c) (canonical_head c) = Inr (canonical_text c)"
    using l f by (subst canonical_fields_Inr) (auto simp: canonical_bytes_def canonical_text_def
        canonical_lines_def canonical_head_def)
  with l assms show ?thesis
    by (simp add: YAP_V2_config_fingerprint_def config_validate_ok canonical_bytes_def)
qed

text \<open>Two configurations with the same strings.\<close>

definition same_config :: "YAP_V2_CONFIG \<Rightarrow> YAP_V2_CONFIG \<Rightarrow> bool" where
  "same_config a b \<longleftrightarrow> cfg_format_version a = cfg_format_version b \<and>
     c_string (cfg_tokenizer_id a) = c_string (cfg_tokenizer_id b) \<and>
     cfg_chunk_max_chars a = cfg_chunk_max_chars b \<and>
     cfg_chunk_overlap_chars a = cfg_chunk_overlap_chars b \<and>
     c_string (cfg_vector_model_id a) = c_string (cfg_vector_model_id b) \<and>
     cfg_vector_dimensions a = cfg_vector_dimensions b \<and>
     cfg_vector_metric a = cfg_vector_metric b \<and>
     map c_string (cfg_filterable_fields a) = map c_string (cfg_filterable_fields b)"











subsection \<open>Theorems\<close>

text \<open>
  C26. Every configuration that loads is valid, and it filters on exactly the requested fields.
  \<open>YAP_V2_config_load\<close> answers a configuration only when the file parses; it then satisfies the
  schema (identifiers and limits in range, vector settings consistent, field names well formed,
  sorted and without duplicates), and its filterable fields are the requested ones, each once.
\<close>

theorem config_load_sound:
  assumes "YAP_V2_config_load opened parsed = Inr c"
  shows "\<exists>root. parsed = Some root \<and> YAP_V2_config_validate (Some c) = YAP_V2_OK \<and> config_ok c \<and>
    set (cfg_filterable_fields c) = set (requested_fields root) \<and>
    length (cfg_filterable_fields c) = length (requested_fields root)"
  using config_load_Inr[OF assms] config_validate_ok by blast

definition sample_toml :: toml_entries where
  "sample_toml = [(''format_version'', Node_int 2), (''tokenizer'', Node_table []),
     (''chunking'', Node_table [(''max_chars'', Node_int 400)]), (''vector'', Node_table []),
     (''metadata'', Node_table [(''filterable_fields'', Node_array [Node_string (ascii ''b''), Node_string (ascii ''a'')])])]"

lemma sample_config:
  "\<exists>c. YAP_V2_config_load True (Some sample_toml) = Inr c \<and> cfg_filterable_fields c = [ascii ''a'', ascii ''b'']"
  by (simp add: sample_toml_def YAP_V2_config_load_def key_allowed_def toml_table_in_def read_uint32_def
      copy_string_def read_vector_table_def read_filterable_fields_def ascii_def c_string_def
      YAP_V2_config_init_def config_limits type_limits YAP_V2_config_validate_def c_string_validate_def
      vector_metrics)

theorem config_load_sound_witness:
  "\<exists>c. YAP_V2_config_load True (Some sample_toml) = Inr c \<and> config_ok c \<and>
     set (cfg_filterable_fields c) = set (requested_fields sample_toml)"
proof -
  obtain c where c: "YAP_V2_config_load True (Some sample_toml) = Inr c" using sample_config by blast
  with config_load_sound[OF c] show ?thesis by auto
qed




text \<open>
  Line breaks are not excluded from the tokenizer and model identifiers, and a line break lets one
  setting imitate the following ones: these two valid configurations differ in the tokenizer, the
  chunking and the model, and have the same fingerprint.
\<close>

definition config_line_break :: "string \<Rightarrow> bytes \<Rightarrow> u32 \<Rightarrow> bytes \<Rightarrow> YAP_V2_CONFIG" where
  "config_line_break t tail m v =
     \<lparr>cfg_format_version = 2, cfg_tokenizer_id = ascii t @ tail, cfg_chunk_max_chars = m,
      cfg_chunk_overlap_chars = 1, cfg_vector_model_id = v, cfg_vector_dimensions = 4,
      cfg_vector_metric = YAP_V2_VECTOR_DOT, cfg_filterable_fields = []\<rparr>"

definition imitated_lines :: "u32 \<Rightarrow> bytes" where
  "imitated_lines m = [10] @ ascii ''chunking.max_chars='' @ decimal (unat m) @ [10] @
     ascii ''chunking.overlap_chars=1'' @ [10] @ ascii ''vector.model_id=''"

theorem fingerprint_collision:
  "\<exists>a b. YAP_V2_config_validate (Some a) = YAP_V2_OK \<and> YAP_V2_config_validate (Some b) = YAP_V2_OK \<and>
     \<not> same_config a b \<and> YAP_V2_config_fingerprint (Some a) = YAP_V2_config_fingerprint (Some b)"
proof -
  let ?a = "config_line_break ''t'' [] 5 (ascii ''x'' @ imitated_lines 7 @ ascii ''y'')"
  let ?b = "config_line_break ''t'' (imitated_lines 5 @ ascii ''x'') 7 (ascii ''y'')"
  have d: "decimal 5 = [53]" "decimal 7 = [55]" "decimal 1 = [49]" "decimal (Suc 0) = [49]" "decimal 4 = [52]" "decimal 2 = [50]"
    by (simp_all add: decimal.simps)
  have cs: "c_string (ascii ''t'' @ imitated_lines 5 @ ascii ''x'') = ascii ''t'' @ imitated_lines 5 @ ascii ''x''"
    "c_string (ascii ''x'' @ imitated_lines 7 @ ascii ''y'') = ascii ''x'' @ imitated_lines 7 @ ascii ''y''"
    "c_string (ascii ''t'') = ascii ''t''" "c_string (ascii ''y'') = ascii ''y''"
    by (simp_all add: c_string_def imitated_lines_def d ascii_def)
  have ok: "config_ok ?a" "config_ok ?b"
    by (simp_all add: config_ok_def config_line_break_def cs vector_metrics type_limits)
       (simp_all add: imitated_lines_def d ascii_def)
  have "canonical_text ?a = canonical_text ?b"
    unfolding canonical_text_def canonical_lines_def config_line_break_def YAP_V2_CONFIG.simps
    by (simp add: cs) (simp add: imitated_lines_def d ascii_def)
  moreover have "\<not> same_config ?a ?b" by (simp add: same_config_def config_line_break_def)
  ultimately show ?thesis
    using ok fingerprint_eq config_validate_ok by metis
qed

subsection \<open>Saving\<close>

text \<open>
  How TOML reads a basic string: the value and the rest after the closing quote. Of the \<open>\u\<close> escapes
  only those of code points below 128 occur.
\<close>

definition hex_value :: "byte \<Rightarrow> nat option" where
  "hex_value c = (if 48 \<le> c \<and> c \<le> 57 then Some (unat c - 48)
     else if 97 \<le> c \<and> c \<le> 102 then Some (unat c - 87) else None)"

fun toml_read :: "bytes \<Rightarrow> (bytes \<times> bytes) option" where
  "toml_read [] = None"
| "toml_read (c # s) =
     (if c = 34 then Some ([], s)
      else if c = 92 then
        (case s of
           [] \<Rightarrow> None
         | e # r \<Rightarrow>
             if e = 117 then
               (case r of a # b # h # l # r' \<Rightarrow>
                  (if a = 48 \<and> b = 48 then
                     (case (hex_value h, hex_value l, toml_read r') of
                        (Some a, Some b, Some (v, rest)) \<Rightarrow> Some (word_of_nat (16 * a + b) # v, rest)
                      | _ \<Rightarrow> None)
                   else None)
                | _ \<Rightarrow> None)
             else
               (case (if e = 34 \<or> e = 92 then Some e else if e = 110 then Some 10
                      else if e = 114 then Some 13 else if e = 116 then Some 9 else None, toml_read r) of
                  (Some d, Some (v, rest)) \<Rightarrow> Some (d # v, rest) | _ \<Rightarrow> None))
      else (case toml_read s of Some (v, rest) \<Rightarrow> Some (c # v, rest) | None \<Rightarrow> None))"

lemma hex_value_digit: "n < 16 \<Longrightarrow> hex_value (hex_digit n) = Some n"
proof -
  have "\<forall>k\<in>set [0..<16]. hex_value (hex_digit k) = Some k"
    by (simp add: upt_rec hex_value_def hex_digit_def)
  then show "n < 16 \<Longrightarrow> ?thesis" by simp
qed

lemma toml_read_escape:
  assumes "toml_read r = Some (v, rest)"
  shows "toml_read (toml_escape c @ r) = Some (c # v, rest)"
proof (cases "(c < 0x20 \<or> c = 0x7f) \<and> c \<noteq> 10 \<and> c \<noteq> 13 \<and> c \<noteq> 9")
  case True
  have "unat c < 256" using unsigned_less[of c, where 'a = nat] by simp
  then have "hex_value (hex_digit (unat c div 16)) = Some (unat c div 16)"
    "hex_value (hex_digit (unat c mod 16)) = Some (unat c mod 16)"
    by (intro hex_value_digit; linarith)+
  moreover have "c \<noteq> 34" "c \<noteq> 92" using True by auto
  ultimately show ?thesis using True assms by (simp add: toml_escape_def)
next
  case False
  then show ?thesis using assms by (auto simp: toml_escape_def)
qed

lemma write_toml_string_read:
  "toml_read (concat (map toml_escape s) @ 34 # rest) = Some (s, rest)"
  by (induction s) (simp_all add: toml_read_escape)

text \<open>
  Saving never touches an existing file, leaves nothing behind when it fails (unless the removal
  itself fails), and otherwise writes the text, whose quoted strings TOML reads back.
\<close>

theorem config_save_correct:
  assumes "YAP_V2_config_save io short fs path config = (s, ops)"
  shows "(fs path \<noteq> None \<longrightarrow> s \<noteq> YAP_V2_OK \<and> ops = []) \<and>
    (s \<noteq> YAP_V2_OK \<longrightarrow> io Io_unlink \<longrightarrow> run_ops ops fs path = fs path) \<and>
    (s = YAP_V2_OK \<longrightarrow> config_ok config \<and> run_ops ops fs path = Some (saved_text config)) \<and>
    (q \<noteq> path \<longrightarrow> run_ops ops fs q = fs q) \<and>
    (\<exists>r. write_toml_string value = 34 # r \<and> toml_read r = Some (c_string value, []))"
  using assms write_toml_string_read[of "c_string value" "[]"]
  by (auto simp: YAP_V2_config_save_def write_toml_string_def unlink_op_def config_validate_ok
      split: if_splits)

end
