(* ===== verification/Component_File.thy ===== *)
theory Component_File
  imports Segment_Buffer
begin

text \<open>
  What \<open>components/yappo_metadata_v2.c\<close> and \<open>components/yappo_vector_v2.c\<close> have in common, each in
  its own copy: the growing output buffer, and the replacement of a component file through a
  temporary one. The two copies of the latter differ in what follows a failed synchronization of the
  directory.
\<close>

subsection \<open>Output buffer\<close>

definition cmp_append :: "(nat \<Rightarrow> bool) \<Rightarrow> YAP_V2_BUFFER \<Rightarrow> bytes \<Rightarrow> YAP_V2_BUFFER outcome" where
  "cmp_append mem buffer data =
     (let needed = length (buf_data buffer) + length data in
      if length data > SIZE_MAX - length (buf_data buffer) then Inl YAP_V2_OUT_OF_RANGE
      else if needed > YAP_V2_MAX_SEGMENT_PAYLOAD_BYTES then Inl YAP_V2_SEGMENT_CAPACITY_EXCEEDED
      else if needed > buf_capacity buffer
        then (let capacity =
                buffer_grow (if buf_capacity buffer = 0 then 256 else buf_capacity buffer) needed in
              if mem capacity
              then Inr (buffer\<lparr>buf_data := buf_data buffer @ data, buf_capacity := capacity\<rparr>)
              else Inl YAP_V2_ALLOCATION_FAILED)
      else Inr (buffer\<lparr>buf_data := buf_data buffer @ data\<rparr>))"

definition cmp_append_u32 :: "(nat \<Rightarrow> bool) \<Rightarrow> YAP_V2_BUFFER \<Rightarrow> u32 \<Rightarrow> YAP_V2_BUFFER outcome" where
  "cmp_append_u32 mem buffer value = cmp_append mem buffer (put_u32 value)"

definition cmp_append_u64 :: "(nat \<Rightarrow> bool) \<Rightarrow> YAP_V2_BUFFER \<Rightarrow> u64 \<Rightarrow> YAP_V2_BUFFER outcome" where
  "cmp_append_u64 mem buffer value = cmp_append mem buffer (put_u64 value)"

definition cmp_patch_u64 :: "nat \<Rightarrow> u64 \<Rightarrow> YAP_V2_BUFFER \<Rightarrow> YAP_V2_BUFFER" where
  "cmp_patch_u64 pos value b =
     b\<lparr>buf_data := take pos (buf_data b) @ put_u64 value @ drop (pos + 8) (buf_data b)\<rparr>"

subsection \<open>Replacing the file\<close>

definition replace_file :: "io \<Rightarrow> nat \<Rightarrow> string \<Rightarrow> bytes \<Rightarrow> YAP_V2_STATUS option \<times> fs_op list" where
  "replace_file io short path data =
     (let tmp = temporary_path path;
          written = [Fs_create tmp, Fs_write tmp (if io Io_fwrite then data else take short data)];
          failed = \<not> io Io_fwrite \<or> \<not> io Io_fflush \<or> \<not> io Io_fsync \<or> \<not> io Io_fclose in
      if \<not> io Io_malloc then (Some YAP_V2_ALLOCATION_FAILED, [])
      else if \<not> io Io_fopen then (Some YAP_V2_IO_ERROR, [])
      else if failed \<or> \<not> io Io_rename then (Some YAP_V2_IO_ERROR, written @ unlink_op io tmp)
      else (None, written @ [Fs_rename tmp path]))"

definition metadata_replace :: "io \<Rightarrow> nat \<Rightarrow> string \<Rightarrow> bytes \<Rightarrow> YAP_V2_STATUS \<times> fs_op list" where
  "metadata_replace io short path data =
     (case replace_file io short path data of
        (Some status, ops) \<Rightarrow> (status, ops)
      | (None, ops) \<Rightarrow>
          if \<not> io Io_strdup then (YAP_V2_ALLOCATION_FAILED, ops)
          else if \<not> io Io_open_dir \<or> \<not> io Io_fsync_dir \<or> \<not> io Io_close_dir
            then (YAP_V2_IO_ERROR, ops)
          else (YAP_V2_OK, ops))"

definition vector_replace :: "io \<Rightarrow> nat \<Rightarrow> string \<Rightarrow> bytes \<Rightarrow> YAP_V2_STATUS \<times> fs_op list" where
  "vector_replace io short path data =
     (case replace_file io short path data of
        (Some status, ops) \<Rightarrow> (status, ops)
      | (None, ops) \<Rightarrow>
          if \<not> fsync_parent io then (YAP_V2_IO_ERROR, ops @ unlink_op io (temporary_path path))
          else (YAP_V2_OK, ops))"

interpretation metadata_file: atomic_writer metadata_replace "\<lambda>path. path" "\<lambda>_. temporary_path" "\<lambda>data. data"
proof
  show "temporary_path path \<noteq> path" for path
    by simp
  show "(\<forall>op \<in> set ops. only_touches (temporary_path path) op) \<or> replaces (temporary_path path) path data ops"
    if "metadata_replace io short path data = (s, ops)" for io short path data s ops
    using that by (auto simp: metadata_replace_def replace_file_def Let_def unlink_op_def split: if_splits intro!: replacesI)
  show "replaces (temporary_path path) path data ops"
    if "metadata_replace io short path data = (YAP_V2_OK, ops)" for io short path data ops
    using that by (auto simp: metadata_replace_def replace_file_def Let_def unlink_op_def split: if_splits intro!: replacesI)
qed

interpretation vector_file: atomic_writer vector_replace "\<lambda>path. path" "\<lambda>_. temporary_path" "\<lambda>data. data"
proof
  show "temporary_path path \<noteq> path" for path
    by simp
  show "(\<forall>op \<in> set ops. only_touches (temporary_path path) op) \<or> replaces (temporary_path path) path data ops"
    if "vector_replace io short path data = (s, ops)" for io short path data s ops
    using that by (auto simp: vector_replace_def replace_file_def Let_def unlink_op_def split: if_splits intro!: replacesI)
  show "replaces (temporary_path path) path data ops"
    if "vector_replace io short path data = (YAP_V2_OK, ops)" for io short path data ops
    using that by (auto simp: vector_replace_def replace_file_def Let_def unlink_op_def split: if_splits intro!: replacesI)
qed

text \<open>The header in front of a payload, as both writers build it.\<close>

definition component_header :: "u32 \<Rightarrow> u64 \<Rightarrow> bytes \<Rightarrow> bytes outcome" where
  "component_header file_type generation payload =
     YAP_V2_file_header_encode
       \<lparr>hdr_format_version = YAP_V2_FORMAT_VERSION,
        hdr_header_bytes = word_of_nat YAP_V2_FILE_HEADER_BYTES, hdr_file_type = file_type,
        hdr_generation = generation, hdr_payload_bytes = word_of_nat (length payload),
        hdr_payload_crc32c = crc32c_branch payload\<rparr>"

subsection \<open>What the buffer operations append\<close>

lemma cmp_append_cases:
  assumes "buffer_inv b"
  shows "case cmp_append mem b d of
      Inr b' \<Rightarrow> buffer_inv b' \<and> buf_data b' = buf_data b @ d
    | Inl s \<Rightarrow> s \<noteq> YAP_V2_OK \<and>
        (length (buf_data b) + length d \<le> YAP_V2_MAX_SEGMENT_PAYLOAD_BYTES \<longrightarrow> (\<exists>k. \<not> mem k))"
proof -
  let ?r = "length (buf_data b) + length d"
  let ?c = "if buf_capacity b = 0 then 256 else buf_capacity b"
  have "?r \<le> buffer_grow ?c ?r \<and> ?c \<le> buffer_grow ?c ?r \<and>
      buffer_grow ?c ?r \<le> YAP_V2_MAX_SEGMENT_PAYLOAD_BYTES"
    if "?r \<le> YAP_V2_MAX_SEGMENT_PAYLOAD_BYTES"
    using that assms max_payload_fits by (intro buffer_grow_bounds) (auto simp: buffer_inv_def)
  then show ?thesis
    using assms max_payload_fits
    by (auto simp: cmp_append_def Let_def buffer_inv_def storage_limits)
qed

lemma appends_cmp [appends_intros]: "appends (\<lambda>b. cmp_append mem b d) d"
proof (rule appendsI)
  fix b b' assume "buffer_inv b" "cmp_append mem b d = Inr b'"
  then show "buffer_inv b' \<and> buf_data b' = buf_data b @ d"
    using cmp_append_cases[where b = b and mem = mem and d = d] by simp
qed

lemma appends_cmp_u32 [appends_intros]: "appends (\<lambda>b. cmp_append_u32 mem b v) (put_u32_le v)"
  unfolding cmp_append_u32_def put_u32_eq by (rule appends_cmp)

lemma appends_cmp_u64 [appends_intros]: "appends (\<lambda>b. cmp_append_u64 mem b v) (put_u64_le v)"
  unfolding cmp_append_u64_def put_u64_eq by (rule appends_cmp)

lemma accepts_cmp [accepts_intros]: "accepts (\<lambda>b. cmp_append (\<lambda>_. True) b d) d"
proof (rule acceptsI[OF appends_cmp])
  fix b assume "buffer_inv b" "length (buf_data b) + length d \<le> YAP_V2_MAX_SEGMENT_PAYLOAD_BYTES"
  then show "\<exists>b'. cmp_append (\<lambda>_. True) b d = Inr b'"
    using cmp_append_cases[where b = b and mem = "\<lambda>_. True" and d = d] by (auto split: sum.splits)
qed

lemma accepts_cmp_u32 [accepts_intros]: "accepts (\<lambda>b. cmp_append_u32 (\<lambda>_. True) b v) (put_u32_le v)"
  unfolding cmp_append_u32_def put_u32_eq by (rule accepts_cmp)

lemma accepts_cmp_u64 [accepts_intros]: "accepts (\<lambda>b. cmp_append_u64 (\<lambda>_. True) b v) (put_u64_le v)"
  unfolding cmp_append_u64_def put_u64_eq by (rule accepts_cmp)

lemma cmp_patch_u64_data:
  "length pre = pos \<Longrightarrow> length old = 8 \<Longrightarrow> buf_data b = pre @ old @ post \<Longrightarrow>
   buf_data (cmp_patch_u64 pos v b) = pre @ put_u64_le v @ post"
  by (simp add: cmp_patch_u64_def put_u64_eq)

subsection \<open>Header and payload\<close>

lemma component_header_decode:
  assumes "component_header t g payload = Inr hb"
  shows "length hb = YAP_V2_FILE_HEADER_BYTES"
    and "YAP_V2_file_header_decode (hb @ rest) = Inr
        \<lparr>hdr_format_version = YAP_V2_FORMAT_VERSION,
         hdr_header_bytes = word_of_nat YAP_V2_FILE_HEADER_BYTES, hdr_file_type = t,
         hdr_generation = g, hdr_payload_bytes = word_of_nat (length payload),
         hdr_payload_crc32c = crc32c_branch payload\<rparr>"
  using assms unfolding component_header_def
  using encode_length header_decode_encode by blast+

lemma component_header_total:
  assumes "g \<noteq> 0" "file_header_type_valid t"
  shows "\<exists>hb. component_header t g payload = Inr hb"
proof -
  have "header_fields_valid \<lparr>hdr_format_version = YAP_V2_FORMAT_VERSION,
        hdr_header_bytes = word_of_nat YAP_V2_FILE_HEADER_BYTES, hdr_file_type = t,
        hdr_generation = g, hdr_payload_bytes = word_of_nat (length payload),
        hdr_payload_crc32c = crc32c_branch payload\<rparr>"
    using assms by (simp add: header_fields_valid_def)
  then show ?thesis by (simp add: component_header_def YAP_V2_file_header_encode_def)
qed

end
