(* ===== verification/Metadata_V2.thy ===== *)
theory Metadata_V2
  imports Component_File Config_V2
begin

text \<open>
  The metadata component, \<open>components/yappo_metadata_v2.c\<close>: the values that documents have in the
  filterable fields, written to \<open>metadata.yap2\<close> and read back. The JSON library yyjson is outside the
  repository: \<open>json\<close> is the tree it delivers (its integers are unsigned, or signed when negative), the
  parser is an argument. \<open>'r\<close> stands for \<open>double\<close> and \<open>print_real\<close> for the conversion \<open>%.17g\<close>.
\<close>

subsection \<open>JSON values\<close>

datatype 'r json =
    Json_null | Json_bool bool | Json_sint int | Json_uint nat | Json_real 'r | Json_str bytes
  | Json_arr "'r json list" | Json_obj "(bytes \<times> 'r json) list"

fun json_is_obj :: "'r json \<Rightarrow> bool" where
  "json_is_obj (Json_obj _) \<longleftrightarrow> True"
| "json_is_obj _ \<longleftrightarrow> False"

text \<open>\<open>yyjson_obj_getn\<close> answers the first value of the key.\<close>

fun json_get :: "'r json \<Rightarrow> bytes \<Rightarrow> 'r json option" where
  "json_get (Json_obj members) key = map_of members key"
| "json_get _ key = None"

function path_value :: "'r json \<Rightarrow> bytes \<Rightarrow> 'r json option" where
  "path_value v path =
     (if path = [] then None
      else
        (let key = takeWhile (\<lambda>c. c \<noteq> 46) path; dot = dropWhile (\<lambda>c. c \<noteq> 46) path in
         if \<not> json_is_obj v then None
         else case json_get v key of
           None \<Rightarrow> None
         | Some w \<Rightarrow> if dot = [] then Some w else path_value w (tl dot)))"
  by pat_completeness auto
termination
proof (relation "measure (\<lambda>(v, path). length path)", goal_cases)
  case 1
  show ?case by simp
next
  case (2 v path key dot w)
  have "length (tl dot) < length path"
  proof -
    have "0 < length path" using 2(1) by simp
    moreover have "length dot \<le> length path" using 2(3) length_dropWhile_le by simp
    ultimately show ?thesis by (simp del: length_greater_0_conv)
  qed
  then show ?case by simp
qed

declare path_value.simps [simp del]

subsection \<open>Entries\<close>

text \<open>The enumeration \<open>YAP_V2_METADATA_TYPE\<close>.\<close>

definition YAP_V2_METADATA_NULL :: u32 where "YAP_V2_METADATA_NULL = 1"
definition YAP_V2_METADATA_BOOL :: u32 where "YAP_V2_METADATA_BOOL = 2"
definition YAP_V2_METADATA_NUMBER :: u32 where "YAP_V2_METADATA_NUMBER = 3"
definition YAP_V2_METADATA_STRING :: u32 where "YAP_V2_METADATA_STRING = 4"

lemmas metadata_types = YAP_V2_METADATA_NULL_def YAP_V2_METADATA_BOOL_def
  YAP_V2_METADATA_NUMBER_def YAP_V2_METADATA_STRING_def

record YAP_V2_METADATA_ENTRY =
  mde_field_ordinal :: u32
  mde_document_ordinal :: u64
  mde_type :: u32
  mde_value :: bytes

record YAP_V2_METADATA_INDEX =
  mdx_fields :: "bytes list"
  mdx_document_count :: u64
  mdx_entries :: "YAP_V2_METADATA_ENTRY list"

definition metadata_entry_bytes :: nat where "metadata_entry_bytes = 40"

subsection \<open>Writer\<close>

definition number_text :: "('r \<Rightarrow> bytes) \<Rightarrow> 'r json \<Rightarrow> bytes" where
  "number_text print_real value =
     (case value of Json_sint i \<Rightarrow> decimal_int i | Json_uint n \<Rightarrow> decimal n
      | Json_real r \<Rightarrow> print_real r | _ \<Rightarrow> [])"

text \<open>The type and text of a scalar; \<open>None\<close> for an array or object, which is skipped.\<close>

definition scalar_text :: "('r \<Rightarrow> bytes) \<Rightarrow> 'r json \<Rightarrow> (u32 \<times> bytes) option outcome" where
  "scalar_text print_real value =
     (case value of
        Json_null \<Rightarrow> Inr (Some (YAP_V2_METADATA_NULL, []))
      | Json_bool b \<Rightarrow> Inr (Some (YAP_V2_METADATA_BOOL, [if b then 1 else 0]))
      | Json_str s \<Rightarrow> Inr (Some (YAP_V2_METADATA_STRING, s))
      | Json_arr _ \<Rightarrow> Inr None
      | Json_obj _ \<Rightarrow> Inr None
      | _ \<Rightarrow> if length (number_text print_real value) \<ge> 64 then Inl YAP_V2_OUT_OF_RANGE
            else Inr (Some (YAP_V2_METADATA_NUMBER, number_text print_real value)))"

definition append_scalar ::
  "(nat \<Rightarrow> bool) \<Rightarrow> ('r \<Rightarrow> bytes) \<Rightarrow> u32 \<Rightarrow> u64 \<Rightarrow> 'r json \<Rightarrow> YAP_V2_BUFFER \<times> u64 \<Rightarrow>
     (YAP_V2_BUFFER \<times> u64) outcome" where
  "append_scalar mem print_real field document value = (\<lambda>(payload, records).
     rbind (scalar_text print_real value) (\<lambda>scalar.
       case scalar of
         None \<Rightarrow> Inr (payload, records)
       | Some (ty, tx) \<Rightarrow>
           if length tx > UINT32_MAX then Inl YAP_V2_OUT_OF_RANGE
           else
           rbind (rbind (cmp_append_u32 mem payload field) (\<lambda>payload.
                  rbind (cmp_append_u64 mem payload document) (\<lambda>payload.
                  rbind (cmp_append_u32 mem payload ty) (\<lambda>payload.
                  rbind (cmp_append_u32 mem payload (word_of_nat (length tx))) (\<lambda>payload.
                  cmp_append mem payload tx))))) (\<lambda>payload.
           Inr (payload, records + 1))))"

fun append_scalars ::
  "(nat \<Rightarrow> bool) \<Rightarrow> ('r \<Rightarrow> bytes) \<Rightarrow> u32 \<Rightarrow> u64 \<Rightarrow> 'r json list \<Rightarrow> YAP_V2_BUFFER \<times> u64 \<Rightarrow>
     (YAP_V2_BUFFER \<times> u64) outcome" where
  "append_scalars mem print_real field document [] st = Inr st"
| "append_scalars mem print_real field document (item # items) st =
     rbind (append_scalar mem print_real field document item st)
       (append_scalars mem print_real field document items)"

definition append_value ::
  "(nat \<Rightarrow> bool) \<Rightarrow> ('r \<Rightarrow> bytes) \<Rightarrow> u32 \<Rightarrow> u64 \<Rightarrow> 'r json \<Rightarrow> YAP_V2_BUFFER \<times> u64 \<Rightarrow>
     (YAP_V2_BUFFER \<times> u64) outcome" where
  "append_value mem print_real field document value st =
     (case value of
        Json_arr items \<Rightarrow> append_scalars mem print_real field document items st
      | _ \<Rightarrow> append_scalar mem print_real field document value st)"

fun append_field_names :: "(nat \<Rightarrow> bool) \<Rightarrow> bytes list \<Rightarrow> YAP_V2_BUFFER \<Rightarrow> YAP_V2_BUFFER outcome" where
  "append_field_names mem [] payload = Inr payload"
| "append_field_names mem (field # rows) payload =
     rbind (cmp_append_u32 mem payload (word_of_nat (length (c_string field)))) (\<lambda>payload.
     rbind (cmp_append mem payload (c_string field)) (append_field_names mem rows))"

fun append_fields ::
  "(nat \<Rightarrow> bool) \<Rightarrow> ('r \<Rightarrow> bytes) \<Rightarrow> u64 \<Rightarrow> 'r json \<Rightarrow> nat \<Rightarrow> bytes list \<Rightarrow> YAP_V2_BUFFER \<times> u64 \<Rightarrow>
     (YAP_V2_BUFFER \<times> u64) outcome" where
  "append_fields mem print_real document root field [] st = Inr st"
| "append_fields mem print_real document root field (row # rows) st =
     rbind (case path_value root (c_string row) of
              None \<Rightarrow> Inr st
            | Some value \<Rightarrow> append_value mem print_real (word_of_nat field) document value st)
       (append_fields mem print_real document root (Suc field) rows)"

fun append_documents ::
  "(nat \<Rightarrow> bool) \<Rightarrow> ('r \<Rightarrow> bytes) \<Rightarrow> bytes list \<Rightarrow> nat \<Rightarrow>
     (YAP_V2_DOCUMENT_VIEW \<times> 'r json option) list \<Rightarrow> YAP_V2_BUFFER \<times> u64 \<Rightarrow>
     (YAP_V2_BUFFER \<times> u64) outcome" where
  "append_documents mem print_real rows i [] st = Inr st"
| "append_documents mem print_real rows i ((document, root) # rest) st =
     (if YAP_V2_document_validate (Some document) \<noteq> YAP_V2_OK then Inl YAP_V2_INVALID_FORMAT
      else case root of
        None \<Rightarrow> Inl YAP_V2_INVALID_FORMAT
      | Some v \<Rightarrow>
          if \<not> json_is_obj v then Inl YAP_V2_INVALID_FORMAT
          else rbind (append_fields mem print_real (word_of_nat i) v 0 rows st)
                 (append_documents mem print_real rows (Suc i) rest))"

definition metadata_payload ::
  "(nat \<Rightarrow> bool) \<Rightarrow> ('r \<Rightarrow> bytes) \<Rightarrow> YAP_V2_CONFIG \<Rightarrow>
     (YAP_V2_DOCUMENT_VIEW \<times> 'r json option) list \<Rightarrow> (bytes \<times> u64) outcome" where
  "metadata_payload mem print_real config documents =
     rbind (rbind (cmp_append_u32 mem buffer_empty 1) (\<lambda>payload.
            rbind (cmp_append_u32 mem payload
                     (word_of_nat (length (cfg_filterable_fields config)))) (\<lambda>payload.
            rbind (cmp_append_u64 mem payload (word_of_nat (length documents))) (\<lambda>payload.
            rbind (cmp_append_u64 mem payload 0) (\<lambda>payload.
            append_field_names mem (cfg_filterable_fields config) payload))))) (\<lambda>payload.
     rbind (append_documents mem print_real (cfg_filterable_fields config) 0 documents (payload, 0))
       (\<lambda>(payload, records). Inr (buf_data (cmp_patch_u64 16 records payload), records)))"

text \<open>
  \<open>write_atomic\<close>; \<open>back\<close> is what \<open>YAP_V2_file_sha256\<close> reads back from the new file (see \<open>Sha256\<close>).
\<close>

definition metadata_write_atomic ::
  "io \<Rightarrow> nat \<Rightarrow> (bytes \<Rightarrow> bytes list option \<times> bool \<times> bool) \<Rightarrow> string \<Rightarrow> u64 \<Rightarrow> bytes \<Rightarrow> u64 \<Rightarrow>
     YAP_V2_COMPONENT_DESCRIPTOR outcome \<times> fs_op list" where
  "metadata_write_atomic io short back path generation payload records =
     (case component_header YAP_V2_FILE_METADATA generation payload of
        Inl _ \<Rightarrow> (Inl YAP_V2_INVALID_FORMAT, [])
      | Inr encoded \<Rightarrow>
          (case metadata_replace io short path (encoded @ payload) of (status, ops) \<Rightarrow>
             if status \<noteq> YAP_V2_OK then (Inl status, ops)
             else case back (encoded @ payload) of (chunks, read_ok, close_ok) \<Rightarrow>
               (case YAP_V2_file_sha256 chunks read_ok close_ok of
                  Inl _ \<Rightarrow> (Inl YAP_V2_IO_ERROR, ops)
                | Inr (checksum, file_bytes) \<Rightarrow>
                    (Inr \<lparr>cmp_name = ascii ''metadata.yap2'', cmp_file_type = YAP_V2_FILE_METADATA,
                          cmp_record_count = records, cmp_file_bytes = file_bytes,
                          cmp_checksum = checksum\<rparr>, ops))))"

definition YAP_V2_metadata_write_preparsed ::
  "(nat \<Rightarrow> bool) \<Rightarrow> ('r \<Rightarrow> bytes) \<Rightarrow> io \<Rightarrow> nat \<Rightarrow> (bytes \<Rightarrow> bytes list option \<times> bool \<times> bool) \<Rightarrow> string \<Rightarrow>
     u64 \<Rightarrow> YAP_V2_CONFIG \<Rightarrow> (YAP_V2_DOCUMENT_VIEW \<times> 'r json option) list \<Rightarrow>
     YAP_V2_COMPONENT_DESCRIPTOR outcome \<times> fs_op list" where
  "YAP_V2_metadata_write_preparsed mem print_real io short back path generation config documents =
     (if YAP_V2_config_validate (Some config) \<noteq> YAP_V2_OK then (Inl YAP_V2_INVALID_ARGUMENT, [])
      else if length documents > YAP_V2_MAX_SEGMENT_DOCUMENTS then (Inl YAP_V2_OUT_OF_RANGE, [])
      else case metadata_payload mem print_real config documents of
        Inl status \<Rightarrow> (Inl status, [])
      | Inr (payload, records) \<Rightarrow>
          metadata_write_atomic io short back path generation payload records)"

text \<open>\<open>json_read\<close> is \<open>yyjson_read\<close>.\<close>

fun parse_roots ::
  "(bytes \<Rightarrow> 'r json option) \<Rightarrow> YAP_V2_DOCUMENT_VIEW list \<Rightarrow>
     (YAP_V2_DOCUMENT_VIEW \<times> 'r json option) list outcome" where
  "parse_roots json_read [] = Inr []"
| "parse_roots json_read (document # documents) =
     (case json_read (view_bytes (doc_metadata_json document)) of
        None \<Rightarrow> Inl YAP_V2_INVALID_FORMAT
      | Some v \<Rightarrow>
          if \<not> json_is_obj v then Inl YAP_V2_INVALID_FORMAT
          else rbind (parse_roots json_read documents) (\<lambda>rest. Inr ((document, Some v) # rest)))"

definition YAP_V2_metadata_write ::
  "(nat \<Rightarrow> bool) \<Rightarrow> (bytes \<Rightarrow> 'r json option) \<Rightarrow> ('r \<Rightarrow> bytes) \<Rightarrow> io \<Rightarrow> nat \<Rightarrow>
     (bytes \<Rightarrow> bytes list option \<times> bool \<times> bool) \<Rightarrow> string \<Rightarrow> u64 \<Rightarrow> YAP_V2_CONFIG \<Rightarrow>
     YAP_V2_DOCUMENT_VIEW list \<Rightarrow> YAP_V2_COMPONENT_DESCRIPTOR outcome \<times> fs_op list" where
  "YAP_V2_metadata_write mem json_read print_real io short back path generation config documents =
     (if documents \<noteq> [] \<and> \<not> mem (length documents * 8) then (Inl YAP_V2_ALLOCATION_FAILED, [])
      else case parse_roots json_read documents of
        Inl status \<Rightarrow> (Inl status, [])
      | Inr pairs \<Rightarrow>
          YAP_V2_metadata_write_preparsed mem print_real io short back path generation config pairs)"

subsection \<open>Reader\<close>

fun read_field_names :: "bytes \<Rightarrow> bytes list \<Rightarrow> nat \<Rightarrow> (bytes list \<times> nat) outcome" where
  "read_field_names payload [] offset = Inr ([], offset)"
| "read_field_names payload (field # rows) offset =
     (if offset > length payload \<or> length payload - offset < 4 then Inl YAP_V2_INVALID_FORMAT
      else
        (let len = unat (get_u32 (drop offset payload)); offset = offset + 4 in
         if len > YAP_V2_MAX_FILTER_FIELD_BYTES \<or> offset > length payload \<or>
            len > length payload - offset \<or> len \<noteq> length (c_string field) \<or>
            take len (drop offset payload) \<noteq> c_string field
           then Inl YAP_V2_INVALID_FORMAT
         else rbind (read_field_names payload rows (offset + len)) (\<lambda>(names, offset').
           Inr (take len (drop offset payload) # names, offset'))))"

primrec read_entries ::
  "bytes \<Rightarrow> nat \<Rightarrow> u64 \<Rightarrow> nat \<Rightarrow> nat \<Rightarrow> (YAP_V2_METADATA_ENTRY list \<times> nat) outcome" where
  "read_entries payload field_count document_count 0 = (\<lambda>offset. Inr ([], offset))"
| "read_entries payload field_count document_count (Suc n) = (\<lambda>offset.
     if offset > length payload \<or> length payload - offset < 20 then Inl YAP_V2_INVALID_FORMAT
     else
       (let field = get_u32 (drop offset payload);
            document = get_u64 (drop (offset + 4) payload);
            ty = get_u32 (drop (offset + 12) payload);
            len = unat (get_u32 (drop (offset + 16) payload));
            offset = offset + 20 in
        if unat field \<ge> field_count \<or> document \<ge> document_count \<or> ty < YAP_V2_METADATA_NULL \<or>
           ty > YAP_V2_METADATA_STRING \<or> offset > length payload \<or> len > length payload - offset
          then Inl YAP_V2_INVALID_FORMAT
        else rbind (read_entries payload field_count document_count n (offset + len))
          (\<lambda>(entries, offset').
             Inr (\<lparr>mde_field_ordinal = field, mde_document_ordinal = document, mde_type = ty,
                   mde_value = take len (drop offset payload)\<rparr> # entries, offset'))))"

definition read_metadata_payload ::
  "(nat \<Rightarrow> bool) \<Rightarrow> YAP_V2_CONFIG \<Rightarrow> bytes \<Rightarrow> YAP_V2_METADATA_INDEX outcome" where
  "read_metadata_payload mem config payload =
     (if length payload < 24 \<or> get_u32 payload \<noteq> 1 \<or>
         unat (get_u32 (drop 4 payload)) \<noteq> length (cfg_filterable_fields config)
        then Inl YAP_V2_INVALID_FORMAT
      else
        (let document_count = get_u64 (drop 8 payload);
             entry_count = unat (get_u64 (drop 16 payload)) in
         if entry_count > SIZE_MAX div metadata_entry_bytes then Inl YAP_V2_OUT_OF_RANGE
         else
         rbind (read_field_names payload (cfg_filterable_fields config) 24) (\<lambda>(names, offset).
         if entry_count > 0 \<and> \<not> mem (entry_count * metadata_entry_bytes)
           then Inl YAP_V2_ALLOCATION_FAILED
         else
         rbind (read_entries payload (length (cfg_filterable_fields config)) document_count
                  entry_count offset) (\<lambda>(entries, offset).
         if offset \<noteq> length payload then Inl YAP_V2_INVALID_FORMAT
         else Inr \<lparr>mdx_fields = names, mdx_document_count = document_count,
                   mdx_entries = entries\<rparr>))))"

text \<open>
  The header is read by the first \<open>fread\<close>, the payload by the second; \<open>want\<close> says whether the caller
  asks for the descriptor, \<open>back\<close> is what \<open>YAP_V2_file_sha256\<close> then reads.
\<close>

definition YAP_V2_metadata_read ::
  "(nat \<Rightarrow> bool) \<Rightarrow> io \<Rightarrow> (bytes \<Rightarrow> bytes list option \<times> bool \<times> bool) \<Rightarrow> fs \<Rightarrow> string \<Rightarrow> u64 \<Rightarrow>
     YAP_V2_CONFIG \<Rightarrow> bool \<Rightarrow> (YAP_V2_METADATA_INDEX \<times> YAP_V2_COMPONENT_DESCRIPTOR option) outcome" where
  "YAP_V2_metadata_read mem io back fs path expected_generation config want =
     (if YAP_V2_config_validate (Some config) \<noteq> YAP_V2_OK then Inl YAP_V2_INVALID_ARGUMENT
      else case fs path of
        None \<Rightarrow> Inl YAP_V2_IO_ERROR
      | Some content \<Rightarrow>
          if \<not> io Io_fopen then Inl YAP_V2_IO_ERROR
          else if \<not> io Io_fseek_end \<or> \<not> io Io_ftell \<or> length content < YAP_V2_FILE_HEADER_BYTES \<or>
                  \<not> io Io_fseek_set \<or> \<not> io (Io_fread_at 0)
            then Inl YAP_V2_INVALID_FORMAT
          else case YAP_V2_file_header_decode content of
            Inl _ \<Rightarrow> Inl YAP_V2_INVALID_FORMAT
          | Inr header \<Rightarrow>
              (let payload = drop YAP_V2_FILE_HEADER_BYTES content in
               if hdr_file_type header \<noteq> YAP_V2_FILE_METADATA \<or>
                  (expected_generation \<noteq> 0 \<and> hdr_generation header \<noteq> expected_generation) \<or>
                  unat (hdr_payload_bytes header) \<noteq> length content - YAP_V2_FILE_HEADER_BYTES
                 then Inl YAP_V2_INVALID_FORMAT
               else if \<not> mem (length payload) \<and> payload \<noteq> [] then Inl YAP_V2_ALLOCATION_FAILED
               else if (payload \<noteq> [] \<and> \<not> io (Io_fread_at YAP_V2_FILE_HEADER_BYTES)) \<or>
                       crc32c_branch payload \<noteq> hdr_payload_crc32c header
                 then Inl YAP_V2_CHECKSUM_MISMATCH
               else rbind (read_metadata_payload mem config payload) (\<lambda>index.
                 if \<not> want then Inr (index, None)
                 else case back content of (chunks, read_ok, close_ok) \<Rightarrow>
                   (case YAP_V2_file_sha256 chunks read_ok close_ok of
                      Inl _ \<Rightarrow> Inl YAP_V2_IO_ERROR
                    | Inr (checksum, file_bytes) \<Rightarrow>
                        Inr (index, Some \<lparr>cmp_name = ascii ''metadata.yap2'',
                          cmp_file_type = YAP_V2_FILE_METADATA,
                          cmp_record_count = word_of_nat (length (mdx_entries index)),
                          cmp_file_bytes = file_bytes, cmp_checksum = checksum\<rparr>)))))"

fun find_field :: "bytes list \<Rightarrow> bytes \<Rightarrow> nat \<Rightarrow> nat option" where
  "find_field [] field i = None"
| "find_field (name # names) field i =
     (if strcmp name (c_string field) = 0 then Some i else find_field names field (Suc i))"

definition YAP_V2_metadata_field_ordinal :: "YAP_V2_METADATA_INDEX \<Rightarrow> bytes \<Rightarrow> u32 outcome" where
  "YAP_V2_metadata_field_ordinal index field =
     (case find_field (mdx_fields index) field 0 of
        Some i \<Rightarrow> Inr (word_of_nat i) | None \<Rightarrow> Inl YAP_V2_INVALID_FORMAT)"

subsection \<open>The entries of a segment\<close>

text \<open>What the metadata of a segment should hold: for every document and field the scalars found there.\<close>

definition value_items :: "'r json \<Rightarrow> 'r json list" where
  "value_items v = (case v of Json_arr items \<Rightarrow> items | _ \<Rightarrow> [v])"

definition item_entries :: "('r \<Rightarrow> bytes) \<Rightarrow> u32 \<Rightarrow> u64 \<Rightarrow> 'r json \<Rightarrow> YAP_V2_METADATA_ENTRY list" where
  "item_entries print_real field document item =
     (case scalar_text print_real item of
        Inr (Some (ty, tx)) \<Rightarrow> [\<lparr>mde_field_ordinal = field, mde_document_ordinal = document,
          mde_type = ty, mde_value = tx\<rparr>]
      | _ \<Rightarrow> [])"

definition field_entries ::
  "('r \<Rightarrow> bytes) \<Rightarrow> u64 \<Rightarrow> 'r json \<Rightarrow> nat \<Rightarrow> bytes \<Rightarrow> YAP_V2_METADATA_ENTRY list" where
  "field_entries print_real document root field row =
     (case path_value root (c_string row) of
        None \<Rightarrow> []
      | Some v \<Rightarrow> concat (map (item_entries print_real (word_of_nat field) document) (value_items v)))"

definition document_entries ::
  "('r \<Rightarrow> bytes) \<Rightarrow> bytes list \<Rightarrow> nat \<Rightarrow> 'r json \<Rightarrow> YAP_V2_METADATA_ENTRY list" where
  "document_entries print_real rows i root =
     concat (map (\<lambda>(f, row). field_entries print_real (word_of_nat i) root f row) (enumerate 0 rows))"

definition metadata_entries ::
  "('r \<Rightarrow> bytes) \<Rightarrow> bytes list \<Rightarrow> 'r json list \<Rightarrow> YAP_V2_METADATA_ENTRY list" where
  "metadata_entries print_real rows roots =
     concat (map (\<lambda>(i, root). document_entries print_real rows i root) (enumerate 0 roots))"

definition enc_entry :: "YAP_V2_METADATA_ENTRY \<Rightarrow> bytes" where
  "enc_entry e = put_u32_le (mde_field_ordinal e) @ put_u64_le (mde_document_ordinal e) @
     put_u32_le (mde_type e) @ put_u32_le (word_of_nat (length (mde_value e))) @ mde_value e"

abbreviation enc_entries :: "YAP_V2_METADATA_ENTRY list \<Rightarrow> bytes" where
  "enc_entries es \<equiv> concat (map enc_entry es)"

subsection \<open>What the writer appends\<close>

definition adds :: "YAP_V2_BUFFER \<times> u64 \<Rightarrow> YAP_V2_METADATA_ENTRY list \<Rightarrow> YAP_V2_BUFFER \<times> u64 \<Rightarrow> bool" where
  "adds st es st' \<longleftrightarrow> (buffer_inv (fst st) \<longrightarrow> buffer_inv (fst st') \<and>
     buf_data (fst st') = buf_data (fst st) @ enc_entries es \<and> snd st' = snd st + word_of_nat (length es) \<and>
     (\<forall>e\<in>set es. length (mde_value e) \<le> UINT32_MAX))"

lemma adds_Nil: "adds st [] st"
  by (simp add: adds_def)

lemma adds_append: "adds st es st1 \<Longrightarrow> adds st1 fs st2 \<Longrightarrow> adds st (es @ fs) st2"
  by (auto simp: adds_def)

lemma append_scalar_adds:
  assumes "append_scalar mem print_real field document item st = Inr st'"
  shows "adds st (item_entries print_real field document item) st'"
proof -
  obtain p r p' r' where st: "st = (p, r)" "st' = (p', r')" by (cases st; cases st')
  obtain scalar where s: "scalar_text print_real item = Inr scalar"
    using assms by (auto simp: append_scalar_def st result_simps)
  show ?thesis
  proof (cases scalar)
    case None
    with assms s show ?thesis by (simp add: append_scalar_def st item_entries_def adds_def)
  next
    case (Some tt)
    obtain ty tx where tt: "tt = (ty, tx)" by (cases tt)
    define f where "f = (\<lambda>payload. rbind (cmp_append_u32 mem payload field) (\<lambda>payload.
                  rbind (cmp_append_u64 mem payload document) (\<lambda>payload.
                  rbind (cmp_append_u32 mem payload ty) (\<lambda>payload.
                  rbind (cmp_append_u32 mem payload (word_of_nat (length tx))) (\<lambda>payload.
                  cmp_append mem payload tx)))))"
    have "appends f (put_u32_le field @ put_u64_le document @ put_u32_le ty @
        put_u32_le (word_of_nat (length tx)) @ tx)"
      unfolding f_def by (intro appends_intros)
    moreover have "f p = Inr p'" "r' = r + 1" "length tx \<le> UINT32_MAX"
      using assms s Some tt by (auto simp: append_scalar_def st f_def result_simps split: if_splits)
    ultimately show ?thesis
      using s Some tt by (auto simp: adds_def st item_entries_def enc_entry_def dest: appendsD)
  qed
qed

lemma append_scalars_adds:
  "append_scalars mem print_real field document items st = Inr st' \<Longrightarrow>
     adds st (concat (map (item_entries print_real field document) items)) st'"
  by (induction items arbitrary: st)
     (auto simp: result_simps adds_Nil intro: adds_append append_scalar_adds)

lemma append_value_adds:
  "append_value mem print_real field document v st = Inr st' \<Longrightarrow>
     adds st (concat (map (item_entries print_real field document) (value_items v))) st'"
  by (cases v) (auto simp: append_value_def value_items_def dest: append_scalar_adds append_scalars_adds)

lemma append_fields_adds:
  "append_fields mem print_real document root k rows st = Inr st' \<Longrightarrow>
     adds st (concat (map (\<lambda>(f, row). field_entries print_real document root f row) (enumerate k rows))) st'"
proof (induction rows arbitrary: k st)
  case Nil
  then show ?case by (simp add: adds_Nil)
next
  case (Cons row rows)
  then obtain st1 where 1: "(case path_value root (c_string row) of None \<Rightarrow> Inr st
      | Some value \<Rightarrow> append_value mem print_real (word_of_nat k) document value st) = Inr st1"
    and 2: "append_fields mem print_real document root (Suc k) rows st1 = Inr st'"
    by (auto simp: result_simps)
  have "adds st (field_entries print_real document root k row) st1"
    using 1 by (auto simp: field_entries_def adds_Nil dest: append_value_adds split: option.splits)
  from adds_append[OF this Cons.IH[OF 2]] show ?case by simp
qed

lemma append_documents_adds:
  "append_documents mem print_real rows k docs st = Inr st' \<Longrightarrow>
     (\<forall>(d, root)\<in>set docs. YAP_V2_document_validate (Some d) = YAP_V2_OK \<and> (\<exists>v. root = Some v \<and> json_is_obj v)) \<and>
     adds st (concat (map (\<lambda>(i, root). document_entries print_real rows i root)
       (enumerate k (map (\<lambda>(d, root). the root) docs)))) st'"
proof (induction docs arbitrary: k st)
  case Nil
  then show ?case by (simp add: adds_Nil)
next
  case (Cons dr docs)
  obtain d root where dr: "dr = (d, root)" by (cases dr)
  with Cons.prems obtain v st1 where v: "root = Some v" "json_is_obj v"
    "YAP_V2_document_validate (Some d) = YAP_V2_OK"
    and 1: "append_fields mem print_real (word_of_nat k) v 0 rows st = Inr st1"
    and 2: "append_documents mem print_real rows (Suc k) docs st1 = Inr st'"
    by (auto simp: result_simps simp del: YAP_V2_document_validate.simps split: if_splits option.splits)
  have "adds st (document_entries print_real rows k v) st1"
    unfolding document_entries_def by (rule append_fields_adds[OF 1])
  with Cons.IH[OF 2] v show ?case
    by (auto simp: dr simp del: YAP_V2_document_validate.simps intro: adds_append)
qed

definition enc_names :: "bytes list \<Rightarrow> bytes" where
  "enc_names rows = concat (map (\<lambda>r. put_u32_le (word_of_nat (length (c_string r))) @ c_string r) rows)"

lemma append_field_names_appends: "appends (append_field_names mem rows) (enc_names rows)"
proof (induction rows)
  case Nil
  show ?case by (auto simp: enc_names_def appends_def)
next
  case (Cons row rows)
  have "appends (\<lambda>b. rbind (cmp_append_u32 mem b (word_of_nat (length (c_string row)))) (\<lambda>payload.
     rbind (cmp_append mem payload (c_string row)) (append_field_names mem rows)))
     (put_u32_le (word_of_nat (length (c_string row))) @ c_string row @ enc_names rows)"
    by (intro appends_intros Cons)
  then show ?case by (simp add: enc_names_def)
qed

definition metadata_image :: "bytes list \<Rightarrow> nat \<Rightarrow> YAP_V2_METADATA_ENTRY list \<Rightarrow> bytes" where
  "metadata_image rows n es = put_u32_le 1 @ put_u32_le (word_of_nat (length rows)) @
     put_u64_le (word_of_nat n) @ put_u64_le (word_of_nat (length es)) @ enc_names rows @ enc_entries es"

lemma metadata_payload_Inr:
  assumes "metadata_payload mem print_real config docs = Inr (payload, records)"
  defines "rows \<equiv> cfg_filterable_fields config"
  defines "es \<equiv> metadata_entries print_real rows (map (\<lambda>(d, root). the root) docs)"
  shows "payload = metadata_image rows (length docs) es \<and> records = word_of_nat (length es) \<and>
    length payload \<le> YAP_V2_MAX_SEGMENT_PAYLOAD_BYTES \<and> (\<forall>e\<in>set es. length (mde_value e) \<le> UINT32_MAX)"
proof -
  define head where "head = (\<lambda>b. rbind (cmp_append_u32 mem b 1) (\<lambda>payload.
            rbind (cmp_append_u32 mem payload (word_of_nat (length rows))) (\<lambda>payload.
            rbind (cmp_append_u64 mem payload (word_of_nat (length docs))) (\<lambda>payload.
            rbind (cmp_append_u64 mem payload 0) (append_field_names mem rows)))))"
  have ap: "appends head (put_u32_le 1 @ put_u32_le (word_of_nat (length rows)) @
     put_u64_le (word_of_nat (length docs)) @ put_u64_le 0 @ enc_names rows)"
    unfolding head_def by (intro appends_intros append_field_names_appends)
  obtain b b' where b: "head buffer_empty = Inr b"
    and d: "append_documents mem print_real rows 0 docs (b, 0) = Inr (b', records)"
    and p: "payload = buf_data (cmp_patch_u64 16 records b')"
    using assms(1) unfolding metadata_payload_def head_def rows_def by (auto simp: result_simps)
  have e: "buffer_inv buffer_empty" by (simp add: buffer_inv_def buffer_empty_def)
  have b1: "buffer_inv b" "buf_data b = put_u32_le 1 @ put_u32_le (word_of_nat (length rows)) @
     put_u64_le (word_of_nat (length docs)) @ put_u64_le 0 @ enc_names rows"
    using appendsD[OF ap b e] by (auto simp: buffer_empty_def)
  have b2: "buffer_inv b'" "buf_data b' = buf_data b @ enc_entries es" "records = word_of_nat (length es)"
    "\<forall>e\<in>set es. length (mde_value e) \<le> UINT32_MAX"
    using append_documents_adds[OF d] b1(1) by (auto simp: adds_def es_def metadata_entries_def)
  have pl: "payload = metadata_image rows (length docs) es"
    unfolding p metadata_image_def b2(3)[symmetric]
    using cmp_patch_u64_data[of "put_u32_le 1 @ put_u32_le (word_of_nat (length rows)) @
     put_u64_le (word_of_nat (length docs))" 16 "put_u64_le 0" b' "enc_names rows @ enc_entries es" records]
    by (simp add: b1(2) b2(2))
  have "length payload = length (buf_data b')"
    unfolding pl by (simp add: metadata_image_def b1(2) b2(2))
  then have "length payload \<le> YAP_V2_MAX_SEGMENT_PAYLOAD_BYTES"
    using b2(1) by (simp add: buffer_inv_def)
  with pl b2 show ?thesis by blast
qed

subsection \<open>Reading the payload back\<close>

lemma read_field_names_image:
  "occurs_at d off (enc_names rows) \<Longrightarrow> \<forall>r\<in>set rows. length (c_string r) \<le> 127 \<Longrightarrow>
   read_field_names d rows off = Inr (map c_string rows, off + length (enc_names rows))"
proof (induction rows arbitrary: off)
  case Nil
  then show ?case by (simp add: enc_names_def)
next
  case (Cons row rows)
  let ?f = "c_string row"
  have o: "occurs_at d off (put_u32_le (word_of_nat (length ?f)))" "occurs_at d (off + 4) ?f"
    "occurs_at d (off + 4 + length ?f) (enc_names rows)"
    using Cons.prems(1) by (simp_all add: enc_names_def at_simps)
  have l: "unat (get_u32 (drop off d)) = length ?f"
    using Cons.prems(2) unfolding get_u32_at[OF o(1)] by (subst unat_small32) auto
  have tk: "take (length ?f) (drop (off + 4) d) = ?f" by (rule occurs_at_take[OF o(2)])
  have bd: "off + 4 + length ?f \<le> length d" using occurs_at_bound[OF o(2)] by simp
  have ih: "read_field_names d rows (off + 4 + length ?f) =
      Inr (map c_string rows, off + 4 + length ?f + length (enc_names rows))"
    using Cons.prems(2) by (intro Cons.IH o(3)) simp
  have len: "length (enc_names (row # rows)) = 4 + length ?f + length (enc_names rows)"
    by (simp add: enc_names_def)
  show ?case
    using Cons.prems(2) bd ih tk unfolding read_field_names.simps Let_def l len
    by (simp add: config_limits add.assoc) linarith
qed

definition entry_fits :: "nat \<Rightarrow> u64 \<Rightarrow> YAP_V2_METADATA_ENTRY \<Rightarrow> bool" where
  "entry_fits fc dc e \<longleftrightarrow> unat (mde_field_ordinal e) < fc \<and> mde_document_ordinal e < dc \<and>
     YAP_V2_METADATA_NULL \<le> mde_type e \<and> mde_type e \<le> YAP_V2_METADATA_STRING \<and>
     length (mde_value e) \<le> UINT32_MAX"

lemma length_enc_entry [simp]: "length (enc_entry e) = 20 + length (mde_value e)"
  by (simp add: enc_entry_def)

lemma read_entries_image:
  "occurs_at d off (enc_entries es) \<Longrightarrow> \<forall>e\<in>set es. entry_fits fc dc e \<Longrightarrow>
   read_entries d fc dc (length es) off = Inr (es, off + length (enc_entries es))"
proof (induction es arbitrary: off)
  case Nil
  then show ?case by simp
next
  case (Cons e es)
  have o: "occurs_at d off (put_u32_le (mde_field_ordinal e))"
    "occurs_at d (off + 4) (put_u64_le (mde_document_ordinal e))"
    "occurs_at d (off + 12) (put_u32_le (mde_type e))"
    "occurs_at d (off + 16) (put_u32_le (word_of_nat (length (mde_value e))))"
    "occurs_at d (off + 20) (mde_value e)"
    "occurs_at d (off + 20 + length (mde_value e)) (enc_entries es)"
  proof -
    have "occurs_at d off (enc_entry e)" and es: "occurs_at d (off + 20 + length (mde_value e)) (enc_entries es)"
      using Cons.prems(1) by (simp_all add: at_simps add.assoc)
    then show "occurs_at d off (put_u32_le (mde_field_ordinal e))"
      "occurs_at d (off + 4) (put_u64_le (mde_document_ordinal e))"
      "occurs_at d (off + 12) (put_u32_le (mde_type e))"
      "occurs_at d (off + 16) (put_u32_le (word_of_nat (length (mde_value e))))"
      "occurs_at d (off + 20) (mde_value e)"
      by (simp_all add: enc_entry_def at_simps add.assoc)
    show "occurs_at d (off + 20 + length (mde_value e)) (enc_entries es)" by (rule es)
  qed
  have e: "entry_fits fc dc e" using Cons.prems(2) by simp
  have g: "get_u32 (drop off d) = mde_field_ordinal e" "get_u64 (drop (off + 4) d) = mde_document_ordinal e"
    "get_u32 (drop (off + 12) d) = mde_type e"
    by (rule get_u32_at[OF o(1)] get_u64_at[OF o(2)] get_u32_at[OF o(3)])+
  have l: "unat (get_u32 (drop (off + 16) d)) = length (mde_value e)"
    using e unfolding get_u32_at[OF o(4)] entry_fits_def by (subst unat_small32) auto
  have tk: "take (length (mde_value e)) (drop (off + 20) d) = mde_value e" by (rule occurs_at_take[OF o(5)])
  have bd: "off + 20 + length (mde_value e) \<le> length d" using occurs_at_bound[OF o(5)] by simp
  have ih: "read_entries d fc dc (length es) (off + 20 + length (mde_value e)) =
      Inr (es, off + 20 + length (mde_value e) + length (enc_entries es))"
    using Cons.prems(2) by (intro Cons.IH o(6)) simp
  have c: "\<not> fc \<le> unat (mde_field_ordinal e)" "\<not> dc \<le> mde_document_ordinal e"
    "\<not> mde_type e < YAP_V2_METADATA_NULL" "\<not> YAP_V2_METADATA_STRING < mde_type e"
    "\<not> length d - (off + 20) < length (mde_value e)" "\<not> length d - off < 20" "\<not> length d < off"
    "\<not> length d < off + 20"
    using e bd by (simp_all add: entry_fits_def not_le not_less)
  show ?case
    using c ih tk by (simp add: Let_def l g add.assoc)
qed

lemma read_metadata_payload_image:
  assumes rows: "\<forall>r\<in>set (cfg_filterable_fields config). length (c_string r) \<le> 127"
    "length (cfg_filterable_fields config) \<le> 64"
    and es: "\<forall>e\<in>set es. entry_fits (length (cfg_filterable_fields config)) (word_of_nat n) e"
    and len: "length (metadata_image (cfg_filterable_fields config) n es) \<le> YAP_V2_MAX_SEGMENT_PAYLOAD_BYTES"
  shows "read_metadata_payload (\<lambda>_. True) config (metadata_image (cfg_filterable_fields config) n es) =
    Inr \<lparr>mdx_fields = map c_string (cfg_filterable_fields config), mdx_document_count = word_of_nat n,
         mdx_entries = es\<rparr>"
proof -
  let ?rows = "cfg_filterable_fields config" and ?d = "metadata_image (cfg_filterable_fields config) n es"
  have o: "occurs_at ?d 0 (put_u32_le 1)" "occurs_at ?d 4 (put_u32_le (word_of_nat (length ?rows)))"
    "occurs_at ?d 8 (put_u64_le (word_of_nat n))" "occurs_at ?d 16 (put_u64_le (word_of_nat (length es)))"
    "occurs_at ?d 24 (enc_names ?rows)" "occurs_at ?d (24 + length (enc_names ?rows)) (enc_entries es)"
    using occurs_at_whole[of ?d] unfolding metadata_image_def by (simp_all add: at_simps)
  have "20 * length es \<le> length (enc_entries es)" by (induction es) auto
  then have small: "length es < 2 ^ 28"
    using len by (simp add: metadata_image_def storage_limits)
  have g: "get_u32 ?d = 1" "unat (get_u32 (drop 4 ?d)) = length ?rows" "get_u64 (drop 8 ?d) = word_of_nat n"
    "unat (get_u64 (drop 16 ?d)) = length es"
    using get_u32_at[OF o(1)] get_u32_at[OF o(2)] get_u64_at[OF o(3)] get_u64_at[OF o(4)] rows(2) small
    by (simp_all add: unat_small32 unat_small64)
  have e: "length ?d = 24 + length (enc_names ?rows) + length (enc_entries es)"
    by (simp add: metadata_image_def)
  show ?thesis
    unfolding read_metadata_payload_def Let_def g read_field_names_image[OF o(5) rows(1)]
    using small read_entries_image[OF o(6) es]
    by (simp add: e metadata_entry_bytes_def)
qed

text \<open>The entries of a segment fit its file.\<close>

lemma scalar_text_type:
  "scalar_text print_real item = Inr (Some (ty, tx)) \<Longrightarrow>
     YAP_V2_METADATA_NULL \<le> ty \<and> ty \<le> YAP_V2_METADATA_STRING"
  by (cases item) (auto simp: scalar_text_def metadata_types split: if_splits)

lemma field_entries_members:
  assumes "e \<in> set (field_entries print_real document root k row)"
  shows "mde_field_ordinal e = word_of_nat k \<and> mde_document_ordinal e = document \<and>
    YAP_V2_METADATA_NULL \<le> mde_type e \<and> mde_type e \<le> YAP_V2_METADATA_STRING"
  using assms
  by (auto simp: field_entries_def item_entries_def split: option.splits sum.splits dest: scalar_text_type scalar_text_type[OF sym])

lemma metadata_entries_fit:
  assumes "e \<in> set (metadata_entries print_real rows roots)" "length rows \<le> 64" "length roots < 2 ^ 64"
    and "length (mde_value e) \<le> UINT32_MAX"
  shows "entry_fits (length rows) (word_of_nat (length roots)) e"
proof -
  obtain i k where i: "i < length roots" "k < length rows"
    and "e \<in> set (field_entries print_real (word_of_nat i) (roots ! i) k (rows ! k))"
    using assms(1) by (auto simp: metadata_entries_def document_entries_def in_set_enumerate_eq)
  note m = field_entries_members[OF this(3)]
  have "unat (word_of_nat k :: u32) = k" using i(2) assms(2) by (intro unat_small32) simp
  moreover have "(word_of_nat i :: u64) < word_of_nat (length roots)"
    using i(1) assms(3) by (simp add: word_less_nat_alt unat_small64)
  ultimately show ?thesis using m assms(4) i(2) by (simp add: entry_fits_def)
qed

subsection \<open>Writing and reading the file\<close>

lemma metadata_write_atomic_Inr:
  assumes "metadata_write_atomic io short back path g payload records = (Inr component, ops)"
  obtains hb where "component_header YAP_V2_FILE_METADATA g payload = Inr hb"
    "run_ops ops fs path = Some (hb @ payload)"
    "\<And>q. q \<noteq> path \<Longrightarrow> q \<noteq> temporary_path path \<Longrightarrow> run_ops ops fs q = fs q"
proof -
  obtain hb where hb: "component_header YAP_V2_FILE_METADATA g payload = Inr hb"
    and m: "metadata_replace io short path (hb @ payload) = (YAP_V2_OK, ops)"
    using assms by (auto simp: metadata_write_atomic_def split: sum.split_asm prod.split_asm if_splits)
  show thesis
    using that[OF hb metadata_file.ok_new[OF m]] metadata_file.other_paths[OF m] by blast
qed

lemma metadata_write_preparsed_Inr:
  assumes w: "YAP_V2_metadata_write_preparsed mem print_real io short back path g config docs = (Inr component, ops)"
  shows "\<exists>payload records. config_ok config \<and> length docs \<le> YAP_V2_MAX_SEGMENT_DOCUMENTS \<and>
    metadata_payload mem print_real config docs = Inr (payload, records) \<and>
    metadata_write_atomic io short back path g payload records = (Inr component, ops)"
  using assms
  by (auto simp: YAP_V2_metadata_write_preparsed_def config_validate_ok split: if_splits sum.split_asm prod.split_asm)

lemma metadata_read_written:
  assumes w: "YAP_V2_metadata_write_preparsed mem print_real io short back path g config docs = (Inr component, ops)"
    and eg: "eg = 0 \<or> eg = g"
  shows "YAP_V2_metadata_read (\<lambda>_. True) (\<lambda>_. True) back' (run_ops ops fs) path eg config False =
    Inr (\<lparr>mdx_fields = map c_string (cfg_filterable_fields config),
          mdx_document_count = word_of_nat (length docs),
          mdx_entries = metadata_entries print_real (cfg_filterable_fields config)
            (map (\<lambda>(d, root). the root) docs)\<rparr>, None)"
proof -
  let ?rows = "cfg_filterable_fields config"
  let ?es = "metadata_entries print_real ?rows (map (\<lambda>(d, root). the root) docs)"
  obtain payload records where c: "config_ok config" "length docs \<le> YAP_V2_MAX_SEGMENT_DOCUMENTS"
    and p: "metadata_payload mem print_real config docs = Inr (payload, records)"
    and a: "metadata_write_atomic io short back path g payload records = (Inr component, ops)"
    using metadata_write_preparsed_Inr[OF w] by blast
  note pl = metadata_payload_Inr[OF p]
  obtain hb where hb: "component_header YAP_V2_FILE_METADATA g payload = Inr hb"
    and cnt: "run_ops ops fs path = Some (hb @ payload)"
    by (rule metadata_write_atomic_Inr[OF a, of fs]) blast
  note dec = component_header_decode[OF hb]
  have rows: "\<forall>r\<in>set ?rows. length (c_string r) \<le> 127" "length ?rows \<le> 64"
    using c(1) by (auto simp: config_ok_def field_name_ok_def)
  have fit: "\<forall>e\<in>set ?es. entry_fits (length ?rows) (word_of_nat (length docs)) e"
    using metadata_entries_fit[of _ print_real ?rows "map (\<lambda>(d, root). the root) docs"] pl rows(2) c(2)
    by (simp add: storage_limits)
  have "length (metadata_image ?rows (length docs) ?es) \<le> YAP_V2_MAX_SEGMENT_PAYLOAD_BYTES"
    using pl by auto
  from read_metadata_payload_image[OF rows fit this] pl have rd: "read_metadata_payload (\<lambda>_. True) config payload =
    Inr \<lparr>mdx_fields = map c_string ?rows, mdx_document_count = word_of_nat (length docs), mdx_entries = ?es\<rparr>"
    by simp
  have "length payload \<le> YAP_V2_MAX_SEGMENT_PAYLOAD_BYTES" using pl by blast
  then have "length payload < 2 ^ 64" by (simp add: storage_limits)
  with rd eg dec c(1) show ?thesis
    by (auto simp: YAP_V2_metadata_read_def cnt config_validate_ok Let_def unat_small64)
qed

lemma metadata_read_granted:
  assumes "YAP_V2_metadata_read mem io back fs path eg config want = Inr (index, d)"
  shows "YAP_V2_metadata_read (\<lambda>_. True) (\<lambda>_. True) back' fs path eg config False = Inr (index, None)"
proof -
  have p: "read_metadata_payload (\<lambda>_. True) config payload = Inr i"
    if "read_metadata_payload mem config payload = Inr i" for payload i
    using that by (auto simp: read_metadata_payload_def Let_def result_simps split: if_splits)
  obtain content header where c: "YAP_V2_config_validate (Some config) = YAP_V2_OK" "fs path = Some content"
    "\<not> length content < YAP_V2_FILE_HEADER_BYTES" and h: "YAP_V2_file_header_decode content = Inr header"
    "\<not> (hdr_file_type header \<noteq> YAP_V2_FILE_METADATA \<or>
        (eg \<noteq> 0 \<and> hdr_generation header \<noteq> eg) \<or>
        unat (hdr_payload_bytes header) \<noteq> length content - YAP_V2_FILE_HEADER_BYTES)"
    "crc32c_branch (drop YAP_V2_FILE_HEADER_BYTES content) = hdr_payload_crc32c header"
    and r: "read_metadata_payload mem config (drop YAP_V2_FILE_HEADER_BYTES content) = Inr index"
    using assms unfolding YAP_V2_metadata_read_def Let_def
    by (auto simp: result_simps split: if_splits option.split_asm sum.split_asm prod.split_asm)
  show ?thesis
    using c h p[OF r] by (simp add: YAP_V2_metadata_read_def Let_def)
qed

subsection \<open>When the writer succeeds\<close>

definition room :: "YAP_V2_BUFFER \<times> u64 \<Rightarrow> YAP_V2_METADATA_ENTRY list \<Rightarrow> bool" where
  "room st es \<longleftrightarrow> buffer_inv (fst st) \<and>
     length (buf_data (fst st)) + length (enc_entries es) \<le> YAP_V2_MAX_SEGMENT_PAYLOAD_BYTES"

definition fitting_item :: "('r \<Rightarrow> bytes) \<Rightarrow> 'r json \<Rightarrow> bool" where
  "fitting_item print_real item \<longleftrightarrow>
     (case scalar_text print_real item of Inl _ \<Rightarrow> False | Inr None \<Rightarrow> True
      | Inr (Some (ty, tx)) \<Rightarrow> length tx \<le> UINT32_MAX)"

definition fitting_fields :: "('r \<Rightarrow> bytes) \<Rightarrow> bytes list \<Rightarrow> 'r json \<Rightarrow> bool" where
  "fitting_fields print_real rows root \<longleftrightarrow>
     (\<forall>row\<in>set rows. \<forall>v. path_value root (c_string row) = Some v \<longrightarrow>
        (\<forall>item\<in>set (value_items v). fitting_item print_real item))"

lemma room_step: "adds st es st' \<Longrightarrow> room st (es @ fs) \<Longrightarrow> room st' fs"
  by (auto simp: adds_def room_def)

lemma room_left: "room st (es @ fs) \<Longrightarrow> room st es"
  by (simp add: room_def)

lemma append_scalar_total:
  assumes "room st (item_entries print_real field document item)" "fitting_item print_real item"
  shows "\<exists>st'. append_scalar (\<lambda>_. True) print_real field document item st = Inr st'"
proof -
  obtain p r where st: "st = (p, r)" by (cases st)
  show ?thesis
  proof (cases "scalar_text print_real item")
    case (Inr scalar)
    show ?thesis
    proof (cases scalar)
      case None
      with Inr show ?thesis by (simp add: append_scalar_def st)
    next
      case (Some tt)
      obtain ty tx where tt: "tt = (ty, tx)" by (cases tt)
      define f where "f = (\<lambda>payload. rbind (cmp_append_u32 (\<lambda>_. True) payload field) (\<lambda>payload.
                  rbind (cmp_append_u64 (\<lambda>_. True) payload document) (\<lambda>payload.
                  rbind (cmp_append_u32 (\<lambda>_. True) payload ty) (\<lambda>payload.
                  rbind (cmp_append_u32 (\<lambda>_. True) payload (word_of_nat (length tx))) (\<lambda>payload.
                  cmp_append (\<lambda>_. True) payload tx)))))"
      have "accepts f (put_u32_le field @ put_u64_le document @ put_u32_le ty @
          put_u32_le (word_of_nat (length tx)) @ tx)"
        unfolding f_def by (intro accepts_intros)
      then obtain b' where "f p = Inr b'"
        using assms(1) Inr Some tt by (auto simp: room_def st item_entries_def enc_entry_def dest: acceptsD)
      with assms(2) Inr Some tt show ?thesis
        unfolding f_def by (intro exI[of _ "(b', r + 1)"]) (simp add: append_scalar_def st fitting_item_def)
    qed
  qed (use assms(2) in \<open>simp add: fitting_item_def\<close>)
qed

lemma append_scalars_total:
  "room st (concat (map (item_entries print_real field document) items)) \<Longrightarrow>
   \<forall>item\<in>set items. fitting_item print_real item \<Longrightarrow>
   \<exists>st'. append_scalars (\<lambda>_. True) print_real field document items st = Inr st'"
proof (induction items arbitrary: st)
  case (Cons item items)
  then obtain st1 where s: "append_scalar (\<lambda>_. True) print_real field document item st = Inr st1"
    using append_scalar_total[of st print_real field document item]
      room_left[of st "item_entries print_real field document item"] by auto
  from Cons.IH[of st1] Cons.prems room_step[OF append_scalar_adds[OF s]] s show ?case by simp
qed simp

lemma append_value_total:
  "room st (concat (map (item_entries print_real field document) (value_items v))) \<Longrightarrow>
   \<forall>item\<in>set (value_items v). fitting_item print_real item \<Longrightarrow>
   \<exists>st'. append_value (\<lambda>_. True) print_real field document v st = Inr st'"
  by (cases v) (simp_all add: append_value_def value_items_def append_scalar_total append_scalars_total
      del: split_paired_Ex)

lemma append_fields_total:
  "room st (concat (map (\<lambda>(f, row). field_entries print_real document root f row) (enumerate k rows))) \<Longrightarrow>
   fitting_fields print_real rows root \<Longrightarrow>
   \<exists>st'. append_fields (\<lambda>_. True) print_real document root k rows st = Inr st'"
proof (induction rows arbitrary: k st)
  case (Cons row rows)
  have r: "room st (field_entries print_real document root k row)"
    using Cons.prems(1) room_left[of st "field_entries print_real document root k row"] by simp
  obtain st1 where s: "append_fields (\<lambda>_. True) print_real document root k [row] st = Inr st1"
    using r append_value_total[of st print_real "word_of_nat k" document] Cons.prems(2)
    by (fastforce simp: field_entries_def fitting_fields_def split: option.splits)
  have "adds st (field_entries print_real document root k row) st1"
    using append_fields_adds[OF s] by simp
  from Cons.IH[of st1 "Suc k"] Cons.prems room_step[OF this] s show ?case
    by (auto simp: fitting_fields_def result_simps)
qed simp

lemma append_documents_total:
  "room st (concat (map (\<lambda>(i, root). document_entries print_real rows i root)
     (enumerate k (map (\<lambda>(d, root). the root) docs)))) \<Longrightarrow>
   \<forall>(d, root)\<in>set docs. YAP_V2_document_validate (Some d) = YAP_V2_OK \<and>
     (\<exists>v. root = Some v \<and> json_is_obj v \<and> fitting_fields print_real rows v) \<Longrightarrow>
   \<exists>st'. append_documents (\<lambda>_. True) print_real rows k docs st = Inr st'"
proof (induction docs arbitrary: k st)
  case (Cons dr docs)
  obtain d v where dr: "dr = (d, Some v)" "json_is_obj v" "fitting_fields print_real rows v"
    "YAP_V2_document_validate (Some d) = YAP_V2_OK" using Cons.prems(2) by (cases dr) auto
  have r: "room st (document_entries print_real rows k v)"
    using Cons.prems(1) room_left[of st "document_entries print_real rows k v"] by (simp add: dr(1))
  obtain st1 where s: "append_fields (\<lambda>_. True) print_real (word_of_nat k) v 0 rows st = Inr st1"
    using append_fields_total[OF r[unfolded document_entries_def] dr(3)] by blast
  from append_fields_adds[OF s] have "adds st (document_entries print_real rows k v) st1"
    by (simp add: document_entries_def)
  from Cons.IH[of st1 "Suc k"] Cons.prems room_step[OF this] s dr show ?case
    by (auto simp del: YAP_V2_document_validate.simps)
qed simp

lemma append_field_names_accepts: "accepts (append_field_names (\<lambda>_. True) rows) (enc_names rows)"
proof (induction rows)
  case Nil
  show ?case by (auto simp: enc_names_def accepts_def appends_def)
next
  case (Cons row rows)
  have "accepts (\<lambda>b. rbind (cmp_append_u32 (\<lambda>_. True) b (word_of_nat (length (c_string row)))) (\<lambda>payload.
     rbind (cmp_append (\<lambda>_. True) payload (c_string row)) (append_field_names (\<lambda>_. True) rows)))
     (put_u32_le (word_of_nat (length (c_string row))) @ c_string row @ enc_names rows)"
    by (intro accepts_intros Cons)
  then show ?case by (simp add: enc_names_def)
qed

lemma metadata_payload_total:
  fixes docs :: "(YAP_V2_DOCUMENT_VIEW \<times> 'r json option) list"
  defines "roots \<equiv> map (\<lambda>(d, root). the root) docs"
  assumes "length (metadata_image (cfg_filterable_fields config) (length docs)
      (metadata_entries print_real (cfg_filterable_fields config) roots)) \<le> YAP_V2_MAX_SEGMENT_PAYLOAD_BYTES"
    and "\<forall>(d, root)\<in>set docs. YAP_V2_document_validate (Some d) = YAP_V2_OK \<and>
      (\<exists>v. root = Some v \<and> json_is_obj v \<and> fitting_fields print_real (cfg_filterable_fields config) v)"
  shows "\<exists>r. metadata_payload (\<lambda>_. True) print_real config docs = Inr r"
proof -
  let ?rows = "cfg_filterable_fields config"
  define head where "head = (\<lambda>b. rbind (cmp_append_u32 (\<lambda>_. True) b 1) (\<lambda>payload.
            rbind (cmp_append_u32 (\<lambda>_. True) payload (word_of_nat (length ?rows))) (\<lambda>payload.
            rbind (cmp_append_u64 (\<lambda>_. True) payload (word_of_nat (length docs))) (\<lambda>payload.
            rbind (cmp_append_u64 (\<lambda>_. True) payload 0) (append_field_names (\<lambda>_. True) ?rows)))))"
  have ac: "accepts head (put_u32_le 1 @ put_u32_le (word_of_nat (length ?rows)) @
     put_u64_le (word_of_nat (length docs)) @ put_u64_le 0 @ enc_names ?rows)"
    unfolding head_def by (intro accepts_intros append_field_names_accepts)
  have e: "buffer_inv buffer_empty" by (simp add: buffer_inv_def buffer_empty_def)
  obtain b where b: "head buffer_empty = Inr b"
    using acceptsD[OF ac e] assms(2) by (auto simp: buffer_empty_def metadata_image_def)
  have b2: "buffer_inv b" "length (buf_data b) = 24 + length (enc_names ?rows)"
    using appendsD[OF accepts_appends[OF ac] b e] by (auto simp: buffer_empty_def)
  have "room (b, 0) (concat (map (\<lambda>(i, root). document_entries print_real ?rows i root) (enumerate 0 roots)))"
    using assms(2) b2 by (simp add: room_def metadata_image_def metadata_entries_def)
  then obtain st where "append_documents (\<lambda>_. True) print_real ?rows 0 docs (b, 0) = Inr st"
    using append_documents_total assms(3) unfolding roots_def by blast
  then show ?thesis
    using b unfolding metadata_payload_def head_def by (cases st) (auto simp: result_simps)
qed

lemma metadata_written:
  assumes "length payload \<le> YAP_V2_MAX_SEGMENT_PAYLOAD_BYTES" "g \<noteq> 0"
  shows "\<exists>component ops. metadata_write_atomic (\<lambda>_. True) short (\<lambda>content. (Some [content], True, True))
    path g payload records = (Inr component, ops)"
proof -
  obtain hb where hb: "component_header YAP_V2_FILE_METADATA g payload = Inr hb"
    using component_header_total[OF assms(2), of YAP_V2_FILE_METADATA] by (auto simp: file_header_type_valid_def file_types)
  have len: "length hb = YAP_V2_FILE_HEADER_BYTES" by (rule component_header_decode[OF hb])
  obtain r where r: "YAP_V2_file_sha256 (Some [hb @ payload]) True True = Inr r"
    using assms len by (simp add: YAP_V2_file_sha256_def storage_limits split: prod.splits)
  have "fst (metadata_replace (\<lambda>_. True) short path (hb @ payload)) = YAP_V2_OK"
    by (simp add: metadata_replace_def replace_file_def Let_def fsync_parent_def)
  then obtain ops where "metadata_replace (\<lambda>_. True) short path (hb @ payload) = (YAP_V2_OK, ops)"
    by (cases "metadata_replace (\<lambda>_. True) short path (hb @ payload)") simp
  with hb r show ?thesis by (simp add: metadata_write_atomic_def split: prod.splits)
qed

lemma parse_roots_Inr:
  "parse_roots json_read documents = Inr pairs \<Longrightarrow>
     \<exists>roots. map (\<lambda>d. json_read (view_bytes (doc_metadata_json d))) documents = map Some roots \<and>
       pairs = zip documents (map Some roots) \<and> (\<forall>root\<in>set roots. json_is_obj root)"
proof (induction documents arbitrary: pairs)
  case Nil
  then show ?case by simp
next
  case (Cons d documents)
  then obtain v rest where v: "json_read (view_bytes (doc_metadata_json d)) = Some v" "json_is_obj v"
    and r: "parse_roots json_read documents = Inr rest" "pairs = (d, Some v) # rest"
    by (auto simp: result_simps split: option.splits if_splits)
  from Cons.IH[OF r(1)] obtain roots where
    "map (\<lambda>d. json_read (view_bytes (doc_metadata_json d))) documents = map Some roots"
    "rest = zip documents (map Some roots)" "\<forall>root\<in>set roots. json_is_obj root" by blast
  with v r(2) show ?case by (intro exI[of _ "v # roots"]) simp
qed

lemma metadata_write_Inr:
  assumes "YAP_V2_metadata_write mem json_read print_real io short back path g config documents = (Inr component, ops)"
  obtains roots where "map (\<lambda>d. json_read (view_bytes (doc_metadata_json d))) documents = map Some roots"
    "\<forall>root\<in>set roots. json_is_obj root" "length roots = length documents"
    "YAP_V2_metadata_write_preparsed mem print_real io short back path g config (zip documents (map Some roots)) =
      (Inr component, ops)"
proof -
  obtain pairs where p: "parse_roots json_read documents = Inr pairs"
    and w: "YAP_V2_metadata_write_preparsed mem print_real io short back path g config pairs = (Inr component, ops)"
    using assms by (auto simp: YAP_V2_metadata_write_def split: if_splits sum.split_asm)
  obtain roots where "map (\<lambda>d. json_read (view_bytes (doc_metadata_json d))) documents = map Some roots"
    "pairs = zip documents (map Some roots)" "\<forall>root\<in>set roots. json_is_obj root"
    using parse_roots_Inr[OF p] by blast
  moreover from this(1) have "length roots = length documents" by (metis length_map)
  ultimately show thesis using w by (intro that) simp_all
qed

lemma zip_roots: "length roots = length documents \<Longrightarrow>
  map (\<lambda>(d, root). the root) (zip documents (map Some roots)) = roots"
  by (induction documents roots rule: list_induct2') auto

lemma metadata_component_count:
  assumes "YAP_V2_metadata_write_preparsed mem print_real io short back path g config docs = (Inr component, ops)"
  shows "cmp_record_count component = word_of_nat (length (metadata_entries print_real
    (cfg_filterable_fields config) (map (\<lambda>(d, root). the root) docs)))"
proof -
  obtain payload records where "metadata_payload mem print_real config docs = Inr (payload, records)"
    "metadata_write_atomic io short back path g payload records = (Inr component, ops)"
    using metadata_write_preparsed_Inr[OF assms] by blast
  moreover from this(2) have "cmp_record_count component = records"
    by (auto simp: metadata_write_atomic_def split: sum.split_asm prod.split_asm if_splits)
  ultimately show ?thesis using metadata_payload_Inr by blast
qed

text \<open>
  C17. Writing and reading document metadata. When \<open>YAP_V2_metadata_write\<close> reports success, the metadata
  of every document has been parsed as a JSON object, the file can be read again (with the expected
  generation or without one), and the index that is read holds exactly the scalars the documents have
  under the configured filterable fields, in the order of documents, fields and array elements; the
  component descriptor counts them.
\<close>

theorem metadata_write_read:
  assumes "YAP_V2_metadata_write mem json_read print_real io short back path g config documents = (Inr component, ops)"
    and "eg = 0 \<or> eg = g"
  shows "\<exists>roots. map (\<lambda>d. json_read (view_bytes (doc_metadata_json d))) documents = map Some roots \<and>
    (\<forall>root\<in>set roots. json_is_obj root) \<and>
    YAP_V2_metadata_read (\<lambda>_. True) (\<lambda>_. True) back' (run_ops ops fs) path eg config False =
      Inr (\<lparr>mdx_fields = map c_string (cfg_filterable_fields config),
            mdx_document_count = word_of_nat (length documents),
            mdx_entries = metadata_entries print_real (cfg_filterable_fields config) roots\<rparr>, None) \<and>
    cmp_record_count component =
      word_of_nat (length (metadata_entries print_real (cfg_filterable_fields config) roots))"
proof -
  obtain roots where r: "map (\<lambda>d. json_read (view_bytes (doc_metadata_json d))) documents = map Some roots"
    "\<forall>root\<in>set roots. json_is_obj root" "length roots = length documents"
    "YAP_V2_metadata_write_preparsed mem print_real io short back path g config (zip documents (map Some roots)) =
      (Inr component, ops)"
    by (rule metadata_write_Inr[OF assms(1)])
  show ?thesis
    using r metadata_read_written[OF r(4) assms(2)] metadata_component_count[OF r(4)] zip_roots[OF r(3)]
    by (intro exI[of _ roots]) simp
qed

definition tag_config :: YAP_V2_CONFIG where
  "tag_config = YAP_V2_config_init\<lparr>cfg_filterable_fields := [ascii ''year'']\<rparr>"

definition tag_document :: YAP_V2_DOCUMENT_VIEW where
  "tag_document = \<lparr>doc_id = View (ascii ''d''), doc_url = View_null 0, doc_title = View_null 0,
     doc_body = View (ascii ''b''), doc_metadata_json = View (ascii ''{}''), doc_updated_at_unix_ms = 0\<rparr>"

definition tag_root :: "int json" where
  "tag_root = Json_obj [(ascii ''year'', Json_arr [Json_uint 7, Json_null])]"

lemma tag_config_ok: "YAP_V2_config_validate (Some tag_config) = YAP_V2_OK"
  unfolding config_validate_ok
  by (simp add: tag_config_def config_ok_def YAP_V2_config_init_def type_limits vector_metrics ascii_def c_string_def
      field_name_ok_def All_less_Suc2 less_Suc_eq)

lemma tag_value: "path_value tag_root (c_string (ascii ''year'')) = Some (Json_arr [Json_uint 7, Json_null])"
  by (simp add: tag_root_def path_value.simps[of "Json_obj _"] c_string_def ascii_def)

lemma tag_entries:
  "metadata_entries decimal_int (cfg_filterable_fields tag_config) [tag_root] =
     [\<lparr>mde_field_ordinal = 0, mde_document_ordinal = 0, mde_type = YAP_V2_METADATA_NUMBER, mde_value = ascii ''7''\<rparr>,
      \<lparr>mde_field_ordinal = 0, mde_document_ordinal = 0, mde_type = YAP_V2_METADATA_NULL, mde_value = []\<rparr>]"
  by (simp add: metadata_entries_def document_entries_def field_entries_def tag_config_def tag_value
      value_items_def item_entries_def scalar_text_def number_text_def decimal.simps)
     (simp add: ascii_def)

lemma tag_fitting: "fitting_fields decimal_int (cfg_filterable_fields tag_config) tag_root"
  by (simp add: fitting_fields_def tag_config_def tag_value value_items_def fitting_item_def scalar_text_def
      number_text_def decimal.simps)

lemma tag_document_valid: "YAP_V2_document_validate (Some tag_document) = YAP_V2_OK"
  by (simp add: tag_document_def YAP_V2_document_validate.simps bytes_view_validate_def type_limits ascii_def)

lemma tag_written:
  "\<exists>component ops. YAP_V2_metadata_write (\<lambda>_. True) (\<lambda>_. Some tag_root) decimal_int (\<lambda>_. True) 0
     (\<lambda>content. (Some [content], True, True)) ''m'' 3 tag_config [tag_document] = (Inr component, ops)"
proof -
  have "\<exists>r. metadata_payload (\<lambda>_. True) decimal_int tag_config [(tag_document, Some tag_root)] = Inr r"
  proof (rule metadata_payload_total)
    have "length (enc_names (cfg_filterable_fields tag_config)) = 8"
      by (simp add: enc_names_def tag_config_def c_string_def ascii_def)
    then show "length (metadata_image (cfg_filterable_fields tag_config) (length [(tag_document, Some tag_root)])
      (metadata_entries decimal_int (cfg_filterable_fields tag_config)
        (map (\<lambda>(d, root). the root) [(tag_document, Some tag_root)]))) \<le> YAP_V2_MAX_SEGMENT_PAYLOAD_BYTES"
      by (simp add: metadata_image_def tag_entries storage_limits ascii_def)
    have "json_is_obj tag_root" by (simp add: tag_root_def)
    then show "\<forall>(d, root)\<in>set [(tag_document, Some tag_root)]. YAP_V2_document_validate (Some d) = YAP_V2_OK \<and>
      (\<exists>v. root = Some v \<and> json_is_obj v \<and> fitting_fields decimal_int (cfg_filterable_fields tag_config) v)"
      using tag_document_valid tag_fitting by (simp del: YAP_V2_document_validate.simps)
  qed
  then obtain payload records where p: "metadata_payload (\<lambda>_. True) decimal_int tag_config [(tag_document, Some tag_root)] =
    Inr (payload, records)" by auto
  have "length payload \<le> YAP_V2_MAX_SEGMENT_PAYLOAD_BYTES" using metadata_payload_Inr[OF p] by blast
  from metadata_written[OF this, of 3 0 "''m''" records] p tag_config_ok show ?thesis
    by (simp add: YAP_V2_metadata_write_def YAP_V2_metadata_write_preparsed_def tag_root_def storage_limits)
qed

theorem metadata_write_read_witness:
  "\<exists>ops. YAP_V2_metadata_read (\<lambda>_. True) (\<lambda>_. True) (\<lambda>_. (None, True, True)) (run_ops ops (\<lambda>_. None)) ''m'' 3
      tag_config False =
    Inr (\<lparr>mdx_fields = [ascii ''year''], mdx_document_count = 1,
      mdx_entries = [\<lparr>mde_field_ordinal = 0, mde_document_ordinal = 0, mde_type = 3, mde_value = ascii ''7''\<rparr>,
        \<lparr>mde_field_ordinal = 0, mde_document_ordinal = 0, mde_type = 1, mde_value = []\<rparr>]\<rparr>, None)"
proof -
  obtain component ops where "YAP_V2_metadata_write (\<lambda>_. True) (\<lambda>_. Some tag_root) decimal_int (\<lambda>_. True) 0
     (\<lambda>content. (Some [content], True, True)) ''m'' 3 tag_config [tag_document] = (Inr component, ops)"
    using tag_written by blast
  from metadata_write_read[OF this, of 3 "\<lambda>_. (None, True, True)" "\<lambda>_. None"] obtain roots where
    r: "map (\<lambda>d. Some tag_root) [tag_document] = map Some roots"
    "YAP_V2_metadata_read (\<lambda>_. True) (\<lambda>_. True) (\<lambda>_. (None, True, True)) (run_ops ops (\<lambda>_. None)) ''m'' 3
      tag_config False = Inr (\<lparr>mdx_fields = map c_string (cfg_filterable_fields tag_config),
            mdx_document_count = word_of_nat (length [tag_document]),
            mdx_entries = metadata_entries decimal_int (cfg_filterable_fields tag_config) roots\<rparr>, None)"
    by blast
  have "roots = [tag_root]" using r(1) by (cases roots) auto
  moreover have "map c_string (cfg_filterable_fields tag_config) = [ascii ''year'']"
    by (simp add: tag_config_def c_string_def ascii_def)
  ultimately show ?thesis using r(2) by (intro exI[of _ ops]) (simp add: tag_entries metadata_types)
qed

end
