(* ===== verification/Filter_V2.thy ===== *)
theory Filter_V2
  imports Metadata_V2 Lexical_V2
begin





subsection \<open>Validation\<close>










subsection \<open>Evaluation\<close>









subsection \<open>The operations\<close>





subsection \<open>What a filter means\<close>








subsection \<open>The entries of one document and field\<close>





subsection \<open>Every stored scalar has a text\<close>








subsection \<open>Leaves\<close>











subsection \<open>Theorem\<close>










end
