(* ===== verification/Vector_Search.thy ===== *)
theory Vector_Search
  imports Config_V2
begin

text \<open>
  Exact vector search, \<open>components/yappo_vector.c\<close>. A \<open>float\<close> is its 32-bit pattern; the arithmetic of
  \<open>double\<close> is the argument \<open>D\<close>, of which only the order of non-NaN values matters to the theorem. A
  pointer that may be \<open>NULL\<close> is an option.
\<close>

record 'a score_ops =
  sc_of_float :: "u32 \<Rightarrow> 'a"
  sc_zero :: 'a
  sc_add :: "'a \<Rightarrow> 'a \<Rightarrow> 'a"
  sc_sub :: "'a \<Rightarrow> 'a \<Rightarrow> 'a"
  sc_mul :: "'a \<Rightarrow> 'a \<Rightarrow> 'a"
  sc_div :: "'a \<Rightarrow> 'a \<Rightarrow> 'a"
  sc_neg :: "'a \<Rightarrow> 'a"
  sc_sqrt :: "'a \<Rightarrow> 'a"
  sc_eq :: "'a \<Rightarrow> 'a \<Rightarrow> bool"
  sc_less :: "'a \<Rightarrow> 'a \<Rightarrow> bool"
  sc_isfinite :: "'a \<Rightarrow> bool"

datatype YAP_VECTOR_STATUS =
    YAP_VECTOR_OK
  | YAP_VECTOR_INVALID_ARGUMENT
  | YAP_VECTOR_DIMENSION_MISMATCH
  | YAP_VECTOR_NON_FINITE
  | YAP_VECTOR_BUFFER_TOO_SMALL
  | YAP_VECTOR_ALLOCATION_FAILED

record YAP_VECTOR_ENTRY =
  ven_id :: YAP_V2_BYTES_VIEW
  ven_values :: "u32 list option"
  ven_dimensions :: nat

record 'a YAP_VECTOR_HIT =
  vht_id :: YAP_V2_BYTES_VIEW
  vht_ordinal :: nat
  vht_score :: 'a

definition sizeof_vector_hit :: nat where "sizeof_vector_hit = 32"

definition YAP_Vector_status_string :: "YAP_VECTOR_STATUS \<Rightarrow> string" where
  "YAP_Vector_status_string status =
     (case status of YAP_VECTOR_OK \<Rightarrow> ''ok'' | YAP_VECTOR_INVALID_ARGUMENT \<Rightarrow> ''invalid argument''
      | YAP_VECTOR_DIMENSION_MISMATCH \<Rightarrow> ''dimension mismatch''
      | YAP_VECTOR_NON_FINITE \<Rightarrow> ''non-finite vector value''
      | YAP_VECTOR_BUFFER_TOO_SMALL \<Rightarrow> ''buffer too small''
      | YAP_VECTOR_ALLOCATION_FAILED \<Rightarrow> ''allocation failed'')"

text \<open>\<open>isfinite\<close> of a \<open>float\<close>: the exponent is not all ones.\<close>

definition float_finite :: "u32 \<Rightarrow> bool" where
  "float_finite bits \<longleftrightarrow> drop_bit 23 bits AND 0xff \<noteq> 0xff"

definition validate_metric :: "u32 \<Rightarrow> bool" where
  "validate_metric metric \<longleftrightarrow> metric \<ge> YAP_V2_VECTOR_COSINE \<and> metric \<le> YAP_V2_VECTOR_L2"

definition validate_values :: "u32 list option \<Rightarrow> nat \<Rightarrow> YAP_VECTOR_STATUS" where
  "validate_values values dimensions =
     (case values of
        None \<Rightarrow> YAP_VECTOR_INVALID_ARGUMENT
      | Some vs \<Rightarrow>
          if dimensions = 0 \<or> dimensions > YAP_V2_MAX_VECTOR_DIMENSIONS then YAP_VECTOR_INVALID_ARGUMENT
          else if list_all float_finite (take dimensions vs) then YAP_VECTOR_OK
          else YAP_VECTOR_NON_FINITE)"

text \<open>The loops that add up the products of components and the squared differences.\<close>

definition dot_sum :: "'a score_ops \<Rightarrow> u32 list \<Rightarrow> u32 list \<Rightarrow> 'a" where
  "dot_sum D xs ys =
     foldl (\<lambda>s (x, y). sc_add D s (sc_mul D (sc_of_float D x) (sc_of_float D y))) (sc_zero D) (zip xs ys)"

definition distance_sum :: "'a score_ops \<Rightarrow> u32 list \<Rightarrow> u32 list \<Rightarrow> 'a" where
  "distance_sum D xs ys =
     foldl (\<lambda>s (x, y).
         (let difference = sc_sub D (sc_of_float D x) (sc_of_float D y) in
          sc_add D s (sc_mul D difference difference))) (sc_zero D) (zip xs ys)"

definition raw_score :: "'a score_ops \<Rightarrow> u32 \<Rightarrow> u32 list \<Rightarrow> u32 list \<Rightarrow> 'a" where
  "raw_score D metric q c =
     (if metric = YAP_V2_VECTOR_DOT then dot_sum D q c
      else if metric = YAP_V2_VECTOR_L2 then sc_neg D (distance_sum D q c)
      else
        (let query_norm = dot_sum D q q; candidate_norm = dot_sum D c c in
         if sc_eq D query_norm (sc_zero D) \<or> sc_eq D candidate_norm (sc_zero D) then sc_zero D
         else sc_div D (dot_sum D q c) (sc_mul D (sc_sqrt D query_norm) (sc_sqrt D candidate_norm))))"

definition YAP_Vector_score ::
  "'a score_ops \<Rightarrow> u32 \<Rightarrow> u32 list option \<Rightarrow> u32 list option \<Rightarrow> nat \<Rightarrow> YAP_VECTOR_STATUS + 'a" where
  "YAP_Vector_score D metric query candidate dimensions =
     (if \<not> validate_metric metric then Inl YAP_VECTOR_INVALID_ARGUMENT
      else if validate_values query dimensions \<noteq> YAP_VECTOR_OK
        then Inl (validate_values query dimensions)
      else if validate_values candidate dimensions \<noteq> YAP_VECTOR_OK
        then Inl (validate_values candidate dimensions)
      else
        (let score = raw_score D metric (take dimensions (the query)) (take dimensions (the candidate)) in
         if sc_isfinite D score then Inr score else Inl YAP_VECTOR_NON_FINITE))"

definition compare_hits :: "'a score_ops \<Rightarrow> 'a YAP_VECTOR_HIT \<Rightarrow> 'a YAP_VECTOR_HIT \<Rightarrow> int" where
  "compare_hits D left right =
     (if sc_less D (vht_score right) (vht_score left) then - 1
      else if sc_less D (vht_score left) (vht_score right) then 1
      else if vht_ordinal left < vht_ordinal right then - 1
      else if vht_ordinal left > vht_ordinal right then 1
      else 0)"

fun rank_entries ::
  "'a score_ops \<Rightarrow> u32 \<Rightarrow> u32 list option \<Rightarrow> nat \<Rightarrow> nat \<Rightarrow> YAP_VECTOR_ENTRY list \<Rightarrow>
     YAP_VECTOR_STATUS + 'a YAP_VECTOR_HIT list" where
  "rank_entries D metric query dimensions i [] = Inr []"
| "rank_entries D metric query dimensions i (entry # rest) =
     (if ven_dimensions entry \<noteq> dimensions \<or> view_is_null (ven_id entry) \<or> view_len (ven_id entry) = 0
        then Inl (if ven_dimensions entry \<noteq> dimensions then YAP_VECTOR_DIMENSION_MISMATCH
                  else YAP_VECTOR_INVALID_ARGUMENT)
      else rbind (YAP_Vector_score D metric query (ven_values entry) dimensions) (\<lambda>score.
           rbind (rank_entries D metric query dimensions (Suc i) rest) (\<lambda>hits.
           Inr (\<lparr>vht_id = ven_id entry, vht_ordinal = i, vht_score = score\<rparr> # hits))))"

definition YAP_Vector_search ::
  "'a score_ops \<Rightarrow> (nat \<Rightarrow> bool) \<Rightarrow> YAP_VECTOR_ENTRY list \<Rightarrow> u32 list option \<Rightarrow> nat \<Rightarrow> u32 \<Rightarrow> nat \<Rightarrow> nat \<Rightarrow>
     YAP_VECTOR_STATUS + 'a YAP_VECTOR_HIT list" where
  "YAP_Vector_search D mem entries query dimensions metric top_k hit_capacity =
     (if \<not> validate_metric metric \<or> entries = [] \<or> top_k = 0 then Inl YAP_VECTOR_INVALID_ARGUMENT
      else if hit_capacity < top_k then Inl YAP_VECTOR_BUFFER_TOO_SMALL
      else if validate_values query dimensions \<noteq> YAP_VECTOR_OK
        then Inl (validate_values query dimensions)
      else if length entries > SIZE_MAX div sizeof_vector_hit \<or>
              \<not> mem (sizeof_vector_hit * length entries)
        then Inl YAP_VECTOR_ALLOCATION_FAILED
      else rbind (rank_entries D metric query dimensions 0 entries) (\<lambda>ranked.
        Inr (take top_k (qsort_by (compare_hits D) ranked))))"

subsection \<open>The ranking\<close>

text \<open>What the search relies on of the order of finite \<open>double\<close> values.\<close>

definition score_laws :: "'a score_ops \<Rightarrow> bool" where
  "score_laws D \<longleftrightarrow>
     (\<forall>x y. sc_less D x y \<longrightarrow> \<not> sc_less D y x) \<and>
     (\<forall>x y z. sc_isfinite D x \<longrightarrow> sc_isfinite D y \<longrightarrow> sc_isfinite D z \<longrightarrow>
        \<not> sc_less D x y \<longrightarrow> \<not> sc_less D y z \<longrightarrow> \<not> sc_less D x z)"

text \<open>The same with equality, for code that compares with \<open>!=\<close> first.\<close>

definition rank_laws :: "'a score_ops \<Rightarrow> bool" where
  "rank_laws D \<longleftrightarrow> score_laws D \<and> (\<forall>x y. sc_isfinite D x \<longrightarrow> sc_isfinite D y \<longrightarrow>
     (sc_eq D x y \<longleftrightarrow> \<not> sc_less D x y \<and> \<not> sc_less D y x))"

text \<open>All entries with their scores, and the order of the hits.\<close>

definition scored :: "'a score_ops \<Rightarrow> u32 \<Rightarrow> u32 list \<Rightarrow> nat \<Rightarrow> nat \<Rightarrow> YAP_VECTOR_ENTRY \<Rightarrow> 'a YAP_VECTOR_HIT" where
  "scored D metric q dimensions i entry = \<lparr>vht_id = ven_id entry, vht_ordinal = i,
     vht_score = raw_score D metric (take dimensions q) (take dimensions (the (ven_values entry)))\<rparr>"

definition hit_before :: "'a score_ops \<Rightarrow> 'a YAP_VECTOR_HIT \<Rightarrow> 'a YAP_VECTOR_HIT \<Rightarrow> bool" where
  "hit_before D a b \<longleftrightarrow> \<not> sc_less D (vht_score a) (vht_score b) \<and>
     (sc_less D (vht_score b) (vht_score a) \<or> vht_ordinal a < vht_ordinal b)"

text \<open>Which entries the search can score.\<close>

definition searchable :: "'a score_ops \<Rightarrow> u32 \<Rightarrow> u32 list \<Rightarrow> nat \<Rightarrow> YAP_VECTOR_ENTRY \<Rightarrow> bool" where
  "searchable D metric q dimensions entry \<longleftrightarrow> ven_dimensions entry = dimensions \<and>
     \<not> view_is_null (ven_id entry) \<and> view_len (ven_id entry) \<noteq> 0 \<and>
     (\<exists>vs. ven_values entry = Some vs \<and> list_all float_finite (take dimensions vs)) \<and>
     sc_isfinite D (raw_score D metric (take dimensions q) (take dimensions (the (ven_values entry))))"

lemma rank_entries_iff:
  assumes "validate_metric metric" "validate_values (Some q) dimensions = YAP_VECTOR_OK"
  shows "(\<exists>hits. rank_entries D metric (Some q) dimensions i es = Inr hits) \<longleftrightarrow>
      list_all (searchable D metric q dimensions) es"
    and "rank_entries D metric (Some q) dimensions i es = Inr hits \<Longrightarrow>
      hits = map (\<lambda>(i, e). scored D metric q dimensions i e) (enumerate i es)"
proof -
  have v: "YAP_Vector_score D metric (Some q) v dimensions = Inr s \<longleftrightarrow>
      (\<exists>vs. v = Some vs \<and> list_all float_finite (take dimensions vs)) \<and>
      s = raw_score D metric (take dimensions q) (take dimensions (the v)) \<and> sc_isfinite D s" for v s
    using assms by (auto simp: YAP_Vector_score_def validate_values_def Let_def split: if_splits option.splits)
  show "(\<exists>hits. rank_entries D metric (Some q) dimensions i es = Inr hits) \<longleftrightarrow>
      list_all (searchable D metric q dimensions) es"
    by (induction es arbitrary: i) (auto simp: result_simps v searchable_def split: if_splits)
  show "rank_entries D metric (Some q) dimensions i es = Inr hits \<Longrightarrow>
      hits = map (\<lambda>(i, e). scored D metric q dimensions i e) (enumerate i es)"
    by (induction es arbitrary: i hits) (auto simp: result_simps v scored_def split: if_splits)
qed

lemma sorted_wrt_distinct:
  "sorted_wrt P xs \<Longrightarrow> distinct (map f xs) \<Longrightarrow> sorted_wrt (\<lambda>a b. P a b \<and> f a \<noteq> f b) xs"
  by (induction xs) auto

lemma sorted_hits:
  assumes D: "score_laws D" and f: "\<forall>h\<in>set hits. sc_isfinite D (vht_score h)"
    and d: "distinct (map vht_ordinal hits)"
  shows "sorted_wrt (hit_before D) (qsort_by (compare_hits D) hits)"
proof -
  have asym: "\<not> sc_less D y x" if "sc_less D x y" for x y using D that by (auto simp: score_laws_def)
  have le: "compare_hits D a b \<le> 0 \<longleftrightarrow> \<not> sc_less D (vht_score a) (vht_score b) \<and>
     (sc_less D (vht_score b) (vht_score a) \<or> vht_ordinal a \<le> vht_ordinal b)" for a b
    using asym by (auto simp: compare_hits_def)
  have neg: "\<not> sc_less D (vht_score a) (vht_score c)"
    if "a \<in> set hits" "b \<in> set hits" "c \<in> set hits"
      "\<not> sc_less D (vht_score a) (vht_score b)" "\<not> sc_less D (vht_score b) (vht_score c)" for a b c
    using that f D unfolding score_laws_def by blast
  have "sorted_wrt (\<lambda>a b. compare_hits D a b \<le> 0) (qsort_by (compare_hits D) hits)"
  proof (rule sorted_qsort_by)
    show "compare_hits D a b \<le> 0 \<or> compare_hits D b a \<le> 0" for a b
      unfolding le using asym nat_le_linear by blast
    show "compare_hits D a c \<le> 0" if "a \<in> set hits" "b \<in> set hits" "c \<in> set hits"
      "compare_hits D a b \<le> 0" "compare_hits D b c \<le> 0" for a b c
      using that neg[of a b c] neg[of c a b] neg[of b c a] unfolding le by (meson order_trans)
  qed
  moreover have "distinct (map vht_ordinal (qsort_by (compare_hits D) hits))"
    using d by (metis mset_map mset_qsort_by mset_eq_imp_distinct_iff)
  ultimately have "sorted_wrt (\<lambda>a b. compare_hits D a b \<le> 0 \<and> vht_ordinal a \<noteq> vht_ordinal b)
      (qsort_by (compare_hits D) hits)"
    by (rule sorted_wrt_distinct)
  then show ?thesis
    by (rule sorted_wrt_mono_rel[rotated]) (auto simp: le hit_before_def)
qed

lemma vector_search_hits:
  assumes D: "score_laws D" and h: "YAP_Vector_search D mem entries query dimensions metric top_k capacity = Inr hits"
  shows "\<exists>q rest. query = Some q \<and> list_all (searchable D metric q dimensions) entries \<and>
    length hits = min top_k (length entries) \<and>
    mset (hits @ rest) = mset (map (\<lambda>(i, e). scored D metric q dimensions i e) (enumerate 0 entries)) \<and>
    sorted_wrt (hit_before D) (hits @ rest)"
proof -
  obtain q where q: "query = Some q" using h by (cases query) (auto simp: YAP_Vector_search_def validate_values_def split: if_splits)
  let ?all = "map (\<lambda>(i, e). scored D metric q dimensions i e) (enumerate 0 entries)"
  have ok: "validate_metric metric" "validate_values (Some q) dimensions = YAP_VECTOR_OK"
    and r: "\<exists>ranked. rank_entries D metric (Some q) dimensions 0 entries = Inr ranked \<and> hits = take top_k (qsort_by (compare_hits D) ranked)"
    using h by (auto simp: YAP_Vector_search_def q result_simps split: if_splits)
  have se: "list_all (searchable D metric q dimensions) entries"
    using r rank_entries_iff(1)[OF ok, of D 0 entries] by blast
  have hits: "hits = take top_k (qsort_by (compare_hits D) ?all)"
    using r rank_entries_iff(2)[OF ok] by blast
  have "\<forall>h\<in>set ?all. sc_isfinite D (vht_score h)"
    using se by (auto simp: in_set_enumerate_eq scored_def list_all_iff searchable_def)
  moreover have "distinct (map vht_ordinal ?all)"
    by (simp add: comp_def scored_def case_prod_unfold map_fst_enumerate[unfolded fst_def] flip: fst_def)
  ultimately have "sorted_wrt (hit_before D) (qsort_by (compare_hits D) ?all)"
    by (rule sorted_hits[OF D])
  moreover have "length (qsort_by (compare_hits D) ?all) = length entries"
    by (metis libc.qs_length length_enumerate length_map)
  ultimately show ?thesis
    using q se unfolding hits
    by (intro exI[of _ q] exI[of _ "drop top_k (qsort_by (compare_hits D) ?all)"]) (simp add: mset_qsort_by)
qed

text \<open>
  C20. Exact vector search. With enough memory the search succeeds exactly when the metric, the sizes and
  the query are valid and every entry has the query's dimensions, an identifier, finite components and a
  finite score; its hits are then the first \<open>top_k\<close> of all entries in descending order of score, entries
  with the same score in the order of the segment.
\<close>

theorem vector_search_correct:
  assumes "score_laws D" "\<forall>n. mem n" "length entries \<le> SIZE_MAX div sizeof_vector_hit"
  shows "((\<exists>hits. YAP_Vector_search D mem entries (Some q) dimensions metric top_k capacity = Inr hits) \<longleftrightarrow>
      validate_metric metric \<and> entries \<noteq> [] \<and> 0 < top_k \<and> top_k \<le> capacity \<and>
      0 < dimensions \<and> dimensions \<le> YAP_V2_MAX_VECTOR_DIMENSIONS \<and> list_all float_finite (take dimensions q) \<and>
      list_all (searchable D metric q dimensions) entries) \<and>
    (\<forall>hits. YAP_Vector_search D mem entries (Some q) dimensions metric top_k capacity = Inr hits \<longrightarrow>
      length hits = min top_k (length entries) \<and>
      (\<exists>rest. mset (hits @ rest) = mset (map (\<lambda>(i, e). scored D metric q dimensions i e) (enumerate 0 entries)) \<and>
        sorted_wrt (hit_before D) (hits @ rest)))"
proof -
  let ?S = "YAP_Vector_search D mem entries (Some q) dimensions metric top_k capacity"
  let ?R = "rank_entries D metric (Some q) dimensions 0 entries"
  let ?all = "map (\<lambda>(i, e). scored D metric q dimensions i e) (enumerate 0 entries)"
  let ?ok = "validate_metric metric \<and> entries \<noteq> [] \<and> 0 < top_k \<and> top_k \<le> capacity \<and>
    validate_values (Some q) dimensions = YAP_VECTOR_OK"
  have S: "?S = Inr hits \<longleftrightarrow> ?ok \<and> (\<exists>ranked. ?R = Inr ranked \<and> hits = take top_k (qsort_by (compare_hits D) ranked))" for hits
    using assms(2,3) by (auto simp: YAP_Vector_search_def result_simps)
  have v: "validate_values (Some q) dimensions = YAP_VECTOR_OK \<longleftrightarrow>
      0 < dimensions \<and> dimensions \<le> YAP_V2_MAX_VECTOR_DIMENSIONS \<and> list_all float_finite (take dimensions q)"
    by (auto simp: validate_values_def)
  have iff: "(\<exists>hits. ?S = Inr hits) \<longleftrightarrow> ?ok \<and> list_all (searchable D metric q dimensions) entries"
    unfolding S using rank_entries_iff(1)[of metric q dimensions D 0 entries] by blast
  have top: "length hits = min top_k (length entries) \<and>
      (\<exists>rest. mset (hits @ rest) = mset ?all \<and> sorted_wrt (hit_before D) (hits @ rest))"
    if h: "?S = Inr hits" for hits
    using vector_search_hits[OF assms(1) h] by auto
  show ?thesis using iff top v by blast
qed

definition int_scores :: "int score_ops" where
  "int_scores = \<lparr>sc_of_float = uint, sc_zero = 0, sc_add = (+), sc_sub = (-), sc_mul = (*), sc_div = (div),
     sc_neg = uminus, sc_sqrt = (\<lambda>x. x), sc_eq = (=), sc_less = (<), sc_isfinite = (\<lambda>_. True)\<rparr>"

lemma int_scores_laws: "score_laws int_scores"
  by (auto simp: score_laws_def int_scores_def)

lemma int_scores_rank: "rank_laws int_scores"
  using int_scores_laws by (auto simp: rank_laws_def int_scores_def)

definition two_entries :: "YAP_VECTOR_ENTRY list" where
  "two_entries = [\<lparr>ven_id = View [1], ven_values = Some [2], ven_dimensions = 1\<rparr>,
     \<lparr>ven_id = View [2], ven_values = Some [5], ven_dimensions = 1\<rparr>]"

theorem vector_search_correct_witness:
  "(\<exists>hits. YAP_Vector_search int_scores (\<lambda>_. True) two_entries (Some [3]) 1 YAP_V2_VECTOR_DOT 1 1 = Inr hits \<and>
     length hits = 1) \<and>
   YAP_Vector_search int_scores (\<lambda>_. True) two_entries (Some [3]) 1 YAP_V2_VECTOR_DOT 1 1 =
     Inr [\<lparr>vht_id = View [2], vht_ordinal = 1, vht_score = 15\<rparr>]"
proof -
  have e: "YAP_Vector_search int_scores (\<lambda>_. True) two_entries (Some [3]) 1 YAP_V2_VECTOR_DOT 1 1 =
     Inr [\<lparr>vht_id = View [2], vht_ordinal = 1, vht_score = 15\<rparr>]"
    by (simp add: YAP_Vector_search_def two_entries_def int_scores_def validate_metric_def vector_metrics
        validate_values_def float_finite_def config_limits sizeof_vector_hit_def YAP_Vector_score_def raw_score_def
        dot_sum_def Let_def compare_hits_def)
  moreover have "length two_entries \<le> SIZE_MAX div sizeof_vector_hit"
    by (simp add: two_entries_def sizeof_vector_hit_def)
  ultimately show ?thesis
    using vector_search_correct[OF int_scores_laws, of "\<lambda>_. True" two_entries "[3]" 1 YAP_V2_VECTOR_DOT 1 1]
    by (simp add: two_entries_def)
qed

end
