(* ===== verification/Vector_V2.thy ===== *)
theory Vector_V2
  imports Vector_Search Component_File
begin



record YAP_EMBEDDING_RESULT =
  emb_values :: "u32 list option"
  emb_input_count :: nat
  emb_dimensions :: nat

record YAP_V2_VECTOR_SEGMENT =
  vsg_mapped :: bool
  vsg_generation :: u64
  vsg_metric :: u32
  vsg_dimensions :: nat
  vsg_model_id :: bytes
  vsg_entries :: "YAP_VECTOR_ENTRY list"


subsection \<open>Writer\<close>



text \<open>Row \<open>i\<close> of the embedding matrix.\<close>

definition embedding_row :: "YAP_EMBEDDING_RESULT \<Rightarrow> nat \<Rightarrow> u32 list" where
  "embedding_row embeddings i =
     (case emb_values embeddings of
        None \<Rightarrow> []
      | Some values \<Rightarrow> map (\<lambda>j. values ! (i * emb_dimensions embeddings + j)) [0..<emb_dimensions embeddings])"









subsection \<open>Reader\<close>






definition YAP_V2_vector_segment_search ::
  "'a score_ops \<Rightarrow> (nat \<Rightarrow> bool) \<Rightarrow> YAP_V2_VECTOR_SEGMENT \<Rightarrow> u32 list option \<Rightarrow> nat \<Rightarrow> nat \<Rightarrow> nat \<Rightarrow>
     YAP_VECTOR_STATUS + 'a YAP_VECTOR_HIT list" where
  "YAP_V2_vector_segment_search D mem segment query query_dimensions top_k hit_capacity =
     (if \<not> vsg_mapped segment \<or> query_dimensions \<noteq> vsg_dimensions segment
        then Inl (if query_dimensions \<noteq> vsg_dimensions segment then YAP_VECTOR_DIMENSION_MISMATCH
                  else YAP_VECTOR_INVALID_ARGUMENT)
      else YAP_Vector_search D mem (vsg_entries segment) query query_dimensions (vsg_metric segment)
             top_k hit_capacity)"

subsection \<open>What the writer appends\<close>

definition enc_floats :: "u32 list \<Rightarrow> bytes" where
  "enc_floats xs = concat (map put_u32_le xs)"

fun enc_records :: "nat \<Rightarrow> bytes list \<Rightarrow> bytes" where
  "enc_records off [] = []"
| "enc_records off (name # names) =
     put_u64_le (word_of_nat off) @ put_u32_le (word_of_nat (length name)) @ put_u32_le 0 @
     enc_records (off + length name) names"

lemma length_enc_floats [simp]: "length (enc_floats xs) = 4 * length xs"
  by (induction xs) (simp_all add: enc_floats_def)

lemma length_enc_records [simp]: "length (enc_records off names) = 16 * length names"
  by (induction names arbitrary: off) simp_all



primrec rows_from :: "YAP_EMBEDDING_RESULT \<Rightarrow> nat \<Rightarrow> nat \<Rightarrow> u32 list list" where
  "rows_from embeddings i 0 = []"
| "rows_from embeddings i (Suc n) = embedding_row embeddings i # rows_from embeddings (Suc i) n"









subsection \<open>Reading the payload back\<close>








subsection \<open>Writing and opening the file\<close>

lemma length_rows_from [simp]: "length (rows_from E i n) = n"
  by (induction n arbitrary: i) simp_all




subsection \<open>When the writer succeeds\<close>














end
