(* ===== verification/Ann_V2.thy ===== *)
theory Ann_V2
  imports Vector_V2 "HOL-Library.Product_Lexorder"
begin

text \<open>
  The approximate vector index, \<open>components/yappo_ann_v2.c\<close>. The usearch library is the argument \<open>U\<close>: each
  call returns the new state of the index, or \<open>None\<close> when it sets its error; \<open>us_save\<close> gives the bytes it
  leaves in the file and whether it succeeded. An index pointer that is \<open>NULL\<close> is \<open>None\<close>; \<open>usearch_free\<close> has
  no result. Arrays the caller passes are not \<open>NULL\<close>.
\<close>

datatype usearch_metric_kind = usearch_metric_cos_k | usearch_metric_ip_k | usearch_metric_l2sq_k | usearch_metric_unknown_k

record usearch_init_options =
  uo_metric_kind :: usearch_metric_kind
  uo_scalar_f32 :: bool
  uo_dimensions :: nat
  uo_connectivity :: nat
  uo_expansion_add :: nat
  uo_expansion_search :: nat

record 'i usearch_ops =
  us_init :: "usearch_init_options \<Rightarrow> 'i option"
  us_reserve :: "'i \<Rightarrow> nat \<Rightarrow> 'i option"
  us_add :: "'i \<Rightarrow> u64 \<Rightarrow> u32 list option \<Rightarrow> 'i option"
  us_save :: "'i \<Rightarrow> bytes \<times> bool"
  us_metadata :: "bytes option \<Rightarrow> usearch_init_options option"
  us_view :: "'i \<Rightarrow> bytes option \<Rightarrow> 'i option"
  us_dimensions :: "'i \<Rightarrow> nat option"
  us_size :: "'i \<Rightarrow> nat option"
  us_change_expansion_search :: "'i \<Rightarrow> nat \<Rightarrow> 'i option"
  us_search :: "'i \<Rightarrow> u32 list option \<Rightarrow> nat \<Rightarrow> u64 list option"

datatype YAP_ANN_STATUS =
    YAP_ANN_OK
  | YAP_ANN_INVALID_ARGUMENT
  | YAP_ANN_ALLOCATION_FAILED
  | YAP_ANN_IO_ERROR
  | YAP_ANN_BACKEND_ERROR
  | YAP_ANN_CONFLICT

record 'i YAP_V2_ANN_SEGMENT =
  asg_index :: "'i option"
  asg_vectors :: "YAP_V2_VECTOR_SEGMENT option"

record 'i YAP_V2_ANN_INDEX =
  aix_index :: "'i option"
  aix_metric :: u32
  aix_dimensions :: nat
  aix_entry_count :: nat

record 'a YAP_V2_ANN_HIT =
  aht_segment_ordinal :: nat
  aht_hit :: "'a YAP_VECTOR_HIT"

definition sizeof_ann_hit :: nat where "sizeof_ann_hit = 40"

definition metric_kind :: "u32 \<Rightarrow> usearch_metric_kind" where
  "metric_kind metric =
     (if metric = YAP_V2_VECTOR_COSINE then usearch_metric_cos_k
      else if metric = YAP_V2_VECTOR_DOT then usearch_metric_ip_k
      else if metric = YAP_V2_VECTOR_L2 then usearch_metric_l2sq_k
      else usearch_metric_unknown_k)"

definition create_index_for_config :: "'i usearch_ops \<Rightarrow> u32 \<Rightarrow> nat \<Rightarrow> nat \<Rightarrow> nat \<Rightarrow> nat \<Rightarrow> 'i option" where
  "create_index_for_config U metric dimensions connectivity expansion_add expansion_search =
     us_init U \<lparr>uo_metric_kind = metric_kind metric, uo_scalar_f32 = True, uo_dimensions = dimensions,
       uo_connectivity = connectivity, uo_expansion_add = expansion_add,
       uo_expansion_search = expansion_search\<rparr>"

definition create_index :: "'i usearch_ops \<Rightarrow> YAP_V2_VECTOR_SEGMENT \<Rightarrow> nat \<Rightarrow> nat \<Rightarrow> nat \<Rightarrow> 'i option" where
  "create_index U vectors connectivity expansion_add expansion_search =
     create_index_for_config U (vsg_metric vectors) (vsg_dimensions vectors) connectivity expansion_add
       expansion_search"

text \<open>\<open>descriptor\<close>; \<open>back\<close> is what \<open>YAP_V2_file_sha256\<close> reads from the file.\<close>

definition ann_descriptor ::
  "bytes list option \<times> bool \<times> bool \<Rightarrow> nat \<Rightarrow> YAP_ANN_STATUS + YAP_V2_COMPONENT_DESCRIPTOR" where
  "ann_descriptor back records =
     (case back of (chunks, read_ok, close_ok) \<Rightarrow>
        (case YAP_V2_file_sha256 chunks read_ok close_ok of
           Inl _ \<Rightarrow> Inl YAP_ANN_IO_ERROR
         | Inr (checksum, file_bytes) \<Rightarrow>
             Inr \<lparr>cmp_name = ascii ''vectors.usearch'', cmp_file_type = YAP_V2_FILE_ANN,
                  cmp_record_count = word_of_nat records, cmp_file_bytes = file_bytes,
                  cmp_checksum = checksum\<rparr>))"

definition YAP_V2_ann_status_string :: "YAP_ANN_STATUS \<Rightarrow> string" where
  "YAP_V2_ann_status_string status =
     (case status of
        YAP_ANN_OK \<Rightarrow> ''ok''
      | YAP_ANN_INVALID_ARGUMENT \<Rightarrow> ''invalid argument''
      | YAP_ANN_ALLOCATION_FAILED \<Rightarrow> ''allocation failed''
      | YAP_ANN_IO_ERROR \<Rightarrow> ''I/O error''
      | YAP_ANN_BACKEND_ERROR \<Rightarrow> ''ANN backend error''
      | YAP_ANN_CONFLICT \<Rightarrow> ''ANN/vector conflict'')"

definition YAP_V2_ann_segment_init :: "'i YAP_V2_ANN_SEGMENT" where
  "YAP_V2_ann_segment_init = \<lparr>asg_index = None, asg_vectors = None\<rparr>"

definition YAP_V2_ann_index_init :: "'i YAP_V2_ANN_INDEX" where
  "YAP_V2_ann_index_init = \<lparr>aix_index = None, aix_metric = 0, aix_dimensions = 0, aix_entry_count = 0\<rparr>"

subsection \<open>Building\<close>

definition YAP_V2_ann_index_create ::
  "'i usearch_ops \<Rightarrow> u32 \<Rightarrow> nat \<Rightarrow> nat \<Rightarrow> nat \<Rightarrow> nat \<Rightarrow> nat \<Rightarrow> 'i YAP_V2_ANN_INDEX \<Rightarrow>
     YAP_ANN_STATUS \<times> 'i YAP_V2_ANN_INDEX" where
  "YAP_V2_ann_index_create U metric dimensions capacity connectivity expansion_add expansion_search index =
     (if aix_index index \<noteq> None \<or> dimensions = 0 \<or> capacity = 0 \<or>
         metric_kind metric = usearch_metric_unknown_k \<or> connectivity = 0 \<or> expansion_add = 0 \<or>
         expansion_search = 0 then (YAP_ANN_INVALID_ARGUMENT, index)
      else case create_index_for_config U metric dimensions connectivity expansion_add expansion_search of
        None \<Rightarrow> (YAP_ANN_BACKEND_ERROR, index)
      | Some created \<Rightarrow>
          (case us_reserve U created capacity of
             None \<Rightarrow> (YAP_ANN_ALLOCATION_FAILED, index)
           | Some created \<Rightarrow>
               (YAP_ANN_OK, index\<lparr>aix_index := Some created, aix_metric := metric,
                              aix_dimensions := dimensions\<rparr>)))"

definition YAP_V2_ann_index_add ::
  "'i usearch_ops \<Rightarrow> 'i YAP_V2_ANN_INDEX \<Rightarrow> u64 \<Rightarrow> u32 list option \<Rightarrow> YAP_ANN_STATUS \<times> 'i YAP_V2_ANN_INDEX" where
  "YAP_V2_ann_index_add U index key vector =
     (case aix_index index of
        None \<Rightarrow> (YAP_ANN_INVALID_ARGUMENT, index)
      | Some i \<Rightarrow>
          if vector = None then (YAP_ANN_INVALID_ARGUMENT, index)
          else case us_add U i key vector of
            None \<Rightarrow> (YAP_ANN_BACKEND_ERROR, index)
          | Some i \<Rightarrow> (YAP_ANN_OK, index\<lparr>aix_index := Some i, aix_entry_count := aix_entry_count index + 1\<rparr>))"

definition YAP_V2_ann_index_save ::
  "'i usearch_ops \<Rightarrow> 'i YAP_V2_ANN_INDEX \<Rightarrow> string \<Rightarrow> YAP_ANN_STATUS \<times> fs_op list" where
  "YAP_V2_ann_index_save U index path =
     (case aix_index index of
        None \<Rightarrow> (YAP_ANN_INVALID_ARGUMENT, [])
      | Some i \<Rightarrow>
          if aix_entry_count index = 0 then (YAP_ANN_INVALID_ARGUMENT, [])
          else case us_save U i of (content, saved) \<Rightarrow>
            (if saved then YAP_ANN_OK else YAP_ANN_IO_ERROR, [Fs_create path, Fs_write path content]))"

fun add_vectors :: "'i usearch_ops \<Rightarrow> nat \<Rightarrow> YAP_VECTOR_ENTRY list \<Rightarrow> 'i \<Rightarrow> 'i option" where
  "add_vectors U k [] index = Some index"
| "add_vectors U k (entry # entries) index =
     (case us_add U index (word_of_nat k) (ven_values entry) of
        None \<Rightarrow> None
      | Some index \<Rightarrow> add_vectors U (Suc k) entries index)"

definition YAP_V2_ann_build_save ::
  "'i usearch_ops \<Rightarrow> io \<Rightarrow> (bytes \<Rightarrow> bytes list option \<times> bool \<times> bool) \<Rightarrow> string \<Rightarrow> YAP_V2_VECTOR_SEGMENT \<Rightarrow>
     nat \<Rightarrow> nat \<Rightarrow> nat \<Rightarrow> (YAP_ANN_STATUS + YAP_V2_COMPONENT_DESCRIPTOR) \<times> fs_op list" where
  "YAP_V2_ann_build_save U io back path vectors connectivity expansion_add expansion_search =
     (let tmp = temporary_path path; abandon = unlink_op io tmp in
      if vsg_entries vectors = [] \<or> metric_kind (vsg_metric vectors) = usearch_metric_unknown_k \<or>
         connectivity = 0 \<or> expansion_add = 0 \<or> expansion_search = 0
        then (Inl YAP_ANN_INVALID_ARGUMENT, [])
      else case create_index U vectors connectivity expansion_add expansion_search of
        None \<Rightarrow> (Inl YAP_ANN_BACKEND_ERROR, [])
      | Some index \<Rightarrow>
          (case Option.bind (us_reserve U index (length (vsg_entries vectors)))
                  (add_vectors U 0 (vsg_entries vectors)) of
             None \<Rightarrow> (Inl YAP_ANN_BACKEND_ERROR, [])
           | Some index \<Rightarrow>
               if length path > SIZE_MAX - 5 \<or> \<not> io Io_malloc then (Inl YAP_ANN_ALLOCATION_FAILED, [])
               else case us_save U index of (content, saved) \<Rightarrow>
                 (let written = abandon @ [Fs_create tmp, Fs_write tmp content] in
                  if \<not> saved then (Inl YAP_ANN_BACKEND_ERROR, written @ abandon)
                  else if \<not> io Io_rename then (Inl YAP_ANN_IO_ERROR, written @ abandon)
                  else case ann_descriptor (back content) (length (vsg_entries vectors)) of
                    Inl status \<Rightarrow> (Inl status, written @ [Fs_rename tmp path] @ abandon)
                  | Inr component \<Rightarrow> (Inr component, written @ [Fs_rename tmp path]))))"

subsection \<open>Opening\<close>

definition metadata_agrees :: "usearch_init_options \<Rightarrow> u32 \<Rightarrow> nat \<Rightarrow> bool" where
  "metadata_agrees metadata metric dimensions \<longleftrightarrow> uo_metric_kind metadata = metric_kind metric \<and>
     uo_scalar_f32 metadata \<and> uo_dimensions metadata = dimensions"

definition YAP_V2_ann_index_view ::
  "'i usearch_ops \<Rightarrow> fs \<Rightarrow> string \<Rightarrow> u32 \<Rightarrow> nat \<Rightarrow> nat \<Rightarrow> nat \<Rightarrow> 'i YAP_V2_ANN_INDEX \<Rightarrow>
     YAP_ANN_STATUS \<times> 'i YAP_V2_ANN_INDEX" where
  "YAP_V2_ann_index_view U fs path metric dimensions expected_count expansion_search index =
     (if aix_index index \<noteq> None \<or> dimensions = 0 \<or> expected_count = 0 \<or> expansion_search = 0 \<or>
         metric_kind metric = usearch_metric_unknown_k then (YAP_ANN_INVALID_ARGUMENT, index)
      else case us_metadata U (fs path) of
        None \<Rightarrow> (YAP_ANN_IO_ERROR, index)
      | Some metadata \<Rightarrow>
          if \<not> metadata_agrees metadata metric dimensions then (YAP_ANN_CONFLICT, index)
          else case create_index_for_config U metric dimensions 0 0 expansion_search of
            None \<Rightarrow> (YAP_ANN_BACKEND_ERROR, index)
          | Some viewed \<Rightarrow>
              (case us_view U viewed (fs path) of
                 None \<Rightarrow> (YAP_ANN_IO_ERROR, index)
               | Some viewed \<Rightarrow>
                   if us_dimensions U viewed \<noteq> Some dimensions \<or> us_size U viewed \<noteq> Some expected_count
                     then (YAP_ANN_CONFLICT, index)
                   else case us_change_expansion_search U viewed expansion_search of
                     None \<Rightarrow> (YAP_ANN_BACKEND_ERROR, index)
                   | Some viewed \<Rightarrow>
                       (YAP_ANN_OK, \<lparr>aix_index = Some viewed, aix_metric = metric,
                          aix_dimensions = dimensions, aix_entry_count = expected_count\<rparr>)))"

text \<open>\<open>want\<close> says whether the caller asks for the descriptor.\<close>

definition YAP_V2_ann_view ::
  "'i usearch_ops \<Rightarrow> (bytes \<Rightarrow> bytes list option \<times> bool \<times> bool) \<Rightarrow> fs \<Rightarrow> string \<Rightarrow> YAP_V2_VECTOR_SEGMENT \<Rightarrow> nat \<Rightarrow>
     'i YAP_V2_ANN_SEGMENT \<Rightarrow> bool \<Rightarrow>
     YAP_ANN_STATUS \<times> 'i YAP_V2_ANN_SEGMENT \<times> YAP_V2_COMPONENT_DESCRIPTOR option" where
  "YAP_V2_ann_view U back fs path vectors expansion_search segment want =
     (if \<not> vsg_mapped vectors \<or> expansion_search = 0 \<or>
         metric_kind (vsg_metric vectors) = usearch_metric_unknown_k
        then (YAP_ANN_INVALID_ARGUMENT, segment, None)
      else case us_metadata U (fs path) of
        None \<Rightarrow> (YAP_ANN_IO_ERROR, segment, None)
      | Some metadata \<Rightarrow>
          if \<not> metadata_agrees metadata (vsg_metric vectors) (vsg_dimensions vectors)
            then (YAP_ANN_CONFLICT, segment, None)
          else case Option.bind (create_index U vectors 0 0 expansion_search)
                      (\<lambda>index. us_view U index (fs path)) of
            None \<Rightarrow> (YAP_ANN_BACKEND_ERROR, segment, None)
          | Some index \<Rightarrow>
              if us_dimensions U index = None \<or> us_size U index = None
                then (YAP_ANN_BACKEND_ERROR, segment, None)
              else if us_dimensions U index \<noteq> Some (vsg_dimensions vectors) \<or>
                      us_size U index \<noteq> Some (length (vsg_entries vectors))
                then (YAP_ANN_CONFLICT, segment, None)
              else case us_change_expansion_search U index expansion_search of
                None \<Rightarrow> (YAP_ANN_BACKEND_ERROR, segment, None)
              | Some index \<Rightarrow>
                  (let opened = \<lparr>asg_index = Some index, asg_vectors = Some vectors\<rparr> in
                   if \<not> want then (YAP_ANN_OK, opened, None)
                   else case ann_descriptor (back (case fs path of None \<Rightarrow> [] | Some content \<Rightarrow> content))
                               (length (vsg_entries vectors)) of
                     Inl status \<Rightarrow> (status, opened, None)
                   | Inr component \<Rightarrow> (YAP_ANN_OK, opened, Some component)))"

subsection \<open>Searching\<close>

definition YAP_V2_ann_index_search ::
  "'i usearch_ops \<Rightarrow> (nat \<Rightarrow> bool) \<Rightarrow> 'i YAP_V2_ANN_INDEX \<Rightarrow> u32 list option \<Rightarrow> nat \<Rightarrow> nat \<Rightarrow> nat \<Rightarrow>
     YAP_VECTOR_STATUS + u64 list" where
  "YAP_V2_ann_index_search U mem index query dimensions top_k key_capacity =
     (case aix_index index of
        None \<Rightarrow> Inl (if key_capacity < top_k then YAP_VECTOR_BUFFER_TOO_SMALL else YAP_VECTOR_INVALID_ARGUMENT)
      | Some i \<Rightarrow>
          if query = None \<or> dimensions \<noteq> aix_dimensions index \<or> top_k = 0 \<or> key_capacity < top_k
            then Inl (if key_capacity < top_k then YAP_VECTOR_BUFFER_TOO_SMALL else YAP_VECTOR_INVALID_ARGUMENT)
          else if \<not> mem (8 * top_k mod 2 ^ 64) \<or> \<not> mem (4 * top_k mod 2 ^ 64)
            then Inl YAP_VECTOR_ALLOCATION_FAILED
          else case us_search U i query top_k of
            None \<Rightarrow> Inl YAP_VECTOR_INVALID_ARGUMENT
          | Some keys \<Rightarrow> Inr keys)"

text \<open>The keys the library found, scored exactly.\<close>

fun score_keys ::
  "'a score_ops \<Rightarrow> YAP_V2_VECTOR_SEGMENT \<Rightarrow> u32 list option \<Rightarrow> nat \<Rightarrow> u64 list \<Rightarrow>
     YAP_VECTOR_STATUS + 'a YAP_VECTOR_HIT list" where
  "score_keys D vectors query dimensions [] = Inr []"
| "score_keys D vectors query dimensions (key # keys) =
     (if unat key \<ge> length (vsg_entries vectors) then Inl YAP_VECTOR_INVALID_ARGUMENT
      else rbind (YAP_Vector_score D (vsg_metric vectors) query (ven_values (vsg_entries vectors ! unat key)) dimensions)
        (\<lambda>score. rbind (score_keys D vectors query dimensions keys) (\<lambda>hits.
           Inr (\<lparr>vht_id = ven_id (vsg_entries vectors ! unat key), vht_ordinal = unat key,
                 vht_score = score\<rparr> # hits))))"

text \<open>\<open>compare_vector_hits\<close> is the comparison of \<open>Vector_Search\<close>. A segment with an index has entries.\<close>

definition YAP_V2_ann_search ::
  "'i usearch_ops \<Rightarrow> 'a score_ops \<Rightarrow> (nat \<Rightarrow> bool) \<Rightarrow> 'i YAP_V2_ANN_SEGMENT \<Rightarrow> u32 list option \<Rightarrow> nat \<Rightarrow> nat \<Rightarrow> nat \<Rightarrow>
     YAP_VECTOR_STATUS + 'a YAP_VECTOR_HIT list" where
  "YAP_V2_ann_search U D mem segment query dimensions top_k hit_capacity =
     (case asg_vectors segment of
        None \<Rightarrow> Inl YAP_VECTOR_INVALID_ARGUMENT
      | Some vectors \<Rightarrow>
          (case asg_index segment of
             None \<Rightarrow> YAP_V2_vector_segment_search D mem vectors query dimensions top_k hit_capacity
           | Some index \<Rightarrow>
               if query = None \<or> top_k = 0 \<or> hit_capacity < top_k
                 then Inl (if hit_capacity < top_k then YAP_VECTOR_BUFFER_TOO_SMALL else YAP_VECTOR_INVALID_ARGUMENT)
               else if dimensions \<noteq> vsg_dimensions vectors then Inl YAP_VECTOR_DIMENSION_MISMATCH
               else rbind (YAP_Vector_score D (vsg_metric vectors) query (ven_values (hd (vsg_entries vectors))) dimensions)
                 (\<lambda>_. if \<not> mem (8 * top_k mod 2 ^ 64) \<or> \<not> mem (4 * top_k mod 2 ^ 64)
                      then Inl YAP_VECTOR_ALLOCATION_FAILED
                    else case us_search U index query top_k of
                      None \<Rightarrow> Inl YAP_VECTOR_INVALID_ARGUMENT
                    | Some keys \<Rightarrow>
                        rbind (score_keys D vectors query dimensions keys) (\<lambda>hits.
                          Inr (qsort_by (compare_hits D) hits)))))"

definition compare_ann_hits :: "'a score_ops \<Rightarrow> 'a YAP_V2_ANN_HIT \<Rightarrow> 'a YAP_V2_ANN_HIT \<Rightarrow> int" where
  "compare_ann_hits D a b =
     (if sc_less D (vht_score (aht_hit b)) (vht_score (aht_hit a)) then - 1
      else if sc_less D (vht_score (aht_hit a)) (vht_score (aht_hit b)) then 1
      else if aht_segment_ordinal a \<noteq> aht_segment_ordinal b
        then if aht_segment_ordinal a < aht_segment_ordinal b then - 1 else 1
      else if vht_ordinal (aht_hit a) < vht_ordinal (aht_hit b) then - 1
      else if vht_ordinal (aht_hit a) > vht_ordinal (aht_hit b) then 1
      else 0)"

fun segment_candidates ::
  "'i usearch_ops \<Rightarrow> 'a score_ops \<Rightarrow> (nat \<Rightarrow> bool) \<Rightarrow> nat \<Rightarrow> 'i YAP_V2_ANN_SEGMENT list \<Rightarrow> u32 list option \<Rightarrow> nat \<Rightarrow> nat \<Rightarrow>
     YAP_VECTOR_STATUS + 'a YAP_V2_ANN_HIT list" where
  "segment_candidates U D mem i [] query dimensions top_k = Inr []"
| "segment_candidates U D mem i (segment # segments) query dimensions top_k =
     rbind (YAP_V2_ann_search U D mem segment query dimensions top_k top_k) (\<lambda>local_hits.
     rbind (segment_candidates U D mem (Suc i) segments query dimensions top_k) (\<lambda>candidates.
     Inr (map (\<lambda>hit. \<lparr>aht_segment_ordinal = i, aht_hit = hit\<rparr>) local_hits @ candidates)))"

definition YAP_V2_ann_search_segments ::
  "'i usearch_ops \<Rightarrow> 'a score_ops \<Rightarrow> (nat \<Rightarrow> bool) \<Rightarrow> 'i YAP_V2_ANN_SEGMENT list \<Rightarrow> u32 list option \<Rightarrow> nat \<Rightarrow> nat \<Rightarrow> nat \<Rightarrow>
     YAP_VECTOR_STATUS + 'a YAP_V2_ANN_HIT list" where
  "YAP_V2_ann_search_segments U D mem segments query dimensions top_k hit_capacity =
     (if segments = [] \<or> top_k = 0 \<or> hit_capacity < top_k \<or> length segments > SIZE_MAX div top_k
        then Inl (if hit_capacity < top_k then YAP_VECTOR_BUFFER_TOO_SMALL else YAP_VECTOR_INVALID_ARGUMENT)
      else if \<not> mem (sizeof_ann_hit * length segments * top_k mod 2 ^ 64) \<or>
              \<not> mem (sizeof_vector_hit * top_k mod 2 ^ 64)
        then Inl YAP_VECTOR_ALLOCATION_FAILED
      else rbind (segment_candidates U D mem 0 segments query dimensions top_k) (\<lambda>candidates.
        Inr (take top_k (qsort_by (compare_ann_hits D) candidates))))"

subsection \<open>Searching segments\<close>

definition ann_before :: "'a score_ops \<Rightarrow> 'a YAP_V2_ANN_HIT \<Rightarrow> 'a YAP_V2_ANN_HIT \<Rightarrow> bool" where
  "ann_before D a b \<longleftrightarrow> \<not> sc_less D (vht_score (aht_hit a)) (vht_score (aht_hit b)) \<and>
     (sc_less D (vht_score (aht_hit b)) (vht_score (aht_hit a)) \<or>
      (aht_segment_ordinal a, vht_ordinal (aht_hit a)) < (aht_segment_ordinal b, vht_ordinal (aht_hit b)))"

text \<open>Every entry of every segment with its exact score.\<close>

definition segment_hits :: "'a score_ops \<Rightarrow> u32 list \<Rightarrow> nat \<Rightarrow> nat \<Rightarrow> YAP_V2_VECTOR_SEGMENT \<Rightarrow> 'a YAP_V2_ANN_HIT list" where
  "segment_hits D q dimensions s v = map (\<lambda>hit. \<lparr>aht_segment_ordinal = s, aht_hit = hit\<rparr>)
     (map (\<lambda>(i, e). scored D (vsg_metric v) q dimensions i e) (enumerate 0 (vsg_entries v)))"

fun all_hits :: "'a score_ops \<Rightarrow> u32 list \<Rightarrow> nat \<Rightarrow> nat \<Rightarrow> YAP_V2_VECTOR_SEGMENT list \<Rightarrow> 'a YAP_V2_ANN_HIT list" where
  "all_hits D q dimensions s [] = []"
| "all_hits D q dimensions s (v # vs) = segment_hits D q dimensions s v @ all_hits D q dimensions (Suc s) vs"

abbreviation hit_place :: "'a YAP_V2_ANN_HIT \<Rightarrow> nat \<times> nat" where
  "hit_place a \<equiv> (aht_segment_ordinal a, vht_ordinal (aht_hit a))"

lemma ann_sorted:
  assumes D: "score_laws D" and f: "\<forall>h\<in>set hits. sc_isfinite D (vht_score (aht_hit h))"
    and d: "distinct (map hit_place hits)"
  shows "sorted_wrt (ann_before D) (qsort_by (compare_ann_hits D) hits)"
proof -
  have asym: "\<not> sc_less D y x" if "sc_less D x y" for x y using D that by (auto simp: score_laws_def)
  have le: "compare_ann_hits D a b \<le> 0 \<longleftrightarrow> \<not> sc_less D (vht_score (aht_hit a)) (vht_score (aht_hit b)) \<and>
     (sc_less D (vht_score (aht_hit b)) (vht_score (aht_hit a)) \<or> hit_place a \<le> hit_place b)" for a b
    using asym by (auto simp: compare_ann_hits_def less_eq_prod_simp)
  have neg: "\<not> sc_less D (vht_score (aht_hit a)) (vht_score (aht_hit c))"
    if "a \<in> set hits" "b \<in> set hits" "c \<in> set hits"
      "\<not> sc_less D (vht_score (aht_hit a)) (vht_score (aht_hit b))" "\<not> sc_less D (vht_score (aht_hit b)) (vht_score (aht_hit c))" for a b c
    using that f D unfolding score_laws_def by blast
  have "sorted_wrt (\<lambda>a b. compare_ann_hits D a b \<le> 0) (qsort_by (compare_ann_hits D) hits)"
  proof (rule sorted_qsort_by)
    show "compare_ann_hits D a b \<le> 0 \<or> compare_ann_hits D b a \<le> 0" for a b
      unfolding le using asym linear[of "hit_place a" "hit_place b"] by blast
    show "compare_ann_hits D a c \<le> 0" if "a \<in> set hits" "b \<in> set hits" "c \<in> set hits"
      "compare_ann_hits D a b \<le> 0" "compare_ann_hits D b c \<le> 0" for a b c
      using that neg[of a b c] neg[of c a b] neg[of b c a] unfolding le by (meson order_trans)
  qed
  moreover have "distinct (map hit_place (qsort_by (compare_ann_hits D) hits))"
    using d by (metis mset_map mset_qsort_by mset_eq_imp_distinct_iff)
  ultimately have "sorted_wrt (\<lambda>a b. compare_ann_hits D a b \<le> 0 \<and> hit_place a \<noteq> hit_place b)
      (qsort_by (compare_ann_hits D) hits)"
    by (rule sorted_wrt_distinct)
  then show ?thesis
    by (rule sorted_wrt_mono_rel[rotated]) (auto simp: le ann_before_def less_le)
qed

lemma all_hits_places: "distinct (map hit_place (all_hits D q dimensions k vs)) \<and>
    (\<forall>h\<in>set (all_hits D q dimensions k vs). k \<le> aht_segment_ordinal h)"
proof (induction vs arbitrary: k)
  case (Cons v vs)
  have p: "map hit_place (segment_hits D q dimensions k v) = map (Pair k) [0..<length (vsg_entries v)]"
    by (rule nth_equalityI) (simp_all add: segment_hits_def scored_def nth_enumerate_eq)
  have d: "distinct (map (Pair k) [0..<length (vsg_entries v)])" by (simp add: distinct_map inj_on_def)
  have s: "\<forall>h\<in>set (segment_hits D q dimensions k v). aht_segment_ordinal h = k" by (auto simp: segment_hits_def)
  have disjoint: "set (map hit_place (segment_hits D q dimensions k v)) \<inter> set (map hit_place (all_hits D q dimensions (Suc k) vs)) = {}"
    using s Cons[of "Suc k"] by fastforce
  show ?case using Cons[of "Suc k"] d s disjoint unfolding all_hits.simps map_append distinct_append p
    by (auto dest: Suc_leD)
qed simp

lemma ann_before_asym: "score_laws D \<Longrightarrow> ann_before D a b \<Longrightarrow> \<not> ann_before D b a"
  unfolding ann_before_def using less_asym by blast

definition exact_segment :: "YAP_V2_VECTOR_SEGMENT \<Rightarrow> 'i YAP_V2_ANN_SEGMENT" where
  "exact_segment v = \<lparr>asg_index = None, asg_vectors = Some v\<rparr>"

lemma exact_segment_hits:
  fixes s :: nat
  assumes D: "score_laws D"
    and h: "YAP_V2_ann_search U D mem (exact_segment v) (Some q) dimensions k k = Inr hits"
  defines "tagged \<equiv> map (\<lambda>hit. \<lparr>aht_segment_ordinal = s, aht_hit = hit\<rparr>)"
  shows "\<exists>B. mset (segment_hits D q dimensions s v) = mset (tagged hits) + mset B \<and>
    (\<forall>x\<in>set B. k \<le> card {y \<in> set (tagged hits). ann_before D y x}) \<and>
    (\<forall>x\<in>set (segment_hits D q dimensions s v). sc_isfinite D (vht_score (aht_hit x)))"
proof -
  have "YAP_Vector_search D mem (vsg_entries v) (Some q) dimensions (vsg_metric v) k k = Inr hits"
    using h by (auto simp: YAP_V2_ann_search_def exact_segment_def YAP_V2_vector_segment_search_def split: if_splits)
  from vector_search_hits[OF D this] obtain rest where
    se: "list_all (searchable D (vsg_metric v) q dimensions) (vsg_entries v)"
    and len: "length hits = min k (length (vsg_entries v))"
    and ms: "mset (hits @ rest) = mset (map (\<lambda>(i, e). scored D (vsg_metric v) q dimensions i e) (enumerate 0 (vsg_entries v)))"
    and so: "sorted_wrt (hit_before D) (hits @ rest)" by blast
  have "mset (segment_hits D q dimensions s v) = mset (tagged (hits @ rest))"
    unfolding segment_hits_def tagged_def mset_map[of "\<lambda>hit. \<lparr>aht_segment_ordinal = s, aht_hit = hit\<rparr>"] ms ..
  then have m: "mset (segment_hits D q dimensions s v) = mset (tagged hits) + mset (tagged rest)"
    by (simp add: tagged_def)
  have "k \<le> card {y \<in> set (tagged hits). ann_before D y x}" if x: "x \<in> set (tagged rest)" for x
  proof -
    obtain r where r: "x = \<lparr>aht_segment_ordinal = s, aht_hit = r\<rparr>" "r \<in> set rest" using x by (auto simp: tagged_def)
    have "length (hits @ rest) = length (vsg_entries v)" using mset_eq_length[OF ms] by simp
    moreover have "rest \<noteq> []" using r by auto
    ultimately have k: "length hits = k" using len by (cases rest) auto
    have "hit_before D y r \<Longrightarrow> ann_before D \<lparr>aht_segment_ordinal = s, aht_hit = y\<rparr> x" for y
      by (simp add: r(1) ann_before_def hit_before_def)
    moreover have "hit_before D y r" if "y \<in> set hits" for y using so that r(2) by (simp add: sorted_wrt_append)
    ultimately have all: "{y \<in> set (tagged hits). ann_before D y x} = set (tagged hits)"
      by (auto simp: tagged_def)
    have "mset (map hit_place (segment_hits D q dimensions s v)) = mset (map hit_place (tagged hits @ tagged rest))"
      by (simp add: m)
    moreover have "distinct (map hit_place (segment_hits D q dimensions s v))"
      using all_hits_places[of D q dimensions s "[v]"] by simp
    ultimately have "distinct (tagged hits)"
      by (metis distinct_append distinct_map mset_eq_imp_distinct_iff)
    then have "card (set (tagged hits)) = k" using distinct_card[of "tagged hits"] by (simp add: tagged_def k)
    then show ?thesis unfolding all by simp
  qed
  moreover have "\<forall>x\<in>set (segment_hits D q dimensions s v). sc_isfinite D (vht_score (aht_hit x))"
    using se by (auto simp: segment_hits_def in_set_enumerate_eq scored_def list_all_iff searchable_def)
  ultimately show ?thesis using m by blast
qed

lemma exact_candidates:
  assumes D: "score_laws D"
  shows "segment_candidates U D mem s (map exact_segment vs) (Some q) dimensions k = Inr C \<Longrightarrow>
    \<exists>B. mset (all_hits D q dimensions s vs) = mset C + mset B \<and>
      (\<forall>x\<in>set B. k \<le> card {y \<in> set C. ann_before D y x}) \<and>
      (\<forall>x\<in>set (all_hits D q dimensions s vs). sc_isfinite D (vht_score (aht_hit x)))"
proof (induction vs arbitrary: s C)
  case (Cons v vs)
  obtain hits C' where 1: "YAP_V2_ann_search U D mem (exact_segment v) (Some q) dimensions k k = Inr hits"
    and 2: "segment_candidates U D mem (Suc s) (map exact_segment vs) (Some q) dimensions k = Inr C'"
    and C: "C = map (\<lambda>hit. \<lparr>aht_segment_ordinal = s, aht_hit = hit\<rparr>) hits @ C'"
    using Cons.prems by (auto simp: result_simps)
  have mono: "card {y \<in> A. ann_before D y x} \<le> card {y \<in> set C. ann_before D y x}" if "A \<subseteq> set C" for A x
    using that by (intro card_mono) auto
  let ?t = "map (\<lambda>hit. \<lparr>aht_segment_ordinal = s, aht_hit = hit\<rparr>) hits"
  obtain B where B: "mset (segment_hits D q dimensions s v) = mset ?t + mset B"
    "\<forall>x\<in>set B. k \<le> card {y \<in> set ?t. ann_before D y x}"
    "\<forall>x\<in>set (segment_hits D q dimensions s v). sc_isfinite D (vht_score (aht_hit x))"
    using exact_segment_hits[OF D 1, of s] by blast
  obtain B' where B': "mset (all_hits D q dimensions (Suc s) vs) = mset C' + mset B'"
    "\<forall>x\<in>set B'. k \<le> card {y \<in> set C'. ann_before D y x}"
    "\<forall>x\<in>set (all_hits D q dimensions (Suc s) vs). sc_isfinite D (vht_score (aht_hit x))"
    using Cons.IH[OF 2] by blast
  have sub: "set ?t \<subseteq> set C" "set C' \<subseteq> set C" by (auto simp: C)
  have "\<forall>x\<in>set (B @ B'). k \<le> card {y \<in> set C. ann_before D y x}"
    using B(2) B'(2) mono[OF sub(1)] mono[OF sub(2)] by (auto intro: order_trans)
  moreover have "mset (all_hits D q dimensions s (v # vs)) = mset C + mset (B @ B')" by (simp add: B(1) B'(1) C)
  ultimately show ?case using B(3) B'(3) by (intro exI[of _ "B @ B'"]) auto
qed simp

text \<open>C21. Searching several segments without an approximate index is exact: although only the best
  \<open>top_k\<close> hits of each segment are collected, the result is the best \<open>top_k\<close> of all entries of all
  segments, by descending score and then by segment and position.\<close>

theorem ann_search_segments_exact:
  assumes D: "score_laws D"
    and h: "YAP_V2_ann_search_segments U D mem (map exact_segment vs) (Some q) dimensions top_k capacity = Inr hits"
  shows "length hits = min top_k (\<Sum>v\<leftarrow>vs. length (vsg_entries v)) \<and>
    (\<exists>rest. mset (hits @ rest) = mset (all_hits D q dimensions 0 vs) \<and> sorted_wrt (ann_before D) (hits @ rest))"
proof -
  obtain C where C: "segment_candidates U D mem 0 (map exact_segment vs) (Some q) dimensions top_k = Inr C"
    and hits: "hits = take top_k (qsort_by (compare_ann_hits D) C)"
    using h by (auto simp: YAP_V2_ann_search_segments_def result_simps split: if_splits)
  obtain B where B: "mset (all_hits D q dimensions 0 vs) = mset C + mset B"
    "\<forall>x\<in>set B. top_k \<le> card {y \<in> set C. ann_before D y x}"
    "\<forall>x\<in>set (all_hits D q dimensions 0 vs). sc_isfinite D (vht_score (aht_hit x))"
    using exact_candidates[OF D C] by blast
  let ?all = "all_hits D q dimensions 0 vs"
  let ?Z = "qsort_by (compare_ann_hits D) ?all"
  have d: "distinct (map hit_place ?all)" using all_hits_places by blast
  then have dC: "distinct (map hit_place C)"
    using B(1) by (metis distinct_append map_append mset_append mset_eq_imp_distinct_iff mset_map)
  have fC: "\<forall>x\<in>set C. sc_isfinite D (vht_score (aht_hit x))"
    using B(1,3) by (metis UnCI mset_append set_append set_mset_mset)
  have Z: "mset ?Z = mset ?all" by (rule mset_qsort_by)
  have top: "take top_k (qsort_by (compare_ann_hits D) C) = take top_k ?Z"
  proof (rule merge_top_k)
    show "sorted_wrt (ann_before D) ?Z" by (rule ann_sorted[OF D B(3) d])
    show "sorted_wrt (ann_before D) (qsort_by (compare_ann_hits D) C)" by (rule ann_sorted[OF D fC dC])
    show "mset ?Z = mset C + mset B" unfolding Z B(1) ..
    show "mset (qsort_by (compare_ann_hits D) C) = mset C" by (rule mset_qsort_by)
    show "distinct ?Z" using d Z by (metis distinct_map mset_eq_imp_distinct_iff)
    show "\<forall>x\<in>set ?Z. \<forall>y\<in>set ?Z. ann_before D x y \<longrightarrow> \<not> ann_before D y x" using ann_before_asym[OF D] by blast
    show "\<And>x. x \<in> set B \<Longrightarrow> top_k \<le> card {y \<in> set C. ann_before D y x}" using B(2) by blast
  qed
  have "length (all_hits D q dimensions s vs) = (\<Sum>v\<leftarrow>vs. length (vsg_entries v))" for s
    by (induction vs arbitrary: s) (simp_all add: segment_hits_def)
  then have "length ?Z = (\<Sum>v\<leftarrow>vs. length (vsg_entries v))" using mset_eq_length[OF Z] by simp
  moreover have "sorted_wrt (ann_before D) ?Z" by (rule ann_sorted[OF D B(3) d])
  ultimately show ?thesis
    unfolding hits top using Z by (intro conjI exI[of _ "drop top_k ?Z"]) simp_all
qed

definition tiny_segment :: "u32 \<Rightarrow> YAP_V2_VECTOR_SEGMENT" where
  "tiny_segment x = \<lparr>vsg_mapped = True, vsg_generation = 1, vsg_metric = YAP_V2_VECTOR_DOT, vsg_dimensions = 1,
     vsg_model_id = [], vsg_entries = [\<lparr>ven_id = View [1], ven_values = Some [x], ven_dimensions = 1\<rparr>]\<rparr>"

theorem ann_search_segments_exact_witness:
  "\<exists>hits rest. YAP_V2_ann_search_segments (undefined :: unit usearch_ops) int_scores (\<lambda>_. True)
      (map exact_segment [tiny_segment 2, tiny_segment 5]) (Some [3]) 1 1 1 = Inr hits \<and>
    hits = [\<lparr>aht_segment_ordinal = 1, aht_hit = \<lparr>vht_id = View [1], vht_ordinal = 0, vht_score = 15\<rparr>\<rparr>] \<and>
    mset (hits @ rest) = mset (all_hits int_scores [3] 1 0 [tiny_segment 2, tiny_segment 5])"
proof -
  have e: "YAP_V2_ann_search_segments (undefined :: unit usearch_ops) int_scores (\<lambda>_. True)
      (map exact_segment [tiny_segment 2, tiny_segment 5]) (Some [3]) 1 1 1 =
    Inr [\<lparr>aht_segment_ordinal = 1, aht_hit = \<lparr>vht_id = View [1], vht_ordinal = 0, vht_score = 15\<rparr>\<rparr>]"
    by (simp add: YAP_V2_ann_search_segments_def YAP_V2_ann_search_def exact_segment_def tiny_segment_def
        YAP_V2_vector_segment_search_def YAP_Vector_search_def int_scores_def validate_metric_def vector_metrics
        validate_values_def float_finite_def config_limits sizeof_vector_hit_def sizeof_ann_hit_def YAP_Vector_score_def
        raw_score_def dot_sum_def Let_def compare_hits_def compare_ann_hits_def)
  from ann_search_segments_exact[OF int_scores_laws e] e show ?thesis by blast
qed

end
