(* ===== verification/Keyed_Table.thy ===== *)
theory Keyed_Table
  imports Probe_Table "HOL-Library.Multiset"
begin

text \<open>
  Hash tables with linear probing whose slots carry their own keys: the term table of the segment planner,
  the visibility table of a snapshot, the candidate table of a query. A free slot is \<open>None\<close>. The
  capacity is a power of two and every loop takes it as its number of rounds.
\<close>

text \<open>The probing loops: they stop at a free slot or at one for which \<open>stop\<close> holds.\<close>

fun scan :: "('s \<Rightarrow> bool) \<Rightarrow> 's option list \<Rightarrow> nat \<Rightarrow> nat \<Rightarrow> nat option" where
  "scan stop slots index 0 = None"
| "scan stop slots index (Suc fuel) =
     (case slots ! index of
        None \<Rightarrow> Some index
      | Some s \<Rightarrow> if stop s then Some index else scan stop slots (next_slot (length slots) index) fuel)"

subsection \<open>Linear probing\<close>

definition stops :: "('s \<Rightarrow> bool) \<Rightarrow> 's option list \<Rightarrow> nat \<Rightarrow> bool" where
  "stops stop slots i \<longleftrightarrow> (case slots ! i of None \<Rightarrow> True | Some s \<Rightarrow> stop s)"

lemma scan_first:
  assumes "length slots = 2 ^ k" "q0 \<le> q" "q < q0 + fuel" "stops stop slots ((h + q) mod 2 ^ k)"
    and "\<forall>r. q0 \<le> r \<and> r < q \<longrightarrow> \<not> stops stop slots ((h + r) mod 2 ^ k)"
  shows "scan stop slots ((h + q0) mod 2 ^ k) fuel = Some ((h + q) mod 2 ^ k)"
  using assms
proof (induction fuel arbitrary: q0)
  case 0
  then show ?case by simp
next
  case (Suc fuel)
  show ?case
  proof (cases "q0 = q")
    case True
    with Suc.prems show ?thesis by (auto simp: stops_def split: option.splits)
  next
    case False
    then have n: "\<not> stops stop slots ((h + q0) mod 2 ^ k)" using Suc.prems by simp
    have "scan stop slots ((h + Suc q0) mod 2 ^ k) fuel = Some ((h + q) mod 2 ^ k)"
      by (rule Suc.IH) (use Suc.prems False in auto)
    then show ?thesis
      using n Suc.prems(1) by (auto simp: stops_def next_slot_pow2 mod_Suc_eq split: option.splits)
  qed
qed

lemma scan_total:
  assumes "length slots = 2 ^ k" "h < 2 ^ k" "None \<in> set slots"
  obtains p where "p < 2 ^ k" "scan stop slots h (2 ^ k) = Some ((h + p) mod 2 ^ k)"
    "stops stop slots ((h + p) mod 2 ^ k)" "\<forall>q<p. \<not> stops stop slots ((h + q) mod 2 ^ k)"
proof -
  obtain s where "s < 2 ^ k" "slots ! s = None" using assms(1,3) by (auto simp: in_set_conv_nth)
  then obtain f where f: "f < 2 ^ k" "stops stop slots ((h + f) mod 2 ^ k)"
    using mod_surj_from[OF assms(2)] by (metis stops_def option.case(1))
  define p where "p = (LEAST p. stops stop slots ((h + p) mod 2 ^ k))"
  have stop: "stops stop slots ((h + p) mod 2 ^ k)" unfolding p_def by (rule LeastI) (rule f(2))
  have le: "p \<le> f" unfolding p_def by (rule Least_le) (rule f(2))
  have min: "\<forall>q<p. \<not> stops stop slots ((h + q) mod 2 ^ k)" unfolding p_def by (blast dest: not_less_Least)
  have "scan stop slots ((h + 0) mod 2 ^ k) (2 ^ k) = Some ((h + p) mod 2 ^ k)"
    by (rule scan_first) (use assms(1) le f(1) stop min in auto)
  then show thesis using that[of p] le f(1) stop min assms(2) by simp
qed

text \<open>Every used slot is on the probe path of its key, behind used slots, and no key has two slots.\<close>

definition on_path :: "('k \<Rightarrow> nat \<Rightarrow> nat) \<Rightarrow> 's option list \<Rightarrow> 'k \<Rightarrow> nat \<Rightarrow> bool" where
  "on_path start slots key i \<longleftrightarrow> (\<exists>p < length slots. i = (start key (length slots) + p) mod length slots \<and>
     (\<forall>q<p. slots ! ((start key (length slots) + q) mod length slots) \<noteq> None))"

definition slots_inv :: "('k \<Rightarrow> nat \<Rightarrow> nat) \<Rightarrow> ('s \<Rightarrow> 'k) \<Rightarrow> 's option list \<Rightarrow> bool" where
  "slots_inv start key_of slots \<longleftrightarrow> (\<exists>k. length slots = 2 ^ k) \<and>
     (\<forall>i<length slots. \<forall>s. slots ! i = Some s \<longrightarrow> on_path start slots (key_of s) i) \<and>
     (\<forall>i<length slots. \<forall>j<length slots. \<forall>s t. slots ! i = Some s \<longrightarrow> slots ! j = Some t \<longrightarrow>
        key_of s = key_of t \<longrightarrow> i = j)"

lemma slots_inv_empty: "slots_inv start key_of (replicate (2 ^ k) None)"
  by (auto simp: slots_inv_def)

subsection \<open>The contents of the table\<close>

definition used_slots :: "'s option list \<Rightarrow> 's list" where
  "used_slots slots = concat (map (\<lambda>x. case x of None \<Rightarrow> [] | Some s \<Rightarrow> [s]) slots)"

lemma used_slots_simps [simp]:
  "used_slots [] = []" "used_slots (None # xs) = used_slots xs" "used_slots (Some s # xs) = s # used_slots xs"
  "used_slots (xs @ ys) = used_slots xs @ used_slots ys"
  by (simp_all add: used_slots_def)

lemma set_used_slots: "set (used_slots slots) = {s. Some s \<in> set slots}"
  by (induction slots) (auto simp: used_slots_def split: option.splits)

lemma length_used_slots: "length (used_slots slots) \<le> length slots \<and>
    (length (used_slots slots) < length slots \<longleftrightarrow> None \<in> set slots)"
  by (induction slots) (auto simp: used_slots_def split: option.splits)

lemma used_slots_replicate [simp]: "used_slots (replicate n None) = []"
  by (induction n) simp_all

lemma used_slots_update:
  assumes "i < length slots"
  shows "mset (used_slots (slots[i := Some s])) =
    add_mset s (case slots ! i of None \<Rightarrow> mset (used_slots slots) | Some t \<Rightarrow> mset (used_slots slots) - {#t#})"
proof -
  have "slots = take i slots @ slots ! i # drop (Suc i) slots" by (rule id_take_nth_drop[OF assms])
  moreover have "slots[i := Some s] = take i slots @ Some s # drop (Suc i) slots" by (rule upd_conv_take_nth_drop[OF assms])
  ultimately show ?thesis
    by (cases "slots ! i") (metis (no_types, lifting) used_slots_simps mset_append mset.simps(2) union_mset_add_mset_right
        option.case add_mset_remove_trivial)+
qed

lemma distinct_used_keys:
  assumes "slots_inv start key_of slots"
  shows "distinct (map key_of (used_slots slots))"
proof -
  have *: "distinct (map key_of (used_slots xs))"
    if "\<forall>i<length xs. \<forall>j<length xs. \<forall>s t. xs ! i = Some s \<longrightarrow> xs ! j = Some t \<longrightarrow> key_of s = key_of t \<longrightarrow> i = j" for xs
    using that
  proof (induction xs)
    case Nil
    show ?case by simp
  next
    case (Cons x xs)
    have rec: "distinct (map key_of (used_slots xs))"
    proof (rule Cons.IH, intro allI impI)
      fix i j s t assume "i < length xs" "j < length xs" "xs ! i = Some s" "xs ! j = Some t" "key_of s = key_of t"
      then show "i = j" using Cons.prems[rule_format, of "Suc i" "Suc j" s t] by simp
    qed
    show ?case
    proof (cases x)
      case None
      with rec show ?thesis by simp
    next
      case (Some s)
      have "key_of t \<noteq> key_of s" if t: "t \<in> set (used_slots xs)" for t
      proof
        assume e: "key_of t = key_of s"
        obtain j where j: "j < length xs" "xs ! j = Some t" using t by (auto simp: set_used_slots in_set_conv_nth)
        have "0 = Suc j" using Cons.prems e j Some by (metis Suc_less_eq length_Cons nth_Cons_0 nth_Cons_Suc zero_less_Suc)
        then show False by simp
      qed
      then have "key_of s \<notin> key_of ` set (used_slots xs)" by (metis imageE)
      with rec Some show ?thesis by simp
    qed
  qed
  show ?thesis by (rule *) (use assms in \<open>simp add: slots_inv_def\<close>)
qed

lemma on_path_update:
  assumes "on_path start slots key i" "slots ! j = None" "x \<noteq> None"
  shows "on_path start (slots[j := x]) key i"
proof -
  have "slots[j := x] ! t \<noteq> None" if "slots ! t \<noteq> None" for t
    using that assms(2,3) by (cases "t = j"; cases "j < length slots") (auto simp: list_update_beyond)
  then show ?thesis using assms(1) by (auto simp: on_path_def)
qed

lemma slots_inv_insert:
  assumes inv: "slots_inv start key_of slots" and i: "i < length slots" "slots ! i = None" "on_path start slots (key_of s) i"
    and new: "\<forall>t\<in>set (used_slots slots). key_of t \<noteq> key_of s"
  shows "slots_inv start key_of (slots[i := Some s])"
proof -
  let ?S = "slots[i := Some s]"
  have p: "on_path start ?S (key_of t) j" if "j < length ?S" "?S ! j = Some t" for j t
  proof (cases "j = i")
    case True
    then show ?thesis using that i by (auto intro: on_path_update)
  next
    case False
    then have "slots ! j = Some t" using that by simp
    then show ?thesis using inv i(2) that by (auto simp: slots_inv_def intro!: on_path_update)
  qed
  have u: "j = l" if h: "j < length ?S" "l < length ?S" "?S ! j = Some a" "?S ! l = Some b" "key_of a = key_of b" for j l a b
  proof -
    have other: "key_of t \<noteq> key_of s" if "m < length slots" "slots ! m = Some t" for m t
      using new that by (auto simp: set_used_slots in_set_conv_nth)
    consider "j = i" "l = i" | "j = i" "l \<noteq> i" | "j \<noteq> i" "l = i" | "j \<noteq> i" "l \<noteq> i" by blast
    then show ?thesis
    proof cases
      case 4
      with h inv show ?thesis unfolding slots_inv_def by simp
    qed (use h other i in auto)
  qed
  show ?thesis unfolding slots_inv_def using inv p u by (auto simp: slots_inv_def)
qed

lemma slots_inv_replace:
  assumes inv: "slots_inv start key_of slots" and i: "i < length slots" "slots ! i = Some t" "key_of s = key_of t"
  shows "slots_inv start key_of (slots[i := Some s])"
proof -
  let ?S = "slots[i := Some s]"
  have n: "?S ! j = None \<longleftrightarrow> slots ! j = None" for j
    using i by (cases "j = i") auto
  have st: "\<exists>t'. slots ! j = Some t' \<and> key_of t' = key_of a" if "?S ! j = Some a" for j a
    using that i by (cases "j = i") auto
  have op: "on_path start ?S key j = on_path start slots key j" for key j by (simp add: on_path_def n)
  show ?thesis
    unfolding slots_inv_def
  proof (intro conjI allI impI)
    show "\<exists>k. length ?S = 2 ^ k" using inv by (simp add: slots_inv_def)
    show "on_path start ?S (key_of a) j" if "j < length ?S" "?S ! j = Some a" for j a
      using st[OF that(2)] inv that(1) unfolding op slots_inv_def by auto
    show "j = l" if h: "j < length ?S" "l < length ?S" "?S ! j = Some a" "?S ! l = Some b" "key_of a = key_of b" for j l a b
    proof -
      obtain a' b' where "slots ! j = Some a'" "slots ! l = Some b'" "key_of a' = key_of b'"
        using st[OF h(3)] st[OF h(4)] h(5) by auto
      with inv h(1,2) show ?thesis unfolding slots_inv_def length_list_update by blast
    qed
  qed
qed

subsection \<open>The contract of a table\<close>

text \<open>
  A client chooses its slots \<open>'s\<close>, the key of a slot and the hash \<open>start\<close>, which must give a position of the
  table. In exchange a probe for a key finds its slot, or the free slot where it belongs.
\<close>

locale keyed_table =
  fixes start :: "'k \<Rightarrow> nat \<Rightarrow> nat" and key_of :: "'s \<Rightarrow> 'k"
  assumes start_less: "start key (2 ^ k) < 2 ^ k"
begin

lemma scan_key:
  assumes inv: "slots_inv start key_of slots" and free: "None \<in> set slots"
  obtains i where "i < length slots" "on_path start slots key i"
    "scan (\<lambda>s. key_of s = key) slots (start key (length slots)) (length slots) = Some i"
    "(\<exists>s. slots ! i = Some s \<and> key_of s = key) \<or>
     (slots ! i = None \<and> (\<forall>s. Some s \<in> set slots \<longrightarrow> key_of s \<noteq> key))"
proof -
  obtain k where k: "length slots = 2 ^ k" using inv by (auto simp: slots_inv_def)
  let ?h = "start key (2 ^ k)" and ?stop = "\<lambda>s. key_of s = key"
  obtain p where p: "p < 2 ^ k" "scan ?stop slots ?h (2 ^ k) = Some ((?h + p) mod 2 ^ k)"
    "stops ?stop slots ((?h + p) mod 2 ^ k)" "\<forall>q<p. \<not> stops ?stop slots ((?h + q) mod 2 ^ k)"
    by (rule scan_total[OF k start_less free])
  let ?i = "(?h + p) mod 2 ^ k"
  have op: "on_path start slots key ?i"
    using p(1,4) by (auto simp: on_path_def k stops_def split: option.splits intro!: exI[of _ p])
  have "key_of s \<noteq> key" if e: "slots ! ?i = None" and s: "Some s \<in> set slots" for s
  proof
    assume t: "key_of s = key"
    obtain j where j: "j < length slots" "slots ! j = Some s" using s by (auto simp: in_set_conv_nth)
    then obtain r where r: "r < 2 ^ k" "j = (?h + r) mod 2 ^ k" "\<forall>q<r. slots ! ((?h + q) mod 2 ^ k) \<noteq> None"
      using inv t k by (auto simp: slots_inv_def on_path_def)
    have "r < p \<Longrightarrow> False" using p(4) j r t by (auto simp: stops_def)
    moreover have "p < r \<Longrightarrow> False" using r(3) e by auto
    ultimately show False using e j r(2) by (cases r p rule: linorder_cases) auto
  qed
  then show thesis
    using that[of ?i] op p(2,3) k by (auto simp: stops_def split: option.splits)
qed

lemma scan_free:
  assumes inv: "slots_inv start key_of slots" and free: "None \<in> set slots"
  obtains i where "i < length slots" "slots ! i = None" "on_path start slots key i"
    "scan (\<lambda>_. False) slots (start key (length slots)) (length slots) = Some i"
proof -
  obtain k where k: "length slots = 2 ^ k" using inv by (auto simp: slots_inv_def)
  let ?h = "start key (2 ^ k)"
  obtain p where p: "p < 2 ^ k" "scan (\<lambda>_. False) slots ?h (2 ^ k) = Some ((?h + p) mod 2 ^ k)"
    "stops (\<lambda>_. False) slots ((?h + p) mod 2 ^ k)" "\<forall>q<p. \<not> stops (\<lambda>_. False) slots ((?h + q) mod 2 ^ k)"
    by (rule scan_total[OF k start_less free])
  show thesis
    using that[of "(?h + p) mod 2 ^ k"] p k
    by (auto simp: stops_def on_path_def split: option.splits intro!: exI[of _ p])
qed

end

end
