(* ===== verification/Term_Map.thy ===== *)
theory Term_Map
  imports Codec Keyed_Table
begin

text \<open>
  The term table of the segment planner, \<open>indexing/yappo_segment_planner_v2.c\<close>: an open-addressing hash
  table with linear probing that counts occurrences and postings per term. A free slot is \<open>None\<close>. The
  probing loops are those of \<open>Keyed_Table\<close>: \<open>None\<close> as a result means that the C loop would not end. Counters of type \<open>size_t\<close> count objects in memory and are natural numbers.
\<close>

subsection \<open>The table\<close>

record TERM_SLOT =
  ts_term :: bytes
  ts_occurrences :: nat
  ts_postings :: nat
  ts_last_object :: u64

record TERM_MAP =
  tm_slots :: "TERM_SLOT option list"
  tm_count :: nat

definition sizeof_term_slot :: nat where "sizeof_term_slot = 48"

definition term_map_empty :: TERM_MAP where
  "term_map_empty = \<lparr>tm_slots = [], tm_count = 0\<rparr>"

definition hash_bytes :: "bytes \<Rightarrow> u64" where
  "hash_bytes data = fnv_hash 1469598103934665603 data"

definition term_start :: "bytes \<Rightarrow> nat \<Rightarrow> nat" where
  "term_start key capacity = unat (hash_bytes key AND word_of_nat (capacity - 1))"

text \<open>The reinsertion loop of \<open>term_map_grow\<close> over the old slots.\<close>

fun reinsert :: "TERM_SLOT option list \<Rightarrow> TERM_SLOT option list \<times> nat \<Rightarrow> (TERM_SLOT option list \<times> nat) option" where
  "reinsert [] st = Some st"
| "reinsert (None # old) st = reinsert old st"
| "reinsert (Some s # old) (slots, n) =
     (case scan (\<lambda>_. False) slots (term_start (ts_term s) (length slots)) (length slots) of
        None \<Rightarrow> None
      | Some index \<Rightarrow> reinsert old (slots[index := Some s], Suc n))"

definition term_map_grow :: "(nat \<Rightarrow> bool) \<Rightarrow> TERM_MAP \<Rightarrow> TERM_MAP outcome option" where
  "term_map_grow mem m =
     (let old_capacity = length (tm_slots m);
          capacity = (if old_capacity = 0 then 256 else (old_capacity * 2) mod 2 ^ 64) in
      if capacity < old_capacity \<or> capacity > SIZE_MAX div sizeof_term_slot then Some (Inl YAP_V2_OUT_OF_RANGE)
      else if \<not> mem (capacity * sizeof_term_slot) then Some (Inl YAP_V2_ALLOCATION_FAILED)
      else case reinsert (tm_slots m) (replicate capacity None, 0) of
        None \<Rightarrow> None
      | Some (slots, n) \<Rightarrow> Some (Inr \<lparr>tm_slots = slots, tm_count = n\<rparr>))"

text \<open>The slot found or created is given by its index.\<close>

definition term_map_place :: "(nat \<Rightarrow> bool) \<Rightarrow> TERM_MAP \<Rightarrow> bytes \<Rightarrow> bool \<Rightarrow> (TERM_MAP \<times> nat option) outcome option" where
  "term_map_place mem m key create =
     (case scan (\<lambda>s. ts_term s = key) (tm_slots m) (term_start key (length (tm_slots m))) (length (tm_slots m)) of
        None \<Rightarrow> None
      | Some index \<Rightarrow>
          Some (if tm_slots m ! index \<noteq> None then Inr (m, Some index)
                else if \<not> create then Inr (m, None)
                else if \<not> mem (length key) then Inl YAP_V2_ALLOCATION_FAILED
                else Inr (\<lparr>tm_slots = (tm_slots m)[index := Some \<lparr>ts_term = key, ts_occurrences = 0,
                             ts_postings = 0, ts_last_object = 2 ^ 64 - 1\<rparr>], tm_count = tm_count m + 1\<rparr>,
                          Some index)))"

definition term_map_slot :: "(nat \<Rightarrow> bool) \<Rightarrow> TERM_MAP \<Rightarrow> bytes \<Rightarrow> bool \<Rightarrow> (TERM_MAP \<times> nat option) outcome option" where
  "term_map_slot mem m key create =
     (if length (tm_slots m) = 0 \<or> (create \<and> (tm_count m + 1) * 10 \<ge> length (tm_slots m) * 7)
      then case term_map_grow mem m of
             None \<Rightarrow> None
           | Some (Inl status) \<Rightarrow> Some (Inl status)
           | Some (Inr m) \<Rightarrow> term_map_place mem m key create
      else term_map_place mem m key create)"

definition term_map_find :: "TERM_MAP \<Rightarrow> bytes \<Rightarrow> TERM_SLOT option option" where
  "term_map_find m key =
     (if length (tm_slots m) = 0 then Some None
      else case scan (\<lambda>s. ts_term s = key) (tm_slots m) (term_start key (length (tm_slots m)))
                  (length (tm_slots m)) of
        None \<Rightarrow> None
      | Some index \<Rightarrow> Some (tm_slots m ! index))"

subsection \<open>Probing\<close>

abbreviation term_slots_inv :: "TERM_SLOT option list \<Rightarrow> bool" where
  "term_slots_inv \<equiv> slots_inv term_start ts_term"

lemma term_start_less: "term_start key (2 ^ k) < 2 ^ k"
  unfolding term_start_def by (rule masked_less)

interpretation term_table: keyed_table term_start ts_term
  by unfold_locales (rule term_start_less)

lemma reinsert_total:
  "term_slots_inv slots \<Longrightarrow> length (used_slots slots) + length (used_slots old) < length slots \<Longrightarrow>
   distinct (map ts_term (used_slots slots @ used_slots old)) \<Longrightarrow>
   \<exists>slots'. reinsert old (slots, n) = Some (slots', n + length (used_slots old)) \<and> term_slots_inv slots' \<and>
     length slots' = length slots \<and> mset (used_slots slots') = mset (used_slots slots) + mset (used_slots old)"
proof (induction old arbitrary: slots n)
  case Nil
  then show ?case by simp
next
  case (Cons x old)
  show ?case
  proof (cases x)
    case None
    then show ?thesis using Cons.IH[of slots n] Cons.prems by simp
  next
    case (Some s)
    have free: "None \<in> set slots" using Cons.prems(2) length_used_slots[of slots] by simp
    have new: "\<forall>t\<in>set (used_slots slots). ts_term t \<noteq> ts_term s"
      using Cons.prems(3) Some by (auto simp: image_iff)
    obtain i where i: "i < length slots" "slots ! i = None" "on_path term_start slots (ts_term s) i"
      "scan (\<lambda>_. False) slots (term_start (ts_term s) (length slots)) (length slots) = Some i"
      by (rule term_table.scan_free[OF Cons.prems(1) free])
    let ?S = "slots[i := Some s]"
    have inv: "term_slots_inv ?S" by (rule slots_inv_insert[OF Cons.prems(1) i(1-3) new])
    have m: "mset (used_slots ?S) = add_mset s (mset (used_slots slots))"
      using used_slots_update[OF i(1), of s] i(2) by simp
    then have len: "length (used_slots ?S) = Suc (length (used_slots slots))" by (metis size_mset size_add_mset)
    have "mset (map ts_term (used_slots ?S @ used_slots old)) = mset (map ts_term (used_slots slots @ used_slots (x # old)))"
      using m Some by simp
    then have d: "distinct (map ts_term (used_slots ?S @ used_slots old))"
      using Cons.prems(3) mset_eq_imp_distinct_iff by blast
    have "length (used_slots ?S) + length (used_slots old) < length ?S" using len Cons.prems(2) Some by simp
    from Cons.IH[OF inv this d, of "Suc n"] show ?thesis
      using i(4) m Some by auto
  qed
qed

subsection \<open>The contract of the table\<close>

definition term_slots :: "TERM_MAP \<Rightarrow> TERM_SLOT list" where
  "term_slots m = used_slots (tm_slots m)"

definition term_map_inv :: "TERM_MAP \<Rightarrow> bool" where
  "term_map_inv m \<longleftrightarrow> tm_count m = length (term_slots m) \<and>
     (tm_slots m = [] \<or> term_slots_inv (tm_slots m) \<and> 256 \<le> length (tm_slots m) \<and>
        length (tm_slots m) \<le> SIZE_MAX div sizeof_term_slot \<and> tm_count m * 10 < length (tm_slots m) * 7)"

definition term_lookup :: "TERM_MAP \<Rightarrow> bytes \<Rightarrow> TERM_SLOT option" where
  "term_lookup m key = map_of (map (\<lambda>s. (ts_term s, s)) (term_slots m)) key"

definition fresh_slot :: "bytes \<Rightarrow> TERM_SLOT" where
  "fresh_slot key = \<lparr>ts_term = key, ts_occurrences = 0, ts_postings = 0, ts_last_object = 2 ^ 64 - 1\<rparr>"

lemma term_map_inv_empty: "term_map_inv term_map_empty"
  by (simp add: term_map_inv_def term_map_empty_def term_slots_def)

lemma term_slots_distinct: "term_map_inv m \<Longrightarrow> distinct (map ts_term (term_slots m))"
  by (auto simp: term_map_inv_def term_slots_def distinct_used_keys)

lemma term_lookup_Some: "term_map_inv m \<Longrightarrow> term_lookup m key = Some s \<longleftrightarrow> s \<in> set (term_slots m) \<and> ts_term s = key"
  unfolding term_lookup_def using term_slots_distinct[of m]
  by (subst map_of_eq_Some_iff) (auto simp: comp_def)

lemma term_lookup_None: "term_map_inv m \<Longrightarrow> term_lookup m key = None \<longleftrightarrow> (\<forall>s\<in>set (term_slots m). ts_term s \<noteq> key)"
  using term_lookup_Some[of m key] by (metis not_None_eq)

lemma term_map_free:
  assumes "term_map_inv m" "tm_slots m \<noteq> []"
  shows "term_slots_inv (tm_slots m)" "None \<in> set (tm_slots m)"
proof -
  show "term_slots_inv (tm_slots m)" using assms by (auto simp: term_map_inv_def)
  have "length (used_slots (tm_slots m)) * 10 < length (tm_slots m) * 7"
    using assms by (auto simp: term_map_inv_def term_slots_def)
  then show "None \<in> set (tm_slots m)" using length_used_slots[of "tm_slots m"] by linarith
qed

lemma term_map_find_correct:
  assumes "term_map_inv m"
  shows "term_map_find m key = Some (term_lookup m key)"
proof (cases "tm_slots m = []")
  case True
  then show ?thesis by (simp add: term_map_find_def term_lookup_def term_slots_def)
next
  case False
  obtain i where i: "i < length (tm_slots m)"
    "scan (\<lambda>s. ts_term s = key) (tm_slots m) (term_start key (length (tm_slots m))) (length (tm_slots m)) = Some i"
    "(\<exists>s. tm_slots m ! i = Some s \<and> ts_term s = key) \<or>
     (tm_slots m ! i = None \<and> (\<forall>s. Some s \<in> set (tm_slots m) \<longrightarrow> ts_term s \<noteq> key))"
    by (rule term_table.scan_key[OF term_map_free[OF assms False], of key]) blast
  have "tm_slots m ! i = term_lookup m key"
    using i(3)
  proof
    assume "\<exists>s. tm_slots m ! i = Some s \<and> ts_term s = key"
    then show ?thesis using i(1) term_lookup_Some[OF assms]
      by (metis (mono_tags, lifting) mem_Collect_eq nth_mem set_used_slots term_slots_def)
  next
    assume "tm_slots m ! i = None \<and> (\<forall>s. Some s \<in> set (tm_slots m) \<longrightarrow> ts_term s \<noteq> key)"
    then show ?thesis using term_lookup_None[OF assms, of key] by (auto simp: term_slots_def set_used_slots)
  qed
  with i(2) False show ?thesis by (simp add: term_map_find_def)
qed

lemma term_map_grow_correct:
  assumes inv: "term_map_inv m"
  shows "(\<exists>s. term_map_grow mem m = Some (Inl s) \<and> s \<in> {YAP_V2_OUT_OF_RANGE, YAP_V2_ALLOCATION_FAILED}) \<or>
    (\<exists>m'. term_map_grow mem m = Some (Inr m') \<and> term_map_inv m' \<and> mset (term_slots m') = mset (term_slots m) \<and>
       tm_slots m' \<noteq> [] \<and> (tm_count m' + 1) * 10 < length (tm_slots m') * 7)"
proof -
  let ?old = "length (tm_slots m)"
  define cap where "cap = (if ?old = 0 then 256 else (?old * 2) mod 2 ^ 64)"
  have grow: "term_map_grow mem m =
     (if cap < ?old \<or> cap > SIZE_MAX div sizeof_term_slot then Some (Inl YAP_V2_OUT_OF_RANGE)
      else if \<not> mem (cap * sizeof_term_slot) then Some (Inl YAP_V2_ALLOCATION_FAILED)
      else case reinsert (tm_slots m) (replicate cap None, 0) of
        None \<Rightarrow> None
      | Some (slots, n) \<Rightarrow> Some (Inr \<lparr>tm_slots = slots, tm_count = n\<rparr>))"
    unfolding term_map_grow_def Let_def cap_def by (rule refl)
  show ?thesis
  proof (cases "cap < ?old \<or> cap > SIZE_MAX div sizeof_term_slot \<or> \<not> mem (cap * sizeof_term_slot)")
    case True
    then show ?thesis unfolding grow by auto
  next
    case False
    have le: "?old \<le> SIZE_MAX div sizeof_term_slot" using inv by (auto simp: term_map_inv_def)
    have cap: "cap = (if ?old = 0 then 256 else ?old * 2)"
      using le by (simp add: cap_def sizeof_term_slot_def)
    have pow: "\<exists>k. cap = 2 ^ k"
    proof (cases "?old = 0")
      case True
      then show ?thesis using cap by (intro exI[of _ 8]) simp
    next
      case False
      then obtain k where "?old = 2 ^ k" using inv by (auto simp: term_map_inv_def slots_inv_def)
      then show ?thesis using cap by (intro exI[of _ "Suc k"]) simp
    qed
    have cnt: "tm_count m = length (term_slots m)" "?old = 0 \<or> 256 \<le> ?old \<and> tm_count m * 10 < ?old * 7"
      using inv by (auto simp: term_map_inv_def)
    have z: "?old = 0 \<Longrightarrow> tm_count m = 0" using cnt(1) by (simp add: term_slots_def)
    have load: "(tm_count m + 1) * 10 < cap * 7" "256 \<le> cap" using cnt(2) cap z by (auto split: if_splits)
    have "\<exists>slots'. reinsert (tm_slots m) (replicate cap None, 0) = Some (slots', 0 + length (used_slots (tm_slots m))) \<and>
        term_slots_inv slots' \<and> length slots' = length (replicate cap (None :: TERM_SLOT option)) \<and>
        mset (used_slots slots') = mset (used_slots (replicate cap None)) + mset (used_slots (tm_slots m))"
    proof (rule reinsert_total)
      show "term_slots_inv (replicate cap None)" using pow slots_inv_empty by auto
      show "length (used_slots (replicate cap None)) + length (used_slots (tm_slots m)) <
          length (replicate cap (None :: TERM_SLOT option))"
        using load cnt(1) by (simp add: term_slots_def)
      show "distinct (map ts_term (used_slots (replicate cap None) @ used_slots (tm_slots m)))"
        using term_slots_distinct[OF inv] by (simp add: term_slots_def)
    qed
    then obtain slots' where r: "reinsert (tm_slots m) (replicate cap None, 0) = Some (slots', length (term_slots m))"
      "term_slots_inv slots'" "length slots' = cap" "mset (used_slots slots') = mset (term_slots m)"
      by (auto simp: term_slots_def)
    have len: "length (used_slots slots') = length (term_slots m)" using r(4) by (metis size_mset)
    have "term_map_grow mem m = Some (Inr \<lparr>tm_slots = slots', tm_count = length (term_slots m)\<rparr>)"
      using False r(1) by (simp add: grow)
    moreover have "term_map_inv \<lparr>tm_slots = slots', tm_count = length (term_slots m)\<rparr>"
      using r len load False cnt(1) by (auto simp: term_map_inv_def term_slots_def)
    ultimately show ?thesis using r load cnt(1) by (intro disjI2 exI) (auto simp: term_slots_def)
  qed
qed

lemma term_map_place_correct:
  assumes inv: "term_map_inv m" "tm_slots m \<noteq> []" and load: "(tm_count m + 1) * 10 < length (tm_slots m) * 7"
  shows "term_map_place mem m key True = Some (Inl YAP_V2_ALLOCATION_FAILED) \<or>
    (\<exists>m' i s. term_map_place mem m key True = Some (Inr (m', Some i)) \<and> term_map_inv m' \<and> i < length (tm_slots m') \<and>
       tm_slots m' ! i = Some s \<and> ts_term s = key \<and>
       (case term_lookup m key of
          Some t \<Rightarrow> s = t \<and> mset (term_slots m') = mset (term_slots m)
        | None \<Rightarrow> s = fresh_slot key \<and> mset (term_slots m') = add_mset s (mset (term_slots m))))"
proof -
  note free = term_map_free[OF inv]
  obtain i where i: "i < length (tm_slots m)" "on_path term_start (tm_slots m) key i"
    "scan (\<lambda>s. ts_term s = key) (tm_slots m) (term_start key (length (tm_slots m))) (length (tm_slots m)) = Some i"
    "(\<exists>s. tm_slots m ! i = Some s \<and> ts_term s = key) \<or>
     (tm_slots m ! i = None \<and> (\<forall>s. Some s \<in> set (tm_slots m) \<longrightarrow> ts_term s \<noteq> key))"
    by (rule term_table.scan_key[OF free, of key])
  show ?thesis
    using i(4)
  proof
    assume "\<exists>s. tm_slots m ! i = Some s \<and> ts_term s = key"
    then obtain s where s: "tm_slots m ! i = Some s" "ts_term s = key" by blast
    then have "term_lookup m key = Some s"
      unfolding term_lookup_Some[OF inv(1)] using i(1) by (metis mem_Collect_eq nth_mem set_used_slots term_slots_def)
    with s i(1,3) inv(1) show ?thesis by (auto simp: term_map_place_def)
  next
    assume n: "tm_slots m ! i = None \<and> (\<forall>s. Some s \<in> set (tm_slots m) \<longrightarrow> ts_term s \<noteq> key)"
    then have new: "\<forall>t\<in>set (used_slots (tm_slots m)). ts_term t \<noteq> ts_term (fresh_slot key)"
      by (simp add: set_used_slots fresh_slot_def)
    have lk: "term_lookup m key = None"
      using new by (simp add: term_lookup_None[OF inv(1)] term_slots_def fresh_slot_def)
    let ?m = "\<lparr>tm_slots = (tm_slots m)[i := Some (fresh_slot key)], tm_count = tm_count m + 1\<rparr>"
    have si: "term_slots_inv (tm_slots ?m)"
      using slots_inv_insert[OF free(1) i(1) _ _ new] n i(2) by (simp add: fresh_slot_def)
    have ms: "mset (term_slots ?m) = add_mset (fresh_slot key) (mset (term_slots m))"
      using used_slots_update[OF i(1), of "fresh_slot key"] n by (simp add: term_slots_def)
    then have "length (term_slots ?m) = Suc (length (term_slots m))" by (metis size_mset size_add_mset)
    then have "term_map_inv ?m" using inv si load by (auto simp: term_map_inv_def)
    with n i(1,3) ms lk show ?thesis by (auto simp: term_map_place_def fresh_slot_def)
  qed
qed

lemma term_map_slot_correct:
  assumes inv: "term_map_inv m"
  shows "(\<exists>s. term_map_slot mem m key True = Some (Inl s) \<and> s \<in> {YAP_V2_OUT_OF_RANGE, YAP_V2_ALLOCATION_FAILED}) \<or>
    (\<exists>m' i s. term_map_slot mem m key True = Some (Inr (m', Some i)) \<and> term_map_inv m' \<and> i < length (tm_slots m') \<and>
       tm_slots m' ! i = Some s \<and> ts_term s = key \<and>
       (case term_lookup m key of
          Some t \<Rightarrow> s = t \<and> mset (term_slots m') = mset (term_slots m)
        | None \<Rightarrow> s = fresh_slot key \<and> mset (term_slots m') = add_mset s (mset (term_slots m))))"
proof (cases "length (tm_slots m) = 0 \<or> (tm_count m + 1) * 10 \<ge> length (tm_slots m) * 7")
  case False
  then show ?thesis
    using term_map_place_correct[OF inv, of mem key] by (auto simp: term_map_slot_def)
next
  case True
  consider s where "term_map_grow mem m = Some (Inl s)" "s \<in> {YAP_V2_OUT_OF_RANGE, YAP_V2_ALLOCATION_FAILED}"
    | m' where "term_map_grow mem m = Some (Inr m')" "term_map_inv m'" "mset (term_slots m') = mset (term_slots m)"
       "tm_slots m' \<noteq> []" "(tm_count m' + 1) * 10 < length (tm_slots m') * 7"
    using term_map_grow_correct[OF inv, of mem] by blast
  then show ?thesis
  proof cases
    case 1
    with True show ?thesis by (auto simp: term_map_slot_def)
  next
    case 2
    have lk: "term_lookup m' key = term_lookup m key"
    proof -
      have "term_lookup m' key = Some s \<longleftrightarrow> term_lookup m key = Some s" for s
        unfolding term_lookup_Some[OF inv] term_lookup_Some[OF 2(2)] using 2(3) by (metis set_mset_mset)
      then show ?thesis by (metis not_None_eq)
    qed
    have "term_map_slot mem m key True = term_map_place mem m' key True"
      using True 2(1) by (auto simp: term_map_slot_def)
    with term_map_place_correct[OF 2(2,4,5), of mem key, unfolded lk 2(3)] show ?thesis by auto
  qed
qed

end
