(* ===== verification/Segment_Planner.thy ===== *)
theory Segment_Planner
  imports Term_Map Metadata_V2 Lexical_V2
begin

text \<open>
  The segment planner, \<open>indexing/yappo_segment_planner_v2.c\<close>: units (a document with its passages, or a
  tombstone) are sized and packed into segments whose files stay below the payload limits. \<open>mem\<close> says
  which allocations succeed, \<open>tokenize\<close>, \<open>json_read\<close> and \<open>print_real\<close> stand for the tokenizer, the JSON
  parser and \<open>%.17g\<close>. Sizes are natural numbers: they are sums of the sizes of objects in memory, and the
  places where the code checks for overflow are kept. A result \<open>None\<close> would be a loop that does not end.
\<close>

subsection \<open>Data\<close>

record YAP_V2_SEGMENT_UNIT =
  su_document :: "YAP_V2_DOCUMENT_VIEW option"
  su_passages :: "YAP_V2_PASSAGE_VIEW list"
  su_vectors :: "u32 list"
  su_tombstone :: YAP_V2_BYTES_VIEW

record YAP_V2_SEGMENT_SLICE =
  sl_first :: nat
  sl_count :: nat
  sl_payload_bytes :: "nat list"

record UNIT_SIZE =
  us_terms :: TERM_MAP
  us_document_bytes :: nat
  us_passage_bytes :: nat
  us_metadata_bytes :: nat
  us_passage_count :: nat
  us_vector_id_bytes :: nat

record 'r PREPARED_UNIT =
  pu_lexical :: YAP_V2_LEXICAL_PREPARED
  pu_metadata_document :: "'r json option"

record SIZER =
  sz_documents :: nat
  sz_passages :: nat
  sz_tombstones :: nat
  sz_document_payload :: nat
  sz_metadata_payload :: nat
  sz_vector_id_bytes :: nat
  sz_term_payload :: nat
  sz_posting_payload :: nat
  sz_position_payload :: nat
  sz_tombstone_payload :: nat
  sz_terms :: TERM_MAP

definition sizer_empty :: SIZER where
  "sizer_empty = \<lparr>sz_documents = 0, sz_passages = 0, sz_tombstones = 0, sz_document_payload = 0,
     sz_metadata_payload = 0, sz_vector_id_bytes = 0, sz_term_payload = 0, sz_posting_payload = 0,
     sz_position_payload = 0, sz_tombstone_payload = 0, sz_terms = term_map_empty\<rparr>"

definition unit_size_empty :: UNIT_SIZE where
  "unit_size_empty = \<lparr>us_terms = term_map_empty, us_document_bytes = 0, us_passage_bytes = 0,
     us_metadata_bytes = 0, us_passage_count = 0, us_vector_id_bytes = 0\<rparr>"

record 'r YAP_V2_SEGMENT_PLAN =
  pl_slices :: "YAP_V2_SEGMENT_SLICE list"
  pl_prepared_units :: "'r PREPARED_UNIT list"

record YAP_V2_SEGMENT_CAPACITY_ERROR =
  ce_component :: string
  ce_required_bytes :: nat
  ce_limit_bytes :: nat
  ce_document_id :: YAP_V2_BYTES_VIEW

record YAP_V2_SEGMENT_SIZE_POLICY =
  sp_target_payload_bytes :: nat
  sp_soft_max_payload_bytes :: nat
  sp_hard_max_payload_bytes :: nat

text \<open>A computation that may not end and may fail.\<close>

definition obind :: "('e + 'a) option \<Rightarrow> ('a \<Rightarrow> ('e + 'b) option) \<Rightarrow> ('e + 'b) option" where
  "obind x f = (case x of None \<Rightarrow> None | Some (Inl e) \<Rightarrow> Some (Inl e) | Some (Inr y) \<Rightarrow> f y)"

subsection \<open>Policy\<close>

text \<open>\<open>test_payload_limit\<close> is the limit the tests can set, 0 otherwise.\<close>

definition YAP_V2_segment_planner_payload_limit :: "nat \<Rightarrow> nat" where
  "YAP_V2_segment_planner_payload_limit test_payload_limit =
     (if test_payload_limit = 0 then YAP_V2_MAX_SEGMENT_PAYLOAD_BYTES else test_payload_limit)"

definition YAP_V2_segment_planner_size_policy :: "nat \<Rightarrow> YAP_V2_SEGMENT_SIZE_POLICY" where
  "YAP_V2_segment_planner_size_policy test_payload_limit =
     (if test_payload_limit \<noteq> 0
      then \<lparr>sp_target_payload_bytes = test_payload_limit, sp_soft_max_payload_bytes = test_payload_limit,
            sp_hard_max_payload_bytes = test_payload_limit\<rparr>
      else \<lparr>sp_target_payload_bytes = 128 * 1024 * 1024, sp_soft_max_payload_bytes = 192 * 1024 * 1024,
            sp_hard_max_payload_bytes = YAP_V2_MAX_SEGMENT_PAYLOAD_BYTES\<rparr>)"

definition YAP_V2_segment_count_validate :: "nat \<Rightarrow> nat \<Rightarrow> YAP_V2_STATUS" where
  "YAP_V2_segment_count_validate existing_count added_count =
     (if existing_count > YAP_V2_MAX_SEGMENTS \<or> added_count > YAP_V2_MAX_SEGMENTS - existing_count
      then YAP_V2_OUT_OF_RANGE else YAP_V2_OK)"

subsection \<open>Sizing one unit\<close>

definition checked_add :: "nat \<Rightarrow> nat \<Rightarrow> nat outcome" where
  "checked_add value additional =
     (if additional > SIZE_MAX - value then Inl YAP_V2_OUT_OF_RANGE else Inr (value + additional))"

definition bytes_view_size :: "YAP_V2_BYTES_VIEW \<Rightarrow> nat \<Rightarrow> nat outcome" where
  "bytes_view_size value usize =
     (if view_len value > SIZE_MAX - 4 then Inl YAP_V2_OUT_OF_RANGE
      else checked_add usize (4 + view_len value))"

definition scalar_size :: "('r \<Rightarrow> bytes) \<Rightarrow> 'r json \<Rightarrow> nat \<Rightarrow> nat outcome" where
  "scalar_size print_real value usize =
     (case value of
        Json_null \<Rightarrow> checked_add usize 20
      | Json_bool _ \<Rightarrow> checked_add usize (20 + 1)
      | Json_str s \<Rightarrow> checked_add usize (20 + length s)
      | Json_arr _ \<Rightarrow> Inr usize
      | Json_obj _ \<Rightarrow> Inr usize
      | _ \<Rightarrow> if length (number_text print_real value) \<ge> 64 then Inl YAP_V2_OUT_OF_RANGE
            else checked_add usize (20 + length (number_text print_real value)))"

fun scalar_sizes :: "('r \<Rightarrow> bytes) \<Rightarrow> 'r json list \<Rightarrow> nat \<Rightarrow> nat outcome" where
  "scalar_sizes print_real [] usize = Inr usize"
| "scalar_sizes print_real (item # items) usize =
     rbind (scalar_size print_real item usize) (scalar_sizes print_real items)"

definition value_size :: "('r \<Rightarrow> bytes) \<Rightarrow> 'r json \<Rightarrow> nat \<Rightarrow> nat outcome" where
  "value_size print_real value usize =
     (case value of Json_arr items \<Rightarrow> scalar_sizes print_real items usize
      | _ \<Rightarrow> scalar_size print_real value usize)"

fun field_sizes :: "('r \<Rightarrow> bytes) \<Rightarrow> 'r json \<Rightarrow> bytes list \<Rightarrow> nat \<Rightarrow> nat outcome" where
  "field_sizes print_real root [] usize = Inr usize"
| "field_sizes print_real root (row # rows) usize =
     rbind (case path_value root (c_string row) of None \<Rightarrow> Inr usize
            | Some value \<Rightarrow> value_size print_real value usize) (field_sizes print_real root rows)"

definition object_key :: "YAP_V2_LEXICAL_OCCURRENCE \<Rightarrow> u64" where
  "object_key occurrence =
     (if occ_object_type occurrence = YAP_V2_LEXICAL_DOCUMENT then 0 else occ_object_ordinal occurrence + 1)"

definition count_slot :: "u64 \<Rightarrow> TERM_SLOT \<Rightarrow> TERM_SLOT" where
  "count_slot key slot =
     (let slot = slot\<lparr>ts_occurrences := ts_occurrences slot + 1\<rparr> in
      if ts_last_object slot \<noteq> key
      then slot\<lparr>ts_postings := ts_postings slot + 1, ts_last_object := key\<rparr> else slot)"

text \<open>Writing through the slot pointer.\<close>

definition set_slot :: "TERM_MAP \<Rightarrow> nat \<Rightarrow> TERM_SLOT \<Rightarrow> TERM_MAP" where
  "set_slot m i slot = m\<lparr>tm_slots := (tm_slots m)[i := Some slot]\<rparr>"

fun count_terms :: "(nat \<Rightarrow> bool) \<Rightarrow> YAP_V2_LEXICAL_OCCURRENCE list \<Rightarrow> TERM_MAP \<Rightarrow> TERM_MAP outcome option" where
  "count_terms mem [] terms = Some (Inr terms)"
| "count_terms mem (occurrence # rest) terms =
     obind (term_map_slot mem terms (occ_term occurrence) True) (\<lambda>(terms, index).
       (let i = the index in
        count_terms mem rest (set_slot terms i (count_slot (object_key occurrence) (the (tm_slots terms ! i))))))"

definition document_size :: "YAP_V2_DOCUMENT_VIEW \<Rightarrow> nat outcome" where
  "document_size document =
     rbind (bytes_view_size (doc_id document) (8 + 8)) (\<lambda>usize.
     rbind (bytes_view_size (doc_url document) usize) (\<lambda>usize.
     rbind (bytes_view_size (doc_title document) usize) (\<lambda>usize.
     rbind (bytes_view_size (doc_body document) usize) (\<lambda>usize.
     bytes_view_size (doc_metadata_json document) usize))))"

definition passage_size :: "YAP_V2_PASSAGE_VIEW \<Rightarrow> nat outcome" where
  "passage_size passage =
     rbind (bytes_view_size (psg_id passage) (8 + 12)) (\<lambda>usize.
     rbind (bytes_view_size (psg_parent_document_id passage) usize) (\<lambda>usize.
     bytes_view_size (psg_text passage) usize))"

fun passage_sizes :: "YAP_V2_PASSAGE_VIEW list \<Rightarrow> nat \<times> nat \<Rightarrow> (nat \<times> nat) outcome" where
  "passage_sizes [] st = Inr st"
| "passage_sizes (passage # rest) (passage_bytes, vector_id_bytes) =
     rbind (passage_size passage) (\<lambda>usize.
     rbind (checked_add passage_bytes usize) (\<lambda>passage_bytes.
     rbind (checked_add vector_id_bytes (view_len (psg_id passage))) (\<lambda>vector_id_bytes.
     passage_sizes rest (passage_bytes, vector_id_bytes))))"

definition prepare_unit ::
  "(nat \<Rightarrow> bool) \<Rightarrow> tokenizer \<Rightarrow> (bytes \<Rightarrow> 'r json option) \<Rightarrow> ('r \<Rightarrow> bytes) \<Rightarrow> YAP_V2_CONFIG \<Rightarrow>
     YAP_V2_SEGMENT_UNIT \<Rightarrow> (UNIT_SIZE \<times> 'r PREPARED_UNIT) outcome option" where
  "prepare_unit mem tokenize json_read print_real config unit =
     (case su_document unit of
        None \<Rightarrow> Some (Inr (unit_size_empty,
                  \<lparr>pu_lexical = YAP_V2_lexical_prepared_init, pu_metadata_document = None\<rparr>))
      | Some document \<Rightarrow>
          obind (Some (document_size document)) (\<lambda>document_bytes.
          obind (Some (YAP_V2_lexical_prepare_unit mem tokenize (Some document) (su_passages unit))) (\<lambda>lexical.
          obind (count_terms mem (lp_items lexical) term_map_empty) (\<lambda>terms.
          obind (Some (passage_sizes (su_passages unit) (0, 0))) (\<lambda>(passage_bytes, vector_id_bytes).
          (case json_read (view_bytes (doc_metadata_json document)) of
             None \<Rightarrow> Some (Inl YAP_V2_INVALID_FORMAT)
           | Some root \<Rightarrow>
               if \<not> json_is_obj root then Some (Inl YAP_V2_INVALID_FORMAT)
               else obind (Some (field_sizes print_real root (cfg_filterable_fields config) 0)) (\<lambda>metadata_bytes.
                 Some (Inr (\<lparr>us_terms = terms, us_document_bytes = document_bytes,
                              us_passage_bytes = passage_bytes, us_metadata_bytes = metadata_bytes,
                              us_passage_count = length (su_passages unit),
                              us_vector_id_bytes = vector_id_bytes\<rparr>,
                            \<lparr>pu_lexical = lexical, pu_metadata_document = Some root\<rparr>)))))))))"

subsection \<open>Sizing a segment\<close>

definition metadata_base :: "YAP_V2_CONFIG \<Rightarrow> nat" where
  "metadata_base config = foldl (\<lambda>n row. n + (4 + length (c_string row))) 24 (cfg_filterable_fields config)"

definition component_sizes :: "YAP_V2_CONFIG \<Rightarrow> SIZER \<Rightarrow> nat \<Rightarrow> nat list" where
  "component_sizes config sizer segment_id_bytes =
     (let lexical = (\<lambda>n. if sz_documents sizer > 0 then n else 0);
          vector_bytes = 40 + length (c_string (cfg_vector_model_id config)) + sz_passages sizer * 16 +
                         sz_vector_id_bytes sizer;
          aligned = (vector_bytes + 4 - 1) div 4 * 4 in
      [24 + segment_id_bytes + sz_document_payload sizer,
       lexical (sz_term_payload sizer), lexical (sz_posting_payload sizer), lexical (sz_position_payload sizer),
       lexical (metadata_base config + sz_metadata_payload sizer),
       (if cfg_vector_metric config \<noteq> YAP_V2_VECTOR_DISABLED \<and> sz_passages sizer > 0
        then aligned + sz_passages sizer * unat (cfg_vector_dimensions config) * 4 else 0),
       (if sz_tombstones sizer > 0 then sz_tombstone_payload sizer else 0)])"

definition blocks :: "nat \<Rightarrow> nat" where
  "blocks postings = (postings + YAP_V2_POSTINGS_BLOCK_SIZE - 1) div YAP_V2_POSTINGS_BLOCK_SIZE"

text \<open>What \<open>projected_fits\<close> and \<open>sizer_add\<close> do before their loops over the terms of the unit.\<close>

definition add_fixed :: "SIZER \<Rightarrow> YAP_V2_SEGMENT_UNIT \<Rightarrow> UNIT_SIZE \<Rightarrow> SIZER" where
  "add_fixed sizer unit usize =
     (if su_document unit = None
      then sizer\<lparr>sz_tombstones := sz_tombstones sizer + 1,
             sz_tombstone_payload := (if sz_tombstones sizer + 1 = 1 then 12 else sz_tombstone_payload sizer) +
               (4 + view_len (su_tombstone unit))\<rparr>
      else
        (let sizer = (if sz_documents sizer = 0
               then sizer\<lparr>sz_term_payload := 12, sz_posting_payload := 56, sz_position_payload := 12\<rparr>
               else sizer) in
         sizer\<lparr>sz_documents := sz_documents sizer + 1,
           sz_passages := sz_passages sizer + us_passage_count usize,
           sz_document_payload := sz_document_payload sizer + (us_document_bytes usize + us_passage_bytes usize),
           sz_metadata_payload := sz_metadata_payload sizer + us_metadata_bytes usize,
           sz_vector_id_bytes := sz_vector_id_bytes sizer + us_vector_id_bytes usize\<rparr>))"

fun project_terms :: "TERM_MAP \<Rightarrow> TERM_SLOT option list \<Rightarrow> SIZER \<Rightarrow> SIZER option" where
  "project_terms terms [] projected = Some projected"
| "project_terms terms (None # slots) projected = project_terms terms slots projected"
| "project_terms terms (Some source # slots) projected =
     (case term_map_find terms (ts_term source) of
        None \<Rightarrow> None
      | Some target \<Rightarrow>
          (let projected = (case target of
                 None \<Rightarrow> projected\<lparr>sz_term_payload := sz_term_payload projected + (44 + length (ts_term source)),
                          sz_posting_payload := sz_posting_payload projected + 20,
                          sz_position_payload := sz_position_payload projected + 16\<rparr>
               | Some t \<Rightarrow> projected);
               old_postings = (case target of None \<Rightarrow> 0 | Some t \<Rightarrow> ts_postings t);
               old_blocks = (case target of None \<Rightarrow> 0 | Some t \<Rightarrow> blocks (ts_postings t));
               new_blocks = blocks (old_postings + ts_postings source) in
           project_terms terms slots
             (projected\<lparr>sz_posting_payload := sz_posting_payload projected +
                          (ts_postings source * 48 + (new_blocks - old_blocks) * 16),
                        sz_position_payload := sz_position_payload projected + ts_occurrences source * 8\<rparr>)))"

definition project :: "SIZER \<Rightarrow> YAP_V2_SEGMENT_UNIT \<Rightarrow> UNIT_SIZE \<Rightarrow> SIZER option" where
  "project sizer unit usize =
     (if su_document unit = None then Some (add_fixed sizer unit usize)
      else project_terms (sz_terms sizer) (tm_slots (us_terms usize)) (add_fixed sizer unit usize))"

definition component_names :: "string list" where
  "component_names = [''documents.yap2'', ''terms.yap2'', ''postings.yap2'', ''positions.yap2'',
     ''metadata.yap2'', ''vectors.yap2'', ''tombstones.yap2'']"

text \<open>The search for the largest component; the first of equals wins.\<close>

fun largest :: "(nat \<times> string) list \<Rightarrow> nat \<times> string \<Rightarrow> nat \<times> string" where
  "largest [] best = best"
| "largest ((usize, name) # rest) (required, component) =
     largest rest (if usize > required then (usize, name) else (required, component))"

definition projected_fits ::
  "YAP_V2_CONFIG \<Rightarrow> SIZER \<Rightarrow> YAP_V2_SEGMENT_UNIT \<Rightarrow> UNIT_SIZE \<Rightarrow> nat \<Rightarrow> nat \<Rightarrow> (YAP_V2_STATUS \<times> nat \<times> string) option" where
  "projected_fits config sizer unit usize segment_id_bytes limit =
     (case project sizer unit usize of
        None \<Rightarrow> None
      | Some projected \<Rightarrow>
          Some
            (let sizes = component_sizes config projected segment_id_bytes in
             if sz_documents sizer + (if su_document unit \<noteq> None then 1 else 0) > YAP_V2_MAX_SEGMENT_DOCUMENTS \<or>
                sz_passages sizer + us_passage_count usize > YAP_V2_MAX_SEGMENT_PASSAGES
               then (YAP_V2_SEGMENT_CAPACITY_EXCEEDED, limit + 1,
                     if su_document unit \<noteq> None then ''documents.yap2'' else ''tombstones.yap2'')
             else (if list_ex (\<lambda>n. n > limit) sizes then YAP_V2_SEGMENT_CAPACITY_EXCEEDED else YAP_V2_OK,
                   largest (zip sizes component_names) (0, ''''))))"

fun add_terms :: "(nat \<Rightarrow> bool) \<Rightarrow> TERM_SLOT option list \<Rightarrow> SIZER \<Rightarrow> SIZER outcome option" where
  "add_terms mem [] sizer = Some (Inr sizer)"
| "add_terms mem (None # slots) sizer = add_terms mem slots sizer"
| "add_terms mem (Some source # slots) sizer =
     obind (term_map_slot mem (sz_terms sizer) (ts_term source) True) (\<lambda>(terms, index).
       (let i = the index; target = the (tm_slots terms ! i);
            fresh = (ts_occurrences target = 0 \<and> ts_postings target = 0);
            sizer = (if fresh
              then sizer\<lparr>sz_term_payload := sz_term_payload sizer + (44 + length (ts_term source)),
                         sz_posting_payload := sz_posting_payload sizer + 20,
                         sz_position_payload := sz_position_payload sizer + 16\<rparr>
              else sizer);
            old_postings = (if fresh then 0 else ts_postings target);
            old_blocks = blocks old_postings;
            new_blocks = blocks (old_postings + ts_postings source) in
        add_terms mem slots
          (sizer\<lparr>sz_posting_payload := sz_posting_payload sizer +
                    (ts_postings source * 48 + (new_blocks - old_blocks) * 16),
                 sz_position_payload := sz_position_payload sizer + ts_occurrences source * 8,
                 sz_terms := set_slot terms i
                   (target\<lparr>ts_occurrences := ts_occurrences target + ts_occurrences source,
                           ts_postings := ts_postings target + ts_postings source\<rparr>)\<rparr>)))"

definition sizer_add :: "(nat \<Rightarrow> bool) \<Rightarrow> SIZER \<Rightarrow> YAP_V2_SEGMENT_UNIT \<Rightarrow> UNIT_SIZE \<Rightarrow> SIZER outcome option" where
  "sizer_add mem sizer unit usize =
     (if su_document unit = None then Some (Inr (add_fixed sizer unit usize))
      else add_terms mem (tm_slots (us_terms usize)) (add_fixed sizer unit usize))"

subsection \<open>Planning\<close>

definition sizeof_slice :: nat where "sizeof_slice = 72"
definition sizeof_prepared_unit :: nat where "sizeof_prepared_unit = 80"
definition sizeof_unit_size :: nat where "sizeof_unit_size = 64"

text \<open>A failed plan: the status and, when it is filled in, the capacity error.\<close>

type_synonym plan_error = "YAP_V2_STATUS \<times> YAP_V2_SEGMENT_CAPACITY_ERROR option"

definition plain :: "'a outcome option \<Rightarrow> (plan_error + 'a) option" where
  "plain x = map_option (map_sum (\<lambda>status. (status, None)) (\<lambda>y. y)) x"

definition plan_add ::
  "(nat \<Rightarrow> bool) \<Rightarrow> YAP_V2_SEGMENT_SLICE list \<Rightarrow> nat \<Rightarrow> nat \<Rightarrow> YAP_V2_CONFIG \<Rightarrow> SIZER \<Rightarrow> nat \<Rightarrow>
     YAP_V2_SEGMENT_SLICE list outcome" where
  "plan_add mem slices first n config sizer segment_id_bytes =
     (if length slices \<ge> YAP_V2_MAX_SEGMENTS then Inl YAP_V2_OUT_OF_RANGE
      else if \<not> mem ((length slices + 1) * sizeof_slice) then Inl YAP_V2_ALLOCATION_FAILED
      else Inr (slices @ [\<lparr>sl_first = first, sl_count = n,
                           sl_payload_bytes = component_sizes config sizer segment_id_bytes\<rparr>]))"

text \<open>The second half of a round: the unit goes to the open slice, or nowhere.\<close>

definition settle_unit ::
  "(nat \<Rightarrow> bool) \<Rightarrow> YAP_V2_CONFIG \<Rightarrow> nat \<Rightarrow> YAP_V2_SEGMENT_SIZE_POLICY \<Rightarrow> YAP_V2_SEGMENT_UNIT \<Rightarrow> UNIT_SIZE \<Rightarrow>
     YAP_V2_STATUS \<times> nat \<times> string \<Rightarrow> SIZER \<Rightarrow> (plan_error + SIZER) option" where
  "settle_unit mem config segment_id_bytes policy unit usize fit sizer =
     (case (if fst fit = YAP_V2_SEGMENT_CAPACITY_EXCEEDED
            then projected_fits config sizer unit usize segment_id_bytes (sp_hard_max_payload_bytes policy)
            else Some fit) of
        None \<Rightarrow> None
      | Some (status, required, component) \<Rightarrow>
          if status = YAP_V2_SEGMENT_CAPACITY_EXCEEDED
          then Some (Inl (status, Some \<lparr>ce_component = component, ce_required_bytes = required,
                 ce_limit_bytes = sp_hard_max_payload_bytes policy,
                 ce_document_id = (case su_document unit of Some document \<Rightarrow> doc_id document
                                   | None \<Rightarrow> su_tombstone unit)\<rparr>))
          else if status \<noteq> YAP_V2_OK then Some (Inl (status, None))
          else plain (sizer_add mem sizer unit usize))"

text \<open>One round of the packing loop: the start of the open slice, the closed slices and the sizer.\<close>

definition plan_unit ::
  "(nat \<Rightarrow> bool) \<Rightarrow> YAP_V2_CONFIG \<Rightarrow> nat \<Rightarrow> YAP_V2_SEGMENT_SIZE_POLICY \<Rightarrow> nat \<Rightarrow> YAP_V2_SEGMENT_UNIT \<Rightarrow> UNIT_SIZE \<Rightarrow>
     nat \<times> YAP_V2_SEGMENT_SLICE list \<times> SIZER \<Rightarrow> (plan_error + nat \<times> YAP_V2_SEGMENT_SLICE list \<times> SIZER) option" where
  "plan_unit mem config segment_id_bytes policy i unit usize = (\<lambda>(first, slices, sizer).
     (case projected_fits config sizer unit usize segment_id_bytes (sp_target_payload_bytes policy) of
        None \<Rightarrow> None
      | Some fit \<Rightarrow>
          if fst fit = YAP_V2_SEGMENT_CAPACITY_EXCEEDED \<and> i > first
          then obind (plain (Some (plan_add mem slices first (i - first) config sizer segment_id_bytes))) (\<lambda>slices.
            (case projected_fits config sizer_empty unit usize segment_id_bytes (sp_target_payload_bytes policy) of
               None \<Rightarrow> None
             | Some fit \<Rightarrow>
                 obind (settle_unit mem config segment_id_bytes policy unit usize fit sizer_empty) (\<lambda>sizer.
                   Some (Inr (i, slices, sizer)))))
          else obind (settle_unit mem config segment_id_bytes policy unit usize fit sizer) (\<lambda>sizer.
            Some (Inr (first, slices, sizer)))))"

fun plan_units ::
  "(nat \<Rightarrow> bool) \<Rightarrow> YAP_V2_CONFIG \<Rightarrow> nat \<Rightarrow> YAP_V2_SEGMENT_SIZE_POLICY \<Rightarrow> nat \<Rightarrow> (YAP_V2_SEGMENT_UNIT \<times> UNIT_SIZE) list \<Rightarrow>
     nat \<times> YAP_V2_SEGMENT_SLICE list \<times> SIZER \<Rightarrow> (plan_error + nat \<times> YAP_V2_SEGMENT_SLICE list \<times> SIZER) option" where
  "plan_units mem config segment_id_bytes policy i [] st = Some (Inr st)"
| "plan_units mem config segment_id_bytes policy i ((unit, usize) # rest) st =
     obind (plan_unit mem config segment_id_bytes policy i unit usize st)
       (plan_units mem config segment_id_bytes policy (Suc i) rest)"

fun prepare_units ::
  "(nat \<Rightarrow> bool) \<Rightarrow> tokenizer \<Rightarrow> (bytes \<Rightarrow> 'r json option) \<Rightarrow> ('r \<Rightarrow> bytes) \<Rightarrow> YAP_V2_CONFIG \<Rightarrow>
     YAP_V2_SEGMENT_UNIT list \<Rightarrow> (UNIT_SIZE \<times> 'r PREPARED_UNIT) list outcome option" where
  "prepare_units mem tokenize json_read print_real config [] = Some (Inr [])"
| "prepare_units mem tokenize json_read print_real config (unit # units) =
     obind (prepare_unit mem tokenize json_read print_real config unit) (\<lambda>p.
     obind (prepare_units mem tokenize json_read print_real config units) (\<lambda>ps. Some (Inr (p # ps))))"

fun range_sizer ::
  "(nat \<Rightarrow> bool) \<Rightarrow> YAP_V2_CONFIG \<Rightarrow> nat \<Rightarrow> nat \<Rightarrow> (YAP_V2_SEGMENT_UNIT \<times> UNIT_SIZE) list \<Rightarrow> SIZER \<Rightarrow> SIZER outcome option" where
  "range_sizer mem config segment_id_bytes limit [] sizer = Some (Inr sizer)"
| "range_sizer mem config segment_id_bytes limit ((unit, usize) # rest) sizer =
     (case projected_fits config sizer unit usize segment_id_bytes limit of
        None \<Rightarrow> None
      | Some fit \<Rightarrow>
          if fst fit \<noteq> YAP_V2_OK then Some (Inl (fst fit))
          else obind (sizer_add mem sizer unit usize) (range_sizer mem config segment_id_bytes limit rest))"

definition range_slice ::
  "(nat \<Rightarrow> bool) \<Rightarrow> YAP_V2_CONFIG \<Rightarrow> (YAP_V2_SEGMENT_UNIT \<times> UNIT_SIZE) list \<Rightarrow> nat \<Rightarrow> nat \<Rightarrow> nat \<Rightarrow> nat \<Rightarrow>
     YAP_V2_SEGMENT_SLICE outcome option" where
  "range_slice mem config units first n segment_id_bytes limit =
     obind (range_sizer mem config segment_id_bytes limit (take n (drop first units)) sizer_empty) (\<lambda>sizer.
       Some (Inr \<lparr>sl_first = first, sl_count = n,
                  sl_payload_bytes = component_sizes config sizer segment_id_bytes\<rparr>))"

definition slice_largest_payload :: "YAP_V2_SEGMENT_SLICE \<Rightarrow> nat" where
  "slice_largest_payload s = foldl (\<lambda>m n. if n > m then n else m) 0 (sl_payload_bytes s)"

definition merge_small_tail ::
  "(nat \<Rightarrow> bool) \<Rightarrow> YAP_V2_CONFIG \<Rightarrow> (YAP_V2_SEGMENT_UNIT \<times> UNIT_SIZE) list \<Rightarrow> nat \<Rightarrow> YAP_V2_SEGMENT_SIZE_POLICY \<Rightarrow>
     YAP_V2_SEGMENT_SLICE list \<Rightarrow> YAP_V2_SEGMENT_SLICE list outcome option" where
  "merge_small_tail mem config units segment_id_bytes policy slices =
     (if length slices < 2 then Some (Inr slices)
      else
        (let previous = slices ! (length slices - 2); tail = slices ! (length slices - 1) in
         if slice_largest_payload tail \<ge> sp_target_payload_bytes policy div 2 \<or>
            sl_first previous + sl_count previous \<noteq> sl_first tail
           then Some (Inr slices)
         else case range_slice mem config units (sl_first previous) (sl_count previous + sl_count tail)
                     segment_id_bytes (sp_soft_max_payload_bytes policy) of
           None \<Rightarrow> None
         | Some (Inl status) \<Rightarrow>
             if status = YAP_V2_SEGMENT_CAPACITY_EXCEEDED then Some (Inr slices) else Some (Inl status)
         | Some (Inr merged) \<Rightarrow> Some (Inr (take (length slices - 2) slices @ [merged]))))"

definition YAP_V2_segment_plan_bisect ::
  "(nat \<Rightarrow> bool) \<Rightarrow> 'r YAP_V2_SEGMENT_PLAN \<Rightarrow> nat \<Rightarrow> 'r YAP_V2_SEGMENT_PLAN outcome" where
  "YAP_V2_segment_plan_bisect mem plan slice_index =
     (let slices = pl_slices plan in
      if slice_index \<ge> length slices \<or> sl_count (slices ! slice_index) < 2 then Inl YAP_V2_INVALID_ARGUMENT
      else if length slices \<ge> YAP_V2_MAX_SEGMENTS \<or> length slices = SIZE_MAX div sizeof_slice
        then Inl YAP_V2_OUT_OF_RANGE
      else if \<not> mem ((length slices + 1) * sizeof_slice) then Inl YAP_V2_ALLOCATION_FAILED
      else
        (let original = slices ! slice_index; left_count = sl_count original div 2 in
         Inr (plan\<lparr>pl_slices := take slice_index slices @
           [\<lparr>sl_first = sl_first original, sl_count = left_count, sl_payload_bytes = replicate 7 0\<rparr>,
            \<lparr>sl_first = sl_first original + left_count, sl_count = sl_count original - left_count,
             sl_payload_bytes = replicate 7 0\<rparr>] @ drop (Suc slice_index) slices\<rparr>)))"

definition policy_valid :: "YAP_V2_SEGMENT_SIZE_POLICY \<Rightarrow> bool" where
  "policy_valid policy \<longleftrightarrow> sp_target_payload_bytes policy \<noteq> 0 \<and>
     sp_target_payload_bytes policy \<le> sp_soft_max_payload_bytes policy \<and>
     sp_soft_max_payload_bytes policy \<le> sp_hard_max_payload_bytes policy \<and>
     sp_hard_max_payload_bytes policy \<le> YAP_V2_MAX_SEGMENT_PAYLOAD_BYTES"

definition YAP_V2_segment_plan_with_policy ::
  "(nat \<Rightarrow> bool) \<Rightarrow> tokenizer \<Rightarrow> (bytes \<Rightarrow> 'r json option) \<Rightarrow> ('r \<Rightarrow> bytes) \<Rightarrow> YAP_V2_CONFIG \<Rightarrow>
     YAP_V2_SEGMENT_UNIT list \<Rightarrow> nat \<Rightarrow> YAP_V2_SEGMENT_SIZE_POLICY \<Rightarrow> (plan_error + 'r YAP_V2_SEGMENT_PLAN) option" where
  "YAP_V2_segment_plan_with_policy mem tokenize json_read print_real config units segment_id_bytes policy =
     (if segment_id_bytes = 0 \<or> \<not> policy_valid policy then Some (Inl (YAP_V2_INVALID_ARGUMENT, None))
      else if units \<noteq> [] \<and> (\<not> mem (length units * sizeof_prepared_unit) \<or> \<not> mem (length units * sizeof_unit_size))
        then Some (Inl (YAP_V2_ALLOCATION_FAILED, None))
      else
        obind (plain (prepare_units mem tokenize json_read print_real config units)) (\<lambda>prepared.
        (let sized = zip units (map fst prepared) in
         obind (plan_units mem config segment_id_bytes policy 0 sized (0, [], sizer_empty)) (\<lambda>(first, slices, sizer).
         obind (plain (Some (plan_add mem slices first (length units - first) config sizer segment_id_bytes))) (\<lambda>slices.
         obind (plain (merge_small_tail mem config sized segment_id_bytes policy slices)) (\<lambda>slices.
         Some (Inr \<lparr>pl_slices = slices, pl_prepared_units = map snd prepared\<rparr>)))))))"

definition YAP_V2_segment_plan ::
  "(nat \<Rightarrow> bool) \<Rightarrow> tokenizer \<Rightarrow> (bytes \<Rightarrow> 'r json option) \<Rightarrow> ('r \<Rightarrow> bytes) \<Rightarrow> YAP_V2_CONFIG \<Rightarrow>
     YAP_V2_SEGMENT_UNIT list \<Rightarrow> nat \<Rightarrow> nat \<Rightarrow> (plan_error + 'r YAP_V2_SEGMENT_PLAN) option" where
  "YAP_V2_segment_plan mem tokenize json_read print_real config units segment_id_bytes payload_limit =
     YAP_V2_segment_plan_with_policy mem tokenize json_read print_real config units segment_id_bytes
       \<lparr>sp_target_payload_bytes = payload_limit, sp_soft_max_payload_bytes = payload_limit,
        sp_hard_max_payload_bytes = payload_limit\<rparr>"

subsection \<open>Updating a slot\<close>

lemma obind_simps [simp]:
  "obind None f = None" "obind (Some (Inl e)) f = Some (Inl e)" "obind (Some (Inr x)) f = f x"
  by (simp_all add: obind_def)

lemma obind_Inr: "obind x f = Some (Inr y) \<longleftrightarrow> (\<exists>z. x = Some (Inr z) \<and> f z = Some (Inr y))"
  by (auto simp: obind_def split: option.splits sum.splits)

lemma obind_Inl: "obind x f = Some (Inl e) \<longleftrightarrow> x = Some (Inl e) \<or> (\<exists>z. x = Some (Inr z) \<and> f z = Some (Inl e))"
  by (auto simp: obind_def split: option.splits sum.splits)

lemma obind_None: "obind x f = None \<longleftrightarrow> x = None \<or> (\<exists>z. x = Some (Inr z) \<and> f z = None)"
  by (auto simp: obind_def split: option.splits sum.splits)

lemma plain_Inr [simp]: "plain x = Some (Inr y) \<longleftrightarrow> x = Some (Inr y)"
  by (cases x; cases "the x") (auto simp: plain_def)

lemma plain_None [simp]: "plain x = None \<longleftrightarrow> x = None"
  by (simp add: plain_def)

lemma plain_Inl [simp]: "plain x = Some (Inl e) \<longleftrightarrow> x = Some (Inl (fst e)) \<and> snd e = None"
  by (cases x; cases "the x"; cases e) (auto simp: plain_def)

lemma set_slot_correct:
  assumes inv: "term_map_inv m" and i: "i < length (tm_slots m)" "tm_slots m ! i = Some s" "ts_term s' = ts_term s"
  shows "term_map_inv (set_slot m i s')"
    and "mset (term_slots (set_slot m i s')) = add_mset s' (mset (term_slots m) - {#s#})"
proof -
  show ms: "mset (term_slots (set_slot m i s')) = add_mset s' (mset (term_slots m) - {#s#})"
    using used_slots_update[OF i(1), of s'] i(2) by (simp add: set_slot_def term_slots_def)
  have "s \<in># mset (term_slots m)" using i by (auto simp: term_slots_def set_used_slots in_set_conv_nth)
  then have "size (mset (term_slots (set_slot m i s'))) = size (mset (term_slots m))"
    unfolding ms by (simp add: size_Diff_singleton) (metis Suc_pred length_pos_if_in_set)
  then have len: "length (term_slots (set_slot m i s')) = length (term_slots m)" by (simp only: size_mset)
  have "term_slots_inv (tm_slots m) \<Longrightarrow> term_slots_inv (tm_slots (set_slot m i s'))"
    using slots_inv_replace[OF _ i] by (simp add: set_slot_def)
  then show "term_map_inv (set_slot m i s')"
    using inv i(1) len unfolding term_map_inv_def by (auto simp: set_slot_def)
qed

lemma mset_lookup:
  assumes "term_map_inv m" "term_map_inv m'" "term_lookup m key = old"
    and "mset (term_slots m') = add_mset s' (mset (term_slots m) - (case old of None \<Rightarrow> {#} | Some t \<Rightarrow> {#t#}))"
    and "ts_term s' = key"
  shows "term_lookup m' t = (if t = key then Some s' else term_lookup m t)"
proof -
  have mem: "x \<in> set (term_slots m') \<longleftrightarrow> x = s' \<or> (x \<in> set (term_slots m) \<and> ts_term x \<noteq> key)" for x
  proof -
    have "x \<in> set (term_slots m') \<longleftrightarrow> x \<in># mset (term_slots m')" by simp
    also have "\<dots> \<longleftrightarrow> x = s' \<or> x \<in># mset (term_slots m) - (case old of None \<Rightarrow> {#} | Some t \<Rightarrow> {#t#})"
      unfolding assms(4) by simp
    also have "\<dots> \<longleftrightarrow> x = s' \<or> (x \<in> set (term_slots m) \<and> ts_term x \<noteq> key)"
    proof (cases old)
      case None
      then show ?thesis using assms(3) term_lookup_None[OF assms(1), of key] by auto
    next
      case (Some u)
      have u: "u \<in> set (term_slots m)" "ts_term u = key"
        using assms(3) Some term_lookup_Some[OF assms(1)] by auto
      have d: "distinct (term_slots m)" "inj_on ts_term (set (term_slots m))"
        using term_slots_distinct[OF assms(1)] by (auto simp: distinct_map)
      have "x \<in># mset (term_slots m) - {#u#} \<longleftrightarrow> x \<in> set (term_slots m) \<and> x \<noteq> u"
        using set_remove1_eq[OF d(1), of u] by (metis Diff_iff in_multiset_in_set mset_remove1 singleton_iff)
      moreover have "x \<noteq> u \<longleftrightarrow> ts_term x \<noteq> key" if "x \<in> set (term_slots m)" using d(2) u that by (auto simp: inj_on_def)
      ultimately show ?thesis using Some by auto
    qed
    finally show ?thesis .
  qed
  show ?thesis
  proof (cases "t = key")
    case True
    then show ?thesis using mem term_lookup_Some[OF assms(2), of key s'] assms(5) by simp
  next
    case False
    then have "term_lookup m' t = Some x \<longleftrightarrow> term_lookup m t = Some x" for x
      unfolding term_lookup_Some[OF assms(1)] term_lookup_Some[OF assms(2)] using mem assms(5) by auto
    with False show ?thesis by (metis not_None_eq)
  qed
qed

text \<open>Finding or creating the slot of a term and writing a new value through the pointer.\<close>

definition slot_of :: "TERM_MAP \<Rightarrow> bytes \<Rightarrow> TERM_SLOT" where
  "slot_of m key = (case term_lookup m key of Some t \<Rightarrow> t | None \<Rightarrow> fresh_slot key)"

lemma ts_term_fresh [simp]: "ts_term (fresh_slot key) = key"
  by (simp add: fresh_slot_def)

lemma slot_of_term: "term_map_inv m \<Longrightarrow> ts_term (slot_of m key) = key"
  by (auto simp: slot_of_def term_lookup_Some split: option.splits)

lemma slot_update:
  assumes inv: "term_map_inv m"
  shows "(\<exists>s. term_map_slot mem m key True = Some (Inl s) \<and> s \<in> {YAP_V2_OUT_OF_RANGE, YAP_V2_ALLOCATION_FAILED}) \<or>
    (\<exists>m' i. term_map_slot mem m key True = Some (Inr (m', Some i)) \<and> tm_slots m' ! i = Some (slot_of m key) \<and>
      (\<forall>s'. ts_term s' = key \<longrightarrow> term_map_inv (set_slot m' i s') \<and>
         (\<forall>t. term_lookup (set_slot m' i s') t = (if t = key then Some s' else term_lookup m t)) \<and>
         mset (term_slots (set_slot m' i s')) = add_mset s' (mset (term_slots m) -
           (case term_lookup m key of None \<Rightarrow> {#} | Some t \<Rightarrow> {#t#}))))"
proof -
  consider s where "term_map_slot mem m key True = Some (Inl s)" "s \<in> {YAP_V2_OUT_OF_RANGE, YAP_V2_ALLOCATION_FAILED}"
    | m' i s where "term_map_slot mem m key True = Some (Inr (m', Some i))" "term_map_inv m'" "i < length (tm_slots m')"
       "tm_slots m' ! i = Some s" "ts_term s = key"
       "case term_lookup m key of
          Some t \<Rightarrow> s = t \<and> mset (term_slots m') = mset (term_slots m)
        | None \<Rightarrow> s = fresh_slot key \<and> mset (term_slots m') = add_mset s (mset (term_slots m))"
    using term_map_slot_correct[OF inv, of mem key] by blast
  then show ?thesis
  proof cases
    case (2 m' i s)
    have s: "s = slot_of m key" using 2(6) by (auto simp: slot_of_def split: option.splits)
    have "term_map_inv (set_slot m' i s') \<and>
         (\<forall>t. term_lookup (set_slot m' i s') t = (if t = key then Some s' else term_lookup m t)) \<and>
         mset (term_slots (set_slot m' i s')) = add_mset s' (mset (term_slots m) -
           (case term_lookup m key of None \<Rightarrow> {#} | Some t \<Rightarrow> {#t#}))" if k: "ts_term s' = key" for s'
    proof -
      note u = set_slot_correct[OF 2(2-4), of s']
      have ms: "mset (term_slots (set_slot m' i s')) = add_mset s' (mset (term_slots m) -
           (case term_lookup m key of None \<Rightarrow> {#} | Some t \<Rightarrow> {#t#}))"
        using u(2) k 2(5,6) by (auto split: option.splits)
      moreover have "term_map_inv (set_slot m' i s')" using u(1) k 2(5) by simp
      ultimately show ?thesis using mset_lookup[OF inv _ refl ms k] by blast
    qed
    with 2(1,4) s show ?thesis by blast
  qed blast
qed

subsection \<open>The terms of a unit\<close>

definition old_postings :: "(bytes \<Rightarrow> TERM_SLOT option) \<Rightarrow> bytes \<Rightarrow> nat" where
  "old_postings L key = (case L key of None \<Rightarrow> 0 | Some t \<Rightarrow> ts_postings t)"

definition term_growth :: "(bytes \<Rightarrow> TERM_SLOT option) \<Rightarrow> TERM_SLOT \<Rightarrow> nat" where
  "term_growth L s = (if L (ts_term s) = None then 44 + length (ts_term s) else 0)"

definition posting_growth :: "(bytes \<Rightarrow> TERM_SLOT option) \<Rightarrow> TERM_SLOT \<Rightarrow> nat" where
  "posting_growth L s = (if L (ts_term s) = None then 20 else 0) + (ts_postings s * 48 +
     (blocks (old_postings L (ts_term s) + ts_postings s) - blocks (old_postings L (ts_term s))) * 16)"

definition position_growth :: "(bytes \<Rightarrow> TERM_SLOT option) \<Rightarrow> TERM_SLOT \<Rightarrow> nat" where
  "position_growth L s = (if L (ts_term s) = None then 16 else 0) + ts_occurrences s * 8"

definition grown :: "(bytes \<Rightarrow> TERM_SLOT option) \<Rightarrow> TERM_SLOT list \<Rightarrow> SIZER \<Rightarrow> SIZER" where
  "grown L sources sizer = sizer\<lparr>sz_term_payload := sz_term_payload sizer + sum_list (map (term_growth L) sources),
     sz_posting_payload := sz_posting_payload sizer + sum_list (map (posting_growth L) sources),
     sz_position_payload := sz_position_payload sizer + sum_list (map (position_growth L) sources)\<rparr>"

lemma grown_Nil [simp]: "grown L [] sizer = sizer"
  by (simp add: grown_def)

lemma blocks_0 [simp]: "blocks 0 = 0"
  by (simp add: blocks_def lexical_constants)

lemma project_terms_correct:
  assumes "term_map_inv terms"
  shows "project_terms terms slots projected = Some (grown (term_lookup terms) (used_slots slots) projected)"
proof (induction slots arbitrary: projected)
  case Nil
  show ?case by simp
next
  case (Cons x slots)
  show ?case
  proof (cases x)
    case None
    then show ?thesis using Cons by simp
  next
    case (Some s)
    show ?thesis
      using Cons by (cases "term_lookup terms (ts_term s)")
        (simp_all add: Some term_map_find_correct[OF assms] Let_def grown_def term_growth_def posting_growth_def
          position_growth_def old_postings_def add.assoc)
  qed
qed

text \<open>Merging the counts of a unit.\<close>

definition merge_slot :: "TERM_SLOT \<Rightarrow> TERM_SLOT \<Rightarrow> TERM_SLOT" where
  "merge_slot target s = target\<lparr>ts_occurrences := ts_occurrences target + ts_occurrences s,
     ts_postings := ts_postings target + ts_postings s\<rparr>"

definition counted :: "TERM_MAP \<Rightarrow> bool" where
  "counted m \<longleftrightarrow> term_map_inv m \<and> (\<forall>s\<in>set (term_slots m). 0 < ts_occurrences s)"

lemma counted_update:
  assumes "counted m" "mset (term_slots m') = add_mset s' (mset (term_slots m) - d)" "term_map_inv m'" "0 < ts_occurrences s'"
  shows "counted m'"
proof -
  have "x \<in> set (term_slots m') \<Longrightarrow> x = s' \<or> x \<in> set (term_slots m)" for x
    by (metis assms(2) in_diffD insert_iff set_mset_add_mset_insert set_mset_mset)
  then show ?thesis using assms unfolding counted_def by blast
qed

lemma add_terms_correct:
  "counted (sz_terms sizer) \<Longrightarrow> distinct (map ts_term (used_slots slots)) \<Longrightarrow>
   \<forall>s\<in>set (used_slots slots). 0 < ts_occurrences s \<Longrightarrow>
   (\<exists>s. add_terms mem slots sizer = Some (Inl s) \<and> s \<in> {YAP_V2_OUT_OF_RANGE, YAP_V2_ALLOCATION_FAILED}) \<or>
   (\<exists>terms. add_terms mem slots sizer = Some (Inr ((grown (term_lookup (sz_terms sizer)) (used_slots slots) sizer)
       \<lparr>sz_terms := terms\<rparr>)) \<and> counted terms \<and>
     (\<forall>t. term_lookup terms t = (case find (\<lambda>s. ts_term s = t) (used_slots slots) of
        None \<Rightarrow> term_lookup (sz_terms sizer) t
      | Some s \<Rightarrow> Some (merge_slot (slot_of (sz_terms sizer) t) s))))"
proof (induction slots arbitrary: sizer)
  case Nil
  then show ?case by (intro disjI2 exI[of _ "sz_terms sizer"]) simp
next
  case (Cons x slots)
  show ?case
  proof (cases x)
    case None
    then show ?thesis using Cons by simp
  next
    case (Some s)
    let ?L = "term_lookup (sz_terms sizer)" and ?key = "ts_term s"
    have inv: "term_map_inv (sz_terms sizer)" using Cons.prems(1) by (simp add: counted_def)
    consider e where "term_map_slot mem (sz_terms sizer) ?key True = Some (Inl e)" "e \<in> {YAP_V2_OUT_OF_RANGE, YAP_V2_ALLOCATION_FAILED}"
      | m' i where "term_map_slot mem (sz_terms sizer) ?key True = Some (Inr (m', Some i))"
        "tm_slots m' ! i = Some (slot_of (sz_terms sizer) ?key)"
        "\<And>s'. ts_term s' = ?key \<Longrightarrow> term_map_inv (set_slot m' i s') \<and>
         (\<forall>t. term_lookup (set_slot m' i s') t = (if t = ?key then Some s' else ?L t)) \<and>
         mset (term_slots (set_slot m' i s')) = add_mset s' (mset (term_slots (sz_terms sizer)) -
           (case ?L ?key of None \<Rightarrow> {#} | Some t \<Rightarrow> {#t#}))"
      using slot_update[OF inv, of mem ?key] by blast
    then show ?thesis
    proof cases
      case 1
      then show ?thesis by (simp add: Some)
    next
      case (2 m' i)
      let ?t = "slot_of (sz_terms sizer) ?key" and ?s' = "merge_slot (slot_of (sz_terms sizer) ?key) s"
      have k: "ts_term ?s' = ?key" using slot_of_term[OF inv] by (simp add: merge_slot_def)
      note m'' = 2(3)[OF k]
      define T where "T = set_slot m' i ?s'"
      have occ: "0 < ts_occurrences s" using Cons.prems(3) Some by simp
      have fresh: "(ts_occurrences ?t = 0 \<and> ts_postings ?t = 0) \<longleftrightarrow> ?L ?key = None"
      proof (cases "?L ?key")
        case None
        then show ?thesis by (simp add: slot_of_def fresh_slot_def)
      next
        case (Some u)
        then have "0 < ts_occurrences u" using Cons.prems(1) term_lookup_Some[OF inv] by (auto simp: counted_def)
        then show ?thesis using Some by (simp add: slot_of_def)
      qed
      have post: "ts_postings ?t = old_postings ?L ?key"
        by (auto simp: slot_of_def old_postings_def fresh_slot_def split: option.splits)
      have T: "counted T"
        unfolding T_def
      proof (rule counted_update[OF Cons.prems(1)])
        show "mset (term_slots (set_slot m' i ?s')) = add_mset ?s' (mset (term_slots (sz_terms sizer)) -
           (case ?L ?key of None \<Rightarrow> {#} | Some t \<Rightarrow> {#t#}))" "term_map_inv (set_slot m' i ?s')"
          using m'' by blast+
      qed (use occ in \<open>simp add: merge_slot_def\<close>)
      define sizer1 where "sizer1 = (grown ?L [s] sizer)\<lparr>sz_terms := T\<rparr>"
      have step: "add_terms mem (x # slots) sizer = add_terms mem slots sizer1"
        using 2(1,2) fresh post
        by (auto simp: Some Let_def sizer1_def grown_def T_def term_growth_def posting_growth_def position_growth_def
            merge_slot_def old_postings_def add.assoc)
      have L1: "term_lookup (sz_terms sizer1) t = (if t = ?key then Some ?s' else ?L t)" for t
        using m'' by (simp add: sizer1_def T_def)
      have other: "ts_term u \<noteq> ?key" if "u \<in> set (used_slots slots)" for u
        using Cons.prems(2) that unfolding Some used_slots_simps list.map distinct.simps(2) set_map
        by (metis imageI)
      have gr: "grown (term_lookup (sz_terms sizer1)) (used_slots slots) sizer1 =
          (grown ?L (used_slots (x # slots)) sizer)\<lparr>sz_terms := T\<rparr>"
      proof -
        have "term_growth (term_lookup (sz_terms sizer1)) u = term_growth ?L u"
          "posting_growth (term_lookup (sz_terms sizer1)) u = posting_growth ?L u"
          "position_growth (term_lookup (sz_terms sizer1)) u = position_growth ?L u" if "u \<in> set (used_slots slots)" for u
          using other[OF that] by (simp_all add: term_growth_def posting_growth_def position_growth_def old_postings_def L1)
        then have "map (term_growth (term_lookup (sz_terms sizer1))) (used_slots slots) = map (term_growth ?L) (used_slots slots)"
          "map (posting_growth (term_lookup (sz_terms sizer1))) (used_slots slots) = map (posting_growth ?L) (used_slots slots)"
          "map (position_growth (term_lookup (sz_terms sizer1))) (used_slots slots) = map (position_growth ?L) (used_slots slots)"
          by simp_all
        then have "grown (term_lookup (sz_terms sizer1)) (used_slots slots) sizer1 = grown ?L (used_slots slots) sizer1"
          by (simp only: grown_def)
        also have "\<dots> = (grown ?L (used_slots (x # slots)) sizer)\<lparr>sz_terms := T\<rparr>"
          unfolding sizer1_def Some by (simp add: grown_def add.assoc)
        finally show ?thesis .
      qed
      have so: "slot_of (sz_terms sizer1) t = slot_of (sz_terms sizer) t" if "t \<noteq> ?key" for t
        using that by (simp add: slot_of_def L1)
      have ih: "(\<exists>e. add_terms mem slots sizer1 = Some (Inl e) \<and> e \<in> {YAP_V2_OUT_OF_RANGE, YAP_V2_ALLOCATION_FAILED}) \<or>
       (\<exists>terms. add_terms mem slots sizer1 = Some (Inr ((grown (term_lookup (sz_terms sizer1)) (used_slots slots) sizer1)
           \<lparr>sz_terms := terms\<rparr>)) \<and> counted terms \<and>
         (\<forall>t. term_lookup terms t = (case find (\<lambda>s. ts_term s = t) (used_slots slots) of
            None \<Rightarrow> term_lookup (sz_terms sizer1) t
          | Some s \<Rightarrow> Some (merge_slot (slot_of (sz_terms sizer1) t) s))))"
        by (rule Cons.IH) (use T Cons.prems Some in \<open>simp_all add: sizer1_def\<close>)
      have nf: "find (\<lambda>u. ts_term u = ?key) (used_slots slots) = None"
        using other by (auto simp: find_None_iff)
      have fs: "(case find (\<lambda>u. ts_term u = t) (used_slots slots) of
            None \<Rightarrow> term_lookup (sz_terms sizer1) t
          | Some u \<Rightarrow> Some (merge_slot (slot_of (sz_terms sizer1) t) u)) =
          (case find (\<lambda>u. ts_term u = t) (used_slots (x # slots)) of
            None \<Rightarrow> ?L t
          | Some u \<Rightarrow> Some (merge_slot (slot_of (sz_terms sizer) t) u))" for t
        by (cases "t = ?key") (auto simp: Some nf L1 so split: option.splits)
      show ?thesis
        using ih unfolding step gr fs by simp
    qed
  qed
qed

subsection \<open>Counting the terms of a unit\<close>

definition counted_slot :: "YAP_V2_LEXICAL_OCCURRENCE list \<Rightarrow> bytes \<Rightarrow> TERM_SLOT option \<Rightarrow> TERM_SLOT option" where
  "counted_slot items t old =
     (let mine = filter (\<lambda>x. occ_term x = t) items in
      if mine = [] then old
      else Some (fold (\<lambda>x. count_slot (object_key x)) mine (case old of None \<Rightarrow> fresh_slot t | Some s \<Rightarrow> s)))"

lemma count_slot_simps [simp]: "ts_term (count_slot key s) = ts_term s" "ts_occurrences (count_slot key s) = ts_occurrences s + 1"
  by (simp_all add: count_slot_def Let_def)

lemma count_slot_postings: "ts_postings (count_slot key s) = ts_postings s + (if ts_last_object s = key then 0 else 1)"
  by (simp add: count_slot_def Let_def)

lemma counted_Cons:
  "counted_slot (x # items) t old = counted_slot items t
     (if t = occ_term x then Some (count_slot (object_key x) (case old of None \<Rightarrow> fresh_slot t | Some s \<Rightarrow> s)) else old)"
  by (auto simp: counted_slot_def Let_def)

lemma count_terms_correct:
  "counted terms \<Longrightarrow>
   (\<exists>s. count_terms mem items terms = Some (Inl s) \<and> s \<in> {YAP_V2_OUT_OF_RANGE, YAP_V2_ALLOCATION_FAILED}) \<or>
   (\<exists>m. count_terms mem items terms = Some (Inr m) \<and> counted m \<and>
      (\<forall>t. term_lookup m t = counted_slot items t (term_lookup terms t)))"
proof (induction items arbitrary: terms)
  case Nil
  then show ?case by (simp add: counted_slot_def)
next
  case (Cons x items)
  let ?key = "occ_term x"
  have inv: "term_map_inv terms" using Cons.prems by (simp add: counted_def)
  consider e where "term_map_slot mem terms ?key True = Some (Inl e)" "e \<in> {YAP_V2_OUT_OF_RANGE, YAP_V2_ALLOCATION_FAILED}"
    | m' i where "term_map_slot mem terms ?key True = Some (Inr (m', Some i))"
      "tm_slots m' ! i = Some (slot_of terms ?key)"
      "\<And>s'. ts_term s' = ?key \<Longrightarrow> term_map_inv (set_slot m' i s') \<and>
       (\<forall>t. term_lookup (set_slot m' i s') t = (if t = ?key then Some s' else term_lookup terms t)) \<and>
       mset (term_slots (set_slot m' i s')) = add_mset s' (mset (term_slots terms) -
         (case term_lookup terms ?key of None \<Rightarrow> {#} | Some t \<Rightarrow> {#t#}))"
    using slot_update[OF inv, of mem ?key] by blast
  then show ?case
  proof cases
    case 1
    then show ?thesis by simp
  next
    case (2 m' i)
    let ?s' = "count_slot (object_key x) (slot_of terms ?key)"
    have k: "ts_term ?s' = ?key" using slot_of_term[OF inv] by simp
    note u = 2(3)[OF k]
    define T where "T = set_slot m' i ?s'"
    have T: "counted T" unfolding T_def using u by (intro counted_update[OF Cons.prems]) auto
    have step: "count_terms mem (x # items) terms = count_terms mem items T"
      using 2(1,2) by (simp add: T_def)
    have "counted_slot items t (term_lookup T t) = counted_slot (x # items) t (term_lookup terms t)" for t
    proof -
      have "term_lookup T t = (if t = ?key then Some ?s' else term_lookup terms t)" using u unfolding T_def by blast
      then show ?thesis by (cases "t = ?key") (simp_all add: counted_Cons slot_of_def)
    qed
    then show ?thesis using Cons.IH[OF T] unfolding step by simp
  qed
qed

text \<open>When the occurrences of an object stand together, a term's postings are its objects.\<close>

fun grouped :: "'a list \<Rightarrow> bool" where
  "grouped [] = True"
| "grouped (x # xs) = ((case xs of [] \<Rightarrow> True | y # ys \<Rightarrow> x = y \<or> x \<notin> set xs) \<and> grouped xs)"

lemma fold_count_slot:
  "grouped (map object_key xs) \<Longrightarrow>
   (case xs of [] \<Rightarrow> True | x # _ \<Rightarrow> object_key x = ts_last_object s \<or> ts_last_object s \<notin> object_key ` set xs) \<Longrightarrow>
   ts_occurrences (fold (\<lambda>x. count_slot (object_key x)) xs s) = ts_occurrences s + length xs \<and>
   ts_postings (fold (\<lambda>x. count_slot (object_key x)) xs s) =
     ts_postings s + card (object_key ` set xs - {ts_last_object s}) \<and>
   ts_term (fold (\<lambda>x. count_slot (object_key x)) xs s) = ts_term s"
proof (induction xs arbitrary: s)
  case Nil
  show ?case by simp
next
  case (Cons x xs)
  let ?s = "count_slot (object_key x) s"
  have last: "ts_last_object ?s = object_key x" by (auto simp: count_slot_def Let_def)
  have ih: "ts_occurrences (fold (\<lambda>x. count_slot (object_key x)) xs ?s) = ts_occurrences ?s + length xs \<and>
   ts_postings (fold (\<lambda>x. count_slot (object_key x)) xs ?s) = ts_postings ?s + card (object_key ` set xs - {object_key x}) \<and>
   ts_term (fold (\<lambda>x. count_slot (object_key x)) xs ?s) = ts_term ?s"
    using Cons.IH[of ?s] Cons.prems(1) by (cases xs) (auto simp: last)
  have "card (object_key ` set (x # xs) - {ts_last_object s}) =
    (if object_key x = ts_last_object s then 0 else 1) + card (object_key ` set xs - {object_key x})"
  proof (cases "object_key x = ts_last_object s")
    case True
    then show ?thesis by (simp add: insert_Diff_if)
  next
    case False
    then have "object_key ` set (x # xs) - {ts_last_object s} = insert (object_key x) (object_key ` set xs - {object_key x})"
      using Cons.prems(2) by auto
    also have "card \<dots> = Suc (card (object_key ` set xs - {object_key x}))" by (rule card_insert_disjoint) auto
    finally show ?thesis using False by simp
  qed
  with ih show ?case by (auto simp: count_slot_postings)
qed

subsection \<open>The size of a slice\<close>

text \<open>
  What a slice should measure, from its units alone: \<open>ds\<close> are the sizes of its document units. A term
  costs its entry in each lexical file once, and its postings and positions add up over the units.
\<close>

definition occurrences_in :: "(bytes \<Rightarrow> TERM_SLOT option) \<Rightarrow> bytes \<Rightarrow> nat" where
  "occurrences_in L t = (case L t of None \<Rightarrow> 0 | Some s \<Rightarrow> ts_occurrences s)"

definition slice_terms :: "UNIT_SIZE list \<Rightarrow> bytes set" where
  "slice_terms ds = (\<Union>u\<in>set ds. ts_term ` set (term_slots (us_terms u)))"

definition slice_postings :: "UNIT_SIZE list \<Rightarrow> bytes \<Rightarrow> nat" where
  "slice_postings ds t = (\<Sum>u\<leftarrow>ds. old_postings (term_lookup (us_terms u)) t)"

definition slice_occurrences :: "UNIT_SIZE list \<Rightarrow> bytes \<Rightarrow> nat" where
  "slice_occurrences ds t = (\<Sum>u\<leftarrow>ds. occurrences_in (term_lookup (us_terms u)) t)"

definition unit_documents :: "(YAP_V2_SEGMENT_UNIT \<times> UNIT_SIZE) list \<Rightarrow> UNIT_SIZE list" where
  "unit_documents us = map snd (filter (\<lambda>u. su_document (fst u) \<noteq> None) us)"

definition unit_tombstones :: "(YAP_V2_SEGMENT_UNIT \<times> UNIT_SIZE) list \<Rightarrow> YAP_V2_BYTES_VIEW list" where
  "unit_tombstones us = map (su_tombstone \<circ> fst) (filter (\<lambda>u. su_document (fst u) = None) us)"

definition slice_sizer :: "(YAP_V2_SEGMENT_UNIT \<times> UNIT_SIZE) list \<Rightarrow> SIZER" where
  "slice_sizer us =
     (let ds = unit_documents us; ts = unit_tombstones us; lexical = (\<lambda>n. if ds = [] then 0 else n) in
      \<lparr>sz_documents = length ds,
       sz_passages = (\<Sum>u\<leftarrow>ds. us_passage_count u),
       sz_tombstones = length ts,
       sz_document_payload = (\<Sum>u\<leftarrow>ds. us_document_bytes u + us_passage_bytes u),
       sz_metadata_payload = (\<Sum>u\<leftarrow>ds. us_metadata_bytes u),
       sz_vector_id_bytes = (\<Sum>u\<leftarrow>ds. us_vector_id_bytes u),
       sz_term_payload = lexical (12 + (\<Sum>t\<in>slice_terms ds. 44 + length t)),
       sz_posting_payload = lexical (56 + (\<Sum>t\<in>slice_terms ds.
         20 + 48 * slice_postings ds t + 16 * blocks (slice_postings ds t))),
       sz_position_payload = lexical (12 + (\<Sum>t\<in>slice_terms ds. 16 + 8 * slice_occurrences ds t)),
       sz_tombstone_payload = (if ts = [] then 0 else 12 + (\<Sum>t\<leftarrow>ts. 4 + view_len t)),
       sz_terms = term_map_empty\<rparr>)"

definition slice_sizes :: "YAP_V2_CONFIG \<Rightarrow> nat \<Rightarrow> (YAP_V2_SEGMENT_UNIT \<times> UNIT_SIZE) list \<Rightarrow> nat list" where
  "slice_sizes config segment_id_bytes us = component_sizes config (slice_sizer us) segment_id_bytes"

definition unit_ok :: "YAP_V2_SEGMENT_UNIT \<times> UNIT_SIZE \<Rightarrow> bool" where
  "unit_ok u \<longleftrightarrow> counted (us_terms (snd u)) \<and> (su_document (fst u) = None \<longrightarrow> us_passage_count (snd u) = 0)"

text \<open>The sizer's invariant: it holds these numbers and the terms' totals.\<close>

definition sized :: "(YAP_V2_SEGMENT_UNIT \<times> UNIT_SIZE) list \<Rightarrow> SIZER \<Rightarrow> bool" where
  "sized us sizer \<longleftrightarrow>
     sizer = (slice_sizer us)\<lparr>sz_terms := sz_terms sizer\<rparr> \<and> counted (sz_terms sizer) \<and>
     (\<forall>t. (term_lookup (sz_terms sizer) t \<noteq> None \<longleftrightarrow> t \<in> slice_terms (unit_documents us)) \<and>
          old_postings (term_lookup (sz_terms sizer)) t = slice_postings (unit_documents us) t \<and>
          occurrences_in (term_lookup (sz_terms sizer)) t = slice_occurrences (unit_documents us) t)"

lemma growth_sum:
  fixes f f' g :: "'a \<Rightarrow> nat"
  assumes "finite A" "finite S" "\<And>t. t \<in> S \<Longrightarrow> f' t = (if t \<in> A then f t else 0) + g t"
    "\<And>t. t \<in> A \<Longrightarrow> t \<notin> S \<Longrightarrow> f' t = f t"
  shows "sum f' (A \<union> S) = sum f A + sum g S"
proof -
  have "sum f' (A \<union> S) = sum f' (A - S) + sum f' S"
    using assms(1,2) sum.union_disjoint[of "A - S" S f'] by (simp add: Diff_Int_distrib2)
  also have "sum f' (A - S) = sum f (A - S)" using assms(4) by (intro sum.cong) auto
  also have "sum f' S = (\<Sum>t\<in>S. if t \<in> A then f t else 0) + sum g S"
    using assms(3) by (simp add: sum.distrib)
  also have "(\<Sum>t\<in>S. if t \<in> A then f t else 0) = sum f (A \<inter> S)"
    using sum.inter_restrict[OF assms(2), of f A] by (simp add: Int_commute)
  finally show ?thesis using assms(1) sum.Int_Diff[of A f S] by simp
qed

lemma sum_slots:
  assumes "term_map_inv m"
  shows "(\<Sum>s\<leftarrow>term_slots m. f s) = (\<Sum>t\<in>ts_term ` set (term_slots m). f (the (term_lookup m t)))"
proof -
  have d: "distinct (term_slots m)" "inj_on ts_term (set (term_slots m))"
    using term_slots_distinct[OF assms] by (auto simp: distinct_map)
  have "term_lookup m (ts_term s) = Some s" if "s \<in> set (term_slots m)" for s
    using term_lookup_Some[OF assms] that by blast
  then show ?thesis using d by (simp add: sum_list_distinct_conv_sum_set sum.reindex)
qed

lemma finite_slice_terms [simp]: "finite (slice_terms ds)"
  by (simp add: slice_terms_def)

lemma slice_terms_Nil [simp]: "slice_terms [] = {}"
  by (simp add: slice_terms_def)

lemma slice_append [simp]:
  "slice_terms (ds @ [u]) = slice_terms ds \<union> ts_term ` set (term_slots (us_terms u))"
  "slice_postings (ds @ [u]) t = slice_postings ds t + old_postings (term_lookup (us_terms u)) t"
  "slice_occurrences (ds @ [u]) t = slice_occurrences ds t + occurrences_in (term_lookup (us_terms u)) t"
  by (auto simp: slice_terms_def slice_postings_def slice_occurrences_def)

lemma unit_append [simp]:
  "unit_documents (us @ [u]) = unit_documents us @ (if su_document (fst u) = None then [] else [snd u])"
  "unit_tombstones (us @ [u]) = unit_tombstones us @ (if su_document (fst u) = None then [su_tombstone (fst u)] else [])"
  by (auto simp: unit_documents_def unit_tombstones_def)

lemma blocks_mono: "blocks p \<le> blocks (p + q)"
  by (auto simp: blocks_def intro: div_le_mono)

lemma not_slice_term: "t \<notin> slice_terms ds \<Longrightarrow> slice_postings ds t = 0 \<and> slice_occurrences ds t = 0" for t
proof (induction ds rule: rev_induct)
  case (snoc u ds)
  then have "t \<notin> ts_term ` set (term_slots (us_terms u))" by simp
  then have "term_lookup (us_terms u) t = None" by (simp add: term_lookup_def map_of_eq_None_iff image_image)
  with snoc show ?case by (simp add: old_postings_def occurrences_in_def)
qed (simp add: slice_postings_def slice_occurrences_def)

lemma slot_terms_dom: "term_map_inv m \<Longrightarrow> t \<in> ts_term ` set (term_slots m) \<longleftrightarrow> term_lookup m t \<noteq> None"
  by (simp add: term_lookup_def map_of_eq_None_iff image_image)

text \<open>The growth of the lexical files when a unit joins a slice.\<close>

lemma slice_growth:
  assumes inv: "term_map_inv (us_terms u)"
    and L: "\<And>t. (L t \<noteq> None \<longleftrightarrow> t \<in> slice_terms ds) \<and> old_postings L t = slice_postings ds t"
  shows "(\<Sum>t\<in>slice_terms (ds @ [u]). 44 + length t) =
      (\<Sum>t\<in>slice_terms ds. 44 + length t) + sum_list (map (term_growth L) (term_slots (us_terms u)))"
    and "(\<Sum>t\<in>slice_terms (ds @ [u]). 20 + 48 * slice_postings (ds @ [u]) t + 16 * blocks (slice_postings (ds @ [u]) t)) =
      (\<Sum>t\<in>slice_terms ds. 20 + 48 * slice_postings ds t + 16 * blocks (slice_postings ds t)) +
      sum_list (map (posting_growth L) (term_slots (us_terms u)))"
    and "(\<Sum>t\<in>slice_terms (ds @ [u]). 16 + 8 * slice_occurrences (ds @ [u]) t) =
      (\<Sum>t\<in>slice_terms ds. 16 + 8 * slice_occurrences ds t) + sum_list (map (position_growth L) (term_slots (us_terms u)))"
proof -
  let ?m = "us_terms u" and ?S = "ts_term ` set (term_slots (us_terms u))"
  have key: "ts_term (the (term_lookup ?m t)) = t" "old_postings (term_lookup ?m) t = ts_postings (the (term_lookup ?m t))"
      "occurrences_in (term_lookup ?m) t = ts_occurrences (the (term_lookup ?m t))" if h: "t \<in> ?S" for t
  proof -
    obtain s where s: "term_lookup ?m t = Some s" using h slot_terms_dom[OF inv, of t] by auto
    then have "ts_term s = t" using term_lookup_Some[OF inv] by blast
    with s show "ts_term (the (term_lookup ?m t)) = t"
      "old_postings (term_lookup ?m) t = ts_postings (the (term_lookup ?m t))"
      "occurrences_in (term_lookup ?m) t = ts_occurrences (the (term_lookup ?m t))"
      by (simp_all add: old_postings_def occurrences_in_def)
  qed
  have out: "old_postings (term_lookup ?m) t = 0" "occurrences_in (term_lookup ?m) t = 0" if "t \<notin> ?S" for t
    using that slot_terms_dom[OF inv, of t] by (auto simp: old_postings_def occurrences_in_def)
  have new: "slice_postings ds t = 0" "slice_occurrences ds t = 0" if "t \<notin> slice_terms ds" for t
    using not_slice_term[OF that] by simp_all
  have LN: "L t = None \<longleftrightarrow> t \<notin> slice_terms ds" for t using L[of t] by blast
  note g = growth_sum[OF finite_slice_terms[of ds] finite_imageI[OF finite_set, of ts_term "term_slots ?m"]]
  show "(\<Sum>t\<in>slice_terms (ds @ [u]). 44 + length t) =
      (\<Sum>t\<in>slice_terms ds. 44 + length t) + sum_list (map (term_growth L) (term_slots ?m))"
    unfolding slice_append sum_slots[OF inv] by (rule g) (auto simp: key term_growth_def LN)
  show "(\<Sum>t\<in>slice_terms (ds @ [u]). 20 + 48 * slice_postings (ds @ [u]) t + 16 * blocks (slice_postings (ds @ [u]) t)) =
      (\<Sum>t\<in>slice_terms ds. 20 + 48 * slice_postings ds t + 16 * blocks (slice_postings ds t)) +
      sum_list (map (posting_growth L) (term_slots ?m))"
    unfolding slice_append sum_slots[OF inv]
  proof (rule g)
    fix t assume t: "t \<in> ?S"
    let ?p = "slice_postings ds t" and ?q = "old_postings (term_lookup ?m) t"
    have "posting_growth L (the (term_lookup ?m t)) = (if t \<in> slice_terms ds then 0 else 20) + (?q * 48 + (blocks (?p + ?q) - blocks ?p) * 16)"
      using key[OF t] L[of t] by (simp add: posting_growth_def LN)
    moreover have "blocks ?p \<le> blocks (?p + ?q)" by (rule blocks_mono)
    ultimately show "20 + 48 * (?p + ?q) + 16 * blocks (?p + ?q) =
        (if t \<in> slice_terms ds then 20 + 48 * ?p + 16 * blocks ?p else 0) + posting_growth L (the (term_lookup ?m t))"
      using new(1)[of t] by auto
  qed (simp add: out)
  show "(\<Sum>t\<in>slice_terms (ds @ [u]). 16 + 8 * slice_occurrences (ds @ [u]) t) =
      (\<Sum>t\<in>slice_terms ds. 16 + 8 * slice_occurrences ds t) + sum_list (map (position_growth L) (term_slots ?m))"
    unfolding slice_append sum_slots[OF inv] using new(2)
    by (intro g) (auto simp: key out position_growth_def LN)
qed

text \<open>Adding a unit to an empty or a started slice.\<close>

lemma add_fixed_terms [simp]: "sz_terms (add_fixed sizer unit usize) = sz_terms sizer"
  by (simp add: add_fixed_def Let_def)

lemma sized_grown:
  assumes s: "sized us sizer" and d: "su_document unit \<noteq> None" and inv: "term_map_inv (us_terms usize)"
  shows "grown (term_lookup (sz_terms sizer)) (term_slots (us_terms usize)) (add_fixed sizer unit usize) =
    (slice_sizer (us @ [(unit, usize)]))\<lparr>sz_terms := sz_terms sizer\<rparr>"
proof -
  let ?L = "term_lookup (sz_terms sizer)" and ?ds = "unit_documents us"
  have L: "(?L t \<noteq> None \<longleftrightarrow> t \<in> slice_terms ?ds) \<and> old_postings ?L t = slice_postings ?ds t" for t
    using s by (simp add: sized_def)
  obtain doc where d': "su_document unit = Some doc" using d by blast
  define ds' where "ds' = ?ds @ [usize]"
  note g = slice_growth[OF inv L, folded ds'_def]
  obtain T where sz: "sizer = (slice_sizer us)\<lparr>sz_terms := T\<rparr>" using s by (auto simp: sized_def)
  have u: "unit_documents (us @ [(unit, usize)]) = ds'" "unit_tombstones (us @ [(unit, usize)]) = unit_tombstones us"
    using d by (auto simp: ds'_def)
  have n: "ds' \<noteq> []" "length ds' = Suc (length ?ds)" "(\<Sum>u\<leftarrow>ds'. h u) = (\<Sum>u\<leftarrow>?ds. h u) + h usize" for h :: "UNIT_SIZE \<Rightarrow> nat"
    by (simp_all add: ds'_def)
  have new: "slice_sizer (us @ [(unit, usize)]) =
      (add_fixed (slice_sizer us) unit usize)\<lparr>sz_term_payload := 12 + (\<Sum>t\<in>slice_terms ds'. 44 + length t),
        sz_posting_payload := 56 + (\<Sum>t\<in>slice_terms ds'. 20 + 48 * slice_postings ds' t + 16 * blocks (slice_postings ds' t)),
        sz_position_payload := 12 + (\<Sum>t\<in>slice_terms ds'. 16 + 8 * slice_occurrences ds' t)\<rparr>"
    using d' n(1) by (auto simp: slice_sizer_def u n Let_def add_fixed_def simp del: unit_append)
  have old: "add_fixed (slice_sizer us) unit usize =
      (add_fixed (slice_sizer us) unit usize)\<lparr>sz_term_payload := 12 + (\<Sum>t\<in>slice_terms ?ds. 44 + length t),
        sz_posting_payload := 56 + (\<Sum>t\<in>slice_terms ?ds. 20 + 48 * slice_postings ?ds t + 16 * blocks (slice_postings ?ds t)),
        sz_position_payload := 12 + (\<Sum>t\<in>slice_terms ?ds. 16 + 8 * slice_occurrences ?ds t)\<rparr>"
    using d' by (cases "?ds = []") (simp_all add: slice_sizer_def Let_def add_fixed_def)
  have a: "add_fixed ((slice_sizer us)\<lparr>sz_terms := T\<rparr>) unit usize = (add_fixed (slice_sizer us) unit usize)\<lparr>sz_terms := T\<rparr>"
    using d' by (simp add: add_fixed_def Let_def)
  show ?thesis unfolding sz a new g by (subst old) (simp add: sz grown_def add.assoc)
qed

lemma sized_tombstone:
  assumes s: "sized us sizer" and d: "su_document unit = None"
  shows "add_fixed sizer unit usize = (slice_sizer (us @ [(unit, usize)]))\<lparr>sz_terms := sz_terms sizer\<rparr>"
    and "sized (us @ [(unit, usize)]) (add_fixed sizer unit usize)"
proof -
  obtain T where sz: "sizer = (slice_sizer us)\<lparr>sz_terms := T\<rparr>" using s by (auto simp: sized_def)
  show e: "add_fixed sizer unit usize = (slice_sizer (us @ [(unit, usize)]))\<lparr>sz_terms := sz_terms sizer\<rparr>"
    using d by (auto simp: sz add_fixed_def slice_sizer_def Let_def)
  show "sized (us @ [(unit, usize)]) (add_fixed sizer unit usize)"
    using s d e by (simp add: sized_def)
qed

lemma find_lookup: "find (\<lambda>s. ts_term s = t) (term_slots m) = term_lookup m t"
proof -
  have "find (\<lambda>s. ts_term s = t) xs = map_of (map (\<lambda>s. (ts_term s, s)) xs) t" for xs :: "TERM_SLOT list"
    by (induction xs) auto
  then show ?thesis by (simp add: term_lookup_def)
qed

lemma project_sized:
  assumes s: "sized us sizer" and u: "unit_ok (unit, usize)"
  shows "project sizer unit usize = Some ((slice_sizer (us @ [(unit, usize)]))\<lparr>sz_terms := sz_terms sizer\<rparr>)"
proof (cases "su_document unit = None")
  case True
  then show ?thesis using sized_tombstone(1)[OF s True] by (simp add: project_def)
next
  case False
  have inv: "term_map_inv (sz_terms sizer)" "term_map_inv (us_terms usize)" using s u by (auto simp: sized_def unit_ok_def counted_def)
  show ?thesis unfolding project_def if_not_P[OF False] project_terms_correct[OF inv(1)] term_slots_def[symmetric]
    using sized_grown[OF s False inv(2)] by simp
qed

lemma sizer_add_sized:
  assumes s: "sized us sizer" and u: "unit_ok (unit, usize)"
  shows "(\<exists>e. sizer_add mem sizer unit usize = Some (Inl e) \<and> e \<in> {YAP_V2_OUT_OF_RANGE, YAP_V2_ALLOCATION_FAILED}) \<or>
    (\<exists>sizer'. sizer_add mem sizer unit usize = Some (Inr sizer') \<and> sized (us @ [(unit, usize)]) sizer')"
proof (cases "su_document unit = None")
  case True
  then show ?thesis using sized_tombstone(2)[OF s True] by (simp add: sizer_add_def)
next
  case False
  let ?m = "us_terms usize" and ?L = "term_lookup (sz_terms sizer)"
  have c: "counted (sz_terms sizer)" "counted ?m" using s u by (auto simp: sized_def unit_ok_def)
  have inv: "term_map_inv (sz_terms sizer)" "term_map_inv ?m" using c by (auto simp: counted_def)
  have "(\<exists>e. sizer_add mem sizer unit usize = Some (Inl e) \<and> e \<in> {YAP_V2_OUT_OF_RANGE, YAP_V2_ALLOCATION_FAILED}) \<or>
    (\<exists>terms. sizer_add mem sizer unit usize =
        Some (Inr ((slice_sizer (us @ [(unit, usize)]))\<lparr>sz_terms := terms\<rparr>)) \<and> counted terms \<and>
      (\<forall>t. term_lookup terms t = (case term_lookup ?m t of None \<Rightarrow> ?L t | Some x \<Rightarrow> Some (merge_slot (slot_of (sz_terms sizer) t) x))))"
    unfolding sizer_add_def if_not_P[OF False]
    using add_terms_correct[of "add_fixed sizer unit usize" "tm_slots ?m" mem, folded term_slots_def,
        unfolded find_lookup add_fixed_terms sized_grown[OF s False inv(2)]] c term_slots_distinct[OF inv(2)]
    by (simp add: counted_def)
  then show ?thesis
  proof (elim disjE exE conjE)
    fix terms
    assume r: "sizer_add mem sizer unit usize = Some (Inr ((slice_sizer (us @ [(unit, usize)]))\<lparr>sz_terms := terms\<rparr>))"
      and t: "counted terms"
      and l: "\<forall>t. term_lookup terms t = (case term_lookup ?m t of None \<Rightarrow> ?L t | Some x \<Rightarrow> Some (merge_slot (slot_of (sz_terms sizer) t) x))"
    have "(term_lookup terms t \<noteq> None \<longleftrightarrow> t \<in> slice_terms (unit_documents us @ [usize])) \<and>
        old_postings (term_lookup terms) t = slice_postings (unit_documents us @ [usize]) t \<and>
        occurrences_in (term_lookup terms) t = slice_occurrences (unit_documents us @ [usize]) t" for t
    proof -
      have o: "(?L t \<noteq> None \<longleftrightarrow> t \<in> slice_terms (unit_documents us)) \<and>
          old_postings ?L t = slice_postings (unit_documents us) t \<and>
          occurrences_in ?L t = slice_occurrences (unit_documents us) t" using s by (simp add: sized_def)
      show ?thesis using o slot_terms_dom[OF inv(2), of t] spec[OF l, of t]
        by (cases "term_lookup ?m t"; cases "?L t")
          (auto simp: old_postings_def occurrences_in_def merge_slot_def slot_of_def fresh_slot_def)
    qed
    then have "sized (us @ [(unit, usize)]) ((slice_sizer (us @ [(unit, usize)]))\<lparr>sz_terms := terms\<rparr>)"
      using t False unfolding sized_def by auto
    then show ?thesis using r by blast
  qed blast
qed

subsection \<open>What fits\<close>

definition slice_fits :: "YAP_V2_CONFIG \<Rightarrow> nat \<Rightarrow> nat \<Rightarrow> (YAP_V2_SEGMENT_UNIT \<times> UNIT_SIZE) list \<Rightarrow> bool" where
  "slice_fits config segment_id_bytes limit us \<longleftrightarrow>
     length (unit_documents us) \<le> YAP_V2_MAX_SEGMENT_DOCUMENTS \<and>
     (\<Sum>u\<leftarrow>unit_documents us. us_passage_count u) \<le> YAP_V2_MAX_SEGMENT_PASSAGES \<and>
     list_all (\<lambda>n. n \<le> limit) (slice_sizes config segment_id_bytes us)"

lemma component_sizes_terms [simp]: "component_sizes config (sizer\<lparr>sz_terms := T\<rparr>) n = component_sizes config sizer n"
  by (simp add: component_sizes_def)

lemma sized_components: "sized us sizer \<Longrightarrow> component_sizes config sizer n = slice_sizes config n us"
  unfolding sized_def slice_sizes_def by (metis component_sizes_terms)

lemma sized_empty: "sized [] sizer_empty"
proof -
  have "term_slots term_map_empty = []" by (simp add: term_slots_def term_map_empty_def)
  then have "counted term_map_empty" "term_lookup term_map_empty t = None" for t
    by (simp_all add: counted_def term_map_inv_empty term_lookup_def)
  then show ?thesis
    by (simp add: sized_def sizer_empty_def slice_sizer_def unit_documents_def unit_tombstones_def old_postings_def
        occurrences_in_def slice_postings_def slice_occurrences_def)
qed

lemma projected_fits_sized:
  assumes s: "sized us sizer" and u: "unit_ok (unit, usize)"
  obtains required component where
    "projected_fits config sizer unit usize n limit =
       Some (if slice_fits config n limit (us @ [(unit, usize)]) then YAP_V2_OK else YAP_V2_SEGMENT_CAPACITY_EXCEEDED,
             required, component)"
proof -
  let ?us = "us @ [(unit, usize)]"
  have d: "sz_documents sizer = length (unit_documents us)" "sz_passages sizer = (\<Sum>u\<leftarrow>unit_documents us. us_passage_count u)"
  proof -
    obtain T where sz: "sizer = (slice_sizer us)\<lparr>sz_terms := T\<rparr>" using s by (auto simp: sized_def)
    show "sz_documents sizer = length (unit_documents us)" "sz_passages sizer = (\<Sum>u\<leftarrow>unit_documents us. us_passage_count u)"
      unfolding sz by (simp_all add: slice_sizer_def Let_def)
  qed
  have p: "(su_document unit = None \<Longrightarrow> us_passage_count usize = 0)" using u by (simp add: unit_ok_def)
  have len: "length (unit_documents ?us) = sz_documents sizer + (if su_document unit \<noteq> None then 1 else 0)"
    "(\<Sum>u\<leftarrow>unit_documents ?us. us_passage_count u) = sz_passages sizer + us_passage_count usize"
    using p by (auto simp: d)
  have sizes: "component_sizes config ((slice_sizer ?us)\<lparr>sz_terms := T\<rparr>) n = slice_sizes config n ?us" for T
    by (simp add: slice_sizes_def)
  have ex: "list_ex (\<lambda>n. limit < n) xs \<longleftrightarrow> \<not> list_all (\<lambda>n. n \<le> limit) xs" for xs
    by (induction xs) auto
  let ?P = "length (unit_documents ?us) \<le> YAP_V2_MAX_SEGMENT_DOCUMENTS \<and>
     (\<Sum>u\<leftarrow>unit_documents ?us. us_passage_count u) \<le> YAP_V2_MAX_SEGMENT_PASSAGES"
  have neg: "(sz_documents sizer + (if su_document unit \<noteq> None then 1 else 0) > YAP_V2_MAX_SEGMENT_DOCUMENTS \<or>
      sz_passages sizer + us_passage_count usize > YAP_V2_MAX_SEGMENT_PASSAGES) = (\<not> ?P)"
    unfolding len by (simp add: not_le)
  have fits: "slice_fits config n limit ?us \<longleftrightarrow> ?P \<and> list_all (\<lambda>n. n \<le> limit) (slice_sizes config n ?us)"
    by (simp add: slice_fits_def del: unit_append)
  have "\<exists>r c. projected_fits config sizer unit usize n limit =
       Some (if slice_fits config n limit ?us then YAP_V2_OK else YAP_V2_SEGMENT_CAPACITY_EXCEEDED, r, c)"
    unfolding projected_fits_def project_sized[OF s u] option.case sizes Let_def ex neg fits
    by (cases "largest (zip (slice_sizes config n ?us) component_names) (0, '''')") (cases ?P; auto simp del: unit_append)
  then show ?thesis using that by blast
qed

end
