(* ===== verification/Segment_Plan.thy ===== *)
theory Segment_Plan
  imports Segment_Planner
begin

text \<open>
  What the plan of \<open>indexing/yappo_segment_planner_v2.c\<close> promises: the slices partition the units, their
  recorded sizes are exact sums over their units and stay within the limits, and the planner gives up on
  capacity only when one unit alone is too large.
\<close>

subsection \<open>Partitions\<close>

text \<open>The slices stand one behind the other from \<open>a\<close> to \<open>b\<close>.\<close>

fun chain :: "nat \<Rightarrow> YAP_V2_SEGMENT_SLICE list \<Rightarrow> nat \<Rightarrow> bool" where
  "chain a [] b = (a = b)"
| "chain a (s # ss) b = (sl_first s = a \<and> chain (a + sl_count s) ss b)"

definition slice_units :: "'u list \<Rightarrow> YAP_V2_SEGMENT_SLICE \<Rightarrow> 'u list" where
  "slice_units us s = take (sl_count s) (drop (sl_first s) us)"

text \<open>A good slice: its sizes are those of its units, and they fit the hard limit.\<close>

definition good_slice :: "YAP_V2_CONFIG \<Rightarrow> nat \<Rightarrow> nat \<Rightarrow> (YAP_V2_SEGMENT_UNIT \<times> UNIT_SIZE) list \<Rightarrow> YAP_V2_SEGMENT_SLICE \<Rightarrow> bool" where
  "good_slice config n limit us s \<longleftrightarrow> 0 < sl_count s \<and> sl_first s + sl_count s \<le> length us \<and>
     sl_payload_bytes s = slice_sizes config n (slice_units us s) \<and> slice_fits config n limit (slice_units us s)"

text \<open>A slice is full when its next unit would exceed the target.\<close>

definition full_slice :: "YAP_V2_CONFIG \<Rightarrow> nat \<Rightarrow> nat \<Rightarrow> (YAP_V2_SEGMENT_UNIT \<times> UNIT_SIZE) list \<Rightarrow> YAP_V2_SEGMENT_SLICE \<Rightarrow> bool" where
  "full_slice config n limit us s \<longleftrightarrow> sl_first s + sl_count s < length us \<and>
     \<not> slice_fits config n limit (slice_units us s @ [us ! (sl_first s + sl_count s)])"

lemma chain_append: "chain a (ss @ ts) b \<longleftrightarrow> (\<exists>c. chain a ss c \<and> chain c ts b)"
  by (induction ss arbitrary: a) auto

lemma chain_concat: "chain a ss b \<Longrightarrow> b \<le> length us \<Longrightarrow> a \<le> b \<and> concat (map (slice_units us) ss) = take (b - a) (drop a us)"
proof (induction ss arbitrary: a)
  case (Cons s ss)
  let ?c = "a + sl_count s"
  have ih: "?c \<le> b" "concat (map (slice_units us) ss) = take (b - ?c) (drop ?c us)" using Cons by auto
  have "take (sl_count s) (drop a us) @ take (b - ?c) (drop (sl_count s) (drop a us)) = take (sl_count s + (b - ?c)) (drop a us)"
    by (simp only: take_add)
  moreover have "sl_count s + (b - ?c) = b - a" using ih(1) by simp
  ultimately show ?case using Cons.prems ih by (simp add: add.commute) (simp add: slice_units_def)
qed simp

lemma slice_fits_mono: "slice_fits config n limit us \<Longrightarrow> limit \<le> limit' \<Longrightarrow> slice_fits config n limit' us"
  by (auto simp: slice_fits_def list_all_iff)

subsection \<open>The packing loop\<close>

definition plan_inv ::
  "YAP_V2_CONFIG \<Rightarrow> nat \<Rightarrow> YAP_V2_SEGMENT_SIZE_POLICY \<Rightarrow> (YAP_V2_SEGMENT_UNIT \<times> UNIT_SIZE) list \<Rightarrow> nat \<Rightarrow>
     nat \<times> YAP_V2_SEGMENT_SLICE list \<times> SIZER \<Rightarrow> bool" where
  "plan_inv config n policy us i st \<longleftrightarrow> (case st of (first, slices, sizer) \<Rightarrow>
     first \<le> i \<and> (0 < i \<longrightarrow> first < i) \<and> i \<le> length us \<and> chain 0 slices first \<and>
     (\<forall>s\<in>set slices. good_slice config n (sp_hard_max_payload_bytes policy) us s \<and>
        full_slice config n (sp_target_payload_bytes policy) us s) \<and>
     sized (take (i - first) (drop first us)) sizer \<and>
     (first < i \<longrightarrow> slice_fits config n (sp_hard_max_payload_bytes policy) (take (i - first) (drop first us))))"

lemma plan_inv_start: "plan_inv config n policy us 0 (0, [], sizer_empty)"
  by (simp add: plan_inv_def sized_empty)

text \<open>The errors of one round.\<close>

definition round_error :: "YAP_V2_CONFIG \<Rightarrow> nat \<Rightarrow> YAP_V2_SEGMENT_SIZE_POLICY \<Rightarrow> (YAP_V2_SEGMENT_UNIT \<times> UNIT_SIZE) list \<Rightarrow> plan_error \<Rightarrow> bool" where
  "round_error config n policy us e \<longleftrightarrow>
     (e \<in> {(YAP_V2_OUT_OF_RANGE, None), (YAP_V2_ALLOCATION_FAILED, None)} \<or>
      (\<exists>u r c. u \<in> set us \<and> e = (YAP_V2_SEGMENT_CAPACITY_EXCEEDED, Some \<lparr>ce_component = c, ce_required_bytes = r,
         ce_limit_bytes = sp_hard_max_payload_bytes policy,
         ce_document_id = (case su_document (fst u) of Some document \<Rightarrow> doc_id document | None \<Rightarrow> su_tombstone (fst u))\<rparr>) \<and>
         \<not> slice_fits config n (sp_hard_max_payload_bytes policy) [u]))"

lemma plan_add_cases:
  "(\<exists>e. plan_add mem slices first k config sizer n = Inl e \<and> e \<in> {YAP_V2_OUT_OF_RANGE, YAP_V2_ALLOCATION_FAILED}) \<or>
   plan_add mem slices first k config sizer n =
     Inr (slices @ [\<lparr>sl_first = first, sl_count = k, sl_payload_bytes = component_sizes config sizer n\<rparr>])"
  by (auto simp: plan_add_def)

lemma settle_unit_correct:
  assumes s: "sized vs sizer" and u: "unit_ok (unit, usize)" "(unit, usize) \<in> set us"
    and pol: "sp_target_payload_bytes policy \<le> sp_hard_max_payload_bytes policy"
    and fit: "fit = (if slice_fits config n (sp_target_payload_bytes policy) (vs @ [(unit, usize)]) then YAP_V2_OK
               else YAP_V2_SEGMENT_CAPACITY_EXCEEDED, rc)"
    and alone: "vs \<noteq> [] \<Longrightarrow> slice_fits config n (sp_target_payload_bytes policy) (vs @ [(unit, usize)])"
  shows "(\<exists>e. settle_unit mem config n policy unit usize fit sizer = Some (Inl e) \<and> round_error config n policy us e) \<or>
   (\<exists>sizer'. settle_unit mem config n policy unit usize fit sizer = Some (Inr sizer') \<and>
      sized (vs @ [(unit, usize)]) sizer' \<and> slice_fits config n (sp_hard_max_payload_bytes policy) (vs @ [(unit, usize)]))"
proof -
  let ?vs = "vs @ [(unit, usize)]"
  obtain r c where h: "projected_fits config sizer unit usize n (sp_hard_max_payload_bytes policy) =
       Some (if slice_fits config n (sp_hard_max_payload_bytes policy) ?vs then YAP_V2_OK
             else YAP_V2_SEGMENT_CAPACITY_EXCEEDED, r, c)"
    by (rule projected_fits_sized[OF s u(1)])
  have add: "(\<exists>e. plain (sizer_add mem sizer unit usize) = Some (Inl e) \<and> round_error config n policy us e) \<or>
    (\<exists>sizer'. plain (sizer_add mem sizer unit usize) = Some (Inr sizer') \<and> sized ?vs sizer')"
    using sizer_add_sized[OF s u(1), of mem] by (auto simp: round_error_def)
  consider "slice_fits config n (sp_target_payload_bytes policy) ?vs"
    | "\<not> slice_fits config n (sp_target_payload_bytes policy) ?vs" "slice_fits config n (sp_hard_max_payload_bytes policy) ?vs"
    | "\<not> slice_fits config n (sp_target_payload_bytes policy) ?vs" "\<not> slice_fits config n (sp_hard_max_payload_bytes policy) ?vs"
    by blast
  then show ?thesis
  proof cases
    case 1
    then show ?thesis using add fit slice_fits_mono[OF 1 pol] by (cases rc) (auto simp: settle_unit_def)
  next
    case 2
    then show ?thesis using add fit h by (cases rc) (auto simp: settle_unit_def)
  next
    case 3
    then have "vs = []" using alone by blast
    with 3 u(2) have "round_error config n policy us (YAP_V2_SEGMENT_CAPACITY_EXCEEDED, Some \<lparr>ce_component = c,
        ce_required_bytes = r, ce_limit_bytes = sp_hard_max_payload_bytes policy,
        ce_document_id = (case su_document unit of Some document \<Rightarrow> doc_id document | None \<Rightarrow> su_tombstone unit)\<rparr>)"
      unfolding round_error_def by (intro disjI2 exI[of _ "(unit, usize)"]) (auto split: option.split)
    with 3 show ?thesis using fit h by (cases rc) (simp add: settle_unit_def)
  qed
qed

lemma plan_unit_correct:
  assumes inv: "plan_inv config n policy us i (first, slices, sizer)" and i: "i < length us" "us ! i = (unit, usize)"
    and u: "unit_ok (unit, usize)" and pol: "sp_target_payload_bytes policy \<le> sp_hard_max_payload_bytes policy"
  shows "(\<exists>e. plan_unit mem config n policy i unit usize (first, slices, sizer) = Some (Inl e) \<and> round_error config n policy us e) \<or>
    (\<exists>st. plan_unit mem config n policy i unit usize (first, slices, sizer) = Some (Inr st) \<and> plan_inv config n policy us (Suc i) st)"
proof -
  let ?vs = "take (i - first) (drop first us)" and ?t = "sp_target_payload_bytes policy" and ?h = "sp_hard_max_payload_bytes policy"
  have f: "first \<le> i" "0 < i \<Longrightarrow> first < i" "chain 0 slices first" "sized ?vs sizer"
    and good: "\<forall>s\<in>set slices. good_slice config n ?h us s \<and> full_slice config n ?t us s"
    and fh: "first < i \<Longrightarrow> slice_fits config n ?h ?vs"
    using inv by (auto simp: plan_inv_def)
  have mem: "(unit, usize) \<in> set us" using i nth_mem by metis
  have next_vs: "take (Suc i - first) (drop first us) = ?vs @ [(unit, usize)]"
    using f(1) i by (simp add: Suc_diff_le take_Suc_conv_app_nth)
  have next_one: "take (Suc i - i) (drop i us) = [(unit, usize)]"
    using i by (simp add: take_Suc_conv_app_nth)
  obtain r c where fit: "projected_fits config sizer unit usize n ?t =
       Some (if slice_fits config n ?t (?vs @ [(unit, usize)]) then YAP_V2_OK else YAP_V2_SEGMENT_CAPACITY_EXCEEDED, r, c)"
    by (rule projected_fits_sized[OF f(4) u])
  obtain r' c' where fit': "projected_fits config sizer_empty unit usize n ?t =
       Some (if slice_fits config n ?t ([] @ [(unit, usize)]) then YAP_V2_OK else YAP_V2_SEGMENT_CAPACITY_EXCEEDED, r', c')"
    by (rule projected_fits_sized[OF sized_empty u])
  show ?thesis
  proof (cases "slice_fits config n ?t (?vs @ [(unit, usize)]) \<or> i = first")
    case True
    then have b: "\<not> (fst (if slice_fits config n ?t (?vs @ [(unit, usize)]) then YAP_V2_OK else YAP_V2_SEGMENT_CAPACITY_EXCEEDED, r, c) =
        YAP_V2_SEGMENT_CAPACITY_EXCEEDED \<and> i > first)" by auto
    have "plan_inv config n policy us (Suc i) (first, slices, sizer')"
      if "sized (?vs @ [(unit, usize)]) sizer'" "slice_fits config n ?h (?vs @ [(unit, usize)])" for sizer'
      using that f good i(1) by (simp add: plan_inv_def next_vs)
    then show ?thesis
      using settle_unit_correct[OF f(4) u mem pol refl, where config = config and n = n and mem = mem and rc = "(r, c)"] True
      unfolding plan_unit_def prod.case fit option.case if_not_P[OF b] by auto
  next
    case False
    then have fi: "first < i" using f(1) by simp
    have b: "fst (if slice_fits config n ?t (?vs @ [(unit, usize)]) then YAP_V2_OK else YAP_V2_SEGMENT_CAPACITY_EXCEEDED, r, c) =
        YAP_V2_SEGMENT_CAPACITY_EXCEEDED \<and> i > first" using False fi by simp
    let ?s = "\<lparr>sl_first = first, sl_count = i - first, sl_payload_bytes = component_sizes config sizer n\<rparr>"
    have gs: "good_slice config n ?h us ?s" "full_slice config n ?t us ?s"
      using fi i False fh sized_components[OF f(4)] by (auto simp: good_slice_def full_slice_def slice_units_def)
    have "plan_inv config n policy us (Suc i) (i, slices @ [?s], sizer')"
      if "sized [(unit, usize)] sizer'" "slice_fits config n ?h [(unit, usize)]" for sizer'
      using that f good gs i(1) unfolding plan_inv_def prod.case next_one by (auto simp: chain_append)
    then have st: "(\<exists>e. obind (settle_unit mem config n policy unit usize
            (if slice_fits config n ?t ([] @ [(unit, usize)]) then YAP_V2_OK else YAP_V2_SEGMENT_CAPACITY_EXCEEDED, r', c') sizer_empty)
            (\<lambda>sizer. Some (Inr (i, slices @ [?s], sizer))) = Some (Inl e) \<and> round_error config n policy us e) \<or>
        (\<exists>st. obind (settle_unit mem config n policy unit usize
            (if slice_fits config n ?t ([] @ [(unit, usize)]) then YAP_V2_OK else YAP_V2_SEGMENT_CAPACITY_EXCEEDED, r', c') sizer_empty)
            (\<lambda>sizer. Some (Inr (i, slices @ [?s], sizer))) = Some (Inr st) \<and> plan_inv config n policy us (Suc i) st)"
      using settle_unit_correct[OF sized_empty u mem pol refl, where config = config and n = n and mem = mem and rc = "(r', c')"] by auto
    show ?thesis
      using plan_add_cases[of mem slices first "i - first" config sizer n] st
      unfolding plan_unit_def prod.case fit option.case if_P[OF b] fit'
      by (auto simp: plain_def round_error_def)
  qed
qed

lemma plan_units_correct:
  assumes "us = pre @ rest" "\<forall>u\<in>set us. unit_ok u" "sp_target_payload_bytes policy \<le> sp_hard_max_payload_bytes policy"
    and "plan_inv config n policy us (length pre) st"
  shows "(\<exists>e. plan_units mem config n policy (length pre) rest st = Some (Inl e) \<and> round_error config n policy us e) \<or>
    (\<exists>st'. plan_units mem config n policy (length pre) rest st = Some (Inr st') \<and> plan_inv config n policy us (length us) st')"
  using assms(1,4)
proof (induction rest arbitrary: pre st)
  case Nil
  then show ?case by simp
next
  case (Cons u rest)
  obtain unit usize where u: "u = (unit, usize)" by (cases u)
  obtain first slices sizer where st: "st = (first, slices, sizer)" by (cases st)
  have ok: "unit_ok (unit, usize)" "us ! length pre = (unit, usize)" "length pre < length us"
    using Cons.prems(1) assms(2) u by auto
  have ih: "plan_inv config n policy us (Suc (length pre)) st' \<Longrightarrow>
    (\<exists>e. plan_units mem config n policy (Suc (length pre)) rest st' = Some (Inl e) \<and> round_error config n policy us e) \<or>
    (\<exists>st''. plan_units mem config n policy (Suc (length pre)) rest st' = Some (Inr st'') \<and> plan_inv config n policy us (length us) st'')" for st'
    using Cons.IH[of "pre @ [u]" st'] Cons.prems(1) by simp
  show ?case
    using plan_unit_correct[OF Cons.prems(2)[unfolded st] ok(3,2,1) assms(3), of mem] ih unfolding u st plan_units.simps
    by (elim disjE exE conjE) (auto simp: obind_def)
qed

lemma range_sizer_correct:
  assumes "sized vs sizer" "\<forall>u\<in>set rest. unit_ok u" "vs = [] \<or> slice_fits config n limit vs"
  shows "(\<exists>e. range_sizer mem config n limit rest sizer = Some (Inl e) \<and>
      e \<in> {YAP_V2_SEGMENT_CAPACITY_EXCEEDED, YAP_V2_OUT_OF_RANGE, YAP_V2_ALLOCATION_FAILED}) \<or>
    (\<exists>sizer'. range_sizer mem config n limit rest sizer = Some (Inr sizer') \<and> sized (vs @ rest) sizer' \<and>
      (vs @ rest = [] \<or> slice_fits config n limit (vs @ rest)))"
  using assms
proof (induction rest arbitrary: vs sizer)
  case (Cons u rest)
  obtain unit usize where u: "u = (unit, usize)" by (cases u)
  have ok: "unit_ok (unit, usize)" using Cons.prems(2) u by simp
  obtain r c where fit: "projected_fits config sizer unit usize n limit =
       Some (if slice_fits config n limit (vs @ [(unit, usize)]) then YAP_V2_OK else YAP_V2_SEGMENT_CAPACITY_EXCEEDED, r, c)"
    by (rule projected_fits_sized[OF Cons.prems(1) ok])
  show ?case
  proof (cases "slice_fits config n limit (vs @ [(unit, usize)])")
    case True
    have ih: "sized (vs @ [u]) s' \<Longrightarrow> (\<exists>e. range_sizer mem config n limit rest s' = Some (Inl e) \<and>
      e \<in> {YAP_V2_SEGMENT_CAPACITY_EXCEEDED, YAP_V2_OUT_OF_RANGE, YAP_V2_ALLOCATION_FAILED}) \<or>
    (\<exists>sizer'. range_sizer mem config n limit rest s' = Some (Inr sizer') \<and> sized (vs @ u # rest) sizer' \<and>
      slice_fits config n limit (vs @ u # rest))" for s'
      using Cons.IH[of "vs @ [u]" s'] Cons.prems(2) True u by simp
    show ?thesis
      using sizer_add_sized[OF Cons.prems(1) ok, of mem] ih True fit u
      by (elim disjE exE conjE) (auto simp: obind_def)
  qed (simp add: fit u)
qed simp

text \<open>The slices before and after the tail is merged.\<close>

definition partitioned ::
  "YAP_V2_CONFIG \<Rightarrow> nat \<Rightarrow> YAP_V2_SEGMENT_SIZE_POLICY \<Rightarrow> (YAP_V2_SEGMENT_UNIT \<times> UNIT_SIZE) list \<Rightarrow> YAP_V2_SEGMENT_SLICE list \<Rightarrow> bool" where
  "partitioned config n policy us slices \<longleftrightarrow> slices \<noteq> [] \<and> chain 0 slices (length us) \<and>
     (if us = [] then slices = [\<lparr>sl_first = 0, sl_count = 0, sl_payload_bytes = slice_sizes config n []\<rparr>]
      else \<forall>s\<in>set slices. good_slice config n (sp_hard_max_payload_bytes policy) us s) \<and>
     (\<forall>s\<in>set (butlast slices). full_slice config n (sp_target_payload_bytes policy) us s)"

lemma good_slice_mono: "good_slice config n limit us s \<Longrightarrow> limit \<le> limit' \<Longrightarrow> good_slice config n limit' us s"
  by (auto simp: good_slice_def intro: slice_fits_mono)

lemma merge_small_tail_correct:
  assumes p: "partitioned config n policy us slices" and ok: "\<forall>u\<in>set us. unit_ok u"
    and pol: "sp_soft_max_payload_bytes policy \<le> sp_hard_max_payload_bytes policy"
  shows "(\<exists>e. merge_small_tail mem config us n policy slices = Some (Inl e) \<and>
      e \<in> {YAP_V2_OUT_OF_RANGE, YAP_V2_ALLOCATION_FAILED}) \<or>
    (\<exists>slices'. merge_small_tail mem config us n policy slices = Some (Inr slices') \<and> partitioned config n policy us slices' \<and>
       length slices' \<le> length slices)"
proof (cases "length slices < 2")
  case True
  then show ?thesis using p by (simp add: merge_small_tail_def)
next
  case False
  define pre where "pre = take (length slices - 2) slices"
  obtain a b where ab: "slices = pre @ [a, b]"
  proof -
    have "drop (length slices - 2) slices = [slices ! (length slices - 2), slices ! (length slices - 1)]"
      using False by (simp add: Cons_nth_drop_Suc[symmetric] Suc_diff_Suc numeral_2_eq_2)
    then show ?thesis using that append_take_drop_id[of "length slices - 2" slices] by (metis pre_def)
  qed
  have ne: "us \<noteq> []" using p False by (auto simp: partitioned_def)
  have ch: "chain 0 pre (sl_first a)" "sl_first b = sl_first a + sl_count a" "sl_first b + sl_count b = length us"
    using p by (auto simp: ab partitioned_def chain_append)
  have good: "\<forall>s\<in>set slices. good_slice config n (sp_hard_max_payload_bytes policy) us s" using p ne by (simp add: partitioned_def)
  let ?k = "sl_count a + sl_count b" and ?soft = "sp_soft_max_payload_bytes policy"
  let ?vs = "take ?k (drop (sl_first a) us)"
  have vs: "?vs \<noteq> []" "sl_first a + ?k = length us" "0 < ?k" using good ch by (auto simp: ab good_slice_def)
  have okv: "\<forall>u\<in>set ?vs. unit_ok u" using ok by (auto dest: in_set_takeD in_set_dropD)
  let ?m = "\<lambda>sizer. \<lparr>sl_first = sl_first a, sl_count = ?k, sl_payload_bytes = component_sizes config sizer n\<rparr>"
  have merged: "partitioned config n policy us (pre @ [?m sizer])"
    if s: "sized ?vs sizer" "slice_fits config n ?soft ?vs" for sizer
  proof -
    have "good_slice config n ?soft us (?m sizer)"
      using s vs sized_components[OF s(1)] by (auto simp: good_slice_def slice_units_def)
    then have "good_slice config n (sp_hard_max_payload_bytes policy) us (?m sizer)" by (rule good_slice_mono[OF _ pol])
    moreover have "\<forall>s\<in>set pre. full_slice config n (sp_target_payload_bytes policy) us s"
      using p by (simp add: partitioned_def ab butlast_append)
    ultimately show ?thesis using ne good ch vs(2) by (auto simp: partitioned_def chain_append ab)
  qed
  have r: "(\<exists>e. range_slice mem config us (sl_first a) ?k n ?soft = Some (Inl e) \<and>
      e \<in> {YAP_V2_SEGMENT_CAPACITY_EXCEEDED, YAP_V2_OUT_OF_RANGE, YAP_V2_ALLOCATION_FAILED}) \<or>
    (\<exists>m. range_slice mem config us (sl_first a) ?k n ?soft = Some (Inr m) \<and> partitioned config n policy us (pre @ [m]))"
    using range_sizer_correct[OF sized_empty okv disjI1[OF refl], of mem config n ?soft] merged vs(1)
    unfolding range_slice_def by (elim disjE exE conjE) auto
  have tl: "slices ! (length slices - 2) = a" "slices ! (length slices - 1) = b" "take (length slices - 2) slices = pre" "length pre \<le> length slices - 1"
    by (auto simp: ab nth_append)
  show ?thesis
    using r p False unfolding merge_small_tail_def tl Let_def
    by (elim disjE exE conjE) (auto simp: ab)
qed

subsection \<open>Preparing the units\<close>

lemma planned_unit_Inr:
  assumes "prepare_unit mem tokenize json_read print_real config unit = Some (Inr (usize, p))" "su_document unit = Some document"
  obtains root where "document_size document = Inr (us_document_bytes usize)"
    "YAP_V2_lexical_prepare_unit mem tokenize (Some document) (su_passages unit) = Inr (pu_lexical p)"
    "count_terms mem (lp_items (pu_lexical p)) term_map_empty = Some (Inr (us_terms usize))"
    "passage_sizes (su_passages unit) (0, 0) = Inr (us_passage_bytes usize, us_vector_id_bytes usize)"
    "us_passage_count usize = length (su_passages unit)"
    "json_read (view_bytes (doc_metadata_json document)) = Some root" "json_is_obj root"
    "field_sizes print_real root (cfg_filterable_fields config) 0 = Inr (us_metadata_bytes usize)"
    "pu_metadata_document p = Some root"
  using assms by (auto simp: prepare_unit_def obind_Inr split: option.splits if_splits prod.splits)

lemma prepare_unit_cases:
  "(\<exists>e. prepare_unit mem tokenize json_read print_real config unit = Some (Inl e)) \<or>
   (\<exists>usize p. prepare_unit mem tokenize json_read print_real config unit = Some (Inr (usize, p)) \<and> unit_ok (unit, usize))"
proof (cases "su_document unit")
  case None
  have "counted term_map_empty" using sized_empty by (simp add: sized_def sizer_empty_def)
  with None show ?thesis by (simp add: prepare_unit_def unit_ok_def unit_size_empty_def)
next
  case (Some document)
  have c: "counted term_map_empty" using sized_empty by (simp add: sized_def sizer_empty_def)
  have "prepare_unit mem tokenize json_read print_real config unit \<noteq> None"
  proof -
    have "count_terms mem items term_map_empty \<noteq> None" for items
      using count_terms_correct[OF c, of mem items] by auto
    then show ?thesis by (auto simp: prepare_unit_def Some obind_None simp del: not_None_eq split: option.splits if_splits prod.splits)
  qed
  moreover have "unit_ok (unit, usize)"
    if h: "prepare_unit mem tokenize json_read print_real config unit = Some (Inr (usize, p))" for usize p
  proof -
    have "count_terms mem (lp_items (pu_lexical p)) term_map_empty = Some (Inr (us_terms usize))"
      using h Some by (rule planned_unit_Inr)
    then show ?thesis using count_terms_correct[OF c, of mem "lp_items (pu_lexical p)"] Some by (auto simp: unit_ok_def)
  qed
  ultimately show ?thesis by (cases "the (prepare_unit mem tokenize json_read print_real config unit)") auto
qed

lemma prepare_units_cases:
  "(\<exists>e. prepare_units mem tokenize json_read print_real config units = Some (Inl e)) \<or>
   (\<exists>ps. prepare_units mem tokenize json_read print_real config units = Some (Inr ps) \<and> length ps = length units \<and>
      (\<forall>u\<in>set (zip units (map fst ps)). unit_ok u))"
proof (induction units)
  case (Cons unit units)
  then show ?case using prepare_unit_cases[of mem tokenize json_read print_real config unit]
    by (elim disjE exE conjE) auto
qed simp

subsection \<open>The plan\<close>

lemma plan_cases:
  "(\<exists>e. YAP_V2_segment_plan_with_policy mem tokenize json_read print_real config units n policy = Some (Inl (e, None))) \<or>
   (\<exists>sizes prepared. length sizes = length units \<and> length prepared = length units \<and>
      prepare_units mem tokenize json_read print_real config units = Some (Inr (zip sizes prepared)) \<and>
      ((\<exists>e. YAP_V2_segment_plan_with_policy mem tokenize json_read print_real config units n policy = Some (Inl e) \<and>
         round_error config n policy (zip units sizes) e) \<or>
       (\<exists>slices. YAP_V2_segment_plan_with_policy mem tokenize json_read print_real config units n policy =
           Some (Inr \<lparr>pl_slices = slices, pl_prepared_units = prepared\<rparr>) \<and>
         partitioned config n policy (zip units sizes) slices \<and> length slices \<le> YAP_V2_MAX_SEGMENTS)))"
proof (cases "n = 0 \<or> \<not> policy_valid policy \<or>
    units \<noteq> [] \<and> (\<not> mem (length units * sizeof_prepared_unit) \<or> \<not> mem (length units * sizeof_unit_size))")
  case True
  then show ?thesis by (auto simp: YAP_V2_segment_plan_with_policy_def)
next
  case False
  let ?p = "YAP_V2_segment_plan_with_policy mem tokenize json_read print_real config units n policy"
  have pol: "sp_target_payload_bytes policy \<le> sp_hard_max_payload_bytes policy" "sp_soft_max_payload_bytes policy \<le> sp_hard_max_payload_bytes policy"
    using False by (auto simp: policy_valid_def)
  have unfold: "?p = obind (plain (prepare_units mem tokenize json_read print_real config units)) (\<lambda>prepared.
        (let sized = zip units (map fst prepared) in
         obind (plan_units mem config n policy 0 sized (0, [], sizer_empty)) (\<lambda>(first, slices, sizer).
         obind (plain (Some (plan_add mem slices first (length units - first) config sizer n))) (\<lambda>slices.
         obind (plain (merge_small_tail mem config sized n policy slices)) (\<lambda>slices.
         Some (Inr \<lparr>pl_slices = slices, pl_prepared_units = map snd prepared\<rparr>))))))"
    using False by (auto simp: YAP_V2_segment_plan_with_policy_def)
  show ?thesis
  proof (cases "\<exists>e. prepare_units mem tokenize json_read print_real config units = Some (Inl e)")
    case True
    then show ?thesis unfolding unfold by (auto simp: plain_def)
  next
    case False
    then obtain ps where ps: "prepare_units mem tokenize json_read print_real config units = Some (Inr ps)"
      "length ps = length units" "\<forall>u\<in>set (zip units (map fst ps)). unit_ok u"
      using prepare_units_cases[of mem tokenize json_read print_real config units] by blast
    define us where "us = zip units (map fst ps)"
    have len: "length us = length units" using ps(2) by (simp add: us_def)
    note ok = ps(3)[folded us_def]
    have step: "?p = obind (plan_units mem config n policy 0 us (0, [], sizer_empty)) (\<lambda>(first, slices, sizer).
         obind (plain (Some (plan_add mem slices first (length us - first) config sizer n))) (\<lambda>slices.
         obind (plain (merge_small_tail mem config us n policy slices)) (\<lambda>slices.
         Some (Inr \<lparr>pl_slices = slices, pl_prepared_units = map snd ps\<rparr>))))"
      unfolding unfold by (simp add: ps(1) Let_def us_def[symmetric] len plain_def)
    have "(\<exists>e. ?p = Some (Inl e) \<and> round_error config n policy us e) \<or>
       (\<exists>slices. ?p = Some (Inr \<lparr>pl_slices = slices, pl_prepared_units = map snd ps\<rparr>) \<and>
         partitioned config n policy us slices \<and> length slices \<le> YAP_V2_MAX_SEGMENTS)"
      using plan_units_correct[of us "[]" us policy config n "(0, [], sizer_empty)" mem, simplified, OF ok pol(1) plan_inv_start]
    proof (elim disjE exE conjE)
      fix e assume "plan_units mem config n policy 0 us (0, [], sizer_empty) = Some (Inl e)" "round_error config n policy us e"
      then show ?thesis unfolding step by simp
    next
      fix st assume run: "plan_units mem config n policy 0 us (0, [], sizer_empty) = Some (Inr st)"
        and inv: "plan_inv config n policy us (length us) st"
      obtain first slices sizer where st: "st = (first, slices, sizer)" by (cases st)
      let ?s = "\<lparr>sl_first = first, sl_count = length us - first, sl_payload_bytes = component_sizes config sizer n\<rparr>"
      have f: "first \<le> length us" "chain 0 slices first" "sized (drop first us) sizer" "us \<noteq> [] \<Longrightarrow> first < length us"
        "first < length us \<Longrightarrow> slice_fits config n (sp_hard_max_payload_bytes policy) (drop first us)"
        and g: "\<forall>s\<in>set slices. good_slice config n (sp_hard_max_payload_bytes policy) us s \<and>
          full_slice config n (sp_target_payload_bytes policy) us s"
        using inv by (auto simp: st plan_inv_def)
      have "us = [] \<Longrightarrow> slices = []" using g by (cases slices) (auto simp: good_slice_def)
      moreover have "us \<noteq> [] \<Longrightarrow> good_slice config n (sp_hard_max_payload_bytes policy) us ?s"
        using f sized_components[OF f(3)] by (auto simp: good_slice_def slice_units_def)
      ultimately have part: "partitioned config n policy us (slices @ [?s])"
        using f g sized_components[OF f(3)] by (auto simp: partitioned_def chain_append)
      have "length slices < YAP_V2_MAX_SEGMENTS" if "plan_add mem slices first k config sizer n = Inr x" for k x
        using that by (auto simp: plan_add_def split: if_splits)
      then have m: "plan_add mem slices first k config sizer n = Inr x \<Longrightarrow> Suc (length slices) \<le> YAP_V2_MAX_SEGMENTS" for k x
        by (simp add: Suc_le_eq)
      show ?thesis
        using plan_add_cases[of mem slices first "length us - first" config sizer n] merge_small_tail_correct[OF part ok pol(2), of mem]
        unfolding step run st by (elim disjE exE conjE) (auto simp: plain_def round_error_def dest!: m)
    qed
    moreover have "ps = zip (map fst ps) (map snd ps)" by (simp add: zip_map_fst_snd)
    ultimately show ?thesis using ps(1,2) unfolding us_def
      by (intro disjI2 exI[of _ "map fst ps"] exI[of _ "map snd ps"]) auto
  qed
qed

lemma slice_units_zip: "length sizes = length units \<Longrightarrow> map fst (slice_units (zip units sizes) s) = slice_units units s"
  by (simp add: slice_units_def take_map[symmetric] drop_map[symmetric])

lemma partitioned_units:
  assumes "partitioned config n policy us slices"
  shows "concat (map (slice_units us) slices) = us"
  using assms chain_concat[of 0 slices "length us" us] by (simp add: partitioned_def)

text \<open>Splitting a slice whose write failed for lack of room keeps the units and their order.\<close>

lemma chain_split:
  assumes "chain a slices b" "i < length slices" "k \<le> sl_count (slices ! i)"
  shows "chain a (take i slices @ [\<lparr>sl_first = sl_first (slices ! i), sl_count = k, sl_payload_bytes = x\<rparr>,
     \<lparr>sl_first = sl_first (slices ! i) + k, sl_count = sl_count (slices ! i) - k, sl_payload_bytes = y\<rparr>] @ drop (Suc i) slices) b"
  using assms
proof (induction slices arbitrary: a i)
  case (Cons s ss)
  then show ?case by (cases i) auto
qed simp

lemma bisect_correct:
  assumes "YAP_V2_segment_plan_bisect mem plan i = Inr plan'" "chain a (pl_slices plan) b"
  shows "chain a (pl_slices plan') b" "length (pl_slices plan') = Suc (length (pl_slices plan))"
    "pl_prepared_units plan' = pl_prepared_units plan"
    "0 < sl_count (pl_slices plan' ! i)" "sl_count (pl_slices plan' ! i) < sl_count (pl_slices plan ! i)"
    "0 < sl_count (pl_slices plan' ! Suc i)" "sl_count (pl_slices plan' ! Suc i) < sl_count (pl_slices plan ! i)"
proof -
  let ?s = "pl_slices plan ! i"
  have i: "i < length (pl_slices plan)" "2 \<le> sl_count ?s"
    and p: "plan' = plan\<lparr>pl_slices := take i (pl_slices plan) @
           [\<lparr>sl_first = sl_first ?s, sl_count = sl_count ?s div 2, sl_payload_bytes = replicate 7 0\<rparr>,
            \<lparr>sl_first = sl_first ?s + sl_count ?s div 2, sl_count = sl_count ?s - sl_count ?s div 2,
             sl_payload_bytes = replicate 7 0\<rparr>] @ drop (Suc i) (pl_slices plan)\<rparr>"
    using assms(1) by (auto simp: YAP_V2_segment_plan_bisect_def Let_def split: if_splits)
  show "chain a (pl_slices plan') b"
    using chain_split[OF assms(2) i(1), of "sl_count ?s div 2"] by (simp add: p)
  show "length (pl_slices plan') = Suc (length (pl_slices plan))" "pl_prepared_units plan' = pl_prepared_units plan"
    using i by (auto simp: p)
  show "0 < sl_count (pl_slices plan' ! i)" "sl_count (pl_slices plan' ! i) < sl_count ?s"
    "0 < sl_count (pl_slices plan' ! Suc i)" "sl_count (pl_slices plan' ! Suc i) < sl_count ?s"
    using i by (auto simp: p nth_append)
qed

text \<open>C9. Planning always ends; a plan cuts the units, in their order, into consecutive slices. Every
  slice records the exact payload sizes of its units, computed from the units alone; it has at least one
  unit (unless there are none at all), stays within the document and passage limits and within the hard
  payload limit in every component file; and it is closed before the end only when its next unit would
  have taken it over the target.\<close>

theorem segment_plan_partition:
  "\<exists>r. YAP_V2_segment_plan_with_policy mem tokenize json_read print_real config units n policy = Some r \<and>
     (\<forall>plan. r = Inr plan \<longrightarrow>
       (\<exists>sizes. length sizes = length units \<and>
          prepare_units mem tokenize json_read print_real config units = Some (Inr (zip sizes (pl_prepared_units plan))) \<and>
          concat (map (slice_units units) (pl_slices plan)) = units \<and>
          length (pl_slices plan) \<le> YAP_V2_MAX_SEGMENTS \<and>
          (\<forall>s\<in>set (pl_slices plan).
             sl_payload_bytes s = slice_sizes config n (slice_units (zip units sizes) s) \<and>
             (units \<noteq> [] \<longrightarrow> 0 < sl_count s \<and>
                slice_fits config n (sp_hard_max_payload_bytes policy) (slice_units (zip units sizes) s))) \<and>
          (\<forall>s\<in>set (butlast (pl_slices plan)).
             \<not> slice_fits config n (sp_target_payload_bytes policy)
                 (slice_units (zip units sizes) s @ [zip units sizes ! (sl_first s + sl_count s)]))))"
  using plan_cases[of mem tokenize json_read print_real config units n policy]
proof (elim disjE exE conjE)
  fix sizes :: "UNIT_SIZE list" and prepared :: "'a PREPARED_UNIT list" and slices
  assume len: "length sizes = length units"
    and prep: "prepare_units mem tokenize json_read print_real config units = Some (Inr (zip sizes prepared))"
    and p: "YAP_V2_segment_plan_with_policy mem tokenize json_read print_real config units n policy =
           Some (Inr \<lparr>pl_slices = slices, pl_prepared_units = prepared\<rparr>)"
    and part: "partitioned config n policy (zip units sizes) slices" "length slices \<le> YAP_V2_MAX_SEGMENTS"
  have "map fst (concat (map (slice_units (zip units sizes)) slices)) = units"
    using partitioned_units[OF part(1)] len by simp
  then have cat: "concat (map (slice_units units) slices) = units"
    by (simp add: map_concat slice_units_zip[OF len] comp_def)
  have z: "sizes = [] \<longleftrightarrow> units = []" using len by auto
  have good: "sl_payload_bytes s = slice_sizes config n (slice_units (zip units sizes) s) \<and>
     (units \<noteq> [] \<longrightarrow> 0 < sl_count s \<and> slice_fits config n (sp_hard_max_payload_bytes policy) (slice_units (zip units sizes) s))"
    if "s \<in> set slices" for s
    using part(1) that z by (cases "units = []") (auto simp: partitioned_def good_slice_def slice_units_def)
  have full: "\<forall>s\<in>set (butlast slices). \<not> slice_fits config n (sp_target_payload_bytes policy)
       (slice_units (zip units sizes) s @ [zip units sizes ! (sl_first s + sl_count s)])"
    using part(1) by (auto simp: partitioned_def full_slice_def)
  show ?thesis unfolding p using len prep cat good full part(2) by auto
qed auto

text \<open>C27. When planning reports a capacity error, it names a unit that does not fit the hard limit even in
  a segment of its own, and the limit it exceeds.\<close>

theorem segment_plan_capacity_error:
  assumes "YAP_V2_segment_plan_with_policy mem tokenize json_read print_real config units n policy = Some (Inl (status, Some ce))"
  shows "status = YAP_V2_SEGMENT_CAPACITY_EXCEEDED \<and> ce_limit_bytes ce = sp_hard_max_payload_bytes policy \<and>
    (\<exists>i sizes. i < length units \<and> length sizes = length units \<and>
       map_option (map_sum (\<lambda>e. e) (map fst)) (prepare_units mem tokenize json_read print_real config units) = Some (Inr sizes) \<and>
       ce_document_id ce = (case su_document (units ! i) of Some document \<Rightarrow> doc_id document | None \<Rightarrow> su_tombstone (units ! i)) \<and>
       \<not> slice_fits config n (sp_hard_max_payload_bytes policy) [(units ! i, sizes ! i)])"
  using plan_cases[of mem tokenize json_read print_real config units n policy]
proof (elim disjE exE conjE)
  fix sizes :: "UNIT_SIZE list" and prepared :: "'a PREPARED_UNIT list" and e
  assume len: "length sizes = length units" "length prepared = length units"
    and prep: "prepare_units mem tokenize json_read print_real config units = Some (Inr (zip sizes prepared))"
    and p: "YAP_V2_segment_plan_with_policy mem tokenize json_read print_real config units n policy = Some (Inl e)"
    and e: "round_error config n policy (zip units sizes) e"
  have "e = (status, Some ce)" using p assms by simp
  then obtain u where u: "u \<in> set (zip units sizes)" "\<not> slice_fits config n (sp_hard_max_payload_bytes policy) [u]"
    "status = YAP_V2_SEGMENT_CAPACITY_EXCEEDED" "ce_limit_bytes ce = sp_hard_max_payload_bytes policy"
    "ce_document_id ce = (case su_document (fst u) of Some document \<Rightarrow> doc_id document | None \<Rightarrow> su_tombstone (fst u))"
    using e by (auto simp: round_error_def)
  obtain i where i: "i < length units" "u = (units ! i, sizes ! i)"
    using u(1) len by (auto simp: set_zip)
  show ?thesis
    using u i len prep by (intro conjI exI[of _ i] exI[of _ sizes]) (auto split: option.splits)
qed (use assms in auto)

text \<open>Two tombstones that do not fit one segment of 30 bytes, and one that is too long for any.\<close>

definition gone :: "nat \<Rightarrow> YAP_V2_SEGMENT_UNIT" where
  "gone k = \<lparr>su_document = None, su_passages = [], su_vectors = [], su_tombstone = View (replicate k 97)\<rparr>"

definition tight :: YAP_V2_SEGMENT_SIZE_POLICY where
  "tight = \<lparr>sp_target_payload_bytes = 30, sp_soft_max_payload_bytes = 30, sp_hard_max_payload_bytes = 30\<rparr>"

lemmas plan_evaluation = YAP_V2_segment_plan_with_policy_def policy_valid_def tight_def gone_def prepare_unit_def
  plan_unit_def settle_unit_def projected_fits_def project_def add_fixed_def component_sizes_def sizer_empty_def
  plan_add_def sizer_add_def merge_small_tail_def slice_largest_payload_def plain_def YAP_V2_config_init_def vector_metrics
  range_slice_def unit_size_empty_def Let_def type_limits storage_limits component_names_def

theorem segment_plan_partition_witness:
  "\<exists>plan. YAP_V2_segment_plan_with_policy (\<lambda>_. True) (\<lambda>_. Inl YAP_V2_INVALID_FORMAT) (\<lambda>_. None :: unit json option) (\<lambda>_. [])
      YAP_V2_config_init [gone 8, gone 9] 1 tight = Some (Inr plan) \<and>
     map (\<lambda>s. (sl_first s, sl_count s)) (pl_slices plan) = [(0, 1), (1, 1)] \<and>
     concat (map (slice_units [gone 8, gone 9]) (pl_slices plan)) = [gone 8, gone 9]"
proof -
  let ?p = "YAP_V2_segment_plan_with_policy (\<lambda>_. True) (\<lambda>_. Inl YAP_V2_INVALID_FORMAT) (\<lambda>_. None :: unit json option) (\<lambda>_. [])
      YAP_V2_config_init [gone 8, gone 9] 1 tight"
  have "map_option (map_sum (\<lambda>e. e) (\<lambda>plan. map (\<lambda>s. (sl_first s, sl_count s)) (pl_slices plan))) ?p = Some (Inr [(0, 1), (1, 1)])"
    by (simp add: plan_evaluation)
  then obtain plan where p: "?p = Some (Inr plan)" "map (\<lambda>s. (sl_first s, sl_count s)) (pl_slices plan) = [(0, 1), (1, 1)]"
    by (cases ?p; cases "the ?p") auto
  then show ?thesis
    using segment_plan_partition[of "\<lambda>_. True" "\<lambda>_. Inl YAP_V2_INVALID_FORMAT" "\<lambda>_. None :: unit json option" "\<lambda>_. []"
        YAP_V2_config_init "[gone 8, gone 9]" 1 tight] by auto
qed

theorem segment_plan_capacity_error_witness:
  "\<exists>ce. YAP_V2_segment_plan_with_policy (\<lambda>_. True) (\<lambda>_. Inl YAP_V2_INVALID_FORMAT) (\<lambda>_. None :: unit json option) (\<lambda>_. [])
      YAP_V2_config_init [gone 8, gone 20] 1 tight = Some (Inl (YAP_V2_SEGMENT_CAPACITY_EXCEEDED, Some ce)) \<and>
     ce_component ce = ''tombstones.yap2'' \<and> ce_required_bytes ce = 36 \<and> ce_limit_bytes ce = 30"
proof -
  let ?p = "YAP_V2_segment_plan_with_policy (\<lambda>_. True) (\<lambda>_. Inl YAP_V2_INVALID_FORMAT) (\<lambda>_. None :: unit json option) (\<lambda>_. [])
      YAP_V2_config_init [gone 8, gone 20] 1 tight"
  have p: "?p = Some (Inl (YAP_V2_SEGMENT_CAPACITY_EXCEEDED, Some \<lparr>ce_component = ''tombstones.yap2'', ce_required_bytes = 36,
      ce_limit_bytes = 30, ce_document_id = View (replicate 20 97)\<rparr>))"
    by (simp add: plan_evaluation)
  from segment_plan_capacity_error[OF p] show ?thesis using p by (simp add: tight_def)
qed

end
