(* ===== verification/Snapshot_Visibility.thy ===== *)
theory Snapshot_Visibility
  imports Tombstones_V2 Keyed_Table
begin

text \<open>
  The visibility table of a search snapshot, \<open>storage/yappo_snapshot_v2.c\<close>: for every document identifier that
  some segment writes or deletes it holds the last of these events, segments in manifest order and the
  tombstones of a segment before its documents. A free entry (\<open>occupied = 0\<close>) is \<open>None\<close>; the pointer to the
  document is the document itself, \<open>NULL\<close> for a tombstone.
\<close>

subsection \<open>Entries and probing\<close>

record SNAPSHOT_SEGMENT =
  sns_references :: nat
  sns_documents :: YAP_V2_SEGMENT
  sns_tombstones :: YAP_V2_TOMBSTONES

record VISIBILITY_ENTRY =
  vis_id :: YAP_V2_BYTES_VIEW
  vis_segment_ordinal :: nat
  vis_document_ordinal :: nat
  vis_document :: "YAP_V2_DOCUMENT_VIEW option"

definition sizeof_visibility_entry :: nat where "sizeof_visibility_entry = 48"

definition snapshot_bytes_equal :: "YAP_V2_BYTES_VIEW \<Rightarrow> YAP_V2_BYTES_VIEW \<Rightarrow> bool" where
  "snapshot_bytes_equal left right \<longleftrightarrow>
     view_len left = view_len right \<and> \<not> view_is_null left \<and> \<not> view_is_null right \<and>
     view_bytes left = view_bytes right"

definition snapshot_bytes_hash :: "YAP_V2_BYTES_VIEW \<Rightarrow> u64" where
  "snapshot_bytes_hash value = fnv_hash 1469598103934665603 (view_bytes value)"

definition visibility_start :: "YAP_V2_BYTES_VIEW \<Rightarrow> nat \<Rightarrow> nat" where
  "visibility_start value capacity = unat (snapshot_bytes_hash value AND word_of_nat (capacity - 1))"

definition visibility_entry :: "VISIBILITY_ENTRY option list \<Rightarrow> YAP_V2_BYTES_VIEW \<Rightarrow> nat option" where
  "visibility_entry table value =
     (if length table = 0 then None
      else scan (\<lambda>e. snapshot_bytes_equal (vis_id e) value) table (visibility_start value (length table)) (length table))"

definition visibility_lookup :: "VISIBILITY_ENTRY option list \<Rightarrow> YAP_V2_BYTES_VIEW \<Rightarrow> VISIBILITY_ENTRY option" where
  "visibility_lookup table value =
     (if length table = 0 then None
      else case scan (\<lambda>e. snapshot_bytes_equal (vis_id e) value) table
                  (visibility_start value (length table)) (length table) of
        None \<Rightarrow> None
      | Some index \<Rightarrow> table ! index)"

subsection \<open>Building the table\<close>

fun count_records :: "SNAPSHOT_SEGMENT list \<Rightarrow> nat \<Rightarrow> nat outcome" where
  "count_records [] record_count = Inr record_count"
| "count_records (seg # segs) record_count =
     (if length (sgm_documents (sns_documents seg)) > SIZE_MAX - record_count then Inl YAP_V2_OUT_OF_RANGE
      else
        (let record_count = record_count + length (sgm_documents (sns_documents seg)) in
         if length (tmb_document_ids (sns_tombstones seg)) > SIZE_MAX - record_count then Inl YAP_V2_OUT_OF_RANGE
         else count_records segs (record_count + length (tmb_document_ids (sns_tombstones seg)))))"

fun put_tombstones ::
  "nat \<Rightarrow> YAP_V2_BYTES_VIEW list \<Rightarrow> VISIBILITY_ENTRY option list \<Rightarrow> VISIBILITY_ENTRY option list outcome" where
  "put_tombstones s [] table = Inr table"
| "put_tombstones s (x # xs) table =
     (case visibility_entry table x of
        None \<Rightarrow> Inl YAP_V2_CONFLICT
      | Some index \<Rightarrow>
          put_tombstones s xs (table[index := Some \<lparr>vis_id = x, vis_segment_ordinal = s,
            vis_document_ordinal = SIZE_MAX, vis_document = None\<rparr>]))"

fun put_documents ::
  "nat \<Rightarrow> nat \<Rightarrow> YAP_V2_DOCUMENT_VIEW list \<Rightarrow> VISIBILITY_ENTRY option list \<Rightarrow> VISIBILITY_ENTRY option list outcome" where
  "put_documents s i [] table = Inr table"
| "put_documents s i (d # ds) table =
     (case visibility_entry table (doc_id d) of
        None \<Rightarrow> Inl YAP_V2_CONFLICT
      | Some index \<Rightarrow>
          put_documents s (Suc i) ds (table[index := Some \<lparr>vis_id = doc_id d, vis_segment_ordinal = s,
            vis_document_ordinal = i, vis_document = Some d\<rparr>]))"

fun put_segments ::
  "nat \<Rightarrow> SNAPSHOT_SEGMENT list \<Rightarrow> VISIBILITY_ENTRY option list \<Rightarrow> VISIBILITY_ENTRY option list outcome" where
  "put_segments s [] table = Inr table"
| "put_segments s (seg # segs) table =
     rbind (put_tombstones s (tmb_document_ids (sns_tombstones seg)) table) (\<lambda>table.
     rbind (put_documents s 0 (sgm_documents (sns_documents seg)) table) (\<lambda>table.
       put_segments (Suc s) segs table))"

definition snapshot_build_visibility ::
  "(nat \<Rightarrow> bool) \<Rightarrow> SNAPSHOT_SEGMENT list \<Rightarrow> VISIBILITY_ENTRY option list outcome" where
  "snapshot_build_visibility mem segs =
     rbind (count_records segs 0) (\<lambda>record_count.
       if record_count = 0 then Inr []
       else if record_count > SIZE_MAX div 2 then Inl YAP_V2_OUT_OF_RANGE
       else case slot_capacity_checked 1 record_count of
         None \<Rightarrow> Inl YAP_V2_OUT_OF_RANGE
       | Some capacity \<Rightarrow>
           if \<not> mem (capacity * sizeof_visibility_entry) then Inl YAP_V2_ALLOCATION_FAILED
           else put_segments 0 segs (replicate capacity None))"

subsection \<open>The table as a map\<close>

lemma visibility_start_less: "visibility_start key (2 ^ k) < 2 ^ k"
  unfolding visibility_start_def by (rule masked_less)

interpretation visibility_table: keyed_table visibility_start vis_id
  by unfold_locales (rule visibility_start_less)

lemma snapshot_bytes_equal_iff:
  "\<not> view_is_null value \<Longrightarrow> snapshot_bytes_equal other value \<longleftrightarrow> other = value"
  by (cases other; cases "value") (auto simp: snapshot_bytes_equal_def)

text \<open>
  \<open>records table written\<close>: the table is well formed, has a free slot for every remaining record and answers a
  lookup with the last written entry.
\<close>

definition latest :: "VISIBILITY_ENTRY list \<Rightarrow> YAP_V2_BYTES_VIEW \<Rightarrow> VISIBILITY_ENTRY option" where
  "latest written value = find (\<lambda>e. vis_id e = value) (rev written)"

definition records :: "VISIBILITY_ENTRY option list \<Rightarrow> VISIBILITY_ENTRY list \<Rightarrow> bool" where
  "records table written \<longleftrightarrow> slots_inv visibility_start vis_id table \<and>
     length (used_slots table) \<le> length written \<and>
     (\<forall>e. e \<in> set (used_slots table) \<longleftrightarrow> latest written (vis_id e) = Some e)"

lemma latest_simps [simp]: "latest [] value = None"
  "latest (written @ [e]) value = (if vis_id e = value then Some e else latest written value)"
  by (simp_all add: latest_def)

lemma records_empty: "records (replicate (2 ^ k) None) []"
  by (simp add: records_def slots_inv_empty)

lemma records_probe:
  assumes r: "records table written" and room: "length written < length table" and n: "\<not> view_is_null value"
  obtains i where "i < length table" "visibility_entry table value = Some i" "on_path visibility_start table value i"
    "table ! i = latest written value" "visibility_lookup table value = latest written value"
proof -
  have inv: "slots_inv visibility_start vis_id table" and len: "length (used_slots table) \<le> length written"
    and mem: "\<And>e. e \<in> set (used_slots table) \<longleftrightarrow> latest written (vis_id e) = Some e"
    using r unfolding records_def by blast+
  have free: "None \<in> set table" using len room length_used_slots[of table] by simp
  have eq: "(\<lambda>e. snapshot_bytes_equal (vis_id e) value) = (\<lambda>e. vis_id e = value)"
    by (simp add: snapshot_bytes_equal_iff[OF n])
  obtain i where i: "i < length table" "on_path visibility_start table value i"
    "scan (\<lambda>e. vis_id e = value) table (visibility_start value (length table)) (length table) = Some i"
    "(\<exists>e. table ! i = Some e \<and> vis_id e = value) \<or>
     (table ! i = None \<and> (\<forall>e. Some e \<in> set table \<longrightarrow> vis_id e \<noteq> value))"
    by (rule visibility_table.scan_key[OF inv free])
  have "table ! i = latest written value"
    using i(4)
  proof
    assume "\<exists>e. table ! i = Some e \<and> vis_id e = value"
    then obtain e where e: "table ! i = Some e" "vis_id e = value" by blast
    then have "e \<in> set (used_slots table)" using i(1) by (metis mem_Collect_eq nth_mem set_used_slots)
    with e mem show ?thesis by simp
  next
    assume none: "table ! i = None \<and> (\<forall>e. Some e \<in> set table \<longrightarrow> vis_id e \<noteq> value)"
    have "latest written value \<noteq> Some e" for e
    proof
      assume l: "latest written value = Some e"
      then have "vis_id e = value" by (auto simp: latest_def find_Some_iff)
      with l mem none show False by (auto simp: set_used_slots)
    qed
    with none show ?thesis by (metis not_None_eq)
  qed
  with i room show thesis
    by (intro that[of i]) (auto simp: visibility_entry_def visibility_lookup_def eq)
qed

lemma records_put:
  assumes r: "records table written" and room: "length written < length table" and n: "\<not> view_is_null (vis_id e)"
  obtains i where "visibility_entry table (vis_id e) = Some i" "records (table[i := Some e]) (written @ [e])"
proof -
  obtain i where i: "i < length table" "visibility_entry table (vis_id e) = Some i"
    "on_path visibility_start table (vis_id e) i" "table ! i = latest written (vis_id e)"
    by (rule records_probe[OF r room n])
  have inv: "slots_inv visibility_start vis_id table" and len: "length (used_slots table) \<le> length written"
    and mem: "\<And>e. e \<in> set (used_slots table) \<longleftrightarrow> latest written (vis_id e) = Some e"
    using r unfolding records_def by blast+
  let ?T = "table[i := Some e]"
  show thesis
  proof (cases "table ! i")
    case None
    have new: "\<forall>t\<in>set (used_slots table). vis_id t \<noteq> vis_id e" using mem None i(4) by auto
    have "mset (used_slots ?T) = add_mset e (mset (used_slots table))"
      using used_slots_update[OF i(1), of e] None by simp
    then have set: "set (used_slots ?T) = insert e (set (used_slots table))"
      and ln: "length (used_slots ?T) = Suc (length (used_slots table))"
      by (metis set_mset_add_mset_insert set_mset_mset, metis size_mset size_add_mset)
    have "f \<in> set (used_slots ?T) \<longleftrightarrow> latest (written @ [e]) (vis_id f) = Some f" for f
      unfolding set using mem[of f] new by auto
    then have "records ?T (written @ [e])"
      unfolding records_def using slots_inv_insert[OF inv i(1) None i(3) new] ln len by simp
    then show thesis by (rule that[OF i(2)])
  next
    case (Some t)
    then have t: "t \<in> set (used_slots table)" using i(1) by (metis mem_Collect_eq nth_mem set_used_slots)
    have id: "vis_id e = vis_id t" using Some i(4) by (auto simp: latest_def find_Some_iff)
    have dist: "distinct (used_slots table)" using distinct_used_keys[OF inv] by (simp add: distinct_map)
    have ms: "mset (used_slots ?T) = add_mset e (mset (used_slots table) - {#t#})"
      using used_slots_update[OF i(1), of e] Some by simp
    then have set: "set (used_slots ?T) = insert e (set (used_slots table) - {t})"
      using dist by (metis set_mset_add_mset_insert set_mset_mset mset_remove1 set_remove1_eq)
    have ln: "length (used_slots ?T) = length (used_slots table)"
      using ms t by (metis Suc_pred' add_mset_remove_trivial insert_DiffM set_mset_mset size_add_mset size_mset)
    have "f \<in> set (used_slots ?T) \<longleftrightarrow> latest (written @ [e]) (vis_id f) = Some f" for f
    proof (cases "vis_id f = vis_id e")
      case True
      then have "f \<in> set (used_slots table) \<Longrightarrow> f = t" using mem Some i(4) by simp
      then show ?thesis unfolding set using True by auto
    next
      case False
      then show ?thesis unfolding set using mem[of f] id by auto
    qed
    then have "records ?T (written @ [e])"
      unfolding records_def using slots_inv_replace[OF inv i(1) Some id] ln len by simp
    then show thesis by (rule that[OF i(2)])
  qed
qed

subsection \<open>What the segments write\<close>

definition tombstone_event :: "nat \<Rightarrow> YAP_V2_BYTES_VIEW \<Rightarrow> VISIBILITY_ENTRY" where
  "tombstone_event s x = \<lparr>vis_id = x, vis_segment_ordinal = s, vis_document_ordinal = SIZE_MAX, vis_document = None\<rparr>"

definition document_event :: "nat \<Rightarrow> nat \<Rightarrow> YAP_V2_DOCUMENT_VIEW \<Rightarrow> VISIBILITY_ENTRY" where
  "document_event s i d =
     \<lparr>vis_id = doc_id d, vis_segment_ordinal = s, vis_document_ordinal = i, vis_document = Some d\<rparr>"

abbreviation deleted_ids :: "SNAPSHOT_SEGMENT \<Rightarrow> YAP_V2_BYTES_VIEW list" where
  "deleted_ids seg \<equiv> tmb_document_ids (sns_tombstones seg)"

abbreviation stored_documents :: "SNAPSHOT_SEGMENT \<Rightarrow> YAP_V2_DOCUMENT_VIEW list" where
  "stored_documents seg \<equiv> sgm_documents (sns_documents seg)"

definition segment_events :: "nat \<Rightarrow> SNAPSHOT_SEGMENT \<Rightarrow> VISIBILITY_ENTRY list" where
  "segment_events s seg = map (tombstone_event s) (deleted_ids seg) @
     map (\<lambda>i. document_event s i (stored_documents seg ! i)) [0..<length (stored_documents seg)]"

fun visibility_events :: "nat \<Rightarrow> SNAPSHOT_SEGMENT list \<Rightarrow> VISIBILITY_ENTRY list" where
  "visibility_events s [] = []"
| "visibility_events s (seg # segs) = segment_events s seg @ visibility_events (Suc s) segs"

definition writes :: "SNAPSHOT_SEGMENT \<Rightarrow> YAP_V2_BYTES_VIEW set" where
  "writes seg = set (deleted_ids seg) \<union> doc_id ` set (stored_documents seg)"

lemma event_ids [simp]: "vis_id (tombstone_event s x) = x" "vis_id (document_event s i d) = doc_id d"
  by (simp_all add: tombstone_event_def document_event_def)

lemma length_segment_events [simp]:
  "length (segment_events s seg) = length (deleted_ids seg) + length (stored_documents seg)"
  by (simp add: segment_events_def)

lemma visibility_events_append:
  "visibility_events s (segs @ [seg]) = visibility_events s segs @ segment_events (s + length segs) seg"
  by (induction segs arbitrary: s) simp_all

lemma count_records_eq: "count_records segs n = Inr m \<Longrightarrow> m = n + length (visibility_events s segs)"
  by (induction segs arbitrary: n s) (fastforce simp: Let_def split: if_splits)+

lemma put_tombstones_records:
  "records table written \<Longrightarrow> length written + length xs \<le> length table \<Longrightarrow> \<forall>x\<in>set xs. \<not> view_is_null x \<Longrightarrow>
   \<exists>table'. put_tombstones s xs table = Inr table' \<and> length table' = length table \<and>
     records table' (written @ map (tombstone_event s) xs)"
proof (induction xs arbitrary: table written)
  case (Cons x xs)
  obtain i where i: "visibility_entry table x = Some i"
    "records (table[i := Some (tombstone_event s x)]) (written @ [tombstone_event s x])"
    by (rule records_put[OF Cons.prems(1), of "tombstone_event s x"]) (use Cons.prems in auto)
  have "\<exists>table'. put_tombstones s xs (table[i := Some (tombstone_event s x)]) = Inr table' \<and>
      length table' = length (table[i := Some (tombstone_event s x)]) \<and>
      records table' ((written @ [tombstone_event s x]) @ map (tombstone_event s) xs)"
    by (rule Cons.IH[OF i(2)]) (use Cons.prems in auto)
  with i(1) show ?case by (simp flip: tombstone_event_def)
qed simp

lemma put_documents_records:
  "records table written \<Longrightarrow> length written + length ds \<le> length table \<Longrightarrow> \<forall>d\<in>set ds. \<not> view_is_null (doc_id d) \<Longrightarrow>
   \<exists>table'. put_documents s i ds table = Inr table' \<and> length table' = length table \<and>
     records table' (written @ map (\<lambda>j. document_event s (i + j) (ds ! j)) [0..<length ds])"
proof (induction ds arbitrary: i table written)
  case (Cons d ds)
  obtain k where k: "visibility_entry table (doc_id d) = Some k"
    "records (table[k := Some (document_event s i d)]) (written @ [document_event s i d])"
    by (rule records_put[OF Cons.prems(1), of "document_event s i d"]) (use Cons.prems in auto)
  have "\<exists>table'. put_documents s (Suc i) ds (table[k := Some (document_event s i d)]) = Inr table' \<and>
      length table' = length (table[k := Some (document_event s i d)]) \<and>
      records table' ((written @ [document_event s i d]) @ map (\<lambda>j. document_event s (Suc i + j) (ds ! j)) [0..<length ds])"
    by (rule Cons.IH[OF k(2)]) (use Cons.prems in auto)
  moreover have "map (\<lambda>j. document_event s (i + j) ((d # ds) ! j)) [0..<length (d # ds)] =
      document_event s i d # map (\<lambda>j. document_event s (Suc i + j) (ds ! j)) [0..<length ds]"
    by (simp add: upt_conv_Cons map_Suc_upt[symmetric] del: upt_Suc)
  ultimately show ?case using k(1) by (simp flip: document_event_def)
qed simp

definition ids_present :: "SNAPSHOT_SEGMENT \<Rightarrow> bool" where
  "ids_present seg \<longleftrightarrow> (\<forall>x\<in>writes seg. \<not> view_is_null x)"

lemma put_segments_records:
  "records table written \<Longrightarrow> length written + length (visibility_events s segs) \<le> length table \<Longrightarrow>
   \<forall>seg\<in>set segs. ids_present seg \<Longrightarrow>
   \<exists>table'. put_segments s segs table = Inr table' \<and> length table' = length table \<and>
     records table' (written @ visibility_events s segs)"
proof (induction segs arbitrary: s table written)
  case (Cons seg segs)
  let ?T = "map (tombstone_event s) (deleted_ids seg)"
  let ?D = "map (\<lambda>i. document_event s (0 + i) (stored_documents seg ! i)) [0..<length (stored_documents seg)]"
  have p: "\<forall>x\<in>set (deleted_ids seg). \<not> view_is_null x" "\<forall>d\<in>set (stored_documents seg). \<not> view_is_null (doc_id d)"
    using Cons.prems(3) by (auto simp: ids_present_def writes_def)
  obtain t1 where t1: "put_tombstones s (deleted_ids seg) table = Inr t1" "length t1 = length table"
    "records t1 (written @ ?T)"
    using put_tombstones_records[OF Cons.prems(1) _ p(1)] Cons.prems(2) by auto
  obtain t2 where t2: "put_documents s 0 (stored_documents seg) t1 = Inr t2" "length t2 = length t1"
    "records t2 ((written @ ?T) @ ?D)"
    using put_documents_records[OF t1(3) _ p(2), of s 0] Cons.prems(2) t1(2) by auto
  then have "records t2 (written @ segment_events s seg)" by (simp add: segment_events_def)
  from Cons.IH[OF this, of "Suc s"] t1 t2 Cons.prems(2,3) show ?case by auto
qed simp

text \<open>Building never reports a conflict: it is refused only for its size.\<close>

lemma build_visibility_cases:
  assumes "\<forall>seg\<in>set segs. ids_present seg"
  shows "(case snapshot_build_visibility mem segs of
      Inl status \<Rightarrow> status \<in> {YAP_V2_OUT_OF_RANGE, YAP_V2_ALLOCATION_FAILED}
    | Inr table \<Rightarrow> \<forall>x. \<not> view_is_null x \<longrightarrow> visibility_lookup table x = latest (visibility_events 0 segs) x)"
proof (cases "count_records segs 0")
  case (Inl status)
  have "count_records segs n = Inl st \<Longrightarrow> st = YAP_V2_OUT_OF_RANGE" for n st
    by (induction segs n rule: count_records.induct) (auto simp: Let_def split: if_splits)
  with Inl show ?thesis by (auto simp: snapshot_build_visibility_def)
next
  case (Inr n)
  have n: "n = length (visibility_events 0 segs)" using count_records_eq[OF Inr, of 0] by simp
  show ?thesis
  proof (cases "n = 0 \<or> n > SIZE_MAX div 2 \<or> slot_capacity_checked 1 n = None")
    case True
    then show ?thesis
      using Inr n by (auto simp: snapshot_build_visibility_def visibility_lookup_def split: option.splits)
  next
    case False
    then obtain c where c: "slot_capacity_checked 1 n = Some c" by blast
    then have cap: "c = slot_capacity 1 n" by (rule checked_capacity)
    obtain k where k: "c = 2 ^ k" using slot_capacity_pow2[of 0 n] cap by auto
    have room: "n < c" using slot_capacity_ge[of 1 n] cap False by simp
    obtain table where t: "put_segments 0 segs (replicate c None) = Inr table" "length table = c"
      "records table (visibility_events 0 segs)"
      using put_segments_records[OF records_empty[of k], of 0 segs] assms room n k by auto
    have "visibility_lookup table x = latest (visibility_events 0 segs) x" if "\<not> view_is_null x" for x
      by (rule records_probe[OF t(3) _ that]) (use room n t(2) in auto)
    with False c t(1) Inr show ?thesis by (simp add: snapshot_build_visibility_def)
  qed
qed

subsection \<open>The last writer\<close>

lemma latest_append: "latest (xs @ ys) v = (case latest ys v of Some e \<Rightarrow> Some e | None \<Rightarrow> latest xs v)"
  by (induction ys rule: rev_induct) (simp_all flip: append_assoc)

lemma latest_None_iff: "latest xs v = None \<longleftrightarrow> v \<notin> vis_id ` set xs"
  by (auto simp: latest_def find_None_iff)

lemma latest_Some_iff:
  "latest xs v = Some e \<longleftrightarrow> (\<exists>k<length xs. xs ! k = e \<and> vis_id e = v \<and> (\<forall>j<length xs. k < j \<longrightarrow> vis_id (xs ! j) \<noteq> v))"
proof (induction xs rule: rev_induct)
  case (snoc x xs)
  show ?case
  proof (cases "vis_id x = v")
    case True
    have "k = length xs" if "k < length (xs @ [x])"
      "\<forall>j<length (xs @ [x]). k < j \<longrightarrow> vis_id ((xs @ [x]) ! j) \<noteq> v" for k
      using that True by (metis (no_types, lifting) length_append_singleton less_Suc_eq nth_append_length)
    with True show ?thesis by (auto simp: nth_append)
  next
    case False
    then show ?thesis using snoc.IH by (auto simp: nth_append less_Suc_eq)
  qed
qed simp

lemma segment_events_ids: "vis_id ` set (segment_events s seg) = writes seg"
proof -
  have "map (\<lambda>i. doc_id (stored_documents seg ! i)) [0..<length (stored_documents seg)] = map doc_id (stored_documents seg)"
    by (rule nth_equalityI) simp_all
  then have "map vis_id (segment_events s seg) = deleted_ids seg @ map doc_id (stored_documents seg)"
    by (simp add: segment_events_def comp_def)
  then show ?thesis by (metis set_append set_map writes_def)
qed

lemma latest_segment_document:
  "latest (segment_events s seg) v = Some (document_event s' i d) \<longleftrightarrow>
     s' = s \<and> i < length (stored_documents seg) \<and> stored_documents seg ! i = d \<and> doc_id d = v \<and>
     (\<forall>j<length (stored_documents seg). i < j \<longrightarrow> doc_id (stored_documents seg ! j) \<noteq> v)" (is "?L \<longleftrightarrow> ?R")
proof -
  let ?n = "length (deleted_ids seg)" and ?m = "length (stored_documents seg)"
  have nth: "segment_events s seg ! k = (if k < ?n then tombstone_event s (deleted_ids seg ! k)
      else document_event s (k - ?n) (stored_documents seg ! (k - ?n)))" if "k < ?n + ?m" for k
    using that by (auto simp: segment_events_def nth_append)
  show ?thesis
  proof
    assume ?L
    then obtain k where k: "k < ?n + ?m" "segment_events s seg ! k = document_event s' i d" "doc_id d = v"
      "\<forall>j<?n + ?m. k < j \<longrightarrow> vis_id (segment_events s seg ! j) \<noteq> v"
      by (auto simp: latest_Some_iff)
    have kn: "\<not> k < ?n" using k(2) nth[OF k(1)] by (auto simp: tombstone_event_def document_event_def)
    have "s' = s" "i = k - ?n" "d = stored_documents seg ! i"
      using k(2) nth[OF k(1)] kn by (auto simp: document_event_def)
    moreover have "doc_id (stored_documents seg ! j) \<noteq> v" if "j < ?m" "i < j" for j
    proof -
      have "vis_id (segment_events s seg ! (?n + j)) \<noteq> v" using k(4) that \<open>i = k - ?n\<close> kn by auto
      then show ?thesis using nth[of "?n + j"] that by simp
    qed
    ultimately show ?R using k(1,3) kn by auto
  next
    assume r: ?R
    have "vis_id (segment_events s seg ! j) \<noteq> v" if "j < ?n + ?m" "?n + i < j" for j
      using r that nth[of j] by simp
    with r show ?L
      unfolding latest_Some_iff using nth[of "?n + i"] by (intro exI[of _ "?n + i"]) auto
  qed
qed

text \<open>
  \<open>live segs v s i d\<close>: the document \<open>d\<close> at place \<open>i\<close> of segment \<open>s\<close> has the identifier \<open>v\<close>, and nothing after it
  writes or deletes \<open>v\<close>.
\<close>

definition live ::
  "SNAPSHOT_SEGMENT list \<Rightarrow> YAP_V2_BYTES_VIEW \<Rightarrow> nat \<Rightarrow> nat \<Rightarrow> YAP_V2_DOCUMENT_VIEW \<Rightarrow> bool" where
  "live segs v s i d \<longleftrightarrow> s < length segs \<and> i < length (stored_documents (segs ! s)) \<and>
     stored_documents (segs ! s) ! i = d \<and> doc_id d = v \<and>
     (\<forall>j<length (stored_documents (segs ! s)). i < j \<longrightarrow> doc_id (stored_documents (segs ! s) ! j) \<noteq> v) \<and>
     (\<forall>t<length segs. s < t \<longrightarrow> v \<notin> writes (segs ! t))"

lemma live_snoc:
  "live (segs @ [seg]) v s i d \<longleftrightarrow>
     (if v \<in> writes seg then latest (segment_events (length segs) seg) v = Some (document_event s i d)
      else live segs v s i d)"
  by (auto simp: live_def latest_segment_document writes_def nth_append less_Suc_eq image_iff in_set_conv_nth
      split: if_splits) (metis nth_mem)+

lemma latest_live: "latest (visibility_events 0 segs) v = Some (document_event s i d) \<longleftrightarrow> live segs v s i d"
proof (induction segs rule: rev_induct)
  case Nil
  show ?case by (simp add: live_def)
next
  case (snoc seg segs)
  show ?case
  proof (cases "v \<in> writes seg")
    case True
    then have "latest (segment_events (length segs) seg) v \<noteq> None"
      by (simp add: latest_None_iff segment_events_ids)
    with True show ?thesis
      by (auto simp: live_snoc visibility_events_append latest_append simp del: not_None_eq split: option.splits)
  next
    case False
    then have "latest (segment_events (length segs) seg) v = None"
      by (simp add: latest_None_iff segment_events_ids)
    with False snoc show ?thesis by (simp add: live_snoc visibility_events_append latest_append)
  qed
qed

lemma event_cases:
  assumes "e \<in> set (visibility_events s segs)"
  obtains "vis_document e = None" | t i d where "e = document_event t i d"
  using assms
  by (induction segs arbitrary: s) (auto simp: segment_events_def tombstone_event_def)

lemma visibility_lookup_live:
  assumes "snapshot_build_visibility mem segs = Inr table" "\<forall>seg\<in>set segs. ids_present seg" "\<not> view_is_null v"
  shows "(\<exists>e. visibility_lookup table v = Some e \<and> vis_document e = Some d \<and> vis_segment_ordinal e = s \<and>
      vis_document_ordinal e = i) \<longleftrightarrow> live segs v s i d"
proof -
  let ?L = "latest (visibility_events 0 segs) v"
  have l: "visibility_lookup table v = ?L"
    using build_visibility_cases[OF assms(2), of mem] assms(1,3) by simp
  have e: "vis_document e = Some d \<and> vis_segment_ordinal e = s \<and> vis_document_ordinal e = i \<longleftrightarrow>
      e = document_event s i d" if "?L = Some e" for e
  proof -
    have "e \<in> set (visibility_events 0 segs)" using that by (auto simp: latest_Some_iff)
    then show ?thesis by (rule event_cases) (auto simp: document_event_def)
  qed
  show ?thesis
    unfolding l latest_live[symmetric] by (cases ?L) (simp_all add: e)
qed

end
