(* ===== verification/Refcount.thy ===== *)
theory Refcount
  imports Keyed_Table
begin

text \<open>
  Objects on the heap that carry a reference count. Addresses are positions of a list, a freed object is
  \<open>None\<close>, and \<open>counted\<close> relates the counts to the references that exist: an object lives exactly as long as
  somebody refers to it.
\<close>

definition cell :: "'x option list \<Rightarrow> nat \<Rightarrow> 'x option" where
  "cell objs a = (if a < length objs then objs ! a else None)"

fun agrees :: "('x \<Rightarrow> nat) \<Rightarrow> 'x option \<Rightarrow> nat \<Rightarrow> bool" where
  "agrees refs None n \<longleftrightarrow> n = 0"
| "agrees refs (Some x) n \<longleftrightarrow> refs x = n \<and> 0 < n"

definition counted :: "('x \<Rightarrow> nat) \<Rightarrow> 'x option list \<Rightarrow> nat multiset \<Rightarrow> bool" where
  "counted refs objs owners \<longleftrightarrow> (\<forall>a. agrees refs (cell objs a) (count owners a))"

lemma cell_bound: "cell objs a = Some x \<Longrightarrow> a < length objs"
  by (simp add: cell_def split: if_splits)

lemma cell_update [simp]: "cell (objs[a := y]) b = (if a = b \<and> a < length objs then y else cell objs b)"
  by (simp add: cell_def)

lemma cell_snoc [simp]: "cell (objs @ [y]) b = (if b = length objs then y else cell objs b)"
  by (simp add: cell_def nth_append)

lemma countedD: "counted refs objs owners \<Longrightarrow> agrees refs (cell objs a) (count owners a)"
  by (simp add: counted_def)

lemma counted_nil: "counted refs [] {#}"
  by (simp add: counted_def cell_def)

lemma counted_live:
  assumes "counted refs objs owners" "a \<in># owners"
  obtains x where "cell objs a = Some x" "refs x = count owners a"
  using countedD[OF assms(1), of a] assms(2) by (cases "cell objs a") (auto simp: count_eq_zero_iff)

lemma counted_owned: "counted refs objs owners \<Longrightarrow> cell objs a = Some x \<Longrightarrow> a \<in># owners"
  using countedD[of refs objs owners a] by (auto intro: count_inI)

lemma counted_retain:
  assumes "counted refs objs owners" "cell objs a = Some x" "refs y = Suc (refs x)"
  shows "counted refs (objs[a := Some y]) (add_mset a owners)"
  using countedD[OF assms(1)] countedD[OF assms(1), of a] assms(2,3) cell_bound[OF assms(2)]
  by (simp add: counted_def)

lemma counted_drop:
  assumes "counted refs objs (add_mset a owners)" "cell objs a = Some x"
  shows "0 < refs x" "refs x \<noteq> 1 \<Longrightarrow> refs y = refs x - 1 \<Longrightarrow> counted refs (objs[a := Some y]) owners"
    "refs x = 1 \<Longrightarrow> counted refs (objs[a := None]) owners"
proof -
  have a: "refs x = Suc (count owners a)" using countedD[OF assms(1), of a] assms(2) by simp
  have b: "agrees refs (cell objs b) (count owners b)" if "b \<noteq> a" for b
    using countedD[OF assms(1), of b] that by simp
  show "0 < refs x" using a by simp
  show "counted refs (objs[a := Some y]) owners" if "refs x \<noteq> 1" "refs y = refs x - 1"
    using a b that cell_bound[OF assms(2)] by (simp add: counted_def)
  show "counted refs (objs[a := None]) owners" if "refs x = 1"
    using a b that cell_bound[OF assms(2)] by (simp add: counted_def)
qed

lemma counted_alloc:
  assumes "counted refs objs owners" "refs x = 1"
  shows "counted refs (objs @ [Some x]) (add_mset (length objs) owners)"
proof -
  have "count owners (length objs) = 0" using countedD[OF assms(1), of "length objs"] by (simp add: cell_def)
  with countedD[OF assms(1)] assms(2) show ?thesis by (simp add: counted_def)
qed

lemma counted_all_freed:
  assumes "counted refs objs {#}"
  shows "used_slots objs = []"
proof -
  have "Some x \<notin> set objs" for x
    using countedD[OF assms] by (metis agrees.simps(2) cell_def count_empty in_set_conv_nth less_irrefl)
  then show ?thesis by (metis (no_types, lifting) last_in_set mem_Collect_eq set_used_slots)
qed

subsection \<open>Contents that do not change\<close>

text \<open>
  \<open>frozen content objs objs'\<close>: addresses are not reused and what is still there has kept its content; the
  reference count is not part of the content.
\<close>

definition frozen :: "('x \<Rightarrow> 'y) \<Rightarrow> 'x option list \<Rightarrow> 'x option list \<Rightarrow> bool" where
  "frozen content objs objs' \<longleftrightarrow> length objs \<le> length objs' \<and>
     (\<forall>a<length objs. \<forall>y. cell objs' a = Some y \<longrightarrow> (\<exists>x. cell objs a = Some x \<and> content x = content y))"

lemma frozen_refl [simp]: "frozen content objs objs"
  by (simp add: frozen_def)

lemma frozen_trans:
  assumes "frozen content objs objs1" "frozen content objs1 objs2"
  shows "frozen content objs objs2"
  unfolding frozen_def
proof (intro conjI allI impI)
  show "length objs \<le> length objs2" using assms by (simp add: frozen_def)
  fix a y assume "a < length objs" "cell objs2 a = Some y"
  with assms show "\<exists>x. cell objs a = Some x \<and> content x = content y"
    unfolding frozen_def by (metis order_less_le_trans)
qed

lemma frozen_update: "cell objs a = Some x \<Longrightarrow> content y = content x \<Longrightarrow> frozen content objs (objs[a := Some y])"
  by (simp add: frozen_def)

lemma frozen_free: "frozen content objs (objs[a := None])"
  by (simp add: frozen_def)

lemma frozen_alloc: "frozen content objs (objs @ [x])"
  by (simp add: frozen_def)

lemma frozen_cell: "frozen content objs objs' \<Longrightarrow> cell objs a = Some x \<Longrightarrow> cell objs' a = Some y \<Longrightarrow> content y = content x"
  unfolding frozen_def by (metis cell_bound option.inject)

end
