(* ===== verification/Snapshot_V2.thy ===== *)
theory Snapshot_V2
  imports Snapshot_Visibility Refcount Manifest_V2 Config_V2
begin

text \<open>
  Search snapshots and their manager, \<open>storage/yappo_snapshot_v2.c\<close>. Snapshots and their segments are
  reference-counted objects: a reload shares the segments it has in common with the snapshot it starts from,
  readers hold a snapshot while the manager moves on to the next generation. The heap below holds both
  kinds of objects; an operation that would touch a freed object has no result (\<open>None\<close>). The mutexes make the
  counter updates and the exchange of the current snapshot atomic, which is how the steps of the last part
  are cut.
\<close>

subsection \<open>Snapshots on the heap\<close>

record YAP_V2_SEARCH_SNAPSHOT =
  snp_references :: nat
  snp_manifest :: YAP_V2_MANIFEST
  snp_segments :: "nat list"
  snp_visibility :: "VISIBILITY_ENTRY option list"

record snapshot_heap =
  hp_segments :: "SNAPSHOT_SEGMENT option list"
  hp_snapshots :: "YAP_V2_SEARCH_SNAPSHOT option list"

record MANAGER_STATE =
  mgr_index_dir :: bytes
  mgr_manifest_path :: string
  mgr_config :: YAP_V2_CONFIG
  mgr_current :: "nat option"

definition sizeof_snapshot_segment :: nat where "sizeof_snapshot_segment = 392"
definition sizeof_search_snapshot :: nat where "sizeof_search_snapshot = 168"
definition sizeof_manager_state :: nat where "sizeof_manager_state = 8800"

text \<open>The loop of \<open>snapshot_destroy\<close>: one reference less on every segment, the last one frees it.\<close>

fun release_segments :: "nat list \<Rightarrow> SNAPSHOT_SEGMENT option list \<Rightarrow> SNAPSHOT_SEGMENT option list option" where
  "release_segments [] segs = Some segs"
| "release_segments (a # as) segs =
     (case cell segs a of
        None \<Rightarrow> None
      | Some seg \<Rightarrow>
          release_segments as
            (if sns_references seg > 0
             then if sns_references seg - 1 = 0 then segs[a := None]
                  else segs[a := Some (seg\<lparr>sns_references := sns_references seg - 1\<rparr>)]
             else segs))"

definition snapshot_destroy :: "snapshot_heap \<Rightarrow> nat \<Rightarrow> snapshot_heap option" where
  "snapshot_destroy hp a =
     (case cell (hp_snapshots hp) a of
        None \<Rightarrow> None
      | Some snapshot \<Rightarrow>
          (case release_segments (snp_segments snapshot) (hp_segments hp) of
             None \<Rightarrow> None
           | Some segs \<Rightarrow> Some \<lparr>hp_segments = segs, hp_snapshots = (hp_snapshots hp)[a := None]\<rparr>))"

definition snapshot_retain :: "snapshot_heap \<Rightarrow> nat \<Rightarrow> snapshot_heap option" where
  "snapshot_retain hp a =
     (case cell (hp_snapshots hp) a of
        None \<Rightarrow> None
      | Some snapshot \<Rightarrow>
          Some (hp\<lparr>hp_snapshots := (hp_snapshots hp)
                     [a := Some (snapshot\<lparr>snp_references := snp_references snapshot + 1\<rparr>)]\<rparr>))"

definition YAP_V2_snapshot_release :: "snapshot_heap \<Rightarrow> nat option \<Rightarrow> snapshot_heap option" where
  "YAP_V2_snapshot_release hp handle =
     (case handle of
        None \<Rightarrow> Some hp
      | Some a \<Rightarrow>
          (case cell (hp_snapshots hp) a of
             None \<Rightarrow> None
           | Some snapshot \<Rightarrow>
               if snp_references snapshot > 0
               then (let hp = hp\<lparr>hp_snapshots := (hp_snapshots hp)
                               [a := Some (snapshot\<lparr>snp_references := snp_references snapshot - 1\<rparr>)]\<rparr> in
                     if snp_references snapshot - 1 = 0 then snapshot_destroy hp a else Some hp)
               else Some hp))"

subsection \<open>Loading\<close>

text \<open>
  The answers of the environment: allocations, the file system, the library calls per path, the files as
  \<open>YAP_V2_file_sha256\<close> reads them, and whether a mutex can be initialized.
\<close>

record snapshot_env =
  env_mem :: "nat \<Rightarrow> bool"
  env_fs :: fs
  env_ios :: "string \<Rightarrow> io"
  env_files :: file_access
  env_mutex :: bool
  env_segment_mutex :: "nat \<Rightarrow> bool"

definition c_path :: "bytes \<Rightarrow> string" where
  "c_path path = map (\<lambda>c. char_of (unat c)) path"

definition snapshot_component :: "YAP_V2_SEGMENT_DESCRIPTOR \<Rightarrow> u32 \<Rightarrow> YAP_V2_COMPONENT_DESCRIPTOR option" where
  "snapshot_component segment file_type = find (\<lambda>c. cmp_file_type c = file_type) (seg_components segment)"

definition snapshot_component_path ::
  "(nat \<Rightarrow> bool) \<Rightarrow> bytes \<Rightarrow> YAP_V2_SEGMENT_DESCRIPTOR \<Rightarrow> YAP_V2_COMPONENT_DESCRIPTOR \<Rightarrow> string outcome" where
  "snapshot_component_path mem index_dir segment component =
     (let segment_id = c_string (seg_id segment); name = c_string (cmp_name component) in
      if length index_dir > SIZE_MAX - length segment_id - length name - 12 then Inl YAP_V2_OUT_OF_RANGE
      else if \<not> mem (length index_dir + length segment_id + length name + 12) then Inl YAP_V2_ALLOCATION_FAILED
      else Inr (c_path (index_dir @ ascii ''/segments/'' @ segment_id @ ascii ''/'' @ name)))"

text \<open>
  A segment that the previous snapshot does not provide. When it cannot be loaded \<open>snapshot_destroy\<close> frees it
  again with the rest of the new snapshot; the model allocates it only when it is complete.
\<close>

definition snapshot_read_segment ::
  "snapshot_env \<Rightarrow> bytes \<Rightarrow> u64 \<Rightarrow> nat \<Rightarrow> YAP_V2_SEGMENT_DESCRIPTOR \<Rightarrow> SNAPSHOT_SEGMENT outcome" where
  "snapshot_read_segment env index_dir generation i descriptor =
     (let status = YAP_V2_manifest_verify_segment_components (env_mem env) (env_files env) index_dir
            generation descriptor in
      if status \<noteq> YAP_V2_OK then Inl status
      else if \<not> env_mem env sizeof_snapshot_segment then Inl YAP_V2_ALLOCATION_FAILED
      else if \<not> env_segment_mutex env i then Inl YAP_V2_IO_ERROR
      else case snapshot_component descriptor YAP_V2_FILE_DOCUMENTS of
        None \<Rightarrow> Inl YAP_V2_INVALID_FORMAT
      | Some documents \<Rightarrow>
          rbind (snapshot_component_path (env_mem env) index_dir descriptor documents) (\<lambda>path.
          rbind (YAP_V2_segment_read (env_mem env) (env_ios env path) (env_fs env) path 0 False) (\<lambda>(segment, _).
            if c_string (sgm_id segment) \<noteq> c_string (seg_id descriptor) \<or>
               length (sgm_documents segment) \<noteq> unat (seg_document_count descriptor) \<or>
               length (sgm_passages segment) \<noteq> unat (seg_passage_count descriptor) then Inl YAP_V2_CONFLICT
            else
              rbind (case snapshot_component descriptor YAP_V2_FILE_TOMBSTONES of
                       None \<Rightarrow> Inr \<lparr>tmb_document_ids = [], tmb_storage = []\<rparr>
                     | Some tombstones \<Rightarrow>
                         rbind (snapshot_component_path (env_mem env) index_dir descriptor tombstones) (\<lambda>path.
                           YAP_V2_tombstones_read (env_mem env) (env_ios env path) (env_fs env) path 0)) (\<lambda>tombstones.
                if length (tmb_document_ids tombstones) \<noteq> unat (seg_tombstone_count descriptor)
                then Inl YAP_V2_CONFLICT
                else Inr \<lparr>sns_references = 1, sns_documents = segment, sns_tombstones = tombstones\<rparr>))))"

text \<open>
  Where the segment comes from: \<open>Inr (Some j)\<close> is segment \<open>j\<close> of the previous snapshot, \<open>Inr None\<close> its files.
\<close>

definition snapshot_reuse ::
  "(YAP_V2_SEARCH_SNAPSHOT \<times> YAP_V2_MANIFEST_SEGMENT_MAP) option \<Rightarrow> YAP_V2_SEGMENT_DESCRIPTOR \<Rightarrow> nat option outcome" where
  "snapshot_reuse previous descriptor =
     (case previous of
        None \<Rightarrow> Inr None
      | Some (snapshot, smap) \<Rightarrow>
          (case YAP_V2_manifest_segment_map_find smap (seg_id descriptor) of
             Inr j \<Rightarrow>
               if YAP_V2_segment_descriptor_equal (man_segments (snp_manifest snapshot) ! j) descriptor
               then Inr (Some j) else Inr None
           | Inl status \<Rightarrow> if status \<noteq> YAP_V2_NOT_FOUND then Inl status else Inr None))"

fun snapshot_load_segments ::
  "snapshot_env \<Rightarrow> bytes \<Rightarrow> u64 \<Rightarrow> (YAP_V2_SEARCH_SNAPSHOT \<times> YAP_V2_MANIFEST_SEGMENT_MAP) option \<Rightarrow>
   YAP_V2_SEGMENT_DESCRIPTOR list \<Rightarrow> nat list \<Rightarrow> SNAPSHOT_SEGMENT option list \<Rightarrow>
   (YAP_V2_STATUS \<times> nat list \<times> SNAPSHOT_SEGMENT option list) option" where
  "snapshot_load_segments env index_dir generation previous [] done segs = Some (YAP_V2_OK, done, segs)"
| "snapshot_load_segments env index_dir generation previous (d # ds) done segs =
     (case snapshot_reuse previous d of
        Inl status \<Rightarrow> Some (status, done, segs)
      | Inr (Some j) \<Rightarrow>
          (let a = snp_segments (fst (the previous)) ! j in
           case cell segs a of
             None \<Rightarrow> None
           | Some seg \<Rightarrow>
               snapshot_load_segments env index_dir generation previous ds (done @ [a])
                 (segs[a := Some (seg\<lparr>sns_references := sns_references seg + 1\<rparr>)]))
      | Inr None \<Rightarrow>
          (case snapshot_read_segment env index_dir generation (length done) d of
             Inl status \<Rightarrow> Some (status, done, segs)
           | Inr seg \<Rightarrow>
               snapshot_load_segments env index_dir generation previous ds (done @ [length segs]) (segs @ [Some seg])))"

text \<open>
  \<open>snapshot_load\<close>. The new snapshot becomes an object of the heap when it is returned; until then only this call
  refers to it, and a failure gives back the segments it has collected.
\<close>

definition snapshot_finish ::
  "snapshot_env \<Rightarrow> YAP_V2_MANIFEST \<Rightarrow> snapshot_heap \<Rightarrow> YAP_V2_STATUS \<times> nat list \<times> SNAPSHOT_SEGMENT option list \<Rightarrow>
   (snapshot_heap \<times> nat outcome) option" where
  "snapshot_finish env manifest hp loaded =
     (case loaded of (status, addresses, segs) \<Rightarrow>
        (case (if status \<noteq> YAP_V2_OK then Inl status
               else snapshot_build_visibility (env_mem env) (map (\<lambda>a. the (cell segs a)) addresses)) of
           Inl status \<Rightarrow>
             (case release_segments addresses segs of
                None \<Rightarrow> None
              | Some segs \<Rightarrow> Some (hp\<lparr>hp_segments := segs\<rparr>, Inl status))
         | Inr table \<Rightarrow>
             Some (\<lparr>hp_segments = segs, hp_snapshots = hp_snapshots hp @
                     [Some \<lparr>snp_references = 1, snp_manifest = manifest, snp_segments = addresses,
                            snp_visibility = table\<rparr>]\<rparr>,
                   Inr (length (hp_snapshots hp)))))"

definition snapshot_load ::
  "snapshot_env \<Rightarrow> MANAGER_STATE \<Rightarrow> nat option \<Rightarrow> snapshot_heap \<Rightarrow> (snapshot_heap \<times> nat outcome) option" where
  "snapshot_load env state previous hp =
     (if \<not> env_mem env sizeof_search_snapshot then Some (hp, Inl YAP_V2_ALLOCATION_FAILED)
      else if \<not> env_mutex env then Some (hp, Inl YAP_V2_IO_ERROR)
      else case YAP_V2_manifest_load_for_config (env_mem env) (env_ios env (mgr_manifest_path state)) (env_fs env)
                  (mgr_manifest_path state) (YAP_V2_config_fingerprint (Some (mgr_config state))) of
        None \<Rightarrow> None
      | Some (Inl status) \<Rightarrow> Some (hp, Inl status)
      | Some (Inr manifest) \<Rightarrow>
          if length (man_segments manifest) > 0 \<and> \<not> env_mem env (length (man_segments manifest) * 8)
          then Some (hp, Inl YAP_V2_ALLOCATION_FAILED)
          else
            (case (case previous of
                     None \<Rightarrow> Some (Inr None)
                   | Some a \<Rightarrow>
                       (case cell (hp_snapshots hp) a of
                          None \<Rightarrow> None
                        | Some snapshot \<Rightarrow>
                            (case YAP_V2_manifest_segment_map_build (env_mem env) (snp_manifest snapshot) of
                               None \<Rightarrow> None
                             | Some (status, smap) \<Rightarrow>
                                 Some (if status \<noteq> YAP_V2_OK then Inl status else Inr (Some (snapshot, smap)))))) of
               None \<Rightarrow> None
             | Some (Inl status) \<Rightarrow> Some (hp, Inl status)
             | Some (Inr base) \<Rightarrow>
                 (case snapshot_load_segments env (mgr_index_dir state) (man_generation manifest) base
                         (man_segments manifest) [] (hp_segments hp) of
                    None \<Rightarrow> None
                  | Some loaded \<Rightarrow> snapshot_finish env manifest hp loaded)))"

subsection \<open>The manager\<close>

definition YAP_V2_snapshot_manager_open ::
  "snapshot_env \<Rightarrow> MANAGER_STATE option \<Rightarrow> bytes option \<Rightarrow> string option \<Rightarrow> YAP_V2_CONFIG option \<Rightarrow> snapshot_heap \<Rightarrow>
   (snapshot_heap \<times> MANAGER_STATE outcome) option" where
  "YAP_V2_snapshot_manager_open env manager index_dir manifest_path config hp =
     (case (manager, index_dir, manifest_path, config) of
        (None, Some dir, Some path, Some cfg) \<Rightarrow>
          if YAP_V2_config_validate (Some cfg) \<noteq> YAP_V2_OK then Some (hp, Inl YAP_V2_INVALID_ARGUMENT)
          else if \<not> env_mem env sizeof_manager_state then Some (hp, Inl YAP_V2_ALLOCATION_FAILED)
          else if \<not> env_mutex env then Some (hp, Inl YAP_V2_IO_ERROR)
          else if \<not> env_mem env (length dir + 1) \<or> \<not> env_mem env (length path + 1)
            then Some (hp, Inl YAP_V2_ALLOCATION_FAILED)
          else
            (let state = \<lparr>mgr_index_dir = dir, mgr_manifest_path = path, mgr_config = cfg, mgr_current = None\<rparr> in
             case snapshot_load env state None hp of
               None \<Rightarrow> None
             | Some (hp, Inl status) \<Rightarrow> Some (hp, Inl status)
             | Some (hp, Inr a) \<Rightarrow> Some (hp, Inr (state\<lparr>mgr_current := Some a\<rparr>)))
      | _ \<Rightarrow> Some (hp, Inl YAP_V2_INVALID_ARGUMENT))"

definition YAP_V2_snapshot_manager_close :: "MANAGER_STATE \<Rightarrow> snapshot_heap \<Rightarrow> snapshot_heap option" where
  "YAP_V2_snapshot_manager_close state hp = YAP_V2_snapshot_release hp (mgr_current state)"

definition YAP_V2_snapshot_acquire :: "MANAGER_STATE \<Rightarrow> snapshot_heap \<Rightarrow> (snapshot_heap \<times> nat option) option" where
  "YAP_V2_snapshot_acquire state hp =
     (case mgr_current state of
        None \<Rightarrow> Some (hp, None)
      | Some a \<Rightarrow> (case snapshot_retain hp a of None \<Rightarrow> None | Some hp \<Rightarrow> Some (hp, Some a)))"

definition YAP_V2_snapshot_matches_manifest :: "YAP_V2_SEARCH_SNAPSHOT \<Rightarrow> YAP_V2_MANIFEST \<Rightarrow> bool" where
  "YAP_V2_snapshot_matches_manifest snapshot manifest \<longleftrightarrow>
     man_generation (snp_manifest snapshot) = man_generation manifest \<and>
     length (snp_segments snapshot) = length (man_segments manifest) \<and>
     list_all (\<lambda>i. YAP_V2_segment_descriptor_equal (man_segments (snp_manifest snapshot) ! i) (man_segments manifest ! i))
       [0..<length (snp_segments snapshot)]"

text \<open>
  The critical section of \<open>YAP_V2_snapshot_manager_reload\<close>: the new current snapshot, the one to release, the
  status and the changed flag.
\<close>

definition reload_exchange ::
  "snapshot_heap \<Rightarrow> nat option \<Rightarrow> nat \<Rightarrow> (nat option \<times> nat option \<times> YAP_V2_STATUS \<times> bool) option" where
  "reload_exchange hp current candidate =
     (case cell (hp_snapshots hp) candidate of
        None \<Rightarrow> None
      | Some new \<Rightarrow>
          (case current of
             None \<Rightarrow> Some (Some candidate, None, YAP_V2_OK, True)
           | Some a \<Rightarrow>
               (case cell (hp_snapshots hp) a of
                  None \<Rightarrow> None
                | Some old \<Rightarrow>
                    Some (if man_generation (snp_manifest new) < man_generation (snp_manifest old)
                            then (current, Some candidate, YAP_V2_CONFLICT, False)
                          else if man_generation (snp_manifest new) = man_generation (snp_manifest old)
                            then (current, Some candidate,
                                  if YAP_V2_snapshot_matches_manifest old (snp_manifest new) then YAP_V2_OK
                                  else YAP_V2_CONFLICT, False)
                          else (Some candidate, current, YAP_V2_OK, True)))))"

definition YAP_V2_snapshot_manager_reload ::
  "snapshot_env \<Rightarrow> MANAGER_STATE \<Rightarrow> snapshot_heap \<Rightarrow> (snapshot_heap \<times> MANAGER_STATE \<times> YAP_V2_STATUS \<times> bool) option" where
  "YAP_V2_snapshot_manager_reload env state hp =
     (case YAP_V2_snapshot_acquire state hp of
        None \<Rightarrow> None
      | Some (hp, base) \<Rightarrow>
          (case snapshot_load env state base hp of
             None \<Rightarrow> None
           | Some (hp, loaded) \<Rightarrow>
               (case YAP_V2_snapshot_release hp base of
                  None \<Rightarrow> None
                | Some hp \<Rightarrow>
                    (case loaded of
                       Inl status \<Rightarrow> Some (hp, state, status, False)
                     | Inr candidate \<Rightarrow>
                         (case reload_exchange hp (mgr_current state) candidate of
                            None \<Rightarrow> None
                          | Some (current, unused, status, changed) \<Rightarrow>
                              (case YAP_V2_snapshot_release hp unused of
                                 None \<Rightarrow> None
                               | Some hp \<Rightarrow> Some (hp, state\<lparr>mgr_current := current\<rparr>, status, changed)))))))"

subsection \<open>Questions to a snapshot\<close>

record YAP_V2_DOCUMENT_HIT =
  hit_segment_ordinal :: nat
  hit_document_ordinal :: nat
  hit_document :: YAP_V2_DOCUMENT_VIEW

definition YAP_V2_snapshot_generation :: "YAP_V2_SEARCH_SNAPSHOT option \<Rightarrow> u64" where
  "YAP_V2_snapshot_generation snapshot = (case snapshot of None \<Rightarrow> 0 | Some sn \<Rightarrow> man_generation (snp_manifest sn))"

definition YAP_V2_snapshot_segment_count :: "YAP_V2_SEARCH_SNAPSHOT option \<Rightarrow> nat" where
  "YAP_V2_snapshot_segment_count snapshot = (case snapshot of None \<Rightarrow> 0 | Some sn \<Rightarrow> length (snp_segments sn))"

definition YAP_V2_snapshot_segment_documents ::
  "snapshot_heap \<Rightarrow> YAP_V2_SEARCH_SNAPSHOT option \<Rightarrow> nat \<Rightarrow> YAP_V2_SEGMENT option option" where
  "YAP_V2_snapshot_segment_documents hp snapshot segment_ordinal =
     (case snapshot of
        None \<Rightarrow> Some None
      | Some sn \<Rightarrow>
          if segment_ordinal \<ge> length (snp_segments sn) then Some None
          else map_option (\<lambda>seg. Some (sns_documents seg)) (cell (hp_segments hp) (snp_segments sn ! segment_ordinal)))"

definition YAP_V2_snapshot_document_visible ::
  "YAP_V2_SEARCH_SNAPSHOT option \<Rightarrow> nat \<Rightarrow> YAP_V2_BYTES_VIEW \<Rightarrow> bool" where
  "YAP_V2_snapshot_document_visible snapshot segment_ordinal document_id =
     (case snapshot of
        None \<Rightarrow> False
      | Some sn \<Rightarrow>
          if segment_ordinal \<ge> length (snp_segments sn) \<or> view_is_null document_id \<or> view_len document_id = 0 then False
          else case visibility_lookup (snp_visibility sn) document_id of
            None \<Rightarrow> False
          | Some entry \<Rightarrow> vis_document entry \<noteq> None \<and> vis_segment_ordinal entry = segment_ordinal)"

definition YAP_V2_snapshot_lookup_document ::
  "YAP_V2_SEARCH_SNAPSHOT option \<Rightarrow> YAP_V2_BYTES_VIEW \<Rightarrow> YAP_V2_DOCUMENT_HIT outcome" where
  "YAP_V2_snapshot_lookup_document snapshot document_id =
     (case snapshot of
        None \<Rightarrow> Inl YAP_V2_INVALID_ARGUMENT
      | Some sn \<Rightarrow>
          if view_is_null document_id \<or> view_len document_id = 0 then Inl YAP_V2_INVALID_ARGUMENT
          else case visibility_lookup (snp_visibility sn) document_id of
            None \<Rightarrow> Inl YAP_V2_NOT_FOUND
          | Some entry \<Rightarrow>
              (case vis_document entry of
                 None \<Rightarrow> Inl YAP_V2_NOT_FOUND
               | Some document \<Rightarrow>
                   Inr \<lparr>hit_segment_ordinal = vis_segment_ordinal entry,
                        hit_document_ordinal = vis_document_ordinal entry, hit_document = document\<rparr>))"

end
