(* ===== verification/Snapshot_Safety.thy ===== *)
theory Snapshot_Safety
  imports Snapshot_V2
begin

text \<open>
  What holds of snapshots through every interleaving of loading, acquiring and releasing: reference counts agree
  with the references that exist, no freed object is touched, and what a snapshot answers never changes.
\<close>

subsection \<open>Failures of the readers\<close>

named_theorems never_ok \<open>an error outcome is not \<open>YAP_V2_OK\<close>\<close>

lemma header_decode_never_ok [never_ok]: "YAP_V2_file_header_decode d \<noteq> Inl YAP_V2_OK"
  by (auto simp: YAP_V2_file_header_decode_def Let_def rbind_Inl_iff)

lemma basic_reads_never_ok [never_ok]:
  "read_u32 d n off \<noteq> Inl YAP_V2_OK" "read_u64 d n off \<noteq> Inl YAP_V2_OK" "read_bytes_view d n off \<noteq> Inl YAP_V2_OK"
  "read_file mem io fs path \<noteq> Inl YAP_V2_OK"
  by (auto simp: read_u32_def read_u64_def read_bytes_view_def read_file_def rbind_Inl_iff split: option.splits)

lemma frame_never_ok [never_ok]: "open_frame t g d \<noteq> Inl YAP_V2_OK"
  by (auto simp: open_frame_def Let_def rbind_Inl_iff never_ok split: if_splits sum.splits)

lemma records_never_ok [never_ok]:
  "read_document d n off \<noteq> Inl YAP_V2_OK" "read_passage d n off \<noteq> Inl YAP_V2_OK" "read_record d n c i off \<noteq> Inl YAP_V2_OK"
proof -
  show doc: "read_document d n off \<noteq> Inl YAP_V2_OK" for d n off
    by (auto simp: read_document_def rbind_Inl_iff never_ok split: if_splits)
  show psg: "read_passage d n off \<noteq> Inl YAP_V2_OK" for d n off
    by (auto simp: read_passage_def rbind_Inl_iff never_ok split: if_splits)
  show "read_record d n c i off \<noteq> Inl YAP_V2_OK"
    using doc psg by (auto simp: read_record_def Let_def rbind_Inl_iff split: sum.splits if_splits)
qed

lemma read_records_never_ok [never_ok]: "read_records d n c i k off \<noteq> Inl YAP_V2_OK"
  by (induction k arbitrary: i off) (auto simp: rbind_Inl_iff never_ok)

lemma payload_never_ok [never_ok]: "parse_segment_payload mem g d \<noteq> Inl YAP_V2_OK"
proof -
  have "read_segment_id d n \<noteq> Inl YAP_V2_OK" "read_counts d n off \<noteq> Inl YAP_V2_OK" for n off
    by (auto simp: read_segment_id_def read_counts_def Let_def split: sum.splits if_splits)
  then show ?thesis
    by (auto simp: parse_segment_payload_def Let_def rbind_Inl_iff never_ok split: if_splits)
qed

lemma segment_read_never_ok [never_ok]: "YAP_V2_segment_read mem io fs path g False \<noteq> Inl YAP_V2_OK"
  by (auto simp: YAP_V2_segment_read_def Let_def rbind_Inl_iff never_ok split: if_splits)

lemma tombstones_read_never_ok [never_ok]: "YAP_V2_tombstones_read mem io fs path g \<noteq> Inl YAP_V2_OK"
proof -
  have "read_tombstones d n seen k off \<noteq> Inl YAP_V2_OK" for d n seen k off
    by (induction k arbitrary: seen off) (auto simp: rbind_Inl_iff never_ok split: if_splits)
  then show ?thesis
    by (auto simp: YAP_V2_tombstones_read_def rbind_Inl_iff never_ok split: if_splits)
qed

lemma snapshot_read_segment_never_ok: "snapshot_read_segment env dir g i d \<noteq> Inl YAP_V2_OK"
  by (auto simp: snapshot_read_segment_def snapshot_component_path_def Let_def rbind_Inl_iff never_ok
      split: if_splits option.splits)

subsection \<open>A loaded segment\<close>

lemma segment_read_ids:
  assumes "YAP_V2_segment_read mem io fs path g False = Inr (seg, descr)" "d \<in> set (sgm_documents seg)"
  shows "\<not> view_is_null (doc_id d)"
proof -
  obtain h storage where "parse_segment_payload mem h storage = Inr seg"
    using assms(1) by (auto simp: YAP_V2_segment_read_def Let_def rbind_Inr_iff split: if_splits)
  then have "validate_segment_views (sgm_documents seg) (sgm_passages seg) = YAP_V2_OK"
    by (auto simp: parse_segment_payload_def Let_def rbind_Inr_iff split: if_splits)
  then have "document_ok d" using assms(2) by (simp add: validate_segment_views_ok)
  then show ?thesis by (auto simp: document_ok_iff required_text_ok_def)
qed

lemma tombstones_read_ids:
  assumes "YAP_V2_tombstones_read mem io fs path g = Inr t" "x \<in> set (tmb_document_ids t)"
  shows "\<not> view_is_null x"
proof -
  have "\<forall>x\<in>set ids. \<not> view_is_null x"
    if "read_tombstones d n seen k off = Inr (ids, off')" "\<forall>x\<in>set seen. \<not> view_is_null x" for d n seen k off ids off'
    using that
  proof (induction k arbitrary: seen off)
    case 0
    then show ?case by simp
  next
    case (Suc k)
    then obtain y off1 where y: "read_bytes_view d n off = Inr (y, off1)"
      "read_tombstones d n (seen @ [y]) k off1 = Inr (ids, off')"
      by (auto simp: rbind_Inr_iff split: if_splits)
    have "\<not> view_is_null y" using y(1) by (auto simp: read_bytes_view_def rbind_Inr_iff split: if_splits)
    then have "\<forall>x\<in>set (seen @ [y]). \<not> view_is_null x" using Suc.prems(2) by simp
    then show ?case by (rule Suc.IH[OF y(2)])
  qed
  moreover obtain d n k off off' where "read_tombstones d n [] k off = Inr (tmb_document_ids t, off')"
    using assms(1) by (auto simp: YAP_V2_tombstones_read_def rbind_Inr_iff split: if_splits)
  ultimately show ?thesis using assms(2) by fastforce
qed

definition segment_fits :: "YAP_V2_SEGMENT_DESCRIPTOR \<Rightarrow> SNAPSHOT_SEGMENT \<Rightarrow> bool" where
  "segment_fits d seg \<longleftrightarrow> ids_present seg \<and> c_string (sgm_id (sns_documents seg)) = c_string (seg_id d) \<and>
     length (sgm_documents (sns_documents seg)) = unat (seg_document_count d) \<and>
     length (sgm_passages (sns_documents seg)) = unat (seg_passage_count d) \<and>
     length (tmb_document_ids (sns_tombstones seg)) = unat (seg_tombstone_count d)"

lemma snapshot_read_segment_fits:
  assumes "snapshot_read_segment env dir g i d = Inr seg"
  shows "segment_fits d seg" "sns_references seg = 1"
proof -
  show "sns_references seg = 1"
    using assms by (auto simp: snapshot_read_segment_def Let_def rbind_Inr_iff split: if_splits option.splits)
  have "\<not> view_is_null x" if "x \<in> writes seg" for x
    using that assms
    by (auto simp: writes_def snapshot_read_segment_def Let_def rbind_Inr_iff split: if_splits option.splits
        dest: segment_read_ids tombstones_read_ids)
  then show "segment_fits d seg"
    using assms
    by (auto simp: segment_fits_def ids_present_def snapshot_read_segment_def Let_def rbind_Inr_iff
        split: if_splits option.splits)
qed

definition bare :: "SNAPSHOT_SEGMENT \<Rightarrow> SNAPSHOT_SEGMENT" where
  "bare seg = seg\<lparr>sns_references := 0\<rparr>"

lemma bare_simps [simp]: "sns_documents (bare seg) = sns_documents seg" "sns_tombstones (bare seg) = sns_tombstones seg"
  "bare (seg\<lparr>sns_references := n\<rparr>) = bare seg"
  by (simp_all add: bare_def)

lemma segment_fits_bare [simp]: "segment_fits d (bare seg) = segment_fits d seg"
  by (simp add: segment_fits_def ids_present_def writes_def)

lemma build_visibility_bare [simp]: "snapshot_build_visibility mem (map bare segs) = snapshot_build_visibility mem segs"
proof -
  have c: "count_records (map bare segs) n = count_records segs n" for n
    by (induction segs arbitrary: n) (simp_all add: Let_def)
  have p: "put_segments s (map bare segs) = put_segments s segs" for s
  proof (induction segs arbitrary: s)
    case (Cons seg segs)
    then show ?case by (intro ext) simp
  qed (simp add: fun_eq_iff)
  show ?thesis unfolding snapshot_build_visibility_def c p by (rule refl)
qed

lemma segment_fits_equal:
  "YAP_V2_segment_descriptor_equal d d' \<Longrightarrow> segment_fits d seg \<Longrightarrow> segment_fits d' seg"
  by (simp add: segment_fits_def YAP_V2_segment_descriptor_equal_def)

subsection \<open>The segments of a snapshot\<close>

definition resolve :: "SNAPSHOT_SEGMENT option list \<Rightarrow> nat list \<Rightarrow> SNAPSHOT_SEGMENT option list" where
  "resolve segs addresses = map (\<lambda>a. map_option bare (cell segs a)) addresses"

text \<open>The segments found at the addresses fit the descriptors.\<close>

definition holds_segments ::
  "SNAPSHOT_SEGMENT option list \<Rightarrow> YAP_V2_SEGMENT_DESCRIPTOR list \<Rightarrow> nat list \<Rightarrow> SNAPSHOT_SEGMENT list \<Rightarrow> bool" where
  "holds_segments segs ds addresses found \<longleftrightarrow> resolve segs addresses = map Some found \<and> list_all2 segment_fits ds found"

definition snapshot_sound :: "SNAPSHOT_SEGMENT option list \<Rightarrow> YAP_V2_SEARCH_SNAPSHOT \<Rightarrow> bool" where
  "snapshot_sound segs snapshot \<longleftrightarrow>
     length (man_segments (snp_manifest snapshot)) \<le> YAP_V2_MAX_SEGMENTS \<and>
     (\<exists>found mem. holds_segments segs (man_segments (snp_manifest snapshot)) (snp_segments snapshot) found \<and>
        snapshot_build_visibility mem found = Inr (snp_visibility snapshot))"

lemma resolve_frozen:
  assumes "frozen bare segs segs'" "\<forall>a\<in>set addresses. cell segs a \<noteq> None \<and> cell segs' a \<noteq> None"
  shows "resolve segs' addresses = resolve segs addresses"
  using assms by (fastforce simp: resolve_def dest: frozen_cell)

lemma resolve_live: "resolve segs addresses = map Some found \<Longrightarrow> a \<in> set addresses \<Longrightarrow> cell segs a \<noteq> None"
  by (induction addresses arbitrary: found) (auto simp: resolve_def)

lemma holds_segments_frozen:
  assumes "holds_segments segs ds addresses found" "frozen bare segs segs'" "\<forall>a\<in>set addresses. cell segs' a \<noteq> None"
  shows "holds_segments segs' ds addresses found"
  using assms resolve_frozen[OF assms(2), of addresses] resolve_live[of segs addresses found]
  by (auto simp: holds_segments_def)

lemma holds_segments_snoc:
  assumes "holds_segments segs ds addresses found" "cell segs a = Some seg" "segment_fits d seg"
  shows "holds_segments segs (ds @ [d]) (addresses @ [a]) (found @ [bare seg])"
  using assms by (simp add: holds_segments_def resolve_def list_all2_appendI)

lemma holds_segments_nth:
  assumes "holds_segments segs ds addresses found" "j < length ds"
  obtains seg where "j < length addresses" "cell segs (addresses ! j) = Some seg" "segment_fits (ds ! j) seg"
proof -
  have len: "length addresses = length found" "length ds = length found"
    using assms(1) by (auto simp: holds_segments_def resolve_def list_all2_lengthD dest: map_eq_imp_length_eq)
  have "resolve segs addresses ! j = Some (found ! j)" using assms len by (simp add: holds_segments_def)
  then obtain seg where "cell segs (addresses ! j) = Some seg" "bare seg = found ! j"
    using assms(2) len by (auto simp: resolve_def)
  moreover have "segment_fits (ds ! j) (found ! j)" using assms len by (auto simp: holds_segments_def list_all2_nthD)
  ultimately show thesis using that[of seg] assms(2) len by (metis segment_fits_bare)
qed

lemma holds_segments_found:
  "holds_segments segs ds addresses found \<Longrightarrow> found = map bare (map (\<lambda>a. the (cell segs a)) addresses)"
  unfolding holds_segments_def
proof (elim conjE)
  assume "resolve segs addresses = map Some found"
  then show "found = map bare (map (\<lambda>a. the (cell segs a)) addresses)"
    by (induction addresses arbitrary: found) (auto simp: resolve_def)
qed

subsection \<open>Releasing and sharing segments\<close>

lemma release_segments_ok:
  "counted sns_references segs (mset as + owners) \<Longrightarrow>
   \<exists>segs'. release_segments as segs = Some segs' \<and> counted sns_references segs' owners \<and> frozen bare segs segs'"
proof (induction as arbitrary: segs)
  case Nil
  then show ?case by simp
next
  case (Cons a as)
  have c: "counted sns_references segs (add_mset a (mset as + owners))" using Cons.prems by simp
  obtain seg where seg: "cell segs a = Some seg" by (rule counted_live[OF c, of a]) simp_all
  note drop = counted_drop[OF c seg]
  let ?segs = "if sns_references seg - 1 = 0 then segs[a := None]
      else segs[a := Some (seg\<lparr>sns_references := sns_references seg - 1\<rparr>)]"
  have "counted sns_references ?segs (mset as + owners)" using drop by auto
  moreover have "frozen bare segs ?segs" using seg by (auto intro: frozen_free frozen_update)
  ultimately show ?case using Cons.IH[of ?segs] seg drop(1) by (auto intro: frozen_trans)
qed

text \<open>What a reload may rely on about the snapshot it starts from.\<close>

definition base_ok ::
  "SNAPSHOT_SEGMENT option list \<Rightarrow> nat multiset \<Rightarrow> (YAP_V2_SEARCH_SNAPSHOT \<times> YAP_V2_MANIFEST_SEGMENT_MAP) option \<Rightarrow> bool" where
  "base_ok segs owners previous \<longleftrightarrow> (case previous of
     None \<Rightarrow> True
   | Some (snapshot, smap) \<Rightarrow>
       mset (snp_segments snapshot) \<subseteq># owners \<and>
       (\<exists>found. holds_segments segs (man_segments (snp_manifest snapshot)) (snp_segments snapshot) found) \<and>
       (\<forall>key. YAP_V2_manifest_segment_map_find smap key = Inl YAP_V2_NOT_FOUND \<or>
          (\<exists>j<length (man_segments (snp_manifest snapshot)). YAP_V2_manifest_segment_map_find smap key = Inr j)))"

lemma base_ok_frozen:
  assumes "base_ok segs owners previous" "frozen bare segs segs'" "counted sns_references segs' (mset xs + owners)"
  shows "base_ok segs' owners previous"
proof -
  have alive: "cell segs' a \<noteq> None" if a: "a \<in># owners" for a
  proof -
    have "a \<in># mset xs + owners" using a by simp
    then show ?thesis by (rule counted_live[OF assms(3)]) simp
  qed
  show ?thesis
  proof (cases previous)
    case (Some p)
    obtain snapshot smap where p: "p = (snapshot, smap)" by (cases p)
    obtain found where f: "holds_segments segs (man_segments (snp_manifest snapshot)) (snp_segments snapshot) found"
      and sub: "mset (snp_segments snapshot) \<subseteq># owners"
      using assms(1) Some p by (auto simp: base_ok_def)
    have "\<forall>a\<in>set (snp_segments snapshot). cell segs' a \<noteq> None"
      using alive mset_subset_eqD[OF sub] by (metis set_mset_mset)
    from holds_segments_frozen[OF f assms(2) this] show ?thesis
      using assms(1) Some p by (auto simp: base_ok_def)
  qed (simp add: base_ok_def)
qed

lemma snapshot_reuse_cases:
  assumes "base_ok segs owners previous"
  obtains "snapshot_reuse previous d = Inr None"
  | j snapshot smap seg where "snapshot_reuse previous d = Inr (Some j)" "previous = Some (snapshot, smap)"
      "cell segs (snp_segments snapshot ! j) = Some seg" "segment_fits d seg"
proof (cases previous)
  case None
  then show thesis using that(1) by (simp add: snapshot_reuse_def)
next
  case (Some p)
  obtain snapshot smap where p: "p = (snapshot, smap)" by (cases p)
  have b: "\<exists>found. holds_segments segs (man_segments (snp_manifest snapshot)) (snp_segments snapshot) found"
    "YAP_V2_manifest_segment_map_find smap (seg_id d) = Inl YAP_V2_NOT_FOUND \<or>
      (\<exists>j<length (man_segments (snp_manifest snapshot)). YAP_V2_manifest_segment_map_find smap (seg_id d) = Inr j)"
    using assms Some p by (auto simp: base_ok_def)
  from b(2) show thesis
  proof
    assume "YAP_V2_manifest_segment_map_find smap (seg_id d) = Inl YAP_V2_NOT_FOUND"
    then show thesis using that(1) Some p by (simp add: snapshot_reuse_def)
  next
    assume "\<exists>j<length (man_segments (snp_manifest snapshot)). YAP_V2_manifest_segment_map_find smap (seg_id d) = Inr j"
    then obtain j where j: "j < length (man_segments (snp_manifest snapshot))"
      "YAP_V2_manifest_segment_map_find smap (seg_id d) = Inr j" by blast
    obtain found where f: "holds_segments segs (man_segments (snp_manifest snapshot)) (snp_segments snapshot) found"
      using b(1) by blast
    obtain seg where "cell segs (snp_segments snapshot ! j) = Some seg"
      "segment_fits (man_segments (snp_manifest snapshot) ! j) seg"
      by (rule holds_segments_nth[OF f j(1)])
    then show thesis
      using that j(2) Some p
      by (cases "YAP_V2_segment_descriptor_equal (man_segments (snp_manifest snapshot) ! j) d")
         (auto simp: snapshot_reuse_def dest: segment_fits_equal)
  qed
qed

lemma snapshot_load_segments_ok:
  "counted sns_references segs (mset done + owners) \<Longrightarrow> base_ok segs owners previous \<Longrightarrow>
   holds_segments segs loaded done found \<Longrightarrow>
   \<exists>st done' segs'. snapshot_load_segments env dir g previous ds done segs = Some (st, done', segs') \<and>
     counted sns_references segs' (mset done' + owners) \<and> frozen bare segs segs' \<and>
     (st = YAP_V2_OK \<longrightarrow> (\<exists>found. holds_segments segs' (loaded @ ds) done' found))"
proof (induction ds arbitrary: "done" segs loaded found)
  case Nil
  then show ?case by auto
next
  case (Cons d ds)
  have live: "cell segs a \<noteq> None" if "a \<in> set done" for a
    using Cons.prems(3) that by (auto simp: holds_segments_def dest: resolve_live)
  have step: ?case
    if next_eq: "snapshot_load_segments env dir g previous (d # ds) done segs =
        snapshot_load_segments env dir g previous ds (done @ [a]) segs1"
      and c: "counted sns_references segs1 (mset (done @ [a]) + owners)" and f: "frozen bare segs segs1"
      and seg: "cell segs1 a = Some seg" "segment_fits d seg" for a segs1 seg
  proof -
    have alive: "\<forall>b\<in>set done. cell segs1 b \<noteq> None"
    proof
      fix b assume "b \<in> set done"
      then have "b \<in># mset (done @ [a]) + owners" by simp
      then show "cell segs1 b \<noteq> None" by (rule counted_live[OF c]) simp
    qed
    have "holds_segments segs1 (loaded @ [d]) (done @ [a]) (found @ [bare seg])"
      by (rule holds_segments_snoc[OF holds_segments_frozen[OF Cons.prems(3) f alive] seg])
    from Cons.IH[OF c base_ok_frozen[OF Cons.prems(2) f c] this] next_eq show ?thesis
      using f by (auto intro: frozen_trans)
  qed
  show ?case
  proof (rule snapshot_reuse_cases[OF Cons.prems(2), of d])
    assume r: "snapshot_reuse previous d = Inr None"
    show ?case
    proof (cases "snapshot_read_segment env dir g (length done) d")
      case (Inl status)
      then have "status \<noteq> YAP_V2_OK" using snapshot_read_segment_never_ok by metis
      with Inl r Cons.prems(1) show ?thesis by auto
    next
      case (Inr seg)
      show ?thesis
      proof (rule step)
        show "counted sns_references (segs @ [Some seg]) (mset (done @ [length segs]) + owners)"
          using counted_alloc[OF Cons.prems(1) snapshot_read_segment_fits(2)[OF Inr]] by simp
      qed (use r Inr snapshot_read_segment_fits[OF Inr] in \<open>simp_all add: frozen_alloc\<close>)
    qed
  next
    fix j snapshot smap seg
    assume r: "snapshot_reuse previous d = Inr (Some j)" "previous = Some (snapshot, smap)"
      "cell segs (snp_segments snapshot ! j) = Some seg" "segment_fits d seg"
    let ?a = "snp_segments snapshot ! j" and ?seg = "seg\<lparr>sns_references := sns_references seg + 1\<rparr>"
    show ?case
    proof (rule step)
      show "counted sns_references (segs[?a := Some ?seg]) (mset (done @ [?a]) + owners)"
        using counted_retain[OF Cons.prems(1) r(3), of ?seg] by simp
      show "frozen bare segs (segs[?a := Some ?seg])" by (rule frozen_update[OF r(3)]) simp
      show "cell (segs[?a := Some ?seg]) ?a = Some ?seg" using cell_bound[OF r(3)] by simp
      show "segment_fits d ?seg" using r(4) by (metis bare_simps(3) segment_fits_bare)
    qed (use r in \<open>simp add: Let_def\<close>)
  qed
qed

end
