(* ===== verification/Snapshot_Manager.thy ===== *)
theory Snapshot_Manager
  imports Snapshot_Safety
begin

text \<open>
  The invariant of the snapshot heap under the operations of the manager, and the interleavings of readers and
  reloads.
\<close>

subsection \<open>The heap invariant\<close>

definition segment_owners :: "YAP_V2_SEARCH_SNAPSHOT option list \<Rightarrow> nat multiset" where
  "segment_owners snapshots = (\<Sum>x\<in>#mset (used_slots snapshots). mset (snp_segments x))"

definition heap_ok :: "snapshot_heap \<Rightarrow> nat multiset \<Rightarrow> bool" where
  "heap_ok hp owners \<longleftrightarrow> counted snp_references (hp_snapshots hp) owners \<and>
     counted sns_references (hp_segments hp) (segment_owners (hp_snapshots hp)) \<and>
     (\<forall>a snapshot. cell (hp_snapshots hp) a = Some snapshot \<longrightarrow> snapshot_sound (hp_segments hp) snapshot)"

definition uncounted :: "YAP_V2_SEARCH_SNAPSHOT \<Rightarrow> YAP_V2_SEARCH_SNAPSHOT" where
  "uncounted snapshot = snapshot\<lparr>snp_references := 0\<rparr>"

definition heap_frozen :: "snapshot_heap \<Rightarrow> snapshot_heap \<Rightarrow> bool" where
  "heap_frozen hp hp' \<longleftrightarrow> frozen bare (hp_segments hp) (hp_segments hp') \<and>
     frozen uncounted (hp_snapshots hp) (hp_snapshots hp')"

lemma heap_frozen_refl [simp]: "heap_frozen hp hp"
  by (simp add: heap_frozen_def)

lemma heap_frozen_trans: "heap_frozen hp hp1 \<Longrightarrow> heap_frozen hp1 hp2 \<Longrightarrow> heap_frozen hp hp2"
  by (auto simp: heap_frozen_def intro: frozen_trans)

lemma uncounted_update [simp]: "uncounted (snapshot\<lparr>snp_references := n\<rparr>) = uncounted snapshot"
  by (simp add: uncounted_def)

lemma used_slots_take_out:
  assumes "cell slots a = Some t"
  shows "mset (used_slots slots) = add_mset t (mset (used_slots (slots[a := None])))"
proof -
  have a: "a < length slots" by (rule cell_bound[OF assms])
  have "slots = take a slots @ Some t # drop (Suc a) slots"
    using id_take_nth_drop[OF a] assms a by (simp add: cell_def)
  moreover have "slots[a := None] = take a slots @ None # drop (Suc a) slots" by (rule upd_conv_take_nth_drop[OF a])
  ultimately show ?thesis by (metis (no_types, lifting) used_slots_simps mset_append mset.simps(2) union_mset_add_mset_right)
qed

lemma segment_owners_free:
  "cell snapshots a = Some x \<Longrightarrow>
     segment_owners snapshots = mset (snp_segments x) + segment_owners (snapshots[a := None])"
  using used_slots_take_out[of snapshots a x] by (simp add: segment_owners_def)

lemma segment_owners_update:
  assumes "cell snapshots a = Some x" "snp_segments y = snp_segments x"
  shows "segment_owners (snapshots[a := Some y]) = segment_owners snapshots"
proof -
  have "cell (snapshots[a := Some y]) a = Some y" using cell_bound[OF assms(1)] by simp
  from segment_owners_free[OF this] segment_owners_free[OF assms(1)] assms(2) show ?thesis by simp
qed

lemma segment_owners_snoc: "segment_owners (snapshots @ [Some x]) = mset (snp_segments x) + segment_owners snapshots"
  by (simp add: segment_owners_def)

lemma segment_owners_member:
  "cell snapshots a = Some x \<Longrightarrow> b \<in> set (snp_segments x) \<Longrightarrow> b \<in># segment_owners snapshots"
  by (simp add: segment_owners_free)

lemma snapshot_sound_frozen:
  assumes "snapshot_sound segs snapshot" "frozen bare segs segs'" "\<forall>a\<in>set (snp_segments snapshot). cell segs' a \<noteq> None"
  shows "snapshot_sound segs' snapshot"
  using assms(1) holds_segments_frozen[OF _ assms(2,3)] by (auto simp: snapshot_sound_def)

lemma snapshot_sound_uncounted: "uncounted x = uncounted y \<Longrightarrow> snapshot_sound segs x = snapshot_sound segs y"
  by (cases x; cases y) (simp add: uncounted_def snapshot_sound_def)

lemma heap_okI:
  assumes "counted snp_references snapshots owners" "counted sns_references segs (segment_owners snapshots)"
    and old: "\<And>a x. cell snapshots a = Some x \<Longrightarrow> \<exists>segs0 y. frozen bare segs0 segs \<and> snapshot_sound segs0 y \<and>
      uncounted y = uncounted x"
  shows "heap_ok \<lparr>hp_segments = segs, hp_snapshots = snapshots\<rparr> owners"
proof -
  have "snapshot_sound segs x" if x: "cell snapshots a = Some x" for a x
  proof -
    obtain segs0 y where y: "frozen bare segs0 segs" "snapshot_sound segs0 y" "uncounted y = uncounted x"
      using old[OF x] by blast
    have "\<forall>b\<in>set (snp_segments x). cell segs b \<noteq> None"
    proof
      fix b assume "b \<in> set (snp_segments x)"
      then have "b \<in># segment_owners snapshots" by (rule segment_owners_member[OF x])
      then show "cell segs b \<noteq> None" by (rule counted_live[OF assms(2)]) simp
    qed
    with y snapshot_sound_uncounted[OF y(3)] show ?thesis by (blast intro: snapshot_sound_frozen)
  qed
  with assms(1,2) show ?thesis by (simp add: heap_ok_def)
qed

lemma heap_okD:
  assumes "heap_ok hp owners"
  shows "counted snp_references (hp_snapshots hp) owners"
    "counted sns_references (hp_segments hp) (segment_owners (hp_snapshots hp))"
    "cell (hp_snapshots hp) a = Some x \<Longrightarrow> snapshot_sound (hp_segments hp) x"
  using assms by (auto simp: heap_ok_def)

lemma heap_ok_live:
  assumes "heap_ok hp owners" "a \<in># owners"
  obtains x where "cell (hp_snapshots hp) a = Some x" "snapshot_sound (hp_segments hp) x"
  by (rule counted_live[OF heap_okD(1)[OF assms(1)] assms(2)]) (metis that heap_okD(3)[OF assms(1)])

lemma heap_ok_update:
  assumes "heap_ok hp owners" "cell (hp_snapshots hp) a = Some x" "cell ((hp_snapshots hp)[a := Some y]) b = Some z"
    "uncounted y = uncounted x"
  shows "\<exists>segs0 y. frozen bare segs0 (hp_segments hp) \<and> snapshot_sound segs0 y \<and> uncounted y = uncounted z"
proof -
  obtain w where "cell (hp_snapshots hp) b = Some w" "uncounted w = uncounted z"
    using assms(2-4) cell_bound[OF assms(2)] by (auto split: if_splits)
  with heap_okD(3)[OF assms(1)] show ?thesis using frozen_refl by blast
qed

subsection \<open>Retaining and releasing\<close>

lemma snapshot_retain_ok:
  assumes ok: "heap_ok hp owners" and a: "a \<in># owners"
  shows "\<exists>hp'. snapshot_retain hp a = Some hp' \<and> heap_ok hp' (add_mset a owners) \<and> heap_frozen hp hp'"
proof -
  obtain x where x: "cell (hp_snapshots hp) a = Some x" by (rule heap_ok_live[OF ok a])
  let ?y = "x\<lparr>snp_references := snp_references x + 1\<rparr>"
  let ?S = "(hp_snapshots hp)[a := Some ?y]"
  have fr: "frozen uncounted (hp_snapshots hp) ?S" by (rule frozen_update[OF x]) simp
  have "heap_ok \<lparr>hp_segments = hp_segments hp, hp_snapshots = ?S\<rparr> (add_mset a owners)"
  proof (rule heap_okI)
    show "counted snp_references ?S (add_mset a owners)"
      by (rule counted_retain[OF heap_okD(1)[OF ok] x]) simp
    show "counted sns_references (hp_segments hp) (segment_owners ?S)"
      using heap_okD(2)[OF ok] segment_owners_update[OF x, of ?y] by simp
    show "\<exists>segs0 y. frozen bare segs0 (hp_segments hp) \<and> snapshot_sound segs0 y \<and> uncounted y = uncounted z"
      if z: "cell ?S b = Some z" for b z
      by (rule heap_ok_update[OF ok x z]) simp
  qed
  with x fr show ?thesis by (cases hp) (simp add: snapshot_retain_def heap_frozen_def)
qed

lemma snapshot_release_ok:
  assumes ok: "heap_ok hp (add_mset a owners)"
  shows "\<exists>hp'. YAP_V2_snapshot_release hp (Some a) = Some hp' \<and> heap_ok hp' owners \<and> heap_frozen hp hp'"
proof -
  obtain x where x: "cell (hp_snapshots hp) a = Some x" by (rule heap_ok_live[OF ok, of a]) simp_all
  note drop = counted_drop[OF heap_okD(1)[OF ok] x]
  let ?y = "x\<lparr>snp_references := snp_references x - 1\<rparr>"
  let ?S = "(hp_snapshots hp)[a := Some ?y]"
  have fr: "frozen uncounted (hp_snapshots hp) ?S" by (rule frozen_update[OF x]) simp
  show ?thesis
  proof (cases "snp_references x = 1")
    case False
    have "heap_ok \<lparr>hp_segments = hp_segments hp, hp_snapshots = ?S\<rparr> owners"
    proof (rule heap_okI)
      show "counted snp_references ?S owners" by (rule drop(2)[OF False]) simp
      show "counted sns_references (hp_segments hp) (segment_owners ?S)"
        using heap_okD(2)[OF ok] segment_owners_update[OF x, of ?y] by simp
      show "\<exists>segs0 y. frozen bare segs0 (hp_segments hp) \<and> snapshot_sound segs0 y \<and> uncounted y = uncounted z"
        if z: "cell ?S b = Some z" for b z
        by (rule heap_ok_update[OF ok x z]) simp
    qed
    with x fr drop(1) False show ?thesis
      by (cases hp) (simp add: YAP_V2_snapshot_release_def heap_frozen_def Let_def)
  next
    case True
    let ?N = "(hp_snapshots hp)[a := None]"
    have "counted sns_references (hp_segments hp) (mset (snp_segments x) + segment_owners ?N)"
      using heap_okD(2)[OF ok] segment_owners_free[OF x] by simp
    then obtain segs where segs: "release_segments (snp_segments x) (hp_segments hp) = Some segs"
      "counted sns_references segs (segment_owners ?N)" "frozen bare (hp_segments hp) segs"
      using release_segments_ok by blast
    have "heap_ok \<lparr>hp_segments = segs, hp_snapshots = ?N\<rparr> owners"
    proof (rule heap_okI)
      show "counted snp_references ?N owners" by (rule drop(3)[OF True])
      show "\<exists>segs0 y. frozen bare segs0 segs \<and> snapshot_sound segs0 y \<and> uncounted y = uncounted z"
        if z: "cell ?N b = Some z" for b z
        using z heap_okD(3)[OF ok] segs(3) by (auto split: if_splits)
    qed (rule segs(2))
    moreover have "YAP_V2_snapshot_release hp (Some a) = Some \<lparr>hp_segments = segs, hp_snapshots = ?N\<rparr>"
      using x True segs(1) cell_bound[OF x]
      by (simp add: YAP_V2_snapshot_release_def snapshot_destroy_def Let_def)
    ultimately show ?thesis using segs(3) by (simp add: heap_frozen_def frozen_free)
  qed
qed

lemma snapshot_release_opt_ok:
  assumes "heap_ok hp (mset (case handle of None \<Rightarrow> [] | Some a \<Rightarrow> [a]) + owners)"
  shows "\<exists>hp'. YAP_V2_snapshot_release hp handle = Some hp' \<and> heap_ok hp' owners \<and> heap_frozen hp hp'"
  using assms snapshot_release_ok[of hp _ owners] by (cases handle) (simp_all add: YAP_V2_snapshot_release_def)

subsection \<open>Loading\<close>

lemma manifest_load_for_config_total:
  "\<exists>r. YAP_V2_manifest_load_for_config mem io fs path fp = Some r \<and>
     (\<forall>m. r = Inr m \<longrightarrow> manifest_inv m \<and> YAP_V2_manifest_load mem io fs path = Some (Inr m))"
  using manifest_load_result[of mem io fs path]
  by (cases fp) (auto simp: YAP_V2_manifest_load_for_config_def split: sum.splits)

text \<open>What a successful load adds to the heap.\<close>

definition loaded_from :: "snapshot_env \<Rightarrow> MANAGER_STATE \<Rightarrow> YAP_V2_SEARCH_SNAPSHOT \<Rightarrow> bool" where
  "loaded_from env state snapshot \<longleftrightarrow>
     YAP_V2_manifest_load_for_config (env_mem env) (env_ios env (mgr_manifest_path state)) (env_fs env)
       (mgr_manifest_path state) (YAP_V2_config_fingerprint (Some (mgr_config state))) =
     Some (Inr (snp_manifest snapshot))"

definition load_post ::
  "snapshot_env \<Rightarrow> MANAGER_STATE \<Rightarrow> nat multiset \<Rightarrow> snapshot_heap \<times> nat outcome \<Rightarrow> bool" where
  "load_post env state owners result \<longleftrightarrow> (case result of
     (hp, Inl status) \<Rightarrow> heap_ok hp owners
   | (hp, Inr a) \<Rightarrow> heap_ok hp (add_mset a owners) \<and>
       (\<exists>snapshot. cell (hp_snapshots hp) a = Some snapshot \<and> loaded_from env state snapshot))"

lemma snapshot_finish_ok:
  assumes ok: "heap_ok hp owners" and m: "length (man_segments manifest) \<le> YAP_V2_MAX_SEGMENTS"
    and c: "counted sns_references segs (mset addresses + segment_owners (hp_snapshots hp))"
    and f: "frozen bare (hp_segments hp) segs"
    and st: "st = YAP_V2_OK \<Longrightarrow> \<exists>found. holds_segments segs (man_segments manifest) addresses found"
    and origin: "\<And>sn. snp_manifest sn = manifest \<Longrightarrow> loaded_from env state sn"
  shows "\<exists>r. snapshot_finish env manifest hp (st, addresses, segs) = Some r \<and> load_post env state owners r \<and>
    heap_frozen hp (fst r)"
proof (cases "if st \<noteq> YAP_V2_OK then Inl st
    else snapshot_build_visibility (env_mem env) (map (\<lambda>a. the (cell segs a)) addresses)")
  case (Inl status)
  obtain segs' where s: "release_segments addresses segs = Some segs'"
    "counted sns_references segs' (segment_owners (hp_snapshots hp))" "frozen bare segs segs'"
    using release_segments_ok[OF c] by blast
  have fr: "frozen bare (hp_segments hp) segs'" by (rule frozen_trans[OF f s(3)])
  have "heap_ok \<lparr>hp_segments = segs', hp_snapshots = hp_snapshots hp\<rparr> owners"
    using heap_okD[OF ok] s(2) fr by (intro heap_okI) blast+
  with Inl s(1) fr show ?thesis
    by (cases hp) (simp add: snapshot_finish_def load_post_def heap_frozen_def)
next
  case (Inr table)
  then have OK: "st = YAP_V2_OK" by (auto split: if_splits)
  obtain found where found: "holds_segments segs (man_segments manifest) addresses found" using st[OF OK] by blast
  let ?x = "\<lparr>snp_references = 1, snp_manifest = manifest, snp_segments = addresses, snp_visibility = table\<rparr>"
  let ?S = "hp_snapshots hp @ [Some ?x]"
  have "snapshot_build_visibility (env_mem env) found = Inr table"
    using Inr OK holds_segments_found[OF found] build_visibility_bare by (simp del: map_map)
  then have sound: "snapshot_sound segs ?x" using found m by (auto simp: snapshot_sound_def)
  have "heap_ok \<lparr>hp_segments = segs, hp_snapshots = ?S\<rparr> (add_mset (length (hp_snapshots hp)) owners)"
  proof (rule heap_okI)
    show "counted snp_references ?S (add_mset (length (hp_snapshots hp)) owners)"
      by (rule counted_alloc[OF heap_okD(1)[OF ok]]) simp
    show "counted sns_references segs (segment_owners ?S)" using c by (simp add: segment_owners_snoc)
    show "\<exists>segs0 y. frozen bare segs0 segs \<and> snapshot_sound segs0 y \<and> uncounted y = uncounted z"
      if z: "cell ?S b = Some z" for b z
      using z sound heap_okD(3)[OF ok] f by (auto split: if_splits intro: frozen_refl)
  qed
  moreover have "heap_frozen hp \<lparr>hp_segments = segs, hp_snapshots = ?S\<rparr>"
    using f by (simp add: heap_frozen_def frozen_alloc)
  ultimately show ?thesis
    using Inr OK origin[of ?x] by (simp add: snapshot_finish_def load_post_def)
qed

lemma snapshot_load_ok:
  assumes ok: "heap_ok hp owners" and prev: "\<And>a. previous = Some a \<Longrightarrow> a \<in># owners"
  shows "\<exists>r. snapshot_load env state previous hp = Some r \<and> load_post env state owners r \<and> heap_frozen hp (fst r)"
proof -
  let ?m = "YAP_V2_manifest_load_for_config (env_mem env) (env_ios env (mgr_manifest_path state)) (env_fs env)
       (mgr_manifest_path state) (YAP_V2_config_fingerprint (Some (mgr_config state)))"
  obtain r where r: "?m = Some r" "\<And>m. r = Inr m \<Longrightarrow> manifest_inv m"
    using manifest_load_for_config_total by blast
  have fail: "snapshot_load env state previous hp = Some (hp, Inl s) \<Longrightarrow> ?thesis" for s
    using ok by (simp add: load_post_def)
  show ?thesis
  proof (cases r)
    case (Inl s)
    then show ?thesis using r(1) ok by (auto simp: snapshot_load_def load_post_def)
  next
    case (Inr manifest)
    have max: "length (man_segments manifest) \<le> YAP_V2_MAX_SEGMENTS"
      using r(2)[OF Inr] by (auto simp: manifest_inv_def)
    let ?owners = "segment_owners (hp_snapshots hp)"
    have run: "\<exists>r. (case snapshot_load_segments env (mgr_index_dir state) (man_generation manifest) base
          (man_segments manifest) [] (hp_segments hp) of None \<Rightarrow> None
        | Some loaded \<Rightarrow> snapshot_finish env manifest hp loaded) = Some r \<and> load_post env state owners r \<and> heap_frozen hp (fst r)"
      if base: "base_ok (hp_segments hp) ?owners base" for base
    proof -
      obtain st xs segs where l: "snapshot_load_segments env (mgr_index_dir state) (man_generation manifest) base
          (man_segments manifest) [] (hp_segments hp) = Some (st, xs, segs)"
        "counted sns_references segs (mset xs + ?owners)" "frozen bare (hp_segments hp) segs"
        "st = YAP_V2_OK \<Longrightarrow> \<exists>found. holds_segments segs (man_segments manifest) xs found"
        using snapshot_load_segments_ok[of "hp_segments hp" "[]" ?owners base "[]" "[]" env "mgr_index_dir state"
            "man_generation manifest" "man_segments manifest"] heap_okD(2)[OF ok] base
        by (auto simp: holds_segments_def resolve_def)
      have "loaded_from env state sn" if "snp_manifest sn = manifest" for sn
        using that r(1) Inr by (simp add: loaded_from_def)
      from snapshot_finish_ok[OF ok max l(2,3,4) this] l(1) show ?thesis by simp
    qed
    show ?thesis
    proof (cases previous)
      case None
      then show ?thesis
        using run[of None] r(1) Inr ok by (auto simp: snapshot_load_def base_ok_def load_post_def)
    next
      case (Some a)
      obtain x where x: "cell (hp_snapshots hp) a = Some x" "snapshot_sound (hp_segments hp) x"
        by (rule heap_ok_live[OF ok prev[OF Some]])
      have xm: "length (man_segments (snp_manifest x)) \<le> YAP_V2_MAX_SEGMENTS" using x(2) by (simp add: snapshot_sound_def)
      obtain s smap where b: "YAP_V2_manifest_segment_map_build (env_mem env) (snp_manifest x) = Some (s, smap)"
        "s = YAP_V2_OK \<Longrightarrow> \<forall>key. YAP_V2_manifest_segment_map_find smap key = Inl YAP_V2_NOT_FOUND \<or>
          (\<exists>j<length (man_segments (snp_manifest x)). YAP_V2_manifest_segment_map_find smap key = Inr j)"
        using segment_map_built[OF xm, of "env_mem env"] by blast
      have "base_ok (hp_segments hp) ?owners (Some (x, smap))" if "s = YAP_V2_OK"
        using b(2)[OF that] x segment_owners_free[OF x(1)] by (auto simp: base_ok_def snapshot_sound_def)
      then show ?thesis
        using run[of "Some (x, smap)"] r(1) Inr ok Some x(1) b(1)
        by (cases "s = YAP_V2_OK") (auto simp: snapshot_load_def load_post_def)
    qed
  qed
qed

lemma snapshot_acquire_ok:
  assumes "heap_ok hp owners" "\<And>a. mgr_current state = Some a \<Longrightarrow> a \<in># owners"
  shows "\<exists>hp'. YAP_V2_snapshot_acquire state hp = Some (hp', mgr_current state) \<and>
    heap_ok hp' (mset (case mgr_current state of None \<Rightarrow> [] | Some a \<Rightarrow> [a]) + owners) \<and> heap_frozen hp hp'"
proof (cases "mgr_current state")
  case (Some a)
  obtain hp' where "snapshot_retain hp a = Some hp'" "heap_ok hp' (add_mset a owners)" "heap_frozen hp hp'"
    using snapshot_retain_ok[OF assms(1) assms(2)[OF Some]] by blast
  with Some show ?thesis by (simp add: YAP_V2_snapshot_acquire_def)
qed (use assms(1) in \<open>simp add: YAP_V2_snapshot_acquire_def\<close>)

text \<open>The critical section hands back exactly the reference that is no longer needed.\<close>

abbreviation one_of :: "nat option \<Rightarrow> nat multiset" where
  "one_of handle \<equiv> mset (case handle of None \<Rightarrow> [] | Some a \<Rightarrow> [a])"

lemma reload_exchange_ok:
  assumes "heap_ok hp owners" "candidate \<in># owners" "\<And>a. current = Some a \<Longrightarrow> a \<in># owners"
  obtains current' unused st changed where "reload_exchange hp current candidate = Some (current', unused, st, changed)"
    "one_of current' + one_of unused = add_mset candidate (one_of current)"
    "\<And>a. current' = Some a \<Longrightarrow> a = candidate \<or> current = Some a"
proof -
  obtain x where x: "cell (hp_snapshots hp) candidate = Some x" by (rule heap_ok_live[OF assms(1,2)])
  show thesis
  proof (cases current)
    case None
    then show thesis using x that by (simp add: reload_exchange_def)
  next
    case (Some a)
    obtain y where y: "cell (hp_snapshots hp) a = Some y" by (rule heap_ok_live[OF assms(1) assms(3)[OF Some]])
    show thesis
    proof (cases "man_generation (snp_manifest y) < man_generation (snp_manifest x)")
      case True
      then have "reload_exchange hp current candidate = Some (Some candidate, Some a, YAP_V2_OK, True)"
        using x y Some by (auto simp: reload_exchange_def)
      then show thesis by (rule that) (simp_all add: Some add_mset_commute)
    next
      case False
      then have "\<exists>st. reload_exchange hp current candidate = Some (Some a, Some candidate, st, False)"
        using x y Some by (simp add: reload_exchange_def)
      then show thesis using Some by (auto intro: that)
    qed
  qed
qed

subsection \<open>Readers and reloads interleaved\<close>

text \<open>
  A reload between two of its critical sections: before \<open>snapshot_load\<close>, before it gives back the snapshot it
  started from, before the exchange, and before its last release.
\<close>

datatype reload =
    Reload_load "nat option"
  | Reload_drop "nat option" "nat outcome"
  | Reload_exchange nat
  | Reload_release "nat option"

fun reload_holds :: "reload \<Rightarrow> nat multiset" where
  "reload_holds (Reload_load base) = one_of base"
| "reload_holds (Reload_drop base loaded) = one_of base + (case loaded of Inl _ \<Rightarrow> {#} | Inr c \<Rightarrow> {#c#})"
| "reload_holds (Reload_exchange c) = {#c#}"
| "reload_holds (Reload_release unused) = one_of unused"

record world =
  w_heap :: snapshot_heap
  w_manager :: "MANAGER_STATE option"
  w_readers :: "nat multiset"
  w_reloads :: "reload multiset"

definition manager_holds :: "MANAGER_STATE option \<Rightarrow> nat multiset" where
  "manager_holds manager = (case manager of None \<Rightarrow> {#} | Some state \<Rightarrow> one_of (mgr_current state))"

definition holders :: "world \<Rightarrow> nat multiset" where
  "holders w = manager_holds (w_manager w) + w_readers w + (\<Sum>r\<in>#w_reloads w. reload_holds r)"

inductive world_step :: "world \<Rightarrow> world \<Rightarrow> bool" where
  open_ok: "w_manager w = None \<Longrightarrow> w_reloads w = {#} \<Longrightarrow>
    YAP_V2_snapshot_manager_open env None dir path config (w_heap w) = Some (hp, Inr state) \<Longrightarrow>
    world_step w (w\<lparr>w_heap := hp, w_manager := Some state\<rparr>)"
| open_failed: "w_manager w = None \<Longrightarrow>
    YAP_V2_snapshot_manager_open env None dir path config (w_heap w) = Some (hp, Inl status) \<Longrightarrow>
    world_step w (w\<lparr>w_heap := hp\<rparr>)"
| close: "w_manager w = Some state \<Longrightarrow> w_reloads w = {#} \<Longrightarrow>
    YAP_V2_snapshot_manager_close state (w_heap w) = Some hp \<Longrightarrow>
    world_step w (w\<lparr>w_heap := hp, w_manager := None\<rparr>)"
| acquire: "w_manager w = Some state \<Longrightarrow> YAP_V2_snapshot_acquire state (w_heap w) = Some (hp, Some a) \<Longrightarrow>
    world_step w (w\<lparr>w_heap := hp, w_readers := add_mset a (w_readers w)\<rparr>)"
| release: "w_readers w = add_mset a readers \<Longrightarrow> YAP_V2_snapshot_release (w_heap w) (Some a) = Some hp \<Longrightarrow>
    world_step w (w\<lparr>w_heap := hp, w_readers := readers\<rparr>)"
| reload_begin: "w_manager w = Some state \<Longrightarrow> YAP_V2_snapshot_acquire state (w_heap w) = Some (hp, base) \<Longrightarrow>
    world_step w (w\<lparr>w_heap := hp, w_reloads := add_mset (Reload_load base) (w_reloads w)\<rparr>)"
| reload_load: "w_manager w = Some state \<Longrightarrow> w_reloads w = add_mset (Reload_load base) rest \<Longrightarrow>
    snapshot_load env state base (w_heap w) = Some (hp, loaded) \<Longrightarrow>
    world_step w (w\<lparr>w_heap := hp, w_reloads := add_mset (Reload_drop base loaded) rest\<rparr>)"
| reload_drop: "w_reloads w = add_mset (Reload_drop base loaded) rest \<Longrightarrow>
    YAP_V2_snapshot_release (w_heap w) base = Some hp \<Longrightarrow>
    world_step w (w\<lparr>w_heap := hp, w_reloads :=
      (case loaded of Inl _ \<Rightarrow> rest | Inr c \<Rightarrow> add_mset (Reload_exchange c) rest)\<rparr>)"
| exchange: "w_manager w = Some state \<Longrightarrow> w_reloads w = add_mset (Reload_exchange c) rest \<Longrightarrow>
    reload_exchange (w_heap w) (mgr_current state) c = Some (current, unused, status, changed) \<Longrightarrow>
    world_step w (w\<lparr>w_manager := Some (state\<lparr>mgr_current := current\<rparr>),
      w_reloads := add_mset (Reload_release unused) rest\<rparr>)"
| reload_end: "w_reloads w = add_mset (Reload_release unused) rest \<Longrightarrow>
    YAP_V2_snapshot_release (w_heap w) unused = Some hp \<Longrightarrow>
    world_step w (w\<lparr>w_heap := hp, w_reloads := rest\<rparr>)"


lemma manager_open_ok:
  assumes ok: "heap_ok hp owners"
  obtains hp' r where "YAP_V2_snapshot_manager_open env manager dir path config hp = Some (hp', r)" "heap_frozen hp hp'"
    "case r of Inl _ \<Rightarrow> heap_ok hp' owners | Inr state \<Rightarrow> heap_ok hp' (one_of (mgr_current state) + owners)"
proof -
  have "\<exists>hp' r. YAP_V2_snapshot_manager_open env manager dir path config hp = Some (hp', r) \<and> heap_frozen hp hp' \<and>
    (case r of Inl _ \<Rightarrow> heap_ok hp' owners | Inr state \<Rightarrow> heap_ok hp' (one_of (mgr_current state) + owners))"
  proof (cases "manager = None \<and> (\<exists>d p c. dir = Some d \<and> path = Some p \<and> config = Some c)")
    case False
    then have "YAP_V2_snapshot_manager_open env manager dir path config hp = Some (hp, Inl YAP_V2_INVALID_ARGUMENT)"
      by (auto simp: YAP_V2_snapshot_manager_open_def split: option.splits)
    with ok show ?thesis by simp
  next
    case True
    then obtain d p c where a: "manager = None" "dir = Some d" "path = Some p" "config = Some c" by blast
    let ?state = "\<lparr>mgr_index_dir = d, mgr_manifest_path = p, mgr_config = c, mgr_current = None\<rparr>"
    obtain hp' r where l: "snapshot_load env ?state None hp = Some (hp', r)" "load_post env ?state owners (hp', r)"
      "heap_frozen hp hp'"
      using snapshot_load_ok[OF ok, of None env ?state] by auto
    show ?thesis
      using ok l unfolding a
      by (cases r) (auto simp: YAP_V2_snapshot_manager_open_def load_post_def)
  qed
  then show thesis using that by blast
qed

lemma reload_load_ok:
  assumes "heap_ok hp owners" "\<And>a. base = Some a \<Longrightarrow> a \<in># owners" "snapshot_load env state base hp = Some (hp', loaded)"
  shows "heap_ok hp' ((case loaded of Inl _ \<Rightarrow> {#} | Inr c \<Rightarrow> {#c#}) + owners)" "heap_frozen hp hp'"
  using snapshot_load_ok[OF assms(1,2), of base env state] assms(3) by (auto simp: load_post_def split: sum.splits)

lemma release_unique:
  assumes "heap_ok hp (one_of handle + owners)" "YAP_V2_snapshot_release hp handle = Some hp'"
  shows "heap_ok hp' owners" "heap_frozen hp hp'"
  using snapshot_release_opt_ok[OF assms(1)] assms(2) by auto

lemma acquire_unique:
  assumes "heap_ok hp owners" "one_of (mgr_current state) \<subseteq># owners" "YAP_V2_snapshot_acquire state hp = Some (hp', handle)"
  shows "heap_ok hp' (one_of handle + owners)" "heap_frozen hp hp'" "handle = mgr_current state"
proof -
  have "a \<in># owners" if "mgr_current state = Some a" for a using that assms(2) by (auto intro: mset_subset_eqD)
  then have "\<exists>hp'. YAP_V2_snapshot_acquire state hp = Some (hp', mgr_current state) \<and>
      heap_ok hp' (one_of (mgr_current state) + owners) \<and> heap_frozen hp hp'"
    by (rule snapshot_acquire_ok[OF assms(1)])
  with assms(3)
  show "heap_ok hp' (one_of handle + owners)" "heap_frozen hp hp'" "handle = mgr_current state" by auto
qed

lemma world_step_ok:
  assumes "world_step w w'" "heap_ok (w_heap w) (holders w)"
  shows "heap_ok (w_heap w') (holders w') \<and> heap_frozen (w_heap w) (w_heap w')"
  using assms
proof (cases rule: world_step.cases)
  case (open_ok env dir path config hp state)
  obtain hp' r where "YAP_V2_snapshot_manager_open env None dir path config (w_heap w) = Some (hp', r)"
    "heap_frozen (w_heap w) hp'" "case r of Inl _ \<Rightarrow> heap_ok hp' (holders w)
      | Inr state \<Rightarrow> heap_ok hp' (one_of (mgr_current state) + holders w)"
    by (rule manager_open_ok[OF assms(2)])
  with open_ok show ?thesis by (simp add: holders_def manager_holds_def ac_simps)
next
  case (open_failed env dir path config hp status)
  obtain hp' r where "YAP_V2_snapshot_manager_open env None dir path config (w_heap w) = Some (hp', r)"
    "heap_frozen (w_heap w) hp'" "case r of Inl _ \<Rightarrow> heap_ok hp' (holders w)
      | Inr state \<Rightarrow> heap_ok hp' (one_of (mgr_current state) + holders w)"
    by (rule manager_open_ok[OF assms(2)])
  with open_failed show ?thesis by (simp add: holders_def)
next
  case (close state hp)
  have "heap_ok (w_heap w) (one_of (mgr_current state) + holders (w\<lparr>w_manager := None\<rparr>))"
    using assms(2) close by (simp add: holders_def manager_holds_def ac_simps)
  from release_unique[OF this] close show ?thesis
    by (simp add: YAP_V2_snapshot_manager_close_def holders_def)
next
  case (acquire state hp a)
  have "one_of (mgr_current state) \<subseteq># holders w" using acquire by (simp add: holders_def manager_holds_def)
  from acquire_unique(1,2)[OF assms(2) this acquire(3)] acquire show ?thesis by (simp add: holders_def)
next
  case (release a readers hp)
  have "heap_ok (w_heap w) (one_of (Some a) + holders (w\<lparr>w_readers := readers\<rparr>))"
    using assms(2) release by (simp add: holders_def)
  from release_unique[OF this release(3)] release show ?thesis by (simp add: holders_def)
next
  case (reload_begin state hp base)
  have "one_of (mgr_current state) \<subseteq># holders w" using reload_begin by (simp add: holders_def manager_holds_def)
  from acquire_unique[OF assms(2) this reload_begin(3)] reload_begin show ?thesis by (simp add: holders_def ac_simps)
next
  case (reload_load state base rest env hp loaded)
  have "a \<in># holders w" if "base = Some a" for a using that reload_load by (simp add: holders_def)
  from reload_load_ok[OF assms(2) this reload_load(4)] reload_load show ?thesis by (simp add: holders_def ac_simps)
next
  case (reload_drop base loaded rest hp)
  have "heap_ok (w_heap w) (one_of base + holders (w\<lparr>w_reloads :=
      (case loaded of Inl _ \<Rightarrow> rest | Inr c \<Rightarrow> add_mset (Reload_exchange c) rest)\<rparr>))"
    using assms(2) reload_drop by (auto simp: holders_def ac_simps split: sum.splits)
  from release_unique[OF this reload_drop(3)] reload_drop show ?thesis by (simp add: holders_def)
next
  case (exchange state c rest current unused status changed)
  have c: "c \<in># holders w" and a: "a \<in># holders w" if "mgr_current state = Some a" for a
    using exchange that by (simp_all add: holders_def manager_holds_def)
  have "one_of current + one_of unused = add_mset c (one_of (mgr_current state))"
    by (rule reload_exchange_ok[OF assms(2) _ a]) (use exchange in \<open>auto simp: holders_def\<close>)
  then have "holders w' = holders w" using exchange by (simp add: holders_def manager_holds_def ac_simps)
  with assms(2) exchange show ?thesis by simp
next
  case (reload_end unused rest hp)
  have "heap_ok (w_heap w) (one_of unused + holders (w\<lparr>w_reloads := rest\<rparr>))"
    using assms(2) reload_end by (simp add: holders_def ac_simps)
  from release_unique[OF this reload_end(3)] reload_end show ?thesis by (simp add: holders_def)
qed


lemma world_steps_ok:
  "world_step\<^sup>*\<^sup>* w w' \<Longrightarrow> heap_ok (w_heap w) (holders w) \<Longrightarrow>
     heap_ok (w_heap w') (holders w') \<and> heap_frozen (w_heap w) (w_heap w')"
proof (induction rule: rtranclp_induct)
  case (step y z)
  then show ?case using world_step_ok[OF step.hyps(2)] heap_frozen_trans by blast
qed simp

subsection \<open>What a snapshot answers\<close>

lemma lookup_document_live:
  assumes "snapshot_build_visibility mem found = Inr (snp_visibility snapshot)" "\<forall>seg\<in>set found. ids_present seg"
    and "\<not> view_is_null v" "view_len v \<noteq> 0"
  shows "YAP_V2_snapshot_lookup_document (Some snapshot) v = Inr hit \<longleftrightarrow>
      live found v (hit_segment_ordinal hit) (hit_document_ordinal hit) (hit_document hit)"
    "(\<nexists>s i d. live found v s i d) \<longleftrightarrow> YAP_V2_snapshot_lookup_document (Some snapshot) v = Inl YAP_V2_NOT_FOUND"
proof -
  note l = visibility_lookup_live[OF assms(1,2,3)]
  show 1: "YAP_V2_snapshot_lookup_document (Some snapshot) v = Inr hit \<longleftrightarrow>
      live found v (hit_segment_ordinal hit) (hit_document_ordinal hit) (hit_document hit)" for hit
    unfolding l[symmetric] using assms(3,4)
    by (cases hit) (auto simp: YAP_V2_snapshot_lookup_document_def split: option.splits)
  have "YAP_V2_snapshot_lookup_document (Some snapshot) v = Inl YAP_V2_NOT_FOUND \<or>
      (\<exists>hit. YAP_V2_snapshot_lookup_document (Some snapshot) v = Inr hit)"
    using assms(3,4) by (auto simp: YAP_V2_snapshot_lookup_document_def split: option.splits)
  moreover have "(\<exists>s i d. live found v s i d) \<longleftrightarrow> (\<exists>hit. YAP_V2_snapshot_lookup_document (Some snapshot) v = Inr hit)"
    unfolding 1 by (metis YAP_V2_DOCUMENT_HIT.select_convs)
  ultimately show "(\<nexists>s i d. live found v s i d) \<longleftrightarrow>
      YAP_V2_snapshot_lookup_document (Some snapshot) v = Inl YAP_V2_NOT_FOUND"
    by (metis Inl_Inr_False)
qed

lemma document_visible_live:
  assumes "snapshot_build_visibility mem found = Inr (snp_visibility snapshot)" "\<forall>seg\<in>set found. ids_present seg"
    and "\<not> view_is_null v" "view_len v \<noteq> 0" and "length (snp_segments snapshot) = length found"
  shows "YAP_V2_snapshot_document_visible (Some snapshot) s v \<longleftrightarrow> (\<exists>i d. live found v s i d)"
proof -
  have "(\<exists>i d. live found v s i d) \<longleftrightarrow>
      (\<exists>e. visibility_lookup (snp_visibility snapshot) v = Some e \<and> vis_document e \<noteq> None \<and> vis_segment_ordinal e = s)"
    unfolding visibility_lookup_live[OF assms(1,2,3), symmetric] by auto
  moreover have "s < length found" if "live found v s i d" for i d using that by (simp add: live_def)
  ultimately show ?thesis
    using assms(3-5) by (auto simp: YAP_V2_snapshot_document_visible_def split: option.splits)
qed

text \<open>
  C5. A document lookup returns the last write: it finds a document exactly when that document carries the
  identifier and no later document of its segment, and no tombstone or document of a later segment, does;
  otherwise it answers \<open>YAP_V2_NOT_FOUND\<close>, and \<open>document_visible\<close> agrees with it segment by segment.
\<close>

theorem snapshot_lookup_last_writer:
  assumes "snapshot_build_visibility mem found = Inr (snp_visibility snapshot)"
    and "length (snp_segments snapshot) = length found" and "\<forall>seg\<in>set found. ids_present seg"
    and "\<not> view_is_null v" "view_len v \<noteq> 0"
  shows "(\<forall>hit. YAP_V2_snapshot_lookup_document (Some snapshot) v = Inr hit \<longleftrightarrow>
      live found v (hit_segment_ordinal hit) (hit_document_ordinal hit) (hit_document hit)) \<and>
    (YAP_V2_snapshot_lookup_document (Some snapshot) v = Inl YAP_V2_NOT_FOUND \<longleftrightarrow> (\<nexists>s i d. live found v s i d)) \<and>
    (\<forall>s. YAP_V2_snapshot_document_visible (Some snapshot) s v \<longleftrightarrow> (\<exists>i d. live found v s i d))"
  using lookup_document_live[OF assms(1,3,4,5)] document_visible_live[OF assms(1,3,4,5,2)] by blast

subsection \<open>A reader's view\<close>

lemma held_snapshot:
  assumes "heap_ok hp owners" "a \<in># owners"
  obtains snapshot found mem where "cell (hp_snapshots hp) a = Some snapshot"
    "holds_segments (hp_segments hp) (man_segments (snp_manifest snapshot)) (snp_segments snapshot) found"
    "snapshot_build_visibility mem found = Inr (snp_visibility snapshot)"
  by (rule heap_ok_live[OF assms]) (auto simp: snapshot_sound_def that)

lemma holds_segments_ids: "holds_segments segs ds addresses found \<Longrightarrow> \<forall>seg\<in>set found. ids_present seg"
  by (auto simp: holds_segments_def segment_fits_def list_all2_conv_all_nth in_set_conv_nth)

lemma holds_segments_length: "holds_segments segs ds addresses found \<Longrightarrow> length addresses = length found"
  by (auto simp: holds_segments_def resolve_def dest: map_eq_imp_length_eq)

lemma segment_documents_found:
  assumes "holds_segments (hp_segments hp) ds (snp_segments snapshot) found"
  shows "YAP_V2_snapshot_segment_documents hp (Some snapshot) s =
    Some (if s < length found then Some (sns_documents (found ! s)) else None)"
proof (cases "s < length found")
  case True
  have len: "length (snp_segments snapshot) = length found" by (rule holds_segments_length[OF assms])
  have "resolve (hp_segments hp) (snp_segments snapshot) ! s = Some (found ! s)"
    using assms True by (simp add: holds_segments_def)
  then obtain seg where "cell (hp_segments hp) (snp_segments snapshot ! s) = Some seg" "bare seg = found ! s"
    using True len by (auto simp: resolve_def)
  then show ?thesis using True len by (simp add: YAP_V2_snapshot_segment_documents_def) (metis bare_simps(1))
qed (simp add: YAP_V2_snapshot_segment_documents_def holds_segments_length[OF assms])

text \<open>
  C3. A snapshot in use is never freed and never changes. Whatever the manager and other readers do between two
  moments at which somebody holds the snapshot \<open>a\<close>, it has the same manifest, its segments fit the
  descriptors of that manifest and are still in memory, and every lookup answers with the last writer among
  exactly these segments, at both moments.
\<close>

theorem snapshot_reader_stable:
  assumes ok: "heap_ok (w_heap w) (holders w)" and "world_step\<^sup>*\<^sup>* w w'" "a \<in># holders w" "a \<in># holders w'"
  shows "\<exists>sn sn' found. cell (hp_snapshots (w_heap w)) a = Some sn \<and> cell (hp_snapshots (w_heap w')) a = Some sn' \<and>
    snp_manifest sn' = snp_manifest sn \<and> list_all2 segment_fits (man_segments (snp_manifest sn)) found \<and>
    (\<forall>s. YAP_V2_snapshot_segment_documents (w_heap w) (Some sn) s =
         Some (if s < length found then Some (sns_documents (found ! s)) else None) \<and>
       YAP_V2_snapshot_segment_documents (w_heap w') (Some sn') s =
         YAP_V2_snapshot_segment_documents (w_heap w) (Some sn) s) \<and>
    (\<forall>v. YAP_V2_snapshot_lookup_document (Some sn') v = YAP_V2_snapshot_lookup_document (Some sn) v \<and>
       (\<not> view_is_null v \<and> view_len v \<noteq> 0 \<longrightarrow>
         (\<forall>hit. YAP_V2_snapshot_lookup_document (Some sn) v = Inr hit \<longleftrightarrow>
            live found v (hit_segment_ordinal hit) (hit_document_ordinal hit) (hit_document hit))))"
proof -
  have ok': "heap_ok (w_heap w') (holders w')" and fr: "heap_frozen (w_heap w) (w_heap w')"
    using world_steps_ok[OF assms(2) ok] by blast+
  obtain sn found mem where sn: "cell (hp_snapshots (w_heap w)) a = Some sn"
    "holds_segments (hp_segments (w_heap w)) (man_segments (snp_manifest sn)) (snp_segments sn) found"
    "snapshot_build_visibility mem found = Inr (snp_visibility sn)"
    by (rule held_snapshot[OF ok assms(3)])
  obtain sn' found' mem' where sn': "cell (hp_snapshots (w_heap w')) a = Some sn'"
    "holds_segments (hp_segments (w_heap w')) (man_segments (snp_manifest sn')) (snp_segments sn') found'"
    by (rule held_snapshot[OF ok' assms(4)])
  have "uncounted sn' = uncounted sn" by (rule frozen_cell) (use fr sn sn' in \<open>auto simp: heap_frozen_def\<close>)
  then have same: "snp_manifest sn' = snp_manifest sn" "snp_segments sn' = snp_segments sn"
    "snp_visibility sn' = snp_visibility sn"
    by (cases sn; cases sn'; simp add: uncounted_def)+
  have "holds_segments (hp_segments (w_heap w')) (man_segments (snp_manifest sn)) (snp_segments sn) found"
    by (rule holds_segments_frozen[OF sn(2)])
       (use fr sn'(2) same in \<open>auto simp: heap_frozen_def holds_segments_def simp del: not_None_eq dest: resolve_live\<close>)
  then have seg': "\<forall>s. YAP_V2_snapshot_segment_documents (w_heap w') (Some sn') s =
      Some (if s < length found then Some (sns_documents (found ! s)) else None)"
    using segment_documents_found[of "w_heap w'" _ sn' found] unfolding same by simp
  have look: "YAP_V2_snapshot_lookup_document (Some sn') v = YAP_V2_snapshot_lookup_document (Some sn) v" for v
    by (simp add: YAP_V2_snapshot_lookup_document_def same)
  have fits: "list_all2 segment_fits (man_segments (snp_manifest sn)) found"
    using sn(2) by (simp add: holds_segments_def)
  show ?thesis
    using sn(1) sn'(1) same(1) seg' look segment_documents_found[OF sn(2)] fits
      lookup_document_live(1)[OF sn(3) holds_segments_ids[OF sn(2)]]
    by (intro exI[of _ sn] exI[of _ sn'] exI[of _ found]) auto
qed

lemma frozen_manifest:
  assumes "heap_frozen hp hp'" "cell (hp_snapshots hp) a = Some x" "cell (hp_snapshots hp') a = Some y"
  shows "snp_manifest y = snp_manifest x"
proof -
  have "uncounted y = uncounted x" by (rule frozen_cell) (use assms in \<open>auto simp: heap_frozen_def\<close>)
  then show ?thesis by (cases x; cases y) (simp add: uncounted_def)
qed

lemma manager_reload_ok:
  assumes ok: "heap_ok hp (one_of (mgr_current state) + owners)"
  obtains hp' state' st ch where "YAP_V2_snapshot_manager_reload env state hp = Some (hp', state', st, ch)"
    "\<not> ch \<Longrightarrow> state' = state" "ch \<Longrightarrow> st = YAP_V2_OK"
    "ch \<Longrightarrow> \<exists>a sn. mgr_current state' = Some a \<and> cell (hp_snapshots hp') a = Some sn \<and> loaded_from env state sn \<and>
       (\<forall>b old. mgr_current state = Some b \<and> cell (hp_snapshots hp) b = Some old \<longrightarrow>
          man_generation (snp_manifest old) < man_generation (snp_manifest sn))"
proof -
  let ?cur = "mgr_current state" and ?own = "one_of (mgr_current state) + owners"
  have cur: "a \<in># ?own" if "?cur = Some a" for a using that by simp
  obtain hp1 where hp1: "YAP_V2_snapshot_acquire state hp = Some (hp1, ?cur)" "heap_ok hp1 (one_of ?cur + ?own)"
    "heap_frozen hp hp1"
    using snapshot_acquire_ok[OF ok cur] by blast
  have cur1: "a \<in># one_of ?cur + ?own" if "?cur = Some a" for a using that by simp
  obtain hp2 r where hp2: "snapshot_load env state ?cur hp1 = Some (hp2, r)"
    "load_post env state (one_of ?cur + ?own) (hp2, r)" "heap_frozen hp1 hp2"
    using snapshot_load_ok[OF hp1(2) cur1, of ?cur env state] by auto
  let ?new = "case r of Inl _ \<Rightarrow> {#} | Inr c \<Rightarrow> {#c#}"
  have "heap_ok hp2 (one_of ?cur + (?new + ?own))"
    using hp2(2) by (auto simp: load_post_def split: sum.splits)
  then obtain hp3 where hp3: "YAP_V2_snapshot_release hp2 ?cur = Some hp3" "heap_ok hp3 (?new + ?own)"
    "heap_frozen hp2 hp3"
    using snapshot_release_opt_ok by blast
  show thesis
  proof (cases r)
    case (Inl s)
    then show thesis
      using hp1(1) hp2(1) hp3(1) that[of hp3 state s False] by (simp add: YAP_V2_snapshot_manager_reload_def)
  next
    case (Inr c)
    have c3: "c \<in># ?new + ?own" "\<And>a. ?cur = Some a \<Longrightarrow> a \<in># ?new + ?own" using Inr by simp_all
    obtain current unused st ch where x: "reload_exchange hp3 ?cur c = Some (current, unused, st, ch)"
      "one_of current + one_of unused = add_mset c (one_of ?cur)"
      by (rule reload_exchange_ok[OF hp3(2) c3])
    have "heap_ok hp3 (one_of unused + (one_of current + owners))"
      using hp3(2) x(2) Inr by (simp add: ac_simps)
    then obtain hp4 where hp4: "YAP_V2_snapshot_release hp3 unused = Some hp4" "heap_ok hp4 (one_of current + owners)"
      "heap_frozen hp3 hp4"
      using snapshot_release_opt_ok by blast
    have run: "YAP_V2_snapshot_manager_reload env state hp = Some (hp4, state\<lparr>mgr_current := current\<rparr>, st, ch)"
      using hp1(1) hp2(1) hp3(1) x(1) hp4(1) Inr by (simp add: YAP_V2_snapshot_manager_reload_def)
    obtain new2 where new2: "cell (hp_snapshots hp2) c = Some new2" "loaded_from env state new2"
      using hp2(2) Inr by (auto simp: load_post_def)
    obtain new3 where new3: "cell (hp_snapshots hp3) c = Some new3" by (rule heap_ok_live[OF hp3(2) c3(1)])
    have m3: "snp_manifest new3 = snp_manifest new2"
      by (rule frozen_manifest[OF hp3(3) new2(1) new3])
    show thesis
    proof (rule that[OF run])
      show "state\<lparr>mgr_current := current\<rparr> = state" if "\<not> ch"
        using x(1) that by (auto simp: reload_exchange_def split: option.splits if_splits)
      show "st = YAP_V2_OK" if "ch"
        using x(1) that by (auto simp: reload_exchange_def split: option.splits if_splits)
      assume ch
      then have cc: "current = Some c"
        using x(1) by (auto simp: reload_exchange_def split: option.splits if_splits)
      obtain new4 where new4: "cell (hp_snapshots hp4) c = Some new4"
        by (rule heap_ok_live[OF hp4(2)]) (use cc in auto)
      have m4: "snp_manifest new4 = snp_manifest new2"
        using frozen_manifest[OF hp4(3) new3 new4] m3 by simp
      have "man_generation (snp_manifest old) < man_generation (snp_manifest new4)"
        if b: "?cur = Some b" "cell (hp_snapshots hp) b = Some old" for b old
      proof -
        obtain old3 where old3: "cell (hp_snapshots hp3) b = Some old3" by (rule heap_ok_live[OF hp3(2) c3(2)[OF b(1)]])
        have "snp_manifest old3 = snp_manifest old"
          by (rule frozen_manifest[OF _ b(2) old3]) (meson hp1(3) hp2(3) hp3(3) heap_frozen_trans)
        with x(1) \<open>ch\<close> new3 old3 b(1) m3 m4 show ?thesis
          by (auto simp: reload_exchange_def split: if_splits)
      qed
      with cc new4 m4 new2(2) show "\<exists>a sn. mgr_current (state\<lparr>mgr_current := current\<rparr>) = Some a \<and>
          cell (hp_snapshots hp4) a = Some sn \<and> loaded_from env state sn \<and>
          (\<forall>b old. ?cur = Some b \<and> cell (hp_snapshots hp) b = Some old \<longrightarrow>
             man_generation (snp_manifest old) < man_generation (snp_manifest sn))"
        by (auto simp: loaded_from_def)
    qed
  qed
qed


text \<open>
  C19. Reloading moves forward only. A reload either keeps the current snapshot (on every error, and when the
  manifest has not changed) or replaces it by the snapshot of the manifest it has just read, whose generation is
  then greater than that of the snapshot it replaces.
\<close>

theorem snapshot_reload_monotone:
  assumes ok: "heap_ok (w_heap w) (holders w)" and "w_manager w = Some state"
    and "YAP_V2_snapshot_manager_reload env state (w_heap w) = Some (hp, state', status, changed)"
  shows "(\<not> changed \<longrightarrow> state' = state) \<and> (changed \<longrightarrow> status = YAP_V2_OK) \<and>
    (changed \<longrightarrow> (\<exists>a sn. mgr_current state' = Some a \<and> cell (hp_snapshots hp) a = Some sn \<and>
       YAP_V2_manifest_load_for_config (env_mem env) (env_ios env (mgr_manifest_path state)) (env_fs env)
         (mgr_manifest_path state) (YAP_V2_config_fingerprint (Some (mgr_config state))) = Some (Inr (snp_manifest sn)) \<and>
       (\<forall>b old. mgr_current state = Some b \<and> cell (hp_snapshots (w_heap w)) b = Some old \<longrightarrow>
          YAP_V2_snapshot_generation (Some old) < YAP_V2_snapshot_generation (Some sn))))"
proof -
  obtain rest where "holders w = one_of (mgr_current state) + rest"
    using assms(2) by (simp add: holders_def manager_holds_def add.assoc)
  then have "heap_ok (w_heap w) (one_of (mgr_current state) + rest)" using ok by simp
  then show ?thesis
    by (rule manager_reload_ok[of _ _ _ env]) (use assms(3) in \<open>auto simp: loaded_from_def YAP_V2_snapshot_generation_def\<close>)
qed

subsection \<open>An example\<close>

text \<open>Two segments: the second replaces document \<open>a\<close> of the first and deletes its document \<open>b\<close>.\<close>

definition sample_document :: "string \<Rightarrow> string \<Rightarrow> YAP_V2_DOCUMENT_VIEW" where
  "sample_document name body = \<lparr>doc_id = View (ascii name), doc_url = View [], doc_title = View [],
     doc_body = View (ascii body), doc_metadata_json = View [], doc_updated_at_unix_ms = 0\<rparr>"

definition sample_held :: "string \<Rightarrow> YAP_V2_DOCUMENT_VIEW list \<Rightarrow> YAP_V2_BYTES_VIEW list \<Rightarrow> SNAPSHOT_SEGMENT" where
  "sample_held name documents deleted = \<lparr>sns_references = 1,
     sns_documents = \<lparr>sgm_id = ascii name, sgm_generation = 1, sgm_documents = documents, sgm_passages = [], sgm_storage = []\<rparr>,
     sns_tombstones = \<lparr>tmb_document_ids = deleted, tmb_storage = []\<rparr>\<rparr>"

definition sample_found :: "SNAPSHOT_SEGMENT list" where
  "sample_found =
     [sample_held ''s-1'' [sample_document ''a'' ''old'', sample_document ''b'' ''gone''] [],
      sample_held ''s-2'' [sample_document ''a'' ''new''] [View (ascii ''b'')]]"

definition sample_descriptors :: "YAP_V2_SEGMENT_DESCRIPTOR list" where
  "sample_descriptors =
     [\<lparr>seg_id = ascii ''s-1'', seg_document_count = 2, seg_passage_count = 0, seg_tombstone_count = 0, seg_components = []\<rparr>,
      \<lparr>seg_id = ascii ''s-2'', seg_document_count = 1, seg_passage_count = 0, seg_tombstone_count = 1, seg_components = []\<rparr>]"

definition sample_snapshot :: "VISIBILITY_ENTRY option list \<Rightarrow> YAP_V2_SEARCH_SNAPSHOT" where
  "sample_snapshot table = \<lparr>snp_references = 2,
     snp_manifest = YAP_V2_manifest_init\<lparr>man_generation := 1, man_segments := sample_descriptors\<rparr>,
     snp_segments = [0, 1], snp_visibility = table\<rparr>"

definition sample_state :: MANAGER_STATE where
  "sample_state = \<lparr>mgr_index_dir = ascii ''i'', mgr_manifest_path = ''m'', mgr_config = YAP_V2_config_init,
     mgr_current = Some 0\<rparr>"

definition sample_world :: "VISIBILITY_ENTRY option list \<Rightarrow> world" where
  "sample_world table = \<lparr>w_heap = \<lparr>hp_segments = map Some sample_found, hp_snapshots = [Some (sample_snapshot table)]\<rparr>,
     w_manager = Some sample_state, w_readers = {#0#}, w_reloads = {#}\<rparr>"

lemma sample_ids: "\<forall>seg\<in>set sample_found. ids_present seg"
  by (simp add: sample_found_def sample_held_def sample_document_def ids_present_def writes_def)

lemma sample_table: "\<exists>table. snapshot_build_visibility (\<lambda>_. True) sample_found = Inr table"
proof -
  have n: "count_records sample_found 0 = Inr 4"
    by (simp add: sample_found_def sample_held_def Let_def)
  have "slot_capacity_checked 1 4 = Some 8"
    by (simp add: slot_capacity_checked.simps)
  then have "\<exists>table. put_segments 0 sample_found (replicate 8 None) = Inr table"
    using put_segments_records[OF records_empty[of 3], of 0 sample_found] sample_ids
    by (auto simp: sample_found_def sample_held_def)
  with n \<open>slot_capacity_checked 1 4 = Some 8\<close> show ?thesis
    by (simp add: snapshot_build_visibility_def)
qed

lemma sample_world_ok:
  assumes "snapshot_build_visibility (\<lambda>_. True) sample_found = Inr table"
  shows "heap_ok (w_heap (sample_world table)) (holders (sample_world table))"
proof -
  have h: "holders (sample_world table) = {#0, 0#}"
    by (simp add: holders_def manager_holds_def sample_world_def sample_state_def)
  have o: "segment_owners [Some (sample_snapshot table)] = {#0, 1#}"
    by (simp add: segment_owners_def sample_snapshot_def)
  have c1: "counted snp_references [Some (sample_snapshot table)] {#0, 0#}"
    by (simp add: counted_def cell_def sample_snapshot_def)
  have c2: "counted sns_references (map Some sample_found) {#0, 1#}"
    by (auto simp: counted_def cell_def sample_found_def sample_held_def less_Suc_eq nth_Cons split: nat.split)
  have f: "list_all2 segment_fits sample_descriptors (map bare sample_found)"
    by (simp add: sample_descriptors_def sample_found_def segment_fits_def sample_held_def ids_present_def writes_def
        sample_document_def bare_def)
  have r: "resolve (map Some sample_found) [0, 1] = map Some (map bare sample_found)"
    by (simp add: resolve_def cell_def sample_found_def)
  have "snapshot_sound (map Some sample_found) (sample_snapshot table)"
    unfolding snapshot_sound_def holds_segments_def sample_snapshot_def
    using f r assms build_visibility_bare[of "\<lambda>_. True" sample_found]
    by (auto simp: sample_descriptors_def storage_limits intro!: exI[of _ "map bare sample_found"] exI[of _ "\<lambda>_. True"])
  then show ?thesis
    using c1 c2 unfolding heap_ok_def h
    by (auto simp: sample_world_def o cell_def split: if_splits)
qed

lemma sample_live:
  "live sample_found (View (ascii ''a'')) 1 0 (sample_document ''a'' ''new'')"
  "\<not> live sample_found (View (ascii ''b'')) s i d"
  by (auto simp: live_def sample_found_def sample_held_def sample_document_def writes_def less_Suc_eq ascii_def
      nth_Cons split: nat.splits)

theorem snapshot_lookup_last_writer_witness:
  "\<exists>table. YAP_V2_snapshot_lookup_document (Some (sample_snapshot table)) (View (ascii ''a'')) =
      Inr \<lparr>hit_segment_ordinal = 1, hit_document_ordinal = 0, hit_document = sample_document ''a'' ''new''\<rparr> \<and>
    YAP_V2_snapshot_lookup_document (Some (sample_snapshot table)) (View (ascii ''b'')) = Inl YAP_V2_NOT_FOUND"
proof -
  obtain table where t: "snapshot_build_visibility (\<lambda>_. True) sample_found = Inr table" using sample_table by blast
  have v: "snapshot_build_visibility (\<lambda>_. True) sample_found = Inr (snp_visibility (sample_snapshot table))"
    "length (snp_segments (sample_snapshot table)) = length sample_found"
    using t by (simp_all add: sample_snapshot_def sample_found_def)
  show ?thesis
    using snapshot_lookup_last_writer[OF v sample_ids, of "View (ascii ''a'')"]
      snapshot_lookup_last_writer[OF v sample_ids, of "View (ascii ''b'')"] sample_live
    by (intro exI[of _ table]) (simp add: ascii_def)
qed

theorem snapshot_reader_stable_witness:
  "\<exists>table. heap_ok (w_heap (sample_world table)) (holders (sample_world table)) \<and>
     (\<exists>sn. cell (hp_snapshots (w_heap (sample_world table))) 0 = Some sn \<and>
       man_segments (snp_manifest sn) = sample_descriptors)"
proof -
  obtain table where t: "snapshot_build_visibility (\<lambda>_. True) sample_found = Inr table" using sample_table by blast
  note ok = sample_world_ok[OF t]
  have m: "0 \<in># holders (sample_world table)" by (simp add: holders_def sample_world_def)
  have "\<exists>sn. cell (hp_snapshots (w_heap (sample_world table))) 0 = Some sn"
    using snapshot_reader_stable[OF ok rtranclp.rtrancl_refl m m] by blast
  with ok show ?thesis
    by (intro exI[of _ table]) (auto simp: sample_world_def cell_def sample_snapshot_def)
qed


theorem snapshot_reload_monotone_witness:
  "\<exists>table hp. YAP_V2_snapshot_manager_reload \<lparr>env_mem = (\<lambda>_. False), env_fs = (\<lambda>_. None), env_ios = (\<lambda>_ _. True),
       env_files = sample_files, env_mutex = True, env_segment_mutex = (\<lambda>_. True)\<rparr>
       sample_state (w_heap (sample_world table)) = Some (hp, sample_state, YAP_V2_ALLOCATION_FAILED, False)"
proof -
  let ?env = "\<lparr>env_mem = (\<lambda>_. False), env_fs = (\<lambda>_. None), env_ios = (\<lambda>_ _. True),
       env_files = sample_files, env_mutex = True, env_segment_mutex = (\<lambda>_. True)\<rparr>"
  obtain table where t: "snapshot_build_visibility (\<lambda>_. True) sample_found = Inr table" using sample_table by blast
  have "\<exists>hp state'. YAP_V2_snapshot_manager_reload ?env sample_state (w_heap (sample_world table)) =
      Some (hp, state', YAP_V2_ALLOCATION_FAILED, False)"
    by (simp add: YAP_V2_snapshot_manager_reload_def YAP_V2_snapshot_acquire_def snapshot_retain_def snapshot_load_def
        YAP_V2_snapshot_release_def sample_world_def sample_state_def cell_def sample_snapshot_def)
  then obtain hp state' where r: "YAP_V2_snapshot_manager_reload ?env sample_state (w_heap (sample_world table)) =
      Some (hp, state', YAP_V2_ALLOCATION_FAILED, False)" by blast
  have "w_manager (sample_world table) = Some sample_state" by (simp add: sample_world_def)
  from snapshot_reload_monotone[OF sample_world_ok[OF t] this r] r show ?thesis by auto
qed

end
