(* ===== verification/Candidate_Set.thy ===== *)
theory Candidate_Set
  imports Vector_Search Lexical_Reader Storage_V2 "HOL-Library.Multiset"
begin

text \<open>
  The bounded candidate set of \<open>query/yappo_query_v2.c\<close>: at most \<open>capacity\<close> candidates with different identifiers,
  an array heap with the worst candidate at its root, and a hash table with deletion marks from identifiers to
  candidates. The arrays are represented by their first \<open>count\<close> elements, which are the ones in use. An
  operation that would write outside the hash table has no result.
\<close>

subsection \<open>Candidates\<close>

record 'a CANDIDATE =
  cnd_id :: YAP_V2_BYTES_VIEW
  cnd_parent :: YAP_V2_BYTES_VIEW
  cnd_segment :: nat
  cnd_ordinal :: nat
  cnd_score :: 'a

datatype CANDIDATE_HASH_SLOT = Slot_free | Slot_used nat | Slot_deleted

record 'a CANDIDATE_SET =
  cs_items :: "'a CANDIDATE list"
  cs_capacity :: nat
  cs_heap :: "nat list"
  cs_heap_positions :: "nat list"
  cs_hash :: "CANDIDATE_HASH_SLOT list"

definition sizeof_candidate :: nat where "sizeof_candidate = 56"
definition sizeof_candidate_hash_slot :: nat where "sizeof_candidate_hash_slot = 16"

definition query_bytes_equal :: "YAP_V2_BYTES_VIEW \<Rightarrow> YAP_V2_BYTES_VIEW \<Rightarrow> bool" where
  "query_bytes_equal a b \<longleftrightarrow>
     view_len a = view_len b \<and> \<not> view_is_null a \<and> \<not> view_is_null b \<and> view_bytes a = view_bytes b"

definition query_bytes_compare :: "YAP_V2_BYTES_VIEW \<Rightarrow> YAP_V2_BYTES_VIEW \<Rightarrow> int" where
  "query_bytes_compare a b =
     (let common = (if view_len a < view_len b then view_len a else view_len b);
          compared = memcmp (take common (view_bytes a)) (take common (view_bytes b)) in
      if compared \<noteq> 0 then compared
      else if view_len a < view_len b then - 1 else if view_len a > view_len b then 1 else 0)"

definition candidate_compare :: "'a score_ops \<Rightarrow> 'a CANDIDATE \<Rightarrow> 'a CANDIDATE \<Rightarrow> int" where
  "candidate_compare D a b =
     (if sc_less D (cnd_score b) (cnd_score a) then - 1
      else if sc_less D (cnd_score a) (cnd_score b) then 1
      else query_bytes_compare (cnd_id a) (cnd_id b))"

definition query_bytes_hash :: "YAP_V2_BYTES_VIEW \<Rightarrow> u64" where
  "query_bytes_hash value = fnv_hash 1469598103934665603 (view_bytes value)"

definition candidate_start :: "YAP_V2_BYTES_VIEW \<Rightarrow> nat \<Rightarrow> nat" where
  "candidate_start value capacity = unat (query_bytes_hash value AND word_of_nat (capacity - 1))"

definition candidate_better :: "'a score_ops \<Rightarrow> 'a CANDIDATE \<Rightarrow> 'a CANDIDATE \<Rightarrow> bool" where
  "candidate_better D left right =
     (if \<not> sc_eq D (cnd_score left) (cnd_score right) then sc_less D (cnd_score right) (cnd_score left)
      else query_bytes_compare (cnd_id left) (cnd_id right) < 0)"

definition candidate_worse :: "'a score_ops \<Rightarrow> 'a CANDIDATE \<Rightarrow> 'a CANDIDATE \<Rightarrow> bool" where
  "candidate_worse D left right = candidate_better D right left"

definition candidate_set_init :: "(nat \<Rightarrow> bool) \<Rightarrow> nat \<Rightarrow> 'a CANDIDATE_SET outcome" where
  "candidate_set_init mem capacity =
     (if capacity = 0 \<or> capacity > SIZE_MAX div 2 then Inl YAP_V2_INVALID_ARGUMENT
      else case slot_capacity_checked 1 capacity of
        None \<Rightarrow> Inl YAP_V2_OUT_OF_RANGE
      | Some hash_capacity \<Rightarrow>
          if \<not> mem (capacity * sizeof_candidate) \<or> \<not> mem (capacity * 8) \<or>
             \<not> mem (hash_capacity * sizeof_candidate_hash_slot) then Inl YAP_V2_ALLOCATION_FAILED
          else Inr \<lparr>cs_items = [], cs_capacity = capacity, cs_heap = [], cs_heap_positions = [],
                   cs_hash = replicate hash_capacity Slot_free\<rparr>)"

subsection \<open>The hash table\<close>

text \<open>
  The probing loop; \<open>deleted\<close> is the first deletion mark seen, \<open>None\<close> for \<open>SIZE_MAX\<close>. The result is the slot and
  whether the identifier was found there.
\<close>

fun hash_probe ::
  "'a CANDIDATE list \<Rightarrow> CANDIDATE_HASH_SLOT list \<Rightarrow> YAP_V2_BYTES_VIEW \<Rightarrow> nat \<Rightarrow> nat option \<Rightarrow> nat \<Rightarrow> nat option \<times> bool" where
  "hash_probe items hash value index deleted 0 = (deleted, False)"
| "hash_probe items hash value index deleted (Suc fuel) =
     (case hash ! index of
        Slot_free \<Rightarrow> (Some (case deleted of None \<Rightarrow> index | Some d \<Rightarrow> d), False)
      | Slot_used c \<Rightarrow>
          if query_bytes_equal (cnd_id (items ! c)) value then (Some index, True)
          else hash_probe items hash value (next_slot (length hash) index) deleted fuel
      | Slot_deleted \<Rightarrow>
          hash_probe items hash value (next_slot (length hash) index)
            (case deleted of None \<Rightarrow> Some index | Some d \<Rightarrow> Some d) fuel)"

definition candidate_hash_slot :: "'a CANDIDATE_SET \<Rightarrow> YAP_V2_BYTES_VIEW \<Rightarrow> nat option \<times> bool" where
  "candidate_hash_slot cs value =
     hash_probe (cs_items cs) (cs_hash cs) value (candidate_start value (length (cs_hash cs))) None (length (cs_hash cs))"

definition candidate_hash_insert :: "'a CANDIDATE_SET \<Rightarrow> nat \<Rightarrow> 'a CANDIDATE_SET option" where
  "candidate_hash_insert cs candidate_index =
     (case candidate_hash_slot cs (cnd_id (cs_items cs ! candidate_index)) of
        (None, _) \<Rightarrow> None
      | (Some slot, _) \<Rightarrow> Some (cs\<lparr>cs_hash := (cs_hash cs)[slot := Slot_used candidate_index]\<rparr>))"

definition candidate_hash_remove :: "'a CANDIDATE_SET \<Rightarrow> YAP_V2_BYTES_VIEW \<Rightarrow> 'a CANDIDATE_SET" where
  "candidate_hash_remove cs value =
     (case candidate_hash_slot cs value of
        (Some slot, True) \<Rightarrow> cs\<lparr>cs_hash := (cs_hash cs)[slot := Slot_deleted]\<rparr>
      | _ \<Rightarrow> cs)"

subsection \<open>The heap\<close>

definition candidate_heap_swap :: "'a CANDIDATE_SET \<Rightarrow> nat \<Rightarrow> nat \<Rightarrow> 'a CANDIDATE_SET" where
  "candidate_heap_swap cs left right =
     (let heap = (cs_heap cs)[left := cs_heap cs ! right, right := cs_heap cs ! left] in
      cs\<lparr>cs_heap := heap,
         cs_heap_positions := (cs_heap_positions cs)[heap ! left := left, heap ! right := right]\<rparr>)"

abbreviation heap_item :: "'a CANDIDATE_SET \<Rightarrow> nat \<Rightarrow> 'a CANDIDATE" where
  "heap_item cs position \<equiv> cs_items cs ! (cs_heap cs ! position)"

function candidate_heap_up :: "'a score_ops \<Rightarrow> 'a CANDIDATE_SET \<Rightarrow> nat \<Rightarrow> 'a CANDIDATE_SET" where
  "candidate_heap_up D cs position =
     (if position > 0
      then let parent = (position - 1) div 2 in
        if \<not> candidate_worse D (heap_item cs position) (heap_item cs parent) then cs
        else candidate_heap_up D (candidate_heap_swap cs position parent) parent
      else cs)"
  by pat_completeness auto
termination
  by (relation "measure (\<lambda>(D, cs, position). position)") auto

text \<open>The worse of the children, when one is worse than the element itself.\<close>

definition worst_child :: "'a score_ops \<Rightarrow> 'a CANDIDATE_SET \<Rightarrow> nat \<Rightarrow> nat" where
  "worst_child D cs position =
     (let left = position * 2 + 1; right = left + 1;
          worst = (if left < length (cs_items cs) \<and> candidate_worse D (heap_item cs left) (heap_item cs position)
                   then left else position) in
      if right < length (cs_items cs) \<and> candidate_worse D (heap_item cs right) (heap_item cs worst) then right else worst)"

lemma worst_child_bounds:
  "worst_child D cs position \<noteq> position \<Longrightarrow>
     position < worst_child D cs position \<and> worst_child D cs position < length (cs_items cs)"
  by (auto simp: worst_child_def Let_def split: if_splits)

lemma swap_frame [simp]:
  "cs_items (candidate_heap_swap cs l r) = cs_items cs" "cs_capacity (candidate_heap_swap cs l r) = cs_capacity cs"
  "cs_hash (candidate_heap_swap cs l r) = cs_hash cs"
  by (simp_all add: candidate_heap_swap_def Let_def)

function candidate_heap_down :: "'a score_ops \<Rightarrow> 'a CANDIDATE_SET \<Rightarrow> nat \<Rightarrow> 'a CANDIDATE_SET" where
  "candidate_heap_down D cs position =
     (let worst = worst_child D cs position in
      if worst = position then cs
      else candidate_heap_down D (candidate_heap_swap cs position worst) worst)"
  by pat_completeness auto
termination
proof (relation "measure (\<lambda>(D, cs, position). length (cs_items cs) - position)")
  fix D :: "'a score_ops" and cs position worst
  assume "worst = worst_child D cs position" "worst \<noteq> position"
  then show "((D, candidate_heap_swap cs position worst, worst), D, cs, position) \<in>
      measure (\<lambda>(D, cs, position). length (cs_items cs) - position)"
    using worst_child_bounds[of D cs position] by auto
qed simp

declare candidate_heap_up.simps [simp del] candidate_heap_down.simps [simp del]

subsection \<open>Adding a candidate\<close>

definition candidate_set_add :: "'a score_ops \<Rightarrow> 'a CANDIDATE_SET \<Rightarrow> 'a CANDIDATE \<Rightarrow> 'a CANDIDATE_SET option" where
  "candidate_set_add D cs candidate =
     (case candidate_hash_slot cs (cnd_id candidate) of
        (Some hash_slot, True) \<Rightarrow>
          (case cs_hash cs ! hash_slot of
             Slot_used candidate_index \<Rightarrow>
               if \<not> candidate_better D candidate (cs_items cs ! candidate_index) then Some cs
               else
                 (let cs = cs\<lparr>cs_items := (cs_items cs)[candidate_index := candidate]\<rparr> in
                  Some (candidate_heap_down D cs (cs_heap_positions cs ! candidate_index)))
           | _ \<Rightarrow> None)
      | _ \<Rightarrow>
          if length (cs_items cs) < cs_capacity cs
          then
            (let candidate_index = length (cs_items cs);
                 cs = cs\<lparr>cs_items := cs_items cs @ [candidate], cs_heap := cs_heap cs @ [candidate_index],
                         cs_heap_positions := cs_heap_positions cs @ [candidate_index]\<rparr> in
             case candidate_hash_insert cs candidate_index of
               None \<Rightarrow> None
             | Some cs \<Rightarrow> Some (candidate_heap_up D cs candidate_index))
          else if \<not> candidate_better D candidate (heap_item cs 0) then Some cs
          else
            (let cs = candidate_hash_remove cs (cnd_id (heap_item cs 0));
                 cs = cs\<lparr>cs_items := (cs_items cs)[cs_heap cs ! 0 := candidate]\<rparr> in
             case candidate_hash_insert cs (cs_heap cs ! 0) of
               None \<Rightarrow> None
             | Some cs \<Rightarrow> Some (candidate_heap_down D cs 0)))"

fun candidate_set_add_all :: "'a score_ops \<Rightarrow> 'a CANDIDATE_SET \<Rightarrow> 'a CANDIDATE list \<Rightarrow> 'a CANDIDATE_SET option" where
  "candidate_set_add_all D cs [] = Some cs"
| "candidate_set_add_all D cs (c # rest) =
     (case candidate_set_add D cs c of None \<Rightarrow> None | Some cs \<Rightarrow> candidate_set_add_all D cs rest)"

end
