(* ===== verification/Array_Heap.thy ===== *)
theory Array_Heap
  imports Main "HOL-Library.Multiset"
begin

text \<open>
  Binary heaps in an array: element \<open>q\<close> has the parent \<open>(q - 1) div 2\<close>, and the root is a least element. The
  order is total and transitive on the elements that occur; moving one element up or down restores the heap.
\<close>

abbreviation parent :: "nat \<Rightarrow> nat" where
  "parent q \<equiv> (q - 1) div 2"

lemma parent_less: "0 < q \<Longrightarrow> parent q < q"
  by auto

lemma parent_iff: "0 < q \<Longrightarrow> parent q = p \<longleftrightarrow> q = p * 2 + 1 \<or> q = p * 2 + 2"
  by auto

definition swapped :: "'x list \<Rightarrow> nat \<Rightarrow> nat \<Rightarrow> 'x list" where
  "swapped h l r = h[l := h ! r, r := h ! l]"

lemma length_swapped [simp]: "length (swapped h l r) = length h"
  by (simp add: swapped_def)

lemma swapped_nth:
  "l < length h \<Longrightarrow> r < length h \<Longrightarrow> q < length h \<Longrightarrow>
     swapped h l r ! q = (if q = l then h ! r else if q = r then h ! l else h ! q)"
  by (auto simp: swapped_def nth_list_update)

lemma mset_swapped: "l < length h \<Longrightarrow> r < length h \<Longrightarrow> mset (swapped h l r) = mset h"
  by (simp add: swapped_def mset_swap)

definition heap_ordered :: "('x \<Rightarrow> 'x \<Rightarrow> bool) \<Rightarrow> 'x list \<Rightarrow> bool" where
  "heap_ordered le h \<longleftrightarrow> (\<forall>q<length h. 0 < q \<longrightarrow> le (h ! parent q) (h ! q))"

text \<open>A heap but for the element at \<open>p\<close>, which may be too small for its parent.\<close>

definition up_heap :: "('x \<Rightarrow> 'x \<Rightarrow> bool) \<Rightarrow> 'x list \<Rightarrow> nat \<Rightarrow> bool" where
  "up_heap le h p \<longleftrightarrow> (\<forall>q<length h. 0 < q \<longrightarrow> q \<noteq> p \<longrightarrow> le (h ! parent q) (h ! q)) \<and>
     (\<forall>q<length h. 0 < q \<longrightarrow> parent q = p \<longrightarrow> 0 < p \<longrightarrow> le (h ! parent p) (h ! q))"

text \<open>A heap but for the element at \<open>p\<close>, which may be too large for its children.\<close>

definition down_heap :: "('x \<Rightarrow> 'x \<Rightarrow> bool) \<Rightarrow> 'x list \<Rightarrow> nat \<Rightarrow> bool" where
  "down_heap le h p \<longleftrightarrow> (\<forall>q<length h. 0 < q \<longrightarrow> parent q \<noteq> p \<longrightarrow> le (h ! parent q) (h ! q)) \<and>
     (\<forall>q<length h. 0 < q \<longrightarrow> parent q = p \<longrightarrow> 0 < p \<longrightarrow> le (h ! parent p) (h ! q))"

locale heap_order =
  fixes le :: "'x \<Rightarrow> 'x \<Rightarrow> bool" and carrier :: "'x set"
  assumes trans: "x \<in> carrier \<Longrightarrow> y \<in> carrier \<Longrightarrow> z \<in> carrier \<Longrightarrow> le x y \<Longrightarrow> le y z \<Longrightarrow> le x z"
    and total: "x \<in> carrier \<Longrightarrow> y \<in> carrier \<Longrightarrow> le x y \<or> le y x"
begin

lemma le_refl: "x \<in> carrier \<Longrightarrow> le x x"
  using total by blast

lemma heap_root:
  assumes "heap_ordered le h" "set h \<subseteq> carrier" "q < length h"
  shows "le (h ! 0) (h ! q)"
  using assms(3)
proof (induction q rule: less_induct)
  case (less q)
  show ?case
  proof (cases "q = 0")
    case True
    then show ?thesis using assms(2) less.prems nth_mem by (metis le_refl subsetD)
  next
    case False
    then have p: "parent q < q" "parent q < length h" using less.prems parent_less[of q] by auto
    have "le (h ! 0) (h ! parent q)" using less.IH p by blast
    moreover have "le (h ! parent q) (h ! q)" using assms(1) less.prems False by (simp add: heap_ordered_def)
    moreover have "h ! 0 \<in> carrier" "h ! parent q \<in> carrier" "h ! q \<in> carrier"
      using assms(2) less.prems p nth_mem by (metis subsetD gr_zeroI less_nat_zero_code, blast+)
    ultimately show ?thesis using trans by blast
  qed
qed

lemma up_heap_done: "up_heap le h p \<Longrightarrow> p = 0 \<or> le (h ! parent p) (h ! p) \<Longrightarrow> heap_ordered le h"
  by (auto simp: up_heap_def heap_ordered_def)

lemma up_heap_step:
  assumes u: "up_heap le h p" and c: "set h \<subseteq> carrier" and p: "p < length h" "0 < p"
    and n: "le (h ! p) (h ! parent p)"
  shows "up_heap le (swapped h p (parent p)) (parent p)"
proof -
  have pp: "parent p < p" "parent p < length h" using p parent_less[of p] by auto
  note nth = swapped_nth[OF p(1) pp(2)]
  have mem: "h ! q \<in> carrier" if "q < length h" for q using c that by (auto simp: subset_eq)
  have old: "le (h ! parent q) (h ! q)" if "q < length h" "0 < q" "q \<noteq> p" for q using u that by (simp add: up_heap_def)
  have gap: "le (h ! parent p) (h ! q)" if "q < length h" "0 < q" "parent q = p" for q
    using u that p by (simp add: up_heap_def)
  show ?thesis
    unfolding up_heap_def length_swapped
  proof (intro conjI allI impI)
    fix q assume q: "q < length h" "0 < q" "q \<noteq> parent p"
    have pq: "parent q < length h" using q parent_less[of q] by linarith
    show "le (swapped h p (parent p) ! parent q) (swapped h p (parent p) ! q)"
    proof (cases "parent q = p")
      case True
      then have "q \<noteq> p" using parent_less[of q] q by auto
      with True show ?thesis using nth[OF pq] nth[OF q(1)] gap[OF q(1,2)] q(3) by simp
    next
      case False
      show ?thesis
      proof (cases "q = p")
        case True
        then show ?thesis using nth[OF pq] nth[OF q(1)] n q(3) by simp
      next
        case qp: False
        show ?thesis
        proof (cases "parent q = parent p")
          case True
          have "le (h ! p) (h ! q)" using trans[OF mem[OF p(1)] mem[OF pp(2)] mem[OF q(1)] n] old[OF q(1,2) qp] True by simp
          then show ?thesis using nth[OF pq] nth[OF q(1)] True qp q(3) False by simp
        next
          case no: False
          then show ?thesis using nth[OF pq] nth[OF q(1)] False qp q(3) old[OF q(1,2) qp] by simp
        qed
      qed
    qed
  next
    fix q assume q: "q < length h" "0 < q" "parent q = parent p" "0 < parent p"
    have g: "parent (parent p) < length h" "parent (parent p) \<noteq> p" "parent (parent p) \<noteq> parent p"
      using parent_less[OF q(4)] pp by auto
    have top: "le (h ! parent (parent p)) (h ! parent p)" using old[OF pp(2) q(4)] pp(1) by simp
    have "le (h ! parent (parent p)) (h ! q)" if "q \<noteq> p"
      using trans[OF mem[OF g(1)] mem[OF pp(2)] mem[OF q(1)] top] old[OF q(1,2) that] q(3) by simp
    moreover have "q \<noteq> parent p" using q(2,3) parent_less[of q] by auto
    ultimately show "le (swapped h p (parent p) ! parent (parent p)) (swapped h p (parent p) ! q)"
      using nth[OF g(1)] nth[OF q(1)] g(2,3) top by (cases "q = p") auto
  qed
qed

lemma down_heap_done:
  "down_heap le h p \<Longrightarrow> \<forall>q<length h. 0 < q \<longrightarrow> parent q = p \<longrightarrow> le (h ! p) (h ! q) \<Longrightarrow> heap_ordered le h"
  by (auto simp: down_heap_def heap_ordered_def)

lemma down_heap_step:
  assumes d: "down_heap le h p" and c: "set h \<subseteq> carrier" and w: "w < length h" "0 < w" "parent w = p"
    and n: "le (h ! w) (h ! p)" and least: "\<forall>q<length h. 0 < q \<longrightarrow> parent q = p \<longrightarrow> le (h ! w) (h ! q)"
  shows "down_heap le (swapped h p w) w"
proof -
  have p: "p < w" "p < length h" using w parent_less[of w] by auto
  note nth = swapped_nth[OF p(2) w(1)]
  have mem: "h ! q \<in> carrier" if "q < length h" for q using c that by (auto simp: subset_eq)
  have old: "le (h ! parent q) (h ! q)" if "q < length h" "0 < q" "parent q \<noteq> p" for q
    using d that by (simp add: down_heap_def)
  have gap: "le (h ! parent p) (h ! q)" if "q < length h" "0 < q" "parent q = p" "0 < p" for q
    using d that by (simp add: down_heap_def)
  show ?thesis
    unfolding down_heap_def length_swapped
  proof (intro conjI allI impI)
    fix q assume q: "q < length h" "0 < q" "parent q \<noteq> w"
    have pq: "parent q < length h" using q parent_less[of q] by linarith
    show "le (swapped h p w ! parent q) (swapped h p w ! q)"
    proof (cases "parent q = p")
      case True
      then have "q \<noteq> p" using parent_less[of q] q by auto
      with True show ?thesis using nth[OF pq] nth[OF q(1)] least q n by (cases "q = w") auto
    next
      case False
      then have "q \<noteq> w" using w(3) by auto
      show ?thesis
      proof (cases "q = p")
        case True
        then have "le (h ! parent p) (h ! w)" using gap[OF w] q by simp
        then show ?thesis using nth[OF pq] nth[OF q(1)] True False q(3) by simp
      next
        case qp: False
        then show ?thesis using nth[OF pq] nth[OF q(1)] False q(3) \<open>q \<noteq> w\<close> old[OF q(1,2) False] by simp
      qed
    qed
  next
    fix q assume q: "q < length h" "0 < q" "parent q = w" "0 < w"
    have "q \<noteq> w" "q \<noteq> p" using q(2,3) parent_less[of q] p by auto
    moreover have "le (h ! w) (h ! q)" using old[OF q(1,2)] q(3) p(1) by simp
    ultimately show "le (swapped h p w ! parent w) (swapped h p w ! q)"
      using nth[OF p(2)] nth[OF q(1)] w(3) by simp
  qed
qed

lemma down_heap_change:
  assumes "heap_ordered le h" "set h \<subseteq> carrier" "x \<in> carrier" "p < length h" "le (h ! p) x"
  shows "down_heap le (h[p := x]) p"
proof -
  have mem: "h ! q \<in> carrier" if "q < length h" for q using assms(2) that by (auto simp: subset_eq)
  have old: "le (h ! parent q) (h ! q)" if "q < length h" "0 < q" for q using assms(1) that by (simp add: heap_ordered_def)
  show ?thesis
    unfolding down_heap_def length_list_update
  proof (intro conjI allI impI)
    fix q assume q: "q < length h" "0 < q" "parent q \<noteq> p"
    have pq: "parent q < length h" using q parent_less[of q] by linarith
    have "le (h ! parent p) x" if "q = p"
      using trans[OF mem[OF pq] mem[OF q(1)] assms(3)] old[OF q(1,2)] assms(5) that by simp
    then show "le (h[p := x] ! parent q) (h[p := x] ! q)" using q old[OF q(1,2)] by (cases "q = p") auto
  next
    fix q assume q: "q < length h" "0 < q" "parent q = p" "0 < p"
    have pp: "parent p < length h" "parent p \<noteq> p" using assms(4) parent_less[OF q(4)] by auto
    have "le (h ! parent p) (h ! q)"
      using trans[OF mem[OF pp(1)] mem[OF assms(4)] mem[OF q(1)] old[OF assms(4) q(4)]] old[OF q(1,2)] q(3) by simp
    moreover have "q \<noteq> p" using q(2,3) parent_less[of q] by auto
    ultimately show "le (h[p := x] ! parent p) (h[p := x] ! q)" using pp(2) by simp
  qed
qed

lemma up_heap_append:
  assumes "heap_ordered le h"
  shows "up_heap le (h @ [x]) (length h)"
proof -
  have "le ((h @ [x]) ! parent q) ((h @ [x]) ! q)" if "q < length h" "0 < q" for q
    using assms that parent_less[of q] by (simp add: heap_ordered_def nth_append)
  moreover have "parent q \<noteq> length h" if "q < Suc (length h)" "0 < q" for q using that parent_less[of q] by linarith
  ultimately show ?thesis by (auto simp: up_heap_def less_Suc_eq)
qed

end

end
