(* ===== verification/Candidate_Top.thy ===== *)
theory Candidate_Top
  imports Candidate_Set Array_Heap
begin

text \<open>
  The candidate set keeps the best candidates: after any sequence of additions it holds the best \<open>capacity\<close> of the
  best candidates of each identifier.
\<close>

subsection \<open>The order of candidates\<close>

definition rankable :: "'a score_ops \<Rightarrow> 'a CANDIDATE \<Rightarrow> bool" where
  "rankable D c \<longleftrightarrow> sc_isfinite D (cnd_score c) \<and> \<not> view_is_null (cnd_id c)"

lemma bytes_compare_order:
  "query_bytes_compare (View a) (View b) < 0 \<longleftrightarrow> a < b" "query_bytes_compare (View a) (View b) = 0 \<longleftrightarrow> a = b"
proof -
  define k where "k = memcmp (take (min (length a) (length b)) a) (take (min (length a) (length b)) b)"
  have q: "query_bytes_compare (View a) (View b) = (if k \<noteq> 0 then k else if length a < length b then - 1
      else if length b < length a then 1 else 0)"
    by (simp add: query_bytes_compare_def k_def min_def Let_def)
  have e: "a = b \<longleftrightarrow> k = 0 \<and> length a = length b" using search_order(1)[of a b] by (simp add: k_def)
  moreover have "a \<noteq> b \<Longrightarrow> k < 0 \<or> (k = 0 \<and> length a < length b) \<longleftrightarrow> a < b"
    using search_order(2)[of a b] by (simp add: k_def)
  ultimately show "query_bytes_compare (View a) (View b) < 0 \<longleftrightarrow> a < b" unfolding q by (cases "a = b") auto
  show "query_bytes_compare (View a) (View b) = 0 \<longleftrightarrow> a = b" unfolding q e by auto
qed

lemma candidate_better_iff:
  assumes D: "rank_laws D" and r: "rankable D a" "rankable D b"
  shows "candidate_better D a b \<longleftrightarrow> sc_less D (cnd_score b) (cnd_score a) \<or>
    (\<not> sc_less D (cnd_score a) (cnd_score b) \<and> view_bytes (cnd_id a) < view_bytes (cnd_id b))"
proof -
  obtain x y where v: "cnd_id a = View x" "cnd_id b = View y"
    using r by (cases "cnd_id a"; cases "cnd_id b") (auto simp: rankable_def)
  have asym: "sc_less D u v \<Longrightarrow> \<not> sc_less D v u" for u v using D by (auto simp: rank_laws_def score_laws_def)
  have eq: "sc_eq D (cnd_score a) (cnd_score b) \<longleftrightarrow>
      \<not> sc_less D (cnd_score a) (cnd_score b) \<and> \<not> sc_less D (cnd_score b) (cnd_score a)"
    using D r by (auto simp: rank_laws_def rankable_def)
  show ?thesis
    using asym[of "cnd_score a" "cnd_score b"] by (simp add: candidate_better_def eq v bytes_compare_order(1))
qed

lemma better_asym:
  assumes "rank_laws D" "rankable D a" "rankable D b" "candidate_better D a b"
  shows "\<not> candidate_better D b a"
proof -
  have "sc_less D u v \<Longrightarrow> \<not> sc_less D v u" for u v using assms(1) by (auto simp: rank_laws_def score_laws_def)
  from this[of "cnd_score a" "cnd_score b"] this[of "cnd_score b" "cnd_score a"] show ?thesis
    using assms(4) less_asym[of "view_bytes (cnd_id a)" "view_bytes (cnd_id b)"]
    unfolding candidate_better_iff[OF assms(1,2,3)] candidate_better_iff[OF assms(1,3,2)] by blast
qed

lemma not_better_trans:
  assumes D: "rank_laws D" and r: "rankable D a" "rankable D b" "rankable D c"
    and "\<not> candidate_better D a b" "\<not> candidate_better D b c"
  shows "\<not> candidate_better D a c"
proof -
  have "\<not> sc_less D x z" if "\<not> sc_less D x y" "\<not> sc_less D y z" "sc_isfinite D x" "sc_isfinite D y" "sc_isfinite D z" for x y z
    using D that unfolding rank_laws_def score_laws_def by blast
  then show ?thesis
    using assms unfolding candidate_better_iff[OF D r(1,2)] candidate_better_iff[OF D r(2,3)] candidate_better_iff[OF D r(1,3)]
      rankable_def by (meson leD less_le_trans not_less)
qed

lemma better_total:
  assumes "rank_laws D" "rankable D a" "rankable D b" "cnd_id a \<noteq> cnd_id b"
  shows "candidate_better D a b \<or> candidate_better D b a"
proof -
  have "view_bytes (cnd_id a) \<noteq> view_bytes (cnd_id b)"
    using assms by (cases "cnd_id a"; cases "cnd_id b") (auto simp: rankable_def)
  then show ?thesis
    unfolding candidate_better_iff[OF assms(1,2,3)] candidate_better_iff[OF assms(1,3,2)] by (meson neqE)
qed

lemma better_trans:
  assumes "rank_laws D" "rankable D a" "rankable D b" "rankable D c" "candidate_better D a b" "candidate_better D b c"
  shows "candidate_better D a c"
proof (rule ccontr)
  assume "\<not> candidate_better D a c"
  moreover have "\<not> candidate_better D c b" by (rule better_asym[OF assms(1,3,4,6)])
  ultimately have "\<not> candidate_better D a b" by (rule not_better_trans[OF assms(1,2,4,3)])
  with assms(5) show False by simp
qed

abbreviation not_better :: "'a score_ops \<Rightarrow> 'a CANDIDATE \<Rightarrow> 'a CANDIDATE \<Rightarrow> bool" where
  "not_better D a b \<equiv> \<not> candidate_better D a b"

interpretation candidate_heap: heap_order "not_better D" "{c. rank_laws D \<and> rankable D c}" for D
  by unfold_locales (auto dest: better_asym not_better_trans)

subsection \<open>Heap positions\<close>

definition linked :: "'a CANDIDATE_SET \<Rightarrow> bool" where
  "linked cs \<longleftrightarrow> length (cs_heap cs) = length (cs_items cs) \<and> length (cs_heap_positions cs) = length (cs_items cs) \<and>
     (\<forall>p<length (cs_items cs). cs_heap cs ! p < length (cs_items cs) \<and> cs_heap_positions cs ! (cs_heap cs ! p) = p) \<and>
     (\<forall>i<length (cs_items cs). cs_heap_positions cs ! i < length (cs_items cs) \<and> cs_heap cs ! (cs_heap_positions cs ! i) = i)"

definition heap_list :: "'a CANDIDATE_SET \<Rightarrow> 'a CANDIDATE list" where
  "heap_list cs = map ((!) (cs_items cs)) (cs_heap cs)"

lemma length_heap_list [simp]: "linked cs \<Longrightarrow> length (heap_list cs) = length (cs_items cs)"
  by (simp add: heap_list_def linked_def)

lemma heap_list_nth: "linked cs \<Longrightarrow> p < length (cs_items cs) \<Longrightarrow> heap_list cs ! p = heap_item cs p"
  by (simp add: heap_list_def linked_def)

lemma linked_swap:
  assumes "linked cs" "l < length (cs_items cs)" "r < length (cs_items cs)" "l \<noteq> r"
  shows "linked (candidate_heap_swap cs l r)" "heap_list (candidate_heap_swap cs l r) = swapped (heap_list cs) l r"
proof -
  let ?n = "length (cs_items cs)"
  have len: "length (cs_heap cs) = ?n" "length (cs_heap_positions cs) = ?n" using assms(1) by (auto simp: linked_def)
  have h: "cs_heap cs ! p < ?n" "cs_heap_positions cs ! (cs_heap cs ! p) = p" if "p < ?n" for p
    using assms(1) that by (auto simp: linked_def)
  have i: "cs_heap_positions cs ! j < ?n" "cs_heap cs ! (cs_heap_positions cs ! j) = j" if "j < ?n" for j
    using assms(1) that by (auto simp: linked_def)
  have ne: "cs_heap cs ! l \<noteq> cs_heap cs ! r" using h(2) assms(2-4) by metis
  have heap: "cs_heap (candidate_heap_swap cs l r) ! p =
      (if p = r then cs_heap cs ! l else if p = l then cs_heap cs ! r else cs_heap cs ! p)" if "p < ?n" for p
    using that assms(2-4) len by (auto simp: candidate_heap_swap_def Let_def nth_list_update)
  have pos: "cs_heap_positions (candidate_heap_swap cs l r) ! j =
      (if j = cs_heap cs ! l then r else if j = cs_heap cs ! r then l else cs_heap_positions cs ! j)" if "j < ?n" for j
    using that assms(2-4) len h(1)[OF assms(2)] h(1)[OF assms(3)] ne
    by (auto simp: candidate_heap_swap_def Let_def nth_list_update)
  show "linked (candidate_heap_swap cs l r)"
    unfolding linked_def swap_frame
  proof (intro conjI allI impI)
    show "length (cs_heap (candidate_heap_swap cs l r)) = ?n" "length (cs_heap_positions (candidate_heap_swap cs l r)) = ?n"
      using len by (simp_all add: candidate_heap_swap_def Let_def)
    fix p assume p: "p < ?n"
    show "cs_heap (candidate_heap_swap cs l r) ! p < ?n" using heap[OF p] h(1) p assms(2,3) by simp
    then show "cs_heap_positions (candidate_heap_swap cs l r) ! (cs_heap (candidate_heap_swap cs l r) ! p) = p"
      using heap[OF p] h[OF p] h[OF assms(2)] h[OF assms(3)] pos ne assms(4) by auto
  next
    fix j assume j: "j < ?n"
    show "cs_heap_positions (candidate_heap_swap cs l r) ! j < ?n" using pos[OF j] i(1)[OF j] assms(2,3) by simp
    then show "cs_heap (candidate_heap_swap cs l r) ! (cs_heap_positions (candidate_heap_swap cs l r) ! j) = j"
      using pos[OF j] i[OF j] h(2) assms(2-4) heap by auto
  qed
  show "heap_list (candidate_heap_swap cs l r) = swapped (heap_list cs) l r"
    by (rule nth_equalityI)
       (use len assms heap in \<open>auto simp: heap_list_def candidate_heap_swap_def Let_def swapped_nth nth_list_update\<close>)
qed

subsection \<open>Moving candidates in the heap\<close>

definition ordered :: "'a score_ops \<Rightarrow> 'a CANDIDATE_SET \<Rightarrow> bool" where
  "ordered D cs \<longleftrightarrow> linked cs \<and> heap_ordered (not_better D) (heap_list cs)"

lemma set_heap_list:
  assumes "linked cs"
  shows "mset (heap_list cs) = mset (cs_items cs)"
proof -
  let ?n = "length (cs_items cs)"
  have len: "length (cs_heap cs) = ?n" using assms by (simp add: linked_def)
  have "inj_on ((!) (cs_heap cs)) {..<?n}" using assms by (intro inj_onI) (metis lessThan_iff linked_def)
  then have "distinct (cs_heap cs)" unfolding distinct_conv_nth len by (metis inj_onD lessThan_iff)
  moreover have "set (cs_heap cs) = {..<?n}"
  proof (intro equalityI subsetI)
    show "x \<in> {..<?n}" if "x \<in> set (cs_heap cs)" for x
      using that assms len by (auto simp: in_set_conv_nth linked_def)
    show "x \<in> set (cs_heap cs)" if "x \<in> {..<?n}" for x
      using that assms len by (metis lessThan_iff linked_def nth_mem)
  qed
  ultimately have "mset (cs_heap cs) = mset [0..<?n]" by (metis atLeast_upt distinct_upt set_eq_iff_mset_eq_distinct)
  then have "mset (heap_list cs) = image_mset ((!) (cs_items cs)) (mset [0..<?n])" by (simp add: heap_list_def)
  also have "\<dots> = mset (cs_items cs)" by (metis map_nth mset_map)
  finally show ?thesis .
qed

text \<open>Moving a candidate touches nothing but the heap and the positions.\<close>

definition same_contents :: "'a CANDIDATE_SET \<Rightarrow> 'a CANDIDATE_SET \<Rightarrow> bool" where
  "same_contents cs cs' \<longleftrightarrow> cs_items cs' = cs_items cs \<and> cs_hash cs' = cs_hash cs \<and> cs_capacity cs' = cs_capacity cs"

lemma same_contents_swap: "same_contents (candidate_heap_swap cs l r) cs' = same_contents cs cs'"
  by (simp add: same_contents_def)

lemma heap_carrier:
  assumes "rank_laws D" "linked cs" "\<forall>c\<in>set (cs_items cs). rankable D c"
  shows "set (heap_list cs) \<subseteq> {c. rank_laws D \<and> rankable D c}"
  using assms mset_eq_setD[OF set_heap_list[OF assms(2)]] by auto

lemma heap_up_ordered:
  "rank_laws D \<Longrightarrow> linked cs \<Longrightarrow> \<forall>c\<in>set (cs_items cs). rankable D c \<Longrightarrow> position < length (cs_items cs) \<Longrightarrow>
    up_heap (not_better D) (heap_list cs) position \<Longrightarrow>
    ordered D (candidate_heap_up D cs position) \<and> same_contents cs (candidate_heap_up D cs position)"
proof (induction D cs position rule: candidate_heap_up.induct)
  case (1 D cs position)
  note prems = "1.prems"
  have nth: "heap_list cs ! p = heap_item cs p" if "p \<le> position" for p
    using heap_list_nth[OF prems(2)] that prems(4) by simp
  show ?case
  proof (cases "0 < position \<and> candidate_worse D (heap_item cs position) (heap_item cs (parent position))")
    case False
    then have "candidate_heap_up D cs position = cs" by (subst candidate_heap_up.simps) (auto simp: Let_def)
    moreover have "position = 0 \<or> not_better D (heap_list cs ! parent position) (heap_list cs ! position)"
      using False nth[of position] nth[of "parent position"] by (auto simp: candidate_worse_def)
    ultimately show ?thesis
      using candidate_heap.up_heap_done[OF prems(5)] prems(2) by (simp add: ordered_def same_contents_def)
  next
    case True
    let ?cs = "candidate_heap_swap cs position (parent position)"
    have pp: "parent position < length (cs_items cs)" "position \<noteq> parent position"
      using True prems(4) parent_less[of position] by auto
    have worse: "candidate_better D (heap_list cs ! parent position) (heap_list cs ! position)"
      using True nth[of position] nth[of "parent position"] by (simp add: candidate_worse_def)
    have carrier: "set (heap_list cs) \<subseteq> {c. rank_laws D \<and> rankable D c}" by (rule heap_carrier[OF prems(1-3)])
    have len: "length (heap_list cs) = length (cs_items cs)" using prems(2) by simp
    have nb: "not_better D (heap_list cs ! position) (heap_list cs ! parent position)"
      using better_asym[OF prems(1) _ _ worse] carrier pp(1) prems(4) len nth_mem by (metis mem_Collect_eq subsetD)
    have up: "up_heap (not_better D) (heap_list ?cs) (parent position)"
      unfolding linked_swap(2)[OF prems(2,4) pp]
      by (rule candidate_heap.up_heap_step[OF prems(5) carrier]) (use prems(4) True nb len in auto)
    have "ordered D (candidate_heap_up D ?cs (parent position)) \<and>
        same_contents ?cs (candidate_heap_up D ?cs (parent position))"
      by (rule "1.IH") (use True prems pp up linked_swap(1)[OF prems(2,4) pp] in auto)
    moreover have "candidate_heap_up D cs position = candidate_heap_up D ?cs (parent position)"
      using True by (subst candidate_heap_up.simps) (simp add: Let_def)
    ultimately show ?thesis by (simp add: same_contents_swap)
  qed
qed

lemma worst_child_least:
  assumes D: "rank_laws D" and l: "linked cs" and r: "\<forall>c\<in>set (cs_items cs). rankable D c"
    and p: "position < length (cs_items cs)"
  shows "\<forall>q<length (cs_items cs). 0 < q \<longrightarrow> parent q = position \<longrightarrow>
      not_better D (heap_list cs ! worst_child D cs position) (heap_list cs ! q)"
    "not_better D (heap_list cs ! worst_child D cs position) (heap_list cs ! position)"
    "worst_child D cs position \<noteq> position \<Longrightarrow> parent (worst_child D cs position) = position"
proof -
  have nth: "heap_item cs x = heap_list cs ! x" if "x < length (cs_items cs)" for x using heap_list_nth[OF l that] by simp
  have ok: "rankable D (heap_list cs ! x)" if "x < length (cs_items cs)" for x
    using heap_carrier[OF D l r] that l by (metis (mono_tags, lifting) length_heap_list mem_Collect_eq nth_mem subsetD)
  have asym: "candidate_better D (heap_list cs ! x) (heap_list cs ! y) \<Longrightarrow> not_better D (heap_list cs ! y) (heap_list cs ! x)"
    if "x < length (cs_items cs)" "y < length (cs_items cs)" for x y
    using better_asym[OF D ok ok] that by blast
  have trans: "not_better D (heap_list cs ! x) (heap_list cs ! y) \<Longrightarrow> not_better D (heap_list cs ! y) (heap_list cs ! z) \<Longrightarrow>
      not_better D (heap_list cs ! x) (heap_list cs ! z)"
    if "x < length (cs_items cs)" "y < length (cs_items cs)" "z < length (cs_items cs)" for x y z
    using not_better_trans[OF D ok ok ok] that by blast
  have irr: "not_better D (heap_list cs ! x) (heap_list cs ! x)" if "x < length (cs_items cs)" for x
    using asym[OF that that] by blast
  let ?n = "length (cs_items cs)" and ?left = "position * 2 + 1" and ?right = "position * 2 + 1 + 1"
  define w where "w = (if ?left < ?n \<and> candidate_worse D (heap_item cs ?left) (heap_item cs position) then ?left else position)"
  have w: "w < ?n \<and> not_better D (heap_list cs ! w) (heap_list cs ! position) \<and>
    (?left < ?n \<longrightarrow> not_better D (heap_list cs ! w) (heap_list cs ! ?left))"
  proof (cases "?left < ?n \<and> candidate_worse D (heap_item cs ?left) (heap_item cs position)")
    case True
    then have "w = ?left" "?left < ?n" "candidate_better D (heap_list cs ! position) (heap_list cs ! ?left)"
      using nth[OF p] nth[of ?left] by (simp_all add: w_def candidate_worse_def)
    then show ?thesis using asym[OF p] irr by simp
  next
    case False
    then have "w = position" "?left < ?n \<longrightarrow> not_better D (heap_list cs ! position) (heap_list cs ! ?left)"
      using nth[OF p] nth[of ?left] by (auto simp: w_def candidate_worse_def)
    then show ?thesis using irr[OF p] p by simp
  qed
  then have w: "w < ?n" "not_better D (heap_list cs ! w) (heap_list cs ! position)"
    "?left < ?n \<Longrightarrow> not_better D (heap_list cs ! w) (heap_list cs ! ?left)" by blast+
  have wc: "worst_child D cs position = (if ?right < ?n \<and> candidate_worse D (heap_item cs ?right) (heap_item cs w) then ?right else w)"
    by (simp add: worst_child_def w_def Let_def)
  show "\<forall>q<?n. 0 < q \<longrightarrow> parent q = position \<longrightarrow>
      not_better D (heap_list cs ! worst_child D cs position) (heap_list cs ! q)"
    "not_better D (heap_list cs ! worst_child D cs position) (heap_list cs ! position)"
  proof -
    have "not_better D (heap_list cs ! worst_child D cs position) (heap_list cs ! position) \<and>
      (?left < ?n \<longrightarrow> not_better D (heap_list cs ! worst_child D cs position) (heap_list cs ! ?left)) \<and>
      (?right < ?n \<longrightarrow> not_better D (heap_list cs ! worst_child D cs position) (heap_list cs ! ?right))"
    proof (cases "?right < ?n \<and> candidate_worse D (heap_item cs ?right) (heap_item cs w)")
      case True
      then have r: "?right < ?n" "not_better D (heap_list cs ! ?right) (heap_list cs ! w)"
        using asym[OF w(1)] nth w(1) by (auto simp: candidate_worse_def)
      have "not_better D (heap_list cs ! ?right) (heap_list cs ! position)" by (rule trans[OF r(1) w(1) p r(2) w(2)])
      moreover have "not_better D (heap_list cs ! ?right) (heap_list cs ! ?left)" if "?left < ?n"
        by (rule trans[OF r(1) w(1) that r(2) w(3)[OF that]])
      ultimately show ?thesis using wc True irr[OF r(1)] by simp
    next
      case False
      then have "?right < ?n \<longrightarrow> not_better D (heap_list cs ! w) (heap_list cs ! ?right)"
        using nth w(1) by (auto simp: candidate_worse_def)
      moreover have "worst_child D cs position = w" unfolding wc by (rule if_not_P[OF False])
      ultimately show ?thesis using w by simp
    qed
    note all = this
    show "\<forall>q<?n. 0 < q \<longrightarrow> parent q = position \<longrightarrow>
        not_better D (heap_list cs ! worst_child D cs position) (heap_list cs ! q)"
    proof (intro allI impI)
      fix q assume q: "q < ?n" "0 < q" "parent q = position"
      have "q = ?left \<or> q = ?right" using parent_iff[OF q(2)] q(3) by auto
      then show "not_better D (heap_list cs ! worst_child D cs position) (heap_list cs ! q)"
        using all q(1) by (elim disjE) simp_all
    qed
    show "not_better D (heap_list cs ! worst_child D cs position) (heap_list cs ! position)" using all by blast
  qed
  show "worst_child D cs position \<noteq> position \<Longrightarrow> parent (worst_child D cs position) = position"
    by (auto simp: worst_child_def Let_def split: if_splits)
qed

lemma heap_down_ordered:
  "rank_laws D \<Longrightarrow> linked cs \<Longrightarrow> \<forall>c\<in>set (cs_items cs). rankable D c \<Longrightarrow> position < length (cs_items cs) \<Longrightarrow>
    down_heap (not_better D) (heap_list cs) position \<Longrightarrow>
    ordered D (candidate_heap_down D cs position) \<and> same_contents cs (candidate_heap_down D cs position)"
proof (induction D cs position rule: candidate_heap_down.induct)
  case (1 D cs position)
  note prems = "1.prems"
  note worst = worst_child_least[OF prems(1-4)]
  have len: "length (heap_list cs) = length (cs_items cs)" using prems(2) by simp
  let ?w = "worst_child D cs position"
  show ?case
  proof (cases "?w = position")
    case True
    then have "candidate_heap_down D cs position = cs" by (subst candidate_heap_down.simps) (simp add: Let_def)
    moreover have "heap_ordered (not_better D) (heap_list cs)"
      by (rule candidate_heap.down_heap_done[OF prems(5)]) (use worst(1) True len in simp)
    ultimately show ?thesis using prems(2) by (simp add: ordered_def same_contents_def)
  next
    case False
    let ?cs = "candidate_heap_swap cs position ?w"
    have w: "position < ?w" "?w < length (cs_items cs)" using worst_child_bounds[OF False] by blast+
    have down: "down_heap (not_better D) (heap_list ?cs) ?w"
      unfolding linked_swap(2)[OF prems(2,4) w(2) False[symmetric]]
      by (rule candidate_heap.down_heap_step[OF prems(5) heap_carrier[OF prems(1-3)]])
         (use w worst(1,2) worst(3)[OF False] len in auto)
    have "ordered D (candidate_heap_down D ?cs ?w) \<and> same_contents ?cs (candidate_heap_down D ?cs ?w)"
      by (rule "1.IH") (use False prems w down linked_swap(1)[OF prems(2,4) w(2) False[symmetric]] in auto)
    moreover have "candidate_heap_down D cs position = candidate_heap_down D ?cs ?w"
      using False by (subst candidate_heap_down.simps) (simp add: Let_def)
    ultimately show ?thesis by (simp add: same_contents_swap)
  qed
qed

lemma ordered_root:
  assumes "rank_laws D" "ordered D cs" "\<forall>c\<in>set (cs_items cs). rankable D c" "c \<in> set (cs_items cs)"
  shows "not_better D (heap_item cs 0) c"
proof -
  have l: "linked cs" using assms(2) by (simp add: ordered_def)
  have "c \<in> set (heap_list cs)" using assms(4) mset_eq_setD[OF set_heap_list[OF l]] by simp
  then obtain q where q: "q < length (heap_list cs)" "heap_list cs ! q = c" by (auto simp: in_set_conv_nth)
  have "not_better D (heap_list cs ! 0) (heap_list cs ! q)"
    by (rule candidate_heap.heap_root) (use assms q heap_carrier[OF assms(1) l assms(3)] in \<open>auto simp: ordered_def\<close>)
  moreover have "heap_list cs ! 0 = heap_item cs 0" using heap_list_nth[OF l, of 0] q(1) l by (cases "cs_items cs") auto
  ultimately show ?thesis using q(2) by simp
qed

subsection \<open>The hash table\<close>

text \<open>
  \<open>stored\<close>: exactly the candidates of \<open>C\<close> have a slot, one each, on the probe path of their identifier behind
  slots that are not free.
\<close>

definition slot_path :: "CANDIDATE_HASH_SLOT list \<Rightarrow> YAP_V2_BYTES_VIEW \<Rightarrow> nat \<Rightarrow> bool" where
  "slot_path hash v s \<longleftrightarrow> (\<exists>p<length hash. s = (candidate_start v (length hash) + p) mod length hash \<and>
     (\<forall>q<p. hash ! ((candidate_start v (length hash) + q) mod length hash) \<noteq> Slot_free))"

definition stored :: "'a CANDIDATE list \<Rightarrow> CANDIDATE_HASH_SLOT list \<Rightarrow> nat set \<Rightarrow> bool" where
  "stored items hash C \<longleftrightarrow> (\<exists>k. length hash = 2 ^ k) \<and>
     (\<forall>s<length hash. \<forall>c. hash ! s = Slot_used c \<longrightarrow> c \<in> C \<and> slot_path hash (cnd_id (items ! c)) s) \<and>
     (\<forall>c\<in>C. \<exists>s<length hash. hash ! s = Slot_used c) \<and>
     (\<forall>s<length hash. \<forall>t<length hash. \<forall>c. hash ! s = Slot_used c \<longrightarrow> hash ! t = Slot_used c \<longrightarrow> s = t)"

lemma candidate_start_less: "candidate_start v (2 ^ k) < 2 ^ k"
  unfolding candidate_start_def by (rule masked_less)

lemma query_bytes_equal_iff: "\<not> view_is_null v \<Longrightarrow> query_bytes_equal u v \<longleftrightarrow> u = v"
  by (cases u; cases v) (auto simp: query_bytes_equal_def)

lemma hash_probe_found:
  "length hash = 2 ^ k \<Longrightarrow> hash_probe items hash v ((h + q0) mod 2 ^ k) del fuel = (r, True) \<Longrightarrow>
   \<exists>s<2 ^ k. \<exists>c. r = Some s \<and> hash ! s = Slot_used c \<and> query_bytes_equal (cnd_id (items ! c)) v"
proof (induction fuel arbitrary: q0 del)
  case (Suc fuel)
  have nx: "next_slot (length hash) ((h + q0) mod 2 ^ k) = (h + Suc q0) mod 2 ^ k"
    using Suc.prems(1) by (simp add: next_slot_pow2 mod_Suc_eq)
  show ?case
    using Suc.prems Suc.IH[of "Suc q0"] unfolding hash_probe.simps nx
    by (auto split: CANDIDATE_HASH_SLOT.splits if_splits)
qed simp

text \<open>A probe that does not find the identifier ran into no slot that holds it, and proposes a slot for it.\<close>

lemma hash_probe_missing:
  "length hash = 2 ^ k \<Longrightarrow> hash_probe items hash v ((h + q0) mod 2 ^ k) del fuel = (r, False) \<Longrightarrow>
   (\<forall>q. q0 \<le> q \<and> q < q0 + fuel \<longrightarrow> (\<forall>q'. q0 \<le> q' \<and> q' < q \<longrightarrow> hash ! ((h + q') mod 2 ^ k) \<noteq> Slot_free) \<longrightarrow>
      (\<forall>c. hash ! ((h + q) mod 2 ^ k) = Slot_used c \<longrightarrow> \<not> query_bytes_equal (cnd_id (items ! c)) v)) \<and>
   (case r of
      None \<Rightarrow> del = None \<and> (\<forall>q. q0 \<le> q \<and> q < q0 + fuel \<longrightarrow> (\<exists>c. hash ! ((h + q) mod 2 ^ k) = Slot_used c))
    | Some s \<Rightarrow> del = Some s \<or> (\<exists>q. q0 \<le> q \<and> q < q0 + fuel \<and> s = (h + q) mod 2 ^ k \<and> (\<forall>c. hash ! s \<noteq> Slot_used c) \<and>
        (\<forall>q'. q0 \<le> q' \<and> q' < q \<longrightarrow> hash ! ((h + q') mod 2 ^ k) \<noteq> Slot_free)))"
proof (induction fuel arbitrary: q0 del)
  case 0
  then show ?case by (auto split: option.splits)
next
  case (Suc fuel)
  let ?i = "\<lambda>q. (h + q) mod 2 ^ k"
  have nx: "next_slot (length hash) (?i q0) = ?i (Suc q0)"
    using Suc.prems(1) by (simp add: next_slot_pow2 mod_Suc_eq)
  have later: ?case
    if free: "hash ! ?i q0 \<noteq> Slot_free"
      and here: "\<And>c. hash ! ?i q0 = Slot_used c \<Longrightarrow> \<not> query_bytes_equal (cnd_id (items ! c)) v"
      and rec: "hash_probe items hash v (?i (Suc q0)) del' fuel = (r, False)"
      and del': "del' = (if hash ! ?i q0 = Slot_deleted \<and> del = None then Some (?i q0) else del)" for del'
  proof -
    note ih = Suc.IH[OF Suc.prems(1) rec]
    have up: "q0 \<le> q \<and> q < q0 + Suc fuel \<longleftrightarrow> q = q0 \<or> (Suc q0 \<le> q \<and> q < Suc q0 + fuel)" for q by auto
    have low: "(\<forall>q'. q0 \<le> q' \<and> q' < q \<longrightarrow> hash ! ?i q' \<noteq> Slot_free) \<longleftrightarrow>
        (\<forall>q'. Suc q0 \<le> q' \<and> q' < q \<longrightarrow> hash ! ?i q' \<noteq> Slot_free)" if "Suc q0 \<le> q" for q
      using free that by (metis Suc_le_eq order.order_iff_strict)
    have 1: "\<forall>q. q0 \<le> q \<and> q < q0 + Suc fuel \<longrightarrow> (\<forall>q'. q0 \<le> q' \<and> q' < q \<longrightarrow> hash ! ?i q' \<noteq> Slot_free) \<longrightarrow>
        (\<forall>c. hash ! ?i q = Slot_used c \<longrightarrow> \<not> query_bytes_equal (cnd_id (items ! c)) v)"
      unfolding up using ih here low by blast
    have used: "hash ! ?i q0 \<noteq> Slot_deleted \<Longrightarrow> \<exists>c. hash ! ?i q0 = Slot_used c"
      using free by (cases "hash ! ?i q0") auto
    have 2: "case r of
      None \<Rightarrow> del = None \<and> (\<forall>q. q0 \<le> q \<and> q < q0 + Suc fuel \<longrightarrow> (\<exists>c. hash ! ?i q = Slot_used c))
    | Some s \<Rightarrow> del = Some s \<or> (\<exists>q. q0 \<le> q \<and> q < q0 + Suc fuel \<and> s = ?i q \<and> (\<forall>c. hash ! s \<noteq> Slot_used c) \<and>
        (\<forall>q'. q0 \<le> q' \<and> q' < q \<longrightarrow> hash ! ?i q' \<noteq> Slot_free))"
    proof (cases r)
      case None
      then have "del' = None" "\<forall>q. Suc q0 \<le> q \<and> q < Suc q0 + fuel \<longrightarrow> (\<exists>c. hash ! ?i q = Slot_used c)" using ih by auto
      then show ?thesis using None used del' unfolding up by (auto split: if_splits)
    next
      case (Some s)
      then have "del' = Some s \<or> (\<exists>q. Suc q0 \<le> q \<and> q < Suc q0 + fuel \<and> s = ?i q \<and> (\<forall>c. hash ! s \<noteq> Slot_used c) \<and>
          (\<forall>q'. Suc q0 \<le> q' \<and> q' < q \<longrightarrow> hash ! ?i q' \<noteq> Slot_free))" using ih by simp
      then show ?thesis
      proof
        assume "del' = Some s"
        then show ?thesis using Some del' by (cases "del = Some s") (auto split: if_splits intro!: exI[of _ q0])
      next
        assume "\<exists>q. Suc q0 \<le> q \<and> q < Suc q0 + fuel \<and> s = ?i q \<and> (\<forall>c. hash ! s \<noteq> Slot_used c) \<and>
          (\<forall>q'. Suc q0 \<le> q' \<and> q' < q \<longrightarrow> hash ! ?i q' \<noteq> Slot_free)"
        then obtain q where "Suc q0 \<le> q" "q < Suc q0 + fuel" "s = ?i q" "\<forall>c. hash ! s \<noteq> Slot_used c"
          "\<forall>q'. Suc q0 \<le> q' \<and> q' < q \<longrightarrow> hash ! ?i q' \<noteq> Slot_free" by blast
        then show ?thesis unfolding Some option.case using low[of q] by (intro disjI2 exI[of _ q]) auto
      qed
    qed
    show ?thesis using 1 2 by blast
  qed
  show ?case
  proof (cases "hash ! ?i q0")
    case Slot_free
    then have r: "r = Some (case del of None \<Rightarrow> ?i q0 | Some d \<Rightarrow> d)" using Suc.prems(2) by simp
    have "\<not> query_bytes_equal (cnd_id (items ! c)) v"
      if "q0 \<le> q \<and> q < q0 + Suc fuel" "\<forall>q'. q0 \<le> q' \<and> q' < q \<longrightarrow> hash ! ?i q' \<noteq> Slot_free" "hash ! ?i q = Slot_used c"
      for q c
    proof -
      have "q = q0" using that(1,2) Slot_free by (metis order.order_iff_strict order.refl)
      with Slot_free that(3) show ?thesis by simp
    qed
    moreover have "case r of None \<Rightarrow> False | Some s \<Rightarrow> del = Some s \<or> s = ?i q0 \<and> (\<forall>c. hash ! s \<noteq> Slot_used c)"
      using r Slot_free by (cases del) auto
    ultimately show ?thesis by (cases r) (auto intro!: exI[of _ q0])
  next
    case (Slot_used c)
    then show ?thesis
      using Suc.prems(2) unfolding hash_probe.simps nx by (intro later[of del]) (auto split: if_splits)
  next
    case Slot_deleted
    then show ?thesis
      using Suc.prems(2) unfolding hash_probe.simps nx
      by (intro later[of "case del of None \<Rightarrow> Some (?i q0) | Some d \<Rightarrow> Some d"]) (auto split: option.splits)
  qed
qed

lemma stored_mono_path:
  assumes "slot_path hash v s" "\<forall>q. hash ! q \<noteq> Slot_free \<longrightarrow> hash[t := x] ! q \<noteq> Slot_free"
  shows "slot_path (hash[t := x]) v s"
  using assms by (auto simp: slot_path_def)

lemma update_not_free: "x \<noteq> Slot_free \<Longrightarrow> \<forall>q. hash ! q \<noteq> Slot_free \<longrightarrow> hash[t := x] ! q \<noteq> Slot_free"
  by (metis linorder_not_less list_update_beyond nth_list_update_eq nth_list_update_neq)

text \<open>What a probe answers for an identifier, among stored candidates with different identifiers.\<close>

lemma stored_probe:
  assumes st: "stored items hash C" and inj: "inj_on (\<lambda>c. cnd_id (items ! c)) C" and fin: "finite C" "card C < length hash"
    and v: "\<not> view_is_null v"
  shows "if v \<in> (\<lambda>c. cnd_id (items ! c)) ` C
    then \<exists>s c. hash_probe items hash v (candidate_start v (length hash)) None (length hash) = (Some s, True) \<and>
           s < length hash \<and> hash ! s = Slot_used c \<and> c \<in> C \<and> cnd_id (items ! c) = v
    else \<exists>s. hash_probe items hash v (candidate_start v (length hash)) None (length hash) = (Some s, False) \<and>
           s < length hash \<and> (\<forall>c. hash ! s \<noteq> Slot_used c) \<and> slot_path hash v s"
proof -
  obtain k where k: "length hash = 2 ^ k" using st by (auto simp: stored_def)
  let ?h = "candidate_start v (2 ^ k)"
  have h: "?h < 2 ^ k" by (rule candidate_start_less)
  obtain r b where rb: "hash_probe items hash v ?h None (2 ^ k) = (r, b)" by (cases "hash_probe items hash v ?h None (2 ^ k)")
  then have rb0: "hash_probe items hash v ((?h + 0) mod 2 ^ k) None (2 ^ k) = (r, b)" using h by simp
  have in_C: "c \<in> C" "slot_path hash (cnd_id (items ! c)) s" if "s < length hash" "hash ! s = Slot_used c" for s c
    using st that by (auto simp: stored_def)
  show ?thesis
  proof (cases b)
    case True
    obtain s c where s: "s < 2 ^ k" "r = Some s" "hash ! s = Slot_used c" "query_bytes_equal (cnd_id (items ! c)) v"
      using hash_probe_found[OF k, of items v ?h 0 None "2 ^ k" r] rb0 True by auto
    then have "cnd_id (items ! c) = v" "c \<in> C" using query_bytes_equal_iff[OF v] in_C k by auto
    moreover from this have "v \<in> (\<lambda>c. cnd_id (items ! c)) ` C" by auto
    ultimately show ?thesis using rb s True k by auto
  next
    case False
    note missing = hash_probe_missing[OF k, of items v ?h 0 None "2 ^ k" r, simplified]
    have m: "\<forall>q<2 ^ k. (\<forall>q'<q. hash ! ((?h + q') mod 2 ^ k) \<noteq> Slot_free) \<longrightarrow>
        (\<forall>c. hash ! ((?h + q) mod 2 ^ k) = Slot_used c \<longrightarrow> \<not> query_bytes_equal (cnd_id (items ! c)) v)"
      "case r of None \<Rightarrow> \<forall>q<2 ^ k. \<exists>c. hash ! ((?h + q) mod 2 ^ k) = Slot_used c
       | Some s \<Rightarrow> \<exists>q<2 ^ k. s = (?h + q) mod 2 ^ k \<and> (\<forall>c. hash ! s \<noteq> Slot_used c) \<and>
           (\<forall>q'<q. hash ! ((?h + q') mod 2 ^ k) \<noteq> Slot_free)"
      using missing rb0 False h by (auto split: option.splits)
    have absent: "v \<notin> (\<lambda>c. cnd_id (items ! c)) ` C"
    proof
      assume "v \<in> (\<lambda>c. cnd_id (items ! c)) ` C"
      then obtain c where c: "c \<in> C" "cnd_id (items ! c) = v" by auto
      then obtain s where s: "s < length hash" "hash ! s = Slot_used c" using st by (auto simp: stored_def)
      obtain p where p: "p < 2 ^ k" "s = (?h + p) mod 2 ^ k" "\<forall>q<p. hash ! ((?h + q) mod 2 ^ k) \<noteq> Slot_free"
        using in_C(2)[OF s] c(2) k by (auto simp: slot_path_def)
      have "\<not> query_bytes_equal (cnd_id (items ! c)) v" using m(1) p s(2) by blast
      with c(2) query_bytes_equal_iff[OF v] show False by simp
    qed
    have "r \<noteq> None"
    proof
      assume "r = None"
      then have all: "\<exists>c. hash ! s = Slot_used c" if "s < 2 ^ k" for s
        using m(2) mod_surj_from[OF h that] by auto
      define f where "f s = (THE c. hash ! s = Slot_used c)" for s
      have f: "hash ! s = Slot_used (f s)" if "s < 2 ^ k" for s
        using all[OF that] unfolding f_def by (metis (mono_tags, lifting) CANDIDATE_HASH_SLOT.inject theI_unique)
      have "inj_on f {..<2 ^ k}" using f st k by (intro inj_onI) (metis lessThan_iff stored_def)
      moreover have "f ` {..<2 ^ k} \<subseteq> C" using f in_C k by auto
      ultimately have "card {..<(2::nat) ^ k} \<le> card C" using fin(1) by (metis card_inj_on_le)
      with fin(2) k show False by simp
    qed
    then obtain s q where s: "r = Some s" "q < 2 ^ k" "s = (?h + q) mod 2 ^ k" "\<forall>c. hash ! s \<noteq> Slot_used c"
      "\<forall>q'<q. hash ! ((?h + q') mod 2 ^ k) \<noteq> Slot_free" using m(2) by auto
    have "slot_path hash v s" unfolding slot_path_def k using s(2,3,5) by blast
    moreover have "s < length hash" using s(3) k by simp
    ultimately show ?thesis using rb False s(1,4) absent k by auto
  qed
qed

lemma stored_insert:
  assumes st: "stored items hash C" and s: "s < length hash" "\<forall>c. hash ! s \<noteq> Slot_used c" "slot_path hash (cnd_id (items ! c)) s"
    and c: "c \<notin> C"
  shows "stored items (hash[s := Slot_used c]) (insert c C)"
proof -
  let ?H = "hash[s := Slot_used c]"
  note path = stored_mono_path[OF _ update_not_free[of "Slot_used c" hash s]]
  have old: "?H ! t = Slot_used d \<Longrightarrow> t = s \<and> d = c \<or> t \<noteq> s \<and> hash ! t = Slot_used d" for t d
    using s(1) by (cases "t = s") auto
  have keep: "hash ! t = Slot_used d \<Longrightarrow> ?H ! t = Slot_used d" for t d using s(2) by (cases "t = s") auto
  have C: "d \<in> C \<and> slot_path hash (cnd_id (items ! d)) t" if "t < length hash" "hash ! t = Slot_used d" for t d
    using st that by (auto simp: stored_def)
  show ?thesis
    unfolding stored_def length_list_update
  proof (intro conjI allI impI ballI)
    show "\<exists>k. length hash = 2 ^ k" using st by (simp add: stored_def)
    fix t d assume t: "t < length hash" "?H ! t = Slot_used d"
    show "d \<in> insert c C" using old[OF t(2)] C[OF t(1)] by auto
    show "slot_path ?H (cnd_id (items ! d)) t" using old[OF t(2)] C[OF t(1)] s(3) path by auto
  next
    fix d assume "d \<in> insert c C"
    then show "\<exists>t<length hash. ?H ! t = Slot_used d"
      using s(1) st keep by (cases "d = c") (auto simp: stored_def, blast)
  next
    fix t u d assume h: "t < length hash" "u < length hash" "?H ! t = Slot_used d" "?H ! u = Slot_used d"
    show "t = u" using old[OF h(3)] old[OF h(4)] C[OF h(1)] C[OF h(2)] c st h(1,2) unfolding stored_def by metis
  qed
qed

lemma stored_remove:
  assumes st: "stored items hash C" and s: "s < length hash" "hash ! s = Slot_used c"
  shows "stored items (hash[s := Slot_deleted]) (C - {c})"
proof -
  let ?H = "hash[s := Slot_deleted]"
  note path = stored_mono_path[OF _ update_not_free[of Slot_deleted hash s]]
  have old: "?H ! t = Slot_used d \<Longrightarrow> t \<noteq> s \<and> hash ! t = Slot_used d" for t d
    using s(1) by (cases "t = s") auto
  have one: "t = u" if "t < length hash" "u < length hash" "hash ! t = Slot_used d" "hash ! u = Slot_used d" for t u d
    using st that unfolding stored_def by blast
  have C: "d \<in> C \<and> slot_path hash (cnd_id (items ! d)) t" if "t < length hash" "hash ! t = Slot_used d" for t d
    using st that by (auto simp: stored_def)
  show ?thesis
    unfolding stored_def length_list_update
  proof (intro conjI allI impI ballI)
    show "\<exists>k. length hash = 2 ^ k" using st by (simp add: stored_def)
    fix t d assume t: "t < length hash" "?H ! t = Slot_used d"
    show "d \<in> C - {c}" using old[OF t(2)] C[OF t(1)] one[OF t(1) s(1)] s(2) by auto
    show "slot_path ?H (cnd_id (items ! d)) t" using old[OF t(2)] C[OF t(1)] path by auto
  next
    fix d assume d: "d \<in> C - {c}"
    then obtain t where "t < length hash" "hash ! t = Slot_used d" using st by (auto simp: stored_def)
    moreover from this d s(2) have "t \<noteq> s" by auto
    ultimately show "\<exists>t<length hash. ?H ! t = Slot_used d" by (intro exI[of _ t]) auto
  next
    fix t u d assume "t < length hash" "u < length hash" "?H ! t = Slot_used d" "?H ! u = Slot_used d"
    then show "t = u" using old one by metis
  qed
qed

lemma stored_items:
  assumes st: "stored items hash C" and eq: "\<forall>c\<in>C. cnd_id (items' ! c) = cnd_id (items ! c)"
  shows "stored items' hash C"
proof -
  have "c \<in> C \<and> slot_path hash (cnd_id (items' ! c)) s" if "s < length hash" "hash ! s = Slot_used c" for s c
    using st eq that by (auto simp: stored_def)
  with st show ?thesis by (auto simp: stored_def)
qed

subsection \<open>The invariant\<close>

definition cs_ok :: "'a score_ops \<Rightarrow> 'a CANDIDATE_SET \<Rightarrow> bool" where
  "cs_ok D cs \<longleftrightarrow> ordered D cs \<and> 0 < cs_capacity cs \<and> length (cs_items cs) \<le> cs_capacity cs \<and>
     cs_capacity cs * 2 \<le> length (cs_hash cs) \<and> (\<forall>c\<in>set (cs_items cs). rankable D c) \<and>
     distinct (map cnd_id (cs_items cs)) \<and> stored (cs_items cs) (cs_hash cs) {..<length (cs_items cs)}"

lemma linked_update:
  assumes "linked cs" "i < length (cs_items cs)"
  shows "linked (cs\<lparr>cs_items := (cs_items cs)[i := c]\<rparr>)"
    "heap_list (cs\<lparr>cs_items := (cs_items cs)[i := c]\<rparr>) = (heap_list cs)[cs_heap_positions cs ! i := c]"
proof -
  show "linked (cs\<lparr>cs_items := (cs_items cs)[i := c]\<rparr>)" using assms(1) by (simp add: linked_def)
  show "heap_list (cs\<lparr>cs_items := (cs_items cs)[i := c]\<rparr>) = (heap_list cs)[cs_heap_positions cs ! i := c]"
  proof (rule nth_equalityI)
    fix p assume "p < length (heap_list (cs\<lparr>cs_items := (cs_items cs)[i := c]\<rparr>))"
    then have p: "p < length (cs_items cs)" using assms(1) by (simp add: heap_list_def linked_def)
    have f: "cs_heap cs ! p < length (cs_items cs)" "cs_heap_positions cs ! (cs_heap cs ! p) = p"
      "cs_heap cs ! (cs_heap_positions cs ! i) = i" "length (cs_heap cs) = length (cs_items cs)"
      using assms p by (simp_all add: linked_def)
    then have "cs_heap cs ! p = i \<longleftrightarrow> p = cs_heap_positions cs ! i" by auto
    with f show "heap_list (cs\<lparr>cs_items := (cs_items cs)[i := c]\<rparr>) ! p = (heap_list cs)[cs_heap_positions cs ! i := c] ! p"
      using p assms(2) by (auto simp: heap_list_def nth_list_update)
  qed (simp add: heap_list_def)
qed

lemma linked_append:
  assumes "linked cs"
  shows "linked (cs\<lparr>cs_items := cs_items cs @ [c], cs_heap := cs_heap cs @ [length (cs_items cs)],
      cs_heap_positions := cs_heap_positions cs @ [length (cs_items cs)]\<rparr>)"
    "heap_list (cs\<lparr>cs_items := cs_items cs @ [c], cs_heap := cs_heap cs @ [length (cs_items cs)],
      cs_heap_positions := cs_heap_positions cs @ [length (cs_items cs)]\<rparr>) = heap_list cs @ [c]"
proof -
  let ?n = "length (cs_items cs)"
  have l: "length (cs_heap cs) = ?n" "length (cs_heap_positions cs) = ?n"
    "\<And>p. p < ?n \<Longrightarrow> cs_heap cs ! p < ?n \<and> cs_heap_positions cs ! (cs_heap cs ! p) = p"
    "\<And>i. i < ?n \<Longrightarrow> cs_heap_positions cs ! i < ?n \<and> cs_heap cs ! (cs_heap_positions cs ! i) = i"
    using assms by (auto simp: linked_def)
  show "linked (cs\<lparr>cs_items := cs_items cs @ [c], cs_heap := cs_heap cs @ [?n],
      cs_heap_positions := cs_heap_positions cs @ [?n]\<rparr>)"
    using l by (auto simp: linked_def nth_append less_Suc_eq)
  show "heap_list (cs\<lparr>cs_items := cs_items cs @ [c], cs_heap := cs_heap cs @ [?n],
      cs_heap_positions := cs_heap_positions cs @ [?n]\<rparr>) = heap_list cs @ [c]"
    using l by (auto simp: heap_list_def nth_append in_set_conv_nth intro!: map_cong)
qed

lemma ids_inj: "distinct (map cnd_id xs) \<Longrightarrow> inj_on (\<lambda>c. cnd_id (xs ! c)) {..<length xs}"
  by (auto simp: inj_on_def distinct_conv_nth)

lemma ids_image: "(\<lambda>c. cnd_id (xs ! c)) ` {..<length xs} = cnd_id ` set xs"
  by (auto simp: set_conv_nth)

lemma cs_ok_slot:
  assumes ok: "cs_ok D cs" and v: "\<not> view_is_null v"
  shows "if v \<in> cnd_id ` set (cs_items cs)
    then \<exists>s i. candidate_hash_slot cs v = (Some s, True) \<and> s < length (cs_hash cs) \<and> cs_hash cs ! s = Slot_used i \<and>
      i < length (cs_items cs) \<and> cnd_id (cs_items cs ! i) = v
    else \<exists>s. candidate_hash_slot cs v = (Some s, False)"
proof -
  let ?n = "length (cs_items cs)"
  have "finite {..<?n}" "card {..<?n} < length (cs_hash cs)" using ok by (auto simp: cs_ok_def)
  with stored_probe[of "cs_items cs" "cs_hash cs" "{..<?n}" v] ok v show ?thesis
    by (auto simp: cs_ok_def ids_inj ids_image candidate_hash_slot_def split: if_splits)
qed

text \<open>Storing a candidate that has no slot yet.\<close>

lemma candidate_hash_insert_ok:
  assumes st: "stored (cs_items cs) (cs_hash cs) C" and inj: "inj_on (\<lambda>c. cnd_id (cs_items cs ! c)) C"
    and fin: "finite C" "card C < length (cs_hash cs)" and i: "i \<notin> C"
    and v: "\<not> view_is_null (cnd_id (cs_items cs ! i))" "cnd_id (cs_items cs ! i) \<notin> (\<lambda>c. cnd_id (cs_items cs ! c)) ` C"
  obtains cs' where "candidate_hash_insert cs i = Some cs'" "cs_items cs' = cs_items cs" "cs_capacity cs' = cs_capacity cs"
    "cs_heap cs' = cs_heap cs" "cs_heap_positions cs' = cs_heap_positions cs" "length (cs_hash cs') = length (cs_hash cs)"
    "stored (cs_items cs) (cs_hash cs') (insert i C)"
proof -
  obtain s where s: "candidate_hash_slot cs (cnd_id (cs_items cs ! i)) = (Some s, False)" "s < length (cs_hash cs)"
    "\<forall>c. cs_hash cs ! s \<noteq> Slot_used c" "slot_path (cs_hash cs) (cnd_id (cs_items cs ! i)) s"
    using stored_probe[OF st inj fin v(1)] v(2) by (auto simp: candidate_hash_slot_def)
  show thesis
    by (rule that[of "cs\<lparr>cs_hash := (cs_hash cs)[s := Slot_used i]\<rparr>"])
       (use s stored_insert[OF st s(2-4) i] in \<open>simp_all add: candidate_hash_insert_def\<close>)
qed

lemma heap_list_cong:
  "cs_items cs' = cs_items cs \<Longrightarrow> cs_heap cs' = cs_heap cs \<Longrightarrow> heap_list cs' = heap_list cs"
  by (simp add: heap_list_def)

lemma linked_cong:
  "cs_items cs' = cs_items cs \<Longrightarrow> cs_heap cs' = cs_heap cs \<Longrightarrow> cs_heap_positions cs' = cs_heap_positions cs \<Longrightarrow>
     linked cs' = linked cs"
  by (simp add: linked_def)

text \<open>The candidate with identifier \<open>v\<close> at place \<open>i\<close> is replaced by a better one.\<close>

lemma replace_ok:
  assumes D: "rank_laws D" and o: "ordered D cs" and i: "i < length (cs_items cs)" and r: "\<forall>c\<in>set (cs_items cs). rankable D c"
    and c: "rankable D c" "candidate_better D c (cs_items cs ! i)"
    and cs': "cs_items cs' = (cs_items cs)[i := c]" "cs_heap cs' = cs_heap cs" "cs_heap_positions cs' = cs_heap_positions cs"
  shows "ordered D (candidate_heap_down D cs' (cs_heap_positions cs ! i))"
    "same_contents cs' (candidate_heap_down D cs' (cs_heap_positions cs ! i))"
proof -
  have l: "linked cs" and h: "heap_ordered (not_better D) (heap_list cs)" using o by (auto simp: ordered_def)
  let ?p = "cs_heap_positions cs ! i" and ?u = "cs\<lparr>cs_items := (cs_items cs)[i := c]\<rparr>"
  have p: "?p < length (cs_items cs)" "cs_heap cs ! ?p = i" using l i by (auto simp: linked_def)
  have l': "linked cs'" using linked_update(1)[OF l i, of c] linked_cong[of cs' ?u] cs' by simp
  have h': "heap_list cs' = (heap_list cs)[?p := c]" using linked_update(2)[OF l i, of c] heap_list_cong[of cs' ?u] cs' by simp
  have r': "\<forall>x\<in>set (cs_items cs'). rankable D x" using r c(1) cs'(1) by (auto dest: set_update_subset_insert[THEN subsetD])
  have old: "heap_list cs ! ?p = cs_items cs ! i" using heap_list_nth[OF l p(1)] p(2) by simp
  have "rankable D (cs_items cs ! i)" using r i by simp
  then have nb: "not_better D (heap_list cs ! ?p) c" unfolding old using better_asym[OF D c(1)] c(2) by blast
  have "down_heap (not_better D) (heap_list cs') ?p"
    unfolding h' by (rule candidate_heap.down_heap_change[OF h heap_carrier[OF D l r]]) (use D c(1) p(1) l nb in auto)
  then show "ordered D (candidate_heap_down D cs' ?p)" "same_contents cs' (candidate_heap_down D cs' ?p)"
    using heap_down_ordered[OF D l' r'] p(1) cs'(1) by auto
qed

lemma ids_update:
  "i < length xs \<Longrightarrow> distinct (map cnd_id xs) \<Longrightarrow> cnd_id c = cnd_id (xs ! i) \<or> cnd_id c \<notin> cnd_id ` set xs \<Longrightarrow>
     distinct (map cnd_id (xs[i := c]))"
  by (auto simp: map_update distinct_list_update)

text \<open>What adding a candidate does to the items.\<close>

lemma candidate_set_add_cases:
  assumes D: "rank_laws D" and ok: "cs_ok D cs" and c: "rankable D c"
  obtains (known) i cs' where "candidate_set_add D cs c = Some cs'" "cs_ok D cs'" "cs_capacity cs' = cs_capacity cs"
      "i < length (cs_items cs)" "cnd_id (cs_items cs ! i) = cnd_id c"
      "cs_items cs' = (if candidate_better D c (cs_items cs ! i) then (cs_items cs)[i := c] else cs_items cs)"
  | (room) cs' where "candidate_set_add D cs c = Some cs'" "cs_ok D cs'" "cs_capacity cs' = cs_capacity cs"
      "cnd_id c \<notin> cnd_id ` set (cs_items cs)" "length (cs_items cs) < cs_capacity cs" "cs_items cs' = cs_items cs @ [c]"
  | (full) i cs' where "candidate_set_add D cs c = Some cs'" "cs_ok D cs'" "cs_capacity cs' = cs_capacity cs"
      "cnd_id c \<notin> cnd_id ` set (cs_items cs)" "length (cs_items cs) = cs_capacity cs" "i < length (cs_items cs)"
      "\<forall>x\<in>set (cs_items cs). not_better D (cs_items cs ! i) x"
      "cs_items cs' = (if candidate_better D c (cs_items cs ! i) then (cs_items cs)[i := c] else cs_items cs)"
proof -
  let ?n = "length (cs_items cs)" and ?v = "cnd_id c"
  have v: "\<not> view_is_null ?v" using c by (simp add: rankable_def)
  have o: "ordered D cs" and cap: "0 < cs_capacity cs" "?n \<le> cs_capacity cs" "cs_capacity cs * 2 \<le> length (cs_hash cs)"
    and r: "\<forall>c\<in>set (cs_items cs). rankable D c" and dist: "distinct (map cnd_id (cs_items cs))"
    and st: "stored (cs_items cs) (cs_hash cs) {..<?n}" using ok by (auto simp: cs_ok_def)
  have l: "linked cs" using o by (simp add: ordered_def)
  have rc: "\<forall>x\<in>set ((cs_items cs)[i := c]). rankable D x" for i
    using r c by (auto dest: set_update_subset_insert[THEN subsetD])
  show thesis
  proof (cases "?v \<in> cnd_id ` set (cs_items cs)")
    case True
    then obtain s i where s: "candidate_hash_slot cs ?v = (Some s, True)" "cs_hash cs ! s = Slot_used i"
      "i < ?n" "cnd_id (cs_items cs ! i) = ?v" using cs_ok_slot[OF ok v] by auto
    show thesis
    proof (cases "candidate_better D c (cs_items cs ! i)")
      case False
      then show thesis using known[of cs i] s ok by (simp add: candidate_set_add_def)
    next
      case better: True
      let ?u = "cs\<lparr>cs_items := (cs_items cs)[i := c]\<rparr>"
      let ?cs = "candidate_heap_down D ?u (cs_heap_positions cs ! i)"
      have new: "ordered D ?cs" "same_contents ?u ?cs"
        using replace_ok[OF D o s(3) r c better, of ?u] by simp_all
      have "stored ((cs_items cs)[i := c]) (cs_hash cs) {..<?n}"
        by (rule stored_items[OF st]) (use s in \<open>auto simp: nth_list_update\<close>)
      then have "cs_ok D ?cs"
        using new cap rc ids_update[OF s(3) dist, of c] s(4) by (simp add: cs_ok_def same_contents_def)
      then show thesis
        using known[of ?cs i] s better new(2) by (simp add: candidate_set_add_def same_contents_def Let_def)
    qed
  next
    case False
    then obtain s where s: "candidate_hash_slot cs ?v = (Some s, False)" using cs_ok_slot[OF ok v] by auto
    show thesis
    proof (cases "?n < cs_capacity cs")
      case small: True
      let ?u = "cs\<lparr>cs_items := cs_items cs @ [c], cs_heap := cs_heap cs @ [?n], cs_heap_positions := cs_heap_positions cs @ [?n]\<rparr>"
      have st': "stored (cs_items ?u) (cs_hash ?u) {..<?n}" by simp (rule stored_items[OF st], simp add: nth_append)
      have inj: "inj_on (\<lambda>j. cnd_id (cs_items ?u ! j)) {..<?n}"
        using ids_inj[OF dist] by (auto simp: inj_on_def nth_append)
      have img: "(\<lambda>j. cnd_id (cs_items ?u ! j)) ` {..<?n} = cnd_id ` set (cs_items cs)"
        using ids_image[of "cs_items cs"] by (auto simp: nth_append image_iff)
      obtain w where w: "candidate_hash_insert ?u ?n = Some w" "cs_items w = cs_items ?u" "cs_capacity w = cs_capacity ?u"
        "cs_heap w = cs_heap ?u" "cs_heap_positions w = cs_heap_positions ?u" "length (cs_hash w) = length (cs_hash ?u)"
        "stored (cs_items ?u) (cs_hash w) (insert ?n {..<?n})"
        by (rule candidate_hash_insert_ok[OF st' inj, where i = ?n]) (use cap v False img in \<open>auto simp: nth_append\<close>)
      have lw: "linked w" using linked_append(1)[OF l, of c] linked_cong[of w ?u] w by simp
      have hw: "heap_list w = heap_list cs @ [c]" using linked_append(2)[OF l, of c] heap_list_cong[of w ?u] w by simp
      have up: "up_heap (not_better D) (heap_list w) ?n"
        using candidate_heap.up_heap_append[of D "heap_list cs" c] o l hw by (simp add: ordered_def)
      have new: "ordered D (candidate_heap_up D w ?n)" "same_contents w (candidate_heap_up D w ?n)"
        using heap_up_ordered[OF D lw _ _ up] w(2) r c by auto
      have "insert ?n {..<?n} = {..<Suc ?n}" by auto
      then have "cs_ok D (candidate_heap_up D w ?n)"
        using new w cap small r c dist False by (simp add: cs_ok_def same_contents_def)
      then show thesis
        using room[of "candidate_heap_up D w ?n"] s w new(2) small False
        by (simp add: candidate_set_add_def same_contents_def Let_def)
    next
      case big: False
      then have n: "?n = cs_capacity cs" "0 < ?n" using cap by auto
      let ?j = "cs_heap cs ! 0"
      have j: "?j < ?n" "cs_heap_positions cs ! ?j = 0" using l n(2) by (auto simp: linked_def)
      have worst: "\<forall>x\<in>set (cs_items cs). not_better D (cs_items cs ! ?j) x" using ordered_root[OF D o r] by blast
      show thesis
      proof (cases "candidate_better D c (cs_items cs ! ?j)")
        case no: False
        then show thesis using full[of cs ?j] s ok n j worst big False by (simp add: candidate_set_add_def)
      next
        case better: True
        have vj: "\<not> view_is_null (cnd_id (cs_items cs ! ?j))" using r j(1) by (simp add: rankable_def)
        obtain t i where t: "candidate_hash_slot cs (cnd_id (cs_items cs ! ?j)) = (Some t, True)" "t < length (cs_hash cs)"
          "cs_hash cs ! t = Slot_used i" "i < ?n" "cnd_id (cs_items cs ! i) = cnd_id (cs_items cs ! ?j)"
          using cs_ok_slot[OF ok vj] j(1) by (auto split: if_splits)
        have ij: "i = ?j" using ids_inj[OF dist] t(4,5) j(1) by (auto simp: inj_on_def)
        let ?u = "cs\<lparr>cs_hash := (cs_hash cs)[t := Slot_deleted], cs_items := (cs_items cs)[?j := c]\<rparr>"
        have "stored (cs_items cs) ((cs_hash cs)[t := Slot_deleted]) ({..<?n} - {?j})"
          using stored_remove[OF st t(2,3)] ij by simp
        then have st': "stored (cs_items ?u) (cs_hash ?u) ({..<?n} - {?j})"
          by simp (rule stored_items, auto simp: nth_list_update)
        have inj: "inj_on (\<lambda>k. cnd_id (cs_items ?u ! k)) ({..<?n} - {?j})"
          using ids_inj[OF dist] by (auto simp: inj_on_def nth_list_update)
        have img: "(\<lambda>k. cnd_id (cs_items ?u ! k)) ` ({..<?n} - {?j}) \<subseteq> cnd_id ` set (cs_items cs)"
          by (auto simp: nth_list_update)
        obtain w where w: "candidate_hash_insert ?u ?j = Some w" "cs_items w = cs_items ?u" "cs_capacity w = cs_capacity ?u"
          "cs_heap w = cs_heap ?u" "cs_heap_positions w = cs_heap_positions ?u" "length (cs_hash w) = length (cs_hash ?u)"
          "stored (cs_items ?u) (cs_hash w) (insert ?j ({..<?n} - {?j}))"
          by (rule candidate_hash_insert_ok[OF st' inj, where i = ?j]) (use cap n j v False img in auto)
        have new: "ordered D (candidate_heap_down D w 0)" "same_contents w (candidate_heap_down D w 0)"
          using replace_ok[OF D o j(1) r c better, of w] w j(2) by simp_all
        have "insert ?j ({..<?n} - {?j}) = {..<?n}" using j(1) by auto
        then have okw: "cs_ok D (candidate_heap_down D w 0)"
          using new w cap rc ids_update[OF j(1) dist, of c] False by (simp add: cs_ok_def same_contents_def)
        have rem: "candidate_hash_remove cs (cnd_id (cs_items cs ! ?j)) = cs\<lparr>cs_hash := (cs_hash cs)[t := Slot_deleted]\<rparr>"
          by (simp add: candidate_hash_remove_def t(1))
        have "candidate_set_add D cs c = Some (candidate_heap_down D w 0)"
          using s big better w(1) by (simp add: candidate_set_add_def rem Let_def)
        then show thesis
          using full[of "candidate_heap_down D w 0" ?j] okw n j worst better new(2) w False by (simp add: same_contents_def)
      qed
    qed
  qed
qed

subsection \<open>The best candidates\<close>

text \<open>
  What the set holds of the candidates \<open>added\<close> so far: candidates with different identifiers, each as good as any
  other one of its identifier; an identifier that is missing lost to a full set of better candidates.
\<close>

definition beats :: "'a score_ops \<Rightarrow> 'a CANDIDATE list \<Rightarrow> nat \<Rightarrow> 'a CANDIDATE \<Rightarrow> bool" where
  "beats D items k d \<longleftrightarrow> (\<exists>x\<in>set items. cnd_id x = cnd_id d \<and> not_better D d x) \<or>
     (cnd_id d \<notin> cnd_id ` set items \<and> length items = k \<and> (\<forall>x\<in>set items. candidate_better D x d))"

definition keeps_best :: "'a score_ops \<Rightarrow> nat \<Rightarrow> 'a CANDIDATE list \<Rightarrow> 'a CANDIDATE list \<Rightarrow> bool" where
  "keeps_best D k items added \<longleftrightarrow>
     distinct (map cnd_id items) \<and> set items \<subseteq> set added \<and> length items \<le> k \<and> (\<forall>d\<in>set added. beats D items k d)"

lemma set_update_ids:
  "distinct (map f xs) \<Longrightarrow> i < length xs \<Longrightarrow> set (xs[i := c]) = insert c (set xs - {xs ! i})"
  by (simp add: set_update_distinct distinct_map)

lemma beats_replace_known:
  assumes D: "rank_laws D" and r: "\<And>x. x \<in> set xs \<Longrightarrow> rankable D x" "rankable D c" "rankable D d"
    and dist: "distinct (map cnd_id xs)" and i: "i < length xs" "cnd_id (xs ! i) = cnd_id c"
    and better: "candidate_better D c (xs ! i)" and b: "beats D xs k d"
  shows "beats D (xs[i := c]) k d"
proof -
  have set: "set (xs[i := c]) = insert c (set xs - {xs ! i})"
    using dist i(1) by (rule set_update_ids)
  have ids: "cnd_id ` set (xs[i := c]) = cnd_id ` set xs"
    using i by (metis list.set_map list_update_id map_update)
  have xi: "xs ! i \<in> set xs" using i by simp
  from b consider (same) x where "x \<in> set xs" "cnd_id x = cnd_id d" "not_better D d x"
    | (lost) "cnd_id d \<notin> cnd_id ` set xs" "length xs = k" "\<forall>x\<in>set xs. candidate_better D x d"
    unfolding beats_def by blast
  then show ?thesis
  proof cases
    case same
    show ?thesis
    proof (cases "x = xs ! i")
      case True
      have "not_better D d c"
        using not_better_trans[OF D r(3) r(1)[OF xi] r(2)] same(3) better_asym[OF D r(2) r(1)[OF xi] better] True by blast
      moreover have "cnd_id c = cnd_id d" using same(2) i(2) True by simp
      ultimately show ?thesis unfolding beats_def set by blast
    next
      case False
      then show ?thesis using same unfolding beats_def set by blast
    qed
  next
    case lost
    have "candidate_better D c d" by (rule better_trans[OF D r(2) r(1)[OF xi] r(3) better]) (use lost(3) xi in blast)
    then have "\<forall>x\<in>set (xs[i := c]). candidate_better D x d" using lost(3) unfolding set by blast
    then show ?thesis using lost(1,2) ids unfolding beats_def by simp
  qed
qed

lemma beats_append:
  assumes "length xs < k" "cnd_id c \<notin> cnd_id ` set xs" "beats D xs k d"
  shows "beats D (xs @ [c]) k d"
  using assms by (auto simp: beats_def)

lemma beats_replace_worst:
  assumes D: "rank_laws D" and r: "\<And>x. x \<in> set xs \<Longrightarrow> rankable D x" "rankable D c" "rankable D d"
    and dist: "distinct (map cnd_id xs)" and i: "i < length xs" "length xs = k"
    and worst: "\<forall>x\<in>set xs. not_better D (xs ! i) x" and new: "cnd_id c \<notin> cnd_id ` set xs"
    and better: "candidate_better D c (xs ! i)" and b: "beats D xs k d"
  shows "beats D (xs[i := c]) k d"
proof -
  have set: "set (xs[i := c]) = insert c (set xs - {xs ! i})"
    using dist i(1) by (rule set_update_ids)
  have xi: "xs ! i \<in> set xs" using i by simp
  have inj: "x = y" if "x \<in> set xs" "y \<in> set xs" "cnd_id x = cnd_id y" for x y
    using dist that by (auto simp: distinct_map inj_on_def)
  have others: "candidate_better D x (xs ! i)" if "x \<in> set xs" "x \<noteq> xs ! i" for x
    using better_total[OF D r(1)[OF that(1)] r(1)[OF xi]] inj[OF that(1) xi] worst that by blast
  have below: "beats D (xs[i := c]) k d" if h: "not_better D d (xs ! i)" "cnd_id d \<notin> cnd_id ` (set xs - {xs ! i})"
  proof (cases "cnd_id d = cnd_id c")
    case True
    have "not_better D d c"
      by (rule not_better_trans[OF D r(3) r(1)[OF xi] r(2) h(1) better_asym[OF D r(2) r(1)[OF xi] better]])
    then show ?thesis using True unfolding beats_def set by auto
  next
    case False
    have "candidate_better D x d" if x: "x \<in> insert c (set xs - {xs ! i})" for x
    proof (rule ccontr)
      assume n: "not_better D x d"
      have rx: "rankable D x" using x r by auto
      have "not_better D x (xs ! i)" by (rule not_better_trans[OF D rx r(3) r(1)[OF xi] n h(1)])
      then show False using x others better by auto
    qed
    then show ?thesis using False h(2) i unfolding beats_def set by auto
  qed
  from b consider (same) x where "x \<in> set xs" "cnd_id x = cnd_id d" "not_better D d x"
    | (lost) "cnd_id d \<notin> cnd_id ` set xs" "\<forall>x\<in>set xs. candidate_better D x d"
    unfolding beats_def by blast
  then show ?thesis
  proof cases
    case same
    show ?thesis
    proof (cases "x = xs ! i")
      case True
      have "cnd_id d \<notin> cnd_id ` (set xs - {xs ! i})" using inj[OF _ same(1)] same(2) True by auto
      then show ?thesis using below same(3) True by simp
    next
      case False
      then show ?thesis using same unfolding beats_def set by blast
    qed
  next
    case lost
    have "not_better D d (xs ! i)" using better_asym[OF D r(1)[OF xi] r(3)] lost(2) xi by blast
    then show ?thesis using below lost(1) by blast
  qed
qed

lemma keeps_best_add:
  assumes D: "rank_laws D" and ok: "cs_ok D cs" and r: "rankable D c" "\<forall>d\<in>set added. rankable D d"
    and k: "keeps_best D (cs_capacity cs) (cs_items cs) added"
  shows "\<exists>cs'. candidate_set_add D cs c = Some cs' \<and> cs_ok D cs' \<and> cs_capacity cs' = cs_capacity cs \<and>
    keeps_best D (cs_capacity cs) (cs_items cs') (added @ [c])"
proof -
  let ?k = "cs_capacity cs" and ?xs = "cs_items cs"
  have dist: "distinct (map cnd_id ?xs)" and sub: "set ?xs \<subseteq> set added" and len: "length ?xs \<le> ?k"
    and old: "\<And>d. d \<in> set added \<Longrightarrow> beats D ?xs ?k d" using k by (auto simp: keeps_best_def)
  have rx: "\<And>x. x \<in> set ?xs \<Longrightarrow> rankable D x" using ok by (auto simp: cs_ok_def)
  have rd: "\<And>d. d \<in> set added \<Longrightarrow> rankable D d" using r by blast
  have irr: "not_better D c c" using better_asym[OF D r(1) r(1)] by blast
  have built: "keeps_best D ?k ys (added @ [c])"
    if "distinct (map cnd_id ys)" "set ys \<subseteq> insert c (set added)" "length ys \<le> ?k" "beats D ys ?k c"
      "\<And>d. d \<in> set added \<Longrightarrow> beats D ys ?k d" for ys
    using that by (auto simp: keeps_best_def)
  from D ok r(1) show ?thesis
  proof (cases rule: candidate_set_add_cases)
    case (known i cs')
    have "keeps_best D ?k (cs_items cs') (added @ [c])"
    proof (cases "candidate_better D c (?xs ! i)")
      case True
      have s: "set (?xs[i := c]) = insert c (set ?xs - {?xs ! i})" using dist known(4) by (rule set_update_ids)
      have "map cnd_id (?xs[i := c]) = map cnd_id ?xs" using known(4,5) by (simp add: map_update list_update_same_conv)
      moreover have "beats D (?xs[i := c]) ?k c" using irr unfolding beats_def s by blast
      ultimately show ?thesis
        using True known(6) built[of "?xs[i := c]"] dist len sub s
          beats_replace_known[OF D rx r(1) rd dist known(4,5) True old] by auto
    next
      case False
      have "beats D ?xs ?k c" using False known(4,5) unfolding beats_def by (blast intro: nth_mem)
      then show ?thesis using False known(6) built[of ?xs] dist len sub old by auto
    qed
    with known(1-3) show ?thesis by blast
  next
    case (room cs')
    have "beats D (?xs @ [c]) ?k c" using irr by (auto simp: beats_def)
    then have "keeps_best D ?k (cs_items cs') (added @ [c])"
      using room(4-6) built[of "?xs @ [c]"] dist sub beats_append[OF room(5,4) old] by auto
    with room(1-3) show ?thesis by blast
  next
    case (full i cs')
    have "keeps_best D ?k (cs_items cs') (added @ [c])"
    proof (cases "candidate_better D c (?xs ! i)")
      case True
      have s: "set (?xs[i := c]) = insert c (set ?xs - {?xs ! i})" using dist full(6) by (rule set_update_ids)
      have "distinct (map cnd_id (?xs[i := c]))" using ids_update[OF full(6) dist] full(4) by blast
      moreover have "beats D (?xs[i := c]) ?k c" using irr unfolding beats_def s by blast
      ultimately show ?thesis
        using True full(8) built[of "?xs[i := c]"] len sub s
          beats_replace_worst[OF D rx r(1) rd dist full(6,5,7,4) True old] by auto
    next
      case False
      have "candidate_better D x c" if x: "x \<in> set ?xs" for x
      proof (rule ccontr)
        assume n: "not_better D x c"
        have xi: "?xs ! i \<in> set ?xs" using full(6) by simp
        have "cnd_id x \<noteq> cnd_id c" using full(4) x by (metis image_eqI)
        then have "candidate_better D c x" using better_total[OF D rx[OF x] r(1)] n by blast
        moreover have "not_better D c x"
          by (rule not_better_trans[OF D r(1) rx[OF xi] rx[OF x] False]) (use full(7) x in blast)
        ultimately show False by simp
      qed
      then have "beats D ?xs ?k c" using full(4,5) unfolding beats_def by blast
      then show ?thesis using False full(8) built[of ?xs] dist len sub old by auto
    qed
    with full(1-3) show ?thesis by blast
  qed
qed

lemma keeps_best_add_all:
  assumes D: "rank_laws D"
  shows "cs_ok D cs \<Longrightarrow> \<forall>d\<in>set (added @ new). rankable D d \<Longrightarrow> keeps_best D (cs_capacity cs) (cs_items cs) added \<Longrightarrow>
    \<exists>cs'. candidate_set_add_all D cs new = Some cs' \<and> cs_ok D cs' \<and> cs_capacity cs' = cs_capacity cs \<and>
      keeps_best D (cs_capacity cs) (cs_items cs') (added @ new)"
proof (induction new arbitrary: cs added)
  case (Cons c new)
  have "rankable D c" "\<forall>d\<in>set added. rankable D d" using Cons.prems(2) by auto
  from keeps_best_add[OF D Cons.prems(1) this Cons.prems(3)] obtain u where
    u: "candidate_set_add D cs c = Some u" "cs_ok D u" "cs_capacity u = cs_capacity cs"
      "keeps_best D (cs_capacity u) (cs_items u) (added @ [c])" by auto
  from Cons.IH[OF u(2) _ u(4)] Cons.prems(2) u(1,3) show ?case by auto
qed auto

lemma candidate_set_init_ok:
  assumes "candidate_set_init mem capacity = Inr cs"
  shows "cs_ok D cs" "cs_items cs = []" "cs_capacity cs = capacity"
proof -
  obtain n where n: "slot_capacity_checked 1 capacity = Some n" "capacity \<noteq> 0"
    "cs = \<lparr>cs_items = [], cs_capacity = capacity, cs_heap = [], cs_heap_positions = [], cs_hash = replicate n Slot_free\<rparr>"
    using assms by (auto simp: candidate_set_init_def split: if_splits option.splits)
  have e: "n = slot_capacity 1 capacity" using checked_capacity[OF n(1)] .
  have "capacity * 2 \<le> n" unfolding e by (rule slot_capacity_ge) simp
  moreover have "\<exists>k. n = 2 ^ k" unfolding e using slot_capacity_pow2[of 0 capacity] by simp
  ultimately show "cs_ok D cs"
    using n(2) by (simp add: n(3) cs_ok_def ordered_def linked_def stored_def heap_list_def heap_ordered_def)
qed (use assms in \<open>auto simp: candidate_set_init_def split: if_splits option.splits\<close>)

lemma keeps_best_length:
  assumes "keeps_best D k items added" "0 < k"
  shows "length items = min k (card (cnd_id ` set added))"
proof -
  have d: "distinct (map cnd_id items)" and sub: "set items \<subseteq> set added" and len: "length items \<le> k"
    and b: "\<And>d. d \<in> set added \<Longrightarrow> beats D items k d" using assms by (auto simp: keeps_best_def)
  have c: "card (cnd_id ` set items) = length items" using distinct_card[OF d] by simp
  show ?thesis
  proof (cases "length items = k")
    case True
    have "card (cnd_id ` set items) \<le> card (cnd_id ` set added)" by (rule card_mono) (use sub in auto)
    then show ?thesis using True c by simp
  next
    case False
    have "cnd_id ` set items = cnd_id ` set added"
      using sub b False unfolding beats_def by (auto simp: image_iff) metis
    then show ?thesis using c len by simp
  qed
qed

lemma candidate_compare_le:
  assumes D: "rank_laws D" and r: "rankable D a" "rankable D b" "cnd_id a \<noteq> cnd_id b"
  shows "candidate_compare D a b \<le> 0 \<longleftrightarrow> candidate_better D a b"
proof -
  obtain x y where v: "cnd_id a = View x" "cnd_id b = View y" "x \<noteq> y"
    using r by (cases "cnd_id a"; cases "cnd_id b") (auto simp: rankable_def)
  have q: "query_bytes_compare (View x) (View y) \<le> 0 \<longleftrightarrow> x < y" using bytes_compare_order[of x y] v(3) by linarith
  have "sc_less D u w \<Longrightarrow> \<not> sc_less D w u" for u w using D by (auto simp: rank_laws_def score_laws_def)
  from this[of "cnd_score a" "cnd_score b"] show ?thesis
    unfolding candidate_better_iff[OF D r(1,2)] by (simp add: candidate_compare_def v q)
qed

text \<open>Sorting the candidates puts the better ones first.\<close>

lemma candidates_sorted:
  assumes D: "rank_laws D" and r: "\<forall>c\<in>set items. rankable D c" and d: "distinct (map cnd_id items)"
  shows "sorted_wrt (candidate_better D) (qsort_by (candidate_compare D) items)"
proof -
  let ?s = "qsort_by (candidate_compare D) items"
  have inj: "cnd_id x \<noteq> cnd_id y \<or> x = y" if "x \<in> set items" "y \<in> set items" for x y
    using d that by (auto simp: distinct_map inj_on_def)
  have le: "candidate_compare D x y \<le> 0 \<longleftrightarrow> candidate_better D x y \<or> x = y" if h: "x \<in> set items" "y \<in> set items" for x y
  proof (cases "x = y")
    case True
    have "query_bytes_compare (cnd_id x) (cnd_id x) = 0"
      using r h(1) bytes_compare_order(2) by (cases "cnd_id x") (auto simp: rankable_def)
    moreover have "\<not> sc_less D (cnd_score x) (cnd_score x)" using D by (auto simp: rank_laws_def score_laws_def)
    ultimately show ?thesis using True by (simp add: candidate_compare_def)
  next
    case False
    then show ?thesis using candidate_compare_le[OF D] r h inj[OF h] by blast
  qed
  have "sorted_wrt (\<lambda>x y. candidate_compare D x y \<le> 0) ?s"
  proof (rule sorted_qsort_by)
    show "candidate_compare D x y \<le> 0 \<or> candidate_compare D y x \<le> 0" if h: "x \<in> set items" "y \<in> set items" for x y
      using le[OF h] le[OF h(2,1)] better_total[OF D] r h inj[OF h] by blast
    show "candidate_compare D x z \<le> 0" if h: "x \<in> set items" "y \<in> set items" "z \<in> set items"
      "candidate_compare D x y \<le> 0" "candidate_compare D y z \<le> 0" for x y z
      using h(4,5) le[OF h(1,2)] le[OF h(2,3)] le[OF h(1,3)] better_trans[OF D, of x y z] r h(1-3) by blast
  qed
  moreover have ms: "mset ?s = mset items" by (rule mset_qsort_by)
  then have dist: "distinct (map cnd_id ?s)" and sets: "set ?s = set items"
    using d by (metis mset_map mset_eq_imp_distinct_iff, metis mset_eq_setD)
  ultimately have "sorted_wrt (\<lambda>x y. candidate_compare D x y \<le> 0 \<and> cnd_id x \<noteq> cnd_id y) ?s"
    by (intro sorted_wrt_distinct)
  then show ?thesis by (rule sorted_wrt_mono_rel[rotated]) (use sets le in auto)
qed

text \<open>
  C13. The bounded candidate set of a query. Whatever candidates are added, in whatever order, no addition writes
  outside the arrays, and sorting the set at the end gives the best candidates in their order: at most \<open>capacity\<close> of
  them, as many as there are identifiers when these fit, none of an identifier twice, each one as good as any added
  candidate of its identifier, and every added candidate of an identifier that is missing is worse than all of them.
  The hypotheses are the laws of comparing finite scores and that the scores are finite and the identifiers present.
\<close>

theorem candidate_set_keeps_best:
  assumes D: "rank_laws D" and r: "\<forall>c\<in>set added. rankable D c" and init: "candidate_set_init mem capacity = Inr fresh"
  shows "\<exists>result. candidate_set_add_all D fresh added = Some result \<and>
    (let best = qsort_by (candidate_compare D) (cs_items result) in
     length best = min capacity (card (cnd_id ` set added)) \<and> distinct (map cnd_id best) \<and> set best \<subseteq> set added \<and>
     sorted_wrt (candidate_better D) best \<and>
     (\<forall>d\<in>set added. (\<exists>x\<in>set best. cnd_id x = cnd_id d \<and> \<not> candidate_better D d x) \<or>
        cnd_id d \<notin> cnd_id ` set best \<and> (\<forall>x\<in>set best. candidate_better D x d)))"
proof -
  note e = candidate_set_init_ok(1)[OF init, of D] candidate_set_init_ok(2,3)[OF init]
  have "0 < capacity" using e(1,3) by (simp add: cs_ok_def)
  have "keeps_best D (cs_capacity fresh) (cs_items fresh) []" using e(2) by (simp add: keeps_best_def)
  from keeps_best_add_all[OF D e(1) _ this] r e(3) obtain result where
    result: "candidate_set_add_all D fresh added = Some result" "cs_ok D result" "keeps_best D capacity (cs_items result) added"
    by auto
  let ?best = "qsort_by (candidate_compare D) (cs_items result)"
  have ms: "mset ?best = mset (cs_items result)" by (rule mset_qsort_by)
  have sets: "set ?best = set (cs_items result)" "length ?best = length (cs_items result)"
    using ms by (metis mset_eq_setD, metis mset_eq_length)
  have "distinct (map cnd_id ?best)"
    using result(3) ms unfolding keeps_best_def by (metis mset_map mset_eq_imp_distinct_iff)
  moreover have "length ?best = min capacity (card (cnd_id ` set added))"
    unfolding sets by (rule keeps_best_length[OF result(3) \<open>0 < capacity\<close>])
  moreover have "sorted_wrt (candidate_better D) ?best"
    using candidates_sorted[OF D] result(2) by (simp add: cs_ok_def)
  moreover have "set ?best \<subseteq> set added" using result(3) sets by (simp add: keeps_best_def)
  moreover have "\<forall>d\<in>set added. (\<exists>x\<in>set ?best. cnd_id x = cnd_id d \<and> \<not> candidate_better D d x) \<or>
        cnd_id d \<notin> cnd_id ` set ?best \<and> (\<forall>x\<in>set ?best. candidate_better D x d)"
    using result(3) unfolding sets keeps_best_def beats_def by blast
  ultimately show ?thesis using result(1) by (auto simp: Let_def)
qed

definition sample_candidate :: "bytes \<Rightarrow> int \<Rightarrow> int CANDIDATE" where
  "sample_candidate key score = \<lparr>cnd_id = View key, cnd_parent = View key, cnd_segment = 0, cnd_ordinal = 0, cnd_score = score\<rparr>"

theorem candidate_set_keeps_best_witness:
  "\<exists>fresh result. candidate_set_init (\<lambda>_. True) 2 = Inr fresh \<and>
     candidate_set_add_all int_scores fresh
       [sample_candidate [97] 1, sample_candidate [98] 5, sample_candidate [97] 7, sample_candidate [99] 6] = Some result \<and>
     length (cs_items result) = 2"
proof -
  let ?cs = "[sample_candidate [97] 1, sample_candidate [98] 5, sample_candidate [97] 7, sample_candidate [99] 6]"
  have "slot_capacity_checked 1 2 = Some 4" by (simp add: slot_capacity_checked.simps)
  then obtain fresh where e: "candidate_set_init (\<lambda>_. True) 2 = Inr (fresh :: int CANDIDATE_SET)"
    by (simp add: candidate_set_init_def)
  have "\<forall>c\<in>set ?cs. rankable int_scores c" by (simp add: rankable_def sample_candidate_def int_scores_def)
  from candidate_set_keeps_best[OF int_scores_rank this e] obtain result where
    "candidate_set_add_all int_scores fresh ?cs = Some result"
    "length (qsort_by (candidate_compare int_scores) (cs_items result)) = min 2 (card (cnd_id ` set ?cs))"
    by (auto simp only: Let_def)
  moreover have "card (cnd_id ` set ?cs) = 3" by (simp add: sample_candidate_def insert_commute)
  moreover have "length (qsort_by (candidate_compare int_scores) (cs_items result)) = length (cs_items result)"
    by (rule mset_eq_length[OF mset_qsort_by])
  ultimately have "length (cs_items result) = 2" by simp
  then show ?thesis using e \<open>candidate_set_add_all int_scores fresh ?cs = Some result\<close> by blast
qed

end
