(* ===== verification/Lexical_Query.thy ===== *)
theory Lexical_Query
  imports Vector_Search Lexical_Search
begin

text \<open>
  The lexical search of \<open>query/yappo_lexical_search_v2.c\<close>: a query is tokenized into a plan, the plan is bound to the
  segments, and one segment is searched by walking the posting lists of the terms in step. \<open>B\<close> stands for the
  arithmetic of \<open>double\<close> (a literal is given as a fraction), \<open>tokenize\<close> for the tokenizer (ICU) and \<open>mem\<close> for the allocator. The array \<open>active\<close> of
  pointers into \<open>states\<close> is a list of indexes. Null checks of pointers that the callers always set are not modelled.
\<close>

subsection \<open>Data\<close>

record 'a bm25_ops =
  bm_score :: "'a score_ops"
  bm_of_u64 :: "u64 \<Rightarrow> 'a"
  bm_literal :: "nat \<Rightarrow> nat \<Rightarrow> 'a"
  bm_log1p :: "'a \<Rightarrow> 'a"

datatype YAP_V2_QUERY_OPERATOR = YAP_V2_QUERY_OR | YAP_V2_QUERY_AND | Query_operator_other int

record 'a YAP_V2_LEXICAL_SEARCH_OPTIONS =
  lso_object_type :: u32
  lso_query_operator :: YAP_V2_QUERY_OPERATOR
  lso_phrase :: bool
  lso_field_boost :: "'a list"
  lso_top_k :: nat
  lso_accept :: "(u32 \<Rightarrow> u64 \<Rightarrow> bool) option"

record 'a YAP_V2_LEXICAL_HIT =
  lht_object_type :: u32
  lht_object_ordinal :: u64
  lht_score :: 'a
  lht_matched_terms :: u32

record YAP_V2_LEXICAL_QUERY_PLAN =
  lqp_tokens :: YAP_V2_TOKEN_SEQUENCE
  lqp_terms :: "bytes list"
  lqp_token_terms :: "nat list"
  lqp_segments :: "YAP_V2_LEXICAL_SEGMENT option list option"
  lqp_segment_terms :: "YAP_V2_TERM_ENTRY option list option"
  lqp_type_frequency :: "(u64 \<times> u64) list option"

record YAP_V2_LEXICAL_CORPUS_STATS =
  lcs_document_count :: u64
  lcs_passage_count :: u64
  lcs_field_token_count :: "u64 list"

record TERM_STATE =
  ts_term :: "YAP_V2_TERM_ENTRY option"
  ts_postings :: "YAP_V2_POSTING list"
  ts_count :: nat
  ts_index :: nat
  ts_type_frequency :: "u64 list"
  ts_blocks :: "YAP_V2_POSTING_ITERATOR option"

definition sizeof_term_state :: nat where "sizeof_term_state = 88"
definition sizeof_posting :: nat where "sizeof_posting = 56"

abbreviation current_posting :: "TERM_STATE \<Rightarrow> YAP_V2_POSTING" where
  "current_posting state \<equiv> ts_postings state ! ts_index state"

subsection \<open>Scores\<close>

definition posting_key :: "YAP_V2_POSTING \<Rightarrow> u64" where
  "posting_key posting = push_bit 63 (ucast (po_object_type posting - 1)) OR po_object_ordinal posting"

definition hit_compare :: "'a bm25_ops \<Rightarrow> 'a YAP_V2_LEXICAL_HIT \<Rightarrow> 'a YAP_V2_LEXICAL_HIT \<Rightarrow> int" where
  "hit_compare B a b =
     (if \<not> sc_eq (bm_score B) (lht_score a) (lht_score b)
        then if sc_less (bm_score B) (lht_score b) (lht_score a) then - 1 else 1
      else if lht_object_type a \<noteq> lht_object_type b
        then if lht_object_type a < lht_object_type b then - 1 else 1
      else if lht_object_ordinal a \<noteq> lht_object_ordinal b
        then if lht_object_ordinal a < lht_object_ordinal b then - 1 else 1
      else 0)"

definition state_pointer_compare :: "TERM_STATE list \<Rightarrow> nat \<Rightarrow> nat \<Rightarrow> int" where
  "state_pointer_compare states left right =
     (let a_key = posting_key (current_posting (states ! left));
          b_key = posting_key (current_posting (states ! right)) in
      if a_key < b_key then - 1 else if a_key > b_key then 1 else 0)"

definition average_length :: "'a bm25_ops \<Rightarrow> YAP_V2_LEXICAL_CORPUS_STATS \<Rightarrow> u32 \<Rightarrow> nat \<Rightarrow> 'a" where
  "average_length B stats object_type field =
     (let objects = (if field = 2 then lcs_passage_count stats else lcs_document_count stats) in
      if (field = 2 \<and> object_type \<noteq> YAP_V2_LEXICAL_PASSAGE) \<or>
         (field \<noteq> 2 \<and> object_type \<noteq> YAP_V2_LEXICAL_DOCUMENT) \<or> objects = 0 then bm_literal B 10 10
      else if lcs_field_token_count stats ! field = 0 then bm_literal B 10 10
      else sc_div (bm_score B) (bm_of_u64 B (lcs_field_token_count stats ! field)) (bm_of_u64 B objects))"

definition idf_value :: "'a bm25_ops \<Rightarrow> u64 \<Rightarrow> u64 \<Rightarrow> 'a" where
  "idf_value B frequency objects =
     (let S = bm_score B in
      if frequency = 0 \<or> objects = 0 \<or> frequency > objects then sc_zero S
      else bm_log1p B (sc_div S
        (sc_add S (sc_sub S (bm_of_u64 B objects) (bm_of_u64 B frequency)) (bm_literal B 5 10))
        (sc_add S (bm_of_u64 B frequency) (bm_literal B 5 10))))"

text \<open>\<open>YAP_BM25_DEFAULT_K1\<close> and \<open>YAP_BM25_DEFAULT_B\<close>.\<close>

definition YAP_BM25_DEFAULT_K1 :: "'a bm25_ops \<Rightarrow> 'a" where "YAP_BM25_DEFAULT_K1 B = bm_literal B 12 10"
definition YAP_BM25_DEFAULT_B :: "'a bm25_ops \<Rightarrow> 'a" where "YAP_BM25_DEFAULT_B B = bm_literal B 75 100"

definition length_norm :: "'a bm25_ops \<Rightarrow> u32 \<Rightarrow> 'a \<Rightarrow> 'a" where
  "length_norm B field_length average =
     (let S = bm_score B in
      sc_add S (sc_sub S (bm_literal B 10 10) (YAP_BM25_DEFAULT_B B))
        (sc_mul S (YAP_BM25_DEFAULT_B B) (sc_div S (bm_of_u64 B (ucast field_length)) average)))"

definition saturated :: "'a bm25_ops \<Rightarrow> 'a \<Rightarrow> 'a \<Rightarrow> 'a" where
  "saturated B idf weighted_tf =
     (let S = bm_score B in
      sc_div S (sc_mul S idf (sc_mul S weighted_tf (sc_add S (YAP_BM25_DEFAULT_K1 B) (bm_literal B 10 10))))
        (sc_add S (YAP_BM25_DEFAULT_K1 B) weighted_tf))"

abbreviation objects_of :: "YAP_V2_LEXICAL_CORPUS_STATS \<Rightarrow> u32 \<Rightarrow> u64" where
  "objects_of stats object_type \<equiv>
     (if object_type = YAP_V2_LEXICAL_DOCUMENT then lcs_document_count stats else lcs_passage_count stats)"

abbreviation frequency_of :: "TERM_STATE \<Rightarrow> u32 \<Rightarrow> u64" where
  "frequency_of state object_type \<equiv> ts_type_frequency state ! unat (object_type - 1)"

definition posting_score ::
  "'a bm25_ops \<Rightarrow> YAP_V2_LEXICAL_CORPUS_STATS \<Rightarrow> TERM_STATE \<Rightarrow> YAP_V2_POSTING \<Rightarrow>
     'a YAP_V2_LEXICAL_SEARCH_OPTIONS \<Rightarrow> 'a" where
  "posting_score B stats state posting options =
     (let S = bm_score B;
          weighted_tf = fold (\<lambda>field w.
            if po_term_frequency posting ! field = 0 then w
            else sc_add S w (sc_div S
              (sc_mul S (lso_field_boost options ! field) (bm_of_u64 B (ucast (po_term_frequency posting ! field))))
              (length_norm B (po_field_length posting ! field) (average_length B stats (po_object_type posting) field))))
            [0, 1, 2] (sc_zero S) in
      if sc_less S weighted_tf (sc_zero S) \<or> sc_eq S weighted_tf (sc_zero S) then sc_zero S
      else saturated B (idf_value B (frequency_of state (po_object_type posting))
             (objects_of stats (po_object_type posting))) weighted_tf)"

definition block_upper_bound ::
  "'a bm25_ops \<Rightarrow> YAP_V2_LEXICAL_CORPUS_STATS \<Rightarrow> TERM_STATE \<Rightarrow> 'a YAP_V2_LEXICAL_SEARCH_OPTIONS \<Rightarrow> 'a" where
  "block_upper_bound B stats state options =
     (let S = bm_score B in
      case YAP_V2_posting_iterator_block (the (ts_blocks state)) (ts_index state div YAP_V2_POSTINGS_BLOCK_SIZE) of
        Inl status \<Rightarrow> sc_zero S
      | Inr block \<Rightarrow>
          fold (\<lambda>object_type best_score.
            if lso_object_type options \<noteq> 0 \<and> lso_object_type options \<noteq> object_type then best_score
            else
              (let best_weight = fold (\<lambda>field best_weight.
                     (let weight = sc_div S (lso_field_boost options ! field)
                        (length_norm B (blk_min_field_length block) (average_length B stats object_type field)) in
                      if sc_less S best_weight weight then weight else best_weight)) [0, 1, 2] (sc_zero S);
                   weighted_tf = sc_mul S best_weight (bm_of_u64 B (ucast (blk_max_term_frequency block)));
                   score = saturated B (idf_value B (frequency_of state object_type) (objects_of stats object_type)) weighted_tf in
               if sc_less S best_score score then score else best_score))
            [YAP_V2_LEXICAL_DOCUMENT, YAP_V2_LEXICAL_PASSAGE] (sc_zero S))"

subsection \<open>Walking a posting list\<close>

function state_skip_type :: "TERM_STATE \<Rightarrow> u32 \<Rightarrow> TERM_STATE" where
  "state_skip_type state object_type =
     (if ts_index state < ts_count state \<and> object_type \<noteq> 0 \<and> po_object_type (current_posting state) \<noteq> object_type
      then state_skip_type (state\<lparr>ts_index := ts_index state + 1\<rparr>) object_type
      else state)"
  by pat_completeness auto
termination
  by (relation "measure (\<lambda>(state, object_type). ts_count state - ts_index state)") auto

declare state_skip_type.simps [simp del]

lemma skip_type_index:
  "ts_index state \<le> ts_index (state_skip_type state t) \<and> ts_count (state_skip_type state t) = ts_count state"
proof (induction state t rule: state_skip_type.induct)
  case (1 state t)
  show ?case
  proof (cases "ts_index state < ts_count state \<and> t \<noteq> 0 \<and> po_object_type (current_posting state) \<noteq> t")
    case True
    then show ?thesis using 1 by (subst (1 2) state_skip_type.simps) simp
  next
    case False
    then show ?thesis by (subst (1 2) state_skip_type.simps) auto
  qed
qed

function state_advance_to :: "TERM_STATE \<Rightarrow> u64 \<Rightarrow> u32 \<Rightarrow> TERM_STATE" where
  "state_advance_to state key object_type =
     (let state = state_skip_type (state\<lparr>ts_index := ts_index state + 1\<rparr>) object_type in
      if ts_index state < ts_count state \<and> posting_key (current_posting state) < key
      then state_advance_to state key object_type
      else state)"
  by pat_completeness auto
termination
proof (relation "measure (\<lambda>(state, key, object_type). ts_count state - ts_index state)", goal_cases)
  case (2 state key object_type x)
  then show ?case
    using skip_type_index[of "state\<lparr>ts_index := ts_index state + 1\<rparr>" object_type] by auto
qed simp

declare state_advance_to.simps [simp del]

subsection \<open>Phrases\<close>

text \<open>The innermost loop; \<open>None\<close> when a position cannot be read.\<close>

fun find_position ::
  "YAP_V2_LEXICAL_SEGMENT \<Rightarrow> YAP_V2_TERM_ENTRY \<Rightarrow> YAP_V2_POSTING \<Rightarrow> YAP_V2_POSITION \<Rightarrow> nat \<Rightarrow> nat \<Rightarrow> nat \<Rightarrow> bool option" where
  "find_position segment trm posting base q p 0 = Some False"
| "find_position segment trm posting base q p (Suc rest) =
     (case YAP_V2_posting_position_at segment trm posting p of
        Inl status \<Rightarrow> None
      | Inr position \<Rightarrow>
          if pos_field position = pos_field base \<and> unat (pos_position position) = unat (pos_position base) + q
          then Some True
          else find_position segment trm posting base q (Suc p) rest)"

fun match_tokens ::
  "YAP_V2_LEXICAL_SEGMENT \<Rightarrow> TERM_STATE list \<Rightarrow> YAP_V2_POSITION \<Rightarrow> nat \<Rightarrow> nat list \<Rightarrow> bool option" where
  "match_tokens segment states base q [] = Some True"
| "match_tokens segment states base q (i # rest) =
     (let state = states ! i; posting = current_posting state in
      case find_position segment (the (ts_term state)) posting base q 0 (unat (po_position_count posting)) of
        None \<Rightarrow> None
      | Some False \<Rightarrow> Some False
      | Some True \<Rightarrow> match_tokens segment states base (Suc q) rest)"

fun match_bases ::
  "YAP_V2_LEXICAL_SEGMENT \<Rightarrow> TERM_STATE list \<Rightarrow> nat list \<Rightarrow> nat \<Rightarrow> nat \<Rightarrow> bool" where
  "match_bases segment states tokens i 0 = False"
| "match_bases segment states tokens i (Suc rest) =
     (let state = states ! hd tokens in
      case YAP_V2_posting_position_at segment (the (ts_term state)) (current_posting state) i of
        Inl status \<Rightarrow> False
      | Inr base \<Rightarrow>
          (case match_tokens segment states base 1 (tl tokens) of
             None \<Rightarrow> False
           | Some True \<Rightarrow> True
           | Some False \<Rightarrow> match_bases segment states tokens (Suc i) rest))"

definition phrase_matches ::
  "YAP_V2_LEXICAL_SEGMENT \<Rightarrow> TERM_STATE list \<Rightarrow> YAP_V2_LEXICAL_QUERY_PLAN \<Rightarrow> u64 \<Rightarrow> bool" where
  "phrase_matches segment states plan key =
     (if \<exists>i\<in>set (lqp_token_terms plan).
           ts_index (states ! i) \<ge> ts_count (states ! i) \<or> posting_key (current_posting (states ! i)) \<noteq> key
      then False
      else match_bases segment states (lqp_token_terms plan) 0
             (unat (po_position_count (current_posting (states ! hd (lqp_token_terms plan))))))"

subsection \<open>The hits kept\<close>

definition hit_threshold :: "'a bm25_ops \<Rightarrow> 'a YAP_V2_LEXICAL_HIT list \<Rightarrow> nat \<Rightarrow> 'a" where
  "hit_threshold B hits top_k =
     (if length hits < top_k then sc_zero (bm_score B)
      else fold (\<lambda>hit minimum. if sc_less (bm_score B) (lht_score hit) minimum then lht_score hit else minimum)
             (tl hits) (lht_score (hd hits)))"

definition worst_hit :: "'a bm25_ops \<Rightarrow> 'a YAP_V2_LEXICAL_HIT list \<Rightarrow> nat" where
  "worst_hit B hits =
     fold (\<lambda>i worst. if hit_compare B (hits ! i) (hits ! worst) > 0 then i else worst) [1..<length hits] 0"

definition add_hit ::
  "'a bm25_ops \<Rightarrow> nat \<Rightarrow> 'a YAP_V2_LEXICAL_HIT list \<Rightarrow> 'a YAP_V2_LEXICAL_HIT \<Rightarrow> 'a YAP_V2_LEXICAL_HIT list" where
  "add_hit B top_k hits hit =
     (if length hits < top_k then hits @ [hit]
      else
        (let worst = worst_hit B hits in
         if hit_compare B hit (hits ! worst) < 0 then hits[worst := hit] else hits))"

definition YAP_V2_lexical_search_options_init :: "'a bm25_ops \<Rightarrow> 'a YAP_V2_LEXICAL_SEARCH_OPTIONS" where
  "YAP_V2_lexical_search_options_init B =
     \<lparr>lso_object_type = 0, lso_query_operator = YAP_V2_QUERY_OR, lso_phrase = False,
      lso_field_boost = [bm_literal B 20 10, bm_literal B 10 10, bm_literal B 10 10], lso_top_k = 20, lso_accept = None\<rparr>"

subsection \<open>Plans\<close>

definition YAP_V2_lexical_query_plan_init :: YAP_V2_LEXICAL_QUERY_PLAN where
  "YAP_V2_lexical_query_plan_init =
     \<lparr>lqp_tokens = \<lparr>seq_normalized_utf8 = [], seq_tokens = []\<rparr>, lqp_terms = [], lqp_token_terms = [],
      lqp_segments = None, lqp_segment_terms = None, lqp_type_frequency = None\<rparr>"

fun index_in :: "bytes \<Rightarrow> bytes list \<Rightarrow> nat" where
  "index_in value [] = 0"
| "index_in value (t # ts) = (if length t = length value \<and> memcmp t value = 0 then 0 else Suc (index_in value ts))"

definition add_term :: "bytes \<Rightarrow> bytes list \<times> nat list \<Rightarrow> bytes list \<times> nat list" where
  "add_term value = (\<lambda>(terms, token_terms).
     (let existing = index_in value terms in
      (if existing = length terms then terms @ [value] else terms, token_terms @ [existing])))"

definition token_bytes :: "bytes \<Rightarrow> YAP_V2_TOKEN \<Rightarrow> bytes" where
  "token_bytes normalized token =
     take (size_sub (tok_byte_end token) (tok_byte_start token)) (drop (tok_byte_start token) normalized)"

definition YAP_V2_lexical_query_plan_prepare ::
  "(nat \<Rightarrow> bool) \<Rightarrow> tokenizer \<Rightarrow> YAP_V2_BYTES_VIEW \<Rightarrow> YAP_V2_LEXICAL_QUERY_PLAN outcome" where
  "YAP_V2_lexical_query_plan_prepare mem tokenize query =
     (if view_is_null query \<or> view_len query = 0 then Inl YAP_V2_INVALID_ARGUMENT
      else rbind (tokenize (view_bytes query)) (\<lambda>tokens.
        let plan = YAP_V2_lexical_query_plan_init\<lparr>lqp_tokens := tokens\<rparr>; n = length (seq_tokens tokens) in
        if n = 0 then Inr plan
        else if \<not> mem (n * 16) \<or> \<not> mem (n * 8) then Inl YAP_V2_ALLOCATION_FAILED
        else
          (let (terms, token_terms) =
             fold (\<lambda>token. add_term (token_bytes (seq_normalized_utf8 tokens) token)) (seq_tokens tokens) ([], []) in
           Inr (plan\<lparr>lqp_terms := terms, lqp_token_terms := token_terms\<rparr>))))"

definition query_plan_valid :: "YAP_V2_LEXICAL_QUERY_PLAN \<Rightarrow> bool" where
  "query_plan_valid plan =
     (let tokens = length (seq_tokens (lqp_tokens plan)); terms = length (lqp_terms plan) in
      if tokens = 0 then terms = 0
      else \<not> (terms = 0 \<or> terms > tokens) \<and> list_all (\<lambda>t. length t \<noteq> 0) (lqp_terms plan) \<and>
           list_all (\<lambda>i. i < terms) (take tokens (lqp_token_terms plan)))"

definition add_frequency ::
  "YAP_V2_LEXICAL_SEGMENT \<Rightarrow> YAP_V2_TERM_ENTRY \<Rightarrow> u32 \<Rightarrow> u64 \<Rightarrow> u64 outcome" where
  "add_frequency segment trm object_type total_frequency =
     rbind (YAP_V2_lexical_term_type_frequency segment trm object_type) (\<lambda>frequency.
       if unat total_frequency > SIZE_MAX - unat frequency then Inl YAP_V2_OUT_OF_RANGE
       else Inr (total_frequency + frequency))"

fun bind_terms ::
  "YAP_V2_LEXICAL_SEGMENT \<Rightarrow> bytes list \<Rightarrow> (u64 \<times> u64) list \<Rightarrow> (YAP_V2_TERM_ENTRY option list \<times> (u64 \<times> u64) list) outcome" where
  "bind_terms segment (t # ts) ((documents, passages) # totals) =
     (case YAP_V2_lexical_term_find segment (View t) of
        None \<Rightarrow>
          rbind (bind_terms segment ts totals) (\<lambda>(entries, totals). Inr (None # entries, (documents, passages) # totals))
      | Some trm \<Rightarrow>
          rbind (add_frequency segment trm YAP_V2_LEXICAL_DOCUMENT documents) (\<lambda>documents.
          rbind (add_frequency segment trm YAP_V2_LEXICAL_PASSAGE passages) (\<lambda>passages.
          rbind (bind_terms segment ts totals) (\<lambda>(entries, totals). Inr (Some trm # entries, (documents, passages) # totals)))))"
| "bind_terms segment _ totals = Inr ([], totals)"

fun bind_segments ::
  "bytes list \<Rightarrow> YAP_V2_LEXICAL_SEGMENT option list \<Rightarrow> (u64 \<times> u64) list \<Rightarrow>
     (YAP_V2_TERM_ENTRY option list \<times> (u64 \<times> u64) list) outcome" where
  "bind_segments terms [] totals = Inr ([], totals)"
| "bind_segments terms (None # segments) totals =
     rbind (bind_segments terms segments totals) (\<lambda>(entries, totals). Inr (replicate (length terms) None @ entries, totals))"
| "bind_segments terms (Some segment # segments) totals =
     rbind (bind_terms segment terms totals) (\<lambda>(entries, totals).
     rbind (bind_segments terms segments totals) (\<lambda>(rest, totals). Inr (entries @ rest, totals)))"

definition YAP_V2_lexical_query_plan_bind ::
  "(nat \<Rightarrow> bool) \<Rightarrow> YAP_V2_LEXICAL_QUERY_PLAN \<Rightarrow> YAP_V2_LEXICAL_SEGMENT option list \<Rightarrow> YAP_V2_LEXICAL_QUERY_PLAN outcome" where
  "YAP_V2_lexical_query_plan_bind mem plan segments =
     (let term_count = length (lqp_terms plan); segment_count = length segments in
      if \<not> query_plan_valid plan \<or> segment_count = 0 then Inl YAP_V2_INVALID_ARGUMENT
      else if term_count = 0
        then if \<not> mem (segment_count * 8) then Inl YAP_V2_ALLOCATION_FAILED
             else Inr (plan\<lparr>lqp_segments := Some segments, lqp_segment_terms := None, lqp_type_frequency := None\<rparr>)
      else if segment_count > SIZE_MAX div term_count then Inl YAP_V2_OUT_OF_RANGE
      else if \<not> mem (segment_count * 8) \<or> \<not> mem (segment_count * term_count * 8) \<or> \<not> mem (term_count * 8)
        then Inl YAP_V2_ALLOCATION_FAILED
      else rbind (bind_segments (lqp_terms plan) segments (replicate term_count (0, 0))) (\<lambda>(entries, totals).
        Inr (plan\<lparr>lqp_segments := Some segments, lqp_segment_terms := Some entries, lqp_type_frequency := Some totals\<rparr>)))"

subsection \<open>Searching a segment\<close>

text \<open>\<open>calloc\<close> clears the array of postings, and a failing iterator would leave the rest of it so.\<close>

definition zero_posting :: YAP_V2_POSTING where
  "zero_posting = \<lparr>po_object_type = 0, po_object_ordinal = 0, po_term_frequency = [0, 0, 0], po_field_length = [0, 0, 0],
     po_position_offset = 0, po_position_count = 0\<rparr>"

fun read_postings :: "nat \<Rightarrow> YAP_V2_POSTING_ITERATOR \<Rightarrow> YAP_V2_POSTING list \<times> YAP_V2_POSTING_ITERATOR" where
  "read_postings 0 it = ([], it)"
| "read_postings (Suc n) it =
     (case YAP_V2_posting_iterator_next it of
        Inl status \<Rightarrow> (let (postings, it) = read_postings n it in (zero_posting # postings, it))
      | Inr (posting, it) \<Rightarrow> (let (postings, it) = read_postings n it in (posting # postings, it)))"

definition null_state :: TERM_STATE where
  "null_state = \<lparr>ts_term = None, ts_postings = [], ts_count = 0, ts_index = 0, ts_type_frequency = [0, 0], ts_blocks = None\<rparr>"

definition term_state :: "YAP_V2_LEXICAL_SEGMENT \<Rightarrow> YAP_V2_TERM_ENTRY \<Rightarrow> u64 \<times> u64 \<Rightarrow> TERM_STATE" where
  "term_state segment trm frequency =
     (let df = unat (te_document_frequency trm); (postings, it) = read_postings df (YAP_V2_posting_iterator_init segment trm) in
      \<lparr>ts_term = Some trm, ts_postings = postings, ts_count = df, ts_index = 0,
       ts_type_frequency = [fst frequency, snd frequency], ts_blocks = Some (it\<lparr>pit_index := 0\<rparr>)\<rparr>)"

text \<open>The states of the terms; \<open>Inr None\<close> when a required term is not in the segment.\<close>

fun init_states ::
  "(nat \<Rightarrow> bool) \<Rightarrow> YAP_V2_LEXICAL_SEGMENT \<Rightarrow> bool \<Rightarrow> YAP_V2_TERM_ENTRY option list \<Rightarrow> (u64 \<times> u64) list \<Rightarrow>
     TERM_STATE list option outcome" where
  "init_states mem segment required (None # entries) (frequency # totals) =
     (if required then Inr None
      else rbind (init_states mem segment required entries totals) (\<lambda>states. Inr (map_option ((#) null_state) states)))"
| "init_states mem segment required (Some trm # entries) (frequency # totals) =
     (if \<not> mem (unat (te_document_frequency trm) * sizeof_posting) then Inl YAP_V2_ALLOCATION_FAILED
      else rbind (init_states mem segment required entries totals) (\<lambda>states.
        Inr (map_option ((#) (term_state segment trm frequency)) states)))"
| "init_states mem segment required _ _ = Inr (Some [])"

abbreviation state_key :: "TERM_STATE list \<Rightarrow> nat \<Rightarrow> u64" where
  "state_key states i \<equiv> posting_key (current_posting (states ! i))"

definition active_states :: "TERM_STATE list \<Rightarrow> nat list" where
  "active_states states =
     filter (\<lambda>i. ts_term (states ! i) \<noteq> None \<and> ts_index (states ! i) < ts_count (states ! i)) [0..<length states]"

definition advance_lower :: "u64 \<Rightarrow> u32 \<Rightarrow> nat list \<Rightarrow> TERM_STATE list \<Rightarrow> TERM_STATE list" where
  "advance_lower key object_type =
     fold (\<lambda>i states. if state_key states i < key then states[i := state_advance_to (states ! i) key object_type] else states)"

definition advance_all :: "u64 \<Rightarrow> u32 \<Rightarrow> nat list \<Rightarrow> TERM_STATE list \<Rightarrow> TERM_STATE list" where
  "advance_all key object_type = fold (\<lambda>i states. states[i := state_advance_to (states ! i) key object_type])"

fun find_pivot ::
  "'a bm25_ops \<Rightarrow> YAP_V2_LEXICAL_CORPUS_STATS \<Rightarrow> 'a YAP_V2_LEXICAL_SEARCH_OPTIONS \<Rightarrow> TERM_STATE list \<Rightarrow> 'a \<Rightarrow>
     nat list \<Rightarrow> nat \<Rightarrow> 'a \<Rightarrow> nat" where
  "find_pivot B stats options states threshold [] pivot bound = pivot"
| "find_pivot B stats options states threshold (i # rest) pivot bound =
     (let S = bm_score B; bound = sc_add S bound (block_upper_bound B stats (states ! i) options) in
      if (sc_less S threshold bound \<or> sc_eq S bound threshold) \<and> sc_less S (sc_zero S) bound then pivot
      else find_pivot B stats options states threshold rest (Suc pivot) bound)"

definition score_active ::
  "'a bm25_ops \<Rightarrow> YAP_V2_LEXICAL_CORPUS_STATS \<Rightarrow> 'a YAP_V2_LEXICAL_SEARCH_OPTIONS \<Rightarrow> u64 \<Rightarrow> nat list \<Rightarrow>
     TERM_STATE list \<times> 'a \<times> u32 \<Rightarrow> TERM_STATE list \<times> 'a \<times> u32" where
  "score_active B stats options pivot_key =
     fold (\<lambda>i (states, score, matched_terms).
       if state_key states i = pivot_key
       then (states[i := state_advance_to (states ! i) (pivot_key + 1) (lso_object_type options)],
             sc_add (bm_score B) score (posting_score B stats (states ! i) (current_posting (states ! i)) options),
             matched_terms + 1)
       else (states, score, matched_terms))"

definition strict_search :: "'a YAP_V2_LEXICAL_SEARCH_OPTIONS \<Rightarrow> bool" where
  "strict_search options \<longleftrightarrow> lso_query_operator options = YAP_V2_QUERY_AND \<or> lso_phrase options"

definition evaluate_pivot ::
  "'a bm25_ops \<Rightarrow> YAP_V2_LEXICAL_SEGMENT \<Rightarrow> YAP_V2_LEXICAL_QUERY_PLAN \<Rightarrow> YAP_V2_LEXICAL_CORPUS_STATS \<Rightarrow>
     'a YAP_V2_LEXICAL_SEARCH_OPTIONS \<Rightarrow> nat \<Rightarrow> nat list \<Rightarrow> u64 \<Rightarrow> TERM_STATE list \<times> 'a YAP_V2_LEXICAL_HIT list \<Rightarrow>
     TERM_STATE list \<times> 'a YAP_V2_LEXICAL_HIT list" where
  "evaluate_pivot B segment plan stats options state_count active pivot_key = (\<lambda>(states, hits).
     (let phrase_ok = (\<not> lso_phrase options \<or> phrase_matches segment states plan pivot_key);
          posting = current_posting (states ! hd active);
          (states, score, matched_terms) = score_active B stats options pivot_key active (states, sc_zero (bm_score B), 0);
          hit = \<lparr>lht_object_type = po_object_type posting, lht_object_ordinal = po_object_ordinal posting,
                 lht_score = score, lht_matched_terms = matched_terms\<rparr> in
      (states,
       if phrase_ok \<and> (lso_query_operator options = YAP_V2_QUERY_OR \<or> unat matched_terms = state_count) \<and>
          (case lso_accept options of None \<Rightarrow> True
           | Some accept \<Rightarrow> accept (lht_object_type hit) (lht_object_ordinal hit)) \<and>
          sc_less (bm_score B) (sc_zero (bm_score B)) score
       then add_hit B (lso_top_k options) hits hit else hits)))"

text \<open>One round of the loop, \<open>None\<close> when it is left.\<close>

definition search_step ::
  "'a bm25_ops \<Rightarrow> YAP_V2_LEXICAL_SEGMENT \<Rightarrow> YAP_V2_LEXICAL_QUERY_PLAN \<Rightarrow> YAP_V2_LEXICAL_CORPUS_STATS \<Rightarrow>
     'a YAP_V2_LEXICAL_SEARCH_OPTIONS \<Rightarrow> nat \<Rightarrow> TERM_STATE list \<times> 'a YAP_V2_LEXICAL_HIT list \<Rightarrow>
     (TERM_STATE list \<times> 'a YAP_V2_LEXICAL_HIT list) option" where
  "search_step B segment plan stats options state_count = (\<lambda>(states, hits).
     (let active = active_states states; object_type = lso_object_type options in
      if active = [] \<or> (strict_search options \<and> length active < state_count) then None
      else
        (let active = qsort_by (state_pointer_compare states) active;
             first_key = state_key states (hd active);
             evaluate = (\<lambda>key. evaluate_pivot B segment plan stats options state_count active key (states, hits)) in
         if strict_search options
         then
           (let pivot_key = state_key states (last active) in
            if first_key \<noteq> pivot_key then Some (advance_lower pivot_key object_type (butlast active) states, hits)
            else Some (evaluate pivot_key))
         else
           (let pivot = find_pivot B stats options states (hit_threshold B hits (lso_top_k options)) active 0
                          (sc_zero (bm_score B)) in
            if pivot = length active
            then
              (let state = states ! hd active in
               Some (states[hd active := state_skip_type (state\<lparr>ts_index := ts_index state + 1\<rparr>) object_type], hits))
            else
              (let pivot_key = state_key states (active ! pivot) in
               if first_key \<noteq> pivot_key then Some (advance_all pivot_key object_type (take pivot active) states, hits)
               else Some (evaluate pivot_key))))))"

end
