(* ===== verification/Lexical_Walk.thy ===== *)
theory Lexical_Walk
  imports Lexical_Query
begin

text \<open>
  The loop of the lexical search ends, since every round moves at least one posting list forward; with it the
  search of one segment, \<open>YAP_V2_lexical_search_prepared\<close> and \<open>YAP_V2_lexical_search\<close>.
\<close>

subsection \<open>Every round moves forward\<close>

lemma advance_to_index:
  "ts_index state < ts_index (state_advance_to state key t) \<and> ts_count (state_advance_to state key t) = ts_count state"
proof (induction state key t rule: state_advance_to.induct)
  case (1 state key t)
  let ?s = "state_skip_type (state\<lparr>ts_index := ts_index state + 1\<rparr>) t"
  have s: "ts_index state < ts_index ?s" "ts_count ?s = ts_count state"
    using skip_type_index[of "state\<lparr>ts_index := ts_index state + 1\<rparr>" t] by auto
  show ?case
  proof (cases "ts_index ?s < ts_count ?s \<and> posting_key (current_posting ?s) < key")
    case True
    then show ?thesis using 1[OF refl True] s by (subst (1 2) state_advance_to.simps) (simp add: Let_def)
  next
    case False
    then show ?thesis using s by (subst (1 2) state_advance_to.simps) (auto simp: Let_def)
  qed
qed

definition walked :: "TERM_STATE \<Rightarrow> TERM_STATE \<Rightarrow> bool" where
  "walked s s' \<longleftrightarrow> ts_count s' = ts_count s \<and> ts_index s \<le> ts_index s'"

definition pending :: "TERM_STATE list \<Rightarrow> nat" where
  "pending states = (\<Sum>s\<leftarrow>states. ts_count s - ts_index s)"

lemma walked_refl [simp]: "walked s s"
  by (simp add: walked_def)

lemma walked_advance [simp]: "walked s (state_advance_to s key t)"
  using advance_to_index[of s key t] by (simp add: walked_def)

lemma walked_all_trans: "list_all2 walked xs ys \<Longrightarrow> list_all2 walked ys zs \<Longrightarrow> list_all2 walked xs zs"
  by (rule list_all2_trans[where ?P1.0 = walked and ?P2.0 = walked]) (auto simp: walked_def)

lemma walked_all_refl [simp]: "list_all2 walked xs xs"
  by (simp add: list_all2_refl)

lemma walked_update: "walked (xs ! i) s \<Longrightarrow> list_all2 walked xs (xs[i := s])"
  unfolding list_all2_conv_all_nth by (metis length_list_update nth_list_update_eq nth_list_update_neq walked_refl)

lemma pending_mono: "list_all2 walked xs ys \<Longrightarrow> pending ys \<le> pending xs"
proof (induction rule: list_all2_induct)
  case (Cons x xs y ys)
  then show ?case unfolding pending_def walked_def by auto
qed simp

lemma pending_less:
  assumes "list_all2 walked xs ys" "i < length xs" "ts_index (xs ! i) < ts_count (xs ! i)" "ts_index (xs ! i) < ts_index (ys ! i)"
  shows "pending ys < pending xs"
  using assms
proof (induction arbitrary: i rule: list_all2_induct)
  case (Cons x xs y ys)
  show ?case
  proof (cases i)
    case 0
    then show ?thesis using Cons.prems pending_mono[OF Cons.hyps(2)] Cons.hyps(1) unfolding pending_def walked_def by auto
  next
    case (Suc j)
    then have "pending ys < pending xs" using Cons.IH[of j] Cons.prems by simp
    then show ?thesis using Cons.hyps(1) unfolding pending_def walked_def by auto
  qed
qed simp

text \<open>A loop over different lists that replaces some of them by later states.\<close>

lemma walk_fold:
  assumes f: "\<And>i states. i < length states \<Longrightarrow> f i states = states \<or> (\<exists>s. f i states = states[i := s] \<and> walked (states ! i) s)"
  shows "\<forall>i\<in>set is'. i < length states \<Longrightarrow> list_all2 walked states (fold f is' states)"
proof (induction is' arbitrary: states)
  case (Cons i is')
  have w: "list_all2 walked states (f i states)" using f[of i states] Cons.prems walked_update by fastforce
  moreover have "list_all2 walked (f i states) (fold f is' (f i states))"
    using Cons.prems list_all2_lengthD[OF w] by (intro Cons.IH) auto
  ultimately show ?case using walked_all_trans by simp
qed simp

lemma walk_lower: "\<forall>i\<in>set is'. i < length states \<Longrightarrow> list_all2 walked states (advance_lower key t is' states)"
  unfolding advance_lower_def by (rule walk_fold) (metis walked_advance)

lemma walk_all: "\<forall>i\<in>set is'. i < length states \<Longrightarrow> list_all2 walked states (advance_all key t is' states)"
  unfolding advance_all_def by (rule walk_fold) (metis walked_advance)

lemma score_active_states:
  "fst (score_active B stats options key is' (states, score, n)) =
     fold (\<lambda>i states. if state_key states i = key
       then states[i := state_advance_to (states ! i) (key + 1) (lso_object_type options)] else states) is' states"
  unfolding score_active_def by (induction is' arbitrary: states score n) auto

lemma walk_score:
  "\<forall>i\<in>set is'. i < length states \<Longrightarrow> list_all2 walked states (fst (score_active B stats options key is' (states, score, n)))"
  unfolding score_active_states by (rule walk_fold) (metis walked_advance)

lemma active_bounds: "i \<in> set (active_states states) \<Longrightarrow> i < length states \<and> ts_index (states ! i) < ts_count (states ! i)"
  by (simp add: active_states_def)

lemma sorted_active:
  "sorted_wrt (\<lambda>i j. state_key states i \<le> state_key states j) (qsort_by (state_pointer_compare states) xs)"
proof -
  have "sorted_wrt (\<lambda>i j. state_pointer_compare states i j \<le> 0) (qsort_by (state_pointer_compare states) xs)"
    by (rule sorted_qsort_by) (auto simp: state_pointer_compare_def Let_def split: if_splits)
  then show ?thesis by (rule sorted_wrt_mono_rel[rotated]) (auto simp: state_pointer_compare_def Let_def split: if_splits)
qed

lemma fold_first_moves:
  assumes f: "\<And>i states. i < length states \<Longrightarrow> f i states = states \<or> (\<exists>s. f i states = states[i := s] \<and> walked (states ! i) s)"
    and i: "i < length states" "\<forall>j\<in>set is'. j < length states"
    and first: "ts_index (states ! i) < ts_index (f i states ! i)"
  shows "ts_index (states ! i) < ts_index (fold f (i # is') states ! i)"
proof -
  have l: "length (f i states) = length states" using f[OF i(1)] by auto
  have "list_all2 walked (f i states) (fold f is' (f i states))" using i(2) l by (intro walk_fold[OF f]) auto
  then have "ts_index (f i states ! i) \<le> ts_index (fold f is' (f i states) ! i)"
    using i(1) l by (auto simp: list_all2_conv_all_nth walked_def)
  with first show ?thesis by simp
qed

lemma evaluate_moves:
  assumes a: "\<forall>i\<in>set active. i < length states" "active \<noteq> []" and k: "state_key states (hd active) = key"
  shows "list_all2 walked states (fst (evaluate_pivot B segment plan stats options n active key (states, hits)))"
    "ts_index (states ! hd active) < ts_index (fst (evaluate_pivot B segment plan stats options n active key (states, hits)) ! hd active)"
proof -
  have e: "fst (evaluate_pivot B segment plan stats options n active key (states, hits)) =
      fst (score_active B stats options key active (states, sc_zero (bm_score B), 0))"
    by (simp add: evaluate_pivot_def Let_def split: prod.splits)
  show "list_all2 walked states (fst (evaluate_pivot B segment plan stats options n active key (states, hits)))"
    unfolding e by (rule walk_score[OF a(1)])
  obtain i rest where i: "active = i # rest" using a(2) by (cases active) auto
  show "ts_index (states ! hd active) < ts_index (fst (evaluate_pivot B segment plan stats options n active key (states, hits)) ! hd active)"
    unfolding e score_active_states unfolding i list.sel
    by (rule fold_first_moves, metis walked_advance) (use a(1) i k advance_to_index in auto)
qed

abbreviation ordered_active :: "TERM_STATE list \<Rightarrow> nat list" where
  "ordered_active states \<equiv> qsort_by (state_pointer_compare states) (active_states states)"

lemma search_step_end:
  "active_states states = [] \<or> strict_search options \<and> length (active_states states) < n \<Longrightarrow>
   search_step B segment plan stats options n (states, hits) = None"
  by (simp add: search_step_def Let_def)

lemma search_step_strict:
  assumes "strict_search options" "active_states states \<noteq> []" "n \<le> length (active_states states)"
  shows "search_step B segment plan stats options n (states, hits) =
    (let A = ordered_active states; key = state_key states (last A) in
     if state_key states (hd A) \<noteq> key then Some (advance_lower key (lso_object_type options) (butlast A) states, hits)
     else Some (evaluate_pivot B segment plan stats options n A key (states, hits)))"
  using assms by (simp add: search_step_def Let_def)

lemma search_step_lax:
  assumes "\<not> strict_search options" "active_states states \<noteq> []"
  shows "search_step B segment plan stats options n (states, hits) =
    (let A = ordered_active states;
         p = find_pivot B stats options states (hit_threshold B hits (lso_top_k options)) A 0 (sc_zero (bm_score B)) in
     if p = length A
     then Some (states[hd A := state_skip_type ((states ! hd A)\<lparr>ts_index := ts_index (states ! hd A) + 1\<rparr>)
            (lso_object_type options)], hits)
     else if state_key states (hd A) \<noteq> state_key states (A ! p)
       then Some (advance_all (state_key states (A ! p)) (lso_object_type options) (take p A) states, hits)
     else Some (evaluate_pivot B segment plan stats options n A (state_key states (A ! p)) (states, hits)))"
  using assms by (simp add: search_step_def Let_def)

lemma search_step_walks:
  assumes step: "search_step B segment plan stats options n (states, hits) = Some (states', hits')"
  shows "pending states' < pending states"
proof -
  let ?A = "qsort_by (state_pointer_compare states) (active_states states)"
  have ne: "active_states states \<noteq> []" using step by (auto simp: search_step_def Let_def)
  have set: "set ?A = set (active_states states)" by (rule set_qsort_by)
  then have A: "?A \<noteq> []" using ne by auto
  obtain i rest where i: "?A = i # rest" using A by (cases ?A) auto
  have b: "\<forall>j\<in>set ?A. j < length states" and ib: "i < length states" "ts_index (states ! i) < ts_count (states ! i)"
    using active_bounds set i by auto
  have hdA: "hd ?A = i" by (simp only: i list.sel)
  have srt: "\<forall>j\<in>set rest. state_key states i \<le> state_key states j" using sorted_active[of states "active_states states"] i by simp
  have fin: "pending states' < pending states"
    if "list_all2 walked states states'" "ts_index (states ! i) < ts_index (states' ! i)"
    using pending_less[OF that(1) ib(1,2) that(2)] .
  show ?thesis
  proof (cases "strict_search options")
    case strict: True
    then have n: "n \<le> length (active_states states)" using step search_step_end[of states options n B segment plan stats hits] by (cases "n \<le> length (active_states states)") auto
    show ?thesis
    proof (cases "state_key states i = state_key states (last ?A)")
      case True
      then have "(states', hits') = evaluate_pivot B segment plan stats options n ?A (state_key states (last ?A)) (states, hits)"
        using step search_step_strict[OF strict ne n, of B segment plan stats hits] by (auto simp: hdA Let_def)
      then have e: "states' = fst (evaluate_pivot B segment plan stats options n ?A (state_key states (last ?A)) (states, hits))"
        by (metis fst_conv)
      show ?thesis by (rule fin, unfold e) (rule evaluate_moves[OF b A, unfolded hdA], rule True)+
    next
      case False
      then have s': "states' = advance_lower (state_key states (last ?A)) (lso_object_type options) (butlast ?A) states"
        using step search_step_strict[OF strict ne n, of B segment plan stats hits] by (auto simp: hdA Let_def)
      have "rest \<noteq> []" using False i by auto
      then have last: "last ?A \<in> set rest" "butlast ?A = i # butlast rest" using i by auto
      then have less: "state_key states i < state_key states (last ?A)" using srt False by (metis order_le_less)
      have bb: "\<forall>j\<in>set (butlast ?A). j < length states" using b by (auto dest: in_set_butlastD)
      show ?thesis
      proof (rule fin)
        show "list_all2 walked states states'" unfolding s' by (rule walk_lower[OF bb])
        show "ts_index (states ! i) < ts_index (states' ! i)"
          unfolding s' advance_lower_def last(2)
          by (rule fold_first_moves, metis walked_advance) (use bb last(2) less advance_to_index ib in auto)
      qed
    qed
  next
    case lax: False
    let ?p = "find_pivot B stats options states (hit_threshold B hits (lso_top_k options)) ?A 0 (sc_zero (bm_score B))"
    let ?s = "state_skip_type ((states ! i)\<lparr>ts_index := ts_index (states ! i) + 1\<rparr>) (lso_object_type options)"
    have sk: "ts_index (states ! i) < ts_index ?s" "walked (states ! i) ?s"
      using skip_type_index[of "(states ! i)\<lparr>ts_index := ts_index (states ! i) + 1\<rparr>" "lso_object_type options"]
      by (auto simp: walked_def)
    consider (none) "?p = length ?A" | (eval) "?p \<noteq> length ?A" "state_key states i = state_key states (?A ! ?p)"
      | (move) "?p \<noteq> length ?A" "state_key states i \<noteq> state_key states (?A ! ?p)" by blast
    then show ?thesis
    proof cases
      case none
      then have s': "states' = states[i := ?s]" using step search_step_lax[OF lax ne, of B segment plan stats n hits] by (auto simp: hdA Let_def)
      show ?thesis by (rule fin) (use s' sk ib walked_update in auto)
    next
      case eval
      then have "(states', hits') = evaluate_pivot B segment plan stats options n ?A (state_key states (?A ! ?p)) (states, hits)"
        using step search_step_lax[OF lax ne, of B segment plan stats n hits] by (auto simp: hdA Let_def)
      then have e: "states' = fst (evaluate_pivot B segment plan stats options n ?A (state_key states (?A ! ?p)) (states, hits))"
        by (metis fst_conv)
      show ?thesis by (rule fin, unfold e) (rule evaluate_moves[OF b A, unfolded hdA], rule eval(2))+
    next
      case move
      then have s': "states' = advance_all (state_key states (?A ! ?p)) (lso_object_type options) (take ?p ?A) states"
        using step search_step_lax[OF lax ne, of B segment plan stats n hits] by (auto simp: hdA Let_def)
      have p: "?p \<noteq> 0" using move(2) i by (metis nth_Cons_0)
      then have tk: "take ?p ?A = i # take (?p - 1) rest" using i by (simp add: take_Cons')
      have bt: "\<forall>j\<in>set (take ?p ?A). j < length states" using b by (auto dest: in_set_takeD)
      show ?thesis
      proof (rule fin)
        show "list_all2 walked states states'" unfolding s' by (rule walk_all[OF bt])
        show "ts_index (states ! i) < ts_index (states' ! i)"
          unfolding s' advance_all_def tk
          by (rule fold_first_moves, metis walked_advance) (use bt tk advance_to_index ib in auto)
      qed
    qed
  qed
qed

subsection \<open>The loop and the search\<close>

function search_loop ::
  "'a bm25_ops \<Rightarrow> YAP_V2_LEXICAL_SEGMENT \<Rightarrow> YAP_V2_LEXICAL_QUERY_PLAN \<Rightarrow> YAP_V2_LEXICAL_CORPUS_STATS \<Rightarrow>
     'a YAP_V2_LEXICAL_SEARCH_OPTIONS \<Rightarrow> nat \<Rightarrow> TERM_STATE list \<times> 'a YAP_V2_LEXICAL_HIT list \<Rightarrow> 'a YAP_V2_LEXICAL_HIT list" where
  "search_loop B segment plan stats options state_count config =
     (case search_step B segment plan stats options state_count config of
        None \<Rightarrow> snd config
      | Some config \<Rightarrow> search_loop B segment plan stats options state_count config)"
  by pat_completeness auto
termination
proof (relation "measure (\<lambda>(B, segment, plan, stats, options, state_count, config). pending (fst config))", goal_cases)
  case (2 B segment plan stats options state_count config x)
  then show ?case using search_step_walks by (cases config; cases x) auto
qed simp

declare search_loop.simps [simp del]

definition YAP_V2_lexical_search_prepared ::
  "(nat \<Rightarrow> bool) \<Rightarrow> 'a bm25_ops \<Rightarrow> YAP_V2_LEXICAL_QUERY_PLAN \<Rightarrow> nat \<Rightarrow> YAP_V2_LEXICAL_CORPUS_STATS \<Rightarrow>
     'a YAP_V2_LEXICAL_SEARCH_OPTIONS \<Rightarrow> nat \<Rightarrow> 'a YAP_V2_LEXICAL_HIT list outcome" where
  "YAP_V2_lexical_search_prepared mem B plan segment_index stats options hit_capacity =
     (let S = bm_score B; term_count = length (lqp_terms plan) in
      if \<not> query_plan_valid plan \<or> lso_top_k options = 0 \<or> lso_top_k options > hit_capacity \<or>
         (lso_object_type options \<noteq> 0 \<and> lso_object_type options \<noteq> YAP_V2_LEXICAL_DOCUMENT \<and>
          lso_object_type options \<noteq> YAP_V2_LEXICAL_PASSAGE) \<or>
         (lso_query_operator options \<noteq> YAP_V2_QUERY_OR \<and> lso_query_operator options \<noteq> YAP_V2_QUERY_AND) \<or>
         \<not> list_all (\<lambda>boost. sc_isfinite S boost \<and> \<not> sc_less S boost (sc_zero S)) (lso_field_boost options)
        then Inl YAP_V2_INVALID_ARGUMENT
      else if seq_tokens (lqp_tokens plan) = [] then Inr []
      else case (lqp_segments plan, lqp_segment_terms plan, lqp_type_frequency plan) of
        (Some segments, Some entries, Some totals) \<Rightarrow>
          if segment_index \<ge> length segments then Inl YAP_V2_INVALID_ARGUMENT
          else (case segments ! segment_index of
             None \<Rightarrow> Inl YAP_V2_INVALID_ARGUMENT
           | Some segment \<Rightarrow>
               if \<not> list_all (\<lambda>(documents, passages).
                      documents \<le> lcs_document_count stats \<and> passages \<le> lcs_passage_count stats) totals
                 then Inl YAP_V2_CONFLICT
               else if \<not> mem (term_count * sizeof_term_state) \<or> \<not> mem (term_count * 8) then Inl YAP_V2_ALLOCATION_FAILED
               else rbind (init_states mem segment (strict_search options)
                      (take term_count (drop (segment_index * term_count) entries)) totals) (\<lambda>result.
                 case result of None \<Rightarrow> Inr []
                 | Some states \<Rightarrow>
                     (let state_count = length (filter (\<lambda>s. ts_term s \<noteq> None) states) in
                      if state_count = 0 then Inr []
                      else
                        (let states = map (\<lambda>s. if ts_term s \<noteq> None then state_skip_type s (lso_object_type options) else s) states in
                         Inr (qsort_by (hit_compare B) (search_loop B segment plan stats options state_count (states, [])))))))
      | _ \<Rightarrow> Inl YAP_V2_INVALID_ARGUMENT)"

definition YAP_V2_lexical_search ::
  "(nat \<Rightarrow> bool) \<Rightarrow> tokenizer \<Rightarrow> 'a bm25_ops \<Rightarrow> YAP_V2_LEXICAL_SEGMENT option \<Rightarrow> YAP_V2_BYTES_VIEW \<Rightarrow>
     'a YAP_V2_LEXICAL_SEARCH_OPTIONS \<Rightarrow> nat \<Rightarrow> 'a YAP_V2_LEXICAL_HIT list outcome" where
  "YAP_V2_lexical_search mem tokenize B segment query options hit_capacity =
     (let stats = (case segment of
           None \<Rightarrow> \<lparr>lcs_document_count = 0, lcs_passage_count = 0, lcs_field_token_count = [0, 0, 0]\<rparr>
         | Some seg \<Rightarrow> \<lparr>lcs_document_count = lx_document_count seg, lcs_passage_count = lx_passage_count seg,
             lcs_field_token_count = lx_field_token_count seg\<rparr>) in
      rbind (YAP_V2_lexical_query_plan_prepare mem tokenize query) (\<lambda>plan.
      rbind (YAP_V2_lexical_query_plan_bind mem plan [segment]) (\<lambda>plan.
        YAP_V2_lexical_search_prepared mem B plan 0 stats options hit_capacity)))"

end
