(* ===== verification/Lexical_Exact.thy ===== *)
theory Lexical_Exact
  imports Lexical_Walk
begin

text \<open>
  What the lexical search finds. The posting lists still to be walked determine the rest of the result: a search that
  requires all terms visits exactly the objects that all lists share, and a search for any term visits every object of
  every list as long as no more than \<open>top_k\<close> of them are there.
\<close>

subsection \<open>What is left of a posting list\<close>

definition key_type :: "u64 \<Rightarrow> u32" where
  "key_type k = (if bit k 63 then YAP_V2_LEXICAL_PASSAGE else YAP_V2_LEXICAL_DOCUMENT)"

definition key_ordinal :: "u64 \<Rightarrow> u64" where
  "key_ordinal k = k AND mask 63"

definition wanted :: "u32 \<Rightarrow> YAP_V2_POSTING \<Rightarrow> bool" where
  "wanted t p \<longleftrightarrow> t = 0 \<or> po_object_type p = t"

definition remaining :: "u32 \<Rightarrow> TERM_STATE \<Rightarrow> YAP_V2_POSTING list" where
  "remaining t s = filter (wanted t) (drop (ts_index s) (ts_postings s))"

definition walkable :: "TERM_STATE \<Rightarrow> bool" where
  "walkable s \<longleftrightarrow> ts_count s = length (ts_postings s) \<and>
     sorted_wrt (\<lambda>p q. posting_key p < posting_key q) (ts_postings s) \<and>
     (\<forall>p\<in>set (ts_postings s). posting_key p < - 1 \<and> key_type (posting_key p) = po_object_type p \<and>
        key_ordinal (posting_key p) = po_object_ordinal p)"

definition settled :: "u32 \<Rightarrow> TERM_STATE \<Rightarrow> bool" where
  "settled t s \<longleftrightarrow> walkable s \<and> (ts_index s < ts_count s \<longrightarrow> wanted t (current_posting s))"

definition same_list :: "TERM_STATE \<Rightarrow> TERM_STATE \<Rightarrow> bool" where
  "same_list s s' \<longleftrightarrow> (\<exists>i. s' = s\<lparr>ts_index := i\<rparr>)"

lemma same_list_refl [simp]: "same_list s s"
  unfolding same_list_def by (rule exI[of _ "ts_index s"]) simp

lemma same_list_trans: "same_list a b \<Longrightarrow> same_list b c \<Longrightarrow> same_list a c"
  by (auto simp: same_list_def)

lemma same_listD:
  "same_list s s' \<Longrightarrow> ts_term s' = ts_term s \<and> ts_postings s' = ts_postings s \<and> ts_count s' = ts_count s \<and>
     ts_type_frequency s' = ts_type_frequency s \<and> ts_blocks s' = ts_blocks s"
  by (auto simp: same_list_def)

lemma walkable_same: "same_list s s' \<Longrightarrow> walkable s' \<longleftrightarrow> walkable s"
  by (auto simp: walkable_def dest: same_listD)

lemma remaining_Cons:
  assumes "ts_index s < ts_count s" "walkable s"
  shows "remaining t s = (if wanted t (current_posting s) then [current_posting s] else []) @
    remaining t (s\<lparr>ts_index := ts_index s + 1\<rparr>)"
proof -
  have "drop (ts_index s) (ts_postings s) = current_posting s # drop (Suc (ts_index s)) (ts_postings s)"
    using assms by (simp add: walkable_def Cons_nth_drop_Suc)
  then show ?thesis by (simp add: remaining_def)
qed

lemma remaining_Nil: "walkable s \<Longrightarrow> \<not> ts_index s < ts_count s \<Longrightarrow> remaining t s = []"
  by (simp add: remaining_def walkable_def)

lemma remaining_settled:
  "settled t s \<Longrightarrow> ts_index s < ts_count s \<Longrightarrow> \<exists>rest. remaining t s = current_posting s # rest"
  using remaining_Cons[of s t] by (simp add: settled_def)

lemma remaining_sorted: "walkable s \<Longrightarrow> sorted_wrt (\<lambda>p q. posting_key p < posting_key q) (remaining t s)"
  by (simp add: remaining_def walkable_def sorted_wrt_filter sorted_wrt_drop)

lemma remaining_bound: "walkable s \<Longrightarrow> p \<in> set (remaining t s) \<Longrightarrow> posting_key p < - 1"
  by (auto simp: remaining_def walkable_def dest: in_set_dropD)

lemma skip_type_remaining:
  "walkable s \<Longrightarrow> same_list s (state_skip_type s t) \<and> remaining t (state_skip_type s t) = remaining t s \<and> settled t (state_skip_type s t)"
proof (induction s t rule: state_skip_type.induct)
  case (1 s t)
  let ?s = "s\<lparr>ts_index := ts_index s + 1\<rparr>"
  have sl: "same_list s ?s" by (auto simp: same_list_def)
  show ?case
  proof (cases "ts_index s < ts_count s \<and> t \<noteq> 0 \<and> po_object_type (current_posting s) \<noteq> t")
    case True
    then have e: "state_skip_type s t = state_skip_type ?s t" by (subst state_skip_type.simps) simp
    have "walkable ?s" using walkable_same[OF sl] 1 by simp
    moreover have "remaining t ?s = remaining t s" using True remaining_Cons[of s t] 1 by (simp add: wanted_def)
    ultimately show ?thesis using 1(1)[OF True] same_list_trans[OF sl] by (simp add: e)
  next
    case False
    then have e: "state_skip_type s t = s" by (subst state_skip_type.simps) auto
    show ?thesis using False 1 by (auto simp: e settled_def wanted_def)
  qed
qed

lemma advance_to_remaining:
  "settled t s \<Longrightarrow> ts_index s < ts_count s \<Longrightarrow> same_list s (state_advance_to s key t) \<and>
     remaining t (state_advance_to s key t) = dropWhile (\<lambda>p. posting_key p < key) (tl (remaining t s)) \<and>
     settled t (state_advance_to s key t)"
proof (induction s key t rule: state_advance_to.induct)
  case (1 s key t)
  let ?n = "s\<lparr>ts_index := ts_index s + 1\<rparr>" and ?s = "state_skip_type (s\<lparr>ts_index := ts_index s + 1\<rparr>) t"
  have sl: "same_list s ?n" by (auto simp: same_list_def)
  have w: "walkable s" using 1 by (simp add: settled_def)
  note skip = skip_type_remaining[of ?n t]
  have s: "same_list s ?s" "remaining t ?s = tl (remaining t s)" "settled t ?s"
    using skip w walkable_same[OF sl] same_list_trans[OF sl] remaining_Cons[OF "1.prems"(2) w, of t] 1
    by (auto simp: settled_def)
  show ?case
  proof (cases "ts_index ?s < ts_count ?s \<and> posting_key (current_posting ?s) < key")
    case True
    then have e: "state_advance_to s key t = state_advance_to ?s key t" by (subst state_advance_to.simps) (simp add: Let_def)
    obtain rest where r: "tl (remaining t s) = current_posting ?s # rest" using remaining_settled s(2,3) True by metis
    have "dropWhile (\<lambda>p. posting_key p < key) (tl (remaining t ?s)) = dropWhile (\<lambda>p. posting_key p < key) (tl (remaining t s))"
      unfolding s(2) r using True by simp
    then show ?thesis using 1(1)[OF refl True s(3)] True same_list_trans[OF s(1)] by (simp add: e)
  next
    case False
    then have e: "state_advance_to s key t = ?s" by (subst state_advance_to.simps) (auto simp: Let_def)
    have "dropWhile (\<lambda>p. posting_key p < key) (remaining t ?s) = remaining t ?s"
    proof (cases "ts_index ?s < ts_count ?s")
      case True
      then obtain rest where "remaining t ?s = current_posting ?s # rest" using remaining_settled s(3) by blast
      then show ?thesis using False True by auto
    next
      case False
      then show ?thesis using remaining_Nil s(3) by (simp add: settled_def)
    qed
    then show ?thesis using s by (simp add: e)
  qed
qed

subsection \<open>Moving all lists up to a key\<close>

definition moved :: "u32 \<Rightarrow> u64 \<Rightarrow> TERM_STATE \<Rightarrow> TERM_STATE \<Rightarrow> bool" where
  "moved t b s s' \<longleftrightarrow> same_list s s' \<and> settled t s' \<and> remaining t s' = dropWhile (\<lambda>p. posting_key p < b) (remaining t s)"

lemma moved_refl:
  assumes "settled t s" "ts_index s < ts_count s \<Longrightarrow> b \<le> posting_key (current_posting s)"
  shows "moved t b s s"
proof (cases "ts_index s < ts_count s")
  case True
  then obtain rest where "remaining t s = current_posting s # rest" using remaining_settled assms(1) by blast
  then show ?thesis using assms True by (auto simp: moved_def)
next
  case False
  then show ?thesis using assms(1) remaining_Nil[of s t] by (auto simp: moved_def settled_def)
qed

lemma moved_advance:
  assumes "settled t s" "ts_index s < ts_count s" "posting_key (current_posting s) < b"
  shows "moved t b s (state_advance_to s b t)"
proof -
  obtain rest where "remaining t s = current_posting s # rest" using remaining_settled assms(1,2) by blast
  then show ?thesis using advance_to_remaining[OF assms(1,2), of b] assms(3) by (auto simp: moved_def)
qed

abbreviation keys :: "u32 \<Rightarrow> TERM_STATE \<Rightarrow> u64 set" where
  "keys t s \<equiv> posting_key ` set (remaining t s)"

lemma dropWhile_sorted:
  "sorted_wrt (\<lambda>p q. f p < (f q :: 'b :: linorder)) xs \<Longrightarrow> dropWhile (\<lambda>p. f p < b) xs = filter (\<lambda>p. b \<le> f p) xs"
proof (induction xs)
  case (Cons x xs)
  show ?case
  proof (cases "f x < b")
    case True
    then show ?thesis using Cons by auto
  next
    case False
    then have "\<forall>y\<in>set xs. b \<le> f y" using Cons.prems by (auto intro: order.trans[OF _ less_imp_le])
    then show ?thesis using False by simp
  qed
qed simp

lemma moved_remaining:
  "walkable s \<Longrightarrow> moved t b s s' \<Longrightarrow> remaining t s' = filter (\<lambda>p. b \<le> posting_key p) (remaining t s)"
  using dropWhile_sorted[OF remaining_sorted] by (simp add: moved_def)

lemma moved_keys: "walkable s \<Longrightarrow> moved t b s s' \<Longrightarrow> keys t s' = {k \<in> keys t s. b \<le> k}"
  by (auto simp: moved_remaining)

definition key_posting :: "u32 \<Rightarrow> u64 \<Rightarrow> TERM_STATE \<Rightarrow> YAP_V2_POSTING option" where
  "key_posting t k s = find (\<lambda>p. posting_key p = k) (remaining t s)"

lemma moved_posting:
  assumes "walkable s" "moved t b s s'" "b \<le> k"
  shows "key_posting t k s' = key_posting t k s"
proof -
  have "find (\<lambda>p. posting_key p = k) (filter (\<lambda>p. b \<le> posting_key p) xs) = find (\<lambda>p. posting_key p = k) xs" for xs
    using assms(3) by (induction xs) auto
  then show ?thesis by (simp add: key_posting_def moved_remaining[OF assms(1,2)])
qed

lemma key_posting_current:
  assumes "settled t s" "ts_index s < ts_count s"
  shows "key_posting t (posting_key (current_posting s)) s = Some (current_posting s)"
  using remaining_settled[OF assms] by (auto simp: key_posting_def)

lemma key_posting_None: "k \<notin> keys t s \<Longrightarrow> key_posting t k s = None"
  by (auto simp: key_posting_def find_None_iff)

lemma key_posting_below:
  assumes "settled t s" "ts_index s < ts_count s \<Longrightarrow> k < posting_key (current_posting s)"
  shows "key_posting t k s = None"
proof (rule key_posting_None)
  show "k \<notin> keys t s"
  proof (cases "ts_index s < ts_count s")
    case True
    then obtain rest where r: "remaining t s = current_posting s # rest" using remaining_settled assms(1) by blast
    have "sorted_wrt (\<lambda>p q. posting_key p < posting_key q) (remaining t s)" using remaining_sorted assms(1) by (simp add: settled_def)
    then have "\<forall>p\<in>set (remaining t s). posting_key (current_posting s) \<le> posting_key p" by (auto simp: r)
    then show ?thesis using assms(2)[OF True] by auto
  next
    case False
    then show ?thesis using remaining_Nil assms(1) by (simp add: settled_def)
  qed
qed

subsection \<open>The objects and their hits\<close>

definition object_score ::
  "'a bm25_ops \<Rightarrow> YAP_V2_LEXICAL_CORPUS_STATS \<Rightarrow> 'a YAP_V2_LEXICAL_SEARCH_OPTIONS \<Rightarrow> TERM_STATE list \<Rightarrow> u64 \<Rightarrow> 'a" where
  "object_score B stats options states k =
     fold (\<lambda>s score. case key_posting (lso_object_type options) k s of None \<Rightarrow> score
       | Some p \<Rightarrow> sc_add (bm_score B) score (posting_score B stats s p options)) states (sc_zero (bm_score B))"

definition object_hit ::
  "'a bm25_ops \<Rightarrow> YAP_V2_LEXICAL_CORPUS_STATS \<Rightarrow> 'a YAP_V2_LEXICAL_SEARCH_OPTIONS \<Rightarrow> TERM_STATE list \<Rightarrow> u64 \<Rightarrow> 'a YAP_V2_LEXICAL_HIT" where
  "object_hit B stats options states k =
     \<lparr>lht_object_type = key_type k, lht_object_ordinal = key_ordinal k, lht_score = object_score B stats options states k,
      lht_matched_terms = word_of_nat (length (filter (\<lambda>s. key_posting (lso_object_type options) k s \<noteq> None) states))\<rparr>"

definition seek :: "u64 \<Rightarrow> TERM_STATE \<Rightarrow> TERM_STATE" where
  "seek k s = s\<lparr>ts_index := length (takeWhile (\<lambda>p. posting_key p \<noteq> k) (ts_postings s))\<rparr>"

definition object_kept ::
  "'a bm25_ops \<Rightarrow> YAP_V2_LEXICAL_SEGMENT \<Rightarrow> YAP_V2_LEXICAL_QUERY_PLAN \<Rightarrow> 'a YAP_V2_LEXICAL_SEARCH_OPTIONS \<Rightarrow> nat \<Rightarrow>
     TERM_STATE list \<Rightarrow> u64 \<Rightarrow> 'a YAP_V2_LEXICAL_HIT \<Rightarrow> bool" where
  "object_kept B segment plan options n states k hit \<longleftrightarrow>
     (lso_phrase options \<longrightarrow> phrase_matches segment (map (seek k) states) plan k) \<and>
     (lso_query_operator options = YAP_V2_QUERY_OR \<or> unat (lht_matched_terms hit) = n) \<and>
     (case lso_accept options of None \<Rightarrow> True | Some accept \<Rightarrow> accept (lht_object_type hit) (lht_object_ordinal hit)) \<and>
     sc_less (bm_score B) (sc_zero (bm_score B)) (lht_score hit)"

definition visit ::
  "'a bm25_ops \<Rightarrow> YAP_V2_LEXICAL_SEGMENT \<Rightarrow> YAP_V2_LEXICAL_QUERY_PLAN \<Rightarrow> YAP_V2_LEXICAL_CORPUS_STATS \<Rightarrow>
     'a YAP_V2_LEXICAL_SEARCH_OPTIONS \<Rightarrow> nat \<Rightarrow> TERM_STATE list \<Rightarrow> u64 \<Rightarrow> 'a YAP_V2_LEXICAL_HIT list \<Rightarrow> 'a YAP_V2_LEXICAL_HIT list" where
  "visit B segment plan stats options n states k hits =
     (let hit = object_hit B stats options states k in
      if object_kept B segment plan options n states k hit then add_hit B (lso_top_k options) hits hit else hits)"

definition moved_all :: "u32 \<Rightarrow> u64 \<Rightarrow> TERM_STATE list \<Rightarrow> TERM_STATE list \<Rightarrow> bool" where
  "moved_all t b = list_all2 (moved t b)"

lemma posting_score_same: "same_list s s' \<Longrightarrow> posting_score B stats s' p options = posting_score B stats s p options"
proof -
  assume "same_list s s'"
  then have f: "ts_type_frequency s' = ts_type_frequency s" by (simp add: same_listD)
  show ?thesis unfolding posting_score_def f by (rule refl)
qed

lemma visit_moved:
  assumes m: "moved_all (lso_object_type options) b states states'" and w: "\<forall>s\<in>set states. walkable s" and k: "b \<le> k"
  shows "visit B segment plan stats options n states' k = visit B segment plan stats options n states k"
proof -
  let ?t = "lso_object_type options"
  have score: "fold (\<lambda>s score. case key_posting ?t k s of None \<Rightarrow> score
       | Some p \<Rightarrow> sc_add (bm_score B) score (posting_score B stats s p options)) states' z =
     fold (\<lambda>s score. case key_posting ?t k s of None \<Rightarrow> score
       | Some p \<Rightarrow> sc_add (bm_score B) score (posting_score B stats s p options)) states z" for z
    using m[unfolded moved_all_def] w
  proof (induction arbitrary: z rule: list_all2_induct)
    case (Cons s ss s' ss')
    have "key_posting ?t k s' = key_posting ?t k s" using Cons.hyps(1) Cons.prems k by (intro moved_posting) auto
    moreover have "posting_score B stats s' p options = posting_score B stats s p options" for p
      using Cons.hyps(1) by (intro posting_score_same) (simp add: moved_def)
    ultimately show ?case using Cons by (simp cong: option.case_cong)
  qed simp
  have matched: "length (filter (\<lambda>s. key_posting ?t k s \<noteq> None) states') = length (filter (\<lambda>s. key_posting ?t k s \<noteq> None) states)"
    using m[unfolded moved_all_def] w
  proof (induction rule: list_all2_induct)
    case (Cons s ss s' ss')
    have "key_posting ?t k s' = key_posting ?t k s" using Cons.hyps(1) Cons.prems k by (intro moved_posting) auto
    then show ?case using Cons by simp
  qed simp
  have seek: "map (seek k) states' = map (seek k) states"
    using m[unfolded moved_all_def]
    by (induction rule: list_all2_induct) (auto simp: moved_def same_list_def seek_def)
  have "object_hit B stats options states' k = object_hit B stats options states k"
    by (simp only: object_hit_def object_score_def score matched)
  then show ?thesis by (intro ext) (simp only: visit_def object_kept_def seek)
qed

text \<open>The rest of the search as a walk over keys.\<close>

definition walk ::
  "'a bm25_ops \<Rightarrow> YAP_V2_LEXICAL_SEGMENT \<Rightarrow> YAP_V2_LEXICAL_QUERY_PLAN \<Rightarrow> YAP_V2_LEXICAL_CORPUS_STATS \<Rightarrow>
     'a YAP_V2_LEXICAL_SEARCH_OPTIONS \<Rightarrow> nat \<Rightarrow> TERM_STATE list \<Rightarrow> u64 set \<Rightarrow> 'a YAP_V2_LEXICAL_HIT list \<Rightarrow> 'a YAP_V2_LEXICAL_HIT list" where
  "walk B segment plan stats options n states K hits =
     fold (visit B segment plan stats options n states) (sorted_list_of_set K) hits"

lemma walk_moved:
  assumes m: "moved_all (lso_object_type options) b states states'" and w: "\<forall>s\<in>set states. walkable s" and K: "\<forall>k\<in>K. b \<le> k"
  shows "walk B segment plan stats options n states' K hits = walk B segment plan stats options n states K hits"
  unfolding walk_def
proof (rule fold_cong[OF refl refl])
  fix k assume "k \<in> set (sorted_list_of_set K)"
  then have "k \<in> K" by (metis finite sorted_list_of_set.set_sorted_key_list_of_set)
  then show "visit B segment plan stats options n states' k = visit B segment plan stats options n states k"
    using K visit_moved[OF m w] by blast
qed

lemma walk_first:
  assumes "k \<in> K" "\<forall>k'\<in>K. k \<le> k'"
  shows "walk B segment plan stats options n states K hits =
    walk B segment plan stats options n states (K - {k}) (visit B segment plan stats options n states k hits)"
proof -
  have "sorted_list_of_set K = k # sorted_list_of_set (K - {k})"
    using assms sorted_list_of_set_nonempty[of K] Min_eqI[of K k] by (metis empty_iff finite)
  then show ?thesis by (simp add: walk_def)
qed

subsection \<open>Evaluating an object\<close>

definition ready :: "u32 \<Rightarrow> TERM_STATE list \<Rightarrow> bool" where
  "ready t states \<longleftrightarrow> (\<forall>s\<in>set states. settled t s \<and> (ts_term s = None \<longrightarrow> ts_postings s = []))"

lemma ready_active:
  "ready t states \<Longrightarrow> active_states states = filter (\<lambda>i. ts_index (states ! i) < ts_count (states ! i)) [0..<length states]"
  unfolding active_states_def
  by (rule filter_cong[OF refl]) (auto simp: ready_def settled_def walkable_def)

lemma ready_moved:
  assumes "ready t states" "moved_all t b states states'"
  shows "ready t states'"
proof -
  have "settled t s' \<and> (ts_term s' = None \<longrightarrow> ts_postings s' = [])" if s': "s' \<in> set states'" for s'
  proof -
    obtain i where i: "i < length states'" "s' = states' ! i" using s' by (auto simp: in_set_conv_nth)
    then have m: "moved t b (states ! i) s'" "states ! i \<in> set states"
      using assms(2) by (auto simp: moved_all_def list_all2_conv_all_nth)
    then have sl: "same_list (states ! i) s'" "settled t s'" by (auto simp: moved_def)
    have "ts_term (states ! i) = None \<longrightarrow> ts_postings (states ! i) = []" using assms(1) m(2) by (auto simp: ready_def)
    then show ?thesis using same_listD[OF sl(1)] sl(2) by simp
  qed
  then show ?thesis by (simp add: ready_def)
qed

lemma moved_all_nth:
  "length states' = length states \<Longrightarrow> (\<And>i. i < length states \<Longrightarrow> moved t b (states ! i) (states' ! i)) \<Longrightarrow> moved_all t b states states'"
  by (simp add: moved_all_def list_all2_conv_all_nth)

lemma score_active_eq:
  assumes "distinct A" "\<forall>i\<in>set A. i < length states"
  shows "\<exists>states'. score_active B stats options key A (states, score, n) =
      (states', fold (\<lambda>i score. sc_add (bm_score B) score (posting_score B stats (states ! i) (current_posting (states ! i)) options))
         (filter (\<lambda>i. state_key states i = key) A) score, n + word_of_nat (length (filter (\<lambda>i. state_key states i = key) A))) \<and>
    length states' = length states \<and>
    (\<forall>j<length states. states' ! j =
       (if j \<in> set A \<and> state_key states j = key then state_advance_to (states ! j) (key + 1) (lso_object_type options) else states ! j))"
  using assms
proof (induction A arbitrary: states score n)
  case Nil
  then show ?case by (simp add: score_active_def)
next
  case (Cons i A)
  show ?case
  proof (cases "state_key states i = key")
    case False
    then have "score_active B stats options key (i # A) (states, score, n) = score_active B stats options key A (states, score, n)"
      by (simp add: score_active_def)
    then show ?thesis using Cons.IH[of states score n] Cons.prems False by auto
  next
    case True
    let ?u = "states[i := state_advance_to (states ! i) (key + 1) (lso_object_type options)]"
    let ?sc = "sc_add (bm_score B) score (posting_score B stats (states ! i) (current_posting (states ! i)) options)"
    have e: "score_active B stats options key (i # A) (states, score, n) = score_active B stats options key A (?u, ?sc, n + 1)"
      using True by (simp add: score_active_def)
    have same: "?u ! j = states ! j" if "j \<in> set A" for j
      using Cons.prems(1) that by (metis distinct.simps(2) nth_list_update_neq)
    have f: "filter (\<lambda>j. state_key ?u j = key) A = filter (\<lambda>j. state_key states j = key) A"
      by (rule filter_cong[OF refl]) (simp add: same)
    have g: "fold (\<lambda>j score. sc_add (bm_score B) score (posting_score B stats (?u ! j) (current_posting (?u ! j)) options)) ys z =
        fold (\<lambda>j score. sc_add (bm_score B) score (posting_score B stats (states ! j) (current_posting (states ! j)) options)) ys z"
      if "set ys \<subseteq> set A" for ys z
      by (rule fold_cong[OF refl refl]) (use that same in auto)
    obtain states' where s': "score_active B stats options key A (?u, ?sc, n + 1) =
      (states', fold (\<lambda>j score. sc_add (bm_score B) score (posting_score B stats (?u ! j) (current_posting (?u ! j)) options))
         (filter (\<lambda>j. state_key ?u j = key) A) ?sc, n + 1 + word_of_nat (length (filter (\<lambda>j. state_key ?u j = key) A)))"
      "length states' = length ?u"
      "\<forall>j<length ?u. states' ! j = (if j \<in> set A \<and> state_key ?u j = key then state_advance_to (?u ! j) (key + 1) (lso_object_type options) else ?u ! j)"
      using Cons.IH[of ?u ?sc "n + 1"] Cons.prems by auto
    have "states' ! j = (if j \<in> set (i # A) \<and> state_key states j = key then state_advance_to (states ! j) (key + 1) (lso_object_type options) else states ! j)"
      if j: "j < length states" for j
      using s'(3) j Cons.prems True by (cases "j = i") auto
    then show ?thesis using s'(1,2) True unfolding e f by (auto simp: g)
  qed
qed

lemma filter_qsort_stable:
  fixes f :: "'b \<Rightarrow> 'c :: linorder"
  assumes cmp: "\<And>x y. cmp x y \<le> (0 :: int) \<longleftrightarrow> f x \<le> f y"
  shows "filter (\<lambda>x. f x = k) (qsort_by cmp xs) = filter (\<lambda>x. f x = k) xs"
proof (induction xs)
  case (Cons x xs)
  have "filter (\<lambda>x. f x = k) (insert_by cmp x ys) = filter (\<lambda>x. f x = k) (x # ys)" for ys
    by (induction ys) (auto simp: cmp)
  then show ?case using Cons by simp
qed simp

lemma fold_filter_noop: "(\<And>x. x \<in> set xs \<Longrightarrow> \<not> P x \<Longrightarrow> f x = id) \<Longrightarrow> fold f xs = fold f (filter P xs)"
  by (induction xs) auto

lemma filter_nth_length: "length (filter P xs) = length (filter (\<lambda>i. P (xs ! i)) [0..<length xs])"
proof -
  have "filter P (map ((!) xs) [0..<length xs]) = map ((!) xs) (filter (P \<circ> (!) xs) [0..<length xs])" by (rule filter_map)
  then show ?thesis by (simp add: map_nth o_def)
qed

lemma fold_nth: "fold f xs z = fold (\<lambda>i. f (xs ! i)) [0..<length xs] z"
proof -
  have "fold f (map ((!) xs) [0..<length xs]) z = fold (\<lambda>i. f (xs ! i)) [0..<length xs] z" by (simp add: fold_map o_def)
  then show ?thesis by (simp add: map_nth)
qed

lemma active_order:
  assumes "active_states states \<noteq> []"
  defines "A \<equiv> ordered_active states"
  shows "A \<noteq> []" "set A = set (active_states states)" "distinct A" "\<forall>i\<in>set A. i < length states"
    "\<forall>i\<in>set A. state_key states (hd A) \<le> state_key states i" "\<forall>i\<in>set A. state_key states i \<le> state_key states (last A)"
    "filter (\<lambda>i. state_key states i = k) A = filter (\<lambda>i. state_key states i = k) (active_states states)"
proof -
  show st: "set A = set (active_states states)" by (simp add: A_def set_qsort_by)
  then show ne: "A \<noteq> []" using assms(1) by auto
  show "distinct A" unfolding A_def by (simp add: libc.qs_distinct active_states_def)
  show "\<forall>i\<in>set A. i < length states" using st by (simp add: active_states_def)
  have srt: "sorted_wrt (\<lambda>i j. state_key states i \<le> state_key states j) A" unfolding A_def by (rule sorted_active)
  show "\<forall>i\<in>set A. state_key states (hd A) \<le> state_key states i" using srt by (cases A) auto
  show "\<forall>i\<in>set A. state_key states i \<le> state_key states (last A)"
    using srt by (cases A rule: rev_cases) (auto simp: sorted_wrt_append)
  show "filter (\<lambda>i. state_key states i = k) A = filter (\<lambda>i. state_key states i = k) (active_states states)"
    unfolding A_def by (rule filter_qsort_stable) (auto simp: state_pointer_compare_def Let_def)
qed

lemma key_plus_one: "(k :: u64) < - 1 \<Longrightarrow> k < k + 1"
proof -
  assume "k < - 1"
  then have "unat k + 1 < 2 ^ 64" by (simp add: word_less_nat_alt unsigned_minus_1_eq_mask mask_eq_exp_minus_1)
  then show ?thesis by (simp add: word_less_nat_alt unat_word_ariths)
qed

lemma evaluate_visits:
  assumes r: "ready (lso_object_type options) states" and ne: "active_states states \<noteq> []"
    and phrase: "lso_phrase options \<Longrightarrow> map (seek (state_key states (hd (ordered_active states)))) states = states"
  defines "k \<equiv> state_key states (hd (ordered_active states))"
  shows "\<exists>states'. evaluate_pivot B segment plan stats options n (ordered_active states) k (states, hits) =
    (states', visit B segment plan stats options n states k hits) \<and> moved_all (lso_object_type options) (k + 1) states states' \<and> k < k + 1"
proof -
  let ?t = "lso_object_type options" and ?A = "ordered_active states" and ?N = "[0..<length states]"
  note A = active_order[OF ne]
  have act: "active_states states = filter (\<lambda>i. ts_index (states ! i) < ts_count (states ! i)) ?N" by (rule ready_active[OF r])
  have st: "settled ?t (states ! i)" if "i < length states" for i using r that by (simp add: ready_def)
  have hd: "hd ?A < length states" "ts_index (states ! hd ?A) < ts_count (states ! hd ?A)"
    using hd_in_set[OF A(1)] active_bounds A(2) by auto
  have cp: "current_posting (states ! hd ?A) \<in> set (ts_postings (states ! hd ?A))"
    using hd st[OF hd(1)] by (simp add: settled_def walkable_def)
  have kk: "k < k + 1" "key_type k = po_object_type (current_posting (states ! hd ?A))"
    "key_ordinal k = po_object_ordinal (current_posting (states ! hd ?A))"
    using cp st[OF hd(1)] key_plus_one[of k] by (auto simp: settled_def walkable_def k_def)
  have post: "key_posting ?t k (states ! i) =
      (if ts_index (states ! i) < ts_count (states ! i) \<and> state_key states i = k then Some (current_posting (states ! i)) else None)"
    if i: "i < length states" for i
  proof (cases "ts_index (states ! i) < ts_count (states ! i) \<and> state_key states i = k")
    case True
    then show ?thesis using key_posting_current[OF st[OF i]] by auto
  next
    case False
    have "k < state_key states i" if "ts_index (states ! i) < ts_count (states ! i)"
      using A(2,5) act that False i by (force simp: k_def order_le_less)
    then have "key_posting ?t k (states ! i) = None" by (intro key_posting_below st i) auto
    then show ?thesis using False by auto
  qed
  let ?P = "\<lambda>i. state_key states i = k"
  have "filter ?P (active_states states) = filter (\<lambda>i. key_posting ?t k (states ! i) \<noteq> None) ?N"
    unfolding act filter_filter by (rule filter_cong[OF refl]) (auto simp: post)
  then have fil: "filter ?P ?A = filter (\<lambda>i. key_posting ?t k (states ! i) \<noteq> None) ?N" using A(7)[of k] by simp
  obtain states' where s': "score_active B stats options k ?A (states, sc_zero (bm_score B), 0) =
      (states', fold (\<lambda>i score. sc_add (bm_score B) score (posting_score B stats (states ! i) (current_posting (states ! i)) options))
         (filter ?P ?A) (sc_zero (bm_score B)), 0 + word_of_nat (length (filter ?P ?A)))"
    "length states' = length states"
    "\<forall>j<length states. states' ! j = (if j \<in> set ?A \<and> ?P j then state_advance_to (states ! j) (k + 1) ?t else states ! j)"
    using score_active_eq[OF A(3,4), of B stats options k "sc_zero (bm_score B)" 0] by blast
  have score: "fold (\<lambda>i score. sc_add (bm_score B) score (posting_score B stats (states ! i) (current_posting (states ! i)) options))
         (filter ?P ?A) (sc_zero (bm_score B)) = object_score B stats options states k"
  proof -
    let ?f = "\<lambda>i score. case key_posting ?t k (states ! i) of None \<Rightarrow> score
       | Some p \<Rightarrow> sc_add (bm_score B) score (posting_score B stats (states ! i) p options)"
    have "object_score B stats options states k = fold ?f ?N (sc_zero (bm_score B))"
      unfolding object_score_def by (rule fold_nth)
    also have "fold ?f ?N = fold ?f (filter ?P ?A)" unfolding fil by (rule fold_filter_noop) auto
    also have "fold ?f (filter ?P ?A) (sc_zero (bm_score B)) =
        fold (\<lambda>i score. sc_add (bm_score B) score (posting_score B stats (states ! i) (current_posting (states ! i)) options))
         (filter ?P ?A) (sc_zero (bm_score B))"
      by (rule fold_cong[OF refl refl]) (use post in \<open>auto simp: fil split: option.splits if_splits\<close>)
    finally show ?thesis by simp
  qed
  have matched: "length (filter ?P ?A) = length (filter (\<lambda>s. key_posting ?t k s \<noteq> None) states)"
    unfolding fil by (rule filter_nth_length[symmetric])
  have hit: "\<lparr>lht_object_type = po_object_type (current_posting (states ! hd ?A)),
      lht_object_ordinal = po_object_ordinal (current_posting (states ! hd ?A)), lht_score = object_score B stats options states k,
      lht_matched_terms = 0 + word_of_nat (length (filter ?P ?A))\<rparr> = object_hit B stats options states k"
    by (simp add: object_hit_def kk matched)
  have ph: "(\<not> lso_phrase options \<or> phrase_matches segment states plan k) \<longleftrightarrow>
      (lso_phrase options \<longrightarrow> phrase_matches segment (map (seek k) states) plan k)"
    using phrase unfolding k_def by auto
  have "moved_all ?t (k + 1) states states'"
  proof (rule moved_all_nth[OF s'(2)])
    fix j assume j: "j < length states"
    show "moved ?t (k + 1) (states ! j) (states' ! j)"
    proof (cases "j \<in> set ?A \<and> ?P j")
      case True
      then have "ts_index (states ! j) < ts_count (states ! j)" using A(2) active_bounds by auto
      then show ?thesis using moved_advance[OF st[OF j]] True s'(3) j kk(1) by simp
    next
      case False
      have "moved ?t (k + 1) (states ! j) (states ! j)"
      proof (rule moved_refl[OF st[OF j]])
        assume "ts_index (states ! j) < ts_count (states ! j)"
        then have "j \<in> set ?A" using A(2) act j by auto
        then have "k < state_key states j" using A(5) False by (auto simp: k_def order_le_less)
        then show "k + 1 \<le> posting_key (current_posting (states ! j))" by (rule inc_le)
      qed
      then show ?thesis using False s'(3) j by auto
    qed
  qed
  moreover have "evaluate_pivot B segment plan stats options n ?A k (states, hits) =
      (states', visit B segment plan stats options n states k hits)"
    unfolding evaluate_pivot_def visit_def object_kept_def Let_def prod.case s'(1) score hit ph
    by (simp add: object_hit_def matched)
  ultimately show ?thesis using kk(1) by blast
qed

subsection \<open>Searching for all terms\<close>

lemma fold_update_nth:
  assumes "distinct A" "\<forall>i\<in>set A. i < length xs"
  shows "length (fold (\<lambda>i xs. if P (xs ! i) then xs[i := g (xs ! i)] else xs) A xs) = length xs \<and>
    (\<forall>j<length xs. fold (\<lambda>i xs. if P (xs ! i) then xs[i := g (xs ! i)] else xs) A xs ! j =
       (if j \<in> set A \<and> P (xs ! j) then g (xs ! j) else xs ! j))"
  using assms
proof (induction A arbitrary: xs)
  case (Cons i A)
  let ?u = "if P (xs ! i) then xs[i := g (xs ! i)] else xs"
  have l: "length ?u = length xs" by simp
  have "fold (\<lambda>i xs. if P (xs ! i) then xs[i := g (xs ! i)] else xs) A ?u ! j =
      (if j \<in> set (i # A) \<and> P (xs ! j) then g (xs ! j) else xs ! j)" if j: "j < length xs" for j
    using Cons.IH[of ?u] Cons.prems j by (cases "j = i") (auto simp: nth_list_update)
  then show ?case using Cons.IH[of ?u] Cons.prems by simp
qed simp

definition shared :: "u32 \<Rightarrow> TERM_STATE list \<Rightarrow> u64 set" where
  "shared t states = {k. \<forall>s\<in>set states. k \<in> keys t s}"

lemma shared_moved:
  assumes "moved_all t b states states'" "\<forall>s\<in>set states. walkable s" "states \<noteq> []"
  shows "shared t states' = {k \<in> shared t states. b \<le> k}"
proof -
  have len: "length states' = length states" and m: "\<And>i. i < length states \<Longrightarrow> moved t b (states ! i) (states' ! i)"
    using assms(1) by (auto simp: moved_all_def list_all2_conv_all_nth)
  have "keys t (states' ! i) = {k \<in> keys t (states ! i). b \<le> k}" if "i < length states" for i
    using moved_keys[OF _ m[OF that]] assms(2) that by simp
  moreover have "0 < length states" using assms(3) by simp
  ultimately show ?thesis unfolding shared_def all_set_conv_all_nth len by blast
qed

lemma head_key: "settled t s \<Longrightarrow> ts_index s < ts_count s \<Longrightarrow> posting_key (current_posting s) \<in> keys t s"
  using remaining_settled by fastforce

lemma key_above_head:
  assumes "settled t s" "k \<in> keys t s"
  shows "ts_index s < ts_count s \<and> posting_key (current_posting s) \<le> k"
proof
  show i: "ts_index s < ts_count s" using assms remaining_Nil[of s t] by (cases "ts_index s < ts_count s") (auto simp: settled_def)
  have "\<not> k < posting_key (current_posting s)"
    using key_posting_below[OF assms(1), of k] assms(2) by (fastforce simp: key_posting_def find_None_iff)
  then show "posting_key (current_posting s) \<le> k" by simp
qed

lemma seek_current:
  assumes "walkable s" "ts_index s < ts_count s"
  shows "seek (posting_key (current_posting s)) s = s"
proof -
  have i: "ts_index s < length (ts_postings s)" using assms by (simp add: walkable_def)
  have "takeWhile (\<lambda>p. posting_key p \<noteq> posting_key (current_posting s)) (ts_postings s) = take (ts_index s) (ts_postings s)"
  proof (rule takeWhile_eq_take_P_nth)
    fix j assume "j < ts_index s" "j < length (ts_postings s)"
    then have "posting_key (ts_postings s ! j) < posting_key (current_posting s)"
      using assms i by (auto simp: walkable_def sorted_wrt_iff_nth_less)
    then show "posting_key (ts_postings s ! j) \<noteq> posting_key (current_posting s)" by simp
  qed simp
  then show ?thesis using i by (simp add: seek_def)
qed

text \<open>A round that evaluates the first of the keys \<open>K\<close>.\<close>

lemma loop_visits:
  assumes s: "search_step B segment plan stats options n (states, hits) = Some (states', visit B segment plan stats options n states h hits)"
    and mv: "moved_all (lso_object_type options) (h + 1) states states'" and w: "\<forall>s\<in>set states. walkable s"
    and K: "h \<in> K" "\<forall>k\<in>K. h \<le> k" "K' = K - {h}"
    and rec: "search_loop B segment plan stats options n (states', visit B segment plan stats options n states h hits) =
      walk B segment plan stats options n states' K' (visit B segment plan stats options n states h hits)"
  shows "search_loop B segment plan stats options n (states, hits) = walk B segment plan stats options n states K hits"
proof -
  have above: "\<forall>k\<in>K - {h}. h + 1 \<le> k" using K(2) inc_le by (auto simp: order_le_less)
  have "search_loop B segment plan stats options n (states, hits) =
      search_loop B segment plan stats options n (states', visit B segment plan stats options n states h hits)"
    by (subst search_loop.simps) (simp add: s)
  also note rec
  also have "walk B segment plan stats options n states' K' (visit B segment plan stats options n states h hits) =
      walk B segment plan stats options n states (K - {h}) (visit B segment plan stats options n states h hits)"
    unfolding K(3) by (rule walk_moved[OF mv w above])
  also have "\<dots> = walk B segment plan stats options n states K hits" by (rule walk_first[OF K(1,2), symmetric])
  finally show ?thesis .
qed

lemma search_strict:
  assumes "strict_search options" "ready (lso_object_type options) states" "\<forall>s\<in>set states. ts_term s \<noteq> None"
    "states \<noteq> []" "n = length states"
  shows "search_loop B segment plan stats options n (states, hits) =
    walk B segment plan stats options n states (shared (lso_object_type options) states) hits"
  using assms(2-5)
proof (induction "pending states" arbitrary: states hits rule: less_induct)
  case less
  let ?t = "lso_object_type options" and ?A = "ordered_active states"
  have r: "ready ?t states" and trm: "\<forall>s\<in>set states. ts_term s \<noteq> None" and n: "n = length states" and ne0: "states \<noteq> []"
    using less.prems by auto
  have w: "\<forall>s\<in>set states. walkable s" using r by (simp add: ready_def settled_def)
  have act: "active_states states = filter (\<lambda>i. ts_index (states ! i) < ts_count (states ! i)) [0..<length states]"
    by (rule ready_active[OF r])
  have st: "settled ?t (states ! i)" if "i < length states" for i using r that by (simp add: ready_def)
  show ?case
  proof (cases "\<forall>i<length states. ts_index (states ! i) < ts_count (states ! i)")
    case False
    then obtain i where i: "i < length states" "\<not> ts_index (states ! i) < ts_count (states ! i)" by blast
    have "length (active_states states) < length [0..<length states]" unfolding act by (rule length_filter_less[of i]) (use i in auto)
    then have short: "length (active_states states) < n" using n by simp
    have "keys ?t (states ! i) = {}" using remaining_Nil i w by simp
    then have "shared ?t states = {}" using nth_mem[OF i(1)] unfolding shared_def Collect_empty_eq by (metis empty_iff)
    then show ?thesis using search_step_end[of states options n B segment plan stats hits] short assms(1)
      by (subst search_loop.simps) (simp add: walk_def)
  next
    case idx: True
    have all: "active_states states = [0..<length states]" unfolding act using idx by (simp add: filter_id_conv)
    then have enough: "n \<le> length (active_states states)" using n by simp
    have ne: "active_states states \<noteq> []" using ne0 all by simp
    note A = active_order[OF ne]
    have "set (active_states states) = {..<length states}" unfolding all by auto
    then have sA: "set ?A = {..<length states}" by (simp only: A(2))
    note step = search_step_strict[OF assms(1) ne enough, of B segment plan stats hits]
    let ?k = "state_key states (last ?A)" and ?h = "state_key states (hd ?A)"
    have lastA: "last ?A < length states" and hdA: "hd ?A < length states" using A(1,4) by auto
    have rec: "search_loop B segment plan stats options n (states', hits') = walk B segment plan stats options n states' (shared ?t states') hits'"
      if h: "search_step B segment plan stats options n (states, hits) = Some (states', hits')" "moved_all ?t b states states'" for b states' hits'
    proof (rule less.hyps[OF search_step_walks[OF h(1)]])
      show "ready ?t states'" by (rule ready_moved[OF r h(2)])
      have l: "length states' = length states" and m: "\<And>i. i < length states \<Longrightarrow> same_list (states ! i) (states' ! i)"
        using h(2) by (auto simp: moved_all_def list_all2_conv_all_nth moved_def)
      show "\<forall>s\<in>set states'. ts_term s \<noteq> None"
        using trm m l same_listD unfolding all_set_conv_all_nth by metis
      show "states' \<noteq> []" "n = length states'" using l n ne0 by auto
    qed
    show ?thesis
    proof (cases "?h = ?k")
      case differ: False
      let ?u = "advance_lower ?k ?t (butlast ?A) states"
      have s: "search_step B segment plan stats options n (states, hits) = Some (?u, hits)"
        using step differ by (simp add: Let_def)
      have "distinct (butlast ?A)" "\<forall>i\<in>set (butlast ?A). i < length states"
        using A(3,4) by (auto simp: distinct_butlast dest: in_set_butlastD)
      from fold_update_nth[OF this, of "\<lambda>s. posting_key (current_posting s) < ?k" "\<lambda>s. state_advance_to s ?k ?t"]
      have up: "length ?u = length states" "\<And>j. j < length states \<Longrightarrow>
          ?u ! j = (if j \<in> set (butlast ?A) \<and> state_key states j < ?k then state_advance_to (states ! j) ?k ?t else states ! j)"
        unfolding advance_lower_def by blast+
      have mv: "moved_all ?t ?k states ?u"
      proof (rule moved_all_nth[OF up(1)])
        fix j assume j: "j < length states"
        show "moved ?t ?k (states ! j) (?u ! j)"
        proof (cases "state_key states j < ?k")
          case True
          then have "j \<in> set ?A" "j \<noteq> last ?A" using sA j by auto
          then have "j \<in> set (butlast ?A)" using A(1) by (metis append_butlast_last_id rotate1.simps(2) set_ConsD set_rotate1)
          then show ?thesis using up(2)[OF j] True moved_advance[OF st[OF j]] idx j by simp
        next
          case False
          then show ?thesis using up(2)[OF j] moved_refl[OF st[OF j]] by auto
        qed
      qed
      have "shared ?t ?u = shared ?t states"
        unfolding shared_moved[OF mv w ne0]
        using key_above_head[OF st[OF lastA]] nth_mem[OF lastA] by (auto simp: shared_def)
      moreover have "\<forall>k\<in>shared ?t states. ?k \<le> k"
        using key_above_head[OF st[OF lastA]] nth_mem[OF lastA] by (auto simp: shared_def)
      ultimately show ?thesis
        using rec[OF s mv] walk_moved[OF mv w, of "shared ?t states"] s by (subst search_loop.simps) simp
    next
      case same: True
      have eq: "state_key states i = ?h" if "i < length states" for i
        using A(5,6) sA that same by (metis lessThan_iff order_antisym)
      have "seek ?h (states ! i) = states ! i" if i: "i < length states" for i
        using seek_current[of "states ! i"] w idx i eq[OF i] nth_mem[OF i] by metis
      then have seek: "map (seek ?h) states = states" by (intro nth_equalityI) simp_all
      obtain states' where ev: "evaluate_pivot B segment plan stats options n ?A ?h (states, hits) =
          (states', visit B segment plan stats options n states ?h hits)" "moved_all ?t (?h + 1) states states'" "?h < ?h + 1"
        using evaluate_visits[OF r ne, of B segment plan stats n hits] seek by blast
      have s: "search_step B segment plan stats options n (states, hits) = Some (states', visit B segment plan stats options n states ?h hits)"
        using step same ev(1) by (simp add: Let_def)
      have in_sh: "?h \<in> shared ?t states"
        unfolding shared_def all_set_conv_all_nth
      proof (intro CollectI allI impI)
        fix i assume i: "i < length states"
        from head_key[OF st[OF i]] idx i have "state_key states i \<in> keys ?t (states ! i)" by blast
        then show "?h \<in> keys ?t (states ! i)" by (simp only: eq[OF i])
      qed
      have min: "\<forall>k\<in>shared ?t states. ?h \<le> k"
        using key_above_head[OF st[OF hdA]] nth_mem[OF hdA] by (auto simp: shared_def)
      have "shared ?t states' = shared ?t states - {?h}"
        unfolding shared_moved[OF ev(2) w ne0] using min ev(3) inc_le by (auto simp: order_le_less)
      from loop_visits[OF s ev(2) w in_sh min this rec[OF s ev(2)]] show ?thesis .
    qed
  qed
qed

subsection \<open>Searching for any term\<close>

definition any_of :: "u32 \<Rightarrow> TERM_STATE list \<Rightarrow> u64 set" where
  "any_of t states = (\<Union>s\<in>set states. keys t s)"

definition bounds_positive ::
  "'a bm25_ops \<Rightarrow> YAP_V2_LEXICAL_CORPUS_STATS \<Rightarrow> 'a YAP_V2_LEXICAL_SEARCH_OPTIONS \<Rightarrow> TERM_STATE list \<Rightarrow> bool" where
  "bounds_positive B stats options states \<longleftrightarrow> (\<forall>s\<in>set states. \<forall>i<ts_count s.
     sc_less (bm_score B) (sc_zero (bm_score B))
       (sc_add (bm_score B) (sc_zero (bm_score B)) (block_upper_bound B stats (s\<lparr>ts_index := i\<rparr>) options)))"

lemma UN_set_nth: "(\<Union>x\<in>set xs. f x) = (\<Union>i<length xs. f (xs ! i))"
proof
  show "(\<Union>x\<in>set xs. f x) \<subseteq> (\<Union>i<length xs. f (xs ! i))" by (auto simp: in_set_conv_nth)
  show "(\<Union>i<length xs. f (xs ! i)) \<subseteq> (\<Union>x\<in>set xs. f x)" by (auto intro: nth_mem)
qed

lemma any_of_moved:
  assumes "moved_all t b states states'" "\<forall>s\<in>set states. walkable s"
  shows "any_of t states' = {k \<in> any_of t states. b \<le> k}"
proof -
  have len: "length states' = length states" and m: "\<And>i. i < length states \<Longrightarrow> moved t b (states ! i) (states' ! i)"
    using assms(1) by (auto simp: moved_all_def list_all2_conv_all_nth)
  have e: "keys t (states' ! i) = {k \<in> keys t (states ! i). b \<le> k}" if "i < length states" for i
    using moved_keys[OF _ m[OF that]] assms(2) that by simp
  have u: "any_of t xs = (\<Union>i<length xs. keys t (xs ! i))" for xs
    unfolding any_of_def by (rule UN_set_nth)
  show ?thesis unfolding u len using e by blast
qed

lemma bounds_same:
  assumes "list_all2 same_list states states'" "bounds_positive B stats options states"
  shows "bounds_positive B stats options states'"
  using assms
proof (induction rule: list_all2_induct)
  case (Cons s ss s' ss')
  from Cons.hyps(1) obtain i where "s' = s\<lparr>ts_index := i\<rparr>" by (auto simp: same_list_def)
  then show ?case using Cons by (simp add: bounds_positive_def)
qed simp

lemma visit_length:
  "length hits < lso_top_k options \<Longrightarrow> length (visit B segment plan stats options n states k hits) \<le> Suc (length hits)"
  by (simp add: visit_def Let_def add_hit_def)

lemma search_lax:
  assumes "\<not> strict_search options" "ready (lso_object_type options) states" "bounds_positive B stats options states"
    "length hits + card (any_of (lso_object_type options) states) \<le> lso_top_k options"
  shows "search_loop B segment plan stats options n (states, hits) =
    walk B segment plan stats options n states (any_of (lso_object_type options) states) hits"
  using assms(2-4)
proof (induction "pending states" arbitrary: states hits rule: less_induct)
  case less
  let ?t = "lso_object_type options" and ?A = "ordered_active states" and ?h = "state_key states (hd (ordered_active states))"
  have r: "ready ?t states" and pos: "bounds_positive B stats options states" using less.prems by auto
  have w: "\<forall>s\<in>set states. walkable s" using r by (simp add: ready_def settled_def)
  have act: "active_states states = filter (\<lambda>i. ts_index (states ! i) < ts_count (states ! i)) [0..<length states]"
    by (rule ready_active[OF r])
  have st: "settled ?t (states ! i)" if "i < length states" for i using r that by (simp add: ready_def)
  show ?case
  proof (cases "active_states states = []")
    case True
    then have "keys ?t s = {}" if "s \<in> set states" for s
      using that w remaining_Nil[of s ?t] unfolding act by (auto simp: filter_empty_conv in_set_conv_nth)
    then have "any_of ?t states = {}" by (auto simp: any_of_def)
    then show ?thesis using search_step_end[of states options n B segment plan stats hits] True
      by (subst search_loop.simps) (simp add: walk_def)
  next
    case ne: False
    note A = active_order[OF ne]
    have hdA: "hd ?A < length states" "ts_index (states ! hd ?A) < ts_count (states ! hd ?A)"
      using hd_in_set[OF A(1)] A(2) active_bounds by auto
    have in_any: "?h \<in> any_of ?t states" unfolding any_of_def using head_key[OF st[OF hdA(1)] hdA(2)] nth_mem[OF hdA(1)] by blast
    have min: "\<forall>k\<in>any_of ?t states. ?h \<le> k"
    proof
      fix k assume "k \<in> any_of ?t states"
      then obtain i where i: "i < length states" "k \<in> keys ?t (states ! i)" unfolding any_of_def UN_set_nth by blast
      then have "ts_index (states ! i) < ts_count (states ! i)" "state_key states i \<le> k" using key_above_head[OF st] by blast+
      moreover have "?h \<le> state_key states i" using A(2,5) act i(1) calculation(1) by auto
      ultimately show "?h \<le> k" by simp
    qed
    have few: "length hits < lso_top_k options"
      using less.prems(3) in_any by (metis card_gt_0_iff empty_iff finite add_lessD1 less_add_same_cancel1 order_less_le_trans)
    obtain i rest where A1: "?A = i # rest" using A(1) by (cases ?A) auto
    have "sc_less (bm_score B) (sc_zero (bm_score B)) (sc_add (bm_score B) (sc_zero (bm_score B))
        (block_upper_bound B stats (states ! i) options))"
    proof -
      have i: "i < length states" "ts_index (states ! i) < ts_count (states ! i)" using hdA A1 by auto
      from pos i nth_mem[OF i(1)] have "sc_less (bm_score B) (sc_zero (bm_score B)) (sc_add (bm_score B) (sc_zero (bm_score B))
        (block_upper_bound B stats ((states ! i)\<lparr>ts_index := ts_index (states ! i)\<rparr>) options))"
        unfolding bounds_positive_def by blast
      then show ?thesis by simp
    qed
    then have p0: "find_pivot B stats options states (hit_threshold B hits (lso_top_k options)) ?A 0 (sc_zero (bm_score B)) = 0"
      using few by (simp add: A1 hit_threshold_def Let_def)
    have np: "\<not> lso_phrase options" using assms(1) by (simp add: strict_search_def)
    obtain states' where ev: "evaluate_pivot B segment plan stats options n ?A ?h (states, hits) =
        (states', visit B segment plan stats options n states ?h hits)" "moved_all ?t (?h + 1) states states'" "?h < ?h + 1"
      using evaluate_visits[OF r ne, of B segment plan stats n hits] np by blast
    have s: "search_step B segment plan stats options n (states, hits) = Some (states', visit B segment plan stats options n states ?h hits)"
      using search_step_lax[OF assms(1) ne, of B segment plan stats n hits] ev(1) A(1) by (simp add: p0 Let_def hd_conv_nth)
    have rest: "any_of ?t states' = any_of ?t states - {?h}"
      unfolding any_of_moved[OF ev(2) w] using min ev(3) inc_le by (auto simp: order_le_less)
    have "search_loop B segment plan stats options n (states', visit B segment plan stats options n states ?h hits) =
        walk B segment plan stats options n states' (any_of ?t states') (visit B segment plan stats options n states ?h hits)"
    proof (rule less.hyps[OF search_step_walks[OF s]])
      show "ready ?t states'" by (rule ready_moved[OF r ev(2)])
      have same: "list_all2 same_list states states'"
        using ev(2) unfolding moved_all_def by (rule list_all2_mono) (simp add: moved_def)
      show "bounds_positive B stats options states'"
        by (rule bounds_same[OF same pos])
      have "card (any_of ?t states) = Suc (card (any_of ?t states'))" unfolding rest by (rule card_Suc_Diff1[OF _ in_any, symmetric]) simp
      then show "length (visit B segment plan stats options n states ?h hits) + card (any_of ?t states') \<le> lso_top_k options"
        using visit_length[OF few, of B segment plan stats n states ?h] less.prems(3) by linarith
    qed
    from loop_visits[OF s ev(2) w in_any min rest this] show ?thesis .
  qed
qed

end
