(* ===== verification/Top_K.thy ===== *)
theory Top_K
  imports Vector_Search
begin

text \<open>
  Keeping the best \<open>k\<close> of a stream: a list of at most \<open>k\<close> elements that drops an element only for \<open>k\<close> better ones.
  The locale holds for elements with different tags that are strictly ordered; the lexical search interprets it.
\<close>

definition top_of :: "('a \<Rightarrow> 'a \<Rightarrow> bool) \<Rightarrow> nat \<Rightarrow> 'a list \<Rightarrow> 'a list \<Rightarrow> bool" where
  "top_of before k best all \<longleftrightarrow> length best = min k (length all) \<and>
     (\<exists>rest. mset all = mset best + mset rest \<and> (\<forall>x\<in>set best. \<forall>y\<in>set rest. before x y))"

lemma top_of_Nil: "top_of before k [] []"
  by (simp add: top_of_def)

lemma top_of_room: "length best < k \<Longrightarrow> top_of before k best all \<Longrightarrow> top_of before k (best @ [x]) (all @ [x])"
proof -
  assume few: "length best < k" and top: "top_of before k best all"
  obtain rest where r: "mset all = mset best + mset rest" "length best = min k (length all)" using top by (auto simp: top_of_def)
  have "length all = length best + length rest" using r(1) by (metis size_mset size_union)
  then have "rest = []" using r(2) few by (cases rest) auto
  then show ?thesis unfolding top_of_def using r few by (intro conjI exI[of _ "[]"]) auto
qed

locale strict_rank =
  fixes before :: "'a \<Rightarrow> 'a \<Rightarrow> bool" and ok :: "'a \<Rightarrow> bool" and tag :: "'a \<Rightarrow> 'b"
  assumes asym: "ok a \<Longrightarrow> ok b \<Longrightarrow> before a b \<Longrightarrow> \<not> before b a"
    and trans: "ok a \<Longrightarrow> ok b \<Longrightarrow> ok c \<Longrightarrow> before a b \<Longrightarrow> before b c \<Longrightarrow> before a c"
    and total: "ok a \<Longrightarrow> ok b \<Longrightarrow> tag a \<noteq> tag b \<Longrightarrow> before a b \<or> before b a"
begin

lemma top_of_reject:
  assumes top: "top_of before k best all" and k: "length best = k" and worst: "w \<in> set best" "\<forall>x\<in>set best. x = w \<or> before x w"
    and ok: "\<forall>y\<in>set (all @ [x]). ok y" and new: "before w x"
  shows "top_of before k best (all @ [x])"
proof -
  obtain rest where r: "mset all = mset best + mset rest" "\<forall>x\<in>set best. \<forall>y\<in>set rest. before x y"
    using top by (auto simp: top_of_def)
  have sub: "set best \<subseteq> set all" using r(1) by (metis mset_subset_eq_add_left set_mset_mono set_mset_mset)
  have "before b x" if b: "b \<in> set best" for b
  proof (cases "b = w")
    case False
    have "ok b" "ok w" "ok x" using ok sub worst(1) b by auto
    then show ?thesis using trans[of b w x] worst(2) new b False by blast
  qed (use new in simp)
  then show ?thesis using r top k unfolding top_of_def by (intro conjI exI[of _ "x # rest"]) auto
qed

lemma top_of_replace:
  assumes top: "top_of before k best all" and k: "length best = k" and i: "i < length best"
    and worst: "\<forall>j<length best. j \<noteq> i \<longrightarrow> before (best ! j) (best ! i)"
    and ok: "\<forall>y\<in>set (all @ [x]). ok y" and new: "before x (best ! i)"
  shows "top_of before k (best[i := x]) (all @ [x])"
proof -
  obtain rest where r: "mset all = mset best + mset rest" "\<forall>x\<in>set best. \<forall>y\<in>set rest. before x y"
    using top by (auto simp: top_of_def)
  have sub: "set best \<subseteq> set all" "set rest \<subseteq> set all"
    using r(1) by (metis mset_subset_eq_add_left mset_subset_eq_add_right set_mset_mono set_mset_mset)+
  have bi: "best ! i \<in> set best" using i by simp
  have m: "mset (best[i := x]) = add_mset x (mset best - {#best ! i#})" using i by (rule mset_update)
  have "mset (all @ [x]) = mset (best[i := x]) + mset (best ! i # rest)"
    unfolding m using r(1) bi by simp
  moreover have "before y z" if y: "y \<in> set (best[i := x])" and z: "z \<in> set (best ! i # rest)" for y z
  proof -
    obtain j where j: "j < length best" "y = best[i := x] ! j" using y by (auto simp: in_set_conv_nth)
    have yi: "before y (best ! i)" using j worst new i by (cases "j = i") auto
    have "ok y"
    proof (cases "j = i")
      case False
      then have "y \<in> set best" using j i by simp
      then show ?thesis using ok sub(1) by auto
    qed (use j ok i in simp)
    moreover have "ok (best ! i)" "\<forall>z\<in>set rest. ok z" using ok sub bi by auto
    ultimately show ?thesis using z yi r(2) bi trans[of y "best ! i" z] by auto
  qed
  moreover have "length (best[i := x]) = min k (length (all @ [x]))" using top k by (auto simp: top_of_def min_def split: if_splits)
  ultimately show ?thesis unfolding top_of_def by blast
qed

lemma sorted_by:
  assumes ok: "\<forall>x\<in>set xs. ok x" and d: "distinct (map tag xs)"
    and cmp: "\<And>x y. x \<in> set xs \<Longrightarrow> y \<in> set xs \<Longrightarrow> cmp x y \<le> (0 :: int) \<longleftrightarrow> before x y \<or> x = y"
  shows "sorted_wrt before (qsort_by cmp xs)"
proof -
  have inj: "tag x \<noteq> tag y \<or> x = y" if "x \<in> set xs" "y \<in> set xs" for x y
    using d that by (auto simp: distinct_map inj_on_def)
  have "sorted_wrt (\<lambda>x y. cmp x y \<le> 0) (qsort_by cmp xs)"
  proof (rule sorted_qsort_by)
    show "cmp x y \<le> 0 \<or> cmp y x \<le> 0" if h: "x \<in> set xs" "y \<in> set xs" for x y
      using cmp[OF h] cmp[OF h(2,1)] total[of x y] inj[OF h] ok h by auto
    show "cmp x z \<le> 0" if h: "x \<in> set xs" "y \<in> set xs" "z \<in> set xs" "cmp x y \<le> 0" "cmp y z \<le> 0" for x y z
      using h(4,5) cmp[OF h(1,2)] cmp[OF h(2,3)] cmp[OF h(1,3)] trans[of x y z] ok h(1-3) by auto
  qed
  moreover have "distinct (map tag (qsort_by cmp xs))" using d by (metis mset_map mset_qsort_by mset_eq_imp_distinct_iff)
  ultimately have "sorted_wrt (\<lambda>x y. cmp x y \<le> 0 \<and> tag x \<noteq> tag y) (qsort_by cmp xs)" by (rule sorted_wrt_distinct)
  then show ?thesis by (rule sorted_wrt_mono_rel[rotated]) (use cmp in \<open>auto simp: set_qsort_by\<close>)
qed

lemma top_of_sorted:
  assumes top: "top_of before k best all" and ok: "\<forall>x\<in>set all. ok x" and d: "distinct (map tag all)"
    and cmp: "\<And>x y. x \<in> set all \<Longrightarrow> y \<in> set all \<Longrightarrow> cmp x y \<le> (0 :: int) \<longleftrightarrow> before x y \<or> x = y"
  shows "qsort_by cmp best = take k (qsort_by cmp all)"
proof -
  obtain rest where r: "mset all = mset best + mset rest" "\<forall>x\<in>set best. \<forall>y\<in>set rest. before x y"
    and len: "length best = min k (length all)"
    using top by (auto simp: top_of_def)
  have sub: "set best \<subseteq> set all" "set rest \<subseteq> set all"
    using r(1) by (metis mset_subset_eq_add_left mset_subset_eq_add_right set_mset_mono set_mset_mset)+
  have "mset (map tag all) = mset (map tag (best @ rest))" using r(1) by simp
  then have dd: "distinct (map tag (best @ rest))" using d by (metis mset_eq_imp_distinct_iff)
  have "take k (qsort_by cmp best) = take k (qsort_by cmp all)"
  proof (rule merge_top_k)
    show "sorted_wrt before (qsort_by cmp all)" by (rule sorted_by[OF ok d cmp])
    show "sorted_wrt before (qsort_by cmp best)" by (rule sorted_by) (use ok dd cmp sub in auto)
    show "mset (qsort_by cmp all) = mset best + mset rest" by (simp add: mset_qsort_by r(1))
    show "mset (qsort_by cmp best) = mset best" by (rule mset_qsort_by)
    show "distinct (qsort_by cmp all)" using d by (simp add: libc.qs_distinct distinct_map)
    show "\<forall>x\<in>set (qsort_by cmp all). \<forall>y\<in>set (qsort_by cmp all). before x y \<longrightarrow> \<not> before y x"
      using asym ok by (auto simp: set_qsort_by)
    fix x assume x: "x \<in> set rest"
    have "length all = length best + length rest" using r(1) by (metis size_mset size_union)
    moreover have "0 < length rest" using x by (cases rest) auto
    ultimately have "k \<le> length best" using len by (simp add: min_def split: if_splits)
    moreover have "{y \<in> set best. before y x} = set best" using r(2) x by auto
    moreover have "card (set best) = length best" using dd by (simp add: distinct_map distinct_card)
    ultimately show "k \<le> card {y \<in> set best. before y x}" by simp
  qed
  moreover have "length (qsort_by cmp best) \<le> k" using len by (simp add: libc.qs_length)
  ultimately show ?thesis by simp
qed

end

end
