(* ===== verification/Lexical_Top.thy ===== *)
theory Lexical_Top
  imports Lexical_Exact Top_K "HOL-Library.Product_Lexorder"
begin

text \<open>
  The hits of a lexical search are the best \<open>top_k\<close> of all matching objects: \<open>add_hit\<close> keeps the best hits seen, and the
  walk over the posting lists sees every matching object.
\<close>

subsection \<open>The order of hits\<close>

definition rankable_hit :: "'a bm25_ops \<Rightarrow> 'a YAP_V2_LEXICAL_HIT \<Rightarrow> bool" where
  "rankable_hit B h \<longleftrightarrow> rank_laws (bm_score B) \<and> sc_isfinite (bm_score B) (lht_score h)"

abbreviation hit_object :: "'a YAP_V2_LEXICAL_HIT \<Rightarrow> u32 \<times> u64" where
  "hit_object h \<equiv> (lht_object_type h, lht_object_ordinal h)"

definition hit_before :: "'a bm25_ops \<Rightarrow> 'a YAP_V2_LEXICAL_HIT \<Rightarrow> 'a YAP_V2_LEXICAL_HIT \<Rightarrow> bool" where
  "hit_before B a b \<longleftrightarrow> hit_compare B a b < 0"

lemma object_order:
  "(if t \<noteq> t' then if t < t' then - 1 else 1 else if n \<noteq> n' then if n < n' then - 1 else 1 else (0 :: int)) =
     (if (t, n) < (t', n') then - 1 else if (t, n) = (t', n') then 0 else 1)" for t t' :: u32 and n n' :: u64
  by auto

lemma hit_compare_cases:
  assumes "rankable_hit B a" "rankable_hit B b"
  shows "hit_compare B a b = (if sc_less (bm_score B) (lht_score b) (lht_score a) then - 1
    else if sc_less (bm_score B) (lht_score a) (lht_score b) then 1
    else if hit_object a < hit_object b then - 1 else if hit_object a = hit_object b then 0 else 1)"
proof -
  have eq: "sc_eq (bm_score B) (lht_score a) (lht_score b) \<longleftrightarrow>
      \<not> sc_less (bm_score B) (lht_score a) (lht_score b) \<and> \<not> sc_less (bm_score B) (lht_score b) (lht_score a)"
    using assms by (auto simp: rankable_hit_def rank_laws_def)
  show ?thesis
    unfolding hit_compare_def eq object_order
    by (cases "sc_less (bm_score B) (lht_score a) (lht_score b)"; cases "sc_less (bm_score B) (lht_score b) (lht_score a)") simp_all
qed

lemma score_order:
  assumes "rankable_hit B a" "rankable_hit B b" "rankable_hit B c"
  shows "sc_less (bm_score B) (lht_score a) (lht_score b) \<Longrightarrow> \<not> sc_less (bm_score B) (lht_score b) (lht_score a)"
    "\<not> sc_less (bm_score B) (lht_score a) (lht_score b) \<Longrightarrow> \<not> sc_less (bm_score B) (lht_score b) (lht_score c) \<Longrightarrow>
     \<not> sc_less (bm_score B) (lht_score a) (lht_score c)"
  using assms unfolding rankable_hit_def rank_laws_def score_laws_def by blast+

lemma hit_before_iff:
  assumes "rankable_hit B a" "rankable_hit B b"
  shows "hit_before B a b \<longleftrightarrow> sc_less (bm_score B) (lht_score b) (lht_score a) \<or>
    (\<not> sc_less (bm_score B) (lht_score a) (lht_score b) \<and> hit_object a < hit_object b)"
  unfolding hit_before_def hit_compare_cases[OF assms] by simp

interpretation lexical_rank: strict_rank "hit_before B" "rankable_hit B" hit_object for B
proof
  fix a b c :: "'a YAP_V2_LEXICAL_HIT"
  assume ok: "rankable_hit B a" "rankable_hit B b"
  show "hit_before B a b \<Longrightarrow> \<not> hit_before B b a"
    using score_order(1)[OF ok ok(2)] score_order(1)[OF ok(2,1,2)] less_asym[of "hit_object a" "hit_object b"]
    unfolding hit_before_iff[OF ok] hit_before_iff[OF ok(2,1)] by blast
  show "hit_object a \<noteq> hit_object b \<Longrightarrow> hit_before B a b \<or> hit_before B b a"
    using less_linear[of "hit_object a" "hit_object b"] unfolding hit_before_iff[OF ok] hit_before_iff[OF ok(2,1)] by blast
  assume okc: "rankable_hit B c"
  assume ab: "hit_before B a b" and bc: "hit_before B b c"
  have n: "\<not> sc_less (bm_score B) (lht_score a) (lht_score b)" "\<not> sc_less (bm_score B) (lht_score b) (lht_score c)"
    using ab bc score_order(1)[OF ok(2,1,1)] score_order(1)[OF okc ok(2,2)]
    unfolding hit_before_iff[OF ok] hit_before_iff[OF ok(2) okc] by blast+
  note ac = score_order(2)[OF ok okc n]
  show "hit_before B a c"
  proof (cases "sc_less (bm_score B) (lht_score c) (lht_score a)")
    case True
    then show ?thesis unfolding hit_before_iff[OF ok(1) okc] by blast
  next
    case False
    have "\<not> sc_less (bm_score B) (lht_score b) (lht_score a)" by (rule score_order(2)[OF ok(2) okc ok(1) n(2) False])
    moreover have "\<not> sc_less (bm_score B) (lht_score c) (lht_score b)" by (rule score_order(2)[OF okc ok False n(1)])
    ultimately have "hit_object a < hit_object b" "hit_object b < hit_object c"
      using ab bc unfolding hit_before_iff[OF ok] hit_before_iff[OF ok(2) okc] by blast+
    then have "hit_object a < hit_object c" by (rule less_trans)
    then show ?thesis using ac unfolding hit_before_iff[OF ok(1) okc] by blast
  qed
qed

lemma hit_compare_le:
  assumes ok: "rankable_hit B a" "rankable_hit B b" and ne: "hit_object a \<noteq> hit_object b"
  shows "hit_compare B a b \<le> 0 \<longleftrightarrow> hit_before B a b"
  unfolding hit_before_def hit_compare_cases[OF ok] using ne by (simp only: if_split) simp

lemma worst_hit_last:
  assumes ok: "\<forall>h\<in>set hits. rankable_hit B h" and d: "distinct (map hit_object hits)"
  shows "0 < m \<Longrightarrow> m \<le> length hits \<Longrightarrow>
    (let w = fold (\<lambda>i worst. if hit_compare B (hits ! i) (hits ! worst) > 0 then i else worst) [1..<m] 0 in
     w < m \<and> (\<forall>j<m. j \<noteq> w \<longrightarrow> hit_before B (hits ! j) (hits ! w)))"
proof (induction m)
  case (Suc m)
  show ?case
  proof (cases "m = 0")
    case False
    let ?w = "fold (\<lambda>i worst. if hit_compare B (hits ! i) (hits ! worst) > 0 then i else worst) [1..<m] 0"
    have ih: "?w < m" "\<And>j. j < m \<Longrightarrow> j \<noteq> ?w \<Longrightarrow> hit_before B (hits ! j) (hits ! ?w)" using Suc False by (auto simp: Let_def)
    have ms: "m < length hits" "?w < length hits" using Suc.prems ih(1) by auto
    have okm: "rankable_hit B (hits ! i)" if "i < length hits" for i using ok that by simp
    have ne: "hit_object (hits ! m) \<noteq> hit_object (hits ! ?w)"
      using nth_eq_iff_index_eq[OF d, of m ?w] ms ih(1) by simp
    note le = hit_compare_le[OF okm[OF ms(1)] okm[OF ms(2)] ne]
    have up: "[1..<Suc m] = [1..<m] @ [m]" using False by simp
    show ?thesis
    proof (cases "hit_compare B (hits ! m) (hits ! ?w) > 0")
      case True
      then have "hit_before B (hits ! ?w) (hits ! m)"
        using le lexical_rank.total[OF okm[OF ms(1)] okm[OF ms(2)] ne] by simp
      then have "hit_before B (hits ! j) (hits ! m)" if "j < m" for j
        using ih(2)[OF that] lexical_rank.trans[OF okm okm okm, of j ?w m] that ms by (cases "j = ?w") auto
      moreover have f: "fold (\<lambda>i worst. if hit_compare B (hits ! i) (hits ! worst) > 0 then i else worst) [1..<Suc m] 0 = m"
        unfolding up using True by simp
      ultimately show ?thesis unfolding Let_def f by (simp add: less_Suc_eq)
    next
      case False
      then have "hit_before B (hits ! m) (hits ! ?w)" using le by simp
      moreover have f: "fold (\<lambda>i worst. if hit_compare B (hits ! i) (hits ! worst) > 0 then i else worst) [1..<Suc m] 0 = ?w"
        unfolding up using False by simp
      ultimately show ?thesis using ih unfolding Let_def f by (auto simp: less_Suc_eq)
    qed
  qed simp
qed simp

lemma add_hit_top:
  assumes top: "top_of (hit_before B) k hits all" and k: "0 < k" and ok: "\<forall>h\<in>set (all @ [x]). rankable_hit B h"
    and d: "distinct (map hit_object (all @ [x]))"
  shows "top_of (hit_before B) k (add_hit B k hits x) (all @ [x])"
proof (cases "length hits < k")
  case True
  then show ?thesis using top_of_room[OF True top] by (simp add: add_hit_def)
next
  case False
  obtain rest where m: "mset all = mset hits + mset rest" and len: "length hits = min k (length all)"
    using top by (auto simp: top_of_def)
  have sub: "set hits \<subseteq> set all" using m by (metis mset_subset_eq_add_left set_mset_mono set_mset_mset)
  have kl: "length hits = k" using False len by simp
  have "mset (map hit_object all) = mset (map hit_object (hits @ rest))" "distinct (map hit_object all)" using m d by simp_all
  then have "distinct (map hit_object (hits @ rest))" by (rule mset_eq_imp_distinct_iff[THEN iffD1])
  then have dh: "distinct (map hit_object hits)" by simp
  have okh: "\<forall>h\<in>set hits. rankable_hit B h" using ok sub by auto
  let ?w = "worst_hit B hits"
  have w: "?w < length hits" "\<And>j. j < length hits \<Longrightarrow> j \<noteq> ?w \<Longrightarrow> hit_before B (hits ! j) (hits ! ?w)"
    using worst_hit_last[OF okh dh, of "length hits"] k kl by (auto simp: worst_hit_def Let_def)
  have win: "hits ! ?w \<in> set hits" using w(1) by simp
  show ?thesis
  proof (cases "hit_compare B x (hits ! ?w) < 0")
    case True
    then have "hit_before B x (hits ! ?w)" by (simp add: hit_before_def)
    then have "top_of (hit_before B) k (hits[?w := x]) (all @ [x])"
      using lexical_rank.top_of_replace[OF top kl w(1) _ ok] w(2) by blast
    then show ?thesis using True False by (simp add: add_hit_def Let_def)
  next
    case reject: False
    have "hit_object (hits ! ?w) \<in> set (map hit_object all)" using subsetD[OF sub win] by (simp only: list.set_map) (rule imageI)
    moreover have "hit_object x \<notin> set (map hit_object all)" using d unfolding map_append by (simp only: distinct_append) simp
    ultimately have ne: "hit_object x \<noteq> hit_object (hits ! ?w)" by (intro notI) simp
    have "rankable_hit B x" "rankable_hit B (hits ! ?w)" using ok okh win by auto
    then have "hit_before B (hits ! ?w) x"
      using lexical_rank.total[OF _ _ ne] reject unfolding hit_before_def by blast
    moreover have "\<forall>h\<in>set hits. h = hits ! ?w \<or> hit_before B h (hits ! ?w)"
      using w(2) unfolding all_set_conv_all_nth by metis
    ultimately have "top_of (hit_before B) k hits (all @ [x])"
      using lexical_rank.top_of_reject[OF top kl win _ ok] by blast
    then show ?thesis using reject False by (simp add: add_hit_def Let_def)
  qed
qed

lemma add_hits_top:
  assumes "top_of (hit_before B) k hits all" "0 < k" "\<forall>h\<in>set (all @ new). rankable_hit B h" "distinct (map hit_object (all @ new))"
  shows "top_of (hit_before B) k (foldl (add_hit B k) hits new) (all @ new)"
  using assms
proof (induction new arbitrary: hits all)
  case (Cons x new)
  have "top_of (hit_before B) k (add_hit B k hits x) (all @ [x])" by (rule add_hit_top) (use Cons.prems in auto)
  from Cons.IH[OF this Cons.prems(2)] Cons.prems(3,4) show ?case by simp
qed simp

subsection \<open>The walk\<close>

definition matches ::
  "'a bm25_ops \<Rightarrow> YAP_V2_LEXICAL_SEGMENT \<Rightarrow> YAP_V2_LEXICAL_QUERY_PLAN \<Rightarrow> YAP_V2_LEXICAL_CORPUS_STATS \<Rightarrow>
     'a YAP_V2_LEXICAL_SEARCH_OPTIONS \<Rightarrow> nat \<Rightarrow> TERM_STATE list \<Rightarrow> u64 set \<Rightarrow> 'a YAP_V2_LEXICAL_HIT list" where
  "matches B segment plan stats options n states K =
     map (object_hit B stats options states)
       (filter (\<lambda>k. object_kept B segment plan options n states k (object_hit B stats options states k)) (sorted_list_of_set K))"

lemma key_parts: "push_bit 63 (ucast (key_type k - 1)) OR key_ordinal k = k"
proof (rule bit_word_eqI)
  fix n assume "n < LENGTH(64)"
  then have "n < 63 \<or> n = 63" by auto
  then show "bit (push_bit 63 (ucast (key_type k - 1)) OR key_ordinal k) n = bit k n"
    by (auto simp: key_type_def key_ordinal_def lexical_constants bit_simps)
qed

lemma walk_matches:
  "walk B segment plan stats options n states K hits =
     foldl (add_hit B (lso_top_k options)) hits (matches B segment plan stats options n states K)"
proof -
  have "fold (visit B segment plan stats options n states) ks hits = foldl (add_hit B (lso_top_k options)) hits
      (map (object_hit B stats options states)
        (filter (\<lambda>k. object_kept B segment plan options n states k (object_hit B stats options states k)) ks))" for ks
    by (induction ks arbitrary: hits) (simp_all add: visit_def Let_def)
  then show ?thesis by (simp add: walk_def matches_def)
qed

lemma matches_distinct: "distinct (map hit_object (matches B segment plan stats options n states K))"
proof -
  have "inj (\<lambda>k. (key_type k, key_ordinal k))"
    by (rule injI) (metis key_parts prod.inject)
  then have "inj_on (\<lambda>k. (key_type k, key_ordinal k)) S" for S by (rule inj_on_subset) simp
  then show ?thesis by (simp add: matches_def o_def object_hit_def distinct_map)
qed

lemma walk_top:
  assumes "\<forall>h\<in>set (matches B segment plan stats options n states K). rankable_hit B h" "0 < lso_top_k options"
  shows "qsort_by (hit_compare B) (walk B segment plan stats options n states K []) =
    take (lso_top_k options) (qsort_by (hit_compare B) (matches B segment plan stats options n states K))"
proof (rule lexical_rank.top_of_sorted[OF _ assms(1) matches_distinct])
  show "top_of (hit_before B) (lso_top_k options) (walk B segment plan stats options n states K [])
      (matches B segment plan stats options n states K)"
    using add_hits_top[OF top_of_Nil assms(2), of "matches B segment plan stats options n states K" B] assms(1)
      matches_distinct[of B segment plan stats options n states K]
    by (simp add: walk_matches)
  fix x y assume h: "x \<in> set (matches B segment plan stats options n states K)" "y \<in> set (matches B segment plan stats options n states K)"
  have "hit_object x \<noteq> hit_object y \<or> x = y"
    using matches_distinct[of B segment plan stats options n states K] h by (auto simp: distinct_map inj_on_def)
  then show "hit_compare B x y \<le> 0 \<longleftrightarrow> hit_before B x y \<or> x = y"
  proof
    assume "hit_object x \<noteq> hit_object y"
    then show ?thesis using hit_compare_le[of B x y] assms(1) h by blast
  next
    assume e: "x = y"
    have r: "rankable_hit B x" using assms(1) h by blast
    have "\<not> sc_less (bm_score B) (lht_score x) (lht_score x)" using score_order(1)[OF r r r] by blast
    then show ?thesis using e hit_compare_cases[OF r r] by simp
  qed
qed

end
