(* ===== verification/Lexical_Result.thy ===== *)
theory Lexical_Result
  imports Lexical_Top
begin

text \<open>
  The result of searching a segment that was opened from disk, compared with an exhaustive evaluation of all objects in
  the posting lists of the query's terms.
\<close>

subsection \<open>Keys of valid postings\<close>

lemma low_take: "(x :: u64) < 2 ^ 63 \<Longrightarrow> take_bit 63 x = x"
  by (simp only: take_bit_eq_mask less_mask_eq)

lemma low_bit: "(x :: u64) < 2 ^ 63 \<Longrightarrow> \<not> bit x 63"
  using low_take[of x] by (metis bit_take_bit_iff less_irrefl)

lemma posting_key_value:
  assumes "po_object_type p = YAP_V2_LEXICAL_DOCUMENT \<or> po_object_type p = YAP_V2_LEXICAL_PASSAGE" "po_object_ordinal p < 2 ^ 63"
  shows "posting_key p = (if po_object_type p = YAP_V2_LEXICAL_DOCUMENT then 0 else 2 ^ 63) + po_object_ordinal p"
proof (cases "po_object_type p = YAP_V2_LEXICAL_DOCUMENT")
  case True
  then show ?thesis by (simp add: posting_key_def lexical_constants)
next
  case False
  then have t: "po_object_type p = 2" using assms(1) by (simp add: lexical_constants)
  have "bit (2 ^ 63 :: u64) n \<longleftrightarrow> n = 63" for n by (simp only: bit_exp_iff) auto
  then have "(2 ^ 63 :: u64) + po_object_ordinal p = 2 ^ 63 OR po_object_ordinal p"
    using low_bit[OF assms(2)] by (intro disjunctive_add) (simp only:, metis)
  then show ?thesis using False by (simp add: posting_key_def t push_bit_eq_mult)
qed

lemma high_sum: "(x :: u64) < 2 ^ 63 \<Longrightarrow> unat (2 ^ 63 + x) = 2 ^ 63 + unat x"
proof -
  assume "x < 2 ^ 63"
  then have "unat x < 2 ^ 63" by (simp add: word_less_nat_alt)
  then show ?thesis by (simp add: unat_word_ariths)
qed

lemma posting_key_parts:
  assumes "posting_valid dc pc p" "dc < 2 ^ 63" "pc < 2 ^ 63"
  shows "posting_key p < - 1" "key_type (posting_key p) = po_object_type p" "key_ordinal (posting_key p) = po_object_ordinal p"
proof -
  have ty: "po_object_type p = YAP_V2_LEXICAL_DOCUMENT \<or> po_object_type p = YAP_V2_LEXICAL_PASSAGE"
    and o: "po_object_ordinal p < 2 ^ 63" "unat (po_object_ordinal p) < 2 ^ 63 - 1"
    using assms by (auto simp: posting_valid_def word_less_nat_alt intro: order.strict_trans)
  have u: "unat (posting_key p) < 2 ^ 64 - 1"
    unfolding posting_key_value[OF ty o(1)] using o(2) high_sum[OF o(1)] by auto
  then show "posting_key p < - 1" by (simp add: word_less_nat_alt unsigned_minus_1_eq_mask mask_eq_exp_minus_1)
  have b: "bit (posting_key p) 63 \<longleftrightarrow> po_object_type p \<noteq> YAP_V2_LEXICAL_DOCUMENT"
    using ty low_bit[OF o(1)] by (auto simp: posting_key_def lexical_constants bit_simps)
  then show "key_type (posting_key p) = po_object_type p" using ty by (auto simp: key_type_def)
  have "take_bit 63 (posting_key p) = take_bit 63 (po_object_ordinal p)"
    by (rule bit_word_eqI) (auto simp: posting_key_def bit_simps)
  then show "key_ordinal (posting_key p) = po_object_ordinal p"
    using low_take[OF o(1)] by (simp add: key_ordinal_def flip: take_bit_eq_mask)
qed

lemma posting_key_mono:
  assumes "posting_valid dc pc p" "posting_valid dc pc q" "dc < 2 ^ 63" "pc < 2 ^ 63" "posting_before p q"
  shows "posting_key p < posting_key q"
proof -
  have ty: "po_object_type r = YAP_V2_LEXICAL_DOCUMENT \<or> po_object_type r = YAP_V2_LEXICAL_PASSAGE"
    and o: "po_object_ordinal r < 2 ^ 63" if "posting_valid dc pc r" for r
    using assms(3,4) that by (auto simp: posting_valid_def intro: order.strict_trans)
  have un: "unat (po_object_ordinal r) < 2 ^ 63" if "posting_valid dc pc r" for r using o[OF that] by (simp add: word_less_nat_alt)
  have "unat (posting_key p) < unat (posting_key q)"
    unfolding posting_key_value[OF ty[OF assms(1)] o[OF assms(1)]] posting_key_value[OF ty[OF assms(2)] o[OF assms(2)]]
    using high_sum[OF o[OF assms(1)]] high_sum[OF o[OF assms(2)]] un[OF assms(1)] un[OF assms(2)] ty[OF assms(1)] ty[OF assms(2)] assms(5)
    by (auto simp: posting_before_def lexical_constants word_less_nat_alt)
  then show ?thesis by (simp add: word_less_nat_alt)
qed

subsection \<open>The states of the terms\<close>

lemma read_postings_list:
  "pit_index it + n = unat (te_document_frequency (pit_term it)) \<Longrightarrow>
   fst (read_postings n it) = posting_list (lx_maps (pit_segment it) ! 1) (pit_offset it) n"
proof (induction n arbitrary: it)
  case 0
  show ?case by (simp add: posting_list_def)
next
  case (Suc n)
  let ?it = "it\<lparr>pit_offset := pit_offset it + POSTING_BYTES, pit_index := pit_index it + 1\<rparr>"
  have "fst (read_postings n ?it) = posting_list (lx_maps (pit_segment it) ! 1) (pit_offset it + POSTING_BYTES) n"
    using Suc.IH[of ?it] Suc.prems by simp
  then show ?case using Suc.prems
    by (simp add: YAP_V2_posting_iterator_next_def posting_list_Suc split: prod.splits) (metis fst_conv)
qed

lemma term_state_fields:
  "ts_postings (term_state seg e f) = segment_postings seg e" "ts_count (term_state seg e f) = unat (te_document_frequency e)"
  "ts_index (term_state seg e f) = 0" "ts_term (term_state seg e f) = Some e"
proof -
  have "ts_postings (term_state seg e f) = fst (read_postings (unat (te_document_frequency e)) (YAP_V2_posting_iterator_init seg e))"
    by (simp add: term_state_def Let_def split_beta)
  also have "\<dots> = segment_postings seg e"
    unfolding segment_postings_list by (subst read_postings_list) (simp_all add: YAP_V2_posting_iterator_init_def Let_def)
  finally show "ts_postings (term_state seg e f) = segment_postings seg e" .
qed (simp_all add: term_state_def Let_def split_beta)

definition small_counts :: "YAP_V2_LEXICAL_SEGMENT \<Rightarrow> bool" where
  "small_counts seg \<longleftrightarrow> lx_document_count seg < 2 ^ 63 \<and> lx_passage_count seg < 2 ^ 63"

lemma term_state_walkable:
  assumes "entry_wellformed seg e" "small_counts seg"
  shows "walkable (term_state seg e f)"
proof -
  have v: "\<forall>p\<in>set (segment_postings seg e). posting_valid (lx_document_count seg) (lx_passage_count seg) p"
    and s: "sorted_wrt posting_before (segment_postings seg e)" using assms(1) by (auto simp: entry_wellformed_def)
  have c: "lx_document_count seg < 2 ^ 63" "lx_passage_count seg < 2 ^ 63" using assms(2) by (auto simp: small_counts_def)
  have "sorted_wrt (\<lambda>p q. posting_key p < posting_key q) (segment_postings seg e)"
    using s by (rule sorted_wrt_mono_rel[rotated]) (use posting_key_mono[OF _ _ c] v in blast)
  then show ?thesis
    using v posting_key_parts[OF _ c] by (auto simp: walkable_def term_state_fields segment_postings_list)
qed

subsection \<open>Binding a plan\<close>

abbreviation bound_entries :: "bytes list \<Rightarrow> YAP_V2_LEXICAL_SEGMENT option \<Rightarrow> YAP_V2_TERM_ENTRY option list" where
  "bound_entries terms segment \<equiv> (case segment of None \<Rightarrow> replicate (length terms) None
     | Some seg \<Rightarrow> map (\<lambda>t. YAP_V2_lexical_term_find seg (View t)) terms)"

lemma bind_terms_Inr:
  "bind_terms seg terms totals = Inr (entries, totals') \<Longrightarrow> length totals = length terms \<Longrightarrow>
   entries = map (\<lambda>t. YAP_V2_lexical_term_find seg (View t)) terms \<and> length totals' = length terms"
  by (induction seg terms totals arbitrary: entries totals' rule: bind_terms.induct)
    (auto simp: result_simps split: option.splits)

lemma bind_segments_Inr:
  "bind_segments terms segs totals = Inr (entries, totals') \<Longrightarrow> length totals = length terms \<Longrightarrow>
   entries = concat (map (bound_entries terms) segs) \<and> length totals' = length terms"
proof (induction terms segs totals arbitrary: entries totals' rule: bind_segments.induct)
  case (3 terms segment segments totals)
  then obtain es ts rest where "bind_terms segment terms totals = Inr (es, ts)"
    "bind_segments terms segments ts = Inr (rest, totals')" "entries = es @ rest" by (auto simp: result_simps)
  then show ?case using bind_terms_Inr[of segment terms totals es ts] "3.IH"[of "(es, ts)" es ts rest totals'] "3.prems"(2) by auto
qed (auto simp: result_simps)

lemma slice_concat:
  "\<forall>xs\<in>set xss. length xs = n \<Longrightarrow> i < length xss \<Longrightarrow> take n (drop (i * n) (concat xss)) = xss ! i"
proof (induction xss arbitrary: i)
  case (Cons xs xss)
  show ?case
  proof (cases i)
    case (Suc j)
    then show ?thesis using Cons by simp
  qed (use Cons.prems in simp)
qed simp

lemma bound_plan:
  assumes "YAP_V2_lexical_query_plan_bind mem plan0 segs = Inr plan" "seq_tokens (lqp_tokens plan) \<noteq> []"
    "i < length segs" "segs ! i = Some seg"
  obtains totals entries where "query_plan_valid plan" "lqp_segments plan = Some segs" "lqp_segment_terms plan = Some entries"
    "lqp_type_frequency plan = Some totals" "length totals = length (lqp_terms plan)" "lqp_terms plan \<noteq> []"
    "take (length (lqp_terms plan)) (drop (i * length (lqp_terms plan)) entries) =
       map (\<lambda>t. YAP_V2_lexical_term_find seg (View t)) (lqp_terms plan)"
proof -
  have v: "query_plan_valid plan0" using assms(1) by (auto simp: YAP_V2_lexical_query_plan_bind_def Let_def split: if_splits)
  have tk: "lqp_tokens plan = lqp_tokens plan0 \<and> lqp_terms plan = lqp_terms plan0 \<and> lqp_token_terms plan = lqp_token_terms plan0"
    using assms(1) by (auto simp: YAP_V2_lexical_query_plan_bind_def Let_def result_simps split: if_splits)
  have ne: "lqp_terms plan0 \<noteq> []" using v assms(2) tk by (auto simp: query_plan_valid_def Let_def)
  then obtain entries totals where b: "bind_segments (lqp_terms plan0) segs (replicate (length (lqp_terms plan0)) (0, 0)) = Inr (entries, totals)"
    "plan = plan0\<lparr>lqp_segments := Some segs, lqp_segment_terms := Some entries, lqp_type_frequency := Some totals\<rparr>"
    using assms(1) by (auto simp: YAP_V2_lexical_query_plan_bind_def Let_def result_simps split: if_splits)
  have e: "entries = concat (map (bound_entries (lqp_terms plan0)) segs)" "length totals = length (lqp_terms plan0)"
    using bind_segments_Inr[OF b(1)] by auto
  have "take (length (lqp_terms plan0)) (drop (i * length (lqp_terms plan0)) entries) = map (bound_entries (lqp_terms plan0)) segs ! i"
    unfolding e(1) by (rule slice_concat) (use assms(3) in \<open>auto split: option.splits\<close>)
  moreover have "query_plan_valid plan" using v by (simp only: query_plan_valid_def tk)
  ultimately show thesis using that[of entries totals] ne e(2) b(2) assms(3,4) by simp
qed

definition query_states :: "YAP_V2_LEXICAL_SEGMENT \<Rightarrow> YAP_V2_LEXICAL_QUERY_PLAN \<Rightarrow> TERM_STATE list" where
  "query_states seg plan =
     map2 (\<lambda>t frequency. case YAP_V2_lexical_term_find seg (View t) of None \<Rightarrow> null_state | Some e \<Rightarrow> term_state seg e frequency)
       (lqp_terms plan) (the (lqp_type_frequency plan))"

lemma init_states_total:
  "length entries = length totals \<Longrightarrow> init_states granted seg required entries totals =
     (if required \<and> None \<in> set entries then Inr None
      else Inr (Some (map2 (\<lambda>e f. case e of None \<Rightarrow> null_state | Some e \<Rightarrow> term_state seg e f) entries totals)))"
proof (induction entries totals rule: list_induct2)
  case (Cons e entries f totals)
  then show ?case by (cases e) auto
qed simp

lemma init_query_states:
  assumes "length totals = length (lqp_terms plan)" "lqp_type_frequency plan = Some totals"
  shows "init_states granted seg required (map (\<lambda>t. YAP_V2_lexical_term_find seg (View t)) (lqp_terms plan)) totals =
    (if required \<and> (\<exists>s\<in>set (query_states seg plan). ts_term s = None) then Inr None else Inr (Some (query_states seg plan)))"
proof -
  let ?es = "map (\<lambda>t. YAP_V2_lexical_term_find seg (View t)) (lqp_terms plan)"
  have q: "map2 (\<lambda>e f. case e of None \<Rightarrow> null_state | Some e \<Rightarrow> term_state seg e f) ?es totals = query_states seg plan"
    unfolding query_states_def assms(2) option.sel by (simp add: zip_map1 o_def split_beta)
  have "map ts_term (query_states seg plan) = ?es"
    using assms unfolding query_states_def
    by (simp add: o_def split_beta) (rule nth_equalityI, auto simp: null_state_def term_state_fields split: option.splits)
  then have "None \<in> set ?es \<longleftrightarrow> (\<exists>s\<in>set (query_states seg plan). ts_term s = None)" by (metis (mono_tags, lifting) imageE image_eqI list.set_map)
  then show ?thesis using init_states_total[of ?es totals seg required] assms(1) q by simp
qed

lemma query_states_walkable:
  assumes "te_sorted (lx_terms seg)" "\<forall>e\<in>set (lx_terms seg). entry_wellformed seg e" "small_counts seg" "s \<in> set (query_states seg plan)"
  shows "walkable s \<and> (ts_term s = None \<longrightarrow> ts_postings s = [])"
proof -
  obtain t f where s: "s = (case YAP_V2_lexical_term_find seg (View t) of None \<Rightarrow> null_state | Some e \<Rightarrow> term_state seg e f)"
    using assms(4) by (auto simp: query_states_def)
  show ?thesis
  proof (cases "YAP_V2_lexical_term_find seg (View t)")
    case None
    then show ?thesis by (simp add: s null_state_def walkable_def)
  next
    case (Some e)
    then have "e \<in> set (lx_terms seg)" using term_find_linear[OF assms(1)] by (auto simp: find_Some_iff)
    then show ?thesis using Some term_state_walkable assms(2,3) by (simp add: s term_state_fields)
  qed
qed

subsection \<open>The result\<close>

definition options_valid :: "'a bm25_ops \<Rightarrow> 'a YAP_V2_LEXICAL_SEARCH_OPTIONS \<Rightarrow> nat \<Rightarrow> bool" where
  "options_valid B options hit_capacity \<longleftrightarrow> 0 < lso_top_k options \<and> lso_top_k options \<le> hit_capacity \<and>
     lso_object_type options \<in> {0, YAP_V2_LEXICAL_DOCUMENT, YAP_V2_LEXICAL_PASSAGE} \<and>
     lso_query_operator options \<in> {YAP_V2_QUERY_OR, YAP_V2_QUERY_AND} \<and>
     list_all (\<lambda>boost. sc_isfinite (bm_score B) boost \<and> \<not> sc_less (bm_score B) boost (sc_zero (bm_score B))) (lso_field_boost options)"

definition frequencies_within :: "YAP_V2_LEXICAL_QUERY_PLAN \<Rightarrow> YAP_V2_LEXICAL_CORPUS_STATS \<Rightarrow> bool" where
  "frequencies_within plan stats \<longleftrightarrow> list_all (\<lambda>(documents, passages).
     documents \<le> lcs_document_count stats \<and> passages \<le> lcs_passage_count stats) (the (lqp_type_frequency plan))"

definition term_hits :: "TERM_STATE list \<Rightarrow> nat" where
  "term_hits states = length (filter (\<lambda>s. ts_term s \<noteq> None) states)"

abbreviation skip_states :: "u32 \<Rightarrow> TERM_STATE list \<Rightarrow> TERM_STATE list" where
  "skip_states t states \<equiv> map (\<lambda>s. if ts_term s \<noteq> None then state_skip_type s t else s) states"

lemma skip_states_moved:
  assumes "\<forall>s\<in>set states. walkable s \<and> (ts_term s = None \<longrightarrow> ts_postings s = [])"
  shows "moved_all t 0 states (skip_states t states)" "ready t (skip_states t states)"
proof -
  have m: "moved t 0 s (if ts_term s \<noteq> None then state_skip_type s t else s)" if s: "s \<in> set states" for s
  proof (cases "ts_term s = None")
    case True
    then show ?thesis using assms s by (auto simp: moved_def settled_def walkable_def remaining_def)
  next
    case False
    then show ?thesis using skip_type_remaining[of s t] assms s by (simp add: moved_def)
  qed
  then show mv: "moved_all t 0 states (skip_states t states)"
    by (auto simp: moved_all_def list_all2_conv_all_nth)
  show "ready t (skip_states t states)"
    unfolding ready_def
  proof
    fix s' assume "s' \<in> set (skip_states t states)"
    then obtain s where s: "s \<in> set states" "s' = (if ts_term s \<noteq> None then state_skip_type s t else s)" by auto
    from m[OF s(1)] have "same_list s s'" "settled t s'" by (auto simp: moved_def s(2))
    then show "settled t s' \<and> (ts_term s' = None \<longrightarrow> ts_postings s' = [])" using assms s(1) same_listD[of s s'] by auto
  qed
qed

lemma skip_term: "walkable s \<Longrightarrow> ts_term (state_skip_type s t) = ts_term s"
  using skip_type_remaining[of s t] same_listD by blast

lemma search_prepared_loop:
  assumes bind: "YAP_V2_lexical_query_plan_bind mem plan0 segs = Inr plan" "seq_tokens (lqp_tokens plan) \<noteq> []"
      "i < length segs" "segs ! i = Some seg"
    and valid: "options_valid B options hit_capacity" "frequencies_within plan stats"
  shows "YAP_V2_lexical_search_prepared granted B plan i stats options hit_capacity =
    (let states = query_states seg plan; n = term_hits states in
     if strict_search options \<and> (\<exists>s\<in>set states. ts_term s = None) \<or> n = 0 then Inr []
     else Inr (qsort_by (hit_compare B) (search_loop B seg plan stats options n (skip_states (lso_object_type options) states, []))))"
proof -
  from bind obtain totals entries where p: "query_plan_valid plan" "lqp_segments plan = Some segs" "lqp_segment_terms plan = Some entries"
    "lqp_type_frequency plan = Some totals" "length totals = length (lqp_terms plan)"
    "take (length (lqp_terms plan)) (drop (i * length (lqp_terms plan)) entries) =
       map (\<lambda>t. YAP_V2_lexical_term_find seg (View t)) (lqp_terms plan)"
    by (rule bound_plan)
  have opts: "\<not> (\<not> query_plan_valid plan \<or> lso_top_k options = 0 \<or> lso_top_k options > hit_capacity \<or>
         (lso_object_type options \<noteq> 0 \<and> lso_object_type options \<noteq> YAP_V2_LEXICAL_DOCUMENT \<and>
          lso_object_type options \<noteq> YAP_V2_LEXICAL_PASSAGE) \<or>
         (lso_query_operator options \<noteq> YAP_V2_QUERY_OR \<and> lso_query_operator options \<noteq> YAP_V2_QUERY_AND) \<or>
         \<not> list_all (\<lambda>boost. sc_isfinite (bm_score B) boost \<and> \<not> sc_less (bm_score B) boost (sc_zero (bm_score B))) (lso_field_boost options))"
    using valid(1) p(1) by (auto simp: options_valid_def)
  have freq: "list_all (\<lambda>(documents, passages). documents \<le> lcs_document_count stats \<and> passages \<le> lcs_passage_count stats) totals"
    using valid(2) p(4) by (simp add: frequencies_within_def)
  show ?thesis
    unfolding YAP_V2_lexical_search_prepared_def Let_def if_not_P[OF opts] if_not_P[OF bind(2)] p(2-4) p(6)
      init_query_states[OF p(5,4)] prod.case option.case bind(4)
    using bind(3) freq by (auto simp: term_hits_def result_simps)
qed

lemma query_walk:
  fixes options :: "'a YAP_V2_LEXICAL_SEARCH_OPTIONS"
  assumes wf: "te_sorted (lx_terms seg)" "\<forall>e\<in>set (lx_terms seg). entry_wellformed seg e" "small_counts seg"
    and ne: "query_states seg plan \<noteq> []"
  defines "S \<equiv> query_states seg plan" and "t \<equiv> lso_object_type options"
  shows "strict_search options \<Longrightarrow> \<forall>s\<in>set S. ts_term s \<noteq> None \<Longrightarrow>
      search_loop B seg plan stats options (term_hits S) (skip_states t S, []) =
        walk B seg plan stats options (term_hits S) S (shared t S) []"
    "\<not> strict_search options \<Longrightarrow> bounds_positive B stats options S \<Longrightarrow> card (any_of t S) \<le> lso_top_k options \<Longrightarrow>
      search_loop B seg plan stats options n (skip_states t S, []) = walk B seg plan stats options n S (any_of t S) []"
proof -
  have w: "\<forall>s\<in>set S. walkable s \<and> (ts_term s = None \<longrightarrow> ts_postings s = [])"
    using query_states_walkable[OF wf] by (simp add: S_def)
  then have ww: "\<forall>s\<in>set S. walkable s" by blast
  note mv = skip_states_moved[OF w, of t]
  {
    assume h: "strict_search options" "\<forall>s\<in>set S. ts_term s \<noteq> None"
    have trm: "\<forall>s\<in>set (skip_states t S). ts_term s \<noteq> None" using h(2) skip_term ww by simp
    have ne': "skip_states t S \<noteq> []" using ne by (simp add: S_def)
    have len: "term_hits S = length (skip_states t S)" using h(2) by (simp add: term_hits_def filter_id_conv)
    have "search_loop B seg plan stats options (term_hits S) (skip_states t S, []) =
        walk B seg plan stats options (term_hits S) (skip_states t S) (shared t (skip_states t S)) []"
      unfolding t_def by (rule search_strict[OF h(1) mv(2)[unfolded t_def] trm[unfolded t_def] ne'[unfolded t_def] len[unfolded t_def]])
    also have "shared t (skip_states t S) = shared t S" unfolding shared_moved[OF mv(1) ww ne[folded S_def]] by simp
    also have "walk B seg plan stats options (term_hits S) (skip_states t S) (shared t S) [] =
        walk B seg plan stats options (term_hits S) S (shared t S) []"
      unfolding t_def by (rule walk_moved[OF mv(1)[unfolded t_def] ww]) simp
    finally show "search_loop B seg plan stats options (term_hits S) (skip_states t S, []) =
        walk B seg plan stats options (term_hits S) S (shared t S) []" .
  next
    assume h: "\<not> strict_search options" "bounds_positive B stats options S" "card (any_of t S) \<le> lso_top_k options"
    have "list_all2 same_list S (skip_states t S)" using mv(1) unfolding moved_all_def by (rule list_all2_mono) (simp add: moved_def)
    then have "bounds_positive B stats options (skip_states t S)"
      using bounds_same h(2) by blast
    moreover have e: "any_of t (skip_states t S) = any_of t S" unfolding any_of_moved[OF mv(1) ww] by simp
    ultimately have "search_loop B seg plan stats options n (skip_states t S, []) =
        walk B seg plan stats options n (skip_states t S) (any_of t (skip_states t S)) []"
      using search_lax[OF h(1) mv(2)[unfolded t_def], of B stats "[]" seg plan n] h(3) by (simp only: t_def list.size(3) add_0)
    also note e
    also have "walk B seg plan stats options n (skip_states t S) (any_of t S) [] = walk B seg plan stats options n S (any_of t S) []"
      unfolding t_def by (rule walk_moved[OF mv(1)[unfolded t_def] ww]) simp
    finally show "search_loop B seg plan stats options n (skip_states t S, []) = walk B seg plan stats options n S (any_of t S) []" .
  }
qed

lemma null_keys: "walkable s \<and> (ts_term s = None \<longrightarrow> ts_postings s = []) \<Longrightarrow> ts_term s = None \<Longrightarrow> keys t s = {}"
  by (simp add: remaining_def)

lemma no_matches: "matches B seg plan stats options n states {} = []"
  by (simp add: matches_def)

definition searched ::
  "'a bm25_ops \<Rightarrow> YAP_V2_LEXICAL_SEGMENT \<Rightarrow> YAP_V2_LEXICAL_QUERY_PLAN \<Rightarrow> YAP_V2_LEXICAL_CORPUS_STATS \<Rightarrow>
     'a YAP_V2_LEXICAL_SEARCH_OPTIONS \<Rightarrow> u64 set \<Rightarrow> 'a YAP_V2_LEXICAL_HIT list" where
  "searched B seg plan stats options K = matches B seg plan stats options (term_hits (query_states seg plan)) (query_states seg plan) K"

lemma search_prepared_top:
  assumes bind: "YAP_V2_lexical_query_plan_bind mem plan0 segs = Inr plan" "seq_tokens (lqp_tokens plan) \<noteq> []"
      "i < length segs" "segs ! i = Some seg"
    and wf: "te_sorted (lx_terms seg)" "\<forall>e\<in>set (lx_terms seg). entry_wellformed seg e" "small_counts seg"
    and valid: "options_valid B options hit_capacity" "frequencies_within plan stats"
    and S: "S = query_states seg plan"
    and K: "strict_search options \<and> K = shared (lso_object_type options) S \<or>
      \<not> strict_search options \<and> K = any_of (lso_object_type options) S \<and> bounds_positive B stats options S \<and>
      card K \<le> lso_top_k options"
    and rank: "rank_laws (bm_score B)" "\<forall>h\<in>set (searched B seg plan stats options K). sc_isfinite (bm_score B) (lht_score h)"
  shows "YAP_V2_lexical_search_prepared granted B plan i stats options hit_capacity =
    Inr (take (lso_top_k options) (qsort_by (hit_compare B) (searched B seg plan stats options K)))"
proof -
  let ?t = "lso_object_type options" and ?n = "term_hits S"
  have ne: "query_states seg plan \<noteq> []"
    using bound_plan[OF bind] by (metis (no_types, lifting) length_0_conv length_map map_is_Nil_conv option.sel query_states_def zip_eq_Nil_iff)
  have w: "\<forall>s\<in>set S. walkable s \<and> (ts_term s = None \<longrightarrow> ts_postings s = [])" using query_states_walkable[OF wf] S by blast
  have null: "keys ?t s = {}" if "s \<in> set S" "ts_term s = None" for s using null_keys w that by blast
  note loop = search_prepared_loop[OF bind valid, unfolded Let_def, folded S]
  have top: "qsort_by (hit_compare B) (walk B seg plan stats options ?n S K []) =
      take (lso_top_k options) (qsort_by (hit_compare B) (searched B seg plan stats options K))"
    using walk_top[of B seg plan stats options ?n S K] rank valid(1) unfolding searched_def S[symmetric]
    by (auto simp: rankable_hit_def options_valid_def)
  show ?thesis
  proof (cases "strict_search options \<and> (\<exists>s\<in>set S. ts_term s = None) \<or> ?n = 0")
    case True
    have "K = {}"
    proof (cases "strict_search options \<and> (\<exists>s\<in>set S. ts_term s = None)")
      case strict: True
      then obtain s where "s \<in> set S" "keys ?t s = {}" using null by blast
      then have "shared ?t S = {}" unfolding shared_def Collect_empty_eq by (metis empty_iff)
      then show ?thesis using K strict by simp
    next
      case False
      then have "?n = 0" using True by blast
      then have none: "\<forall>s\<in>set S. ts_term s = None" by (simp add: term_hits_def filter_empty_conv)
      obtain s where "s \<in> set S" using ne S by (metis last_in_set)
      then show ?thesis using K null none False by (auto simp: any_of_def)
    qed
    then show ?thesis using loop True by (simp add: searched_def no_matches)
  next
    case False
    then have eq: "YAP_V2_lexical_search_prepared granted B plan i stats options hit_capacity =
        Inr (qsort_by (hit_compare B) (search_loop B seg plan stats options ?n (skip_states ?t S, [])))"
      using trans[OF loop if_not_P[OF False]] by blast
    have "search_loop B seg plan stats options ?n (skip_states ?t S, []) = walk B seg plan stats options ?n S K []"
      using K query_walk[OF wf ne, of options B stats, folded S] False by auto
    then show ?thesis using eq top by simp
  qed
qed

end
