(* ===== verification/Lexical_Answers.thy ===== *)
theory Lexical_Answers
  imports Lexical_Result
begin

text \<open>
  The theorems on the lexical search of a segment, a search in a small index, and an example in which the search for any
  term of a query loses a term of an object.
\<close>

subsection \<open>What a search returns\<close>



subsection \<open>A search in the small index\<close>

text \<open>Whole numbers in place of \<open>double\<close>.\<close>

definition whole_ops :: "int bm25_ops" where
  "whole_ops = \<lparr>bm_score = int_scores, bm_of_u64 = uint, bm_literal = (\<lambda>n d. int n div int d), bm_log1p = (\<lambda>x. x)\<rparr>"

definition note_plan :: YAP_V2_LEXICAL_QUERY_PLAN where
  "note_plan = YAP_V2_lexical_query_plan_init
     \<lparr>lqp_tokens := \<lparr>seq_normalized_utf8 = ascii ''body'',
        seq_tokens = [\<lparr>tok_byte_start = 0, tok_byte_end = 4, tok_char_start = 0, tok_char_end = 4\<rparr>]\<rparr>,
      lqp_terms := [ascii ''body''], lqp_token_terms := [0]\<rparr>"

lemma note_prepared: "YAP_V2_lexical_query_plan_prepare granted one_token (View (ascii ''body'')) = Inr note_plan"
  by (simp add: YAP_V2_lexical_query_plan_prepare_def one_token_def note_plan_def ascii_def YAP_V2_lexical_query_plan_init_def
      add_term_def token_bytes_def size_sub_def Let_def)










subsection \<open>A term that is lost\<close>

text \<open>
  A search for any term of a query can lose a term of an object. When the pivot is found behind the first list, every
  list before the pivot is moved with \<open>state_advance_to\<close>, which moves it at least one posting on, also when it already
  stands at the key of the pivot.
\<close>

definition plain_posting :: "u64 \<Rightarrow> YAP_V2_POSTING" where
  "plain_posting ordinal = \<lparr>po_object_type = YAP_V2_LEXICAL_DOCUMENT, po_object_ordinal = ordinal, po_term_frequency = [0, 1, 0],
     po_field_length = [0, 1, 0], po_position_offset = 0, po_position_count = 1\<rparr>"

text \<open>A term with the postings of the given documents in one block, of frequency and length one.\<close>

definition plain_state :: "u64 \<Rightarrow> u64 list \<Rightarrow> TERM_STATE" where
  "plain_state frequency ordinals =
     (let trm = \<lparr>te_term = [97], te_document_frequency = word_of_nat (length ordinals), te_postings_offset = 0, te_postings_bytes = 0,
            te_positions_offset = 0, te_positions_bytes = 0\<rparr>;
          segment = \<lparr>lx_maps = [[], put_u32 0 @ put_u32 (word_of_nat (length ordinals)) @ put_u32 1 @ put_u32 1, []], lx_generation = 1,
            lx_document_count = 8, lx_passage_count = 0, lx_posting_count = 0, lx_position_count = 0,
            lx_field_token_count = [0, 8, 0], lx_terms = []\<rparr> in
      \<lparr>ts_term = Some trm, ts_postings = map plain_posting ordinals, ts_count = length ordinals, ts_index = 0,
       ts_type_frequency = [frequency, 0],
       ts_blocks = Some \<lparr>pit_segment = segment, pit_term = trm, pit_offset = 0, pit_index = 0, pit_blocks_offset = 0\<rparr>\<rparr>)"

definition pruned_states :: "nat \<Rightarrow> nat \<Rightarrow> nat \<Rightarrow> TERM_STATE list" where
  "pruned_states i j k = [(plain_state 4 [1])\<lparr>ts_index := i\<rparr>, (plain_state 4 [5])\<lparr>ts_index := j\<rparr>, (plain_state 2 [0, 5])\<lparr>ts_index := k\<rparr>]"

definition pruned_options :: "int YAP_V2_LEXICAL_SEARCH_OPTIONS" where
  "pruned_options = (YAP_V2_lexical_search_options_init whole_ops)\<lparr>lso_object_type := YAP_V2_LEXICAL_DOCUMENT, lso_top_k := 1\<rparr>"

definition pruned_stats :: YAP_V2_LEXICAL_CORPUS_STATS where
  "pruned_stats = \<lparr>lcs_document_count = 8, lcs_passage_count = 0, lcs_field_token_count = [0, 8, 0]\<rparr>"

definition pruned_segment :: YAP_V2_LEXICAL_SEGMENT where
  "pruned_segment = pit_segment (the (ts_blocks (plain_state 4 [1])))"

abbreviation pruned_step :: "TERM_STATE list \<times> int YAP_V2_LEXICAL_HIT list \<Rightarrow> (TERM_STATE list \<times> int YAP_V2_LEXICAL_HIT list) option" where
  "pruned_step \<equiv> search_step whole_ops pruned_segment YAP_V2_lexical_query_plan_init pruned_stats pruned_options 3"

definition first_hit :: "int YAP_V2_LEXICAL_HIT" where
  "first_hit = \<lparr>lht_object_type = YAP_V2_LEXICAL_DOCUMENT, lht_object_ordinal = 0, lht_score = 3, lht_matched_terms = 1\<rparr>"

lemma pruned_third:
  "active_states (pruned_states 1 1 1) = [2]"
  "find_pivot whole_ops pruned_stats pruned_options (pruned_states 1 1 1) (hit_threshold whole_ops [first_hit] 1) [2] 0 0 = 0"
  "evaluate_pivot whole_ops pruned_segment YAP_V2_lexical_query_plan_init pruned_stats pruned_options 3 [2]
     (state_key (pruned_states 1 1 1) 2) (pruned_states 1 1 1, [first_hit]) = (pruned_states 1 1 2, [first_hit])"
  by code_simp+

lemma pruned_rounds:
  "pruned_step (pruned_states 0 0 0, []) = Some (pruned_states 0 0 1, [first_hit])"
  "pruned_step (pruned_states 0 0 1, [first_hit]) = Some (pruned_states 1 1 1, [first_hit])"
  "pruned_step (pruned_states 1 1 1, [first_hit]) = Some (pruned_states 1 1 2, [first_hit])"
  "pruned_step (pruned_states 1 1 2, [first_hit]) = None"
proof -
  have lax: "\<not> strict_search pruned_options" "lso_top_k pruned_options = 1" "sc_zero (bm_score whole_ops) = 0" by code_simp+
  show "pruned_step (pruned_states 1 1 1, [first_hit]) = Some (pruned_states 1 1 2, [first_hit])"
  proof -
    have ord: "ordered_active (pruned_states 1 1 1) = [2]" and ne: "active_states (pruned_states 1 1 1) \<noteq> []"
      unfolding pruned_third(1) by simp_all
    show ?thesis
      unfolding search_step_lax[OF lax(1) ne] Let_def ord lax(2,3) pruned_third(2) by (simp add: pruned_third(3)[simplified])
  qed
qed code_simp+

text \<open>
  Three terms, of which the second and the third occur in document 5 and the third alone in document 0: asked for the
  best document, the search answers document 0, although document 5 scores higher.
\<close>

lemma pruning_loses_term:
  "search_loop whole_ops pruned_segment YAP_V2_lexical_query_plan_init pruned_stats pruned_options 3 (pruned_states 0 0 0, []) = [first_hit]"
  "lht_score first_hit < object_score whole_ops pruned_stats pruned_options (pruned_states 0 0 0) 5"
proof -
  show "search_loop whole_ops pruned_segment YAP_V2_lexical_query_plan_init pruned_stats pruned_options 3 (pruned_states 0 0 0, []) = [first_hit]"
    by (simp add: search_loop.simps[of whole_ops pruned_segment] pruned_rounds del: One_nat_def)
  show "lht_score first_hit < object_score whole_ops pruned_stats pruned_options (pruned_states 0 0 0) 5"
    by code_simp
qed

end
